(* ===== verification/Tulya_Prelude.thy ===== *)
theory Tulya_Prelude
  imports Main "HOL-Library.Word"
begin

text \<open>
  Shared vocabulary of the development: machine integers, Rust results, byte strings, the
  environment the code runs in, and the state-and-error computations in which the mutating
  functions are written.

  \<^item> Unsigned machine integers are natural numbers.  Every place where the source uses a
    checked, saturating or fallible conversion is written out with the width of the type
    (\<open>width16\<close>, \<open>width32\<close>, \<open>width64\<close>), so the range tests of the source are range tests of the
    model.  \<open>usize\<close> is 64 bits wide.
  \<^item> \<open>Result<T, E>\<close> is the sum \<open>E + T\<close> (\<open>Inl\<close> is \<open>Err\<close>); \<open>?\<close> is \<open>bindR\<close>.
  \<^item> A function that mutates through \<open>&mut\<close> and may also fail is a \<open>prog\<close>: it returns the
    outcome together with the state it leaves behind, because an error in Rust does not undo
    what was already written.  The outer \<open>option\<close> is \<open>None\<close> exactly when the recursion does
    not end.
\<close>

section \<open>Machine integers\<close>

type_synonym byte = "8 word"
type_synonym u8 = nat
type_synonym u16 = nat
type_synonym u32 = nat
type_synonym u64 = nat
type_synonym usize = nat
type_synonym msg = string

definition width16 :: nat where
  "width16 = 2 ^ 16"

definition width32 :: nat where
  "width32 = 2 ^ 32"

definition width64 :: nat where
  "width64 = 2 ^ 64"

definition checked_add :: "nat \<Rightarrow> nat \<Rightarrow> nat \<Rightarrow> nat option" where
  "checked_add w a b = (if a + b < w then Some (a + b) else None)"

definition checked_mul :: "nat \<Rightarrow> nat \<Rightarrow> nat \<Rightarrow> nat option" where
  "checked_mul w a b = (if a * b < w then Some (a * b) else None)"

definition checked_sub :: "nat \<Rightarrow> nat \<Rightarrow> nat option" where
  "checked_sub a b = (if b \<le> a then Some (a - b) else None)"

definition saturating_add :: "nat \<Rightarrow> nat \<Rightarrow> nat \<Rightarrow> nat" where
  "saturating_add w a b = min (a + b) (w - 1)"

definition try_from :: "nat \<Rightarrow> nat \<Rightarrow> nat option" where
  "try_from w n = (if n < w then Some n else None)"

definition abs_diff :: "nat \<Rightarrow> nat \<Rightarrow> nat" where
  "abs_diff a b = (if a \<le> b then b - a else a - b)"

lemma checked_add_Some_iff: "checked_add w a b = Some c \<longleftrightarrow> c = a + b \<and> a + b < w"
  by (auto simp: checked_add_def)

lemma checked_add_None_iff: "checked_add w a b = None \<longleftrightarrow> w \<le> a + b"
  by (auto simp: checked_add_def)

lemma checked_sub_Some_iff: "checked_sub a b = Some c \<longleftrightarrow> c = a - b \<and> b \<le> a"
  by (auto simp: checked_sub_def)

lemma checked_mul_Some_iff: "checked_mul w a b = Some c \<longleftrightarrow> c = a * b \<and> a * b < w"
  by (auto simp: checked_mul_def)

lemma try_from_Some_iff: "try_from w n = Some m \<longleftrightarrow> m = n \<and> n < w"
  by (auto simp: try_from_def)

lemma try_from_None_iff: "try_from w n = None \<longleftrightarrow> w \<le> n"
  by (auto simp: try_from_def)

lemma abs_diff_le_1_iff: "abs_diff a b \<le> Suc 0 \<longleftrightarrow> a \<le> Suc b \<and> b \<le> Suc a"
  by (auto simp: abs_diff_def)

lemma width64_pos [simp]: "0 < width64"
  by (simp add: width64_def)

lemma width16_le_width64: "width16 \<le> width64"
  by (simp add: width16_def width64_def)

section \<open>Results\<close>

definition bindR :: "'e + 'a \<Rightarrow> ('a \<Rightarrow> 'e + 'b) \<Rightarrow> 'e + 'b" where
  "bindR r k = (case r of Inl e \<Rightarrow> Inl e | Inr x \<Rightarrow> k x)"

definition ok_or :: "'e \<Rightarrow> 'a option \<Rightarrow> 'e + 'a" where
  "ok_or e m = (case m of None \<Rightarrow> Inl e | Some x \<Rightarrow> Inr x)"

definition map_err :: "('e \<Rightarrow> 'f) \<Rightarrow> 'e + 'a \<Rightarrow> 'f + 'a" where
  "map_err f r = (case r of Inl e \<Rightarrow> Inl (f e) | Inr x \<Rightarrow> Inr x)"

definition is_ok :: "'e + 'a \<Rightarrow> bool" where
  "is_ok r = (case r of Inl _ \<Rightarrow> False | Inr _ \<Rightarrow> True)"

lemma bindR_simps [simp]:
  "bindR (Inl e) k = Inl e"
  "bindR (Inr x) k = k x"
  by (simp_all add: bindR_def)

lemma ok_or_simps [simp]:
  "ok_or e None = Inl e"
  "ok_or e (Some x) = Inr x"
  by (simp_all add: ok_or_def)

lemma map_err_simps [simp]:
  "map_err f (Inl e) = Inl (f e)"
  "map_err f (Inr x) = Inr x"
  by (simp_all add: map_err_def)

lemma is_ok_simps [simp]:
  "\<not> is_ok (Inl e)"
  "is_ok (Inr x)"
  by (simp_all add: is_ok_def)

lemma is_ok_iff: "is_ok r \<longleftrightarrow> (\<exists>x. r = Inr x)"
  by (cases r) auto

lemma bindR_Inr_iff: "bindR r k = Inr y \<longleftrightarrow> (\<exists>x. r = Inr x \<and> k x = Inr y)"
  by (cases r) auto

lemma bindR_Inl_iff: "bindR r k = Inl e \<longleftrightarrow> r = Inl e \<or> (\<exists>x. r = Inr x \<and> k x = Inl e)"
  by (cases r) auto

lemma ok_or_Inr_iff: "ok_or e m = Inr x \<longleftrightarrow> m = Some x"
  by (cases m) auto

lemma ok_or_Inl_iff: "ok_or e m = Inl f \<longleftrightarrow> m = None \<and> f = e"
  by (cases m) auto

lemma map_err_Inr_iff: "map_err f r = Inr x \<longleftrightarrow> r = Inr x"
  by (cases r) auto

lemma map_err_Inl_iff: "map_err f r = Inl e \<longleftrightarrow> (\<exists>e'. r = Inl e' \<and> e = f e')"
  by (cases r) auto

lemmas result_iffs =
  bindR_Inr_iff bindR_Inl_iff ok_or_Inr_iff ok_or_Inl_iff map_err_Inr_iff map_err_Inl_iff

lemmas checked_iffs =
  checked_add_Some_iff checked_add_None_iff checked_sub_Some_iff checked_mul_Some_iff
  try_from_Some_iff try_from_None_iff

text \<open>\<open>for x in xs { out.push(f(x)?); }\<close>\<close>

fun traverse :: "('a \<Rightarrow> 'e + 'b) \<Rightarrow> 'a list \<Rightarrow> 'e + 'b list" where
  "traverse f [] = Inr []"
| "traverse f (x # xs) = bindR (f x) (\<lambda>y. bindR (traverse f xs) (\<lambda>ys. Inr (y # ys)))"

lemma traverse_Inr_iff: "traverse f xs = Inr ys \<longleftrightarrow> list_all2 (\<lambda>x y. f x = Inr y) xs ys"
proof (induction xs arbitrary: ys)
  case (Cons x xs)
  show ?case
    by (cases ys) (auto simp: result_iffs Cons.IH)
qed auto

lemma traverse_map_Inr: "(\<And>x. x \<in> set xs \<Longrightarrow> f x = Inr (g x)) \<Longrightarrow> traverse f xs = Inr (map g xs)"
  by (induction xs) auto

section \<open>Byte strings\<close>

text \<open>\<open>bytes.get(a..b)\<close>: the half-open range when it lies inside the slice.\<close>

definition slice_get :: "'a list \<Rightarrow> nat \<Rightarrow> nat \<Rightarrow> 'a list option" where
  "slice_get xs a b = (if a \<le> b \<and> b \<le> length xs then Some (take (b - a) (drop a xs)) else None)"

definition get_at :: "'a list \<Rightarrow> nat \<Rightarrow> 'a option" where
  "get_at xs i = (if i < length xs then Some (xs ! i) else None)"

lemma slice_get_Some_iff:
  "slice_get xs a b = Some ys \<longleftrightarrow> a \<le> b \<and> b \<le> length xs \<and> ys = take (b - a) (drop a xs)"
  by (auto simp: slice_get_def)

lemma slice_get_length: "slice_get xs a b = Some ys \<Longrightarrow> length ys = b - a"
  by (auto simp: slice_get_Some_iff)

lemma get_at_Some_iff: "get_at xs i = Some x \<longleftrightarrow> i < length xs \<and> x = xs ! i"
  by (auto simp: get_at_def)

lemma get_at_in_set: "get_at xs i = Some x \<Longrightarrow> x \<in> set xs"
  by (auto simp: get_at_Some_iff)

lemma get_at_None_iff: "get_at xs i = None \<longleftrightarrow> length xs \<le> i"
  by (auto simp: get_at_def)

lemma slice_get_append1:
  "b \<le> length xs \<Longrightarrow> slice_get (xs @ ys) a b = slice_get xs a b"
  by (simp add: slice_get_def)

lemma slice_get_suffix: "slice_get (xs @ ys) (length xs) (length xs + length ys) = Some ys"
  by (simp add: slice_get_def)

lemma slice_get_slice:
  assumes "slice_get xs a b = Some ys" and "i \<le> j" and "j \<le> length ys"
  shows "slice_get xs (a + i) (a + j) = Some (take (j - i) (drop i ys))"
proof -
  from assms have "b \<le> length xs" "a \<le> b" "ys = take (b - a) (drop a xs)" "j \<le> b - a"
    by (auto simp: slice_get_Some_iff)
  moreover have "take (j - i) (drop i (take (b - a) (drop a xs))) = take (j - i) (drop (a + i) xs)"
    using assms(2) \<open>j \<le> b - a\<close> by (simp add: drop_take min_def add.commute)
  ultimately show ?thesis
    using assms(2) by (simp add: slice_get_def)
qed

text \<open>A byte string cut into consecutive fields of given widths and a rest.\<close>

fun cut :: "nat list \<Rightarrow> 'a list \<Rightarrow> 'a list list" where
  "cut [] xs = [xs]"
| "cut (n # ns) xs = take n xs # cut ns (drop n xs)"

lemma concat_cut: "concat (cut ns xs) = xs"
  by (induction ns arbitrary: xs) auto

lemma take_1_drop: "k < length xs \<Longrightarrow> take 1 (drop k xs) = [xs ! k]"
  by (simp add: take_Suc_conv_app_nth)

text \<open>Little-endian integers: \<open>to_le_bytes\<close> and \<open>from_le_bytes\<close>.\<close>

fun le_bytes :: "nat \<Rightarrow> nat \<Rightarrow> byte list" where
  "le_bytes 0 n = []"
| "le_bytes (Suc k) n = word_of_nat n # le_bytes k (n div 256)"

fun le_nat :: "byte list \<Rightarrow> nat" where
  "le_nat [] = 0"
| "le_nat (b # bs) = unat b + 256 * le_nat bs"

lemma length_le_bytes [simp]: "length (le_bytes k n) = k"
  by (induction k arbitrary: n) auto

lemma unat_byte_less: "unat (b :: byte) < 256"
proof -
  have "unat b < 2 ^ LENGTH(8)"
    by (rule unsigned_less)
  then show ?thesis by simp
qed

lemma le_nat_bound: "le_nat bs < 256 ^ length bs"
proof (induction bs)
  case (Cons b bs)
  have "unat b < 256"
    by (rule unat_byte_less)
  with Cons show ?case
    by simp
qed simp

lemma unat_byte_of_nat: "unat (word_of_nat n :: byte) = n mod 256"
  by (simp add: unat_of_nat)

lemma le_nat_le_bytes_mod: "le_nat (le_bytes k n) = n mod 256 ^ k"
proof (induction k arbitrary: n)
  case (Suc k)
  have "n mod (256 * 256 ^ k) = 256 * (n div 256 mod 256 ^ k) + n mod 256"
    by (rule mod_mult2_eq)
  with Suc show ?case
    by (simp add: unat_byte_of_nat)
qed simp

lemma le_nat_le_bytes [simp]: "n < 256 ^ k \<Longrightarrow> le_nat (le_bytes k n) = n"
  by (simp add: le_nat_le_bytes_mod)

lemma le_bytes_le_nat: "le_bytes (length bs) (le_nat bs) = bs"
proof (induction bs)
  case (Cons b bs)
  have lt: "unat b < 256"
    by (rule unat_byte_less)
  then have "(unat b + 256 * le_nat bs) div 256 = le_nat bs"
    by simp
  moreover have "(word_of_nat (unat b + 256 * le_nat bs) :: byte) = b"
    using lt by (metis mod_less mod_mult_self2 unat_byte_of_nat word_unat_eq_iff)
  ultimately show ?case
    using Cons by simp
qed simp

lemma le_bytes_le_nat' [simp]: "length bs = k \<Longrightarrow> le_bytes k (le_nat bs) = bs"
  using le_bytes_le_nat by blast

lemma le_bytes_eqI: "length bs = k \<Longrightarrow> le_nat bs = n \<Longrightarrow> le_bytes k n = bs"
  by auto

lemma le_nat_eqD: "le_nat xs = le_nat ys \<Longrightarrow> length xs = length ys \<Longrightarrow> xs = ys"
  by (metis le_bytes_le_nat)

lemma le_bytes_inject:
  "m < 256 ^ k \<Longrightarrow> n < 256 ^ k \<Longrightarrow> le_bytes k m = le_bytes k n \<longleftrightarrow> m = n"
  by (metis le_nat_le_bytes)

lemma width_powers: "width16 = 256 ^ 2" "width32 = 256 ^ 4" "width64 = 256 ^ 8"
  by (simp_all add: width16_def width32_def width64_def)

lemma le_nat_le_bytes_width [simp]:
  "n < width16 \<Longrightarrow> le_nat (le_bytes 2 n) = n"
  "n < width32 \<Longrightarrow> le_nat (le_bytes 4 n) = n"
  "n < width64 \<Longrightarrow> le_nat (le_bytes 8 n) = n"
  by (simp_all add: width_powers del: le_bytes.simps)

lemma le_nat_width:
  "length bs = 2 \<Longrightarrow> le_nat bs < width16"
  "length bs = 4 \<Longrightarrow> le_nat bs < width32"
  "length bs = 8 \<Longrightarrow> le_nat bs < width64"
  using le_nat_bound [of bs] by (simp_all add: width_powers)

text \<open>ASCII text as bytes: the \<open>b"..."\<close> literals of the source.\<close>

definition ascii :: "string \<Rightarrow> byte list" where
  "ascii s = map (\<lambda>c. word_of_nat (of_char c)) s"

lemma length_ascii [simp]: "length (ascii s) = length s"
  by (simp add: ascii_def)

section \<open>The environment\<close>

text \<open>
  Two things the code calls and does not define.  \<open>sha256\<close> is the digest of the \<open>sha2\<close> crate:
  a deterministic function of the bytes fed to the hasher, 32 bytes long.  \<open>try_reserve\<close> is
  the allocator behind \<open>Vec::try_reserve\<close> and its relatives: it may refuse any reservation;
  a call site is named by the message of the error it raises and by the number of entries.
\<close>

record env =
  sha256 :: "byte list \<Rightarrow> byte list"
  try_reserve :: "msg \<Rightarrow> nat \<Rightarrow> bool"

definition sha_ok :: "env \<Rightarrow> bool" where
  "sha_ok E \<longleftrightarrow> (\<forall>x. length (sha256 E x) = 32)"

lemma sha_okD [simp]: "sha_ok E \<Longrightarrow> length (sha256 E x) = 32"
  by (simp add: sha_ok_def)

text \<open>A concrete environment for evaluating the model on examples.\<close>

definition sample_env :: env where
  "sample_env = \<lparr>sha256 = (\<lambda>x. take 32 (rev x @ replicate 32 0)), try_reserve = (\<lambda>_ _. True)\<rparr>"

lemma sample_env_ok: "sha_ok sample_env"
  by (auto simp: sha_ok_def sample_env_def)

section \<open>Computations with state and errors\<close>

type_synonym ('s, 'e, 'a) prog = "'s \<Rightarrow> (('e + 'a) \<times> 's) option"

definition retP :: "'a \<Rightarrow> ('s, 'e, 'a) prog" where
  "retP x s = Some (Inr x, s)"

definition failP :: "'e \<Rightarrow> ('s, 'e, 'a) prog" where
  "failP e s = Some (Inl e, s)"

definition liftP :: "'e + 'a \<Rightarrow> ('s, 'e, 'a) prog" where
  "liftP r s = Some (r, s)"

definition readP :: "('s \<Rightarrow> 'e + 'a) \<Rightarrow> ('s, 'e, 'a) prog" where
  "readP f s = Some (f s, s)"

definition bindP :: "('s, 'e, 'a) prog \<Rightarrow> ('a \<Rightarrow> ('s, 'e, 'b) prog) \<Rightarrow> ('s, 'e, 'b) prog" where
  "bindP m k s = Option.bind (m s) (\<lambda>(r, s').
     case r of Inl e \<Rightarrow> Some (Inl e, s') | Inr x \<Rightarrow> k x s')"

lemma bindP_mono [partial_function_mono]:
  assumes "mono_option (\<lambda>f. m f s)" and "\<And>x s'. mono_option (\<lambda>f. k x f s')"
  shows "mono_option (\<lambda>f. bindP (m f) (\<lambda>x. k x f) s)"
  unfolding bindP_def
proof (rule bind_mono [OF assms(1)])
  fix y
  show "mono_option (\<lambda>f. case y of (r, s') \<Rightarrow>
      (case r of Inl e \<Rightarrow> Some (Inl e, s') | Inr x \<Rightarrow> k x f s'))"
    using assms(2) by (cases y; cases "fst y") (auto simp: option.const_mono)
qed

lemma bindP_None [simp]: "m s = None \<Longrightarrow> bindP m k s = None"
  by (simp add: bindP_def)

lemma bindP_Inl [simp]: "m s = Some (Inl e, s') \<Longrightarrow> bindP m k s = Some (Inl e, s')"
  by (simp add: bindP_def)

lemma bindP_Inr [simp]: "m s = Some (Inr x, s') \<Longrightarrow> bindP m k s = k x s'"
  by (simp add: bindP_def)

lemma bindP_simps [simp]:
  "bindP (retP x) k = k x"
  "bindP (failP e) k = failP e"
  "bindP (liftP (Inr x)) k = k x"
  "bindP (liftP (Inl e)) k = failP e"
  by (simp_all add: bindP_def retP_def failP_def liftP_def fun_eq_iff)

lemma prog_apply [simp]:
  "retP x s = Some (Inr x, s)"
  "failP e s = Some (Inl e, s)"
  "liftP r s = Some (r, s)"
  by (simp_all add: retP_def failP_def liftP_def)

lemma bindP_Some_Inr_iff:
  "bindP m k s = Some (Inr y, s2) \<longleftrightarrow> (\<exists>x s1. m s = Some (Inr x, s1) \<and> k x s1 = Some (Inr y, s2))"
  by (cases "m s") (auto simp: bindP_def split: sum.splits prod.splits)

text \<open>
  The outcome of a computation against a postcondition.  \<open>spec m s G X Q\<close>: \<open>m\<close> ends from
  \<open>s\<close>, its final state is related to \<open>s\<close> by \<open>G\<close> whatever the outcome, an error and the state it
  leaves satisfy \<open>X\<close>, and a value and the state it leaves satisfy \<open>Q\<close>.
\<close>

definition spec ::
  "('s, 'e, 'a) prog \<Rightarrow> 's \<Rightarrow> ('s \<Rightarrow> 's \<Rightarrow> bool) \<Rightarrow> ('e \<Rightarrow> 's \<Rightarrow> bool) \<Rightarrow> ('a \<Rightarrow> 's \<Rightarrow> bool) \<Rightarrow> bool"
where
  "spec m s G X Q \<longleftrightarrow> (\<exists>r s'. m s = Some (r, s') \<and> G s s' \<and>
     (case r of Inl e \<Rightarrow> X e s' | Inr x \<Rightarrow> Q x s'))"

lemma specI_Inr: "m s = Some (Inr x, s') \<Longrightarrow> G s s' \<Longrightarrow> Q x s' \<Longrightarrow> spec m s G X Q"
  by (auto simp: spec_def)

lemma specI_Inl: "m s = Some (Inl e, s') \<Longrightarrow> G s s' \<Longrightarrow> X e s' \<Longrightarrow> spec m s G X Q"
  by (auto simp: spec_def)

lemma specE:
  assumes "spec m s G X Q"
  obtains (Err) e s' where "m s = Some (Inl e, s')" "G s s'" "X e s'"
    | (Ok) x s' where "m s = Some (Inr x, s')" "G s s'" "Q x s'"
proof -
  from assms obtain r s' where *: "m s = Some (r, s')" "G s s'"
    "case r of Inl e \<Rightarrow> X e s' | Inr x \<Rightarrow> Q x s'"
    by (auto simp: spec_def)
  show thesis
    by (cases r) (use * that in auto)
qed

lemma spec_bind:
  assumes m: "spec m s G X Q"
    and k: "\<And>x s'. G s s' \<Longrightarrow> Q x s' \<Longrightarrow> spec (k x) s' G X R"
    and trans: "\<And>a b c. G a b \<Longrightarrow> G b c \<Longrightarrow> G a c"
  shows "spec (bindP m k) s G X R"
  using m
proof (cases rule: specE)
  case (Err e s')
  then show ?thesis by (auto simp: spec_def)
next
  case (Ok x s')
  from k [OF Ok(2,3)] show ?thesis
  proof (cases rule: specE)
    case (Err e s'')
    then show ?thesis
      using Ok trans by (intro specI_Inl [of _ _ e s'']) auto
  next
    case (Ok y s'')
    then show ?thesis
      using \<open>m s = Some (Inr x, s')\<close> \<open>G s s'\<close> trans by (intro specI_Inr [of _ _ y s'']) auto
  qed
qed

lemma spec_weaken:
  assumes "spec m s G X Q" and "\<And>x s'. G s s' \<Longrightarrow> Q x s' \<Longrightarrow> R x s'"
  shows "spec m s G X R"
  using assms(1) by (cases rule: specE) (use assms(2) in \<open>auto simp: spec_def\<close>)

lemma spec_retP: "G s s \<Longrightarrow> Q x s \<Longrightarrow> spec (retP x) s G X Q"
  by (auto simp: spec_def retP_def)

lemma spec_failP: "G s s \<Longrightarrow> X e s \<Longrightarrow> spec (failP e) s G X Q"
  by (auto simp: spec_def failP_def)

lemma spec_liftP_Inr: "r = Inr x \<Longrightarrow> G s s \<Longrightarrow> Q x s \<Longrightarrow> spec (liftP r) s G X Q"
  by (auto simp: spec_def liftP_def)

lemma spec_liftP:
  "G s s \<Longrightarrow> (\<And>e. r = Inl e \<Longrightarrow> X e s) \<Longrightarrow> (\<And>x. r = Inr x \<Longrightarrow> Q x s) \<Longrightarrow> spec (liftP r) s G X Q"
  by (cases r) (auto simp: spec_def liftP_def)

lemma spec_cong: "m s = m' s \<Longrightarrow> spec m' s G X Q \<Longrightarrow> spec m s G X Q"
  by (simp add: spec_def)

end
