(* ===== verification/Format_V2.thy ===== *)
theory Format_V2
  imports Tulya_Prelude
begin

text \<open>
  The canonical metadata codec of \<open>persistent_sequence/format_v2.rs\<close>: node and root records of
  the balanced sequence, their SHA-256 commitments, the fixed-width encoders and the decoders
  that reject every non-canonical byte string.

  The lemmas show that the constructors build canonical records only, that decoding inverts
  encoding on canonical records, and that a record decodes from exactly one byte string.
\<close>

section \<open>Constants\<close>

definition V2_NODE_MAGIC :: "byte list" where
  "V2_NODE_MAGIC = ascii ''T2N2''"

definition V2_ROOT_MAGIC :: "byte list" where
  "V2_ROOT_MAGIC = ascii ''T2R2''"

definition V2_NODE_RECORD_SIZE :: usize where
  "V2_NODE_RECORD_SIZE = 72"

definition V2_ROOT_RECORD_SIZE :: usize where
  "V2_ROOT_RECORD_SIZE = 56"

definition V2_ROOT_REPRESENTATION_BALANCED :: byte where
  "V2_ROOT_REPRESENTATION_BALANCED = 1"

definition V2_NODE_KIND_LEAF :: byte where
  "V2_NODE_KIND_LEAF = 1"

definition V2_NODE_KIND_BRANCH :: byte where
  "V2_NODE_KIND_BRANCH = 2"

definition V2_NONE_NODE :: u64 where
  "V2_NONE_NODE = width64 - 1"

definition V2_LEAF_DOMAIN :: "byte list" where
  "V2_LEAF_DOMAIN = ascii ''tulya-sequence-v2/leaf'' @ [0]"

definition V2_BRANCH_DOMAIN :: "byte list" where
  "V2_BRANCH_DOMAIN = ascii ''tulya-sequence-v2/branch'' @ [0]"

definition MAX_LEAF_PAYLOAD_BYTES :: usize where
  "MAX_LEAF_PAYLOAD_BYTES = 16 * 1024"

section \<open>Records\<close>

type_synonym V2Commitment = "byte list"

datatype V2FormatError =
    RecordLength msg usize usize
  | Invalid msg
  | Overflow msg

datatype V2NodeBody =
    Leaf u64 u64
  | Branch u64 u64 u64

record V2NodeRecord =
  node_height :: u16
  node_len :: u64
  node_commitment :: V2Commitment
  node_body :: V2NodeBody

record V2RootRecord =
  root_node_id :: u64
  root_len :: u64
  root_height :: u16
  root_commitment :: V2Commitment

section \<open>Commitments and constructors\<close>

definition leaf_preimage :: "u64 \<Rightarrow> byte list \<Rightarrow> byte list" where
  "leaf_preimage logical_len payload = V2_LEAF_DOMAIN @ le_bytes 8 logical_len @ payload"

definition leaf_commitment :: "env \<Rightarrow> u64 \<Rightarrow> byte list \<Rightarrow> V2Commitment" where
  "leaf_commitment E logical_len payload = sha256 E (leaf_preimage logical_len payload)"

definition branch_preimage ::
  "u16 \<Rightarrow> u64 \<Rightarrow> V2Commitment \<Rightarrow> u64 \<Rightarrow> V2Commitment \<Rightarrow> byte list" where
  "branch_preimage h left_len left right_len right =
     V2_BRANCH_DOMAIN @ le_bytes 2 h @ le_bytes 8 left_len @ left @ le_bytes 8 right_len @ right"

definition branch_commitment ::
  "env \<Rightarrow> u16 \<Rightarrow> u64 \<Rightarrow> V2Commitment \<Rightarrow> u64 \<Rightarrow> V2Commitment \<Rightarrow> V2Commitment" where
  "branch_commitment E h left_len left right_len right =
     sha256 E (branch_preimage h left_len left right_len right)"

definition validate_child_root :: "V2RootRecord \<Rightarrow> V2FormatError + unit" where
  "validate_child_root root =
    (if root_node_id root = V2_NONE_NODE then
       Inl (V2FormatError.Invalid ''v2 root uses the reserved none-node identifier'')
     else if root_len root = 0 then
       Inl (V2FormatError.Invalid ''v2 root logical length must be positive'')
     else if root_height root = 0 then
       Inl (V2FormatError.Invalid ''v2 root height must be positive'')
     else Inr ())"

definition V2NodeRecord_leaf :: "env \<Rightarrow> u64 \<Rightarrow> byte list \<Rightarrow> V2FormatError + V2NodeRecord" where
  "V2NodeRecord_leaf E payload_offset payload =
    (if payload = [] then
       Inl (V2FormatError.Invalid ''v2 sequence leaf payload must be non-empty'')
     else if length payload > MAX_LEAF_PAYLOAD_BYTES then
       Inl (V2FormatError.Invalid ''v2 sequence leaf payload exceeds the staging bound'')
     else
       bindR (ok_or (V2FormatError.Overflow ''v2 sequence leaf payload length exceeds u64'')
         (try_from width64 (length payload))) (\<lambda>logical_len.
       bindR (ok_or (V2FormatError.Overflow ''v2 sequence leaf payload range exceeds u64'')
         (checked_add width64 payload_offset logical_len)) (\<lambda>_.
       Inr \<lparr>node_height = 1, node_len = logical_len,
            node_commitment = leaf_commitment E logical_len payload,
            node_body = V2NodeBody.Leaf payload_offset logical_len\<rparr>)))"

definition V2NodeRecord_branch ::
  "env \<Rightarrow> V2RootRecord \<Rightarrow> V2RootRecord \<Rightarrow> V2FormatError + V2NodeRecord" where
  "V2NodeRecord_branch E left right =
     bindR (validate_child_root left) (\<lambda>_.
     bindR (validate_child_root right) (\<lambda>_.
     if abs_diff (root_height left) (root_height right) > 1 then
       Inl (V2FormatError.Invalid ''v2 sequence branch children are not AVL-balanced'')
     else
       bindR (ok_or (V2FormatError.Overflow ''v2 sequence branch height exceeds u16'')
         (checked_add width16 (max (root_height left) (root_height right)) 1)) (\<lambda>h.
       bindR (ok_or (V2FormatError.Overflow ''v2 sequence branch logical length exceeds u64'')
         (checked_add width64 (root_len left) (root_len right))) (\<lambda>logical_len.
       Inr \<lparr>node_height = h, node_len = logical_len,
            node_commitment = branch_commitment E h (root_len left) (root_commitment left)
              (root_len right) (root_commitment right),
            node_body = V2NodeBody.Branch (root_node_id left) (root_node_id right)
              (root_len left)\<rparr>))))"

definition V2RootRecord_from_node :: "u64 \<Rightarrow> V2NodeRecord \<Rightarrow> V2FormatError + V2RootRecord" where
  "V2RootRecord_from_node node_id node =
    (if node_id = V2_NONE_NODE then
       Inl (V2FormatError.Invalid ''v2 sequence root uses the reserved none-node identifier'')
     else
       Inr \<lparr>root_node_id = node_id, root_len = node_len node, root_height = node_height node,
            root_commitment = node_commitment node\<rparr>)"

section \<open>Codec\<close>

definition require_record_len :: "msg \<Rightarrow> byte list \<Rightarrow> usize \<Rightarrow> V2FormatError + unit" where
  "require_record_len rec bytes expected =
    (if length bytes \<noteq> expected then Inl (RecordLength rec expected (length bytes)) else Inr ())"

definition read_byte :: "byte list \<Rightarrow> usize \<Rightarrow> msg \<Rightarrow> V2FormatError + byte" where
  "read_byte bytes off m = ok_or (V2FormatError.Invalid m) (get_at bytes off)"

definition read_array :: "usize \<Rightarrow> byte list \<Rightarrow> usize \<Rightarrow> msg \<Rightarrow> V2FormatError + byte list" where
  "read_array N bytes off m =
     bindR (ok_or (V2FormatError.Overflow ''v2 codec range exceeds usize'')
       (checked_add width64 off N)) (\<lambda>e.
     ok_or (V2FormatError.Invalid m) (slice_get bytes off e))"

text \<open>The 72 bytes are written field by field into a zeroed buffer; the flag byte 5 and, for a
  leaf, bytes 32 to 40 stay zero.\<close>

fun encode_body :: "V2NodeBody \<Rightarrow> byte list" where
  "encode_body (V2NodeBody.Leaf payload_offset payload_len) =
     le_bytes 8 payload_offset @ le_bytes 8 payload_len @ replicate 8 0"
| "encode_body (V2NodeBody.Branch left_node_id right_node_id left_len) =
     le_bytes 8 left_node_id @ le_bytes 8 right_node_id @ le_bytes 8 left_len"

fun body_kind :: "V2NodeBody \<Rightarrow> byte" where
  "body_kind (V2NodeBody.Leaf _ _) = V2_NODE_KIND_LEAF"
| "body_kind (V2NodeBody.Branch _ _ _) = V2_NODE_KIND_BRANCH"

definition encode_v2_node :: "V2NodeRecord \<Rightarrow> byte list" where
  "encode_v2_node n =
     V2_NODE_MAGIC @ [body_kind (node_body n), 0] @ le_bytes 2 (node_height n) @
     le_bytes 8 (node_len n) @ encode_body (node_body n) @ node_commitment n"

definition decode_leaf_fields ::
  "u16 \<Rightarrow> u64 \<Rightarrow> u64 \<Rightarrow> u64 \<Rightarrow> u64 \<Rightarrow> V2Commitment \<Rightarrow> V2FormatError + V2NodeRecord" where
  "decode_leaf_fields h logical_len field_a field_b field_c commitment =
    (if h \<noteq> 1 then Inl (V2FormatError.Invalid ''v2 leaf height must be one'')
     else if logical_len = 0 then
       Inl (V2FormatError.Invalid ''v2 leaf logical length must be positive'')
     else if field_b \<noteq> logical_len then
       Inl (V2FormatError.Invalid ''v2 leaf payload length disagrees with logical length'')
     else if logical_len > MAX_LEAF_PAYLOAD_BYTES then
       Inl (V2FormatError.Invalid ''v2 leaf payload exceeds the staging bound'')
     else if field_c \<noteq> 0 then
       Inl (V2FormatError.Invalid ''v2 leaf reserved field must be zero'')
     else
       bindR (ok_or (V2FormatError.Overflow ''v2 leaf payload range exceeds u64'')
         (checked_add width64 field_a field_b)) (\<lambda>_.
       Inr \<lparr>node_height = h, node_len = logical_len, node_commitment = commitment,
            node_body = V2NodeBody.Leaf field_a field_b\<rparr>))"

definition decode_branch_fields ::
  "u16 \<Rightarrow> u64 \<Rightarrow> u64 \<Rightarrow> u64 \<Rightarrow> u64 \<Rightarrow> V2Commitment \<Rightarrow> V2FormatError + V2NodeRecord" where
  "decode_branch_fields h logical_len field_a field_b field_c commitment =
    (if h < 2 then Inl (V2FormatError.Invalid ''v2 branch height must be at least two'')
     else if field_a = V2_NONE_NODE \<or> field_b = V2_NONE_NODE then
       Inl (V2FormatError.Invalid ''v2 branch uses the reserved none-node identifier'')
     else if field_c = 0 \<or> field_c \<ge> logical_len then
       Inl (V2FormatError.Invalid ''v2 branch left length must split two non-empty children'')
     else
       Inr \<lparr>node_height = h, node_len = logical_len, node_commitment = commitment,
            node_body = V2NodeBody.Branch field_a field_b field_c\<rparr>)"

definition decode_v2_node :: "byte list \<Rightarrow> V2FormatError + V2NodeRecord" where
  "decode_v2_node bytes =
     bindR (require_record_len ''v2 node'' bytes V2_NODE_RECORD_SIZE) (\<lambda>_.
     bindR (read_array 4 bytes 0 ''v2 node magic is truncated'') (\<lambda>magic.
     if magic \<noteq> V2_NODE_MAGIC then Inl (V2FormatError.Invalid ''v2 node magic mismatch'') else
     bindR (read_byte bytes 4 ''v2 node kind is truncated'') (\<lambda>kind.
     bindR (read_byte bytes 5 ''v2 node flags are truncated'') (\<lambda>flags.
     if flags \<noteq> 0 then Inl (V2FormatError.Invalid ''v2 node flags must be zero'') else
     bindR (read_array 2 bytes 6 ''v2 node height is truncated'') (\<lambda>h.
     bindR (read_array 8 bytes 8 ''v2 node logical length is truncated'') (\<lambda>len.
     bindR (read_array 8 bytes 16 ''v2 node field A is truncated'') (\<lambda>a.
     bindR (read_array 8 bytes 24 ''v2 node field B is truncated'') (\<lambda>b.
     bindR (read_array 8 bytes 32 ''v2 node field C is truncated'') (\<lambda>c.
     bindR (read_array 32 bytes 40 ''v2 node commitment is truncated'') (\<lambda>commitment.
     if kind = V2_NODE_KIND_LEAF then
       decode_leaf_fields (le_nat h) (le_nat len) (le_nat a) (le_nat b) (le_nat c) commitment
     else if kind = V2_NODE_KIND_BRANCH then
       decode_branch_fields (le_nat h) (le_nat len) (le_nat a) (le_nat b) (le_nat c) commitment
     else Inl (V2FormatError.Invalid ''v2 node kind is unsupported'')))))))))))"

definition encode_v2_root :: "V2RootRecord \<Rightarrow> byte list" where
  "encode_v2_root r =
     V2_ROOT_MAGIC @ [V2_ROOT_REPRESENTATION_BALANCED, 0] @ le_bytes 2 (root_height r) @
     le_bytes 8 (root_node_id r) @ le_bytes 8 (root_len r) @ root_commitment r"

definition decode_v2_root :: "byte list \<Rightarrow> V2FormatError + V2RootRecord" where
  "decode_v2_root bytes =
     bindR (require_record_len ''v2 root'' bytes V2_ROOT_RECORD_SIZE) (\<lambda>_.
     bindR (read_array 4 bytes 0 ''v2 root magic is truncated'') (\<lambda>magic.
     if magic \<noteq> V2_ROOT_MAGIC then Inl (V2FormatError.Invalid ''v2 root magic mismatch'') else
     bindR (read_byte bytes 4 ''v2 root representation is truncated'') (\<lambda>representation.
     if representation \<noteq> V2_ROOT_REPRESENTATION_BALANCED then
       Inl (V2FormatError.Invalid ''v2 root representation is unsupported'') else
     bindR (read_byte bytes 5 ''v2 root flags are truncated'') (\<lambda>flags.
     if flags \<noteq> 0 then Inl (V2FormatError.Invalid ''v2 root flags must be zero'') else
     bindR (read_array 2 bytes 6 ''v2 root height is truncated'') (\<lambda>h.
     bindR (read_array 8 bytes 8 ''v2 root node identifier is truncated'') (\<lambda>node_id.
     bindR (read_array 8 bytes 16 ''v2 root logical length is truncated'') (\<lambda>len.
     bindR (read_array 32 bytes 24 ''v2 root commitment is truncated'') (\<lambda>commitment.
     let root = \<lparr>root_node_id = le_nat node_id, root_len = le_nat len,
                 root_height = le_nat h, root_commitment = commitment\<rparr>
     in bindR (validate_child_root root) (\<lambda>_. Inr root)))))))))"

section \<open>Canonical records\<close>

fun body_canonical :: "u16 \<Rightarrow> u64 \<Rightarrow> V2NodeBody \<Rightarrow> bool" where
  "body_canonical h len (V2NodeBody.Leaf off plen) \<longleftrightarrow>
     h = 1 \<and> plen = len \<and> 0 < len \<and> len \<le> MAX_LEAF_PAYLOAD_BYTES \<and> off + plen < width64"
| "body_canonical h len (V2NodeBody.Branch l r left_len) \<longleftrightarrow>
     2 \<le> h \<and> l < V2_NONE_NODE \<and> r < V2_NONE_NODE \<and> 0 < left_len \<and> left_len < len"

definition node_canonical :: "V2NodeRecord \<Rightarrow> bool" where
  "node_canonical n \<longleftrightarrow> node_height n < width16 \<and> node_len n < width64 \<and>
     length (node_commitment n) = 32 \<and> body_canonical (node_height n) (node_len n) (node_body n)"

definition root_canonical :: "V2RootRecord \<Rightarrow> bool" where
  "root_canonical r \<longleftrightarrow> root_node_id r < V2_NONE_NODE \<and> 0 < root_len r \<and> root_len r < width64 \<and>
     0 < root_height r \<and> root_height r < width16 \<and> length (root_commitment r) = 32"

lemma none_node_less: "n \<noteq> V2_NONE_NODE \<Longrightarrow> n < width64 \<Longrightarrow> n < V2_NONE_NODE"
  by (simp add: V2_NONE_NODE_def)

lemma none_node_width: "n < V2_NONE_NODE \<Longrightarrow> n < width64 \<and> n \<noteq> V2_NONE_NODE"
  by (simp add: V2_NONE_NODE_def)

lemma validate_child_root_ok_iff:
  "validate_child_root r = Inr u \<longleftrightarrow>
     root_node_id r \<noteq> V2_NONE_NODE \<and> root_len r \<noteq> 0 \<and> root_height r \<noteq> 0"
  by (auto simp: validate_child_root_def)

lemma validate_child_root_canonical [simp]: "root_canonical r \<Longrightarrow> validate_child_root r = Inr ()"
  by (auto simp: validate_child_root_def root_canonical_def)

lemma leaf_ok_iff:
  "V2NodeRecord_leaf E off bs = Inr n \<longleftrightarrow>
     bs \<noteq> [] \<and> length bs \<le> MAX_LEAF_PAYLOAD_BYTES \<and> off + length bs < width64 \<and>
     n = \<lparr>node_height = 1, node_len = length bs,
          node_commitment = leaf_commitment E (length bs) bs,
          node_body = V2NodeBody.Leaf off (length bs)\<rparr>"
  by (auto simp: V2NodeRecord_leaf_def result_iffs checked_iffs)

lemma branch_ok_iff:
  "V2NodeRecord_branch E l r = Inr n \<longleftrightarrow>
     validate_child_root l = Inr () \<and> validate_child_root r = Inr () \<and>
     root_height l \<le> root_height r + 1 \<and> root_height r \<le> root_height l + 1 \<and>
     max (root_height l) (root_height r) + 1 < width16 \<and> root_len l + root_len r < width64 \<and>
     n = \<lparr>node_height = max (root_height l) (root_height r) + 1,
          node_len = root_len l + root_len r,
          node_commitment = branch_commitment E (max (root_height l) (root_height r) + 1)
            (root_len l) (root_commitment l) (root_len r) (root_commitment r),
          node_body = V2NodeBody.Branch (root_node_id l) (root_node_id r) (root_len l)\<rparr>"
  by (auto simp: V2NodeRecord_branch_def result_iffs checked_iffs abs_diff_def split: if_splits)

lemma from_node_ok_iff:
  "V2RootRecord_from_node i n = Inr r \<longleftrightarrow> i \<noteq> V2_NONE_NODE \<and>
     r = \<lparr>root_node_id = i, root_len = node_len n, root_height = node_height n,
          root_commitment = node_commitment n\<rparr>"
  by (auto simp: V2RootRecord_from_node_def)

lemma from_node_fields:
  "V2RootRecord_from_node i n = Inr r \<Longrightarrow> root_node_id r = i \<and> root_len r = node_len n \<and>
     root_height r = node_height n \<and> root_commitment r = node_commitment n \<and> i \<noteq> V2_NONE_NODE"
  by (auto simp: from_node_ok_iff)

lemma leaf_canonical:
  assumes "sha_ok E" and "V2NodeRecord_leaf E off bs = Inr n"
  shows "node_canonical n"
  using assms by (auto simp: leaf_ok_iff node_canonical_def leaf_commitment_def width16_def)

lemma branch_canonical:
  assumes "sha_ok E" and "V2NodeRecord_branch E l r = Inr n"
    and "root_node_id l < width64" and "root_node_id r < width64"
  shows "node_canonical n"
  using assms
  by (auto simp: branch_ok_iff node_canonical_def branch_commitment_def validate_child_root_ok_iff
      none_node_less)

lemma from_node_canonical:
  assumes "node_canonical n" and "V2RootRecord_from_node i n = Inr r" and "i < width64"
  shows "root_canonical r"
  using assms by (cases "node_body n")
    (auto simp: from_node_ok_iff node_canonical_def root_canonical_def none_node_less)

section \<open>Decoding inverts encoding\<close>

lemma length_magic [simp]: "length V2_NODE_MAGIC = 4" "length V2_ROOT_MAGIC = 4"
  by (simp_all add: V2_NODE_MAGIC_def V2_ROOT_MAGIC_def)

lemma length_encode_body [simp]: "length (encode_body b) = 24"
  by (cases b) auto

lemma length_encode_v2_node: "length (node_commitment n) = 32 \<Longrightarrow> length (encode_v2_node n) = 72"
  by (simp add: encode_v2_node_def)

lemma length_encode_v2_root: "length (root_commitment r) = 32 \<Longrightarrow> length (encode_v2_root r) = 56"
  by (simp add: encode_v2_root_def)

lemma read_array_ok_iff:
  "read_array N bs off m = Inr ys \<longleftrightarrow>
     off + N < width64 \<and> off + N \<le> length bs \<and> ys = take N (drop off bs)"
  by (auto simp: read_array_def result_iffs checked_iffs slice_get_Some_iff)

lemma read_byte_ok_iff: "read_byte bs off m = Inr b \<longleftrightarrow> off < length bs \<and> b = bs ! off"
  by (auto simp: read_byte_def result_iffs get_at_Some_iff)

lemma small_lt_width64: "n \<le> 1000000 \<Longrightarrow> n < width64"
  by (simp add: width64_def)

lemma decode_v2_node_ok_iff:
  "decode_v2_node bs = Inr n \<longleftrightarrow> length bs = 72 \<and> take 4 bs = V2_NODE_MAGIC \<and> bs ! 5 = 0 \<and>
     ((bs ! 4 = V2_NODE_KIND_LEAF \<and>
       decode_leaf_fields (le_nat (take 2 (drop 6 bs))) (le_nat (take 8 (drop 8 bs)))
         (le_nat (take 8 (drop 16 bs))) (le_nat (take 8 (drop 24 bs)))
         (le_nat (take 8 (drop 32 bs))) (drop 40 bs) = Inr n) \<or>
      (bs ! 4 = V2_NODE_KIND_BRANCH \<and>
       decode_branch_fields (le_nat (take 2 (drop 6 bs))) (le_nat (take 8 (drop 8 bs)))
         (le_nat (take 8 (drop 16 bs))) (le_nat (take 8 (drop 24 bs)))
         (le_nat (take 8 (drop 32 bs))) (drop 40 bs) = Inr n))"
  by (auto simp: decode_v2_node_def require_record_len_def V2_NODE_RECORD_SIZE_def result_iffs
      read_array_ok_iff read_byte_ok_iff small_lt_width64 V2_NODE_KIND_LEAF_def
      V2_NODE_KIND_BRANCH_def split: if_splits)

lemma decode_leaf_fields_ok_iff:
  "decode_leaf_fields h len a b c cm = Inr n \<longleftrightarrow>
     body_canonical h len (V2NodeBody.Leaf a b) \<and> c = 0 \<and>
     n = \<lparr>node_height = h, node_len = len, node_commitment = cm, node_body = V2NodeBody.Leaf a b\<rparr>"
  by (auto simp: decode_leaf_fields_def result_iffs checked_iffs split: if_splits)

lemma decode_branch_fields_ok_iff:
  assumes "a < width64" and "b < width64"
  shows "decode_branch_fields h len a b c cm = Inr n \<longleftrightarrow>
     body_canonical h len (V2NodeBody.Branch a b c) \<and>
     n = \<lparr>node_height = h, node_len = len, node_commitment = cm, node_body = V2NodeBody.Branch a b c\<rparr>"
  using assms by (auto simp: decode_branch_fields_def V2_NONE_NODE_def split: if_splits)

lemma le_bytes_zero: "le_bytes k 0 = replicate k 0"
  by (induction k) auto

lemma le_nat_replicate_0 [simp]: "le_nat (replicate k 0) = 0"
  by (induction k) auto

lemma decode_encode_v2_node: "node_canonical n \<Longrightarrow> decode_v2_node (encode_v2_node n) = Inr n"
proof (cases "node_body n")
  case (Leaf off len)
  assume "node_canonical n"
  with Leaf show ?thesis
    by (cases n) (auto simp: decode_v2_node_ok_iff length_encode_v2_node encode_v2_node_def
        node_canonical_def decode_leaf_fields_ok_iff nth_append)
next
  case (Branch l r ll)
  assume "node_canonical n"
  with Branch show ?thesis
    by (cases n) (auto simp: decode_v2_node_ok_iff length_encode_v2_node encode_v2_node_def
        node_canonical_def decode_branch_fields_ok_iff nth_append none_node_width)
qed

lemma split_node_bytes:
  assumes "length bs = 72"
  shows "bs = take 4 bs @ [bs ! 4, bs ! 5] @ take 2 (drop 6 bs) @ take 8 (drop 8 bs) @
    (take 8 (drop 16 bs) @ take 8 (drop 24 bs) @ take 8 (drop 32 bs)) @ drop 40 bs"
  using assms concat_cut [of "[4, 1, 1, 2, 8, 8, 8, 8]" bs]
  by (simp add: take_1_drop del: One_nat_def)

lemma encode_decode_v2_node:
  assumes "decode_v2_node bs = Inr n"
  shows "encode_v2_node n = bs \<and> node_canonical n"
proof -
  from assms have len: "length bs = 72" and magic: "take 4 bs = V2_NODE_MAGIC" and flag: "bs ! 5 = 0"
    by (auto simp: decode_v2_node_ok_iff)
  have widths: "le_nat (take 2 (drop 6 bs)) < width16" "le_nat (take 8 (drop 8 bs)) < width64"
    "le_nat (take 8 (drop 16 bs)) < width64" "le_nat (take 8 (drop 24 bs)) < width64"
    using len by (auto intro!: le_nat_width)
  have zero: "take 8 (drop 32 bs) = replicate 8 0" if "le_nat (take 8 (drop 32 bs)) = 0"
  proof -
    have "take 8 (drop 32 bs) = le_bytes 8 (le_nat (take 8 (drop 32 bs)))"
      using len by simp
    then have "take 8 (drop 32 bs) = le_bytes 8 0"
      using that by metis
    then show ?thesis
      by (simp add: le_bytes_zero)
  qed
  have "node_canonical n \<and> encode_v2_node n = take 4 bs @ [bs ! 4, bs ! 5] @ take 2 (drop 6 bs) @
    take 8 (drop 8 bs) @ (take 8 (drop 16 bs) @ take 8 (drop 24 bs) @ take 8 (drop 32 bs)) @ drop 40 bs"
    using assms len widths magic flag zero le_nat_eqD [of "take 8 (drop 24 bs)" "take 8 (drop 8 bs)"]
    by (auto simp: decode_v2_node_ok_iff decode_leaf_fields_ok_iff decode_branch_fields_ok_iff
        node_canonical_def encode_v2_node_def intro!: le_bytes_eqI)
  then show ?thesis
    using split_node_bytes [OF len] by simp
qed

lemma decode_v2_root_ok_iff:
  "decode_v2_root bs = Inr r \<longleftrightarrow> length bs = 56 \<and> take 4 bs = V2_ROOT_MAGIC \<and>
     bs ! 4 = V2_ROOT_REPRESENTATION_BALANCED \<and> bs ! 5 = 0 \<and> validate_child_root r = Inr () \<and>
     r = \<lparr>root_node_id = le_nat (take 8 (drop 8 bs)), root_len = le_nat (take 8 (drop 16 bs)),
          root_height = le_nat (take 2 (drop 6 bs)), root_commitment = drop 24 bs\<rparr>"
  by (auto simp: decode_v2_root_def require_record_len_def V2_ROOT_RECORD_SIZE_def result_iffs
      read_array_ok_iff read_byte_ok_iff small_lt_width64 Let_def split: if_splits)

lemma decode_encode_v2_root: "root_canonical r \<Longrightarrow> decode_v2_root (encode_v2_root r) = Inr r"
  by (cases r) (auto simp: decode_v2_root_ok_iff length_encode_v2_root encode_v2_root_def
      root_canonical_def nth_append none_node_width)

lemma split_root_bytes:
  assumes "length bs = 56"
  shows "bs = take 4 bs @ [bs ! 4, bs ! 5] @ take 2 (drop 6 bs) @ take 8 (drop 8 bs) @
    take 8 (drop 16 bs) @ drop 24 bs"
  using assms concat_cut [of "[4, 1, 1, 2, 8, 8]" bs]
  by (simp add: take_1_drop del: One_nat_def)

lemma encode_decode_v2_root:
  assumes "decode_v2_root bs = Inr r"
  shows "encode_v2_root r = bs \<and> root_canonical r"
proof -
  from assms have len: "length bs = 56"
    by (simp add: decode_v2_root_ok_iff)
  have widths: "le_nat (take 2 (drop 6 bs)) < width16" "le_nat (take 8 (drop 8 bs)) < width64"
    "le_nat (take 8 (drop 16 bs)) < width64"
    using len by (auto intro!: le_nat_width)
  have "root_canonical r \<and> encode_v2_root r = take 4 bs @ [bs ! 4, bs ! 5] @ take 2 (drop 6 bs) @
    take 8 (drop 8 bs) @ take 8 (drop 16 bs) @ drop 24 bs"
    using assms len widths
    by (auto simp: decode_v2_root_ok_iff validate_child_root_ok_iff root_canonical_def
        none_node_less encode_v2_root_def)
  then show ?thesis
    using split_root_bytes [OF len] by simp
qed


section \<open>Properties\<close>

text \<open>
  C19.  Node codec.  A byte string decodes to a node record exactly when the record is canonical
  and the string is its encoding: decoding inverts encoding, and no second encoding is accepted.
\<close>

theorem node_codec_bijective:
  "decode_v2_node bytes = Inr n \<longleftrightarrow> node_canonical n \<and> encode_v2_node n = bytes"
  using decode_encode_v2_node encode_decode_v2_node by blast

text \<open>
  Root codec.  The same for root records.
\<close>

theorem root_codec_bijective:
  "decode_v2_root bytes = Inr r \<longleftrightarrow> root_canonical r \<and> encode_v2_root r = bytes"
  using decode_encode_v2_root encode_decode_v2_root by blast

end
