(* ===== verification/Image_V2.thy ===== *)
theory Image_V2
  imports Format_V2
begin

text \<open>
  The canonical arena image of \<open>persistent_sequence/image_v2.rs\<close> (magic \<open>T2I2\<close>): a header with
  counts and record widths, a digest, the payload arena, the node table and the root table.
  The lemmas show that decoding an encoded image gives the image back, and that every image the
  decoder accepts holds canonical records only.
\<close>

section \<open>Constants, errors, structures\<close>

definition V2_IMAGE_MAGIC :: "byte list" where
  "V2_IMAGE_MAGIC = ascii ''T2I2''"

definition V2_IMAGE_VERSION :: u32 where
  "V2_IMAGE_VERSION = 2"

definition V2_IMAGE_HEADER_SIZE :: usize where
  "V2_IMAGE_HEADER_SIZE = 72"

definition V2_IMAGE_PREFIX_SIZE :: usize where
  "V2_IMAGE_PREFIX_SIZE = 40"

definition V2_IMAGE_DIGEST_OFFSET :: usize where
  "V2_IMAGE_DIGEST_OFFSET = 40"

definition V2_IMAGE_MAX_RECORD_SIZE :: u32 where
  "V2_IMAGE_MAX_RECORD_SIZE = 4096"

definition V2_IMAGE_DOMAIN :: "byte list" where
  "V2_IMAGE_DOMAIN = ascii ''tulya-sequence-v2/image'' @ [0]"

datatype V2ImageError =
    Format V2FormatError
  | Invalid msg
  | Overflow msg

record V2SequenceImage =
  image_payload :: "byte list"
  image_nodes :: "V2NodeRecord list"
  image_roots :: "V2RootRecord list"

datatype V2NodeFields =
    Leaf u64 u64
  | Branch u64 u64 u64

record V2ImageHeader =
  hdr_payload_len :: u64
  hdr_node_count :: u64
  hdr_root_count :: u64
  hdr_node_record_size :: u32
  hdr_root_record_size :: u32

section \<open>Reading fields\<close>

definition read_u32 :: "byte list \<Rightarrow> usize \<Rightarrow> msg \<Rightarrow> V2ImageError + u32" where
  "read_u32 bytes off m =
     bindR (ok_or (V2ImageError.Overflow ''v2 image u32 range exceeds usize'')
       (checked_add width64 off 4)) (\<lambda>e.
     bindR (ok_or (V2ImageError.Invalid m) (slice_get bytes off e)) (\<lambda>encoded.
     Inr (le_nat encoded)))"

definition read_u64 :: "byte list \<Rightarrow> usize \<Rightarrow> msg \<Rightarrow> V2ImageError + u64" where
  "read_u64 bytes off m =
     bindR (ok_or (V2ImageError.Overflow ''v2 image u64 range exceeds usize'')
       (checked_add width64 off 8)) (\<lambda>e.
     bindR (ok_or (V2ImageError.Invalid m) (slice_get bytes off e)) (\<lambda>encoded.
     Inr (le_nat encoded)))"

definition v2_node_fields :: "V2NodeRecord \<Rightarrow> V2ImageError + V2NodeFields" where
  "v2_node_fields n =
    (let encoded = encode_v2_node n in
     bindR (read_u64 encoded 16 ''v2 image node field A is truncated'') (\<lambda>field_a.
     bindR (read_u64 encoded 24 ''v2 image node field B is truncated'') (\<lambda>field_b.
     if node_height n = 1 then Inr (V2NodeFields.Leaf field_a field_b)
     else
       bindR (read_u64 encoded 32 ''v2 image node field C is truncated'') (\<lambda>left_len.
       Inr (V2NodeFields.Branch field_a field_b left_len)))))"

section \<open>Header\<close>

definition validate_record_size :: "u32 \<Rightarrow> msg \<Rightarrow> V2ImageError + unit" where
  "validate_record_size sz m =
    (if sz = 0 \<or> sz > V2_IMAGE_MAX_RECORD_SIZE then Inl (V2ImageError.Invalid m) else Inr ())"

definition checked_total_len :: "V2ImageHeader \<Rightarrow> V2ImageError + usize" where
  "checked_total_len h =
     bindR (ok_or (V2ImageError.Overflow ''v2 image payload length exceeds usize'')
       (try_from width64 (hdr_payload_len h))) (\<lambda>payload_len.
     bindR (ok_or (V2ImageError.Overflow ''v2 image node count exceeds usize'')
       (try_from width64 (hdr_node_count h))) (\<lambda>node_count.
     bindR (ok_or (V2ImageError.Overflow ''v2 image root count exceeds usize'')
       (try_from width64 (hdr_root_count h))) (\<lambda>root_count.
     bindR (ok_or (V2ImageError.Overflow ''v2 image node record size exceeds usize'')
       (try_from width64 (hdr_node_record_size h))) (\<lambda>node_record_size.
     bindR (ok_or (V2ImageError.Overflow ''v2 image root record size exceeds usize'')
       (try_from width64 (hdr_root_record_size h))) (\<lambda>root_record_size.
     bindR (ok_or (V2ImageError.Overflow ''v2 image node table length exceeds usize'')
       (checked_mul width64 node_count node_record_size)) (\<lambda>node_bytes.
     bindR (ok_or (V2ImageError.Overflow ''v2 image root table length exceeds usize'')
       (checked_mul width64 root_count root_record_size)) (\<lambda>root_bytes.
     ok_or (V2ImageError.Overflow ''v2 image total length exceeds usize'')
       (Option.bind (checked_add width64 V2_IMAGE_HEADER_SIZE payload_len) (\<lambda>v.
        Option.bind (checked_add width64 v node_bytes) (\<lambda>v.
        checked_add width64 v root_bytes))))))))))"

definition encode_header_prefix :: "V2ImageHeader \<Rightarrow> byte list" where
  "encode_header_prefix h =
     V2_IMAGE_MAGIC @ le_bytes 4 V2_IMAGE_VERSION @ le_bytes 8 (hdr_payload_len h) @
     le_bytes 8 (hdr_node_count h) @ le_bytes 8 (hdr_root_count h) @
     le_bytes 4 (hdr_node_record_size h) @ le_bytes 4 (hdr_root_record_size h)"

definition image_digest :: "env \<Rightarrow> byte list \<Rightarrow> byte list \<Rightarrow> byte list" where
  "image_digest E prefix body = sha256 E (V2_IMAGE_DOMAIN @ prefix @ body)"

definition decode_header :: "byte list \<Rightarrow> V2ImageError + V2ImageHeader" where
  "decode_header bytes =
    (if length bytes < V2_IMAGE_HEADER_SIZE then
       Inl (V2ImageError.Invalid ''v2 image header is truncated'')
     else
     bindR (ok_or (V2ImageError.Invalid ''v2 image magic is truncated'') (slice_get bytes 0 4)) (\<lambda>magic.
     if magic \<noteq> V2_IMAGE_MAGIC then Inl (V2ImageError.Invalid ''v2 image magic mismatch'') else
     bindR (read_u32 bytes 4 ''v2 image version is truncated'') (\<lambda>version.
     if version \<noteq> V2_IMAGE_VERSION then
       Inl (V2ImageError.Invalid ''v2 image version is unsupported'') else
     bindR (read_u64 bytes 8 ''v2 image payload length is truncated'') (\<lambda>payload_len.
     bindR (read_u64 bytes 16 ''v2 image node count is truncated'') (\<lambda>node_count.
     bindR (read_u64 bytes 24 ''v2 image root count is truncated'') (\<lambda>root_count.
     bindR (read_u32 bytes 32 ''v2 image node record size is truncated'') (\<lambda>node_record_size.
     bindR (read_u32 bytes 36 ''v2 image root record size is truncated'') (\<lambda>root_record_size.
     if payload_len = 0 then Inl (V2ImageError.Invalid ''v2 image payload must be non-empty'')
     else if node_count = 0 then
       Inl (V2ImageError.Invalid ''v2 image node table must be non-empty'')
     else if root_count = 0 then
       Inl (V2ImageError.Invalid ''v2 image root table must be non-empty'')
     else
     bindR (validate_record_size node_record_size
       ''v2 image node record size is outside bounds'') (\<lambda>_.
     bindR (validate_record_size root_record_size
       ''v2 image root record size is outside bounds'') (\<lambda>_.
     Inr \<lparr>hdr_payload_len = payload_len, hdr_node_count = node_count,
          hdr_root_count = root_count, hdr_node_record_size = node_record_size,
          hdr_root_record_size = root_record_size\<rparr>))))))))))"

section \<open>Encoding and decoding an image\<close>

text \<open>The loops that append one record table, each record checked against the table's width.\<close>

fun encode_table :: "('r \<Rightarrow> byte list) \<Rightarrow> usize \<Rightarrow> msg \<Rightarrow> 'r list \<Rightarrow> V2ImageError + byte list" where
  "encode_table enc sz m [] = Inr []"
| "encode_table enc sz m (r # rs) =
    (if length (enc r) \<noteq> sz then Inl (V2ImageError.Invalid m)
     else bindR (encode_table enc sz m rs) (\<lambda>bytes. Inr (enc r @ bytes)))"

definition encode_v2_image :: "env \<Rightarrow> V2SequenceImage \<Rightarrow> V2ImageError + byte list" where
  "encode_v2_image E img =
    (case (image_payload img, image_nodes img, image_roots img) of
       ([], _, _) \<Rightarrow> Inl (V2ImageError.Invalid ''v2 image payload must be non-empty'')
     | (_, [], _) \<Rightarrow> Inl (V2ImageError.Invalid ''v2 image node table must be non-empty'')
     | (_, _, []) \<Rightarrow> Inl (V2ImageError.Invalid ''v2 image root table must be non-empty'')
     | (_, node0 # _, root0 # _) \<Rightarrow>
       bindR (ok_or (V2ImageError.Overflow ''v2 image node record size exceeds u32'')
         (try_from width32 (length (encode_v2_node node0)))) (\<lambda>node_record_size.
       bindR (ok_or (V2ImageError.Overflow ''v2 image root record size exceeds u32'')
         (try_from width32 (length (encode_v2_root root0)))) (\<lambda>root_record_size.
       bindR (validate_record_size node_record_size
         ''v2 image node record size is outside bounds'') (\<lambda>_.
       bindR (validate_record_size root_record_size
         ''v2 image root record size is outside bounds'') (\<lambda>_.
       bindR (ok_or (V2ImageError.Overflow ''v2 image payload length exceeds u64'')
         (try_from width64 (length (image_payload img)))) (\<lambda>payload_len.
       bindR (ok_or (V2ImageError.Overflow ''v2 image node count exceeds u64'')
         (try_from width64 (length (image_nodes img)))) (\<lambda>node_count.
       bindR (ok_or (V2ImageError.Overflow ''v2 image root count exceeds u64'')
         (try_from width64 (length (image_roots img)))) (\<lambda>root_count.
       let header = \<lparr>hdr_payload_len = payload_len, hdr_node_count = node_count,
                     hdr_root_count = root_count, hdr_node_record_size = node_record_size,
                     hdr_root_record_size = root_record_size\<rparr> in
       bindR (checked_total_len header) (\<lambda>total_len.
       bindR (encode_table encode_v2_node node_record_size
         ''v2 image node records do not have one canonical width'' (image_nodes img)) (\<lambda>node_bytes.
       bindR (encode_table encode_v2_root root_record_size
         ''v2 image root records do not have one canonical width'' (image_roots img)) (\<lambda>root_bytes.
       let prefix = encode_header_prefix header;
           body = image_payload img @ node_bytes @ root_bytes in
       if V2_IMAGE_HEADER_SIZE + length body \<noteq> total_len then
         Inl (V2ImageError.Invalid ''v2 image encoder produced an unexpected byte length'')
       else Inr (prefix @ image_digest E prefix body @ body))))))))))))"

text \<open>The loops that decode one record table from \<open>cursor\<close> on.\<close>

fun decode_table ::
  "(byte list \<Rightarrow> V2FormatError + 'r) \<Rightarrow> usize \<Rightarrow> msg \<Rightarrow> msg \<Rightarrow> byte list \<Rightarrow> nat \<Rightarrow> usize \<Rightarrow>
   V2ImageError + ('r list \<times> usize)" where
  "decode_table dec sz m_range m_trunc bytes 0 cursor = Inr ([], cursor)"
| "decode_table dec sz m_range m_trunc bytes (Suc n) cursor =
     bindR (ok_or (V2ImageError.Overflow m_range) (checked_add width64 cursor sz)) (\<lambda>e.
     bindR (ok_or (V2ImageError.Invalid m_trunc) (slice_get bytes cursor e)) (\<lambda>chunk.
     bindR (map_err V2ImageError.Format (dec chunk)) (\<lambda>r.
     bindR (decode_table dec sz m_range m_trunc bytes n e) (\<lambda>(rs, c).
     Inr (r # rs, c)))))"

definition decode_v2_image :: "env \<Rightarrow> byte list \<Rightarrow> V2ImageError + V2SequenceImage" where
  "decode_v2_image E bytes =
     bindR (decode_header bytes) (\<lambda>header.
     bindR (checked_total_len header) (\<lambda>expected_len.
     if length bytes \<noteq> expected_len then
       Inl (V2ImageError.Invalid ''v2 image byte length mismatch'') else
     bindR (ok_or (V2ImageError.Invalid ''v2 image digest is truncated'')
       (slice_get bytes V2_IMAGE_DIGEST_OFFSET V2_IMAGE_HEADER_SIZE)) (\<lambda>stored_digest.
     if stored_digest \<noteq> image_digest E (take V2_IMAGE_PREFIX_SIZE bytes)
          (drop V2_IMAGE_HEADER_SIZE bytes) then
       Inl (V2ImageError.Invalid ''v2 image digest mismatch'') else
     bindR (ok_or (V2ImageError.Overflow ''v2 image payload length exceeds usize'')
       (try_from width64 (hdr_payload_len header))) (\<lambda>payload_len.
     bindR (ok_or (V2ImageError.Overflow ''v2 image node count exceeds usize'')
       (try_from width64 (hdr_node_count header))) (\<lambda>node_count.
     bindR (ok_or (V2ImageError.Overflow ''v2 image root count exceeds usize'')
       (try_from width64 (hdr_root_count header))) (\<lambda>root_count.
     bindR (ok_or (V2ImageError.Overflow ''v2 image node record size exceeds usize'')
       (try_from width64 (hdr_node_record_size header))) (\<lambda>node_record_size.
     bindR (ok_or (V2ImageError.Overflow ''v2 image root record size exceeds usize'')
       (try_from width64 (hdr_root_record_size header))) (\<lambda>root_record_size.
     bindR (ok_or (V2ImageError.Overflow ''v2 image payload range exceeds usize'')
       (checked_add width64 V2_IMAGE_HEADER_SIZE payload_len)) (\<lambda>payload_end.
     bindR (ok_or (V2ImageError.Invalid ''v2 image payload is truncated'')
       (slice_get bytes V2_IMAGE_HEADER_SIZE payload_end)) (\<lambda>payload.
     bindR (decode_table decode_v2_node node_record_size ''v2 image node range exceeds usize''
       ''v2 image node table is truncated'' bytes node_count payload_end) (\<lambda>(nodes, cursor).
     bindR (decode_table decode_v2_root root_record_size ''v2 image root range exceeds usize''
       ''v2 image root table is truncated'' bytes root_count cursor) (\<lambda>(roots, cursor).
     if cursor \<noteq> length bytes then
       Inl (V2ImageError.Invalid ''v2 image decoder did not consume all bytes'')
     else Inr \<lparr>image_payload = payload, image_nodes = nodes, image_roots = roots\<rparr>))))))))))))"

section \<open>Node fields\<close>

text \<open>On a canonical record the re-read fields are the record's own.\<close>

fun fields_of_body :: "V2NodeBody \<Rightarrow> V2NodeFields" where
  "fields_of_body (V2NodeBody.Leaf a b) = V2NodeFields.Leaf a b"
| "fields_of_body (V2NodeBody.Branch a b c) = V2NodeFields.Branch a b c"

lemma read_u64_ok_iff:
  "read_u64 bs off m = Inr n \<longleftrightarrow>
     off + 8 < width64 \<and> off + 8 \<le> length bs \<and> n = le_nat (take 8 (drop off bs))"
  by (auto simp: read_u64_def result_iffs checked_iffs slice_get_Some_iff)

lemma read_u32_ok_iff:
  "read_u32 bs off m = Inr n \<longleftrightarrow>
     off + 4 < width64 \<and> off + 4 \<le> length bs \<and> n = le_nat (take 4 (drop off bs))"
  by (auto simp: read_u32_def result_iffs checked_iffs slice_get_Some_iff)

lemma v2_node_fields_canonical:
  assumes "node_canonical n"
  shows "v2_node_fields n = Inr (fields_of_body (node_body n))"
proof -
  have rd: "read_u64 (encode_v2_node n) off m = Inr (le_nat (take 8 (drop off (encode_v2_node n))))"
    if "off \<le> 64" for off m
    using that assms by (simp add: read_u64_ok_iff length_encode_v2_node node_canonical_def
        small_lt_width64)
  have *: "v2_node_fields n = Inr (if node_height n = 1
      then V2NodeFields.Leaf (le_nat (take 8 (drop 16 (encode_v2_node n))))
             (le_nat (take 8 (drop 24 (encode_v2_node n))))
      else V2NodeFields.Branch (le_nat (take 8 (drop 16 (encode_v2_node n))))
             (le_nat (take 8 (drop 24 (encode_v2_node n))))
             (le_nat (take 8 (drop 32 (encode_v2_node n)))))"
    by (simp add: v2_node_fields_def rd Let_def)
  show ?thesis
    using assms unfolding *
    by (cases "node_body n") (auto simp: encode_v2_node_def node_canonical_def none_node_width)
qed

section \<open>Decoding inverts encoding\<close>

definition image_canonical :: "V2SequenceImage \<Rightarrow> bool" where
  "image_canonical img \<longleftrightarrow>
     list_all node_canonical (image_nodes img) \<and> list_all root_canonical (image_roots img)"

lemma encode_table_concat:
  "(\<And>r. r \<in> set rs \<Longrightarrow> length (enc r) = sz) \<Longrightarrow>
   encode_table enc sz m rs = Inr (concat (map enc rs))"
  by (induction rs) auto

lemma length_concat_const:
  "(\<And>r. r \<in> set rs \<Longrightarrow> length (enc r) = sz) \<Longrightarrow> length (concat (map enc rs)) = length rs * sz"
  by (induction rs) auto

lemma decode_table_concat:
  assumes "\<And>r. r \<in> set rs \<Longrightarrow> length (enc r) = sz \<and> dec (enc r) = Inr r"
    and "length pre + length rs * sz < width64"
  shows "decode_table dec sz m1 m2 (pre @ concat (map enc rs) @ post) (length rs) (length pre) =
    Inr (rs, length pre + length rs * sz)"
  using assms
proof (induction rs arbitrary: pre)
  case (Cons r rs)
  have "decode_table dec sz m1 m2 ((pre @ enc r) @ concat (map enc rs) @ post) (length rs)
      (length (pre @ enc r)) = Inr (rs, length (pre @ enc r) + length rs * sz)"
    using Cons.prems by (intro Cons.IH) (auto simp: algebra_simps)
  then show ?case
    using Cons.prems by (auto simp: checked_add_def slice_get_def algebra_simps)
qed simp

lemma decode_table_all:
  assumes "decode_table dec sz m1 m2 bs n c = Inr (rs, c')" and "\<And>b r. dec b = Inr r \<Longrightarrow> P r"
  shows "list_all P rs \<and> length rs = n"
  using assms(1)
proof (induction n arbitrary: rs c)
  case (Suc n)
  then show ?case
    by (auto simp: result_iffs dest!: assms(2))
qed simp

lemma checked_total_len_ok_iff:
  "checked_total_len h = Inr t \<longleftrightarrow>
     hdr_payload_len h < width64 \<and> hdr_node_count h < width64 \<and> hdr_root_count h < width64 \<and>
     hdr_node_record_size h < width64 \<and> hdr_root_record_size h < width64 \<and>
     t = 72 + hdr_payload_len h + hdr_node_count h * hdr_node_record_size h +
       hdr_root_count h * hdr_root_record_size h \<and> t < width64"
  by (auto simp: checked_total_len_def result_iffs checked_iffs V2_IMAGE_HEADER_SIZE_def
      Option.bind_eq_Some_conv)

lemma decode_header_ok_iff:
  "decode_header bs = Inr h \<longleftrightarrow> 72 \<le> length bs \<and> take 4 bs = V2_IMAGE_MAGIC \<and>
     le_nat (take 4 (drop 4 bs)) = V2_IMAGE_VERSION \<and>
     h = \<lparr>hdr_payload_len = le_nat (take 8 (drop 8 bs)), hdr_node_count = le_nat (take 8 (drop 16 bs)),
          hdr_root_count = le_nat (take 8 (drop 24 bs)),
          hdr_node_record_size = le_nat (take 4 (drop 32 bs)),
          hdr_root_record_size = le_nat (take 4 (drop 36 bs))\<rparr> \<and>
     hdr_payload_len h \<noteq> 0 \<and> hdr_node_count h \<noteq> 0 \<and> hdr_root_count h \<noteq> 0 \<and>
     hdr_node_record_size h \<noteq> 0 \<and> hdr_node_record_size h \<le> V2_IMAGE_MAX_RECORD_SIZE \<and>
     hdr_root_record_size h \<noteq> 0 \<and> hdr_root_record_size h \<le> V2_IMAGE_MAX_RECORD_SIZE"
  by (auto simp: decode_header_def result_iffs slice_get_Some_iff read_u32_ok_iff read_u64_ok_iff
      validate_record_size_def small_lt_width64 V2_IMAGE_HEADER_SIZE_def split: if_splits)

definition image_header :: "V2SequenceImage \<Rightarrow> V2ImageHeader" where
  "image_header img = \<lparr>hdr_payload_len = length (image_payload img),
     hdr_node_count = length (image_nodes img), hdr_root_count = length (image_roots img),
     hdr_node_record_size = 72, hdr_root_record_size = 56\<rparr>"

definition image_body :: "V2SequenceImage \<Rightarrow> byte list" where
  "image_body img = image_payload img @ concat (map encode_v2_node (image_nodes img)) @
     concat (map encode_v2_root (image_roots img))"

lemma canonical_widths:
  assumes "image_canonical img"
  shows "\<And>n. n \<in> set (image_nodes img) \<Longrightarrow> length (encode_v2_node n) = 72"
    and "\<And>r. r \<in> set (image_roots img) \<Longrightarrow> length (encode_v2_root r) = 56"
  using assms by (auto simp: image_canonical_def list_all_iff node_canonical_def root_canonical_def
      length_encode_v2_node length_encode_v2_root)

lemma length_image_body:
  "image_canonical img \<Longrightarrow> length (image_body img) =
     length (image_payload img) + length (image_nodes img) * 72 + length (image_roots img) * 56"
  using length_concat_const [of "image_nodes img" encode_v2_node 72]
    length_concat_const [of "image_roots img" encode_v2_root 56]
  by (simp add: image_body_def canonical_widths)

lemma encode_v2_image_ok_iff:
  assumes "image_canonical img"
  shows "encode_v2_image E img = Inr bs \<longleftrightarrow>
    image_payload img \<noteq> [] \<and> image_nodes img \<noteq> [] \<and> image_roots img \<noteq> [] \<and>
    72 + length (image_body img) < width64 \<and>
    bs = encode_header_prefix (image_header img) @
      image_digest E (encode_header_prefix (image_header img)) (image_body img) @ image_body img"
proof (cases "image_payload img = [] \<or> image_nodes img = [] \<or> image_roots img = []")
  case True
  then show ?thesis
    by (auto simp: encode_v2_image_def split: list.splits)
next
  case False
  then obtain p ps n ns r rs where eqs: "image_payload img = p # ps" "image_nodes img = n # ns"
    "image_roots img = r # rs"
    by (auto simp: neq_Nil_conv)
  have tables: "encode_table encode_v2_node 72 m ns = Inr (concat (map encode_v2_node ns))"
    "encode_table encode_v2_root 56 m rs = Inr (concat (map encode_v2_root rs))" for m
    using canonical_widths [OF assms] eqs by (auto intro!: encode_table_concat)
  have width: "length (encode_v2_node n) = 72" "length (encode_v2_root r) = 56"
    using canonical_widths [OF assms] eqs by simp_all
  have small: "(72::nat) < width32" "(56::nat) < width32"
    by (simp_all add: width32_def)
  have "encode_v2_image E img = bindR (checked_total_len (image_header img)) (\<lambda>t.
      if 72 + length (image_body img) \<noteq> t then
        Inl (V2ImageError.Invalid ''v2 image encoder produced an unexpected byte length'')
      else Inr (encode_header_prefix (image_header img) @
        image_digest E (encode_header_prefix (image_header img)) (image_body img) @ image_body img))"
    if "length (image_payload img) < width64" "length (image_nodes img) < width64"
      "length (image_roots img) < width64"
    using that unfolding encode_v2_image_def
    by (simp add: eqs width try_from_def small validate_record_size_def
        V2_IMAGE_MAX_RECORD_SIZE_def tables image_header_def image_body_def
        V2_IMAGE_HEADER_SIZE_def Let_def cong: if_cong)
  moreover have "\<nexists>bs. encode_v2_image E img = Inr bs"
    if "\<not> (length (image_payload img) < width64 \<and> length (image_nodes img) < width64 \<and>
      length (image_roots img) < width64)"
    using that unfolding encode_v2_image_def
    by (auto simp: eqs result_iffs checked_iffs Let_def)
  ultimately show ?thesis
    using False length_image_body [OF assms]
    by (cases "length (image_payload img) < width64 \<and> length (image_nodes img) < width64 \<and>
        length (image_roots img) < width64")
      (auto simp: result_iffs checked_total_len_ok_iff image_header_def width64_def
        split: if_splits)
qed

lemma length_encode_header_prefix [simp]: "length (encode_header_prefix h) = 40"
  by (simp add: encode_header_prefix_def V2_IMAGE_MAGIC_def)

lemma decode_header_encoded:
  assumes "72 \<le> length (encode_header_prefix (image_header img) @ rest)"
    and "72 + length (image_body img) < width64" and "image_canonical img"
    and "image_payload img \<noteq> []" and "image_nodes img \<noteq> []" and "image_roots img \<noteq> []"
  shows "decode_header (encode_header_prefix (image_header img) @ rest) = Inr (image_header img)"
proof -
  have "length (image_payload img) < width64" "length (image_nodes img) < width64"
    "length (image_roots img) < width64" "2 < width32" "72 < width32" "56 < width32"
    using assms(2) by (simp_all add: length_image_body [OF assms(3)] width32_def)
  then show ?thesis
    using assms(1,4-)
    by (auto simp: decode_header_ok_iff encode_header_prefix_def image_header_def
        V2_IMAGE_MAGIC_def V2_IMAGE_VERSION_def V2_IMAGE_MAX_RECORD_SIZE_def)
qed

lemma decode_encode_v2_image:
  assumes "sha_ok E" and can: "image_canonical img" and enc: "encode_v2_image E img = Inr bs"
  shows "decode_v2_image E bs = Inr img"
proof -
  let ?p = "encode_header_prefix (image_header img)"
  let ?d = "image_digest E ?p (image_body img)"
  let ?ns = "concat (map encode_v2_node (image_nodes img))"
  let ?rs = "concat (map encode_v2_root (image_roots img))"
  have d: "length ?d = 32"
    using assms(1) by (simp add: image_digest_def)
  from enc have ne: "image_payload img \<noteq> []" "image_nodes img \<noteq> []" "image_roots img \<noteq> []"
    and lt: "72 + length (image_body img) < width64" and bs: "bs = ?p @ ?d @ image_body img"
    by (simp_all add: encode_v2_image_ok_iff [OF can])
  note lens = length_image_body [OF can]
  have ln: "length ?ns = length (image_nodes img) * 72" "length ?rs = length (image_roots img) * 56"
    using canonical_widths [OF can] by (auto intro!: length_concat_const)
  have "decode_header bs = Inr (image_header img)"
    unfolding bs using d ne lt can by (intro decode_header_encoded) auto
  moreover have "checked_total_len (image_header img) = Inr (length bs)"
    using lt d by (auto simp: bs checked_total_len_ok_iff image_header_def lens width64_def)
  moreover have "slice_get bs 40 72 = Some ?d"
    using d by (simp add: bs slice_get_def)
  moreover have "image_digest E (take 40 bs) (drop 72 bs) = ?d"
    using d by (simp add: bs)
  moreover have "slice_get bs 72 (72 + length (image_payload img)) = Some (image_payload img)"
    using d by (simp add: bs slice_get_def image_body_def)
  moreover have "decode_table decode_v2_node 72 m1 m2 bs (length (image_nodes img))
      (72 + length (image_payload img)) =
      Inr (image_nodes img, 72 + length (image_payload img) + length (image_nodes img) * 72)" for m1 m2
    using decode_table_concat [of "image_nodes img" encode_v2_node 72 decode_v2_node
        "?p @ ?d @ image_payload img" m1 m2 ?rs] canonical_widths [OF can] can d lt
    by (auto simp: bs image_body_def ln image_canonical_def list_all_iff decode_encode_v2_node)
  moreover have "decode_table decode_v2_root 56 m1 m2 bs (length (image_roots img))
      (72 + length (image_payload img) + length (image_nodes img) * 72) =
      Inr (image_roots img, length bs)" for m1 m2
    using decode_table_concat [of "image_roots img" encode_v2_root 56 decode_v2_root
        "?p @ ?d @ image_payload img @ ?ns" m1 m2 "[]"] canonical_widths [OF can] can d lt
    by (auto simp: bs image_body_def ln image_canonical_def list_all_iff decode_encode_v2_root
        add.assoc)
  ultimately show ?thesis
    using lt lens
    by (auto simp: decode_v2_image_def V2_IMAGE_DIGEST_OFFSET_def V2_IMAGE_HEADER_SIZE_def
        V2_IMAGE_PREFIX_SIZE_def image_header_def try_from_def checked_add_def small_lt_width64)
qed

lemma decode_table_inv:
  assumes "decode_table dec sz m1 m2 bs n c = Inr (rs, c')"
    and "\<And>b r. dec b = Inr r \<Longrightarrow> enc r = b" and "c \<le> length bs"
  shows "c' = c + n * sz \<and> c' \<le> length bs \<and> take (n * sz) (drop c bs) = concat (map enc rs)"
  using assms(1,3)
proof (induction n arbitrary: rs c)
  case (Suc n)
  from Suc.prems(1) obtain r rs' where sz: "c + sz \<le> length bs" and
    dec: "dec (take sz (drop c bs)) = Inr r" and rs: "rs = r # rs'" and
    rest: "decode_table dec sz m1 m2 bs n (c + sz) = Inr (rs', c')"
    by (auto simp: result_iffs checked_iffs slice_get_Some_iff)
  from Suc.IH [OF rest sz] have IH: "c' = c + sz + n * sz" "c' \<le> length bs"
    "take (n * sz) (drop (c + sz) bs) = concat (map enc rs')"
    by auto
  have "take (sz + n * sz) (drop c bs) = take sz (drop c bs) @ take (n * sz) (drop (c + sz) bs)"
    by (simp add: take_add add.commute)
  then show ?case
    using IH assms(2) [OF dec] by (simp add: rs)
qed simp

lemma decode_v2_image_canonical:
  assumes "decode_v2_image E bs = Inr img"
  shows "image_canonical img"
proof -
  from assms obtain s1 n1 c1 c2 s2 n2 c3 where
    "decode_table decode_v2_node s1 ''v2 image node range exceeds usize''
       ''v2 image node table is truncated'' bs n1 c1 = Inr (image_nodes img, c2)"
    "decode_table decode_v2_root s2 ''v2 image root range exceeds usize''
       ''v2 image root table is truncated'' bs n2 c2 = Inr (image_roots img, c3)"
    unfolding decode_v2_image_def by (auto simp: result_iffs split: if_splits)
  from this(1) [THEN decode_table_all, of node_canonical]
    this(2) [THEN decode_table_all, of root_canonical]
  show ?thesis
    by (simp add: image_canonical_def encode_decode_v2_node encode_decode_v2_root)
qed


lemma decode_table_width:
  assumes "decode_table dec sz m1 m2 bs n c = Inr (rs, c')" and "n \<noteq> 0"
    and "\<And>b r. dec b = Inr r \<Longrightarrow> length b = w"
  shows "sz = w"
proof (cases n)
  case (Suc k)
  with assms(1) obtain r where "c + sz \<le> length bs" "dec (take sz (drop c bs)) = Inr r"
    by (auto simp: result_iffs checked_iffs slice_get_Some_iff)
  with assms(3) [of "take sz (drop c bs)" r] show ?thesis
    by simp
qed (use assms(2) in simp)

lemma header_bytes:
  assumes "decode_header bs = Inr h"
  shows "encode_header_prefix h = take 40 bs"
proof -
  from assms have len: "72 \<le> length bs" and magic: "take 4 bs = V2_IMAGE_MAGIC"
    and v: "le_nat (take 4 (drop 4 bs)) = V2_IMAGE_VERSION"
    and h: "h = \<lparr>hdr_payload_len = le_nat (take 8 (drop 8 bs)), hdr_node_count = le_nat (take 8 (drop 16 bs)),
          hdr_root_count = le_nat (take 8 (drop 24 bs)),
          hdr_node_record_size = le_nat (take 4 (drop 32 bs)),
          hdr_root_record_size = le_nat (take 4 (drop 36 bs))\<rparr>"
    unfolding decode_header_ok_iff by blast+
  have cut: "take 40 bs = take 4 bs @ take 4 (drop 4 bs) @ take 8 (drop 8 bs) @ take 8 (drop 16 bs) @
      take 8 (drop 24 bs) @ take 4 (drop 32 bs) @ take 4 (drop 36 bs)"
    using concat_cut [of "[4, 4, 8, 8, 8, 4]" "take 40 bs"] by (simp add: drop_take)
  show ?thesis
    unfolding cut encode_header_prefix_def v [symmetric] magic h using len by simp
qed

text \<open>The three regions of an accepted image, as the decoder cuts them.\<close>

lemma decode_v2_image_parts:
  assumes "decode_v2_image E bs = Inr img"
  obtains h where "decode_header bs = Inr h" "checked_total_len h = Inr (length bs)"
    "take 32 (drop 40 bs) = image_digest E (take 40 bs) (drop 72 bs)"
    "image_payload img = take (hdr_payload_len h) (drop 72 bs)"
    "decode_table decode_v2_node (hdr_node_record_size h) ''v2 image node range exceeds usize''
       ''v2 image node table is truncated'' bs (hdr_node_count h) (72 + hdr_payload_len h) =
       Inr (image_nodes img, length bs - hdr_root_count h * hdr_root_record_size h)"
    "decode_table decode_v2_root (hdr_root_record_size h) ''v2 image root range exceeds usize''
       ''v2 image root table is truncated'' bs (hdr_root_count h)
       (length bs - hdr_root_count h * hdr_root_record_size h) = Inr (image_roots img, length bs)"
proof -
  from assms obtain h c where *: "decode_header bs = Inr h" "checked_total_len h = Inr (length bs)"
    "take 32 (drop 40 bs) = image_digest E (take 40 bs) (drop 72 bs)"
    "image_payload img = take (hdr_payload_len h) (drop 72 bs)"
    "decode_table decode_v2_node (hdr_node_record_size h) ''v2 image node range exceeds usize''
       ''v2 image node table is truncated'' bs (hdr_node_count h) (72 + hdr_payload_len h) =
       Inr (image_nodes img, c)"
    "decode_table decode_v2_root (hdr_root_record_size h) ''v2 image root range exceeds usize''
       ''v2 image root table is truncated'' bs (hdr_root_count h) c = Inr (image_roots img, length bs)"
    "72 + hdr_payload_len h \<le> length bs"
    unfolding decode_v2_image_def
    by (auto simp: result_iffs checked_iffs slice_get_Some_iff V2_IMAGE_DIGEST_OFFSET_def
        V2_IMAGE_HEADER_SIZE_def V2_IMAGE_PREFIX_SIZE_def split: if_splits)
  have "c \<le> length bs"
    using decode_table_inv [OF *(5), of encode_v2_node] encode_decode_v2_node *(7) by blast
  then have "length bs = c + hdr_root_count h * hdr_root_record_size h"
    using decode_table_inv [OF *(6), of encode_v2_root] encode_decode_v2_root by blast
  with * that show ?thesis
    by simp
qed

lemma encode_decode_v2_image:
  assumes dec: "decode_v2_image E bs = Inr img"
  shows "encode_v2_image E img = Inr bs"
proof -
  obtain h where h: "decode_header bs = Inr h" "checked_total_len h = Inr (length bs)"
    "take 32 (drop 40 bs) = image_digest E (take 40 bs) (drop 72 bs)"
    "image_payload img = take (hdr_payload_len h) (drop 72 bs)"
    and nodes: "decode_table decode_v2_node (hdr_node_record_size h) ''v2 image node range exceeds usize''
       ''v2 image node table is truncated'' bs (hdr_node_count h) (72 + hdr_payload_len h) =
       Inr (image_nodes img, length bs - hdr_root_count h * hdr_root_record_size h)"
    and roots: "decode_table decode_v2_root (hdr_root_record_size h) ''v2 image root range exceeds usize''
       ''v2 image root table is truncated'' bs (hdr_root_count h)
       (length bs - hdr_root_count h * hdr_root_record_size h) = Inr (image_roots img, length bs)"
    by (rule decode_v2_image_parts [OF dec]) blast
  note can = decode_v2_image_canonical [OF dec]
  have ne: "hdr_payload_len h \<noteq> 0" "hdr_node_count h \<noteq> 0" "hdr_root_count h \<noteq> 0" and l72: "72 \<le> length bs"
    using h(1) unfolding decode_header_ok_iff by blast+
  have sz: "hdr_node_record_size h = 72" "hdr_root_record_size h = 56"
    using decode_table_width [OF nodes ne(2), of 72] decode_table_width [OF roots ne(3), of 56]
    by (auto simp: decode_v2_node_ok_iff decode_v2_root_ok_iff)
  have tot: "length bs = 72 + hdr_payload_len h + hdr_node_count h * 72 + hdr_root_count h * 56"
    "length bs < width64"
    using h(2) sz by (auto simp: checked_total_len_ok_iff)
  have cn: "length (image_nodes img) = hdr_node_count h" "length (image_roots img) = hdr_root_count h"
    using decode_table_all [OF nodes, of "\<lambda>_. True"] decode_table_all [OF roots, of "\<lambda>_. True"] by auto
  have pl: "length (image_payload img) = hdr_payload_len h"
    using tot by (simp add: h(4))
  have "image_header img = h"
    using sz cn pl by (simp add: image_header_def)
  moreover have body: "image_body img = drop 72 bs"
  proof -
    have n: "concat (map encode_v2_node (image_nodes img)) =
        take (hdr_node_count h * 72) (drop (hdr_payload_len h) (drop 72 bs))"
      using decode_table_inv [OF nodes, of encode_v2_node] encode_decode_v2_node tot sz
      by (simp add: add.commute)
    have r: "concat (map encode_v2_root (image_roots img)) =
        drop (hdr_node_count h * 72) (drop (hdr_payload_len h) (drop 72 bs))"
      using decode_table_inv [OF roots, of encode_v2_root] encode_decode_v2_root tot sz
      by (simp add: add.commute add.left_commute)
    show ?thesis
      unfolding image_body_def n r h(4) by (simp only: append_take_drop_id)
  qed
  moreover have "bs = take 40 bs @ take 32 (drop 40 bs) @ drop 72 bs"
    using concat_cut [of "[40, 32]" bs] by simp
  ultimately show ?thesis
    using header_bytes [OF h(1)] h(3) tot ne pl cn l72
    by (subst encode_v2_image_ok_iff [OF can]) (auto simp: length_image_body [OF can])
qed


section \<open>Properties\<close>

text \<open>
  C20.  Image codec.  A byte string decodes to an image exactly when the image's records are
  canonical and the string is what the encoder produces for it.
\<close>

theorem image_codec_bijective:
  assumes "sha_ok E"
  shows "decode_v2_image E bytes = Inr img \<longleftrightarrow> image_canonical img \<and> encode_v2_image E img = Inr bytes"
  using assms decode_encode_v2_image encode_decode_v2_image decode_v2_image_canonical by blast

definition sample_image :: V2SequenceImage where
  "sample_image = \<lparr>image_payload = [10, 20, 30],
     image_nodes = [\<lparr>node_height = 1, node_len = 3, node_commitment = replicate 32 5,
       node_body = V2NodeBody.Leaf 0 3\<rparr>],
     image_roots = [\<lparr>root_node_id = 0, root_len = 3, root_height = 1, root_commitment = replicate 32 5\<rparr>]\<rparr>"

lemma sample_image_canonical: "image_canonical sample_image"
  by (simp add: sample_image_def image_canonical_def node_canonical_def root_canonical_def
      width16_def width64_def V2_NONE_NODE_def MAX_LEAF_PAYLOAD_BYTES_def)

theorem image_codec_bijective_witness:
  "\<exists>bytes. encode_v2_image sample_env sample_image = Inr bytes \<and>
    decode_v2_image sample_env bytes = Inr sample_image"
proof -
  obtain bytes where "encode_v2_image sample_env sample_image = Inr bytes"
    using encode_v2_image_ok_iff [OF sample_image_canonical, of sample_env]
      length_image_body [OF sample_image_canonical]
    by (simp add: sample_image_def width64_def)
  then show ?thesis
    using image_codec_bijective [OF sample_env_ok] sample_image_canonical by blast
qed

end
