(* ===== verification/Avl_V2.thy ===== *)
theory Avl_V2
  imports Image_V2
begin

text \<open>
  The persistent AVL sequence of \<open>persistent_sequence/avl.rs\<close>.  The Rust code is written once
  against the trait \<open>ArenaStore\<close>; here the trait is a record of operations \<open>A\<close> that every function
  takes, exactly the dictionary a generic Rust function is compiled with.  The state of a mutating
  function is the arena together with the \<open>inspected\<close> counter it is handed by reference.

  Recursive descents follow node identifiers that the arena supplies, so nothing in their text
  bounds them; they are partial functions, and \<open>None\<close> is a descent that never returns.
\<close>

section \<open>Data\<close>

datatype V2AvlError =
    Format V2FormatError
  | Image V2ImageError
  | Invalid msg
  | Overflow msg
  | Capacity msg

record V2AppendResult =
  append_root :: V2RootRecord
  append_allocated_nodes :: usize
  append_inspected_nodes :: usize

record V2SpliceResult =
  splice_root :: V2RootRecord
  splice_allocated_nodes :: usize
  splice_inspected_nodes :: usize
  splice_payload_bytes_allocated :: usize

datatype ArenaNode =
    Leaf u64 u64 V2NodeRecord
  | Branch V2RootRecord V2RootRecord V2NodeRecord

fun node_record :: "ArenaNode \<Rightarrow> V2NodeRecord" where
  "node_record (ArenaNode.Leaf _ _ r) = r"
| "node_record (ArenaNode.Branch _ _ r) = r"

record 'a ArenaStore =
  arena_payload_len :: "'a \<Rightarrow> usize"
  arena_node_count :: "'a \<Rightarrow> usize"
  arena_load_node :: "'a \<Rightarrow> u64 \<Rightarrow> V2AvlError + ArenaNode"
  arena_read_payload :: "'a \<Rightarrow> u64 \<Rightarrow> u64 \<Rightarrow> V2AvlError + byte list"
  arena_append_payload :: "'a \<Rightarrow> byte list \<Rightarrow> (V2AvlError + u64) \<times> 'a"
  arena_push_node :: "'a \<Rightarrow> ArenaNode \<Rightarrow> (V2AvlError + u64) \<times> 'a"
  arena_truncate :: "'a \<Rightarrow> usize \<Rightarrow> usize \<Rightarrow> 'a"

type_synonym 'a arena_state = "'a \<times> usize"
type_synonym ('a, 'r) avl_prog = "('a arena_state, V2AvlError, 'r) prog"

section \<open>Access helpers\<close>

definition bump :: "nat \<Rightarrow> ('a, unit) avl_prog" where
  "bump k s = Some (Inr (), (fst s, saturating_add width64 (snd s) k))"

definition viewP :: "('a \<Rightarrow> V2AvlError + 'r) \<Rightarrow> ('a, 'r) avl_prog" where
  "viewP f s = Some (f (fst s), s)"

definition mutP :: "('a \<Rightarrow> (V2AvlError + 'r) \<times> 'a) \<Rightarrow> ('a, 'r) avl_prog" where
  "mutP f s = Some (fst (f (fst s)), (snd (f (fst s)), snd s))"

section \<open>Resolution and validation\<close>

definition node_for_root_on :: "'a ArenaStore \<Rightarrow> 'a \<Rightarrow> V2RootRecord \<Rightarrow> V2AvlError + ArenaNode" where
  "node_for_root_on A arena root =
     bindR (arena_load_node A arena (root_node_id root)) (\<lambda>node.
     bindR (map_err V2AvlError.Format
       (V2RootRecord_from_node (root_node_id root) (node_record node))) (\<lambda>canonical.
     if canonical \<noteq> root then
       Inl (V2AvlError.Invalid ''v2 root metadata disagrees with its arena node'')
     else Inr node))"

definition root_for_node_id_on :: "'a ArenaStore \<Rightarrow> 'a \<Rightarrow> u64 \<Rightarrow> V2AvlError + V2RootRecord" where
  "root_for_node_id_on A arena node_id =
     bindR (arena_load_node A arena node_id) (\<lambda>node.
     map_err V2AvlError.Format (V2RootRecord_from_node node_id (node_record node)))"

fun validate_node_on :: "env \<Rightarrow> 'a ArenaStore \<Rightarrow> 'a \<Rightarrow> ArenaNode \<Rightarrow> V2AvlError + unit" where
  "validate_node_on E A arena (ArenaNode.Leaf payload_offset payload_len rec) =
     bindR (ok_or (V2AvlError.Overflow ''v2 leaf payload range exceeds u64'')
       (checked_add width64 payload_offset payload_len)) (\<lambda>payload_end.
     bindR (arena_read_payload A arena payload_offset payload_end) (\<lambda>bytes.
     bindR (map_err V2AvlError.Format (V2NodeRecord_leaf E payload_offset bytes)) (\<lambda>expected.
     if expected \<noteq> rec then
       Inl (V2AvlError.Invalid ''v2 leaf metadata or commitment verification failed'')
     else Inr ())))"
| "validate_node_on E A arena (ArenaNode.Branch left right rec) =
     bindR (map_err V2AvlError.Format (V2NodeRecord_branch E left right)) (\<lambda>expected.
     if expected \<noteq> rec then
       Inl (V2AvlError.Invalid ''v2 branch metadata or commitment verification failed'')
     else Inr ())"

definition branch_children_on ::
  "'a ArenaStore \<Rightarrow> V2RootRecord \<Rightarrow> ('a, V2RootRecord \<times> V2RootRecord) avl_prog" where
  "branch_children_on A root =
     bindP (bump 1) (\<lambda>_.
     bindP (viewP (\<lambda>arena. node_for_root_on A arena root)) (\<lambda>node.
     case node of
       ArenaNode.Branch left right _ \<Rightarrow> retP (left, right)
     | ArenaNode.Leaf _ _ _ \<Rightarrow>
         failP (V2AvlError.Invalid ''v2 AVL traversal expected a branch node'')))"

section \<open>Allocation\<close>

definition allocate_node_on :: "'a ArenaStore \<Rightarrow> ArenaNode \<Rightarrow> ('a, V2RootRecord) avl_prog" where
  "allocate_node_on A node =
     bindP (viewP (\<lambda>arena. ok_or (V2AvlError.Overflow ''v2 node arena length exceeds u64'')
       (try_from width64 (arena_node_count A arena)))) (\<lambda>node_id.
     bindP (liftP (map_err V2AvlError.Format
       (V2RootRecord_from_node node_id (node_record node)))) (\<lambda>root.
     bindP (mutP (\<lambda>arena. arena_push_node A arena node)) (\<lambda>placed.
     if placed \<noteq> node_id then
       failP (V2AvlError.Invalid ''v2 node placement disagrees with its record'')
     else retP root)))"

definition allocate_leaf_on :: "env \<Rightarrow> 'a ArenaStore \<Rightarrow> byte list \<Rightarrow> ('a, V2RootRecord) avl_prog" where
  "allocate_leaf_on E A bytes =
     bindP (viewP (\<lambda>arena. ok_or (V2AvlError.Overflow ''v2 payload arena length exceeds u64'')
       (try_from width64 (arena_payload_len A arena)))) (\<lambda>payload_offset.
     bindP (liftP (map_err V2AvlError.Format (V2NodeRecord_leaf E payload_offset bytes))) (\<lambda>rec.
     bindP (mutP (\<lambda>arena. arena_append_payload A arena bytes)) (\<lambda>placed.
     if placed \<noteq> payload_offset then
       failP (V2AvlError.Invalid ''v2 leaf payload placement disagrees with its record'')
     else allocate_node_on A (ArenaNode.Leaf payload_offset (node_len rec) rec))))"

definition allocate_branch_on ::
  "env \<Rightarrow> 'a ArenaStore \<Rightarrow> V2RootRecord \<Rightarrow> V2RootRecord \<Rightarrow> ('a, V2RootRecord) avl_prog" where
  "allocate_branch_on E A left right =
     bindP (bump 2) (\<lambda>_.
     bindP (viewP (\<lambda>arena. node_for_root_on A arena left)) (\<lambda>_.
     bindP (viewP (\<lambda>arena. node_for_root_on A arena right)) (\<lambda>_.
     bindP (liftP (map_err V2AvlError.Format (V2NodeRecord_branch E left right))) (\<lambda>rec.
     allocate_node_on A (ArenaNode.Branch left right rec)))))"

section \<open>Balancing concatenation\<close>

definition rebalance_on ::
  "env \<Rightarrow> 'a ArenaStore \<Rightarrow> V2RootRecord \<Rightarrow> V2RootRecord \<Rightarrow> ('a, V2RootRecord) avl_prog" where
  "rebalance_on E A left right =
    (if abs_diff (root_height left) (root_height right) \<le> 1 then allocate_branch_on E A left right
     else if root_height left > root_height right then
       bindP (branch_children_on A left) (\<lambda>(left_left, left_right).
       if root_height left_left \<ge> root_height left_right then
         bindP (allocate_branch_on E A left_right right) (\<lambda>new_right.
         allocate_branch_on E A left_left new_right)
       else
         bindP (branch_children_on A left_right) (\<lambda>(middle_left, middle_right).
         bindP (allocate_branch_on E A left_left middle_left) (\<lambda>new_left.
         bindP (allocate_branch_on E A middle_right right) (\<lambda>new_right.
         allocate_branch_on E A new_left new_right))))
     else
       bindP (branch_children_on A right) (\<lambda>(right_left, right_right).
       if root_height right_right \<ge> root_height right_left then
         bindP (allocate_branch_on E A left right_left) (\<lambda>new_left.
         allocate_branch_on E A new_left right_right)
       else
         bindP (branch_children_on A right_left) (\<lambda>(middle_left, middle_right).
         bindP (allocate_branch_on E A left middle_left) (\<lambda>new_left.
         bindP (allocate_branch_on E A middle_right right_right) (\<lambda>new_right.
         allocate_branch_on E A new_left new_right)))))"

partial_function (option) concat_on ::
  "env \<Rightarrow> 'a ArenaStore \<Rightarrow> V2RootRecord \<Rightarrow> V2RootRecord \<Rightarrow> 'a arena_state \<Rightarrow>
   ((V2AvlError + V2RootRecord) \<times> 'a arena_state) option" where
  "concat_on E A left right s =
    (if root_height left > saturating_add width16 (root_height right) 1 then
       bindP (branch_children_on A left) (\<lambda>(left_left, left_right).
       bindP (concat_on E A left_right right) (\<lambda>joined.
       rebalance_on E A left_left joined)) s
     else if root_height right > saturating_add width16 (root_height left) 1 then
       bindP (branch_children_on A right) (\<lambda>(right_left, right_right).
       bindP (concat_on E A left right_left) (\<lambda>joined.
       rebalance_on E A joined right_right)) s
     else allocate_branch_on E A left right s)"

definition concat_optional_on ::
  "env \<Rightarrow> 'a ArenaStore \<Rightarrow> V2RootRecord option \<Rightarrow> V2RootRecord option \<Rightarrow>
   ('a, V2RootRecord option) avl_prog" where
  "concat_optional_on E A left right =
    (case (left, right) of
       (None, None) \<Rightarrow> retP None
     | (None, Some root) \<Rightarrow> retP (Some root)
     | (Some root, None) \<Rightarrow> retP (Some root)
     | (Some l, Some r) \<Rightarrow> bindP (concat_on E A l r) (\<lambda>root. retP (Some root)))"

section \<open>Splitting\<close>

definition split_leaf ::
  "env \<Rightarrow> 'a ArenaStore \<Rightarrow> u64 \<Rightarrow> u64 \<Rightarrow> u64 \<Rightarrow>
   ('a, V2RootRecord option \<times> V2RootRecord option) avl_prog" where
  "split_leaf E A payload_offset payload_len off =
     bindP (liftP (ok_or (V2AvlError.Overflow ''v2 leaf split range exceeds u64'')
       (checked_add width64 payload_offset off))) (\<lambda>left_end.
     bindP (liftP (ok_or (V2AvlError.Overflow ''v2 leaf split range exceeds u64'')
       (checked_add width64 payload_offset payload_len))) (\<lambda>leaf_end.
     bindP (viewP (\<lambda>arena. arena_read_payload A arena payload_offset left_end)) (\<lambda>left_bytes.
     bindP (viewP (\<lambda>arena. arena_read_payload A arena left_end leaf_end)) (\<lambda>right_bytes.
     bindP (allocate_leaf_on E A left_bytes) (\<lambda>left.
     bindP (allocate_leaf_on E A right_bytes) (\<lambda>right.
     retP (Some left, Some right)))))))"

partial_function (option) split_on ::
  "env \<Rightarrow> 'a ArenaStore \<Rightarrow> V2RootRecord \<Rightarrow> u64 \<Rightarrow> 'a arena_state \<Rightarrow>
   ((V2AvlError + V2RootRecord option \<times> V2RootRecord option) \<times> 'a arena_state) option" where
  "split_on E A root off s =
    (if off > root_len root then
       failP (V2AvlError.Invalid ''v2 sequence split offset exceeds root length'') s
     else if off = 0 then retP (None, Some root) s
     else if off = root_len root then retP (Some root, None) s
     else
       bindP (bump 1) (\<lambda>_.
       bindP (viewP (\<lambda>arena. node_for_root_on A arena root)) (\<lambda>node.
       bindP (viewP (\<lambda>arena. validate_node_on E A arena node)) (\<lambda>_ s.
       case node of
         ArenaNode.Leaf payload_offset payload_len _ \<Rightarrow> split_leaf E A payload_offset payload_len off s
       | ArenaNode.Branch left right _ \<Rightarrow>
           (if off < root_len left then
             bindP (split_on E A left off) (\<lambda>p.
             bindP (case snd p of None \<Rightarrow> retP right | Some near \<Rightarrow> concat_on E A near right) (\<lambda>joined_right.
             retP (fst p, Some joined_right))) s
           else if off = root_len left then retP (Some left, Some right) s
           else
             bindP (split_on E A right (off - root_len left)) (\<lambda>p.
             bindP (case fst p of None \<Rightarrow> retP left | Some near \<Rightarrow> concat_on E A left near) (\<lambda>joined_left.
             retP (Some joined_left, snd p))) s)))) s)"

section \<open>Building an inserted subtree\<close>

fun chunks :: "nat \<Rightarrow> 'b list \<Rightarrow> 'b list list" where
  "chunks n xs = (if xs = [] \<or> n = 0 then [] else take n xs # chunks n (drop n xs))"

declare chunks.simps [simp del]

fun allocate_leaves :: "env \<Rightarrow> 'a ArenaStore \<Rightarrow> byte list list \<Rightarrow> ('a, V2RootRecord list) avl_prog" where
  "allocate_leaves E A [] = retP []"
| "allocate_leaves E A (c # cs) =
     bindP (allocate_leaf_on E A c) (\<lambda>leaf.
     bindP (allocate_leaves E A cs) (\<lambda>level. retP (leaf # level)))"

fun pair_level :: "env \<Rightarrow> 'a ArenaStore \<Rightarrow> V2RootRecord list \<Rightarrow> ('a, V2RootRecord list) avl_prog" where
  "pair_level E A [] = retP []"
| "pair_level E A [r] = retP [r]"
| "pair_level E A (r # r' # rs) =
     bindP (concat_on E A r r') (\<lambda>joined.
     bindP (pair_level E A rs) (\<lambda>next. retP (joined # next)))"

partial_function (option) pair_rounds ::
  "env \<Rightarrow> 'a ArenaStore \<Rightarrow> V2RootRecord list \<Rightarrow> 'a arena_state \<Rightarrow>
   ((V2AvlError + V2RootRecord list) \<times> 'a arena_state) option" where
  "pair_rounds E A level s =
    (if length level > 1 then
       if \<not> try_reserve E ''v2 sequence insert level allocation failed'' ((length level + 1) div 2)
       then failP (V2AvlError.Invalid ''v2 sequence insert level allocation failed'') s
       else bindP (pair_level E A level) (\<lambda>next. pair_rounds E A next) s
     else retP level s)"

definition build_insert_subtree_on ::
  "env \<Rightarrow> 'a ArenaStore \<Rightarrow> byte list \<Rightarrow> ('a, V2RootRecord) avl_prog" where
  "build_insert_subtree_on E A ins =
    (if \<not> try_reserve E ''v2 sequence insert level allocation failed''
          ((length ins + MAX_LEAF_PAYLOAD_BYTES - 1) div MAX_LEAF_PAYLOAD_BYTES)
     then failP (V2AvlError.Invalid ''v2 sequence insert level allocation failed'')
     else
       bindP (allocate_leaves E A (chunks MAX_LEAF_PAYLOAD_BYTES ins)) (\<lambda>level.
       bindP (pair_rounds E A level) (\<lambda>level.
       if level = [] then failP (V2AvlError.Invalid ''v2 sequence insert produced no content'')
       else retP (last level))))"

section \<open>Splice and append\<close>

definition splice_inner_on ::
  "env \<Rightarrow> 'a ArenaStore \<Rightarrow> V2RootRecord option \<Rightarrow> u64 \<Rightarrow> u64 \<Rightarrow> byte list \<Rightarrow>
   ('a, V2RootRecord) avl_prog" where
  "splice_inner_on E A parent off delete_len ins =
     bindP (if ins = [] then retP None
            else bindP (build_insert_subtree_on E A ins) (\<lambda>r. retP (Some r))) (\<lambda>middle.
     case parent of
       None \<Rightarrow> liftP (ok_or (V2AvlError.Invalid ''v2 sequence root creation produced no content'') middle)
     | Some root \<Rightarrow>
         bindP (split_on E A root off) (\<lambda>(left, mid_right).
         bindP (case mid_right of
                  None \<Rightarrow> retP None
                | Some mid \<Rightarrow>
                    if delete_len = 0 then retP (Some mid)
                    else bindP (split_on E A mid delete_len) (\<lambda>(_, right). retP right)) (\<lambda>right.
         bindP (concat_optional_on E A left middle) (\<lambda>combined.
         bindP (concat_optional_on E A combined right) (\<lambda>combined.
         liftP (ok_or (V2AvlError.Invalid ''v2 sequence splice produced an empty root'') combined))))))"

text \<open>The checks before any mutation: parent resolution, coordinates, result length, effect.\<close>

definition splice_checks ::
  "env \<Rightarrow> 'a ArenaStore \<Rightarrow> 'a \<Rightarrow> V2RootRecord option \<Rightarrow> u64 \<Rightarrow> u64 \<Rightarrow> byte list \<Rightarrow> V2AvlError + unit" where
  "splice_checks E A arena parent off delete_len ins =
     bindR (case parent of
              None \<Rightarrow> Inr 0
            | Some root \<Rightarrow> bindR (node_for_root_on A arena root) (\<lambda>_. Inr (root_len root))) (\<lambda>source_len.
     if off > source_len then
       Inl (V2AvlError.Invalid ''v2 sequence splice offset exceeds parent length'')
     else if delete_len > source_len - off then
       Inl (V2AvlError.Invalid ''v2 sequence splice delete range exceeds parent length'')
     else
     bindR (ok_or (V2AvlError.Overflow ''v2 sequence insert length exceeds u64'')
       (try_from width64 (length ins))) (\<lambda>insert_len.
     bindR (ok_or (V2AvlError.Overflow ''v2 sequence splice result length exceeds u64'')
       (checked_add width64 (source_len - delete_len) insert_len)) (\<lambda>result_len.
     bindR (case parent of
              None \<Rightarrow>
                if off \<noteq> 0 \<or> delete_len \<noteq> 0 then
                  Inl (V2AvlError.Invalid
                    ''v2 sequence root creation requires zero offset and delete length'')
                else if ins = [] then
                  Inl (V2AvlError.Invalid ''v2 sequence root creation requires non-empty insert'')
                else Inr ()
            | Some _ \<Rightarrow>
                if delete_len = 0 \<and> ins = [] then
                  Inl (V2AvlError.Invalid ''v2 sequence splice without effect is rejected'')
                else Inr ()) (\<lambda>_.
     if result_len = 0 then
       Inl (V2AvlError.Invalid ''v2 sequence splice result must be non-empty'')
     else
     (case parent of
        None \<Rightarrow> Inr ()
      | Some root \<Rightarrow> bindR (node_for_root_on A arena root) (\<lambda>node. validate_node_on E A arena node))))))"


definition splice_on ::
  "env \<Rightarrow> 'a ArenaStore \<Rightarrow> V2RootRecord option \<Rightarrow> u64 \<Rightarrow> u64 \<Rightarrow> byte list \<Rightarrow>
   ('a, V2AvlError, V2SpliceResult) prog" where
  "splice_on E A parent off delete_len ins arena =
    (case splice_checks E A arena parent off delete_len ins of
       Inl e \<Rightarrow> Some (Inl e, arena)
     | Inr _ \<Rightarrow>
         let payload_start = arena_payload_len A arena;
             node_start = arena_node_count A arena
         in (case splice_inner_on E A parent off delete_len ins (arena, 0) of
               None \<Rightarrow> None
             | Some (Inr root, (arena', inspected)) \<Rightarrow>
                 Some (Inr \<lparr>splice_root = root,
                            splice_allocated_nodes = arena_node_count A arena' - node_start,
                            splice_inspected_nodes = inspected,
                            splice_payload_bytes_allocated = arena_payload_len A arena' - payload_start\<rparr>,
                       arena')
             | Some (Inl e, (arena', _)) \<Rightarrow>
                 Some (Inl e, arena_truncate A arena' payload_start node_start)))"

definition append_on ::
  "env \<Rightarrow> 'a ArenaStore \<Rightarrow> V2RootRecord option \<Rightarrow> byte list \<Rightarrow>
   ('a, V2AvlError, V2AppendResult) prog" where
  "append_on E A parent bytes =
     (let off = (case parent of None \<Rightarrow> 0 | Some root \<Rightarrow> root_len root)
      in bindP (splice_on E A parent off 0 bytes) (\<lambda>result.
         retP \<lparr>append_root = splice_root result,
               append_allocated_nodes = splice_allocated_nodes result,
               append_inspected_nodes = splice_inspected_nodes result\<rparr>))"

section \<open>Range reads\<close>

text \<open>The traversal stack is a list with its top first.\<close>

type_synonym read_frame = "V2RootRecord \<times> u64 \<times> u64"

definition branch_frames :: "V2RootRecord \<Rightarrow> V2RootRecord \<Rightarrow> u64 \<Rightarrow> u64 \<Rightarrow> read_frame list" where
  "branch_frames left right local_offset local_length =
    (if local_offset < root_len left then
       let left_length = min local_length (root_len left - local_offset);
           right_length = local_length - left_length
       in (if left_length > 0 then [(left, local_offset, left_length)] else []) @
          (if right_length > 0 then [(right, 0, right_length)] else [])
     else [(right, local_offset - root_len left, local_length)])"

definition read_leaf ::
  "'a ArenaStore \<Rightarrow> 'a \<Rightarrow> u64 \<Rightarrow> u64 \<Rightarrow> u64 \<Rightarrow> u64 \<Rightarrow> V2AvlError + byte list" where
  "read_leaf A arena payload_offset payload_len local_offset local_length =
     bindR (ok_or (V2AvlError.Overflow ''v2 leaf range exceeds u64'')
       (checked_add width64 local_offset local_length)) (\<lambda>local_end.
     if local_end > payload_len then Inl (V2AvlError.Invalid ''v2 leaf range exceeds leaf payload'')
     else
     bindR (ok_or (V2AvlError.Overflow ''v2 payload start exceeds u64'')
       (checked_add width64 payload_offset local_offset)) (\<lambda>start.
     bindR (ok_or (V2AvlError.Overflow ''v2 payload end exceeds u64'')
       (checked_add width64 start local_length)) (\<lambda>end'.
     arena_read_payload A arena start end')))"

partial_function (option) read_loop ::
  "env \<Rightarrow> 'a ArenaStore \<Rightarrow> 'a \<Rightarrow> read_frame list \<Rightarrow> byte list \<Rightarrow> u64 \<Rightarrow>
   (V2AvlError + byte list \<times> u64) option" where
  "read_loop E A arena stack output visited =
    (case stack of
       [] \<Rightarrow> Some (Inr (output, visited))
     | (current, local_offset, local_length) # rest \<Rightarrow>
         (case bindR (node_for_root_on A arena current) (\<lambda>node.
               bindR (validate_node_on E A arena node) (\<lambda>_. Inr node)) of
            Inl e \<Rightarrow> Some (Inl e)
          | Inr (ArenaNode.Leaf payload_offset payload_len _) \<Rightarrow>
              (case read_leaf A arena payload_offset payload_len local_offset local_length of
                 Inl e \<Rightarrow> Some (Inl e)
               | Inr bytes \<Rightarrow>
                   read_loop E A arena rest (output @ bytes) (saturating_add width64 visited 1))
          | Inr (ArenaNode.Branch left right _) \<Rightarrow>
              read_loop E A arena (branch_frames left right local_offset local_length @ rest) output
                (saturating_add width64 visited 1)))"

definition read_range_counted_on ::
  "env \<Rightarrow> 'a ArenaStore \<Rightarrow> 'a \<Rightarrow> V2RootRecord \<Rightarrow> u64 \<Rightarrow> u64 \<Rightarrow> (V2AvlError + byte list \<times> u64) option"
where
  "read_range_counted_on E A arena root off len =
    (case bindR (node_for_root_on A arena root) (\<lambda>_.
          bindR (ok_or (V2AvlError.Overflow ''v2 range end exceeds u64'') (checked_add width64 off len)) (\<lambda>end'.
          if end' > root_len root then Inl (V2AvlError.Invalid ''v2 range exceeds root logical length'')
          else ok_or (V2AvlError.Overflow ''v2 range length exceeds usize'') (try_from width64 len))) of
       Inl e \<Rightarrow> Some (Inl e)
     | Inr capacity \<Rightarrow>
         if len = 0 then Some (Inr ([], 0))
         else
           (case read_loop E A arena [(root, off, len)] [] 0 of
              None \<Rightarrow> None
            | Some (Inl e) \<Rightarrow> Some (Inl e)
            | Some (Inr (output, visited)) \<Rightarrow>
                if length output \<noteq> capacity then
                  Some (Inl (V2AvlError.Invalid ''v2 range traversal produced an unexpected byte count''))
                else Some (Inr (output, visited))))"

section \<open>Verification\<close>

partial_function (option) verify_node_on ::
  "env \<Rightarrow> 'a ArenaStore \<Rightarrow> 'a \<Rightarrow> V2RootRecord \<Rightarrow> u64 \<Rightarrow> ((V2AvlError + unit) \<times> u64) option" where
  "verify_node_on E A arena root visited =
     bindP (liftP (node_for_root_on A arena root)) (\<lambda>node.
     bindP (liftP (validate_node_on E A arena node)) (\<lambda>_ v.
     case node of
       ArenaNode.Leaf _ _ _ \<Rightarrow> retP () v
     | ArenaNode.Branch left right _ \<Rightarrow>
         bindP (verify_node_on E A arena left) (\<lambda>_.
         verify_node_on E A arena right) v)) (saturating_add width64 visited 1)"

definition verify_root_counted_on ::
  "env \<Rightarrow> 'a ArenaStore \<Rightarrow> 'a \<Rightarrow> V2RootRecord \<Rightarrow> (V2AvlError + u64) option" where
  "verify_root_counted_on E A arena root =
    (case verify_node_on E A arena root 0 of
       None \<Rightarrow> None
     | Some (Inl e, _) \<Rightarrow> Some (Inl e)
     | Some (Inr _, visited) \<Rightarrow> Some (Inr visited))"

declare concat_on.simps [code] split_on.simps [code] pair_rounds.simps [code]
  read_loop.simps [code] verify_node_on.simps [code]

end
