(* ===== verification/Avl_Tree.thy ===== *)
theory Avl_Tree
  imports Avl_V2
begin

text \<open>
  The abstract counterpart of the arena: a version of a sequence is a binary tree with bounded
  byte-string leaves.  Balancing concatenation, split, bottom-up construction and splice are
  stated on trees, with what they do to the content and to the balance; the arena code is shown
  to compute exactly these functions in \<open>Avl_Correct\<close>.
\<close>

section \<open>Trees\<close>

datatype vtree = Lf "byte list" | Br vtree vtree

fun content :: "vtree \<Rightarrow> byte list" where
  "content (Lf bs) = bs"
| "content (Br l r) = content l @ content r"

fun theight :: "vtree \<Rightarrow> nat" where
  "theight (Lf bs) = 1"
| "theight (Br l r) = max (theight l) (theight r) + 1"

fun tnodes :: "vtree \<Rightarrow> nat" where
  "tnodes (Lf bs) = 1"
| "tnodes (Br l r) = tnodes l + tnodes r + 1"

fun bounded_avl :: "vtree \<Rightarrow> bool" where
  "bounded_avl (Lf bs) \<longleftrightarrow> bs \<noteq> [] \<and> length bs \<le> MAX_LEAF_PAYLOAD_BYTES"
| "bounded_avl (Br l r) \<longleftrightarrow> bounded_avl l \<and> bounded_avl r \<and>
     theight l \<le> theight r + 1 \<and> theight r \<le> theight l + 1"

definition fits :: "vtree \<Rightarrow> bool" where
  "fits t \<longleftrightarrow> bounded_avl t \<and> length (content t) < width64"

definition tlen :: "vtree \<Rightarrow> nat" where
  "tlen t = length (content t)"

lemma tlen_simps [simp]: "tlen (Lf bs) = length bs" "tlen (Br l r) = tlen l + tlen r"
  by (simp_all add: tlen_def)

lemma fits_Br: "fits (Br l r) \<longleftrightarrow> fits l \<and> fits r \<and> theight l \<le> theight r + 1 \<and>
    theight r \<le> theight l + 1 \<and> tlen l + tlen r < width64"
  by (auto simp: fits_def tlen_def)

lemma fits_Lf: "fits (Lf bs) \<longleftrightarrow> bs \<noteq> [] \<and> length bs \<le> MAX_LEAF_PAYLOAD_BYTES"
  by (auto simp: fits_def MAX_LEAF_PAYLOAD_BYTES_def width64_def)

lemma fits_len: "fits t \<Longrightarrow> tlen t < width64"
  by (simp add: fits_def tlen_def)

lemma fits_avl: "fits t \<Longrightarrow> bounded_avl t"
  by (simp add: fits_def)

lemma theight_pos [simp]: "0 < theight t"
  by (cases t) auto

lemma content_nonempty: "bounded_avl t \<Longrightarrow> content t \<noteq> []"
  by (induction t) auto

lemma tlen_pos: "bounded_avl t \<Longrightarrow> 0 < tlen t"
  by (simp add: tlen_def content_nonempty)

subsection \<open>Heights are logarithmic\<close>

lemma avl_height_length: "bounded_avl t \<Longrightarrow> 2 ^ ((theight t - 1) div 2) \<le> tlen t"
proof (induction "theight t" arbitrary: t rule: less_induct)
  case less
  show ?case
  proof (cases t)
    case (Lf bs)
    with less.prems show ?thesis
      by (cases bs) auto
  next
    case (Br l r)
    with less.prems have bal: "bounded_avl l" "bounded_avl r" "theight l \<le> theight r + 1"
      "theight r \<le> theight l + 1"
      by auto
    let ?m = "max (theight l) (theight r)"
    have "2 ^ ((?m - 2) div 2) \<le> (2::nat) ^ ((theight l - 1) div 2)"
      "2 ^ ((?m - 2) div 2) \<le> (2::nat) ^ ((theight r - 1) div 2)"
      using bal by (auto intro!: power_increasing div_le_mono)
    moreover have "2 ^ ((theight l - 1) div 2) \<le> tlen l" "2 ^ ((theight r - 1) div 2) \<le> tlen r"
      using less.hyps [of l] less.hyps [of r] bal Br by auto
    ultimately have sum: "2 * 2 ^ ((?m - 2) div 2) \<le> tlen l + tlen r"
      by linarith
    show ?thesis
    proof (cases "2 \<le> ?m")
      case True
      then have "?m div 2 = Suc ((?m - 2) div 2)"
        by (simp add: le_div_geq)
      with sum Br show ?thesis
        by simp
    next
      case False
      then have "?m div 2 = 0"
        by linarith
      then show ?thesis
        using Br tlen_pos [OF bal(1)] by simp
    qed
  qed
qed

lemma fits_height: "fits t \<Longrightarrow> theight t \<le> 128"
proof -
  assume f: "fits t"
  then have "2 ^ ((theight t - 1) div 2) < (2::nat) ^ 64"
    using avl_height_length [of t] by (simp add: fits_def tlen_def width64_def)
  then have "(theight t - 1) div 2 < 64"
    by (rule power_less_imp_less_exp [rotated]) simp
  then show ?thesis
    by linarith
qed

lemma fits_height_u16: "fits t \<Longrightarrow> theight t < width16"
  using fits_height [of t] by (simp add: width16_def)

section \<open>Balancing concatenation\<close>

definition tree_rebalance :: "vtree \<Rightarrow> vtree \<Rightarrow> vtree" where
  "tree_rebalance l r =
    (if abs_diff (theight l) (theight r) \<le> 1 then Br l r
     else if theight l > theight r then
       (case l of
          Br ll (Br ml mr) \<Rightarrow>
            if theight ll \<ge> theight (Br ml mr) then Br ll (Br (Br ml mr) r)
            else Br (Br ll ml) (Br mr r)
        | Br ll lr \<Rightarrow> Br ll (Br lr r)
        | Lf _ \<Rightarrow> Br l r)
     else
       (case r of
          Br (Br ml mr) rr \<Rightarrow>
            if theight rr \<ge> theight (Br ml mr) then Br (Br l (Br ml mr)) rr
            else Br (Br l ml) (Br mr rr)
        | Br rl rr \<Rightarrow> Br (Br l rl) rr
        | Lf _ \<Rightarrow> Br l r))"

function tree_concat :: "vtree \<Rightarrow> vtree \<Rightarrow> vtree" where
  "tree_concat l r =
    (if theight l > theight r + 1 then
       (case l of Br ll lr \<Rightarrow> tree_rebalance ll (tree_concat lr r) | Lf _ \<Rightarrow> Br l r)
     else if theight r > theight l + 1 then
       (case r of Br rl rr \<Rightarrow> tree_rebalance (tree_concat l rl) rr | Lf _ \<Rightarrow> Br l r)
     else Br l r)"
  by pat_completeness auto
termination
  by (relation "measure (\<lambda>(l, r). tnodes l + tnodes r)") auto

declare tree_concat.simps [simp del]

lemma content_rebalance [simp]: "content (tree_rebalance l r) = content l @ content r"
  by (simp add: tree_rebalance_def split: vtree.splits)

lemma content_concat [simp]: "content (tree_concat l r) = content l @ content r"
proof (induction l r rule: tree_concat.induct)
  case (1 l r)
  show ?case
    using 1 by (subst tree_concat.simps) (auto split: vtree.splits)
qed

lemma tlen_concat [simp]: "tlen (tree_concat l r) = tlen l + tlen r"
  by (simp add: tlen_def)

lemma rebalance_close:
  "theight l \<le> theight r + 1 \<Longrightarrow> theight r \<le> theight l + 1 \<Longrightarrow> tree_rebalance l r = Br l r"
  by (simp add: tree_rebalance_def abs_diff_le_1_iff)

lemma rebalance_left_heavy:
  assumes "bounded_avl l" and "bounded_avl r" and h: "theight l = theight r + 2"
  shows "bounded_avl (tree_rebalance l r) \<and>
    (theight (tree_rebalance l r) = theight l \<or> theight (tree_rebalance l r) = theight l + 1)"
proof -
  obtain ll lr where l: "l = Br ll lr"
    using h by (cases l) auto
  show ?thesis
  proof (cases "theight ll \<ge> theight lr")
    case True
    then have "tree_rebalance l r = Br ll (Br lr r)"
      using h by (cases lr) (auto simp: tree_rebalance_def abs_diff_def l)
    with True assms show ?thesis
      by (auto simp: l)
  next
    case False
    then obtain ml mr where lr: "lr = Br ml mr"
      by (cases lr) (auto simp: Suc_le_eq)
    have "tree_rebalance l r = Br (Br ll ml) (Br mr r)"
      using False h by (auto simp: tree_rebalance_def abs_diff_def l lr)
    with False assms show ?thesis
      by (auto simp: l lr)
  qed
qed

lemma rebalance_right_heavy:
  assumes "bounded_avl l" and "bounded_avl r" and h: "theight r = theight l + 2"
  shows "bounded_avl (tree_rebalance l r) \<and>
    (theight (tree_rebalance l r) = theight r \<or> theight (tree_rebalance l r) = theight r + 1)"
proof -
  obtain rl rr where r: "r = Br rl rr"
    using h by (cases r) auto
  show ?thesis
  proof (cases "theight rr \<ge> theight rl")
    case True
    then have "tree_rebalance l r = Br (Br l rl) rr"
      using h by (cases rl) (auto simp: tree_rebalance_def abs_diff_def r)
    with True assms show ?thesis
      by (auto simp: r)
  next
    case False
    then obtain ml mr where rl: "rl = Br ml mr"
      by (cases rl) (auto simp: Suc_le_eq)
    have "tree_rebalance l r = Br (Br l ml) (Br mr rr)"
      using False h by (auto simp: tree_rebalance_def abs_diff_def r rl)
    with False assms show ?thesis
      by (auto simp: r rl)
  qed
qed

lemma rebalance_avl:
  assumes "bounded_avl l" and "bounded_avl r"
    and "theight l \<le> theight r + 2" and "theight r \<le> theight l + 2"
  shows "bounded_avl (tree_rebalance l r)"
proof -
  consider "theight l = theight r + 2" | "theight r = theight l + 2"
    | "theight l \<le> theight r + 1" "theight r \<le> theight l + 1"
    using assms(3,4) by linarith
  then show ?thesis
    using assms(1,2)
    by cases (simp_all add: rebalance_close rebalance_left_heavy rebalance_right_heavy)
qed

lemma concat_avl:
  assumes "bounded_avl l" and "bounded_avl r"
  shows "bounded_avl (tree_concat l r) \<and>
    (theight (tree_concat l r) = max (theight l) (theight r) \<or>
     theight (tree_concat l r) = max (theight l) (theight r) + 1)"
  using assms
proof (induction l r rule: tree_concat.induct)
  case (1 l r)
  consider (L) "theight l > theight r + 1" | (R) "theight r > theight l + 1"
    | (B) "theight l \<le> theight r + 1" "theight r \<le> theight l + 1"
    by linarith
  then show ?case
  proof cases
    case L
    then obtain ll lr where l: "l = Br ll lr"
      by (cases l) auto
    let ?j = "tree_concat lr r"
    have IH: "bounded_avl ?j" "theight ?j = max (theight lr) (theight r) \<or>
        theight ?j = max (theight lr) (theight r) + 1"
      using 1 L l by auto
    then have j: "theight ?j = theight lr \<or> theight ?j = theight lr + 1"
      using L l "1.prems" by auto
    then have d: "theight ll \<le> theight ?j + 1" "theight ?j \<le> theight ll + 2"
      using l "1.prems" by auto
    have eq: "tree_concat l r = tree_rebalance ll ?j"
      using L l by (subst tree_concat.simps) simp
    show ?thesis
      unfolding eq using rebalance_close [of ll ?j] rebalance_right_heavy [of ll ?j] IH(1) d j "1.prems" L
      by (cases "theight ?j = theight ll + 2") (auto simp: l)
  next
    case R
    then obtain rl rr where r: "r = Br rl rr"
      by (cases r) auto
    let ?j = "tree_concat l rl"
    have IH: "bounded_avl ?j" "theight ?j = max (theight l) (theight rl) \<or>
        theight ?j = max (theight l) (theight rl) + 1"
      using 1 R r by auto
    then have j: "theight ?j = theight rl \<or> theight ?j = theight rl + 1"
      using R r "1.prems" by auto
    then have d: "theight rr \<le> theight ?j + 1" "theight ?j \<le> theight rr + 2"
      using r "1.prems" by auto
    have eq: "tree_concat l r = tree_rebalance ?j rr"
      using R r by (subst tree_concat.simps) simp
    show ?thesis
      unfolding eq using rebalance_close [of ?j rr] rebalance_left_heavy [of ?j rr] IH(1) d j "1.prems" R
      by (cases "theight ?j = theight rr + 2") (auto simp: r)
  next
    case B
    then have "tree_concat l r = Br l r"
      by (subst tree_concat.simps) simp
    with B "1.prems" show ?thesis
      by auto
  qed
qed

lemma fits_concat: "fits l \<Longrightarrow> fits r \<Longrightarrow> tlen l + tlen r < width64 \<Longrightarrow> fits (tree_concat l r)"
  using concat_avl [of l r] by (auto simp: fits_def tlen_def)


lemma concat_height_le: "bounded_avl l \<Longrightarrow> bounded_avl r \<Longrightarrow>
    theight (tree_concat l r) \<le> max (theight l) (theight r) + 1"
  using concat_avl [of l r] by auto

section \<open>Splitting\<close>

text \<open>A missing side is \<open>None\<close>; the content of an optional tree is the empty string there.\<close>

fun ocontent :: "vtree option \<Rightarrow> byte list" where
  "ocontent None = []"
| "ocontent (Some t) = content t"

fun ofits :: "vtree option \<Rightarrow> bool" where
  "ofits None \<longleftrightarrow> True"
| "ofits (Some t) \<longleftrightarrow> fits t"

fun tree_concat_opt :: "vtree option \<Rightarrow> vtree option \<Rightarrow> vtree option" where
  "tree_concat_opt None r = r"
| "tree_concat_opt (Some l) None = Some l"
| "tree_concat_opt (Some l) (Some r) = Some (tree_concat l r)"

fun tree_split :: "vtree \<Rightarrow> nat \<Rightarrow> vtree option \<times> vtree option" where
  "tree_split (Lf bs) k =
    (if k = 0 then (None, Some (Lf bs)) else if k = length bs then (Some (Lf bs), None)
     else (Some (Lf (take k bs)), Some (Lf (drop k bs))))"
| "tree_split (Br l r) k =
    (if k = 0 then (None, Some (Br l r)) else if k = tlen l + tlen r then (Some (Br l r), None)
     else if k < tlen l then
       (let (a, b) = tree_split l k in (a, tree_concat_opt b (Some r)))
     else if k = tlen l then (Some l, Some r)
     else (let (a, b) = tree_split r (k - tlen l) in (tree_concat_opt (Some l) a, b)))"

lemma content_concat_opt [simp]: "ocontent (tree_concat_opt l r) = ocontent l @ ocontent r"
  by (cases "(l, r)" rule: tree_concat_opt.cases) auto

lemma ofits_concat_opt:
  "ofits l \<Longrightarrow> ofits r \<Longrightarrow> length (ocontent l) + length (ocontent r) < width64 \<Longrightarrow>
   ofits (tree_concat_opt l r)"
  by (cases "(l, r)" rule: tree_concat_opt.cases) (auto simp: fits_concat tlen_def)

lemma tree_split_content:
  "k \<le> tlen t \<Longrightarrow> tree_split t k = (a, b) \<Longrightarrow>
   ocontent a = take k (content t) \<and> ocontent b = drop k (content t)"
proof (induction t arbitrary: k a b)
  case (Lf bs)
  then show ?case
    by (auto split: if_splits)
next
  case (Br l r)
  show ?case
    using Br.prems Br.IH(1) [of k] Br.IH(2) [of "k - tlen l"]
    by (auto split: if_splits prod.splits simp: tlen_def)
qed

lemma tree_split_fits:
  "k \<le> tlen t \<Longrightarrow> fits t \<Longrightarrow> tree_split t k = (a, b) \<Longrightarrow> ofits a \<and> ofits b"
proof (induction t arbitrary: k a b)
  case (Lf bs)
  then show ?case
    by (auto simp: fits_Lf split: if_splits)
next
  case (Br l r)
  consider (z) "k = 0" | (e) "k = tlen l + tlen r" | (m) "k = tlen l"
    | (L) "0 < k" "k < tlen l" | (R) "tlen l < k" "k < tlen l + tlen r"
    using Br.prems(1) by fastforce
  then show ?case
  proof cases
    case L
    then obtain c d where s: "tree_split l k = (c, d)"
      by (cases "tree_split l k") auto
    have "ofits c \<and> ofits d"
      using Br L s by (intro Br.IH(1) [of k]) (auto simp: fits_Br)
    moreover have "length (ocontent d) \<le> tlen l"
      using tree_split_content [OF _ s] L by (simp add: tlen_def)
    ultimately show ?thesis
      using Br.prems L s by (auto simp: fits_Br tlen_def intro!: ofits_concat_opt)
  next
    case R
    then obtain c d where s: "tree_split r (k - tlen l) = (c, d)"
      by (cases "tree_split r (k - tlen l)") auto
    have "ofits c \<and> ofits d"
      using Br R s by (intro Br.IH(2) [of "k - tlen l"]) (auto simp: fits_Br)
    moreover have "length (ocontent c) \<le> tlen r"
      using tree_split_content [OF _ s] R by (simp add: tlen_def)
    ultimately show ?thesis
      using Br.prems R s by (auto simp: fits_Br tlen_def intro!: ofits_concat_opt)
  qed (use Br.prems in \<open>auto simp: fits_Br split: if_splits\<close>)
qed

lemma tree_split_Some:
  assumes "k \<le> tlen t" and "fits t" and "tree_split t k = (a, b)"
  shows "a = None \<longleftrightarrow> k = 0" and "b = None \<longleftrightarrow> k = tlen t"
proof -
  have c: "ocontent a = take k (content t)" "ocontent b = drop k (content t)"
    using tree_split_content [OF assms(1,3)] by auto
  have f: "ofits a" "ofits b"
    using tree_split_fits [OF assms] by auto
  have ne: "ocontent x = [] \<longleftrightarrow> x = None" if "ofits x" for x
    using that by (cases x) (auto dest!: fits_avl content_nonempty)
  show "a = None \<longleftrightarrow> k = 0"
    using ne [OF f(1)] c(1) content_nonempty [OF fits_avl [OF assms(2)]] by simp
  show "b = None \<longleftrightarrow> k = tlen t"
    using ne [OF f(2)] c(2) assms(1) by (auto simp: tlen_def)
qed

section \<open>Bottom-up construction\<close>

fun tree_pairs :: "vtree list \<Rightarrow> vtree list" where
  "tree_pairs (a # b # ts) = tree_concat a b # tree_pairs ts"
| "tree_pairs ts = ts"

lemma length_tree_pairs: "length (tree_pairs ts) = (length ts + 1) div 2"
  by (induction ts rule: tree_pairs.induct) auto

function tree_rounds :: "vtree list \<Rightarrow> vtree list" where
  "tree_rounds ts = (if length ts > 1 then tree_rounds (tree_pairs ts) else ts)"
  by pat_completeness auto
termination
  by (relation "measure length") (auto simp: length_tree_pairs)

declare tree_rounds.simps [simp del]

definition tree_build :: "byte list \<Rightarrow> vtree" where
  "tree_build bs = last (tree_rounds (map Lf (chunks MAX_LEAF_PAYLOAD_BYTES bs)))"

definition level_content :: "vtree list \<Rightarrow> byte list" where
  "level_content ts = concat (map content ts)"

lemma level_content_pairs: "level_content (tree_pairs ts) = level_content ts"
  by (induction ts rule: tree_pairs.induct) (auto simp: level_content_def)

lemma level_content_simps [simp]:
  "level_content [] = []" "level_content (t # ts) = content t @ level_content ts"
  by (simp_all add: level_content_def)

lemma pairs_fits:
  "list_all fits ts \<Longrightarrow> length (level_content ts) < width64 \<Longrightarrow> list_all fits (tree_pairs ts)"
  by (induction ts rule: tree_pairs.induct) (auto intro!: fits_concat simp: tlen_def)

lemma rounds_correct:
  "list_all fits ts \<Longrightarrow> ts \<noteq> [] \<Longrightarrow> length (level_content ts) < width64 \<Longrightarrow>
   \<exists>t. tree_rounds ts = [t] \<and> fits t \<and> content t = level_content ts"
proof (induction ts rule: tree_rounds.induct)
  case (1 ts)
  show ?case
  proof (cases "length ts > 1")
    case True
    have "tree_pairs ts \<noteq> []"
      using True length_tree_pairs [of ts] by auto
    with 1 True show ?thesis
      by (simp add: tree_rounds.simps [of ts] pairs_fits level_content_pairs)
  next
    case False
    with 1 obtain t where "ts = [t]"
      by (cases ts) auto
    with 1 show ?thesis
      by (simp add: tree_rounds.simps)
  qed
qed

lemma chunks_Nil [simp]: "chunks n [] = []"
  by (simp add: chunks.simps)

lemma concat_chunks: "0 < n \<Longrightarrow> concat (chunks n xs) = xs"
proof (induction n xs rule: chunks.induct)
  case (1 n xs)
  then show ?case
    by (cases "xs = []") (simp_all add: chunks.simps [of n xs])
qed

lemma chunks_bounded: "c \<in> set (chunks n xs) \<Longrightarrow> c \<noteq> [] \<and> length c \<le> n"
proof (induction n xs rule: chunks.induct)
  case (1 n xs)
  then show ?case
    by (auto simp: chunks.simps [of n xs] split: if_splits)
qed

lemma chunks_Nil_iff: "0 < n \<Longrightarrow> chunks n xs = [] \<longleftrightarrow> xs = []"
  by (simp add: chunks.simps)

lemma max_leaf_pos: "0 < MAX_LEAF_PAYLOAD_BYTES"
  by (simp add: MAX_LEAF_PAYLOAD_BYTES_def)

lemma level_content_leaves: "level_content (map Lf cs) = concat cs"
  by (induction cs) auto

lemma leaf_level:
  assumes "bs \<noteq> []" and "length bs < width64"
  shows "list_all fits (map Lf (chunks MAX_LEAF_PAYLOAD_BYTES bs))"
    and "map Lf (chunks MAX_LEAF_PAYLOAD_BYTES bs) \<noteq> []"
    and "level_content (map Lf (chunks MAX_LEAF_PAYLOAD_BYTES bs)) = bs"
  using assms chunks_bounded
  by (auto simp: list_all_iff fits_Lf chunks_Nil_iff max_leaf_pos level_content_leaves concat_chunks)

lemma tree_build_correct:
  assumes "bs \<noteq> []" and "length bs < width64"
  shows "fits (tree_build bs) \<and> content (tree_build bs) = bs"
  using rounds_correct [OF leaf_level(1,2) [OF assms]] assms
  by (auto simp: tree_build_def leaf_level)

section \<open>Splice\<close>

definition tree_splice :: "vtree option \<Rightarrow> nat \<Rightarrow> nat \<Rightarrow> byte list \<Rightarrow> vtree option" where
  "tree_splice parent off del ins =
    (let middle = (if ins = [] then None else Some (tree_build ins))
     in (case parent of
           None \<Rightarrow> middle
         | Some t \<Rightarrow>
             (case tree_split t off of (left, mid_right) \<Rightarrow>
                let right = (case mid_right of
                               None \<Rightarrow> None
                             | Some mid \<Rightarrow> if del = 0 then Some mid else snd (tree_split mid del))
                in tree_concat_opt (tree_concat_opt left middle) right)))"

text \<open>The edit on plain byte strings that a splice must implement.\<close>

definition edit :: "byte list \<Rightarrow> nat \<Rightarrow> nat \<Rightarrow> byte list \<Rightarrow> byte list" where
  "edit src off del ins = take off src @ ins @ drop (off + del) src"

lemma length_edit: "off + del \<le> length src \<Longrightarrow>
    length (edit src off del ins) = length src - del + length ins"
  by (simp add: edit_def)


lemma split_mid:
  assumes f: "fits t" and le: "off + del \<le> tlen t" and s: "tree_split t off = (left, mid_right)"
  defines "right \<equiv> (case mid_right of None \<Rightarrow> None
      | Some mid \<Rightarrow> if del = 0 then Some mid else snd (tree_split mid del))"
  shows "ofits right \<and> ocontent right = drop (off + del) (content t)"
proof -
  have c: "ocontent mid_right = drop off (content t)" and fm: "ofits mid_right"
    using tree_split_content [OF _ s] tree_split_fits [OF _ f s] le by auto
  show ?thesis
  proof (cases mid_right)
    case None
    with c show ?thesis
      by (simp add: right_def)
  next
    case (Some mid)
    obtain x y where xy: "tree_split mid del = (x, y)"
      by (cases "tree_split mid del")
    have "tlen mid = tlen t - off"
      using c Some by (simp add: tlen_def)
    then have "del \<le> tlen mid"
      using le by simp
    then have "ofits y \<and> ocontent y = drop del (content mid)"
      using tree_split_content [OF _ xy] tree_split_fits [OF _ _ xy] fm Some by auto
    then show ?thesis
      using Some xy c fm by (simp add: right_def add.commute)
  qed
qed

lemma tree_splice_correct:
  assumes f: "ofits parent" and le: "off + del \<le> length (ocontent parent)"
    and len: "length (ocontent parent) - del + length ins < width64"
    and ne: "0 < length (ocontent parent) - del + length ins"
  shows "\<exists>t. tree_splice parent off del ins = Some t \<and> fits t \<and> content t = edit (ocontent parent) off del ins"
proof -
  have m: "ofits (if ins = [] then None else Some (tree_build ins))"
    "ocontent (if ins = [] then None else Some (tree_build ins)) = ins"
    using tree_build_correct [of ins] len by auto
  have "ofits (tree_splice parent off del ins) \<and>
    ocontent (tree_splice parent off del ins) = edit (ocontent parent) off del ins"
  proof (cases parent)
    case None
    with m le show ?thesis
      by (simp add: tree_splice_def edit_def)
  next
    case (Some t)
    obtain left mid where s: "tree_split t off = (left, mid)"
      by (cases "tree_split t off")
    have l: "ofits left" "ocontent left = take off (content t)"
      using tree_split_content [OF _ s] tree_split_fits [OF _ _ s] f le Some by (auto simp: tlen_def)
    note r = split_mid [OF _ _ s, of del]
    show ?thesis
      using m l r f le len Some unfolding tree_splice_def Let_def
      by (simp add: s edit_def tlen_def ofits_concat_opt)
  qed
  then show ?thesis
    using ne le by (cases "tree_splice parent off del ins") (auto simp: edit_def)
qed

end
