(* ===== verification/Avl_Correct.thy ===== *)
theory Avl_Correct
  imports Avl_Tree
begin

text \<open>
  Correctness of the arena algorithms of \<open>avl.rs\<close> against the tree model.

  \<open>rep E pl ns root t\<close> says that the root record denotes the tree \<open>t\<close> in the arena with payload
  \<open>pl\<close> and nodes \<open>ns\<close>, every record on the way being the one its constructor computes.  The
  locale \<open>arena_store\<close> is the contract of the trait \<open>ArenaStore\<close>; inside it, the generic functions
  are shown to compute the tree functions, to leave older roots alone, and to fail only for the
  reasons collected in \<open>stopped\<close>.
\<close>

section \<open>Representation\<close>

fun rep :: "env \<Rightarrow> byte list \<Rightarrow> ArenaNode list \<Rightarrow> V2RootRecord \<Rightarrow> vtree \<Rightarrow> bool" where
  "rep E pl ns root (Lf bs) \<longleftrightarrow>
     (\<exists>off rec. get_at ns (root_node_id root) = Some (ArenaNode.Leaf off (length bs) rec) \<and>
        slice_get pl off (off + length bs) = Some bs \<and>
        V2NodeRecord_leaf E off bs = Inr rec \<and>
        root_node_id root < V2_NONE_NODE \<and>
        V2RootRecord_from_node (root_node_id root) rec = Inr root)"
| "rep E pl ns root (Br lt rt) \<longleftrightarrow>
     (\<exists>l r rec. get_at ns (root_node_id root) = Some (ArenaNode.Branch l r rec) \<and>
        V2NodeRecord_branch E l r = Inr rec \<and>
        root_node_id root < V2_NONE_NODE \<and>
        V2RootRecord_from_node (root_node_id root) rec = Inr root \<and>
        rep E pl ns l lt \<and> rep E pl ns r rt)"

fun tree_commitment :: "env \<Rightarrow> vtree \<Rightarrow> V2Commitment" where
  "tree_commitment E (Lf bs) = leaf_commitment E (length bs) bs"
| "tree_commitment E (Br l r) = branch_commitment E (theight (Br l r)) (tlen l) (tree_commitment E l)
     (tlen r) (tree_commitment E r)"

lemma rep_metadata:
  assumes "rep E pl ns root t"
  shows "root_len root = tlen t \<and> root_height root = theight t \<and>
    root_commitment root = tree_commitment E t \<and> fits t \<and>
    root_node_id root < V2_NONE_NODE \<and> root_node_id root < length ns"
  using assms
proof (induction t arbitrary: root)
  case (Lf bs)
  then show ?case
    by (auto dest!: from_node_fields simp: leaf_ok_iff fits_Lf get_at_Some_iff)
next
  case (Br lt rt)
  then obtain l r rec where *: "get_at ns (root_node_id root) = Some (ArenaNode.Branch l r rec)"
    "V2NodeRecord_branch E l r = Inr rec" "root_node_id root < V2_NONE_NODE"
    "V2RootRecord_from_node (root_node_id root) rec = Inr root" "rep E pl ns l lt" "rep E pl ns r rt"
    by auto
  with Br.IH(1) [OF *(5)] Br.IH(2) [OF *(6)] show ?case
    by (auto dest!: from_node_fields simp: branch_ok_iff fits_Br get_at_Some_iff)
qed

lemma rep_unique: "rep E pl ns root t \<Longrightarrow> rep E pl ns root u \<Longrightarrow> t = u"
proof (induction t arbitrary: root u)
  case (Lf bs)
  then show ?case
    by (cases u) auto
next
  case (Br lt rt)
  then show ?case
    by (cases u) auto
qed

lemma rep_same_id:
  assumes "rep E pl ns root t" and "rep E pl ns root' u" and "root_node_id root = root_node_id root'"
  shows "root = root'"
  using assms by (cases t; cases u) (auto simp: from_node_ok_iff)

text \<open>Appending to the payload and to the node table leaves every root where it was.\<close>

definition extends :: "'b list \<Rightarrow> 'b list \<Rightarrow> bool" where
  "extends xs ys \<longleftrightarrow> (\<exists>zs. ys = xs @ zs)"

lemma extends_refl [simp]: "extends xs xs"
  by (simp add: extends_def)

lemma extends_append [simp]: "extends xs (xs @ ys)"
  by (simp add: extends_def)

lemma extends_trans: "extends xs ys \<Longrightarrow> extends ys zs \<Longrightarrow> extends xs zs"
  by (auto simp: extends_def)

lemma extends_length: "extends xs ys \<Longrightarrow> length xs \<le> length ys"
  by (auto simp: extends_def)

lemma extends_take: "extends xs ys \<Longrightarrow> take (length xs) ys = xs"
  by (auto simp: extends_def)

lemma get_at_extends: "extends xs ys \<Longrightarrow> get_at xs i = Some x \<Longrightarrow> get_at ys i = Some x"
  by (auto simp: extends_def get_at_Some_iff nth_append)

lemma slice_get_extends: "extends xs ys \<Longrightarrow> slice_get xs a b = Some bs \<Longrightarrow> slice_get ys a b = Some bs"
  by (auto simp: extends_def slice_get_Some_iff)

lemma rep_extends:
  "rep E pl ns root t \<Longrightarrow> extends pl pl' \<Longrightarrow> extends ns ns' \<Longrightarrow> rep E pl' ns' root t"
proof (induction t arbitrary: root)
  case (Lf bs)
  then show ?case
    by (auto dest: get_at_extends slice_get_extends)
next
  case (Br lt rt)
  then obtain l r rec where "get_at ns (root_node_id root) = Some (ArenaNode.Branch l r rec)"
    "V2NodeRecord_branch E l r = Inr rec" "root_node_id root < V2_NONE_NODE"
    "V2RootRecord_from_node (root_node_id root) rec = Inr root" "rep E pl' ns' l lt" "rep E pl' ns' r rt"
    by auto
  with Br.prems(3) show ?case
    by (auto dest: get_at_extends)
qed

text \<open>The fresh nodes an arena is asked to store.\<close>

fun storable :: "env \<Rightarrow> byte list \<Rightarrow> ArenaNode list \<Rightarrow> ArenaNode \<Rightarrow> bool" where
  "storable E pl ns (ArenaNode.Leaf off len rec) \<longleftrightarrow>
     (\<exists>bs. len = length bs \<and> slice_get pl off (off + len) = Some bs \<and> V2NodeRecord_leaf E off bs = Inr rec)"
| "storable E pl ns (ArenaNode.Branch l r rec) \<longleftrightarrow>
     (\<exists>lt rt. rep E pl ns l lt \<and> rep E pl ns r rt) \<and> V2NodeRecord_branch E l r = Inr rec"


section \<open>The contract of an arena\<close>

text \<open>
  \<open>payload_of\<close> and \<open>nodes_of\<close> read an arena as its two append-only tables, \<open>good\<close> is its
  invariant, \<open>ext a b\<close> says that \<open>b\<close> was reached from \<open>a\<close> by appending.  \<open>RF\<close> are the faults a read
  may report and \<open>WF\<close> those an append may report (an arena in memory has none of either).
\<close>

locale arena_store =
  fixes E :: env
    and A :: "'a ArenaStore"
    and payload_of :: "'a \<Rightarrow> byte list"
    and nodes_of :: "'a \<Rightarrow> ArenaNode list"
    and good :: "'a \<Rightarrow> bool"
    and ext :: "'a \<Rightarrow> 'a \<Rightarrow> bool"
    and RF WF :: "V2AvlError set"
  assumes payload_len: "good a \<Longrightarrow> arena_payload_len A a = length (payload_of a)"
    and node_count: "good a \<Longrightarrow> arena_node_count A a = length (nodes_of a)"
    and children_u64: "good a \<Longrightarrow> ArenaNode.Branch l r rec \<in> set (nodes_of a) \<Longrightarrow>
      root_node_id l < width64 \<and> root_node_id r < width64"
    and load_sound: "good a \<Longrightarrow> arena_load_node A a i = Inr n \<Longrightarrow> get_at (nodes_of a) i = Some n"
    and load_complete: "good a \<Longrightarrow> get_at (nodes_of a) i = Some n \<Longrightarrow> i < V2_NONE_NODE \<Longrightarrow>
      arena_load_node A a i = Inr n \<or> (\<exists>e\<in>RF. arena_load_node A a i = Inl e)"
    and read_sound: "good a \<Longrightarrow> arena_read_payload A a x y = Inr bs \<Longrightarrow>
      slice_get (payload_of a) x y = Some bs"
    and read_complete: "good a \<Longrightarrow> slice_get (payload_of a) x y = Some bs \<Longrightarrow> y < width64 \<Longrightarrow>
      arena_read_payload A a x y = Inr bs \<or> (\<exists>e\<in>RF. arena_read_payload A a x y = Inl e)"
    and append_ok: "good a \<Longrightarrow> length (payload_of a) < width64 \<Longrightarrow>
      arena_append_payload A a bs = (Inr off, a') \<Longrightarrow>
      good a' \<and> ext a a' \<and> off = length (payload_of a) \<and> payload_of a' = payload_of a @ bs \<and>
      nodes_of a' = nodes_of a"
    and append_err: "good a \<Longrightarrow> length (payload_of a) < width64 \<Longrightarrow>
      arena_append_payload A a bs = (Inl e, a') \<Longrightarrow> good a' \<and> ext a a' \<and> e \<in> WF"
    and push_ok: "good a \<Longrightarrow> storable E (payload_of a) (nodes_of a) n \<Longrightarrow>
      length (nodes_of a) < V2_NONE_NODE \<Longrightarrow> arena_push_node A a n = (Inr i, a') \<Longrightarrow>
      good a' \<and> ext a a' \<and> i = length (nodes_of a) \<and> nodes_of a' = nodes_of a @ [n] \<and>
      payload_of a' = payload_of a"
    and push_err: "good a \<Longrightarrow> storable E (payload_of a) (nodes_of a) n \<Longrightarrow>
      length (nodes_of a) < V2_NONE_NODE \<Longrightarrow> arena_push_node A a n = (Inl e, a') \<Longrightarrow>
      good a' \<and> ext a a' \<and> e \<in> WF"
    and ext_refl: "good a \<Longrightarrow> ext a a"
    and ext_trans: "ext a b \<Longrightarrow> ext b c \<Longrightarrow> ext a c"
    and ext_payload: "ext a b \<Longrightarrow> extends (payload_of a) (payload_of b)"
    and ext_nodes: "ext a b \<Longrightarrow> extends (nodes_of a) (nodes_of b)"
    and truncate_back: "good a \<Longrightarrow> good b \<Longrightarrow> ext a b \<Longrightarrow>
      good (arena_truncate A b (length (payload_of a)) (length (nodes_of a))) \<and>
      payload_of (arena_truncate A b (length (payload_of a)) (length (nodes_of a))) = payload_of a \<and>
      nodes_of (arena_truncate A b (length (payload_of a)) (length (nodes_of a))) = nodes_of a"

text \<open>The only reasons an edit on valid operands stops: an arena fault, a refused reservation, or
  one of the two 64-bit tables being full.\<close>

definition node_table_full :: "V2AvlError set" where
  "node_table_full = {V2AvlError.Overflow ''v2 node arena length exceeds u64'',
     V2AvlError.Format (V2FormatError.Invalid
       ''v2 sequence root uses the reserved none-node identifier'')}"

definition payload_table_full :: "V2AvlError set" where
  "payload_table_full = {V2AvlError.Overflow ''v2 payload arena length exceeds u64'',
     V2AvlError.Format (V2FormatError.Overflow ''v2 sequence leaf payload range exceeds u64'')}"

definition arena_full :: "byte list \<Rightarrow> ArenaNode list \<Rightarrow> V2AvlError set" where
  "arena_full pl ns =
    (if V2_NONE_NODE \<le> length ns then node_table_full else {}) \<union>
    (if width64 \<le> length pl + MAX_LEAF_PAYLOAD_BYTES then payload_table_full else {})"

definition refused :: "env \<Rightarrow> V2AvlError set" where
  "refused E = (if \<forall>n. try_reserve E ''v2 sequence insert level allocation failed'' n then {}
     else {V2AvlError.Invalid ''v2 sequence insert level allocation failed''})"

context arena_store
begin

definition stopped :: "V2AvlError \<Rightarrow> 'a arena_state \<Rightarrow> bool" where
  "stopped e s \<longleftrightarrow> e \<in> RF \<union> WF \<union> refused E \<union> arena_full (payload_of (fst s)) (nodes_of (fst s))"

definition grows :: "'a arena_state \<Rightarrow> 'a arena_state \<Rightarrow> bool" where
  "grows s s' \<longleftrightarrow> good (fst s) \<and> good (fst s') \<and> ext (fst s) (fst s')"

definition denotes :: "'a arena_state \<Rightarrow> V2RootRecord \<Rightarrow> vtree \<Rightarrow> bool" where
  "denotes s root t \<longleftrightarrow> rep E (payload_of (fst s)) (nodes_of (fst s)) root t"

lemma grows_refl: "good (fst s) \<Longrightarrow> grows s s"
  by (simp add: grows_def ext_refl)

lemma grows_trans: "grows a b \<Longrightarrow> grows b c \<Longrightarrow> grows a c"
  by (auto simp: grows_def intro: ext_trans)

lemma grows_denotes: "grows s s' \<Longrightarrow> denotes s root t \<Longrightarrow> denotes s' root t"
  by (auto simp: grows_def denotes_def intro: rep_extends ext_payload ext_nodes)

lemma denotes_fits: "denotes s root t \<Longrightarrow> fits t"
  by (auto simp: denotes_def dest: rep_metadata)

lemma denotes_meta: "denotes s root t \<Longrightarrow> root_len root = tlen t \<and> root_height root = theight t"
  by (auto simp: denotes_def dest: rep_metadata)

lemma bindS:
  assumes "spec m s grows stopped Q"
    and "\<And>x s'. grows s s' \<Longrightarrow> Q x s' \<Longrightarrow> spec (k x) s' grows stopped R"
  shows "spec (bindP m k) s grows stopped R"
  using assms grows_trans by (rule spec_bind)

lemma node_for_root_total:
  assumes "good a" and "rep E (payload_of a) (nodes_of a) root t"
  shows "(\<exists>e\<in>RF. node_for_root_on A a root = Inl e) \<or>
    (\<exists>n. node_for_root_on A a root = Inr n \<and> get_at (nodes_of a) (root_node_id root) = Some n)"
proof -
  obtain n where n: "get_at (nodes_of a) (root_node_id root) = Some n"
    "V2RootRecord_from_node (root_node_id root) (node_record n) = Inr root"
    "root_node_id root < V2_NONE_NODE"
    using assms(2) by (cases t) auto
  from load_complete [OF assms(1) n(1,3)] n show ?thesis
    by (auto simp: node_for_root_on_def)
qed


lemma spec_view:
  assumes "good (fst s)" and "\<And>e. f (fst s) = Inl e \<Longrightarrow> e \<in> RF" and "\<And>x. f (fst s) = Inr x \<Longrightarrow> Q x s"
  shows "spec (viewP f) s grows stopped Q"
  using assms by (cases "f (fst s)") (auto simp: spec_def viewP_def stopped_def grows_refl)

lemma spec_bump: "good (fst s) \<Longrightarrow> spec (bump k) s grows stopped (\<lambda>_ s'. fst s' = fst s)"
  by (auto simp: spec_def bump_def grows_def ext_refl)

lemma spec_resolve:
  assumes "good (fst s)" and "denotes s root t"
  shows "spec (viewP (\<lambda>a. node_for_root_on A a root)) s grows stopped
    (\<lambda>n s'. s' = s \<and> get_at (nodes_of (fst s)) (root_node_id root) = Some n)"
  using node_for_root_total [of "fst s" root t] assms
  by (intro spec_view) (auto simp: denotes_def)

lemma spec_children:
  assumes "good (fst s)" and "denotes s root (Br lt rt)"
  shows "spec (branch_children_on A root) s grows stopped
    (\<lambda>(l, r) s'. denotes s' l lt \<and> denotes s' r rt)"
  unfolding branch_children_on_def
proof (rule bindS [OF spec_bump [OF assms(1)]])
  fix x s1
  assume g: "grows s s1" and "fst s1 = fst s"
  then have d: "good (fst s1)" "denotes s1 root (Br lt rt)"
    using assms by (simp_all add: denotes_def)
  show "spec (bindP (viewP (\<lambda>arena. node_for_root_on A arena root)) (\<lambda>node. case node of
      ArenaNode.Branch left right _ \<Rightarrow> retP (left, right)
    | ArenaNode.Leaf _ _ _ \<Rightarrow> failP (V2AvlError.Invalid ''v2 AVL traversal expected a branch node'')))
    s1 grows stopped (\<lambda>(l, r) s'. denotes s' l lt \<and> denotes s' r rt)"
  proof (rule bindS [OF spec_resolve [OF d]], elim conjE)
    fix n s2
    assume s2: "s2 = s1" and n: "get_at (nodes_of (fst s1)) (root_node_id root) = Some n"
    from d(2) n obtain l r rec where "n = ArenaNode.Branch l r rec" "denotes s1 l lt" "denotes s1 r rt"
      unfolding denotes_def by auto
    then show "spec (case n of ArenaNode.Branch left right _ \<Rightarrow> retP (left, right)
      | ArenaNode.Leaf _ _ _ \<Rightarrow> failP (V2AvlError.Invalid ''v2 AVL traversal expected a branch node''))
      s2 grows stopped (\<lambda>(l, r) s'. denotes s' l lt \<and> denotes s' r rt)"
      using d(1) by (simp add: s2 spec_retP grows_refl)
  qed
qed

lemma spec_node:
  assumes good: "good (fst s)" and st: "storable E (payload_of (fst s)) (nodes_of (fst s)) n"
  shows "spec (allocate_node_on A n) s grows stopped
    (\<lambda>root s'. root_node_id root < V2_NONE_NODE \<and>
       V2RootRecord_from_node (root_node_id root) (node_record n) = Inr root \<and>
       get_at (nodes_of (fst s')) (root_node_id root) = Some n)"
proof (cases "length (nodes_of (fst s)) < V2_NONE_NODE")
  case False
  let ?e = "if length (nodes_of (fst s)) < width64
    then V2AvlError.Format (V2FormatError.Invalid
      ''v2 sequence root uses the reserved none-node identifier'')
    else V2AvlError.Overflow ''v2 node arena length exceeds u64''"
  have "length (nodes_of (fst s)) < width64 \<Longrightarrow> length (nodes_of (fst s)) = V2_NONE_NODE"
    using False by (simp add: V2_NONE_NODE_def)
  then have "allocate_node_on A n s = Some (Inl ?e, s)"
    using good by (simp add: allocate_node_on_def bindP_def viewP_def liftP_def node_count try_from_def
        V2RootRecord_from_node_def)
  then show ?thesis
    by (rule specI_Inl) (use False good in \<open>auto simp: stopped_def arena_full_def node_table_full_def payload_table_full_def grows_refl\<close>)
next
  case True
  let ?i = "length (nodes_of (fst s))"
  obtain r a' where push: "arena_push_node A (fst s) n = (r, a')"
    by (cases "arena_push_node A (fst s) n")
  obtain root where root: "V2RootRecord_from_node ?i (node_record n) = Inr root"
    using True by (auto simp: V2RootRecord_from_node_def)
  have run: "allocate_node_on A n s = Some (case r of Inl e \<Rightarrow> Inl e | Inr placed \<Rightarrow>
      if placed \<noteq> ?i then Inl (V2AvlError.Invalid ''v2 node placement disagrees with its record'')
      else Inr root, (a', snd s))"
    using none_node_width [OF True] good root push
    by (auto simp: allocate_node_on_def bindP_def viewP_def liftP_def mutP_def node_count
        try_from_def failP_def retP_def split: sum.splits)
  show ?thesis
  proof (cases r)
    case (Inl e)
    with push_err [OF good st True] push show ?thesis
      by (intro specI_Inl [of _ _ e "(a', snd s)"]) (auto simp: run stopped_def grows_def good)
  next
    case (Inr i)
    with push_ok [OF good st True] push have *: "good a'" "ext (fst s) a'" "i = ?i"
      "nodes_of a' = nodes_of (fst s) @ [n]"
      by auto
    have "root_node_id root = ?i"
      using from_node_fields [OF root] by simp
    with * root True show ?thesis
      by (intro specI_Inr [of _ _ root "(a', snd s)"])
        (auto simp: run Inr grows_def good get_at_Some_iff)
  qed
qed


lemma grows_good: "grows s s' \<Longrightarrow> good (fst s')"
  by (simp add: grows_def)

lemma spec_allocate_leaf:
  assumes good: "good (fst s)" and fits: "fits (Lf bs)"
  shows "spec (allocate_leaf_on E A bs) s grows stopped (\<lambda>root s'. denotes s' root (Lf bs))"
proof (cases "length (payload_of (fst s)) + length bs < width64")
  case False
  let ?p = "length (payload_of (fst s))"
  let ?e = "if ?p < width64
    then V2AvlError.Format (V2FormatError.Overflow ''v2 sequence leaf payload range exceeds u64'')
    else V2AvlError.Overflow ''v2 payload arena length exceeds u64''"
  have "length bs < width64" "bs \<noteq> []" "\<not> MAX_LEAF_PAYLOAD_BYTES < length bs"
    using fits by (auto simp: fits_def)
  then have "allocate_leaf_on E A bs s = Some (Inl ?e, s)"
    using good False
    by (simp add: allocate_leaf_on_def bindP_def viewP_def liftP_def payload_len try_from_def
        V2NodeRecord_leaf_def checked_add_def)
  then show ?thesis
    by (rule specI_Inl) (use False good fits in \<open>auto simp: stopped_def arena_full_def node_table_full_def payload_table_full_def grows_refl fits_Lf\<close>)
next
  case True
  let ?p = "length (payload_of (fst s))"
  have pw: "?p < width64"
    using True by simp
  obtain rec where rec: "V2NodeRecord_leaf E ?p bs = Inr rec"
    using True fits by (auto simp: leaf_ok_iff fits_Lf)
  then have len: "node_len rec = length bs"
    by (auto simp: leaf_ok_iff)
  obtain r a' where app: "arena_append_payload A (fst s) bs = (r, a')"
    by (cases "arena_append_payload A (fst s) bs")
  show ?thesis
  proof (cases r)
    case (Inl e)
    have "allocate_leaf_on E A bs s = Some (Inl e, (a', snd s))"
      using pw good rec app Inl
      by (simp add: allocate_leaf_on_def bindP_def viewP_def liftP_def mutP_def payload_len try_from_def)
    then show ?thesis
      by (rule specI_Inl)
        (use append_err [OF good pw app [unfolded Inl]] good in \<open>auto simp: stopped_def grows_def\<close>)
  next
    case (Inr off)
    let ?n = "ArenaNode.Leaf ?p (length bs) rec"
    let ?s1 = "(a', snd s)"
    note * = append_ok [OF good pw app [unfolded Inr]]
    have run: "allocate_leaf_on E A bs s = allocate_node_on A ?n ?s1"
      using pw good rec app Inr * len
      by (simp add: allocate_leaf_on_def bindP_def viewP_def liftP_def mutP_def payload_len try_from_def)
    have slice: "slice_get (payload_of a') ?p (?p + length bs) = Some bs"
      using * slice_get_suffix [of "payload_of (fst s)" bs] by simp
    have st: "storable E (payload_of a') (nodes_of a') ?n"
      using slice rec by auto
    have g: "grows s ?s1"
      using * good by (simp add: grows_def)
    have "spec (allocate_node_on A ?n) ?s1 grows stopped (\<lambda>root s'. denotes s' root (Lf bs))"
    proof (rule spec_weaken [OF spec_node])
      fix root s'
      assume "grows ?s1 s'" and "root_node_id root < V2_NONE_NODE \<and>
        V2RootRecord_from_node (root_node_id root) (node_record ?n) = Inr root \<and>
        get_at (nodes_of (fst s')) (root_node_id root) = Some ?n"
      with slice rec show "denotes s' root (Lf bs)"
        by (auto simp: denotes_def grows_def dest: slice_get_extends [OF ext_payload])
    qed (use * st in auto)
    then show ?thesis
      using run g by (auto simp: spec_def intro: grows_trans)
  qed
qed

lemma spec_allocate_branch:
  assumes good: "good (fst s)" and l: "denotes s l lt" and r: "denotes s r rt" and fits: "fits (Br lt rt)"
  shows "spec (allocate_branch_on E A l r) s grows stopped (\<lambda>root s'. denotes s' root (Br lt rt))"
proof -
  have meta: "root_len l = tlen lt" "root_height l = theight lt" "root_node_id l < V2_NONE_NODE"
    "root_len r = tlen rt" "root_height r = theight rt" "root_node_id r < V2_NONE_NODE"
    using rep_metadata l r by (auto simp: denotes_def)
  have "validate_child_root l = Inr () \<and> validate_child_root r = Inr ()"
    using meta fits tlen_pos [of lt] tlen_pos [of rt]
    by (auto simp: validate_child_root_ok_iff fits_Br fits_def theight_pos [THEN gr_implies_not0])
  then obtain rec where rec: "V2NodeRecord_branch E l r = Inr rec"
    using meta fits fits_height_u16 [OF fits] by (auto simp: branch_ok_iff fits_Br)
  have inner: "spec (allocate_node_on A (ArenaNode.Branch l r rec)) s' grows stopped
      (\<lambda>root s'. denotes s' root (Br lt rt))" if g: "grows s s'" for s'
  proof (rule spec_weaken [OF spec_node])
    have d: "denotes s' l lt" "denotes s' r rt"
      using g l r by (auto intro: grows_denotes)
    then show "storable E (payload_of (fst s')) (nodes_of (fst s')) (ArenaNode.Branch l r rec)"
      using rec by (auto simp: denotes_def)
    fix root s''
    assume "grows s' s''" and "root_node_id root < V2_NONE_NODE \<and>
      V2RootRecord_from_node (root_node_id root) (node_record (ArenaNode.Branch l r rec)) = Inr root \<and>
      get_at (nodes_of (fst s'')) (root_node_id root) = Some (ArenaNode.Branch l r rec)"
    with d [THEN grows_denotes [rotated]] rec show "denotes s'' root (Br lt rt)"
      by (auto simp: denotes_def)
  qed (use g in \<open>simp add: grows_good\<close>)
  show ?thesis
    unfolding allocate_branch_on_def
    apply (rule bindS [OF spec_bump [OF good]])
    apply (rule bindS [OF spec_resolve [where t = lt]])
      apply (erule grows_good)
     apply (erule grows_denotes [OF _ l])
    apply (elim conjE, hypsubst)
    apply (rule bindS [OF spec_resolve [where t = rt]])
      apply (erule grows_good)
     apply (erule grows_denotes [OF _ r])
    apply (elim conjE, hypsubst)
    apply (simp only: rec map_err_simps bindP_simps)
    apply (erule inner)
    done
qed


lemma spec_rotate_right:
  assumes "good (fst s)" "denotes s a ta" "denotes s b tb" "denotes s c tc" "fits (Br ta (Br tb tc))"
  shows "spec (bindP (allocate_branch_on E A b c) (allocate_branch_on E A a)) s grows stopped
    (\<lambda>root s'. denotes s' root (Br ta (Br tb tc)))"
proof (rule bindS [OF spec_allocate_branch [of s b tb c tc]])
  fix x s'
  assume g: "grows s s'" and "denotes s' x (Br tb tc)"
  then show "spec (allocate_branch_on E A a x) s' grows stopped
      (\<lambda>root s'. denotes s' root (Br ta (Br tb tc)))"
    using grows_good [OF g] grows_denotes [OF g assms(2)] assms(5) by (intro spec_allocate_branch)
qed (use assms in \<open>auto simp: fits_Br\<close>)

lemma spec_rotate_left:
  assumes "good (fst s)" "denotes s a ta" "denotes s b tb" "denotes s c tc" "fits (Br (Br ta tb) tc)"
  shows "spec (bindP (allocate_branch_on E A a b) (\<lambda>x. allocate_branch_on E A x c)) s grows stopped
    (\<lambda>root s'. denotes s' root (Br (Br ta tb) tc))"
proof (rule bindS [OF spec_allocate_branch [of s a ta b tb]])
  fix x s'
  assume g: "grows s s'" and "denotes s' x (Br ta tb)"
  then show "spec (allocate_branch_on E A x c) s' grows stopped
      (\<lambda>root s'. denotes s' root (Br (Br ta tb) tc))"
    using grows_good [OF g] grows_denotes [OF g assms(4)] assms(5) by (intro spec_allocate_branch)
qed (use assms in \<open>auto simp: fits_Br\<close>)

lemma spec_rotate_double:
  assumes "good (fst s)" "denotes s a ta" "denotes s b tb" "denotes s c tc" "denotes s d td"
    and f: "fits (Br (Br ta tb) (Br tc td))"
  shows "spec (bindP (allocate_branch_on E A a b) (\<lambda>x. bindP (allocate_branch_on E A c d)
      (allocate_branch_on E A x))) s grows stopped
    (\<lambda>root s'. denotes s' root (Br (Br ta tb) (Br tc td)))"
proof (rule bindS [OF spec_allocate_branch [of s a ta b tb]])
  fix x s'
  assume g: "grows s s'" and "denotes s' x (Br ta tb)"
  then show "spec (bindP (allocate_branch_on E A c d) (allocate_branch_on E A x)) s' grows stopped
      (\<lambda>root s'. denotes s' root (Br (Br ta tb) (Br tc td)))"
    using grows_good [OF g] grows_denotes [OF g assms(4)] grows_denotes [OF g assms(5)] f
    by (intro spec_rotate_right)
qed (use assms f in \<open>auto simp: fits_Br\<close>)

lemma spec_rebalance_left_heavy:
  assumes good: "good (fst s)" and l: "denotes s l lt" and r: "denotes s r rt"
    and fits: "fits (tree_rebalance lt rt)"
    and d: "\<not> abs_diff (theight lt) (theight rt) \<le> 1" "theight rt < theight lt"
  shows "spec (rebalance_on E A l r) s grows stopped (\<lambda>root s'. denotes s' root (tree_rebalance lt rt))"
proof -
  have h: "root_height l = theight lt" "root_height r = theight rt"
    using denotes_meta l r by auto
  obtain ll lr where lt: "lt = Br ll lr"
    using d theight_pos [of rt] by (cases lt) auto
  show ?thesis
    unfolding rebalance_on_def h if_not_P [OF d(1)] if_P [OF d(2)]
  proof (rule bindS [OF spec_children [OF good l [unfolded lt]]], clarify)
    fix a b s1
    assume g: "grows s s1" and ab: "denotes s1 a ll" "denotes s1 b lr"
    have rs: "denotes s1 r rt" and good1: "good (fst s1)"
      using g r by (auto intro: grows_denotes grows_good)
    have hab: "root_height a = theight ll" "root_height b = theight lr"
      using denotes_meta ab by auto
    show "spec (if root_height b \<le> root_height a
        then bindP (allocate_branch_on E A b r) (allocate_branch_on E A a)
        else bindP (branch_children_on A b) (\<lambda>(ml, mr). bindP (allocate_branch_on E A a ml)
          (\<lambda>nl. bindP (allocate_branch_on E A mr r) (allocate_branch_on E A nl)))) s1 grows stopped
      (\<lambda>root s'. denotes s' root (tree_rebalance lt rt))"
    proof (cases "theight lr \<le> theight ll")
      case True
      then have "tree_rebalance lt rt = Br ll (Br lr rt)"
        using d by (cases lr) (auto simp: tree_rebalance_def lt)
      with True fits show ?thesis
        by (simp add: hab spec_rotate_right [OF good1 ab rs])
    next
      case False
      then obtain ml mr where lr: "lr = Br ml mr"
        by (cases lr) (auto simp: Suc_le_eq)
      have eq: "tree_rebalance lt rt = Br (Br ll ml) (Br mr rt)"
        using False d by (simp add: tree_rebalance_def lt lr)
      show ?thesis
        unfolding hab if_not_P [OF False]
      proof (rule bindS [OF spec_children [OF good1 ab(2) [unfolded lr]]], clarify)
        fix m n s2
        assume g2: "grows s1 s2" and mn: "denotes s2 m ml" "denotes s2 n mr"
        show "spec (bindP (allocate_branch_on E A a m) (\<lambda>nl. bindP (allocate_branch_on E A n r)
            (allocate_branch_on E A nl))) s2 grows stopped
          (\<lambda>root s'. denotes s' root (tree_rebalance lt rt))"
          using fits unfolding eq
          by (rule spec_rotate_double [OF grows_good [OF g2] grows_denotes [OF g2 ab(1)] mn
                grows_denotes [OF g2 rs]])
      qed
    qed
  qed
qed

lemma spec_rebalance_right_heavy:
  assumes good: "good (fst s)" and l: "denotes s l lt" and r: "denotes s r rt"
    and fits: "fits (tree_rebalance lt rt)"
    and d: "\<not> abs_diff (theight lt) (theight rt) \<le> 1" "\<not> theight rt < theight lt"
  shows "spec (rebalance_on E A l r) s grows stopped (\<lambda>root s'. denotes s' root (tree_rebalance lt rt))"
proof -
  have h: "root_height l = theight lt" "root_height r = theight rt"
    using denotes_meta l r by auto
  obtain rl rr where rt: "rt = Br rl rr"
    using d theight_pos [of lt] by (cases rt) (auto simp: abs_diff_def split: if_splits)
  show ?thesis
    unfolding rebalance_on_def h if_not_P [OF d(1)] if_not_P [OF d(2)]
  proof (rule bindS [OF spec_children [OF good r [unfolded rt]]], clarify)
    fix a b s1
    assume g: "grows s s1" and ab: "denotes s1 a rl" "denotes s1 b rr"
    have ls: "denotes s1 l lt" and good1: "good (fst s1)"
      using g l by (auto intro: grows_denotes grows_good)
    have hab: "root_height a = theight rl" "root_height b = theight rr"
      using denotes_meta ab by auto
    show "spec (if root_height a \<le> root_height b
        then bindP (allocate_branch_on E A l a) (\<lambda>nl. allocate_branch_on E A nl b)
        else bindP (branch_children_on A a) (\<lambda>(ml, mr). bindP (allocate_branch_on E A l ml)
          (\<lambda>nl. bindP (allocate_branch_on E A mr b) (allocate_branch_on E A nl)))) s1 grows stopped
      (\<lambda>root s'. denotes s' root (tree_rebalance lt rt))"
    proof (cases "theight rl \<le> theight rr")
      case True
      then have "tree_rebalance lt rt = Br (Br lt rl) rr"
        using d by (cases rl) (auto simp: tree_rebalance_def rt)
      with True fits show ?thesis
        by (simp add: hab spec_rotate_left [OF good1 ls ab])
    next
      case False
      then obtain ml mr where rl: "rl = Br ml mr"
        by (cases rl) (auto simp: Suc_le_eq)
      have eq: "tree_rebalance lt rt = Br (Br lt ml) (Br mr rr)"
        using False d by (simp add: tree_rebalance_def rt rl)
      show ?thesis
        unfolding hab if_not_P [OF False]
      proof (rule bindS [OF spec_children [OF good1 ab(1) [unfolded rl]]], clarify)
        fix m n s2
        assume g2: "grows s1 s2" and mn: "denotes s2 m ml" "denotes s2 n mr"
        show "spec (bindP (allocate_branch_on E A l m) (\<lambda>nl. bindP (allocate_branch_on E A n b)
            (allocate_branch_on E A nl))) s2 grows stopped
          (\<lambda>root s'. denotes s' root (tree_rebalance lt rt))"
          using fits unfolding eq
          by (rule spec_rotate_double [OF grows_good [OF g2] grows_denotes [OF g2 ls] mn
                grows_denotes [OF g2 ab(2)]])
      qed
    qed
  qed
qed

lemma spec_rebalance:
  assumes "good (fst s)" and "denotes s l lt" and "denotes s r rt" and "fits (tree_rebalance lt rt)"
  shows "spec (rebalance_on E A l r) s grows stopped (\<lambda>root s'. denotes s' root (tree_rebalance lt rt))"
proof (cases "abs_diff (theight lt) (theight rt) \<le> 1")
  case True
  then show ?thesis
    using spec_allocate_branch [OF assms(1-3)] assms(4) denotes_meta [OF assms(2)]
      denotes_meta [OF assms(3)]
    by (simp add: rebalance_on_def tree_rebalance_def)
next
  case False
  then show ?thesis
    using assms spec_rebalance_left_heavy spec_rebalance_right_heavy by blast
qed


lemma sat_height: "fits t \<Longrightarrow> saturating_add width16 (theight t) (Suc 0) = theight t + 1"
  using fits_height [of t] by (simp add: saturating_add_def width16_def)

lemma spec_concat:
  assumes "good (fst s)" "denotes s l lt" "denotes s r rt" "tlen lt + tlen rt < width64"
  shows "spec (concat_on E A l r) s grows stopped (\<lambda>root s'. denotes s' root (tree_concat lt rt))"
  using assms
proof (induction lt rt arbitrary: s l r rule: tree_concat.induct)
  case (1 lt rt)
  note good = "1.prems"(1) and l = "1.prems"(2) and r = "1.prems"(3)
  have fits: "fits (tree_concat lt rt)"
    using fits_concat denotes_fits l r "1.prems"(4) by blast
  have h: "root_height l = theight lt" "root_height r = theight rt"
    "saturating_add width16 (theight lt) (Suc 0) = theight lt + 1"
    "saturating_add width16 (theight rt) (Suc 0) = theight rt + 1"
    using denotes_meta l r sat_height denotes_fits by auto
  consider (L) "theight rt + 1 < theight lt" | (R) "theight lt + 1 < theight rt"
    | (B) "theight lt \<le> theight rt + 1" "theight rt \<le> theight lt + 1"
    by linarith
  then show ?case
  proof cases
    case L
    then obtain ll lr where lt: "lt = Br ll lr"
      by (cases lt) auto
    have eq: "tree_concat lt rt = tree_rebalance ll (tree_concat lr rt)"
      using L lt by (subst tree_concat.simps) simp
    have "spec (bindP (branch_children_on A l) (\<lambda>(left_left, left_right).
       bindP (concat_on E A left_right r) (rebalance_on E A left_left))) s grows stopped
       (\<lambda>root s'. denotes s' root (tree_concat lt rt))"
    proof (rule bindS [OF spec_children [OF good l [unfolded lt]]], clarify)
      fix a b s1
      assume g: "grows s s1" and ab: "denotes s1 a ll" "denotes s1 b lr"
      have "spec (concat_on E A b r) s1 grows stopped (\<lambda>root s'. denotes s' root (tree_concat lr rt))"
        using L "1.prems"(4) lt
        by (intro "1.IH"(1) [OF _ lt grows_good [OF g] ab(2) grows_denotes [OF g r]]) auto
      then show "spec (bindP (concat_on E A b r) (rebalance_on E A a)) s1 grows stopped
          (\<lambda>root s'. denotes s' root (tree_concat lt rt))"
        by (rule bindS) (use fits in \<open>auto simp: eq intro!: spec_rebalance grows_good grows_denotes [OF _ ab(1)]\<close>)
    qed
    then show ?thesis
      by (rule spec_cong [rotated]) (use L in \<open>simp add: concat_on.simps [of E A l r] h\<close>)
  next
    case R
    then obtain rl rr where rt: "rt = Br rl rr"
      by (cases rt) auto
    have eq: "tree_concat lt rt = tree_rebalance (tree_concat lt rl) rr"
      using R rt by (subst tree_concat.simps) simp
    have "spec (bindP (branch_children_on A r) (\<lambda>(right_left, right_right).
       bindP (concat_on E A l right_left) (\<lambda>j. rebalance_on E A j right_right))) s grows stopped
       (\<lambda>root s'. denotes s' root (tree_concat lt rt))"
    proof (rule bindS [OF spec_children [OF good r [unfolded rt]]], clarify)
      fix a b s1
      assume g: "grows s s1" and ab: "denotes s1 a rl" "denotes s1 b rr"
      have "spec (concat_on E A l a) s1 grows stopped (\<lambda>root s'. denotes s' root (tree_concat lt rl))"
        using R "1.prems"(4) rt
        by (intro "1.IH"(2) [OF _ _ rt grows_good [OF g] grows_denotes [OF g l] ab(1)]) auto
      then show "spec (bindP (concat_on E A l a) (\<lambda>j. rebalance_on E A j b)) s1 grows stopped
          (\<lambda>root s'. denotes s' root (tree_concat lt rt))"
        by (rule bindS) (use fits in \<open>auto simp: eq intro!: spec_rebalance grows_good grows_denotes [OF _ ab(2)]\<close>)
    qed
    then show ?thesis
      by (rule spec_cong [rotated]) (use R in \<open>simp add: concat_on.simps [of E A l r] h\<close>)
  next
    case B
    then have eq: "tree_concat lt rt = Br lt rt"
      by (subst tree_concat.simps) simp
    have "spec (allocate_branch_on E A l r) s grows stopped (\<lambda>root s'. denotes s' root (tree_concat lt rt))"
      using spec_allocate_branch [OF good l r] fits unfolding eq by simp
    then show ?thesis
      by (rule spec_cong [rotated]) (use B in \<open>simp add: concat_on.simps [of E A l r] h\<close>)
  qed
qed

definition odenotes :: "'a arena_state \<Rightarrow> V2RootRecord option \<Rightarrow> vtree option \<Rightarrow> bool" where
  "odenotes s = rel_option (denotes s)"

lemma odenotes_simps [simp]:
  "odenotes s None t \<longleftrightarrow> t = None"
  "odenotes s (Some r) t \<longleftrightarrow> (\<exists>t'. t = Some t' \<and> denotes s r t')"
  "odenotes s x None \<longleftrightarrow> x = None"
  "odenotes s x (Some t') \<longleftrightarrow> (\<exists>r. x = Some r \<and> denotes s r t')"
  by (auto simp: odenotes_def rel_option_iff split: option.splits)

lemma grows_odenotes: "grows s s' \<Longrightarrow> odenotes s x t \<Longrightarrow> odenotes s' x t"
  by (cases t) (auto intro: grows_denotes)

lemma spec_concat_optional:
  assumes "good (fst s)" "odenotes s x xt" "odenotes s y yt"
    "length (ocontent xt) + length (ocontent yt) < width64"
  shows "spec (concat_optional_on E A x y) s grows stopped
    (\<lambda>z s'. odenotes s' z (tree_concat_opt xt yt))"
proof (cases "(xt, yt)" rule: tree_concat_opt.cases)
  case (3 lt rt)
  with assms obtain l r where lr: "x = Some l" "y = Some r" "denotes s l lt" "denotes s r rt"
    by auto
  show ?thesis
    using 3 assms lr unfolding concat_optional_on_def
    by (auto intro!: bindS [OF spec_concat [OF assms(1) lr(3,4)]] spec_retP grows_refl grows_good
        simp: tlen_def)
qed (use assms in \<open>auto simp: concat_optional_on_def intro!: spec_retP grows_refl split: option.splits\<close>)


lemma validate_total:
  assumes "good a" and "rep E (payload_of a) (nodes_of a) root t"
    and "get_at (nodes_of a) (root_node_id root) = Some n"
  shows "validate_node_on E A a n = Inr () \<or> (\<exists>e\<in>RF. validate_node_on E A a n = Inl e)"
proof (cases t)
  case (Lf bs)
  with assms obtain off rec where n: "n = ArenaNode.Leaf off (length bs) rec"
    and sl: "slice_get (payload_of a) off (off + length bs) = Some bs"
    and rec: "V2NodeRecord_leaf E off bs = Inr rec"
    by auto
  have "off + length bs < width64"
    using rec by (simp add: leaf_ok_iff)
  with read_complete [OF assms(1) sl this] rec show ?thesis
    by (auto simp: n checked_add_def)
next
  case (Br lt rt)
  with assms show ?thesis
    by auto
qed

lemma spec_validate:
  assumes "good (fst s)" and "denotes s root t"
    and "get_at (nodes_of (fst s)) (root_node_id root) = Some n"
  shows "spec (viewP (\<lambda>a. validate_node_on E A a n)) s grows stopped (\<lambda>_ s'. s' = s)"
  using validate_total [of "fst s" root t n] assms by (intro spec_view) (auto simp: denotes_def)

lemma spec_read:
  assumes "good (fst s)" and "slice_get (payload_of (fst s)) x y = Some bs" and "y < width64"
  shows "spec (viewP (\<lambda>a. arena_read_payload A a x y)) s grows stopped (\<lambda>r s'. r = bs \<and> s' = s)"
  using read_complete [OF assms] assms(1) by (intro spec_view) auto

lemma spec_split_leaf:
  assumes good: "good (fst s)" and sl: "slice_get (payload_of (fst s)) off (off + length bs) = Some bs"
    and w: "off + length bs < width64" and bs: "length bs \<le> MAX_LEAF_PAYLOAD_BYTES"
    and k: "0 < k" "k < length bs"
  shows "spec (split_leaf E A off (length bs) k) s grows stopped
    (\<lambda>(x, y) s'. odenotes s' x (Some (Lf (take k bs))) \<and> odenotes s' y (Some (Lf (drop k bs))))"
proof -
  have kw: "off + k < width64"
    using k w by simp
  have s1: "slice_get (payload_of (fst s)) off (off + k) = Some (take k bs)"
    using slice_get_slice [OF sl, of 0 k] k by simp
  have s2: "slice_get (payload_of (fst s)) (off + k) (off + length bs) = Some (drop k bs)"
    using slice_get_slice [OF sl, of k "length bs"] k by simp
  have f1: "fits (Lf (take k bs))" and f2: "fits (Lf (drop k bs))"
    using k bs by (auto simp: fits_Lf)
  show ?thesis
    unfolding split_leaf_def
    apply (simp only: checked_add_def kw w if_True ok_or_simps bindP_simps)
    apply (rule bindS [OF spec_read [OF good s1 kw]], elim conjE, hypsubst)
    apply (rule bindS [OF spec_read [OF good s2 w]], elim conjE, hypsubst)
    apply (rule bindS [OF spec_allocate_leaf [OF good f1]])
    apply (rule bindS [OF spec_allocate_leaf [OF _ f2]])
     apply (erule grows_good)
    apply (rule spec_retP)
     apply (blast intro: grows_good grows_refl)
    apply (auto intro: grows_denotes)
    done
qed


definition denotes_pair ::
  "vtree option \<times> vtree option \<Rightarrow> V2RootRecord option \<times> V2RootRecord option \<Rightarrow> 'a arena_state \<Rightarrow> bool"
where
  "denotes_pair tt p s \<longleftrightarrow> odenotes s (fst p) (fst tt) \<and> odenotes s (snd p) (snd tt)"

lemma spec_join_right:
  assumes "good (fst s)" "odenotes s x xt" "denotes s r rt" "length (ocontent xt) + tlen rt < width64"
  shows "spec (case x of None \<Rightarrow> retP r | Some n \<Rightarrow> concat_on E A n r) s grows stopped
    (\<lambda>z s'. odenotes s' (Some z) (tree_concat_opt xt (Some rt)))"
  using assms by (cases x) (auto simp: tlen_def intro!: spec_retP spec_concat grows_refl)

lemma spec_join_left:
  assumes "good (fst s)" "denotes s l lt" "odenotes s x xt" "tlen lt + length (ocontent xt) < width64"
  shows "spec (case x of None \<Rightarrow> retP l | Some n \<Rightarrow> concat_on E A l n) s grows stopped
    (\<lambda>z s'. odenotes s' (Some z) (tree_concat_opt (Some lt) xt))"
  using assms by (cases x) (auto simp: tlen_def intro!: spec_retP spec_concat grows_refl)

text \<open>The part of a split after the node has been resolved and validated.\<close>

definition split_node :: "u64 \<Rightarrow> ArenaNode \<Rightarrow>
  ('a, V2RootRecord option \<times> V2RootRecord option) avl_prog" where
  "split_node off node s = (case node of
         ArenaNode.Leaf payload_offset payload_len _ \<Rightarrow> split_leaf E A payload_offset payload_len off s
       | ArenaNode.Branch left right _ \<Rightarrow>
           (if off < root_len left then
             bindP (split_on E A left off) (\<lambda>p.
             bindP (case snd p of None \<Rightarrow> retP right | Some near \<Rightarrow> concat_on E A near right) (\<lambda>joined_right.
             retP (fst p, Some joined_right))) s
           else if off = root_len left then retP (Some left, Some right) s
           else
             bindP (split_on E A right (off - root_len left)) (\<lambda>p.
             bindP (case fst p of None \<Rightarrow> retP left | Some near \<Rightarrow> concat_on E A left near) (\<lambda>joined_left.
             retP (Some joined_left, snd p))) s))"

lemma split_on_inner:
  assumes "off \<noteq> 0" and "off < root_len root"
  shows "split_on E A root off s =
     bindP (bump 1) (\<lambda>_. bindP (viewP (\<lambda>a. node_for_root_on A a root)) (\<lambda>node.
     bindP (viewP (\<lambda>a. validate_node_on E A a node)) (\<lambda>_. split_node off node))) s"
  using assms by (subst split_on.simps) (simp add: split_node_def [abs_def])

lemma spec_split_descend:
  assumes good: "good (fst s)" and d: "denotes s root t" and k: "k \<noteq> 0" "k < tlen t"
    and step: "\<And>n s'. grows s s' \<Longrightarrow> denotes s' root t \<Longrightarrow>
      get_at (nodes_of (fst s')) (root_node_id root) = Some n \<Longrightarrow> spec (split_node k n) s' grows stopped Q"
  shows "spec (split_on E A root k) s grows stopped Q"
proof (rule spec_cong [OF split_on_inner])
  show "spec (bindP (bump 1) (\<lambda>_. bindP (viewP (\<lambda>a. node_for_root_on A a root)) (\<lambda>node.
     bindP (viewP (\<lambda>a. validate_node_on E A a node)) (\<lambda>_. split_node k node)))) s grows stopped Q"
    apply (rule bindS [OF spec_bump [OF good]])
    apply (rule bindS [OF spec_resolve [where t = t]])
      apply (erule grows_good)
     apply (erule grows_denotes [OF _ d])
    apply (elim conjE, hypsubst)
    apply (rule bindS [OF spec_validate [where t = t]])
       apply (erule grows_good)
      apply (erule (1) grows_denotes [OF _ d])
     apply (simp add: denotes_def)
    apply (hypsubst)
    apply (rule step; (assumption | erule grows_denotes [OF _ d])?)
    apply simp
    done
qed (use k denotes_meta [OF d] in auto)


lemma spec_split_boundary:
  assumes "good (fst s)" "denotes s root t" "k = 0 \<or> k = tlen t"
  shows "spec (split_on E A root k) s grows stopped (denotes_pair (tree_split t k))"
proof -
  have "root_len root = tlen t" "0 < tlen t"
    using denotes_meta [OF assms(2)] tlen_pos [OF fits_avl [OF denotes_fits [OF assms(2)]]] by auto
  moreover have "tree_split t k = (if k = 0 then (None, Some t) else (Some t, None))"
    using assms(3) by (cases t) auto
  ultimately show ?thesis
    using assms by (cases s) (auto simp: spec_def split_on.simps denotes_pair_def grows_refl)
qed

lemma spec_split_left:
  assumes IH: "spec (split_on E A l k) s grows stopped (denotes_pair (tree_split lt k))"
    and r: "denotes s r rt" and k: "0 < k" "k < tlen lt" and w: "tlen lt + tlen rt < width64"
  shows "spec (bindP (split_on E A l k) (\<lambda>p. bindP (case snd p of None \<Rightarrow> retP r
    | Some near \<Rightarrow> concat_on E A near r) (\<lambda>j. retP (fst p, Some j)))) s grows stopped
    (denotes_pair (tree_split (Br lt rt) k))"
proof -
  obtain a b where ab: "tree_split lt k = (a, b)"
    by (cases "tree_split lt k")
  have len: "length (ocontent b) + tlen rt < width64"
    using tree_split_content [OF _ ab] k w by (simp add: tlen_def)
  show ?thesis
    apply (rule bindS [OF IH])
    apply (rule bindS [OF spec_join_right [OF grows_good _ grows_denotes [OF _ r] len]])
    using k ab
       apply (auto simp: denotes_pair_def intro!: spec_retP grows_refl grows_good dest: grows_odenotes)
    done
qed

lemma spec_split_right:
  assumes IH: "spec (split_on E A r (k - tlen lt)) s grows stopped (denotes_pair (tree_split rt (k - tlen lt)))"
    and l: "denotes s l lt" and k: "tlen lt < k" "k < tlen lt + tlen rt" and w: "tlen lt + tlen rt < width64"
  shows "spec (bindP (split_on E A r (k - tlen lt)) (\<lambda>p. bindP (case fst p of None \<Rightarrow> retP l
    | Some near \<Rightarrow> concat_on E A l near) (\<lambda>j. retP (Some j, snd p)))) s grows stopped
    (denotes_pair (tree_split (Br lt rt) k))"
proof -
  obtain a b where ab: "tree_split rt (k - tlen lt) = (a, b)"
    by (cases "tree_split rt (k - tlen lt)")
  have len: "tlen lt + length (ocontent a) < width64"
    using tree_split_content [OF _ ab] k w by (simp add: tlen_def)
  show ?thesis
    apply (rule bindS [OF IH])
    apply (rule bindS [OF spec_join_left [OF grows_good grows_denotes [OF _ l] _ len]])
    using k ab
       apply (auto simp: denotes_pair_def intro!: spec_retP grows_refl grows_good dest: grows_odenotes)
    done
qed

lemma spec_split_branch:
  assumes IH1: "\<And>s root k. good (fst s) \<Longrightarrow> denotes s root lt \<Longrightarrow> k \<le> tlen lt \<Longrightarrow>
      spec (split_on E A root k) s grows stopped (denotes_pair (tree_split lt k))"
    and IH2: "\<And>s root k. good (fst s) \<Longrightarrow> denotes s root rt \<Longrightarrow> k \<le> tlen rt \<Longrightarrow>
      spec (split_on E A root k) s grows stopped (denotes_pair (tree_split rt k))"
    and good: "good (fst s)" and d: "denotes s root (Br lt rt)"
    and n: "get_at (nodes_of (fst s)) (root_node_id root) = Some n"
    and k: "0 < k" "k < tlen lt + tlen rt"
  shows "spec (split_node k n) s grows stopped (denotes_pair (tree_split (Br lt rt) k))"
proof -
  obtain l r rec where nd: "n = ArenaNode.Branch l r rec" "denotes s l lt" "denotes s r rt"
    using d n by (auto simp: denotes_def)
  have m: "root_len l = tlen lt" and w: "tlen lt + tlen rt < width64"
    using denotes_meta [OF nd(2)] denotes_fits [OF d] by (auto simp: fits_Br)
  consider (L) "k < tlen lt" | (M) "k = tlen lt" | (R) "tlen lt < k"
    by linarith
  then show ?thesis
  proof cases
    case L
    show ?thesis
      by (rule spec_cong [OF _ spec_split_left [OF IH1 [OF good nd(2)] nd(3) k(1) L w]])
        (use L in \<open>simp_all add: split_node_def nd m\<close>)
  next
    case M
    then show ?thesis
      using k good nd by (auto simp: spec_def split_node_def m denotes_pair_def grows_refl)
  next
    case R
    show ?thesis
      by (rule spec_cong [OF _ spec_split_right [OF IH2 [OF good nd(3)] nd(2) R k(2) w]])
        (use R k in \<open>simp_all add: split_node_def nd m\<close>)
  qed
qed

lemma spec_split_leaf_node:
  assumes good: "good (fst s)" and d: "denotes s root (Lf bs)"
    and n: "get_at (nodes_of (fst s)) (root_node_id root) = Some n" and k: "0 < k" "k < length bs"
  shows "spec (split_node k n) s grows stopped (denotes_pair (tree_split (Lf bs) k))"
proof -
  obtain off rec where "n = ArenaNode.Leaf off (length bs) rec"
    "slice_get (payload_of (fst s)) off (off + length bs) = Some bs" "off + length bs < width64"
    using d n by (auto simp: denotes_def leaf_ok_iff)
  then show ?thesis
    using k denotes_fits [OF d] spec_split_leaf [OF good, of off bs k]
    by (auto simp: split_node_def [abs_def] denotes_pair_def fits_Lf elim!: spec_weaken)
qed

lemma spec_split:
  assumes "good (fst s)" "denotes s root t" "k \<le> tlen t"
  shows "spec (split_on E A root k) s grows stopped (denotes_pair (tree_split t k))"
  using assms
proof (induction t arbitrary: s root k)
  case (Lf bs)
  show ?case
  proof (cases "k = 0 \<or> k = length bs")
    case False
    then show ?thesis
      using Lf.prems(3)
      by (intro spec_split_descend [OF Lf.prems(1,2)])
        (auto intro!: spec_split_leaf_node grows_good simp del: tree_split.simps)
  qed (use Lf.prems in \<open>simp add: spec_split_boundary del: tree_split.simps\<close>)
next
  case (Br lt rt)
  show ?case
  proof (cases "k = 0 \<or> k = tlen lt + tlen rt")
    case False
    then show ?thesis
      using Br.prems(3)
      by (intro spec_split_descend [OF Br.prems(1,2)])
        (auto intro!: spec_split_branch [OF Br.IH] grows_good simp del: tree_split.simps)
  qed (use Br.prems in \<open>simp add: spec_split_boundary del: tree_split.simps\<close>)
qed


subsection \<open>Building, splicing\<close>

definition ldenotes :: "'a arena_state \<Rightarrow> V2RootRecord list \<Rightarrow> vtree list \<Rightarrow> bool" where
  "ldenotes s = list_all2 (denotes s)"

lemma ldenotes_simps [simp]:
  "ldenotes s [] ts \<longleftrightarrow> ts = []"
  "ldenotes s (r # rs) ts \<longleftrightarrow> (\<exists>t ts'. ts = t # ts' \<and> denotes s r t \<and> ldenotes s rs ts')"
  "ldenotes s rs [] \<longleftrightarrow> rs = []"
  "ldenotes s rs (t # ts) \<longleftrightarrow> (\<exists>r rs'. rs = r # rs' \<and> denotes s r t \<and> ldenotes s rs' ts)"
  by (auto simp: ldenotes_def list_all2_Cons1 list_all2_Cons2)

lemma grows_ldenotes: "grows s s' \<Longrightarrow> ldenotes s rs ts \<Longrightarrow> ldenotes s' rs ts"
  unfolding ldenotes_def by (erule list_all2_mono) (rule grows_denotes)

lemma ldenotes_length: "ldenotes s rs ts \<Longrightarrow> length rs = length ts"
  by (simp add: ldenotes_def list_all2_lengthD)

lemma spec_leaves:
  assumes "good (fst s)" "list_all (\<lambda>c. fits (Lf c)) cs"
  shows "spec (allocate_leaves E A cs) s grows stopped (\<lambda>rs s'. ldenotes s' rs (map Lf cs))"
  using assms
proof (induction cs arbitrary: s)
  case (Cons c cs)
  then have c: "fits (Lf c)" and cs: "list_all (\<lambda>c. fits (Lf c)) cs"
    by auto
  show ?case
    unfolding allocate_leaves.simps
    apply (rule bindS [OF spec_allocate_leaf [OF Cons.prems(1) c]])
    apply (rule bindS [OF Cons.IH [OF grows_good cs]])
     apply assumption
    apply (auto intro!: spec_retP grows_refl grows_good dest: grows_denotes)
    done
qed (auto intro!: spec_retP grows_refl)

lemma spec_pair_level:
  assumes "good (fst s)" "ldenotes s rs ts" "length (level_content ts) < width64"
  shows "spec (pair_level E A rs) s grows stopped (\<lambda>rs' s'. ldenotes s' rs' (tree_pairs ts))"
  using assms
proof (induction ts arbitrary: s rs rule: tree_pairs.induct)
  case (1 ta tb ts)
  from "1.prems"(2) obtain a b rs' where rs: "rs = a # b # rs'" and d: "denotes s a ta"
    "denotes s b tb" "ldenotes s rs' ts"
    by auto
  have w: "tlen ta + tlen tb < width64" "length (level_content ts) < width64"
    using "1.prems"(3) by (auto simp: tlen_def)
  show ?case
    unfolding rs pair_level.simps
    apply (rule bindS [OF spec_concat [OF "1.prems"(1) d(1,2) w(1)]])
    apply (rule bindS [OF "1.IH" [OF grows_good grows_ldenotes [OF _ d(3)] w(2)]])
      apply assumption
     apply assumption
    apply (auto intro!: spec_retP grows_refl grows_good dest: grows_denotes)
    done
qed (auto intro!: spec_retP grows_refl)

lemma spec_rounds:
  assumes "good (fst s)" "ldenotes s rs ts" "length (level_content ts) < width64"
  shows "spec (pair_rounds E A rs) s grows stopped (\<lambda>rs' s'. ldenotes s' rs' (tree_rounds ts))"
  using assms
proof (induction ts arbitrary: s rs rule: tree_rounds.induct)
  case (1 ts)
  note len = ldenotes_length [OF "1.prems"(2)]
  let ?m = "''v2 sequence insert level allocation failed''"
  show ?case
  proof (cases "length ts > 1")
    case False
    then have "tree_rounds ts = ts" and "pair_rounds E A rs s = retP rs s"
      using len by (simp_all add: pair_rounds.simps [of E A rs s] tree_rounds.simps [of ts])
    then show ?thesis
      using "1.prems"(1,2) by (auto simp: spec_def grows_refl)
  next
    case True
    show ?thesis
    proof (cases "try_reserve E ?m ((length rs + 1) div 2)")
      case False
      then have "pair_rounds E A rs s = Some (Inl (V2AvlError.Invalid ?m), s)"
        using True len by (simp add: pair_rounds.simps [of E A rs s])
      then show ?thesis
        by (rule specI_Inl) (use False "1.prems"(1) in \<open>auto simp: stopped_def refused_def grows_refl\<close>)
    next
      case res: True
      have "spec (bindP (pair_level E A rs) (pair_rounds E A)) s grows stopped
          (\<lambda>rs' s'. ldenotes s' rs' (tree_rounds ts))"
        using True "1.prems"(3)
        by (intro bindS [OF spec_pair_level [OF "1.prems"]])
          (auto simp: tree_rounds.simps [of ts] level_content_pairs intro!: "1.IH" grows_good)
      then show ?thesis
        by (rule spec_cong [rotated]) (use True res len in \<open>simp add: pair_rounds.simps [of E A rs s]\<close>)
    qed
  qed
qed

lemma spec_build:
  assumes good: "good (fst s)" and ins: "ins \<noteq> []" "length ins < width64"
  shows "spec (build_insert_subtree_on E A ins) s grows stopped (\<lambda>root s'. denotes s' root (tree_build ins))"
proof -
  let ?cs = "chunks MAX_LEAF_PAYLOAD_BYTES ins"
  have cs: "list_all (\<lambda>c. fits (Lf c)) ?cs"
    using leaf_level(1) [OF ins] by (simp add: list_all_iff)
  have w: "length (level_content (map Lf ?cs)) < width64"
    using leaf_level(3) [OF ins] ins by simp
  obtain t where t: "tree_rounds (map Lf ?cs) = [t]"
    using rounds_correct [OF leaf_level(1,2) [OF ins] w] by auto
  show ?thesis
  proof (cases "try_reserve E ''v2 sequence insert level allocation failed''
      ((length ins + MAX_LEAF_PAYLOAD_BYTES - 1) div MAX_LEAF_PAYLOAD_BYTES)")
    case False
    then show ?thesis
      using good by (auto simp: build_insert_subtree_on_def stopped_def refused_def
          intro!: spec_failP grows_refl)
  next
    case True
    show ?thesis
      unfolding build_insert_subtree_on_def
      apply (simp only: True not_True_eq_False if_False)
      apply (rule bindS [OF spec_leaves [OF good cs]])
      apply (rule bindS [OF spec_rounds [OF grows_good _ w]])
        apply assumption
       apply assumption
      apply (auto simp: t tree_build_def intro!: spec_retP grows_refl grows_good)
      done
  qed
qed


lemma spec_middle:
  assumes "good (fst s)" "length ins < width64"
  shows "spec (if ins = [] then retP None
      else bindP (build_insert_subtree_on E A ins) (\<lambda>r. retP (Some r))) s grows stopped
    (\<lambda>m s'. odenotes s' m (if ins = [] then None else Some (tree_build ins)))"
  using assms by (auto intro!: bindS [OF spec_build] spec_retP grows_refl grows_good)

lemma spec_right_part:
  assumes good: "good (fst s)" and m: "odenotes s mid mt" and del: "del \<le> length (ocontent mt)"
  shows "spec (case mid of None \<Rightarrow> retP None
      | Some x \<Rightarrow> if del = 0 then retP (Some x)
          else bindP (split_on E A x del) (\<lambda>(_, right). retP right)) s grows stopped
    (\<lambda>r s'. odenotes s' r (case mt of None \<Rightarrow> None
      | Some t \<Rightarrow> if del = 0 then Some t else snd (tree_split t del)))"
proof (cases mt)
  case None
  with m good show ?thesis
    by (auto intro!: spec_retP grows_refl)
next
  case (Some t)
  with m obtain x where x: "mid = Some x" "denotes s x t"
    by auto
  show ?thesis
  proof (cases "del = 0")
    case True
    with x Some good show ?thesis
      by (auto intro!: spec_retP grows_refl)
  next
    case False
    have "spec (bindP (split_on E A x del) (\<lambda>(_, right). retP right)) s grows stopped
        (\<lambda>r s'. odenotes s' r (snd (tree_split t del)))"
      by (rule bindS [OF spec_split [OF good x(2)]])
        (use del Some in \<open>auto simp: tlen_def denotes_pair_def intro!: spec_retP grows_refl grows_good\<close>)
    with False x Some show ?thesis
      by simp
  qed
qed

definition edit_fits :: "vtree option \<Rightarrow> nat \<Rightarrow> nat \<Rightarrow> byte list \<Rightarrow> bool" where
  "edit_fits pt off del ins \<longleftrightarrow> off + del \<le> length (ocontent pt) \<and>
     length (ocontent pt) - del + length ins < width64 \<and>
     0 < length (ocontent pt) - del + length ins"

lemma odenotes_ofits: "odenotes s x t \<Longrightarrow> ofits t"
  by (cases t) (auto dest: denotes_fits)

lemma spec_join_optional:
  assumes "good (fst s)" "odenotes s x xt" "odenotes s y yt" "odenotes s z zt"
    "length (ocontent xt) + length (ocontent yt) + length (ocontent zt) < width64"
    "tree_concat_opt (tree_concat_opt xt yt) zt = Some t"
  shows "spec (bindP (concat_optional_on E A x y) (\<lambda>combined.
         bindP (concat_optional_on E A combined z) (\<lambda>combined. liftP (ok_or e combined))))
    s grows stopped (\<lambda>root s'. denotes s' root t)"
  apply (rule bindS [OF spec_concat_optional [OF assms(1-3)]])
   apply (use assms(5) in simp)
  apply (rule bindS [OF spec_concat_optional [OF grows_good _ grows_odenotes [OF _ assms(4)]]])
      apply assumption+
   apply (use assms(5) in simp)
  apply (auto simp: assms(6) intro!: spec_liftP_Inr grows_refl grows_good)
  done

lemma spec_splice_inner:
  assumes good: "good (fst s)" and p: "odenotes s parent pt" and e: "edit_fits pt off del ins"
    and t: "tree_splice pt off del ins = Some t"
  shows "spec (splice_inner_on E A parent off del ins) s grows stopped (\<lambda>root s'. denotes s' root t)"
  unfolding splice_inner_on_def
proof (rule bindS [OF spec_middle [OF good]])
  fix m s1
  let ?mt = "if ins = [] then None else Some (tree_build ins)"
  assume g1: "grows s s1" and m: "odenotes s1 m ?mt"
  have lm: "length (ocontent ?mt) = length ins"
    using tree_build_correct [of ins] e by (auto simp: edit_fits_def)
  show "spec (case parent of
       None \<Rightarrow> liftP (ok_or (V2AvlError.Invalid ''v2 sequence root creation produced no content'') m)
     | Some root \<Rightarrow>
         bindP (split_on E A root off) (\<lambda>(left, mid_right).
         bindP (case mid_right of None \<Rightarrow> retP None
                | Some mid \<Rightarrow> if del = 0 then retP (Some mid)
                    else bindP (split_on E A mid del) (\<lambda>(_, right). retP right)) (\<lambda>right.
         bindP (concat_optional_on E A left m) (\<lambda>combined.
         bindP (concat_optional_on E A combined right) (\<lambda>combined.
         liftP (ok_or (V2AvlError.Invalid ''v2 sequence splice produced an empty root'') combined))))))
    s1 grows stopped (\<lambda>root s'. denotes s' root t)"
  proof (cases parent)
    case None
    with p t m show ?thesis
      by (auto simp: tree_splice_def intro!: spec_liftP_Inr grows_refl grows_good [OF g1])
  next
    case (Some root)
    with p obtain u where u: "pt = Some u" "denotes s root u"
      by auto
    obtain lt mt where lm_eq: "tree_split u off = (lt, mt)"
      by (cases "tree_split u off")
    let ?rt = "case mt of None \<Rightarrow> None | Some x \<Rightarrow> if del = 0 then Some x else snd (tree_split x del)"
    have le: "off + del \<le> tlen u"
      using e u by (simp add: edit_fits_def tlen_def)
    have c: "ocontent lt = take off (content u)" "ocontent mt = drop off (content u)"
      using tree_split_content [OF _ lm_eq] le by auto
    have rt: "ocontent ?rt = drop (off + del) (content u)"
      using split_mid [OF denotes_fits [OF u(2)] le lm_eq] by simp
    have w: "length (ocontent lt) + length (ocontent ?mt) + length (ocontent ?rt) < width64"
      using e lm le unfolding rt c edit_fits_def u by (simp add: tlen_def) linarith
    have tt: "tree_concat_opt (tree_concat_opt lt ?mt) ?rt = Some t"
      using t by (simp add: tree_splice_def u lm_eq)
    show ?thesis
      unfolding Some option.case
      apply (rule bindS [OF spec_split [OF grows_good [OF g1] grows_denotes [OF g1 u(2)]]])
       apply (use le in simp)
      apply (clarsimp simp only: lm_eq denotes_pair_def fst_conv snd_conv prod.case)
      apply (rule bindS [OF spec_right_part [OF grows_good]])
         apply assumption+
       apply (use le in \<open>simp add: c tlen_def\<close>)
      apply (rule spec_join_optional [OF _ _ _ _ w tt])
         apply (blast intro: grows_good grows_odenotes m)+
      done
  qed
qed (use e in \<open>simp add: edit_fits_def\<close>)


lemma splice_checks_total:
  assumes good: "good a" and p: "odenotes (a, 0) parent pt" and e: "edit_fits pt off del ins"
    and eff: "parent = None \<or> del \<noteq> 0 \<or> ins \<noteq> []"
  shows "splice_checks E A a parent off del ins = Inr () \<or>
    (\<exists>x\<in>RF. splice_checks E A a parent off del ins = Inl x)"
proof (cases parent)
  case None
  with p e show ?thesis
    by (auto simp: splice_checks_def edit_fits_def try_from_def checked_add_def)
next
  case (Some root)
  with p obtain t where t: "pt = Some t" "rep E (payload_of a) (nodes_of a) root t"
    by (auto simp: denotes_def)
  have len: "root_len root = length (content t)"
    using rep_metadata [OF t(2)] by (simp add: tlen_def)
  from node_for_root_total [OF good t(2)] show ?thesis
  proof (elim disjE bexE exE conjE)
    fix x
    assume "x \<in> RF" "node_for_root_on A a root = Inl x"
    then show ?thesis
      by (auto simp: splice_checks_def Some)
  next
    fix n
    assume n: "node_for_root_on A a root = Inr n" "get_at (nodes_of a) (root_node_id root) = Some n"
    have "splice_checks E A a parent off del ins = validate_node_on E A a n"
      using e eff t(1) Some n(1)
      by (auto simp: splice_checks_def edit_fits_def try_from_def checked_add_def len)
        (cases ins; simp)+
    then show ?thesis
      using validate_total [OF good t(2) n(2)] by auto
  qed
qed

lemma splice_on_correct:
  assumes good: "good a" and p: "rel_option (rep E (payload_of a) (nodes_of a)) parent pt"
    and e: "edit_fits pt off del ins" and eff: "parent = None \<or> del \<noteq> 0 \<or> ins \<noteq> []"
  shows "(\<exists>x a'. splice_on E A parent off del ins a = Some (Inl x, a') \<and> good a' \<and>
      payload_of a' = payload_of a \<and> nodes_of a' = nodes_of a \<and>
      x \<in> RF \<union> WF \<union> refused E \<union> node_table_full \<union> payload_table_full) \<or>
    (\<exists>res a' t. splice_on E A parent off del ins a = Some (Inr res, a') \<and> good a' \<and> ext a a' \<and>
      tree_splice pt off del ins = Some t \<and> content t = edit (ocontent pt) off del ins \<and>
      rep E (payload_of a') (nodes_of a') (splice_root res) t \<and>
      splice_allocated_nodes res = length (nodes_of a') - length (nodes_of a) \<and>
      splice_payload_bytes_allocated res = length (payload_of a') - length (payload_of a))"
    (is "?err \<or> ?ok")
proof -
  have od: "odenotes (a, 0) parent pt"
    using p unfolding odenotes_def denotes_def [abs_def] by simp
  have bounds: "off + del \<le> length (ocontent pt)" "length (ocontent pt) - del + length ins < width64"
    "0 < length (ocontent pt) - del + length ins"
    using e unfolding edit_fits_def by blast+
  obtain t where t: "tree_splice pt off del ins = Some t" "content t = edit (ocontent pt) off del ins"
    using tree_splice_correct [OF odenotes_ofits [OF od] bounds] by blast
  from splice_checks_total [OF good od e eff] show ?thesis
  proof (elim disjE bexE)
    fix x
    assume "x \<in> RF" "splice_checks E A a parent off del ins = Inl x"
    then show ?thesis
      using good by (auto simp: splice_on_def)
  next
    assume ok: "splice_checks E A a parent off del ins = Inr ()"
    have "spec (splice_inner_on E A parent off del ins) (a, 0) grows stopped (\<lambda>root s'. denotes s' root t)"
      using good by (intro spec_splice_inner [OF _ od e t(1)]) simp
    then show ?thesis
    proof (cases rule: specE)
      case (Err x s')
      obtain b k where s': "s' = (b, k)"
        by (cases s')
      have gb: "good b" "ext a b" and st: "stopped x (b, k)"
        using Err by (auto simp: s' grows_def)
      have "splice_on E A parent off del ins a =
          Some (Inl x, arena_truncate A b (length (payload_of a)) (length (nodes_of a)))"
        using ok Err(1) good by (simp add: splice_on_def s' payload_len node_count Let_def)
      with truncate_back [OF good gb] st have ?err
        by (auto simp: stopped_def arena_full_def split: if_splits)
      then show ?thesis ..
    next
      case (Ok root s')
      obtain b k where s': "s' = (b, k)"
        by (cases s')
      have gb: "good b" "ext a b" and d: "rep E (payload_of b) (nodes_of b) root t"
        using Ok by (auto simp: s' grows_def denotes_def)
      have ?ok
        using ok Ok(1) good gb d t
        by (simp add: splice_on_def s' payload_len node_count Let_def)
      then show ?thesis ..
    qed
  qed
qed


subsection \<open>Range reads\<close>

definition frame_ok :: "'a \<Rightarrow> read_frame \<Rightarrow> vtree \<Rightarrow> bool" where
  "frame_ok a f t \<longleftrightarrow> rep E (payload_of a) (nodes_of a) (fst f) t \<and> fst (snd f) + snd (snd f) \<le> tlen t"

definition frame_bytes :: "read_frame \<Rightarrow> vtree \<Rightarrow> byte list" where
  "frame_bytes f t = take (snd (snd f)) (drop (fst (snd f)) (content t))"

lemma frame_bytes_simp: "frame_bytes (r, o', k) t = take k (drop o' (content t))"
  by (simp add: frame_bytes_def)

lemma resolve_validate:
  assumes "good a" and "rep E (payload_of a) (nodes_of a) root t"
  shows "(\<exists>e\<in>RF. bindR (node_for_root_on A a root) (\<lambda>n. bindR (validate_node_on E A a n) (\<lambda>_. Inr n)) = Inl e) \<or>
    (\<exists>n. bindR (node_for_root_on A a root) (\<lambda>n. bindR (validate_node_on E A a n) (\<lambda>_. Inr n)) = Inr n \<and>
      get_at (nodes_of a) (root_node_id root) = Some n)"
  using node_for_root_total [OF assms] validate_total [OF assms] by fastforce

lemma read_leaf_total:
  assumes good: "good a" and sl: "slice_get (payload_of a) off (off + length bs) = Some bs"
    and w: "off + length bs < width64" and k: "o' + l \<le> length bs"
  shows "read_leaf A a off (length bs) o' l = Inr (take l (drop o' bs)) \<or>
    (\<exists>e\<in>RF. read_leaf A a off (length bs) o' l = Inl e)"
proof -
  have s: "slice_get (payload_of a) (off + o') (off + (o' + l)) = Some (take l (drop o' bs))"
    using slice_get_slice [OF sl, of o' "o' + l"] k by simp
  have w': "off + (o' + l) < width64"
    using w k by simp
  show ?thesis
    using read_complete [OF good s w'] k w w'
    by (auto simp: read_leaf_def checked_add_def add.assoc)
qed

lemma branch_frames_ok:
  assumes "rep E (payload_of a) (nodes_of a) l lt" "rep E (payload_of a) (nodes_of a) r rt"
    "o' + k \<le> tlen lt + tlen rt"
  shows "\<exists>ts. list_all2 (frame_ok a) (branch_frames l r o' k) ts \<and>
    concat (map2 frame_bytes (branch_frames l r o' k) ts) = take k (drop o' (content lt @ content rt)) \<and>
    sum_list (map tnodes ts) \<le> tnodes lt + tnodes rt"
proof -
  have len: "root_len l = length (content lt)"
    using rep_metadata [OF assms(1)] by (simp add: tlen_def)
  consider (R) "length (content lt) \<le> o'" | (L) "o' < length (content lt)" "k \<le> length (content lt) - o'"
    | (LR) "o' < length (content lt)" "length (content lt) - o' < k"
    by linarith
  then show ?thesis
  proof cases
    case R
    then show ?thesis
      using assms by (intro exI [of _ "[rt]"]) (auto simp: branch_frames_def len frame_ok_def frame_bytes_def tlen_def)
  next
    case L
    then show ?thesis
      using assms len
      by (intro exI [of _ "if k = 0 then [] else [lt]"])
        (auto simp: branch_frames_def frame_ok_def frame_bytes_def tlen_def)
  next
    case LR
    then show ?thesis
      using assms len
      by (intro exI [of _ "[lt, rt]"])
        (auto simp: branch_frames_def frame_ok_def frame_bytes_def tlen_def)
  qed
qed

definition reads :: "'a \<Rightarrow> read_frame list \<Rightarrow> vtree list \<Rightarrow> bool" where
  "reads a stack ts \<longleftrightarrow> (\<forall>out v. (\<exists>e\<in>RF. read_loop E A a stack out v = Some (Inl e)) \<or>
    (\<exists>v'. read_loop E A a stack out v = Some (Inr (out @ concat (map2 frame_bytes stack ts), v'))))"

lemma reads_step_leaf:
  assumes good: "good a" and rep: "rep E (payload_of a) (nodes_of a) root (Lf bs)"
    and n: "get_at (nodes_of a) (root_node_id root) = Some n" and le: "o' + k \<le> length bs"
    and go: "bindR (node_for_root_on A a root) (\<lambda>n. bindR (validate_node_on E A a n) (\<lambda>_. Inr n)) = Inr n"
    and IH: "reads a rest ts"
  shows "reads a ((root, o', k) # rest) (Lf bs # ts)"
  unfolding reads_def
proof (intro allI)
  fix out v
  obtain off rec where nd: "n = ArenaNode.Leaf off (length bs) rec"
    and sl: "slice_get (payload_of a) off (off + length bs) = Some bs" and w: "off + length bs < width64"
    using rep n by (auto simp: leaf_ok_iff)
  from read_leaf_total [OF good sl w le]
    IH [unfolded reads_def, rule_format, of "out @ take k (drop o' bs)" "saturating_add width64 v 1"]
  show "(\<exists>e\<in>RF. read_loop E A a ((root, o', k) # rest) out v = Some (Inl e)) \<or>
    (\<exists>v'. read_loop E A a ((root, o', k) # rest) out v =
       Some (Inr (out @ concat (map2 frame_bytes ((root, o', k) # rest) (Lf bs # ts)), v')))"
    unfolding read_loop.simps [of E A a "(root, o', k) # rest"]
    by (auto simp: go nd frame_bytes_simp)
qed

lemma reads_step_branch:
  assumes go: "bindR (node_for_root_on A a root) (\<lambda>n. bindR (validate_node_on E A a n) (\<lambda>_. Inr n)) =
      Inr (ArenaNode.Branch l r rec)"
    and us: "concat (map2 frame_bytes (branch_frames l r o' k) us) = take k (drop o' (content lt @ content rt))"
      "length (branch_frames l r o' k) = length us"
    and IH: "reads a (branch_frames l r o' k @ rest) (us @ ts)"
  shows "reads a ((root, o', k) # rest) (Br lt rt # ts)"
proof -
  have "frame_bytes (root, o', k) (Br lt rt) = concat (map2 frame_bytes (branch_frames l r o' k) us)"
    by (simp add: us(1) frame_bytes_simp del: take_append drop_append)
  with us(2) IH show ?thesis
    unfolding reads_def read_loop.simps [of E A a "(root, o', k) # rest"] by (simp add: go)
qed

lemma read_loop_total:
  assumes good: "good a" and "list_all2 (frame_ok a) stack ts"
  shows "reads a stack ts"
  using assms(2)
proof (induction "sum_list (map tnodes ts)" arbitrary: stack ts rule: less_induct)
  case less
  show ?case
  proof (cases stack)
    case Nil
    with less.prems show ?thesis
      by (auto simp: reads_def read_loop.simps)
  next
    case (Cons f rest)
    obtain root o' k where f: "f = (root, o', k)"
      by (cases f)
    from less.prems Cons obtain t ts' where ts: "ts = t # ts'"
      and rest: "list_all2 (frame_ok a) rest ts'" and ok: "frame_ok a f t"
      by (auto simp: list_all2_Cons1)
    have rep: "rep E (payload_of a) (nodes_of a) root t" and le: "o' + k \<le> tlen t"
      using ok by (auto simp: frame_ok_def f)
    from resolve_validate [OF good rep] show ?thesis
    proof (elim disjE bexE exE conjE)
      fix e
      assume "e \<in> RF" "bindR (node_for_root_on A a root)
        (\<lambda>n. bindR (validate_node_on E A a n) (\<lambda>_. Inr n)) = Inl e"
      then show ?thesis
        unfolding reads_def by (subst read_loop.simps) (simp add: Cons f)
    next
      fix n
      assume go: "bindR (node_for_root_on A a root)
          (\<lambda>n. bindR (validate_node_on E A a n) (\<lambda>_. Inr n)) = Inr n"
        and n: "get_at (nodes_of a) (root_node_id root) = Some n"
      show ?thesis
      proof (cases t)
        case (Lf bs)
        show ?thesis
          unfolding Cons f ts Lf
          by (rule reads_step_leaf [OF good rep [unfolded Lf] n _ go less.hyps [OF _ rest]])
            (use le in \<open>simp_all add: ts Lf\<close>)
      next
        case (Br lt rt)
        with rep n obtain l r rec where nd: "n = ArenaNode.Branch l r rec"
          and lr: "rep E (payload_of a) (nodes_of a) l lt" "rep E (payload_of a) (nodes_of a) r rt"
          by auto
        obtain us where us: "list_all2 (frame_ok a) (branch_frames l r o' k) us"
          "concat (map2 frame_bytes (branch_frames l r o' k) us) = take k (drop o' (content lt @ content rt))"
          "sum_list (map tnodes us) \<le> tnodes lt + tnodes rt"
          using branch_frames_ok [OF lr, of o' k] le Br by auto
        show ?thesis
          unfolding Cons f ts Br
          by (rule reads_step_branch [OF go [unfolded nd] us(2) list_all2_lengthD [OF us(1)]
                less.hyps [OF _ list_all2_appendI [OF us(1) rest]]]) (use us(3) in \<open>simp add: ts Br\<close>)
      qed
    qed
  qed
qed

lemma read_range_correct:
  assumes good: "good a" and rep: "rep E (payload_of a) (nodes_of a) root t"
    and le: "off + len \<le> tlen t"
  shows "(\<exists>e\<in>RF. read_range_counted_on E A a root off len = Some (Inl e)) \<or>
    (\<exists>v. read_range_counted_on E A a root off len = Some (Inr (take len (drop off (content t)), v)))"
proof -
  have meta: "root_len root = tlen t" "tlen t < width64"
    using rep_metadata [OF rep] fits_len by auto
  have "reads a [(root, off, len)] [t]"
    using good rep le by (intro read_loop_total) (auto simp: frame_ok_def)
  then have "(\<exists>e\<in>RF. read_loop E A a [(root, off, len)] [] 0 = Some (Inl e)) \<or>
    (\<exists>v. read_loop E A a [(root, off, len)] [] 0 = Some (Inr (take len (drop off (content t)), v)))"
    unfolding reads_def by (elim allE [of _ "[]"] allE [of _ 0]) (simp add: frame_bytes_simp)
  with node_for_root_total [OF good rep] le meta show ?thesis
    unfolding read_range_counted_on_def
    by (cases "len = 0") (auto simp: checked_add_def try_from_def tlen_def)
qed

lemma read_range_out_of_range:
  assumes good: "good a" and rep: "rep E (payload_of a) (nodes_of a) root t"
    and le: "tlen t < off + len" and w: "off + len < width64"
  shows "\<exists>e\<in>insert (V2AvlError.Invalid ''v2 range exceeds root logical length'') RF.
    read_range_counted_on E A a root off len = Some (Inl e)"
  using node_for_root_total [OF good rep] rep_metadata [OF rep] le w
  by (auto simp: read_range_counted_on_def checked_add_def)


subsection \<open>Verification\<close>

lemma sat_add_assoc:
  "saturating_add w (saturating_add w v a) b = saturating_add w v (a + b)"
  by (auto simp: saturating_add_def)

lemma verify_complete:
  assumes good: "good a" and "rep E (payload_of a) (nodes_of a) root t"
  shows "verify_node_on E A a root v = Some (Inr (), saturating_add width64 v (tnodes t)) \<or>
    (\<exists>e\<in>RF. \<exists>v'. verify_node_on E A a root v = Some (Inl e, v'))"
  using assms(2)
proof (induction t arbitrary: root v)
  case (Lf bs)
  from node_for_root_total [OF good Lf] validate_total [OF good Lf] show ?case
    using Lf unfolding verify_node_on.simps [of E A a root]
    by (auto simp: bindP_def simp del: validate_node_on.simps) blast
next
  case (Br lt rt)
  from Br.prems obtain l r rec where
      nd: "get_at (nodes_of a) (root_node_id root) = Some (ArenaNode.Branch l r rec)"
    and lr: "rep E (payload_of a) (nodes_of a) l lt" "rep E (payload_of a) (nodes_of a) r rt"
    by auto
  let ?v = "saturating_add width64 v (Suc 0)"
  have n: "saturating_add width64 (saturating_add width64 ?v (tnodes lt)) (tnodes rt) =
      saturating_add width64 v (tnodes (Br lt rt))"
    by (simp add: sat_add_assoc)
  from node_for_root_total [OF good Br.prems] validate_total [OF good Br.prems nd] nd
    Br.IH(1) [OF lr(1), of ?v] Br.IH(2) [OF lr(2), of "saturating_add width64 ?v (tnodes lt)"]
  show ?case
    unfolding verify_node_on.simps [of E A a root] by (auto simp: bindP_def n simp del: tnodes.simps)
qed

lemma resolved_rep_leaf:
  assumes "good a" "node_for_root_on A a root = Inr (ArenaNode.Leaf off len rec)"
    "validate_node_on E A a (ArenaNode.Leaf off len rec) = Inr ()" "root_node_id root < width64"
  shows "\<exists>bs. rep E (payload_of a) (nodes_of a) root (Lf bs)"
proof -
  have load: "get_at (nodes_of a) (root_node_id root) = Some (ArenaNode.Leaf off len rec)"
    and root: "V2RootRecord_from_node (root_node_id root) rec = Inr root"
    using assms(1,2) load_sound by (auto simp: node_for_root_on_def result_iffs split: if_splits)
  obtain bs where bs: "arena_read_payload A a off (off + len) = Inr bs" "V2NodeRecord_leaf E off bs = Inr rec"
    using assms(3) by (auto simp: result_iffs checked_iffs split: if_splits)
  have "slice_get (payload_of a) off (off + len) = Some bs"
    using read_sound [OF assms(1) bs(1)] .
  moreover from this have "len = length bs"
    by (auto dest: slice_get_length)
  ultimately show ?thesis
    using load root bs(2) from_node_fields [OF root] assms(4)
    by (intro exI [of _ bs]) (auto simp: none_node_less)
qed

lemma resolved_rep_branch:
  assumes "good a" "node_for_root_on A a root = Inr (ArenaNode.Branch l r rec)"
    "validate_node_on E A a (ArenaNode.Branch l r rec) = Inr ()" "root_node_id root < width64"
    "rep E (payload_of a) (nodes_of a) l lt" "rep E (payload_of a) (nodes_of a) r rt"
  shows "rep E (payload_of a) (nodes_of a) root (Br lt rt)"
proof -
  have load: "get_at (nodes_of a) (root_node_id root) = Some (ArenaNode.Branch l r rec)"
    and root: "V2RootRecord_from_node (root_node_id root) rec = Inr root"
    using assms(1,2) load_sound by (auto simp: node_for_root_on_def result_iffs split: if_splits)
  then show ?thesis
    using assms(3-6) from_node_fields [OF root]
    by (auto simp: result_iffs none_node_less split: if_splits)
qed

lemma resolved_children_u64:
  assumes "good a" "node_for_root_on A a root = Inr (ArenaNode.Branch l r rec)"
  shows "root_node_id l < width64 \<and> root_node_id r < width64"
proof -
  have "get_at (nodes_of a) (root_node_id root) = Some (ArenaNode.Branch l r rec)"
    using assms load_sound by (auto simp: node_for_root_on_def result_iffs split: if_splits)
  then show ?thesis
    by (rule children_u64 [OF assms(1) get_at_in_set])
qed


lemma verify_step:
  assumes good: "good a" and id: "root_node_id root < width64" and res: "fst res = Inr ()"
    and body: "bindP (liftP (node_for_root_on A a root)) (\<lambda>node.
      bindP (liftP (validate_node_on E A a node)) (\<lambda>_ v. case node of
        ArenaNode.Leaf _ _ _ \<Rightarrow> retP () v
      | ArenaNode.Branch left right _ \<Rightarrow> bindP (f left) (\<lambda>_. f right) v)) w = Some res"
    and IH: "\<And>root v res. f root v = Some res \<Longrightarrow> fst res = Inr () \<Longrightarrow> root_node_id root < width64 \<Longrightarrow>
      \<exists>t. rep E (payload_of a) (nodes_of a) root t"
  shows "\<exists>t. rep E (payload_of a) (nodes_of a) root t"
proof -
  obtain v' where v': "res = (Inr (), v')"
    using res by (cases res) auto
  obtain n where n: "node_for_root_on A a root = Inr n" "validate_node_on E A a n = Inr ()"
    and rest: "(case n of ArenaNode.Leaf _ _ _ \<Rightarrow> retP () w
      | ArenaNode.Branch left right _ \<Rightarrow> bindP (f left) (\<lambda>_. f right) w) = Some (Inr (), v')"
    using body by (auto simp: v' bindP_Some_Inr_iff)
  show ?thesis
  proof (cases n)
    case (Leaf off len rec)
    with resolved_rep_leaf [OF good] n id show ?thesis
      by blast
  next
    case (Branch l r rec)
    from rest obtain w1 where "f l w = Some (Inr (), w1)" "f r w1 = Some (Inr (), v')"
      by (auto simp: Branch bindP_Some_Inr_iff)
    with IH [of l] IH [of r] resolved_children_u64 [OF good n(1) [unfolded Branch]]
    obtain lt rt where "rep E (payload_of a) (nodes_of a) l lt" "rep E (payload_of a) (nodes_of a) r rt"
      by fastforce
    then show ?thesis
      using resolved_rep_branch [OF good] n id Branch by blast
  qed
qed

lemma verify_sound:
  assumes good: "good a" and "verify_node_on E A a root v = Some (Inr (), v')" "root_node_id root < width64"
  shows "\<exists>t. rep E (payload_of a) (nodes_of a) root t"
proof -
  let ?P = "\<lambda>E' A' a' root (v :: u64) (res :: (V2AvlError + unit) \<times> u64). E' = E \<longrightarrow> A' = A \<longrightarrow> a' = a \<longrightarrow> fst res = Inr () \<longrightarrow>
    root_node_id root < width64 \<longrightarrow> (\<exists>t. rep E (payload_of a) (nodes_of a) root t)"
  have "?P E A a root v (Inr (), v')"
  proof (rule verify_node_on.raw_induct [where P = ?P, OF _ assms(2)])
    fix f E' A' a' root v res
    assume IH: "\<And>E' A' a' root v y. f E' A' a' root v = Some y \<Longrightarrow> ?P E' A' a' root v y"
      and body: "bindP (liftP (node_for_root_on A' a' root)) (\<lambda>node.
        bindP (liftP (validate_node_on E' A' a' node)) (\<lambda>_ v. case node of
          ArenaNode.Leaf _ _ _ \<Rightarrow> retP () v
        | ArenaNode.Branch left right _ \<Rightarrow> bindP (f E' A' a' left) (\<lambda>_. f E' A' a' right) v))
        (saturating_add width64 v 1) = Some res"
    show "?P E' A' a' root v res"
      using IH body verify_step [OF good, of root res "f E A a"] by blast
  qed
  with assms(3) show ?thesis
    by simp
qed

lemma verify_root_complete:
  assumes "good a" and "rep E (payload_of a) (nodes_of a) root t"
  shows "verify_root_counted_on E A a root = Some (Inr (saturating_add width64 0 (tnodes t))) \<or>
    (\<exists>e\<in>RF. verify_root_counted_on E A a root = Some (Inl e))"
  using verify_complete [OF assms, of 0] by (auto simp: verify_root_counted_on_def)

lemma verify_root_sound:
  assumes "good a" and "verify_root_counted_on E A a root = Some (Inr n)" and "root_node_id root < width64"
  shows "\<exists>t. rep E (payload_of a) (nodes_of a) root t"
  using assms verify_sound
  by (auto simp: verify_root_counted_on_def split: option.splits prod.splits sum.splits)

end

section \<open>What a commitment binds\<close>

text \<open>The byte strings hashed for a tree, and what two trees with one commitment have in common.\<close>

fun preimages :: "env \<Rightarrow> vtree \<Rightarrow> byte list set" where
  "preimages E (Lf bs) = {leaf_preimage (length bs) bs}"
| "preimages E (Br l r) = {branch_preimage (theight (Br l r)) (tlen l) (tree_commitment E l)
     (tlen r) (tree_commitment E r)} \<union> preimages E l \<union> preimages E r"

definition collision_in :: "env \<Rightarrow> byte list set \<Rightarrow> byte list set \<Rightarrow> bool" where
  "collision_in E X Y \<longleftrightarrow> (\<exists>x\<in>X. \<exists>y\<in>Y. x \<noteq> y \<and> sha256 E x = sha256 E y)"


lemma tree_commitment_length: "sha_ok E \<Longrightarrow> length (tree_commitment E t) = 32"
  by (cases t) (simp_all add: leaf_commitment_def branch_commitment_def)

lemma domains_differ: "leaf_preimage m bs \<noteq> branch_preimage h ll lc rl rc"
proof
  assume "leaf_preimage m bs = branch_preimage h ll lc rl rc"
  then have "leaf_preimage m bs ! 18 = branch_preimage h ll lc rl rc ! 18"
    by simp
  then show False
    by (simp add: leaf_preimage_def branch_preimage_def V2_LEAF_DOMAIN_def V2_BRANCH_DOMAIN_def ascii_def)
qed

lemma leaf_preimage_inject: "leaf_preimage (length a) a = leaf_preimage (length b) b \<longleftrightarrow> a = b"
  by (auto simp: leaf_preimage_def)

lemma branch_preimage_inject:
  assumes "length lc = 32" "length lc' = 32"
  shows "branch_preimage h ll lc rl rc = branch_preimage h' ll' lc' rl' rc' \<Longrightarrow> lc = lc' \<and> rc = rc'"
  using assms by (auto simp: branch_preimage_def)

lemma collision_mono: "collision_in E X Y \<Longrightarrow> X \<subseteq> X' \<Longrightarrow> Y \<subseteq> Y' \<Longrightarrow> collision_in E X' Y'"
  by (auto simp: collision_in_def)

lemma commitment_binds:
  assumes "sha_ok E" and "tree_commitment E t = tree_commitment E u"
  shows "t = u \<or> collision_in E (preimages E t) (preimages E u)"
  using assms(2)
proof (induction t arbitrary: u)
  case (Lf bs)
  then show ?case
    using domains_differ leaf_preimage_inject
    by (cases u) (auto simp: collision_in_def leaf_commitment_def branch_commitment_def)
next
  case (Br l r)
  show ?case
  proof (cases u)
    case (Lf bs)
    with Br.prems domains_differ show ?thesis
      by (auto simp: collision_in_def leaf_commitment_def branch_commitment_def) (metis domains_differ)
  next
    case u: (Br l' r')
    let ?p = "branch_preimage (theight (Br l r)) (tlen l) (tree_commitment E l) (tlen r) (tree_commitment E r)"
    let ?q = "branch_preimage (theight (Br l' r')) (tlen l') (tree_commitment E l') (tlen r') (tree_commitment E r')"
    have sha: "sha256 E ?p = sha256 E ?q"
      using Br.prems by (simp add: u branch_commitment_def)
    show ?thesis
    proof (cases "?p = ?q")
      case True
      then have "tree_commitment E l = tree_commitment E l'" "tree_commitment E r = tree_commitment E r'"
        using branch_preimage_inject tree_commitment_length [OF assms(1)] by blast+
      with Br.IH(1) [of l'] Br.IH(2) [of r'] show ?thesis
        using collision_mono [of E "preimages E l" "preimages E l'" "preimages E (Br l r)" "preimages E u"]
          collision_mono [of E "preimages E r" "preimages E r'" "preimages E (Br l r)" "preimages E u"]
        by (auto simp: u)
    next
      case False
      with sha show ?thesis
        by (auto simp: u collision_in_def)
    qed
  qed
qed

end
