(* ===== verification/Avl_Frame.thy ===== *)
theory Avl_Frame
  imports Avl_V2
begin

text \<open>
  Relations between the arena before and after an edit that hold for every outcome.  The locale
  \<open>arena_relation\<close> asks for a relation that is respected by the two allocating functions and that
  composes; the whole splice then respects it, for all operands, forged roots included.
\<close>

locale arena_relation =
  fixes E :: env
    and A :: "'a ArenaStore"
    and R :: "bool \<Rightarrow> 'a \<Rightarrow> 'a \<Rightarrow> bool"
  assumes R_refl: "R ok a a"
    and R_trans: "R True a b \<Longrightarrow> R ok b d \<Longrightarrow> R ok a d"
    and R_leaf: "allocate_leaf_on E A bytes s = Some (r, s') \<Longrightarrow> R (is_ok r) (fst s) (fst s')"
    and R_branch: "allocate_branch_on E A x y s = Some (r, s') \<Longrightarrow> R (is_ok r) (fst s) (fst s')"
begin

definition framed_at :: "'a arena_state \<Rightarrow> (V2AvlError + 'r) \<times> 'a arena_state \<Rightarrow> bool" where
  "framed_at s y \<longleftrightarrow> R (is_ok (fst y)) (fst s) (fst (snd y))"

definition framed :: "('a, 'r) avl_prog \<Rightarrow> bool" where
  "framed m \<longleftrightarrow> (\<forall>s y. m s = Some y \<longrightarrow> framed_at s y)"

lemma framedI: "(\<And>s y. m s = Some y \<Longrightarrow> framed_at s y) \<Longrightarrow> framed m"
  unfolding framed_def by blast

lemma framedD: "framed m \<Longrightarrow> m s = Some y \<Longrightarrow> framed_at s y"
  unfolding framed_def by blast

lemma framed_at_same [simp]: "framed_at s (x, s)"
  by (simp add: framed_at_def R_refl)

named_theorems framed_intros

lemma framed_basic [framed_intros]:
  "framed (retP x)" "framed (failP e)" "framed (liftP r)" "framed (viewP f)" "framed (bump k)"
  by (auto intro!: framedI simp: viewP_def bump_def framed_at_def R_refl)

lemma framed_bind [framed_intros]:
  assumes "framed m" and "\<And>x. framed (k x)"
  shows "framed (bindP m k)"
proof (rule framedI)
  fix s y
  assume run: "bindP m k s = Some y"
  then obtain r s1 where m: "m s = Some (r, s1)"
    by (cases "m s") (auto simp: bindP_def)
  have R1: "R (is_ok r) (fst s) (fst s1)"
    using framedD [OF assms(1) m] by (simp add: framed_at_def)
  show "framed_at s y"
  proof (cases r)
    case (Inl e)
    with run m R1 show ?thesis
      by (auto simp: framed_at_def)
  next
    case (Inr x)
    with run m have "k x s1 = Some y"
      by simp
    from framedD [OF assms(2) this] R1 Inr show ?thesis
      by (auto simp: framed_at_def intro: R_trans)
  qed
qed

lemma framed_if [framed_intros]: "framed m \<Longrightarrow> framed n \<Longrightarrow> framed (if b then m else n)"
  by simp

lemma framed_pair [framed_intros]: "(\<And>x y. framed (f x y)) \<Longrightarrow> framed (case p of (x, y) \<Rightarrow> f x y)"
  by (cases p) simp

lemma framed_option [framed_intros]:
  "framed m \<Longrightarrow> (\<And>x. framed (f x)) \<Longrightarrow> framed (case p of None \<Rightarrow> m | Some x \<Rightarrow> f x)"
  by (cases p) simp_all

lemma framed_node [framed_intros]:
  "(\<And>a b c. framed (f a b c)) \<Longrightarrow> (\<And>a b c. framed (g a b c)) \<Longrightarrow>
   framed (case node of ArenaNode.Leaf a b c \<Rightarrow> f a b c | ArenaNode.Branch a b c \<Rightarrow> g a b c)"
  by (cases node) simp_all

lemma framed_leaf [framed_intros]: "framed (allocate_leaf_on E A bytes)"
  by (rule framedI) (auto simp: framed_at_def dest: R_leaf)

lemma framed_branch [framed_intros]: "framed (allocate_branch_on E A l r)"
  by (rule framedI) (auto simp: framed_at_def dest: R_branch)

lemma framed_children [framed_intros]: "framed (branch_children_on A root)"
  unfolding branch_children_on_def by (intro framed_intros)

lemma framed_rebalance [framed_intros]: "framed (rebalance_on E A l r)"
  unfolding rebalance_on_def by (intro framed_intros)

lemma framed_if_state [framed_intros]:
  "framed m \<Longrightarrow> framed n \<Longrightarrow> framed (\<lambda>s. if b then m s else n s)"
  by (cases b) simp_all

lemma framed_node_state [framed_intros]:
  "(\<And>a b c. framed (f a b c)) \<Longrightarrow> (\<And>a b c. framed (g a b c)) \<Longrightarrow>
   framed (\<lambda>s. case node of ArenaNode.Leaf a b c \<Rightarrow> f a b c s | ArenaNode.Branch a b c \<Rightarrow> g a b c s)"
  by (cases node) simp_all

lemma framed_concat [framed_intros]: "framed (concat_on E A l r)"
proof -
  let ?P = "\<lambda>E' A' (l :: V2RootRecord) (r :: V2RootRecord) s y. E' = E \<longrightarrow> A' = A \<longrightarrow>
    framed_at s (y :: (V2AvlError + V2RootRecord) \<times> 'a arena_state)"
  have "?P E A l r s y" if "concat_on E A l r s = Some y" for s y
    apply (rule concat_on.raw_induct [where P = ?P, OF _ that])
    subgoal premises prems for f E' A' l r s y
    proof (intro impI)
      assume eqs: "E' = E" "A' = A"
      have f: "framed (f E A x z)" for x z
        by (rule framedI) (use prems(1) in blast)
      show "framed_at s y"
        using prems(2) unfolding eqs
        by (auto split: if_splits elim!: framedD [rotated] intro!: framed_intros f)
    qed
    done
  then show ?thesis
    by (intro framedI) simp
qed

lemma framed_split_leaf [framed_intros]: "framed (split_leaf E A off len k)"
  unfolding split_leaf_def by (intro framed_intros)

lemma framed_split [framed_intros]: "framed (split_on E A root off)"
proof -
  let ?P = "\<lambda>E' A' (root :: V2RootRecord) (off :: u64) s y. E' = E \<longrightarrow> A' = A \<longrightarrow>
    framed_at s (y :: (V2AvlError + V2RootRecord option \<times> V2RootRecord option) \<times> 'a arena_state)"
  have "?P E A root off s y" if "split_on E A root off s = Some y" for s y
    apply (rule split_on.raw_induct [where P = ?P, OF _ that])
    subgoal premises prems for f E' A' root off s y
    proof (intro impI)
      assume eqs: "E' = E" "A' = A"
      have f: "framed (f E A x z)" for x z
        by (rule framedI) (use prems(1) in blast)
      show "framed_at s y"
        using prems(2) unfolding eqs
        by (auto split: if_split_asm elim!: framedD [rotated] intro!: framed_intros f)
    qed
    done
  then show ?thesis
    by (intro framedI) simp
qed

lemma framed_leaves [framed_intros]: "framed (allocate_leaves E A cs)"
proof (induction cs)
  case (Cons c cs)
  then show ?case
    unfolding allocate_leaves.simps by (intro framed_intros)
qed (simp only: allocate_leaves.simps framed_basic)

lemma framed_pair_level [framed_intros]: "framed (pair_level E A rs)"
proof (induction rs rule: induct_list012)
  case (3 r r' rs)
  then show ?case
    unfolding pair_level.simps by (intro framed_intros)
qed (simp_all only: pair_level.simps framed_basic)

lemma framed_rounds [framed_intros]: "framed (pair_rounds E A rs)"
proof -
  let ?P = "\<lambda>E' A' (rs :: V2RootRecord list) s y. E' = E \<longrightarrow> A' = A \<longrightarrow>
    framed_at s (y :: (V2AvlError + V2RootRecord list) \<times> 'a arena_state)"
  have "?P E A rs s y" if "pair_rounds E A rs s = Some y" for s y
    apply (rule pair_rounds.raw_induct [where P = ?P, OF _ that])
    subgoal premises prems for f E' A' rs s y
    proof (intro impI)
      assume eqs: "E' = E" "A' = A"
      have f: "framed (f E A x)" for x
        by (rule framedI) (use prems(1) in blast)
      show "framed_at s y"
        using prems(2) unfolding eqs
        by (auto split: if_split_asm elim!: framedD [rotated] intro!: framed_intros f)
    qed
    done
  then show ?thesis
    by (intro framedI) simp
qed

lemma framed_build [framed_intros]: "framed (build_insert_subtree_on E A ins)"
  unfolding build_insert_subtree_on_def by (intro framed_intros)

lemma framed_concat_optional [framed_intros]: "framed (concat_optional_on E A x y)"
  unfolding concat_optional_on_def prod.case by (intro framed_intros)

lemma framed_splice_inner: "framed (splice_inner_on E A parent off del ins)"
  unfolding splice_inner_on_def by (intro framed_intros)

end

end
