(* ===== verification/Avl_Memory.thy ===== *)
theory Avl_Memory
  imports Avl_Correct Avl_Frame
begin

text \<open>
  The in-memory arena \<open>V2AvlSequence\<close> of \<open>avl.rs\<close>: its implementation of \<open>ArenaStore\<close>, the public
  entry points over it, and the image export and import.  The arena discharges the contract
  \<open>arena_store\<close> without faults, so the results of \<open>Avl_Correct\<close> hold for it unconditionally.

  \<open>arena_wf\<close> is the invariant of every arena the code can build: leaves own consecutive payload
  ranges that cover the payload, branches refer to earlier nodes, and each record is the one its
  constructor computes.  Every edit preserves it, whatever roots it is called with, and import
  accepts exactly the images of such arenas.
\<close>

section \<open>The arena\<close>

record V2AvlSequence =
  seq_payload :: "byte list"
  seq_nodes :: "ArenaNode list"

definition payload_slice :: "V2AvlSequence \<Rightarrow> u64 \<Rightarrow> u64 \<Rightarrow> V2AvlError + byte list" where
  "payload_slice a start end' =
     bindR (ok_or (V2AvlError.Overflow ''v2 payload start exceeds usize'') (try_from width64 start)) (\<lambda>start.
     bindR (ok_or (V2AvlError.Overflow ''v2 payload end exceeds usize'') (try_from width64 end')) (\<lambda>end'.
     ok_or (V2AvlError.Invalid ''v2 payload range is outside the arena'')
       (slice_get (seq_payload a) start end')))"

definition memory_load_node :: "V2AvlSequence \<Rightarrow> u64 \<Rightarrow> V2AvlError + ArenaNode" where
  "memory_load_node a node_id =
     bindR (ok_or (V2AvlError.Overflow ''v2 node identifier exceeds usize'') (try_from width64 node_id)) (\<lambda>index.
     ok_or (V2AvlError.Invalid ''v2 root references a missing arena node'')
       (get_at (seq_nodes a) index))"

definition memory_append_payload ::
  "V2AvlSequence \<Rightarrow> byte list \<Rightarrow> (V2AvlError + u64) \<times> V2AvlSequence" where
  "memory_append_payload a bytes =
    (case try_from width64 (length (seq_payload a)) of
       None \<Rightarrow> (Inl (V2AvlError.Overflow ''v2 payload arena length exceeds u64''), a)
     | Some off \<Rightarrow> (Inr off, a\<lparr>seq_payload := seq_payload a @ bytes\<rparr>))"

definition memory_push_node ::
  "V2AvlSequence \<Rightarrow> ArenaNode \<Rightarrow> (V2AvlError + u64) \<times> V2AvlSequence" where
  "memory_push_node a node =
    (case try_from width64 (length (seq_nodes a)) of
       None \<Rightarrow> (Inl (V2AvlError.Overflow ''v2 node arena length exceeds u64''), a)
     | Some node_id \<Rightarrow> (Inr node_id, a\<lparr>seq_nodes := seq_nodes a @ [node]\<rparr>))"

definition memory_truncate :: "V2AvlSequence \<Rightarrow> usize \<Rightarrow> usize \<Rightarrow> V2AvlSequence" where
  "memory_truncate a payload_len node_count =
     a\<lparr>seq_payload := take payload_len (seq_payload a), seq_nodes := take node_count (seq_nodes a)\<rparr>"

definition memory_arena :: "V2AvlSequence ArenaStore" where
  "memory_arena = \<lparr>arena_payload_len = \<lambda>a. length (seq_payload a),
     arena_node_count = \<lambda>a. length (seq_nodes a),
     arena_load_node = memory_load_node, arena_read_payload = payload_slice,
     arena_append_payload = memory_append_payload, arena_push_node = memory_push_node,
     arena_truncate = memory_truncate\<rparr>"

section \<open>Entry points\<close>

definition splice_seq ::
  "env \<Rightarrow> V2RootRecord option \<Rightarrow> u64 \<Rightarrow> u64 \<Rightarrow> byte list \<Rightarrow> (V2AvlSequence, V2AvlError, V2SpliceResult) prog"
where
  "splice_seq E parent off delete_len ins = splice_on E memory_arena parent off delete_len ins"

definition append_seq ::
  "env \<Rightarrow> V2RootRecord option \<Rightarrow> byte list \<Rightarrow> (V2AvlSequence, V2AvlError, V2AppendResult) prog" where
  "append_seq E parent bytes = append_on E memory_arena parent bytes"

definition read_range_counted ::
  "env \<Rightarrow> V2AvlSequence \<Rightarrow> V2RootRecord \<Rightarrow> u64 \<Rightarrow> u64 \<Rightarrow> (V2AvlError + byte list \<times> u64) option" where
  "read_range_counted E a root off len = read_range_counted_on E memory_arena a root off len"

definition read_range ::
  "env \<Rightarrow> V2AvlSequence \<Rightarrow> V2RootRecord \<Rightarrow> u64 \<Rightarrow> u64 \<Rightarrow> (V2AvlError + byte list) option" where
  "read_range E a root off len =
     map_option (map_sum id fst) (read_range_counted_on E memory_arena a root off len)"

definition verify_root_counted :: "env \<Rightarrow> V2AvlSequence \<Rightarrow> V2RootRecord \<Rightarrow> (V2AvlError + u64) option" where
  "verify_root_counted E a root = verify_root_counted_on E memory_arena a root"

definition verify_root :: "env \<Rightarrow> V2AvlSequence \<Rightarrow> V2RootRecord \<Rightarrow> (V2AvlError + unit) option" where
  "verify_root E a root = map_option (map_sum id (\<lambda>_. ())) (verify_root_counted_on E memory_arena a root)"

definition root_for_node_id :: "V2AvlSequence \<Rightarrow> u64 \<Rightarrow> V2AvlError + V2RootRecord" where
  "root_for_node_id a node_id = root_for_node_id_on memory_arena a node_id"

definition seq_is_empty :: "V2AvlSequence \<Rightarrow> bool" where
  "seq_is_empty a \<longleftrightarrow> seq_payload a = [] \<and> seq_nodes a = []"

definition export_image :: "env \<Rightarrow> V2AvlSequence \<Rightarrow> V2RootRecord list \<Rightarrow> V2AvlError + byte list" where
  "export_image E a roots =
    (if roots = [] then
       Inl (V2AvlError.Invalid ''v2 image export requires at least one retained root'')
     else
       bindR (traverse (node_for_root_on memory_arena a) roots) (\<lambda>_.
       map_err V2AvlError.Image (encode_v2_image E
         \<lparr>image_payload = seq_payload a, image_nodes = map node_record (seq_nodes a),
          image_roots = roots\<rparr>)))"

text \<open>One round of the import loop: the arena built so far and the next free payload offset.\<close>

definition import_leaf ::
  "env \<Rightarrow> V2AvlSequence \<times> u64 \<Rightarrow> V2NodeRecord \<Rightarrow> u64 \<Rightarrow> u64 \<Rightarrow> V2AvlError + V2AvlSequence \<times> u64" where
  "import_leaf E st rec payload_offset payload_len =
    (let (a, expected_payload_offset) = st in
     if payload_offset \<noteq> expected_payload_offset then
       Inl (V2AvlError.Invalid ''v2 image leaf payloads are not contiguous in allocation order'')
     else
       bindR (ok_or (V2AvlError.Overflow ''v2 image leaf payload range exceeds u64'')
         (checked_add width64 payload_offset payload_len)) (\<lambda>payload_end.
       bindR (payload_slice a payload_offset payload_end) (\<lambda>bytes.
       bindR (map_err V2AvlError.Format (V2NodeRecord_leaf E payload_offset bytes)) (\<lambda>expected.
       if expected \<noteq> rec then
         Inl (V2AvlError.Invalid ''v2 image leaf metadata or commitment verification failed'')
       else Inr (a\<lparr>seq_nodes := seq_nodes a @ [ArenaNode.Leaf payload_offset payload_len rec]\<rparr>,
                 payload_end)))))"

definition import_branch ::
  "env \<Rightarrow> V2AvlSequence \<times> u64 \<Rightarrow> u64 \<Rightarrow> V2NodeRecord \<Rightarrow> u64 \<Rightarrow> u64 \<Rightarrow> u64 \<Rightarrow>
   V2AvlError + V2AvlSequence \<times> u64" where
  "import_branch E st node_id rec left_node_id right_node_id left_len =
    (let (a, expected_payload_offset) = st in
     if left_node_id \<ge> node_id \<or> right_node_id \<ge> node_id then
       Inl (V2AvlError.Invalid ''v2 image branch child must reference an earlier arena node'')
     else
       bindR (root_for_node_id a left_node_id) (\<lambda>left.
       bindR (root_for_node_id a right_node_id) (\<lambda>right.
       if root_len left \<noteq> left_len then
         Inl (V2AvlError.Invalid ''v2 image branch left length disagrees with its child'')
       else
         bindR (map_err V2AvlError.Format (V2NodeRecord_branch E left right)) (\<lambda>expected.
         if expected \<noteq> rec then
           Inl (V2AvlError.Invalid ''v2 image branch metadata or commitment verification failed'')
         else Inr (a\<lparr>seq_nodes := seq_nodes a @ [ArenaNode.Branch left right rec]\<rparr>,
                   expected_payload_offset)))))"

fun import_nodes ::
  "env \<Rightarrow> V2AvlSequence \<times> u64 \<Rightarrow> nat \<Rightarrow> V2NodeRecord list \<Rightarrow> V2AvlError + V2AvlSequence \<times> u64" where
  "import_nodes E st index [] = Inr st"
| "import_nodes E st index (rec # records) =
     bindR (ok_or (V2AvlError.Overflow ''v2 image node index exceeds u64'') (try_from width64 index)) (\<lambda>node_id.
     bindR (map_err V2AvlError.Image (v2_node_fields rec)) (\<lambda>fields.
     bindR (case fields of
              V2NodeFields.Leaf payload_offset payload_len \<Rightarrow> import_leaf E st rec payload_offset payload_len
            | V2NodeFields.Branch left_node_id right_node_id left_len \<Rightarrow>
                import_branch E st node_id rec left_node_id right_node_id left_len) (\<lambda>st.
     import_nodes E st (index + 1) records)))"

definition import_image :: "env \<Rightarrow> byte list \<Rightarrow> V2AvlError + V2AvlSequence \<times> V2RootRecord list" where
  "import_image E bytes =
     bindR (map_err V2AvlError.Image (decode_v2_image E bytes)) (\<lambda>img.
     bindR (import_nodes E (\<lparr>seq_payload = image_payload img, seq_nodes = []\<rparr>, 0) 0 (image_nodes img)) (\<lambda>(a, expected).
     bindR (ok_or (V2AvlError.Overflow ''v2 image payload length exceeds u64'')
       (try_from width64 (length (seq_payload a)))) (\<lambda>payload_len.
     if expected \<noteq> payload_len then
       Inl (V2AvlError.Invalid ''v2 image contains payload bytes not owned by canonical leaves'')
     else
       bindR (traverse (node_for_root_on memory_arena a) (image_roots img)) (\<lambda>_.
       Inr (a, image_roots img)))))"

section \<open>The contract holds\<close>

definition memory_good :: "V2AvlSequence \<Rightarrow> bool" where
  "memory_good a \<longleftrightarrow> (\<forall>n\<in>set (seq_nodes a). case n of
     ArenaNode.Branch l r _ \<Rightarrow> root_node_id l < width64 \<and> root_node_id r < width64
   | ArenaNode.Leaf _ _ _ \<Rightarrow> True)"

definition memory_ext :: "V2AvlSequence \<Rightarrow> V2AvlSequence \<Rightarrow> bool" where
  "memory_ext a b \<longleftrightarrow> extends (seq_payload a) (seq_payload b) \<and> extends (seq_nodes a) (seq_nodes b)"

lemma memory_arena_simps [simp]:
  "arena_payload_len memory_arena a = length (seq_payload a)"
  "arena_node_count memory_arena a = length (seq_nodes a)"
  "arena_load_node memory_arena = memory_load_node"
  "arena_read_payload memory_arena = payload_slice"
  "arena_append_payload memory_arena = memory_append_payload"
  "arena_push_node memory_arena = memory_push_node"
  "arena_truncate memory_arena = memory_truncate"
  by (simp_all add: memory_arena_def)

lemma storable_children_u64:
  "storable E pl ns (ArenaNode.Branch l r rec) \<Longrightarrow> root_node_id l < width64 \<and> root_node_id r < width64"
  by (auto dest!: rep_metadata none_node_width)

interpretation mem: arena_store E memory_arena seq_payload seq_nodes memory_good memory_ext "{}" "{}" for E
proof unfold_locales
  fix a l r rec
  assume "memory_good a" "ArenaNode.Branch l r rec \<in> set (seq_nodes a)"
  then show "root_node_id l < width64 \<and> root_node_id r < width64"
    by (auto simp: memory_good_def)
next
  fix a n i a'
  assume g: "memory_good a" and st: "storable E (seq_payload a) (seq_nodes a) n"
    and lt: "length (seq_nodes a) < V2_NONE_NODE" and p: "arena_push_node memory_arena a n = (Inr i, a')"
  have "length (seq_nodes a) < width64"
    using lt none_node_width by blast
  then have a': "a' = a\<lparr>seq_nodes := seq_nodes a @ [n]\<rparr>" "i = length (seq_nodes a)"
    using p by (auto simp: memory_push_node_def try_from_def)
  have "memory_good a'"
    using g st storable_children_u64 by (cases n) (auto simp: a' memory_good_def)
  then show "memory_good a' \<and> memory_ext a a' \<and> i = length (seq_nodes a) \<and>
      seq_nodes a' = seq_nodes a @ [n] \<and> seq_payload a' = seq_payload a"
    by (simp add: a' memory_ext_def)
next
  fix a b
  assume "memory_good a" "memory_ext a b"
  then show "memory_good (arena_truncate memory_arena b (length (seq_payload a)) (length (seq_nodes a))) \<and>
    seq_payload (arena_truncate memory_arena b (length (seq_payload a)) (length (seq_nodes a))) = seq_payload a \<and>
    seq_nodes (arena_truncate memory_arena b (length (seq_payload a)) (length (seq_nodes a))) = seq_nodes a"
    by (auto simp: memory_truncate_def memory_ext_def extends_take memory_good_def)
qed (auto simp: memory_load_node_def payload_slice_def memory_append_payload_def memory_push_node_def
    try_from_def memory_good_def memory_ext_def result_iffs slice_get_Some_iff V2_NONE_NODE_def
    intro: extends_trans split: option.splits if_splits)


section \<open>The arena invariant\<close>

fun leaf_bytes :: "ArenaNode \<Rightarrow> nat" where
  "leaf_bytes (ArenaNode.Leaf _ len _) = len"
| "leaf_bytes (ArenaNode.Branch _ _ _) = 0"

definition covered :: "ArenaNode list \<Rightarrow> nat" where
  "covered ns = sum_list (map leaf_bytes ns)"

definition child_ok :: "ArenaNode list \<Rightarrow> V2RootRecord \<Rightarrow> bool" where
  "child_ok ns root \<longleftrightarrow> (\<exists>n. get_at ns (root_node_id root) = Some n \<and>
     V2RootRecord_from_node (root_node_id root) (node_record n) = Inr root \<and>
     root_node_id root < V2_NONE_NODE)"

text \<open>\<open>node_ok E pl ns n\<close>: \<open>n\<close> may stand right after the nodes \<open>ns\<close>.\<close>

fun node_ok :: "env \<Rightarrow> byte list \<Rightarrow> ArenaNode list \<Rightarrow> ArenaNode \<Rightarrow> bool" where
  "node_ok E pl ns (ArenaNode.Leaf off len rec) \<longleftrightarrow> off = covered ns \<and>
     (\<exists>bs. slice_get pl off (off + len) = Some bs \<and> V2NodeRecord_leaf E off bs = Inr rec)"
| "node_ok E pl ns (ArenaNode.Branch l r rec) \<longleftrightarrow>
     child_ok ns l \<and> child_ok ns r \<and> V2NodeRecord_branch E l r = Inr rec"

definition nodes_ok :: "env \<Rightarrow> byte list \<Rightarrow> ArenaNode list \<Rightarrow> bool" where
  "nodes_ok E pl ns \<longleftrightarrow> (\<forall>i<length ns. node_ok E pl (take i ns) (ns ! i))"

definition arena_wf :: "env \<Rightarrow> V2AvlSequence \<Rightarrow> bool" where
  "arena_wf E a \<longleftrightarrow> nodes_ok E (seq_payload a) (seq_nodes a) \<and>
     covered (seq_nodes a) = length (seq_payload a)"

definition empty_seq :: V2AvlSequence where
  "empty_seq = \<lparr>seq_payload = [], seq_nodes = []\<rparr>"

lemma covered_simps [simp]:
  "covered [] = 0" "covered (ns @ ms) = covered ns + covered ms" "covered [n] = leaf_bytes n"
  by (simp_all add: covered_def)

lemma empty_wf: "arena_wf E empty_seq"
  by (simp add: arena_wf_def nodes_ok_def empty_seq_def)

lemma nodes_ok_snoc:
  "nodes_ok E pl (ns @ [n]) \<longleftrightarrow> nodes_ok E pl ns \<and> node_ok E pl ns n"
  by (auto simp: nodes_ok_def nth_append less_Suc_eq)

lemma node_ok_extends: "node_ok E pl ns n \<Longrightarrow> extends pl pl' \<Longrightarrow> node_ok E pl' ns n"
  by (cases n) (auto dest: slice_get_extends)

lemma nodes_ok_extends: "nodes_ok E pl ns \<Longrightarrow> extends pl pl' \<Longrightarrow> nodes_ok E pl' ns"
  by (auto simp: nodes_ok_def intro: node_ok_extends)

lemma child_ok_prefix: "child_ok (take i ns) r \<Longrightarrow> child_ok ns r"
  by (auto simp: child_ok_def get_at_Some_iff)

lemma nodes_ok_rep:
  assumes "nodes_ok E pl ns" and "child_ok ns root"
  shows "\<exists>t. rep E pl ns root t"
  using assms(2)
proof (induction "root_node_id root" arbitrary: root rule: less_induct)
  case less
  let ?i = "root_node_id root"
  from less.prems obtain n where n: "get_at ns ?i = Some n" "?i < length ns" "n = ns ! ?i"
    "V2RootRecord_from_node ?i (node_record n) = Inr root" "?i < V2_NONE_NODE"
    by (auto simp: child_ok_def get_at_Some_iff)
  have ok: "node_ok E pl (take ?i ns) n"
    using assms(1) n by (simp add: nodes_ok_def)
  show ?case
  proof (cases n)
    case (Leaf off len rec)
    with ok obtain bs where bs: "slice_get pl off (off + len) = Some bs" "V2NodeRecord_leaf E off bs = Inr rec"
      by auto
    then have "len = length bs"
      by (auto dest: slice_get_length)
    with bs n(1,4,5) Leaf show ?thesis
      by (intro exI [of _ "Lf bs"]) auto
  next
    case (Branch l r rec)
    have lt: "root_node_id x < ?i" "child_ok ns x" if "child_ok (take ?i ns) x" for x
      using that by (auto simp: child_ok_def get_at_Some_iff intro: child_ok_prefix [OF that])
    from ok Branch have "child_ok (take ?i ns) l" "child_ok (take ?i ns) r" "V2NodeRecord_branch E l r = Inr rec"
      by auto
    with less.hyps lt obtain tl' tr' where "rep E pl ns l tl'" "rep E pl ns r tr'"
      by metis
    with n(1,4,5) Branch \<open>V2NodeRecord_branch E l r = Inr rec\<close> show ?thesis
      by (intro exI [of _ "Br tl' tr'"]) auto
  qed
qed

lemma node_for_root_ok_iff:
  "node_for_root_on memory_arena a root = Inr n \<longleftrightarrow> root_node_id root < V2_NONE_NODE \<and>
     get_at (seq_nodes a) (root_node_id root) = Some n \<and>
     V2RootRecord_from_node (root_node_id root) (node_record n) = Inr root"
  by (auto simp: node_for_root_on_def memory_load_node_def result_iffs checked_iffs none_node_width
      none_node_less dest: from_node_fields split: if_splits)

lemma resolves_iff_child_ok: "is_ok (node_for_root_on memory_arena a root) \<longleftrightarrow> child_ok (seq_nodes a) root"
  unfolding is_ok_iff node_for_root_ok_iff child_ok_def by blast

lemma wf_good: "arena_wf E a \<Longrightarrow> memory_good a"
proof -
  assume wf: "arena_wf E a"
  have "case n of ArenaNode.Branch l r _ \<Rightarrow> root_node_id l < width64 \<and> root_node_id r < width64
      | ArenaNode.Leaf _ _ _ \<Rightarrow> True" if mem: "n \<in> set (seq_nodes a)" for n
  proof -
    obtain i where "i < length (seq_nodes a)" "n = seq_nodes a ! i"
      using mem unfolding in_set_conv_nth by blast
    then have "node_ok E (seq_payload a) (take i (seq_nodes a)) n"
      using wf unfolding arena_wf_def nodes_ok_def by blast
    then show ?thesis
      by (cases n) (auto simp: child_ok_def none_node_width)
  qed
  then show ?thesis
    by (simp add: memory_good_def)
qed

lemma rep_child_ok: "rep E pl ns root t \<Longrightarrow> child_ok ns root"
  by (cases t) (auto simp: child_ok_def)

lemma wf_resolves_iff:
  "arena_wf E a \<Longrightarrow> is_ok (node_for_root_on memory_arena a root) \<longleftrightarrow>
     (\<exists>t. rep E (seq_payload a) (seq_nodes a) root t)"
  unfolding resolves_iff_child_ok arena_wf_def by (blast intro: nodes_ok_rep rep_child_ok)


subsection \<open>What every edit respects\<close>

lemma allocate_node_cases:
  assumes "allocate_node_on memory_arena n s = Some (r, s')"
  obtains (Err) e where "r = Inl e" "s' = s"
    | (Ok) root where "r = Inr root" "s' = ((fst s)\<lparr>seq_nodes := seq_nodes (fst s) @ [n]\<rparr>, snd s)"
proof (cases "length (seq_nodes (fst s)) < width64")
  case True
  with assms show ?thesis
    by (cases "V2RootRecord_from_node (length (seq_nodes (fst s))) (node_record n)")
      (auto simp: allocate_node_on_def viewP_def mutP_def bindP_def try_from_def memory_push_node_def
        intro: that)
next
  case False
  with assms show ?thesis
    by (auto simp: allocate_node_on_def viewP_def bindP_def try_from_def intro: that)
qed

lemma allocate_leaf_cases:
  assumes "allocate_leaf_on E memory_arena bytes s = Some (r, s')"
  obtains (Err) e where "r = Inl e" "memory_ext (fst s) (fst s')"
    | (Ok) root rec where "r = Inr root" "V2NodeRecord_leaf E (length (seq_payload (fst s))) bytes = Inr rec"
      "fst s' = (fst s)\<lparr>seq_payload := seq_payload (fst s) @ bytes,
        seq_nodes := seq_nodes (fst s) @ [ArenaNode.Leaf (length (seq_payload (fst s))) (length bytes) rec]\<rparr>"
proof (cases "length (seq_payload (fst s)) < width64")
  case False
  with assms show ?thesis
    by (auto simp: allocate_leaf_on_def viewP_def bindP_def try_from_def memory_ext_def intro!: that(1))
next
  case True
  let ?p = "length (seq_payload (fst s))"
  show ?thesis
  proof (cases "V2NodeRecord_leaf E ?p bytes")
    case (Inl e)
    with True assms show ?thesis
      by (auto simp: allocate_leaf_on_def viewP_def bindP_def try_from_def memory_ext_def intro!: that(1))
  next
    case (Inr rec)
    then have len: "node_len rec = length bytes"
      by (auto simp: leaf_ok_iff)
    let ?s1 = "((fst s)\<lparr>seq_payload := seq_payload (fst s) @ bytes\<rparr>, snd s)"
    have "allocate_node_on memory_arena (ArenaNode.Leaf ?p (length bytes) rec) ?s1 = Some (r, s')"
      using assms True Inr len
      by (auto simp: allocate_leaf_on_def viewP_def mutP_def bindP_def try_from_def memory_append_payload_def)
    then show ?thesis
      by (cases rule: allocate_node_cases) (use Inr in \<open>auto simp: memory_ext_def intro: that\<close>)
  qed
qed

lemma allocate_branch_cases:
  assumes "allocate_branch_on E memory_arena x y s = Some (r, s')"
  obtains (Err) e where "r = Inl e" "fst s' = fst s"
    | (Ok) root rec where "r = Inr root" "V2NodeRecord_branch E x y = Inr rec"
      "child_ok (seq_nodes (fst s)) x" "child_ok (seq_nodes (fst s)) y"
      "fst s' = (fst s)\<lparr>seq_nodes := seq_nodes (fst s) @ [ArenaNode.Branch x y rec]\<rparr>"
proof (cases "node_for_root_on memory_arena (fst s) x")
  case (Inl e)
  with assms show ?thesis
    by (auto simp: allocate_branch_on_def bump_def viewP_def bindP_def intro: that(1))
next
  case x: (Inr nx)
  show ?thesis
  proof (cases "node_for_root_on memory_arena (fst s) y")
    case (Inl e)
    with x assms show ?thesis
      by (auto simp: allocate_branch_on_def bump_def viewP_def bindP_def intro: that(1))
  next
    case y: (Inr ny)
    have ok: "child_ok (seq_nodes (fst s)) x" "child_ok (seq_nodes (fst s)) y"
      using x y by (simp_all add: resolves_iff_child_ok [symmetric])
    show ?thesis
    proof (cases "V2NodeRecord_branch E x y")
      case (Inl e)
      with x y assms show ?thesis
        by (auto simp: allocate_branch_on_def bump_def viewP_def bindP_def intro: that(1))
    next
      case (Inr rec)
      let ?s1 = "(fst s, saturating_add width64 (snd s) 2)"
      have "allocate_node_on memory_arena (ArenaNode.Branch x y rec) ?s1 = Some (r, s')"
        using assms x y Inr by (simp add: allocate_branch_on_def bump_def viewP_def bindP_def)
      then show ?thesis
        by (cases rule: allocate_node_cases) (use Inr ok in \<open>auto intro: that\<close>)
    qed
  qed
qed

interpretation ext_frame: arena_relation E memory_arena "\<lambda>_. memory_ext" for E
proof unfold_locales
  show "memory_ext (fst s) (fst s')" if "allocate_leaf_on E memory_arena bytes s = Some (r, s')"
    for bytes s s' and r :: "V2AvlError + V2RootRecord"
    using that by (cases rule: allocate_leaf_cases) (auto simp: memory_ext_def)
  show "memory_ext (fst s) (fst s')" if "allocate_branch_on E memory_arena x y s = Some (r, s')"
    for x y s s' and r :: "V2AvlError + V2RootRecord"
    using that by (cases rule: allocate_branch_cases) (auto simp: memory_ext_def)
qed (auto simp: memory_ext_def intro: extends_trans)

interpretation wf_frame: arena_relation E memory_arena "\<lambda>ok a b. ok \<longrightarrow> arena_wf E a \<longrightarrow> arena_wf E b" for E
proof unfold_locales
  show "is_ok r \<longrightarrow> arena_wf E (fst s) \<longrightarrow> arena_wf E (fst s')"
    if "allocate_leaf_on E memory_arena bytes s = Some (r, s')"
    for bytes s s' and r :: "V2AvlError + V2RootRecord"
    using that
  proof (cases rule: allocate_leaf_cases)
    case (Ok root rec)
    then show ?thesis
      using nodes_ok_extends [of E "seq_payload (fst s)" "seq_nodes (fst s)" "seq_payload (fst s) @ bytes"]
      by (auto simp: arena_wf_def nodes_ok_snoc slice_get_suffix)
  qed simp
  show "is_ok r \<longrightarrow> arena_wf E (fst s) \<longrightarrow> arena_wf E (fst s')"
    if "allocate_branch_on E memory_arena x y s = Some (r, s')"
    for x y s s' and r :: "V2AvlError + V2RootRecord"
    using that by (cases rule: allocate_branch_cases) (auto simp: arena_wf_def nodes_ok_snoc)
qed auto

lemma splice_run_cases:
  assumes "splice_seq E parent off del ins a = Some (r, a')"
  obtains (Rejected) e where "splice_checks E memory_arena a parent off del ins = Inl e" "r = Inl e" "a' = a"
    | (Failed) e b k where "splice_checks E memory_arena a parent off del ins = Inr ()"
        "splice_inner_on E memory_arena parent off del ins (a, 0) = Some (Inl e, (b, k))" "r = Inl e"
        "a' = memory_truncate b (length (seq_payload a)) (length (seq_nodes a))"
    | (Done) root k where "splice_checks E memory_arena a parent off del ins = Inr ()"
        "splice_inner_on E memory_arena parent off del ins (a, 0) = Some (Inr root, (a', k))"
        "r = Inr \<lparr>splice_root = root, splice_allocated_nodes = length (seq_nodes a') - length (seq_nodes a),
           splice_inspected_nodes = k,
           splice_payload_bytes_allocated = length (seq_payload a') - length (seq_payload a)\<rparr>"
  using assms unfolding splice_seq_def splice_on_def
  by (auto simp: Let_def split: sum.splits option.splits prod.splits intro: that)

lemma truncate_ext: "memory_ext a b \<Longrightarrow> memory_truncate b (length (seq_payload a)) (length (seq_nodes a)) = a"
  by (simp add: memory_truncate_def memory_ext_def extends_take)

lemma splice_frame:
  assumes "splice_seq E parent off del ins a = Some (r, a')"
  shows "memory_ext a a' \<and> (arena_wf E a \<longrightarrow> arena_wf E a') \<and> (\<forall>e. r = Inl e \<longrightarrow> a' = a)"
  using assms
proof (cases rule: splice_run_cases)
  case (Failed e b k)
  have "memory_ext a b"
    using ext_frame.framedD [OF ext_frame.framed_splice_inner Failed(2)]
    by (simp add: ext_frame.framed_at_def)
  then show ?thesis
    using Failed by (simp add: truncate_ext memory_ext_def)
next
  case (Done root k)
  show ?thesis
    using ext_frame.framedD [OF ext_frame.framed_splice_inner Done(2)]
      wf_frame.framedD [OF wf_frame.framed_splice_inner Done(2)] Done(3)
    by (simp add: ext_frame.framed_at_def wf_frame.framed_at_def)
qed (simp add: memory_ext_def)


section \<open>Reads, splices and verification over a well-formed arena\<close>

lemma read_range_rep:
  assumes "memory_good a" "rep E (seq_payload a) (seq_nodes a) root t" "off + len \<le> tlen t"
  shows "read_range E a root off len = Some (Inr (take len (drop off (content t))))"
  using mem.read_range_correct [OF assms] by (auto simp: read_range_def)

lemma read_range_rep_exact:
  assumes g: "memory_good a" and t: "rep E (seq_payload a) (seq_nodes a) root t"
  shows "read_range E a root off len = Some
    (if width64 \<le> off + len then Inl (V2AvlError.Overflow ''v2 range end exceeds u64'')
     else if tlen t < off + len then Inl (V2AvlError.Invalid ''v2 range exceeds root logical length'')
     else Inr (take len (drop off (content t))))"
proof (cases "off + len \<le> tlen t \<and> off + len < width64")
  case True
  then show ?thesis
    using read_range_rep [OF g t, of off len] by simp
next
  case False
  obtain n where "node_for_root_on memory_arena a root = Inr n"
    using rep_child_ok [OF t] by (auto simp: is_ok_iff resolves_iff_child_ok [symmetric])
  then show ?thesis
    using False fits_len rep_metadata [OF t]
    by (auto simp: read_range_def read_range_counted_on_def checked_add_def)
qed

lemma read_range_resolves:
  "read_range E a root off len = Some (Inr bs) \<Longrightarrow> is_ok (node_for_root_on memory_arena a root)"
  by (cases "node_for_root_on memory_arena a root")
    (auto simp: read_range_def read_range_counted_on_def)

lemma read_range_bound:
  assumes "read_range E a root off len = Some (Inr bs)"
  shows "off + len \<le> root_len root"
proof (rule ccontr)
  assume "\<not> ?thesis"
  with assms show False
    by (cases "node_for_root_on memory_arena a root"; cases "off + len < width64")
      (auto simp: read_range_def read_range_counted_on_def checked_add_def)
qed

lemma read_ok_rep:
  assumes "arena_wf E a" "read_range E a root off len = Some (Inr bs)"
  obtains t where "rep E (seq_payload a) (seq_nodes a) root t" "off + len \<le> tlen t"
    "bs = take len (drop off (content t))"
proof -
  obtain t where t: "rep E (seq_payload a) (seq_nodes a) root t"
    using read_range_resolves [OF assms(2)] wf_resolves_iff [OF assms(1)] by blast
  have le: "off + len \<le> tlen t"
    using read_range_bound [OF assms(2)] rep_metadata [OF t] by simp
  show thesis
    using read_range_rep [OF wf_good [OF assms(1)] t le] assms(2) t le that by simp
qed

text \<open>The bytes of an optional parent: the empty string when a root is created.\<close>

definition source_of :: "env \<Rightarrow> V2AvlSequence \<Rightarrow> V2RootRecord option \<Rightarrow> byte list \<Rightarrow> bool" where
  "source_of E a parent src \<longleftrightarrow> (case parent of
     None \<Rightarrow> src = []
   | Some root \<Rightarrow> read_range E a root 0 (root_len root) = Some (Inr src))"

lemma source_rep:
  assumes "arena_wf E a" "source_of E a parent src"
  obtains pt where "rel_option (rep E (seq_payload a) (seq_nodes a)) parent pt" "ocontent pt = src"
proof (cases parent)
  case None
  with assms that [of None] show ?thesis
    by (simp add: source_of_def)
next
  case (Some root)
  with assms have rd: "read_range E a root 0 (root_len root) = Some (Inr src)"
    by (simp add: source_of_def)
  obtain t where t: "rep E (seq_payload a) (seq_nodes a) root t" "src = take (root_len root) (content t)"
    by (rule read_ok_rep [OF assms(1) rd]) simp
  have "src = content t"
    using t rep_metadata [OF t(1)] by (simp add: tlen_def)
  with t Some that [of "Some t"] show ?thesis
    by simp
qed

definition edit_allowed :: "V2RootRecord option \<Rightarrow> byte list \<Rightarrow> nat \<Rightarrow> nat \<Rightarrow> byte list \<Rightarrow> bool" where
  "edit_allowed parent src off del ins \<longleftrightarrow> off + del \<le> length src \<and>
     length src - del + length ins < width64 \<and> edit src off del ins \<noteq> [] \<and>
     (parent = None \<or> del \<noteq> 0 \<or> ins \<noteq> [])"

lemma edit_allowed_fits:
  "edit_allowed parent (ocontent pt) off del ins \<Longrightarrow> mem.edit_fits pt off del ins"
  using length_edit [of off del "ocontent pt" ins]
  by (simp add: edit_allowed_def mem.edit_fits_def length_greater_0_conv [symmetric] del: length_greater_0_conv)
    linarith

lemma splice_outcome:
  assumes wf: "arena_wf E a" and src: "source_of E a parent src"
    and ok: "edit_allowed parent src off del ins"
  shows "(\<exists>e. splice_seq E parent off del ins a = Some (Inl e, a) \<and>
      e \<in> refused E \<union> node_table_full \<union> payload_table_full) \<or>
    (\<exists>res a' t. splice_seq E parent off del ins a = Some (Inr res, a') \<and>
      rep E (seq_payload a') (seq_nodes a') (splice_root res) t \<and> content t = edit src off del ins)"
proof -
  obtain pt where pt: "rel_option (rep E (seq_payload a) (seq_nodes a)) parent pt" "ocontent pt = src"
    by (rule source_rep [OF wf src])
  have "(\<exists>x a'. splice_seq E parent off del ins a = Some (Inl x, a') \<and>
      x \<in> {} \<union> {} \<union> refused E \<union> node_table_full \<union> payload_table_full) \<or>
    (\<exists>res a' t. splice_seq E parent off del ins a = Some (Inr res, a') \<and>
      content t = edit (ocontent pt) off del ins \<and>
      rep E (seq_payload a') (seq_nodes a') (splice_root res) t)"
    using mem.splice_on_correct [OF wf_good [OF wf] pt(1) edit_allowed_fits [of parent]] ok
    unfolding pt(2) splice_seq_def edit_allowed_def by blast
  then show ?thesis
    using splice_frame [of E parent off del ins a] pt(2) by fastforce
qed


text \<open>What the entry checks answer, as a function of the operands' lengths alone.\<close>

definition splice_verdict :: "nat option \<Rightarrow> nat \<Rightarrow> nat \<Rightarrow> nat \<Rightarrow> V2AvlError + unit" where
  "splice_verdict parent_len off del ins_len =
    (let source_len = (case parent_len of None \<Rightarrow> 0 | Some n \<Rightarrow> n) in
     if source_len < off then Inl (V2AvlError.Invalid ''v2 sequence splice offset exceeds parent length'')
     else if source_len - off < del then
       Inl (V2AvlError.Invalid ''v2 sequence splice delete range exceeds parent length'')
     else if width64 \<le> ins_len then Inl (V2AvlError.Overflow ''v2 sequence insert length exceeds u64'')
     else if width64 \<le> source_len - del + ins_len then
       Inl (V2AvlError.Overflow ''v2 sequence splice result length exceeds u64'')
     else if parent_len = None \<and> ins_len = 0 then
       Inl (V2AvlError.Invalid ''v2 sequence root creation requires non-empty insert'')
     else if parent_len \<noteq> None \<and> del = 0 \<and> ins_len = 0 then
       Inl (V2AvlError.Invalid ''v2 sequence splice without effect is rejected'')
     else if source_len - del + ins_len = 0 then
       Inl (V2AvlError.Invalid ''v2 sequence splice result must be non-empty'')
     else Inr ())"

lemma wf_validates:
  assumes "arena_wf E a" "node_for_root_on memory_arena a root = Inr n"
  shows "validate_node_on E memory_arena a n = Inr ()"
proof -
  obtain t where t: "rep E (seq_payload a) (seq_nodes a) root t"
    using assms wf_resolves_iff [OF assms(1), of root] by (auto simp: is_ok_iff)
  have "get_at (seq_nodes a) (root_node_id root) = Some n"
    using assms(2) by (simp add: node_for_root_ok_iff)
  with mem.validate_total [OF wf_good [OF assms(1)] t] show ?thesis
    by auto
qed

lemma splice_checks_root:
  assumes "arena_wf E a" "node_for_root_on memory_arena a root = Inr n"
  shows "splice_checks E memory_arena a (Some root) off del ins =
    splice_verdict (Some (root_len root)) off del (length ins)"
  using wf_validates [OF assms] assms(2)
  by (simp add: splice_checks_def splice_verdict_def try_from_def checked_add_def Let_def)

lemma splice_checks_create:
  "splice_checks E memory_arena a None off del ins = splice_verdict None off del (length ins)"
  by (simp add: splice_checks_def splice_verdict_def try_from_def checked_add_def Let_def)

lemma splice_rejected: "splice_checks E memory_arena a parent off del ins = Inl e \<Longrightarrow>
    splice_seq E parent off del ins a = Some (Inl e, a)"
  by (simp add: splice_seq_def splice_on_def)

lemma verdict_ok_iff:
  "splice_verdict pl off del n = Inr () \<longleftrightarrow> (let s = (case pl of None \<Rightarrow> 0 | Some k \<Rightarrow> k) in
     off \<le> s \<and> del \<le> s - off \<and> n < width64 \<and> s - del + n < width64 \<and> (pl = None \<longrightarrow> n \<noteq> 0) \<and>
     (pl \<noteq> None \<longrightarrow> del \<noteq> 0 \<or> n \<noteq> 0) \<and> s - del + n \<noteq> 0)"
proof -
  have guard: "(if c then Inl x else r) = Inr u \<longleftrightarrow> \<not> c \<and> r = Inr u" for c x u and r :: "V2AvlError + unit"
    by simp
  show ?thesis
    unfolding splice_verdict_def Let_def guard not_less not_le by fast
qed

lemma verdict_ok_allowed:
  assumes "splice_verdict (map_option root_len parent) off del (length ins) = Inr ()"
    and len: "length src = (case parent of None \<Rightarrow> 0 | Some r \<Rightarrow> root_len r)"
  shows "edit_allowed parent src off del ins"
proof -
  have s: "(case map_option root_len parent of None \<Rightarrow> 0 | Some k \<Rightarrow> k) = length src"
    by (cases parent) (simp_all add: len)
  have *: "off \<le> length src" "del \<le> length src - off" "length src - del + length ins < width64"
    "length src - del + length ins \<noteq> 0" "parent = None \<or> del \<noteq> 0 \<or> ins \<noteq> []"
    using assms(1) unfolding verdict_ok_iff Let_def s by auto
  then have "length (edit src off del ins) \<noteq> 0"
    by (subst length_edit) linarith+
  with * show ?thesis
    by (simp add: edit_allowed_def)
qed

lemma wf_source:
  assumes "arena_wf E a" "is_ok (node_for_root_on memory_arena a root)"
  obtains src where "read_range E a root 0 (root_len root) = Some (Inr src)" "length src = root_len root"
proof -
  obtain t where t: "rep E (seq_payload a) (seq_nodes a) root t"
    using assms wf_resolves_iff by blast
  have len: "root_len root = tlen t"
    using rep_metadata [OF t] by simp
  show thesis
    using read_range_rep [OF wf_good [OF assms(1)] t, of 0 "tlen t"] that len by (simp add: tlen_def)
qed

lemma splice_source:
  assumes wf: "arena_wf E a" and ok: "splice_checks E memory_arena a parent off del ins = Inr ()"
  obtains src where "source_of E a parent src" "edit_allowed parent src off del ins"
proof (cases parent)
  case None
  then show thesis
    using ok verdict_ok_allowed [of None off del ins "[]"] that [of "[]"]
    by (auto simp: source_of_def splice_checks_create)
next
  case (Some root)
  with ok have "is_ok (node_for_root_on memory_arena a root)"
    by (cases "node_for_root_on memory_arena a root") (auto simp: splice_checks_def)
  then obtain src n where "read_range E a root 0 (root_len root) = Some (Inr src)"
    "length src = root_len root" "node_for_root_on memory_arena a root = Inr n"
    using wf by (metis is_ok_iff wf_source)
  with ok Some show thesis
    using verdict_ok_allowed [of "Some root" off del ins src] splice_checks_root [OF wf] that [of src]
    by (auto simp: source_of_def)
qed

lemma splice_defined:
  assumes wf: "arena_wf E a"
  shows "\<exists>y. splice_seq E parent off del ins a = Some y"
proof (cases "splice_checks E memory_arena a parent off del ins")
  case (Inl e)
  then show ?thesis
    by (simp add: splice_rejected)
next
  case (Inr u)
  then obtain src where "source_of E a parent src" "edit_allowed parent src off del ins"
    using splice_source [OF wf, of parent off del ins] by auto
  then show ?thesis
    using splice_outcome [OF wf] by blast
qed

lemma splice_root_resolves:
  assumes wf: "arena_wf E a" and run: "splice_seq E parent off del ins a = Some (Inr res, a')"
  shows "child_ok (seq_nodes a') (splice_root res)"
proof -
  have "splice_checks E memory_arena a parent off del ins = Inr ()"
    using run by (cases rule: splice_run_cases) auto
  then obtain src where src: "source_of E a parent src" "edit_allowed parent src off del ins"
    using splice_source [OF wf] by blast
  obtain t where "rep E (seq_payload a') (seq_nodes a') (splice_root res) t"
    using splice_outcome [OF wf src] run by auto
  then show ?thesis
    by (rule rep_child_ok)
qed


section \<open>Images\<close>

lemma child_ok_root_for_node:
  "child_ok ns r \<Longrightarrow> root_for_node_id \<lparr>seq_payload = pl, seq_nodes = ns\<rparr> (root_node_id r) = Inr r"
  by (auto simp: child_ok_def root_for_node_id_def root_for_node_id_on_def memory_load_node_def
      try_from_def none_node_width)

lemma node_ok_canonical:
  assumes "sha_ok E" "node_ok E pl ns n"
  shows "node_canonical (node_record n)"
proof (cases n)
  case (Leaf off len rec)
  with assms show ?thesis
    by (auto intro: leaf_canonical)
next
  case (Branch l r rec)
  with assms show ?thesis
    by (auto simp: child_ok_def intro!: branch_canonical dest: none_node_width)
qed

lemma import_node_ok:
  assumes ok: "node_ok E pl ns n" and w: "length ns < width64" "length pl < width64"
  shows "(case fields_of_body (node_body (node_record n)) of
      V2NodeFields.Leaf o' l \<Rightarrow> import_leaf E (\<lparr>seq_payload = pl, seq_nodes = ns\<rparr>, covered ns) (node_record n) o' l
    | V2NodeFields.Branch l r ll \<Rightarrow>
        import_branch E (\<lparr>seq_payload = pl, seq_nodes = ns\<rparr>, covered ns) (length ns) (node_record n) l r ll) =
    Inr (\<lparr>seq_payload = pl, seq_nodes = ns @ [n]\<rparr>, covered (ns @ [n]))"
proof (cases n)
  case (Leaf off len rec)
  with ok obtain bs where bs: "slice_get pl off (off + len) = Some bs" "V2NodeRecord_leaf E off bs = Inr rec"
    "off = covered ns"
    by auto
  have len: "len = length bs" and le: "off + len \<le> length pl"
    using bs(1) by (auto dest: slice_get_length simp: slice_get_Some_iff)
  have body: "node_body rec = V2NodeBody.Leaf off len"
    using bs(2) len by (auto simp: leaf_ok_iff)
  show ?thesis
    using bs le w(2) by (simp add: Leaf body import_leaf_def checked_add_def payload_slice_def try_from_def)
next
  case (Branch l r rec)
  with ok have c: "child_ok ns l" "child_ok ns r" and rec: "V2NodeRecord_branch E l r = Inr rec"
    by auto
  have body: "node_body rec = V2NodeBody.Branch (root_node_id l) (root_node_id r) (root_len l)"
    using rec by (auto simp: branch_ok_iff)
  have "root_node_id l < length ns" "root_node_id r < length ns"
    using c by (auto simp: child_ok_def get_at_Some_iff)
  then show ?thesis
    using c rec by (simp add: Branch body import_branch_def child_ok_root_for_node)
qed

lemma import_nodes_ok:
  assumes "sha_ok E" "nodes_ok E pl (ns @ ms)" "length (ns @ ms) < width64" "length pl < width64"
  shows "import_nodes E (\<lparr>seq_payload = pl, seq_nodes = ns\<rparr>, covered ns) (length ns) (map node_record ms) =
    Inr (\<lparr>seq_payload = pl, seq_nodes = ns @ ms\<rparr>, covered (ns @ ms))"
  using assms(2,3)
proof (induction ms arbitrary: ns)
  case (Cons n ms)
  have "node_ok E pl ns n"
    using Cons.prems(1) by (force simp: nodes_ok_def dest: spec [of _ "length ns"])
  note step = import_node_ok [OF this] node_ok_canonical [OF assms(1) this]
  show ?case
    using Cons.IH [of "ns @ [n]"] Cons.prems step assms(4)
    by (simp add: try_from_def v2_node_fields_canonical)
qed simp

lemma resolve_all:
  "traverse (node_for_root_on memory_arena a) roots = Inr xs \<Longrightarrow> \<forall>r\<in>set roots. child_ok (seq_nodes a) r"
  unfolding traverse_Inr_iff resolves_iff_child_ok [symmetric]
  by (induction rule: list_all2_induct) auto

lemma child_ok_canonical:
  assumes "sha_ok E" "nodes_ok E pl ns" "child_ok ns r"
  shows "root_canonical r"
proof -
  obtain n where n: "get_at ns (root_node_id r) = Some n" "root_node_id r < V2_NONE_NODE"
    "V2RootRecord_from_node (root_node_id r) (node_record n) = Inr r"
    using assms(3) by (auto simp: child_ok_def)
  have "node_canonical (node_record n)"
    using assms(1,2) n(1) by (auto simp: nodes_ok_def get_at_Some_iff intro: node_ok_canonical)
  then show ?thesis
    using n none_node_width by (blast intro: from_node_canonical)
qed

lemma arena_image_canonical:
  assumes "sha_ok E" "arena_wf E a" "\<forall>r\<in>set roots. child_ok (seq_nodes a) r"
  shows "image_canonical \<lparr>image_payload = seq_payload a, image_nodes = map node_record (seq_nodes a),
    image_roots = roots\<rparr>"
  using assms child_ok_canonical node_ok_canonical
  by (fastforce simp: image_canonical_def list_all_iff arena_wf_def nodes_ok_def in_set_conv_nth)

lemma import_export:
  assumes sha: "sha_ok E" and wf: "arena_wf E a" and ex: "export_image E a roots = Inr bs"
  shows "import_image E bs = Inr (a, roots)"
proof -
  let ?img = "\<lparr>image_payload = seq_payload a, image_nodes = map node_record (seq_nodes a), image_roots = roots\<rparr>"
  obtain xs where tr: "traverse (node_for_root_on memory_arena a) roots = Inr xs"
    and enc: "encode_v2_image E ?img = Inr bs"
    using ex by (auto simp: export_image_def result_iffs split: if_splits)
  have can: "image_canonical ?img"
    using arena_image_canonical [OF sha wf] resolve_all [OF tr] by blast
  have dec: "decode_v2_image E bs = Inr ?img"
    using decode_encode_v2_image [OF sha can enc] .
  have w: "length (seq_payload a) < width64" "length (seq_nodes a) < width64"
    using enc by (auto simp: encode_v2_image_ok_iff [OF can] length_image_body [OF can])
  have "import_nodes E (\<lparr>seq_payload = seq_payload a, seq_nodes = []\<rparr>, 0) 0 (map node_record (seq_nodes a)) =
      Inr (\<lparr>seq_payload = seq_payload a, seq_nodes = seq_nodes a\<rparr>, length (seq_payload a))"
    using import_nodes_ok [OF sha, of "seq_payload a" "[]" "seq_nodes a"] wf w by (simp add: arena_wf_def)
  moreover have "\<lparr>seq_payload = seq_payload a, seq_nodes = seq_nodes a\<rparr> = a"
    by simp
  ultimately show ?thesis
    using dec tr w by (simp add: import_image_def try_from_def)
qed


lemma root_for_node_child_ok:
  assumes "root_for_node_id a i = Inr r" "i < V2_NONE_NODE"
  shows "child_ok (seq_nodes a) r \<and> root_node_id r = i"
  using assms from_node_fields
  by (fastforce simp: root_for_node_id_def root_for_node_id_on_def memory_load_node_def result_iffs
      checked_iffs child_ok_def)

lemma import_step_sound:
  assumes ok: "nodes_ok E (seq_payload a) (seq_nodes a)"
    and can: "node_canonical rec"
    and run: "(case fields_of_body (node_body rec) of
      V2NodeFields.Leaf o' l \<Rightarrow> import_leaf E (a, covered (seq_nodes a)) rec o' l
    | V2NodeFields.Branch l r ll \<Rightarrow>
        import_branch E (a, covered (seq_nodes a)) (length (seq_nodes a)) rec l r ll) = Inr (a', c)"
  shows "\<exists>n. a' = a\<lparr>seq_nodes := seq_nodes a @ [n]\<rparr> \<and> node_record n = rec \<and>
    node_ok E (seq_payload a) (seq_nodes a) n \<and> c = covered (seq_nodes a')"
proof (cases "node_body rec")
  case (Leaf off len)
  with run obtain bs where "off = covered (seq_nodes a)" "payload_slice a off (off + len) = Inr bs"
    "V2NodeRecord_leaf E off bs = Inr rec" "c = off + len"
    "a' = a\<lparr>seq_nodes := seq_nodes a @ [ArenaNode.Leaf off len rec]\<rparr>"
    by (auto simp: import_leaf_def result_iffs checked_iffs split: if_splits)
  then show ?thesis
    by (intro exI [of _ "ArenaNode.Leaf off len rec"]) (auto simp: payload_slice_def result_iffs checked_iffs)
next
  case (Branch li ri ll)
  with run obtain l r where lr: "root_for_node_id a li = Inr l" "root_for_node_id a ri = Inr r"
    "V2NodeRecord_branch E l r = Inr rec" "c = covered (seq_nodes a)"
    "a' = a\<lparr>seq_nodes := seq_nodes a @ [ArenaNode.Branch l r rec]\<rparr>"
    by (auto simp: import_branch_def result_iffs split: if_splits)
  have "li < V2_NONE_NODE" "ri < V2_NONE_NODE"
    using can Branch by (auto simp: node_canonical_def)
  with lr root_for_node_child_ok show ?thesis
    by (intro exI [of _ "ArenaNode.Branch l r rec"]) auto
qed

lemma import_nodes_sound:
  assumes "nodes_ok E (seq_payload a) (seq_nodes a)" "list_all node_canonical recs"
    "import_nodes E (a, covered (seq_nodes a)) (length (seq_nodes a)) recs = Inr (a', c)"
  shows "nodes_ok E (seq_payload a') (seq_nodes a') \<and> seq_payload a' = seq_payload a \<and>
    map node_record (seq_nodes a') = map node_record (seq_nodes a) @ recs \<and> c = covered (seq_nodes a')"
  using assms
proof (induction recs arbitrary: a)
  case (Cons rec recs)
  have can: "node_canonical rec" and rest: "list_all node_canonical recs"
    using Cons.prems(2) by auto
  obtain b d where step: "(case fields_of_body (node_body rec) of
      V2NodeFields.Leaf o' l \<Rightarrow> import_leaf E (a, covered (seq_nodes a)) rec o' l
    | V2NodeFields.Branch l r ll \<Rightarrow>
        import_branch E (a, covered (seq_nodes a)) (length (seq_nodes a)) rec l r ll) = Inr (b, d)"
    and run: "import_nodes E (b, d) (length (seq_nodes a) + 1) recs = Inr (a', c)"
    using Cons.prems(3) v2_node_fields_canonical [OF can] by (auto simp: result_iffs checked_iffs)
  from import_step_sound [OF Cons.prems(1) can step] obtain n where
    n: "b = a\<lparr>seq_nodes := seq_nodes a @ [n]\<rparr>" "node_record n = rec"
      "node_ok E (seq_payload a) (seq_nodes a) n" "d = covered (seq_nodes b)"
    by auto
  then have "nodes_ok E (seq_payload b) (seq_nodes b)"
    using Cons.prems(1) by (simp add: nodes_ok_snoc)
  from Cons.IH [OF this rest] run n show ?case
    by auto
qed simp

lemma import_sound:
  assumes "import_image E bs = Inr (a, roots)"
  shows "arena_wf E a \<and> (\<forall>r\<in>set roots. child_ok (seq_nodes a) r) \<and>
    decode_v2_image E bs = Inr \<lparr>image_payload = seq_payload a,
      image_nodes = map node_record (seq_nodes a), image_roots = roots\<rparr>"
proof -
  obtain img c xs where img: "decode_v2_image E bs = Inr img" "roots = image_roots img"
    and run: "import_nodes E (\<lparr>seq_payload = image_payload img, seq_nodes = []\<rparr>, 0) 0 (image_nodes img) = Inr (a, c)"
    and c: "c = length (seq_payload a)" and tr: "traverse (node_for_root_on memory_arena a) roots = Inr xs"
    using assms by (auto simp: import_image_def result_iffs checked_iffs split: if_splits prod.splits)
  have "list_all node_canonical (image_nodes img)"
    using decode_v2_image_canonical [OF img(1)] by (simp add: image_canonical_def)
  from import_nodes_sound [OF _ this, of E "\<lparr>seq_payload = image_payload img, seq_nodes = []\<rparr>"] run
  have "nodes_ok E (seq_payload a) (seq_nodes a)" "seq_payload a = image_payload img"
    "map node_record (seq_nodes a) = image_nodes img" "c = covered (seq_nodes a)"
    by (auto simp: nodes_ok_def)
  then show ?thesis
    using img c resolve_all [OF tr] by (simp add: arena_wf_def)
qed


section \<open>Properties\<close>

text \<open>A one-leaf arena and the root of its only version, for the examples.\<close>

definition sample_record :: V2NodeRecord where
  "sample_record = \<lparr>node_height = 1, node_len = 3,
     node_commitment = leaf_commitment sample_env 3 [10, 20, 30], node_body = V2NodeBody.Leaf 0 3\<rparr>"

definition sample_seq :: V2AvlSequence where
  "sample_seq = \<lparr>seq_payload = [10, 20, 30], seq_nodes = [ArenaNode.Leaf 0 3 sample_record]\<rparr>"

definition sample_root :: V2RootRecord where
  "sample_root = \<lparr>root_node_id = 0, root_len = 3, root_height = 1,
     root_commitment = leaf_commitment sample_env 3 [10, 20, 30]\<rparr>"

lemma sample_root_len [simp]: "root_len sample_root = 3"
  by (simp add: sample_root_def)

lemma sample_leaf: "V2NodeRecord_leaf sample_env 0 [10, 20, 30] = Inr sample_record"
  by (simp add: leaf_ok_iff sample_record_def MAX_LEAF_PAYLOAD_BYTES_def width64_def numeral_3_eq_3)

lemma sample_wf: "arena_wf sample_env sample_seq"
  by (simp add: arena_wf_def nodes_ok_def sample_seq_def covered_def sample_leaf slice_get_def)

lemma sample_rep: "rep sample_env (seq_payload sample_seq) (seq_nodes sample_seq) sample_root (Lf [10, 20, 30])"
  by (simp add: sample_seq_def sample_root_def get_at_def slice_get_def sample_leaf V2_NONE_NODE_def
      width64_def V2RootRecord_from_node_def) (simp add: sample_record_def)

lemma sample_source: "source_of sample_env sample_seq (Some sample_root) [10, 20, 30]"
  using read_range_rep [OF wf_good [OF sample_wf] sample_rep, where off = 0 and len = 3]
  by (simp add: source_of_def)

lemma sample_resolves: "is_ok (node_for_root_on memory_arena sample_seq sample_root)"
  using sample_rep wf_resolves_iff [OF sample_wf] by blast

lemma sample_edit: "edit_allowed (Some sample_root) [10, 20, 30] 1 1 [7, 8]"
  by (simp add: edit_allowed_def edit_def width64_def)

lemma sample_export: "\<exists>bytes. export_image sample_env sample_seq [sample_root] = Inr bytes"
proof -
  obtain n where n: "node_for_root_on memory_arena sample_seq sample_root = Inr n"
    using sample_resolves by (auto simp: is_ok_iff)
  have can: "image_canonical \<lparr>image_payload = seq_payload sample_seq,
      image_nodes = map node_record (seq_nodes sample_seq), image_roots = [sample_root]\<rparr>"
    using arena_image_canonical [OF sample_env_ok sample_wf] sample_resolves
    by (simp add: resolves_iff_child_ok)
  show ?thesis
    using encode_v2_image_ok_iff [OF can, of sample_env] length_image_body [OF can] n
    by (simp add: export_image_def result_iffs) (simp add: sample_seq_def width64_def)
qed

text \<open>Inserting a first byte into an arena with room allocates one leaf and succeeds.\<close>

lemma leaf_insert:
  assumes "length (seq_payload q) + 1 < width64" "length (seq_nodes q) + 1 < width64"
  shows "\<exists>res q'. splice_seq sample_env None 0 0 [7] q = Some (Inr res, q') \<and> seq_payload q' = seq_payload q @ [7] \<and>
    length (seq_nodes q') = length (seq_nodes q) + 1"
proof -
  have room: "try_reserve sample_env m n" for m n
    by (simp add: sample_env_def)
  obtain rec where rec: "V2NodeRecord_leaf sample_env (length (seq_payload q)) [7] = Inr rec"
    using assms by (simp add: leaf_ok_iff MAX_LEAF_PAYLOAD_BYTES_def)
  have "length (seq_nodes q) \<noteq> V2_NONE_NODE"
    using assms by (simp add: V2_NONE_NODE_def width64_def)
  then obtain root where root: "V2RootRecord_from_node (length (seq_nodes q)) rec = Inr root"
    using rec by (auto simp: leaf_ok_iff V2RootRecord_from_node_def)
  have "try_from width64 (length (seq_payload q)) = Some (length (seq_payload q))"
    "try_from width64 (length (seq_nodes q)) = Some (length (seq_nodes q))" "1 < width64"
    using assms by (simp_all add: try_from_def)
  with room rec root show ?thesis
    by (simp add: splice_seq_def splice_on_def splice_checks_def try_from_def [of _ "Suc 0"] checked_add_def splice_inner_on_def
        build_insert_subtree_on_def chunks.simps MAX_LEAF_PAYLOAD_BYTES_def allocate_leaf_on_def allocate_node_on_def
        viewP_def mutP_def Let_def bindP_def pair_rounds.simps memory_append_payload_def memory_push_node_def)
qed

text \<open>
  C9.  Splice applies the edit.  From any well-formed arena, a splice with in-range coordinates on a
  readable parent (or a root creation) always returns; it either yields a root whose complete
  content is \<open>src[..off] ++ ins ++ src[off + del..]\<close>, or stops with one of the exhaustion errors
  (refused reservation, full node table, full payload table) and the arena exactly as it was.
\<close>

theorem splice_applies_edit:
  assumes "arena_wf E a" and "source_of E a parent src" and "edit_allowed parent src off del ins"
  shows "\<exists>r a'. splice_seq E parent off del ins a = Some (r, a') \<and>
    (case r of
       Inl e \<Rightarrow> a' = a \<and> e \<in> refused E \<union> node_table_full \<union> payload_table_full
     | Inr res \<Rightarrow>
         read_range E a' (splice_root res) 0 (root_len (splice_root res)) = Some (Inr (edit src off del ins)) \<and>
         root_len (splice_root res) = length (edit src off del ins))"
  using splice_outcome [OF assms]
proof (elim disjE exE conjE)
  fix e
  assume "splice_seq E parent off del ins a = Some (Inl e, a)"
    "e \<in> refused E \<union> node_table_full \<union> payload_table_full"
  then show ?thesis
    by simp
next
  fix res a' t
  assume run: "splice_seq E parent off del ins a = Some (Inr res, a')"
    and t: "rep E (seq_payload a') (seq_nodes a') (splice_root res) t" "content t = edit src off del ins"
  have "arena_wf E a'"
    using splice_frame [OF run] assms(1) by blast
  then have "read_range E a' (splice_root res) 0 (tlen t) = Some (Inr (edit src off del ins))"
    using read_range_rep [OF wf_good t(1), where off = 0 and len = "tlen t"] t(2) by (simp add: tlen_def)
  then show ?thesis
    using run rep_metadata [OF t(1)] t(2) by (simp add: tlen_def)
qed

theorem splice_applies_edit_witness:
  "\<exists>r a'. splice_seq sample_env (Some sample_root) 1 1 [7, 8] sample_seq = Some (r, a') \<and>
    (case r of
       Inl e \<Rightarrow> a' = sample_seq \<and> e \<in> refused sample_env \<union> node_table_full \<union> payload_table_full
     | Inr res \<Rightarrow>
         read_range sample_env a' (splice_root res) 0 (root_len (splice_root res)) = Some (Inr [10, 7, 8, 30]) \<and>
         root_len (splice_root res) = 4)"
proof -
  have "edit [10, 20, 30] 1 1 [7, 8] = [10, 7, 8, 30]" "length [10, 7, 8, 30 :: byte] = 4"
    by (simp_all add: edit_def)
  from splice_applies_edit [OF sample_wf sample_source sample_edit, unfolded this] show ?thesis .
qed

text \<open>
  C10.  Versions are persistent.  Whatever splice is run, with whatever operands and outcome, every
  range that could be read from a root before it reads the same bytes afterwards.
\<close>

theorem splice_preserves_versions:
  assumes "arena_wf E a" and "splice_seq E parent off del ins a = Some (r, a')"
    and "read_range E a root lo n = Some (Inr bs)"
  shows "read_range E a' root lo n = Some (Inr bs)"
proof -
  obtain t where t: "rep E (seq_payload a) (seq_nodes a) root t" "lo + n \<le> tlen t"
    "bs = take n (drop lo (content t))"
    by (rule read_ok_rep [OF assms(1,3)])
  have "memory_ext a a'" "arena_wf E a'"
    using splice_frame [OF assms(2)] assms(1) by auto
  with t rep_extends [OF t(1)] show ?thesis
    by (simp add: memory_ext_def read_range_rep wf_good)
qed

theorem splice_preserves_versions_witness:
  "\<exists>y. splice_seq sample_env (Some sample_root) 1 1 [7, 8] sample_seq = Some y \<and>
    read_range sample_env (snd y) sample_root 0 3 = Some (Inr [10, 20, 30])"
proof -
  obtain r a' where run: "splice_seq sample_env (Some sample_root) 1 1 [7, 8] sample_seq = Some (r, a')"
    using splice_defined [OF sample_wf] by fastforce
  have "read_range sample_env sample_seq sample_root 0 3 = Some (Inr [10, 20, 30])"
    using sample_source by (simp add: source_of_def)
  from splice_preserves_versions [OF sample_wf run this] run show ?thesis
    by simp
qed

text \<open>
  C11.  Failed edits roll back, and the invariant never breaks.  For all operands, forged parents
  included, an error leaves the arena equal to the one on entry, and a well-formed arena stays
  well-formed.
\<close>

theorem splice_rolls_back:
  assumes "splice_seq E parent off del ins a = Some (r, a')"
  shows "(arena_wf E a \<longrightarrow> arena_wf E a') \<and> (\<forall>e. r = Inl e \<longrightarrow> a' = a) \<and>
    take (length (seq_nodes a)) (seq_nodes a') = seq_nodes a \<and>
    take (length (seq_payload a)) (seq_payload a') = seq_payload a"
  using splice_frame [OF assms] by (auto simp: memory_ext_def extends_take)

theorem splice_rolls_back_witness:
  "\<exists>a'. splice_seq sample_env (Some sample_root) 4 0 [1] sample_seq =
      Some (Inl (V2AvlError.Invalid ''v2 sequence splice offset exceeds parent length''), a') \<and> a' = sample_seq"
proof -
  obtain n where n: "node_for_root_on memory_arena sample_seq sample_root = Inr n"
    using sample_resolves by (auto simp: is_ok_iff)
  have run: "splice_seq sample_env (Some sample_root) 4 0 [1] sample_seq =
      Some (Inl (V2AvlError.Invalid ''v2 sequence splice offset exceeds parent length''), sample_seq)"
    by (rule splice_rejected)
      (simp add: splice_checks_root [OF sample_wf n] splice_verdict_def)
  show ?thesis
    using splice_rolls_back [OF run] run by blast
qed

text \<open>
  C12.  Splice terminates.  Although the descents follow identifiers found in the arena, no call on
  a well-formed arena diverges.
\<close>

theorem splice_terminates:
  assumes "arena_wf E a"
  shows "splice_seq E parent off del ins a \<noteq> None"
  using splice_defined [OF assms] by simp

theorem splice_terminates_witness: "splice_seq sample_env None 0 0 [1, 2] sample_seq \<noteq> None"
  by (rule splice_terminates [OF sample_wf])

text \<open>
  C13.  Rejected operands.  On a well-formed arena the entry checks answer by lengths alone: the
  error a splice reports for bad coordinates, an oversized result or an edit without effect is the
  one \<open>splice_verdict\<close> names, the first that applies, and nothing is written.
\<close>

theorem splice_rejects:
  assumes "arena_wf E a" and "case parent of None \<Rightarrow> True | Some root \<Rightarrow> is_ok (node_for_root_on memory_arena a root)"
    and "splice_verdict (map_option root_len parent) off del (length ins) = Inl e"
  shows "splice_seq E parent off del ins a = Some (Inl e, a)"
proof (rule splice_rejected, cases parent)
  case None
  with assms(3) show "splice_checks E memory_arena a parent off del ins = Inl e"
    by (simp add: splice_checks_create)
next
  case (Some root)
  with assms(2) obtain n where "node_for_root_on memory_arena a root = Inr n"
    by (auto simp: is_ok_iff)
  with Some assms show "splice_checks E memory_arena a parent off del ins = Inl e"
    by (simp add: splice_checks_root)
qed

theorem splice_rejects_witness:
  "splice_seq sample_env (Some sample_root) 2 2 [] sample_seq =
    Some (Inl (V2AvlError.Invalid ''v2 sequence splice delete range exceeds parent length''), sample_seq)"
  by (rule splice_rejects [OF sample_wf])
    (simp_all add: sample_resolves splice_verdict_def)


text \<open>
  C14.  Range reads are exact.  For a version with content \<open>src\<close> a read returns the requested
  slice; a range past the end and a range whose end overflows 64 bits are rejected, each with its
  own error.
\<close>

theorem read_range_exact:
  assumes "arena_wf E a" and "read_range E a root 0 (root_len root) = Some (Inr src)"
  shows "read_range E a root off len = Some
    (if width64 \<le> off + len then Inl (V2AvlError.Overflow ''v2 range end exceeds u64'')
     else if length src < off + len then Inl (V2AvlError.Invalid ''v2 range exceeds root logical length'')
     else Inr (take len (drop off src)))"
proof -
  obtain t where t: "rep E (seq_payload a) (seq_nodes a) root t" "root_len root \<le> tlen t"
    "src = take (root_len root) (drop 0 (content t))"
    using read_ok_rep [OF assms] by (metis add_0)
  have len: "root_len root = tlen t" and src: "src = content t"
    using rep_metadata [OF t(1)] t(3) by (auto simp: tlen_def)
  show ?thesis
    using read_range_rep_exact [OF wf_good [OF assms(1)] t(1), of off len] by (simp add: src tlen_def)
qed

theorem read_range_exact_witness: "read_range sample_env sample_seq sample_root 1 2 = Some (Inr [20, 30])"
proof -
  have "read_range sample_env sample_seq sample_root 0 (root_len sample_root) = Some (Inr [10, 20, 30])"
    using sample_source by (simp add: source_of_def)
  from read_range_exact [OF sample_wf this, of 1 2] show ?thesis
    by (simp add: width64_def)
qed

text \<open>
  Verification accepts exactly the resolvable roots of a well-formed arena, and returns.
\<close>

theorem verify_root_decides:
  assumes "arena_wf E a"
  shows "verify_root E a root \<noteq> None \<and>
    (verify_root E a root = Some (Inr ()) \<longleftrightarrow> is_ok (node_for_root_on memory_arena a root))"
proof (cases "is_ok (node_for_root_on memory_arena a root)")
  case True
  then obtain t where "rep E (seq_payload a) (seq_nodes a) root t"
    using wf_resolves_iff [OF assms] by blast
  from mem.verify_root_complete [OF wf_good [OF assms] this] True show ?thesis
    by (auto simp: verify_root_def)
next
  case False
  then obtain e where "node_for_root_on memory_arena a root = Inl e"
    by (cases "node_for_root_on memory_arena a root") auto
  then show ?thesis
    by (simp add: verify_root_def verify_root_counted_on_def verify_node_on.simps [of _ _ _ root])
qed

theorem verify_root_decides_witness: "verify_root sample_env sample_seq sample_root = Some (Inr ())"
  using verify_root_decides [OF sample_wf, of sample_root] sample_resolves by simp

text \<open>
  C15.  What a commitment binds.  In arbitrary, possibly corrupted arenas, two roots that both pass
  verification and carry the same commitment denote the same tree of leaves, hence the same
  content, or the hash inputs recomputed for the two trees contain two different byte strings with
  one digest.
\<close>

theorem verified_commitment_binds:
  assumes "sha_ok E" and "memory_good a" and "memory_good b"
    and "verify_root E a ra = Some (Inr ())" and "verify_root E b rb = Some (Inr ())"
    and "root_node_id ra < width64" and "root_node_id rb < width64"
    and "root_commitment ra = root_commitment rb"
  shows "\<exists>ta tb. read_range E a ra 0 (root_len ra) = Some (Inr (content ta)) \<and>
    read_range E b rb 0 (root_len rb) = Some (Inr (content tb)) \<and>
    (ta = tb \<or> collision_in E (preimages E ta) (preimages E tb))"
proof -
  have verified: "\<exists>t. rep E (seq_payload c) (seq_nodes c) r t"
    if "memory_good c" "verify_root E c r = Some (Inr ())" "root_node_id r < width64" for c r
    using that mem.verify_root_sound [of c E r]
    by (auto simp: verify_root_def map_option_case split: option.splits sum.splits)
      (metis Inl_Inr_False map_sum.simps(1) sum.exhaust_sel)
  obtain ta tb where t: "rep E (seq_payload a) (seq_nodes a) ra ta" "rep E (seq_payload b) (seq_nodes b) rb tb"
    using verified assms(2-7) by metis
  have "tree_commitment E ta = tree_commitment E tb"
    using rep_metadata [OF t(1)] rep_metadata [OF t(2)] assms(8) by simp
  moreover have "read_range E c r 0 (root_len r) = Some (Inr (content u))"
    if "memory_good c" "rep E (seq_payload c) (seq_nodes c) r u" for c r u
    using read_range_rep [OF that, of 0 "root_len r"] rep_metadata [OF that(2)] by (simp add: tlen_def)
  ultimately show ?thesis
    using commitment_binds [OF assms(1)] t assms(2,3) by blast
qed

theorem verified_commitment_binds_witness:
  "\<exists>ta tb. read_range sample_env sample_seq sample_root 0 3 = Some (Inr (content ta)) \<and>
    read_range sample_env sample_seq sample_root 0 3 = Some (Inr (content tb)) \<and>
    (ta = tb \<or> collision_in sample_env (preimages sample_env ta) (preimages sample_env tb))"
proof -
  have v: "verify_root sample_env sample_seq sample_root = Some (Inr ())"
    using mem.verify_root_complete [OF wf_good [OF sample_wf] sample_rep] by (simp add: verify_root_def)
  have i: "root_node_id sample_root < width64"
    by (simp add: sample_root_def)
  from verified_commitment_binds [OF sample_env_ok wf_good [OF sample_wf] wf_good [OF sample_wf] v v i i refl]
  show ?thesis
    by simp
qed

text \<open>
  C17.  Image round trip.  Importing an exported image gives back the same arena and the same
  roots.
\<close>

theorem import_export_image:
  assumes "sha_ok E" and "arena_wf E a" and "export_image E a roots = Inr bytes"
  shows "import_image E bytes = Inr (a, roots)"
  by (rule import_export [OF assms])

theorem import_export_image_witness:
  "\<exists>bytes. export_image sample_env sample_seq [sample_root] = Inr bytes \<and>
    import_image sample_env bytes = Inr (sample_seq, [sample_root])"
  using sample_export import_export_image [OF sample_env_ok sample_wf] by blast

text \<open>
  C18.  Import is a validator.  Whatever bytes are imported, an accepted image yields a well-formed
  arena whose roots all resolve, and the bytes are exactly what exporting that arena produces.
\<close>

theorem import_image_validates:
  assumes "import_image E bytes = Inr (a, roots)"
  shows "arena_wf E a \<and> list_all (\<lambda>r. is_ok (node_for_root_on memory_arena a r)) roots \<and>
    export_image E a roots = Inr bytes"
proof -
  note * = import_sound [OF assms]
  obtain xs where xs: "traverse (node_for_root_on memory_arena a) roots = Inr xs"
    using assms by (auto simp: import_image_def result_iffs split: if_splits prod.splits)
  have enc: "encode_v2_image E \<lparr>image_payload = seq_payload a,
      image_nodes = map node_record (seq_nodes a), image_roots = roots\<rparr> = Inr bytes"
    using * encode_decode_v2_image by blast
  then have "roots \<noteq> []"
    by (auto simp: encode_v2_image_def split: list.splits)
  then show ?thesis
    using * enc xs by (simp add: export_image_def list_all_iff resolves_iff_child_ok)
qed


theorem import_image_validates_witness:
  "\<exists>bytes a. import_image sample_env bytes = Inr (a, [sample_root]) \<and> arena_wf sample_env a \<and>
    export_image sample_env a [sample_root] = Inr bytes"
proof -
  obtain bytes where "export_image sample_env sample_seq [sample_root] = Inr bytes"
    using sample_export by blast
  from import_export [OF sample_env_ok sample_wf this] show ?thesis
    using import_image_validates by blast
qed

end
