(* ===== verification/Compaction_V2.thy ===== *)
theory Compaction_V2
  imports Avl_Memory "HOL-Library.Product_Lexorder"
begin

text \<open>
  The arena compaction core of \<open>persistent_sequence/compaction_v2.rs\<close> (reachability plan, payload
  repacking, canonical node reconstruction) and \<open>V2AvlSequence::compact_to_roots\<close> of \<open>avl.rs\<close> that
  drives it for history garbage collection.

  The errors wrapped from the checkpoint modules (publication, commit, snapshot, backend) have no
  producer on this path; they are constructors without their payload.  Hash sets are lists of distinct identifiers: they are sorted before use.
\<close>

section \<open>Data\<close>

datatype V2CompactionError =
    Image V2ImageError
  | Format V2FormatError
  | Publication
  | Commit
  | Snapshot
  | Backend
  | Invalid msg
  | Overflow msg
  | Capacity msg

type_synonym V2RetainedPayloadRange = "u64 \<times> u64"

record V2NodeIdMapping =
  old_node :: u64
  new_node :: u64

record V2PayloadRangeMapping =
  map_old_offset :: u64
  map_length :: u64
  map_new_offset :: u64

fun avl_error_of_compaction :: "V2CompactionError \<Rightarrow> V2AvlError" where
  "avl_error_of_compaction (V2CompactionError.Image e) = V2AvlError.Image e"
| "avl_error_of_compaction (V2CompactionError.Format e) = V2AvlError.Format e"
| "avl_error_of_compaction V2CompactionError.Publication = V2AvlError.Invalid ''v2 history compaction hit checkpoint state''"
| "avl_error_of_compaction V2CompactionError.Commit = V2AvlError.Invalid ''v2 history compaction hit checkpoint state''"
| "avl_error_of_compaction V2CompactionError.Snapshot = V2AvlError.Invalid ''v2 history compaction hit checkpoint state''"
| "avl_error_of_compaction V2CompactionError.Backend = V2AvlError.Invalid ''v2 history compaction hit checkpoint state''"
| "avl_error_of_compaction (V2CompactionError.Invalid m) = V2AvlError.Invalid m"
| "avl_error_of_compaction (V2CompactionError.Overflow m) = V2AvlError.Overflow m"
| "avl_error_of_compaction (V2CompactionError.Capacity m) = V2AvlError.Capacity m"

section \<open>Lookup in sorted tables\<close>

text \<open>\<open>slice::binary_search_by\<close> on the keys of a table.\<close>

function bisect :: "'k::linorder list \<Rightarrow> 'k \<Rightarrow> nat \<Rightarrow> nat \<Rightarrow> nat option" where
  "bisect ks k lo hi =
    (if hi \<le> lo then None
     else let mid = (lo + hi) div 2 in
       if ks ! mid = k then Some mid
       else if ks ! mid < k then bisect ks k (mid + 1) hi
       else bisect ks k lo mid)"
  by pat_completeness auto
termination
  by (relation "measure (\<lambda>(ks, k, lo, hi). hi - lo)") auto

declare bisect.simps [simp del]

definition binary_search :: "'k::linorder list \<Rightarrow> 'k \<Rightarrow> nat option" where
  "binary_search ks k = bisect ks k 0 (length ks)"

definition remapped_node_id :: "V2NodeIdMapping list \<Rightarrow> u64 \<Rightarrow> V2CompactionError + u64" where
  "remapped_node_id mapping old =
    (case binary_search (map old_node mapping) old of
       None \<Rightarrow> Inl (V2CompactionError.Invalid ''v2 compaction node reference has no compact mapping'')
     | Some i \<Rightarrow> Inr (new_node (mapping ! i)))"

definition remapped_payload_offset :: "V2PayloadRangeMapping list \<Rightarrow> u64 \<Rightarrow> u64 \<Rightarrow> V2CompactionError + u64" where
  "remapped_payload_offset mapping old_offset len =
    (case binary_search (map (\<lambda>e. (map_old_offset e, map_length e)) mapping) (old_offset, len) of
       None \<Rightarrow> Inl (V2CompactionError.Invalid ''v2 compaction payload range has no compact mapping'')
     | Some i \<Rightarrow> Inr (map_new_offset (mapping ! i)))"

section \<open>Reachability plan\<close>

definition claim_node :: "u64 list \<times> u64 list \<Rightarrow> u64 \<Rightarrow> u64 list \<times> u64 list" where
  "claim_node st node_id =
    (case st of (retained, worklist) \<Rightarrow>
       if node_id \<in> set retained then (retained, worklist)
       else (node_id # retained, node_id # worklist))"

definition plan_node ::
  "V2NodeRecord list \<Rightarrow> u64 \<Rightarrow> u64 \<Rightarrow> V2CompactionError + V2NodeFields" where
  "plan_node nodes arena_len node_id =
     bindR (ok_or (V2CompactionError.Overflow ''v2 compaction node identifier exceeds usize'')
       (try_from width64 node_id)) (\<lambda>index.
     bindR (ok_or (V2CompactionError.Invalid ''v2 compaction node reference is outside the node table'')
       (get_at nodes index)) (\<lambda>node.
     bindR (map_err V2CompactionError.Image (v2_node_fields node)) (\<lambda>fields.
     case fields of
       V2NodeFields.Leaf payload_offset payload_len \<Rightarrow>
         if payload_len = 0 then Inl (V2CompactionError.Invalid ''v2 compaction leaf payload length is zero'')
         else
           bindR (ok_or (V2CompactionError.Overflow ''v2 compaction leaf payload range exceeds u64'')
             (checked_add width64 payload_offset payload_len)) (\<lambda>end'.
           if end' > arena_len then
             Inl (V2CompactionError.Invalid ''v2 compaction leaf payload range is outside the payload arena'')
           else Inr fields)
     | V2NodeFields.Branch left_node_id right_node_id _ \<Rightarrow>
         if left_node_id \<ge> node_id \<or> right_node_id \<ge> node_id then
           Inl (V2CompactionError.Invalid ''v2 compaction branch child is not topologically prior'')
         else Inr fields)))"

function mark_loop ::
  "V2NodeRecord list \<Rightarrow> u64 \<Rightarrow> u64 list \<times> u64 list \<Rightarrow> V2RetainedPayloadRange list \<Rightarrow>
   V2CompactionError + u64 list \<times> V2RetainedPayloadRange list" where
  "mark_loop nodes arena_len (retained, []) ranges = Inr (retained, ranges)"
| "mark_loop nodes arena_len (retained, node_id # worklist) ranges =
    (case plan_node nodes arena_len node_id of
       Inl e \<Rightarrow> Inl e
     | Inr (V2NodeFields.Leaf payload_offset payload_len) \<Rightarrow>
         mark_loop nodes arena_len (retained, worklist) (ranges @ [(payload_offset, payload_len)])
     | Inr (V2NodeFields.Branch left_node_id right_node_id _) \<Rightarrow>
         mark_loop nodes arena_len
           (claim_node (claim_node (retained, worklist) left_node_id) right_node_id) ranges)"
  by pat_completeness auto

definition unclaimed :: "V2NodeRecord list \<Rightarrow> u64 list \<Rightarrow> nat" where
  "unclaimed nodes retained = card ({..<length nodes} - set retained)"

definition fields_planned :: "u64 \<Rightarrow> u64 \<Rightarrow> V2NodeFields \<Rightarrow> bool" where
  "fields_planned arena_len i f \<longleftrightarrow> (case f of
     V2NodeFields.Leaf off len \<Rightarrow> len \<noteq> 0 \<and> off + len < width64 \<and> off + len \<le> arena_len
   | V2NodeFields.Branch l r _ \<Rightarrow> l < i \<and> r < i)"

lemma plan_node_ok_iff:
  "plan_node nodes n i = Inr f \<longleftrightarrow> i < width64 \<and> i < length nodes \<and> v2_node_fields (nodes ! i) = Inr f \<and>
     fields_planned n i f"
proof (cases "i < width64 \<and> i < length nodes")
  case True
  show ?thesis
  proof (cases "v2_node_fields (nodes ! i)")
    case (Inr g)
    with True show ?thesis
      by (cases g) (auto simp: plan_node_def try_from_def get_at_def fields_planned_def checked_add_def)
  qed (use True in \<open>simp add: plan_node_def try_from_def get_at_def\<close>)
qed (auto simp: plan_node_def try_from_def get_at_def)

lemma plan_node_Branch:
  "plan_node nodes n i = Inr (V2NodeFields.Branch l r k) \<Longrightarrow> i < length nodes \<and> l < i \<and> r < i"
  by (simp add: plan_node_ok_iff fields_planned_def)

lemma claim_measure:
  assumes "i < length nodes"
  shows "2 * unclaimed nodes (fst (claim_node (ret, work) i)) + length (snd (claim_node (ret, work) i)) \<le>
    2 * unclaimed nodes ret + length work"
proof (cases "i \<in> set ret")
  case False
  have "{..<length nodes} - set (i # ret) = ({..<length nodes} - set ret) - {i}"
    by auto
  moreover have "i \<in> {..<length nodes} - set ret"
    using assms False by simp
  ultimately have "Suc (unclaimed nodes (i # ret)) = unclaimed nodes ret"
    unfolding unclaimed_def using card_Suc_Diff1 [of "{..<length nodes} - set ret" i] by simp
  with False show ?thesis
    by (simp add: claim_node_def)
qed (simp add: claim_node_def)

termination mark_loop
proof (relation "measure (\<lambda>(nodes, n, (ret, work), ranges). 2 * unclaimed nodes ret + length work)")
  fix nodes :: "V2NodeRecord list" and n ret i work ranges f l r k
  assume "plan_node nodes n i = Inr f" "f = V2NodeFields.Branch l r k"
  then have lr: "l < length nodes" "r < length nodes"
    using plan_node_Branch by fastforce+
  obtain ret1 work1 where c1: "claim_node (ret, work) l = (ret1, work1)"
    by (cases "claim_node (ret, work) l")
  show "((nodes, n, claim_node (claim_node (ret, work) l) r, ranges), (nodes, n, (ret, i # work), ranges))
    \<in> measure (\<lambda>(nodes, n, (ret, work), ranges). 2 * unclaimed nodes ret + length work)"
    using claim_measure [OF lr(1), of ret work] claim_measure [OF lr(2), of ret1 work1]
    by (auto simp: c1 split: prod.splits)
qed auto

definition plan_reachable_arena ::
  "env \<Rightarrow> byte list \<Rightarrow> V2NodeRecord list \<Rightarrow> u64 list \<Rightarrow>
   V2CompactionError + u64 list \<times> V2RetainedPayloadRange list" where
  "plan_reachable_arena E payload nodes seeds =
     bindR (ok_or (V2CompactionError.Overflow ''v2 compaction payload length exceeds u64'')
       (try_from width64 (length payload))) (\<lambda>arena_len.
     bindR (ok_or (V2CompactionError.Overflow ''v2 compaction node worklist size exceeds usize'')
       (checked_add width64 (length nodes) (length seeds))) (\<lambda>work_capacity.
     if \<not> try_reserve E ''v2 compaction node set allocation failed'' work_capacity then
       Inl (V2CompactionError.Capacity ''v2 compaction node set allocation failed'')
     else if \<not> try_reserve E ''v2 compaction node worklist allocation failed'' work_capacity then
       Inl (V2CompactionError.Capacity ''v2 compaction node worklist allocation failed'')
     else if \<not> try_reserve E ''v2 compaction payload range allocation failed'' (length nodes) then
       Inl (V2CompactionError.Capacity ''v2 compaction payload range allocation failed'')
     else
       bindR (mark_loop nodes arena_len (fold (\<lambda>seed st. claim_node st seed) seeds ([], [])) []) (\<lambda>(retained, ranges).
       if \<not> try_reserve E ''v2 compaction node plan allocation failed'' (length retained) then
         Inl (V2CompactionError.Capacity ''v2 compaction node plan allocation failed'')
       else Inr (sort retained, sort ranges))))"

section \<open>Payload repacking\<close>

fun total_length :: "u64 \<Rightarrow> V2RetainedPayloadRange list \<Rightarrow> V2CompactionError + u64" where
  "total_length acc [] = Inr acc"
| "total_length acc ((_, len) # ranges) =
     bindR (ok_or (V2CompactionError.Overflow ''v2 compaction compact payload length exceeds u64'')
       (checked_add width64 acc len)) (\<lambda>acc. total_length acc ranges)"

fun repack_loop ::
  "byte list \<Rightarrow> V2RetainedPayloadRange list \<Rightarrow> u64 \<Rightarrow> byte list \<Rightarrow> V2PayloadRangeMapping list \<Rightarrow>
   V2CompactionError + byte list \<times> V2PayloadRangeMapping list" where
  "repack_loop payload [] previous_end compact mapping = Inr (compact, mapping)"
| "repack_loop payload ((off, len) # ranges) previous_end compact mapping =
    (if off < previous_end then
       Inl (V2CompactionError.Invalid ''v2 compaction retained payload ranges overlap or duplicate'')
     else
       bindR (ok_or (V2CompactionError.Overflow ''v2 compaction retained payload range exceeds u64'')
         (checked_add width64 off len)) (\<lambda>end'.
       bindR (ok_or (V2CompactionError.Overflow ''v2 compaction retained payload offset exceeds usize'')
         (try_from width64 off)) (\<lambda>start_usize.
       bindR (ok_or (V2CompactionError.Overflow ''v2 compaction retained payload end exceeds usize'')
         (try_from width64 end')) (\<lambda>end_usize.
       bindR (ok_or (V2CompactionError.Invalid
           ''v2 compaction retained payload range is outside the source payload'')
         (slice_get payload start_usize end_usize)) (\<lambda>bytes.
       bindR (ok_or (V2CompactionError.Overflow ''v2 compaction compact payload offset exceeds u64'')
         (try_from width64 (length compact))) (\<lambda>new_offset.
       repack_loop payload ranges end' (compact @ bytes)
         (mapping @ [\<lparr>map_old_offset = off, map_length = len, map_new_offset = new_offset\<rparr>])))))))"

definition repack_compact_ranges ::
  "env \<Rightarrow> byte list \<Rightarrow> V2RetainedPayloadRange list \<Rightarrow>
   V2CompactionError + byte list \<times> V2PayloadRangeMapping list" where
  "repack_compact_ranges E payload ranges =
     bindR (total_length 0 ranges) (\<lambda>acc.
     bindR (ok_or (V2CompactionError.Overflow ''v2 compaction compact payload length exceeds usize'')
       (try_from width64 acc)) (\<lambda>total_usize.
     if \<not> try_reserve E ''v2 compaction compact payload allocation failed'' total_usize then
       Inl (V2CompactionError.Capacity ''v2 compaction compact payload allocation failed'')
     else if \<not> try_reserve E ''v2 compaction payload mapping allocation failed'' (length ranges) then
       Inl (V2CompactionError.Capacity ''v2 compaction payload mapping allocation failed'')
     else repack_loop payload ranges 0 [] []))"

section \<open>Node reconstruction\<close>

definition rebuilt_agrees ::
  "V2NodeRecord \<Rightarrow> V2NodeRecord \<Rightarrow> msg \<Rightarrow> msg \<Rightarrow> msg \<Rightarrow> V2CompactionError + unit" where
  "rebuilt_agrees rebuilt old mh ml mc =
    (if node_height rebuilt \<noteq> node_height old then Inl (V2CompactionError.Invalid mh)
     else if node_len rebuilt \<noteq> node_len old then Inl (V2CompactionError.Invalid ml)
     else if node_commitment rebuilt \<noteq> node_commitment old then Inl (V2CompactionError.Invalid mc)
     else Inr ())"

definition rebuild_leaf ::
  "env \<Rightarrow> byte list \<Rightarrow> V2PayloadRangeMapping list \<Rightarrow> V2NodeRecord \<Rightarrow> u64 \<Rightarrow> u64 \<Rightarrow> V2CompactionError + V2NodeRecord"
where
  "rebuild_leaf E compact_payload payload_mapping old payload_offset payload_len =
     bindR (remapped_payload_offset payload_mapping payload_offset payload_len) (\<lambda>new_offset.
     bindR (ok_or (V2CompactionError.Overflow ''v2 compaction compact payload offset exceeds usize'')
       (try_from width64 new_offset)) (\<lambda>start.
     bindR (ok_or (V2CompactionError.Overflow ''v2 compaction compact payload length exceeds usize'')
       (try_from width64 payload_len)) (\<lambda>len.
     bindR (ok_or (V2CompactionError.Overflow ''v2 compaction compact payload range exceeds usize'')
       (checked_add width64 start len)) (\<lambda>end'.
     bindR (ok_or (V2CompactionError.Invalid
         ''v2 compaction compact payload range is outside the compact payload'')
       (slice_get compact_payload start end')) (\<lambda>bytes.
     bindR (map_err V2CompactionError.Format (V2NodeRecord_leaf E new_offset bytes)) (\<lambda>rebuilt.
     bindR (rebuilt_agrees rebuilt old ''v2 compaction rebuilt leaf height disagrees with source''
         ''v2 compaction rebuilt leaf logical length disagrees with source''
         ''v2 compaction rebuilt leaf commitment disagrees with source'') (\<lambda>_.
     Inr rebuilt)))))))"

definition compact_child :: "V2NodeRecord list \<Rightarrow> u64 \<Rightarrow> usize \<Rightarrow> msg \<Rightarrow> V2CompactionError + V2RootRecord" where
  "compact_child rebuilt_nodes new_id index m =
     bindR (ok_or (V2CompactionError.Invalid m) (get_at rebuilt_nodes index)) (\<lambda>n.
     map_err V2CompactionError.Format (V2RootRecord_from_node new_id n))"

definition rebuild_branch ::
  "env \<Rightarrow> V2NodeRecord list \<Rightarrow> V2NodeIdMapping list \<Rightarrow> V2NodeRecord \<Rightarrow> u64 \<Rightarrow> u64 \<Rightarrow> u64 \<Rightarrow>
   V2CompactionError + V2NodeRecord" where
  "rebuild_branch E rebuilt_nodes mapping old left_node_id right_node_id left_len =
     bindR (remapped_node_id mapping left_node_id) (\<lambda>new_left.
     bindR (remapped_node_id mapping right_node_id) (\<lambda>new_right.
     bindR (ok_or (V2CompactionError.Overflow ''v2 compaction compact node identifier exceeds usize'')
       (try_from width64 new_left)) (\<lambda>left_index.
     bindR (ok_or (V2CompactionError.Overflow ''v2 compaction compact node identifier exceeds usize'')
       (try_from width64 new_right)) (\<lambda>right_index.
     bindR (compact_child rebuilt_nodes new_left left_index
       ''v2 compaction remapped left child is absent'') (\<lambda>left_root.
     bindR (compact_child rebuilt_nodes new_right right_index
       ''v2 compaction remapped right child is absent'') (\<lambda>right_root.
     bindR (map_err V2CompactionError.Format (V2NodeRecord_branch E left_root right_root)) (\<lambda>rebuilt.
     bindR (rebuilt_agrees rebuilt old ''v2 compaction rebuilt branch height disagrees with source''
         ''v2 compaction rebuilt branch logical length disagrees with source''
         ''v2 compaction rebuilt branch commitment disagrees with source'') (\<lambda>_.
     bindR (map_err V2CompactionError.Image (v2_node_fields rebuilt)) (\<lambda>fields.
     case fields of
       V2NodeFields.Branch _ _ rebuilt_left_len \<Rightarrow>
         if rebuilt_left_len \<noteq> left_len then
           Inl (V2CompactionError.Invalid ''v2 compaction rebuilt branch left length disagrees with source'')
         else Inr rebuilt
     | V2NodeFields.Leaf _ _ \<Rightarrow>
         Inl (V2CompactionError.Invalid ''v2 compaction rebuilt branch decoded as a leaf''))))))))))"

fun rebuild_loop ::
  "env \<Rightarrow> V2NodeRecord list \<Rightarrow> u64 list \<Rightarrow> byte list \<Rightarrow> V2PayloadRangeMapping list \<Rightarrow>
   V2NodeRecord list \<Rightarrow> V2NodeIdMapping list \<Rightarrow> V2CompactionError + V2NodeRecord list \<times> V2NodeIdMapping list"
where
  "rebuild_loop E nodes [] compact_payload payload_mapping rebuilt_nodes mapping = Inr (rebuilt_nodes, mapping)"
| "rebuild_loop E nodes (old_id # retained) compact_payload payload_mapping rebuilt_nodes mapping =
     bindR (ok_or (V2CompactionError.Overflow ''v2 compaction source node identifier exceeds usize'')
       (try_from width64 old_id)) (\<lambda>old_index.
     bindR (ok_or (V2CompactionError.Invalid ''v2 compaction planned node is absent from the source table'')
       (get_at nodes old_index)) (\<lambda>old.
     bindR (map_err V2CompactionError.Image (v2_node_fields old)) (\<lambda>fields.
     bindR (case fields of
              V2NodeFields.Leaf payload_offset payload_len \<Rightarrow>
                rebuild_leaf E compact_payload payload_mapping old payload_offset payload_len
            | V2NodeFields.Branch left_node_id right_node_id left_len \<Rightarrow>
                rebuild_branch E rebuilt_nodes mapping old left_node_id right_node_id left_len) (\<lambda>rebuilt.
     bindR (ok_or (V2CompactionError.Overflow ''v2 compaction compact node identifier exceeds u64'')
       (try_from width64 (length rebuilt_nodes))) (\<lambda>new_id.
     rebuild_loop E nodes retained compact_payload payload_mapping (rebuilt_nodes @ [rebuilt])
       (mapping @ [\<lparr>old_node = old_id, new_node = new_id\<rparr>]))))))"

definition rebuild_compact_records ::
  "env \<Rightarrow> V2NodeRecord list \<Rightarrow> u64 list \<Rightarrow> byte list \<Rightarrow> V2PayloadRangeMapping list \<Rightarrow>
   V2CompactionError + V2NodeRecord list \<times> V2NodeIdMapping list" where
  "rebuild_compact_records E nodes retained compact_payload payload_mapping =
    (if \<not> try_reserve E ''v2 compaction compact node table allocation failed'' (length retained) then
       Inl (V2CompactionError.Capacity ''v2 compaction compact node table allocation failed'')
     else if \<not> try_reserve E ''v2 compaction node mapping allocation failed'' (length retained) then
       Inl (V2CompactionError.Capacity ''v2 compaction node mapping allocation failed'')
     else rebuild_loop E nodes retained compact_payload payload_mapping [] [])"

section \<open>Compaction of the in-memory arena\<close>

definition compact_arena_node :: "ArenaNode list \<Rightarrow> V2NodeRecord \<Rightarrow> V2AvlError + ArenaNode" where
  "compact_arena_node built rec =
     bindR (map_err V2AvlError.Image (v2_node_fields rec)) (\<lambda>fields.
     case fields of
       V2NodeFields.Leaf payload_offset payload_len \<Rightarrow> Inr (ArenaNode.Leaf payload_offset payload_len rec)
     | V2NodeFields.Branch left_node_id right_node_id _ \<Rightarrow>
         bindR (ok_or (V2AvlError.Overflow ''v2 history compaction node identifier exceeds usize'')
           (try_from width64 left_node_id)) (\<lambda>left_index.
         bindR (ok_or (V2AvlError.Overflow ''v2 history compaction node identifier exceeds usize'')
           (try_from width64 right_node_id)) (\<lambda>right_index.
         bindR (ok_or (V2AvlError.Invalid ''v2 history compaction branch child is absent'')
           (get_at built left_index)) (\<lambda>left.
         bindR (ok_or (V2AvlError.Invalid ''v2 history compaction branch child is absent'')
           (get_at built right_index)) (\<lambda>right.
         bindR (map_err V2AvlError.Format (V2RootRecord_from_node left_node_id (node_record left))) (\<lambda>left_root.
         bindR (map_err V2AvlError.Format (V2RootRecord_from_node right_node_id (node_record right))) (\<lambda>right_root.
         Inr (ArenaNode.Branch left_root right_root rec))))))))"

fun compact_nodes :: "ArenaNode list \<Rightarrow> V2NodeRecord list \<Rightarrow> V2AvlError + ArenaNode list" where
  "compact_nodes built [] = Inr built"
| "compact_nodes built (rec # records) =
     bindR (compact_arena_node built rec) (\<lambda>n. compact_nodes (built @ [n]) records)"

definition compact_root :: "ArenaNode list \<Rightarrow> V2NodeIdMapping list \<Rightarrow> V2RootRecord \<Rightarrow> V2AvlError + V2RootRecord" where
  "compact_root nodes node_mapping root =
     bindR (map_err avl_error_of_compaction (remapped_node_id node_mapping (root_node_id root))) (\<lambda>new_id.
     bindR (ok_or (V2AvlError.Overflow ''v2 history compaction node identifier exceeds usize'')
       (try_from width64 new_id)) (\<lambda>index.
     bindR (ok_or (V2AvlError.Invalid ''v2 history compaction remapped root is absent'')
       (get_at nodes index)) (\<lambda>n.
     map_err V2AvlError.Format (V2RootRecord_from_node new_id (node_record n)))))"

definition compact_to_roots ::
  "env \<Rightarrow> V2AvlSequence \<Rightarrow> V2RootRecord list \<Rightarrow> V2AvlError + V2AvlSequence \<times> V2RootRecord list" where
  "compact_to_roots E a roots =
    (if \<not> try_reserve E ''v2 history compaction seed allocation failed'' (length roots) then
       Inl (V2AvlError.Capacity ''v2 history compaction seed allocation failed'')
     else
     bindR (traverse (node_for_root_on memory_arena a) roots) (\<lambda>_.
     if \<not> try_reserve E ''v2 history compaction record allocation failed'' (length (seq_nodes a)) then
       Inl (V2AvlError.Capacity ''v2 history compaction record allocation failed'')
     else
     let records = map node_record (seq_nodes a) in
     bindR (map_err avl_error_of_compaction
       (plan_reachable_arena E (seq_payload a) records (map root_node_id roots))) (\<lambda>(retained, ranges).
     bindR (map_err avl_error_of_compaction (repack_compact_ranges E (seq_payload a) ranges))
       (\<lambda>(compact_payload, payload_mapping).
     bindR (map_err avl_error_of_compaction
       (rebuild_compact_records E records retained compact_payload payload_mapping))
       (\<lambda>(compact_records, node_mapping).
     if \<not> try_reserve E ''v2 history compaction node allocation failed'' (length compact_records) then
       Inl (V2AvlError.Capacity ''v2 history compaction node allocation failed'')
     else
     bindR (compact_nodes [] compact_records) (\<lambda>nodes.
     if length nodes \<noteq> length retained then
       Inl (V2AvlError.Invalid ''v2 history compaction node table disagrees with its retained set'')
     else if \<not> try_reserve E ''v2 history compaction root allocation failed'' (length roots) then
       Inl (V2AvlError.Capacity ''v2 history compaction root allocation failed'')
     else
     bindR (traverse (compact_root nodes node_mapping) roots) (\<lambda>new_roots.
     if list_ex (\<lambda>(old, new). root_commitment old \<noteq> root_commitment new \<or> root_len old \<noteq> root_len new)
          (zip roots new_roots) then
       Inl (V2AvlError.Invalid ''v2 history compaction root disagrees with its source'')
     else Inr (\<lparr>seq_payload = compact_payload, seq_nodes = nodes\<rparr>, new_roots))))))))"

end
