(* ===== verification/Compaction_Correct.thy ===== *)
theory Compaction_Correct
  imports Compaction_V2
begin

text \<open>
  Compaction of a well-formed arena: the plan is exactly the set of reachable nodes, the
  replacement arena is well-formed, and every retained root denotes the same tree in it.
\<close>

section \<open>Binary search\<close>

lemma bisect_sound: "bisect ks k lo hi = Some i \<Longrightarrow> hi \<le> length ks \<Longrightarrow> i < length ks \<and> ks ! i = k"
proof (induction ks k lo hi rule: bisect.induct)
  case (1 ks k lo hi)
  show ?case
    using 1 by (subst (asm) (3) bisect.simps) (auto simp: Let_def split: if_splits)
qed

lemma bisect_complete:
  "sorted_wrt (<) ks \<Longrightarrow> hi \<le> length ks \<Longrightarrow> lo \<le> i \<Longrightarrow> i < hi \<Longrightarrow> bisect ks (ks ! i) lo hi = Some i"
proof (induction ks "ks ! i" lo hi rule: bisect.induct)
  case (1 ks lo hi)
  let ?m = "(lo + hi) div 2"
  have m: "lo \<le> ?m" "?m < hi"
    using "1.prems" by auto
  consider "?m = i" | "?m < i" | "i < ?m"
    by linarith
  then show ?case
  proof cases
    case 1
    then show ?thesis
      using "1.prems" by (subst bisect.simps) simp
  next
    case 2
    then have lt: "ks ! ?m < ks ! i"
      using "1.prems" by (auto simp: sorted_wrt_iff_nth_less)
    have "bisect ks (ks ! i) (?m + 1) hi = Some i"
      using 2 "1.prems" m lt by (intro "1.hyps"(1)) auto
    then show ?thesis
      using lt m by (subst bisect.simps) (auto simp: Let_def)
  next
    case 3
    then have lt: "ks ! i < ks ! ?m"
      using "1.prems" m by (auto simp: sorted_wrt_iff_nth_less)
    have "bisect ks (ks ! i) lo ?m = Some i"
      using 3 "1.prems" m lt by (intro "1.hyps"(2)) auto
    then show ?thesis
      using lt m by (subst bisect.simps) (auto simp: Let_def)
  qed
qed

lemma binary_search_nth: "sorted_wrt (<) ks \<Longrightarrow> i < length ks \<Longrightarrow> binary_search ks (ks ! i) = Some i"
  unfolding binary_search_def by (intro bisect_complete) auto

section \<open>Reading a well-formed arena by position\<close>

fun kids :: "ArenaNode \<Rightarrow> u64 list" where
  "kids (ArenaNode.Leaf _ _ _) = []"
| "kids (ArenaNode.Branch l r _) = [root_node_id l, root_node_id r]"

fun is_leaf :: "ArenaNode \<Rightarrow> bool" where
  "is_leaf (ArenaNode.Leaf _ _ _) \<longleftrightarrow> True"
| "is_leaf (ArenaNode.Branch _ _ _) \<longleftrightarrow> False"

fun node_fields :: "ArenaNode \<Rightarrow> V2NodeFields" where
  "node_fields (ArenaNode.Leaf off len _) = V2NodeFields.Leaf off len"
| "node_fields (ArenaNode.Branch l r _) = V2NodeFields.Branch (root_node_id l) (root_node_id r) (root_len l)"

fun leaf_range :: "ArenaNode \<Rightarrow> V2RetainedPayloadRange" where
  "leaf_range (ArenaNode.Leaf off len _) = (off, len)"
| "leaf_range (ArenaNode.Branch _ _ _) = (0, 0)"

inductive_set reachable :: "ArenaNode list \<Rightarrow> u64 list \<Rightarrow> u64 set" for ns seeds where
  seed: "i \<in> set seeds \<Longrightarrow> i \<in> reachable ns seeds"
| kid: "i \<in> reachable ns seeds \<Longrightarrow> j \<in> set (kids (ns ! i)) \<Longrightarrow> j \<in> reachable ns seeds"

lemma nodes_ok_nth: "nodes_ok E pl ns \<Longrightarrow> i < length ns \<Longrightarrow> node_ok E pl (take i ns) (ns ! i)"
  by (simp add: nodes_ok_def)

lemma kids_prior:
  assumes "nodes_ok E pl ns" "i < length ns" "j \<in> set (kids (ns ! i))"
  shows "j < i \<and> j < V2_NONE_NODE"
  using nodes_ok_nth [OF assms(1,2)] assms(2,3)
  by (cases "ns ! i") (auto simp: child_ok_def get_at_Some_iff)

lemma node_fields_ok:
  assumes "sha_ok E" "nodes_ok E pl ns" "i < length ns"
  shows "v2_node_fields (node_record (ns ! i)) = Inr (node_fields (ns ! i))"
proof -
  note ok = nodes_ok_nth [OF assms(2,3)]
  have "fields_of_body (node_body (node_record (ns ! i))) = node_fields (ns ! i)"
    using ok by (cases "ns ! i") (auto simp: leaf_ok_iff branch_ok_iff dest!: slice_get_length)
  then show ?thesis
    using v2_node_fields_canonical [OF node_ok_canonical [OF assms(1) ok]] by simp
qed

lemma covered_u64: "nodes_ok E pl ns \<Longrightarrow> covered ns < width64"
proof (induction ns rule: rev_induct)
  case (snoc n ns)
  then show ?case
    by (cases n) (auto simp: nodes_ok_snoc leaf_ok_iff dest!: slice_get_length)
qed simp

lemma covered_mono: "i \<le> j \<Longrightarrow> covered (take i ns) \<le> covered (take j ns)"
proof -
  assume "i \<le> j"
  then have "take j ns = take i ns @ take (j - i) (drop i ns)"
    by (metis le_add_diff_inverse take_add)
  then show ?thesis
    by simp
qed

lemma covered_Suc: "i < length ns \<Longrightarrow> covered (take (Suc i) ns) = covered (take i ns) + leaf_bytes (ns ! i)"
  by (simp add: take_Suc_conv_app_nth)

lemma leaf_facts:
  assumes "nodes_ok E pl ns" "i < length ns" "is_leaf (ns ! i)"
  obtains off len rec bs where "ns ! i = ArenaNode.Leaf off len rec" "off = covered (take i ns)"
    "len = length bs" "0 < len" "slice_get pl off (off + len) = Some bs" "V2NodeRecord_leaf E off bs = Inr rec"
    "off + len < width64" "off + len \<le> length pl"
proof (cases "ns ! i")
  case (Leaf off len rec)
  with nodes_ok_nth [OF assms(1,2)] obtain bs where bs: "off = covered (take i ns)"
    "slice_get pl off (off + len) = Some bs" "V2NodeRecord_leaf E off bs = Inr rec"
    by auto
  have len: "len = length bs"
    using slice_get_length [OF bs(2)] by simp
  have "0 < len" "off + len < width64" "off + len \<le> length pl"
    using bs(2,3) len by (auto simp: leaf_ok_iff slice_get_Some_iff)
  then show thesis
    by (rule that [OF Leaf bs(1) len _ bs(2,3)])
qed (use assms(3) in simp)

lemma leaf_order:
  assumes ok: "nodes_ok E pl ns" and "i < j" "j < length ns" "is_leaf (ns ! i)" "is_leaf (ns ! j)"
  shows "fst (leaf_range (ns ! i)) + snd (leaf_range (ns ! i)) \<le> fst (leaf_range (ns ! j))"
proof -
  have "i < length ns"
    using assms by simp
  from leaf_facts [OF ok this assms(4)] obtain off len rec bs where
    i: "ns ! i = ArenaNode.Leaf off len rec" "off = covered (take i ns)"
    by metis
  from leaf_facts [OF ok assms(3,5)] obtain off' len' rec' where
    j: "ns ! j = ArenaNode.Leaf off' len' rec'" "off' = covered (take j ns)"
    by metis
  have "covered (take (Suc i) ns) \<le> covered (take j ns)"
    using assms(2) by (intro covered_mono) simp
  with i j covered_Suc [OF \<open>i < length ns\<close>] show ?thesis
    by simp
qed


lemma leaf_range_inj:
  assumes ok: "nodes_ok E pl ns" and "i < length ns" "j < length ns" "is_leaf (ns ! i)" "is_leaf (ns ! j)"
    and eq: "leaf_range (ns ! i) = leaf_range (ns ! j)"
  shows "i = j"
proof -
  have pos: "0 < snd (leaf_range (ns ! k))" if "k < length ns" "is_leaf (ns ! k)" for k
    using leaf_facts [OF ok that] by (metis leaf_range.simps(1) snd_conv)
  show ?thesis
    using leaf_order [OF ok, of i j] leaf_order [OF ok, of j i] pos [of i] pos [of j] assms
    by (cases i j rule: linorder_cases) auto
qed

section \<open>Marking\<close>

definition marked :: "ArenaNode list \<Rightarrow> u64 list \<Rightarrow> u64 list \<Rightarrow> u64 set \<Rightarrow> V2RetainedPayloadRange list \<Rightarrow> bool"
where
  "marked ns seeds ret W ranges \<longleftrightarrow> distinct ret \<and> W \<subseteq> set ret \<and>
     set ret \<subseteq> {..<length ns} \<and> set ret \<subseteq> {..<V2_NONE_NODE} \<and> set ret \<subseteq> reachable ns seeds \<and>
     (\<forall>i\<in>set ret - W. set (kids (ns ! i)) \<subseteq> set ret) \<and> distinct ranges \<and>
     set ranges = (\<lambda>i. leaf_range (ns ! i)) ` {i \<in> set ret - W. is_leaf (ns ! i)}"

lemma plan_node_wf:
  assumes "sha_ok E" "nodes_ok E pl ns" "i < length ns" "i < V2_NONE_NODE"
  shows "plan_node (map node_record ns) (length pl) i = Inr (node_fields (ns ! i))"
proof -
  have "fields_planned (length pl) i (node_fields (ns ! i))"
  proof (cases "ns ! i")
    case (Leaf off len rec)
    then have "is_leaf (ns ! i)"
      by simp
    from leaf_facts [OF assms(2,3) this] obtain off' len' rec' where
      "ns ! i = ArenaNode.Leaf off' len' rec'" "0 < len'" "off' + len' < width64" "off' + len' \<le> length pl"
      by metis
    then show ?thesis
      by (simp add: fields_planned_def)
  next
    case (Branch l r rec)
    with kids_prior [OF assms(2,3)] show ?thesis
      by (simp add: fields_planned_def)
  qed
  then show ?thesis
    using assms none_node_width [OF assms(4)] node_fields_ok [OF assms(1-3)] by (simp add: plan_node_ok_iff)
qed

lemma marked_leaf_step:
  assumes ok: "nodes_ok E pl ns" and m: "marked ns seeds ret (insert i W) ranges" and leaf: "is_leaf (ns ! i)"
    and iW: "i \<notin> W"
  shows "marked ns seeds ret W (ranges @ [leaf_range (ns ! i)])"
proof -
  have i: "i < length ns" "i \<in> set ret"
    using m by (auto simp: marked_def)
  have sets: "set ret - W = insert i (set ret - insert i W)"
    using i iW by auto
  have new: "leaf_range (ns ! i) \<notin> set ranges"
  proof
    assume "leaf_range (ns ! i) \<in> set ranges"
    then obtain j where "j \<in> set ret" "j \<noteq> i" "is_leaf (ns ! j)" "leaf_range (ns ! j) = leaf_range (ns ! i)" "j < length ns"
      using m by (auto simp: marked_def)
    then show False
      using leaf_range_inj [OF ok _ i(1) _ leaf] by blast
  qed
  have "kids (ns ! i) = []"
    using leaf by (cases "ns ! i") auto
  then show ?thesis
    using m new leaf unfolding marked_def sets by auto
qed

lemma marked_claim:
  assumes m: "marked ns seeds ret W ranges" and j: "j < length ns" "j < V2_NONE_NODE" "j \<in> reachable ns seeds"
  shows "marked ns seeds (if j \<in> set ret then ret else j # ret) (if j \<in> set ret then W else insert j W) ranges"
proof (cases "j \<in> set ret")
  case False
  then have eq: "set (j # ret) - insert j W = set ret - W"
    by auto
  have "marked ns seeds (j # ret) (insert j W) ranges"
    using m j False unfolding marked_def eq by auto
  with False show ?thesis
    by simp
qed (use m in simp)

lemma marked_pop_branch:
  assumes m: "marked ns seeds ret (insert i W) ranges" and "\<not> is_leaf (ns ! i)"
    and "set (kids (ns ! i)) \<subseteq> set ret" and "i \<notin> W"
  shows "marked ns seeds ret W ranges"
proof -
  have "i \<in> set ret"
    using m by (auto simp: marked_def)
  then have sets: "set ret - W = insert i (set ret - insert i W)"
    using assms(4) by auto
  show ?thesis
    using m assms(2,3) unfolding marked_def sets by auto
qed

definition work_ok :: "u64 list \<Rightarrow> u64 list \<Rightarrow> bool" where
  "work_ok ret work \<longleftrightarrow> distinct work \<and> set work \<subseteq> set ret"

lemma claim_work:
  assumes "work_ok ret work"
  shows "\<exists>ret' work'. claim_node (ret, work) j = (ret', work') \<and> work_ok ret' work' \<and>
    ret' = (if j \<in> set ret then ret else j # ret) \<and>
    set work' = (if j \<in> set ret then set work else insert j (set work)) \<and> j \<in> set ret' \<and> set ret \<subseteq> set ret'"
  using assms by (auto simp: claim_node_def work_ok_def)

lemma marked_branch_step:
  assumes ok: "nodes_ok E pl ns" and m: "marked ns seeds ret (insert i (set work)) ranges"
    and w: "work_ok ret (i # work)" and n: "ns ! i = ArenaNode.Branch l r rec"
  shows "\<exists>ret' work'. claim_node (claim_node (ret, work) (root_node_id l)) (root_node_id r) = (ret', work') \<and>
    marked ns seeds ret' (set work') ranges \<and> work_ok ret' work' \<and> set ret \<subseteq> set ret'"
proof -
  have i: "i < length ns" "i \<in> set ret" "i \<in> reachable ns seeds" and w0: "work_ok ret work"
    using m w by (auto simp: marked_def work_ok_def)
  have kid: "j < length ns" "j < V2_NONE_NODE" "j \<in> reachable ns seeds" "j \<noteq> i" if "j \<in> set (kids (ns ! i))" for j
    using kids_prior [OF ok i(1) that] i reachable.kid [OF i(3) that] by auto
  have l: "root_node_id l \<in> set (kids (ns ! i))" and r: "root_node_id r \<in> set (kids (ns ! i))"
    by (simp_all add: n)
  obtain ret1 work1 where c1: "claim_node (ret, work) (root_node_id l) = (ret1, work1)" "work_ok ret1 work1"
    "ret1 = (if root_node_id l \<in> set ret then ret else root_node_id l # ret)"
    "set work1 = (if root_node_id l \<in> set ret then set work else insert (root_node_id l) (set work))"
    "root_node_id l \<in> set ret1" "set ret \<subseteq> set ret1"
    using claim_work [OF w0, of "root_node_id l"] by blast
  obtain ret2 work2 where c2: "claim_node (ret1, work1) (root_node_id r) = (ret2, work2)" "work_ok ret2 work2"
    "ret2 = (if root_node_id r \<in> set ret1 then ret1 else root_node_id r # ret1)"
    "set work2 = (if root_node_id r \<in> set ret1 then set work1 else insert (root_node_id r) (set work1))"
    "root_node_id r \<in> set ret2" "set ret1 \<subseteq> set ret2"
    using claim_work [OF c1(2), of "root_node_id r"] by blast
  have m1: "marked ns seeds ret1 (insert i (set work1)) ranges"
    using marked_claim [OF m kid(1-3) [OF l]] unfolding c1(3,4) by (auto split: if_splits simp: insert_commute)
  have m2: "marked ns seeds ret2 (insert i (set work2)) ranges"
    using marked_claim [OF m1 kid(1-3) [OF r]] unfolding c2(3,4) by (auto split: if_splits simp: insert_commute)
  have "i \<notin> set work2"
    using w kid(4) [OF l] kid(4) [OF r] by (auto simp: c1(4) c2(4) work_ok_def)
  moreover have "set (kids (ns ! i)) \<subseteq> set ret2"
    using c1(5) c2(5,6) by (auto simp: n)
  ultimately have "marked ns seeds ret2 (set work2) ranges"
    using marked_pop_branch [OF m2] by (simp add: n)
  then show ?thesis
    using c1 c2 by (intro exI [of _ ret2] exI [of _ work2]) auto
qed

lemma mark_loop_total:
  assumes sha: "sha_ok E" and ok: "nodes_ok E pl ns"
  shows "marked ns seeds ret (set work) ranges \<Longrightarrow> work_ok ret work \<Longrightarrow>
    \<exists>ret' ranges'. mark_loop (map node_record ns) (length pl) (ret, work) ranges = Inr (ret', ranges') \<and>
      marked ns seeds ret' {} ranges' \<and> set ret \<subseteq> set ret'"
proof (induction "map node_record ns" "length pl" "(ret, work)" ranges arbitrary: ret work rule: mark_loop.induct)
  case (1 ret ranges)
  then show ?case
    by auto
next
  case (2 ret i work ranges)
  have i: "i < length ns" "i < V2_NONE_NODE" and iw: "i \<notin> set work"
    using "2.prems" by (auto simp: marked_def work_ok_def)
  note plan = plan_node_wf [OF sha ok i]
  have m: "marked ns seeds ret (insert i (set work)) ranges"
    using "2.prems" by simp
  show ?case
  proof (cases "ns ! i")
    case (Leaf off len rec)
    have "marked ns seeds ret (set work) (ranges @ [leaf_range (ns ! i)])"
      using marked_leaf_step [OF ok m _ iw] Leaf by simp
    then show ?thesis
      using "2.hyps"(1) [of "V2NodeFields.Leaf off len" off len] plan Leaf "2.prems"(2)
      by (simp add: work_ok_def)
  next
    case (Branch l r rec)
    from marked_branch_step [OF ok m "2.prems"(2) Branch] obtain ret' work' where
      c: "claim_node (claim_node (ret, work) (root_node_id l)) (root_node_id r) = (ret', work')"
        "marked ns seeds ret' (set work') ranges" "work_ok ret' work'" "set ret \<subseteq> set ret'"
      by blast
    have "\<exists>ret'' ranges'. mark_loop (map node_record ns) (length pl) (ret', work') ranges = Inr (ret'', ranges') \<and>
        marked ns seeds ret'' {} ranges' \<and> set ret' \<subseteq> set ret''"
      by (rule "2.hyps"(2) [OF _ _ c(1-3)]) (use plan Branch in auto)
    then show ?thesis
      using plan Branch c by auto
  qed
qed


subsection \<open>The plan\<close>

definition reservation_refused :: "env \<Rightarrow> msg \<Rightarrow> bool" where
  "reservation_refused E m \<longleftrightarrow> (\<exists>n. \<not> try_reserve E m n)"

definition planned :: "env \<Rightarrow> V2CompactionError + 'r \<Rightarrow> ('r \<Rightarrow> bool) \<Rightarrow> bool" where
  "planned E r Q \<longleftrightarrow> (case r of
     Inl e \<Rightarrow> \<exists>m. e = V2CompactionError.Capacity m \<and> reservation_refused E m
   | Inr x \<Rightarrow> Q x)"

lemma planned_simps [simp]:
  "planned E (Inr x) Q \<longleftrightarrow> Q x"
  "planned E (Inl (V2CompactionError.Capacity m)) Q \<longleftrightarrow> reservation_refused E m"
  by (simp_all add: planned_def)

lemma reservation_refusedI: "\<not> try_reserve E m n \<Longrightarrow> reservation_refused E m"
  by (auto simp: reservation_refused_def)

definition retained_ids :: "ArenaNode list \<Rightarrow> u64 list \<Rightarrow> u64 list" where
  "retained_ids ns seeds = sorted_list_of_set (reachable ns seeds)"

definition retained_leaves :: "ArenaNode list \<Rightarrow> u64 list \<Rightarrow> u64 list" where
  "retained_leaves ns ids = filter (\<lambda>i. is_leaf (ns ! i)) ids"

lemma seeds_marked:
  assumes "\<forall>i\<in>set xs. i \<in> set seeds \<and> i < length ns \<and> i < V2_NONE_NODE"
    and "marked ns seeds ret (set ret) []"
  shows "\<exists>ret'. fold (\<lambda>seed st. claim_node st seed) xs (ret, ret) = (ret', ret') \<and>
    marked ns seeds ret' (set ret') [] \<and> set ret' = set ret \<union> set xs"
  using assms
proof (induction xs arbitrary: ret)
  case (Cons x xs)
  have x: "x < length ns" "x < V2_NONE_NODE" "x \<in> reachable ns seeds"
    using Cons.prems(1) by (auto intro: reachable.seed)
  have "marked ns seeds (if x \<in> set ret then ret else x # ret) (set (if x \<in> set ret then ret else x # ret)) []"
    using marked_claim [OF Cons.prems(2) x] by (auto split: if_splits)
  with Cons.IH [of "if x \<in> set ret then ret else x # ret"] Cons.prems(1) show ?case
    by (auto simp: claim_node_def split: if_splits)
qed simp

lemma marked_closed:
  assumes "marked ns seeds ret {} ranges" and "set seeds \<subseteq> set ret"
  shows "set ret = reachable ns seeds"
proof
  show "reachable ns seeds \<subseteq> set ret"
  proof
    fix i
    assume "i \<in> reachable ns seeds"
    then show "i \<in> set ret"
      by induction (use assms in \<open>auto simp: marked_def\<close>)
  qed
qed (use assms(1) in \<open>simp add: marked_def\<close>)

lemma marked_sorted:
  assumes ok: "nodes_ok E pl ns" and m: "marked ns seeds ret {} ranges" and s: "set seeds \<subseteq> set ret"
  shows "sort ret = retained_ids ns seeds \<and>
    sort ranges = map (\<lambda>i. leaf_range (ns ! i)) (retained_leaves ns (retained_ids ns seeds))"
proof
  note closed = marked_closed [OF m s]
  show ids: "sort ret = retained_ids ns seeds"
    using m by (simp add: retained_ids_def closed [symmetric] marked_def sorted_list_of_set.idem_if_sorted_distinct
        sorted_list_of_set_sort_remdups distinct_remdups_id)
  let ?L = "retained_leaves ns (retained_ids ns seeds)"
  have L: "set ?L = {i \<in> set ret. is_leaf (ns ! i)}" "sorted_wrt (<) ?L" "\<forall>i\<in>set ?L. i < length ns \<and> is_leaf (ns ! i)"
    using m by (auto simp: retained_leaves_def ids [symmetric] marked_def strict_sorted_iff
        intro!: sorted_wrt_filter)
  have "sorted_wrt (<) (map (\<lambda>i. leaf_range (ns ! i)) ?L)"
  proof (subst sorted_wrt_map, rule sorted_wrt_mono_rel [OF _ L(2)])
    fix i j
    assume ij: "i \<in> set ?L" "j \<in> set ?L" "i < j"
    have "0 < snd (leaf_range (ns ! i))"
      using ij L(3) leaf_facts [OF ok] by (metis leaf_range.simps(1) snd_conv)
    then show "leaf_range (ns ! i) < leaf_range (ns ! j)"
      using leaf_order [OF ok ij(3)] ij L(3) by (auto simp: less_prod_def')
  qed
  moreover have "set (map (\<lambda>i. leaf_range (ns ! i)) ?L) = set ranges" "distinct ranges"
    using m L(1) by (auto simp: marked_def)
  ultimately show "sort ranges = map (\<lambda>i. leaf_range (ns ! i)) ?L"
    by (intro sorted_distinct_set_unique) (auto simp: strict_sorted_iff)
qed

lemma plan_reachable_total:
  assumes sha: "sha_ok E" and ok: "nodes_ok E pl ns" and pl: "length pl < width64"
    and room: "length ns + length seeds < width64"
    and seeds: "\<forall>i\<in>set seeds. i < length ns \<and> i < V2_NONE_NODE"
  shows "planned E (plan_reachable_arena E pl (map node_record ns) seeds) (\<lambda>(ids, ranges).
    ids = retained_ids ns seeds \<and> set ids = reachable ns seeds \<and> set ids \<subseteq> {..<length ns} \<inter> {..<V2_NONE_NODE} \<and>
    ranges = map (\<lambda>i. leaf_range (ns ! i)) (retained_leaves ns ids))"
proof -
  have "marked ns seeds [] (set []) []"
    by (simp add: marked_def)
  with seeds_marked [of seeds seeds ns "[]"] seeds obtain ret where
    f: "fold (\<lambda>seed st. claim_node st seed) seeds ([], []) = (ret, ret)"
      "marked ns seeds ret (set ret) []" "set ret = set seeds"
    by auto
  have "work_ok ret ret"
    using f(2) by (simp add: work_ok_def marked_def)
  from mark_loop_total [OF sha ok f(2) this] obtain ret' ranges where
    m: "mark_loop (map node_record ns) (length pl) (ret, ret) [] = Inr (ret', ranges)"
      "marked ns seeds ret' {} ranges" "set ret \<subseteq> set ret'"
    by blast
  have s: "set seeds \<subseteq> set ret'"
    using m(3) f(3) by simp
  have "set (retained_ids ns seeds) = reachable ns seeds"
    using marked_sorted [OF ok m(2) s] marked_closed [OF m(2) s] by (metis set_sort)
  moreover have "reachable ns seeds \<subseteq> {..<length ns} \<inter> {..<V2_NONE_NODE}"
    using m(2) marked_closed [OF m(2) s] by (auto simp: marked_def)
  ultimately show ?thesis
    using marked_sorted [OF ok m(2) s] pl room
    by (auto simp: plan_reachable_arena_def try_from_def checked_add_def f m intro: reservation_refusedI)
qed


section \<open>Repacking\<close>

fun leaf_data :: "byte list \<Rightarrow> ArenaNode \<Rightarrow> byte list" where
  "leaf_data pl (ArenaNode.Leaf off len _) = take len (drop off pl)"
| "leaf_data pl (ArenaNode.Branch _ _ _) = []"

fun packed :: "nat \<Rightarrow> ArenaNode list \<Rightarrow> V2PayloadRangeMapping list" where
  "packed base [] = []"
| "packed base (n # ns) =
     \<lparr>map_old_offset = fst (leaf_range n), map_length = snd (leaf_range n), map_new_offset = base\<rparr> #
     packed (base + leaf_bytes n) ns"

definition leaf_in :: "byte list \<Rightarrow> ArenaNode \<Rightarrow> bool" where
  "leaf_in pl n \<longleftrightarrow> (case n of ArenaNode.Leaf off len _ \<Rightarrow> off + len \<le> length pl \<and> off + len < width64
     | ArenaNode.Branch _ _ _ \<Rightarrow> False)"

lemma leaf_data_length: "leaf_in pl n \<Longrightarrow> length (leaf_data pl n) = leaf_bytes n"
  by (cases n) (auto simp: leaf_in_def)

lemma packed_keys: "map (\<lambda>e. (map_old_offset e, map_length e)) (packed b xs) = map leaf_range xs"
  by (induction xs arbitrary: b) auto

lemma packed_nth: "k < length xs \<Longrightarrow> map_new_offset (packed b xs ! k) = b + covered (take k xs)"
proof (induction xs arbitrary: b k)
  case (Cons n xs)
  then show ?case
    by (cases k) (auto simp: covered_def)
qed simp

lemma total_length_ok:
  "list_all (leaf_in pl) xs \<Longrightarrow> b + covered xs < width64 \<Longrightarrow> total_length b (map leaf_range xs) = Inr (b + covered xs)"
proof (induction xs arbitrary: b)
  case (Cons n xs)
  then show ?case
    by (cases n) (auto simp: leaf_in_def checked_add_def covered_def)
qed simp

lemma repack_loop_ok:
  assumes "list_all (leaf_in pl) xs" "length compact + covered xs < width64"
    "sorted_wrt (\<lambda>m n. fst (leaf_range m) + snd (leaf_range m) \<le> fst (leaf_range n)) xs"
    "\<forall>n\<in>set xs. prev \<le> fst (leaf_range n)"
  shows "repack_loop pl (map leaf_range xs) prev compact mapping =
    Inr (compact @ concat (map (leaf_data pl) xs), mapping @ packed (length compact) xs)"
  using assms
proof (induction xs arbitrary: prev compact mapping)
  case (Cons n xs)
  obtain off len rec where n: "n = ArenaNode.Leaf off len rec" "off + len \<le> length pl" "off + len < width64"
    using Cons.prems(1) by (cases n) (auto simp: leaf_in_def)
  have "repack_loop pl (map leaf_range xs) (off + len) (compact @ leaf_data pl n)
      (mapping @ [\<lparr>map_old_offset = off, map_length = len, map_new_offset = length compact\<rparr>]) =
    Inr ((compact @ leaf_data pl n) @ concat (map (leaf_data pl) xs),
      (mapping @ [\<lparr>map_old_offset = off, map_length = len, map_new_offset = length compact\<rparr>]) @
      packed (length (compact @ leaf_data pl n)) xs)"
    using Cons.prems n by (intro Cons.IH) (auto simp: covered_def)
  then show ?case
    using Cons.prems(2,4) n by (simp add: checked_add_def try_from_def slice_get_def covered_def)
qed simp

lemma concat_slice:
  assumes "list_all (leaf_in pl) xs" "k < length xs"
  shows "slice_get (concat (map (leaf_data pl) xs)) (covered (take k xs)) (covered (take k xs) + leaf_bytes (xs ! k)) =
    Some (leaf_data pl (xs ! k))"
proof -
  have len: "length (concat (map (leaf_data pl) ys)) = covered ys" if "list_all (leaf_in pl) ys" for ys
    using that by (induction ys) (auto simp: leaf_data_length covered_def)
  have "concat (map (leaf_data pl) xs) = concat (map (leaf_data pl) (take k xs)) @ leaf_data pl (xs ! k) @
      concat (map (leaf_data pl) (drop (Suc k) xs))"
    using id_take_nth_drop [OF assms(2)] by (metis concat.simps(2) concat_append list.simps(9) map_append)
  moreover have "length (concat (map (leaf_data pl) (take k xs))) = covered (take k xs)"
    using assms(1) by (intro len) (auto simp: list_all_iff dest: in_set_takeD)
  moreover have "length (leaf_data pl (xs ! k)) = leaf_bytes (xs ! k)"
    using assms by (simp add: leaf_data_length list_all_length)
  ultimately show ?thesis
    by (simp add: slice_get_def)
qed

lemma covered_subset:
  assumes "distinct ids" "set ids \<subseteq> {..<length ns}"
  shows "covered (map (\<lambda>i. ns ! i) ids) \<le> covered ns"
proof -
  have "covered (map (\<lambda>i. ns ! i) ids) = (\<Sum>i\<in>set ids. leaf_bytes (ns ! i))"
    using assms(1) by (simp add: covered_def sum_list_distinct_conv_sum_set o_def)
  also have "\<dots> \<le> (\<Sum>i\<in>{..<length ns}. leaf_bytes (ns ! i))"
    using assms(2) by (intro sum_mono2) auto
  also have "\<dots> = covered ns"
    by (simp add: covered_def sum_list_sum_nth atLeast0LessThan)
  finally show ?thesis .
qed

lemma covered_leaves: "covered (map (\<lambda>i. ns ! i) (retained_leaves ns ids)) = covered (map (\<lambda>i. ns ! i) ids)"
proof (induction ids)
  case (Cons i ids)
  then show ?case
    by (cases "ns ! i") (auto simp: retained_leaves_def covered_def)
qed (simp add: retained_leaves_def)

lemma leaves_in:
  assumes "nodes_ok E pl ns" "set ids \<subseteq> {..<length ns}"
  shows "list_all (leaf_in pl) (map (\<lambda>i. ns ! i) (retained_leaves ns ids))"
  unfolding list_all_iff
proof
  fix n
  assume "n \<in> set (map (\<lambda>i. ns ! i) (retained_leaves ns ids))"
  then obtain i where i: "n = ns ! i" "i < length ns" "is_leaf (ns ! i)"
    using assms(2) by (auto simp: retained_leaves_def)
  from leaf_facts [OF assms(1) i(2,3)] obtain off len rec where
    "ns ! i = ArenaNode.Leaf off len rec" "off + len < width64" "off + len \<le> length pl"
    by metis
  with i(1) show "leaf_in pl n"
    by (simp add: leaf_in_def)
qed

lemma leaves_ordered:
  assumes "nodes_ok E pl ns" "sorted_wrt (<) ids" "set ids \<subseteq> {..<length ns}"
  shows "sorted_wrt (\<lambda>m n. fst (leaf_range m) + snd (leaf_range m) \<le> fst (leaf_range n))
    (map (\<lambda>i. ns ! i) (retained_leaves ns ids))"
  unfolding sorted_wrt_map retained_leaves_def
proof (rule sorted_wrt_mono_rel [OF _ sorted_wrt_filter [OF assms(2)]])
  fix i j
  assume "i \<in> set (filter (\<lambda>i. is_leaf (ns ! i)) ids)" "j \<in> set (filter (\<lambda>i. is_leaf (ns ! i)) ids)" "i < j"
  then show "fst (leaf_range (ns ! i)) + snd (leaf_range (ns ! i)) \<le> fst (leaf_range (ns ! j))"
    using assms(3) by (intro leaf_order [OF assms(1)]) auto
qed

definition compact_bytes :: "byte list \<Rightarrow> ArenaNode list \<Rightarrow> u64 list \<Rightarrow> byte list" where
  "compact_bytes pl ns ids = concat (map (leaf_data pl) (map (\<lambda>i. ns ! i) (retained_leaves ns ids)))"

definition compact_map :: "ArenaNode list \<Rightarrow> u64 list \<Rightarrow> V2PayloadRangeMapping list" where
  "compact_map ns ids = packed 0 (map (\<lambda>i. ns ! i) (retained_leaves ns ids))"

lemma repack_total:
  assumes ok: "nodes_ok E pl ns" and ids: "sorted_wrt (<) ids" "set ids \<subseteq> {..<length ns}"
  shows "planned E (repack_compact_ranges E pl (map (\<lambda>i. leaf_range (ns ! i)) (retained_leaves ns ids)))
    (\<lambda>r. r = (compact_bytes pl ns ids, compact_map ns ids))"
proof -
  let ?xs = "map (\<lambda>i. ns ! i) (retained_leaves ns ids)"
  have w: "covered ?xs < width64"
    using covered_subset [OF _ ids(2)] ids(1) covered_u64 [OF ok] covered_leaves [of ns ids]
    by (simp add: strict_sorted_iff)
  have eq: "map (\<lambda>i. leaf_range (ns ! i)) (retained_leaves ns ids) = map leaf_range ?xs"
    by simp
  show ?thesis
    unfolding eq repack_compact_ranges_def
    using total_length_ok [OF leaves_in [OF ok ids(2)], of 0] w
      repack_loop_ok [OF leaves_in [OF ok ids(2)], of "[]" 0 "[]"] leaves_ordered [OF ok ids]
    by (auto simp: try_from_def compact_bytes_def compact_map_def intro: reservation_refusedI)
qed


section \<open>Reconstruction\<close>

definition new_offset :: "ArenaNode list \<Rightarrow> u64 list \<Rightarrow> nat \<Rightarrow> nat" where
  "new_offset ns ids k = covered (map (\<lambda>i. ns ! i) (take k ids))"

lemma leaf_position:
  assumes "k < length ids" "is_leaf (ns ! (ids ! k))"
  obtains k' where "k' < length (retained_leaves ns ids)" "retained_leaves ns ids ! k' = ids ! k"
    "take k' (retained_leaves ns ids) = retained_leaves ns (take k ids)"
proof
  let ?k' = "length (retained_leaves ns (take k ids))"
  have split: "retained_leaves ns ids =
      retained_leaves ns (take k ids) @ ids ! k # retained_leaves ns (drop (Suc k) ids)"
    using id_take_nth_drop [OF assms(1)] assms(2)
    by (metis filter.simps(2) filter_append retained_leaves_def)
  show "?k' < length (retained_leaves ns ids)" "retained_leaves ns ids ! ?k' = ids ! k"
    "take ?k' (retained_leaves ns ids) = retained_leaves ns (take k ids)"
    by (subst split; simp)+
qed

lemma leaf_keys_sorted:
  assumes ok: "nodes_ok E pl ns" and ids: "sorted_wrt (<) ids" "set ids \<subseteq> {..<length ns}"
  shows "sorted_wrt (<) (map leaf_range (map (\<lambda>i. ns ! i) (retained_leaves ns ids)))"
  unfolding sorted_wrt_map retained_leaves_def
proof (rule sorted_wrt_mono_rel [OF _ sorted_wrt_filter [OF ids(1)]])
  fix i j
  assume ij: "i \<in> set (filter (\<lambda>i. is_leaf (ns ! i)) ids)" "j \<in> set (filter (\<lambda>i. is_leaf (ns ! i)) ids)" "i < j"
  then have l: "i < length ns" "is_leaf (ns ! i)" "j < length ns" "is_leaf (ns ! j)"
    using ids(2) by auto
  have "0 < snd (leaf_range (ns ! i))"
    using leaf_facts [OF ok l(1,2)] by (metis leaf_range.simps(1) snd_conv)
  then show "leaf_range (ns ! i) < leaf_range (ns ! j)"
    using leaf_order [OF ok ij(3) l(3,2,4)] by (auto simp: less_prod_def')
qed

lemma remap_leaf:
  assumes ok: "nodes_ok E pl ns" and ids: "sorted_wrt (<) ids" "set ids \<subseteq> {..<length ns}"
    and k: "k < length ids" and n: "ns ! (ids ! k) = ArenaNode.Leaf off len rec"
  shows "remapped_payload_offset (compact_map ns ids) off len = Inr (new_offset ns ids k) \<and>
    slice_get (compact_bytes pl ns ids) (new_offset ns ids k) (new_offset ns ids k + len) =
      Some (take len (drop off pl))"
proof -
  let ?xs = "map (\<lambda>i. ns ! i) (retained_leaves ns ids)"
  from n have leaf: "is_leaf (ns ! (ids ! k))"
    by simp
  obtain k' where k': "k' < length (retained_leaves ns ids)" "retained_leaves ns ids ! k' = ids ! k"
    "take k' (retained_leaves ns ids) = retained_leaves ns (take k ids)"
    by (rule leaf_position [OF k leaf])
  have x: "k' < length ?xs" "?xs ! k' = ArenaNode.Leaf off len rec" "covered (take k' ?xs) = new_offset ns ids k"
    using k' n covered_leaves [of ns "take k ids"] by (auto simp: take_map new_offset_def)
  have "binary_search (map leaf_range ?xs) (map leaf_range ?xs ! k') = Some k'"
    using leaf_keys_sorted [OF ok ids] x(1) by (intro binary_search_nth) auto
  then have "binary_search (map leaf_range ?xs) (off, len) = Some k'"
    using x(1,2) by (simp del: map_map)
  then show ?thesis
    using packed_nth [OF x(1), of 0] concat_slice [OF leaves_in [OF ok ids(2)] x(1)] x
    unfolding remapped_payload_offset_def compact_map_def packed_keys compact_bytes_def by simp
qed

end
