(* ===== verification/Compaction_Memory.thy ===== *)
theory Compaction_Memory
  imports Compaction_Correct
begin

text \<open>
  The node table compaction builds, and the correctness of \<open>compact_to_roots\<close>: the replacement
  arena is well-formed, holds the reachable nodes only, and every retained root denotes the same
  tree in it, with the same length and commitment.
\<close>

section \<open>Relocated nodes\<close>

definition pos :: "u64 list \<Rightarrow> u64 \<Rightarrow> nat" where
  "pos ids i = length (takeWhile (\<lambda>j. j < i) ids)"

definition moved_root :: "u64 list \<Rightarrow> V2RootRecord \<Rightarrow> V2RootRecord" where
  "moved_root ids r = r\<lparr>root_node_id := pos ids (root_node_id r)\<rparr>"

definition moved_node :: "ArenaNode list \<Rightarrow> u64 list \<Rightarrow> nat \<Rightarrow> ArenaNode" where
  "moved_node ns ids k = (case ns ! (ids ! k) of
     ArenaNode.Leaf off len rec \<Rightarrow> ArenaNode.Leaf (new_offset ns ids k) len
       (rec\<lparr>node_body := V2NodeBody.Leaf (new_offset ns ids k) len\<rparr>)
   | ArenaNode.Branch l r rec \<Rightarrow> ArenaNode.Branch (moved_root ids l) (moved_root ids r)
       (rec\<lparr>node_body := V2NodeBody.Branch (pos ids (root_node_id l)) (pos ids (root_node_id r)) (root_len l)\<rparr>))"

definition moved_nodes :: "ArenaNode list \<Rightarrow> u64 list \<Rightarrow> nat \<Rightarrow> ArenaNode list" where
  "moved_nodes ns ids k = map (moved_node ns ids) [0..<k]"

definition selection :: "env \<Rightarrow> byte list \<Rightarrow> ArenaNode list \<Rightarrow> u64 list \<Rightarrow> bool" where
  "selection E pl ns ids \<longleftrightarrow> sha_ok E \<and> nodes_ok E pl ns \<and> sorted_wrt (<) ids \<and>
     set ids \<subseteq> {..<length ns} \<and> set ids \<subseteq> {..<V2_NONE_NODE} \<and> (\<forall>i\<in>set ids. set (kids (ns ! i)) \<subseteq> set ids)"

lemma selectionD:
  assumes "selection E pl ns ids"
  shows "sha_ok E" "nodes_ok E pl ns" "sorted_wrt (<) ids" "set ids \<subseteq> {..<length ns}"
    "k < length ids \<Longrightarrow> ids ! k < length ns" "k < length ids \<Longrightarrow> ids ! k < V2_NONE_NODE"
    "k < length ids \<Longrightarrow> set (kids (ns ! (ids ! k))) \<subseteq> set ids"
proof -
  show "sha_ok E" "nodes_ok E pl ns" "sorted_wrt (<) ids" "set ids \<subseteq> {..<length ns}"
    using assms by (simp_all add: selection_def)
  assume "k < length ids"
  then have "ids ! k \<in> set ids"
    by simp
  then show "ids ! k < length ns" "ids ! k < V2_NONE_NODE" "set (kids (ns ! (ids ! k))) \<subseteq> set ids"
    using assms unfolding selection_def by blast+
qed

lemma pos_nth: "sorted_wrt (<) ids \<Longrightarrow> p < length ids \<Longrightarrow> pos ids (ids ! p) = p"
proof -
  assume s: "sorted_wrt (<) ids" "p < length ids"
  have "takeWhile (\<lambda>j. j < ids ! p) ids = take p ids"
    using s by (intro takeWhile_eq_take_P_nth) (auto simp: sorted_wrt_iff_nth_less)
  then show ?thesis
    using s(2) by (simp add: pos_def)
qed

lemma moved_meta [simp]:
  "node_height (node_record (moved_node ns ids k)) = node_height (node_record (ns ! (ids ! k)))"
  "node_len (node_record (moved_node ns ids k)) = node_len (node_record (ns ! (ids ! k)))"
  "node_commitment (node_record (moved_node ns ids k)) = node_commitment (node_record (ns ! (ids ! k)))"
  by (cases "ns ! (ids ! k)"; simp add: moved_node_def)+

lemma moved_leaf_bytes [simp]: "leaf_bytes (moved_node ns ids k) = leaf_bytes (ns ! (ids ! k))"
  by (cases "ns ! (ids ! k)") (simp_all add: moved_node_def)

lemma moved_covered: "k \<le> length ids \<Longrightarrow> covered (moved_nodes ns ids k) = new_offset ns ids k"
proof (induction k)
  case (Suc k)
  then show ?case
    by (simp add: moved_nodes_def new_offset_def take_Suc_conv_app_nth)
qed (simp add: moved_nodes_def new_offset_def)

lemma moved_root_simps [simp]:
  "root_node_id (moved_root ids r) = pos ids (root_node_id r)" "root_len (moved_root ids r) = root_len r"
  "root_height (moved_root ids r) = root_height r" "root_commitment (moved_root ids r) = root_commitment r"
  by (simp_all add: moved_root_def)

lemma position_le: "sorted_wrt (<) (ids :: nat list) \<Longrightarrow> k < length ids \<Longrightarrow> k \<le> ids ! k"
proof (induction k)
  case (Suc k)
  then have "ids ! k < ids ! Suc k"
    by (auto simp: sorted_wrt_iff_nth_less)
  with Suc show ?case
    by simp
qed simp

text \<open>A root of a selected node resolves in the relocated table.\<close>

lemma moved_root_from_node:
  assumes s: "selection E pl ns ids" and r: "child_ok ns r" and p: "p < length ids" "ids ! p = root_node_id r"
  shows "pos ids (root_node_id r) = p" "p < V2_NONE_NODE"
    "V2RootRecord_from_node p (node_record (moved_node ns ids p)) = Inr (moved_root ids r)"
proof -
  show pos: "pos ids (root_node_id r) = p"
    using pos_nth [OF selectionD(3) [OF s] p(1)] p(2) by simp
  show lt: "p < V2_NONE_NODE"
    using position_le [OF selectionD(3) [OF s] p(1)] selectionD(6) [OF s p(1)] by simp
  have "V2RootRecord_from_node (root_node_id r) (node_record (ns ! (ids ! p))) = Inr r"
    using r p by (auto simp: child_ok_def get_at_Some_iff)
  then show "V2RootRecord_from_node p (node_record (moved_node ns ids p)) = Inr (moved_root ids r)"
    using lt pos by (cases r) (auto simp: from_node_ok_iff moved_root_def)
qed

lemma sorted_less_nth: "sorted_wrt (<) (ids :: nat list) \<Longrightarrow> p < length ids \<Longrightarrow> ids ! p < ids ! k \<Longrightarrow> p < k"
  by (metis leI less_irrefl less_trans not_less_iff_gr_or_eq sorted_wrt_nth_less)

lemma kid_position:
  assumes s: "selection E pl ns ids" and k: "k < length ids"
    and n: "ns ! (ids ! k) = ArenaNode.Branch l r rec" and x: "x = l \<or> x = r"
  obtains p where "p < k" "ids ! p = root_node_id x" "pos ids (root_node_id x) = p" "p < V2_NONE_NODE"
    "V2RootRecord_from_node p (node_record (moved_node ns ids p)) = Inr (moved_root ids x)"
proof -
  have i: "ids ! k < length ns" and ok: "nodes_ok E pl ns"
    using selectionD [OF s] k by auto
  have kid: "root_node_id x \<in> set (kids (ns ! (ids ! k)))"
    using n x by auto
  have c: "child_ok ns x"
    using nodes_ok_nth [OF ok i] n x by (auto intro: child_ok_prefix)
  obtain p where p: "p < length ids" "ids ! p = root_node_id x"
    using selectionD(7) [OF s k] kid by (auto simp: subset_iff in_set_conv_nth)
  have "ids ! p < ids ! k"
    using kids_prior [OF ok i kid] p by simp
  then have "p < k"
    using sorted_less_nth [OF selectionD(3) [OF s] p(1)] by blast
  then show thesis
    using that p(2) moved_root_from_node [OF s c p] by blast
qed

section \<open>Reconstruction\<close>

definition id_map :: "u64 list \<Rightarrow> nat \<Rightarrow> V2NodeIdMapping list" where
  "id_map ids k = map (\<lambda>p. \<lparr>old_node = ids ! p, new_node = p\<rparr>) [0..<k]"

lemma remap_id:
  assumes "sorted_wrt (<) ids" "k \<le> length ids" "p < k"
  shows "remapped_node_id (id_map ids k) (ids ! p) = Inr p"
proof -
  have keys: "map old_node (id_map ids k) = take k ids"
    using assms(2) by (auto simp: id_map_def intro!: nth_equalityI)
  have "binary_search (take k ids) (take k ids ! p) = Some p"
    using assms by (intro binary_search_nth) (auto simp: sorted_wrt_iff_nth_less)
  then show ?thesis
    using assms(3) by (simp add: remapped_node_id_def keys) (simp add: id_map_def)
qed

lemma new_offset_bound:
  assumes s: "selection E pl ns ids" and k: "k < length ids"
  shows "new_offset ns ids k + leaf_bytes (ns ! (ids ! k)) < width64"
proof -
  have "map (\<lambda>i. ns ! i) ids = map (\<lambda>i. ns ! i) (take k ids) @ ns ! (ids ! k) # map (\<lambda>i. ns ! i) (drop (Suc k) ids)"
    using id_take_nth_drop [OF k] by (metis list.simps(9) map_append)
  then have "new_offset ns ids k + leaf_bytes (ns ! (ids ! k)) \<le> covered (map (\<lambda>i. ns ! i) ids)"
    by (simp add: new_offset_def covered_def)
  also have "\<dots> < width64"
    using covered_subset [of ids ns] selectionD [OF s] covered_u64 [of E pl ns] by (simp add: strict_sorted_iff)
  finally show ?thesis .
qed

lemma moved_leaf:
  assumes s: "selection E pl ns ids" and k: "k < length ids"
    and n: "ns ! (ids ! k) = ArenaNode.Leaf off len rec"
  shows "len = length (take len (drop off pl))"
    "V2NodeRecord_leaf E (new_offset ns ids k) (take len (drop off pl)) = Inr (node_record (moved_node ns ids k))"
proof -
  have leaf: "is_leaf (ns ! (ids ! k))"
    using n by simp
  obtain bs where bs: "len = length bs" "slice_get pl off (off + len) = Some bs" "V2NodeRecord_leaf E off bs = Inr rec"
    using leaf_facts [OF selectionD(2) [OF s] selectionD(5) [OF s k] leaf] n by (metis ArenaNode.inject(1))
  have data: "take len (drop off pl) = bs"
    using bs(2) by (simp add: slice_get_Some_iff)
  show "len = length (take len (drop off pl))"
    using data bs(1) by simp
  show "V2NodeRecord_leaf E (new_offset ns ids k) (take len (drop off pl)) = Inr (node_record (moved_node ns ids k))"
    using bs(3) new_offset_bound [OF s k] unfolding data by (auto simp: leaf_ok_iff moved_node_def n bs(1))
qed

lemma agrees_same: "rebuilt_agrees (node_record (moved_node ns ids k)) (node_record (ns ! (ids ! k))) mh ml mc = Inr ()"
  by (simp add: rebuilt_agrees_def)

lemma rebuild_leaf_ok:
  assumes s: "selection E pl ns ids" and k: "k < length ids" and n: "ns ! (ids ! k) = ArenaNode.Leaf off len rec"
  shows "rebuild_leaf E (compact_bytes pl ns ids) (compact_map ns ids) (node_record (ns ! (ids ! k))) off len =
    Inr (node_record (moved_node ns ids k))"
proof -
  have w: "new_offset ns ids k + len < width64"
    using new_offset_bound [OF s k] n by simp
  show ?thesis
    using remap_leaf [OF selectionD(2-4) [OF s] k n] w moved_leaf(2) [OF s k n] agrees_same
    by (simp add: rebuild_leaf_def try_from_def checked_add_def)
qed

lemma moved_branch:
  assumes s: "selection E pl ns ids" and k: "k < length ids" and n: "ns ! (ids ! k) = ArenaNode.Branch l r rec"
  shows "V2NodeRecord_branch E (moved_root ids l) (moved_root ids r) = Inr (node_record (moved_node ns ids k))"
proof -
  have ok: "V2NodeRecord_branch E l r = Inr rec"
    using nodes_ok_nth [OF selectionD(2) [OF s] selectionD(5) [OF s k]] n by simp
  have "pos ids (root_node_id x) < V2_NONE_NODE" if "x = l \<or> x = r" for x
    using kid_position [OF s k n that] by blast
  with ok show ?thesis
    by (fastforce simp: branch_ok_iff validate_child_root_ok_iff moved_node_def n)
qed

lemma moved_fields:
  assumes s: "selection E pl ns ids" and k: "k < length ids"
  shows "v2_node_fields (node_record (moved_node ns ids k)) = Inr (node_fields (moved_node ns ids k))"
proof (cases "ns ! (ids ! k)")
  case (Leaf off len rec)
  then show ?thesis
    using v2_node_fields_canonical [OF leaf_canonical [OF selectionD(1) [OF s] moved_leaf(2) [OF s k Leaf]]]
    by (simp add: moved_node_def)
next
  case (Branch l r rec)
  have "pos ids (root_node_id x) < width64" if "x = l \<or> x = r" for x
    using kid_position [OF s k Branch that] none_node_width by blast
  then have "node_canonical (node_record (moved_node ns ids k))"
    by (intro branch_canonical [OF selectionD(1) [OF s] moved_branch [OF s k Branch]]) auto
  from v2_node_fields_canonical [OF this] show ?thesis
    by (simp add: moved_node_def Branch)
qed

lemma nth_moved_records:
  "p < k \<Longrightarrow> get_at (map node_record (moved_nodes ns ids k)) p = Some (node_record (moved_node ns ids p))"
  by (simp add: moved_nodes_def get_at_def)

lemma rebuild_branch_ok:
  assumes s: "selection E pl ns ids" and k: "k < length ids" and n: "ns ! (ids ! k) = ArenaNode.Branch l r rec"
  shows "rebuild_branch E (map node_record (moved_nodes ns ids k)) (id_map ids k) (node_record (ns ! (ids ! k)))
      (root_node_id l) (root_node_id r) (root_len l) = Inr (node_record (moved_node ns ids k))"
proof -
  have child: "remapped_node_id (id_map ids k) (root_node_id x) = Inr (pos ids (root_node_id x)) \<and>
      pos ids (root_node_id x) < width64 \<and>
      compact_child (map node_record (moved_nodes ns ids k)) (pos ids (root_node_id x)) (pos ids (root_node_id x)) m =
        Inr (moved_root ids x)" if x: "x = l \<or> x = r" for x m
  proof -
    obtain p where p: "p < k" "ids ! p = root_node_id x" "pos ids (root_node_id x) = p" "p < V2_NONE_NODE"
      "V2RootRecord_from_node p (node_record (moved_node ns ids p)) = Inr (moved_root ids x)"
      by (rule kid_position [OF s k n x])
    show ?thesis
      using remap_id [OF selectionD(3) [OF s] less_imp_le [OF k] p(1)] p none_node_width [OF p(4)]
      by (simp add: compact_child_def nth_moved_records)
  qed
  have fields: "v2_node_fields (node_record (moved_node ns ids k)) =
      Inr (V2NodeFields.Branch (pos ids (root_node_id l)) (pos ids (root_node_id r)) (root_len l))"
    using moved_fields [OF s k] by (simp add: moved_node_def n)
  show ?thesis
    using child [of l] child [of r] moved_branch [OF s k n] agrees_same fields
    by (simp add: rebuild_branch_def try_from_def)
qed

lemma moved_nodes_Suc: "moved_nodes ns ids (Suc k) = moved_nodes ns ids k @ [moved_node ns ids k]"
  by (simp add: moved_nodes_def)

lemma id_map_Suc: "id_map ids (Suc k) = id_map ids k @ [\<lparr>old_node = ids ! k, new_node = k\<rparr>]"
  by (simp add: id_map_def)

lemma rebuild_step:
  assumes s: "selection E pl ns ids" and k: "k < length ids"
  shows "(case node_fields (ns ! (ids ! k)) of
      V2NodeFields.Leaf off len \<Rightarrow>
        rebuild_leaf E (compact_bytes pl ns ids) (compact_map ns ids) (node_record (ns ! (ids ! k))) off len
    | V2NodeFields.Branch l r ll \<Rightarrow>
        rebuild_branch E (map node_record (moved_nodes ns ids k)) (id_map ids k) (node_record (ns ! (ids ! k))) l r ll) =
    Inr (node_record (moved_node ns ids k))"
proof (cases "ns ! (ids ! k)")
  case (Leaf off len rec)
  from rebuild_leaf_ok [OF s k Leaf] show ?thesis
    by (simp add: Leaf)
next
  case (Branch l r rec)
  from rebuild_branch_ok [OF s k Branch] show ?thesis
    by (simp add: Branch)
qed

lemma rebuild_loop_total:
  assumes s: "selection E pl ns ids" and "j + k = length ids"
  shows "rebuild_loop E (map node_record ns) (drop k ids) (compact_bytes pl ns ids) (compact_map ns ids)
      (map node_record (moved_nodes ns ids k)) (id_map ids k) =
    Inr (map node_record (moved_nodes ns ids (length ids)), id_map ids (length ids))"
  using assms(2)
proof (induction j arbitrary: k)
  case (Suc j)
  have k: "k < length ids"
    using Suc.prems by simp
  have i: "ids ! k < length ns" "ids ! k < width64" "k < width64"
    using selectionD(5,6) [OF s k] none_node_width position_le [OF selectionD(3) [OF s] k] by fastforce+
  have "rebuild_loop E (map node_record ns) (drop (Suc k) ids) (compact_bytes pl ns ids) (compact_map ns ids)
      (map node_record (moved_nodes ns ids (Suc k))) (id_map ids (Suc k)) =
    Inr (map node_record (moved_nodes ns ids (length ids)), id_map ids (length ids))"
    using Suc by simp
  then show ?case
    using rebuild_step [OF s k] i k node_fields_ok [OF selectionD(1,2) [OF s] i(1)]
    by (subst Cons_nth_drop_Suc [OF k, symmetric])
      (simp add: try_from_def get_at_def moved_nodes_Suc id_map_Suc, simp add: moved_nodes_def)
qed simp

section \<open>The replacement arena\<close>

lemma moved_child_ok:
  assumes s: "selection E pl ns ids" and r: "child_ok ns r" and p: "p < k" "k \<le> length ids" "ids ! p = root_node_id r"
  shows "child_ok (moved_nodes ns ids k) (moved_root ids r)"
proof -
  have "p < length ids"
    using p by simp
  from moved_root_from_node [OF s r this p(3)] show ?thesis
    using p(1) by (simp add: child_ok_def get_at_def moved_nodes_def)
qed

lemma compact_step:
  assumes s: "selection E pl ns ids" and k: "k < length ids"
  shows "compact_arena_node (moved_nodes ns ids k) (node_record (moved_node ns ids k)) = Inr (moved_node ns ids k)"
proof (cases "ns ! (ids ! k)")
  case (Leaf off len rec)
  then show ?thesis
    using moved_fields [OF s k] by (simp add: compact_arena_node_def moved_node_def)
next
  case (Branch l r rec)
  have child: "pos ids (root_node_id x) < width64 \<and>
      (\<exists>n. get_at (moved_nodes ns ids k) (pos ids (root_node_id x)) = Some n \<and>
         V2RootRecord_from_node (pos ids (root_node_id x)) (node_record n) = Inr (moved_root ids x))"
    if x: "x = l \<or> x = r" for x
    by (rule kid_position [OF s k Branch x]) (auto simp: get_at_def moved_nodes_def none_node_width)
  have n: "moved_node ns ids k = ArenaNode.Branch (moved_root ids l) (moved_root ids r) (node_record (moved_node ns ids k))"
    by (simp add: moved_node_def Branch)
  have "v2_node_fields (node_record (moved_node ns ids k)) =
      Inr (V2NodeFields.Branch (pos ids (root_node_id l)) (pos ids (root_node_id r)) (root_len l))"
    using moved_fields [OF s k] by (simp add: moved_node_def Branch)
  then show ?thesis
    using child [of l] child [of r] n by (auto simp: compact_arena_node_def try_from_def)
qed

lemma compact_nodes_total:
  assumes s: "selection E pl ns ids" and "j + k = length ids"
  shows "compact_nodes (moved_nodes ns ids k) (drop k (map node_record (moved_nodes ns ids (length ids)))) =
    Inr (moved_nodes ns ids (length ids))"
  using assms(2)
proof (induction j arbitrary: k)
  case (Suc j)
  have k: "k < length ids"
    using Suc.prems by simp
  have "drop k (map node_record (moved_nodes ns ids (length ids))) =
      node_record (moved_node ns ids k) # drop (Suc k) (map node_record (moved_nodes ns ids (length ids)))"
    using k by (subst Cons_nth_drop_Suc [symmetric]) (auto simp: moved_nodes_def)
  then show ?case
    using compact_step [OF s k] Suc.IH [of "Suc k"] Suc.prems by (simp add: moved_nodes_Suc)
qed (simp add: moved_nodes_def)

lemma moved_node_ok:
  assumes s: "selection E pl ns ids" and k: "k < length ids"
  shows "node_ok E (compact_bytes pl ns ids) (moved_nodes ns ids k) (moved_node ns ids k)"
proof (cases "ns ! (ids ! k)")
  case (Leaf off len rec)
  note data = remap_leaf [OF selectionD(2-4) [OF s] k Leaf] moved_leaf(2) [OF s k Leaf]
  have "moved_node ns ids k = ArenaNode.Leaf (new_offset ns ids k) len (node_record (moved_node ns ids k))"
    by (simp add: moved_node_def Leaf)
  moreover have "covered (moved_nodes ns ids k) = new_offset ns ids k"
    using moved_covered k by simp
  ultimately show ?thesis
    using data by (metis node_ok.simps(1))
next
  case (Branch l r rec)
  have child: "child_ok (moved_nodes ns ids k) (moved_root ids x)" if x: "x = l \<or> x = r" for x
  proof (rule kid_position [OF s k Branch x])
    fix p
    assume "p < k" "ids ! p = root_node_id x"
    moreover have "child_ok ns x"
      using nodes_ok_nth [OF selectionD(2) [OF s] selectionD(5) [OF s k]] Branch x by (auto intro: child_ok_prefix)
    ultimately show ?thesis
      using moved_child_ok [OF s] k by simp
  qed
  have "moved_node ns ids k = ArenaNode.Branch (moved_root ids l) (moved_root ids r) (node_record (moved_node ns ids k))"
    by (simp add: moved_node_def Branch)
  then show ?thesis
    using child moved_branch [OF s k Branch] by (metis node_ok.simps(2))
qed

lemma take_moved_nodes: "k \<le> n \<Longrightarrow> take k (moved_nodes ns ids n) = moved_nodes ns ids k"
  by (simp add: moved_nodes_def take_map)

lemma length_moved_nodes [simp]: "length (moved_nodes ns ids k) = k"
  by (simp add: moved_nodes_def)

lemma length_compact_bytes:
  assumes "selection E pl ns ids"
  shows "length (compact_bytes pl ns ids) = new_offset ns ids (length ids)"
proof -
  have "length (concat (map (leaf_data pl) ys)) = covered ys" if "list_all (leaf_in pl) ys" for ys
    using that by (induction ys) (auto simp: leaf_data_length covered_def)
  from this [OF leaves_in [OF selectionD(2,4) [OF assms]]] show ?thesis
    by (simp add: compact_bytes_def new_offset_def covered_leaves)
qed

definition compacted :: "V2AvlSequence \<Rightarrow> u64 list \<Rightarrow> V2AvlSequence" where
  "compacted a ids = \<lparr>seq_payload = compact_bytes (seq_payload a) (seq_nodes a) ids,
     seq_nodes = moved_nodes (seq_nodes a) ids (length ids)\<rparr>"

lemma compacted_wf:
  assumes s: "selection E (seq_payload a) (seq_nodes a) ids"
  shows "arena_wf E (compacted a ids)"
  using moved_node_ok [OF s] length_compact_bytes [OF s] moved_covered [of "length ids" ids "seq_nodes a"]
  by (simp add: arena_wf_def nodes_ok_def compacted_def take_moved_nodes) (simp add: moved_nodes_def)

lemma moved_rep:
  assumes s: "selection E pl ns ids"
  shows "rep E pl ns root t \<Longrightarrow> root_node_id root \<in> set ids \<Longrightarrow>
    rep E (compact_bytes pl ns ids) (moved_nodes ns ids (length ids)) (moved_root ids root) t"
proof (induction t arbitrary: root)
  case (Lf bs)
  obtain p where p: "p < length ids" "ids ! p = root_node_id root"
    using Lf.prems(2) by (auto simp: in_set_conv_nth)
  obtain off rec where n: "ns ! (ids ! p) = ArenaNode.Leaf off (length bs) rec" and bs: "bs = take (length bs) (drop off pl)"
    using Lf.prems(1) p by (auto simp: slice_get_Some_iff get_at_def split: if_splits)
  note m = moved_root_from_node [OF s rep_child_ok [OF Lf.prems(1)] p]
  have node: "moved_nodes ns ids (length ids) ! p =
      ArenaNode.Leaf (new_offset ns ids p) (length bs) (node_record (moved_node ns ids p))"
    using p(1) by (simp add: moved_nodes_def) (simp add: moved_node_def n)
  show ?case
    using remap_leaf [OF selectionD(2-4) [OF s] p(1) n] moved_leaf(2) [OF s p(1) n] bs m p(1) node
    by (auto simp: get_at_def)
next
  case (Br lt rt)
  obtain p where p: "p < length ids" "ids ! p = root_node_id root"
    using Br.prems(2) by (auto simp: in_set_conv_nth)
  obtain l r rec where n: "ns ! (ids ! p) = ArenaNode.Branch l r rec" and lr: "rep E pl ns l lt" "rep E pl ns r rt"
    using Br.prems(1) p by (auto simp: get_at_def split: if_splits)
  note m = moved_root_from_node [OF s rep_child_ok [OF Br.prems(1)] p]
  have "root_node_id l \<in> set ids" "root_node_id r \<in> set ids"
    using selectionD(7) [OF s p(1)] n by auto
  note kids = Br.IH(1) [OF lr(1) this(1)] Br.IH(2) [OF lr(2) this(2)]
  have node: "moved_nodes ns ids (length ids) ! p =
      ArenaNode.Branch (moved_root ids l) (moved_root ids r) (node_record (moved_node ns ids p))"
    using p(1) by (simp add: moved_nodes_def) (simp add: moved_node_def n)
  show ?case
    using kids moved_branch [OF s p(1) n] m p(1) node by (auto simp: get_at_def)
qed

section \<open>Compaction to retained roots\<close>

lemma reachable_selection:
  assumes "sha_ok E" "nodes_ok E pl ns" and set: "set (retained_ids ns seeds) = reachable ns seeds"
    and "reachable ns seeds \<subseteq> {..<length ns} \<inter> {..<V2_NONE_NODE}"
  shows "selection E pl ns (retained_ids ns seeds)"
  using assms by (auto simp: selection_def set retained_ids_def intro: reachable.kid)

lemma remap_root:
  assumes s: "selection E pl ns ids" and r: "child_ok ns r" "root_node_id r \<in> set ids"
  shows "compact_root (moved_nodes ns ids (length ids)) (id_map ids (length ids)) r = Inr (moved_root ids r)"
proof -
  obtain p where p: "p < length ids" "ids ! p = root_node_id r"
    using r(2) by (auto simp: in_set_conv_nth)
  note m = moved_root_from_node [OF s r(1) p]
  show ?thesis
    using remap_id [OF selectionD(3) [OF s], of "length ids" p] p m none_node_width [OF m(2)]
    by (simp add: compact_root_def try_from_def get_at_def) (simp add: moved_nodes_def)
qed

definition live_ids :: "V2AvlSequence \<Rightarrow> V2RootRecord list \<Rightarrow> u64 list" where
  "live_ids a roots = retained_ids (seq_nodes a) (map root_node_id roots)"

lemma compact_outcome:
  assumes sha: "sha_ok E" and wf: "arena_wf E a" and roots: "\<forall>r\<in>set roots. child_ok (seq_nodes a) r"
    and room: "length (seq_nodes a) + length roots < width64"
  defines "ids \<equiv> live_ids a roots"
  shows "(\<exists>m. compact_to_roots E a roots = Inl (V2AvlError.Capacity m) \<and> reservation_refused E m) \<or>
    compact_to_roots E a roots = Inr (compacted a ids, map (moved_root ids) roots) \<and>
      selection E (seq_payload a) (seq_nodes a) ids \<and> set ids = reachable (seq_nodes a) (map root_node_id roots)"
proof -
  let ?pl = "seq_payload a" and ?ns = "seq_nodes a" and ?seeds = "map root_node_id roots"
  have ok: "nodes_ok E ?pl ?ns" and pl: "length ?pl < width64"
    using wf covered_u64 [of E ?pl ?ns] by (auto simp: arena_wf_def)
  obtain xs where tr: "traverse (node_for_root_on memory_arena a) roots = Inr xs"
    using roots by (induction roots) (auto simp: resolves_iff_child_ok [symmetric] is_ok_iff result_iffs)
  have seeds: "\<forall>i\<in>set ?seeds. i < length ?ns \<and> i < V2_NONE_NODE"
    using roots by (auto simp: child_ok_def get_at_Some_iff)
  note plan = plan_reachable_total [OF sha ok pl _ seeds, unfolded length_map, OF room]
  show ?thesis
  proof (cases "plan_reachable_arena E ?pl (map node_record ?ns) ?seeds")
    case (Inl e)
    then show ?thesis
      using plan by (auto simp: planned_def compact_to_roots_def tr intro: reservation_refusedI)
  next
    case planr: (Inr r)
    have r: "r = (ids, map (\<lambda>i. leaf_range (?ns ! i)) (retained_leaves ?ns ids))"
      and ids: "set ids = reachable ?ns ?seeds" "set ids \<subseteq> {..<length ?ns} \<inter> {..<V2_NONE_NODE}"
      using plan planr by (auto simp: planned_def ids_def live_ids_def)
    have s: "selection E ?pl ?ns ids"
      using reachable_selection [OF sha ok] ids by (simp add: ids_def live_ids_def)
    note pack = repack_total [OF selectionD(2-4) [OF s]]
    have roots': "traverse (compact_root (moved_nodes ?ns ids (length ids)) (id_map ids (length ids))) roots =
        Inr (map (moved_root ids) roots)"
      using roots ids(1) by (intro traverse_map_Inr remap_root [OF s]) (auto intro: reachable.seed)
    have same: "\<not> list_ex (\<lambda>(old, new). root_commitment old \<noteq> root_commitment new \<or> root_len old \<noteq> root_len new)
        (zip roots (map (moved_root ids) roots))"
      by (induction roots) auto
    note loop = rebuild_loop_total [OF s, of "length ids" 0] compact_nodes_total [OF s, of "length ids" 0]
    have empty: "moved_nodes ?ns ids 0 = []" "id_map ids 0 = []"
      by (simp_all add: moved_nodes_def id_map_def)
    show ?thesis
    proof (cases "repack_compact_ranges E ?pl (map (\<lambda>i. leaf_range (?ns ! i)) (retained_leaves ?ns ids))")
      case (Inl e)
      then show ?thesis
        using pack planr r by (auto simp: planned_def compact_to_roots_def tr intro: reservation_refusedI)
    next
      case (Inr q)
      then have q: "q = (compact_bytes ?pl ?ns ids, compact_map ?ns ids)"
        using pack by (simp add: planned_def)
      show ?thesis
        using planr r Inr q loop roots' same s ids(1) unfolding empty
        by (auto simp: compact_to_roots_def tr rebuild_compact_records_def compacted_def intro: reservation_refusedI)
    qed
  qed
qed

text \<open>A retained root reads in the compact arena as in the original.\<close>

lemma moved_reads:
  assumes wf: "arena_wf E a" and sel: "selection E (seq_payload a) (seq_nodes a) ids"
    and r: "child_ok (seq_nodes a) r" "root_node_id r \<in> set ids"
  shows "read_range E (compacted a ids) (moved_root ids r) off len = read_range E a r off len"
proof -
  obtain t where t: "rep E (seq_payload a) (seq_nodes a) r t"
    using r(1) wf unfolding arena_wf_def by (blast dest: nodes_ok_rep)
  have "rep E (seq_payload (compacted a ids)) (seq_nodes (compacted a ids)) (moved_root ids r) t"
    using moved_rep [OF sel t] r(2) by (simp add: compacted_def)
  from read_range_rep_exact [OF wf_good [OF compacted_wf [OF sel]] this] read_range_rep_exact [OF wf_good [OF wf] t]
  show ?thesis
    by simp
qed

lemma live_ids_count: "length (live_ids a roots) = card (set (live_ids a roots))"
  by (simp add: live_ids_def retained_ids_def distinct_card)


text \<open>
  C21.  Compaction keeps every retained version and nothing else.  On a well-formed arena with
  resolving roots, \<open>compact_to_roots\<close> either stops because the allocator refused a reservation, or
  returns a well-formed arena whose node table is exactly the nodes reachable from the roots and
  whose new roots have the same length, height and commitment and answer every range read as the
  old ones did.
\<close>

theorem compaction_preserves_versions:
  assumes sha: "sha_ok E" and wf: "arena_wf E a"
    and roots: "\<forall>r\<in>set roots. is_ok (node_for_root_on memory_arena a r)"
    and room: "length (seq_nodes a) + length roots < width64"
  shows "case compact_to_roots E a roots of
    Inl e \<Rightarrow> \<exists>m n. e = V2AvlError.Capacity m \<and> \<not> try_reserve E m n
  | Inr (b, new_roots) \<Rightarrow> arena_wf E b \<and>
      length (seq_nodes b) = card (reachable (seq_nodes a) (map root_node_id roots)) \<and>
      list_all2 (\<lambda>old new. root_len new = root_len old \<and> root_height new = root_height old \<and>
        root_commitment new = root_commitment old \<and>
        (\<forall>off len. read_range E b new off len = read_range E a old off len)) roots new_roots"
proof -
  let ?ids = "live_ids a roots"
  have ok: "\<forall>r\<in>set roots. child_ok (seq_nodes a) r"
    using roots by (simp add: resolves_iff_child_ok)
  have reads: "read_range E (compacted a ?ids) (moved_root ?ids r) off len = read_range E a r off len"
    if "selection E (seq_payload a) (seq_nodes a) ?ids"
      "set ?ids = reachable (seq_nodes a) (map root_node_id roots)" and "r \<in> set roots" for r off len
  proof -
    have "root_node_id r \<in> set ?ids"
      using that(3) by (auto simp: that(2) intro: reachable.seed)
    then show ?thesis
      using moved_reads [OF wf that(1)] ok that(3) by blast
  qed
  from compact_outcome [OF sha wf ok room] show ?thesis
  proof (elim disjE conjE exE)
    assume "compact_to_roots E a roots = Inr (compacted a ?ids, map (moved_root ?ids) roots)"
      "selection E (seq_payload a) (seq_nodes a) ?ids" "set ?ids = reachable (seq_nodes a) (map root_node_id roots)"
    then show ?thesis
      using reads compacted_wf live_ids_count [of a roots]
      by (auto simp: list.rel_map list_all2_same) (simp add: compacted_def)
  qed (auto simp: reservation_refused_def)
qed

theorem compaction_preserves_versions_witness:
  "case compact_to_roots sample_env sample_seq [sample_root] of
    Inl e \<Rightarrow> \<exists>m n. e = V2AvlError.Capacity m \<and> \<not> try_reserve sample_env m n
  | Inr (b, new_roots) \<Rightarrow> arena_wf sample_env b \<and>
      length (seq_nodes b) = card (reachable (seq_nodes sample_seq) (map root_node_id [sample_root])) \<and>
      list_all2 (\<lambda>old new. root_len new = root_len old \<and> root_height new = root_height old \<and>
        root_commitment new = root_commitment old \<and>
        (\<forall>off len. read_range sample_env b new off len = read_range sample_env sample_seq old off len))
        [sample_root] new_roots"
  by (rule compaction_preserves_versions [OF sample_env_ok sample_wf])
    (simp_all add: sample_resolves, simp add: sample_seq_def width64_def)

end
