(* ===== verification/Sequence_Seam.thy ===== *)
theory Sequence_Seam
  imports Compaction_Memory
begin

text \<open>
  The sequence seam of \<open>persistent_sequence.rs\<close>: \<open>BalancedSequence\<close>, the one type the history
  store talks to.  It holds either the in-memory arena or the durable physical content store,
  resolves opaque roots to canonical root records, and keeps the diagnostic work counters.

  The physical content store (\<open>physical.rs\<close>, file-backed) is the parameter \<open>PhysicalContent\<close>: one
  field per operation of that module the seam calls.  The I/O ledger of \<open>physical.rs\<close>, which only
  counts bytes and wall-clock time, is left out.
\<close>

section \<open>Data\<close>

datatype SequenceRepresentation = LegacyV1 | BalancedV2

record PersistentRoot =
  proot_node_id :: u64
  proot_logical_len :: u64
  representation :: SequenceRepresentation

definition balanced_v2 :: "u64 \<Rightarrow> u64 \<Rightarrow> PersistentRoot" where
  "balanced_v2 node_id len = \<lparr>proot_node_id = node_id, proot_logical_len = len, representation = BalancedV2\<rparr>"

definition legacy_v1 :: "u64 \<Rightarrow> u64 \<Rightarrow> PersistentRoot" where
  "legacy_v1 node_id len = \<lparr>proot_node_id = node_id, proot_logical_len = len, representation = LegacyV1\<rparr>"

record SequenceRange =
  range_offset :: u64
  range_length :: u64
  range_end :: u64

definition SequenceRange_new :: "u64 \<Rightarrow> u64 \<Rightarrow> SequenceRange option" where
  "SequenceRange_new off len =
     map_option (\<lambda>e. \<lparr>range_offset = off, range_length = len, range_end = e\<rparr>) (checked_add width64 off len)"

datatype SequenceError = Avl V2AvlError | Invalid msg | Capacity msg

record SequenceWorkCounters =
  nodes_allocated :: u64
  nodes_inspected :: u64
  nodes_read :: u64
  payload_bytes_read :: u64
  payload_bytes_written :: u64

definition no_work :: SequenceWorkCounters where
  "no_work = \<lparr>nodes_allocated = 0, nodes_inspected = 0, nodes_read = 0, payload_bytes_read = 0,
     payload_bytes_written = 0\<rparr>"

record SpliceResult =
  result_root :: PersistentRoot
  result_nodes_allocated :: u64
  result_nodes_inspected :: u64
  result_payload_bytes_allocated :: u64

section \<open>The physical content store\<close>

record PhysicalDelta =
  old_payload_end :: u64
  old_node_count :: u64
  new_payload_end :: u64
  new_node_count :: u64
  delta_payload :: "byte list"
  delta_nodes :: "byte list"
  delta_root :: V2RootRecord
  delta_digest :: "byte list"
  delta_allocated_nodes :: usize
  delta_inspected_nodes :: usize
  delta_payload_bytes_allocated :: usize

record 'p PhysicalGcBuild =
  build_store :: 'p
  build_roots :: "V2RootRecord list"
  build_nodes_before :: u64
  build_nodes_after :: u64
  build_payload_bytes_before :: u64
  build_payload_bytes_after :: u64

text \<open>
  The arguments of \<open>validate_committed_delta\<close> after the store: generation, payload start and end,
  node start and end, delta digest, encoded result root and result length.
\<close>

record 'p PhysicalContent =
  content_arena :: "'p ArenaStore"
  content_generation :: "'p \<Rightarrow> u64"
  committed_payload_end :: "'p \<Rightarrow> u64"
  committed_node_count :: "'p \<Rightarrow> u64"
  load_record :: "'p \<Rightarrow> u64 \<Rightarrow> V2AvlError + V2NodeRecord"
  load_all_records :: "'p \<Rightarrow> V2AvlError + V2NodeRecord list"
  read_all_payload :: "'p \<Rightarrow> V2AvlError + byte list"
  content_heal_for_write :: "'p \<Rightarrow> (V2AvlError + unit) \<times> 'p"
  append_payload_delta :: "byte list \<Rightarrow> 'p \<Rightarrow> (V2AvlError + unit) \<times> 'p"
  append_node_delta :: "byte list \<Rightarrow> 'p \<Rightarrow> (V2AvlError + unit) \<times> 'p"
  sync_content :: "'p \<Rightarrow> (V2AvlError + unit) \<times> 'p"
  rollback_to_committed :: "'p \<Rightarrow> bool \<times> 'p"
  adopt_frontiers :: "u64 \<Rightarrow> u64 \<Rightarrow> 'p \<Rightarrow> 'p"
  check_files_cover_frontiers :: "'p \<Rightarrow> V2AvlError + unit"
  prepare_physical_delta ::
    "'p \<Rightarrow> V2RootRecord option \<Rightarrow> u64 \<Rightarrow> u64 \<Rightarrow> byte list \<Rightarrow> u64 \<Rightarrow> (V2AvlError + PhysicalDelta) option"
  validate_committed_delta ::
    "'p \<Rightarrow> u64 \<Rightarrow> u64 \<Rightarrow> u64 \<Rightarrow> u64 \<Rightarrow> u64 \<Rightarrow> byte list \<Rightarrow> byte list \<Rightarrow> u64 \<Rightarrow> V2AvlError + V2RootRecord"
  compact_physical_generation ::
    "'p \<Rightarrow> V2RootRecord list \<Rightarrow> u64 \<Rightarrow> V2AvlError + 'p PhysicalGcBuild"

section \<open>The sequence\<close>

datatype 'p SequenceBackend = Memory V2AvlSequence | Physical 'p

record 'p BalancedSequence =
  backend :: "'p SequenceBackend"
  work :: SequenceWorkCounters

type_synonym ('p, 'r) seam_prog = "('p BalancedSequence, SequenceError, 'r) prog"

definition BalancedSequence_new :: "'p BalancedSequence" where
  "BalancedSequence_new = \<lparr>backend = Memory empty_seq, work = no_work\<rparr>"

definition open_physical :: "'p \<Rightarrow> 'p BalancedSequence" where
  "open_physical st = \<lparr>backend = Physical st, work = no_work\<rparr>"

definition backend_is_physical :: "'p BalancedSequence \<Rightarrow> bool" where
  "backend_is_physical b = (case backend b of Memory _ \<Rightarrow> False | Physical _ \<Rightarrow> True)"

definition physical_generation :: "'p PhysicalContent \<Rightarrow> 'p BalancedSequence \<Rightarrow> u64 option" where
  "physical_generation P b = (case backend b of Memory _ \<Rightarrow> None | Physical st \<Rightarrow> Some (content_generation P st))"

definition physical_frontiers :: "'p PhysicalContent \<Rightarrow> 'p BalancedSequence \<Rightarrow> (u64 \<times> u64) option" where
  "physical_frontiers P b = (case backend b of Memory _ \<Rightarrow> None
     | Physical st \<Rightarrow> Some (committed_payload_end P st, committed_node_count P st))"

text \<open>\<open>u64::try_from(n).unwrap_or(u64::MAX)\<close>\<close>

definition u64_or_max :: "usize \<Rightarrow> u64" where
  "u64_or_max n = (if n < width64 then n else width64 - 1)"

definition balanced_is_empty :: "'p PhysicalContent \<Rightarrow> 'p BalancedSequence \<Rightarrow> bool" where
  "balanced_is_empty P b = (case backend b of
     Memory inner \<Rightarrow> seq_is_empty inner
   | Physical st \<Rightarrow> committed_payload_end P st = 0 \<and> committed_node_count P st = 0)"

definition node_count :: "'p PhysicalContent \<Rightarrow> 'p BalancedSequence \<Rightarrow> u64" where
  "node_count P b = (case backend b of
     Memory inner \<Rightarrow> u64_or_max (length (seq_nodes inner)) | Physical st \<Rightarrow> committed_node_count P st)"

definition payload_len :: "'p PhysicalContent \<Rightarrow> 'p BalancedSequence \<Rightarrow> u64" where
  "payload_len P b = (case backend b of
     Memory inner \<Rightarrow> u64_or_max (length (seq_payload inner)) | Physical st \<Rightarrow> committed_payload_end P st)"

definition resolve :: "'p PhysicalContent \<Rightarrow> 'p BalancedSequence \<Rightarrow> PersistentRoot \<Rightarrow> SequenceError + V2RootRecord"
where
  "resolve P b root =
    (if representation root \<noteq> BalancedV2 then
       Inl (SequenceError.Invalid ''balanced sequence backend received an incompatible root'')
     else
       bindR (case backend b of
                Memory inner \<Rightarrow> map_err SequenceError.Avl (root_for_node_id inner (proot_node_id root))
              | Physical st \<Rightarrow>
                  bindR (map_err SequenceError.Avl (load_record P st (proot_node_id root))) (\<lambda>rec.
                  map_err (\<lambda>e. SequenceError.Avl (V2AvlError.Format e))
                    (V2RootRecord_from_node (proot_node_id root) rec))) (\<lambda>canonical.
       if root_len canonical \<noteq> proot_logical_len root then
         Inl (SequenceError.Invalid ''balanced sequence root length disagrees with arena'')
       else Inr canonical))"

definition resolve_option ::
  "'p PhysicalContent \<Rightarrow> 'p BalancedSequence \<Rightarrow> PersistentRoot option \<Rightarrow> SequenceError + V2RootRecord option" where
  "resolve_option P b parent = (case parent of
     None \<Rightarrow> Inr None
   | Some root \<Rightarrow> bindR (resolve P b root) (\<lambda>r. Inr (Some r)))"

definition logical_len :: "'p PhysicalContent \<Rightarrow> 'p BalancedSequence \<Rightarrow> PersistentRoot \<Rightarrow> SequenceError + u64" where
  "logical_len P b root = bindR (resolve P b root) (\<lambda>r. Inr (root_len r))"

definition canonical_root_bytes ::
  "'p PhysicalContent \<Rightarrow> 'p BalancedSequence \<Rightarrow> PersistentRoot \<Rightarrow> SequenceError + byte list" where
  "canonical_root_bytes P b root = bindR (resolve P b root) (\<lambda>r. Inr (encode_v2_root r))"

definition decode_canonical_root_bytes :: "byte list \<Rightarrow> SequenceError + PersistentRoot" where
  "decode_canonical_root_bytes bytes =
     bindR (map_err (\<lambda>e. SequenceError.Avl (V2AvlError.Format e)) (decode_v2_root bytes)) (\<lambda>root.
     Inr (balanced_v2 (root_node_id root) (root_len root)))"

subsection \<open>Work counters\<close>

definition note_read :: "u64 \<Rightarrow> usize \<Rightarrow> 'p BalancedSequence \<Rightarrow> 'p BalancedSequence" where
  "note_read nodes bytes b = b\<lparr>work := (work b)
     \<lparr>nodes_read := saturating_add width64 (nodes_read (work b)) nodes,
      payload_bytes_read := saturating_add width64 (payload_bytes_read (work b)) (u64_or_max bytes)\<rparr>\<rparr>"

definition note_written :: "usize \<Rightarrow> usize \<Rightarrow> usize \<Rightarrow> 'p BalancedSequence \<Rightarrow> 'p BalancedSequence" where
  "note_written allocated inspected bytes b = b\<lparr>work := (work b)
     \<lparr>nodes_allocated := saturating_add width64 (nodes_allocated (work b)) (u64_or_max allocated),
      nodes_inspected := saturating_add width64 (nodes_inspected (work b)) (u64_or_max inspected),
      payload_bytes_written := saturating_add width64 (payload_bytes_written (work b)) (u64_or_max bytes)\<rparr>\<rparr>"

definition modifyP :: "('s \<Rightarrow> 's) \<Rightarrow> ('s, 'e, unit) prog" where
  "modifyP f s = Some (Inr (), f s)"

subsection \<open>Reads and verification\<close>

definition seam_read_range ::
  "env \<Rightarrow> 'p PhysicalContent \<Rightarrow> PersistentRoot \<Rightarrow> SequenceRange \<Rightarrow> byte list \<Rightarrow> ('p, byte list) seam_prog" where
  "seam_read_range E P root rng out =
     bindP (readP (\<lambda>b. resolve P b root)) (\<lambda>canonical.
     bindP (\<lambda>b. case (case backend b of
                       Memory inner \<Rightarrow>
                         read_range_counted E inner canonical (range_offset rng) (range_length rng)
                     | Physical st \<Rightarrow>
                         read_range_counted_on E (content_arena P) st canonical (range_offset rng) (range_length rng)) of
                  None \<Rightarrow> None
                | Some r \<Rightarrow> Some (map_err SequenceError.Avl r, b)) (\<lambda>(bytes, visited).
     bindP (modifyP (note_read visited (length bytes))) (\<lambda>_.
     retP (out @ bytes))))"

definition seam_verify :: "env \<Rightarrow> 'p PhysicalContent \<Rightarrow> PersistentRoot \<Rightarrow> ('p, unit) seam_prog" where
  "seam_verify E P root =
     bindP (readP (\<lambda>b. resolve P b root)) (\<lambda>canonical.
     bindP (\<lambda>b. case (case backend b of
                       Memory inner \<Rightarrow> verify_root_counted E inner canonical
                     | Physical st \<Rightarrow> verify_root_counted_on E (content_arena P) st canonical) of
                  None \<Rightarrow> None
                | Some r \<Rightarrow> Some (map_err SequenceError.Avl r, b)) (\<lambda>visited.
     modifyP (note_read visited 0)))"

subsection \<open>The physical commit protocol\<close>

definition prepare_physical_splice ::
  "'p PhysicalContent \<Rightarrow> PersistentRoot option \<Rightarrow> u64 \<Rightarrow> u64 \<Rightarrow> byte list \<Rightarrow> u64 \<Rightarrow>
   ('p, PhysicalDelta) seam_prog" where
  "prepare_physical_splice P parent off delete_len ins result_len b = (case backend b of
     Memory _ \<Rightarrow> Some (Inl (SequenceError.Invalid ''physical splice preparation requires a durable physical backend''), b)
   | Physical st \<Rightarrow> (case resolve_option P b parent of
       Inl e \<Rightarrow> Some (Inl e, b)
     | Inr resolved \<Rightarrow> (case prepare_physical_delta P st resolved off delete_len ins result_len of
         None \<Rightarrow> None
       | Some r \<Rightarrow> Some (map_err SequenceError.Avl r, b))))"

text \<open>A step of the physical store inside the sequence.\<close>

definition physicalP ::
  "msg \<Rightarrow> ('p \<Rightarrow> (V2AvlError + 'r) \<times> 'p) \<Rightarrow> ('p, 'r) seam_prog" where
  "physicalP m f b = (case backend b of
     Memory _ \<Rightarrow> Some (Inl (SequenceError.Invalid m), b)
   | Physical st \<Rightarrow> (case f st of (r, st') \<Rightarrow> Some (map_err SequenceError.Avl r, b\<lparr>backend := Physical st'\<rparr>)))"

definition commit_delta_steps ::
  "'p PhysicalContent \<Rightarrow> PhysicalDelta \<Rightarrow> 'p \<Rightarrow> (V2AvlError + unit) \<times> 'p" where
  "commit_delta_steps P delta st = (case content_heal_for_write P st of
     (Inl e, st) \<Rightarrow> (Inl e, st)
   | (Inr _, st) \<Rightarrow> (case append_payload_delta P (delta_payload delta) st of
       (Inl e, st) \<Rightarrow> (Inl e, st)
     | (Inr _, st) \<Rightarrow> (case append_node_delta P (delta_nodes delta) st of
         (Inl e, st) \<Rightarrow> (Inl e, snd (rollback_to_committed P st))
       | (Inr _, st) \<Rightarrow> (Inr (), st))))"

definition commit_physical_delta :: "'p PhysicalContent \<Rightarrow> PhysicalDelta \<Rightarrow> ('p, unit) seam_prog" where
  "commit_physical_delta P delta =
     physicalP ''physical delta commit requires a durable physical backend'' (commit_delta_steps P delta)"

definition sync_physical_content :: "'p PhysicalContent \<Rightarrow> ('p, unit) seam_prog" where
  "sync_physical_content P =
     physicalP ''physical content sync requires a durable physical backend'' (sync_content P)"

definition rollback_physical_to_committed :: "'p PhysicalContent \<Rightarrow> ('p, bool) seam_prog" where
  "rollback_physical_to_committed P b = (case backend b of
     Memory _ \<Rightarrow> Some (Inr True, b)
   | Physical st \<Rightarrow> (case rollback_to_committed P st of (ok, st') \<Rightarrow> Some (Inr ok, b\<lparr>backend := Physical st'\<rparr>)))"

definition adopt_physical_delta :: "'p PhysicalContent \<Rightarrow> PhysicalDelta \<Rightarrow> 'p BalancedSequence \<Rightarrow> 'p BalancedSequence"
where
  "adopt_physical_delta P delta b = (case backend b of
     Memory _ \<Rightarrow> b
   | Physical st \<Rightarrow> note_written (delta_allocated_nodes delta) (delta_inspected_nodes delta)
       (delta_payload_bytes_allocated delta)
       (b\<lparr>backend := Physical (adopt_frontiers P (new_payload_end delta) (new_node_count delta) st)\<rparr>))"

definition replay_physical_delta ::
  "'p PhysicalContent \<Rightarrow> u64 \<Rightarrow> u64 \<Rightarrow> u64 \<Rightarrow> u64 \<Rightarrow> u64 \<Rightarrow> byte list \<Rightarrow> byte list \<Rightarrow> u64 \<Rightarrow>
   ('p, PersistentRoot) seam_prog" where
  "replay_physical_delta P generation payload_start payload_end node_start node_end digest root_bytes result_len =
     physicalP ''physical delta replay requires a durable physical backend'' (\<lambda>st.
       case validate_committed_delta P st generation payload_start payload_end node_start node_end digest
              root_bytes result_len of
         Inl e \<Rightarrow> (Inl e, st)
       | Inr root \<Rightarrow> (Inr (balanced_v2 (root_node_id root) (root_len root)),
           adopt_frontiers P payload_end node_end st))"

definition check_physical_frontiers :: "'p PhysicalContent \<Rightarrow> 'p BalancedSequence \<Rightarrow> SequenceError + unit" where
  "check_physical_frontiers P b = (case backend b of
     Memory _ \<Rightarrow> Inr () | Physical st \<Rightarrow> map_err SequenceError.Avl (check_files_cover_frontiers P st))"

definition heal_physical_for_write :: "'p PhysicalContent \<Rightarrow> ('p, unit) seam_prog" where
  "heal_physical_for_write P b = (case backend b of
     Memory _ \<Rightarrow> Some (Inr (), b)
   | Physical st \<Rightarrow> (case content_heal_for_write P st of
       (r, st') \<Rightarrow> Some (map_err SequenceError.Avl r, b\<lparr>backend := Physical st'\<rparr>)))"

subsection \<open>Splice and append\<close>

definition memory_splice ::
  "env \<Rightarrow> V2RootRecord option \<Rightarrow> u64 \<Rightarrow> u64 \<Rightarrow> byte list \<Rightarrow> ('p, V2SpliceResult) seam_prog" where
  "memory_splice E resolved off delete_len ins b = (case backend b of
     Physical _ \<Rightarrow> Some (Inl (SequenceError.Invalid ''balanced sequence backend disappeared during splice''), b)
   | Memory inner \<Rightarrow> (case splice_seq E resolved off delete_len ins inner of
       None \<Rightarrow> None
     | Some (r, inner') \<Rightarrow> Some (map_err SequenceError.Avl r, b\<lparr>backend := Memory inner'\<rparr>)))"

definition physical_splice ::
  "'p PhysicalContent \<Rightarrow> PersistentRoot option \<Rightarrow> u64 \<Rightarrow> u64 \<Rightarrow> byte list \<Rightarrow> u64 \<Rightarrow> ('p, SpliceResult) seam_prog" where
  "physical_splice P parent off delete_len ins result_len =
     bindP (prepare_physical_splice P parent off delete_len ins result_len) (\<lambda>delta.
     bindP (commit_physical_delta P delta) (\<lambda>_.
     bindP (sync_physical_content P) (\<lambda>_.
     bindP (modifyP (adopt_physical_delta P delta)) (\<lambda>_.
     retP \<lparr>result_root = balanced_v2 (root_node_id (delta_root delta)) result_len,
           result_nodes_allocated = u64_or_max (delta_allocated_nodes delta),
           result_nodes_inspected = u64_or_max (delta_inspected_nodes delta),
           result_payload_bytes_allocated = u64_or_max (delta_payload_bytes_allocated delta)\<rparr>))))"

definition seam_splice ::
  "env \<Rightarrow> 'p PhysicalContent \<Rightarrow> PersistentRoot option \<Rightarrow> u64 \<Rightarrow> u64 \<Rightarrow> byte list \<Rightarrow> ('p, SpliceResult) seam_prog" where
  "seam_splice E P parent off delete_len ins =
     bindP (readP (\<lambda>b. resolve_option P b parent)) (\<lambda>resolved.
     let parent_len = (case resolved of None \<Rightarrow> 0 | Some r \<Rightarrow> root_len r) in
     bindP (liftP (ok_or (SequenceError.Invalid ''balanced sequence insert length exceeds u64'')
       (try_from width64 (length ins)))) (\<lambda>insert_len.
     bindP (liftP (ok_or (SequenceError.Invalid ''balanced sequence splice result length is inconsistent'')
       (Option.bind (checked_sub parent_len delete_len) (\<lambda>remaining. checked_add width64 remaining insert_len)))) (\<lambda>result_len.
     bindP (readP (\<lambda>b. Inr (backend_is_physical b))) (\<lambda>physical.
     if physical then physical_splice P parent off delete_len ins result_len
     else
       bindP (memory_splice E resolved off delete_len ins) (\<lambda>result.
       bindP (modifyP (note_written (splice_allocated_nodes result) (splice_inspected_nodes result)
         (splice_payload_bytes_allocated result))) (\<lambda>_.
       retP \<lparr>result_root = balanced_v2 (root_node_id (splice_root result)) (root_len (splice_root result)),
             result_nodes_allocated = u64_or_max (splice_allocated_nodes result),
             result_nodes_inspected = u64_or_max (splice_inspected_nodes result),
             result_payload_bytes_allocated = u64_or_max (splice_payload_bytes_allocated result)\<rparr>))))))"

definition seam_append ::
  "env \<Rightarrow> 'p PhysicalContent \<Rightarrow> PersistentRoot option \<Rightarrow> byte list \<Rightarrow> ('p, PersistentRoot) seam_prog" where
  "seam_append E P parent bytes =
     bindP (readP (\<lambda>b. case parent of
              None \<Rightarrow> Inr 0
            | Some root \<Rightarrow> bindR (resolve P b root) (\<lambda>r. Inr (root_len r)))) (\<lambda>off.
     bindP (seam_splice E P parent off 0 bytes) (\<lambda>res. retP (result_root res)))"

subsection \<open>Compaction and images\<close>

record 'p CompactedSequence =
  compacted_backend :: "'p BalancedSequence"
  compacted_roots :: "PersistentRoot list"
  compacted_nodes_before :: u64
  compacted_nodes_after :: u64
  compacted_payload_bytes_before :: u64
  compacted_payload_bytes_after :: u64

definition seam_root :: "V2RootRecord \<Rightarrow> PersistentRoot" where
  "seam_root r = balanced_v2 (root_node_id r) (root_len r)"

definition seam_compact_to_roots ::
  "env \<Rightarrow> 'p PhysicalContent \<Rightarrow> 'p BalancedSequence \<Rightarrow> PersistentRoot list \<Rightarrow> SequenceError + 'p CompactedSequence" where
  "seam_compact_to_roots E P b retained_roots = (case backend b of
     Physical _ \<Rightarrow> Inl (SequenceError.Invalid
       ''durable physical backends compact through quiescent physical GC, not in-memory compaction'')
   | Memory inner \<Rightarrow>
       if \<not> try_reserve E ''sequence compaction root table allocation failed'' (length retained_roots) then
         Inl (SequenceError.Capacity ''sequence compaction root table allocation failed'')
       else
       bindR (traverse (resolve P b) retained_roots) (\<lambda>canonical.
       bindR (map_err SequenceError.Avl (compact_to_roots E inner canonical)) (\<lambda>(inner', remapped).
       let new = \<lparr>backend = Memory inner', work = work b\<rparr> in
       if \<not> try_reserve E ''sequence compaction root table allocation failed'' (length remapped) then
         Inl (SequenceError.Capacity ''sequence compaction root table allocation failed'')
       else Inr \<lparr>compacted_backend = new, compacted_roots = map seam_root remapped,
                 compacted_nodes_before = node_count P b, compacted_nodes_after = node_count P new,
                 compacted_payload_bytes_before = payload_len P b,
                 compacted_payload_bytes_after = payload_len P new\<rparr>)))"

definition compact_physical_to_roots ::
  "env \<Rightarrow> 'p PhysicalContent \<Rightarrow> 'p BalancedSequence \<Rightarrow> PersistentRoot list \<Rightarrow> u64 \<Rightarrow>
   SequenceError + 'p CompactedSequence" where
  "compact_physical_to_roots E P b retained_roots new_generation = (case backend b of
     Memory _ \<Rightarrow> Inl (SequenceError.Invalid ''physical generation compaction requires a durable physical backend'')
   | Physical source \<Rightarrow>
       if \<not> try_reserve E ''sequence compaction root table allocation failed'' (length retained_roots) then
         Inl (SequenceError.Capacity ''sequence compaction root table allocation failed'')
       else
       bindR (traverse (resolve P b) retained_roots) (\<lambda>canonical.
       bindR (map_err SequenceError.Avl (compact_physical_generation P source canonical new_generation)) (\<lambda>build.
       if \<not> try_reserve E ''sequence compaction root table allocation failed'' (length (build_roots build)) then
         Inl (SequenceError.Capacity ''sequence compaction root table allocation failed'')
       else Inr \<lparr>compacted_backend = (open_physical (build_store build))\<lparr>work := work b\<rparr>,
                 compacted_roots = map seam_root (build_roots build),
                 compacted_nodes_before = build_nodes_before build,
                 compacted_nodes_after = build_nodes_after build,
                 compacted_payload_bytes_before = build_payload_bytes_before build,
                 compacted_payload_bytes_after = build_payload_bytes_after build\<rparr>)))"

definition export_physical_image ::
  "env \<Rightarrow> 'p PhysicalContent \<Rightarrow> 'p \<Rightarrow> V2RootRecord list \<Rightarrow> SequenceError + byte list" where
  "export_physical_image E P st roots =
     bindR (map_err SequenceError.Avl (load_all_records P st)) (\<lambda>records.
     bindR (map_err SequenceError.Avl (read_all_payload P st)) (\<lambda>payload.
     map_err (\<lambda>e. SequenceError.Avl (V2AvlError.Image e)) (encode_v2_image E
       \<lparr>image_payload = payload, image_nodes = records, image_roots = roots\<rparr>)))"

definition seam_export_image ::
  "env \<Rightarrow> 'p PhysicalContent \<Rightarrow> 'p BalancedSequence \<Rightarrow> PersistentRoot list \<Rightarrow> SequenceError + byte list" where
  "seam_export_image E P b roots =
    (if \<not> try_reserve E ''sequence image root table allocation failed'' (length roots) then
       Inl (SequenceError.Capacity ''sequence image root table allocation failed'')
     else
       bindR (traverse (resolve P b) roots) (\<lambda>canonical.
       case backend b of
         Memory inner \<Rightarrow> map_err SequenceError.Avl (export_image E inner canonical)
       | Physical st \<Rightarrow> export_physical_image E P st canonical))"

definition seam_import_image :: "env \<Rightarrow> byte list \<Rightarrow> SequenceError + 'p BalancedSequence \<times> PersistentRoot list" where
  "seam_import_image E bytes =
     bindR (map_err SequenceError.Avl (import_image E bytes)) (\<lambda>(inner, roots).
     if \<not> try_reserve E ''sequence image root table allocation failed'' (length roots) then
       Inl (SequenceError.Capacity ''sequence image root table allocation failed'')
     else Inr (\<lparr>backend = Memory inner, work = no_work\<rparr>, map seam_root roots))"

end
