(* ===== verification/Hash_Tables.thy ===== *)
theory Hash_Tables
  imports Tulya_Prelude
begin

text \<open>
  \<open>HashMap\<close> and \<open>HashSet\<close> as lists of entries with distinct keys.  The list order stands for the
  iteration order, which the code leaves unspecified; a lookup by value (\<open>find_map\<close> over the
  entries) is deterministic only where the values are unique, which the store invariant states.
\<close>

type_synonym ('k, 'v) table = "('k \<times> 'v) list"

definition hget :: "('k, 'v) table \<Rightarrow> 'k \<Rightarrow> 'v option" where
  "hget m k = map_of m k"

definition hput :: "'k \<Rightarrow> 'v \<Rightarrow> ('k, 'v) table \<Rightarrow> ('k, 'v) table" where
  "hput k v m = (k, v) # filter (\<lambda>e. fst e \<noteq> k) m"

definition hdel :: "'k \<Rightarrow> ('k, 'v) table \<Rightarrow> ('k, 'v) table" where
  "hdel k m = filter (\<lambda>e. fst e \<noteq> k) m"

definition hkeys :: "('k, 'v) table \<Rightarrow> 'k set" where
  "hkeys m = fst ` set m"

definition htable :: "('k, 'v) table \<Rightarrow> bool" where
  "htable m \<longleftrightarrow> distinct (map fst m)"

lemma hget_Nil [simp]: "hget [] k = None"
  by (simp add: hget_def)

lemma hget_hput [simp]: "hget (hput k v m) k' = (if k' = k then Some v else hget m k')"
  unfolding hget_def hput_def by (induction m) auto

lemma hget_hdel [simp]: "hget (hdel k m) k' = (if k' = k then None else hget m k')"
  unfolding hget_def hdel_def by (induction m) auto

lemma hkeys_simps [simp]:
  "hkeys [] = {}" "hkeys (hput k v m) = insert k (hkeys m)" "hkeys (hdel k m) = hkeys m - {k}"
  by (auto simp: hkeys_def hput_def hdel_def)

lemma hget_None_iff: "hget m k = None \<longleftrightarrow> k \<notin> hkeys m"
  by (simp add: hget_def hkeys_def map_of_eq_None_iff)

lemma hget_Some_in: "hget m k = Some v \<Longrightarrow> k \<in> hkeys m"
  by (metis hget_None_iff option.distinct(1))

lemma in_hkeysE:
  assumes "k \<in> hkeys m"
  obtains v where "hget m k = Some v"
  using assms by (metis hget_None_iff not_None_eq)

lemma htable_Nil [simp]: "htable []"
  by (simp add: htable_def)

lemma htable_hdel [simp]: "htable m \<Longrightarrow> htable (hdel k m)"
  by (simp add: htable_def hdel_def distinct_map_filter)

lemma htable_hput [simp]: "htable m \<Longrightarrow> htable (hput k v m)"
  by (auto simp: htable_def hput_def distinct_map_filter)

lemma htable_entry: "htable m \<Longrightarrow> (k, v) \<in> set m \<longleftrightarrow> hget m k = Some v"
  by (simp add: htable_def hget_def)

lemma length_htable: "htable m \<Longrightarrow> length m = card (hkeys m)"
  by (metis distinct_card htable_def hkeys_def length_map list.set_map)

lemma hdel_fresh: "k \<notin> hkeys m \<Longrightarrow> hdel k m = m"
  unfolding hkeys_def hdel_def by (induction m) auto

lemma hput_fresh: "k \<notin> hkeys m \<Longrightarrow> hput k v m = (k, v) # m"
  using hdel_fresh [of k m] by (simp add: hput_def hdel_def)

end
