(* ===== verification/History_Store.thy ===== *)
theory History_Store
  imports Sequence_Seam Hash_Tables
begin

text \<open>
  The in-memory operations of \<open>PersistentHistoryStore\<close> (\<open>persistent_history/mod.rs\<close>): histories,
  splice, append, fork, expiration, request receipts with their bounded horizon, reads and the
  accessors.  Every mutation is prepared first (a preview that changes nothing) and then applied,
  as in the source; preview and application are separate definitions because the durable path puts
  the log in between.

  \<open>&'static str\<close> errors keep their text.  A reservation site is \<open>reserve\<close> with the message of the
  error it raises.
\<close>

section \<open>Data\<close>

type_synonym HistoryId = u64
type_synonym VersionId = u64
type_synonym digest = "byte list"

record Version =
  version_history :: HistoryId
  version_id :: VersionId
  version_parent :: "VersionId option"

record VersionRecord =
  record_version :: Version
  record_root :: "PersistentRoot option"
  record_len :: u64

datatype HistoryError =
    Sequence SequenceError
  | Invalid msg
  | Overflow msg
  | Capacity msg
  | RequestConflict
  | VersionExpired
  | Poisoned

datatype VersionLifecycle = Retained | Expired

datatype ExpireOutcome = Expired | AlreadyExpired

datatype RequestReceiptStatus = Active VersionId | Retired | Unknown

record ActiveRequest =
  request_digest :: digest
  request_version :: VersionId

datatype CommitOutcome = Committed Version | Replayed Version | Retired

definition outcome_version :: "CommitOutcome \<Rightarrow> Version option" where
  "outcome_version oc = (case oc of Committed v \<Rightarrow> Some v | Replayed v \<Rightarrow> Some v | CommitOutcome.Retired \<Rightarrow> None)"

definition outcome_replayed :: "CommitOutcome \<Rightarrow> bool" where
  "outcome_replayed oc = (case oc of Committed _ \<Rightarrow> False | _ \<Rightarrow> True)"

record PreparedVersionIdentity =
  identity_version :: VersionId
  identity_next :: u64

record PreparedSplice =
  ps_version :: VersionId
  ps_next_version_id_after :: u64
  ps_history :: HistoryId
  ps_parent :: "VersionId option"
  ps_parent_root :: "PersistentRoot option"
  ps_offset :: u64
  ps_delete_len :: u64
  ps_insert :: "byte list"
  ps_len :: u64
  ps_request_id :: "byte list option"
  ps_binding :: "byte list option"
  ps_digest :: digest
  ps_physical :: "PhysicalDelta option"

record PreparedFork =
  pf_version :: VersionId
  pf_next_version_id_after :: u64
  pf_history :: HistoryId
  pf_parent :: VersionId
  pf_root :: "PersistentRoot option"
  pf_len :: u64
  pf_request_id :: "byte list option"
  pf_binding :: "byte list option"
  pf_digest :: digest

record PreparedExpire =
  pe_history :: HistoryId
  pe_version :: VersionId
  pe_receipt :: "(byte list \<times> digest) option"

datatype 'f Preview = PreviewReplayed Version | PreviewRetired | PreviewFresh 'f

datatype ExpirePreview = ExpireAlready | ExpireFresh PreparedExpire

record 'p PersistentHistoryStore =
  store_backend :: "'p BalancedSequence"
  histories :: "HistoryId list"
  versions :: "VersionRecord list"
  next_history_id :: u64
  next_version_id :: u64
  active_requests :: "(byte list, ActiveRequest) table"
  retired_requests :: "(byte list, digest) table"
  receipt_order :: "byte list list"
  expired_versions :: "VersionId list"
  history_bindings :: "(HistoryId, byte list) table"
  version_bindings :: "(VersionId, byte list) table"
  poisoned :: bool

type_synonym ('p, 'r) store_prog = "('p PersistentHistoryStore, HistoryError, 'r) prog"

definition PersistentHistoryStore_new :: "'p PersistentHistoryStore" where
  "PersistentHistoryStore_new = \<lparr>store_backend = BalancedSequence_new, histories = [], versions = [],
     next_history_id = 0, next_version_id = 0, active_requests = [], retired_requests = [],
     receipt_order = [], expired_versions = [], history_bindings = [], version_bindings = [],
     poisoned = False\<rparr>"

definition MAX_HISTORY_REQUEST_ID_BYTES :: usize where
  "MAX_HISTORY_REQUEST_ID_BYTES = 4096"

definition MAX_HISTORY_BINDING_BYTES :: usize where
  "MAX_HISTORY_BINDING_BYTES = 4096"

definition STAGING_REQUEST_RECEIPT_CAPACITY :: usize where
  "STAGING_REQUEST_RECEIPT_CAPACITY = 4096"

section \<open>Operation digests\<close>

definition HISTORY_SPLICE_DIGEST_DOMAIN :: "byte list" where
  "HISTORY_SPLICE_DIGEST_DOMAIN = ascii ''tulya-history/staging/splice'' @ [0]"

definition HISTORY_FORK_DIGEST_DOMAIN :: "byte list" where
  "HISTORY_FORK_DIGEST_DOMAIN = ascii ''tulya-history/staging/fork'' @ [0]"

definition binding_preimage :: "byte list option \<Rightarrow> byte list" where
  "binding_preimage binding = (case binding of
     Some bytes \<Rightarrow> [1] @ le_bytes 8 (u64_or_max (length bytes)) @ bytes
   | None \<Rightarrow> [0])"

definition splice_preimage ::
  "HistoryId \<Rightarrow> VersionId option \<Rightarrow> u64 \<Rightarrow> u64 \<Rightarrow> byte list \<Rightarrow> byte list option \<Rightarrow> byte list" where
  "splice_preimage history parent off delete_len ins binding =
     HISTORY_SPLICE_DIGEST_DOMAIN @ le_bytes 8 history @
     (case parent of Some p \<Rightarrow> [1] @ le_bytes 8 p | None \<Rightarrow> [0] @ le_bytes 8 0) @
     le_bytes 8 off @ le_bytes 8 delete_len @ le_bytes 8 (u64_or_max (length ins)) @ ins @
     binding_preimage binding"

definition history_splice_digest ::
  "env \<Rightarrow> HistoryId \<Rightarrow> VersionId option \<Rightarrow> u64 \<Rightarrow> u64 \<Rightarrow> byte list \<Rightarrow> byte list option \<Rightarrow> digest" where
  "history_splice_digest E history parent off delete_len ins binding =
     sha256 E (splice_preimage history parent off delete_len ins binding)"

definition fork_preimage :: "HistoryId \<Rightarrow> VersionId \<Rightarrow> byte list option \<Rightarrow> byte list" where
  "fork_preimage history parent binding =
     HISTORY_FORK_DIGEST_DOMAIN @ le_bytes 8 history @ le_bytes 8 parent @ binding_preimage binding"

definition history_fork_digest :: "env \<Rightarrow> HistoryId \<Rightarrow> VersionId \<Rightarrow> byte list option \<Rightarrow> digest" where
  "history_fork_digest E history parent binding = sha256 E (fork_preimage history parent binding)"

section \<open>Checks\<close>

definition reserve :: "env \<Rightarrow> msg \<Rightarrow> nat \<Rightarrow> HistoryError + unit" where
  "reserve E m n = (if try_reserve E m n then Inr () else Inl (HistoryError.Capacity m))"

definition reserve_when :: "bool \<Rightarrow> env \<Rightarrow> msg \<Rightarrow> nat \<Rightarrow> HistoryError + unit" where
  "reserve_when c E m n = (if c then reserve E m n else Inr ())"

definition validate_request_identity :: "byte list \<Rightarrow> HistoryError + unit" where
  "validate_request_identity request_id =
    (if request_id = [] \<or> length request_id > MAX_HISTORY_REQUEST_ID_BYTES then
       Inl (HistoryError.Invalid ''persistent request identity is empty or exceeds the byte limit'')
     else Inr ())"

definition validate_binding :: "byte list \<Rightarrow> HistoryError + unit" where
  "validate_binding binding =
    (if binding = [] \<or> length binding > MAX_HISTORY_BINDING_BYTES then
       Inl (HistoryError.Invalid ''persistent adapter binding is empty or exceeds the byte limit'')
     else Inr ())"

definition validate_optional_binding :: "byte list option \<Rightarrow> HistoryError + unit" where
  "validate_optional_binding binding = (case binding of None \<Rightarrow> Inr () | Some bytes \<Rightarrow> validate_binding bytes)"

definition require_unpoisoned :: "'p PersistentHistoryStore \<Rightarrow> HistoryError + unit" where
  "require_unpoisoned s = (if poisoned s then Inl HistoryError.Poisoned else Inr ())"

definition version_record :: "'p PersistentHistoryStore \<Rightarrow> VersionId \<Rightarrow> HistoryError + VersionRecord" where
  "version_record s vid =
     bindR (ok_or (HistoryError.Overflow ''persistent version identifier exceeds usize'') (try_from width64 vid)) (\<lambda>index.
     bindR (ok_or (HistoryError.Invalid ''persistent version is unknown'') (get_at (versions s) index)) (\<lambda>rec.
     if version_id (record_version rec) \<noteq> vid then
       Inl (HistoryError.Invalid ''persistent version disagrees with its table coordinate'')
     else Inr rec))"

definition require_retained :: "'p PersistentHistoryStore \<Rightarrow> VersionId \<Rightarrow> HistoryError + unit" where
  "require_retained s vid =
     bindR (version_record s vid) (\<lambda>_.
     if vid \<in> set (expired_versions s) then Inl HistoryError.VersionExpired else Inr ())"

definition prepare_version_identity :: "u64 \<Rightarrow> HistoryError + PreparedVersionIdentity" where
  "prepare_version_identity next =
     bindR (ok_or (HistoryError.Overflow ''persistent version count exceeds u64'') (checked_add width64 next 1)) (\<lambda>after.
     Inr \<lparr>identity_version = next, identity_next = after\<rparr>)"

section \<open>Histories\<close>

definition create_history :: "env \<Rightarrow> ('p, HistoryId) store_prog" where
  "create_history E s =
    (case bindR (require_unpoisoned s) (\<lambda>_.
          bindR (reserve E ''persistent history set allocation failed'' 1) (\<lambda>_.
          ok_or (HistoryError.Overflow ''persistent history count exceeds u64'')
            (checked_add width64 (next_history_id s) 1))) of
       Inl e \<Rightarrow> Some (Inl e, s)
     | Inr after \<Rightarrow> Some (Inr (next_history_id s),
         s\<lparr>next_history_id := after, histories := List.insert (next_history_id s) (histories s)\<rparr>))"

definition bound_history :: "'p PersistentHistoryStore \<Rightarrow> byte list \<Rightarrow> HistoryId option" where
  "bound_history s binding = map_option fst (find (\<lambda>e. snd e = binding) (history_bindings s))"

definition create_history_with_binding :: "env \<Rightarrow> byte list \<Rightarrow> ('p, HistoryId) store_prog" where
  "create_history_with_binding E binding s =
    (case bindR (require_unpoisoned s) (\<lambda>_. validate_binding binding) of
       Inl e \<Rightarrow> Some (Inl e, s)
     | Inr _ \<Rightarrow> (case bound_history s binding of
         Some existing \<Rightarrow> Some (Inr existing, s)
       | None \<Rightarrow>
          (case bindR (reserve E ''persistent history set allocation failed'' 1) (\<lambda>_.
                bindR (reserve E ''persistent history binding allocation failed'' 1) (\<lambda>_.
                ok_or (HistoryError.Overflow ''persistent history count exceeds u64'')
                  (checked_add width64 (next_history_id s) 1))) of
             Inl e \<Rightarrow> Some (Inl e, s)
           | Inr after \<Rightarrow> Some (Inr (next_history_id s),
               s\<lparr>next_history_id := after, histories := List.insert (next_history_id s) (histories s),
                 history_bindings := hput (next_history_id s) binding (history_bindings s)\<rparr>))))"

section \<open>The receipt ledger\<close>

function enforce_receipt_horizon :: "'p PersistentHistoryStore \<Rightarrow> 'p PersistentHistoryStore" where
  "enforce_receipt_horizon s =
    (if length (active_requests s) + length (retired_requests s) > STAGING_REQUEST_RECEIPT_CAPACITY then
       (case receipt_order s of
          [] \<Rightarrow> s
        | oldest # rest \<Rightarrow> enforce_receipt_horizon
            (if hget (active_requests s) oldest = None
             then s\<lparr>receipt_order := rest, retired_requests := hdel oldest (retired_requests s)\<rparr>
             else s\<lparr>receipt_order := rest, active_requests := hdel oldest (active_requests s)\<rparr>))
     else s)"
  by pat_completeness auto
termination
  by (relation "measure (\<lambda>s. length (receipt_order s))") auto

declare enforce_receipt_horizon.simps [simp del]

definition push_fresh_receipt ::
  "byte list \<Rightarrow> digest \<Rightarrow> VersionId \<Rightarrow> 'p PersistentHistoryStore \<Rightarrow> 'p PersistentHistoryStore" where
  "push_fresh_receipt request_id dg vid s = enforce_receipt_horizon
     (s\<lparr>active_requests := hput request_id \<lparr>request_digest = dg, request_version = vid\<rparr> (active_requests s),
        receipt_order := receipt_order s @ [request_id]\<rparr>)"

text \<open>The request matrix of both previews: replay, retired, conflict or unknown.\<close>

datatype Ledger = LedgerReplayed Version | LedgerRetired | LedgerUnknown

definition ledger_lookup ::
  "'p PersistentHistoryStore \<Rightarrow> byte list option \<Rightarrow> digest \<Rightarrow> HistoryError + Ledger" where
  "ledger_lookup s request_id dg = (case request_id of
     None \<Rightarrow> Inr LedgerUnknown
   | Some request \<Rightarrow>
       bindR (validate_request_identity request) (\<lambda>_.
       case hget (active_requests s) request of
         Some active \<Rightarrow>
           if request_digest active = dg then
             bindR (version_record s (request_version active)) (\<lambda>rec. Inr (LedgerReplayed (record_version rec)))
           else Inl HistoryError.RequestConflict
       | None \<Rightarrow> (case hget (retired_requests s) request of
           Some retired \<Rightarrow> if retired = dg then Inr LedgerRetired else Inl HistoryError.RequestConflict
         | None \<Rightarrow> Inr LedgerUnknown)))"

definition retire_request :: "env \<Rightarrow> byte list \<Rightarrow> ('p, unit) store_prog" where
  "retire_request E request_id s =
    (case bindR (require_unpoisoned s) (\<lambda>_.
          bindR (validate_request_identity request_id) (\<lambda>_.
          if hget (retired_requests s) request_id \<noteq> None then
            Inl (HistoryError.Invalid ''persistent request identity is already retired'')
          else
            bindR (ok_or (HistoryError.Invalid ''persistent active request identity is absent'')
              (hget (active_requests s) request_id)) (\<lambda>rec.
            bindR (reserve E ''persistent retired request key allocation failed'' (length request_id)) (\<lambda>_.
            bindR (reserve E ''persistent retired request allocation failed'' 1) (\<lambda>_.
            Inr rec))))) of
       Inl e \<Rightarrow> Some (Inl e, s)
     | Inr rec \<Rightarrow> Some (Inr (), s\<lparr>active_requests := hdel request_id (active_requests s),
         retired_requests := hput request_id (request_digest rec) (retired_requests s)\<rparr>))"

section \<open>Splice\<close>

text \<open>Parent root and length, with the same-history check.\<close>

definition parent_coordinates ::
  "'p PersistentHistoryStore \<Rightarrow> HistoryId \<Rightarrow> VersionId option \<Rightarrow> HistoryError + PersistentRoot option \<times> u64" where
  "parent_coordinates s history parent = (case parent of
     None \<Rightarrow> Inr (None, 0)
   | Some vid \<Rightarrow>
       bindR (version_record s vid) (\<lambda>rec.
       if version_history (record_version rec) \<noteq> history then
         Inl (HistoryError.Invalid ''persistent parent version belongs to a different history'')
       else Inr (record_root rec, record_len rec)))"

definition splice_coordinates ::
  "VersionId option \<Rightarrow> u64 \<Rightarrow> u64 \<Rightarrow> u64 \<Rightarrow> byte list \<Rightarrow> HistoryError + u64" where
  "splice_coordinates parent parent_len off delete_len ins =
    (if off > parent_len then
       Inl (HistoryError.Invalid ''persistent splice offset exceeds parent length'')
     else if delete_len > parent_len - off then
       Inl (HistoryError.Invalid ''persistent splice delete range exceeds parent length'')
     else
       bindR (ok_or (HistoryError.Overflow ''persistent splice insert length exceeds u64'')
         (try_from width64 (length ins))) (\<lambda>insert_len.
       bindR (ok_or (HistoryError.Overflow ''persistent splice result length exceeds u64'')
         (checked_add width64 (parent_len - delete_len) insert_len)) (\<lambda>result_len.
       if parent = None \<and> (off \<noteq> 0 \<or> delete_len \<noteq> 0) then
         Inl (HistoryError.Invalid ''persistent root creation requires zero offset and delete length'')
       else if parent = None \<and> ins = [] then
         Inl (HistoryError.Invalid ''persistent root creation requires non-empty insert'')
       else if parent \<noteq> None \<and> delete_len = 0 \<and> ins = [] then
         Inl (HistoryError.Invalid ''persistent splice without effect is rejected'')
       else if result_len = 0 then
         Inl (HistoryError.Invalid ''persistent splice result must be non-empty'')
       else Inr result_len)))"

definition backendP :: "('p, 'r) seam_prog \<Rightarrow> ('p, 'r) store_prog" where
  "backendP f s = (case f (store_backend s) of
     None \<Rightarrow> None
   | Some (r, b) \<Rightarrow> Some (map_err HistoryError.Sequence r, s\<lparr>store_backend := b\<rparr>))"

definition preview_splice ::
  "env \<Rightarrow> 'p PhysicalContent \<Rightarrow> HistoryId \<Rightarrow> VersionId option \<Rightarrow> u64 \<Rightarrow> u64 \<Rightarrow> byte list \<Rightarrow>
   byte list option \<Rightarrow> byte list option \<Rightarrow> ('p, PreparedSplice Preview) store_prog" where
  "preview_splice E P history parent off delete_len ins request_id binding =
     bindP (readP require_unpoisoned) (\<lambda>_.
     bindP (readP (\<lambda>s. if history \<notin> set (histories s)
       then Inl (HistoryError.Invalid ''persistent splice targets an unknown history'') else Inr ())) (\<lambda>_.
     bindP (liftP (validate_optional_binding binding)) (\<lambda>_.
     bindP (readP (\<lambda>s. parent_coordinates s history parent)) (\<lambda>(parent_root, parent_len).
     bindP (liftP (splice_coordinates parent parent_len off delete_len ins)) (\<lambda>result_len.
     let dg = history_splice_digest E history parent off delete_len ins binding in
     bindP (readP (\<lambda>s. ledger_lookup s request_id dg)) (\<lambda>ledger.
     case ledger of
       LedgerReplayed v \<Rightarrow> retP (PreviewReplayed v)
     | LedgerRetired \<Rightarrow> retP PreviewRetired
     | LedgerUnknown \<Rightarrow>
         bindP (readP (\<lambda>s. case parent of None \<Rightarrow> Inr () | Some p \<Rightarrow> require_retained s p)) (\<lambda>_.
         bindP (readP (\<lambda>s. prepare_version_identity (next_version_id s))) (\<lambda>identity.
         bindP (readP (\<lambda>s. Inr (backend_is_physical (store_backend s)))) (\<lambda>is_physical.
         bindP (if is_physical
                then bindP (backendP (prepare_physical_splice P parent_root off delete_len ins result_len))
                       (\<lambda>delta. retP (Some delta))
                else retP None) (\<lambda>physical.
         retP (PreviewFresh \<lparr>ps_version = identity_version identity,
           ps_next_version_id_after = identity_next identity, ps_history = history, ps_parent = parent,
           ps_parent_root = parent_root, ps_offset = off, ps_delete_len = delete_len, ps_insert = ins,
           ps_len = result_len, ps_request_id = request_id, ps_binding = binding, ps_digest = dg,
           ps_physical = physical\<rparr>)))))))))))"

text \<open>The reservations and the catalogue update that splice and fork application share.\<close>

definition reserve_catalogue :: "env \<Rightarrow> byte list option \<Rightarrow> byte list option \<Rightarrow> HistoryError + unit" where
  "reserve_catalogue E request_id binding =
     bindR (reserve E ''persistent version table allocation failed'' 1) (\<lambda>_.
     bindR (reserve_when (request_id \<noteq> None) E ''persistent active request allocation failed'' 1) (\<lambda>_.
     bindR (reserve_when (request_id \<noteq> None) E ''persistent receipt order allocation failed'' 1) (\<lambda>_.
     reserve_when (binding \<noteq> None) E ''persistent version binding allocation failed'' 1)))"

definition push_version ::
  "Version \<Rightarrow> PersistentRoot \<Rightarrow> u64 \<Rightarrow> byte list option \<Rightarrow> byte list option \<Rightarrow> digest \<Rightarrow>
   'p PersistentHistoryStore \<Rightarrow> 'p PersistentHistoryStore" where
  "push_version v root len request_id binding dg s =
    (let s1 = s\<lparr>versions := versions s @ [\<lparr>record_version = v, record_root = Some root, record_len = len\<rparr>]\<rparr>;
         s2 = (case request_id of None \<Rightarrow> s1 | Some request \<Rightarrow> push_fresh_receipt request dg (version_id v) s1)
     in case binding of
          None \<Rightarrow> s2
        | Some bytes \<Rightarrow> s2\<lparr>version_bindings := hput (version_id v) bytes (version_bindings s2)\<rparr>)"

definition splice_root_of :: "env \<Rightarrow> 'p PhysicalContent \<Rightarrow> PreparedSplice \<Rightarrow> bool \<Rightarrow> ('p, PersistentRoot) store_prog"
where
  "splice_root_of E P prepared already_durable = (case ps_physical prepared of
     Some delta \<Rightarrow>
       bindP (if already_durable then retP () else
         (\<lambda>s. case backendP (commit_physical_delta P delta) s of
            None \<Rightarrow> None
          | Some (Inl e, s') \<Rightarrow>
              bindP (\<lambda>s. map_option (\<lambda>(r, s). (Inr (), s)) (backendP (heal_physical_for_write P) s)) (\<lambda>_. failP e) s'
          | Some (Inr _, s') \<Rightarrow> (case backendP (sync_physical_content P) s' of
              None \<Rightarrow> None
            | Some (Inl e, s'') \<Rightarrow> bindP (backendP (rollback_physical_to_committed P)) (\<lambda>_. failP e) s''
            | Some (Inr _, s'') \<Rightarrow> Some (Inr (), s'')))) (\<lambda>_.
       bindP (modifyP (\<lambda>s. s\<lparr>store_backend := adopt_physical_delta P delta (store_backend s)\<rparr>)) (\<lambda>_.
       retP (balanced_v2 (root_node_id (delta_root delta)) (ps_len prepared))))
   | None \<Rightarrow>
       bindP (backendP (seam_splice E P (ps_parent_root prepared) (ps_offset prepared) (ps_delete_len prepared)
         (ps_insert prepared))) (\<lambda>res. retP (result_root res)))"

definition apply_prepared_splice ::
  "env \<Rightarrow> 'p PhysicalContent \<Rightarrow> PreparedSplice \<Rightarrow> bool \<Rightarrow> ('p, CommitOutcome) store_prog" where
  "apply_prepared_splice E P prepared physical_already_durable =
     bindP (readP (\<lambda>s. if next_version_id s \<noteq> ps_version prepared
       then Inl (HistoryError.Invalid ''prepared splice identity disagrees with the allocation counter'')
       else reserve_catalogue E (ps_request_id prepared) (ps_binding prepared))) (\<lambda>_.
     bindP (splice_root_of E P prepared physical_already_durable) (\<lambda>root.
     let v = \<lparr>version_history = ps_history prepared, version_id = ps_version prepared, version_parent = ps_parent prepared\<rparr> in
     bindP (modifyP (\<lambda>s. push_version v root (ps_len prepared) (ps_request_id prepared) (ps_binding prepared)
       (ps_digest prepared) (s\<lparr>next_version_id := ps_next_version_id_after prepared\<rparr>))) (\<lambda>_.
     retP (Committed v))))"

definition store_splice ::
  "env \<Rightarrow> 'p PhysicalContent \<Rightarrow> HistoryId \<Rightarrow> VersionId option \<Rightarrow> u64 \<Rightarrow> u64 \<Rightarrow> byte list \<Rightarrow>
   byte list option \<Rightarrow> byte list option \<Rightarrow> ('p, CommitOutcome) store_prog" where
  "store_splice E P history parent off delete_len ins request_id binding =
     bindP (preview_splice E P history parent off delete_len ins request_id binding) (\<lambda>preview.
     case preview of
       PreviewReplayed v \<Rightarrow> retP (Replayed v)
     | PreviewRetired \<Rightarrow> retP CommitOutcome.Retired
     | PreviewFresh prepared \<Rightarrow> apply_prepared_splice E P prepared False)"

definition append_offset :: "'p PersistentHistoryStore \<Rightarrow> HistoryId \<Rightarrow> VersionId option \<Rightarrow> HistoryError + u64" where
  "append_offset s history parent = bindR (parent_coordinates s history parent) (\<lambda>(_, len). Inr len)"

definition store_append ::
  "env \<Rightarrow> 'p PhysicalContent \<Rightarrow> HistoryId \<Rightarrow> VersionId option \<Rightarrow> byte list \<Rightarrow>
   byte list option \<Rightarrow> byte list option \<Rightarrow> ('p, CommitOutcome) store_prog" where
  "store_append E P history parent bytes request_id binding =
     bindP (readP (\<lambda>s. append_offset s history parent)) (\<lambda>off.
     store_splice E P history parent off 0 bytes request_id binding)"

section \<open>Fork\<close>

definition preview_fork ::
  "env \<Rightarrow> 'p PersistentHistoryStore \<Rightarrow> HistoryId \<Rightarrow> VersionId \<Rightarrow> byte list option \<Rightarrow> byte list option \<Rightarrow>
   HistoryError + PreparedFork Preview" where
  "preview_fork E s history parent request_id binding =
     bindR (require_unpoisoned s) (\<lambda>_.
     if history \<notin> set (histories s) then
       Inl (HistoryError.Invalid ''persistent fork targets an unknown history'')
     else
     bindR (validate_optional_binding binding) (\<lambda>_.
     bindR (version_record s parent) (\<lambda>rec.
     if version_history (record_version rec) \<noteq> history then
       Inl (HistoryError.Invalid ''persistent fork parent belongs to a different history'')
     else
     let dg = history_fork_digest E history parent binding in
     bindR (ledger_lookup s request_id dg) (\<lambda>ledger.
     case ledger of
       LedgerReplayed v \<Rightarrow> Inr (PreviewReplayed v)
     | LedgerRetired \<Rightarrow> Inr PreviewRetired
     | LedgerUnknown \<Rightarrow>
         bindR (require_retained s parent) (\<lambda>_.
         bindR (prepare_version_identity (next_version_id s)) (\<lambda>identity.
         Inr (PreviewFresh \<lparr>pf_version = identity_version identity,
           pf_next_version_id_after = identity_next identity, pf_history = history, pf_parent = parent,
           pf_root = record_root rec, pf_len = record_len rec, pf_request_id = request_id,
           pf_binding = binding, pf_digest = dg\<rparr>)))))))"

definition apply_prepared_fork :: "env \<Rightarrow> PreparedFork \<Rightarrow> ('p, CommitOutcome) store_prog" where
  "apply_prepared_fork E prepared =
     bindP (readP (\<lambda>s. if next_version_id s \<noteq> pf_version prepared
       then Inl (HistoryError.Invalid ''prepared fork identity disagrees with the allocation counter'')
       else reserve_catalogue E (pf_request_id prepared) (pf_binding prepared))) (\<lambda>_.
     bindP (modifyP (\<lambda>s. s\<lparr>next_version_id := pf_next_version_id_after prepared\<rparr>)) (\<lambda>_.
     bindP (liftP (ok_or (HistoryError.Invalid ''prepared fork parent has no materialized root'')
       (pf_root prepared))) (\<lambda>root.
     let v = \<lparr>version_history = pf_history prepared, version_id = pf_version prepared,
              version_parent = Some (pf_parent prepared)\<rparr> in
     bindP (modifyP (push_version v root (pf_len prepared) (pf_request_id prepared) (pf_binding prepared)
       (pf_digest prepared))) (\<lambda>_.
     retP (Committed v)))))"

definition store_fork ::
  "env \<Rightarrow> HistoryId \<Rightarrow> VersionId \<Rightarrow> byte list option \<Rightarrow> byte list option \<Rightarrow> ('p, CommitOutcome) store_prog" where
  "store_fork E history parent request_id binding =
     bindP (readP (\<lambda>s. preview_fork E s history parent request_id binding)) (\<lambda>preview.
     case preview of
       PreviewReplayed v \<Rightarrow> retP (Replayed v)
     | PreviewRetired \<Rightarrow> retP CommitOutcome.Retired
     | PreviewFresh prepared \<Rightarrow> apply_prepared_fork E prepared)"

section \<open>Expiration\<close>

definition receipt_of :: "'p PersistentHistoryStore \<Rightarrow> VersionId \<Rightarrow> (byte list \<times> digest) option" where
  "receipt_of s vid = map_option (\<lambda>(rid, active). (rid, request_digest active))
     (find (\<lambda>(rid, active). request_version active = vid) (active_requests s))"

definition preview_expire :: "env \<Rightarrow> 'p PersistentHistoryStore \<Rightarrow> VersionId \<Rightarrow> HistoryError + ExpirePreview" where
  "preview_expire E s vid =
     bindR (require_unpoisoned s) (\<lambda>_.
     bindR (version_record s vid) (\<lambda>rec.
     if vid \<in> set (expired_versions s) then Inr ExpireAlready
     else
       bindR (reserve E ''persistent expired version allocation failed'' 1) (\<lambda>_.
       bindR (reserve_when (receipt_of s vid \<noteq> None) E ''persistent retired request allocation failed'' 1) (\<lambda>_.
       Inr (ExpireFresh \<lparr>pe_history = version_history (record_version rec), pe_version = vid,
         pe_receipt = receipt_of s vid\<rparr>)))))"

definition apply_prepared_expire :: "PreparedExpire \<Rightarrow> ('p, ExpireOutcome) store_prog" where
  "apply_prepared_expire prepared =
     bindP (readP (\<lambda>s. bindR (version_record s (pe_version prepared)) (\<lambda>rec.
       if version_history (record_version rec) \<noteq> pe_history prepared then
         Inl (HistoryError.Invalid ''prepared expiration disagrees with committed history'')
       else if pe_version prepared \<in> set (expired_versions s) then
         Inl (HistoryError.Invalid ''prepared expiration identity is already expired'')
       else Inr ()))) (\<lambda>_.
     bindP (modifyP (\<lambda>s. s\<lparr>expired_versions := List.insert (pe_version prepared) (expired_versions s)\<rparr>)) (\<lambda>_.
     bindP (case pe_receipt prepared of
              None \<Rightarrow> retP ()
            | Some (rid, dg) \<Rightarrow>
                bindP (readP (\<lambda>s. case hget (active_requests s) rid of
                   Some active \<Rightarrow>
                     if request_digest active = dg \<and> request_version active = pe_version prepared then Inr ()
                     else Inl (HistoryError.Invalid ''prepared expiration receipt disagrees with the active ledger'')
                 | None \<Rightarrow> Inl (HistoryError.Invalid ''prepared expiration receipt disagrees with the active ledger''))) (\<lambda>_.
                modifyP (\<lambda>s. s\<lparr>active_requests := hdel rid (active_requests s),
                  retired_requests := hput rid dg (retired_requests s)\<rparr>))) (\<lambda>_.
     retP ExpireOutcome.Expired)))"

definition store_expire :: "env \<Rightarrow> VersionId \<Rightarrow> ('p, ExpireOutcome) store_prog" where
  "store_expire E vid =
     bindP (readP (\<lambda>s. preview_expire E s vid)) (\<lambda>preview.
     case preview of
       ExpireAlready \<Rightarrow> retP AlreadyExpired
     | ExpireFresh prepared \<Rightarrow> apply_prepared_expire prepared)"

definition version_lifecycle :: "'p PersistentHistoryStore \<Rightarrow> VersionId \<Rightarrow> HistoryError + VersionLifecycle" where
  "version_lifecycle s vid =
     bindR (version_record s vid) (\<lambda>_.
     Inr (if vid \<in> set (expired_versions s) then VersionLifecycle.Expired else VersionLifecycle.Retained))"

definition is_retained :: "'p PersistentHistoryStore \<Rightarrow> VersionId \<Rightarrow> HistoryError + bool" where
  "is_retained s vid = bindR (version_lifecycle s vid) (\<lambda>l. Inr (l = VersionLifecycle.Retained))"

definition is_expired :: "'p PersistentHistoryStore \<Rightarrow> VersionId \<Rightarrow> HistoryError + bool" where
  "is_expired s vid = bindR (version_lifecycle s vid) (\<lambda>l. Inr (l = VersionLifecycle.Expired))"

section \<open>Reads and accessors\<close>

definition committed_version :: "'p PersistentHistoryStore \<Rightarrow> Version \<Rightarrow> HistoryError + VersionRecord" where
  "committed_version s v =
     bindR (version_record s (version_id v)) (\<lambda>rec.
     if record_version rec \<noteq> v then
       Inl (HistoryError.Invalid ''persistent version does not match committed history'')
     else if version_id v \<in> set (expired_versions s) then Inl HistoryError.VersionExpired
     else Inr rec)"

definition store_read ::
  "env \<Rightarrow> 'p PhysicalContent \<Rightarrow> Version \<Rightarrow> u64 \<Rightarrow> u64 \<Rightarrow> byte list \<Rightarrow> ('p, byte list) store_prog" where
  "store_read E P v off len out =
     bindP (readP (\<lambda>s. committed_version s v)) (\<lambda>rec.
     bindP (liftP (ok_or (HistoryError.Invalid ''persistent version has no materialized root'')
       (record_root rec))) (\<lambda>root.
     bindP (liftP (ok_or (HistoryError.Invalid ''persistent history read range exceeds u64'')
       (SequenceRange_new off len))) (\<lambda>rng.
     backendP (seam_read_range E P root rng out))))"

definition store_verify :: "env \<Rightarrow> 'p PhysicalContent \<Rightarrow> Version \<Rightarrow> ('p, unit) store_prog" where
  "store_verify E P v =
     bindP (readP (\<lambda>s. committed_version s v)) (\<lambda>rec.
     bindP (liftP (ok_or (HistoryError.Invalid ''persistent version has no materialized root'')
       (record_root rec))) (\<lambda>root.
     backendP (seam_verify E P root)))"

definition lookup_version :: "'p PersistentHistoryStore \<Rightarrow> VersionId \<Rightarrow> HistoryError + Version" where
  "lookup_version s vid =
     bindR (version_record s vid) (\<lambda>rec.
     if vid \<in> set (expired_versions s) then Inl HistoryError.VersionExpired else Inr (record_version rec))"

definition store_logical_len :: "'p PersistentHistoryStore \<Rightarrow> Version \<Rightarrow> HistoryError + u64" where
  "store_logical_len s v = bindR (committed_version s v) (\<lambda>rec. Inr (record_len rec))"

definition request_receipt_status :: "'p PersistentHistoryStore \<Rightarrow> byte list \<Rightarrow> RequestReceiptStatus" where
  "request_receipt_status s request_id = (case hget (active_requests s) request_id of
     Some active \<Rightarrow> Active (request_version active)
   | None \<Rightarrow> if hget (retired_requests s) request_id \<noteq> None then RequestReceiptStatus.Retired
             else RequestReceiptStatus.Unknown)"

definition request_receipt_count :: "'p PersistentHistoryStore \<Rightarrow> usize" where
  "request_receipt_count s = length (active_requests s) + length (retired_requests s)"

definition version_count :: "'p PersistentHistoryStore \<Rightarrow> usize" where
  "version_count s = length (versions s)"

definition all_histories :: "'p PersistentHistoryStore \<Rightarrow> HistoryId list" where
  "all_histories s = sort (histories s)"

definition all_versions :: "'p PersistentHistoryStore \<Rightarrow> Version list" where
  "all_versions s = map record_version (versions s)"

definition history_binding :: "'p PersistentHistoryStore \<Rightarrow> HistoryId \<Rightarrow> byte list option" where
  "history_binding s hid = hget (history_bindings s) hid"

definition version_binding :: "'p PersistentHistoryStore \<Rightarrow> VersionId \<Rightarrow> byte list option" where
  "version_binding s vid = hget (version_bindings s) vid"

definition committed_version_for_adapter ::
  "'p PersistentHistoryStore \<Rightarrow> VersionId \<Rightarrow> HistoryId \<Rightarrow> HistoryError + Version" where
  "committed_version_for_adapter s vid history =
     bindR (version_record s vid) (\<lambda>rec.
     if version_history (record_version rec) \<noteq> history then
       Inl (HistoryError.Invalid ''persistent version belongs to a different history'')
     else if vid \<in> set (expired_versions s) then Inl HistoryError.VersionExpired
     else Inr (record_version rec))"

end
