(* ===== verification/History_Replay.thy ===== *)
theory History_Replay
  imports History_Store
begin

text \<open>
  The replay operations of \<open>PersistentHistoryStore\<close> (\<open>replay_create\<close>, \<open>replay_splice\<close>,
  \<open>replay_fork\<close>, \<open>replay_expire\<close>, \<open>replay_retire\<close> and the final binding check of
  \<open>persistent_history/mod.rs\<close>): what recovery runs for each record of the history log.
\<close>

section \<open>Placement\<close>

record PhysicalPlacement =
  pp_generation :: u64
  pp_payload_start :: u64
  pp_payload_end :: u64
  pp_node_start :: u64
  pp_node_end :: u64
  pp_delta_digest :: digest
  pp_result_root :: "byte list"

section \<open>Replay\<close>

definition replay_create :: "env \<Rightarrow> HistoryId \<Rightarrow> byte list option \<Rightarrow> ('p, unit) store_prog" where
  "replay_create E history binding =
     bindP (liftP (case binding of
       None \<Rightarrow> Inr ()
     | Some bytes \<Rightarrow>
         bindR (validate_binding bytes) (\<lambda>_. reserve E ''persistent history binding allocation failed'' 1))) (\<lambda>_.
     bindP (create_history E) (\<lambda>assigned.
     if assigned \<noteq> history then
       failP (HistoryError.Invalid ''history log history identity disagrees with replay order'')
     else case binding of
       None \<Rightarrow> retP ()
     | Some bytes \<Rightarrow> modifyP (\<lambda>s. s\<lparr>history_bindings := hput history bytes (history_bindings s)\<rparr>)))"

definition replay_parent ::
  "'p PersistentHistoryStore \<Rightarrow> HistoryId \<Rightarrow> VersionId option \<Rightarrow> HistoryError + PersistentRoot option \<times> u64" where
  "replay_parent s history parent = (case parent of
     None \<Rightarrow> Inr (None, 0)
   | Some vid \<Rightarrow>
       bindR (version_record s vid) (\<lambda>rec.
       if version_history (record_version rec) \<noteq> history then
         Inl (HistoryError.Invalid ''history log parent version belongs to a different history'')
       else if vid \<in> set (expired_versions s) then
         Inl (HistoryError.Invalid ''history log splice parent is expired'')
       else
         bindR (ok_or (HistoryError.Invalid ''history log splice parent has no materialized root'')
           (record_root rec)) (\<lambda>root. Inr (Some root, record_len rec))))"

definition replay_coordinates ::
  "VersionId option \<Rightarrow> u64 \<Rightarrow> u64 \<Rightarrow> u64 \<Rightarrow> byte list \<Rightarrow> HistoryError + u64" where
  "replay_coordinates parent parent_len off delete_len ins =
    (if off > parent_len then
       Inl (HistoryError.Invalid ''history log splice offset exceeds parent length'')
     else if delete_len > parent_len - off then
       Inl (HistoryError.Invalid ''history log splice delete range exceeds parent length'')
     else
       bindR (ok_or (HistoryError.Overflow ''history log splice insert length exceeds u64'')
         (try_from width64 (length ins))) (\<lambda>insert_len.
       bindR (ok_or (HistoryError.Overflow ''history log splice result length exceeds u64'')
         (checked_add width64 (parent_len - delete_len) insert_len)) (\<lambda>result_len.
       if parent = None \<and> (off \<noteq> 0 \<or> delete_len \<noteq> 0) then
         Inl (HistoryError.Invalid ''history log root creation requires zero offset and delete length'')
       else if parent = None \<and> ins = [] then
         Inl (HistoryError.Invalid ''history log root creation requires non-empty insert'')
       else if parent \<noteq> None \<and> delete_len = 0 \<and> ins = [] then
         Inl (HistoryError.Invalid ''history log splice without effect is rejected'')
       else if result_len = 0 then
         Inl (HistoryError.Invalid ''history log splice result must be non-empty'')
       else Inr result_len)))"

text \<open>Identity check and checked successor, before anything is published.\<close>

definition replay_identity :: "VersionId \<Rightarrow> ('p, unit) store_prog" where
  "replay_identity vid =
     bindP (readP (\<lambda>s. if next_version_id s \<noteq> vid
       then Inl (HistoryError.Invalid ''history log version identity disagrees with replay order'')
       else ok_or (HistoryError.Overflow ''persistent version count exceeds u64'')
         (checked_add width64 (next_version_id s) 1))) (\<lambda>after.
     modifyP (\<lambda>s. s\<lparr>next_version_id := after\<rparr>))"

text \<open>Request receipt and binding of a replayed version.\<close>

definition replay_receipt ::
  "env \<Rightarrow> VersionId \<Rightarrow> byte list option \<Rightarrow> byte list option \<Rightarrow> digest \<Rightarrow> ('p, VersionId) store_prog" where
  "replay_receipt E vid request_id binding dg =
     bindP (case request_id of
       None \<Rightarrow> retP ()
     | Some request \<Rightarrow>
         bindP (liftP (validate_request_identity request)) (\<lambda>_.
         bindP (readP (\<lambda>s. if hget (active_requests s) request \<noteq> None \<or> hget (retired_requests s) request \<noteq> None
           then Inl (HistoryError.Invalid ''history log request identity is already recorded'') else Inr ())) (\<lambda>_.
         bindP (liftP (reserve E ''persistent active request allocation failed'' 1)) (\<lambda>_.
         bindP (liftP (reserve E ''persistent receipt order allocation failed'' 1)) (\<lambda>_.
         modifyP (push_fresh_receipt request dg vid)))))) (\<lambda>_.
     bindP (case binding of
       None \<Rightarrow> retP ()
     | Some bytes \<Rightarrow>
         bindP (liftP (validate_binding bytes)) (\<lambda>_.
         bindP (liftP (reserve E ''persistent version binding allocation failed'' 1)) (\<lambda>_.
         modifyP (\<lambda>s. s\<lparr>version_bindings := hput vid bytes (version_bindings s)\<rparr>)))) (\<lambda>_.
     retP vid))"

definition replay_root ::
  "env \<Rightarrow> 'p PhysicalContent \<Rightarrow> PersistentRoot option \<Rightarrow> u64 \<Rightarrow> u64 \<Rightarrow> byte list \<Rightarrow> u64 \<Rightarrow>
   PhysicalPlacement option \<Rightarrow> ('p, PersistentRoot) store_prog" where
  "replay_root E P parent_root off delete_len ins result_len physical =
     bindP (readP (\<lambda>s. Inr (backend_is_physical (store_backend s)))) (\<lambda>is_physical.
     if is_physical then
       bindP (liftP (ok_or (HistoryError.Invalid ''history log splice has no physical placement for durable authority'')
         physical)) (\<lambda>pl.
       backendP (replay_physical_delta P (pp_generation pl) (pp_payload_start pl) (pp_payload_end pl)
         (pp_node_start pl) (pp_node_end pl) (pp_delta_digest pl) (pp_result_root pl) result_len))
     else if physical \<noteq> None then
       failP (HistoryError.Invalid ''history log splice physical placement disagrees with an ephemeral backend'')
     else
       bindP (backendP (seam_splice E P parent_root off delete_len ins)) (\<lambda>res. retP (result_root res)))"

definition replay_splice ::
  "env \<Rightarrow> 'p PhysicalContent \<Rightarrow> HistoryId \<Rightarrow> VersionId \<Rightarrow> VersionId option \<Rightarrow> u64 \<Rightarrow> u64 \<Rightarrow> byte list \<Rightarrow>
   byte list option \<Rightarrow> byte list option \<Rightarrow> digest \<Rightarrow> PhysicalPlacement option \<Rightarrow> ('p, VersionId) store_prog" where
  "replay_splice E P history vid parent off delete_len ins request_id binding dg physical =
     bindP (readP (\<lambda>s. if history \<notin> set (histories s)
       then Inl (HistoryError.Invalid ''history log splice targets an unknown history'') else Inr ())) (\<lambda>_.
     bindP (readP (\<lambda>s. replay_parent s history parent)) (\<lambda>(parent_root, parent_len).
     bindP (liftP (replay_coordinates parent parent_len off delete_len ins)) (\<lambda>result_len.
     bindP (liftP (if history_splice_digest E history parent off delete_len ins binding \<noteq> dg
       then Inl (HistoryError.Invalid ''history log splice digest disagrees with its operation'')
       else validate_optional_binding binding)) (\<lambda>_.
     bindP (replay_identity vid) (\<lambda>_.
     bindP (liftP (reserve E ''persistent version table allocation failed'' 1)) (\<lambda>_.
     bindP (replay_root E P parent_root off delete_len ins result_len physical) (\<lambda>root.
     bindP (modifyP (\<lambda>s. s\<lparr>versions := versions s @ [\<lparr>record_version =
         \<lparr>version_history = history, version_id = vid, version_parent = parent\<rparr>,
         record_root = Some root, record_len = result_len\<rparr>]\<rparr>)) (\<lambda>_.
     replay_receipt E vid request_id binding dg))))))))"

definition replay_fork ::
  "env \<Rightarrow> HistoryId \<Rightarrow> VersionId \<Rightarrow> VersionId \<Rightarrow> byte list option \<Rightarrow> byte list option \<Rightarrow> digest \<Rightarrow>
   ('p, VersionId) store_prog" where
  "replay_fork E history vid parent request_id binding dg =
     bindP (readP (\<lambda>s. if history \<notin> set (histories s)
       then Inl (HistoryError.Invalid ''history log fork targets an unknown history'') else Inr ())) (\<lambda>_.
     bindP (readP (\<lambda>s. map_err (\<lambda>_. HistoryError.Invalid ''history log fork parent version is unknown'')
       (version_record s parent))) (\<lambda>rec.
     bindP (readP (\<lambda>s.
       if version_history (record_version rec) \<noteq> history then
         Inl (HistoryError.Invalid ''history log fork parent belongs to a different history'')
       else if parent \<in> set (expired_versions s) then
         Inl (HistoryError.Invalid ''history log fork parent is expired'')
       else ok_or (HistoryError.Invalid ''history log fork parent has no materialized root'') (record_root rec))) (\<lambda>root.
     bindP (liftP (if history_fork_digest E history parent binding \<noteq> dg
       then Inl (HistoryError.Invalid ''history log fork digest disagrees with its operation'')
       else validate_optional_binding binding)) (\<lambda>_.
     bindP (replay_identity vid) (\<lambda>_.
     bindP (liftP (reserve E ''persistent version table allocation failed'' 1)) (\<lambda>_.
     bindP (modifyP (\<lambda>s. s\<lparr>versions := versions s @ [\<lparr>record_version =
         \<lparr>version_history = history, version_id = vid, version_parent = Some parent\<rparr>,
         record_root = Some root, record_len = record_len rec\<rparr>]\<rparr>)) (\<lambda>_.
     replay_receipt E vid request_id binding dg)))))))"

definition replay_retire :: "env \<Rightarrow> byte list \<Rightarrow> digest \<Rightarrow> ('p, unit) store_prog" where
  "replay_retire E request_id dg s =
    (case bindR (validate_request_identity request_id) (\<lambda>_.
          bindR (case hget (active_requests s) request_id of
                   Some rec \<Rightarrow> if request_digest rec = dg then Inr ()
                     else Inl (HistoryError.Invalid ''history log retirement disagrees with replayed ledger'')
                 | None \<Rightarrow> Inl (HistoryError.Invalid ''history log retirement disagrees with replayed ledger'')) (\<lambda>_.
          if hget (retired_requests s) request_id \<noteq> None then
            Inl (HistoryError.Invalid ''history log retirement duplicates a retired identity'')
          else
            bindR (reserve E ''persistent retired request key allocation failed'' (length request_id)) (\<lambda>_.
            reserve E ''persistent retired request allocation failed'' 1))) of
       Inl e \<Rightarrow> Some (Inl e, s)
     | Inr _ \<Rightarrow> Some (Inr (), s\<lparr>active_requests := hdel request_id (active_requests s),
         retired_requests := hput request_id dg (retired_requests s)\<rparr>))"

definition replay_expire :: "env \<Rightarrow> HistoryId \<Rightarrow> VersionId \<Rightarrow> ('p, unit) store_prog" where
  "replay_expire E history vid s =
    (case bindR (if history \<notin> set (histories s)
            then Inl (HistoryError.Invalid ''history log expire targets an unknown history'') else Inr ()) (\<lambda>_.
          bindR (map_err (\<lambda>_. HistoryError.Invalid ''history log expire targets an unknown version'')
            (version_record s vid)) (\<lambda>rec.
          if version_history (record_version rec) \<noteq> history then
            Inl (HistoryError.Invalid ''history log expire crosses histories'')
          else if vid \<in> set (expired_versions s) then Inr True
          else
            bindR (reserve E ''persistent expired version allocation failed'' 1) (\<lambda>_.
            bindR (reserve_when (receipt_of s vid \<noteq> None) E ''persistent retired request allocation failed'' 1) (\<lambda>_.
            Inr False)))) of
       Inl e \<Rightarrow> Some (Inl e, s)
     | Inr True \<Rightarrow> Some (Inr (), s)
     | Inr False \<Rightarrow>
         let s1 = (case receipt_of s vid of
                     None \<Rightarrow> s
                   | Some (rid, dg) \<Rightarrow> s\<lparr>active_requests := hdel rid (active_requests s),
                       retired_requests := hput rid dg (retired_requests s)\<rparr>)
         in Some (Inr (), s1\<lparr>expired_versions := List.insert vid (expired_versions s1)\<rparr>))"

text \<open>
  One linear pass over the bindings: a repeated non-empty binding fails.
\<close>

fun bindings_unique :: "byte list list \<Rightarrow> byte list list \<Rightarrow> bool" where
  "bindings_unique seen [] \<longleftrightarrow> True"
| "bindings_unique seen (b # bs) \<longleftrightarrow>
     (if b = [] then bindings_unique seen bs else b \<notin> set seen \<and> bindings_unique (b # seen) bs)"

definition validate_replayed_history_bindings :: "env \<Rightarrow> 'p PersistentHistoryStore \<Rightarrow> HistoryError + unit" where
  "validate_replayed_history_bindings E s =
     bindR (reserve E ''persistent history binding validation allocation failed'' (length (history_bindings s))) (\<lambda>_.
     if bindings_unique [] (map snd (history_bindings s)) then Inr ()
     else Inl (HistoryError.Invalid ''replayed history bindings are not unique''))"

end
