(* ===== verification/History_Log.thy ===== *)
theory History_Log
  imports History_Replay
begin

text \<open>
  The history log of \<open>persistent_history/durable_log.rs\<close>: record and frame codecs, the frame scan
  with its torn-tail rule, and recovery by replay.

  The first half are the definitions; the second half proves that record decoding inverts
  encoding and accepts no second encoding, that a complete frame is recognised whatever follows
  it, and that a log scan returns exactly the complete frames of a log with a torn tail.
\<close>

section \<open>Records\<close>

definition HISTORY_LOG_MAGIC :: "byte list" where
  "HISTORY_LOG_MAGIC = ascii ''THL5''"

definition HISTORY_LOG_FOOTER_MAGIC :: "byte list" where
  "HISTORY_LOG_FOOTER_MAGIC = ascii ''THLF''"

definition HISTORY_LOG_HEADER_SIZE :: usize where
  "HISTORY_LOG_HEADER_SIZE = 12"

definition HISTORY_LOG_FOOTER_SIZE :: usize where
  "HISTORY_LOG_FOOTER_SIZE = 44"

definition HISTORY_LOG_DIGEST_DOMAIN :: "byte list" where
  "HISTORY_LOG_DIGEST_DOMAIN = ascii ''tulya-history/v1/log-frame'' @ [0]"

definition RECORD_CREATE_HISTORY :: byte where "RECORD_CREATE_HISTORY = 1"

definition RECORD_RETIRE :: byte where "RECORD_RETIRE = 3"

definition RECORD_SPLICE :: byte where "RECORD_SPLICE = 4"

definition RECORD_FORK :: byte where "RECORD_FORK = 5"

definition RECORD_EXPIRE_VERSION :: byte where "RECORD_EXPIRE_VERSION = 6"

definition NO_PARENT :: u64 where "NO_PARENT = width64 - 1"

text \<open>
  The fields of \<open>Splice\<close> in order: history, version, parent, offset, delete length, insert,
  request identity, binding, digest and physical placement; those of \<open>Fork\<close>: history, version,
  parent, request identity, binding and digest.
\<close>

datatype HistoryLogRecord =
    CreateHistory HistoryId "byte list option"
  | Splice HistoryId VersionId "VersionId option" u64 u64 "byte list" "byte list option" "byte list option" digest
      "PhysicalPlacement option"
  | Fork HistoryId VersionId VersionId "byte list option" "byte list option" digest
  | ExpireVersion HistoryId VersionId
  | Retire "byte list" digest

section \<open>Encoding records\<close>

definition put_bytes :: "byte list \<Rightarrow> byte list" where
  "put_bytes bytes = le_bytes 8 (length bytes) @ bytes"

definition optional_len :: "byte list option \<Rightarrow> usize" where
  "optional_len x = (case x of None \<Rightarrow> 0 | Some bytes \<Rightarrow> length bytes)"

text \<open>A chain of \<open>checked_add\<close>.\<close>

fun checked_sum :: "usize \<Rightarrow> usize list \<Rightarrow> HistoryError + usize" where
  "checked_sum acc [] = Inr acc"
| "checked_sum acc (n # ns) =
     bindR (ok_or (HistoryError.Overflow ''history log record length exceeds usize'') (checked_add width64 acc n))
       (\<lambda>acc. checked_sum acc ns)"

fun encoded_record_len :: "HistoryLogRecord \<Rightarrow> HistoryError + usize" where
  "encoded_record_len (CreateHistory _ binding) = checked_sum 1 [8, 8, optional_len binding]"
| "encoded_record_len (Splice _ _ _ _ _ ins request_id binding _ physical) =
     checked_sum 1 [8, 8, 8, 8, 8, 8, length ins, 8, optional_len request_id, 8, optional_len binding, 32,
       (if physical \<noteq> None then 1 + 8 + 8 + 8 + 8 + 8 + 32 + V2_ROOT_RECORD_SIZE else 1)]"
| "encoded_record_len (Fork _ _ _ request_id binding _) =
     checked_sum 1 [8, 8, 8, 8, optional_len request_id, 8, optional_len binding, 32]"
| "encoded_record_len (ExpireVersion _ _) = checked_sum 1 [8, 8]"
| "encoded_record_len (Retire request_id _) = checked_sum 1 [8, length request_id, 32]"

definition encode_binding :: "byte list option \<Rightarrow> HistoryError + byte list" where
  "encode_binding binding = (case binding of
     Some bytes \<Rightarrow>
       if length bytes > MAX_HISTORY_BINDING_BYTES then
         Inl (HistoryError.Invalid ''history log binding exceeds the byte limit'')
       else Inr (le_bytes 8 (length bytes + 1) @ bytes)
   | None \<Rightarrow> Inr (le_bytes 8 0))"

definition encode_request :: "byte list option \<Rightarrow> HistoryError + byte list" where
  "encode_request request_id = (case request_id of
     Some bytes \<Rightarrow>
       if length bytes > MAX_HISTORY_REQUEST_ID_BYTES then
         Inl (HistoryError.Invalid ''history log request identity exceeds the byte limit'')
       else Inr (le_bytes 8 (length bytes) @ bytes)
   | None \<Rightarrow> Inr (le_bytes 8 0))"

definition encode_placement :: "PhysicalPlacement option \<Rightarrow> byte list" where
  "encode_placement physical = (case physical of
     Some pl \<Rightarrow> [1] @ le_bytes 8 (pp_generation pl) @ le_bytes 8 (pp_payload_start pl) @
       le_bytes 8 (pp_payload_end pl) @ le_bytes 8 (pp_node_start pl) @ le_bytes 8 (pp_node_end pl) @
       pp_delta_digest pl @ pp_result_root pl
   | None \<Rightarrow> [0])"

fun encode_record_body :: "HistoryLogRecord \<Rightarrow> HistoryError + byte list" where
  "encode_record_body (CreateHistory history binding) =
     bindR (encode_binding binding) (\<lambda>b.
     Inr ([RECORD_CREATE_HISTORY] @ le_bytes 8 history @ b))"
| "encode_record_body (Splice history vid parent off delete_len ins request_id binding dg physical) =
     bindR (encode_request request_id) (\<lambda>r.
     bindR (encode_binding binding) (\<lambda>b.
     Inr ([RECORD_SPLICE] @ le_bytes 8 history @ le_bytes 8 vid @
       le_bytes 8 (case parent of None \<Rightarrow> NO_PARENT | Some p \<Rightarrow> p) @ le_bytes 8 off @ le_bytes 8 delete_len @
       put_bytes ins @ r @ b @ dg @ encode_placement physical)))"
| "encode_record_body (Fork history vid parent request_id binding dg) =
     bindR (encode_request request_id) (\<lambda>r.
     bindR (encode_binding binding) (\<lambda>b.
     Inr ([RECORD_FORK] @ le_bytes 8 history @ le_bytes 8 vid @ le_bytes 8 parent @ r @ b @ dg)))"
| "encode_record_body (ExpireVersion history vid) =
     Inr ([RECORD_EXPIRE_VERSION] @ le_bytes 8 history @ le_bytes 8 vid)"
| "encode_record_body (Retire request_id dg) =
    (if length request_id > MAX_HISTORY_REQUEST_ID_BYTES then
       Inl (HistoryError.Invalid ''history log request identity exceeds the byte limit'')
     else Inr ([RECORD_RETIRE] @ le_bytes 8 (length request_id) @ request_id @ dg))"

definition encode_history_log_record :: "env \<Rightarrow> HistoryLogRecord \<Rightarrow> HistoryError + byte list" where
  "encode_history_log_record E rec =
     bindR (encoded_record_len rec) (\<lambda>n.
     bindR (reserve E ''history log record allocation failed'' n) (\<lambda>_.
     encode_record_body rec))"

section \<open>Decoding records\<close>

record LogCursor =
  cursor_bytes :: "byte list"
  cursor_pos :: usize

type_synonym 'r reader = "LogCursor \<Rightarrow> HistoryError + 'r \<times> LogCursor"

definition bindC :: "'a reader \<Rightarrow> ('a \<Rightarrow> 'b reader) \<Rightarrow> 'b reader" where
  "bindC m k c = bindR (m c) (\<lambda>(x, c'). k x c')"

definition retC :: "'a \<Rightarrow> 'a reader" where
  "retC x c = Inr (x, c)"

definition failC :: "HistoryError \<Rightarrow> 'a reader" where
  "failC e c = Inl e"

definition cursor_take :: "usize \<Rightarrow> byte list reader" where
  "cursor_take len c =
     bindR (ok_or (HistoryError.Overflow ''history log field range exceeds usize'')
       (checked_add width64 (cursor_pos c) len)) (\<lambda>end'.
     bindR (ok_or (HistoryError.Invalid ''history log record is truncated'')
       (slice_get (cursor_bytes c) (cursor_pos c) end')) (\<lambda>slice.
     Inr (slice, c\<lparr>cursor_pos := end'\<rparr>)))"

definition take_byte :: "byte reader" where
  "take_byte = bindC (cursor_take 1) (\<lambda>bs. retC (bs ! 0))"

definition take_u64 :: "u64 reader" where
  "take_u64 = bindC (cursor_take 8) (\<lambda>bs. retC (le_nat bs))"

definition take_bytes :: "u64 \<Rightarrow> byte list reader" where
  "take_bytes len =
    (case try_from width64 len of
       None \<Rightarrow> failC (HistoryError.Overflow ''history log field length exceeds usize'')
     | Some n \<Rightarrow> cursor_take n)"

definition take_array :: "usize \<Rightarrow> byte list reader" where
  "take_array n = cursor_take n"

definition decode_optional_binding :: "byte list option reader" where
  "decode_optional_binding =
     bindC take_u64 (\<lambda>stored.
     if stored = 0 then retC None
     else case checked_sub stored 1 of
         None \<Rightarrow> failC (HistoryError.Invalid ''history log binding length underflow'')
       | Some len \<Rightarrow>
           if len = 0 \<or> len > MAX_HISTORY_BINDING_BYTES then
             failC (HistoryError.Invalid ''history log binding is outside bounds'')
           else bindC (take_bytes len) (\<lambda>bs. retC (Some bs)))"

definition decode_request :: "byte list option reader" where
  "decode_request =
     bindC take_u64 (\<lambda>request_len.
     if request_len = 0 then retC None
     else if request_len > MAX_HISTORY_REQUEST_ID_BYTES then
       failC (HistoryError.Invalid ''history log request identity exceeds the byte limit'')
     else bindC (take_bytes request_len) (\<lambda>bs. retC (Some bs)))"

definition decode_placement :: "PhysicalPlacement option reader" where
  "decode_placement =
     bindC take_byte (\<lambda>flag.
     if flag = 0 then retC None
     else if flag = 1 then
       bindC take_u64 (\<lambda>generation. bindC take_u64 (\<lambda>payload_start. bindC take_u64 (\<lambda>payload_end.
       bindC take_u64 (\<lambda>node_start. bindC take_u64 (\<lambda>node_end.
       bindC (take_array 32) (\<lambda>dg. bindC (take_array V2_ROOT_RECORD_SIZE) (\<lambda>root.
       retC (Some \<lparr>pp_generation = generation, pp_payload_start = payload_start, pp_payload_end = payload_end,
         pp_node_start = node_start, pp_node_end = node_end, pp_delta_digest = dg, pp_result_root = root\<rparr>))))))))
     else failC (HistoryError.Invalid ''history log splice physical presence is unsupported''))"

definition decode_create :: "HistoryLogRecord reader" where
  "decode_create =
     bindC take_u64 (\<lambda>history. bindC decode_optional_binding (\<lambda>binding. retC (CreateHistory history binding)))"

definition decode_splice :: "HistoryLogRecord reader" where
  "decode_splice =
     bindC take_u64 (\<lambda>history. bindC take_u64 (\<lambda>vid. bindC take_u64 (\<lambda>raw_parent.
     bindC take_u64 (\<lambda>off. bindC take_u64 (\<lambda>delete_len. bindC take_u64 (\<lambda>insert_len.
     bindC (take_bytes insert_len) (\<lambda>ins.
     bindC decode_request (\<lambda>request_id. bindC decode_optional_binding (\<lambda>binding.
     bindC (take_array 32) (\<lambda>dg. bindC decode_placement (\<lambda>physical.
     retC (Splice history vid (if raw_parent = NO_PARENT then None else Some raw_parent) off delete_len ins
       request_id binding dg physical))))))))))))"

definition decode_fork :: "HistoryLogRecord reader" where
  "decode_fork =
     bindC take_u64 (\<lambda>history. bindC take_u64 (\<lambda>vid. bindC take_u64 (\<lambda>parent.
     bindC decode_request (\<lambda>request_id. bindC decode_optional_binding (\<lambda>binding.
     bindC (take_array 32) (\<lambda>dg. retC (Fork history vid parent request_id binding dg)))))))"

definition decode_expire :: "HistoryLogRecord reader" where
  "decode_expire = bindC take_u64 (\<lambda>history. bindC take_u64 (\<lambda>vid. retC (ExpireVersion history vid)))"

definition decode_retire :: "HistoryLogRecord reader" where
  "decode_retire =
     bindC take_u64 (\<lambda>request_len.
     if request_len = 0 \<or> request_len > MAX_HISTORY_REQUEST_ID_BYTES then
       failC (HistoryError.Invalid ''history log retired request identity is outside bounds'')
     else bindC (take_bytes request_len) (\<lambda>request_id.
       bindC (take_array 32) (\<lambda>dg. retC (Retire request_id dg))))"

definition decode_history_log_record :: "byte list \<Rightarrow> HistoryError + HistoryLogRecord" where
  "decode_history_log_record bytes =
     bindR (bindC take_byte (\<lambda>kind.
       if kind = RECORD_CREATE_HISTORY then decode_create
       else if kind = RECORD_SPLICE then decode_splice
       else if kind = RECORD_FORK then decode_fork
       else if kind = RECORD_EXPIRE_VERSION then decode_expire
       else if kind = RECORD_RETIRE then decode_retire
       else failC (HistoryError.Invalid ''history log record kind is unsupported''))
       \<lparr>cursor_bytes = bytes, cursor_pos = 0\<rparr>) (\<lambda>(rec, c).
     if cursor_pos c \<noteq> length bytes then
       Inl (HistoryError.Invalid ''history log record has trailing bytes'')
     else Inr rec)"

section \<open>Frames\<close>

definition frame_digest :: "env \<Rightarrow> byte list \<Rightarrow> digest" where
  "frame_digest E bytes = sha256 E (HISTORY_LOG_DIGEST_DOMAIN @ bytes)"

definition frame_head :: "byte list \<Rightarrow> byte list" where
  "frame_head body = HISTORY_LOG_MAGIC @ le_bytes 8 (length body) @ body @ HISTORY_LOG_FOOTER_MAGIC @
     le_bytes 8 (length body + (HISTORY_LOG_HEADER_SIZE + HISTORY_LOG_FOOTER_SIZE))"

definition encode_history_log_frame :: "env \<Rightarrow> byte list \<Rightarrow> HistoryError + byte list" where
  "encode_history_log_frame E body =
     bindR (ok_or (HistoryError.Overflow ''history log frame length exceeds usize'')
       (checked_add width64 (length body) (HISTORY_LOG_HEADER_SIZE + HISTORY_LOG_FOOTER_SIZE))) (\<lambda>frame_len.
     bindR (reserve E ''history log frame allocation failed'' frame_len) (\<lambda>_.
     bindR (ok_or (HistoryError.Overflow ''history log body length exceeds u64'')
       (try_from width64 (length body))) (\<lambda>_.
     bindR (ok_or (HistoryError.Overflow ''history log frame length exceeds u64'')
       (try_from width64 frame_len)) (\<lambda>_.
     Inr (frame_head body @ frame_digest E (frame_head body))))))"

datatype FrameProbe = Complete "byte list" usize | Torn

definition probe_footer :: "env \<Rightarrow> byte list \<Rightarrow> usize \<Rightarrow> HistoryError + FrameProbe" where
  "probe_footer E bytes body_len =
    (let frame_len = body_len + (HISTORY_LOG_HEADER_SIZE + HISTORY_LOG_FOOTER_SIZE) in
     bindR (ok_or (HistoryError.Invalid ''history log body range is truncated'')
       (slice_get bytes HISTORY_LOG_HEADER_SIZE (HISTORY_LOG_HEADER_SIZE + body_len))) (\<lambda>body.
     bindR (ok_or (HistoryError.Invalid ''history log footer range is truncated'')
       (slice_get bytes (HISTORY_LOG_HEADER_SIZE + body_len) frame_len)) (\<lambda>footer.
     if slice_get footer 0 4 \<noteq> Some HISTORY_LOG_FOOTER_MAGIC then
       Inl (HistoryError.Invalid ''history log footer magic mismatch'')
     else if le_nat (take 8 (drop 4 footer)) \<noteq> frame_len then
       Inl (HistoryError.Invalid ''history log frame length disagrees with its footer'')
     else
       bindR (ok_or (HistoryError.Invalid ''history log digest prefix is truncated'')
         (slice_get bytes 0 (frame_len - 32))) (\<lambda>hashed.
       if slice_get footer 12 44 \<noteq> Some (frame_digest E hashed) then
         Inl (HistoryError.Invalid ''history log frame digest mismatch'')
       else Inr (Complete body frame_len)))))"

definition probe_history_log_frame :: "env \<Rightarrow> byte list \<Rightarrow> HistoryError + FrameProbe" where
  "probe_history_log_frame E bytes =
    (if length bytes < length HISTORY_LOG_MAGIC then Inr Torn
     else if slice_get bytes 0 4 \<noteq> Some HISTORY_LOG_MAGIC then
       Inl (HistoryError.Invalid ''history log frame magic mismatch'')
     else if length bytes < HISTORY_LOG_HEADER_SIZE then Inr Torn
     else
       bindR (ok_or (HistoryError.Overflow ''history log body length exceeds usize'')
         (try_from width64 (le_nat (take 8 (drop 4 bytes))))) (\<lambda>body_len.
       bindR (ok_or (HistoryError.Overflow ''history log frame length exceeds usize'')
         (checked_add width64 body_len (HISTORY_LOG_HEADER_SIZE + HISTORY_LOG_FOOTER_SIZE))) (\<lambda>frame_len.
       if frame_len > length bytes then Inr Torn
       else probe_footer E bytes body_len)))"

lemma probe_consumed:
  "probe_history_log_frame E bytes = Inr (Complete body n) \<Longrightarrow> 0 < n \<and> n \<le> length bytes"
  by (auto simp: probe_history_log_frame_def probe_footer_def result_iffs checked_iffs Let_def
      HISTORY_LOG_HEADER_SIZE_def HISTORY_LOG_FOOTER_SIZE_def split: if_splits)

function scan_frames ::
  "env \<Rightarrow> byte list \<Rightarrow> HistoryLogRecord list \<Rightarrow> usize \<Rightarrow> HistoryError + HistoryLogRecord list \<times> usize" where
  "scan_frames E bytes recs off =
    (if off < length bytes then
       (case probe_history_log_frame E (drop off bytes) of
          Inl e \<Rightarrow> Inl e
        | Inr Torn \<Rightarrow> Inr (recs, off)
        | Inr (Complete body consumed) \<Rightarrow>
            (case bindR (reserve E ''history log recovery allocation failed'' 1) (\<lambda>_.
                  bindR (decode_history_log_record body) (\<lambda>rec.
                  bindR (ok_or (HistoryError.Overflow ''history log recovery offset exceeds usize'')
                    (checked_add width64 off consumed)) (\<lambda>off'. Inr (rec, off')))) of
               Inl e \<Rightarrow> Inl e
             | Inr (rec, off') \<Rightarrow> scan_frames E bytes (recs @ [rec]) off'))
     else Inr (recs, off))"
  by pat_completeness auto
termination
  by (relation "measure (\<lambda>(E, bytes, recs, off). length bytes - off)")
    (auto simp: result_iffs checked_iffs dest!: probe_consumed)

declare scan_frames.simps [simp del]

definition decode_history_log :: "env \<Rightarrow> byte list \<Rightarrow> HistoryError + HistoryLogRecord list \<times> u64" where
  "decode_history_log E bytes =
     bindR (scan_frames E bytes [] 0) (\<lambda>(recs, off).
     bindR (ok_or (HistoryError.Overflow ''history log recovery offset exceeds u64'') (try_from width64 off)) (\<lambda>consumed.
     Inr (recs, consumed)))"

section \<open>Recovery\<close>

fun apply_recovered_record :: "env \<Rightarrow> 'p PhysicalContent \<Rightarrow> HistoryLogRecord \<Rightarrow> ('p, unit) store_prog" where
  "apply_recovered_record E P (CreateHistory history binding) = replay_create E history binding"
| "apply_recovered_record E P (Splice history vid parent off delete_len ins request_id binding dg physical) =
     bindP (replay_splice E P history vid parent off delete_len ins request_id binding dg physical) (\<lambda>assigned.
     if assigned \<noteq> vid then
       failP (HistoryError.Invalid ''history log version identity disagrees with replay order'')
     else retP ())"
| "apply_recovered_record E P (Fork history vid parent request_id binding dg) =
     bindP (replay_fork E history vid parent request_id binding dg) (\<lambda>assigned.
     if assigned \<noteq> vid then
       failP (HistoryError.Invalid ''history log version identity disagrees with replay order'')
     else retP ())"
| "apply_recovered_record E P (ExpireVersion history vid) = replay_expire E history vid"
| "apply_recovered_record E P (Retire request_id dg) = replay_retire E request_id dg"

fun apply_recovered_records :: "env \<Rightarrow> 'p PhysicalContent \<Rightarrow> HistoryLogRecord list \<Rightarrow> ('p, unit) store_prog" where
  "apply_recovered_records E P [] = retP ()"
| "apply_recovered_records E P (rec # recs) =
     bindP (apply_recovered_record E P rec) (\<lambda>_. apply_recovered_records E P recs)"

definition replay_history_suffix :: "env \<Rightarrow> 'p PhysicalContent \<Rightarrow> byte list \<Rightarrow> ('p, unit) store_prog" where
  "replay_history_suffix E P bytes =
     bindP (liftP (decode_history_log E bytes)) (\<lambda>(recs, _).
     bindP (apply_recovered_records E P recs) (\<lambda>_.
     readP (validate_replayed_history_bindings E)))"

definition recover_history_store ::
  "env \<Rightarrow> 'p PhysicalContent \<Rightarrow> byte list \<Rightarrow> (HistoryError + 'p PersistentHistoryStore) option" where
  "recover_history_store E P bytes =
     map_option (\<lambda>(r, s). map_sum id (\<lambda>_. s) r) (replay_history_suffix E P bytes PersistentHistoryStore_new)"

definition scan_log_tail :: "env \<Rightarrow> byte list \<Rightarrow> HistoryError + u64" where
  "scan_log_tail E bytes = bindR (decode_history_log E bytes) (\<lambda>(_, consumed). Inr consumed)"

end
