(* ===== verification/History_Snapshot.thy ===== *)
theory History_Snapshot
  imports History_Log "HOL-Library.List_Lexorder"
begin

text \<open>
  Sealed history snapshots (\<open>persistent_history/snapshot.rs\<close>): the artifact that carries the catalogue,
  the receipt ledgers and the content frontiers of one generation.  Request identities compare as
  byte strings, lexicographically.  A count or identity is one 64-bit value, so the \<open>as usize\<close>
  conversions of the code are the identity.
\<close>

section \<open>Data\<close>

definition HISTORY_SNAPSHOT_MAGIC :: "byte list" where
  "HISTORY_SNAPSHOT_MAGIC = ascii ''THS1''"

definition HISTORY_SNAPSHOT_SCHEMA :: nat where
  "HISTORY_SNAPSHOT_SCHEMA = 6"

definition HISTORY_SNAPSHOT_HEADER_SIZE :: usize where
  "HISTORY_SNAPSHOT_HEADER_SIZE = 112"

definition HISTORY_SNAPSHOT_DIGEST_DOMAIN :: "byte list" where
  "HISTORY_SNAPSHOT_DIGEST_DOMAIN = ascii ''tulya-history/v1/snapshot'' @ [0]"

record SnapshotVersion =
  sv_history :: HistoryId
  sv_parent :: "VersionId option"
  sv_binding :: "byte list option"
  sv_lifecycle :: VersionLifecycle
  sv_root_present :: bool
  sv_len :: u64
  sv_root :: "byte list option"

record SnapshotActive =
  sa_request_id :: "byte list"
  sa_digest :: digest
  sa_version :: VersionId

record SnapshotRetired =
  sr_request_id :: "byte list"
  sr_digest :: digest

record HistorySnapshot =
  snap_generation :: u64
  snap_represented_wal_end :: u64
  snap_physical_generation :: u64
  snap_payload_end :: u64
  snap_node_count :: u64
  snap_next_history_id :: u64
  snap_next_version_id :: u64
  snap_history_bindings :: "byte list option list"
  snap_versions :: "SnapshotVersion list"
  snap_active :: "SnapshotActive list"
  snap_retired :: "SnapshotRetired list"
  snap_receipt_order :: "byte list list"

section \<open>Encoding\<close>

abbreviation snapshot_reserve :: "env \<Rightarrow> nat \<Rightarrow> HistoryError + unit" where
  "snapshot_reserve E n \<equiv> reserve E ''history snapshot allocation failed'' n"

text \<open>Each \<open>put_\<close> function returns the bytes it appends.\<close>

definition snap_put_u64 :: "env \<Rightarrow> u64 \<Rightarrow> HistoryError + byte list" where
  "snap_put_u64 E v = bindR (snapshot_reserve E 8) (\<lambda>_. Inr (le_bytes 8 v))"

definition snap_put_u32 :: "nat \<Rightarrow> byte list" where
  "snap_put_u32 v = le_bytes 4 v"

definition snap_put_bytes :: "env \<Rightarrow> byte list \<Rightarrow> HistoryError + byte list" where
  "snap_put_bytes E bytes =
     bindR (ok_or (HistoryError.Overflow ''history snapshot length exceeds u64'') (try_from width64 (length bytes))) (\<lambda>n.
     bindR (snap_put_u64 E n) (\<lambda>head.
     bindR (snapshot_reserve E (length bytes)) (\<lambda>_. Inr (head @ bytes))))"

definition snap_put_optional_bytes :: "env \<Rightarrow> byte list option \<Rightarrow> HistoryError + byte list" where
  "snap_put_optional_bytes E x = (case x of
     None \<Rightarrow> snap_put_u64 E 0
   | Some bytes \<Rightarrow>
       if bytes = [] \<or> length bytes > MAX_HISTORY_BINDING_BYTES then
         Inl (HistoryError.Invalid ''history snapshot binding is outside bounds'')
       else
       bindR (ok_or (HistoryError.Overflow ''history snapshot length exceeds u64'')
         (Option.bind (try_from width64 (length bytes)) (\<lambda>n. checked_add width64 n 1))) (\<lambda>n.
       bindR (snap_put_u64 E n) (\<lambda>head.
       bindR (snapshot_reserve E (length bytes)) (\<lambda>_. Inr (head @ bytes)))))"

fun put_each :: "('a \<Rightarrow> HistoryError + byte list) \<Rightarrow> 'a list \<Rightarrow> HistoryError + byte list" where
  "put_each f [] = Inr []"
| "put_each f (x # xs) = bindR (f x) (\<lambda>b. bindR (put_each f xs) (\<lambda>bs. Inr (b @ bs)))"

definition lifecycle_byte :: "VersionLifecycle \<Rightarrow> byte" where
  "lifecycle_byte l = (case l of Retained \<Rightarrow> 0 | VersionLifecycle.Expired \<Rightarrow> 1)"

definition put_version :: "env \<Rightarrow> usize \<Rightarrow> SnapshotVersion \<Rightarrow> HistoryError + byte list" where
  "put_version E hcount v =
    (if sv_history v \<ge> hcount then
       Inl (HistoryError.Invalid ''history snapshot version references a missing history'')
     else if sv_root_present v \<noteq> (sv_root v \<noteq> None) then
       Inl (HistoryError.Invalid ''history snapshot version root presence disagrees with its descriptor'')
     else
     bindR (snap_put_u64 E (sv_history v)) (\<lambda>h.
     bindR (snap_put_u64 E (case sv_parent v of None \<Rightarrow> NO_PARENT | Some p \<Rightarrow> p)) (\<lambda>p.
     bindR (snap_put_optional_bytes E (sv_binding v)) (\<lambda>b.
     bindR (snapshot_reserve E 2) (\<lambda>_.
     bindR (snap_put_u64 E (sv_len v)) (\<lambda>n.
     let fixed = h @ p @ b @ [lifecycle_byte (sv_lifecycle v), if sv_root_present v then 1 else 0] @ n in
     case sv_root v of
       None \<Rightarrow> Inr fixed
     | Some descriptor \<Rightarrow> bindR (snapshot_reserve E V2_ROOT_RECORD_SIZE) (\<lambda>_. Inr (fixed @ descriptor))))))))"

definition check_request_bounds :: "byte list \<Rightarrow> HistoryError + unit" where
  "check_request_bounds request_id =
    (if request_id = [] \<or> length request_id > MAX_HISTORY_REQUEST_ID_BYTES then
       Inl (HistoryError.Invalid ''history snapshot request identity is outside bounds'')
     else Inr ())"

definition check_ascending :: "msg \<Rightarrow> byte list option \<Rightarrow> byte list \<Rightarrow> HistoryError + unit" where
  "check_ascending m previous request_id = (case previous of
     None \<Rightarrow> Inr ()
   | Some p \<Rightarrow> if p \<ge> request_id then Inl (HistoryError.Invalid m) else Inr ())"

fun put_active :: "env \<Rightarrow> usize \<Rightarrow> byte list option \<Rightarrow> SnapshotActive list \<Rightarrow> HistoryError + byte list" where
  "put_active E vcount previous [] = Inr []"
| "put_active E vcount previous (rec # recs) =
     bindR (check_request_bounds (sa_request_id rec)) (\<lambda>_.
     bindR (check_ascending ''history snapshot active requests are not strictly ordered'' previous (sa_request_id rec)) (\<lambda>_.
     if sa_version rec \<ge> vcount then
       Inl (HistoryError.Invalid ''history snapshot active request references a missing version'')
     else
     bindR (snap_put_bytes E (sa_request_id rec)) (\<lambda>r.
     bindR (snap_put_u64 E (sa_version rec)) (\<lambda>v.
     bindR (put_active E vcount (Some (sa_request_id rec)) recs) (\<lambda>bs.
     Inr (r @ sa_digest rec @ v @ bs))))))"

fun put_retired :: "env \<Rightarrow> byte list option \<Rightarrow> SnapshotRetired list \<Rightarrow> HistoryError + byte list" where
  "put_retired E previous [] = Inr []"
| "put_retired E previous (rec # recs) =
     bindR (check_request_bounds (sr_request_id rec)) (\<lambda>_.
     bindR (check_ascending ''history snapshot retired requests are not strictly ordered'' previous (sr_request_id rec)) (\<lambda>_.
     bindR (snap_put_bytes E (sr_request_id rec)) (\<lambda>r.
     bindR (put_retired E (Some (sr_request_id rec)) recs) (\<lambda>bs.
     Inr (r @ sr_digest rec @ bs)))))"

definition put_receipt :: "env \<Rightarrow> byte list \<Rightarrow> HistoryError + byte list" where
  "put_receipt E request_id = bindR (check_request_bounds request_id) (\<lambda>_. snap_put_bytes E request_id)"

definition snapshot_digest :: "env \<Rightarrow> byte list \<Rightarrow> byte list" where
  "snapshot_digest E prefix = sha256 E (HISTORY_SNAPSHOT_DIGEST_DOMAIN @ prefix)"

definition put_count :: "env \<Rightarrow> msg \<Rightarrow> usize \<Rightarrow> HistoryError + byte list" where
  "put_count E m n = bindR (ok_or (HistoryError.Overflow m) (try_from width64 n)) (snap_put_u64 E)"

definition put_snapshot_body :: "env \<Rightarrow> HistorySnapshot \<Rightarrow> HistoryError + byte list" where
  "put_snapshot_body E s =
     bindR (put_each (snap_put_optional_bytes E) (snap_history_bindings s)) (\<lambda>h.
     bindR (put_each (put_version E (length (snap_history_bindings s))) (snap_versions s)) (\<lambda>v.
     bindR (put_active E (length (snap_versions s)) None (snap_active s)) (\<lambda>a.
     bindR (put_retired E None (snap_retired s)) (\<lambda>r.
     bindR (put_each (put_receipt E) (snap_receipt_order s)) (\<lambda>q.
     Inr (h @ v @ a @ r @ q))))))"

definition put_snapshot_header :: "env \<Rightarrow> HistorySnapshot \<Rightarrow> usize \<Rightarrow> HistoryError + byte list" where
  "put_snapshot_header E s whole =
     bindR (ok_or (HistoryError.Overflow ''history snapshot length exceeds u64'') (try_from width64 whole)) (\<lambda>whole.
     bindR (snap_put_u64 E whole) (\<lambda>f1.
     bindR (snap_put_u64 E (snap_generation s)) (\<lambda>f2.
     bindR (snap_put_u64 E (snap_represented_wal_end s)) (\<lambda>f3.
     bindR (put_count E ''history snapshot history count exceeds u64'' (length (snap_history_bindings s))) (\<lambda>f4.
     bindR (put_count E ''history snapshot version count exceeds u64'' (length (snap_versions s))) (\<lambda>f5.
     bindR (put_count E ''history snapshot active count exceeds u64'' (length (snap_active s))) (\<lambda>f6.
     bindR (put_count E ''history snapshot retired count exceeds u64'' (length (snap_retired s))) (\<lambda>f7.
     bindR (put_count E ''history snapshot receipt order length exceeds u64'' (length (snap_receipt_order s))) (\<lambda>f8.
     bindR (snap_put_u64 E (snap_physical_generation s)) (\<lambda>f9.
     bindR (snap_put_u64 E (snap_payload_end s)) (\<lambda>f10.
     bindR (snap_put_u64 E (snap_node_count s)) (\<lambda>f11.
     bindR (snap_put_u64 E (snap_next_history_id s)) (\<lambda>f12.
     bindR (snap_put_u64 E (snap_next_version_id s)) (\<lambda>f13.
     Inr (HISTORY_SNAPSHOT_MAGIC @ f1 @ snap_put_u32 HISTORY_SNAPSHOT_SCHEMA @ f2 @ f3 @ f4 @ f5 @ f6 @ f7 @ f8 @
       f9 @ f10 @ f11 @ f12 @ f13)))))))))))))))"

definition encode_history_snapshot_struct :: "env \<Rightarrow> HistorySnapshot \<Rightarrow> HistoryError + byte list" where
  "encode_history_snapshot_struct E s =
    (if snap_next_history_id s \<noteq> length (snap_history_bindings s) then
       Inl (HistoryError.Invalid ''history snapshot next history identity disagrees with its table'')
     else if snap_next_version_id s \<noteq> length (snap_versions s) then
       Inl (HistoryError.Invalid ''history snapshot next version identity disagrees with its table'')
     else
     bindR (put_snapshot_body E s) (\<lambda>body.
     bindR (ok_or (HistoryError.Overflow ''history snapshot length exceeds usize'')
       (Option.bind (checked_add width64 HISTORY_SNAPSHOT_HEADER_SIZE (length body)) (\<lambda>n. checked_add width64 n 32))) (\<lambda>whole.
     bindR (snapshot_reserve E whole) (\<lambda>_.
     bindR (put_snapshot_header E s (HISTORY_SNAPSHOT_HEADER_SIZE + length body + 32)) (\<lambda>header.
     let output = (header @ body) @ snapshot_digest E (header @ body) in
     if length output \<noteq> HISTORY_SNAPSHOT_HEADER_SIZE + length body + 32 then
       Inl (HistoryError.Invalid ''history snapshot encoder produced an unexpected length'')
     else Inr output)))))"

section \<open>Decoding\<close>

text \<open>\<open>SnapshotCursor\<close> has the two head of the log cursor; its functions have messages of their own.\<close>

definition snap_take :: "usize \<Rightarrow> byte list reader" where
  "snap_take len c =
     bindR (ok_or (HistoryError.Overflow ''history snapshot field range exceeds usize'')
       (checked_add width64 (cursor_pos c) len)) (\<lambda>end'.
     bindR (ok_or (HistoryError.Invalid ''history snapshot is truncated'')
       (slice_get (cursor_bytes c) (cursor_pos c) end')) (\<lambda>slice.
     Inr (slice, c\<lparr>cursor_pos := end'\<rparr>)))"

definition snap_take_u64 :: "u64 reader" where
  "snap_take_u64 = bindC (snap_take 8) (\<lambda>bs. retC (le_nat bs))"

definition snap_take_u32 :: "nat reader" where
  "snap_take_u32 = bindC (snap_take 4) (\<lambda>bs. retC (le_nat bs))"

definition snap_take_bytes :: "u64 \<Rightarrow> byte list reader" where
  "snap_take_bytes len =
    (case try_from width64 len of
       None \<Rightarrow> failC (HistoryError.Overflow ''history snapshot field length exceeds usize'')
     | Some n \<Rightarrow> snap_take n)"

definition snap_take_array :: "usize \<Rightarrow> byte list reader" where
  "snap_take_array n = snap_take n"

definition bounded_count :: "msg \<Rightarrow> usize reader" where
  "bounded_count m =
     bindC snap_take_u64 (\<lambda>count.
     case try_from width64 count of
       None \<Rightarrow> failC (HistoryError.Overflow ''history snapshot count exceeds usize'')
     | Some count \<Rightarrow> (\<lambda>c.
         case checked_sub (length (cursor_bytes c)) (cursor_pos c) of
           None \<Rightarrow> Inl (HistoryError.Overflow ''history snapshot position exceeds usize'')
         | Some remaining \<Rightarrow> if count > remaining then Inl (HistoryError.Invalid m) else Inr (count, c)))"

definition snap_take_request_id :: "byte list reader" where
  "snap_take_request_id =
     bindC snap_take_u64 (\<lambda>len.
     if len = 0 \<or> len > MAX_HISTORY_REQUEST_ID_BYTES then
       failC (HistoryError.Invalid ''history snapshot request identity is outside bounds'')
     else snap_take_bytes len)"

definition snap_take_optional_bytes :: "byte list option reader" where
  "snap_take_optional_bytes =
     bindC snap_take_u64 (\<lambda>stored.
     if stored = 0 then retC None
     else case checked_sub stored 1 of
         None \<Rightarrow> failC (HistoryError.Invalid ''history snapshot binding length underflow'')
       | Some len \<Rightarrow>
           if len = 0 \<or> len > MAX_HISTORY_BINDING_BYTES then
             failC (HistoryError.Invalid ''history snapshot binding is outside bounds'')
           else bindC (snap_take_bytes len) (\<lambda>bs. retC (Some bs)))"

fun take_each :: "nat \<Rightarrow> 'a reader \<Rightarrow> 'a list reader" where
  "take_each 0 m = retC []"
| "take_each (Suc n) m = bindC m (\<lambda>x. bindC (take_each n m) (\<lambda>xs. retC (x # xs)))"

definition guardC :: "HistoryError + unit \<Rightarrow> unit reader" where
  "guardC r c = bindR r (\<lambda>_. Inr ((), c))"

definition decode_parent :: "HistoryId \<Rightarrow> SnapshotVersion list \<Rightarrow> u64 \<Rightarrow> HistoryError + VersionId option" where
  "decode_parent history prior raw_parent =
    (if raw_parent = NO_PARENT then Inr None
     else if raw_parent \<ge> length prior then
       Inl (HistoryError.Invalid ''history snapshot version parent is not topologically prior'')
     else if sv_history (prior ! raw_parent) \<noteq> history then
       Inl (HistoryError.Invalid ''history snapshot version parent belongs to a different history'')
     else Inr (Some raw_parent))"

definition decode_lifecycle :: "byte list \<Rightarrow> HistoryError + VersionLifecycle" where
  "decode_lifecycle bs =
    (if bs = [0] then Inr Retained else if bs = [1] then Inr VersionLifecycle.Expired
     else Inl (HistoryError.Invalid ''history snapshot version lifecycle is unsupported''))"

definition decode_presence :: "byte list \<Rightarrow> HistoryError + bool" where
  "decode_presence bs =
    (if bs = [0] then Inr False else if bs = [1] then Inr True
     else Inl (HistoryError.Invalid ''history snapshot version root presence is unsupported''))"

definition decode_descriptor :: "bool \<Rightarrow> byte list option reader" where
  "decode_descriptor present =
    (if present then
       bindC (snap_take_array V2_ROOT_RECORD_SIZE) (\<lambda>descriptor.
       bindC (guardC (map_err (\<lambda>_. HistoryError.Invalid ''history snapshot root descriptor is non-canonical'')
         (bindR (decode_canonical_root_bytes descriptor) (\<lambda>_. Inr ())))) (\<lambda>_.
       retC (Some descriptor)))
     else retC None)"

definition liftC :: "HistoryError + 'a \<Rightarrow> 'a reader" where
  "liftC r c = bindR r (\<lambda>x. Inr (x, c))"

definition decode_version :: "usize \<Rightarrow> SnapshotVersion list \<Rightarrow> SnapshotVersion reader" where
  "decode_version hcount prior =
     bindC snap_take_u64 (\<lambda>history.
     if history \<ge> hcount then
       failC (HistoryError.Invalid ''history snapshot version references a missing history'')
     else
     bindC snap_take_u64 (\<lambda>raw_parent.
     bindC (liftC (decode_parent history prior raw_parent)) (\<lambda>parent.
     bindC snap_take_optional_bytes (\<lambda>binding.
     bindC (snap_take 1) (\<lambda>lb.
     bindC (liftC (decode_lifecycle lb)) (\<lambda>lifecycle.
     bindC (snap_take 1) (\<lambda>pb.
     bindC (liftC (decode_presence pb)) (\<lambda>root_present.
     bindC snap_take_u64 (\<lambda>len.
     if len = 0 then failC (HistoryError.Invalid ''history snapshot version length is zero'')
     else if lifecycle = Retained \<and> \<not> root_present then
       failC (HistoryError.Invalid ''history snapshot retained version has no materialized root'')
     else
     bindC (decode_descriptor root_present) (\<lambda>root.
     retC \<lparr>sv_history = history, sv_parent = parent, sv_binding = binding, sv_lifecycle = lifecycle,
       sv_root_present = root_present, sv_len = len, sv_root = root\<rparr>))))))))))"

fun decode_versions :: "usize \<Rightarrow> nat \<Rightarrow> SnapshotVersion list \<Rightarrow> SnapshotVersion list reader" where
  "decode_versions hcount 0 prior = retC prior"
| "decode_versions hcount (Suc n) prior =
     bindC (decode_version hcount prior) (\<lambda>v. decode_versions hcount n (prior @ [v]))"

fun decode_active :: "usize \<Rightarrow> nat \<Rightarrow> byte list option \<Rightarrow> SnapshotActive list reader" where
  "decode_active vcount 0 previous = retC []"
| "decode_active vcount (Suc n) previous =
     bindC snap_take_request_id (\<lambda>request_id.
     bindC (guardC (check_ascending ''history snapshot active requests are not strictly ordered'' previous request_id)) (\<lambda>_.
     bindC (snap_take_array 32) (\<lambda>dg.
     bindC snap_take_u64 (\<lambda>version.
     if version \<ge> vcount then
       failC (HistoryError.Invalid ''history snapshot active request references a missing version'')
     else
     bindC (decode_active vcount n (Some request_id)) (\<lambda>rest.
     retC (\<lparr>sa_request_id = request_id, sa_digest = dg, sa_version = version\<rparr> # rest))))))"

fun decode_retired :: "byte list list \<Rightarrow> nat \<Rightarrow> byte list option \<Rightarrow> SnapshotRetired list reader" where
  "decode_retired active_ids 0 previous = retC []"
| "decode_retired active_ids (Suc n) previous =
     bindC snap_take_request_id (\<lambda>request_id.
     bindC (guardC (check_ascending ''history snapshot retired requests are not strictly ordered'' previous request_id)) (\<lambda>_.
     if request_id \<in> set active_ids then
       failC (HistoryError.Invalid ''history snapshot request identity is both active and retired'')
     else
     bindC (snap_take_array 32) (\<lambda>dg.
     bindC (decode_retired active_ids n (Some request_id)) (\<lambda>rest.
     retC (\<lparr>sr_request_id = request_id, sr_digest = dg\<rparr> # rest)))))"

section \<open>The receipt horizon\<close>

abbreviation table_reserve :: "env \<Rightarrow> nat \<Rightarrow> HistoryError + unit" where
  "table_reserve E n \<equiv> reserve E ''history snapshot table allocation failed'' n"

fun check_active_ids :: "byte list list \<Rightarrow> byte list list \<Rightarrow> SnapshotActive list \<Rightarrow> HistoryError + unit" where
  "check_active_ids ordered seen [] = Inr ()"
| "check_active_ids ordered seen (rec # recs) =
    (if sa_request_id rec \<notin> set ordered then
       Inl (HistoryError.Invalid ''history snapshot active request is absent from its receipt order'')
     else if sa_request_id rec \<in> set seen then
       Inl (HistoryError.Invalid ''history snapshot active request identity is duplicated'')
     else check_active_ids ordered (sa_request_id rec # seen) recs)"

fun check_retired_ids :: "byte list list \<Rightarrow> byte list list \<Rightarrow> SnapshotRetired list \<Rightarrow> HistoryError + unit" where
  "check_retired_ids ordered active_ids [] = Inr ()"
| "check_retired_ids ordered active_ids (rec # recs) =
    (if sr_request_id rec \<notin> set ordered then
       Inl (HistoryError.Invalid ''history snapshot retired request is absent from its receipt order'')
     else if sr_request_id rec \<in> set active_ids then
       Inl (HistoryError.Invalid ''history snapshot request identity is both active and retired'')
     else check_retired_ids ordered active_ids recs)"

fun check_claims :: "SnapshotVersion list \<Rightarrow> VersionId list \<Rightarrow> SnapshotActive list \<Rightarrow> HistoryError + unit" where
  "check_claims vs claimed [] = Inr ()"
| "check_claims vs claimed (rec # recs) =
     bindR (ok_or (HistoryError.Invalid ''history snapshot active request references a missing version'')
       (get_at vs (sa_version rec))) (\<lambda>entry.
     if sv_lifecycle entry \<noteq> Retained then
       Inl (HistoryError.Invalid ''history snapshot active request references an expired version'')
     else if sa_version rec \<in> set claimed then
       Inl (HistoryError.Invalid ''history snapshot active requests claim one version twice'')
     else check_claims vs (sa_version rec # claimed) recs)"

definition validate_snapshot_receipt_consistency ::
  "env \<Rightarrow> SnapshotVersion list \<Rightarrow> SnapshotActive list \<Rightarrow> SnapshotRetired list \<Rightarrow> byte list list \<Rightarrow> HistoryError + unit" where
  "validate_snapshot_receipt_consistency E vs active retired order =
    (if length order > STAGING_REQUEST_RECEIPT_CAPACITY then
       Inl (HistoryError.Invalid ''history snapshot receipt horizon exceeds its staging capacity'')
     else
     bindR (table_reserve E (length order)) (\<lambda>_.
     if \<not> distinct order then Inl (HistoryError.Invalid ''history snapshot receipt order is duplicated'')
     else if length order \<noteq> length active + length retired then
       Inl (HistoryError.Invalid ''history snapshot receipt order disagrees with its ledgers'')
     else
     bindR (table_reserve E (length active)) (\<lambda>_.
     bindR (check_active_ids order [] active) (\<lambda>_.
     bindR (check_retired_ids order (map sa_request_id active) retired) (\<lambda>_.
     bindR (table_reserve E (length active)) (\<lambda>_.
     check_claims vs [] active))))))"

section \<open>The decoder\<close>

definition decode_tables :: "env \<Rightarrow> HistorySnapshot \<Rightarrow> usize \<Rightarrow> usize \<Rightarrow> usize \<Rightarrow> usize \<Rightarrow> usize \<Rightarrow> HistorySnapshot reader" where
  "decode_tables E head hcount vcount acount rcount ocount =
     bindC (guardC (table_reserve E hcount)) (\<lambda>_.
     bindC (take_each hcount snap_take_optional_bytes) (\<lambda>bindings.
     bindC (guardC (table_reserve E hcount)) (\<lambda>_.
     if \<not> distinct (filter (\<lambda>b. b \<noteq> None) bindings) then
       failC (HistoryError.Invalid ''history snapshot history bindings are not unique'')
     else
     bindC (guardC (table_reserve E vcount)) (\<lambda>_.
     bindC (decode_versions hcount vcount []) (\<lambda>vs.
     bindC (guardC (table_reserve E acount)) (\<lambda>_.
     bindC (decode_active vcount acount None) (\<lambda>active.
     bindC (guardC (table_reserve E acount)) (\<lambda>_.
     bindC (guardC (table_reserve E rcount)) (\<lambda>_.
     bindC (decode_retired (map sa_request_id active) rcount None) (\<lambda>retired.
     bindC (guardC (table_reserve E ocount)) (\<lambda>_.
     bindC (take_each ocount snap_take_request_id) (\<lambda>order.
     bindC (guardC (validate_snapshot_receipt_consistency E vs active retired order)) (\<lambda>_.
     retC (head\<lparr>snap_history_bindings := bindings, snap_versions := vs, snap_active := active,
       snap_retired := retired, snap_receipt_order := order\<rparr>))))))))))))))"

definition decode_fields :: "env \<Rightarrow> HistorySnapshot reader" where
  "decode_fields E =
     bindC snap_take_u64 (\<lambda>generation.
     bindC snap_take_u64 (\<lambda>represented_wal_end.
     bindC (bounded_count ''history snapshot history count is excessive'') (\<lambda>hcount.
     bindC (bounded_count ''history snapshot version count is excessive'') (\<lambda>vcount.
     bindC (bounded_count ''history snapshot active count is excessive'') (\<lambda>acount.
     bindC (bounded_count ''history snapshot retired count is excessive'') (\<lambda>rcount.
     bindC (bounded_count ''history snapshot receipt order is excessive'') (\<lambda>ocount.
     bindC snap_take_u64 (\<lambda>physical_generation.
     bindC snap_take_u64 (\<lambda>payload_end.
     bindC snap_take_u64 (\<lambda>ncount.
     bindC snap_take_u64 (\<lambda>next_history.
     bindC snap_take_u64 (\<lambda>next_version.
     if next_history \<noteq> hcount then
       failC (HistoryError.Invalid ''history snapshot next history identity disagrees with its table'')
     else if next_version \<noteq> vcount then
       failC (HistoryError.Invalid ''history snapshot next version identity disagrees with its table'')
     else decode_tables E \<lparr>snap_generation = generation, snap_represented_wal_end = represented_wal_end,
       snap_physical_generation = physical_generation, snap_payload_end = payload_end, snap_node_count = ncount,
       snap_next_history_id = next_history, snap_next_version_id = next_version, snap_history_bindings = [],
       snap_versions = [], snap_active = [], snap_retired = [], snap_receipt_order = []\<rparr>
       hcount vcount acount rcount ocount))))))))))))"

definition decode_sections :: "env \<Rightarrow> usize \<Rightarrow> HistorySnapshot reader" where
  "decode_sections E blen =
     bindC (snap_take 4) (\<lambda>magic.
     if magic \<noteq> HISTORY_SNAPSHOT_MAGIC then failC (HistoryError.Invalid ''history snapshot magic mismatch'')
     else
     bindC snap_take_u64 (\<lambda>total_len.
     bindC (liftC (ok_or (HistoryError.Overflow ''history snapshot length exceeds u64'') (try_from width64 blen))) (\<lambda>blen.
     if total_len \<noteq> blen then failC (HistoryError.Invalid ''history snapshot length disagrees with its bytes'')
     else
     bindC snap_take_u32 (\<lambda>schema.
     if schema \<noteq> HISTORY_SNAPSHOT_SCHEMA then failC (HistoryError.Invalid ''history snapshot schema is unsupported'')
     else decode_fields E))))"

definition decode_history_snapshot :: "env \<Rightarrow> byte list \<Rightarrow> HistoryError + HistorySnapshot" where
  "decode_history_snapshot E bytes =
     bindR (decode_sections E (length bytes) \<lparr>cursor_bytes = bytes, cursor_pos = 0\<rparr>) (\<lambda>(s, c).
     bindR (ok_or (HistoryError.Invalid ''history snapshot digest is truncated'') (checked_sub (length bytes) 32)) (\<lambda>digest_start.
     if cursor_pos c \<noteq> digest_start then
       Inl (HistoryError.Invalid ''history snapshot sections disagree with its digest boundary'')
     else if snapshot_digest E (take digest_start bytes) \<noteq> drop digest_start bytes then
       Inl (HistoryError.Invalid ''history snapshot digest mismatch'')
     else Inr s))"

section \<open>Snapshots of a store\<close>

definition snapshot_descriptor ::
  "'p PhysicalContent \<Rightarrow> 'p PersistentHistoryStore \<Rightarrow> VersionRecord \<Rightarrow> HistoryError + byte list option" where
  "snapshot_descriptor P s rec = (case record_root rec of
     Some root \<Rightarrow>
       if record_len rec \<noteq> proot_logical_len root then
         Inl (HistoryError.Invalid ''history snapshot source version length disagrees with its materialized root'')
       else map_err HistoryError.Sequence (map_sum id Some (canonical_root_bytes P (store_backend s) root))
   | None \<Rightarrow>
       if version_id (record_version rec) \<notin> set (expired_versions s) then
         Inl (HistoryError.Invalid ''history snapshot source retained version has no materialized root'')
       else Inr None)"

definition snapshot_version ::
  "'p PersistentHistoryStore \<Rightarrow> VersionRecord \<times> byte list option \<Rightarrow> SnapshotVersion" where
  "snapshot_version s = (\<lambda>(rec, descriptor). \<lparr>sv_history = version_history (record_version rec),
     sv_parent = version_parent (record_version rec),
     sv_binding = hget (version_bindings s) (version_id (record_version rec)),
     sv_lifecycle = (if version_id (record_version rec) \<in> set (expired_versions s) then VersionLifecycle.Expired else Retained),
     sv_root_present = (record_root rec \<noteq> None), sv_len = record_len rec, sv_root = descriptor\<rparr>)"

definition snapshot_frontiers :: "'p PhysicalContent \<Rightarrow> 'p PersistentHistoryStore \<Rightarrow> u64 \<times> u64" where
  "snapshot_frontiers P s = (case physical_frontiers P (store_backend s) of
     Some f \<Rightarrow> f
   | None \<Rightarrow> (payload_len P (store_backend s), node_count P (store_backend s)))"

definition snapshot_of ::
  "'p PhysicalContent \<Rightarrow> 'p PersistentHistoryStore \<Rightarrow> u64 \<Rightarrow> u64 \<Rightarrow> byte list option list \<Rightarrow> HistorySnapshot" where
  "snapshot_of P s generation wal_end descriptors =
     \<lparr>snap_generation = generation, snap_represented_wal_end = wal_end,
      snap_physical_generation = (case physical_generation P (store_backend s) of None \<Rightarrow> 0 | Some g \<Rightarrow> g),
      snap_payload_end = fst (snapshot_frontiers P s), snap_node_count = snd (snapshot_frontiers P s),
      snap_next_history_id = next_history_id s, snap_next_version_id = next_version_id s,
      snap_history_bindings = map (hget (history_bindings s)) [0..<next_history_id s],
      snap_versions = map (snapshot_version s) (zip (versions s) descriptors),
      snap_active = map (\<lambda>(r, q). \<lparr>sa_request_id = r, sa_digest = request_digest q, sa_version = request_version q\<rparr>)
        (sort_key fst (active_requests s)),
      snap_retired = map (\<lambda>(r, d). \<lparr>sr_request_id = r, sr_digest = d\<rparr>) (sort_key fst (retired_requests s)),
      snap_receipt_order = receipt_order s\<rparr>"

definition encode_history_snapshot ::
  "env \<Rightarrow> 'p PhysicalContent \<Rightarrow> 'p PersistentHistoryStore \<Rightarrow> u64 \<Rightarrow> u64 \<Rightarrow> HistoryError + byte list" where
  "encode_history_snapshot E P s generation wal_end =
    (if next_history_id s \<noteq> length (histories s) then
       Inl (HistoryError.Invalid ''history snapshot source histories are not dense'')
     else if next_version_id s \<noteq> length (versions s) then
       Inl (HistoryError.Invalid ''history snapshot source versions are not dense'')
     else if list_ex (\<lambda>(i, rec). version_id (record_version rec) \<noteq> i) (enumerate 0 (versions s)) then
       Inl (HistoryError.Invalid ''history snapshot source version disagrees with its coordinate'')
     else
     bindR (reserve E ''history snapshot root table allocation failed'' (length (versions s))) (\<lambda>_.
     bindR (traverse (snapshot_descriptor P s) (versions s)) (\<lambda>descriptors.
     bindR (reserve E ''history snapshot ledger allocation failed'' (length (active_requests s))) (\<lambda>_.
     bindR (reserve E ''history snapshot ledger allocation failed'' (length (retired_requests s))) (\<lambda>_.
     bindR (reserve E ''history snapshot table allocation failed'' (length (histories s))) (\<lambda>_.
     bindR (reserve E ''history snapshot table allocation failed'' (length (versions s))) (\<lambda>_.
     if length (receipt_order s) \<noteq> length (active_requests s) + length (retired_requests s) then
       Inl (HistoryError.Invalid ''history snapshot source receipt order disagrees with its ledgers'')
     else encode_history_snapshot_struct E (snapshot_of P s generation wal_end descriptors))))))))"

end
