(* ===== verification/Directory_Io.thy ===== *)
theory Directory_Io
  imports Tulya_Prelude
begin

text \<open>
  The directory a durable history lives in, as far as the code reaches it through \<open>std::fs\<close>, and the
  decimal file names of its generations.

  A directory maps names to files.  A file has its current bytes and the bytes of its last completed
  \<open>sync_all\<close>.  The operating system decides: \<open>dir_refuses\<close> says which opens, metadata calls and
  truncated reads it answers with an error, and \<open>dir_answers\<close> holds its answers to the next calls
  that change something, where a failed write may leave any prefix of its bytes behind.  Once the
  list is used up every call is granted.  A handle is the name it was opened under: no code under
  \<open>src\<close> renames or unlinks a file while it holds a handle to it.
\<close>

section \<open>Numbers in names\<close>

definition digit :: "nat \<Rightarrow> char" where
  "digit d = char_of (48 + d)"

fun decimal :: "nat \<Rightarrow> string" where
  "decimal n = (if n < 10 then [digit n] else decimal (n div 10) @ [digit (n mod 10)])"

declare decimal.simps [simp del]

text \<open>\<open>{n:020}\<close>\<close>

definition padded :: "nat \<Rightarrow> nat \<Rightarrow> string" where
  "padded width n = replicate (width - length (decimal n)) (digit 0) @ decimal n"

definition digit_value :: "char \<Rightarrow> nat option" where
  "digit_value c = (if 48 \<le> (of_char c :: nat) \<and> (of_char c :: nat) < 58 then Some (of_char c - 48) else None)"

text \<open>\<open>str::parse::<u64>\<close>: an optional plus sign, at least one digit, no overflow on the way.\<close>

fun parse_digits :: "nat \<Rightarrow> string \<Rightarrow> nat option" where
  "parse_digits acc [] = Some acc"
| "parse_digits acc (c # cs) = (case digit_value c of
     None \<Rightarrow> None
   | Some d \<Rightarrow> if acc * 10 + d < width64 then parse_digits (acc * 10 + d) cs else None)"

definition parse_u64 :: "string \<Rightarrow> u64 option" where
  "parse_u64 s = (let ds = (case s of c # cs \<Rightarrow> if c = CHR ''+'' then cs else s | [] \<Rightarrow> s)
     in if ds = [] then None else parse_digits 0 ds)"

definition strip_prefix :: "string \<Rightarrow> string \<Rightarrow> string option" where
  "strip_prefix p s = (if take (length p) s = p then Some (drop (length p) s) else None)"

definition strip_suffix :: "string \<Rightarrow> string \<Rightarrow> string option" where
  "strip_suffix q s =
     (if length q \<le> length s \<and> drop (length s - length q) s = q then Some (take (length s - length q) s) else None)"

lemma digit_value_digit [simp]: "d < 10 \<Longrightarrow> digit_value (digit d) = Some d"
  by (simp add: digit_value_def digit_def)

lemma digit_not_plus: "d < 10 \<Longrightarrow> digit d \<noteq> CHR ''+''"
proof
  assume d: "d < 10" and "digit d = CHR ''+''"
  then have "digit_value (digit d) = digit_value (CHR ''+'')"
    by simp
  with d show False
    by (simp add: digit_value_def digit_def)
qed

lemma decimal_nonempty [simp]: "decimal n \<noteq> []"
  by (subst decimal.simps) simp

lemma decimal_digits: "c \<in> set (decimal n) \<Longrightarrow> \<exists>d<10. c = digit d"
proof (induction n rule: decimal.induct)
  case (1 n)
  show ?case
  proof (cases "n < 10")
    case False
    then have "c \<in> set (decimal (n div 10)) \<or> c = digit (n mod 10)"
      using "1.prems" by (subst (asm) decimal.simps) auto
    then show ?thesis
    proof
      assume "c = digit (n mod 10)"
      then show ?thesis
        by (intro exI [of _ "n mod 10"]) simp
    qed (use "1.IH" [OF False] in blast)
  qed (use "1.prems" in \<open>auto simp: decimal.simps [of n]\<close>)
qed

lemma parse_digits_append:
  "parse_digits acc (xs @ ys) = Option.bind (parse_digits acc xs) (\<lambda>n. parse_digits n ys)"
  by (induction acc xs rule: parse_digits.induct) (auto split: option.splits)

lemma parse_digits_decimal: "n < width64 \<Longrightarrow> parse_digits 0 (decimal n) = Some n"
proof (induction n rule: decimal.induct)
  case (1 n)
  show ?case
  proof (cases "n < 10")
    case False
    then show ?thesis
      using 1 by (subst decimal.simps) (simp add: parse_digits_append)
  qed (use 1 in \<open>simp add: decimal.simps [of n]\<close>)
qed

lemma parse_digits_zeros: "parse_digits 0 (replicate k (digit 0) @ ds) = parse_digits 0 ds"
  by (induction k) simp_all

lemma length_decimal: "0 < k \<Longrightarrow> n < 10 ^ k \<Longrightarrow> length (decimal n) \<le> k"
proof (induction k arbitrary: n)
  case (Suc k)
  show ?case
  proof (cases "n < 10")
    case False
    then have "0 < k"
      using Suc.prems by (cases k) auto
    moreover have "n div 10 < 10 ^ k"
      using Suc.prems by (simp add: less_mult_imp_div_less mult.commute)
    ultimately show ?thesis
      using Suc.IH [of "n div 10"] False by (subst decimal.simps) simp
  qed (simp add: decimal.simps [of n])
qed simp

lemma u64_decimal_width: "n < width64 \<Longrightarrow> length (decimal n) \<le> 20"
  by (rule length_decimal) (simp_all add: width64_def)

lemma length_padded: "n < width64 \<Longrightarrow> length (padded 20 n) = 20"
  using u64_decimal_width [of n] by (simp add: padded_def)

lemma padded_digits: "c \<in> set (padded k n) \<Longrightarrow> \<exists>d<10. c = digit d"
  using decimal_digits [of c n] zero_less_numeral by (fastforce simp: padded_def split: if_splits)

lemma parse_padded: "n < width64 \<Longrightarrow> parse_u64 (padded k n) = Some n"
proof -
  assume n: "n < width64"
  obtain c cs where cs: "padded k n = c # cs"
    by (cases "padded k n") (auto simp: padded_def)
  then have "c \<noteq> CHR ''+''"
    using padded_digits [of c k n] digit_not_plus by auto
  moreover have "parse_digits 0 (padded k n) = Some n"
    using n by (simp add: padded_def parse_digits_zeros parse_digits_decimal)
  ultimately show ?thesis
    using cs by (simp add: parse_u64_def)
qed

lemma padded_inject: "m < width64 \<Longrightarrow> n < width64 \<Longrightarrow> padded k m = padded k n \<longleftrightarrow> m = n"
  by (metis parse_padded option.inject)

lemma strip_prefix_append [simp]: "strip_prefix p (p @ s) = Some s"
  by (simp add: strip_prefix_def)

lemma strip_suffix_append [simp]: "strip_suffix q (s @ q) = Some s"
  by (simp add: strip_suffix_def)

section \<open>Files\<close>

record DirFile =
  file_bytes :: "byte list"
  file_durable :: "byte list"

datatype DirCall = OpenCall string | MetadataCall string

datatype DirAnswer = Granted | Refused nat

text \<open>\<open>dir_reads d name off len\<close>: what \<open>read_at\<close> does with a request; \<open>None\<close> is an error, \<open>Some k\<close>
  delivers at most \<open>k + 1\<close> of the bytes asked for.\<close>

record Directory =
  dir_files :: "string \<Rightarrow> DirFile option"
  dir_refuses :: "DirCall \<Rightarrow> bool"
  dir_reads :: "string \<Rightarrow> u64 \<Rightarrow> u64 \<Rightarrow> nat option"
  dir_answers :: "DirAnswer list"

definition next_answer :: "Directory \<Rightarrow> DirAnswer \<times> Directory" where
  "next_answer d = (case dir_answers d of [] \<Rightarrow> (Granted, d) | x # xs \<Rightarrow> (x, d\<lparr>dir_answers := xs\<rparr>))"

definition put_file :: "string \<Rightarrow> DirFile \<Rightarrow> Directory \<Rightarrow> Directory" where
  "put_file name f d = d\<lparr>dir_files := (dir_files d)(name := Some f)\<rparr>"

definition zero_extend :: "nat \<Rightarrow> byte list \<Rightarrow> byte list" where
  "zero_extend n xs = xs @ replicate (n - length xs) 0"

definition overwrite :: "nat \<Rightarrow> byte list \<Rightarrow> byte list \<Rightarrow> byte list" where
  "overwrite pos bs xs = take pos (zero_extend pos xs) @ bs @ drop (pos + length bs) xs"

definition dir_is_file :: "Directory \<Rightarrow> string \<Rightarrow> bool" where
  "dir_is_file d name \<longleftrightarrow> dir_files d name \<noteq> None"

definition dir_open :: "Directory \<Rightarrow> string \<Rightarrow> bool" where
  "dir_open d name \<longleftrightarrow> dir_files d name \<noteq> None \<and> \<not> dir_refuses d (OpenCall name)"

definition dir_length :: "Directory \<Rightarrow> string \<Rightarrow> u64 option" where
  "dir_length d name = (if dir_refuses d (MetadataCall name) then None
     else map_option (\<lambda>f. length (file_bytes f)) (dir_files d name))"

definition dir_read_at :: "Directory \<Rightarrow> string \<Rightarrow> u64 \<Rightarrow> u64 \<Rightarrow> byte list option" where
  "dir_read_at d name off len = (case (dir_files d name, dir_reads d name off len) of
     (Some f, Some k) \<Rightarrow> Some (take (min len (Suc k)) (drop off (file_bytes f)))
   | _ \<Rightarrow> None)"

text \<open>Calls that change the directory; the first component says whether they succeeded.  No file grows
  past the largest offset.\<close>

definition dir_create_new :: "string \<Rightarrow> Directory \<Rightarrow> bool \<times> Directory" where
  "dir_create_new name d = (if dir_files d name \<noteq> None then (False, d)
     else case next_answer d of
       (Granted, d) \<Rightarrow> (True, put_file name \<lparr>file_bytes = [], file_durable = []\<rparr> d)
     | (Refused _, d) \<Rightarrow> (False, d))"

definition dir_create_truncate :: "string \<Rightarrow> Directory \<Rightarrow> bool \<times> Directory" where
  "dir_create_truncate name d = (case next_answer d of
     (Granted, d) \<Rightarrow> (True, put_file name (case dir_files d name of
         None \<Rightarrow> \<lparr>file_bytes = [], file_durable = []\<rparr> | Some f \<Rightarrow> f\<lparr>file_bytes := []\<rparr>) d)
   | (Refused _, d) \<Rightarrow> (False, d))"

definition dir_write :: "string \<Rightarrow> u64 \<Rightarrow> byte list \<Rightarrow> Directory \<Rightarrow> bool \<times> Directory" where
  "dir_write name pos bs d = (case dir_files d name of
     None \<Rightarrow> (False, d)
   | Some f \<Rightarrow> if pos + length bs \<ge> width64 then (False, d) else (case next_answer d of
       (Granted, d) \<Rightarrow> (True, put_file name (f\<lparr>file_bytes := overwrite pos bs (file_bytes f)\<rparr>) d)
     | (Refused k, d) \<Rightarrow> (False, put_file name (f\<lparr>file_bytes := overwrite pos (take k bs) (file_bytes f)\<rparr>) d)))"

definition dir_set_len :: "string \<Rightarrow> u64 \<Rightarrow> Directory \<Rightarrow> bool \<times> Directory" where
  "dir_set_len name n d = (case dir_files d name of
     None \<Rightarrow> (False, d)
   | Some f \<Rightarrow> if n \<ge> width64 then (False, d) else (case next_answer d of
       (Granted, d) \<Rightarrow> (True, put_file name (f\<lparr>file_bytes := take n (zero_extend n (file_bytes f))\<rparr>) d)
     | (Refused _, d) \<Rightarrow> (False, d)))"

definition dir_sync :: "string \<Rightarrow> Directory \<Rightarrow> bool \<times> Directory" where
  "dir_sync name d = (case dir_files d name of
     None \<Rightarrow> (False, d)
   | Some f \<Rightarrow> (case next_answer d of
       (Granted, d) \<Rightarrow> (True, put_file name (f\<lparr>file_durable := file_bytes f\<rparr>) d)
     | (Refused _, d) \<Rightarrow> (False, d)))"

section \<open>Exact reads\<close>

text \<open>\<open>read_exact_at\<close>: positional reads in a loop until the buffer is full.  The measure is the room
  left in the buffer; \<open>read_at\<close> fills some of it or reports the end of the file.\<close>

function read_exact_at :: "Directory \<Rightarrow> string \<Rightarrow> u64 \<Rightarrow> u64 \<Rightarrow> byte list option" where
  "read_exact_at d name off len =
    (if len = 0 then Some []
     else case dir_read_at d name off len of
       None \<Rightarrow> None
     | Some bs \<Rightarrow>
         if bs = [] then None
         else case checked_add width64 off (length bs) of
           None \<Rightarrow> None
         | Some off' \<Rightarrow> map_option (\<lambda>rest. bs @ rest) (read_exact_at d name off' (len - length bs)))"
  by pat_completeness auto

termination
  by (relation "measure (\<lambda>(_, _, _, len). len)") auto

declare read_exact_at.simps [simp del]

text \<open>The bytes delivered are those of the file, however the reads were cut.\<close>

lemma read_at_some:
  assumes "dir_read_at d name off len = Some bs"
  obtains f k where "dir_files d name = Some f" "bs = take (min len (Suc k)) (drop off (file_bytes f))"
  using assms by (auto simp: dir_read_at_def split: option.splits)

lemma read_exact_at_sound:
  assumes "read_exact_at d name off len = Some bs" and "0 < len"
  shows "\<exists>f. dir_files d name = Some f \<and> slice_get (file_bytes f) off (off + len) = Some bs"
  using assms
proof (induction d name off len arbitrary: bs rule: read_exact_at.induct)
  case (1 d name off len)
  obtain b1 off' b2 where b: "dir_read_at d name off len = Some b1" "b1 \<noteq> []"
    "checked_add width64 off (length b1) = Some off'" "read_exact_at d name off' (len - length b1) = Some b2"
    "bs = b1 @ b2"
    using "1.prems" by (subst (asm) read_exact_at.simps) (auto split: option.splits if_splits)
  obtain f k where f: "dir_files d name = Some f" "b1 = take (min len (Suc k)) (drop off (file_bytes f))"
    by (rule read_at_some [OF b(1)])
  have len1: "length b1 \<le> len" "off + length b1 \<le> length (file_bytes f)" "b1 = take (length b1) (drop off (file_bytes f))"
    using f(2) b(2) by (auto simp: min_def)
  have off': "off' = off + length b1"
    using b(3) by (simp add: checked_add_Some_iff)
  show ?case
  proof (cases "len - length b1 = 0")
    case True
    then have "b2 = []"
      using b(4) by (simp add: read_exact_at.simps)
    then show ?thesis
      using f(1) len1 True b(5) by (auto simp: slice_get_Some_iff)
  next
    case False
    then have "slice_get (file_bytes f) off' (off' + (len - length b1)) = Some b2"
      using "1.IH" [OF _ b(1,2) b(3) b(4)] "1.prems"(2) f(1) by auto
    then have b2: "off + len \<le> length (file_bytes f)" "b2 = take (len - length b1) (drop (off + length b1) (file_bytes f))"
      using len1 False by (auto simp: slice_get_Some_iff off')
    have "take len (drop off (file_bytes f)) = b1 @ b2"
      using take_add [of "length b1" "len - length b1" "drop off (file_bytes f)"] len1
      by (simp add: b2(2) add.commute)
    then show ?thesis
      using f(1) b2(1) b(5) by (auto simp: slice_get_Some_iff)
  qed
qed

text \<open>A read inside the file succeeds when no call fails.\<close>

lemma read_exact_at_complete:
  assumes "dir_files d name = Some f" and "off + len \<le> length (file_bytes f)" and "length (file_bytes f) < width64"
    and "\<And>o' l'. dir_reads d name o' l' \<noteq> None"
  shows "read_exact_at d name off len = Some (take len (drop off (file_bytes f)))"
  using assms(2)
proof (induction len arbitrary: off rule: less_induct)
  case (less len)
  show ?case
  proof (cases "len = 0")
    case False
    obtain k where k: "dir_reads d name off len = Some k"
      using assms(4) by blast
    let ?b = "take (min len (Suc k)) (drop off (file_bytes f))"
    have ne: "?b \<noteq> []" and l: "length ?b = min len (Suc k)"
      using False less.prems by auto
    have "read_exact_at d name (off + length ?b) (len - length ?b) =
        Some (take (len - length ?b) (drop (off + length ?b) (file_bytes f)))"
      using False less.prems l by (intro less.IH) auto
    moreover have "checked_add width64 off (length ?b) = Some (off + length ?b)"
      using less.prems assms(3) l by (simp add: checked_add_Some_iff)
    moreover have "take len (drop off (file_bytes f)) =
        ?b @ take (len - length ?b) (drop (off + length ?b) (file_bytes f))"
      using take_add [of "length ?b" "len - length ?b" "drop off (file_bytes f)"] l
      by (simp add: add.commute min_def split: if_splits)
    ultimately show ?thesis
      using False k assms(1) ne by (subst read_exact_at.simps) (simp add: dir_read_at_def)
  qed (simp add: read_exact_at.simps)
qed

end
