(* ===== verification/Physical_Content.thy ===== *)
theory Physical_Content
  imports Sequence_Seam Directory_Io
begin

text \<open>
  The file-backed content store of \<open>persistent_sequence/physical.rs\<close>: one payload file and one node
  file per physical generation, append-only, read up to the committed frontiers.  Splices are
  prepared against \<open>DeltaView\<close>, an arena over the committed files and two buffers in memory; the
  prepared delta is appended, synced, and adopted by advancing the frontiers.  During replay
  \<open>validate_committed_delta\<close> checks a delta against the bytes behind the frontier, and garbage
  collection writes the retained nodes into the files of a new generation.

  The I/O ledger counts bytes and time and has no influence on any result; it is left out, as are
  the fault switches that exist under \<open>cfg(test)\<close> only.
\<close>

section \<open>Names and headers\<close>

definition PHYSICAL_PAYLOAD_MAGIC :: "byte list" where
  "PHYSICAL_PAYLOAD_MAGIC = ascii ''TPC1''"

definition PHYSICAL_NODE_MAGIC :: "byte list" where
  "PHYSICAL_NODE_MAGIC = ascii ''TNC1''"

definition PHYSICAL_HEADER_SIZE :: u64 where
  "PHYSICAL_HEADER_SIZE = 16"

definition PHYSICAL_NODE_RECORD_SIZE :: u64 where
  "PHYSICAL_NODE_RECORD_SIZE = V2_NODE_RECORD_SIZE"

definition PHYSICAL_DELTA_DIGEST_DOMAIN :: "byte list" where
  "PHYSICAL_DELTA_DIGEST_DOMAIN = ascii ''tulya-history/staging/physical-delta'' @ [0]"

definition content_payload_filename :: "u64 \<Rightarrow> string" where
  "content_payload_filename generation = ''content-'' @ padded 20 generation @ ''.payload''"

definition content_nodes_filename :: "u64 \<Rightarrow> string" where
  "content_nodes_filename generation = ''content-'' @ padded 20 generation @ ''.nodes''"

text \<open>One round of the loop over the two name patterns; \<open>None\<close> goes on to the next pattern.\<close>

definition superseded_round :: "string \<Rightarrow> u64 \<Rightarrow> string \<Rightarrow> bool option" where
  "superseded_round name current suffix =
    (case Option.bind (strip_prefix ''content-'' name) (strip_suffix suffix) of
       None \<Rightarrow> None
     | Some rest \<Rightarrow> (case parse_u64 rest of
         None \<Rightarrow> None
       | Some generation \<Rightarrow> if length rest = 20 then Some (generation \<noteq> current) else None))"

definition superseded_physical_content_file :: "string \<Rightarrow> u64 \<Rightarrow> bool" where
  "superseded_physical_content_file name current =
    (case superseded_round name current ''.payload'' of
       Some r \<Rightarrow> r
     | None \<Rightarrow> (case superseded_round name current ''.nodes'' of Some r \<Rightarrow> r | None \<Rightarrow> False))"

definition encode_physical_header :: "byte list \<Rightarrow> u64 \<Rightarrow> byte list" where
  "encode_physical_header magic generation = magic @ le_bytes 8 generation @ replicate 4 0"

definition decode_physical_header :: "byte list \<Rightarrow> byte list \<Rightarrow> V2AvlError + u64" where
  "decode_physical_header expected_magic header =
    (if take 4 header \<noteq> expected_magic then
       Inl (V2AvlError.Invalid ''history physical content magic mismatch'')
     else
       let generation = le_nat (take 8 (drop 4 header)) in
       if take 4 (drop 12 header) \<noteq> replicate 4 0 then
         Inl (V2AvlError.Invalid ''history physical content header reserves nonzero bytes'')
       else Inr generation)"

section \<open>The store\<close>

text \<open>The two handles hold the name they were opened under.\<close>

record PhysicalContentStore =
  pcs_dir :: Directory
  pcs_generation :: u64
  pcs_payload :: "string option"
  pcs_nodes :: "string option"
  pcs_writable :: bool
  pcs_payload_end :: u64
  pcs_node_count :: u64

type_synonym 'r pcs_prog = "PhysicalContentStore \<Rightarrow> (V2AvlError + 'r) \<times> PhysicalContentStore"

definition bindC :: "'a pcs_prog \<Rightarrow> ('a \<Rightarrow> 'b pcs_prog) \<Rightarrow> 'b pcs_prog" where
  "bindC m k st = (case m st of (Inl e, st') \<Rightarrow> (Inl e, st') | (Inr x, st') \<Rightarrow> k x st')"

definition okC :: "'a \<Rightarrow> 'a pcs_prog" where
  "okC x st = (Inr x, st)"

definition errC :: "V2AvlError \<Rightarrow> 'a pcs_prog" where
  "errC e st = (Inl e, st)"

definition viewC :: "(PhysicalContentStore \<Rightarrow> V2AvlError + 'a) \<Rightarrow> 'a pcs_prog" where
  "viewC f st = (f st, st)"

text \<open>A call of the operating system, its failure mapped to \<open>e\<close>.\<close>

definition callC :: "V2AvlError \<Rightarrow> (Directory \<Rightarrow> bool \<times> Directory) \<Rightarrow> unit pcs_prog" where
  "callC e f st = (case f (pcs_dir st) of
     (ok, d) \<Rightarrow> (if ok then Inr () else Inl e, st\<lparr>pcs_dir := d\<rparr>))"

text \<open>The same through a handle opened without write access, which the system rejects.\<close>

definition writeC :: "V2AvlError \<Rightarrow> (Directory \<Rightarrow> bool \<times> Directory) \<Rightarrow> unit pcs_prog" where
  "writeC e f st = (if pcs_writable st then callC e f st else (Inl e, st))"

definition payload_frontier :: "PhysicalContentStore \<Rightarrow> V2AvlError + u64" where
  "payload_frontier st = ok_or (V2AvlError.Overflow ''history physical payload frontier exceeds u64'')
     (checked_add width64 PHYSICAL_HEADER_SIZE (pcs_payload_end st))"

definition node_frontier :: "PhysicalContentStore \<Rightarrow> V2AvlError + u64" where
  "node_frontier st =
     bindR (ok_or (V2AvlError.Overflow ''history physical node frontier exceeds u64'')
       (checked_mul width64 (pcs_node_count st) PHYSICAL_NODE_RECORD_SIZE)) (\<lambda>n.
     ok_or (V2AvlError.Overflow ''history physical node frontier exceeds u64'')
       (checked_add width64 PHYSICAL_HEADER_SIZE n))"

definition pcs_absent :: V2AvlError where
  "pcs_absent = V2AvlError.Invalid ''history physical content files are absent''"

definition payload_file :: "PhysicalContentStore \<Rightarrow> V2AvlError + string" where
  "payload_file st = ok_or pcs_absent (pcs_payload st)"

definition nodes_file :: "PhysicalContentStore \<Rightarrow> V2AvlError + string" where
  "nodes_file st = ok_or pcs_absent (pcs_nodes st)"

subsection \<open>Creating and opening\<close>

text \<open>The steps of \<open>create_new\<close> and \<open>recreate\<close> run on a store that has no handles yet.\<close>

definition bare_store :: "Directory \<Rightarrow> u64 \<Rightarrow> bool \<Rightarrow> PhysicalContentStore" where
  "bare_store d generation writable = \<lparr>pcs_dir = d, pcs_generation = generation, pcs_payload = None,
     pcs_nodes = None, pcs_writable = writable, pcs_payload_end = 0, pcs_node_count = 0\<rparr>"

definition with_handles :: "PhysicalContentStore \<Rightarrow> PhysicalContentStore" where
  "with_handles st = st\<lparr>pcs_payload := Some (content_payload_filename (pcs_generation st)),
     pcs_nodes := Some (content_nodes_filename (pcs_generation st))\<rparr>"

definition create_new :: "Directory \<Rightarrow> u64 \<Rightarrow> (V2AvlError + PhysicalContentStore) \<times> Directory" where
  "create_new d generation =
    (let failed = V2AvlError.Invalid ''history physical content creation failed'';
         payload = content_payload_filename generation;
         nodes = content_nodes_filename generation
     in case bindC (callC failed (dir_create_new payload)) (\<lambda>_.
        bindC (callC failed (dir_create_new nodes)) (\<lambda>_.
        bindC (callC failed (dir_write payload 0 (encode_physical_header PHYSICAL_PAYLOAD_MAGIC generation))) (\<lambda>_.
        bindC (callC failed (dir_write nodes 0 (encode_physical_header PHYSICAL_NODE_MAGIC generation))) (\<lambda>_.
        bindC (callC failed (dir_sync payload)) (\<lambda>_.
        callC failed (dir_sync nodes)))))) (bare_store d generation True) of
          (Inl e, st) \<Rightarrow> (Inl e, pcs_dir st)
        | (Inr _, st) \<Rightarrow> (Inr (with_handles st), pcs_dir st))"

definition recreate :: "Directory \<Rightarrow> u64 \<Rightarrow> (V2AvlError + PhysicalContentStore) \<times> Directory" where
  "recreate d generation =
    (let failed = V2AvlError.Invalid ''history physical content recreation failed'';
         payload = content_payload_filename generation;
         nodes = content_nodes_filename generation
     in case bindC (callC failed (dir_create_truncate payload)) (\<lambda>_.
        bindC (callC failed (dir_create_truncate nodes)) (\<lambda>_.
        bindC (callC failed (dir_write payload 0 (encode_physical_header PHYSICAL_PAYLOAD_MAGIC generation))) (\<lambda>_.
        callC failed (dir_write nodes 0 (encode_physical_header PHYSICAL_NODE_MAGIC generation)))))
          (bare_store d generation True) of
          (Inl e, st) \<Rightarrow> (Inl e, pcs_dir st)
        | (Inr _, st) \<Rightarrow> (Inr (with_handles st), pcs_dir st))"

definition open_existing ::
  "Directory \<Rightarrow> u64 \<Rightarrow> u64 \<Rightarrow> u64 \<Rightarrow> bool \<Rightarrow> V2AvlError + PhysicalContentStore" where
  "open_existing d generation payload_end count writable =
    (let failed = V2AvlError.Invalid ''history physical content open failed'';
         payload = content_payload_filename generation;
         nodes = content_nodes_filename generation;
         st = (with_handles (bare_store d generation writable))
                \<lparr>pcs_payload_end := payload_end, pcs_node_count := count\<rparr>
     in if \<not> dir_open d payload then Inl failed
     else if \<not> dir_open d nodes then Inl failed
     else
       bindR (ok_or failed (read_exact_at d payload 0 16)) (\<lambda>payload_header.
       bindR (ok_or failed (read_exact_at d nodes 0 16)) (\<lambda>nodes_header.
       bindR (decode_physical_header PHYSICAL_PAYLOAD_MAGIC payload_header) (\<lambda>payload_generation.
       bindR (if payload_generation \<noteq> generation then Inr True
              else bindR (decode_physical_header PHYSICAL_NODE_MAGIC nodes_header) (\<lambda>g. Inr (g \<noteq> generation))) (\<lambda>wrong.
       if wrong then Inl (V2AvlError.Invalid ''history physical content generation disagrees with its headers'')
       else
       bindR (ok_or failed (dir_length d payload)) (\<lambda>plen.
       bindR (ok_or failed (dir_length d nodes)) (\<lambda>nodes_len.
       bindR (payload_frontier st) (\<lambda>expected_payload.
       bindR (node_frontier st) (\<lambda>expected_nodes.
       if plen < expected_payload \<or> nodes_len < expected_nodes then
         Inl (V2AvlError.Invalid ''history physical content is shorter than its authoritative frontier'')
       else Inr st)))))))))"

definition open_deferred :: "Directory \<Rightarrow> u64 \<Rightarrow> PhysicalContentStore" where
  "open_deferred d generation = bare_store d generation False"

definition content_files_present :: "Directory \<Rightarrow> u64 \<Rightarrow> bool" where
  "content_files_present d generation \<longleftrightarrow>
     dir_is_file d (content_payload_filename generation) \<and> dir_is_file d (content_nodes_filename generation)"

definition ensure_open :: "unit pcs_prog" where
  "ensure_open st =
    (if pcs_payload st = None \<or> pcs_nodes st = None then
       if pcs_payload_end st \<noteq> 0 \<or> pcs_node_count st \<noteq> 0 then (Inl pcs_absent, st)
       else case create_new (pcs_dir st) (pcs_generation st) of
         (Inl e, d) \<Rightarrow> (Inl e, st\<lparr>pcs_dir := d\<rparr>)
       | (Inr fresh, d) \<Rightarrow> (Inr (), st\<lparr>pcs_dir := d, pcs_payload := pcs_payload fresh,
           pcs_nodes := pcs_nodes fresh, pcs_writable := True\<rparr>)
     else (Inr (), st))"

definition ensure_writable :: "unit pcs_prog" where
  "ensure_writable =
     bindC ensure_open (\<lambda>_ st.
     if pcs_writable st then (Inr (), st)
     else if \<not> dir_open (pcs_dir st) (content_payload_filename (pcs_generation st)) \<or>
             \<not> dir_open (pcs_dir st) (content_nodes_filename (pcs_generation st)) then
       (Inl (V2AvlError.Invalid ''history physical content writable upgrade failed''), st)
     else (Inr (), (with_handles st)\<lparr>pcs_writable := True\<rparr>))"

subsection \<open>Healing\<close>

definition file_length :: "V2AvlError \<Rightarrow> V2AvlError + string \<Rightarrow> PhysicalContentStore \<Rightarrow> V2AvlError + u64" where
  "file_length failed handle st =
     bindR handle (\<lambda>name. ok_or failed (dir_length (pcs_dir st) name))"

text \<open>Truncation through a handle, when the file is longer than the frontier.\<close>

definition shorten :: "V2AvlError \<Rightarrow> (PhysicalContentStore \<Rightarrow> V2AvlError + string) \<Rightarrow> u64 \<Rightarrow> unit pcs_prog" where
  "shorten failed handle n =
     bindC (viewC (\<lambda>st. map_err (\<lambda>_. failed) (handle st))) (\<lambda>name. writeC failed (dir_set_len name n))"

definition heal_for_write :: "unit pcs_prog" where
  "heal_for_write =
    (let failed = V2AvlError.Invalid ''history physical orphan-tail healing failed'' in
     bindC ensure_writable (\<lambda>_.
     bindC (viewC payload_frontier) (\<lambda>expected_payload.
     bindC (viewC node_frontier) (\<lambda>expected_nodes.
     bindC (viewC (\<lambda>st. file_length failed (map_err (\<lambda>_. failed) (payload_file st)) st)) (\<lambda>plen.
     bindC (viewC (\<lambda>st. file_length failed (map_err (\<lambda>_. failed) (nodes_file st)) st)) (\<lambda>nodes_len.
     if plen < expected_payload \<or> nodes_len < expected_nodes then
       errC (V2AvlError.Invalid ''history physical content is shorter than its authoritative frontier'')
     else
     bindC (if plen > expected_payload then shorten failed payload_file expected_payload else okC ()) (\<lambda>_.
     if nodes_len > expected_nodes then shorten failed nodes_file expected_nodes else okC ())))))))"

subsection \<open>Reads\<close>

definition pcs_load_record :: "PhysicalContentStore \<Rightarrow> u64 \<Rightarrow> V2AvlError + V2NodeRecord" where
  "pcs_load_record st node_id =
    (if node_id \<ge> pcs_node_count st then
       Inl (V2AvlError.Invalid ''history physical node identifier is outside the committed frontier'')
     else
       bindR (ok_or (V2AvlError.Overflow ''history physical node offset exceeds u64'')
         (checked_mul width64 node_id PHYSICAL_NODE_RECORD_SIZE)) (\<lambda>n.
       bindR (ok_or (V2AvlError.Overflow ''history physical node offset exceeds u64'')
         (checked_add width64 PHYSICAL_HEADER_SIZE n)) (\<lambda>off.
       bindR (nodes_file st) (\<lambda>name.
       bindR (ok_or (V2AvlError.Invalid ''history physical node read failed'')
         (read_exact_at (pcs_dir st) name off PHYSICAL_NODE_RECORD_SIZE)) (\<lambda>bytes.
       map_err V2AvlError.Format (decode_v2_node bytes))))))"

definition read_payload_range :: "env \<Rightarrow> PhysicalContentStore \<Rightarrow> u64 \<Rightarrow> u64 \<Rightarrow> V2AvlError + byte list" where
  "read_payload_range E st start end' =
     bindR (ok_or (V2AvlError.Invalid ''history physical payload range is inverted'')
       (checked_sub end' start)) (\<lambda>len.
     if end' > pcs_payload_end st then
       Inl (V2AvlError.Invalid ''history physical payload range is outside the committed frontier'')
     else
     bindR (ok_or (V2AvlError.Overflow ''v2 payload end exceeds usize'') (try_from width64 len)) (\<lambda>len.
     bindR (ok_or (V2AvlError.Overflow ''history physical payload offset exceeds u64'')
       (checked_add width64 PHYSICAL_HEADER_SIZE start)) (\<lambda>off.
     if \<not> try_reserve E ''history physical payload read allocation failed'' len then
       Inl (V2AvlError.Capacity ''history physical payload read allocation failed'')
     else
     bindR (payload_file st) (\<lambda>name.
     ok_or (V2AvlError.Invalid ''history physical payload read failed'')
       (read_exact_at (pcs_dir st) name off len)))))"

definition pcs_read_all_payload :: "env \<Rightarrow> PhysicalContentStore \<Rightarrow> V2AvlError + byte list" where
  "pcs_read_all_payload E st = read_payload_range E st 0 (pcs_payload_end st)"

definition pcs_load_all_records :: "env \<Rightarrow> PhysicalContentStore \<Rightarrow> V2AvlError + V2NodeRecord list" where
  "pcs_load_all_records E st =
     bindR (ok_or (V2AvlError.Overflow ''v2 node identifier exceeds usize'')
       (try_from width64 (pcs_node_count st))) (\<lambda>count.
     if \<not> try_reserve E ''history physical node table allocation failed'' count then
       Inl (V2AvlError.Capacity ''history physical node table allocation failed'')
     else traverse (pcs_load_record st) [0..<count])"

subsection \<open>Appends, barrier and frontiers\<close>

definition pcs_append_payload_delta :: "byte list \<Rightarrow> unit pcs_prog" where
  "pcs_append_payload_delta bytes =
    (let failed = V2AvlError.Invalid ''history physical payload append failed'' in
     bindC ensure_writable (\<lambda>_.
     if bytes = [] then okC ()
     else
     bindC (viewC payload_frontier) (\<lambda>expected.
     bindC (viewC (\<lambda>st. file_length failed (payload_file st) st)) (\<lambda>actual.
     if actual \<noteq> expected then
       errC (V2AvlError.Invalid ''history physical payload file disagrees with its committed frontier'')
     else
     bindC (viewC (\<lambda>st. ok_or failed (pcs_payload st))) (\<lambda>name.
     writeC failed (dir_write name actual bytes))))))"

definition pcs_append_node_delta :: "byte list \<Rightarrow> unit pcs_prog" where
  "pcs_append_node_delta bytes =
    (let failed = V2AvlError.Invalid ''history physical node append failed'' in
     if bytes = [] then okC ()
     else if length bytes mod PHYSICAL_NODE_RECORD_SIZE \<noteq> 0 then
       errC (V2AvlError.Invalid ''history physical node delta is not record-aligned'')
     else
     bindC (viewC node_frontier) (\<lambda>expected.
     bindC ensure_writable (\<lambda>_.
     bindC (viewC (\<lambda>st. file_length failed (nodes_file st) st)) (\<lambda>actual.
     if actual \<noteq> expected then
       errC (V2AvlError.Invalid ''history physical node file disagrees with its committed frontier'')
     else
     bindC (viewC (\<lambda>st. ok_or failed (pcs_nodes st))) (\<lambda>name.
     writeC failed (dir_write name actual bytes))))))"

definition pcs_sync_content :: "unit pcs_prog" where
  "pcs_sync_content =
    (let failed = V2AvlError.Invalid ''history physical content sync failed'' in
     bindC ensure_writable (\<lambda>_.
     bindC (viewC payload_file) (\<lambda>payload.
     bindC (callC failed (dir_sync payload)) (\<lambda>_.
     bindC (viewC nodes_file) (\<lambda>nodes.
     callC failed (dir_sync nodes))))))"

definition pcs_adopt_frontiers :: "u64 \<Rightarrow> u64 \<Rightarrow> PhysicalContentStore \<Rightarrow> PhysicalContentStore" where
  "pcs_adopt_frontiers payload_end count st =
     st\<lparr>pcs_payload_end := payload_end, pcs_node_count := count\<rparr>"

definition pcs_check_files_cover_frontiers :: "PhysicalContentStore \<Rightarrow> V2AvlError + unit" where
  "pcs_check_files_cover_frontiers st =
    (let failed = V2AvlError.Invalid ''history physical content length check failed'' in
     case pcs_payload st of
       None \<Rightarrow> if pcs_payload_end st = 0 \<and> pcs_node_count st = 0 then Inr () else Inl pcs_absent
     | Some payload \<Rightarrow> (case pcs_nodes st of
         None \<Rightarrow> Inl pcs_absent
       | Some nodes \<Rightarrow>
           bindR (ok_or failed (dir_length (pcs_dir st) payload)) (\<lambda>plen.
           bindR (ok_or failed (dir_length (pcs_dir st) nodes)) (\<lambda>nodes_len.
           bindR (payload_frontier st) (\<lambda>expected_payload.
           bindR (node_frontier st) (\<lambda>expected_nodes.
           if plen < expected_payload \<or> nodes_len < expected_nodes then
             Inl (V2AvlError.Invalid ''history physical content is shorter than its authoritative frontier'')
           else Inr ()))))))"

definition pcs_rollback_to_committed :: "PhysicalContentStore \<Rightarrow> bool \<times> PhysicalContentStore" where
  "pcs_rollback_to_committed st =
    (case (payload_frontier st, node_frontier st) of
       (Inr expected_payload, Inr expected_nodes) \<Rightarrow>
         (case pcs_payload st of
            None \<Rightarrow> (True, st)
          | Some payload \<Rightarrow>
              (case writeC pcs_absent (dir_set_len payload expected_payload) st of
                 (Inl _, st) \<Rightarrow> (False, st)
               | (Inr _, st) \<Rightarrow>
                   (case pcs_nodes st of
                      None \<Rightarrow> (False, st)
                    | Some nodes \<Rightarrow>
                        (case writeC pcs_absent (dir_set_len nodes expected_nodes) st of
                           (Inl _, st) \<Rightarrow> (False, st)
                         | (Inr _, st) \<Rightarrow> (True, st)))))
     | _ \<Rightarrow> (False, st))"

section \<open>The committed store as an arena\<close>

definition build_arena_node :: "PhysicalContentStore \<Rightarrow> u64 \<Rightarrow> V2NodeRecord \<Rightarrow> V2AvlError + ArenaNode" where
  "build_arena_node st node_id rec =
     bindR (map_err V2AvlError.Image (v2_node_fields rec)) (\<lambda>fields.
     case fields of
       V2NodeFields.Leaf payload_offset plen \<Rightarrow>
         bindR (ok_or (V2AvlError.Overflow ''v2 leaf payload range exceeds u64'')
           (checked_add width64 payload_offset plen)) (\<lambda>payload_end.
         if payload_end > pcs_payload_end st then
           Inl (V2AvlError.Invalid ''history physical leaf references payload outside the committed frontier'')
         else Inr (ArenaNode.Leaf payload_offset plen rec))
     | V2NodeFields.Branch left_node_id right_node_id left_len \<Rightarrow>
         if left_node_id \<ge> node_id \<or> right_node_id \<ge> node_id then
           Inl (V2AvlError.Invalid ''history physical branch child must reference an earlier node'')
         else
         bindR (pcs_load_record st left_node_id) (\<lambda>left_record.
         bindR (pcs_load_record st right_node_id) (\<lambda>right_record.
         bindR (map_err V2AvlError.Format (V2RootRecord_from_node left_node_id left_record)) (\<lambda>left.
         bindR (map_err V2AvlError.Format (V2RootRecord_from_node right_node_id right_record)) (\<lambda>right.
         if root_len left \<noteq> left_len then
           Inl (V2AvlError.Invalid ''history physical branch left length disagrees with its child'')
         else Inr (ArenaNode.Branch left right rec))))))"

definition pcs_load_node :: "PhysicalContentStore \<Rightarrow> u64 \<Rightarrow> V2AvlError + ArenaNode" where
  "pcs_load_node st node_id = bindR (pcs_load_record st node_id) (build_arena_node st node_id)"

definition pcs_arena_append_payload ::
  "PhysicalContentStore \<Rightarrow> byte list \<Rightarrow> (V2AvlError + u64) \<times> PhysicalContentStore" where
  "pcs_arena_append_payload st bytes =
    (let off = pcs_payload_end st in
     case pcs_append_payload_delta bytes st of
       (Inl e, st) \<Rightarrow> (Inl e, st)
     | (Inr _, st) \<Rightarrow> (case checked_add width64 off (length bytes) of
         None \<Rightarrow> (Inl (V2AvlError.Overflow ''history physical payload frontier exceeds u64''), st)
       | Some next \<Rightarrow> (Inr off, st\<lparr>pcs_payload_end := next\<rparr>)))"

definition pcs_arena_push_node ::
  "PhysicalContentStore \<Rightarrow> ArenaNode \<Rightarrow> (V2AvlError + u64) \<times> PhysicalContentStore" where
  "pcs_arena_push_node st node =
    (let node_id = pcs_node_count st in
     case pcs_append_node_delta (encode_v2_node (node_record node)) st of
       (Inl e, st) \<Rightarrow> (Inl e, st)
     | (Inr _, st) \<Rightarrow> (case checked_add width64 node_id 1 of
         None \<Rightarrow> (Inl (V2AvlError.Overflow ''v2 node arena length exceeds u64''), st)
       | Some next \<Rightarrow> (Inr node_id, st\<lparr>pcs_node_count := next\<rparr>)))"

definition pcs_arena :: "env \<Rightarrow> PhysicalContentStore ArenaStore" where
  "pcs_arena E = \<lparr>arena_payload_len = pcs_payload_end, arena_node_count = pcs_node_count,
     arena_load_node = pcs_load_node, arena_read_payload = read_payload_range E,
     arena_append_payload = pcs_arena_append_payload, arena_push_node = pcs_arena_push_node,
     arena_truncate = \<lambda>st _ _. snd (pcs_rollback_to_committed st)\<rparr>"

section \<open>The preparation view\<close>

record DeltaView =
  view_base :: PhysicalContentStore
  base_payload_end :: u64
  base_node_count :: u64
  payload_delta :: "byte list"
  node_delta :: "byte list"

definition DeltaView_new :: "PhysicalContentStore \<Rightarrow> DeltaView" where
  "DeltaView_new base = \<lparr>view_base = base, base_payload_end = pcs_payload_end base,
     base_node_count = pcs_node_count base, payload_delta = [], node_delta = []\<rparr>"

definition delta_node_count :: "DeltaView \<Rightarrow> u64" where
  "delta_node_count v = length (node_delta v) div PHYSICAL_NODE_RECORD_SIZE"

definition load_delta_record :: "DeltaView \<Rightarrow> u64 \<Rightarrow> V2AvlError + V2NodeRecord" where
  "load_delta_record v node_id =
     bindR (ok_or (V2AvlError.Invalid ''history physical delta node is outside its range'')
       (checked_sub node_id (base_node_count v))) (\<lambda>index.
     bindR (ok_or (V2AvlError.Overflow ''history physical delta node offset exceeds u64'')
       (checked_mul width64 index PHYSICAL_NODE_RECORD_SIZE)) (\<lambda>start.
     bindR (ok_or (V2AvlError.Overflow ''v2 payload end exceeds usize'')
       (checked_add width64 start PHYSICAL_NODE_RECORD_SIZE)) (\<lambda>end'.
     bindR (ok_or (V2AvlError.Invalid ''history physical delta node is outside its range'')
       (slice_get (node_delta v) start end')) (\<lambda>bytes.
     map_err V2AvlError.Format (decode_v2_node bytes)))))"

definition delta_child_record :: "DeltaView \<Rightarrow> u64 \<Rightarrow> V2AvlError + V2NodeRecord" where
  "delta_child_record v i =
    (if i < base_node_count v then pcs_load_record (view_base v) i else load_delta_record v i)"

definition build_delta_arena_node :: "DeltaView \<Rightarrow> u64 \<Rightarrow> V2NodeRecord \<Rightarrow> V2AvlError + ArenaNode" where
  "build_delta_arena_node v node_id rec =
     bindR (map_err V2AvlError.Image (v2_node_fields rec)) (\<lambda>fields.
     case fields of
       V2NodeFields.Leaf payload_offset plen \<Rightarrow>
         bindR (ok_or (V2AvlError.Overflow ''history physical payload frontier exceeds u64'')
           (checked_add width64 (base_payload_end v) (length (payload_delta v)))) (\<lambda>new_end.
         bindR (if payload_offset < base_payload_end v then Inr True
                else bindR (ok_or (V2AvlError.Overflow ''v2 leaf payload range exceeds u64'')
                  (checked_add width64 payload_offset plen)) (\<lambda>payload_end. Inr (payload_end > new_end))) (\<lambda>outside.
         if outside then
           Inl (V2AvlError.Invalid ''history physical delta leaf references payload outside its range'')
         else Inr (ArenaNode.Leaf payload_offset plen rec)))
     | V2NodeFields.Branch left_node_id right_node_id left_len \<Rightarrow>
         if left_node_id \<ge> node_id \<or> right_node_id \<ge> node_id then
           Inl (V2AvlError.Invalid ''history physical delta branch child must reference an earlier node'')
         else
         bindR (delta_child_record v left_node_id) (\<lambda>left_record.
         bindR (map_err V2AvlError.Format (V2RootRecord_from_node left_node_id left_record)) (\<lambda>left.
         bindR (delta_child_record v right_node_id) (\<lambda>right_record.
         bindR (map_err V2AvlError.Format (V2RootRecord_from_node right_node_id right_record)) (\<lambda>right.
         if root_len left \<noteq> left_len then
           Inl (V2AvlError.Invalid ''history physical delta branch left length disagrees with its child'')
         else Inr (ArenaNode.Branch left right rec))))))"

definition load_delta_record_struct :: "DeltaView \<Rightarrow> u64 \<Rightarrow> V2AvlError + ArenaNode" where
  "load_delta_record_struct v node_id = bindR (load_delta_record v node_id) (build_delta_arena_node v node_id)"

definition view_payload_len :: "DeltaView \<Rightarrow> usize" where
  "view_payload_len v = (case checked_add width64 (base_payload_end v) (length (payload_delta v)) of
     None \<Rightarrow> width64 - 1 | Some n \<Rightarrow> n)"

definition view_node_count :: "DeltaView \<Rightarrow> usize" where
  "view_node_count v = (case checked_add width64 (base_node_count v) (delta_node_count v) of
     None \<Rightarrow> width64 - 1 | Some n \<Rightarrow> n)"

definition view_load_node :: "DeltaView \<Rightarrow> u64 \<Rightarrow> V2AvlError + ArenaNode" where
  "view_load_node v node_id =
    (if node_id < base_node_count v then
       bindR (pcs_load_record (view_base v) node_id) (build_arena_node (view_base v) node_id)
     else load_delta_record_struct v node_id)"

text \<open>The bytes of a range that starts at or behind the base; a range across the boundary is served
  from both sides.\<close>

definition view_read_delta :: "DeltaView \<Rightarrow> u64 \<Rightarrow> u64 \<Rightarrow> V2AvlError + byte list" where
  "view_read_delta v start end' =
     bindR (ok_or (V2AvlError.Overflow ''v2 payload start exceeds usize'')
       (try_from width64 (start - base_payload_end v))) (\<lambda>from'.
     bindR (ok_or (V2AvlError.Overflow ''v2 payload end exceeds usize'')
       (try_from width64 (end' - base_payload_end v))) (\<lambda>upto.
     ok_or (V2AvlError.Invalid ''history physical delta payload range is outside its range'')
       (slice_get (payload_delta v) from' upto)))"

definition view_read_payload :: "env \<Rightarrow> DeltaView \<Rightarrow> u64 \<Rightarrow> u64 \<Rightarrow> V2AvlError + byte list" where
  "view_read_payload E v start end' =
    (if end' \<le> base_payload_end v then read_payload_range E (view_base v) start end'
     else if start \<ge> base_payload_end v then view_read_delta v start end'
     else
       bindR (read_payload_range E (view_base v) start (base_payload_end v)) (\<lambda>first.
       bindR (view_read_delta v (base_payload_end v) end') (\<lambda>second.
       Inr (first @ second))))"

definition view_append_payload :: "DeltaView \<Rightarrow> byte list \<Rightarrow> (V2AvlError + u64) \<times> DeltaView" where
  "view_append_payload v bytes =
    (case checked_add width64 (base_payload_end v) (length (payload_delta v)) of
       None \<Rightarrow> (Inl (V2AvlError.Overflow ''history physical payload frontier exceeds u64''), v)
     | Some off \<Rightarrow> (Inr off, v\<lparr>payload_delta := payload_delta v @ bytes\<rparr>))"

definition view_push_node :: "DeltaView \<Rightarrow> ArenaNode \<Rightarrow> (V2AvlError + u64) \<times> DeltaView" where
  "view_push_node v node =
    (case checked_add width64 (base_node_count v) (delta_node_count v) of
       None \<Rightarrow> (Inl (V2AvlError.Overflow ''v2 node arena length exceeds u64''), v)
     | Some node_id \<Rightarrow> (Inr node_id, v\<lparr>node_delta := node_delta v @ encode_v2_node (node_record node)\<rparr>))"

definition view_truncate :: "DeltaView \<Rightarrow> usize \<Rightarrow> usize \<Rightarrow> DeltaView" where
  "view_truncate v plen count =
     v\<lparr>payload_delta := take (plen - base_payload_end v) (payload_delta v),
       node_delta := take (min (width64 - 1) ((count - base_node_count v) * PHYSICAL_NODE_RECORD_SIZE)) (node_delta v)\<rparr>"

definition view_arena :: "env \<Rightarrow> DeltaView ArenaStore" where
  "view_arena E = \<lparr>arena_payload_len = view_payload_len, arena_node_count = view_node_count,
     arena_load_node = view_load_node, arena_read_payload = view_read_payload E,
     arena_append_payload = view_append_payload, arena_push_node = view_push_node,
     arena_truncate = view_truncate\<rparr>"

section \<open>Deltas\<close>

definition physical_delta_digest ::
  "env \<Rightarrow> u64 \<Rightarrow> u64 \<Rightarrow> u64 \<Rightarrow> u64 \<Rightarrow> u64 \<Rightarrow> byte list \<Rightarrow> byte list \<Rightarrow> byte list \<Rightarrow> byte list" where
  "physical_delta_digest E generation old_end new_end old_count new_count payload nodes root_bytes =
     sha256 E (PHYSICAL_DELTA_DIGEST_DOMAIN @ le_bytes 8 generation @ le_bytes 8 old_end @
       le_bytes 8 new_end @ le_bytes 8 old_count @ le_bytes 8 new_count @ payload @ nodes @ root_bytes)"

definition record_at :: "msg \<Rightarrow> byte list \<Rightarrow> nat \<Rightarrow> V2AvlError + V2NodeRecord" where
  "record_at m nodes index =
    (let start = index * PHYSICAL_NODE_RECORD_SIZE in
     bindR (ok_or (V2AvlError.Invalid m) (slice_get nodes start (start + PHYSICAL_NODE_RECORD_SIZE))) (\<lambda>bytes.
     map_err V2AvlError.Format (decode_v2_node bytes)))"

definition validate_fresh_node ::
  "env \<Rightarrow> u64 \<Rightarrow> u64 \<Rightarrow> u64 \<Rightarrow> u64 \<Rightarrow> byte list \<Rightarrow> byte list \<Rightarrow> nat \<Rightarrow> V2AvlError + unit" where
  "validate_fresh_node E old_end new_end old_count new_count payload nodes index =
    (let node_id = old_count + index;
         outside = V2AvlError.Invalid ''history physical delta leaf references payload outside its range''
     in
     bindR (record_at ''history physical delta node is outside its range'' nodes index) (\<lambda>rec.
     bindR (map_err V2AvlError.Image (v2_node_fields rec)) (\<lambda>fields.
     case fields of
       V2NodeFields.Leaf payload_offset plen \<Rightarrow>
         if payload_offset < old_end then Inl outside
         else
         bindR (ok_or (V2AvlError.Overflow ''v2 leaf payload range exceeds u64'')
           (checked_add width64 payload_offset plen)) (\<lambda>payload_end.
         if payload_end > new_end then Inl outside
         else
         bindR (ok_or outside
           (slice_get payload (payload_offset - old_end) (payload_offset - old_end + plen))) (\<lambda>bytes.
         bindR (map_err V2AvlError.Format (V2NodeRecord_leaf E payload_offset bytes)) (\<lambda>expected.
         if expected \<noteq> rec then
           Inl (V2AvlError.Invalid ''history physical delta leaf verification failed'')
         else Inr ())))
     | V2NodeFields.Branch left_node_id right_node_id _ \<Rightarrow>
         if left_node_id \<ge> node_id \<or> right_node_id \<ge> node_id then
           Inl (V2AvlError.Invalid ''history physical delta branch references a future node'')
         else if left_node_id \<ge> new_count \<or> right_node_id \<ge> new_count then
           Inl (V2AvlError.Invalid ''history physical delta branch references an unknown node'')
         else Inr ())))"

definition validate_fresh_delta ::
  "env \<Rightarrow> PhysicalContentStore \<Rightarrow> u64 \<Rightarrow> u64 \<Rightarrow> u64 \<Rightarrow> u64 \<Rightarrow> byte list \<Rightarrow> byte list \<Rightarrow> V2RootRecord \<Rightarrow>
   V2AvlError + unit" where
  "validate_fresh_delta E base old_end new_end old_count new_count payload nodes root =
    (if new_end < old_end \<or> new_count < old_count then
       Inl (V2AvlError.Invalid ''history physical delta frontiers move backwards'')
     else if length payload \<noteq> new_end - old_end then
       Inl (V2AvlError.Invalid ''history physical delta payload disagrees with its frontiers'')
     else
     let fresh_nodes = new_count - old_count in
     if length nodes \<noteq> fresh_nodes * PHYSICAL_NODE_RECORD_SIZE then
       Inl (V2AvlError.Invalid ''history physical delta nodes disagree with their frontiers'')
     else
     bindR (traverse (validate_fresh_node E old_end new_end old_count new_count payload nodes) [0..<fresh_nodes]) (\<lambda>_.
     if root_node_id root \<ge> new_count then
       Inl (V2AvlError.Invalid ''history physical delta result root is outside its range'')
     else
     bindR (if root_node_id root < old_count then pcs_load_record base (root_node_id root)
            else record_at ''history physical delta result root is outside its range'' nodes
              (root_node_id root - old_count)) (\<lambda>root_record.
     bindR (map_err V2AvlError.Format (V2RootRecord_from_node (root_node_id root) root_record)) (\<lambda>canonical.
     if canonical \<noteq> root then
       Inl (V2AvlError.Invalid ''history physical delta result root disagrees with its record'')
     else Inr ()))))"

text \<open>What \<open>prepare_physical_delta\<close> makes of the finished view and the splice result.\<close>

definition seal_delta ::
  "env \<Rightarrow> PhysicalContentStore \<Rightarrow> u64 \<Rightarrow> V2SpliceResult \<Rightarrow> byte list \<Rightarrow> byte list \<Rightarrow> V2AvlError + PhysicalDelta" where
  "seal_delta E base result_len res payload nodes =
    (let root = splice_root res;
         old_end = pcs_payload_end base;
         old_count = pcs_node_count base
     in if root_len root \<noteq> result_len then
       Inl (V2AvlError.Invalid ''history physical splice result length disagrees with its root'')
     else
     bindR (ok_or (V2AvlError.Overflow ''history physical delta payload exceeds u64'')
       (try_from width64 (length payload))) (\<lambda>fresh_payload.
     if length nodes mod PHYSICAL_NODE_RECORD_SIZE \<noteq> 0 then
       Inl (V2AvlError.Invalid ''history physical delta is not record-aligned'')
     else
     let fresh_nodes = length nodes div PHYSICAL_NODE_RECORD_SIZE in
     bindR (ok_or (V2AvlError.Overflow ''history physical payload frontier exceeds u64'')
       (checked_add width64 old_end fresh_payload)) (\<lambda>new_end.
     bindR (ok_or (V2AvlError.Overflow ''history physical node frontier exceeds u64'')
       (checked_add width64 old_count fresh_nodes)) (\<lambda>new_count.
     bindR (validate_fresh_delta E base old_end new_end old_count new_count payload nodes root) (\<lambda>_.
     Inr \<lparr>old_payload_end = old_end, old_node_count = old_count, new_payload_end = new_end,
          new_node_count = new_count, delta_payload = payload, delta_nodes = nodes, delta_root = root,
          delta_digest = physical_delta_digest E (pcs_generation base) old_end new_end old_count new_count
            payload nodes (encode_v2_root root),
          delta_allocated_nodes = splice_allocated_nodes res,
          delta_inspected_nodes = splice_inspected_nodes res,
          delta_payload_bytes_allocated = splice_payload_bytes_allocated res\<rparr>)))))"

definition pcs_prepare_physical_delta ::
  "env \<Rightarrow> PhysicalContentStore \<Rightarrow> V2RootRecord option \<Rightarrow> u64 \<Rightarrow> u64 \<Rightarrow> byte list \<Rightarrow> u64 \<Rightarrow>
   (V2AvlError + PhysicalDelta) option" where
  "pcs_prepare_physical_delta E base parent off delete_len ins result_len =
    (case splice_on E (view_arena E) parent off delete_len ins (DeltaView_new base) of
       None \<Rightarrow> None
     | Some (Inl e, _) \<Rightarrow> Some (Inl e)
     | Some (Inr res, view) \<Rightarrow> Some (seal_delta E base result_len res (payload_delta view) (node_delta view)))"

definition read_fresh :: "env \<Rightarrow> PhysicalContentStore \<Rightarrow> V2AvlError + string \<Rightarrow> u64 \<Rightarrow> u64 \<Rightarrow> msg \<Rightarrow> V2AvlError + byte list"
where
  "read_fresh E st handle off len absent =
    (if \<not> try_reserve E ''history physical delta validation allocation failed'' len then
       Inl (V2AvlError.Capacity ''history physical delta validation allocation failed'')
     else bindR handle (\<lambda>name. ok_or (V2AvlError.Invalid absent) (read_exact_at (pcs_dir st) name off len)))"

definition pcs_validate_committed_delta ::
  "env \<Rightarrow> PhysicalContentStore \<Rightarrow> u64 \<Rightarrow> u64 \<Rightarrow> u64 \<Rightarrow> u64 \<Rightarrow> u64 \<Rightarrow> byte list \<Rightarrow> byte list \<Rightarrow> u64 \<Rightarrow>
   V2AvlError + V2RootRecord" where
  "pcs_validate_committed_delta E st generation payload_start payload_end node_start node_end digest root_bytes result_len =
    (if generation \<noteq> pcs_generation st then
       Inl (V2AvlError.Invalid ''history log splice physical generation disagrees with authority'')
     else if payload_start \<noteq> pcs_payload_end st \<or> node_start \<noteq> pcs_node_count st then
       Inl (V2AvlError.Invalid ''history log splice physical frontiers disagree with replay position'')
     else if payload_end < payload_start \<or> node_end < node_start then
       Inl (V2AvlError.Invalid ''history log splice physical frontiers move backwards'')
     else
     bindR (map_err V2AvlError.Format (decode_v2_root root_bytes)) (\<lambda>root.
     if root_len root \<noteq> result_len then
       Inl (V2AvlError.Invalid ''history log splice result length disagrees with its physical root'')
     else
     bindR (ok_or (V2AvlError.Overflow ''v2 payload end exceeds usize'')
       (try_from width64 (payload_end - payload_start))) (\<lambda>plen.
     bindR (ok_or (V2AvlError.Overflow ''history physical node range exceeds u64'')
       (checked_mul width64 (node_end - node_start) PHYSICAL_NODE_RECORD_SIZE)) (\<lambda>nodes_len.
     bindR (ok_or (V2AvlError.Overflow ''history physical payload offset exceeds u64'')
       (checked_add width64 PHYSICAL_HEADER_SIZE payload_start)) (\<lambda>payload_offset.
     bindR (ok_or (V2AvlError.Overflow ''history physical node offset exceeds u64'')
       (checked_mul width64 node_start PHYSICAL_NODE_RECORD_SIZE)) (\<lambda>n.
     bindR (ok_or (V2AvlError.Overflow ''history physical node offset exceeds u64'')
       (checked_add width64 PHYSICAL_HEADER_SIZE n)) (\<lambda>nodes_offset.
     bindR (read_fresh E st (payload_file st) payload_offset plen
       ''history log splice physical payload is absent'') (\<lambda>payload.
     bindR (read_fresh E st (nodes_file st) nodes_offset nodes_len
       ''history log splice physical nodes are absent'') (\<lambda>node_bytes.
     bindR (validate_fresh_delta E st payload_start payload_end node_start node_end payload node_bytes root) (\<lambda>_.
     if physical_delta_digest E generation payload_start payload_end node_start node_end payload node_bytes
          root_bytes \<noteq> digest then
       Inl (V2AvlError.Invalid ''history log splice physical delta digest mismatch'')
     else Inr root))))))))))"

section \<open>Compaction into a new generation\<close>

definition physical_seed :: "PhysicalContentStore \<Rightarrow> V2RootRecord \<Rightarrow> V2AvlError + u64" where
  "physical_seed source root =
     bindR (pcs_load_record source (root_node_id root)) (\<lambda>rec.
     bindR (map_err V2AvlError.Format (V2RootRecord_from_node (root_node_id root) rec)) (\<lambda>canonical.
     if canonical \<noteq> root then Inl (V2AvlError.Invalid ''history physical GC seed disagrees with its record'')
     else Inr (root_node_id root)))"

fun write_records :: "V2AvlError \<Rightarrow> string \<Rightarrow> u64 \<Rightarrow> V2NodeRecord list \<Rightarrow> unit pcs_prog" where
  "write_records failed name at [] = okC ()"
| "write_records failed name at (rec # recs) =
     bindC (writeC failed (dir_write name at (encode_v2_node rec))) (\<lambda>_.
     write_records failed name (at + length (encode_v2_node rec)) recs)"

definition write_generation :: "byte list \<Rightarrow> V2NodeRecord list \<Rightarrow> unit pcs_prog" where
  "write_generation payload records =
    (let failed = V2AvlError.Invalid ''history physical GC generation write failed'' in
     bindC (if payload = [] then okC ()
            else bindC (viewC (\<lambda>st. ok_or failed (pcs_payload st))) (\<lambda>name.
              writeC failed (dir_write name PHYSICAL_HEADER_SIZE payload))) (\<lambda>_.
     bindC (if records = [] then okC ()
            else bindC (viewC (\<lambda>st. ok_or failed (pcs_nodes st))) (\<lambda>name.
              write_records failed name PHYSICAL_HEADER_SIZE records)) (\<lambda>_.
     pcs_sync_content)))"

definition physical_gc_root ::
  "V2NodeRecord list \<Rightarrow> V2NodeIdMapping list \<Rightarrow> V2RootRecord \<Rightarrow> V2AvlError + V2RootRecord" where
  "physical_gc_root records node_mapping root =
     bindR (map_err avl_error_of_compaction (remapped_node_id node_mapping (root_node_id root))) (\<lambda>new_id.
     bindR (ok_or (V2AvlError.Overflow ''history physical GC node identifier exceeds usize'')
       (try_from width64 new_id)) (\<lambda>index.
     bindR (ok_or (V2AvlError.Invalid ''history physical GC remapped root is absent'') (get_at records index)) (\<lambda>rec.
     map_err V2AvlError.Format (V2RootRecord_from_node new_id rec))))"

text \<open>The reads and the plan: compact payload, compact records and the node mapping.\<close>

definition plan_physical_generation ::
  "env \<Rightarrow> PhysicalContentStore \<Rightarrow> V2RootRecord list \<Rightarrow>
   V2AvlError + byte list \<times> V2NodeRecord list \<times> V2NodeIdMapping list" where
  "plan_physical_generation E source seeds =
    (if \<not> try_reserve E ''history physical GC seed allocation failed'' (length seeds) then
       Inl (V2AvlError.Capacity ''history physical GC seed allocation failed'')
     else
     bindR (traverse (physical_seed source) seeds) (\<lambda>seed_ids.
     bindR (pcs_load_all_records E source) (\<lambda>records.
     bindR (pcs_read_all_payload E source) (\<lambda>payload.
     bindR (map_err avl_error_of_compaction (plan_reachable_arena E payload records seed_ids)) (\<lambda>(retained, ranges).
     bindR (map_err avl_error_of_compaction (repack_compact_ranges E payload ranges)) (\<lambda>(compact_payload, payload_mapping).
     bindR (map_err avl_error_of_compaction
       (rebuild_compact_records E records retained compact_payload payload_mapping)) (\<lambda>(compact_records, node_mapping).
     if length compact_records \<noteq> length retained then
       Inl (V2AvlError.Invalid ''history physical GC node table disagrees with its retained set'')
     else Inr (compact_payload, compact_records, node_mapping))))))))"

definition physical_gc_roots ::
  "env \<Rightarrow> V2NodeRecord list \<Rightarrow> V2NodeIdMapping list \<Rightarrow> V2RootRecord list \<Rightarrow> V2AvlError + V2RootRecord list" where
  "physical_gc_roots E compact_records node_mapping seeds =
    (if \<not> try_reserve E ''history physical GC root table allocation failed'' (length seeds) then
       Inl (V2AvlError.Capacity ''history physical GC root table allocation failed'')
     else
     bindR (traverse (physical_gc_root compact_records node_mapping) seeds) (\<lambda>roots.
     if list_ex (\<lambda>(old, new). root_commitment old \<noteq> root_commitment new \<or> root_len old \<noteq> root_len new)
          (zip seeds roots) then
       Inl (V2AvlError.Invalid ''history physical GC root disagrees with its source'')
     else Inr roots))"

definition pcs_compact_physical_generation ::
  "env \<Rightarrow> PhysicalContentStore \<Rightarrow> V2RootRecord list \<Rightarrow> u64 \<Rightarrow>
   (V2AvlError + PhysicalContentStore PhysicalGcBuild) \<times> Directory" where
  "pcs_compact_physical_generation E source seeds new_generation =
    (case plan_physical_generation E source seeds of
       Inl e \<Rightarrow> (Inl e, pcs_dir source)
     | Inr (compact_payload, compact_records, node_mapping) \<Rightarrow>
         (case recreate (pcs_dir source) new_generation of
            (Inl e, d) \<Rightarrow> (Inl e, d)
          | (Inr fresh, d) \<Rightarrow>
              (case write_generation compact_payload compact_records fresh of
                 (Inl e, st) \<Rightarrow> (Inl e, pcs_dir st)
               | (Inr _, st) \<Rightarrow>
                   let built = pcs_adopt_frontiers (length compact_payload) (length compact_records) st in
                   (case physical_gc_roots E compact_records node_mapping seeds of
                      Inl e \<Rightarrow> (Inl e, pcs_dir built)
                    | Inr roots \<Rightarrow>
                        (Inr \<lparr>build_store = built, build_roots = roots,
                              build_nodes_before = pcs_node_count source,
                              build_nodes_after = length compact_records,
                              build_payload_bytes_before = pcs_payload_end source,
                              build_payload_bytes_after = length compact_payload\<rparr>, pcs_dir built)))))"

section \<open>The store behind the seam\<close>

text \<open>The operations the sequence seam calls.  A failed compaction leaves files of a generation that no
  authority names; the seam keeps the source store as it was.\<close>

definition physical_content :: "env \<Rightarrow> PhysicalContentStore PhysicalContent" where
  "physical_content E = \<lparr>content_arena = pcs_arena E, content_generation = pcs_generation,
     committed_payload_end = pcs_payload_end, committed_node_count = pcs_node_count,
     load_record = pcs_load_record, load_all_records = pcs_load_all_records E,
     read_all_payload = pcs_read_all_payload E, content_heal_for_write = heal_for_write,
     append_payload_delta = pcs_append_payload_delta, append_node_delta = pcs_append_node_delta,
     sync_content = pcs_sync_content, rollback_to_committed = pcs_rollback_to_committed,
     adopt_frontiers = pcs_adopt_frontiers, check_files_cover_frontiers = pcs_check_files_cover_frontiers,
     prepare_physical_delta = pcs_prepare_physical_delta E,
     validate_committed_delta = pcs_validate_committed_delta E,
     compact_physical_generation = \<lambda>st seeds g. fst (pcs_compact_physical_generation E st seeds g)\<rparr>"

end
