(* ===== verification/History_Import.thy ===== *)
theory History_Import
  imports History_Snapshot Physical_Content
begin

text \<open>
  Rebuilding a history store from a directory (\<open>persistent_history/mod.rs\<close>): the empty store over
  generation zero, and the store a decoded snapshot describes.  Import checks again what decoding
  checked, since a snapshot value need not come from the decoder.
\<close>

section \<open>Stores over a directory\<close>

definition bare_history :: "'p BalancedSequence \<Rightarrow> u64 \<Rightarrow> u64 \<Rightarrow> 'p PersistentHistoryStore" where
  "bare_history b hnext vnext = \<lparr>store_backend = b, histories = [], versions = [], next_history_id = hnext,
     next_version_id = vnext, active_requests = [], retired_requests = [], receipt_order = [],
     expired_versions = [], history_bindings = [], version_bindings = [], poisoned = False\<rparr>"

abbreviation avl_error :: "V2AvlError \<Rightarrow> HistoryError" where
  "avl_error e \<equiv> HistoryError.Sequence (SequenceError.Avl e)"

definition import_physical_genesis :: "Directory \<Rightarrow> HistoryError + PhysicalContentStore PersistentHistoryStore" where
  "import_physical_genesis d =
     bindR (if content_files_present d 0
            then map_err avl_error (open_existing d 0 0 0 False)
            else Inr (open_deferred d 0)) (\<lambda>st.
     Inr (bare_history (open_physical st) 0 0))"

definition check_physical_frontiers_against_files ::
  "'p PhysicalContent \<Rightarrow> 'p PersistentHistoryStore \<Rightarrow> HistoryError + unit" where
  "check_physical_frontiers_against_files P s = map_err HistoryError.Sequence (check_physical_frontiers P (store_backend s))"

definition heal_store_for_write :: "'p PhysicalContent \<Rightarrow> ('p, unit) store_prog" where
  "heal_store_for_write P = backendP (heal_physical_for_write P)"

section \<open>Importing a snapshot\<close>

abbreviation import_reserve :: "env \<Rightarrow> nat \<Rightarrow> HistoryError + unit" where
  "import_reserve E n \<equiv> reserve E ''history snapshot import allocation failed'' n"

text \<open>The uniqueness loop over the bindings that are present.\<close>

fun check_import_bindings :: "byte list list \<Rightarrow> byte list option list \<Rightarrow> HistoryError + unit" where
  "check_import_bindings seen [] = Inr ()"
| "check_import_bindings seen (None # bindings) = check_import_bindings seen bindings"
| "check_import_bindings seen (Some b # bindings) =
    (if b = [] then Inl (HistoryError.Invalid ''history snapshot history binding is empty'')
     else if b \<in> set seen then Inl (HistoryError.Invalid ''history snapshot history bindings are not unique'')
     else check_import_bindings (b # seen) bindings)"

fun import_histories ::
  "env \<Rightarrow> nat \<Rightarrow> byte list option list \<Rightarrow> 'p PersistentHistoryStore \<Rightarrow> HistoryError + 'p PersistentHistoryStore" where
  "import_histories E i [] s = Inr s"
| "import_histories E i (b # bindings) s =
     bindR (ok_or (HistoryError.Overflow ''history snapshot history identity exceeds u64'') (try_from width64 i)) (\<lambda>h.
     let s1 = s\<lparr>histories := List.insert h (histories s)\<rparr> in
     case b of
       None \<Rightarrow> import_histories E (Suc i) bindings s1
     | Some bytes \<Rightarrow>
         bindR (import_reserve E 1) (\<lambda>_.
         import_histories E (Suc i) bindings (s1\<lparr>history_bindings := hput h bytes (history_bindings s1)\<rparr>)))"

definition check_import_parent :: "SnapshotVersion list \<Rightarrow> SnapshotVersion \<Rightarrow> HistoryError + unit" where
  "check_import_parent entries entry = (case sv_parent entry of
     None \<Rightarrow> Inr ()
   | Some parent \<Rightarrow>
       bindR (ok_or (HistoryError.Overflow ''history snapshot version identity exceeds usize'') (try_from width64 parent)) (\<lambda>parent_index.
       bindR (ok_or (HistoryError.Invalid ''history snapshot version parent is not topologically prior'')
         (get_at entries parent_index)) (\<lambda>parent_entry.
       if sv_history parent_entry \<noteq> sv_history entry then
         Inl (HistoryError.Invalid ''history snapshot version parent belongs to a different history'')
       else Inr ())))"

text \<open>The root of an entry, and whether the materialized index advances.\<close>

definition import_root :: "SnapshotVersion \<Rightarrow> usize \<Rightarrow> HistoryError + PersistentRoot option \<times> usize" where
  "import_root entry materialized =
    (if sv_root_present entry then
       bindR (ok_or (HistoryError.Invalid ''history snapshot materialized version has no root descriptor'') (sv_root entry)) (\<lambda>descriptor.
       bindR (ok_or (HistoryError.Overflow ''history snapshot materialized index exceeds usize'')
         (checked_add width64 materialized 1)) (\<lambda>materialized.
       bindR (map_err HistoryError.Sequence (decode_canonical_root_bytes descriptor)) (\<lambda>root. Inr (Some root, materialized))))
     else if sv_lifecycle entry = Retained then
       Inl (HistoryError.Invalid ''history snapshot retained version has no materialized root'')
     else Inr (None, materialized))"

definition import_version ::
  "env \<Rightarrow> SnapshotVersion list \<Rightarrow> nat \<Rightarrow> SnapshotVersion \<Rightarrow> usize \<times> 'p PersistentHistoryStore \<Rightarrow>
   HistoryError + usize \<times> 'p PersistentHistoryStore" where
  "import_version E entries i entry = (\<lambda>(materialized, s).
     bindR (ok_or (HistoryError.Overflow ''history snapshot version identity exceeds u64'') (try_from width64 i)) (\<lambda>vid.
     bindR (check_import_parent entries entry) (\<lambda>_.
     bindR (if sv_lifecycle entry = VersionLifecycle.Expired
            then bindR (import_reserve E 1) (\<lambda>_. Inr (s\<lparr>expired_versions := List.insert vid (expired_versions s)\<rparr>))
            else Inr s) (\<lambda>s.
     if sv_len entry = 0 then Inl (HistoryError.Invalid ''history snapshot version length is zero'')
     else
     bindR (import_root entry materialized) (\<lambda>(root, materialized).
     if (case root of None \<Rightarrow> False | Some r \<Rightarrow> sv_len entry \<noteq> proot_logical_len r) then
       Inl (HistoryError.Invalid ''history snapshot version length disagrees with its materialized root'')
     else
     let s = s\<lparr>versions := versions s @ [\<lparr>record_version =
           \<lparr>version_history = sv_history entry, version_id = vid, version_parent = sv_parent entry\<rparr>,
           record_root = root, record_len = sv_len entry\<rparr>]\<rparr> in
     case sv_binding entry of
       None \<Rightarrow> Inr (materialized, s)
     | Some bytes \<Rightarrow>
         bindR (import_reserve E 1) (\<lambda>_.
         Inr (materialized, s\<lparr>version_bindings := hput vid bytes (version_bindings s)\<rparr>)))))))"

fun import_versions ::
  "env \<Rightarrow> SnapshotVersion list \<Rightarrow> nat \<Rightarrow> SnapshotVersion list \<Rightarrow> usize \<times> 'p PersistentHistoryStore \<Rightarrow>
   HistoryError + usize \<times> 'p PersistentHistoryStore" where
  "import_versions E entries i [] acc = Inr acc"
| "import_versions E entries i (entry # rest) acc =
     bindR (import_version E entries i entry acc) (import_versions E entries (Suc i) rest)"

fun import_active ::
  "env \<Rightarrow> SnapshotActive list \<Rightarrow> 'p PersistentHistoryStore \<Rightarrow> HistoryError + 'p PersistentHistoryStore" where
  "import_active E [] s = Inr s"
| "import_active E (rec # recs) s =
     bindR (version_record s (sa_version rec)) (\<lambda>v.
     bindR (import_reserve E 1) (\<lambda>_.
     if hget (active_requests s) (sa_request_id rec) \<noteq> None then
       Inl (HistoryError.Invalid ''history snapshot active request identity is duplicated'')
     else import_active E recs (s\<lparr>active_requests := hput (sa_request_id rec)
       \<lparr>request_digest = sa_digest rec, request_version = version_id (record_version v)\<rparr> (active_requests s)\<rparr>)))"

fun import_retired ::
  "env \<Rightarrow> SnapshotRetired list \<Rightarrow> 'p PersistentHistoryStore \<Rightarrow> HistoryError + 'p PersistentHistoryStore" where
  "import_retired E [] s = Inr s"
| "import_retired E (rec # recs) s =
    (if hget (active_requests s) (sr_request_id rec) \<noteq> None then
       Inl (HistoryError.Invalid ''history snapshot request identity is both active and retired'')
     else
     bindR (import_reserve E 1) (\<lambda>_.
     if hget (retired_requests s) (sr_request_id rec) \<noteq> None then
       Inl (HistoryError.Invalid ''history snapshot retired request identity is duplicated'')
     else import_retired E recs (s\<lparr>retired_requests := hput (sr_request_id rec) (sr_digest rec) (retired_requests s)\<rparr>)))"

fun import_receipts :: "byte list list \<Rightarrow> 'p PersistentHistoryStore \<Rightarrow> HistoryError + 'p PersistentHistoryStore" where
  "import_receipts [] s = Inr s"
| "import_receipts (r # rs) s =
    (if r = [] \<or> length r > MAX_HISTORY_REQUEST_ID_BYTES then
       Inl (HistoryError.Invalid ''history snapshot request identity is outside bounds'')
     else import_receipts rs (s\<lparr>receipt_order := receipt_order s @ [r]\<rparr>))"

text \<open>Everything after the content files are open.\<close>

definition import_catalogue ::
  "env \<Rightarrow> 'p BalancedSequence \<Rightarrow> HistorySnapshot \<Rightarrow> HistoryError + 'p PersistentHistoryStore" where
  "import_catalogue E b snap =
     bindR (import_reserve E (length (snap_history_bindings snap))) (\<lambda>_.
     bindR (import_reserve E (length (snap_history_bindings snap))) (\<lambda>_.
     bindR (check_import_bindings [] (snap_history_bindings snap)) (\<lambda>_.
     bindR (import_histories E 0 (snap_history_bindings snap)
       (bare_history b (snap_next_history_id snap) (snap_next_version_id snap))) (\<lambda>s.
     bindR (import_reserve E (length (snap_versions snap))) (\<lambda>_.
     bindR (import_versions E (snap_versions snap) 0 (snap_versions snap) (0, s)) (\<lambda>(materialized, s).
     if materialized \<noteq> length (filter sv_root_present (snap_versions snap)) then
       Inl (HistoryError.Invalid ''history snapshot descriptors disagree with its materialized versions'')
     else
     bindR (import_active E (snap_active snap) s) (\<lambda>s.
     bindR (import_retired E (snap_retired snap) s) (\<lambda>s.
     bindR (import_reserve E (length (snap_receipt_order snap))) (\<lambda>_.
     bindR (import_receipts (snap_receipt_order snap) s) (\<lambda>s.
     bindR (validate_snapshot_receipt_consistency E (snap_versions snap) (snap_active snap) (snap_retired snap)
       (snap_receipt_order snap)) (\<lambda>_.
     if length (expired_versions s) > length (versions s) then
       Inl (HistoryError.Invalid ''history snapshot expired versions disagree with its table'')
     else Inr s)))))))))))"

definition import_physical_snapshot ::
  "env \<Rightarrow> Directory \<Rightarrow> HistorySnapshot \<Rightarrow> HistoryError + PhysicalContentStore PersistentHistoryStore" where
  "import_physical_snapshot E d snap =
     bindR (map_err avl_error (open_existing d (snap_physical_generation snap) (snap_payload_end snap)
       (snap_node_count snap) False)) (\<lambda>st.
     import_catalogue E (open_physical st) snap)"

end
