(* ===== verification/History_Manifest.thy ===== *)
theory History_Manifest
  imports History_Store Directory_Io "HOL-Library.List_Lexorder"
begin

text \<open>
  The generation manifest (\<open>persistent_history/manifest.rs\<close>).  \<open>serde_json::from_slice\<close> is code outside
  the repository: it is the parameter \<open>J\<close> of the decoder, and \<open>serde_reads\<close> states what is relied on,
  that the compact text of a plain value within its recursion limit of 128, followed by white space,
  is read back as that value with the entries of each object in key order (the map of \<open>serde_json\<close>
  is a \<open>BTreeMap\<close>).  Strings are their UTF-8 bytes.
\<close>

section \<open>JSON values\<close>

datatype JsonNumber = PosInt u64 | NegInt int | Float "byte list"

datatype Json =
    JNull
  | JBool bool
  | JNumber JsonNumber
  | JString "byte list"
  | JArray "Json list"
  | JObject "(byte list \<times> Json) list"

definition as_object :: "Json \<Rightarrow> (byte list \<times> Json) list option" where
  "as_object v = (case v of JObject kvs \<Rightarrow> Some kvs | _ \<Rightarrow> None)"

definition as_str :: "Json \<Rightarrow> byte list option" where
  "as_str v = (case v of JString s \<Rightarrow> Some s | _ \<Rightarrow> None)"

definition as_u64 :: "Json \<Rightarrow> u64 option" where
  "as_u64 v = (case v of JNumber (PosInt n) \<Rightarrow> Some n | _ \<Rightarrow> None)"

section \<open>Names\<close>

definition HISTORY_MANIFEST_FILE :: string where
  "HISTORY_MANIFEST_FILE = ''history-manifest.json''"

definition HISTORY_LOCK_FILE :: string where
  "HISTORY_LOCK_FILE = ''history.lock''"

definition HISTORY_FORMAT_NAME :: string where
  "HISTORY_FORMAT_NAME = ''tulya-history-store''"

definition HISTORY_MANIFEST_SCHEMA :: u64 where
  "HISTORY_MANIFEST_SCHEMA = 1"

definition history_wal_filename :: "u64 \<Rightarrow> string" where
  "history_wal_filename generation = ''history-'' @ padded 20 generation @ ''.wal''"

definition history_snapshot_filename :: "u64 \<Rightarrow> string" where
  "history_snapshot_filename generation = ''history-snap-'' @ padded 20 generation @ ''.ths''"

section \<open>Hexadecimal digests\<close>

definition hex_digit :: "nat \<Rightarrow> byte" where
  "hex_digit n = word_of_nat (if n < 10 then 48 + n else 87 + n)"

definition hex_encode :: "byte list \<Rightarrow> byte list" where
  "hex_encode digest = concat (map (\<lambda>b. [hex_digit (unat b div 16), hex_digit (unat b mod 16)]) digest)"

definition hex_value :: "byte \<Rightarrow> HistoryError + nat" where
  "hex_value b =
    (if 48 \<le> b \<and> b \<le> 57 then Inr (unat b - 48)
     else if 97 \<le> b \<and> b \<le> 102 then Inr (unat b - 97 + 10)
     else Inl (HistoryError.Invalid ''history manifest sealed digest must be lowercase hex''))"

text \<open>The loop over the 32 slots, two characters each.\<close>

fun hex_pairs :: "byte list \<Rightarrow> HistoryError + byte list" where
  "hex_pairs (h # l # rest) =
     bindR (hex_value h) (\<lambda>high. bindR (hex_value l) (\<lambda>low.
     bindR (hex_pairs rest) (\<lambda>bs. Inr (word_of_nat (high * 16 + low) # bs))))"
| "hex_pairs _ = Inr []"

definition decode_sha256 :: "byte list \<Rightarrow> HistoryError + byte list" where
  "decode_sha256 hex =
    (if length hex \<noteq> 64 then
       Inl (HistoryError.Invalid ''history manifest sealed digest must be 64 hex characters'')
     else hex_pairs hex)"

section \<open>The manifest\<close>

record ManifestSealed =
  ms_byte_len :: u64
  ms_sha256 :: "byte list"

record HistoryManifest =
  hm_generation :: u64
  hm_sealed :: "ManifestSealed option"

definition sealed_artifact_digest :: "env \<Rightarrow> byte list \<Rightarrow> byte list" where
  "sealed_artifact_digest E bytes = sha256 E (ascii ''tulya-history/v1/manifest-sealed'' @ [0] @ bytes)"

definition ManifestSealed_for_snapshot :: "env \<Rightarrow> u64 \<Rightarrow> byte list \<Rightarrow> ManifestSealed" where
  "ManifestSealed_for_snapshot E len bytes = \<lparr>ms_byte_len = len, ms_sha256 = sealed_artifact_digest E bytes\<rparr>"

definition encode_sealed :: "ManifestSealed option \<Rightarrow> byte list" where
  "encode_sealed x = (case x of
     None \<Rightarrow> ascii ''null''
   | Some sealed \<Rightarrow> ascii ''{\"byte_len\":'' @ ascii (decimal (ms_byte_len sealed)) @ ascii '',\"sha256\":\"'' @
       hex_encode (ms_sha256 sealed) @ ascii ''\"}'')"

definition encode_history_manifest :: "HistoryManifest \<Rightarrow> byte list" where
  "encode_history_manifest m =
     ascii ''{\"format\":\"'' @ ascii HISTORY_FORMAT_NAME @ ascii ''\",\"manifest_schema\":'' @
     ascii (decimal HISTORY_MANIFEST_SCHEMA) @ ascii '',\"generation\":'' @ ascii (decimal (hm_generation m)) @
     ascii '',\"sealed\":'' @ encode_sealed (hm_sealed m) @ ascii ''}'' @ [10]"

definition known_keys :: "string list \<Rightarrow> msg \<Rightarrow> (byte list \<times> Json) list \<Rightarrow> HistoryError + unit" where
  "known_keys names m kvs =
    (if list_all (\<lambda>(k, _). k \<in> set (map ascii names)) kvs then Inr () else Inl (HistoryError.Invalid m))"

definition decode_sealed :: "Json \<Rightarrow> HistoryError + ManifestSealed option" where
  "decode_sealed v =
    (if v = JNull then Inr None
     else
     bindR (ok_or (HistoryError.Invalid ''history manifest sealed authority must be an object'') (as_object v)) (\<lambda>kvs.
     bindR (known_keys [''byte_len'', ''sha256''] ''history manifest sealed authority contains an unknown field'' kvs) (\<lambda>_.
     bindR (ok_or (HistoryError.Invalid ''history manifest sealed byte length is missing'')
       (Option.bind (map_of kvs (ascii ''byte_len'')) as_u64)) (\<lambda>len.
     if len = 0 then Inl (HistoryError.Invalid ''history manifest sealed byte length must be positive'')
     else
     bindR (ok_or (HistoryError.Invalid ''history manifest sealed digest is missing'')
       (Option.bind (map_of kvs (ascii ''sha256'')) as_str)) (\<lambda>hex.
     bindR (decode_sha256 hex) (\<lambda>digest. Inr (Some \<lparr>ms_byte_len = len, ms_sha256 = digest\<rparr>)))))))"

definition decode_history_manifest :: "(byte list \<Rightarrow> Json option) \<Rightarrow> byte list \<Rightarrow> HistoryError + HistoryManifest" where
  "decode_history_manifest J bytes =
     bindR (ok_or (HistoryError.Invalid ''history manifest JSON is malformed'') (J bytes)) (\<lambda>v.
     bindR (ok_or (HistoryError.Invalid ''history manifest must be a JSON object'') (as_object v)) (\<lambda>kvs.
     bindR (known_keys [''format'', ''manifest_schema'', ''generation'', ''sealed'']
       ''history manifest contains an unknown field'' kvs) (\<lambda>_.
     bindR (ok_or (HistoryError.Invalid ''history manifest format is missing'')
       (Option.bind (map_of kvs (ascii ''format'')) as_str)) (\<lambda>format.
     if format \<noteq> ascii HISTORY_FORMAT_NAME then Inl (HistoryError.Invalid ''history manifest format name mismatch'')
     else
     bindR (ok_or (HistoryError.Invalid ''history manifest schema is missing'')
       (Option.bind (map_of kvs (ascii ''manifest_schema'')) as_u64)) (\<lambda>schema.
     if schema \<noteq> HISTORY_MANIFEST_SCHEMA then Inl (HistoryError.Invalid ''history manifest schema is unsupported'')
     else
     bindR (ok_or (HistoryError.Invalid ''history manifest generation is missing'')
       (Option.bind (map_of kvs (ascii ''generation'')) as_u64)) (\<lambda>generation.
     bindR (ok_or (HistoryError.Invalid ''history manifest sealed authority is missing'') (map_of kvs (ascii ''sealed''))) (\<lambda>sv.
     bindR (decode_sealed sv) (\<lambda>sealed.
     Inr \<lparr>hm_generation = generation, hm_sealed = sealed\<rparr>))))))))"

section \<open>Compact JSON text\<close>

definition intercalate :: "byte list \<Rightarrow> byte list list \<Rightarrow> byte list" where
  "intercalate sep parts = (case parts of [] \<Rightarrow> [] | p # ps \<Rightarrow> p @ concat (map (\<lambda>q. sep @ q) ps))"

fun json_text :: "Json \<Rightarrow> byte list" where
  "json_text JNull = ascii ''null''"
| "json_text (JBool b) = ascii (if b then ''true'' else ''false'')"
| "json_text (JNumber n) = (case n of PosInt k \<Rightarrow> ascii (decimal k) | NegInt i \<Rightarrow> ascii (''-'' @ decimal (nat (- i))) | Float t \<Rightarrow> t)"
| "json_text (JString s) = [34] @ s @ [34]"
| "json_text (JArray vs) = ascii ''['' @ intercalate (ascii '','') (map json_text vs) @ ascii '']''"
| "json_text (JObject kvs) = ascii ''{'' @
     intercalate (ascii '','') (map (\<lambda>(k, v). [34] @ k @ [34] @ ascii '':'' @ json_text v) kvs) @ ascii ''}''"

definition plain_string :: "byte list \<Rightarrow> bool" where
  "plain_string s \<longleftrightarrow> list_all (\<lambda>b. 32 \<le> b \<and> b < 127 \<and> b \<noteq> 34 \<and> b \<noteq> 92) s"

text \<open>Null, 64-bit numbers, strings without escapes and objects of these with distinct keys.\<close>

fun plain_json :: "Json \<Rightarrow> bool" where
  "plain_json JNull = True"
| "plain_json (JNumber n) = (case n of PosInt k \<Rightarrow> k < width64 | _ \<Rightarrow> False)"
| "plain_json (JString s) = plain_string s"
| "plain_json (JObject kvs) = (distinct (map fst kvs) \<and> list_all (\<lambda>(k, v). plain_string k \<and> plain_json v) kvs)"
| "plain_json _ = False"

text \<open>The number of arrays and objects around the innermost value.\<close>

fun json_depth :: "Json \<Rightarrow> nat" where
  "json_depth (JArray vs) = Suc (fold max (map json_depth vs) 0)"
| "json_depth (JObject kvs) = Suc (fold max (map (\<lambda>(_, v). json_depth v) kvs) 0)"
| "json_depth _ = 0"

fun key_ordered :: "Json \<Rightarrow> Json" where
  "key_ordered (JObject kvs) = JObject (sort_key fst (map (\<lambda>(k, v). (k, key_ordered v)) kvs))"
| "key_ordered v = v"

definition serde_reads :: "(byte list \<Rightarrow> Json option) \<Rightarrow> bool" where
  "serde_reads J \<longleftrightarrow> (\<forall>v. plain_json v \<and> json_depth v < 128 \<longrightarrow> J (json_text v @ [10]) = Some (key_ordered v))"

end
