(* ===== verification/History_Durable.thy ===== *)
theory History_Durable
  imports History_Log
begin

text \<open>
  The durable operations of \<open>PersistentHistoryStore\<close> (\<open>*_durable\<close> in \<open>persistent_history/mod.rs\<close>)
  over \<open>DurableHistoryLog\<close> (\<open>durable_log.rs\<close>): prepare, write the frame, sync, and only then apply
  in memory; an outcome that is ambiguous poisons the writer.

  The operating system is the parameter \<open>IoChoice\<close>: what the file calls of one operation do.  A
  failing \<open>write_all\<close> may leave any proper prefix of the frame behind, and a failing sync leaves open whether
  the frame survives.  The file lock, the directory handling and the byte counters of the I/O
  ledger are not modelled.
\<close>

section \<open>The log file\<close>

record DurableHistoryLog =
  log_file :: "byte list"
  log_tail :: u64
  fail_next_append :: bool

datatype IoFault = IoNone | SeekFails | SetLenFails | WriteFails nat

record IoChoice =
  append_io :: IoFault
  sync_ok :: bool

text \<open>\<open>File::set_len\<close>: cut, or extend with zero bytes.\<close>

definition set_len :: "nat \<Rightarrow> byte list \<Rightarrow> byte list" where
  "set_len n file = take n file @ replicate (n - length file) 0"

definition append_frame ::
  "IoFault \<Rightarrow> byte list \<Rightarrow> DurableHistoryLog \<Rightarrow> (msg + unit) \<times> DurableHistoryLog" where
  "append_frame io frame log =
    (if fail_next_append log then
       (Inl ''injected fault: history log append rejected'', log\<lparr>fail_next_append := False\<rparr>)
     else case io of
       SeekFails \<Rightarrow> (Inl ''seek'', log)
     | SetLenFails \<Rightarrow> (Inl ''set_len'', log)
     | WriteFails n \<Rightarrow> (Inl ''write_all'',
         log\<lparr>log_file := set_len (log_tail log) (log_file log) @ take (min n (length frame - 1)) frame\<rparr>)
     | IoNone \<Rightarrow>
         let log1 = log\<lparr>log_file := set_len (log_tail log) (log_file log) @ frame\<rparr> in
         (case checked_add width64 (log_tail log) (length frame) of
            None \<Rightarrow> (Inl ''history log tail exceeds u64'', log1)
          | Some advanced \<Rightarrow> (Inr (), log1\<lparr>log_tail := advanced\<rparr>)))"

definition log_sync :: "bool \<Rightarrow> DurableHistoryLog \<Rightarrow> (msg + unit) \<times> DurableHistoryLog" where
  "log_sync ok log = (if ok then (Inr (), log) else (Inl ''sync_all'', log))"

definition open_write :: "env \<Rightarrow> byte list \<Rightarrow> HistoryError + DurableHistoryLog" where
  "open_write E file =
     bindR (scan_log_tail E file) (\<lambda>tail.
     Inr \<lparr>log_file = file, log_tail = tail, fail_next_append = False\<rparr>)"

section \<open>Durable outcomes\<close>

datatype IoSource = SyncFailed msg | ApplyFailed HistoryError

datatype DurableError =
    Rejected HistoryError
  | Indeterminate IoSource
  | RecoveryRequired
  | AlreadyOpen

type_synonym ('p, 'r) durable_prog =
  "('p PersistentHistoryStore \<times> DurableHistoryLog, DurableError, 'r) prog"

definition set_poisoned :: "'p PersistentHistoryStore \<Rightarrow> 'p PersistentHistoryStore" where
  "set_poisoned s = s\<lparr>poisoned := True\<rparr>"

definition require_unpoisoned_durable :: "('p, unit) durable_prog" where
  "require_unpoisoned_durable = readP (\<lambda>(s, log). if poisoned s then Inl RecoveryRequired else Inr ())"

text \<open>\<open>.map_err(DurableError::Rejected)\<close> on a step of the store.\<close>

definition rejectedP :: "('p, 'r) store_prog \<Rightarrow> ('p, 'r) durable_prog" where
  "rejectedP f = (\<lambda>(s, log). case f s of
     None \<Rightarrow> None
   | Some (r, s') \<Rightarrow> Some (map_err Rejected r, (s', log)))"

text \<open>Application after the barrier: an error poisons the writer (\<open>poison_after_barrier\<close>).\<close>

definition after_barrierP :: "('p, 'r) store_prog \<Rightarrow> ('p, 'r) durable_prog" where
  "after_barrierP f = (\<lambda>(s, log). case f s of
     None \<Rightarrow> None
   | Some (Inr x, s') \<Rightarrow> Some (Inr x, (s', log))
   | Some (Inl e, s') \<Rightarrow> Some (Inl (Indeterminate (ApplyFailed e)), (set_poisoned s', log)))"

definition write_and_sync :: "IoChoice \<Rightarrow> byte list \<Rightarrow> ('p, unit) durable_prog" where
  "write_and_sync io frame = (\<lambda>(s, log).
     case append_frame (append_io io) frame log of
       (Inl _, log1) \<Rightarrow>
         Some (Inl (Rejected (HistoryError.Invalid ''history log append failed before any new authority'')), (s, log1))
     | (Inr _, log1) \<Rightarrow> (case log_sync (sync_ok io) log1 of
         (Inl m, log2) \<Rightarrow> Some (Inl (Indeterminate (SyncFailed m)), (set_poisoned s, log2))
       | (Inr _, log2) \<Rightarrow> Some (Inr (), (s, log2))))"

definition encode_frame_of :: "env \<Rightarrow> HistoryLogRecord \<Rightarrow> DurableError + byte list" where
  "encode_frame_of E rec =
     bindR (map_err Rejected (encode_history_log_record E rec)) (\<lambda>body.
     map_err Rejected (encode_history_log_frame E body))"

section \<open>History creation\<close>

record PreparedHistoryCreate =
  pc_history :: HistoryId
  pc_binding :: "byte list option"

definition begin_durable_history_create ::
  "env \<Rightarrow> IoChoice \<Rightarrow> byte list option \<Rightarrow> ('p, HistoryId \<times> PreparedHistoryCreate option) durable_prog" where
  "begin_durable_history_create E io binding =
     bindP require_unpoisoned_durable (\<lambda>_.
     bindP (liftP (map_err Rejected (validate_optional_binding binding))) (\<lambda>_.
     bindP (readP (\<lambda>(s, log). Inr (Option.bind binding (bound_history s)))) (\<lambda>existing.
     case existing of
       Some hid \<Rightarrow> retP (hid, None)
     | None \<Rightarrow>
         bindP (liftP (map_err Rejected (reserve E ''persistent history set allocation failed'' 1))) (\<lambda>_.
         bindP (liftP (map_err Rejected
           (reserve_when (binding \<noteq> None) E ''persistent history binding allocation failed'' 1))) (\<lambda>_.
         bindP (readP (\<lambda>(s, log). Inr (next_history_id s))) (\<lambda>hid.
         bindP (liftP (encode_frame_of E (CreateHistory hid binding))) (\<lambda>frame.
         bindP (liftP (ok_or (Rejected (HistoryError.Overflow ''persistent history count exceeds u64''))
           (checked_add width64 hid 1))) (\<lambda>after.
         bindP (modifyP (\<lambda>(s, log). (s\<lparr>next_history_id := after\<rparr>, log))) (\<lambda>_.
         bindP (\<lambda>sl. case write_and_sync io frame sl of
             Some (Inl (Rejected e), (s, log)) \<Rightarrow> Some (Inl (Rejected e), (s\<lparr>next_history_id := hid\<rparr>, log))
           | other \<Rightarrow> other) (\<lambda>_.
         retP (hid, Some \<lparr>pc_history = hid, pc_binding = binding\<rparr>)))))))))))"

definition finish_history_create :: "PreparedHistoryCreate \<Rightarrow> ('p, HistoryId) store_prog" where
  "finish_history_create prepared s =
    (if pc_history prepared \<in> set (histories s) then
       Some (Inl (HistoryError.Invalid ''prepared history identity is already applied''), s)
     else case checked_add width64 (pc_history prepared) 1 of
       None \<Rightarrow> Some (Inl (HistoryError.Invalid ''prepared history identity exceeds the allocation counter''), s)
     | Some adopted \<Rightarrow>
         if next_history_id s \<noteq> adopted then
           Some (Inl (HistoryError.Invalid ''prepared history identity disagrees with the allocation counter''), s)
         else Some (Inr (pc_history prepared),
           s\<lparr>histories := List.insert (pc_history prepared) (histories s),
             history_bindings := (case pc_binding prepared of
                None \<Rightarrow> history_bindings s
              | Some bytes \<Rightarrow> hput (pc_history prepared) bytes (history_bindings s))\<rparr>))"

definition finish_durable_history_create :: "PreparedHistoryCreate \<Rightarrow> ('p, HistoryId) durable_prog" where
  "finish_durable_history_create prepared = after_barrierP (finish_history_create prepared)"

text \<open>
  \<open>create_history_durable\<close> is the case without a binding and
  \<open>create_history_durable_with_binding\<close> the case with one.
\<close>

definition create_history_durable :: "env \<Rightarrow> IoChoice \<Rightarrow> byte list option \<Rightarrow> ('p, HistoryId) durable_prog" where
  "create_history_durable E io binding =
     bindP (begin_durable_history_create E io binding) (\<lambda>(hid, prepared).
     case prepared of
       Some token \<Rightarrow> finish_durable_history_create token
     | None \<Rightarrow> retP hid)"

section \<open>Splice, append and fork\<close>

definition commit_physical_durable :: "'p PhysicalContent \<Rightarrow> PhysicalDelta option \<Rightarrow> ('p, unit) durable_prog" where
  "commit_physical_durable P physical = (\<lambda>(s, log). case physical of
     None \<Rightarrow> Some (Inr (), (s, log))
   | Some delta \<Rightarrow> (case backendP (commit_physical_delta P delta) s of
       None \<Rightarrow> None
     | Some (Inl _, s1) \<Rightarrow> Some (Inl (Rejected (HistoryError.Invalid
         ''history physical content commit failed before any new authority'')), (s1, log))
     | Some (Inr _, s1) \<Rightarrow> (case backendP (sync_physical_content P) s1 of
         None \<Rightarrow> None
       | Some (Inr _, s2) \<Rightarrow> Some (Inr (), (s2, log))
       | Some (Inl _, s2) \<Rightarrow> (case backendP (rollback_physical_to_committed P) s2 of
           None \<Rightarrow> None
         | Some (r, s3) \<Rightarrow> Some (Inl (if r = Inr True then Rejected (HistoryError.Invalid
               ''history physical content barrier failed before any new authority'') else RecoveryRequired),
             (s3, log))))))"

definition placement_of ::
  "'p PhysicalContent \<Rightarrow> 'p PersistentHistoryStore \<Rightarrow> PhysicalDelta option \<Rightarrow> DurableError + PhysicalPlacement option" where
  "placement_of P s physical = (case physical of
     None \<Rightarrow> Inr None
   | Some delta \<Rightarrow>
       bindR (ok_or (Rejected (HistoryError.Invalid ''prepared physical delta disagrees with its backend''))
         (physical_generation P (store_backend s))) (\<lambda>generation.
       Inr (Some \<lparr>pp_generation = generation, pp_payload_start = old_payload_end delta,
         pp_payload_end = new_payload_end delta, pp_node_start = old_node_count delta,
         pp_node_end = new_node_count delta, pp_delta_digest = delta_digest delta,
         pp_result_root = encode_v2_root (delta_root delta)\<rparr>)))"

definition splice_log_record :: "PreparedSplice \<Rightarrow> PhysicalPlacement option \<Rightarrow> HistoryLogRecord" where
  "splice_log_record prepared physical = Splice (ps_history prepared) (ps_version prepared) (ps_parent prepared)
     (ps_offset prepared) (ps_delete_len prepared) (ps_insert prepared) (ps_request_id prepared)
     (ps_binding prepared) (ps_digest prepared) physical"

definition splice_durable ::
  "env \<Rightarrow> 'p PhysicalContent \<Rightarrow> IoChoice \<Rightarrow> HistoryId \<Rightarrow> VersionId option \<Rightarrow> u64 \<Rightarrow> u64 \<Rightarrow> byte list \<Rightarrow>
   byte list option \<Rightarrow> byte list option \<Rightarrow> ('p, CommitOutcome) durable_prog" where
  "splice_durable E P io history parent off delete_len ins request_id binding =
     bindP require_unpoisoned_durable (\<lambda>_.
     bindP (rejectedP (preview_splice E P history parent off delete_len ins request_id binding)) (\<lambda>preview.
     case preview of
       PreviewReplayed v \<Rightarrow> retP (Replayed v)
     | PreviewRetired \<Rightarrow> retP CommitOutcome.Retired
     | PreviewFresh prepared \<Rightarrow>
         bindP (commit_physical_durable P (ps_physical prepared)) (\<lambda>_.
         bindP (readP (\<lambda>(s, log). placement_of P s (ps_physical prepared))) (\<lambda>physical.
         bindP (liftP (encode_frame_of E (splice_log_record prepared physical))) (\<lambda>frame.
         bindP (write_and_sync io frame) (\<lambda>_.
         after_barrierP (apply_prepared_splice E P prepared (ps_physical prepared \<noteq> None))))))))"

definition append_durable ::
  "env \<Rightarrow> 'p PhysicalContent \<Rightarrow> IoChoice \<Rightarrow> HistoryId \<Rightarrow> VersionId option \<Rightarrow> byte list \<Rightarrow>
   byte list option \<Rightarrow> byte list option \<Rightarrow> ('p, CommitOutcome) durable_prog" where
  "append_durable E P io history parent bytes request_id binding =
     bindP require_unpoisoned_durable (\<lambda>_.
     bindP (readP (\<lambda>(s, log). map_err Rejected (append_offset s history parent))) (\<lambda>off.
     splice_durable E P io history parent off 0 bytes request_id binding))"

definition fork_log_record :: "PreparedFork \<Rightarrow> HistoryLogRecord" where
  "fork_log_record prepared = Fork (pf_history prepared) (pf_version prepared) (pf_parent prepared)
     (pf_request_id prepared) (pf_binding prepared) (pf_digest prepared)"

definition fork_durable ::
  "env \<Rightarrow> IoChoice \<Rightarrow> HistoryId \<Rightarrow> VersionId \<Rightarrow> byte list option \<Rightarrow> byte list option \<Rightarrow>
   ('p, CommitOutcome) durable_prog" where
  "fork_durable E io history parent request_id binding =
     bindP require_unpoisoned_durable (\<lambda>_.
     bindP (readP (\<lambda>(s, log). map_err Rejected (preview_fork E s history parent request_id binding))) (\<lambda>preview.
     case preview of
       PreviewReplayed v \<Rightarrow> retP (Replayed v)
     | PreviewRetired \<Rightarrow> retP CommitOutcome.Retired
     | PreviewFresh prepared \<Rightarrow>
         bindP (liftP (encode_frame_of E (fork_log_record prepared))) (\<lambda>frame.
         bindP (write_and_sync io frame) (\<lambda>_.
         after_barrierP (apply_prepared_fork E prepared)))))"

section \<open>Expiration and retirement\<close>

definition expire_durable :: "env \<Rightarrow> IoChoice \<Rightarrow> VersionId \<Rightarrow> ('p, ExpireOutcome) durable_prog" where
  "expire_durable E io vid =
     bindP require_unpoisoned_durable (\<lambda>_.
     bindP (readP (\<lambda>(s, log). map_err Rejected (preview_expire E s vid))) (\<lambda>preview.
     case preview of
       ExpireAlready \<Rightarrow> retP AlreadyExpired
     | ExpireFresh prepared \<Rightarrow>
         bindP (liftP (encode_frame_of E (ExpireVersion (pe_history prepared) (pe_version prepared)))) (\<lambda>frame.
         bindP (write_and_sync io frame) (\<lambda>_.
         after_barrierP (apply_prepared_expire prepared)))))"

definition retire_digest :: "'p PersistentHistoryStore \<Rightarrow> byte list \<Rightarrow> HistoryError + digest" where
  "retire_digest s request_id =
     bindR (validate_request_identity request_id) (\<lambda>_.
     case hget (active_requests s) request_id of
       Some rec \<Rightarrow> Inr (request_digest rec)
     | None \<Rightarrow> Inl (if hget (retired_requests s) request_id \<noteq> None
         then HistoryError.Invalid ''persistent request identity is already retired''
         else HistoryError.Invalid ''persistent active request identity is absent''))"

definition retire_durable :: "env \<Rightarrow> IoChoice \<Rightarrow> byte list \<Rightarrow> ('p, unit) durable_prog" where
  "retire_durable E io request_id =
     bindP require_unpoisoned_durable (\<lambda>_.
     bindP (readP (\<lambda>(s, log). map_err Rejected (retire_digest s request_id))) (\<lambda>dg.
     bindP (liftP (encode_frame_of E (Retire request_id dg))) (\<lambda>frame.
     bindP (write_and_sync io frame) (\<lambda>_.
     after_barrierP (retire_request E request_id)))))"

end
