(* ===== verification/History_Gc.thy ===== *)
theory History_Gc
  imports History_Store
begin

text \<open>
  Quiescent garbage collection of \<open>PersistentHistoryStore\<close> (\<open>prepare_gc\<close>, \<open>apply_prepared_gc\<close> and
  \<open>prepare_physical_gc\<close> of \<open>persistent_history/mod.rs\<close>): the retained version roots are the root
  set, the backend compacts to them, and the catalogue is rebuilt with relocated roots for
  retained versions and no root for expired ones.

  The two preparations of the source repeat the scan, the catalogue rebuild, the statistics and
  the table copies; each of these is one definition here.
\<close>

section \<open>Data\<close>

record GcStats =
  gc_nodes_before :: u64
  gc_nodes_after :: u64
  gc_nodes_reclaimed :: u64
  gc_payload_bytes_before :: u64
  gc_payload_bytes_after :: u64
  gc_payload_bytes_reclaimed :: u64
  gc_retained_versions :: u64
  gc_expired_versions :: u64

record 'p PreparedGc =
  gc_store :: "'p PersistentHistoryStore"
  gc_stats :: GcStats

section \<open>Preparation\<close>

definition gc_check_lengths :: "VersionRecord list \<Rightarrow> HistoryError + unit" where
  "gc_check_lengths recs =
    (if list_ex (\<lambda>rec. case record_root rec of None \<Rightarrow> False | Some root \<Rightarrow> record_len rec \<noteq> proot_logical_len root) recs
     then Inl (HistoryError.Invalid ''persistent GC version length disagrees with its materialized root'')
     else Inr ())"

fun gc_scan ::
  "VersionId list \<Rightarrow> VersionRecord list \<Rightarrow> PersistentRoot list \<times> u64 \<times> u64 \<Rightarrow>
   HistoryError + PersistentRoot list \<times> u64 \<times> u64" where
  "gc_scan expired [] acc = Inr acc"
| "gc_scan expired (rec # recs) (roots, retained, gone) =
    (if version_id (record_version rec) \<in> set expired then
       bindR (ok_or (HistoryError.Overflow ''persistent GC expired version count exceeds u64'')
         (checked_add width64 gone 1)) (\<lambda>gone. gc_scan expired recs (roots, retained, gone))
     else
       bindR (ok_or (HistoryError.Invalid ''persistent GC retained version has no materialized root'')
         (record_root rec)) (\<lambda>root.
       bindR (ok_or (HistoryError.Overflow ''persistent GC retained version count exceeds u64'')
         (checked_add width64 retained 1)) (\<lambda>retained. gc_scan expired recs (roots @ [root], retained, gone))))"

definition gc_roots :: "env \<Rightarrow> 'p PersistentHistoryStore \<Rightarrow> HistoryError + PersistentRoot list \<times> u64 \<times> u64" where
  "gc_roots E s =
     bindR (reserve E ''persistent GC root table allocation failed'' (length (versions s))) (\<lambda>_.
     gc_scan (expired_versions s) (versions s) ([], 0, 0))"

fun gc_rebuild ::
  "VersionId list \<Rightarrow> VersionRecord list \<Rightarrow> PersistentRoot list \<Rightarrow> VersionRecord list \<Rightarrow> HistoryError + VersionRecord list"
where
  "gc_rebuild expired [] remapped out =
    (if remapped \<noteq> [] then
       Inl (HistoryError.Invalid ''persistent GC remapped roots disagree with retained versions'')
     else Inr out)"
| "gc_rebuild expired (rec # recs) remapped out =
    (if version_id (record_version rec) \<in> set expired then
       gc_rebuild expired recs remapped
         (out @ [\<lparr>record_version = record_version rec, record_root = None, record_len = record_len rec\<rparr>])
     else (case remapped of
         [] \<Rightarrow> Inl (HistoryError.Invalid ''persistent GC remapped roots disagree with retained versions'')
       | root # remapped' \<Rightarrow>
           if proot_logical_len root \<noteq> record_len rec then
             Inl (HistoryError.Invalid ''persistent GC remapped root disagrees with catalogue length'')
           else gc_rebuild expired recs remapped'
             (out @ [\<lparr>record_version = record_version rec, record_root = Some root, record_len = record_len rec\<rparr>])))"

definition gc_statistics :: "'p CompactedSequence \<Rightarrow> u64 \<Rightarrow> u64 \<Rightarrow> HistoryError + GcStats" where
  "gc_statistics c retained gone =
     bindR (ok_or (HistoryError.Invalid ''persistent GC reclaimed node count underflows'')
       (checked_sub (compacted_nodes_before c) (compacted_nodes_after c))) (\<lambda>nodes.
     bindR (ok_or (HistoryError.Invalid ''persistent GC reclaimed payload count underflows'')
       (checked_sub (compacted_payload_bytes_before c) (compacted_payload_bytes_after c))) (\<lambda>bytes.
     Inr \<lparr>gc_nodes_before = compacted_nodes_before c, gc_nodes_after = compacted_nodes_after c,
          gc_nodes_reclaimed = nodes, gc_payload_bytes_before = compacted_payload_bytes_before c,
          gc_payload_bytes_after = compacted_payload_bytes_after c, gc_payload_bytes_reclaimed = bytes,
          gc_retained_versions = retained, gc_expired_versions = gone\<rparr>))"

definition gc_reserve_tables :: "env \<Rightarrow> 'p PersistentHistoryStore \<Rightarrow> HistoryError + unit" where
  "gc_reserve_tables E s =
     bindR (traverse (reserve E ''persistent GC table allocation failed'')
       [length (histories s), length (active_requests s), length (retired_requests s), length (receipt_order s),
        length (expired_versions s), length (history_bindings s), length (version_bindings s)]) (\<lambda>_. Inr ())"

text \<open>From a compacted backend to the scratch store and its statistics.\<close>

definition gc_assemble ::
  "env \<Rightarrow> 'p PersistentHistoryStore \<Rightarrow> u64 \<times> u64 \<Rightarrow> 'p CompactedSequence \<Rightarrow> HistoryError + 'p PreparedGc" where
  "gc_assemble E s counts c =
     bindR (reserve E ''persistent GC catalogue allocation failed'' (length (versions s))) (\<lambda>_.
     bindR (gc_rebuild (expired_versions s) (versions s) (compacted_roots c) []) (\<lambda>recs.
     bindR (gc_statistics c (fst counts) (snd counts)) (\<lambda>stats.
     bindR (gc_reserve_tables E s) (\<lambda>_.
     Inr \<lparr>gc_store = s\<lparr>store_backend := compacted_backend c, versions := recs, poisoned := False\<rparr>,
          gc_stats = stats\<rparr>))))"

definition prepare_gc :: "env \<Rightarrow> 'p PhysicalContent \<Rightarrow> 'p PersistentHistoryStore \<Rightarrow> HistoryError + 'p PreparedGc" where
  "prepare_gc E P s =
     bindR (gc_check_lengths (versions s)) (\<lambda>_.
     bindR (gc_roots E s) (\<lambda>(roots, counts).
     bindR (map_err HistoryError.Sequence (seam_compact_to_roots E P (store_backend s) roots)) (\<lambda>c.
     gc_assemble E s counts c)))"

definition prepare_physical_gc ::
  "env \<Rightarrow> 'p PhysicalContent \<Rightarrow> 'p PersistentHistoryStore \<Rightarrow> HistoryError + 'p PreparedGc" where
  "prepare_physical_gc E P s =
     bindR (gc_check_lengths (versions s)) (\<lambda>_.
     bindR (ok_or (HistoryError.Invalid ''persistent physical GC requires a durable physical backend'')
       (physical_generation P (store_backend s))) (\<lambda>current.
     bindR (ok_or (HistoryError.Overflow ''persistent physical generation exceeds u64'')
       (checked_add width64 current 1)) (\<lambda>new_generation.
     bindR (gc_roots E s) (\<lambda>(roots, counts).
     bindR (map_err HistoryError.Sequence
       (compact_physical_to_roots E P (store_backend s) roots new_generation)) (\<lambda>c.
     gc_assemble E s counts c)))))"

definition apply_prepared_gc :: "'p PreparedGc \<Rightarrow> 'p PersistentHistoryStore \<Rightarrow> 'p PersistentHistoryStore" where
  "apply_prepared_gc prepared s =
     s\<lparr>store_backend := store_backend (gc_store prepared), versions := versions (gc_store prepared)\<rparr>"

end
