(* ===== verification/History_Authority.thy ===== *)
theory History_Authority
  imports History_Import History_Manifest History_Durable History_Gc
begin

text \<open>
  Generation authority (\<open>persistent_history/authority.rs\<close>): opening a history directory, the single
  writer, and the publication of a sealed or compacted generation by temporary files, renames and
  directory syncs.

  A directory entry is durable once a directory sync follows it.  \<open>nd_older\<close> lists the entries that
  were replaced since the last such sync, newest first: after a power cut a name may be bound as it
  is now or as in any of its older entries.  \<open>nd_dir\<close> is the directory as running processes see it; the
  content store keeps its own copy (\<open>pcs_dir\<close>) while it works, handed over by \<open>lend\<close> and taken back by
  \<open>settle\<close>.  The hot log is a file of the directory: \<open>write_through\<close> puts the bytes of its handle there.
  The I/O ledger and its timings are not modelled.  Locks answer as \<open>LockAnswer\<close> says.
\<close>

section \<open>Directory entries\<close>

record NamedDirectory =
  nd_dir :: Directory
  nd_older :: "(string \<times> DirFile option) list"

datatype FsRead = NotFound | ReadFailed | ReadOk "byte list"

definition fs_read :: "Directory \<Rightarrow> string \<Rightarrow> FsRead" where
  "fs_read d name =
    (if dir_refuses d (OpenCall name) then ReadFailed
     else case dir_files d name of
       None \<Rightarrow> NotFound
     | Some f \<Rightarrow> if dir_reads d name 0 (length (file_bytes f)) = None then ReadFailed else ReadOk (file_bytes f))"

definition path_exists :: "Directory \<Rightarrow> string \<Rightarrow> bool" where
  "path_exists d name \<longleftrightarrow> dir_files d name \<noteq> None \<and> \<not> dir_refuses d (MetadataCall name)"

text \<open>A call on the files of the directory; \<open>name\<close> is the one whose entry may change.\<close>

definition on_entry :: "string \<Rightarrow> (Directory \<Rightarrow> bool \<times> Directory) \<Rightarrow> NamedDirectory \<Rightarrow> bool \<times> NamedDirectory" where
  "on_entry name call d = (case call (nd_dir d) of (ok, d') \<Rightarrow>
     (ok, \<lparr>nd_dir = d', nd_older = (if (dir_files (nd_dir d) name = None) = (dir_files d' name = None) then nd_older d
       else (name, dir_files (nd_dir d) name) # nd_older d)\<rparr>))"

definition rename :: "string \<Rightarrow> string \<Rightarrow> NamedDirectory \<Rightarrow> bool \<times> NamedDirectory" where
  "rename from to d = (case dir_files (nd_dir d) from of
     None \<Rightarrow> (False, d)
   | Some f \<Rightarrow> (case next_answer (nd_dir d) of
       (Refused _, d') \<Rightarrow> (False, d\<lparr>nd_dir := d'\<rparr>)
     | (Granted, d') \<Rightarrow> (True, \<lparr>nd_dir = d'\<lparr>dir_files := (dir_files d')(from := None, to := Some f)\<rparr>,
         nd_older = (to, dir_files d' to) # (from, Some f) # nd_older d\<rparr>)))"

definition remove_file :: "string \<Rightarrow> NamedDirectory \<Rightarrow> bool \<times> NamedDirectory" where
  "remove_file name d = (case dir_files (nd_dir d) name of
     None \<Rightarrow> (False, d)
   | Some f \<Rightarrow> (case next_answer (nd_dir d) of
       (Refused _, d') \<Rightarrow> (False, d\<lparr>nd_dir := d'\<rparr>)
     | (Granted, d') \<Rightarrow> (True, \<lparr>nd_dir = d'\<lparr>dir_files := (dir_files d')(name := None)\<rparr>,
         nd_older = (name, Some f) # nd_older d\<rparr>)))"

definition sync_dir :: "NamedDirectory \<Rightarrow> bool \<times> NamedDirectory" where
  "sync_dir d = (case next_answer (nd_dir d) of
     (Refused _, d') \<Rightarrow> (False, d\<lparr>nd_dir := d'\<rparr>)
   | (Granted, d') \<Rightarrow> (True, \<lparr>nd_dir = d', nd_older = []\<rparr>))"

text \<open>\<open>OpenOptions::create(true).truncate(false)\<close>\<close>

definition dir_open_or_create :: "string \<Rightarrow> Directory \<Rightarrow> bool \<times> Directory" where
  "dir_open_or_create name d =
    (if dir_files d name \<noteq> None then (\<not> dir_refuses d (OpenCall name), d) else dir_create_new name d)"

section \<open>Steps over the directory\<close>

type_synonym 'a nd_prog = "NamedDirectory \<Rightarrow> (DurableError + 'a) \<times> NamedDirectory"

definition bindD :: "'a nd_prog \<Rightarrow> ('a \<Rightarrow> 'b nd_prog) \<Rightarrow> 'b nd_prog" where
  "bindD m k d = (case m d of (Inl e, d') \<Rightarrow> (Inl e, d') | (Inr x, d') \<Rightarrow> k x d')"

definition viewD :: "(Directory \<Rightarrow> DurableError + 'a) \<Rightarrow> 'a nd_prog" where
  "viewD f d = (f (nd_dir d), d)"

definition callD :: "msg \<Rightarrow> (NamedDirectory \<Rightarrow> bool \<times> NamedDirectory) \<Rightarrow> unit nd_prog" where
  "callD m call d = (case call d of (ok, d') \<Rightarrow>
     (if ok then Inr () else Inl (Rejected (HistoryError.Invalid m)), d'))"

definition tmp_path :: "string \<Rightarrow> string" where
  "tmp_path name = name @ ''.tmp''"

definition write_file_synced :: "string \<Rightarrow> byte list \<Rightarrow> NamedDirectory \<Rightarrow> bool \<times> NamedDirectory" where
  "write_file_synced name bytes d = (case on_entry name (dir_create_truncate name) d of
     (False, d) \<Rightarrow> (False, d)
   | (True, d) \<Rightarrow> (case (if bytes = [] then (True, d) else on_entry name (dir_write name 0 bytes) d) of
       (False, d) \<Rightarrow> (False, d)
     | (True, d) \<Rightarrow> on_entry name (dir_sync name) d))"

definition publish_file :: "string \<Rightarrow> string \<Rightarrow> NamedDirectory \<Rightarrow> bool \<times> NamedDirectory" where
  "publish_file tmp final d = (case rename tmp final d of
     (False, d) \<Rightarrow> (False, d)
   | (True, d) \<Rightarrow> sync_dir d)"

section \<open>Reading the authority\<close>

record OpenedHistoryStats =
  snapshot_versions :: usize
  suffix_bytes :: u64

record OpenedHistory =
  opened_store :: "PhysicalContentStore PersistentHistoryStore"
  opened_generation :: u64
  opened_stats :: OpenedHistoryStats

abbreviation rejected :: "msg \<Rightarrow> DurableError" where
  "rejected m \<equiv> Rejected (HistoryError.Invalid m)"

definition read_manifest :: "(byte list \<Rightarrow> Json option) \<Rightarrow> Directory \<Rightarrow> DurableError + HistoryManifest option" where
  "read_manifest J d = (case fs_read d HISTORY_MANIFEST_FILE of
     NotFound \<Rightarrow> Inr None
   | ReadFailed \<Rightarrow> Inl (rejected ''history manifest read failed'')
   | ReadOk bytes \<Rightarrow> bindR (map_err Rejected (decode_history_manifest J bytes)) (\<lambda>m. Inr (Some m)))"

definition current_generation :: "(byte list \<Rightarrow> Json option) \<Rightarrow> Directory \<Rightarrow> DurableError + u64" where
  "current_generation J d =
     bindR (read_manifest J d) (\<lambda>m. Inr (case m of None \<Rightarrow> 0 | Some m \<Rightarrow> hm_generation m))"

definition open_sealed ::
  "env \<Rightarrow> Directory \<Rightarrow> u64 \<Rightarrow> ManifestSealed \<Rightarrow> DurableError + PhysicalContentStore PersistentHistoryStore" where
  "open_sealed E d generation sealed = (case fs_read d (history_snapshot_filename generation) of
     ReadOk bytes \<Rightarrow>
       if length bytes \<noteq> ms_byte_len sealed then Inl (rejected ''history sealed snapshot length disagrees with manifest'')
       else if sealed_artifact_digest E bytes \<noteq> ms_sha256 sealed then Inl (rejected ''history sealed snapshot digest mismatch'')
       else
       bindR (map_err Rejected (decode_history_snapshot E bytes)) (\<lambda>snap.
       if snap_generation snap \<noteq> generation then Inl (rejected ''history snapshot generation disagrees with manifest'')
       else map_err Rejected (import_physical_snapshot E d snap))
   | _ \<Rightarrow> Inl (rejected ''history sealed snapshot is missing''))"

definition open_base ::
  "env \<Rightarrow> Directory \<Rightarrow> HistoryManifest option \<Rightarrow> DurableError + PhysicalContentStore PersistentHistoryStore" where
  "open_base E d manifest = (case Option.bind manifest hm_sealed of
     None \<Rightarrow>
       if (case manifest of None \<Rightarrow> False | Some m \<Rightarrow> hm_generation m \<noteq> 0) then
         Inl (rejected ''history manifest without sealed base must be generation zero'')
       else map_err Rejected (import_physical_genesis d)
   | Some sealed \<Rightarrow> open_sealed E d (case manifest of None \<Rightarrow> 0 | Some m \<Rightarrow> hm_generation m) sealed)"

definition read_suffix :: "Directory \<Rightarrow> HistoryManifest option \<Rightarrow> u64 \<Rightarrow> DurableError + byte list" where
  "read_suffix d manifest generation = (case fs_read d (history_wal_filename generation) of
     NotFound \<Rightarrow>
       if manifest \<noteq> None then Inl (rejected ''history hot log for the published generation is missing'')
       else Inr []
   | ReadFailed \<Rightarrow> Inl (rejected ''history hot log read failed'')
   | ReadOk bytes \<Rightarrow> Inr bytes)"

text \<open>The result is \<open>None\<close> where the replay does not return.\<close>

definition open_history_authority ::
  "env \<Rightarrow> (byte list \<Rightarrow> Json option) \<Rightarrow> Directory \<Rightarrow> (DurableError + OpenedHistory) option" where
  "open_history_authority E J d = (case read_manifest J d of
     Inl e \<Rightarrow> Some (Inl e)
   | Inr manifest \<Rightarrow>
       let generation = (case manifest of None \<Rightarrow> 0 | Some m \<Rightarrow> hm_generation m) in
       (case bindR (open_base E d manifest) (\<lambda>s. bindR (read_suffix d manifest generation) (\<lambda>suffix. Inr (s, suffix))) of
          Inl e \<Rightarrow> Some (Inl e)
        | Inr (s, suffix) \<Rightarrow> (case replay_history_suffix E (physical_content E) suffix s of
            None \<Rightarrow> None
          | Some (Inl e, _) \<Rightarrow> Some (Inl (Rejected e))
          | Some (Inr _, s') \<Rightarrow> Some (
              bindR (map_err Rejected (check_physical_frontiers_against_files (physical_content E) s')) (\<lambda>_.
              Inr \<lparr>opened_store = s', opened_generation = generation, opened_stats =
                \<lparr>snapshot_versions = length (versions s), suffix_bytes = length suffix\<rparr>\<rparr>)))))"

section \<open>The writable authority\<close>

record WritableHistoryAuthority =
  wa_store :: "PhysicalContentStore PersistentHistoryStore"
  wa_generation :: u64
  wa_stats :: OpenedHistoryStats
  wa_dir :: NamedDirectory
  wa_hot :: DurableHistoryLog

datatype LockAnswer = LockGranted | LockContended | LockFailed

definition lend :: "Directory \<Rightarrow> PhysicalContentStore PersistentHistoryStore \<Rightarrow> PhysicalContentStore PersistentHistoryStore" where
  "lend d s = (case backend (store_backend s) of
     Memory _ \<Rightarrow> s
   | Physical st \<Rightarrow> s\<lparr>store_backend := (store_backend s)\<lparr>backend := Physical (st\<lparr>pcs_dir := d\<rparr>)\<rparr>\<rparr>)"

definition lent_dir :: "Directory \<Rightarrow> PhysicalContentStore PersistentHistoryStore \<Rightarrow> Directory" where
  "lent_dir d s = (case backend (store_backend s) of Memory _ \<Rightarrow> d | Physical st \<Rightarrow> pcs_dir st)"

definition content_generation_of :: "PhysicalContentStore PersistentHistoryStore \<Rightarrow> u64" where
  "content_generation_of s = (case backend (store_backend s) of Memory _ \<Rightarrow> 0 | Physical st \<Rightarrow> pcs_generation st)"

text \<open>The directory after a step that created content files of a generation.\<close>

definition settle :: "u64 \<Rightarrow> Directory \<Rightarrow> NamedDirectory \<Rightarrow> NamedDirectory" where
  "settle g d' d = \<lparr>nd_dir = d', nd_older = map (\<lambda>n. (n, dir_files (nd_dir d) n))
     (filter (\<lambda>n. (dir_files (nd_dir d) n = None) \<noteq> (dir_files d' n = None))
       [content_payload_filename g, content_nodes_filename g]) @ nd_older d\<rparr>"

definition map_hot_open_error :: "LockAnswer \<Rightarrow> DurableError" where
  "map_hot_open_error l = (if l = LockContended then AlreadyOpen else rejected ''history hot log open failed'')"

definition open_hot :: "env \<Rightarrow> LockAnswer \<Rightarrow> string \<Rightarrow> DurableHistoryLog nd_prog" where
  "open_hot E lock name d = (case on_entry name (dir_open_or_create name) d of
     (False, d) \<Rightarrow> (Inl (map_hot_open_error LockFailed), d)
   | (True, d) \<Rightarrow>
       if lock \<noteq> LockGranted then (Inl (map_hot_open_error lock), d)
       else (case fs_read (nd_dir d) name of
         ReadOk bytes \<Rightarrow> (map_err (\<lambda>_. map_hot_open_error LockFailed) (open_write E bytes), d)
       | _ \<Rightarrow> (Inl (map_hot_open_error LockFailed), d)))"

definition authority_open ::
  "env \<Rightarrow> (byte list \<Rightarrow> Json option) \<Rightarrow> LockAnswer \<Rightarrow> LockAnswer \<Rightarrow> NamedDirectory \<Rightarrow>
   ((DurableError + WritableHistoryAuthority) \<times> NamedDirectory) option" where
  "authority_open E J lease hot_lock d = (case on_entry HISTORY_LOCK_FILE (dir_open_or_create HISTORY_LOCK_FILE) d of
     (False, d) \<Rightarrow> Some (Inl (rejected ''history writer lease open failed''), d)
   | (True, d) \<Rightarrow>
       if lease = LockContended then Some (Inl AlreadyOpen, d)
       else if lease = LockFailed then Some (Inl (rejected ''history writer lease acquisition failed''), d)
       else (case open_history_authority E J (nd_dir d) of
         None \<Rightarrow> None
       | Some (Inl e) \<Rightarrow> Some (Inl e, d)
       | Some (Inr opened) \<Rightarrow> (case heal_store_for_write (physical_content E) (opened_store opened) of
           None \<Rightarrow> None
         | Some (r, s) \<Rightarrow>
             let d = settle (content_generation_of s) (lent_dir (nd_dir d) s) d in
             (case r of
                Inl e \<Rightarrow> Some (Inl (Rejected e), d)
              | Inr _ \<Rightarrow> (case open_hot E hot_lock (history_wal_filename (opened_generation opened)) d of
                  (Inl e, d) \<Rightarrow> Some (Inl e, d)
                | (Inr hot, d) \<Rightarrow> Some (Inr \<lparr>wa_store = lend (nd_dir d) s, wa_generation = opened_generation opened,
                    wa_stats = opened_stats opened, wa_dir = d, wa_hot = hot\<rparr>, d))))))"

section \<open>Durable operations\<close>

text \<open>The hot log writes to its file; the bytes are durable once an appended frame was synced.\<close>

definition write_through :: "string \<Rightarrow> bool \<Rightarrow> DurableHistoryLog \<Rightarrow> Directory \<Rightarrow> Directory" where
  "write_through name synced log d = (case dir_files d name of
     None \<Rightarrow> d
   | Some f \<Rightarrow> put_file name \<lparr>file_bytes = log_file log,
       file_durable = (if synced then log_file log else file_durable f)\<rparr> d)"

definition through_log ::
  "(PhysicalContentStore, 'r) durable_prog \<Rightarrow> WritableHistoryAuthority \<Rightarrow> ((DurableError + 'r) \<times> WritableHistoryAuthority) option" where
  "through_log m a = (case m (lend (nd_dir (wa_dir a)) (wa_store a), wa_hot a) of
     None \<Rightarrow> None
   | Some (r, (s, log)) \<Rightarrow>
       let synced = (\<not> isl r \<and> log_tail log \<noteq> log_tail (wa_hot a));
           d = write_through (history_wal_filename (wa_generation a)) synced log (lent_dir (nd_dir (wa_dir a)) s)
       in Some (r, a\<lparr>wa_store := lend d s, wa_hot := log, wa_dir := settle (content_generation_of s) d (wa_dir a)\<rparr>))"

definition authority_create_history where
  "authority_create_history E io binding = through_log (create_history_durable E io binding)"

definition authority_splice where
  "authority_splice E io h parent off del ins rid binding =
     through_log (splice_durable E (physical_content E) io h parent off del ins rid binding)"

definition authority_append where
  "authority_append E io h parent bytes rid binding =
     through_log (append_durable E (physical_content E) io h parent bytes rid binding)"

definition authority_fork where
  "authority_fork E io h parent rid binding = through_log (fork_durable E io h parent rid binding)"

definition authority_expire where
  "authority_expire E io v = through_log (expire_durable E io v)"

definition authority_retire where
  "authority_retire E io rid = through_log (retire_durable E io rid)"

section \<open>Publication\<close>

record StagedSeal =
  st_previous :: u64
  st_generation :: u64
  st_represented_wal_end :: u64
  st_sealed :: ManifestSealed
  st_snapshot_len :: u64

definition next_generation :: "u64 \<Rightarrow> DurableError + u64" where
  "next_generation current =
     ok_or (Rejected (HistoryError.Overflow ''history generation exceeds u64'')) (checked_add width64 current 1)"

definition current_hot_wal_end :: "env \<Rightarrow> Directory \<Rightarrow> u64 \<Rightarrow> DurableError + u64" where
  "current_hot_wal_end E d current =
     bindR (case fs_read d (history_wal_filename current) of
       NotFound \<Rightarrow> if current = 0 then Inr []
         else Inl (rejected ''history hot log for the authoritative generation is missing'')
     | ReadFailed \<Rightarrow> Inl (rejected ''history hot log read failed'')
     | ReadOk bytes \<Rightarrow> Inr bytes) (\<lambda>bytes.
     bindR (map_err Rejected (decode_history_log E bytes)) (\<lambda>(_, represented). Inr represented))"

definition read_back :: "env \<Rightarrow> string \<Rightarrow> byte list \<Rightarrow> Directory \<Rightarrow> DurableError + unit" where
  "read_back E tmp snapshot d = (case fs_read d tmp of
     ReadOk back \<Rightarrow>
       if back \<noteq> snapshot then Inl (rejected ''history sealed snapshot did not survive its own write'')
       else bindR (map_err Rejected (decode_history_snapshot E back)) (\<lambda>_. Inr ())
   | _ \<Rightarrow> Inl (rejected ''history seal snapshot re-read failed''))"

definition check_next_hot :: "string \<Rightarrow> Directory \<Rightarrow> DurableError + unit" where
  "check_next_hot hot_next d =
    (if path_exists d hot_next then
       (case fs_read d hot_next of
          ReadOk stale \<Rightarrow> if stale \<noteq> [] then Inl (rejected ''history next-generation hot log is not empty'') else Inr ()
        | _ \<Rightarrow> Inl (rejected ''history next-generation hot log read failed''))
     else Inr ())"

definition publish_staged_files :: "env \<Rightarrow> u64 \<Rightarrow> u64 \<Rightarrow> u64 \<Rightarrow> byte list \<Rightarrow> StagedSeal nd_prog" where
  "publish_staged_files E current generation wal_end snapshot =
    (let snap = history_snapshot_filename generation; hot_next = history_wal_filename generation in
     bindD (callD ''history seal snapshot write failed'' (write_file_synced (tmp_path snap) snapshot)) (\<lambda>_.
     bindD (viewD (read_back E (tmp_path snap) snapshot)) (\<lambda>_.
     bindD (callD ''history seal snapshot publication failed'' (publish_file (tmp_path snap) snap)) (\<lambda>_.
     bindD (viewD (check_next_hot hot_next)) (\<lambda>_.
     bindD (callD ''history next hot log write failed'' (write_file_synced (tmp_path hot_next) [])) (\<lambda>_.
     bindD (callD ''history next hot log publication failed'' (publish_file (tmp_path hot_next) hot_next)) (\<lambda>_.
     viewD (\<lambda>_. Inr \<lparr>st_previous = current, st_generation = generation, st_represented_wal_end = wal_end,
       st_sealed = ManifestSealed_for_snapshot E (length snapshot) snapshot, st_snapshot_len = length snapshot\<rparr>))))))))"

definition stage_sealed_generation ::
  "env \<Rightarrow> (byte list \<Rightarrow> Json option) \<Rightarrow> PhysicalContentStore PersistentHistoryStore \<Rightarrow> StagedSeal nd_prog" where
  "stage_sealed_generation E J s =
     bindD (viewD (current_generation J)) (\<lambda>current.
     bindD (viewD (\<lambda>_. next_generation current)) (\<lambda>generation.
     bindD (viewD (\<lambda>d. current_hot_wal_end E d current)) (\<lambda>wal_end.
     bindD (viewD (\<lambda>d. map_err Rejected (encode_history_snapshot E (physical_content E) (lend d s) generation wal_end))) (\<lambda>snapshot.
     publish_staged_files E current generation wal_end snapshot))))"

text \<open>Whether a failure poisons the store is the first component of the error.\<close>

definition commit_staged_manifest :: "StagedSeal \<Rightarrow> NamedDirectory \<Rightarrow> ((bool \<times> DurableError) + unit) \<times> NamedDirectory" where
  "commit_staged_manifest staged d =
    (let manifest = encode_history_manifest \<lparr>hm_generation = st_generation staged, hm_sealed = Some (st_sealed staged)\<rparr> in
     case write_file_synced (tmp_path HISTORY_MANIFEST_FILE) manifest d of
       (False, d) \<Rightarrow> (Inl (False, rejected ''history manifest write failed''), d)
     | (True, d) \<Rightarrow> (case rename (tmp_path HISTORY_MANIFEST_FILE) HISTORY_MANIFEST_FILE d of
         (False, d) \<Rightarrow> (Inl (False, rejected ''history manifest publication failed''), d)
       | (True, d) \<Rightarrow> (case sync_dir d of
           (False, d) \<Rightarrow> (Inl (True, Indeterminate (SyncFailed ''directory sync'')), d)
         | (True, d) \<Rightarrow> (Inr (), d))))"

definition recycle_superseded_hot :: "u64 \<Rightarrow> NamedDirectory \<Rightarrow> bool \<times> NamedDirectory" where
  "recycle_superseded_hot previous d = (case remove_file (history_wal_filename previous) d of
     (True, d) \<Rightarrow> (True, snd (sync_dir d))
   | (False, d) \<Rightarrow> (False, d))"

section \<open>Sealing\<close>

record SealSummary =
  seal_generation :: u64
  seal_represented_wal_end :: u64
  seal_snapshot_len :: u64
  seal_recycled_hot :: bool

definition with_dir :: "NamedDirectory \<Rightarrow> WritableHistoryAuthority \<Rightarrow> WritableHistoryAuthority" where
  "with_dir d a = a\<lparr>wa_dir := d, wa_store := lend (nd_dir d) (wa_store a)\<rparr>"

definition adopt_generation :: "DurableHistoryLog \<Rightarrow> StagedSeal \<Rightarrow> WritableHistoryAuthority \<Rightarrow> WritableHistoryAuthority" where
  "adopt_generation hot staged a = a\<lparr>wa_hot := hot, wa_generation := st_generation staged,
     wa_stats := \<lparr>snapshot_versions = length (versions (wa_store a)), suffix_bytes = 0\<rparr>\<rparr>"

definition seal ::
  "env \<Rightarrow> (byte list \<Rightarrow> Json option) \<Rightarrow> LockAnswer \<Rightarrow> WritableHistoryAuthority \<Rightarrow>
   (DurableError + SealSummary) \<times> WritableHistoryAuthority" where
  "seal E J hot_lock a =
    (if poisoned (wa_store a) then (Inl RecoveryRequired, a)
     else (case stage_sealed_generation E J (wa_store a) (wa_dir a) of
       (Inl e, d) \<Rightarrow> (Inl e, with_dir d a)
     | (Inr staged, d) \<Rightarrow> (case open_hot E hot_lock (history_wal_filename (st_generation staged)) d of
         (Inl e, d) \<Rightarrow> (Inl e, with_dir d a)
       | (Inr next_hot, d) \<Rightarrow> (case commit_staged_manifest staged d of
           (Inl (poison, e), d) \<Rightarrow>
             (Inl e, with_dir d (if poison then a\<lparr>wa_store := set_poisoned (wa_store a)\<rparr> else a))
         | (Inr _, d) \<Rightarrow>
             let a = adopt_generation next_hot staged a in
             (case recycle_superseded_hot (st_previous staged) d of (recycled, d) \<Rightarrow>
               (Inr \<lparr>seal_generation = st_generation staged, seal_represented_wal_end = st_represented_wal_end staged,
                  seal_snapshot_len = st_snapshot_len staged, seal_recycled_hot = recycled\<rparr>, with_dir d a))))))"

section \<open>Superseded files\<close>

definition generation_named :: "string \<Rightarrow> string \<Rightarrow> string \<Rightarrow> u64 option" where
  "generation_named pre suf name = Option.bind (Option.bind (strip_prefix pre name) (strip_suffix suf)) parse_u64"

definition stale_tulya_temp_file :: "string \<Rightarrow> bool" where
  "stale_tulya_temp_file name = (case strip_suffix ''.tmp'' name of
     None \<Rightarrow> False
   | Some base \<Rightarrow> base = HISTORY_MANIFEST_FILE \<or> generation_named ''history-'' ''.wal'' base \<noteq> None \<or>
       generation_named ''history-snap-'' ''.ths'' base \<noteq> None)"

definition superseded_generation_file :: "string \<Rightarrow> u64 \<Rightarrow> bool" where
  "superseded_generation_file name current = (case generation_named ''history-'' ''.wal'' name of
     Some generation \<Rightarrow> generation \<noteq> current
   | None \<Rightarrow> (case generation_named ''history-snap-'' ''.ths'' name of
       Some generation \<Rightarrow> generation \<noteq> current
     | None \<Rightarrow> False))"

definition obsolete_file :: "u64 \<Rightarrow> u64 option \<Rightarrow> string \<Rightarrow> bool" where
  "obsolete_file current physical name \<longleftrightarrow> superseded_generation_file name current \<or> stale_tulya_temp_file name \<or>
     (case physical of None \<Rightarrow> False | Some g \<Rightarrow> superseded_physical_content_file name g)"

text \<open>
  What \<open>read_dir\<close> delivers, entry by entry: one it could not read, one whose name is not Unicode
  (\<open>to_str\<close> answers \<open>None\<close>), and a name.
\<close>

datatype DirEntry = Unreadable | NotUnicode | Named string

fun cleanup_entries :: "u64 \<Rightarrow> u64 option \<Rightarrow> DirEntry list \<Rightarrow> NamedDirectory \<Rightarrow> bool \<times> NamedDirectory" where
  "cleanup_entries current physical [] d = (True, d)"
| "cleanup_entries current physical (Unreadable # entries) d = (False, snd (cleanup_entries current physical entries d))"
| "cleanup_entries current physical (NotUnicode # entries) d = cleanup_entries current physical entries d"
| "cleanup_entries current physical (Named name # entries) d =
    (if \<not> obsolete_file current physical name then cleanup_entries current physical entries d
     else (case remove_file name d of (removed, d) \<Rightarrow>
       (case cleanup_entries current physical entries d of (complete, d) \<Rightarrow> (removed \<and> complete, d))))"

definition cleanup_superseded_generations ::
  "DirEntry list option \<Rightarrow> u64 \<Rightarrow> u64 option \<Rightarrow> NamedDirectory \<Rightarrow> bool \<times> NamedDirectory" where
  "cleanup_superseded_generations listing current physical d = (case listing of
     None \<Rightarrow> (False, d)
   | Some entries \<Rightarrow> (case cleanup_entries current physical entries d of (complete, d) \<Rightarrow>
       (case sync_dir d of (synced, d) \<Rightarrow> (complete \<and> synced, d))))"

section \<open>Quiescent garbage collection\<close>

record GcSummary =
  gcs_generation :: u64
  gcs_represented_wal_end :: u64
  gcs_snapshot_len :: u64
  gcs_stats :: GcStats
  gcs_cleanup_complete :: bool

text \<open>The directory a failed preparation leaves: the files of the next content generation, as far as
  they were written.\<close>

definition preparation_left :: "env \<Rightarrow> PhysicalContentStore PersistentHistoryStore \<Rightarrow> Directory \<Rightarrow> Directory" where
  "preparation_left E s d = (case backend (store_backend s) of
     Memory _ \<Rightarrow> d
   | Physical st \<Rightarrow> (case bindR (gc_check_lengths (versions s)) (\<lambda>_.
       bindR (gc_roots E s) (\<lambda>(roots, _).
       bindR (reserve E ''sequence compaction root table allocation failed'' (length roots)) (\<lambda>_.
       map_err HistoryError.Sequence (traverse (resolve (physical_content E) (store_backend s)) roots)))) of
         Inl _ \<Rightarrow> d
       | Inr seeds \<Rightarrow> (case checked_add width64 (pcs_generation st) 1 of
           None \<Rightarrow> d
         | Some g \<Rightarrow> snd (pcs_compact_physical_generation E st seeds g))))"

definition prepare_compaction ::
  "env \<Rightarrow> PhysicalContentStore PersistentHistoryStore \<Rightarrow> DurableError + PhysicalContentStore PreparedGc \<times> u64 option" where
  "prepare_compaction E s =
    (if backend_is_physical (store_backend s) then
       bindR (map_err Rejected (prepare_physical_gc E (physical_content E) s)) (\<lambda>prepared.
       bindR (ok_or (rejected ''compact store disagrees with its physical generation'')
         (physical_generation (physical_content E) (store_backend (gc_store prepared)))) (\<lambda>g.
       Inr (prepared, Some g)))
     else bindR (map_err Rejected (prepare_gc E (physical_content E) s)) (\<lambda>prepared. Inr (prepared, None)))"

definition gc_quiescent ::
  "env \<Rightarrow> (byte list \<Rightarrow> Json option) \<Rightarrow> LockAnswer \<Rightarrow> DirEntry list option \<Rightarrow> WritableHistoryAuthority \<Rightarrow>
   (DurableError + GcSummary) \<times> WritableHistoryAuthority" where
  "gc_quiescent E J hot_lock listing a =
    (let s = lend (nd_dir (wa_dir a)) (wa_store a) in
     if poisoned s then (Inl RecoveryRequired, a)
     else (case prepare_compaction E s of
       Inl e \<Rightarrow> (Inl e, with_dir (settle (content_generation_of s + 1) (preparation_left E s (nd_dir (wa_dir a))) (wa_dir a)) a)
     | Inr (prepared, physical) \<Rightarrow>
       let d0 = settle (content_generation_of s + 1) (lent_dir (nd_dir (wa_dir a)) (gc_store prepared)) (wa_dir a) in
       (case stage_sealed_generation E J (gc_store prepared) d0 of
          (Inl e, d) \<Rightarrow> (Inl e, with_dir d a)
        | (Inr staged, d) \<Rightarrow> (case open_hot E hot_lock (history_wal_filename (st_generation staged)) d of
            (Inl e, d) \<Rightarrow> (Inl e, with_dir d a)
          | (Inr next_hot, d) \<Rightarrow> (case commit_staged_manifest staged d of
              (Inl (poison, e), d) \<Rightarrow>
                (Inl e, with_dir d (if poison then a\<lparr>wa_store := set_poisoned (wa_store a)\<rparr> else a))
            | (Inr _, d) \<Rightarrow>
                let a = adopt_generation next_hot staged (a\<lparr>wa_store := apply_prepared_gc prepared (wa_store a)\<rparr>);
                    d = snd (recycle_superseded_hot (st_previous staged) d) in
                (case cleanup_superseded_generations listing (st_generation staged) physical d of (complete, d) \<Rightarrow>
                  (Inr \<lparr>gcs_generation = st_generation staged, gcs_represented_wal_end = st_represented_wal_end staged,
                     gcs_snapshot_len = st_snapshot_len staged, gcs_stats = gc_stats prepared,
                     gcs_cleanup_complete = complete\<rparr>, with_dir d a)))))))"

end
