(* ===== verification/History_Log_Codec.thy ===== *)
theory History_Log_Codec
  imports History_Log
begin

text \<open>
  Correctness of the history log codec: record decoding inverts encoding and accepts no second
  encoding; a complete frame is recognised whatever follows it; a proper prefix of a frame is
  torn; a log scan returns exactly the records of the complete frames.
\<close>

section \<open>Readers\<close>

text \<open>\<open>reads c bs c'\<close>: advancing from \<open>c\<close> to \<open>c'\<close> passes over exactly the bytes \<open>bs\<close>.\<close>

definition reads :: "LogCursor \<Rightarrow> byte list \<Rightarrow> LogCursor \<Rightarrow> bool" where
  "reads c bs c' \<longleftrightarrow> cursor_pos c + length bs < width64 \<and>
     slice_get (cursor_bytes c) (cursor_pos c) (cursor_pos c + length bs) = Some bs \<and>
     c' = c\<lparr>cursor_pos := cursor_pos c + length bs\<rparr>"

lemma cursor_take_iff: "cursor_take n c = Inr (bs, c') \<longleftrightarrow> reads c bs c' \<and> length bs = n"
proof -
  have "cursor_take n c = Inr (bs, c') \<longleftrightarrow> cursor_pos c + n < width64 \<and>
      slice_get (cursor_bytes c) (cursor_pos c) (cursor_pos c + n) = Some bs \<and> c' = c\<lparr>cursor_pos := cursor_pos c + n\<rparr>"
    by (auto simp: cursor_take_def result_iffs checked_iffs)
  also have "\<dots> \<longleftrightarrow> reads c bs c' \<and> length bs = n"
    using slice_get_length [of "cursor_bytes c" "cursor_pos c" "cursor_pos c + n" bs] by (auto simp: reads_def)
  finally show ?thesis .
qed

lemma reads_append: "reads c (xs @ ys) c2 \<longleftrightarrow> (\<exists>c1. reads c xs c1 \<and> reads c1 ys c2)"
proof
  assume r: "reads c (xs @ ys) c2"
  then have s: "slice_get (cursor_bytes c) (cursor_pos c) (cursor_pos c + (length xs + length ys)) = Some (xs @ ys)"
    by (simp add: reads_def)
  from slice_get_slice [OF s, of 0 "length xs"] slice_get_slice [OF s, of "length xs" "length xs + length ys"]
  show "\<exists>c1. reads c xs c1 \<and> reads c1 ys c2"
    using r by (auto simp: reads_def add.assoc)
next
  assume "\<exists>c1. reads c xs c1 \<and> reads c1 ys c2"
  then obtain c1 where c: "reads c xs c1" "reads c1 ys c2"
    by blast
  let ?b = "cursor_bytes c" and ?p = "cursor_pos c"
  have x: "xs = take (length xs) (drop ?p ?b)" and y: "ys = take (length ys) (drop (?p + length xs) ?b)"
    and le: "?p + length xs + length ys \<le> length ?b"
    using c by (auto simp: reads_def slice_get_Some_iff)
  have "take (length xs + length ys) (drop ?p ?b) = xs @ ys"
    using x y by (simp add: take_add add.commute)
  then show "reads c (xs @ ys) c2"
    using c le by (auto simp: reads_def slice_get_Some_iff add.assoc)
qed

definition cursor_ok :: "LogCursor \<Rightarrow> bool" where
  "cursor_ok c \<longleftrightarrow> cursor_pos c < width64 \<and> cursor_pos c \<le> length (cursor_bytes c)"

lemma reads_Nil: "cursor_ok c \<Longrightarrow> reads c [] c' \<longleftrightarrow> c' = c"
  by (auto simp: reads_def slice_get_def cursor_ok_def)

lemma reads_ok: "reads c bs c' \<Longrightarrow> cursor_ok c'"
  by (auto simp: reads_def slice_get_Some_iff cursor_ok_def)

text \<open>
  \<open>codec m R\<close>: the reader \<open>m\<close> returns \<open>x\<close> exactly by passing over some \<open>bs\<close> with \<open>R x bs\<close>.
\<close>

definition codec :: "'a reader \<Rightarrow> ('a \<Rightarrow> byte list \<Rightarrow> bool) \<Rightarrow> bool" where
  "codec m R \<longleftrightarrow> (\<forall>c x c'. cursor_ok c \<longrightarrow> m c = Inr (x, c') \<longleftrightarrow> (\<exists>bs. R x bs \<and> reads c bs c'))"

named_theorems codec_intros

lemma codec_iff: "codec m R \<Longrightarrow> cursor_ok c \<Longrightarrow> m c = Inr (x, c') \<longleftrightarrow> (\<exists>bs. R x bs \<and> reads c bs c')"
  unfolding codec_def by blast

lemma codec_cong: "codec m R \<Longrightarrow> (\<And>x bs. R x bs = S x bs) \<Longrightarrow> codec m S"
  by (simp add: codec_def)

lemma codec_ret [codec_intros]: "codec (retC x) (\<lambda>y bs. y = x \<and> bs = [])"
  by (auto simp: codec_def retC_def reads_Nil)

lemma codec_fail [codec_intros]: "codec (failC e) (\<lambda>y bs. False)"
  by (simp add: codec_def failC_def)

lemma codec_bind [codec_intros]:
  assumes m: "codec m R" and k: "\<And>x. codec (k x) (S x)"
  shows "codec (bindC m k) (\<lambda>y bs. \<exists>x b1 b2. bs = b1 @ b2 \<and> R x b1 \<and> S x y b2)"
  unfolding codec_def
proof (intro allI impI)
  fix c y c'
  assume ok: "cursor_ok c"
  have "bindC m k c = Inr (y, c') \<longleftrightarrow> (\<exists>x c1. m c = Inr (x, c1) \<and> k x c1 = Inr (y, c'))"
    by (cases "m c") (auto simp: bindC_def)
  also have "\<dots> \<longleftrightarrow> (\<exists>x b1 c1. R x b1 \<and> reads c b1 c1 \<and> k x c1 = Inr (y, c'))"
    unfolding codec_iff [OF m ok] by blast
  also have "\<dots> \<longleftrightarrow> (\<exists>x b1 c1. R x b1 \<and> reads c b1 c1 \<and> (\<exists>b2. S x y b2 \<and> reads c1 b2 c'))"
    using codec_iff [OF k reads_ok] by (intro ex_cong1 conj_cong refl) blast
  also have "\<dots> \<longleftrightarrow> (\<exists>bs. (\<exists>x b1 b2. bs = b1 @ b2 \<and> R x b1 \<and> S x y b2) \<and> reads c bs c')"
    unfolding reads_append [symmetric] by (metis reads_append)
  finally show "bindC m k c = Inr (y, c') \<longleftrightarrow> (\<exists>bs. (\<exists>x b1 b2. bs = b1 @ b2 \<and> R x b1 \<and> S x y b2) \<and> reads c bs c')" .
qed

lemma codec_if [codec_intros]:
  "codec m R \<Longrightarrow> codec n S \<Longrightarrow> codec (if b then m else n) (\<lambda>x bs. b \<and> R x bs \<or> \<not> b \<and> S x bs)"
  by (simp add: codec_def)

lemma codec_take [codec_intros]: "codec (cursor_take n) (\<lambda>x bs. x = bs \<and> length bs = n)"
  by (auto simp: codec_def cursor_take_iff)

lemma codec_u64 [codec_intros]: "codec take_u64 (\<lambda>v bs. v < width64 \<and> bs = le_bytes 8 v)"
  unfolding take_u64_def
  by (rule codec_cong, (rule codec_intros)+) (auto simp: le_nat_width simp del: le_bytes.simps)

lemma codec_byte [codec_intros]: "codec take_byte (\<lambda>b bs. bs = [b])"
  unfolding take_byte_def by (rule codec_cong, (rule codec_intros)+) (auto simp: length_Suc_conv)

lemma codec_bytes [codec_intros]: "codec (take_bytes n) (\<lambda>x bs. n < width64 \<and> x = bs \<and> length bs = n)"
  by (auto simp: codec_def take_bytes_def try_from_def failC_def cursor_take_iff)

lemma codec_array [codec_intros]: "codec (take_array n) (\<lambda>x bs. x = bs \<and> length bs = n)"
  unfolding take_array_def by (rule codec_take)

section \<open>Canonical records\<close>

definition optional_ok :: "usize \<Rightarrow> byte list option \<Rightarrow> bool" where
  "optional_ok n x \<longleftrightarrow> (case x of None \<Rightarrow> True | Some bytes \<Rightarrow> bytes \<noteq> [] \<and> length bytes \<le> n)"

definition placement_ok :: "PhysicalPlacement option \<Rightarrow> bool" where
  "placement_ok x \<longleftrightarrow> (case x of None \<Rightarrow> True | Some pl \<Rightarrow>
     pp_generation pl < width64 \<and> pp_payload_start pl < width64 \<and> pp_payload_end pl < width64 \<and>
     pp_node_start pl < width64 \<and> pp_node_end pl < width64 \<and> length (pp_delta_digest pl) = 32 \<and>
     length (pp_result_root pl) = V2_ROOT_RECORD_SIZE)"

text \<open>The values a record can hold on the wire: the Rust types plus the limits of its guards.\<close>

fun record_ok :: "HistoryLogRecord \<Rightarrow> bool" where
  "record_ok (CreateHistory history binding) \<longleftrightarrow>
     history < width64 \<and> optional_ok MAX_HISTORY_BINDING_BYTES binding"
| "record_ok (Splice history vid parent off delete_len ins request_id binding dg physical) \<longleftrightarrow>
     history < width64 \<and> vid < width64 \<and> (case parent of None \<Rightarrow> True | Some p \<Rightarrow> p < NO_PARENT) \<and>
     off < width64 \<and> delete_len < width64 \<and> length ins < width64 \<and>
     optional_ok MAX_HISTORY_REQUEST_ID_BYTES request_id \<and> optional_ok MAX_HISTORY_BINDING_BYTES binding \<and>
     length dg = 32 \<and> placement_ok physical"
| "record_ok (Fork history vid parent request_id binding dg) \<longleftrightarrow>
     history < width64 \<and> vid < width64 \<and> parent < width64 \<and>
     optional_ok MAX_HISTORY_REQUEST_ID_BYTES request_id \<and> optional_ok MAX_HISTORY_BINDING_BYTES binding \<and> length dg = 32"
| "record_ok (ExpireVersion history vid) \<longleftrightarrow> history < width64 \<and> vid < width64"
| "record_ok (Retire request_id dg) \<longleftrightarrow>
     request_id \<noteq> [] \<and> length request_id \<le> MAX_HISTORY_REQUEST_ID_BYTES \<and> length dg = 32"

lemma small_bytes:
  "n \<le> MAX_HISTORY_REQUEST_ID_BYTES \<Longrightarrow> n < width64" "n \<le> MAX_HISTORY_BINDING_BYTES \<Longrightarrow> n < width64"
  "n \<le> MAX_HISTORY_BINDING_BYTES \<Longrightarrow> n + 1 < width64" "n \<le> MAX_HISTORY_BINDING_BYTES \<Longrightarrow> Suc n < width64"
  by (simp_all add: MAX_HISTORY_REQUEST_ID_BYTES_def MAX_HISTORY_BINDING_BYTES_def width64_def)

lemmas ex_distribs = conj_disj_distribL conj_disj_distribR ex_disj_distrib

lemma codec_request [codec_intros]:
  "codec decode_request (\<lambda>x bs. optional_ok MAX_HISTORY_REQUEST_ID_BYTES x \<and> encode_request x = Inr bs)"
  unfolding decode_request_def
  apply (rule codec_cong, (rule codec_intros)+)
  subgoal for x bs
    by (cases x) (auto simp: ex_distribs encode_request_def optional_ok_def width64_def
        MAX_HISTORY_REQUEST_ID_BYTES_def simp del: le_bytes.simps)
  done

lemma checked_sub_case:
  "(case checked_sub n 1 of None \<Rightarrow> a | Some l \<Rightarrow> f l) = (if n = 0 then a else f (n - 1))"
  by (simp add: checked_sub_def)

lemma codec_binding [codec_intros]:
  "codec decode_optional_binding (\<lambda>x bs. optional_ok MAX_HISTORY_BINDING_BYTES x \<and> encode_binding x = Inr bs)"
  unfolding decode_optional_binding_def checked_sub_case
  apply (rule codec_cong, (rule codec_intros)+)
  subgoal for x bs
  proof (cases x)
    case None
    then show ?thesis
      by (auto simp: ex_distribs encode_binding_def optional_ok_def width64_def simp del: le_bytes.simps)
  next
    case (Some y)
    then show ?thesis
      by (auto simp: ex_distribs encode_binding_def optional_ok_def small_bytes simp del: le_bytes.simps
          intro!: exI [of _ "Suc (length y)"])
  qed
  done

lemma codec_placement [codec_intros]:
  "codec decode_placement (\<lambda>x bs. placement_ok x \<and> bs = encode_placement x)"
  unfolding decode_placement_def
  apply (rule codec_cong, (rule codec_intros)+)
  subgoal for x bs
    by (cases x; cases "the x") (auto simp: ex_distribs placement_ok_def encode_placement_def simp del: le_bytes.simps)
  done

section \<open>Records\<close>

lemma codec_create:
  "codec decode_create (\<lambda>rec bs. (\<exists>h b. rec = CreateHistory h b) \<and> record_ok rec \<and>
     encode_record_body rec = Inr (RECORD_CREATE_HISTORY # bs))"
  unfolding decode_create_def
  apply (rule codec_cong, (rule codec_intros)+)
  subgoal for x bs
    by (cases x) (auto simp: result_iffs simp del: le_bytes.simps)
  done

lemma parent_code:
  "None = (if v = NO_PARENT then None else Some v) \<longleftrightarrow> v = NO_PARENT"
  "Some q = (if v = NO_PARENT then None else Some v) \<longleftrightarrow> v = q \<and> q \<noteq> NO_PARENT"
  "q < NO_PARENT \<longleftrightarrow> q < width64 \<and> q \<noteq> NO_PARENT" "NO_PARENT < width64"
  by (auto simp: NO_PARENT_def width64_def)

lemma codec_splice:
  "codec decode_splice (\<lambda>rec bs. (\<exists>h v p a d i r b g l. rec = Splice h v p a d i r b g l) \<and> record_ok rec \<and>
     encode_record_body rec = Inr (RECORD_SPLICE # bs))"
  unfolding decode_splice_def
  apply (rule codec_cong, (rule codec_intros)+)
  subgoal for x bs
  proof (cases x)
    case (Splice h v p a d i r b g l)
    show ?thesis
      unfolding Splice
      by (cases p) (auto simp: result_iffs put_bytes_def parent_code simp del: le_bytes.simps if_split)
  qed auto
  done

lemma codec_fork:
  "codec decode_fork (\<lambda>rec bs. (\<exists>h v p r b g. rec = Fork h v p r b g) \<and> record_ok rec \<and>
     encode_record_body rec = Inr (RECORD_FORK # bs))"
  unfolding decode_fork_def
  apply (rule codec_cong, (rule codec_intros)+)
  subgoal for x bs
    by (cases x) (auto simp: result_iffs simp del: le_bytes.simps)
  done

lemma codec_expire:
  "codec decode_expire (\<lambda>rec bs. (\<exists>h v. rec = ExpireVersion h v) \<and> record_ok rec \<and>
     encode_record_body rec = Inr (RECORD_EXPIRE_VERSION # bs))"
  unfolding decode_expire_def
  apply (rule codec_cong, (rule codec_intros)+)
  subgoal for x bs
    by (cases x) (auto simp: result_iffs simp del: le_bytes.simps)
  done

lemma codec_retire:
  "codec decode_retire (\<lambda>rec bs. (\<exists>r g. rec = Retire r g) \<and> record_ok rec \<and>
     encode_record_body rec = Inr (RECORD_RETIRE # bs))"
  unfolding decode_retire_def
  apply (rule codec_cong, (rule codec_intros)+)
  subgoal for x bs
    by (cases x) (auto simp: ex_distribs small_bytes not_less simp del: le_bytes.simps)
  done

lemmas record_kinds = RECORD_CREATE_HISTORY_def RECORD_SPLICE_def RECORD_FORK_def RECORD_EXPIRE_VERSION_def
  RECORD_RETIRE_def

lemma codec_record:
  "codec (bindC take_byte (\<lambda>kind.
       if kind = RECORD_CREATE_HISTORY then decode_create
       else if kind = RECORD_SPLICE then decode_splice
       else if kind = RECORD_FORK then decode_fork
       else if kind = RECORD_EXPIRE_VERSION then decode_expire
       else if kind = RECORD_RETIRE then decode_retire
       else failC (HistoryError.Invalid ''history log record kind is unsupported'')))
    (\<lambda>rec bs. record_ok rec \<and> encode_record_body rec = Inr bs)"
  apply (rule codec_cong, (rule codec_intros codec_create codec_splice codec_fork codec_expire codec_retire)+)
  subgoal for x bs
    by (cases x) (auto simp: ex_distribs record_kinds result_iffs simp del: le_bytes.simps)
  done

lemma decode_record_iff:
  "decode_history_log_record bs = Inr rec \<longleftrightarrow>
     record_ok rec \<and> encode_record_body rec = Inr bs \<and> length bs < width64"
proof -
  have ok: "cursor_ok \<lparr>cursor_bytes = bs, cursor_pos = 0\<rparr>"
    by (simp add: cursor_ok_def width64_def)
  have all: "reads \<lparr>cursor_bytes = bs, cursor_pos = 0\<rparr> xs c \<and> cursor_pos c = length bs \<longleftrightarrow>
      xs = bs \<and> length bs < width64 \<and> c = \<lparr>cursor_bytes = bs, cursor_pos = length bs\<rparr>" for xs c
    by (auto simp: reads_def slice_get_def)
  show ?thesis
  proof -
    have "decode_history_log_record bs = Inr rec \<longleftrightarrow> (\<exists>c xs. record_ok rec \<and> encode_record_body rec = Inr xs \<and>
        reads \<lparr>cursor_bytes = bs, cursor_pos = 0\<rparr> xs c \<and> cursor_pos c = length bs)"
      unfolding decode_history_log_record_def bindR_Inr_iff split_paired_Ex prod.case codec_iff [OF codec_record ok]
      by (simp split: if_split) blast
    then show ?thesis
      unfolding all by blast
  qed
qed

lemma checked_sum_iff: "checked_sum acc ns = Inr n \<longleftrightarrow> n = acc + sum_list ns \<and> (ns = [] \<or> acc + sum_list ns < width64)"
proof (induction ns arbitrary: acc)
  case (Cons k ns)
  have "checked_sum acc (k # ns) = Inr n \<longleftrightarrow> acc + k < width64 \<and> checked_sum (acc + k) ns = Inr n"
    by (simp add: checked_add_def)
  then show ?case
    unfolding Cons.IH by (cases "ns = []") auto
qed auto

lemma encode_request_length: "encode_request x = Inr bs \<Longrightarrow> length bs = 8 + optional_len x"
  by (cases x) (auto simp: encode_request_def optional_len_def split: if_splits)

lemma encode_binding_length: "encode_binding x = Inr bs \<Longrightarrow> length bs = 8 + optional_len x"
  by (cases x) (auto simp: encode_binding_def optional_len_def split: if_splits)

lemma encode_placement_length:
  "placement_ok x \<Longrightarrow> length (encode_placement x) =
     (if x \<noteq> None then 1 + 8 + 8 + 8 + 8 + 8 + 32 + V2_ROOT_RECORD_SIZE else 1)"
  by (cases x) (auto simp: encode_placement_def placement_ok_def)

lemma encoded_record_len_exact:
  assumes "record_ok rec" "encode_record_body rec = Inr bs"
  shows "encoded_record_len rec = Inr n \<longleftrightarrow> n = length bs \<and> length bs < width64"
  using assms
  by (cases rec)
    (auto simp: checked_sum_iff result_iffs put_bytes_def encode_placement_length simp del: checked_sum.simps
      dest!: encode_request_length encode_binding_length)

lemma encode_record_iff:
  assumes "record_ok rec"
  shows "encode_history_log_record E rec = Inr bs \<longleftrightarrow> encode_record_body rec = Inr bs \<and> length bs < width64 \<and>
    try_reserve E ''history log record allocation failed'' (length bs)"
proof (cases "encode_record_body rec = Inr bs")
  case True
  show ?thesis
    unfolding encode_history_log_record_def bindR_Inr_iff encoded_record_len_exact [OF assms True]
    by (auto simp: reserve_def True)
qed (auto simp: encode_history_log_record_def result_iffs)

section \<open>Frames\<close>

definition frame_of :: "env \<Rightarrow> byte list \<Rightarrow> byte list" where
  "frame_of E body = frame_head body @ frame_digest E (frame_head body)"

lemma frame_sizes: "HISTORY_LOG_FOOTER_SIZE = 44" "length HISTORY_LOG_MAGIC = 4"
  "length HISTORY_LOG_FOOTER_MAGIC = 4" "HISTORY_LOG_HEADER_SIZE = 12"
  by (simp_all add: HISTORY_LOG_HEADER_SIZE_def HISTORY_LOG_FOOTER_SIZE_def HISTORY_LOG_MAGIC_def
      HISTORY_LOG_FOOTER_MAGIC_def)

lemma encode_frame_iff:
  "encode_history_log_frame E body = Inr bs \<longleftrightarrow> length body + 56 < width64 \<and>
     try_reserve E ''history log frame allocation failed'' (length body + 56) \<and> bs = frame_of E body"
  by (auto simp: encode_history_log_frame_def result_iffs checked_iffs reserve_def frame_sizes frame_of_def
      split: if_splits)

lemma length_frame_head: "length (frame_head body) = length body + 24"
  by (simp add: frame_head_def frame_sizes)

lemma length_frame_of: "sha_ok E \<Longrightarrow> length (frame_of E body) = length body + 56"
  by (simp add: frame_of_def length_frame_head frame_digest_def)

text \<open>The fields of a frame, read at their offsets.\<close>

lemma frame_slices:
  assumes "sha_ok E"
  shows "take 4 (frame_of E body) = HISTORY_LOG_MAGIC"
    "take 8 (drop 4 (frame_of E body)) = le_bytes 8 (length body)"
    "take (length body) (drop 12 (frame_of E body)) = body"
    "take 44 (drop (12 + length body) (frame_of E body)) = HISTORY_LOG_FOOTER_MAGIC @ le_bytes 8 (length body + 56) @
       frame_digest E (frame_head body)"
    "take (24 + length body) (frame_of E body) = frame_head body"
  using assms
  by (simp_all add: frame_of_def frame_head_def frame_sizes frame_digest_def drop_append take_append del: le_bytes.simps)

lemma probe_frame:
  assumes "sha_ok E" "length body + 56 < width64"
  shows "probe_history_log_frame E (frame_of E body @ rest) = Inr (Complete body (length body + 56))"
proof -
  let ?f = "frame_of E body"
  have len: "length ?f = length body + 56"
    using length_frame_of [OF assms(1)] .
  have slice: "slice_get (?f @ rest) a b = Some (take (b - a) (drop a ?f))" if "a \<le> b" "b \<le> length body + 56" for a b
    using that len by (simp add: slice_get_def)
  have field: "take 8 (drop 4 (?f @ rest)) = le_bytes 8 (length body)"
    using frame_slices(2) [OF assms(1)] len by (simp del: le_bytes.simps)
  have dg: "length (frame_digest E (frame_head body)) = 32"
    using assms(1) by (simp add: frame_digest_def)
  note fs = frame_slices [OF assms(1)]
  have footer: "probe_footer E (?f @ rest) (length body) = Inr (Complete body (length body + 56))"
    using assms(2) dg
    by (simp add: probe_footer_def frame_sizes slice fs slice_get_def [of "HISTORY_LOG_FOOTER_MAGIC @ _"] Let_def
        del: le_bytes.simps)
  show ?thesis
    using assms(2) len footer field
    by (simp add: probe_history_log_frame_def frame_sizes slice fs try_from_def checked_add_def del: le_bytes.simps)
qed

lemma probe_torn:
  assumes "sha_ok E" "length body + 56 < width64" "n < length body + 56"
  shows "probe_history_log_frame E (take n (frame_of E body)) = Inr Torn"
proof -
  let ?f = "frame_of E body"
  have len: "length (take n ?f) = n"
    using length_frame_of [OF assms(1)] assms(3) by simp
  have "4 \<le> n \<Longrightarrow> slice_get (take n ?f) 0 4 = Some HISTORY_LOG_MAGIC"
    using len frame_slices(1) [OF assms(1), of body] by (simp add: slice_get_def min_def)
  moreover have "12 \<le> n \<Longrightarrow> take 8 (drop 4 (take n ?f)) = le_bytes 8 (length body)"
  proof -
    assume "12 \<le> n"
    then have "min 8 (n - 4) = 8"
      by simp
    then show ?thesis
      using frame_slices(2) [OF assms(1), of body] by (simp add: drop_take del: le_bytes.simps)
  qed
  ultimately show ?thesis
    using assms(2,3) len
    by (auto simp: probe_history_log_frame_def frame_sizes try_from_def checked_add_def simp del: le_bytes.simps)
qed

section \<open>Logs\<close>

definition frame_ok :: "HistoryLogRecord \<Rightarrow> byte list \<Rightarrow> bool" where
  "frame_ok rec body \<longleftrightarrow> decode_history_log_record body = Inr rec \<and> length body + 56 < width64"

definition log_of :: "env \<Rightarrow> byte list list \<Rightarrow> byte list" where
  "log_of E bodies = concat (map (frame_of E) bodies)"

lemma log_of_simps [simp]:
  "log_of E [] = []" "log_of E (b # bs) = frame_of E b @ log_of E bs" "log_of E (bs @ bs') = log_of E bs @ log_of E bs'"
  by (simp_all add: log_of_def)

lemma scan_frames_log:
  assumes sha: "sha_ok E" and room: "try_reserve E ''history log recovery allocation failed'' 1"
    and "list_all2 frame_ok recs bodies" "length (pre @ log_of E bodies @ tail) < width64"
    and torn: "tail = [] \<or> probe_history_log_frame E tail = Inr Torn"
  shows "scan_frames E (pre @ log_of E bodies @ tail) acc (length pre) =
    Inr (acc @ recs, length (pre @ log_of E bodies))"
  using assms(3,4)
proof (induction recs bodies arbitrary: acc pre rule: list_all2_induct)
  case Nil
  then show ?case
    using torn by (subst scan_frames.simps) auto
next
  case (Cons rec recs body bodies)
  let ?f = "frame_of E body"
  have body: "decode_history_log_record body = Inr rec" "length body + 56 < width64"
    using Cons.hyps(1) by (simp_all add: frame_ok_def)
  have len: "length ?f = length body + 56"
    using length_frame_of [OF sha] .
  have "scan_frames E ((pre @ ?f) @ log_of E bodies @ tail) (acc @ [rec]) (length (pre @ ?f)) =
      Inr ((acc @ [rec]) @ recs, length ((pre @ ?f) @ log_of E bodies))"
    using Cons.prems by (intro Cons.IH) simp
  then show ?case
    using Cons.prems room body len probe_frame [OF sha body(2), of "log_of E bodies @ tail"]
    by (subst scan_frames.simps) (simp add: reserve_def checked_add_def)
qed

lemma decode_log:
  assumes "sha_ok E" "try_reserve E ''history log recovery allocation failed'' 1" "list_all2 frame_ok recs bodies"
    "length (log_of E bodies @ tail) < width64" "tail = [] \<or> probe_history_log_frame E tail = Inr Torn"
  shows "decode_history_log E (log_of E bodies @ tail) = Inr (recs, length (log_of E bodies))"
  using scan_frames_log [OF assms(1-3) _ assms(5), of "[]" "[]"] assms(4)
  by (simp add: decode_history_log_def try_from_def)

section \<open>Properties\<close>

text \<open>A record as it stands in the log: encoded and framed.\<close>

definition logged :: "env \<Rightarrow> HistoryLogRecord \<Rightarrow> byte list \<Rightarrow> bool" where
  "logged E rec frame \<longleftrightarrow> record_ok rec \<and>
     (\<exists>body. encode_history_log_record E rec = Inr body \<and> encode_history_log_frame E body = Inr frame)"

lemma logged_frame: "logged E rec frame \<longleftrightarrow> (\<exists>body. frame = frame_of E body \<and> frame_ok rec body \<and>
    try_reserve E ''history log record allocation failed'' (length body) \<and>
    try_reserve E ''history log frame allocation failed'' (length body + 56))"
  by (auto simp: logged_def frame_ok_def decode_record_iff encode_record_iff encode_frame_iff)

lemma logged_bodies:
  assumes "list_all2 (logged E) recs frames"
  obtains bodies where "concat frames = log_of E bodies" "list_all2 frame_ok recs bodies"
proof -
  have "\<exists>bodies. concat frames = log_of E bodies \<and> list_all2 frame_ok recs bodies"
    using assms
  proof (induction rule: list_all2_induct)
    case (Cons rec recs frame frames)
    then obtain bodies body where "concat frames = log_of E bodies" "list_all2 frame_ok recs bodies"
      "frame = frame_of E body" "frame_ok rec body"
      by (auto simp: logged_frame)
    then show ?case
      by (intro exI [of _ "body # bodies"]) simp
  qed (auto intro: exI [of _ "[]"])
  then show thesis
    using that by blast
qed

lemma sample_encoding:
  "encode_history_log_record sample_env (ExpireVersion 1 2) = Inr [6, 1, 0, 0, 0, 0, 0, 0, 0, 2, 0, 0, 0, 0, 0, 0, 0]"
proof -
  have eight: "(8 :: nat) = Suc (Suc (Suc (Suc (Suc (Suc (Suc (Suc 0)))))))"
    by simp
  have le: "le_bytes 8 1 = [1, 0, 0, 0, 0, 0, 0, 0]" "le_bytes 8 2 = [2, 0, 0, 0, 0, 0, 0, 0]"
    unfolding eight le_bytes.simps by simp_all
  have ok: "record_ok (ExpireVersion 1 2)"
    by (simp add: width64_def)
  show ?thesis
    unfolding encode_record_iff [OF ok] by (simp add: le [simplified] RECORD_EXPIRE_VERSION_def sample_env_def width64_def)
qed

text \<open>
  C22.  The record codec is a bijection.  When the allocator grants the reservation, a body decodes
  to a record exactly when the record's fields are in range and it encodes to that body; in
  particular no record has two encodings.
\<close>

theorem log_record_codec_bijective:
  assumes "try_reserve E ''history log record allocation failed'' (length bs)"
  shows "decode_history_log_record bs = Inr rec \<longleftrightarrow> record_ok rec \<and> encode_history_log_record E rec = Inr bs"
  using assms encode_record_iff [of rec E bs] by (auto simp: decode_record_iff)

theorem log_record_codec_bijective_witness:
  "decode_history_log_record [6, 1, 0, 0, 0, 0, 0, 0, 0, 2, 0, 0, 0, 0, 0, 0, 0] = Inr (ExpireVersion 1 2)"
proof -
  show ?thesis
    using sample_encoding
    by (subst log_record_codec_bijective [of sample_env]) (simp_all add: sample_env_def width64_def)
qed

lemma decode_torn_log:
  assumes "sha_ok E" and "try_reserve E ''history log recovery allocation failed'' 1"
    and "list_all2 (logged E) recs frames" and "logged E rec frame" and "n < length frame"
    and "length (concat frames @ take n frame) < width64"
  shows "decode_history_log E (concat frames @ take n frame) = Inr (recs, length (concat frames))"
proof -
  obtain bodies where b: "concat frames = log_of E bodies" "list_all2 frame_ok recs bodies"
    by (rule logged_bodies [OF assms(3)])
  obtain body where f: "frame = frame_of E body" "length body + 56 < width64"
    using assms(4) by (auto simp: logged_frame frame_ok_def)
  have "probe_history_log_frame E (take n frame) = Inr Torn"
    using probe_torn [OF assms(1) f(2)] assms(5) length_frame_of [OF assms(1)] by (simp add: f(1))
  with decode_log [OF assms(1,2) b(2)] assms(6) show ?thesis
    by (simp add: b(1))
qed

text \<open>
  C23.  A torn tail is ignored and nothing else is.  Scanning complete frames followed by a proper
  prefix of a further frame returns exactly the records of the complete frames and the offset at
  which the torn frame starts.
\<close>

theorem log_scan_torn_tail:
  assumes "sha_ok E" and "try_reserve E ''history log recovery allocation failed'' 1"
    and "list_all2 (logged E) recs frames" and "logged E rec frame" and "n < length frame"
    and "length (concat frames @ frame) < width64"
  shows "decode_history_log E (concat frames @ take n frame) = Inr (recs, length (concat frames))"
  using decode_torn_log [OF assms(1-5)] assms(5,6) by simp

lemma sample_logged: "\<exists>frame. logged sample_env (ExpireVersion 1 2) frame \<and> length frame = 73"
proof -
  show ?thesis
    using sample_encoding length_frame_of [OF sample_env_ok]
    by (auto simp: logged_def encode_frame_iff width64_def sample_env_def)
qed

theorem log_scan_torn_tail_witness:
  "\<exists>frame. length frame = 73 \<and>
     decode_history_log sample_env (frame @ take 72 frame) = Inr ([ExpireVersion 1 2], 73)"
proof -
  obtain frame where f: "logged sample_env (ExpireVersion 1 2) frame" "length frame = 73"
    using sample_logged by blast
  have "decode_history_log sample_env (concat [frame] @ take 72 frame) =
      Inr ([ExpireVersion 1 2], length (concat [frame]))"
    using f by (intro log_scan_torn_tail [OF sample_env_ok _ _ f(1)]) (simp_all add: sample_env_def width64_def)
  with f(2) show ?thesis
    by auto
qed

end
