(* ===== verification/History_Snapshot_Codec.thy ===== *)
theory History_Snapshot_Codec
  imports History_Snapshot History_Log_Codec
begin

text \<open>
  Correctness of the snapshot codec: the decoder accepts exactly the images of well-formed snapshots,
  so every accepted artifact has one encoding, the one the encoder produces.
\<close>

section \<open>Readers\<close>

lemma snap_take_iff: "snap_take n c = Inr (bs, c') \<longleftrightarrow> cursor_take n c = Inr (bs, c')"
  by (simp add: snap_take_def cursor_take_def result_iffs)

lemma codec_snap_take [codec_intros]: "codec (snap_take n) (\<lambda>x bs. x = bs \<and> length bs = n)"
  by (simp add: codec_def snap_take_iff cursor_take_iff) blast

lemma codec_snap_array [codec_intros]: "codec (snap_take_array n) (\<lambda>x bs. x = bs \<and> length bs = n)"
  unfolding snap_take_array_def by (rule codec_snap_take)

lemma codec_snap_u64 [codec_intros]: "codec snap_take_u64 (\<lambda>v bs. v < width64 \<and> bs = le_bytes 8 v)"
  unfolding snap_take_u64_def
  by (rule codec_cong, (rule codec_intros)+) (auto simp: le_nat_width simp del: le_bytes.simps)

lemma codec_snap_u32 [codec_intros]: "codec snap_take_u32 (\<lambda>v bs. v < 2 ^ 32 \<and> bs = le_bytes 4 v)"
  unfolding snap_take_u32_def
  apply (rule codec_cong, (rule codec_intros)+)
  subgoal for v bs
    using le_nat_bound [of bs] by (auto simp del: le_bytes.simps)
  done

lemma codec_snap_bytes [codec_intros]: "codec (snap_take_bytes n) (\<lambda>x bs. n < width64 \<and> x = bs \<and> length bs = n)"
  by (auto simp: codec_def snap_take_bytes_def try_from_def failC_def snap_take_iff cursor_take_iff)

lemma codec_guard [codec_intros]: "codec (guardC r) (\<lambda>_ bs. r = Inr () \<and> bs = [])"
  by (auto simp: codec_def guardC_def result_iffs reads_Nil)

lemma codec_lift [codec_intros]: "codec (liftC r) (\<lambda>x bs. r = Inr x \<and> bs = [])"
  by (auto simp: codec_def liftC_def result_iffs reads_Nil)

text \<open>
  A bounded count is a plain integer wherever what follows takes at least one byte per entry: the
  bound then refuses only what could not have been read anyway.
\<close>

lemma codec_bounded:
  assumes k: "\<And>n. codec (k n) (S n)" and enough: "\<And>n y bs. n < width64 \<Longrightarrow> S n y bs \<Longrightarrow> n \<le> length bs"
  shows "codec (bindC (bounded_count m) k) (\<lambda>y bs. \<exists>n b1 b2. bs = b1 @ b2 \<and> (n < width64 \<and> b1 = le_bytes 8 n) \<and> S n y b2)"
  unfolding codec_def
proof (intro allI impI)
  fix c y c'
  assume ok: "cursor_ok c"
  have count: "bounded_count m c = Inr (n, c1) \<longleftrightarrow>
      n < width64 \<and> reads c (le_bytes 8 n) c1 \<and> n \<le> length (cursor_bytes c1) - cursor_pos c1" for n c1
  proof -
    have "bounded_count m c = Inr (n, c1) \<longleftrightarrow> snap_take_u64 c = Inr (n, c1) \<and> n < width64 \<and>
        cursor_pos c1 \<le> length (cursor_bytes c1) \<and> n \<le> length (cursor_bytes c1) - cursor_pos c1"
      by (cases "snap_take_u64 c") (auto simp: bounded_count_def bindC_def try_from_def checked_sub_def failC_def
          split: if_splits option.splits)
    also have "\<dots> \<longleftrightarrow> n < width64 \<and> reads c (le_bytes 8 n) c1 \<and> n \<le> length (cursor_bytes c1) - cursor_pos c1"
      unfolding codec_iff [OF codec_snap_u64 ok] by (auto dest: reads_ok simp: cursor_ok_def)
    finally show ?thesis .
  qed
  have room: "reads c1 b2 c' \<Longrightarrow> length b2 \<le> length (cursor_bytes c1) - cursor_pos c1" for c1 b2
    by (auto simp: reads_def slice_get_Some_iff)
  have "bindC (bounded_count m) k c = Inr (y, c') \<longleftrightarrow> (\<exists>n c1. bounded_count m c = Inr (n, c1) \<and> k n c1 = Inr (y, c'))"
    by (cases "bounded_count m c") (auto simp: bindC_def)
  also have "\<dots> \<longleftrightarrow> (\<exists>n c1 b2. n < width64 \<and> reads c (le_bytes 8 n) c1 \<and>
      n \<le> length (cursor_bytes c1) - cursor_pos c1 \<and> S n y b2 \<and> reads c1 b2 c')"
    unfolding count using codec_iff [OF k reads_ok] by blast
  also have "\<dots> \<longleftrightarrow> (\<exists>n c1 b2. n < width64 \<and> reads c (le_bytes 8 n) c1 \<and> S n y b2 \<and> reads c1 b2 c')"
    using room enough by (meson order.trans)
  also have "\<dots> \<longleftrightarrow> (\<exists>bs. (\<exists>n b1 b2. bs = b1 @ b2 \<and> (n < width64 \<and> b1 = le_bytes 8 n) \<and> S n y b2) \<and> reads c bs c')"
    by (metis reads_append)
  finally show "bindC (bounded_count m) k c = Inr (y, c') \<longleftrightarrow>
    (\<exists>bs. (\<exists>n b1 b2. bs = b1 @ b2 \<and> (n < width64 \<and> b1 = le_bytes 8 n) \<and> S n y b2) \<and> reads c bs c')" .
qed

lemma codec_each:
  assumes "codec m (\<lambda>x bs. P x \<and> bs = f x)"
  shows "codec (take_each n m) (\<lambda>xs bs. length xs = n \<and> list_all P xs \<and> bs = concat (map f xs))"
proof (induction n)
  case 0
  then show ?case
    unfolding take_each.simps by (rule codec_cong, rule codec_intros) auto
next
  case (Suc n)
  show ?case
    unfolding take_each.simps
    by (rule codec_cong, (rule codec_intros assms Suc.IH)+) (auto simp: length_Suc_conv)
qed

section \<open>Well-formed snapshots and their images\<close>

definition request_id_ok :: "byte list \<Rightarrow> bool" where
  "request_id_ok r \<longleftrightarrow> r \<noteq> [] \<and> length r \<le> MAX_HISTORY_REQUEST_ID_BYTES"

definition request_image :: "byte list \<Rightarrow> byte list" where
  "request_image r = le_bytes 8 (length r) @ r"

definition optional_image :: "byte list option \<Rightarrow> byte list" where
  "optional_image x = (case x of None \<Rightarrow> le_bytes 8 0 | Some b \<Rightarrow> le_bytes 8 (length b + 1) @ b)"

definition parent_image :: "VersionId option \<Rightarrow> byte list" where
  "parent_image p = le_bytes 8 (case p of None \<Rightarrow> NO_PARENT | Some p \<Rightarrow> p)"

definition descriptor_ok :: "byte list \<Rightarrow> bool" where
  "descriptor_ok d \<longleftrightarrow> length d = V2_ROOT_RECORD_SIZE \<and> \<not> isl (decode_canonical_root_bytes d)"

definition parent_ok :: "HistoryId \<Rightarrow> SnapshotVersion list \<Rightarrow> VersionId option \<Rightarrow> bool" where
  "parent_ok h prior p \<longleftrightarrow> (case p of None \<Rightarrow> True | Some p \<Rightarrow>
     p < NO_PARENT \<and> p < length prior \<and> sv_history (prior ! p) = h)"

definition version_ok :: "usize \<Rightarrow> SnapshotVersion list \<Rightarrow> SnapshotVersion \<Rightarrow> bool" where
  "version_ok hcount prior v \<longleftrightarrow> sv_history v < hcount \<and> sv_history v < width64 \<and>
     parent_ok (sv_history v) prior (sv_parent v) \<and>
     optional_ok MAX_HISTORY_BINDING_BYTES (sv_binding v) \<and> 0 < sv_len v \<and> sv_len v < width64 \<and>
     (sv_lifecycle v = Retained \<longrightarrow> sv_root_present v) \<and> sv_root_present v = (sv_root v \<noteq> None) \<and>
     (case sv_root v of None \<Rightarrow> True | Some d \<Rightarrow> descriptor_ok d)"

fun versions_ok :: "usize \<Rightarrow> SnapshotVersion list \<Rightarrow> SnapshotVersion list \<Rightarrow> bool" where
  "versions_ok hcount prior [] \<longleftrightarrow> True"
| "versions_ok hcount prior (v # vs) \<longleftrightarrow> version_ok hcount prior v \<and> versions_ok hcount (prior @ [v]) vs"

definition version_image :: "SnapshotVersion \<Rightarrow> byte list" where
  "version_image v = le_bytes 8 (sv_history v) @ parent_image (sv_parent v) @ optional_image (sv_binding v) @
     [lifecycle_byte (sv_lifecycle v), if sv_root_present v then 1 else 0] @ le_bytes 8 (sv_len v) @
     (case sv_root v of None \<Rightarrow> [] | Some d \<Rightarrow> d)"

definition follows :: "byte list option \<Rightarrow> byte list \<Rightarrow> bool" where
  "follows previous r \<longleftrightarrow> (case previous of None \<Rightarrow> True | Some p \<Rightarrow> p < r)"

fun active_ok :: "usize \<Rightarrow> byte list option \<Rightarrow> SnapshotActive list \<Rightarrow> bool" where
  "active_ok vcount previous [] \<longleftrightarrow> True"
| "active_ok vcount previous (a # as) \<longleftrightarrow> request_id_ok (sa_request_id a) \<and> follows previous (sa_request_id a) \<and>
     length (sa_digest a) = 32 \<and> sa_version a < vcount \<and> sa_version a < width64 \<and>
     active_ok vcount (Some (sa_request_id a)) as"

definition active_image :: "SnapshotActive \<Rightarrow> byte list" where
  "active_image a = request_image (sa_request_id a) @ sa_digest a @ le_bytes 8 (sa_version a)"

fun retired_ok :: "byte list list \<Rightarrow> byte list option \<Rightarrow> SnapshotRetired list \<Rightarrow> bool" where
  "retired_ok active_ids previous [] \<longleftrightarrow> True"
| "retired_ok active_ids previous (a # as) \<longleftrightarrow> request_id_ok (sr_request_id a) \<and> follows previous (sr_request_id a) \<and>
     sr_request_id a \<notin> set active_ids \<and> length (sr_digest a) = 32 \<and> retired_ok active_ids (Some (sr_request_id a)) as"

definition retired_image :: "SnapshotRetired \<Rightarrow> byte list" where
  "retired_image a = request_image (sr_request_id a) @ sr_digest a"

definition body_image :: "HistorySnapshot \<Rightarrow> byte list" where
  "body_image s = concat (map optional_image (snap_history_bindings s)) @ concat (map version_image (snap_versions s)) @
     concat (map active_image (snap_active s)) @ concat (map retired_image (snap_retired s)) @
     concat (map request_image (snap_receipt_order s))"

section \<open>The tables\<close>

lemma codec_snap_request [codec_intros]: "codec snap_take_request_id (\<lambda>x bs. request_id_ok x \<and> bs = request_image x)"
  unfolding snap_take_request_id_def
  by (rule codec_cong, (rule codec_intros)+)
    (auto simp: ex_distribs request_id_ok_def request_image_def small_bytes not_less simp del: le_bytes.simps)

lemma codec_snap_optional [codec_intros]:
  "codec snap_take_optional_bytes (\<lambda>x bs. optional_ok MAX_HISTORY_BINDING_BYTES x \<and> bs = optional_image x)"
  unfolding snap_take_optional_bytes_def checked_sub_case
  apply (rule codec_cong, (rule codec_intros)+)
  subgoal for x bs
  proof (cases x)
    case None
    then show ?thesis
      by (auto simp: ex_distribs optional_image_def optional_ok_def width64_def simp del: le_bytes.simps)
  next
    case (Some y)
    then show ?thesis
      by (auto simp: ex_distribs optional_image_def optional_ok_def small_bytes simp del: le_bytes.simps
          intro!: exI [of _ "Suc (length y)"])
  qed
  done

lemma codec_descriptor [codec_intros]:
  "codec (decode_descriptor present) (\<lambda>x bs. present = (x \<noteq> None) \<and>
     (case x of None \<Rightarrow> bs = [] | Some d \<Rightarrow> descriptor_ok d \<and> bs = d))"
  unfolding decode_descriptor_def
  apply (rule codec_cong, (rule codec_intros)+)
  subgoal for x bs
    by (cases x) (auto simp: descriptor_ok_def map_err_def bindR_def split: sum.splits)
  done

lemma decode_parent_iff:
  "raw < width64 \<and> decode_parent h prior raw = Inr p \<longleftrightarrow>
     raw = (case p of None \<Rightarrow> NO_PARENT | Some p \<Rightarrow> p) \<and> parent_ok h prior p"
  by (cases p) (auto simp: decode_parent_def parent_ok_def parent_code split: if_splits)

lemma decode_lifecycle_iff: "decode_lifecycle bs = Inr l \<longleftrightarrow> bs = [lifecycle_byte l]"
  by (cases l) (auto simp: decode_lifecycle_def lifecycle_byte_def)

lemma decode_presence_iff: "decode_presence bs = Inr b \<longleftrightarrow> bs = [if b then 1 else 0]"
  by (auto simp: decode_presence_def)

lemma codec_converted:
  assumes m: "codec m R" and d: "\<And>p b. (\<exists>raw. R raw b \<and> d raw = Inr p) \<longleftrightarrow> Q p \<and> b = img p"
    and k: "\<And>p. codec (k p) (S p)"
  shows "codec (bindC m (\<lambda>raw. bindC (liftC (d raw)) k)) (\<lambda>y bs. \<exists>p b2. bs = img p @ b2 \<and> Q p \<and> S p y b2)"
proof (rule codec_cong, (rule codec_intros m k)+)
  fix y bs
  have "(\<exists>raw b1 b2. bs = b1 @ b2 \<and> R raw b1 \<and> (\<exists>p c1 c2. b2 = c1 @ c2 \<and> (d raw = Inr p \<and> c1 = []) \<and> S p y c2)) \<longleftrightarrow>
      (\<exists>p b1 b2. bs = b1 @ b2 \<and> (\<exists>raw. R raw b1 \<and> d raw = Inr p) \<and> S p y b2)"
    by simp blast
  then show "(\<exists>raw b1 b2. bs = b1 @ b2 \<and> R raw b1 \<and> (\<exists>p c1 c2. b2 = c1 @ c2 \<and> (d raw = Inr p \<and> c1 = []) \<and> S p y c2)) \<longleftrightarrow>
      (\<exists>p b2. bs = img p @ b2 \<and> Q p \<and> S p y b2)"
    unfolding d by blast
qed

lemma codec_parent:
  assumes k: "\<And>p. codec (k p) (S p)"
  shows "codec (bindC snap_take_u64 (\<lambda>raw. bindC (liftC (decode_parent h prior raw)) k))
    (\<lambda>y bs. \<exists>p b2. bs = parent_image p @ b2 \<and> parent_ok h prior p \<and> S p y b2)"
proof (rule codec_converted [OF codec_snap_u64 _ k])
  fix p b
  have "(\<exists>raw. (raw < width64 \<and> b = le_bytes 8 raw) \<and> decode_parent h prior raw = Inr p) \<longleftrightarrow>
      (\<exists>raw. (raw < width64 \<and> decode_parent h prior raw = Inr p) \<and> b = le_bytes 8 raw)"
    by blast
  then show "(\<exists>raw. (raw < width64 \<and> b = le_bytes 8 raw) \<and> decode_parent h prior raw = Inr p) \<longleftrightarrow>
      parent_ok h prior p \<and> b = parent_image p"
    unfolding decode_parent_iff parent_image_def by (simp del: le_bytes.simps add: conj_commute)
qed

lemma codec_lifecycle:
  assumes k: "\<And>l. codec (k l) (S l)"
  shows "codec (bindC (snap_take 1) (\<lambda>b. bindC (liftC (decode_lifecycle b)) k))
    (\<lambda>y bs. \<exists>l b2. bs = [lifecycle_byte l] @ b2 \<and> True \<and> S l y b2)"
  by (rule codec_converted [OF codec_snap_take _ k]) (auto simp: decode_lifecycle_iff)

lemma codec_presence:
  assumes k: "\<And>p. codec (k p) (S p)"
  shows "codec (bindC (snap_take 1) (\<lambda>b. bindC (liftC (decode_presence b)) k))
    (\<lambda>y bs. \<exists>p b2. bs = [if p then 1 else 0] @ b2 \<and> True \<and> S p y b2)"
  by (rule codec_converted [OF codec_snap_take _ k]) (auto simp: decode_presence_iff)

lemma codec_version:
  "codec (decode_version hcount prior) (\<lambda>v bs. version_ok hcount prior v \<and> bs = version_image v)"
  unfolding decode_version_def
  apply (rule codec_cong, (rule codec_parent codec_lifecycle codec_presence codec_intros)+)
  subgoal for v bs
    by (cases v; cases "sv_root v")
      (auto simp: ex_distribs version_ok_def version_image_def simp del: le_bytes.simps)
  done

lemma codec_versions:
  "codec (decode_versions hcount n prior) (\<lambda>vs bs. \<exists>ws. vs = prior @ ws \<and> length ws = n \<and>
     versions_ok hcount prior ws \<and> bs = concat (map version_image ws))"
proof (induction n arbitrary: prior)
  case 0
  then show ?case
    unfolding decode_versions.simps by (rule codec_cong, rule codec_intros) auto
next
  case (Suc n)
  show ?case
    unfolding decode_versions.simps
    by (rule codec_cong, (rule codec_bind codec_version Suc.IH)+) (fastforce simp: length_Suc_conv)
qed

lemma check_ascending_iff: "check_ascending m previous r = Inr () \<longleftrightarrow> follows previous r"
  by (auto simp: check_ascending_def follows_def split: option.splits)

lemma codec_active:
  "codec (decode_active vcount n previous) (\<lambda>as bs. length as = n \<and> active_ok vcount previous as \<and>
     bs = concat (map active_image as))"
proof (induction n arbitrary: previous)
  case 0
  then show ?case
    unfolding decode_active.simps by (rule codec_cong, rule codec_intros) auto
next
  case (Suc n)
  show ?case
    unfolding decode_active.simps
    apply (rule codec_cong, (rule codec_intros Suc.IH)+)
    subgoal for as bs
      by (cases as; cases "hd as") (auto simp: ex_distribs check_ascending_iff active_image_def simp del: le_bytes.simps)
    done
qed

lemma codec_retired:
  "codec (decode_retired ids n previous) (\<lambda>as bs. length as = n \<and> retired_ok ids previous as \<and>
     bs = concat (map retired_image as))"
proof (induction n arbitrary: previous)
  case 0
  then show ?case
    unfolding decode_retired.simps by (rule codec_cong, rule codec_intros) auto
next
  case (Suc n)
  show ?case
    unfolding decode_retired.simps
    apply (rule codec_cong, (rule codec_intros Suc.IH)+)
    subgoal for as bs
      by (cases as; cases "hd as") (auto simp: ex_distribs check_ascending_iff retired_image_def simp del: le_bytes.simps)
    done
qed

section \<open>The receipt horizon\<close>

definition receipts_ok ::
  "SnapshotVersion list \<Rightarrow> SnapshotActive list \<Rightarrow> SnapshotRetired list \<Rightarrow> byte list list \<Rightarrow> bool" where
  "receipts_ok vs active retired order \<longleftrightarrow> length order \<le> STAGING_REQUEST_RECEIPT_CAPACITY \<and> distinct order \<and>
     length order = length active + length retired \<and> distinct (map sa_request_id active) \<and>
     set (map sa_request_id active) \<subseteq> set order \<and> set (map sr_request_id retired) \<subseteq> set order \<and>
     set (map sr_request_id retired) \<inter> set (map sa_request_id active) = {} \<and> distinct (map sa_version active) \<and>
     (\<forall>a\<in>set active. sa_version a < length vs \<and> sv_lifecycle (vs ! sa_version a) = Retained)"

lemma check_active_ids_iff:
  "check_active_ids order seen active = Inr () \<longleftrightarrow> distinct (map sa_request_id active) \<and>
     set (map sa_request_id active) \<subseteq> set order \<and> set (map sa_request_id active) \<inter> set seen = {}"
  by (induction active arbitrary: seen) auto

lemma check_retired_ids_iff:
  "check_retired_ids order ids retired = Inr () \<longleftrightarrow>
     set (map sr_request_id retired) \<subseteq> set order \<and> set (map sr_request_id retired) \<inter> set ids = {}"
  by (induction retired) auto

lemma check_claims_iff:
  "check_claims vs claimed active = Inr () \<longleftrightarrow> distinct (map sa_version active) \<and>
     set (map sa_version active) \<inter> set claimed = {} \<and>
     (\<forall>a\<in>set active. sa_version a < length vs \<and> sv_lifecycle (vs ! sa_version a) = Retained)"
  by (induction active arbitrary: claimed) (auto simp: get_at_def)

lemma validate_receipts_iff:
  assumes "\<And>m n. try_reserve E m n"
  shows "validate_snapshot_receipt_consistency E vs active retired order = Inr () \<longleftrightarrow> receipts_ok vs active retired order"
  using assms by (auto simp: validate_snapshot_receipt_consistency_def receipts_ok_def reserve_def result_iffs
      check_active_ids_iff check_retired_ids_iff check_claims_iff)

section \<open>The whole artifact\<close>

definition tables_ok :: "HistorySnapshot \<Rightarrow> bool" where
  "tables_ok s \<longleftrightarrow> list_all (optional_ok MAX_HISTORY_BINDING_BYTES) (snap_history_bindings s) \<and>
     distinct (filter (\<lambda>b. b \<noteq> None) (snap_history_bindings s)) \<and>
     versions_ok (length (snap_history_bindings s)) [] (snap_versions s) \<and>
     active_ok (length (snap_versions s)) None (snap_active s) \<and>
     retired_ok (map sa_request_id (snap_active s)) None (snap_retired s) \<and>
     list_all request_id_ok (snap_receipt_order s) \<and>
     receipts_ok (snap_versions s) (snap_active s) (snap_retired s) (snap_receipt_order s)"

definition with_tables :: "HistorySnapshot \<Rightarrow> HistorySnapshot \<Rightarrow> HistorySnapshot" where
  "with_tables s head = head\<lparr>snap_history_bindings := snap_history_bindings s, snap_versions := snap_versions s,
     snap_active := snap_active s, snap_retired := snap_retired s, snap_receipt_order := snap_receipt_order s\<rparr>"

lemma codec_tables:
  assumes E: "\<And>m n. try_reserve E m n"
  shows "codec (decode_tables E head hc vc ac rc oc) (\<lambda>s bs. hc = length (snap_history_bindings s) \<and>
     vc = length (snap_versions s) \<and> ac = length (snap_active s) \<and> rc = length (snap_retired s) \<and>
     oc = length (snap_receipt_order s) \<and> tables_ok s \<and> s = with_tables s head \<and> bs = body_image s)"
  unfolding decode_tables_def
  apply (rule codec_cong, (rule codec_each [OF codec_snap_optional] codec_each [OF codec_snap_request]
      codec_versions codec_active codec_retired codec_intros)+)
  subgoal for s bs
    using E by (cases s; cases head)
      (auto simp: reserve_def validate_receipts_iff tables_ok_def with_tables_def body_image_def ex_distribs)
  done

lemma le_bytes_8_nonempty: "le_bytes 8 n \<noteq> []"
  by (metis length_le_bytes list.size(3) zero_neq_numeral)

lemma entry_images: "optional_image x \<noteq> []" "version_image v \<noteq> []" "active_image a \<noteq> []"
  "retired_image r \<noteq> []" "request_image i \<noteq> []"
  by (auto simp: optional_image_def version_image_def active_image_def retired_image_def request_image_def
      le_bytes_8_nonempty simp del: le_bytes.simps split: option.splits)

lemma concat_entries:
  assumes "\<And>x. f x \<noteq> []"
  shows "length xs \<le> length (concat (map f xs))"
proof (induction xs)
  case (Cons x xs)
  have "0 < length (f x)"
    using assms by simp
  with Cons.IH show ?case
    unfolding list.map concat.simps length_append list.size by linarith
qed simp

lemma body_counts:
  "length (snap_history_bindings s) \<le> length (body_image s)" "length (snap_versions s) \<le> length (body_image s)"
  "length (snap_active s) \<le> length (body_image s)" "length (snap_retired s) \<le> length (body_image s)"
  "length (snap_receipt_order s) \<le> length (body_image s)"
  using concat_entries [of optional_image, OF entry_images(1), of "snap_history_bindings s"]
    concat_entries [of version_image, OF entry_images(2), of "snap_versions s"] concat_entries [of active_image, OF entry_images(3), of "snap_active s"]
    concat_entries [of retired_image, OF entry_images(4), of "snap_retired s"] concat_entries [of request_image, OF entry_images(5), of "snap_receipt_order s"]
  unfolding body_image_def length_append by linarith+

definition fields_image :: "HistorySnapshot \<Rightarrow> byte list" where
  "fields_image s = concat (map (le_bytes 8) [snap_generation s, snap_represented_wal_end s,
     length (snap_history_bindings s), length (snap_versions s), length (snap_active s), length (snap_retired s),
     length (snap_receipt_order s), snap_physical_generation s, snap_payload_end s, snap_node_count s,
     snap_next_history_id s, snap_next_version_id s])"

definition snapshot_ok :: "HistorySnapshot \<Rightarrow> bool" where
  "snapshot_ok s \<longleftrightarrow> list_all (\<lambda>n. n < width64) [snap_generation s, snap_represented_wal_end s,
     length (snap_history_bindings s), length (snap_versions s), length (snap_active s), length (snap_retired s),
     length (snap_receipt_order s), snap_physical_generation s, snap_payload_end s, snap_node_count s] \<and>
     snap_next_history_id s = length (snap_history_bindings s) \<and>
     snap_next_version_id s = length (snap_versions s) \<and> tables_ok s"

lemma codec_fields:
  assumes E: "\<And>m n. try_reserve E m n"
  shows "codec (decode_fields E) (\<lambda>s bs. snapshot_ok s \<and> bs = fields_image s @ body_image s)"
  unfolding decode_fields_def
  apply (rule codec_cong, (rule codec_bounded codec_tables [OF E] codec_intros)+)
  subgoal
    using body_counts(5) by (auto simp: trans_le_add2 simp del: le_bytes.simps)
  subgoal
    using body_counts(4) by (auto simp: trans_le_add2 simp del: le_bytes.simps)
  subgoal
    using body_counts(3) by (auto simp: trans_le_add2 simp del: le_bytes.simps)
  subgoal
    using body_counts(2) by (auto simp: trans_le_add2 simp del: le_bytes.simps)
  subgoal
    using body_counts(1) by (auto simp: trans_le_add2 simp del: le_bytes.simps)
  subgoal for s bs
    by (cases s) (auto simp: ex_distribs snapshot_ok_def fields_image_def with_tables_def simp del: le_bytes.simps)
  done

definition prefix_image :: "HistorySnapshot \<Rightarrow> byte list" where
  "prefix_image s = HISTORY_SNAPSHOT_MAGIC @ le_bytes 8 (HISTORY_SNAPSHOT_HEADER_SIZE + length (body_image s) + 32) @
     le_bytes 4 HISTORY_SNAPSHOT_SCHEMA @ fields_image s @ body_image s"

lemma length_fields_image: "length (fields_image s) = 96"
  by (simp add: fields_image_def del: le_bytes.simps)

lemma length_snapshot_magic: "length HISTORY_SNAPSHOT_MAGIC = 4"
  by (simp add: HISTORY_SNAPSHOT_MAGIC_def)

lemma length_prefix_image: "length (prefix_image s) = HISTORY_SNAPSHOT_HEADER_SIZE + length (body_image s)"
  by (simp add: prefix_image_def length_fields_image length_snapshot_magic HISTORY_SNAPSHOT_HEADER_SIZE_def del: le_bytes.simps)

lemma codec_sections:
  assumes E: "\<And>m n. try_reserve E m n"
  shows "codec (decode_sections E n) (\<lambda>s bs. snapshot_ok s \<and> n < width64 \<and>
     bs = HISTORY_SNAPSHOT_MAGIC @ le_bytes 8 n @ le_bytes 4 HISTORY_SNAPSHOT_SCHEMA @ fields_image s @ body_image s)"
  unfolding decode_sections_def
  apply (rule codec_cong, (rule codec_fields [OF E] codec_intros)+)
  subgoal for s bs
    by (auto simp: ex_distribs try_from_def length_snapshot_magic HISTORY_SNAPSHOT_SCHEMA_def simp del: le_bytes.simps)
  done

lemma sealed_reads:
  assumes "length bs < width64"
  shows "(\<exists>c. reads \<lparr>cursor_bytes = bs, cursor_pos = 0\<rparr> p c \<and> 32 \<le> length bs \<and> cursor_pos c = length bs - 32 \<and>
      f (take (length bs - 32) bs) = drop (length bs - 32) bs) \<longleftrightarrow> length bs = length p + 32 \<and> bs = p @ f p"
proof -
  have "(\<exists>c. reads \<lparr>cursor_bytes = bs, cursor_pos = 0\<rparr> p c \<and> 32 \<le> length bs \<and> cursor_pos c = length bs - 32 \<and>
      f (take (length bs - 32) bs) = drop (length bs - 32) bs) \<longleftrightarrow>
      length bs = length p + 32 \<and> take (length p) bs = p \<and> f p = drop (length p) bs"
    using assms by (auto simp: reads_def slice_get_Some_iff)
  then show ?thesis
    by (metis append_eq_conv_conj append_take_drop_id)
qed

theorem decode_snapshot_iff:
  assumes E: "\<And>m n. try_reserve E m n" and sha: "sha_ok E"
  shows "decode_history_snapshot E bs = Inr s \<longleftrightarrow>
    snapshot_ok s \<and> length bs < width64 \<and> bs = prefix_image s @ snapshot_digest E (prefix_image s)"
proof -
  let ?c = "\<lparr>cursor_bytes = bs, cursor_pos = 0\<rparr>"
  have ok: "cursor_ok ?c"
    by (simp add: cursor_ok_def width64_def)
  let ?p = "HISTORY_SNAPSHOT_MAGIC @ le_bytes 8 (length bs) @ le_bytes 4 HISTORY_SNAPSHOT_SCHEMA @ fields_image s @ body_image s"
  have len: "length ?p = HISTORY_SNAPSHOT_HEADER_SIZE + length (body_image s)"
    by (simp add: length_fields_image length_snapshot_magic HISTORY_SNAPSHOT_HEADER_SIZE_def del: le_bytes.simps)
  have dg: "length (snapshot_digest E p) = 32" for p
    using sha by (simp add: sha_ok_def snapshot_digest_def)
  have "decode_history_snapshot E bs = Inr s \<longleftrightarrow> snapshot_ok s \<and> length bs < width64 \<and> (\<exists>c. reads ?c ?p c \<and>
      32 \<le> length bs \<and> cursor_pos c = length bs - 32 \<and>
      snapshot_digest E (take (length bs - 32) bs) = drop (length bs - 32) bs)"
    unfolding decode_history_snapshot_def bindR_Inr_iff split_paired_Ex prod.case codec_iff [OF codec_sections [OF E] ok]
    by (auto simp: checked_sub_def simp del: le_bytes.simps split: if_splits)
  also have "\<dots> \<longleftrightarrow> snapshot_ok s \<and> length bs < width64 \<and> length bs = length ?p + 32 \<and>
      bs = ?p @ snapshot_digest E ?p"
    using sealed_reads [of bs ?p "snapshot_digest E"] by blast
  also have "\<dots> \<longleftrightarrow> snapshot_ok s \<and> length bs < width64 \<and> bs = prefix_image s @ snapshot_digest E (prefix_image s)"
  proof -
    have "?p = prefix_image s" if l: "length bs = HISTORY_SNAPSHOT_HEADER_SIZE + length (body_image s) + 32"
      unfolding l prefix_image_def by (rule refl)
    moreover have "length bs = HISTORY_SNAPSHOT_HEADER_SIZE + length (body_image s) + 32"
      if "bs = prefix_image s @ snapshot_digest E (prefix_image s)"
      by (simp add: that dg length_prefix_image)
    ultimately show ?thesis
      unfolding len by metis
  qed
  finally show ?thesis .
qed

section \<open>The encoder\<close>

lemma snap_put_simps:
  assumes "\<And>m n. try_reserve E m n"
  shows "snap_put_u64 E v = Inr (le_bytes 8 v)"
    "length bs < width64 \<Longrightarrow> snap_put_bytes E bs = Inr (request_image bs)"
    "optional_ok MAX_HISTORY_BINDING_BYTES x \<Longrightarrow> snap_put_optional_bytes E x = Inr (optional_image x)"
  using assms
  by (auto simp: snap_put_u64_def snap_put_bytes_def snap_put_optional_bytes_def reserve_def try_from_def
      checked_add_def optional_ok_def request_image_def optional_image_def small_bytes simp del: le_bytes.simps
      split: option.splits)

lemma put_each_images:
  "(\<And>x. x \<in> set xs \<Longrightarrow> f x = Inr (g x)) \<Longrightarrow> put_each f xs = Inr (concat (map g xs))"
  by (induction xs) auto

lemma put_version_image:
  assumes "\<And>m n. try_reserve E m n" "version_ok hcount prior v"
  shows "put_version E hcount v = Inr (version_image v)"
  using assms(2)
  by (cases "sv_root v") (auto simp: put_version_def version_ok_def snap_put_simps [OF assms(1)] version_image_def
      parent_image_def reserve_def assms(1) simp del: le_bytes.simps)

lemma versions_ok_each:
  "versions_ok hcount prior vs \<Longrightarrow> v \<in> set vs \<Longrightarrow> \<exists>prior. version_ok hcount prior v"
  by (induction vs arbitrary: prior) auto

lemma check_request_bounds_ok: "request_id_ok r \<Longrightarrow> check_request_bounds r = Inr ()"
  by (simp add: request_id_ok_def check_request_bounds_def)

lemma check_ascending_ok: "follows previous r \<Longrightarrow> check_ascending m previous r = Inr ()"
  by (simp add: check_ascending_iff)

lemma request_id_ok_small: "request_id_ok r \<Longrightarrow> length r < width64"
  by (simp add: request_id_ok_def small_bytes)

lemma put_active_image:
  assumes "\<And>m n. try_reserve E m n"
  shows "active_ok vcount previous as \<Longrightarrow> put_active E vcount previous as = Inr (concat (map active_image as))"
  by (induction as arbitrary: previous) (auto simp: check_request_bounds_ok check_ascending_ok request_id_ok_small
      snap_put_simps [OF assms] active_image_def simp del: le_bytes.simps)

lemma put_retired_image:
  assumes "\<And>m n. try_reserve E m n"
  shows "retired_ok ids previous as \<Longrightarrow> put_retired E previous as = Inr (concat (map retired_image as))"
  by (induction as arbitrary: previous) (auto simp: check_request_bounds_ok check_ascending_ok request_id_ok_small
      snap_put_simps [OF assms] retired_image_def simp del: le_bytes.simps)

lemma put_body_image:
  assumes E: "\<And>m n. try_reserve E m n" and ok: "tables_ok s"
  shows "put_snapshot_body E s = Inr (body_image s)"
proof -
  have "put_each (snap_put_optional_bytes E) (snap_history_bindings s) =
      Inr (concat (map optional_image (snap_history_bindings s)))"
    by (rule put_each_images) (use ok snap_put_simps(3) [OF E] in \<open>auto simp: tables_ok_def list_all_iff\<close>)
  moreover have "put_each (put_version E (length (snap_history_bindings s))) (snap_versions s) =
      Inr (concat (map version_image (snap_versions s)))"
    by (rule put_each_images) (use ok put_version_image [OF E] versions_ok_each in \<open>fastforce simp: tables_ok_def\<close>)
  moreover have "put_each (put_receipt E) (snap_receipt_order s) = Inr (concat (map request_image (snap_receipt_order s)))"
    by (rule put_each_images)
      (use ok in \<open>auto simp: tables_ok_def list_all_iff put_receipt_def check_request_bounds_ok request_id_ok_small
        snap_put_simps [OF E]\<close>)
  ultimately show ?thesis
    using ok by (simp add: put_snapshot_body_def tables_ok_def put_active_image [OF E]
        put_retired_image [OF E, of "map sa_request_id (snap_active s)"] body_image_def)
qed

lemma put_header_image:
  assumes E: "\<And>m n. try_reserve E m n" and ok: "snapshot_ok s" and n: "n < width64"
  shows "put_snapshot_header E s n = Inr (HISTORY_SNAPSHOT_MAGIC @ le_bytes 8 n @
    le_bytes 4 HISTORY_SNAPSHOT_SCHEMA @ fields_image s)"
  using ok n by (simp add: put_snapshot_header_def put_count_def snap_put_simps [OF E] snap_put_u32_def try_from_def
      snapshot_ok_def fields_image_def del: le_bytes.simps)

theorem encode_snapshot_iff:
  assumes E: "\<And>m n. try_reserve E m n" and sha: "sha_ok E" and ok: "snapshot_ok s"
  shows "encode_history_snapshot_struct E s = Inr bs \<longleftrightarrow>
    length bs < width64 \<and> bs = prefix_image s @ snapshot_digest E (prefix_image s)"
proof -
  let ?n = "HISTORY_SNAPSHOT_HEADER_SIZE + length (body_image s) + 32"
  have dg: "length (snapshot_digest E p) = 32" for p
    using sha by (simp add: sha_ok_def snapshot_digest_def)
  have len: "length (prefix_image s @ snapshot_digest E (prefix_image s)) = ?n"
    by (simp add: length_prefix_image dg)
  have "tables_ok s" and ids: "snap_next_history_id s = length (snap_history_bindings s)"
      "snap_next_version_id s = length (snap_versions s)"
    using ok by (auto simp: snapshot_ok_def)
  note body = put_body_image [OF E this(1)]
  show ?thesis
  proof (cases "?n < width64")
    case True
    have head: "put_snapshot_header E s ?n = Inr (HISTORY_SNAPSHOT_MAGIC @ le_bytes 8 ?n @
        le_bytes 4 HISTORY_SNAPSHOT_SCHEMA @ fields_image s)"
      by (rule put_header_image [OF E ok True])
    have "encode_history_snapshot_struct E s = Inr (prefix_image s @ snapshot_digest E (prefix_image s))"
      unfolding encode_history_snapshot_struct_def body using True head len ids
      by (simp add: checked_add_def reserve_def E prefix_image_def Let_def del: le_bytes.simps)
    then show ?thesis
      using True len by auto
  next
    case False
    then have "encode_history_snapshot_struct E s \<noteq> Inr bs"
      unfolding encode_history_snapshot_struct_def body using ids by (auto simp: checked_add_def result_iffs)
    then show ?thesis
      using False len by auto
  qed
qed

end
