(* ===== verification/Avl_Budget.thy ===== *)
theory Avl_Budget
  imports Avl_Memory
begin

text \<open>
  What an edit costs, and that it succeeds when the arena has that much room.  The judgement
  \<open>within n p m s\<close> bounds the nodes and payload bytes that a run of \<open>m\<close> appends, whatever its
  outcome.  Joining two trees appends at most three nodes per level of the height difference and one
  more; a split appends at most one join per level and two leaves; building an inserted subtree
  appends one leaf per chunk and one join less than that.  With that room no table can be full, so
  an edit on the in-memory arena cannot fail once its operands are valid.
\<close>

section \<open>Bounds on what is appended\<close>

locale metered_arena = arena_store E A payload_of nodes_of good ext RF WF
  for E :: env and A :: "'a ArenaStore" and payload_of :: "'a \<Rightarrow> byte list" and nodes_of :: "'a \<Rightarrow> ArenaNode list"
    and good :: "'a \<Rightarrow> bool" and ext :: "'a \<Rightarrow> 'a \<Rightarrow> bool" and RF WF :: "V2AvlError set" +
  assumes append_cost: "arena_append_payload A a bs = (r, a') \<Longrightarrow>
      length (payload_of a') \<le> length (payload_of a) + length bs \<and> length (nodes_of a') \<le> length (nodes_of a)"
    and push_cost: "arena_push_node A a n = (r', b) \<Longrightarrow>
      length (payload_of b) \<le> length (payload_of a) \<and> length (nodes_of b) \<le> length (nodes_of a) + 1"
begin

definition within :: "nat \<Rightarrow> nat \<Rightarrow> ('a, 'r) avl_prog \<Rightarrow> 'a arena_state \<Rightarrow> bool" where
  "within n p m s \<longleftrightarrow> (\<forall>r s'. m s = Some (r, s') \<longrightarrow>
     length (nodes_of (fst s')) \<le> length (nodes_of (fst s)) + n \<and>
     length (payload_of (fst s')) \<le> length (payload_of (fst s)) + p)"

lemma withinD:
  "within n p m s \<Longrightarrow> m s = Some (r, s') \<Longrightarrow> length (nodes_of (fst s')) \<le> length (nodes_of (fst s)) + n"
  "within n p m s \<Longrightarrow> m s = Some (r, s') \<Longrightarrow> length (payload_of (fst s')) \<le> length (payload_of (fst s)) + p"
  unfolding within_def by blast+

lemma within_mono: "within n p m s \<Longrightarrow> n \<le> n' \<Longrightarrow> p \<le> p' \<Longrightarrow> within n' p' m s"
  unfolding within_def by (meson add_left_mono order_trans)

lemma within_cong: "m s = m' s \<Longrightarrow> within n p m' s \<Longrightarrow> within n p m s"
  by (simp add: within_def)

lemma within_basic [simp]:
  "within n p (retP x) s" "within n p (failP e) s" "within n p (liftP r) s" "within n p (viewP f) s" "within n p (bump k) s"
  by (auto simp: within_def retP_def failP_def liftP_def viewP_def bump_def)

text \<open>Binding: the continuation is only looked at on the results the first part promises.\<close>

lemma within_bind_spec:
  assumes "spec m s grows stopped Q" and "within n p m s"
    and "\<And>x s'. grows s s' \<Longrightarrow> Q x s' \<Longrightarrow> within n' p' (k x) s'"
  shows "within (n + n') (p + p') (bindP m k) s"
  unfolding within_def
proof (intro allI impI)
  fix r s'
  assume run: "bindP m k s = Some (r, s')"
  show "length (nodes_of (fst s')) \<le> length (nodes_of (fst s)) + (n + n') \<and>
    length (payload_of (fst s')) \<le> length (payload_of (fst s)) + (p + p')"
    using assms(1)
  proof (cases rule: specE)
    case (Err e s1)
    then show ?thesis
      using run withinD [OF assms(2)] by (simp add: bindP_def)
  next
    case (Ok x s1)
    then have "k x s1 = Some (r, s')"
      using run by simp
    then show ?thesis
      using withinD [OF assms(2) Ok(1)] withinD [OF assms(3) [OF Ok(2,3)]] by fastforce
  qed
qed

lemma within_bind:
  assumes "within n p m s" and "\<And>x s'. m s = Some (Inr x, s') \<Longrightarrow> within n' p' (k x) s'"
  shows "within (n + n') (p + p') (bindP m k) s"
  unfolding within_def
proof (intro allI impI)
  fix r s'
  assume run: "bindP m k s = Some (r, s')"
  obtain r1 s1 where m: "m s = Some (r1, s1)"
    using run by (cases "m s") (auto simp: bindP_def)
  show "length (nodes_of (fst s')) \<le> length (nodes_of (fst s)) + (n + n') \<and>
    length (payload_of (fst s')) \<le> length (payload_of (fst s)) + (p + p')"
  proof (cases r1)
    case (Inl e)
    then show ?thesis
      using run m withinD [OF assms(1) m] by simp
  next
    case (Inr x)
    then have "k x s1 = Some (r, s')"
      using run m by simp
    then show ?thesis
      using withinD [OF assms(1) m] withinD [OF assms(2) [of x s1]] m Inr by fastforce
  qed
qed

lemma within_then:
  "(\<And>s. within n p m s) \<Longrightarrow> (\<And>x s. within n' p' (k x) s) \<Longrightarrow> within (n + n') (p + p') (bindP m k) s"
  by (rule within_bind)

lemma within_after:
  assumes "\<And>s. within 0 0 m s" and "\<And>x s. within n p (k x) s"
  shows "within n p (bindP m k) s"
  using within_then [OF assms] by simp

section \<open>Allocation\<close>

lemma within_node: "within 1 p (allocate_node_on A n) s"
proof -
  have "within 1 0 (mutP (\<lambda>a. arena_push_node A a n)) s" for s
    using push_cost [OF surjective_pairing, of "fst s" n] by (simp add: within_def mutP_def)
  then have inner: "within (1 + 0) (0 + 0) (bindP (mutP (\<lambda>a. arena_push_node A a n)) (\<lambda>placed.
      if placed \<noteq> i then failP e else retP root)) s" for i e s and root :: V2RootRecord
    by (rule within_then) simp
  have "within 1 0 (allocate_node_on A n) s"
    unfolding allocate_node_on_def
    by (rule within_after [OF within_basic(4) within_after [OF within_basic(3)]]) (use inner in simp)
  then show ?thesis
    by (rule within_mono) simp_all
qed

lemma within_leaf: "within 1 (length bs) (allocate_leaf_on E A bs) s"
proof -
  have "within 0 (length bs) (mutP (\<lambda>a. arena_append_payload A a bs)) s" for s
    by (simp add: within_def mutP_def append_cost [OF surjective_pairing] del: le_zero_eq)
  then have inner: "within (0 + 1) (length bs + 0) (bindP (mutP (\<lambda>a. arena_append_payload A a bs)) (\<lambda>placed.
      if placed \<noteq> i then failP e else allocate_node_on A n)) s" for i e s n
    by (rule within_then) (simp add: within_node del: One_nat_def)
  show ?thesis
    unfolding allocate_leaf_on_def
    by (rule within_after [OF within_basic(4) within_after [OF within_basic(3)]]) (use inner in simp)
qed

lemma within_branch: "within 1 0 (allocate_branch_on E A l r) s"
  unfolding allocate_branch_on_def by (intro within_after within_node) simp_all

lemma within_children: "within n p (branch_children_on A root) s"
proof -
  have "within 0 0 (branch_children_on A root) s"
    unfolding branch_children_on_def by (intro within_after) (simp_all split: ArenaNode.split)
  then show ?thesis
    by (rule within_mono) simp_all
qed

section \<open>Joining\<close>

lemma within_two: "(\<And>x. m' x = allocate_branch_on E A (f x) (g x)) \<Longrightarrow>
    within 3 0 (bindP (allocate_branch_on E A a b) m') s"
  by (rule within_mono [OF within_then [OF within_branch, of 1 0]]) (simp_all add: within_branch del: One_nat_def)

lemma within_three: "within 3 0 (bindP (allocate_branch_on E A a b) (\<lambda>x. bindP (allocate_branch_on E A c d)
    (\<lambda>y. allocate_branch_on E A x y))) s"
  by (rule within_mono [OF within_then [OF within_branch, of 2 0]])
    (simp_all add: within_mono [OF within_then [OF within_branch within_branch]] del: One_nat_def)

lemma within_rebalance: "within 3 0 (rebalance_on E A l r) s"
proof -
  have b: "within 3 0 (allocate_branch_on E A x y) s" for x y s
    by (rule within_mono [OF within_branch]) simp_all
  have t: "within 3 0 (bindP (allocate_branch_on E A x y) (allocate_branch_on E A z)) s" for x y z s
    by (rule within_two [where f = "\<lambda>_. z" and g = "\<lambda>x. x"]) simp
  have t': "within 3 0 (bindP (allocate_branch_on E A x y) (\<lambda>w. allocate_branch_on E A w z)) s" for x y z s
    by (rule within_two [where f = "\<lambda>x. x" and g = "\<lambda>_. z"]) simp
  show ?thesis
    unfolding rebalance_on_def
    by (auto intro!: within_after within_children b t t' within_three)
qed

lemma within_concat:
  assumes "good (fst s)" "denotes s l lt" "denotes s r rt" "tlen lt + tlen rt < width64"
  shows "within (3 * abs_diff (theight lt) (theight rt) + 1) 0 (concat_on E A l r) s"
  using assms
proof (induction lt rt arbitrary: s l r rule: tree_concat.induct)
  case (1 lt rt)
  note good = "1.prems"(1) and l = "1.prems"(2) and r = "1.prems"(3)
  have h: "root_height l = theight lt" "root_height r = theight rt"
    "saturating_add width16 (theight lt) (Suc 0) = theight lt + 1"
    "saturating_add width16 (theight rt) (Suc 0) = theight rt + 1"
    using denotes_meta l r sat_height denotes_fits by auto
  consider (L) "theight rt + 1 < theight lt" | (R) "theight lt + 1 < theight rt"
    | (B) "theight lt \<le> theight rt + 1" "theight rt \<le> theight lt + 1"
    by linarith
  then show ?case
  proof cases
    case L
    then obtain ll lr where lt: "lt = Br ll lr"
      by (cases lt) auto
    let ?n = "3 * abs_diff (theight lr) (theight rt) + 1"
    have hl: "?n + 3 \<le> 3 * abs_diff (theight lt) (theight rt) + 1"
      using L denotes_fits [OF l] by (auto simp: lt fits_Br abs_diff_def)
    have "within (0 + (?n + 3)) (0 + (0 + 0)) (bindP (branch_children_on A l) (\<lambda>(left_left, left_right).
       bindP (concat_on E A left_right r) (rebalance_on E A left_left))) s"
    proof (rule within_bind_spec [OF spec_children [OF good l [unfolded lt]] within_children], clarify)
      fix a b s1
      assume g: "grows s s1" and ab: "denotes s1 a ll" "denotes s1 b lr"
      have "within ?n 0 (concat_on E A b r) s1"
        using L "1.prems"(4) lt
        by (intro "1.IH"(1) [OF _ lt grows_good [OF g] ab(2) grows_denotes [OF g r]]) auto
      then show "within (?n + 3) (0 + 0) (bindP (concat_on E A b r) (rebalance_on E A a)) s1"
        by (rule within_bind) (rule within_rebalance)
    qed
    then show ?thesis
      by (intro within_cong [OF _ within_mono [OF _ hl]]) (use L in \<open>simp_all add: concat_on.simps [of E A l r] h\<close>)
  next
    case R
    then obtain rl rr where rt: "rt = Br rl rr"
      by (cases rt) auto
    let ?n = "3 * abs_diff (theight lt) (theight rl) + 1"
    have hr: "?n + 3 \<le> 3 * abs_diff (theight lt) (theight rt) + 1"
      using R denotes_fits [OF r] by (auto simp: rt fits_Br abs_diff_def)
    have "within (0 + (?n + 3)) (0 + (0 + 0)) (bindP (branch_children_on A r) (\<lambda>(right_left, right_right).
       bindP (concat_on E A l right_left) (\<lambda>j. rebalance_on E A j right_right))) s"
    proof (rule within_bind_spec [OF spec_children [OF good r [unfolded rt]] within_children], clarify)
      fix a b s1
      assume g: "grows s s1" and ab: "denotes s1 a rl" "denotes s1 b rr"
      have "within ?n 0 (concat_on E A l a) s1"
        using R "1.prems"(4) rt
        by (intro "1.IH"(2) [OF _ _ rt grows_good [OF g] grows_denotes [OF g l] ab(1)]) auto
      then show "within (?n + 3) (0 + 0) (bindP (concat_on E A l a) (\<lambda>j. rebalance_on E A j b)) s1"
        by (rule within_bind) (rule within_rebalance)
    qed
    then show ?thesis
      by (intro within_cong [OF _ within_mono [OF _ hr]]) (use R in \<open>simp_all add: concat_on.simps [of E A l r] h\<close>)
  next
    case B
    show ?thesis
      by (rule within_cong [OF _ within_mono [OF within_branch]])
        (use B in \<open>simp_all add: concat_on.simps [of E A l r] h\<close>)
  qed
qed

text \<open>A tree of at most \<open>2 ^ 64\<close> bytes has height at most 128, so every join is below one bound.\<close>

definition join_cost :: nat where
  "join_cost = 382"

lemma within_join:
  assumes "good (fst s)" "denotes s l lt" "denotes s r rt" "tlen lt + tlen rt < width64"
  shows "within join_cost p (concat_on E A l r) s"
proof -
  have "theight lt \<le> 128" "theight rt \<le> 128"
    using fits_height denotes_fits assms(2,3) by blast+
  then have "abs_diff (theight lt) (theight rt) \<le> 127"
    using theight_pos [of lt] theight_pos [of rt] unfolding abs_diff_def by (simp split: if_splits; linarith)
  then show ?thesis
    by (intro within_mono [OF within_concat [OF assms]]) (simp_all add: join_cost_def)
qed

lemma within_concat_optional:
  assumes "good (fst s)" "odenotes s x xt" "odenotes s y yt"
    "length (ocontent xt) + length (ocontent yt) < width64"
  shows "within join_cost p (concat_optional_on E A x y) s"
proof (cases "(xt, yt)" rule: tree_concat_opt.cases)
  case (3 lt rt)
  with assms obtain l r where lr: "x = Some l" "y = Some r" "denotes s l lt" "denotes s r rt"
    by auto
  have "within (join_cost + 0) (p + 0) (bindP (concat_on E A l r) (\<lambda>root. retP (Some root))) s"
    using 3 assms by (intro within_bind within_join [OF assms(1) lr(3,4)]) (simp_all add: tlen_def)
  then show ?thesis
    by (simp add: concat_optional_on_def lr)
qed (use assms in \<open>auto simp: concat_optional_on_def split: option.splits\<close>)

section \<open>Splitting\<close>

lemma within_split_leaf:
  assumes good: "good (fst s)" and sl: "slice_get (payload_of (fst s)) off (off + length bs) = Some bs"
    and w: "off + length bs < width64" and k: "0 < k" "k < length bs"
  shows "within 2 (length bs) (split_leaf E A off (length bs) k) s"
proof -
  have kw: "off + k < width64"
    using k w by simp
  have s1: "slice_get (payload_of (fst s)) off (off + k) = Some (take k bs)"
    using slice_get_slice [OF sl, of 0 k] k by simp
  have s2: "slice_get (payload_of (fst s)) (off + k) (off + length bs) = Some (drop k bs)"
    using slice_get_slice [OF sl, of k "length bs"] k by simp
  have two: "within (1 + 1) (length (take k bs) + length (drop k bs)) (bindP (allocate_leaf_on E A (take k bs)) (\<lambda>left.
      bindP (allocate_leaf_on E A (drop k bs)) (\<lambda>right. retP (Some left, Some right)))) s" for s
    by (rule within_then [OF within_leaf], rule within_mono [OF within_then [OF within_leaf, of 0 0]]) simp_all
  have "within (0 + (0 + (1 + 1))) (0 + (0 + (length (take k bs) + length (drop k bs))))
      (split_leaf E A off (length bs) k) s"
    unfolding split_leaf_def
    apply (simp only: checked_add_def kw w if_True ok_or_simps bindP_simps)
    apply (rule within_bind_spec [OF spec_read [OF good s1 kw] within_basic(4)], elim conjE, hypsubst)
    apply (rule within_bind_spec [OF spec_read [OF good s2 w] within_basic(4)], elim conjE, hypsubst)
    apply (rule two)
    done
  then show ?thesis
    by (rule within_mono) (use k in simp_all)
qed

lemma within_part:
  assumes "good (fst s)" "odenotes s x xt" "denotes s r rt" "length (ocontent xt) + tlen rt < width64"
  shows "within join_cost p (case x of None \<Rightarrow> retP r | Some n \<Rightarrow> concat_on E A n r) s"
    and "within join_cost p (case x of None \<Rightarrow> retP r | Some n \<Rightarrow> concat_on E A r n) s"
  using assms by (cases x; auto simp: tlen_def add.commute intro!: within_join)+

definition split_cost :: "nat \<Rightarrow> nat" where
  "split_cost h = join_cost * h + 2"

lemma within_split_descend:
  assumes good: "good (fst s)" and d: "denotes s root t" and k: "k \<noteq> 0" "k < tlen t"
    and step: "\<And>n s'. grows s s' \<Longrightarrow> denotes s' root t \<Longrightarrow>
      get_at (nodes_of (fst s')) (root_node_id root) = Some n \<Longrightarrow> within c p (split_node k n) s'"
  shows "within c p (split_on E A root k) s"
proof (rule within_cong [OF split_on_inner])
  have "within (0 + (0 + (0 + c))) (0 + (0 + (0 + p)))
      (bindP (bump 1) (\<lambda>_. bindP (viewP (\<lambda>a. node_for_root_on A a root)) (\<lambda>node.
     bindP (viewP (\<lambda>a. validate_node_on E A a node)) (\<lambda>_. split_node k node)))) s"
    apply (rule within_bind_spec [OF spec_bump [OF good] within_basic(5)])
    apply (rule within_bind_spec [OF spec_resolve [where t = t] within_basic(4)])
      apply (erule grows_good)
     apply (erule grows_denotes [OF _ d])
    apply (elim conjE, hypsubst)
    apply (rule within_bind_spec [OF spec_validate [where t = t] within_basic(4)])
       apply (erule grows_good)
      apply (erule (1) grows_denotes [OF _ d])
     apply (simp add: denotes_def)
    apply (hypsubst)
    apply (rule step; (assumption | erule grows_denotes [OF _ d])?)
    apply simp
    done
  then show "within c p (bindP (bump 1) (\<lambda>_. bindP (viewP (\<lambda>a. node_for_root_on A a root)) (\<lambda>node.
     bindP (viewP (\<lambda>a. validate_node_on E A a node)) (\<lambda>_. split_node k node)))) s"
    by simp
qed (use k denotes_meta [OF d] in auto)

lemma within_split_boundary:
  assumes "denotes s root t" "k = 0 \<or> k = tlen t"
  shows "within c p (split_on E A root k) s"
  using assms denotes_meta [OF assms(1)]
  by (cases "k = 0") (auto intro!: within_cong [OF split_on.simps [THEN trans]] simp: within_def split_on.simps)

lemma within_split_branch:
  assumes IH1: "\<And>s root k. good (fst s) \<Longrightarrow> denotes s root lt \<Longrightarrow> k \<le> tlen lt \<Longrightarrow>
      within (split_cost (theight lt)) p (split_on E A root k) s"
    and IH2: "\<And>s root k. good (fst s) \<Longrightarrow> denotes s root rt \<Longrightarrow> k \<le> tlen rt \<Longrightarrow>
      within (split_cost (theight rt)) p (split_on E A root k) s"
    and good: "good (fst s)" and d: "denotes s root (Br lt rt)"
    and n: "get_at (nodes_of (fst s)) (root_node_id root) = Some n"
    and k: "0 < k" "k < tlen lt + tlen rt"
  shows "within (split_cost (theight (Br lt rt))) p (split_node k n) s"
proof -
  obtain l r rec where nd: "n = ArenaNode.Branch l r rec" "denotes s l lt" "denotes s r rt"
    using d n by (auto simp: denotes_def)
  have m: "root_len l = tlen lt" and w: "tlen lt + tlen rt < width64"
    using denotes_meta [OF nd(2)] denotes_fits [OF d] by (auto simp: fits_Br)
  have cost: "split_cost (theight lt) + (join_cost + 0) \<le> split_cost (theight (Br lt rt))"
    "split_cost (theight rt) + (join_cost + 0) \<le> split_cost (theight (Br lt rt))"
    by (simp_all add: split_cost_def add_mult_distrib2 [symmetric] mult_Suc_right [symmetric] del: mult_Suc_right)
      (simp_all add: join_cost_def)
  have pp: "p + (0 + 0) \<le> p"
    by simp
  consider (L) "k < tlen lt" | (M) "k = tlen lt" | (R) "tlen lt < k"
    by linarith
  then show ?thesis
  proof cases
    case L
    obtain a b where ab: "tree_split lt k = (a, b)"
      by (cases "tree_split lt k")
    have len: "length (ocontent b) + tlen rt < width64"
      using tree_split_content [OF _ ab] L w by (simp add: tlen_def)
    have "within (split_cost (theight lt) + (join_cost + 0)) (p + (0 + 0))
        (bindP (split_on E A l k) (\<lambda>p. bindP (case snd p of None \<Rightarrow> retP r
          | Some near \<Rightarrow> concat_on E A near r) (\<lambda>j. retP (fst p, Some j)))) s"
      by (rule within_bind_spec [OF spec_split [OF good nd(2)] IH1 [OF good nd(2)]];
          (rule within_bind [OF within_part(1) [OF grows_good _ grows_denotes [OF _ nd(3)] len]])?)
        (use L ab in \<open>auto simp: denotes_pair_def\<close>)
    from within_mono [OF this cost(1) pp] show ?thesis
      by (rule within_cong [rotated]) (use L in \<open>simp_all add: split_node_def nd m\<close>)
  next
    case M
    then show ?thesis
      using k by (simp add: within_def split_node_def nd m)
  next
    case R
    obtain a b where ab: "tree_split rt (k - tlen lt) = (a, b)"
      by (cases "tree_split rt (k - tlen lt)")
    have len: "length (ocontent a) + tlen lt < width64"
      using tree_split_content [OF _ ab] R k w by (simp add: tlen_def)
    have "within (split_cost (theight rt) + (join_cost + 0)) (p + (0 + 0))
        (bindP (split_on E A r (k - tlen lt)) (\<lambda>p. bindP (case fst p of None \<Rightarrow> retP l
          | Some near \<Rightarrow> concat_on E A l near) (\<lambda>j. retP (Some j, snd p)))) s"
      by (rule within_bind_spec [OF spec_split [OF good nd(3)] IH2 [OF good nd(3)]];
          (rule within_bind [OF within_part(2) [OF grows_good _ grows_denotes [OF _ nd(2)] len]])?)
        (use R k ab in \<open>auto simp: denotes_pair_def\<close>)
    from within_mono [OF this cost(2) pp] show ?thesis
      by (rule within_cong [rotated]) (use R k in \<open>simp_all add: split_node_def nd m\<close>)
  qed
qed

lemma within_split:
  assumes "good (fst s)" "denotes s root t" "k \<le> tlen t"
  shows "within (split_cost (theight t)) MAX_LEAF_PAYLOAD_BYTES (split_on E A root k) s"
  using assms
proof (induction t arbitrary: s root k)
  case (Lf bs)
  show ?case
  proof (cases "k = 0 \<or> k = length bs")
    case False
    then have k: "k \<noteq> 0" "k < tlen (Lf bs)"
      using Lf.prems(3) by auto
    show ?thesis
    proof (rule within_split_descend [OF Lf.prems(1,2) k])
      fix n s'
      assume g: "grows s s'" and d: "denotes s' root (Lf bs)" and n: "get_at (nodes_of (fst s')) (root_node_id root) = Some n"
      obtain off rec where *: "n = ArenaNode.Leaf off (length bs) rec"
        "slice_get (payload_of (fst s')) off (off + length bs) = Some bs" "off + length bs < width64"
        using d n by (auto simp: denotes_def leaf_ok_iff)
      have "within 2 (length bs) (split_leaf E A off (length bs) k) s'"
        by (rule within_split_leaf [OF grows_good [OF g] *(2,3)]) (use k in auto)
      then have "within (split_cost (theight (Lf bs))) MAX_LEAF_PAYLOAD_BYTES (split_leaf E A off (length bs) k) s'"
        by (rule within_mono) (use denotes_fits [OF d] in \<open>simp_all add: split_cost_def fits_Lf\<close>)
      then show "within (split_cost (theight (Lf bs))) MAX_LEAF_PAYLOAD_BYTES (split_node k n) s'"
        by (rule within_cong [rotated]) (simp add: split_node_def *(1))
    qed
  qed (use Lf.prems in \<open>simp add: within_split_boundary\<close>)
next
  case (Br lt rt)
  show ?case
  proof (cases "k = 0 \<or> k = tlen lt + tlen rt")
    case False
    then have k: "k \<noteq> 0" "k < tlen (Br lt rt)" "0 < k" "k < tlen lt + tlen rt"
      using Br.prems(3) by auto
    show ?thesis
      by (rule within_split_descend [OF Br.prems(1,2) k(1,2)])
        (rule within_split_branch [OF Br.IH grows_good _ _ k(3,4)])
  qed (use Br.prems in \<open>simp add: within_split_boundary\<close>)
qed

section \<open>Building and splicing\<close>

lemma within_leaves: "within (length cs) (sum_list (map length cs)) (allocate_leaves E A cs) s"
proof (induction cs arbitrary: s)
  case (Cons c cs)
  have "within (1 + (length cs + 0)) (length c + (sum_list (map length cs) + 0)) (allocate_leaves E A (c # cs)) s"
    unfolding allocate_leaves.simps by (intro within_bind within_leaf Cons) simp
  then show ?case
    by simp
qed simp

lemma within_pair_level:
  assumes "good (fst s)" "ldenotes s rs ts" "length (level_content ts) < width64"
  shows "within (join_cost * (length ts div 2)) 0 (pair_level E A rs) s"
  using assms
proof (induction ts arbitrary: s rs rule: tree_pairs.induct)
  case (1 ta tb ts)
  from "1.prems"(2) obtain a b rs' where rs: "rs = a # b # rs'" and d: "denotes s a ta"
    "denotes s b tb" "ldenotes s rs' ts"
    by auto
  have w: "tlen ta + tlen tb < width64" "length (level_content ts) < width64"
    using "1.prems"(3) by (auto simp: tlen_def)
  have "within (join_cost + (join_cost * (length ts div 2) + 0)) (0 + (0 + 0)) (pair_level E A rs) s"
    unfolding rs pair_level.simps
    by (rule within_bind_spec [OF spec_concat [OF "1.prems"(1) d(1,2) w(1)] within_join [OF "1.prems"(1) d(1,2) w(1)]])
      (rule within_bind [OF "1.IH" [OF grows_good grows_ldenotes [OF _ d(3)] w(2)]], auto)
  then show ?case
    by simp
qed auto

lemma within_rounds:
  assumes "good (fst s)" "ldenotes s rs ts" "length (level_content ts) < width64"
  shows "within (join_cost * (length ts - 1)) 0 (pair_rounds E A rs) s"
  using assms
proof (induction ts arbitrary: s rs rule: tree_rounds.induct)
  case (1 ts)
  note len = ldenotes_length [OF "1.prems"(2)]
  let ?m = "''v2 sequence insert level allocation failed''"
  show ?case
  proof (cases "length ts > 1 \<and> try_reserve E ?m ((length rs + 1) div 2)")
    case False
    then show ?thesis
      using len by (auto simp: within_def pair_rounds.simps [of E A rs s] split: if_splits)
  next
    case True
    have w: "length (level_content (tree_pairs ts)) < width64"
      using "1.prems"(3) by (simp add: level_content_pairs)
    have "within (join_cost * (length ts div 2) + join_cost * (length (tree_pairs ts) - 1)) (0 + 0)
        (bindP (pair_level E A rs) (pair_rounds E A)) s"
      by (rule within_bind_spec [OF spec_pair_level [OF "1.prems"] within_pair_level [OF "1.prems"]])
        (rule "1.IH" [OF _ grows_good _ w]; use True in simp)
    moreover have "length ts div 2 + (length (tree_pairs ts) - 1) = length ts - 1"
      using True by (simp add: length_tree_pairs)
    ultimately have "within (join_cost * (length ts - 1)) 0 (bindP (pair_level E A rs) (pair_rounds E A)) s"
      by (simp add: add_mult_distrib2 [symmetric])
    then show ?thesis
      by (rule within_cong [rotated]) (use True len in \<open>simp add: pair_rounds.simps [of E A rs s]\<close>)
  qed
qed

end

lemma length_chunks: "0 < n \<Longrightarrow> length (chunks n xs) \<le> length xs div n + 1"
proof (induction n xs rule: chunks.induct)
  case (1 n xs)
  show ?case
  proof (cases "xs = [] \<or> length xs \<le> n")
    case True
    then show ?thesis
      by (cases "xs = []") (simp_all add: chunks.simps [of n xs])
  next
    case False
    then have "length (chunks n (drop n xs)) \<le> (length xs - n) div n + 1"
      using 1 by simp
    moreover have "length xs div n = (length xs - n) div n + 1"
      using False 1(2) by (simp add: le_div_geq)
    ultimately show ?thesis
      using False 1(2) by (simp add: chunks.simps [of n xs])
  qed
qed

lemma sum_chunks: "0 < n \<Longrightarrow> sum_list (map length (chunks n xs)) = length xs"
  by (simp add: length_concat [symmetric] concat_chunks)

text \<open>The room a splice may need: a leaf and a join per chunk of the insert, two splits, two joins.\<close>

definition splice_nodes :: "byte list \<Rightarrow> nat" where
  "splice_nodes ins = 383 * (length ins div MAX_LEAF_PAYLOAD_BYTES + 1) + 98560"

definition splice_payload :: "byte list \<Rightarrow> nat" where
  "splice_payload ins = length ins + 2 * MAX_LEAF_PAYLOAD_BYTES"

context metered_arena
begin

lemma within_build:
  assumes good: "good (fst s)" and ins: "ins \<noteq> []" "length ins < width64"
  shows "within (383 * (length ins div MAX_LEAF_PAYLOAD_BYTES + 1)) (length ins) (build_insert_subtree_on E A ins) s"
proof -
  let ?cs = "chunks MAX_LEAF_PAYLOAD_BYTES ins"
  have cs: "list_all (\<lambda>c. fits (Lf c)) ?cs"
    using leaf_level(1) [OF ins] by (simp add: list_all_iff)
  have w: "length (level_content (map Lf ?cs)) < width64"
    using leaf_level(3) [OF ins] ins by simp
  have n: "length ?cs + (join_cost * (length ?cs - 1) + 0) \<le> 383 * (length ins div MAX_LEAF_PAYLOAD_BYTES + 1)"
    using length_chunks [OF max_leaf_pos, of ins] by (simp add: join_cost_def)
  have p: "sum_list (map length ?cs) + (0 + 0) \<le> length ins"
    by (simp add: sum_chunks max_leaf_pos)
  have rest: "within 0 0 (if level = [] then failP e else retP (last level)) s" for level e s
    by simp
  have "within (length ?cs + (join_cost * (length ?cs - 1) + 0)) (sum_list (map length ?cs) + (0 + 0))
      (bindP (allocate_leaves E A ?cs) (\<lambda>level. bindP (pair_rounds E A level) (\<lambda>level.
       if level = [] then failP (V2AvlError.Invalid ''v2 sequence insert produced no content'')
       else retP (last level)))) s"
    using within_rounds [OF grows_good _ w]
    by (intro within_bind_spec [OF spec_leaves [OF good cs] within_leaves] within_bind [OF _ rest]) auto
  from within_mono [OF this n p] show ?thesis
    unfolding build_insert_subtree_on_def by simp
qed

lemma within_middle:
  assumes "good (fst s)" "length ins < width64"
  shows "within (383 * (length ins div MAX_LEAF_PAYLOAD_BYTES + 1)) (length ins) (if ins = [] then retP None
      else bindP (build_insert_subtree_on E A ins) (\<lambda>r. retP (Some r))) s"
proof (cases "ins = []")
  case False
  have "within (383 * (length ins div MAX_LEAF_PAYLOAD_BYTES + 1) + 0) (length ins + 0)
      (bindP (build_insert_subtree_on E A ins) (\<lambda>r. retP (Some r))) s"
    by (rule within_bind [OF within_build [OF assms(1) False assms(2)]]) simp
  then show ?thesis
    using False by simp
qed simp

lemma within_split_any:
  assumes "good (fst s)" "denotes s root t" "k \<le> tlen t"
  shows "within 48898 MAX_LEAF_PAYLOAD_BYTES (split_on E A root k) s"
proof -
  have "split_cost (theight t) \<le> 48898"
    using fits_height [OF denotes_fits [OF assms(2)]] by (simp add: split_cost_def join_cost_def)
  then show ?thesis
    by (rule within_mono [OF within_split [OF assms] _ order_refl])
qed

lemma within_right_part:
  assumes good: "good (fst s)" and m: "odenotes s mid mt" and del: "del \<le> length (ocontent mt)"
  shows "within 48898 MAX_LEAF_PAYLOAD_BYTES (case mid of None \<Rightarrow> retP None
      | Some x \<Rightarrow> if del = 0 then retP (Some x) else bindP (split_on E A x del) (\<lambda>(_, right). retP right)) s"
proof (cases mt)
  case (Some t)
  with m obtain x where x: "mid = Some x" "denotes s x t"
    by auto
  have "del \<le> tlen t"
    using del Some by (simp add: tlen_def)
  then have "within (48898 + 0) (MAX_LEAF_PAYLOAD_BYTES + 0) (bindP (split_on E A x del) (\<lambda>(_, right). retP right)) s"
    by (intro within_bind within_split_any [OF good x(2)]) (auto split: prod.split)
  then show ?thesis
    by (simp add: x)
qed (use m in simp)

lemma within_join_optional:
  assumes "good (fst s)" "odenotes s x xt" "odenotes s y yt" "odenotes s z zt"
    "length (ocontent xt) + length (ocontent yt) + length (ocontent zt) < width64"
  shows "within (join_cost + (join_cost + 0)) (0 + (0 + 0)) (bindP (concat_optional_on E A x y) (\<lambda>combined.
         bindP (concat_optional_on E A combined z) (\<lambda>combined. liftP (ok_or e combined)))) s"
proof -
  have w: "length (ocontent xt) + length (ocontent yt) < width64"
    "length (ocontent (tree_concat_opt xt yt)) + length (ocontent zt) < width64"
    using assms(5) by simp_all
  show ?thesis
    by (rule within_bind_spec [OF spec_concat_optional [OF assms(1-3) w(1)] within_concat_optional [OF assms(1-3) w(1)]],
        rule within_bind [OF within_concat_optional [OF grows_good _ grows_odenotes [OF _ assms(4)] w(2)]])
      simp_all
qed

lemma within_splice_inner:
  assumes good: "good (fst s)" and p: "odenotes s parent pt" and e: "edit_fits pt off del ins"
  shows "within (splice_nodes ins) (splice_payload ins) (splice_inner_on E A parent off del ins) s"
proof -
  let ?b = "383 * (length ins div MAX_LEAF_PAYLOAD_BYTES + 1)" and ?L = MAX_LEAF_PAYLOAD_BYTES
  let ?mt = "if ins = [] then None else Some (tree_build ins)"
  have ins: "length ins < width64"
    using e by (simp add: edit_fits_def)
  have lm: "length (ocontent ?mt) = length ins"
    using tree_build_correct [of ins] ins by auto
  have "within (?b + (48898 + (48898 + (join_cost + (join_cost + 0))))) (length ins + (?L + (?L + (0 + (0 + 0)))))
      (splice_inner_on E A parent off del ins) s"
    unfolding splice_inner_on_def
  proof (rule within_bind_spec [OF spec_middle [OF good ins] within_middle [OF good ins]])
    fix m s1
    assume g1: "grows s s1" and m: "odenotes s1 m ?mt"
    show "within (48898 + (48898 + (join_cost + (join_cost + 0)))) (?L + (?L + (0 + (0 + 0)))) (case parent of
       None \<Rightarrow> liftP (ok_or (V2AvlError.Invalid ''v2 sequence root creation produced no content'') m)
     | Some root \<Rightarrow>
         bindP (split_on E A root off) (\<lambda>(left, mid_right).
         bindP (case mid_right of None \<Rightarrow> retP None
                | Some mid \<Rightarrow> if del = 0 then retP (Some mid)
                    else bindP (split_on E A mid del) (\<lambda>(_, right). retP right)) (\<lambda>right.
         bindP (concat_optional_on E A left m) (\<lambda>combined.
         bindP (concat_optional_on E A combined right) (\<lambda>combined.
         liftP (ok_or (V2AvlError.Invalid ''v2 sequence splice produced an empty root'') combined)))))) s1"
    proof (cases parent)
      case (Some root)
      with p obtain u where u: "pt = Some u" "denotes s root u"
        by auto
      obtain lt mt where lm_eq: "tree_split u off = (lt, mt)"
        by (cases "tree_split u off")
      let ?rt = "case mt of None \<Rightarrow> None | Some x \<Rightarrow> if del = 0 then Some x else snd (tree_split x del)"
      have le: "off + del \<le> tlen u" "off \<le> tlen u"
        using e u by (simp_all add: edit_fits_def tlen_def)
      have c: "ocontent lt = take off (content u)" "ocontent mt = drop off (content u)"
        using tree_split_content [OF _ lm_eq] le by auto
      have del: "del \<le> length (ocontent mt)"
        using le by (simp add: c tlen_def)
      have rt: "ocontent ?rt = drop (off + del) (content u)"
        using split_mid [OF denotes_fits [OF u(2)] le(1) lm_eq] by simp
      have w: "length (ocontent lt) + length (ocontent ?mt) + length (ocontent ?rt) < width64"
        using e lm le unfolding rt c edit_fits_def u by (simp add: tlen_def) linarith
      note here = grows_good [OF g1] grows_denotes [OF g1 u(2)]
      show ?thesis
        unfolding Some option.case
        apply (rule within_bind_spec [OF spec_split [OF here le(2)] within_split_any [OF here le(2)]])
        apply (clarsimp simp only: lm_eq denotes_pair_def fst_conv snd_conv prod.case)
        apply (rule within_bind_spec [OF spec_right_part [OF grows_good _ del] within_right_part [OF grows_good _ del]])
            apply assumption+
        apply (rule within_join_optional [OF _ _ _ _ w])
           apply (blast intro: grows_good grows_odenotes m)+
        done
    qed simp
  qed
  then show ?thesis
    by (rule within_mono) (simp_all add: splice_nodes_def splice_payload_def join_cost_def)
qed

end

section \<open>Success\<close>

interpretation meter: metered_arena E memory_arena seq_payload seq_nodes memory_good memory_ext "{}" "{}" for E
  by unfold_locales (auto simp: memory_append_payload_def memory_push_node_def split: option.splits)

text \<open>With room for \<open>n\<close> nodes and \<open>p\<close> payload bytes no table can be full at the end of a run within
  those bounds, so a run that can only be stopped by a full table succeeds.\<close>

definition has_room :: "V2AvlSequence \<Rightarrow> nat \<Rightarrow> nat \<Rightarrow> bool" where
  "has_room a n p \<longleftrightarrow> length (seq_nodes a) + n < V2_NONE_NODE \<and>
     length (seq_payload a) + p + MAX_LEAF_PAYLOAD_BYTES < width64"

lemma memory_run_succeeds:
  assumes "spec m (a, k) mem.grows (mem.stopped E) Q" and "meter.within n p m (a, k)"
    and "has_room a n p" and "refused E = {}"
  shows "\<exists>x s'. m (a, k) = Some (Inr x, s') \<and> mem.grows (a, k) s' \<and> Q x s' \<and>
    length (seq_nodes (fst s')) \<le> length (seq_nodes a) + n \<and> length (seq_payload (fst s')) \<le> length (seq_payload a) + p"
  using assms(1)
proof (cases rule: specE)
  case (Err e s')
  then show ?thesis
    using meter.withinD [OF assms(2) Err(1)] assms(3,4)
    by (auto simp: mem.stopped_def arena_full_def has_room_def split: if_splits)
next
  case (Ok x s')
  then show ?thesis
    using meter.withinD [OF assms(2) Ok(1)] by auto
qed

lemma splice_succeeds:
  assumes wf: "arena_wf E a" and src: "source_of E a parent src" and ok: "edit_allowed parent src off del ins"
    and room: "has_room a (splice_nodes ins) (splice_payload ins)" and granted: "refused E = {}"
  shows "\<exists>res a'. splice_seq E parent off del ins a = Some (Inr res, a')"
proof -
  obtain pt where pt: "rel_option (rep E (seq_payload a) (seq_nodes a)) parent pt" "ocontent pt = src"
    by (rule source_rep [OF wf src])
  have e: "mem.edit_fits pt off del ins"
    using edit_allowed_fits [of parent pt off del ins] ok pt(2) by simp
  have od: "mem.odenotes E (a, 0) parent pt"
    using pt(1) unfolding mem.odenotes_def mem.denotes_def [abs_def] by simp
  have good: "memory_good a"
    by (rule wf_good [OF wf])
  have bounds: "off + del \<le> length (ocontent pt)" "length (ocontent pt) - del + length ins < width64"
    "0 < length (ocontent pt) - del + length ins"
    using e unfolding mem.edit_fits_def by blast+
  obtain t where t: "tree_splice pt off del ins = Some t"
    using tree_splice_correct [OF mem.odenotes_ofits [OF od] bounds] by blast
  have s: "spec (splice_inner_on E memory_arena parent off del ins) (a, 0) mem.grows (mem.stopped E)
      (\<lambda>root s'. mem.denotes E s' root t)"
    using good by (intro mem.spec_splice_inner [OF _ od e t]) simp
  have w: "meter.within (splice_nodes ins) (splice_payload ins) (splice_inner_on E memory_arena parent off del ins) (a, 0)"
    using good by (intro meter.within_splice_inner [OF _ od e]) simp
  have "splice_checks E memory_arena a parent off del ins = Inr ()"
    using mem.splice_checks_total [OF good od e] ok by (auto simp: edit_allowed_def)
  then show ?thesis
    using memory_run_succeeds [OF s w room granted]
    by (auto simp: splice_seq_def splice_on_def Let_def)
qed

lemma rep_commit_read:
  assumes "arena_wf E a" and "rep E (seq_payload a) (seq_nodes a) root t"
  shows "read_range E a root 0 (root_len root) = Some (Inr (content t))"
  using read_range_rep [OF wf_good [OF assms(1)] assms(2), of 0 "root_len root"] rep_metadata [OF assms(2)]
  by (simp add: tlen_def)

text \<open>
  C16.  Joining keeps versions balanced, at logarithmic cost.  In a well-formed arena with room, and
  when no reservation is refused, joining two resolvable roots whose lengths sum to less than
  \<open>2 ^ 64\<close> succeeds: the result reads as the bytes of the first followed by those of the second, its
  height is that of the higher operand or one more and is logarithmic in its length, the arena stays
  well formed and only grows, and it grows by at most three nodes per level of the height difference
  and one more, and by no payload.
\<close>

theorem concat_balances:
  assumes "arena_wf E a" and "read_range E a l 0 (root_len l) = Some (Inr ls)"
    and "read_range E a r 0 (root_len r) = Some (Inr rs)" and "length ls + length rs < width64"
    and "length (seq_nodes a) + 3 * abs_diff (root_height l) (root_height r) + 1 < V2_NONE_NODE"
    and "length (seq_payload a) + MAX_LEAF_PAYLOAD_BYTES < width64"
    and "\<And>m n. try_reserve E m n"
  shows "\<exists>root a' k'. concat_on E memory_arena l r (a, k) = Some (Inr root, (a', k')) \<and>
    arena_wf E a' \<and> memory_ext a a' \<and> seq_payload a' = seq_payload a \<and>
    length (seq_nodes a') \<le> length (seq_nodes a) + 3 * abs_diff (root_height l) (root_height r) + 1 \<and>
    read_range E a' root 0 (root_len root) = Some (Inr (ls @ rs)) \<and>
    root_height root \<in> {max (root_height l) (root_height r), max (root_height l) (root_height r) + 1} \<and>
    2 ^ ((root_height root - 1) div 2) \<le> root_len root \<and> root_height root \<le> 128"
proof -
  obtain lt rt where t: "rep E (seq_payload a) (seq_nodes a) l lt" "rep E (seq_payload a) (seq_nodes a) r rt"
    using assms(2,3) read_range_resolves wf_resolves_iff [OF assms(1)] by blast
  have c: "content lt = ls" "content rt = rs"
    using rep_commit_read [OF assms(1)] t assms(2,3) by auto
  note m = rep_metadata [OF t(1)] rep_metadata [OF t(2)]
  let ?n = "3 * abs_diff (theight lt) (theight rt) + 1" and ?u = "tree_concat lt rt"
  have g: "memory_good (fst (a, k))"
    using wf_good [OF assms(1)] by simp
  have d: "mem.denotes E (a, k) l lt" "mem.denotes E (a, k) r rt"
    using t by (simp_all add: mem.denotes_def)
  have len: "tlen lt + tlen rt < width64"
    using assms(4) c by (simp add: tlen_def)
  have "has_room a ?n 0" "refused E = {}"
    using assms(5-7) m by (simp_all add: has_room_def refused_def)
  from memory_run_succeeds [OF mem.spec_concat [OF g d len] meter.within_concat [OF g d len] this]
  obtain root a' k' where run: "concat_on E memory_arena l r (a, k) = Some (Inr root, (a', k'))"
    and rep: "rep E (seq_payload a') (seq_nodes a') root ?u"
    and n: "length (seq_nodes a') \<le> length (seq_nodes a) + ?n" "length (seq_payload a') \<le> length (seq_payload a)"
    by (auto simp: mem.denotes_def)
  have ext: "memory_ext a a'" and wf: "arena_wf E a'"
    using ext_frame.framedD [OF ext_frame.framed_concat run] wf_frame.framedD [OF wf_frame.framed_concat run] assms(1)
    by (simp_all add: ext_frame.framed_at_def wf_frame.framed_at_def)
  have "seq_payload a' = seq_payload a"
    using ext n(2) by (auto simp: memory_ext_def extends_def)
  moreover have "bounded_avl lt" "bounded_avl rt"
    using m fits_avl by blast+
  note h = concat_avl [OF this]
  ultimately show ?thesis
    using run wf ext n(1) rep_commit_read [OF wf rep] rep_metadata [OF rep] m avl_height_length [of ?u] fits_height [of ?u] h c
    by (intro exI [of _ root] exI [of _ a'] exI [of _ k']) auto
qed

theorem concat_balances_witness:
  "\<exists>root a' k'. concat_on sample_env memory_arena sample_root sample_root (sample_seq, 0) = Some (Inr root, (a', k')) \<and>
    arena_wf sample_env a' \<and> length (seq_nodes a') \<le> 2 \<and>
    read_range sample_env a' root 0 (root_len root) = Some (Inr [10, 20, 30, 10, 20, 30]) \<and> root_height root \<in> {1, 2}"
proof -
  have rd: "read_range sample_env sample_seq sample_root 0 (root_len sample_root) = Some (Inr [10, 20, 30])"
    using sample_source by (simp add: source_of_def)
  have h: "root_height sample_root = 1" "length (seq_nodes sample_seq) = 1" "length (seq_payload sample_seq) = 3"
    by (simp_all add: sample_root_def sample_seq_def)
  have w: "length [10, 20, 30 :: byte] + length [10, 20, 30 :: byte] < width64"
    "length (seq_nodes sample_seq) + 3 * abs_diff (root_height sample_root) (root_height sample_root) + 1 < V2_NONE_NODE"
    "length (seq_payload sample_seq) + MAX_LEAF_PAYLOAD_BYTES < width64"
    unfolding h by (simp_all add: abs_diff_def V2_NONE_NODE_def MAX_LEAF_PAYLOAD_BYTES_def width64_def)
  have granted: "try_reserve sample_env m n" for m n
    by (simp add: sample_env_def)
  from concat_balances [OF sample_wf rd rd w granted, of 0] show ?thesis
    unfolding h by (elim exE conjE, intro exI conjI) (assumption | simp add: abs_diff_def numeral_2_eq_2)+
qed

end
