(* ===== verification/Sequence_Contract.thy ===== *)
theory Sequence_Contract
  imports Sequence_Seam Avl_Budget
begin

text \<open>
  What the history store relies on from a sequence backend, as the locale \<open>sequence_backend\<close>:
  opaque roots denote byte strings, a splice adds the root of the edited string and keeps every
  older denotation, reads return slices, and compaction carries the denotation of each retained
  root over to its new root.  The in-memory backend of \<open>persistent_sequence.rs\<close> satisfies the
  contract (\<open>seam\<close>, at the end), by the results on the arena.
\<close>

section \<open>Operands\<close>

text \<open>An edit of \<open>src\<close> the sequence accepts; \<open>fresh\<close> tells a root creation from an edit of a parent.\<close>

definition edit_ok :: "bool \<Rightarrow> byte list \<Rightarrow> nat \<Rightarrow> nat \<Rightarrow> byte list \<Rightarrow> bool" where
  "edit_ok fresh src off del ins \<longleftrightarrow> off + del \<le> length src \<and> length src - del + length ins < width64 \<and>
     length src - del + length ins \<noteq> 0 \<and> (fresh \<or> del \<noteq> 0 \<or> ins \<noteq> [])"

lemma edit_ok_allowed: "edit_ok (parent = None) src off del ins \<longleftrightarrow> edit_allowed parent src off del ins"
proof (cases "off + del \<le> length src")
  case True
  have "edit src off del ins \<noteq> [] \<longleftrightarrow> length src - del + length ins \<noteq> 0"
    by (metis True length_0_conv length_edit)
  then show ?thesis
    by (simp only: edit_ok_def edit_allowed_def)
qed (simp add: edit_ok_def edit_allowed_def)

lemma edit_ok_result:
  assumes "edit_ok fresh src off del ins"
  shows "edit src off del ins \<noteq> []" "length (edit src off del ins) = length src - del + length ins"
    "length (edit src off del ins) < width64"
proof -
  have len: "length (edit src off del ins) = length src - del + length ins"
    using assms by (intro length_edit) (simp add: edit_ok_def)
  then show "length (edit src off del ins) = length src - del + length ins"
    "length (edit src off del ins) < width64"
    using assms unfolding len by (simp_all only: edit_ok_def)
  have "length (edit src off del ins) \<noteq> 0"
    unfolding len using assms unfolding edit_ok_def by blast
  then show "edit src off del ins \<noteq> []"
    by auto
qed

section \<open>The contract\<close>

locale sequence_backend =
  fixes E :: env and P :: "'p PhysicalContent"
    and content_ok :: "'p BalancedSequence \<Rightarrow> bool"
    and denotes :: "'p BalancedSequence \<Rightarrow> PersistentRoot \<Rightarrow> byte list \<Rightarrow> bool"
    and exhausted :: "SequenceError \<Rightarrow> bool"
  assumes ephemeral: "content_ok b \<Longrightarrow> \<not> backend_is_physical b"
    and denotes_length: "denotes b root bs \<Longrightarrow> proot_logical_len root = length bs \<and> length bs < width64"
    and denotes_inject: "denotes b root bs \<Longrightarrow> denotes b root cs \<Longrightarrow> cs = bs"
    and splice_law: "content_ok b \<Longrightarrow> (case parent of None \<Rightarrow> src = [] | Some root \<Rightarrow> denotes b root src) \<Longrightarrow>
      edit_ok (parent = None) src off del ins \<Longrightarrow>
      (\<exists>e. seam_splice E P parent off del ins b = Some (Inl e, b) \<and> exhausted e) \<or>
      (\<exists>res b'. seam_splice E P parent off del ins b = Some (Inr res, b') \<and> content_ok b' \<and>
         denotes b' (result_root res) (edit src off del ins) \<and> (\<forall>root bs. denotes b root bs \<longrightarrow> denotes b' root bs))"
    and read_law: "content_ok b \<Longrightarrow> denotes b root bs \<Longrightarrow> SequenceRange_new off len = Some rng \<Longrightarrow>
      \<exists>b'. seam_read_range E P root rng out b = Some
          (if length bs < off + len
           then Inl (SequenceError.Avl (V2AvlError.Invalid ''v2 range exceeds root logical length''))
           else Inr (out @ take len (drop off bs)), b') \<and> content_ok b' \<and> denotes b' = denotes b"
    and verify_law: "content_ok b \<Longrightarrow> denotes b root bs \<Longrightarrow>
      \<exists>b'. seam_verify E P root b = Some (Inr (), b') \<and> content_ok b' \<and> denotes b' = denotes b"
    and compact_law: "content_ok b \<Longrightarrow> list_all2 (denotes b) roots bss \<Longrightarrow>
      node_count P b + length roots < width64 - 1 \<Longrightarrow>
      (\<exists>e. seam_compact_to_roots E P b roots = Inl e \<and> exhausted e) \<or>
      (\<exists>c. seam_compact_to_roots E P b roots = Inr c \<and> content_ok (compacted_backend c) \<and>
         list_all2 (denotes (compacted_backend c)) (compacted_roots c) bss \<and>
         compacted_nodes_after c \<le> compacted_nodes_before c \<and>
         compacted_payload_bytes_after c \<le> compacted_payload_bytes_before c)"

text \<open>A backend that can tell when it has room: with room, and when no reservation is refused, a splice
  that the contract allows succeeds.\<close>

locale roomy_backend = sequence_backend E P content_ok denotes exhausted
  for E :: env and P :: "'p PhysicalContent" and content_ok :: "'p BalancedSequence \<Rightarrow> bool"
    and denotes :: "'p BalancedSequence \<Rightarrow> PersistentRoot \<Rightarrow> byte list \<Rightarrow> bool" and exhausted :: "SequenceError \<Rightarrow> bool" +
  fixes room_for :: "'p BalancedSequence \<Rightarrow> byte list \<Rightarrow> bool"
  assumes room_law: "content_ok b \<Longrightarrow> (case parent of None \<Rightarrow> src = [] | Some root \<Rightarrow> denotes b root src) \<Longrightarrow>
      edit_ok (parent = None) src off del ins \<Longrightarrow> room_for b ins \<Longrightarrow> \<forall>m n. try_reserve E m n \<Longrightarrow>
      \<exists>res b'. seam_splice E P parent off del ins b = Some (Inr res, b')"

section \<open>The in-memory backend\<close>

definition arena_denotes :: "env \<Rightarrow> V2AvlSequence \<Rightarrow> PersistentRoot \<Rightarrow> byte list \<Rightarrow> bool" where
  "arena_denotes E a root bs \<longleftrightarrow> (\<exists>r t. root = balanced_v2 (root_node_id r) (root_len r) \<and>
     rep E (seq_payload a) (seq_nodes a) r t \<and> content t = bs)"

definition memory_ok :: "env \<Rightarrow> 'p BalancedSequence \<Rightarrow> bool" where
  "memory_ok E b \<longleftrightarrow> (\<exists>a. backend b = Memory a \<and> arena_wf E a)"

definition memory_denotes :: "env \<Rightarrow> 'p BalancedSequence \<Rightarrow> PersistentRoot \<Rightarrow> byte list \<Rightarrow> bool" where
  "memory_denotes E b root bs \<longleftrightarrow> (\<exists>a. backend b = Memory a \<and> arena_denotes E a root bs)"

text \<open>The errors that mean a lack of memory or of identifiers.\<close>

definition memory_exhausted :: "env \<Rightarrow> SequenceError \<Rightarrow> bool" where
  "memory_exhausted E e \<longleftrightarrow>
     (\<exists>x. e = SequenceError.Avl x \<and> x \<in> refused E \<union> node_table_full \<union> payload_table_full) \<or>
     (\<exists>m n. e \<in> {SequenceError.Avl (V2AvlError.Capacity m), SequenceError.Capacity m} \<and> \<not> try_reserve E m n)"

lemma rep_root_for_node:
  assumes "rep E (seq_payload a) (seq_nodes a) r t"
  shows "root_for_node_id a (root_node_id r) = Inr r"
  using child_ok_root_for_node [OF rep_child_ok [OF assms], of "seq_payload a"] by (cases a) simp

lemma arena_denotesE:
  assumes "arena_denotes E a root bs"
  obtains r t where "root_for_node_id a (proot_node_id root) = Inr r" "root_len r = proot_logical_len root"
    "representation root = BalancedV2" "rep E (seq_payload a) (seq_nodes a) r t" "content t = bs"
    "proot_logical_len root = length bs" "length bs < width64"
proof -
  obtain r t where r: "root = balanced_v2 (root_node_id r) (root_len r)"
    "rep E (seq_payload a) (seq_nodes a) r t" "content t = bs"
    using assms by (auto simp: arena_denotes_def)
  have "root_len r = length bs" "length bs < width64"
    using rep_metadata [OF r(2)] r(3) fits_len [of t] by (auto simp: tlen_def)
  with r rep_root_for_node [OF r(2)] show thesis
    by (intro that [of r t]) (auto simp: balanced_v2_def)
qed

lemma resolve_memory:
  assumes "backend b = Memory a" "arena_denotes E a root bs"
  obtains r t where "resolve P b root = Inr r" "rep E (seq_payload a) (seq_nodes a) r t" "content t = bs"
    "root_len r = length bs"
  using assms(2) by (rule arena_denotesE) (auto simp: resolve_def assms(1) intro: that)

lemma arena_denotesI:
  assumes "rep E (seq_payload a) (seq_nodes a) r t"
  shows "arena_denotes E a (balanced_v2 (root_node_id r) (root_len r)) (content t)"
  unfolding arena_denotes_def using assms by blast

lemma arena_denotes_ext: "memory_ext a a' \<Longrightarrow> arena_denotes E a root bs \<Longrightarrow> arena_denotes E a' root bs"
  unfolding arena_denotes_def memory_ext_def by (blast intro: rep_extends)

lemma arena_denotes_inject:
  assumes d: "arena_denotes E a root bs" "arena_denotes E a root cs"
  shows "cs = bs"
proof -
  obtain r t where r: "root_for_node_id a (proot_node_id root) = Inr r" "rep E (seq_payload a) (seq_nodes a) r t"
    "content t = bs"
    by (rule arena_denotesE [OF d(1)])
  obtain r' t' where r': "root_for_node_id a (proot_node_id root) = Inr r'"
    "rep E (seq_payload a) (seq_nodes a) r' t'" "content t' = cs"
    by (rule arena_denotesE [OF d(2)])
  have "r' = r"
    using r r' by simp
  with r r' show ?thesis
    using rep_unique by blast
qed

text \<open>A splice on the in-memory backend is a splice of its arena, at the resolved parent.\<close>

lemma memory_splice_run:
  fixes b :: "'p BalancedSequence" and P :: "'p PhysicalContent"
  assumes b: "backend b = Memory a" and wf: "arena_wf E a"
    and src: "case parent of None \<Rightarrow> src = [] | Some root \<Rightarrow> memory_denotes E b root src"
    and ok: "edit_ok (parent = None) src off del ins"
  shows "\<exists>resolved. source_of E a resolved src \<and> edit_allowed resolved src off del ins \<and>
    (\<forall>e a'. splice_seq E resolved off del ins a = Some (Inl e, a') \<longrightarrow>
      seam_splice E P parent off del ins b = Some (Inl (SequenceError.Avl e), b\<lparr>backend := Memory a'\<rparr>)) \<and>
    (\<forall>res a'. splice_seq E resolved off del ins a = Some (Inr res, a') \<longrightarrow>
      (\<exists>y b'. seam_splice E P parent off del ins b = Some (Inr y, b') \<and> backend b' = Memory a' \<and>
        result_root y = balanced_v2 (root_node_id (splice_root res)) (root_len (splice_root res))))"
proof -
  obtain resolved where res: "resolve_option P b parent = Inr resolved" "source_of E a resolved src"
    "(resolved = None) = (parent = None)" "(case resolved of None \<Rightarrow> 0 | Some r \<Rightarrow> root_len r) = length src"
  proof (cases parent)
    case None
    with src that [of None] show thesis
      by (simp add: resolve_option_def source_of_def)
  next
    case (Some root)
    with src b have d: "arena_denotes E a root src"
      by (simp add: memory_denotes_def)
    obtain r t where r: "resolve P b root = Inr r" "rep E (seq_payload a) (seq_nodes a) r t" "content t = src"
      "root_len r = length src"
      by (rule resolve_memory [OF b d])
    with Some that [of "Some r"] read_range_rep [OF wf_good [OF wf] r(2), of 0 "length src"] show thesis
      by (simp add: resolve_option_def source_of_def tlen_def)
  qed
  have len: "checked_sub (length src) del = Some (length src - del)"
    "checked_add width64 (length src - del) (length ins) = Some (length src - del + length ins)"
    "try_from width64 (length ins) = Some (length ins)"
    using ok by (auto simp: edit_ok_def checked_iffs)
  have phys: "\<not> backend_is_physical b"
    by (simp add: backend_is_physical_def b)
  note run = seam_splice_def readP_def res(1) res(4) len phys Let_def memory_splice_def b modifyP_def
  have "edit_allowed resolved src off del ins"
    using ok res(3) by (simp add: edit_ok_allowed [symmetric])
  then show ?thesis
    using res(2) by (intro exI [of _ resolved]) (auto simp: bindP_def run note_written_def)
qed

lemma memory_splice_law:
  assumes b: "backend b = Memory a" and wf: "arena_wf E a"
    and src: "case parent of None \<Rightarrow> src = [] | Some root \<Rightarrow> memory_denotes E b root src"
    and ok: "edit_ok (parent = None) src off del ins"
  shows "(\<exists>e. seam_splice E P parent off del ins b = Some (Inl e, b) \<and> memory_exhausted E e) \<or>
    (\<exists>res b'. seam_splice E P parent off del ins b = Some (Inr res, b') \<and> memory_ok E b' \<and>
       memory_denotes E b' (result_root res) (edit src off del ins) \<and>
       (\<forall>root bs. memory_denotes E b root bs \<longrightarrow> memory_denotes E b' root bs))"
proof -
  obtain resolved where m: "source_of E a resolved src" "edit_allowed resolved src off del ins"
    and err: "\<And>e a'. splice_seq E resolved off del ins a = Some (Inl e, a') \<Longrightarrow>
      seam_splice E P parent off del ins b = Some (Inl (SequenceError.Avl e), b\<lparr>backend := Memory a'\<rparr>)"
    and done': "\<And>res a'. splice_seq E resolved off del ins a = Some (Inr res, a') \<Longrightarrow>
      \<exists>y b'. seam_splice E P parent off del ins b = Some (Inr y, b') \<and> backend b' = Memory a' \<and>
        result_root y = balanced_v2 (root_node_id (splice_root res)) (root_len (splice_root res))"
    using memory_splice_run [OF assms, of P] by blast
  have same: "b\<lparr>backend := Memory a\<rparr> = b"
    using b by simp
  from splice_outcome [OF wf m] show ?thesis
  proof (elim disjE exE conjE)
    fix e
    assume "splice_seq E resolved off del ins a = Some (Inl e, a)"
      "e \<in> refused E \<union> node_table_full \<union> payload_table_full"
    then show ?thesis
      using err same by (intro disjI1) (auto simp: memory_exhausted_def)
  next
    fix res a' t
    assume s: "splice_seq E resolved off del ins a = Some (Inr res, a')"
      and t: "rep E (seq_payload a') (seq_nodes a') (splice_root res) t" "content t = edit src off del ins"
    have "memory_ext a a'" "arena_wf E a'"
      using splice_frame [OF s] wf by auto
    then show ?thesis
      using done' [OF s] arena_denotesI [OF t(1)] t(2) b
      by (intro disjI2) (fastforce simp: memory_ok_def memory_denotes_def intro: arena_denotes_ext)
  qed
qed

text \<open>Room in the arena of the backend for an edit that inserts \<open>ins\<close>; with it, a splice cannot fail.\<close>

definition memory_room :: "'p BalancedSequence \<Rightarrow> byte list \<Rightarrow> bool" where
  "memory_room b ins \<longleftrightarrow> (case backend b of
     Memory a \<Rightarrow> has_room a (splice_nodes ins) (splice_payload ins)
   | Physical _ \<Rightarrow> False)"

lemma memory_splice_succeeds:
  assumes "backend b = Memory a" and "arena_wf E a"
    and "case parent of None \<Rightarrow> src = [] | Some root \<Rightarrow> memory_denotes E b root src"
    and "edit_ok (parent = None) src off del ins" and "memory_room b ins" and "\<forall>m n. try_reserve E m n"
  shows "\<exists>res b'. seam_splice E P parent off del ins b = Some (Inr res, b')"
proof -
  obtain resolved where m: "source_of E a resolved src" "edit_allowed resolved src off del ins"
    and "\<And>res a'. splice_seq E resolved off del ins a = Some (Inr res, a') \<Longrightarrow>
      \<exists>y b'. seam_splice E P parent off del ins b = Some (Inr y, b') \<and> backend b' = Memory a' \<and>
        result_root y = balanced_v2 (root_node_id (splice_root res)) (root_len (splice_root res))"
    using memory_splice_run [OF assms(1-4), of P] by blast
  moreover have "has_room a (splice_nodes ins) (splice_payload ins)" "refused E = {}"
    using assms(1,5,6) by (simp_all add: memory_room_def refused_def)
  ultimately show ?thesis
    using splice_succeeds [OF assms(2) m] by blast
qed

lemma memory_read_law:
  assumes b: "backend b = Memory a" and wf: "arena_wf E a" and d: "memory_denotes E b root bs"
    and rng: "SequenceRange_new off len = Some rng"
  shows "\<exists>b'. seam_read_range E P root rng out b = Some
      (if length bs < off + len
       then Inl (SequenceError.Avl (V2AvlError.Invalid ''v2 range exceeds root logical length''))
       else Inr (out @ take len (drop off bs)), b') \<and> memory_ok E b' \<and> memory_denotes E b' = memory_denotes E b"
proof -
  have d': "arena_denotes E a root bs"
    using d b by (simp add: memory_denotes_def)
  obtain r t where r: "resolve P b root = Inr r" "rep E (seq_payload a) (seq_nodes a) r t" "content t = bs"
    by (rule resolve_memory [OF b d'])
  have w: "off + len < width64" "range_offset rng = off" "range_length rng = len"
    using rng by (auto simp: SequenceRange_new_def checked_iffs)
  obtain y where y: "read_range_counted E a r off len = Some y"
    "map_sum id fst y = (if length bs < off + len
       then Inl (V2AvlError.Invalid ''v2 range exceeds root logical length'') else Inr (take len (drop off bs)))"
    using read_range_rep_exact [OF wf_good [OF wf] r(2), of off len] w(1) r(3)
    by (auto simp: read_range_def read_range_counted_def tlen_def)
  show ?thesis
    using y(2) wf b
    by (cases y) (auto simp: seam_read_range_def bindP_def readP_def modifyP_def r(1) b w y(1) note_read_def
        memory_ok_def memory_denotes_def fun_eq_iff split: if_splits)
qed

lemma memory_verify_law:
  assumes b: "backend b = Memory a" and wf: "arena_wf E a" and d: "memory_denotes E b root bs"
  shows "\<exists>b'. seam_verify E P root b = Some (Inr (), b') \<and> memory_ok E b' \<and> memory_denotes E b' = memory_denotes E b"
proof -
  have d': "arena_denotes E a root bs"
    using d b by (simp add: memory_denotes_def)
  obtain r t where r: "resolve P b root = Inr r" "rep E (seq_payload a) (seq_nodes a) r t" "content t = bs"
    by (rule resolve_memory [OF b d'])
  show ?thesis
    using mem.verify_root_complete [OF wf_good [OF wf] r(2)] wf
    by (auto simp: seam_verify_def bindP_def readP_def modifyP_def r(1) b verify_root_counted_def note_read_def
        memory_ok_def memory_denotes_def fun_eq_iff)
qed

subsection \<open>Compaction\<close>

lemma distinct_sum_le:
  fixes f :: "nat \<Rightarrow> nat"
  assumes "distinct is" "set is \<subseteq> {..<n}"
  shows "sum_list (map f is) \<le> sum_list (map f [0..<n])"
proof -
  have "sum_list (map f is) = sum f (set is)"
    using assms(1) by (rule sum_list_distinct_conv_sum_set)
  also have "\<dots> \<le> sum f {..<n}"
    using assms(2) by (intro sum_mono2) auto
  finally show ?thesis
    by (simp add: interv_sum_list_conv_sum_set_nat atLeast0LessThan)
qed

lemma compacted_smaller:
  assumes s: "selection E (seq_payload a) (seq_nodes a) ids" and wf: "arena_wf E a"
  shows "length (seq_nodes (compacted a ids)) \<le> length (seq_nodes a)"
    "length (seq_payload (compacted a ids)) \<le> length (seq_payload a)"
proof -
  have d: "distinct ids" "set ids \<subseteq> {..<length (seq_nodes a)}"
    using selectionD(3,4) [OF s] by (auto dest: strict_sorted_imp_sorted simp: strict_sorted_iff)
  have "length ids \<le> length (seq_nodes a)"
    using distinct_sum_le [OF d, of "\<lambda>_. 1"] by (simp add: sum_list_triv)
  then show "length (seq_nodes (compacted a ids)) \<le> length (seq_nodes a)"
    by (simp add: compacted_def moved_nodes_def)
  have "new_offset (seq_nodes a) ids (length ids) \<le> covered (seq_nodes a)"
  proof -
    have "map (\<lambda>i. leaf_bytes (seq_nodes a ! i)) [0..<length (seq_nodes a)] = map leaf_bytes (seq_nodes a)"
      by (rule nth_equalityI) simp_all
    then show ?thesis
      using distinct_sum_le [OF d, of "\<lambda>i. leaf_bytes (seq_nodes a ! i)"]
      by (simp add: new_offset_def covered_def comp_def)
  qed
  then show "length (seq_payload (compacted a ids)) \<le> length (seq_payload a)"
    using length_compact_bytes [OF s] wf by (simp add: compacted_def arena_wf_def)
qed

lemma resolve_all_memory:
  assumes b: "backend b = Memory a"
  shows "list_all2 (memory_denotes E b) roots bss \<Longrightarrow> \<exists>canonical. traverse (resolve P b) roots = Inr canonical \<and>
    list_all2 (\<lambda>r bs. \<exists>t. rep E (seq_payload a) (seq_nodes a) r t \<and> content t = bs) canonical bss"
proof (induction rule: list_all2_induct)
  case (Cons root roots bs bss)
  then have d: "arena_denotes E a root bs"
    using b by (simp add: memory_denotes_def)
  obtain r t where "resolve P b root = Inr r" "rep E (seq_payload a) (seq_nodes a) r t" "content t = bs"
    by (rule resolve_memory [OF b d])
  with Cons.IH show ?case
    by auto
qed simp

lemma memory_denotes_arena: "backend b = Memory a \<Longrightarrow> memory_denotes E b = arena_denotes E a"
  by (simp add: memory_denotes_def fun_eq_iff)

lemma u64_or_max_mono: "n \<le> m \<Longrightarrow> u64_or_max n \<le> u64_or_max m"
  unfolding u64_or_max_def by (simp split: if_splits) linarith

lemma memory_compact_law:
  assumes sha: "sha_ok E" and b: "backend b = Memory a" and wf: "arena_wf E a"
    and roots: "list_all2 (memory_denotes E b) roots bss" and room: "node_count P b + length roots < width64 - 1"
  shows "(\<exists>e. seam_compact_to_roots E P b roots = Inl e \<and> memory_exhausted E e) \<or>
    (\<exists>c. seam_compact_to_roots E P b roots = Inr c \<and> memory_ok E (compacted_backend c) \<and>
       list_all2 (memory_denotes E (compacted_backend c)) (compacted_roots c) bss \<and>
       compacted_nodes_after c \<le> compacted_nodes_before c \<and>
       compacted_payload_bytes_after c \<le> compacted_payload_bytes_before c)"
proof (cases "try_reserve E ''sequence compaction root table allocation failed'' (length roots)")
  case False
  then show ?thesis
    by (auto simp: seam_compact_to_roots_def b memory_exhausted_def)
next
  case True
  obtain canonical where c: "traverse (resolve P b) roots = Inr canonical"
    "list_all2 (\<lambda>r bs. \<exists>t. rep E (seq_payload a) (seq_nodes a) r t \<and> content t = bs) canonical bss"
    using resolve_all_memory [OF b roots] by blast
  let ?ids = "live_ids a canonical"
  have len: "length canonical = length roots"
    using c(1) by (auto simp: traverse_Inr_iff dest: list_all2_lengthD)
  have child: "\<forall>r\<in>set canonical. child_ok (seq_nodes a) r"
    using c(2) by (auto simp: list_all2_conv_all_nth in_set_conv_nth) (metis rep_child_ok)
  have room': "length (seq_nodes a) + length canonical < width64"
    using room len by (auto simp: node_count_def b u64_or_max_def split: if_splits)
  note run = seam_compact_to_roots_def b True c(1)
  from compact_outcome [OF sha wf child room'] show ?thesis
  proof (elim disjE exE conjE)
    fix m
    assume "compact_to_roots E a canonical = Inl (V2AvlError.Capacity m)" "reservation_refused E m"
    then show ?thesis
      by (auto simp: run memory_exhausted_def reservation_refused_def)
  next
    assume out: "compact_to_roots E a canonical = Inr (compacted a ?ids, map (moved_root ?ids) canonical)"
      and s: "selection E (seq_payload a) (seq_nodes a) ?ids"
      and ids: "set ?ids = reachable (seq_nodes a) (map root_node_id canonical)"
    have moved: "\<exists>t. rep E (seq_payload (compacted a ?ids)) (seq_nodes (compacted a ?ids)) (moved_root ?ids r) t \<and>
        content t = bs"
      if r: "r \<in> set canonical" "\<exists>t. rep E (seq_payload a) (seq_nodes a) r t \<and> content t = bs" for r bs
    proof -
      have "root_node_id r \<in> set ?ids"
        unfolding ids using r(1) by (intro reachable.seed) simp
      moreover obtain t where t: "rep E (seq_payload a) (seq_nodes a) r t" "content t = bs"
        using r(2) by blast
      ultimately show ?thesis
        using moved_rep [OF s t(1)] by (auto simp: compacted_def)
    qed
    have "list_all2 (arena_denotes E (compacted a ?ids)) (map seam_root (map (moved_root ?ids) canonical)) bss"
      unfolding list.rel_map
      using c(2)
    proof (rule list.rel_mono_strong)
      fix r bs
      assume "r \<in> set canonical" "\<exists>t. rep E (seq_payload a) (seq_nodes a) r t \<and> content t = bs"
      from moved [OF this] show "arena_denotes E (compacted a ?ids) (seam_root (moved_root ?ids r)) bs"
        by (auto simp only: seam_root_def intro: arena_denotesI)
    qed
    then show ?thesis
      using out compacted_wf [OF s] compacted_smaller [OF s wf] True len
      by (intro disjI2) (simp add: run memory_ok_def memory_denotes_arena node_count_def payload_len_def
          u64_or_max_mono)
  qed
qed

section \<open>The contract holds for the in-memory backend\<close>

text \<open>The backends of environments whose hash has 32 bytes.\<close>

definition seam_ok :: "env \<Rightarrow> 'p BalancedSequence \<Rightarrow> bool" where
  "seam_ok E b \<longleftrightarrow> sha_ok E \<and> memory_ok E b"

lemma seam_okE:
  assumes "seam_ok E b"
  obtains a where "sha_ok E" "backend b = Memory a" "arena_wf E a"
  using assms by (auto simp: seam_ok_def memory_ok_def)

interpretation seam: sequence_backend E P "seam_ok E" "memory_denotes E" "memory_exhausted E" for E P
proof unfold_locales
  fix b :: "'a BalancedSequence" and parent src off del ins root bs cs rng len out roots bss
  show "memory_denotes E b root bs \<Longrightarrow> proot_logical_len root = length bs \<and> length bs < width64"
    by (auto simp: memory_denotes_def elim: arena_denotesE)
  show "memory_denotes E b root bs \<Longrightarrow> memory_denotes E b root cs \<Longrightarrow> cs = bs"
    by (auto simp: memory_denotes_def dest: arena_denotes_inject)
  assume "seam_ok E b"
  then obtain a where a: "sha_ok E" "backend b = Memory a" "arena_wf E a"
    by (rule seam_okE)
  then show "\<not> backend_is_physical b"
    by (simp add: backend_is_physical_def)
  show "(\<exists>e. seam_splice E P parent off del ins b = Some (Inl e, b) \<and> memory_exhausted E e) \<or>
    (\<exists>res b'. seam_splice E P parent off del ins b = Some (Inr res, b') \<and> seam_ok E b' \<and>
       memory_denotes E b' (result_root res) (edit src off del ins) \<and>
       (\<forall>root bs. memory_denotes E b root bs \<longrightarrow> memory_denotes E b' root bs))"
    if "case parent of None \<Rightarrow> src = [] | Some root \<Rightarrow> memory_denotes E b root src"
      "edit_ok (parent = None) src off del ins"
    using memory_splice_law [OF a(2,3) that] a(1) by (simp add: seam_ok_def)
  show "\<exists>b'. seam_read_range E P root rng out b = Some
      (if length bs < off + len
       then Inl (SequenceError.Avl (V2AvlError.Invalid ''v2 range exceeds root logical length''))
       else Inr (out @ take len (drop off bs)), b') \<and> seam_ok E b' \<and> memory_denotes E b' = memory_denotes E b"
    if "memory_denotes E b root bs" "SequenceRange_new off len = Some rng"
    using memory_read_law [OF a(2,3) that] a(1) by (simp add: seam_ok_def)
  show "\<exists>b'. seam_verify E P root b = Some (Inr (), b') \<and> seam_ok E b' \<and> memory_denotes E b' = memory_denotes E b"
    if "memory_denotes E b root bs"
    using memory_verify_law [OF a(2,3) that] a(1) by (simp add: seam_ok_def)
  show "(\<exists>e. seam_compact_to_roots E P b roots = Inl e \<and> memory_exhausted E e) \<or>
    (\<exists>c. seam_compact_to_roots E P b roots = Inr c \<and> seam_ok E (compacted_backend c) \<and>
       list_all2 (memory_denotes E (compacted_backend c)) (compacted_roots c) bss \<and>
       compacted_nodes_after c \<le> compacted_nodes_before c \<and>
       compacted_payload_bytes_after c \<le> compacted_payload_bytes_before c)"
    if "list_all2 (memory_denotes E b) roots bss" "node_count P b + length roots < width64 - 1"
    using memory_compact_law [OF a that] a(1) by (simp add: seam_ok_def)
qed

interpretation roomy: roomy_backend E P "seam_ok E" "memory_denotes E" "memory_exhausted E" memory_room for E P
  by unfold_locales (auto elim!: seam_okE intro: memory_splice_succeeds)

end
