(* ===== verification/History_Spec.thy ===== *)
theory History_Spec
  imports History_Store Sequence_Contract
begin

text \<open>
  What the history store promises, without arenas, tables or reservations.  The abstract state
  lists every version ever committed with its bytes; an event is what one acknowledged operation
  adds to the history, and \<open>spec_apply\<close> is its effect.  \<open>spec_inv\<close> is the invariant of the
  catalogue and of the receipt ledger, and \<open>enabled\<close> the exact condition under which an event may
  happen; every enabled event keeps the invariant.
\<close>

section \<open>Abstract state and events\<close>

record HistorySpec =
  sp_histories :: nat
  sp_versions :: "(Version \<times> byte list) list"
  sp_expired :: "VersionId set"
  sp_active :: "byte list \<rightharpoonup> ActiveRequest"
  sp_retired :: "byte list \<rightharpoonup> digest"
  sp_order :: "byte list list"
  sp_hbind :: "HistoryId \<rightharpoonup> byte list"
  sp_vbind :: "VersionId \<rightharpoonup> byte list"

definition spec_new :: HistorySpec where
  "spec_new = \<lparr>sp_histories = 0, sp_versions = [], sp_expired = {}, sp_active = Map.empty,
     sp_retired = Map.empty, sp_order = [], sp_hbind = Map.empty, sp_vbind = Map.empty\<rparr>"

datatype HistoryEvent =
    HistoryCreated "byte list option"
  | VersionSpliced HistoryId "VersionId option" u64 u64 "byte list" "byte list option" "byte list option"
  | VersionForked HistoryId VersionId "byte list option" "byte list option"
  | VersionDropped VersionId
  | RequestRetired "byte list"

definition valid_key :: "byte list \<Rightarrow> bool" where
  "valid_key bs \<longleftrightarrow> bs \<noteq> [] \<and> length bs \<le> 4096"

definition valid_optional :: "byte list option \<Rightarrow> bool" where
  "valid_optional x \<longleftrightarrow> (\<forall>bs. x = Some bs \<longrightarrow> valid_key bs)"

definition sp_bytes :: "HistorySpec \<Rightarrow> VersionId option \<Rightarrow> byte list" where
  "sp_bytes a parent = (case parent of None \<Rightarrow> [] | Some p \<Rightarrow> snd (sp_versions a ! p))"

text \<open>Beyond the capacity the oldest identity is forgotten.\<close>

definition sp_forget :: "HistorySpec \<Rightarrow> HistorySpec" where
  "sp_forget a = (if length (sp_order a) > 4096
     then a\<lparr>sp_order := tl (sp_order a), sp_active := (sp_active a)(hd (sp_order a) := None),
            sp_retired := (sp_retired a)(hd (sp_order a) := None)\<rparr>
     else a)"

definition sp_receipt :: "byte list \<Rightarrow> digest \<Rightarrow> VersionId \<Rightarrow> HistorySpec \<Rightarrow> HistorySpec" where
  "sp_receipt rid dg vid a = sp_forget (a\<lparr>sp_order := sp_order a @ [rid],
     sp_active := (sp_active a)(rid \<mapsto> \<lparr>request_digest = dg, request_version = vid\<rparr>)\<rparr>)"

definition sp_commit ::
  "HistoryId \<Rightarrow> VersionId option \<Rightarrow> byte list \<Rightarrow> byte list option \<Rightarrow> byte list option \<Rightarrow> digest \<Rightarrow>
   HistorySpec \<Rightarrow> HistorySpec" where
  "sp_commit h parent bs rid binding dg a =
    (let vid = length (sp_versions a);
         v = \<lparr>version_history = h, version_id = vid, version_parent = parent\<rparr>;
         a1 = a\<lparr>sp_versions := sp_versions a @ [(v, bs)]\<rparr>;
         a2 = (case rid of None \<Rightarrow> a1 | Some r \<Rightarrow> sp_receipt r dg vid a1)
     in case binding of None \<Rightarrow> a2 | Some b \<Rightarrow> a2\<lparr>sp_vbind := (sp_vbind a2)(vid \<mapsto> b)\<rparr>)"

text \<open>Retire the receipts a predicate selects: their identities stay known, with the digest only.\<close>

definition sp_retire :: "(byte list \<Rightarrow> ActiveRequest \<Rightarrow> bool) \<Rightarrow> HistorySpec \<Rightarrow> HistorySpec" where
  "sp_retire sel a = a\<lparr>
     sp_active := (\<lambda>r. case sp_active a r of Some x \<Rightarrow> if sel r x then None else Some x | None \<Rightarrow> None),
     sp_retired := (\<lambda>r. case sp_active a r of
        Some x \<Rightarrow> if sel r x then Some (request_digest x) else sp_retired a r | None \<Rightarrow> sp_retired a r)\<rparr>"

fun spec_apply :: "env \<Rightarrow> HistoryEvent \<Rightarrow> HistorySpec \<Rightarrow> HistorySpec" where
  "spec_apply E (HistoryCreated binding) a = a\<lparr>sp_histories := Suc (sp_histories a),
     sp_hbind := (case binding of None \<Rightarrow> sp_hbind a | Some b \<Rightarrow> (sp_hbind a)(sp_histories a \<mapsto> b))\<rparr>"
| "spec_apply E (VersionSpliced h parent off del ins rid binding) a =
     sp_commit h parent (edit (sp_bytes a parent) off del ins) rid binding
       (history_splice_digest E h parent off del ins binding) a"
| "spec_apply E (VersionForked h p rid binding) a =
     sp_commit h (Some p) (sp_bytes a (Some p)) rid binding (history_fork_digest E h p binding) a"
| "spec_apply E (VersionDropped v) a =
     sp_retire (\<lambda>_ x. request_version x = v) (a\<lparr>sp_expired := insert v (sp_expired a)\<rparr>)"
| "spec_apply E (RequestRetired rid) a = sp_retire (\<lambda>r _. r = rid) a"

definition usable_parent :: "HistorySpec \<Rightarrow> HistoryId \<Rightarrow> VersionId \<Rightarrow> bool" where
  "usable_parent a h p \<longleftrightarrow> p < length (sp_versions a) \<and> p \<notin> sp_expired a \<and>
     version_history (fst (sp_versions a ! p)) = h"

text \<open>A new version: a known history, a free identifier, well-formed and unused keys.\<close>

definition commit_enabled :: "HistorySpec \<Rightarrow> HistoryId \<Rightarrow> byte list option \<Rightarrow> byte list option \<Rightarrow> bool" where
  "commit_enabled a h rid binding \<longleftrightarrow> h < sp_histories a \<and> Suc (length (sp_versions a)) < width64 \<and>
     valid_optional rid \<and> valid_optional binding \<and>
     (\<forall>r. rid = Some r \<longrightarrow> sp_active a r = None \<and> sp_retired a r = None)"

fun enabled :: "HistoryEvent \<Rightarrow> HistorySpec \<Rightarrow> bool" where
  "enabled (HistoryCreated binding) a \<longleftrightarrow> Suc (sp_histories a) < width64 \<and> valid_optional binding \<and>
     (\<forall>b. binding = Some b \<longrightarrow> b \<notin> ran (sp_hbind a))"
| "enabled (VersionSpliced h parent off del ins rid binding) a \<longleftrightarrow> commit_enabled a h rid binding \<and>
     (\<forall>p. parent = Some p \<longrightarrow> usable_parent a h p) \<and> edit_ok (parent = None) (sp_bytes a parent) off del ins"
| "enabled (VersionForked h p rid binding) a \<longleftrightarrow> commit_enabled a h rid binding \<and> usable_parent a h p"
| "enabled (VersionDropped v) a \<longleftrightarrow> v < length (sp_versions a) \<and> v \<notin> sp_expired a"
| "enabled (RequestRetired rid) a \<longleftrightarrow> valid_key rid \<and> sp_active a rid \<noteq> None"

section \<open>The invariant\<close>

definition catalogue_inv :: "HistorySpec \<Rightarrow> bool" where
  "catalogue_inv a \<longleftrightarrow> sp_histories a < width64 \<and> length (sp_versions a) < width64 \<and>
     (\<forall>i<length (sp_versions a). case sp_versions a ! i of (v, bs) \<Rightarrow>
        version_id v = i \<and> version_history v < sp_histories a \<and> bs \<noteq> [] \<and> length bs < width64 \<and>
        (\<forall>p. version_parent v = Some p \<longrightarrow>
           p < i \<and> version_history (fst (sp_versions a ! p)) = version_history v)) \<and>
     sp_expired a \<subseteq> {..<length (sp_versions a)}"

definition ledger_upto :: "nat \<Rightarrow> HistorySpec \<Rightarrow> bool" where
  "ledger_upto n a \<longleftrightarrow> distinct (sp_order a) \<and> set (sp_order a) = dom (sp_active a) \<union> dom (sp_retired a) \<and>
     dom (sp_active a) \<inter> dom (sp_retired a) = {} \<and> length (sp_order a) \<le> n \<and>
     (\<forall>r\<in>set (sp_order a). valid_key r) \<and> (\<forall>r d. sp_retired a r = Some d \<longrightarrow> length d = 32) \<and>
     (\<forall>r x. sp_active a r = Some x \<longrightarrow> request_version x < length (sp_versions a) \<and>
        request_version x \<notin> sp_expired a \<and> length (request_digest x) = 32 \<and>
        (\<forall>r' x'. sp_active a r' = Some x' \<longrightarrow> request_version x' = request_version x \<longrightarrow> r' = r))"

definition ledger_inv :: "HistorySpec \<Rightarrow> bool" where
  "ledger_inv a \<longleftrightarrow> ledger_upto 4096 a"

definition binding_inv :: "HistorySpec \<Rightarrow> bool" where
  "binding_inv a \<longleftrightarrow> dom (sp_hbind a) \<subseteq> {..<sp_histories a} \<and> inj_on (sp_hbind a) (dom (sp_hbind a)) \<and>
     (\<forall>b\<in>ran (sp_hbind a). valid_key b) \<and>
     dom (sp_vbind a) \<subseteq> {..<length (sp_versions a)} \<and> (\<forall>b\<in>ran (sp_vbind a). valid_key b)"

definition spec_inv :: "HistorySpec \<Rightarrow> bool" where
  "spec_inv a \<longleftrightarrow> catalogue_inv a \<and> ledger_inv a \<and> binding_inv a"

lemma spec_new_inv: "spec_inv spec_new"
  by (simp add: spec_inv_def catalogue_inv_def ledger_inv_def ledger_upto_def binding_inv_def spec_new_def)

lemma forget_other [simp]:
  "sp_histories (sp_forget a) = sp_histories a" "sp_versions (sp_forget a) = sp_versions a"
  "sp_expired (sp_forget a) = sp_expired a" "sp_hbind (sp_forget a) = sp_hbind a"
  "sp_vbind (sp_forget a) = sp_vbind a"
  by (simp_all add: sp_forget_def)

lemma receipt_other [simp]:
  "sp_histories (sp_receipt r dg v a) = sp_histories a" "sp_versions (sp_receipt r dg v a) = sp_versions a"
  "sp_expired (sp_receipt r dg v a) = sp_expired a" "sp_hbind (sp_receipt r dg v a) = sp_hbind a"
  "sp_vbind (sp_receipt r dg v a) = sp_vbind a"
  by (simp_all add: sp_receipt_def)

lemma retire_other [simp]:
  "sp_histories (sp_retire sel a) = sp_histories a" "sp_versions (sp_retire sel a) = sp_versions a"
  "sp_expired (sp_retire sel a) = sp_expired a" "sp_hbind (sp_retire sel a) = sp_hbind a"
  "sp_vbind (sp_retire sel a) = sp_vbind a" "sp_order (sp_retire sel a) = sp_order a"
  by (simp_all add: sp_retire_def)

lemma commit_other [simp]:
  "sp_histories (sp_commit h parent bs rid b dg a) = sp_histories a"
  "sp_versions (sp_commit h parent bs rid b dg a) = sp_versions a @
     [(\<lparr>version_history = h, version_id = length (sp_versions a), version_parent = parent\<rparr>, bs)]"
  "sp_expired (sp_commit h parent bs rid b dg a) = sp_expired a"
  "sp_hbind (sp_commit h parent bs rid b dg a) = sp_hbind a"
  "sp_vbind (sp_commit h parent bs rid b dg a) =
     (case b of None \<Rightarrow> sp_vbind a | Some x \<Rightarrow> (sp_vbind a)(length (sp_versions a) \<mapsto> x))"
  by (simp_all add: sp_commit_def Let_def split: option.split)

lemma catalogue_inv_commit:
  assumes "catalogue_inv a" "h < sp_histories a" "Suc (length (sp_versions a)) < width64"
    "\<forall>p. parent = Some p \<longrightarrow> usable_parent a h p" "bs \<noteq> []" "length bs < width64"
  shows "catalogue_inv (sp_commit h parent bs rid b dg a)"
  using assms unfolding catalogue_inv_def
  by (auto simp: nth_append less_Suc_eq usable_parent_def subset_iff split: prod.splits)

lemma ledger_inv_grow:
  assumes "ledger_inv a" "sp_order b = sp_order a" "sp_active b = sp_active a" "sp_retired b = sp_retired a"
    "sp_expired b = sp_expired a" "length (sp_versions a) \<le> length (sp_versions b)"
  shows "ledger_inv b"
  using assms by (auto simp: ledger_inv_def ledger_upto_def) (meson less_le_trans)

lemma ledger_forget:
  assumes led: "ledger_upto 4097 a"
  shows "ledger_inv (sp_forget a)"
proof (cases "sp_order a")
  case Nil
  with led show ?thesis
    by (simp add: ledger_inv_def ledger_upto_def sp_forget_def)
next
  case (Cons x xs)
  have dom: "set xs = (dom (sp_active a) - {x}) \<union> (dom (sp_retired a) - {x})"
    using led Cons by (auto simp: ledger_upto_def)
  have act: "((sp_active a)(x := None)) r = Some y \<longleftrightarrow> r \<noteq> x \<and> sp_active a r = Some y"
    "((sp_retired a)(x := None)) r = Some d \<longleftrightarrow> r \<noteq> x \<and> sp_retired a r = Some d" for r y d
    by simp_all
  show ?thesis
  proof (cases "length (sp_order a) > 4096")
    case False
    with led show ?thesis
      by (simp add: ledger_inv_def ledger_upto_def sp_forget_def)
  next
    case True
    then have "sp_forget a = a\<lparr>sp_order := xs, sp_active := (sp_active a)(x := None),
        sp_retired := (sp_retired a)(x := None)\<rparr>"
      by (simp add: sp_forget_def Cons)
    with led Cons dom show ?thesis
      unfolding ledger_inv_def ledger_upto_def
      by (simp add: act disjoint_iff del: fun_upd_apply) blast
  qed
qed

lemma ledger_inv_receipt:
  assumes inv: "ledger_inv a" and key: "valid_key r" "sp_active a r = None" "sp_retired a r = None"
    and v: "v < length (sp_versions a)" "v \<notin> sp_expired a" "\<forall>r x. sp_active a r = Some x \<longrightarrow> request_version x \<noteq> v"
    and dg: "length dg = 32"
  shows "ledger_inv (sp_receipt r dg v a)"
  unfolding sp_receipt_def
proof (rule ledger_forget)
  have act: "((sp_active a)(r \<mapsto> z)) q = Some x \<longleftrightarrow> q = r \<and> x = z \<or> q \<noteq> r \<and> sp_active a q = Some x" for q x z
    by auto
  show "ledger_upto 4097 (a\<lparr>sp_order := sp_order a @ [r],
      sp_active := (sp_active a)(r \<mapsto> \<lparr>request_digest = dg, request_version = v\<rparr>)\<rparr>)"
    using inv key v dg unfolding ledger_inv_def ledger_upto_def by (auto simp: act)
qed

lemma ledger_inv_commit:
  assumes inv: "ledger_inv a" and cat: "sp_expired a \<subseteq> {..<length (sp_versions a)}"
    and ok: "commit_enabled a h rid b" and dg: "length dg = 32"
  shows "ledger_inv (sp_commit h parent bs rid b dg a)"
proof -
  let ?v = "\<lparr>version_history = h, version_id = length (sp_versions a), version_parent = parent\<rparr>"
  let ?a = "a\<lparr>sp_versions := sp_versions a @ [(?v, bs)]\<rparr>"
  have inv': "ledger_inv ?a"
    by (rule ledger_inv_grow [OF inv]) simp_all
  have fresh: "\<forall>r x. sp_active a r = Some x \<longrightarrow> request_version x \<noteq> length (sp_versions a)"
    using inv unfolding ledger_inv_def ledger_upto_def by (metis less_irrefl)
  have "ledger_inv (sp_receipt r dg (length (sp_versions a)) ?a)" if "rid = Some r" for r
    using ok that cat fresh dg
    by (intro ledger_inv_receipt [OF inv']) (auto simp: commit_enabled_def valid_optional_def)
  then have "ledger_inv (case rid of None \<Rightarrow> ?a | Some r \<Rightarrow> sp_receipt r dg (length (sp_versions a)) ?a)"
    using inv' by (simp split: option.split)
  from ledger_inv_grow [OF this] this show ?thesis
    by (auto simp: sp_commit_def Let_def split: option.split)
qed

lemma ledger_inv_retire:
  assumes "ledger_inv a" "sp_expired b = sp_expired a \<or> (\<exists>v. sp_expired b = insert v (sp_expired a) \<and>
      (\<forall>r x. request_version x = v \<longrightarrow> sel r x))"
    "sp_versions b = sp_versions a" "sp_active b = sp_active a" "sp_retired b = sp_retired a" "sp_order b = sp_order a"
  shows "ledger_inv (sp_retire sel b)"
proof -
  have dom: "dom (sp_active (sp_retire sel b)) \<union> dom (sp_retired (sp_retire sel b)) = dom (sp_active a) \<union> dom (sp_retired a)"
    "dom (sp_active a) \<inter> dom (sp_retired a) = {} \<Longrightarrow>
      dom (sp_active (sp_retire sel b)) \<inter> dom (sp_retired (sp_retire sel b)) = {}"
    using assms(4,5) by (auto simp: sp_retire_def disjoint_iff dom_def split: option.splits if_splits)
  have act: "sp_active (sp_retire sel b) r = Some x \<longleftrightarrow> sp_active a r = Some x \<and> \<not> sel r x" for r x
    using assms(4) by (auto simp: sp_retire_def split: option.splits)
  have ret: "length d = 32" if "sp_retired (sp_retire sel b) r = Some d" for r d
    using assms(1,4,5) that by (auto simp: sp_retire_def ledger_inv_def ledger_upto_def split: option.splits if_splits)
  have exp: "x \<notin> sp_expired b" if "x \<notin> sp_expired a" "\<not> sel r y" "request_version y = x" for x r y
    using assms(2) that by auto
  show ?thesis
    using assms(1,3,6) dom exp ret unfolding ledger_inv_def ledger_upto_def act by auto
qed

lemma binding_inv_vbind:
  assumes "binding_inv a" "valid_optional b"
  shows "binding_inv (sp_commit h parent bs rid b dg a)"
  using assms by (auto simp: binding_inv_def valid_optional_def ran_def split: option.splits)

lemma spec_step_inv:
  assumes sha: "sha_ok E" and inv: "spec_inv a" and ok: "enabled ev a"
  shows "spec_inv (spec_apply E ev a)"
proof -
  have cat: "catalogue_inv a" and led: "ledger_inv a" and bnd: "binding_inv a"
    using inv by (auto simp: spec_inv_def)
  have ex: "sp_expired a \<subseteq> {..<length (sp_versions a)}"
    using cat by (simp add: catalogue_inv_def)
  show ?thesis
  proof (cases ev)
    case (HistoryCreated b)
    have "catalogue_inv (spec_apply E ev a)"
      using cat ok HistoryCreated by (fastforce simp: catalogue_inv_def)
    moreover have "ledger_inv (spec_apply E ev a)"
      by (rule ledger_inv_grow [OF led]) (simp_all add: HistoryCreated)
    moreover have "binding_inv (spec_apply E ev a)"
    proof (cases b)
      case None
      with bnd HistoryCreated show ?thesis
        by (auto simp: binding_inv_def)
    next
      case (Some x)
      have "inj_on ((sp_hbind a)(sp_histories a \<mapsto> x)) (insert (sp_histories a) (dom (sp_hbind a)))"
        using bnd ok HistoryCreated Some unfolding inj_on_def binding_inv_def
        by (auto dest: ranI ranI [OF sym])
      with bnd ok HistoryCreated Some show ?thesis
        by (auto simp: binding_inv_def valid_optional_def ran_def)
    qed
    ultimately show ?thesis
      by (simp add: spec_inv_def)
  next
    case (VersionSpliced h parent off del ins rid b)
    then have e: "commit_enabled a h rid b" "\<forall>p. parent = Some p \<longrightarrow> usable_parent a h p"
      "edit_ok (parent = None) (sp_bytes a parent) off del ins"
      using ok by simp_all
    show ?thesis
      using catalogue_inv_commit [OF cat _ _ e(2) edit_ok_result(1,3) [OF e(3)]] ledger_inv_commit [OF led ex e(1)] binding_inv_vbind [OF bnd]
        e(1) sha VersionSpliced by (simp add: spec_inv_def commit_enabled_def history_splice_digest_def)
  next
    case (VersionForked h p rid b)
    then have e: "commit_enabled a h rid b" "usable_parent a h p"
      using ok by simp_all
    obtain v bs where p: "sp_versions a ! p = (v, bs)"
      by fastforce
    have bs: "sp_bytes a (Some p) \<noteq> []" "length (sp_bytes a (Some p)) < width64"
      using cat e(2) p by (fastforce simp: catalogue_inv_def usable_parent_def sp_bytes_def)+
    have "\<forall>q. Some p = Some q \<longrightarrow> usable_parent a h q"
      using e(2) by simp
    from catalogue_inv_commit [OF cat _ _ this bs] ledger_inv_commit [OF led ex e(1)] binding_inv_vbind [OF bnd]
    show ?thesis
      using e(1) sha VersionForked by (simp add: spec_inv_def commit_enabled_def history_fork_digest_def)
  next
    case (VersionDropped v)
    have "ledger_inv (sp_retire (\<lambda>_ x. request_version x = v) (a\<lparr>sp_expired := insert v (sp_expired a)\<rparr>))"
      by (rule ledger_inv_retire [OF led]) auto
    with VersionDropped show ?thesis
      using cat ok bnd by (auto simp: spec_inv_def catalogue_inv_def binding_inv_def)
  next
    case (RequestRetired rid)
    then show ?thesis
      using cat bnd ledger_inv_retire [OF led, of a] by (auto simp: spec_inv_def catalogue_inv_def binding_inv_def)
  qed
qed

end
