(* ===== verification/History_Refinement.thy ===== *)
theory History_Refinement
  imports History_Spec History_Gc History_Replay
begin

text \<open>
  The in-memory history store implements the abstract history of \<open>History_Spec\<close>: \<open>refines\<close> relates
  a store to an abstract state, every operation preserves it, and a committed operation performs
  exactly its event.  The lemmas are proved once over the backend contract \<open>sequence_backend\<close>; the
  properties at the end are their instances for the in-memory backend.
\<close>

section \<open>The relation\<close>

definition tabled :: "'p PersistentHistoryStore \<Rightarrow> HistorySpec \<Rightarrow> bool" where
  "tabled s a \<longleftrightarrow> distinct (histories s) \<and> set (histories s) = {..<sp_histories a} \<and> (poisoned s \<or> next_history_id s = sp_histories a) \<and>
     next_version_id s = length (sp_versions a) \<and> set (expired_versions s) = sp_expired a \<and>
     htable (active_requests s) \<and> hget (active_requests s) = sp_active a \<and>
     htable (retired_requests s) \<and> hget (retired_requests s) = sp_retired a \<and> receipt_order s = sp_order a \<and>
     htable (history_bindings s) \<and> hget (history_bindings s) = sp_hbind a \<and>
     htable (version_bindings s) \<and> hget (version_bindings s) = sp_vbind a"

text \<open>Every version is recorded with its length; only an expired one may have lost its root.\<close>

definition stored :: "(PersistentRoot \<Rightarrow> byte list \<Rightarrow> bool) \<Rightarrow> VersionRecord list \<Rightarrow> HistorySpec \<Rightarrow> bool" where
  "stored den recs a \<longleftrightarrow> list_all2 (\<lambda>rec (v, bs). record_version rec = v \<and> record_len rec = length bs \<and>
     (case record_root rec of None \<Rightarrow> version_id v \<in> sp_expired a | Some root \<Rightarrow> den root bs)) recs (sp_versions a)"

definition refines ::
  "('p BalancedSequence \<Rightarrow> bool) \<Rightarrow> ('p BalancedSequence \<Rightarrow> PersistentRoot \<Rightarrow> byte list \<Rightarrow> bool) \<Rightarrow>
   'p PersistentHistoryStore \<Rightarrow> HistorySpec \<Rightarrow> bool" where
  "refines ok den s a \<longleftrightarrow> ok (store_backend s) \<and> tabled s a \<and> stored (den (store_backend s)) (versions s) a \<and> spec_inv a"

lemma storedD:
  assumes "stored den recs a"
  shows "length recs = length (sp_versions a)"
    and "i < length (sp_versions a) \<Longrightarrow> record_version (recs ! i) = fst (sp_versions a ! i) \<and>
      record_len (recs ! i) = length (snd (sp_versions a ! i)) \<and>
      (case record_root (recs ! i) of None \<Rightarrow> version_id (fst (sp_versions a ! i)) \<in> sp_expired a
       | Some root \<Rightarrow> den root (snd (sp_versions a ! i)))"
  using assms by (auto simp: stored_def list_all2_conv_all_nth case_prod_beta)

lemma stored_mono:
  assumes "stored den recs a" "\<And>root bs. den root bs \<Longrightarrow> den' root bs" "sp_versions b = sp_versions a"
    "sp_expired a \<subseteq> sp_expired b"
  shows "stored den' recs b"
  using assms(1) unfolding stored_def assms(3)
  by (rule list_all2_mono) (use assms(2,4) in \<open>auto split: option.splits\<close>)

lemma inv_version_id: "spec_inv a \<Longrightarrow> i < length (sp_versions a) \<Longrightarrow> version_id (fst (sp_versions a ! i)) = i"
  by (auto simp: spec_inv_def catalogue_inv_def case_prod_beta)

lemma bindP_readP: "bindP (readP f) k s = (case f s of Inl e \<Rightarrow> Some (Inl e, s) | Inr x \<Rightarrow> k x s)"
  by (simp add: bindP_def readP_def)

lemma bindP_liftP: "bindP (liftP r) k s = (case r of Inl e \<Rightarrow> Some (Inl e, s) | Inr x \<Rightarrow> k x s)"
  by (simp add: bindP_def)

lemma bindP_modifyP: "bindP (modifyP f) k s = k () (f s)"
  by (simp add: bindP_def modifyP_def)

lemma bindP_assoc: "bindP (bindP m k) h s = bindP m (\<lambda>x. bindP (k x) h) s"
  by (cases "m s") (auto simp: bindP_def split: sum.split)

lemmas run_simps = bindP_readP bindP_liftP bindP_modifyP

lemma pure_read: "(\<And>x. k x s = Some (F x, s)) \<Longrightarrow> bindP (readP f) k s = Some (bindR (f s) F, s)"
  by (cases "f s") (simp_all add: bindP_readP)

lemma pure_lift: "(\<And>x. k x s = Some (F x, s)) \<Longrightarrow> bindP (liftP r) k s = Some (bindR r F, s)"
  by (cases r) (simp_all add: bindP_liftP)

lemma pure_prod: "(\<And>x y. k x y s = Some (F x y, s)) \<Longrightarrow>
    (case p of (x, y) \<Rightarrow> k x y) s = Some (case p of (x, y) \<Rightarrow> F x y, s)"
  by (cases p) simp

lemma pure_ledger: "(\<And>v. k v s = Some (F v, s)) \<Longrightarrow> m s = Some (x, s) \<Longrightarrow> n s = Some (y, s) \<Longrightarrow>
    case_Ledger k m n l s = Some (case_Ledger F x y l, s)"
  by (cases l) simp_all

lemmas pure_intros = pure_read pure_lift pure_prod pure_ledger

lemma run_iffs:
  "readP f s = Some (r, s') \<longleftrightarrow> r = f s \<and> s' = s" "liftP x s = Some (r, s') \<longleftrightarrow> r = x \<and> s' = s"
  "retP y s = Some (r, s') \<longleftrightarrow> r = Inr y \<and> s' = s" "failP e s = Some (r, s') \<longleftrightarrow> r = Inl e \<and> s' = s"
  "modifyP g s = Some (r, s') \<longleftrightarrow> r = Inr () \<and> s' = g s"
  by (auto simp: readP_def modifyP_def)

lemma validate_iffs:
  "validate_request_identity x = Inr () \<longleftrightarrow> valid_key x" "validate_binding x = Inr () \<longleftrightarrow> valid_key x"
  "validate_optional_binding y = Inr () \<longleftrightarrow> valid_optional y"
  by (auto simp: validate_request_identity_def validate_binding_def validate_optional_binding_def valid_key_def
      valid_optional_def MAX_HISTORY_REQUEST_ID_BYTES_def MAX_HISTORY_BINDING_BYTES_def split: option.splits)

lemma validate_request_eq: "validate_request_identity x = (if valid_key x then Inr () else
    Inl (HistoryError.Invalid ''persistent request identity is empty or exceeds the byte limit''))"
  by (auto simp: validate_request_identity_def valid_key_def MAX_HISTORY_REQUEST_ID_BYTES_def)

section \<open>Coordinates\<close>

lemma splice_coordinates_iff:
  assumes "parent = None \<longrightarrow> n = 0"
  shows "splice_coordinates parent n off del ins = Inr m \<longleftrightarrow> m = n - del + length ins \<and> off + del \<le> n \<and>
    n - del + length ins < width64 \<and> n - del + length ins \<noteq> 0 \<and> (parent = None \<or> del \<noteq> 0 \<or> ins \<noteq> [])"
proof (cases "off \<le> n \<and> del \<le> n - off")
  case True
  then show ?thesis
    using assms by (cases parent) (auto simp: splice_coordinates_def try_from_def checked_add_def)
qed (auto simp: splice_coordinates_def)

lemma replay_coordinates_iff:
  assumes "parent = None \<longrightarrow> n = 0"
  shows "replay_coordinates parent n off del ins = Inr m \<longleftrightarrow> splice_coordinates parent n off del ins = Inr m"
  unfolding splice_coordinates_iff [OF assms]
proof (cases "off \<le> n \<and> del \<le> n - off")
  case True
  then show "replay_coordinates parent n off del ins = Inr m \<longleftrightarrow> m = n - del + length ins \<and> off + del \<le> n \<and>
    n - del + length ins < width64 \<and> n - del + length ins \<noteq> 0 \<and> (parent = None \<or> del \<noteq> 0 \<or> ins \<noteq> [])"
    using assms by (cases parent) (auto simp: replay_coordinates_def try_from_def checked_add_def)
qed (auto simp: replay_coordinates_def)

section \<open>The receipt horizon\<close>

lemma receipt_count:
  assumes "htable act" "htable ret" "distinct order" "set order = hkeys act \<union> hkeys ret" "hkeys act \<inter> hkeys ret = {}"
  shows "length act + length ret = length order"
proof -
  have "finite (hkeys act)" "finite (hkeys ret)"
    by (simp_all add: hkeys_def)
  then show ?thesis
    using assms by (metis card_Un_disjoint distinct_card length_htable)
qed

lemma horizon_step:
  assumes t: "htable (active_requests s)" "htable (retired_requests s)" "distinct (receipt_order s)"
    "set (receipt_order s) = hkeys (active_requests s) \<union> hkeys (retired_requests s)"
    "hkeys (active_requests s) \<inter> hkeys (retired_requests s) = {}" and n: "length (receipt_order s) \<le> 4097"
  shows "enforce_receipt_horizon s = (if length (receipt_order s) > 4096
    then s\<lparr>receipt_order := tl (receipt_order s), active_requests := hdel (hd (receipt_order s)) (active_requests s),
           retired_requests := hdel (hd (receipt_order s)) (retired_requests s)\<rparr>
    else s)"
proof (cases "length (receipt_order s) > 4096")
  case False
  then show ?thesis
    using receipt_count [OF t] by (simp add: enforce_receipt_horizon.simps STAGING_REQUEST_RECEIPT_CAPACITY_def)
next
  case True
  then obtain x xs where o: "receipt_order s = x # xs"
    by (cases "receipt_order s") auto
  let ?s = "s\<lparr>receipt_order := xs, active_requests := hdel x (active_requests s),
    retired_requests := hdel x (retired_requests s)\<rparr>"
  have rest: "set xs = hkeys (active_requests ?s) \<union> hkeys (retired_requests ?s)"
    "hkeys (active_requests ?s) \<inter> hkeys (retired_requests ?s) = {}" "distinct xs"
    using t(3-5) o by auto
  have "length (active_requests ?s) + length (retired_requests ?s) = length xs"
    using receipt_count [OF _ _ rest(3,1,2)] t(1,2) by simp
  then have stop: "enforce_receipt_horizon ?s = ?s"
    using n o by (simp add: enforce_receipt_horizon.simps [of ?s] STAGING_REQUEST_RECEIPT_CAPACITY_def)
  have "(if hget (active_requests s) x = None
      then s\<lparr>receipt_order := xs, retired_requests := hdel x (retired_requests s)\<rparr>
      else s\<lparr>receipt_order := xs, active_requests := hdel x (active_requests s)\<rparr>) = ?s"
    using t(5) hdel_fresh [of x "active_requests s"] hdel_fresh [of x "retired_requests s"]
    by (auto simp: hget_None_iff disjoint_iff)
  then show ?thesis
    using True o stop receipt_count [OF t]
    by (simp add: enforce_receipt_horizon.simps [of s] STAGING_REQUEST_RECEIPT_CAPACITY_def)
qed

lemma horizon_other [simp]:
  "store_backend (enforce_receipt_horizon s) = store_backend s" "versions (enforce_receipt_horizon s) = versions s"
  "poisoned (enforce_receipt_horizon s) = poisoned s"
proof (induction s rule: enforce_receipt_horizon.induct)
  case (1 s)
  { case 1 show ?case using "1.IH"(1) by (subst enforce_receipt_horizon.simps) (simp split: list.split) }
  { case 2 show ?case using "1.IH"(2) by (subst enforce_receipt_horizon.simps) (simp split: list.split) }
  { case 3 show ?case using "1.IH"(3) by (subst enforce_receipt_horizon.simps) (simp split: list.split) }
qed

lemma push_version_other [simp]:
  "store_backend (push_version v root n rid b dg s) = store_backend s"
  "versions (push_version v root n rid b dg s) = versions s @
     [\<lparr>record_version = v, record_root = Some root, record_len = n\<rparr>]"
  "poisoned (push_version v root n rid b dg s) = poisoned s"
  by (simp_all add: push_version_def push_fresh_receipt_def Let_def split: option.split)

lemma dom_hget: "dom (hget m) = hkeys m"
  by (auto simp: dom_def hget_None_iff simp flip: not_None_eq)

lemma hget_updates: "hget (hput k v m) = (hget m)(k \<mapsto> v)" "hget (hdel k m) = (hget m)(k := None)"
  by (simp_all add: fun_eq_iff)

lemma push_receipt_tabled:
  assumes t: "tabled s a" and led: "ledger_inv a" and fresh: "sp_active a r = None" "sp_retired a r = None"
  shows "tabled (push_fresh_receipt r dg v s) (sp_receipt r dg v a)"
proof -
  let ?s = "s\<lparr>active_requests := hput r \<lparr>request_digest = dg, request_version = v\<rparr> (active_requests s),
    receipt_order := receipt_order s @ [r]\<rparr>"
  have keys: "hkeys (active_requests s) = dom (sp_active a)" "hkeys (retired_requests s) = dom (sp_retired a)"
    using t by (auto simp: tabled_def simp flip: dom_hget)
  have "r \<notin> dom (sp_active a)" "r \<notin> dom (sp_retired a)"
    using fresh by auto
  then have run: "enforce_receipt_horizon ?s = (if length (receipt_order ?s) > 4096
    then ?s\<lparr>receipt_order := tl (receipt_order ?s), active_requests := hdel (hd (receipt_order ?s)) (active_requests ?s),
           retired_requests := hdel (hd (receipt_order ?s)) (retired_requests ?s)\<rparr>
    else ?s)"
    using t led by (intro horizon_step) (auto simp: tabled_def ledger_inv_def ledger_upto_def keys)
  show ?thesis
    unfolding push_fresh_receipt_def run sp_receipt_def sp_forget_def using t
    by (simp add: tabled_def hget_updates)
qed

lemma push_version_tabled:
  assumes t: "tabled s a" and inv: "spec_inv a" and ok: "commit_enabled a h rid b"
  shows "tabled (push_version \<lparr>version_history = h, version_id = length (sp_versions a), version_parent = parent\<rparr>
      root n rid b dg (s\<lparr>next_version_id := Suc (length (sp_versions a))\<rparr>)) (sp_commit h parent bs rid b dg a)"
proof -
  let ?v = "\<lparr>version_history = h, version_id = length (sp_versions a), version_parent = parent\<rparr>"
  let ?s = "s\<lparr>next_version_id := Suc (length (sp_versions a)),
    versions := versions s @ [\<lparr>record_version = ?v, record_root = Some root, record_len = n\<rparr>]\<rparr>"
  let ?a = "a\<lparr>sp_versions := sp_versions a @ [(?v, bs)]\<rparr>"
  have t': "tabled ?s ?a"
    using t by (simp add: tabled_def)
  have led: "ledger_inv ?a"
    using inv by (intro ledger_inv_grow [of a ?a]) (auto simp: spec_inv_def)
  have "tabled (case rid of None \<Rightarrow> ?s | Some r \<Rightarrow> push_fresh_receipt r dg (length (sp_versions a)) ?s)
      (case rid of None \<Rightarrow> ?a | Some r \<Rightarrow> sp_receipt r dg (length (sp_versions a)) ?a)"
    using push_receipt_tabled [OF t' led] t' ok by (auto simp: commit_enabled_def split: option.split)
  then show ?thesis
    by (cases b) (auto simp: push_version_def sp_commit_def Let_def tabled_def hget_updates cong: option.case_cong)
qed

lemma retire_one:
  assumes "sp_active a r = Some x" "\<And>q y. sp_active a q = Some y \<Longrightarrow> sel q y \<longleftrightarrow> q = r"
  shows "sp_retire sel a = a\<lparr>sp_active := (sp_active a)(r := None), sp_retired := (sp_retired a)(r \<mapsto> request_digest x)\<rparr>"
proof -
  have "(\<lambda>q. case sp_active a q of Some y \<Rightarrow> if sel q y then None else Some y | None \<Rightarrow> None) = (sp_active a)(r := None)"
    "(\<lambda>q. case sp_active a q of Some y \<Rightarrow> if sel q y then Some (request_digest y) else sp_retired a q
        | None \<Rightarrow> sp_retired a q) = (sp_retired a)(r \<mapsto> request_digest x)"
    using assms by (auto simp: fun_eq_iff split: option.splits)
  then show ?thesis
    by (simp add: sp_retire_def)
qed

lemma retire_none:
  assumes "\<And>q y. sp_active a q = Some y \<Longrightarrow> \<not> sel q y"
  shows "sp_retire sel a = a"
proof -
  have "(\<lambda>q. case sp_active a q of Some y \<Rightarrow> if sel q y then None else Some y | None \<Rightarrow> None) = sp_active a"
    "(\<lambda>q. case sp_active a q of Some y \<Rightarrow> if sel q y then Some (request_digest y) else sp_retired a q
        | None \<Rightarrow> sp_retired a q) = sp_retired a"
    using assms by (auto simp: fun_eq_iff split: option.splits)
  then show ?thesis
    by (simp add: sp_retire_def)
qed

lemma retire_tabled:
  assumes "tabled s a" "hget (active_requests s) r = Some x"
    "\<And>q y. sp_active a q = Some y \<Longrightarrow> sel q y \<longleftrightarrow> q = r"
  shows "tabled (s\<lparr>active_requests := hdel r (active_requests s),
    retired_requests := hput r (request_digest x) (retired_requests s)\<rparr>) (sp_retire sel a)"
proof -
  have "sp_active a r = Some x"
    using assms(1,2) by (simp add: tabled_def)
  from retire_one [OF this assms(3)] show ?thesis
    using assms(1) by (simp add: tabled_def hget_updates)
qed

lemma expired_tabled:
  "tabled s a \<Longrightarrow> tabled (s\<lparr>expired_versions := List.insert v (expired_versions s)\<rparr>) (a\<lparr>sp_expired := insert v (sp_expired a)\<rparr>)"
  by (simp add: tabled_def)

text \<open>The errors that mean a lack of memory: a refused reservation, or an exhausted backend.\<close>

definition lacks_space :: "env \<Rightarrow> (SequenceError \<Rightarrow> bool) \<Rightarrow> HistoryError \<Rightarrow> bool" where
  "lacks_space E exhausted e \<longleftrightarrow>
     (\<exists>m n. e = HistoryError.Capacity m \<and> \<not> try_reserve E m n) \<or> (\<exists>x. e = HistoryError.Sequence x \<and> exhausted x)"

lemma reserve_Inl: "reserve E m n = Inl e \<Longrightarrow> lacks_space E ex e"
  "reserve_when c E m n = Inl e \<Longrightarrow> lacks_space E ex e"
  by (auto simp: reserve_def reserve_when_def lacks_space_def split: if_splits)

lemma reserve_catalogue_Inl: "reserve_catalogue E rid b = Inl e \<Longrightarrow> lacks_space E ex e"
  by (auto simp: reserve_catalogue_def bindR_Inl_iff intro: reserve_Inl)

lemma stored_snoc:
  assumes "stored den recs a" "den root bs"
  shows "stored den (recs @ [\<lparr>record_version = \<lparr>version_history = h, version_id = length (sp_versions a),
      version_parent = parent\<rparr>, record_root = Some root, record_len = length bs\<rparr>])
    (sp_commit h parent bs rid b dg a)"
  using assms unfolding stored_def commit_other by (intro list_all2_appendI) simp_all

section \<open>Lookups\<close>

context sequence_backend
begin

abbreviation "rel \<equiv> refines content_ok denotes"

lemma rel_versions:
  assumes "rel s a"
  shows "length (versions s) = length (sp_versions a)"
    and "i < length (sp_versions a) \<Longrightarrow> record_version (versions s ! i) = fst (sp_versions a ! i)"
    and "i < length (sp_versions a) \<Longrightarrow> record_len (versions s ! i) = length (snd (sp_versions a ! i))"
    and "i < length (sp_versions a) \<Longrightarrow> i \<notin> sp_expired a \<Longrightarrow>
      \<exists>root. record_root (versions s ! i) = Some root \<and> denotes (store_backend s) root (snd (sp_versions a ! i))"
    and "i < length (sp_versions a) \<Longrightarrow> version_id (fst (sp_versions a ! i)) = i"
    and "length (sp_versions a) < width64"
  using assms storedD [of "denotes (store_backend s)" "versions s" a] inv_version_id [of a]
  by (auto simp: refines_def spec_inv_def catalogue_inv_def)
    (cases "record_root (versions s ! i)"; fastforce)

lemma version_record_known:
  assumes "rel s a"
  shows "version_record s vid = Inr rec \<longleftrightarrow> vid < length (sp_versions a) \<and> rec = versions s ! vid"
  using rel_versions [OF assms]
  by (auto simp: version_record_def result_iffs checked_iffs get_at_Some_iff split: if_splits)

lemma parent_known:
  assumes "rel s a"
  shows "parent_coordinates s h parent = Inr (root, n) \<longleftrightarrow> (case parent of
      None \<Rightarrow> root = None \<and> n = 0
    | Some p \<Rightarrow> p < length (sp_versions a) \<and> version_history (fst (sp_versions a ! p)) = h \<and>
        root = record_root (versions s ! p) \<and> n = length (snd (sp_versions a ! p)))"
  using version_record_known [OF assms] rel_versions [OF assms]
  by (auto simp: parent_coordinates_def result_iffs split: option.splits)

lemma retained_known:
  assumes "rel s a"
  shows "require_retained s p = Inr () \<longleftrightarrow> p < length (sp_versions a) \<and> p \<notin> sp_expired a"
  using version_record_known [OF assms] assms
  by (auto simp: require_retained_def result_iffs refines_def tabled_def)

lemma identity_known:
  "prepare_version_identity n = Inr i \<longleftrightarrow> Suc n < width64 \<and> i = \<lparr>identity_version = n, identity_next = Suc n\<rparr>"
  by (auto simp: prepare_version_identity_def result_iffs checked_iffs)

lemma ledger_known:
  assumes "rel s a"
  shows "ledger_lookup s rid dg = Inr l \<longleftrightarrow> (case rid of None \<Rightarrow> l = LedgerUnknown
    | Some r \<Rightarrow> valid_key r \<and> (case sp_active a r of
        Some x \<Rightarrow> request_digest x = dg \<and> l = LedgerReplayed (fst (sp_versions a ! request_version x))
      | None \<Rightarrow> (case sp_retired a r of Some d \<Rightarrow> d = dg \<and> l = LedgerRetired | None \<Rightarrow> l = LedgerUnknown)))"
proof -
  have "request_version x < length (sp_versions a)" if "sp_active a r = Some x" for r x
    using assms that by (auto simp: refines_def spec_inv_def ledger_inv_def ledger_upto_def)
  then show ?thesis
    using version_record_known [OF assms] rel_versions(2) [OF assms] assms
    by (auto simp: ledger_lookup_def result_iffs validate_iffs refines_def tabled_def split: option.splits)
qed

text \<open>What the preview of an enabled splice prepares.\<close>

definition splice_plan ::
  "'p PersistentHistoryStore \<Rightarrow> HistoryId \<Rightarrow> VersionId option \<Rightarrow> u64 \<Rightarrow> u64 \<Rightarrow> byte list \<Rightarrow>
   byte list option \<Rightarrow> byte list option \<Rightarrow> HistorySpec \<Rightarrow> PreparedSplice" where
  "splice_plan s h parent off del ins rid b a = \<lparr>ps_version = length (sp_versions a),
     ps_next_version_id_after = Suc (length (sp_versions a)), ps_history = h, ps_parent = parent,
     ps_parent_root = Option.bind parent (\<lambda>p. record_root (versions s ! p)), ps_offset = off, ps_delete_len = del,
     ps_insert = ins, ps_len = length (edit (sp_bytes a parent) off del ins), ps_request_id = rid, ps_binding = b,
     ps_digest = history_splice_digest E h parent off del ins b, ps_physical = None\<rparr>"

lemma preview_splice_checks:
  assumes "\<not> backend_is_physical (store_backend s)"
  shows "preview_splice E P h parent off del ins rid b s = Some (
    bindR (require_unpoisoned s) (\<lambda>_.
    bindR (if h \<notin> set (histories s) then Inl (HistoryError.Invalid ''persistent splice targets an unknown history'')
           else Inr ()) (\<lambda>_.
    bindR (validate_optional_binding b) (\<lambda>_.
    bindR (parent_coordinates s h parent) (\<lambda>(root, n).
    bindR (splice_coordinates parent n off del ins) (\<lambda>m.
    bindR (ledger_lookup s rid (history_splice_digest E h parent off del ins b)) (\<lambda>l.
    case l of LedgerReplayed v \<Rightarrow> Inr (PreviewReplayed v) | LedgerRetired \<Rightarrow> Inr PreviewRetired
    | LedgerUnknown \<Rightarrow>
        bindR (case parent of None \<Rightarrow> Inr () | Some p \<Rightarrow> require_retained s p) (\<lambda>_.
        bindR (prepare_version_identity (next_version_id s)) (\<lambda>i.
        Inr (PreviewFresh \<lparr>ps_version = identity_version i, ps_next_version_id_after = identity_next i,
               ps_history = h, ps_parent = parent, ps_parent_root = root, ps_offset = off, ps_delete_len = del,
               ps_insert = ins, ps_len = m, ps_request_id = rid, ps_binding = b,
               ps_digest = history_splice_digest E h parent off del ins b, ps_physical = None\<rparr>))))))))), s)"
  unfolding preview_splice_def Let_def
  by (intro pure_intros) (simp_all add: assms run_simps)

lemma ledger_unknown:
  assumes "rel s a"
  shows "ledger_lookup s rid dg = Inr LedgerUnknown \<longleftrightarrow>
    valid_optional rid \<and> (\<forall>r. rid = Some r \<longrightarrow> sp_active a r = None \<and> sp_retired a r = None)"
  unfolding ledger_known [OF assms] by (auto simp: valid_optional_def split: option.splits)

lemma parent_usable:
  assumes "rel s a"
  shows "parent_coordinates s h parent = Inr (root, n) \<and>
      (case parent of None \<Rightarrow> Inr () | Some p \<Rightarrow> require_retained s p) = Inr () \<longleftrightarrow>
    (\<forall>p. parent = Some p \<longrightarrow> usable_parent a h p) \<and>
      root = Option.bind parent (\<lambda>p. record_root (versions s ! p)) \<and> n = length (sp_bytes a parent)"
  unfolding parent_known [OF assms]
  by (cases parent) (auto simp: retained_known [OF assms] usable_parent_def sp_bytes_def)

lemma coordinates_edit_ok:
  "splice_coordinates parent (length (sp_bytes a parent)) off del ins = Inr m \<longleftrightarrow>
    edit_ok (parent = None) (sp_bytes a parent) off del ins \<and> m = length (edit (sp_bytes a parent) off del ins)"
proof -
  have "parent = None \<longrightarrow> length (sp_bytes a parent) = 0"
    by (simp add: sp_bytes_def)
  then show ?thesis
    using edit_ok_result(2) [of "parent = None" "sp_bytes a parent" off del ins]
    by (auto simp: splice_coordinates_iff edit_ok_def)
qed

lemma ledger_fresh_iff:
  "case_Ledger (\<lambda>v. Inr (PreviewReplayed v)) (Inr PreviewRetired) x l = Inr (PreviewFresh p) \<longleftrightarrow>
    l = LedgerUnknown \<and> x = Inr (PreviewFresh p)"
  by (cases l) auto

lemma preview_splice_fresh:
  assumes r: "rel s a"
  shows "preview_splice E P h parent off del ins rid b s = Some (Inr (PreviewFresh p), s') \<longleftrightarrow>
    s' = s \<and> \<not> poisoned s \<and> enabled (VersionSpliced h parent off del ins rid b) a \<and>
    p = splice_plan s h parent off del ins rid b a"
proof -
  have phys: "\<not> backend_is_physical (store_backend s)" and hist: "set (histories s) = {..<sp_histories a}"
    "next_version_id s = length (sp_versions a)"
    using r ephemeral by (auto simp: refines_def tabled_def)
  have "preview_splice E P h parent off del ins rid b s = Some (Inr (PreviewFresh p), s') \<longleftrightarrow>
    s' = s \<and> \<not> poisoned s \<and> h < sp_histories a \<and> valid_optional b \<and> (\<exists>root n m.
      (parent_coordinates s h parent = Inr (root, n) \<and>
        (case parent of None \<Rightarrow> Inr () | Some p \<Rightarrow> require_retained s p) = Inr ()) \<and>
      splice_coordinates parent n off del ins = Inr m \<and>
      ledger_lookup s rid (history_splice_digest E h parent off del ins b) = Inr LedgerUnknown \<and>
      Suc (length (sp_versions a)) < width64 \<and>
      p = (splice_plan s h parent off del ins rid b a)\<lparr>ps_parent_root := root, ps_len := m\<rparr>)"
    unfolding preview_splice_checks [OF phys]
    by (auto simp: result_iffs ledger_fresh_iff identity_known hist require_unpoisoned_def validate_iffs
        splice_plan_def split: if_splits)
  also have "\<dots> \<longleftrightarrow> s' = s \<and> \<not> poisoned s \<and> enabled (VersionSpliced h parent off del ins rid b) a \<and>
    p = splice_plan s h parent off del ins rid b a"
    unfolding parent_usable [OF r] ledger_unknown [OF r]
    by (auto simp: coordinates_edit_ok commit_enabled_def splice_plan_def)
  finally show ?thesis .
qed

section \<open>Commits\<close>

lemma commit_rel:
  assumes t: "tabled s a" and ok: "content_ok (store_backend s)" and st: "stored (denotes (store_backend s)) (versions s) a"
    and inv: "spec_inv a" "spec_inv (sp_commit h parent bs rid b dg a)" and en: "commit_enabled a h rid b"
    and root: "denotes (store_backend s) root bs"
  shows "rel (push_version \<lparr>version_history = h, version_id = length (sp_versions a), version_parent = parent\<rparr>
      root (length bs) rid b dg (s\<lparr>next_version_id := Suc (length (sp_versions a))\<rparr>)) (sp_commit h parent bs rid b dg a)"
  unfolding refines_def using push_version_tabled [OF t inv(1) en] stored_snoc [OF st root] ok inv(2) by simp

lemma parent_denotes:
  assumes "rel s a" "\<forall>p. parent = Some p \<longrightarrow> usable_parent a h p"
  shows "case Option.bind parent (\<lambda>p. record_root (versions s ! p)) of None \<Rightarrow> sp_bytes a parent = []
    | Some root \<Rightarrow> denotes (store_backend s) root (sp_bytes a parent)"
    and "(Option.bind parent (\<lambda>p. record_root (versions s ! p)) = None) = (parent = None)"
  using rel_versions(4) [OF assms(1)] assms(2) by (cases parent; force simp: sp_bytes_def usable_parent_def)+

text \<open>The backend step of a splice, live or replayed.\<close>

lemma splice_root_step:
  assumes r: "rel s a" and en: "\<forall>p. parent = Some p \<longrightarrow> usable_parent a h p"
    "edit_ok (parent = None) (sp_bytes a parent) off del ins"
  defines "root \<equiv> Option.bind parent (\<lambda>p. record_root (versions s ! p))"
  shows "(\<exists>e. backendP (seam_splice E P root off del ins) s = Some (Inl (HistoryError.Sequence e), s) \<and> exhausted e) \<or>
    (\<exists>res b'. backendP (seam_splice E P root off del ins) s = Some (Inr res, s\<lparr>store_backend := b'\<rparr>) \<and> content_ok b' \<and>
      denotes b' (result_root res) (edit (sp_bytes a parent) off del ins) \<and> stored (denotes b') (versions s) a)"
proof -
  have ok: "content_ok (store_backend s)" and st: "stored (denotes (store_backend s)) (versions s) a"
    using r by (auto simp: refines_def)
  have "edit_ok (root = None) (sp_bytes a parent) off del ins"
    using en(2) parent_denotes(2) [OF r en(1)] by (simp add: root_def)
  from splice_law [OF ok parent_denotes(1) [OF r en(1)], folded root_def, OF this] show ?thesis
  proof (elim disjE exE conjE)
    fix e
    assume "seam_splice E P root off del ins (store_backend s) = Some (Inl e, store_backend s)" "exhausted e"
    then show ?thesis
      by (simp add: backendP_def)
  next
    fix res b'
    assume b: "seam_splice E P root off del ins (store_backend s) = Some (Inr res, b')" "content_ok b'"
      "denotes b' (result_root res) (edit (sp_bytes a parent) off del ins)"
      "\<forall>root bs. denotes (store_backend s) root bs \<longrightarrow> denotes b' root bs"
    then have "stored (denotes b') (versions s) a"
      using stored_mono [OF st, of "denotes b'" a] by blast
    with b show ?thesis
      by (intro disjI2 exI [of _ res] exI [of _ b']) (simp add: backendP_def)
  qed
qed

lemma apply_splice_outcome:
  assumes sha: "sha_ok E" and r: "rel s a" and en: "enabled (VersionSpliced h parent off del ins rid b) a"
  shows "(\<exists>e. apply_prepared_splice E P (splice_plan s h parent off del ins rid b a) False s = Some (Inl e, s) \<and>
      lacks_space E exhausted e) \<or>
    (\<exists>s'. apply_prepared_splice E P (splice_plan s h parent off del ins rid b a) False s =
        Some (Inr (Committed \<lparr>version_history = h, version_id = length (sp_versions a), version_parent = parent\<rparr>), s') \<and>
      rel s' (spec_apply E (VersionSpliced h parent off del ins rid b) a) \<and> poisoned s' = poisoned s)"
proof -
  let ?p = "splice_plan s h parent off del ins rid b a"
  have next_id: "next_version_id s = length (sp_versions a)" and inv: "spec_inv a"
    using r by (auto simp: refines_def tabled_def)
  have e: "commit_enabled a h rid b" "\<forall>p. parent = Some p \<longrightarrow> usable_parent a h p"
    "edit_ok (parent = None) (sp_bytes a parent) off del ins"
    using en by simp_all
  note plan = splice_plan_def [of s h parent off del ins rid b a]
  note run = apply_prepared_splice_def splice_root_of_def plan bindP_readP next_id
  show ?thesis
  proof (cases "reserve_catalogue E rid b")
    case (Inl x)
    then show ?thesis
      by (auto simp: run reserve_catalogue_Inl)
  next
    case (Inr u)
    from splice_root_step [OF r e(2,3)] show ?thesis
    proof (elim disjE exE conjE)
      fix x
      assume "backendP (seam_splice E P (Option.bind parent (\<lambda>p. record_root (versions s ! p))) off del ins) s =
          Some (Inl (HistoryError.Sequence x), s)" "exhausted x"
      then show ?thesis
        by (intro disjI1) (simp add: run Inr lacks_space_def)
    next
      fix res b'
      assume b: "backendP (seam_splice E P (Option.bind parent (\<lambda>p. record_root (versions s ! p))) off del ins) s =
          Some (Inr res, s\<lparr>store_backend := b'\<rparr>)" "content_ok b'"
        "denotes b' (result_root res) (edit (sp_bytes a parent) off del ins)" "stored (denotes b') (versions s) a"
      have t: "tabled (s\<lparr>store_backend := b'\<rparr>) a"
        using r by (simp add: refines_def tabled_def)
      show ?thesis
        using commit_rel [OF t _ _ inv _ e(1)] b spec_step_inv [OF sha inv en]
        by (intro disjI2) (simp add: run Inr bindP_modifyP Let_def)
    qed
  qed
qed

text \<open>What the preview of an enabled fork prepares.\<close>

definition fork_plan ::
  "'p PersistentHistoryStore \<Rightarrow> HistoryId \<Rightarrow> VersionId \<Rightarrow> byte list option \<Rightarrow> byte list option \<Rightarrow> HistorySpec \<Rightarrow>
   PreparedFork" where
  "fork_plan s h p rid b a = \<lparr>pf_version = length (sp_versions a),
     pf_next_version_id_after = Suc (length (sp_versions a)), pf_history = h, pf_parent = p,
     pf_root = record_root (versions s ! p), pf_len = length (sp_bytes a (Some p)), pf_request_id = rid,
     pf_binding = b, pf_digest = history_fork_digest E h p b\<rparr>"

lemma preview_fork_fresh:
  assumes r: "rel s a"
  shows "preview_fork E s h p rid b = Inr (PreviewFresh q) \<longleftrightarrow>
    \<not> poisoned s \<and> enabled (VersionForked h p rid b) a \<and> q = fork_plan s h p rid b a"
proof -
  have hist: "set (histories s) = {..<sp_histories a}" "next_version_id s = length (sp_versions a)"
    using r by (auto simp: refines_def tabled_def)
  have "preview_fork E s h p rid b = Inr (PreviewFresh q) \<longleftrightarrow>
    \<not> poisoned s \<and> h < sp_histories a \<and> valid_optional b \<and> version_record s p = Inr (versions s ! p) \<and>
    version_history (record_version (versions s ! p)) = h \<and>
    ledger_lookup s rid (history_fork_digest E h p b) = Inr LedgerUnknown \<and> require_retained s p = Inr () \<and>
    Suc (length (sp_versions a)) < width64 \<and> q = fork_plan s h p rid b a"
    using rel_versions(3) [OF r, of p]
    by (auto simp: preview_fork_def result_iffs ledger_fresh_iff identity_known hist require_unpoisoned_def
        validate_iffs fork_plan_def version_record_known [OF r] sp_bytes_def Let_def split: if_splits)
  also have "\<dots> \<longleftrightarrow> \<not> poisoned s \<and> enabled (VersionForked h p rid b) a \<and> q = fork_plan s h p rid b a"
    using rel_versions(2) [OF r, of p]
    by (auto simp: version_record_known [OF r] ledger_unknown [OF r] retained_known [OF r] commit_enabled_def usable_parent_def)
  finally show ?thesis .
qed

lemma apply_fork_outcome:
  assumes sha: "sha_ok E" and r: "rel s a" and en: "enabled (VersionForked h p rid b) a"
  shows "(\<exists>e. apply_prepared_fork E (fork_plan s h p rid b a) s = Some (Inl e, s) \<and> lacks_space E exhausted e) \<or>
    (\<exists>s'. apply_prepared_fork E (fork_plan s h p rid b a) s =
        Some (Inr (Committed \<lparr>version_history = h, version_id = length (sp_versions a), version_parent = Some p\<rparr>), s') \<and>
      rel s' (spec_apply E (VersionForked h p rid b) a) \<and> poisoned s' = poisoned s)"
proof -
  have next_id: "next_version_id s = length (sp_versions a)" and inv: "spec_inv a" and t: "tabled s a"
    "content_ok (store_backend s)" "stored (denotes (store_backend s)) (versions s) a"
    using r by (auto simp: refines_def tabled_def)
  have e: "commit_enabled a h rid b" "usable_parent a h p"
    using en by simp_all
  obtain root where root: "record_root (versions s ! p) = Some root" "denotes (store_backend s) root (sp_bytes a (Some p))"
    using rel_versions(4) [OF r] e(2) by (auto simp: usable_parent_def sp_bytes_def)
  note run = apply_prepared_fork_def fork_plan_def [of s h p rid b a] bindP_readP bindP_modifyP next_id root(1) Let_def
  show ?thesis
  proof (cases "reserve_catalogue E rid b")
    case (Inl x)
    then show ?thesis
      by (auto simp: run reserve_catalogue_Inl)
  next
    case (Inr u)
    then show ?thesis
      using commit_rel [OF t inv _ e(1) root(2)] spec_step_inv [OF sha inv en]
      by (intro disjI2) (simp add: run)
  qed
qed

section \<open>Expiration and retirement\<close>

lemma receipt_known:
  assumes r: "rel s a"
  shows "receipt_of s vid = Some (rid, dg) \<longleftrightarrow>
    (\<exists>x. sp_active a rid = Some x \<and> request_version x = vid \<and> dg = request_digest x)"
proof -
  have tab: "htable (active_requests s)" "hget (active_requests s) = sp_active a"
    using r by (auto simp: refines_def tabled_def)
  have entry: "(q, y) \<in> set (active_requests s) \<longleftrightarrow> sp_active a q = Some y" for q y
    using htable_entry [OF tab(1)] tab(2) by simp
  have uniq: "q = q'" if "sp_active a q = Some y" "sp_active a q' = Some y'" "request_version y = request_version y'" for q y q' y'
    using r that by (auto simp: refines_def spec_inv_def ledger_inv_def ledger_upto_def)
  show ?thesis
  proof (cases "find (\<lambda>(rid, active). request_version active = vid) (active_requests s)")
    case None
    then have "\<not> (\<exists>x. sp_active a rid = Some x \<and> request_version x = vid)"
      by (auto simp: find_None_iff entry [symmetric])
    with None show ?thesis
      by (auto simp: receipt_of_def)
  next
    case (Some z)
    obtain q y where z: "z = (q, y)"
      by fastforce
    have "sp_active a q = Some y" "request_version y = vid"
      using Some z entry [of q y] by (auto simp: find_Some_iff) (metis nth_mem)
    moreover have "receipt_of s vid = Some (q, request_digest y)"
      by (simp add: receipt_of_def Some z)
    ultimately show ?thesis
      using uniq by fastforce
  qed
qed

lemma receipt_absent:
  assumes r: "rel s a"
  shows "receipt_of s vid = None \<longleftrightarrow> (\<forall>rid x. sp_active a rid = Some x \<longrightarrow> request_version x \<noteq> vid)"
  using receipt_known [OF r] by (metis (no_types, lifting) not_None_eq surj_pair)

text \<open>What the preview of an enabled expiration prepares.\<close>

definition expire_plan :: "'p PersistentHistoryStore \<Rightarrow> VersionId \<Rightarrow> HistorySpec \<Rightarrow> PreparedExpire" where
  "expire_plan s v a = \<lparr>pe_history = version_history (fst (sp_versions a ! v)), pe_version = v, pe_receipt = receipt_of s v\<rparr>"

lemma preview_expire_known:
  assumes r: "rel s a" and en: "v < length (sp_versions a)" and "\<not> poisoned s"
  shows "preview_expire E s v = (if v \<in> sp_expired a then Inr ExpireAlready else
    bindR (reserve E ''persistent expired version allocation failed'' 1) (\<lambda>_.
    bindR (reserve_when (receipt_of s v \<noteq> None) E ''persistent retired request allocation failed'' 1) (\<lambda>_.
    Inr (ExpireFresh (expire_plan s v a)))))"
proof -
  have "version_record s v = Inr (versions s ! v)" "set (expired_versions s) = sp_expired a"
    using version_record_known [OF r] en r by (auto simp: refines_def tabled_def)
  then show ?thesis
    using assms rel_versions(2) [OF r en] by (simp add: preview_expire_def require_unpoisoned_def expire_plan_def)
qed

lemma preview_expire_enabled:
  assumes r: "rel s a" and "preview_expire E s v = Inr x"
  shows "\<not> poisoned s" "v < length (sp_versions a)"
  using assms(2) version_record_known [OF r] by (auto simp: preview_expire_def require_unpoisoned_def result_iffs split: if_splits)

lemma preview_expire_fresh:
  assumes r: "rel s a"
  shows "preview_expire E s v = Inr (ExpireFresh q) \<longleftrightarrow> \<not> poisoned s \<and> enabled (VersionDropped v) a \<and>
    reserve E ''persistent expired version allocation failed'' 1 = Inr () \<and>
    reserve_when (receipt_of s v \<noteq> None) E ''persistent retired request allocation failed'' 1 = Inr () \<and>
    q = expire_plan s v a"
proof (cases "\<not> poisoned s \<and> v < length (sp_versions a)")
  case True
  then show ?thesis
    by (auto simp: preview_expire_known [OF r] result_iffs)
next
  case False
  then show ?thesis
    using preview_expire_enabled [OF r] by auto
qed

lemma rel_expired:
  assumes "rel s a" "tabled s' (sp_retire sel (a\<lparr>sp_expired := insert v (sp_expired a)\<rparr>))"
    "store_backend s' = store_backend s" "versions s' = versions s"
    "spec_inv (sp_retire sel (a\<lparr>sp_expired := insert v (sp_expired a)\<rparr>))"
  shows "rel s' (sp_retire sel (a\<lparr>sp_expired := insert v (sp_expired a)\<rparr>))"
  using assms stored_mono [of "denotes (store_backend s)" "versions s" a "denotes (store_backend s)"
    "sp_retire sel (a\<lparr>sp_expired := insert v (sp_expired a)\<rparr>)"] by (auto simp: refines_def)

text \<open>The state after an expiration, live or replayed.\<close>

definition dropped :: "'p PersistentHistoryStore \<Rightarrow> VersionId \<Rightarrow> 'p PersistentHistoryStore" where
  "dropped s v = (case receipt_of s v of
     None \<Rightarrow> s\<lparr>expired_versions := List.insert v (expired_versions s)\<rparr>
   | Some (rid, dg) \<Rightarrow> s\<lparr>expired_versions := List.insert v (expired_versions s),
       active_requests := hdel rid (active_requests s), retired_requests := hput rid dg (retired_requests s)\<rparr>)"

lemma dropped_rel:
  assumes sha: "sha_ok E" and r: "rel s a" and en: "enabled (VersionDropped v) a"
  shows "rel (dropped s v) (spec_apply E (VersionDropped v) a)" "poisoned (dropped s v) = poisoned s"
proof -
  let ?a = "a\<lparr>sp_expired := insert v (sp_expired a)\<rparr>" and ?s = "s\<lparr>expired_versions := List.insert v (expired_versions s)\<rparr>"
  let ?sel = "\<lambda>_ x. request_version x = v"
  have t: "tabled ?s ?a" and inv: "spec_inv (sp_retire ?sel ?a)"
    using r expired_tabled spec_step_inv [OF sha _ en] by (auto simp: refines_def)
  have "tabled (dropped s v) (sp_retire ?sel ?a)"
  proof (cases "receipt_of s v")
    case None
    then have "sp_retire ?sel ?a = ?a"
      using receipt_absent [OF r] by (intro retire_none) auto
    with None t show ?thesis
      by (simp add: dropped_def)
  next
    case (Some z)
    then obtain rid dg where z: "receipt_of s v = Some (rid, dg)"
      by (cases z) simp
    then obtain x where x: "sp_active a rid = Some x" "request_version x = v" "dg = request_digest x"
      using receipt_known [OF r] by blast
    have only: "request_version y = v \<longleftrightarrow> q = rid" if "sp_active ?a q = Some y" for q y
      using that x r by (auto simp: refines_def spec_inv_def ledger_inv_def ledger_upto_def)
    have "hget (active_requests ?s) rid = Some x"
      using t x by (simp add: tabled_def)
    from retire_tabled [OF t this only] z x(3) show ?thesis
      by (simp add: dropped_def)
  qed
  then show "rel (dropped s v) (spec_apply E (VersionDropped v) a)"
    using inv by (auto intro!: rel_expired [OF r] simp: dropped_def split: option.split)
qed (simp add: dropped_def split: option.split)

lemma apply_expire_outcome:
  assumes r: "rel s a" and en: "enabled (VersionDropped v) a"
  shows "apply_prepared_expire (expire_plan s v a) s = Some (Inr ExpireOutcome.Expired, dropped s v)"
proof -
  have v: "version_record s v = Inr (versions s ! v)" "v \<notin> set (expired_versions s)"
    "version_history (record_version (versions s ! v)) = version_history (fst (sp_versions a ! v))"
    using version_record_known [OF r] rel_versions(2) [OF r] en r by (auto simp: refines_def tabled_def)
  have act: "hget (active_requests s) = sp_active a"
    using r by (simp add: refines_def tabled_def)
  note run = apply_prepared_expire_def expire_plan_def bindP_readP bindP_modifyP v dropped_def
  show ?thesis
  proof (cases "receipt_of s v")
    case None
    then show ?thesis
      by (simp add: run)
  next
    case (Some z)
    then obtain rid dg where z: "receipt_of s v = Some (rid, dg)"
      by (cases z) simp
    then obtain x where x: "sp_active a rid = Some x" "request_version x = v" "dg = request_digest x"
      using receipt_known [OF r] by blast
    then show ?thesis
      using z act by (simp add: run bindP_assoc)
  qed
qed

lemma retire_request_ok:
  assumes r: "rel s a"
  shows "retire_request E rid s = Some (Inr (), s') \<longleftrightarrow> \<not> poisoned s \<and> enabled (RequestRetired rid) a \<and>
    reserve E ''persistent retired request key allocation failed'' (length rid) = Inr () \<and>
    reserve E ''persistent retired request allocation failed'' 1 = Inr () \<and>
    s' = s\<lparr>active_requests := hdel rid (active_requests s),
      retired_requests := hput rid (request_digest (the (sp_active a rid))) (retired_requests s)\<rparr>"
proof -
  have tab: "hget (active_requests s) = sp_active a" "hget (retired_requests s) = sp_retired a"
    and dj: "sp_active a rid \<noteq> None \<Longrightarrow> sp_retired a rid = None"
    using r by (auto simp: refines_def tabled_def spec_inv_def ledger_inv_def ledger_upto_def)
  show ?thesis
    using dj unfolding retire_request_def
    by (cases "sp_active a rid")
      (auto simp: tab validate_request_eq require_unpoisoned_def result_iffs split: sum.splits if_splits)
qed

lemma retired_rel:
  assumes sha: "sha_ok E" and r: "rel s a" and en: "enabled (RequestRetired rid) a"
  shows "rel (s\<lparr>active_requests := hdel rid (active_requests s),
      retired_requests := hput rid (request_digest (the (sp_active a rid))) (retired_requests s)\<rparr>)
    (spec_apply E (RequestRetired rid) a)"
proof -
  obtain x where x: "sp_active a rid = Some x"
    using en by auto
  have t: "tabled s a" and st: "stored (denotes (store_backend s)) (versions s) a"
    using r by (auto simp: refines_def)
  have "hget (active_requests s) rid = Some x"
    using t x by (simp add: tabled_def)
  from retire_tabled [OF t this, of "\<lambda>q _. q = rid"] stored_mono [OF st, of "denotes (store_backend s)"
      "sp_retire (\<lambda>q _. q = rid) a"]
  show ?thesis
    using r x spec_step_inv [OF sha _ en] by (simp add: refines_def)
qed

section \<open>Histories\<close>

definition created :: "'p PersistentHistoryStore \<Rightarrow> byte list option \<Rightarrow> 'p PersistentHistoryStore" where
  "created s b = s\<lparr>next_history_id := Suc (next_history_id s),
     histories := List.insert (next_history_id s) (histories s),
     history_bindings := (case b of None \<Rightarrow> history_bindings s
        | Some x \<Rightarrow> hput (next_history_id s) x (history_bindings s))\<rparr>"

lemma created_rel:
  assumes sha: "sha_ok E" and r: "rel s a" and en: "enabled (HistoryCreated b) a" and live: "\<not> poisoned s"
  shows "rel (created s b) (spec_apply E (HistoryCreated b) a)"
proof -
  have "tabled (created s b) (spec_apply E (HistoryCreated b) a)"
    using r live by (auto simp: refines_def tabled_def created_def hget_updates lessThan_Suc split: option.split)
  moreover have "stored (denotes (store_backend s)) (versions s) (spec_apply E (HistoryCreated b) a)"
    using r by (auto simp: refines_def intro: stored_mono)
  ultimately show ?thesis
    using r spec_step_inv [OF sha _ en] by (simp add: refines_def created_def)
qed

lemma bound_known:
  assumes r: "rel s a"
  shows "bound_history s x = Some h \<longleftrightarrow> sp_hbind a h = Some x"
proof -
  have tab: "htable (history_bindings s)" "hget (history_bindings s) = sp_hbind a"
    using r by (auto simp: refines_def tabled_def)
  have entry: "(q, y) \<in> set (history_bindings s) \<longleftrightarrow> sp_hbind a q = Some y" for q y
    using htable_entry [OF tab(1)] tab(2) by simp
  have uniq: "q = q'" if "sp_hbind a q = Some y" "sp_hbind a q' = Some y" for q q' y
    using r that unfolding refines_def spec_inv_def binding_inv_def by (metis domI inj_onD)
  show ?thesis
  proof (cases "find (\<lambda>e. snd e = x) (history_bindings s)")
    case None
    then have "sp_hbind a h \<noteq> Some x"
      by (auto simp: find_None_iff entry [symmetric])
    with None show ?thesis
      by (simp add: bound_history_def)
  next
    case (Some z)
    have "z \<in> set (history_bindings s)" "snd z = x"
      using Some by (auto simp: find_Some_iff)
    then have "sp_hbind a (fst z) = Some x"
      using entry by (metis prod.collapse)
    with Some show ?thesis
      using uniq by (auto simp: bound_history_def)
  qed
qed

lemma create_history_ok:
  assumes r: "rel s a"
  shows "create_history E s = Some (Inr h, s') \<longleftrightarrow> enabled (HistoryCreated None) a \<and> \<not> poisoned s \<and>
    reserve E ''persistent history set allocation failed'' 1 = Inr () \<and> h = sp_histories a \<and> s' = created s None"
  using r by (auto simp: create_history_def created_def require_unpoisoned_def result_iffs checked_iffs refines_def
      tabled_def valid_optional_def checked_add_def split: sum.splits if_splits)

section \<open>Reads\<close>

lemma committed_listed:
  assumes r: "rel s a" and i: "i < length (sp_versions a)" "sp_versions a ! i = (v, bs)"
  shows "version_id v = i" "committed_version s v =
    (if i \<in> sp_expired a then Inl HistoryError.VersionExpired else Inr (versions s ! i))"
proof -
  have exp: "set (expired_versions s) = sp_expired a"
    using r by (simp add: refines_def tabled_def)
  show id: "version_id v = i"
    using rel_versions(5) [OF r i(1)] i(2) by simp
  have "version_record s i = Inr (versions s ! i)" "record_version (versions s ! i) = v"
    using version_record_known [OF r, of i] rel_versions(2) [OF r i(1)] i by auto
  with id show "committed_version s v =
      (if i \<in> sp_expired a then Inl HistoryError.VersionExpired else Inr (versions s ! i))"
    by (simp add: committed_version_def exp)
qed

lemma committed_unlisted:
  assumes r: "rel s a" and none: "v \<notin> fst ` set (sp_versions a)"
  shows "\<exists>e. committed_version s v = Inl e"
proof (cases "version_record s (version_id v)")
  case (Inr rec)
  then have "version_id v < length (sp_versions a)" "rec = versions s ! version_id v"
    using version_record_known [OF r] by auto
  then have "record_version rec \<noteq> v"
    using rel_versions(2) [OF r] none by (metis imageI nth_mem)
  with Inr show ?thesis
    by (simp add: committed_version_def)
qed (simp add: committed_version_def)

lemma rel_backend:
  assumes "rel s a" "content_ok b'" "denotes b' = denotes (store_backend s)"
  shows "rel (s\<lparr>store_backend := b'\<rparr>) a"
  using assms by (simp add: refines_def tabled_def)

lemma read_outcome:
  assumes r: "rel s a" and i: "i < length (sp_versions a)" "sp_versions a ! i = (v, bs)"
  shows "\<exists>s'. store_read E P v off len out s = Some
      (if i \<in> sp_expired a then Inl HistoryError.VersionExpired
       else if width64 \<le> off + len then Inl (HistoryError.Invalid ''persistent history read range exceeds u64'')
       else if length bs < off + len then Inl (HistoryError.Sequence
         (SequenceError.Avl (V2AvlError.Invalid ''v2 range exceeds root logical length'')))
       else Inr (out @ take len (drop off bs)), s') \<and> rel s' a \<and> poisoned s' = poisoned s"
proof -
  note v = committed_listed [OF r i]
  show ?thesis
  proof (cases "i \<in> sp_expired a \<or> width64 \<le> off + len")
    case True
    then show ?thesis
      using r rel_versions(4) [OF r i(1)] v
      by (auto simp: store_read_def run_simps SequenceRange_new_def checked_add_def)
  next
    case False
    obtain root where root: "record_root (versions s ! i) = Some root" "denotes (store_backend s) root bs"
      using rel_versions(4) [OF r i(1)] False i by auto
    obtain rng where rng: "SequenceRange_new off len = Some rng"
      using False by (simp add: SequenceRange_new_def checked_add_def)
    have ok: "content_ok (store_backend s)"
      using r by (simp add: refines_def)
    obtain b' where b: "seam_read_range E P root rng out (store_backend s) = Some
          (if length bs < off + len
           then Inl (SequenceError.Avl (V2AvlError.Invalid ''v2 range exceeds root logical length''))
           else Inr (out @ take len (drop off bs)), b')" "content_ok b'" "denotes b' = denotes (store_backend s)"
      using read_law [OF ok root(2) rng] by blast
    show ?thesis
      using False rel_backend [OF r b(2,3)]
      by (intro exI [of _ "s\<lparr>store_backend := b'\<rparr>"]) (simp add: store_read_def run_simps v root rng backendP_def b(1))
  qed
qed

lemma verify_outcome:
  assumes r: "rel s a" and i: "i < length (sp_versions a)" "sp_versions a ! i = (v, bs)"
  shows "\<exists>s'. store_verify E P v s = Some
      (if i \<in> sp_expired a then Inl HistoryError.VersionExpired else Inr (), s') \<and> rel s' a \<and> poisoned s' = poisoned s"
proof -
  note v = committed_listed [OF r i]
  show ?thesis
  proof (cases "i \<in> sp_expired a")
    case True
    then show ?thesis
      using r v by (auto simp: store_verify_def run_simps)
  next
    case False
    obtain root where root: "record_root (versions s ! i) = Some root" "denotes (store_backend s) root bs"
      using rel_versions(4) [OF r i(1)] False i by auto
    have ok: "content_ok (store_backend s)"
      using r by (simp add: refines_def)
    obtain b' where b: "seam_verify E P root (store_backend s) = Some (Inr (), b')" "content_ok b'"
      "denotes b' = denotes (store_backend s)"
      using verify_law [OF ok root(2)] by blast
    show ?thesis
      using False rel_backend [OF r b(2,3)]
      by (intro exI [of _ "s\<lparr>store_backend := b'\<rparr>"]) (simp add: store_verify_def run_simps v root backendP_def b(1))
  qed
qed

end

end
