(* ===== verification/History_Import_Correct.thy ===== *)
theory History_Import_Correct
  imports History_Import History_Snapshot_Codec History_Refinement "HOL-Library.Multiset"
begin

text \<open>
  A snapshot the decoder accepts is imported without error once its descriptors carry the lengths of
  the catalogue, and the result is the store it describes: the records in order, the bindings, the
  expired set, both ledgers and the receipt order.  Sealing a store and importing the artifact gives
  back its catalogue and tables.
\<close>

section \<open>Table construction\<close>

definition bind_from :: "nat \<Rightarrow> 'v option list \<Rightarrow> (nat, 'v) table \<Rightarrow> (nat, 'v) table" where
  "bind_from i bs t = fold (\<lambda>(k, b) t. case b of None \<Rightarrow> t | Some v \<Rightarrow> hput k v t) (enumerate i bs) t"

definition insert_from :: "nat \<Rightarrow> bool list \<Rightarrow> nat list \<Rightarrow> nat list" where
  "insert_from i bs t = fold (\<lambda>(k, b) t. if b then List.insert k t else t) (enumerate i bs) t"

lemma bind_from_simps [simp]:
  "bind_from i [] t = t"
  "bind_from i (b # bs) t = bind_from (Suc i) bs (case b of None \<Rightarrow> t | Some v \<Rightarrow> hput i v t)"
  by (simp_all add: bind_from_def)

lemma insert_from_simps [simp]:
  "insert_from i [] t = t"
  "insert_from i (b # bs) t = insert_from (Suc i) bs (if b then List.insert i t else t)"
  by (simp_all add: insert_from_def)

lemma htable_bind_from: "htable t \<Longrightarrow> htable (bind_from i bs t)"
  by (induction bs arbitrary: i t) (auto split: option.split)

lemma hget_bind_from:
  "hget (bind_from i bs t) k = (if i \<le> k \<and> k < i + length bs \<and> bs ! (k - i) \<noteq> None then bs ! (k - i) else hget t k)"
proof (induction bs arbitrary: i t)
  case (Cons b bs)
  show ?case
    unfolding bind_from_simps Cons.IH by (cases b; cases "k = i") (auto simp: nth_Cons' Suc_diff_Suc)
qed auto

lemma set_insert_from: "set (insert_from i bs t) = set t \<union> {k. i \<le> k \<and> k < i + length bs \<and> bs ! (k - i)}"
proof (induction bs arbitrary: i t)
  case (Cons b bs)
  have "{k. i \<le> k \<and> k < i + length (b # bs) \<and> (b # bs) ! (k - i)} =
      {k. k = i \<and> b} \<union> {k. Suc i \<le> k \<and> k < Suc i + length bs \<and> bs ! (k - Suc i)}"
    by (auto simp: nth_Cons' Suc_diff_Suc split: if_splits)
  then show ?case
    unfolding insert_from_simps Cons.IH by auto
qed auto

lemma distinct_insert_from: "distinct t \<Longrightarrow> distinct (insert_from i bs t)"
  by (induction bs arbitrary: i t) auto

definition put_all :: "('k \<times> 'v) list \<Rightarrow> ('k, 'v) table \<Rightarrow> ('k, 'v) table" where
  "put_all kvs t = fold (\<lambda>(k, v). hput k v) kvs t"

lemma put_all_simps [simp]: "put_all [] t = t" "put_all ((k, v) # kvs) t = put_all kvs (hput k v t)"
  by (simp_all add: put_all_def)

lemma htable_put_all: "htable t \<Longrightarrow> htable (put_all kvs t)"
  by (induction kvs arbitrary: t) auto

lemma hget_put_all:
  "distinct (map fst kvs) \<Longrightarrow> hget (put_all kvs t) k = (case map_of kvs k of None \<Rightarrow> hget t k | Some v \<Rightarrow> Some v)"
proof (induction kvs arbitrary: t)
  case (Cons kv kvs)
  then show ?case
    by (cases kv) (force split: option.split dest: map_of_SomeD)
qed simp

lemma hget_put_all_Nil: "htable kvs \<Longrightarrow> hget (put_all kvs []) = hget kvs"
  by (intro ext) (auto simp: hget_put_all htable_def hget_def [of kvs] split: option.split)

lemma hkeys_dom: "hkeys t = dom (hget t)"
  by (auto simp: hget_None_iff dom_def)

section \<open>The loops\<close>

lemma check_import_bindings_ok:
  "list_all (optional_ok n) bs \<Longrightarrow> distinct (filter (\<lambda>b. b \<noteq> None) bs) \<Longrightarrow>
     Some ` set seen \<inter> set bs = {} \<Longrightarrow> check_import_bindings seen bs = Inr ()"
  by (induction seen bs rule: check_import_bindings.induct) (auto simp: optional_ok_def)

lemma import_histories_ok:
  assumes E: "\<And>m n. try_reserve E m n"
  shows "i + length bs \<le> width64 \<Longrightarrow> import_histories E i bs s = Inr (s\<lparr>
    histories := insert_from i (map (\<lambda>_. True) bs) (histories s), history_bindings := bind_from i bs (history_bindings s)\<rparr>)"
proof (induction bs arbitrary: i s)
  case (Cons b bs)
  then show ?case
    by (cases b) (simp_all add: try_from_def reserve_def E)
qed simp

definition imported_root :: "SnapshotVersion \<Rightarrow> PersistentRoot option" where
  "imported_root e = Option.bind (sv_root e) (\<lambda>d. case decode_canonical_root_bytes d of Inl _ \<Rightarrow> None | Inr r \<Rightarrow> Some r)"

definition imported_record :: "nat \<times> SnapshotVersion \<Rightarrow> VersionRecord" where
  "imported_record = (\<lambda>(i, e). \<lparr>record_version =
     \<lparr>version_history = sv_history e, version_id = i, version_parent = sv_parent e\<rparr>,
     record_root = imported_root e, record_len = sv_len e\<rparr>)"

definition lengths_agree :: "SnapshotVersion \<Rightarrow> bool" where
  "lengths_agree e \<longleftrightarrow> (case imported_root e of None \<Rightarrow> True | Some r \<Rightarrow> proot_logical_len r = sv_len e)"

lemma import_root_ok:
  assumes "version_ok hcount prior e" "m + 1 < width64"
  shows "import_root e m = Inr (imported_root e, if sv_root_present e then m + 1 else m)"
  using assms
  by (cases "sv_root e"; cases "decode_canonical_root_bytes (the (sv_root e))")
    (auto simp: import_root_def version_ok_def descriptor_ok_def imported_root_def checked_add_def)

lemma import_version_ok:
  assumes E: "\<And>m n. try_reserve E m n" and e: "version_ok hcount prior e" "lengths_agree e"
    and i: "i = length prior" "i < width64" and m: "m + 1 < width64"
  shows "import_version E (prior @ rest) i e (m, s) = Inr (if sv_root_present e then m + 1 else m, s\<lparr>
    versions := versions s @ [imported_record (i, e)],
    expired_versions := (if sv_lifecycle e = VersionLifecycle.Expired then List.insert i (expired_versions s) else expired_versions s),
    version_bindings := (case sv_binding e of None \<Rightarrow> version_bindings s | Some b \<Rightarrow> hput i b (version_bindings s))\<rparr>)"
proof -
  have "check_import_parent (prior @ rest) e = Inr ()"
    using e(1) by (auto simp: check_import_parent_def version_ok_def parent_ok_def try_from_def get_at_def nth_append
        parent_code split: option.splits)
  then show ?thesis
    using e i(2) import_root_ok [OF e(1) m] unfolding version_ok_def
    by (cases "sv_binding e"; cases "sv_lifecycle e"; cases "imported_root e")
      (auto simp: import_version_def try_from_def reserve_def E lengths_agree_def imported_record_def Let_def)
qed

lemma import_versions_ok:
  assumes E: "\<And>m n. try_reserve E m n"
  shows "versions_ok hcount prior es \<Longrightarrow> list_all lengths_agree es \<Longrightarrow> i = length prior \<Longrightarrow>
    i + length es < width64 \<Longrightarrow> m \<le> i \<Longrightarrow>
    import_versions E (prior @ es) i es (m, s) = Inr (m + length (filter sv_root_present es), s\<lparr>
      versions := versions s @ map imported_record (enumerate i es),
      expired_versions := insert_from i (map (\<lambda>e. sv_lifecycle e = VersionLifecycle.Expired) es) (expired_versions s),
      version_bindings := bind_from i (map sv_binding es) (version_bindings s)\<rparr>)"
proof (induction es arbitrary: prior i m s)
  case (Cons e es)
  let ?m = "if sv_root_present e then m + 1 else m"
  let ?s = "s\<lparr>versions := versions s @ [imported_record (i, e)],
    expired_versions := (if sv_lifecycle e = VersionLifecycle.Expired then List.insert i (expired_versions s) else expired_versions s),
    version_bindings := (case sv_binding e of None \<Rightarrow> version_bindings s | Some b \<Rightarrow> hput i b (version_bindings s))\<rparr>"
  have one: "import_version E (prior @ e # es) i e (m, s) = Inr (?m, ?s)"
    using Cons.prems by (intro import_version_ok [OF E, of hcount]) auto
  have rest: "import_versions E ((prior @ [e]) @ es) (Suc i) es (?m, ?s) = Inr (?m + length (filter sv_root_present es), ?s\<lparr>
      versions := versions ?s @ map imported_record (enumerate (Suc i) es),
      expired_versions := insert_from (Suc i) (map (\<lambda>e. sv_lifecycle e = VersionLifecycle.Expired) es) (expired_versions ?s),
      version_bindings := bind_from (Suc i) (map sv_binding es) (version_bindings ?s)\<rparr>)"
    by (rule Cons.IH) (use Cons.prems in auto)
  show ?case
    unfolding import_versions.simps one bindR_simps
    using rest by (simp del: import_versions.simps)
qed simp

definition active_entry :: "SnapshotActive \<Rightarrow> byte list \<times> ActiveRequest" where
  "active_entry a = (sa_request_id a, \<lparr>request_digest = sa_digest a, request_version = sa_version a\<rparr>)"

definition retired_entry :: "SnapshotRetired \<Rightarrow> byte list \<times> digest" where
  "retired_entry a = (sr_request_id a, sr_digest a)"

lemma entry_keys:
  "map fst (map active_entry as) = map sa_request_id as" "map fst (map retired_entry rs) = map sr_request_id rs"
  "hkeys (map active_entry as) = set (map sa_request_id as)" "hkeys (map retired_entry rs) = set (map sr_request_id rs)"
  by (auto simp: active_entry_def retired_entry_def hkeys_def image_image)

lemma import_active_ok:
  assumes E: "\<And>m n. try_reserve E m n"
  shows "distinct (map sa_request_id as) \<Longrightarrow> set (map sa_request_id as) \<inter> hkeys (active_requests s) = {} \<Longrightarrow>
    \<forall>a\<in>set as. sa_version a < length (versions s) \<and> sa_version a < width64 \<and>
      version_id (record_version (versions s ! sa_version a)) = sa_version a \<Longrightarrow>
    import_active E as s = Inr (s\<lparr>active_requests := put_all (map active_entry as) (active_requests s)\<rparr>)"
proof (induction as arbitrary: s)
  case (Cons a as)
  then have "version_record s (sa_version a) = Inr (versions s ! sa_version a)"
    by (simp add: version_record_def try_from_def get_at_def)
  then show ?case
    using Cons by (auto simp: reserve_def E active_entry_def hget_None_iff)
qed simp

lemma import_retired_ok:
  assumes E: "\<And>m n. try_reserve E m n"
  shows "distinct (map sr_request_id rs) \<Longrightarrow> set (map sr_request_id rs) \<inter> hkeys (active_requests s) = {} \<Longrightarrow>
    set (map sr_request_id rs) \<inter> hkeys (retired_requests s) = {} \<Longrightarrow>
    import_retired E rs s = Inr (s\<lparr>retired_requests := put_all (map retired_entry rs) (retired_requests s)\<rparr>)"
  by (induction rs arbitrary: s) (auto simp: reserve_def E retired_entry_def hget_None_iff)

lemma import_receipts_ok:
  "list_all request_id_ok rs \<Longrightarrow> import_receipts rs s = Inr (s\<lparr>receipt_order := receipt_order s @ rs\<rparr>)"
  by (induction rs arbitrary: s) (auto simp: request_id_ok_def)

lemma retired_ok_ascending:
  "retired_ok ids previous rs \<Longrightarrow> sorted_wrt (<) (map sr_request_id rs) \<and> (\<forall>r\<in>set rs. follows previous (sr_request_id r))"
proof (induction rs arbitrary: previous)
  case (Cons r rs)
  have "sorted_wrt (<) (map sr_request_id rs)" "\<forall>q\<in>set rs. follows (Some (sr_request_id r)) (sr_request_id q)"
    using Cons.IH [of "Some (sr_request_id r)"] Cons.prems by auto
  then show ?case
    using Cons.prems by (auto simp: follows_def split: option.splits)
qed simp

lemma retired_ok_distinct: "retired_ok ids previous rs \<Longrightarrow> distinct (map sr_request_id rs)"
  using retired_ok_ascending strict_sorted_iff by blast

lemma hkeys_put_all: "hkeys (put_all kvs t) = hkeys t \<union> hkeys kvs"
proof (induction kvs arbitrary: t)
  case (Cons kv kvs)
  then show ?case
    by (cases kv) (auto simp: hkeys_def [of "_ # _"] hkeys_def [of kvs])
qed simp

definition imported_store :: "'p BalancedSequence \<Rightarrow> HistorySnapshot \<Rightarrow> 'p PersistentHistoryStore" where
  "imported_store b snap = \<lparr>store_backend = b,
     histories = insert_from 0 (map (\<lambda>_. True) (snap_history_bindings snap)) [],
     versions = map imported_record (enumerate 0 (snap_versions snap)),
     next_history_id = snap_next_history_id snap, next_version_id = snap_next_version_id snap,
     active_requests = put_all (map active_entry (snap_active snap)) [],
     retired_requests = put_all (map retired_entry (snap_retired snap)) [], receipt_order = snap_receipt_order snap,
     expired_versions = insert_from 0 (map (\<lambda>e. sv_lifecycle e = VersionLifecycle.Expired) (snap_versions snap)) [],
     history_bindings = bind_from 0 (snap_history_bindings snap) [],
     version_bindings = bind_from 0 (map sv_binding (snap_versions snap)) [], poisoned = False\<rparr>"

lemma expired_count: "length (insert_from i bs t) \<le> length t + length bs"
  by (induction bs arbitrary: i t) (fastforce simp: List.insert_def intro: le_trans split: if_splits)+

theorem import_catalogue_ok:
  assumes E: "\<And>m n. try_reserve E m n" and ok: "snapshot_ok snap" and len: "list_all lengths_agree (snap_versions snap)"
  shows "import_catalogue E b snap = Inr (imported_store b snap)"
proof -
  let ?v = "snap_versions snap" and ?h = "snap_history_bindings snap"
  have t: "tables_ok snap" and n: "length ?h < width64" "length ?v < width64"
    using ok by (auto simp: snapshot_ok_def)
  note tb = t [unfolded tables_ok_def]
  have vs: "\<forall>a\<in>set (snap_active snap). sa_version a < width64"
    using tb n(2) by (auto simp: receipts_ok_def)
  have "check_import_bindings [] ?h = Inr ()"
    using tb by (intro check_import_bindings_ok) auto
  moreover have "import_histories E 0 ?h (bare_history b (snap_next_history_id snap) (snap_next_version_id snap)) =
      Inr ((bare_history b (snap_next_history_id snap) (snap_next_version_id snap))\<lparr>
        histories := insert_from 0 (map (\<lambda>_. True) ?h) [], history_bindings := bind_from 0 ?h []\<rparr>)" (is "_ = Inr ?s1")
    using import_histories_ok [OF E, of 0 ?h "bare_history b (snap_next_history_id snap) (snap_next_version_id snap)"] n(1)
    by (simp add: bare_history_def)
  moreover have "import_versions E ?v 0 ?v (0, ?s1) = Inr (length (filter sv_root_present ?v), ?s1\<lparr>
      versions := map imported_record (enumerate 0 ?v),
      expired_versions := insert_from 0 (map (\<lambda>e. sv_lifecycle e = VersionLifecycle.Expired) ?v) [],
      version_bindings := bind_from 0 (map sv_binding ?v) []\<rparr>)" (is "_ = Inr (_, ?s2)")
    using import_versions_ok [OF E, of "length ?h" "[]" ?v 0 0 ?s1] tb len n(2) by (simp add: bare_history_def)
  moreover have "import_active E (snap_active snap) ?s2 =
      Inr (?s2\<lparr>active_requests := put_all (map active_entry (snap_active snap)) []\<rparr>)" (is "_ = Inr ?s3")
    using import_active_ok [OF E, of "snap_active snap" ?s2] tb vs
    by (simp add: bare_history_def receipts_ok_def imported_record_def nth_enumerate_eq)
  moreover have "import_retired E (snap_retired snap) ?s3 =
      Inr (?s3\<lparr>retired_requests := put_all (map retired_entry (snap_retired snap)) []\<rparr>)" (is "_ = Inr ?s4")
    using import_retired_ok [OF E, of "snap_retired snap" ?s3] tb retired_ok_distinct
    by (auto simp: bare_history_def receipts_ok_def hkeys_put_all entry_keys)
  moreover have "import_receipts (snap_receipt_order snap) ?s4 = Inr (?s4\<lparr>receipt_order := snap_receipt_order snap\<rparr>)"
    using import_receipts_ok [of "snap_receipt_order snap" ?s4] tb by (simp add: bare_history_def)
  moreover have "validate_snapshot_receipt_consistency E ?v (snap_active snap) (snap_retired snap) (snap_receipt_order snap) = Inr ()"
    using tb by (simp add: validate_receipts_iff [OF E])
  moreover have "length (insert_from 0 (map (\<lambda>e. sv_lifecycle e = VersionLifecycle.Expired) ?v) []) \<le> length ?v"
    using expired_count [of 0 "map (\<lambda>e. sv_lifecycle e = VersionLifecycle.Expired) ?v" "[]"] by simp
  ultimately show ?thesis
    unfolding import_catalogue_def by (simp add: reserve_def E imported_store_def bare_history_def)
qed

section \<open>Sealing\<close>

lemma versions_ok_nth:
  "versions_ok hcount prior vs \<longleftrightarrow> (\<forall>i<length vs. version_ok hcount (prior @ take i vs) (vs ! i))"
proof (induction vs arbitrary: prior)
  case (Cons v vs)
  show ?case
    unfolding versions_ok.simps Cons.IH by (auto simp: less_Suc_eq_0_disj)
qed simp

lemma active_okI:
  "sorted_wrt (<) (map sa_request_id as) \<Longrightarrow> \<forall>a\<in>set as. follows previous (sa_request_id a) \<Longrightarrow>
   \<forall>a\<in>set as. request_id_ok (sa_request_id a) \<and> length (sa_digest a) = 32 \<and> sa_version a < vcount \<and> sa_version a < width64 \<Longrightarrow>
   active_ok vcount previous as"
  by (induction as arbitrary: previous) (auto simp: follows_def)

lemma retired_okI:
  "sorted_wrt (<) (map sr_request_id as) \<Longrightarrow> \<forall>a\<in>set as. follows previous (sr_request_id a) \<Longrightarrow>
   \<forall>a\<in>set as. request_id_ok (sr_request_id a) \<and> length (sr_digest a) = 32 \<and> sr_request_id a \<notin> set ids \<Longrightarrow>
   retired_ok ids previous as"
  by (induction as arbitrary: previous) (auto simp: follows_def)

lemma sorted_table:
  assumes "htable t"
  shows "sorted_wrt (<) (map fst (sort_key fst t))" "htable (sort_key fst t)" "hget (sort_key fst t) = hget t"
    "set (map fst (sort_key fst t)) = hkeys t"
proof -
  have "mset (map fst (sort_key fst t)) = mset (map fst t)"
    by (simp add: mset_map)
  then have "distinct (map fst (sort_key fst t))"
    using assms by (metis htable_def mset_eq_imp_distinct_iff)
  then show "htable (sort_key fst t)" and "sorted_wrt (<) (map fst (sort_key fst t))"
    by (simp_all add: htable_def strict_sorted_iff)
  with assms show "hget (sort_key fst t) = hget t"
    unfolding hget_def htable_def by (subst map_of_inject_set) auto
  show "set (map fst (sort_key fst t)) = hkeys t"
    by (simp add: hkeys_def)
qed

text \<open>Roots read from the backend are canonical and keep their node identity.\<close>

definition resolves_canonically :: "'p PhysicalContent \<Rightarrow> 'p BalancedSequence \<Rightarrow> bool" where
  "resolves_canonically P b \<longleftrightarrow> (\<forall>root r. resolve P b root = Inr r \<longrightarrow> root_canonical r \<and> root_node_id r = proot_node_id root)"

lemma canonical_root_bytes_decode:
  assumes "resolves_canonically P b" "canonical_root_bytes P b root = Inr d"
  shows "decode_canonical_root_bytes d = Inr root" "descriptor_ok d"
proof -
  obtain r where r: "resolve P b root = Inr r" "d = encode_v2_root r"
    using assms(2) by (auto simp: canonical_root_bytes_def result_iffs)
  then have c: "root_canonical r" "root_node_id r = proot_node_id root"
    using assms(1) by (auto simp: resolves_canonically_def)
  have "root_len r = proot_logical_len root" "representation root = BalancedV2"
    using r(1) by (auto simp: resolve_def result_iffs split: if_splits)
  with c r show d: "decode_canonical_root_bytes d = Inr root"
    by (simp add: decode_canonical_root_bytes_def decode_encode_v2_root balanced_v2_def)
  show "descriptor_ok d"
    using c(1) d by (simp add: descriptor_ok_def r(2) length_encode_v2_root root_canonical_def V2_ROOT_RECORD_SIZE_def)
qed

lemma snapshot_descriptor_facts:
  assumes P: "resolves_canonically P (store_backend s)" and d: "snapshot_descriptor P s rec = Inr x"
  shows "(x = None) = (record_root rec = None)"
    and "\<And>y. x = Some y \<Longrightarrow> descriptor_ok y"
    and "imported_root (snapshot_version s (rec, x)) = record_root rec"
    and "\<And>r. record_root rec = Some r \<Longrightarrow> proot_logical_len r = record_len rec"
    and "record_root rec = None \<Longrightarrow> version_id (record_version rec) \<in> set (expired_versions s)"
  using d canonical_root_bytes_decode [OF P]
  by (auto simp: snapshot_descriptor_def snapshot_version_def imported_root_def result_iffs map_sum_def
      split: option.splits if_splits sum.splits)

text \<open>The entry of a version agrees with its record and with the abstract catalogue.\<close>

lemma sealed_version:
  assumes tab: "tabled s a" and st: "stored den (versions s) a" and inv: "spec_inv a"
    and P: "resolves_canonically P (store_backend s)"
    and ds: "list_all2 (\<lambda>rec d. snapshot_descriptor P s rec = Inr d) (versions s) ds"
    and i: "i < length (versions s)"
  defines "e \<equiv> snapshot_version s (versions s ! i, ds ! i)"
  shows "imported_record (i, e) = versions s ! i" "lengths_agree e"
    "version_ok (sp_histories a) (map (snapshot_version s) (take i (zip (versions s) ds))) e"
    "sv_binding e = sp_vbind a i" "sv_lifecycle e = VersionLifecycle.Expired \<longleftrightarrow> i \<in> sp_expired a"
proof -
  let ?rec = "versions s ! i" and ?v = "fst (sp_versions a ! i)"
  have len: "length (versions s) = length (sp_versions a)" "length ds = length (versions s)"
    using storedD(1) [OF st] list_all2_lengthD [OF ds] by simp_all
  have rec: "record_version ?rec = ?v" "record_len ?rec = length (snd (sp_versions a ! i))"
    using storedD(2) [OF st] i len by auto
  have cat: "version_id ?v = i" "version_history ?v < sp_histories a" "sp_histories a < width64"
      "snd (sp_versions a ! i) \<noteq> []" "length (snd (sp_versions a ! i)) < width64"
      "\<And>p. version_parent ?v = Some p \<Longrightarrow> p < i \<and> version_history (fst (sp_versions a ! p)) = version_history ?v"
      "length (sp_versions a) < width64"
    using inv i len by (auto simp: spec_inv_def catalogue_inv_def case_prod_beta)
  have "snapshot_descriptor P s ?rec = Inr (ds ! i)"
    using ds i by (simp add: list_all2_conv_all_nth)
  note d = snapshot_descriptor_facts [OF P this]
  show "imported_record (i, e) = ?rec"
    using d(3) rec cat(1) by (cases ?rec; cases ?v) (auto simp: e_def imported_record_def snapshot_version_def)
  show "lengths_agree e"
    using d(3,4) by (auto simp: e_def lengths_agree_def snapshot_version_def split: option.split)
  show life: "sv_lifecycle e = VersionLifecycle.Expired \<longleftrightarrow> i \<in> sp_expired a"
    using tab rec cat(1) by (simp add: e_def snapshot_version_def tabled_def)
  show bind: "sv_binding e = sp_vbind a i"
    using tab rec cat(1) by (simp add: e_def snapshot_version_def tabled_def)
  have "optional_ok MAX_HISTORY_BINDING_BYTES (sp_vbind a i)"
    using inv by (auto simp: spec_inv_def binding_inv_def optional_ok_def valid_key_def MAX_HISTORY_BINDING_BYTES_def
        intro: ranI split: option.split)
  moreover have "parent_ok (version_history ?v) (map (snapshot_version s) (take i (zip (versions s) ds))) (version_parent ?v)"
  proof (cases "version_parent ?v")
    case (Some p)
    then have p: "p < i" "version_history (fst (sp_versions a ! p)) = version_history ?v"
      using cat(6) by auto
    then have "record_version (versions s ! p) = fst (sp_versions a ! p)"
      using storedD(2) [OF st] i len by auto
    then show ?thesis
      using Some p i len cat(7) by (auto simp: parent_ok_def snapshot_version_def NO_PARENT_def)
  qed (simp add: parent_ok_def)
  ultimately show "version_ok (sp_histories a) (map (snapshot_version s) (take i (zip (versions s) ds))) e"
    using d(1,2,5) rec cat bind life tab
    by (auto simp: version_ok_def e_def snapshot_version_def tabled_def split: option.split)
qed

lemma sealed_versions:
  assumes tab: "tabled s a" and st: "stored den (versions s) a" and inv: "spec_inv a"
    and P: "resolves_canonically P (store_backend s)"
    and ds: "list_all2 (\<lambda>rec d. snapshot_descriptor P s rec = Inr d) (versions s) ds"
  defines "vs \<equiv> map (snapshot_version s) (zip (versions s) ds)"
  shows "versions_ok (sp_histories a) [] vs" "list_all lengths_agree vs" "map imported_record (enumerate 0 vs) = versions s"
    "length vs = length (versions s)"
    "\<And>i. i < length vs \<Longrightarrow> sv_binding (vs ! i) = sp_vbind a i \<and>
      (sv_lifecycle (vs ! i) = VersionLifecycle.Expired \<longleftrightarrow> i \<in> sp_expired a)"
proof -
  have len: "length ds = length (versions s)"
    using list_all2_lengthD [OF ds] by simp
  then show n: "length vs = length (versions s)"
    by (simp add: vs_def)
  have nth: "vs ! i = snapshot_version s (versions s ! i, ds ! i)" if "i < length vs" for i
    using that len by (simp add: vs_def)
  note one = sealed_version [OF tab st inv P ds]
  show "versions_ok (sp_histories a) [] vs"
    using one(3) n nth by (simp add: versions_ok_nth vs_def take_map)
  show "list_all lengths_agree vs"
    using one(2) n nth by (simp add: list_all_length)
  show "map imported_record (enumerate 0 vs) = versions s"
    using one(1) n nth by (intro nth_equalityI) (auto simp: nth_enumerate_eq)
  show "\<And>i. i < length vs \<Longrightarrow> sv_binding (vs ! i) = sp_vbind a i \<and>
      (sv_lifecycle (vs ! i) = VersionLifecycle.Expired \<longleftrightarrow> i \<in> sp_expired a)"
    using one(4,5) n nth by simp
qed

lemma valid_key_ok: "valid_key r = request_id_ok r"
  by (simp add: valid_key_def request_id_ok_def MAX_HISTORY_REQUEST_ID_BYTES_def)

lemma sealed_ledgers:
  assumes tab: "tabled s a" and inv: "spec_inv a"
    and vs: "length vs = length (sp_versions a)"
      "\<forall>i<length vs. sv_lifecycle (vs ! i) = VersionLifecycle.Expired \<longleftrightarrow> i \<in> sp_expired a"
  defines "as \<equiv> map (\<lambda>(r, q). \<lparr>sa_request_id = r, sa_digest = request_digest q, sa_version = request_version q\<rparr>)
      (sort_key fst (active_requests s))"
    and "rs \<equiv> map (\<lambda>(r, d). \<lparr>sr_request_id = r, sr_digest = d\<rparr>) (sort_key fst (retired_requests s))"
  shows "active_ok (length vs) None as" "retired_ok (map sa_request_id as) None rs"
    "receipts_ok vs as rs (receipt_order s)" "list_all request_id_ok (receipt_order s)"
    "map active_entry as = sort_key fst (active_requests s)" "map retired_entry rs = sort_key fst (retired_requests s)"
proof -
  have T: "htable (active_requests s)" "htable (retired_requests s)" "hget (active_requests s) = sp_active a"
      "hget (retired_requests s) = sp_retired a" "receipt_order s = sp_order a"
    using tab by (auto simp: tabled_def)
  have led: "ledger_upto 4096 a" and n: "length (sp_versions a) < width64"
    using inv by (auto simp: spec_inv_def ledger_inv_def catalogue_inv_def)
  have ids: "map sa_request_id as = map fst (sort_key fst (active_requests s))"
      "map sr_request_id rs = map fst (sort_key fst (retired_requests s))"
    by (auto simp: as_def rs_def)
  have keys: "set (map sa_request_id as) = dom (sp_active a)" "set (map sr_request_id rs) = dom (sp_retired a)"
    unfolding ids sorted_table(4) [OF T(1)] sorted_table(4) [OF T(2)] T(3,4) [symmetric] by (auto simp: hget_None_iff dom_def)
  have ina: "sp_active a (sa_request_id x) = Some \<lparr>request_digest = sa_digest x, request_version = sa_version x\<rparr>"
    if "x \<in> set as" for x
    using that htable_entry [OF T(1)] T(3) by (auto simp: as_def)
  have inr: "sp_retired a (sr_request_id x) = Some (sr_digest x)" if "x \<in> set rs" for x
    using that htable_entry [OF T(2)] T(4) by (auto simp: rs_def)
  have key: "request_id_ok r" if "r \<in> dom (sp_active a) \<union> dom (sp_retired a)" for r
    using that led by (auto simp: ledger_upto_def valid_key_ok)
  have keya: "request_id_ok (sa_request_id x)" if "x \<in> set as" for x
    using ina [OF that] key by blast
  have one: "sa_version x < length vs" "sa_version x < width64" "length (sa_digest x) = 32" "sa_version x \<notin> sp_expired a"
    if "x \<in> set as" for x
    using led ina [OF that] vs(1) n by (fastforce simp: ledger_upto_def)+
  show "active_ok (length vs) None as"
    using sorted_table(1) [OF T(1)] one keya by (intro active_okI) (auto simp: ids follows_def)
  show "retired_ok (map sa_request_id as) None rs"
  proof (rule retired_okI)
    show "\<forall>x\<in>set rs. request_id_ok (sr_request_id x) \<and> length (sr_digest x) = 32 \<and> sr_request_id x \<notin> set (map sa_request_id as)"
      unfolding keys(1)
    proof
      fix x
      assume "x \<in> set rs"
      note x = inr [OF this]
      have "dom (sp_active a) \<inter> dom (sp_retired a) = {}" "length (sr_digest x) = 32"
        using led x by (auto simp: ledger_upto_def)
      then show "request_id_ok (sr_request_id x) \<and> length (sr_digest x) = 32 \<and> sr_request_id x \<notin> dom (sp_active a)"
        using key x by blast
    qed
  qed (use sorted_table(1) [OF T(2)] in \<open>auto simp: ids follows_def\<close>)
  show "list_all request_id_ok (receipt_order s)"
    using led T(5) by (simp add: ledger_upto_def list_all_iff valid_key_ok)
  show ents: "map active_entry as = sort_key fst (active_requests s)" "map retired_entry rs = sort_key fst (retired_requests s)"
    by (auto simp: as_def rs_def active_entry_def retired_entry_def intro!: map_idI)
  have "distinct (map sa_version as)"
  proof -
    have "inj_on sa_version (set as)"
    proof (rule inj_onI)
      fix x y
      assume x: "x \<in> set as" and y: "y \<in> set as" and eq: "sa_version x = sa_version y"
      have "sa_request_id x = sa_request_id y"
        using led ina [OF x] ina [OF y] eq by (fastforce simp: ledger_upto_def)
      with ina [OF x] ina [OF y] show "x = y"
        by (cases x; cases y) simp
    qed
    moreover have "distinct as"
      using sorted_table(2) [OF T(1)] by (metis distinct_map htable_def ids(1))
    ultimately show ?thesis
      by (simp add: distinct_map)
  qed
  moreover have "distinct (map sa_request_id as)"
    using sorted_table(2) [OF T(1)] by (simp add: ids htable_def)
  moreover have "length (sp_order a) = length as + length rs"
    using receipt_count [OF T(1,2), of "sp_order a"] led unfolding hkeys_dom T(3,4)
    by (simp add: ledger_upto_def as_def rs_def)
  moreover have "sv_lifecycle (vs ! sa_version x) = Retained" if "x \<in> set as" for x
    using one [OF that] vs(2) by (cases "sv_lifecycle (vs ! sa_version x)") auto
  ultimately show "receipts_ok vs as rs (receipt_order s)"
    using led one keys unfolding receipts_ok_def T(5)
    by (auto simp: ledger_upto_def STAGING_REQUEST_RECEIPT_CAPACITY_def)
qed

lemma outside_dom: "dom m \<subseteq> {..<n} \<Longrightarrow> \<not> i < n \<Longrightarrow> m i = None"
  by blast

lemma sealed_bindings:
  assumes tab: "tabled s a" "\<not> poisoned s" and inv: "spec_inv a"
  defines "hs \<equiv> map (hget (history_bindings s)) [0..<next_history_id s]"
  shows "length hs = sp_histories a" "list_all (optional_ok MAX_HISTORY_BINDING_BYTES) hs"
    "distinct (filter (\<lambda>b. b \<noteq> None) hs)" "\<And>i. i < length hs \<Longrightarrow> hs ! i = sp_hbind a i" "dom (sp_hbind a) \<subseteq> {..<length hs}"
proof -
  have hb: "hget (history_bindings s) = sp_hbind a" "next_history_id s = sp_histories a"
    using tab by (auto simp: tabled_def)
  have b: "dom (sp_hbind a) \<subseteq> {..<sp_histories a}" "inj_on (sp_hbind a) (dom (sp_hbind a))" "\<And>x. x \<in> ran (sp_hbind a) \<Longrightarrow> valid_key x"
    using inv by (auto simp: spec_inv_def binding_inv_def)
  show "length hs = sp_histories a" "\<And>i. i < length hs \<Longrightarrow> hs ! i = sp_hbind a i" "dom (sp_hbind a) \<subseteq> {..<length hs}"
    using b(1) by (auto simp: hs_def hb)
  show "list_all (optional_ok MAX_HISTORY_BINDING_BYTES) hs"
    using b(3) by (auto simp: hs_def hb list_all_iff optional_ok_def valid_key_def MAX_HISTORY_BINDING_BYTES_def
        intro: ranI split: option.split)
  have "inj_on (sp_hbind a) (set (filter (\<lambda>i. sp_hbind a i \<noteq> None) [0..<sp_histories a]))"
    using b(2) by (rule inj_on_subset) auto
  then show "distinct (filter (\<lambda>b. b \<noteq> None) hs)"
    by (simp add: hs_def hb filter_map distinct_map o_def)
qed

text \<open>
  The snapshot built from a store that represents a history is well-formed, whatever its generation.
\<close>

lemma sealed_snapshot:
  assumes tab: "tabled s a" "\<not> poisoned s" and st: "stored den (versions s) a" and inv: "spec_inv a"
    and P: "resolves_canonically P (store_backend s)"
    and word: "g < width64" "w < width64" "fst (snapshot_frontiers P s) < width64" "snd (snapshot_frontiers P s) < width64"
      "case physical_generation P (store_backend s) of None \<Rightarrow> True | Some g \<Rightarrow> g < width64"
    and ds: "list_all2 (\<lambda>rec d. snapshot_descriptor P s rec = Inr d) (versions s) ds"
  shows "snapshot_ok (snapshot_of P s g w ds)" "length (receipt_order s) \<le> 4096"
    "length (active_requests s) + length (retired_requests s) = length (receipt_order s)"
proof -
  note V = sealed_versions [OF tab(1) st inv P ds] and H = sealed_bindings [OF tab inv]
  have vn: "next_version_id s = length (versions s)" "length (versions s) = length (sp_versions a)"
    using tab storedD(1) [OF st] by (simp_all add: tabled_def)
  let ?vs = "map (snapshot_version s) (zip (versions s) ds)"
  have "\<forall>i<length ?vs. sv_lifecycle (?vs ! i) = VersionLifecycle.Expired \<longleftrightarrow> i \<in> sp_expired a"
    using V(5) by blast
  note L = sealed_ledgers [OF tab(1) inv trans [OF V(4) vn(2)] this]
  have cat: "sp_histories a < width64" "length (sp_versions a) < width64"
    using inv by (auto simp: spec_inv_def catalogue_inv_def)
  have tables: "tables_ok (snapshot_of P s g w ds)"
    using V H L by (simp add: tables_ok_def snapshot_of_def)
  show cap: "length (receipt_order s) \<le> 4096" "length (active_requests s) + length (retired_requests s) = length (receipt_order s)"
    using L(3) by (auto simp: receipts_ok_def STAGING_REQUEST_RECEIPT_CAPACITY_def)
  show "snapshot_ok (snapshot_of P s g w ds)"
    using tables word H(1) V(4) vn cat cap tab
    by (auto simp: snapshot_ok_def snapshot_of_def tabled_def width64_def split: option.splits)
qed

theorem seal_import:
  assumes E: "\<And>m n. try_reserve E m n" and sha: "sha_ok E"
    and tab: "tabled s a" "\<not> poisoned s" and st: "stored den (versions s) a" and inv: "spec_inv a"
    and P: "resolves_canonically P (store_backend s)"
    and word: "g < width64" "w < width64" "fst (snapshot_frontiers P s) < width64" "snd (snapshot_frontiers P s) < width64"
      "case physical_generation P (store_backend s) of None \<Rightarrow> True | Some g \<Rightarrow> g < width64"
    and enc: "encode_history_snapshot E P s g w = Inr bs"
  obtains snap where "decode_history_snapshot E bs = Inr snap" "snap_generation snap = g"
    "snap_represented_wal_end snap = w" "snap_payload_end snap = fst (snapshot_frontiers P s)"
    "snap_node_count snap = snd (snapshot_frontiers P s)"
    "snap_physical_generation snap = (case physical_generation P (store_backend s) of None \<Rightarrow> 0 | Some g \<Rightarrow> g)"
    "\<And>b :: 'q BalancedSequence. \<exists>s'. import_catalogue E b snap = Inr s' \<and> store_backend s' = b \<and>
       versions s' = versions s \<and> tabled s' a \<and> \<not> poisoned s'"
proof -
  obtain ds where ds: "list_all2 (\<lambda>rec d. snapshot_descriptor P s rec = Inr d) (versions s) ds"
    and enc': "encode_history_snapshot_struct E (snapshot_of P s g w ds) = Inr bs"
    using enc by (auto simp: encode_history_snapshot_def result_iffs traverse_Inr_iff split: if_splits)
  let ?snap = "snapshot_of P s g w ds" and ?vs = "map (snapshot_version s) (zip (versions s) ds)"
  note V = sealed_versions [OF tab(1) st inv P ds] and H = sealed_bindings [OF tab inv]
  have vn: "next_version_id s = length (versions s)" "length (versions s) = length (sp_versions a)"
    using tab storedD(1) [OF st] by (simp_all add: tabled_def)
  have "\<forall>i<length ?vs. sv_lifecycle (?vs ! i) = VersionLifecycle.Expired \<longleftrightarrow> i \<in> sp_expired a"
    using V(5) by blast
  note L = sealed_ledgers [OF tab(1) inv trans [OF V(4) vn(2)] this]
  have ok: "snapshot_ok ?snap"
    by (rule sealed_snapshot(1) [OF tab st inv P word ds])
  have "decode_history_snapshot E bs = Inr ?snap"
    using enc' ok unfolding encode_snapshot_iff [OF E sha ok] decode_snapshot_iff [OF E sha] by blast
  moreover have "import_catalogue E b ?snap = Inr (imported_store b ?snap)" for b :: "'q BalancedSequence"
    using V(2) by (intro import_catalogue_ok [OF E ok]) (simp add: snapshot_of_def)
  moreover have "tabled (imported_store b ?snap) a" for b :: "'q BalancedSequence"
  proof -
    have "set (insert_from 0 (map (\<lambda>_. True) (map (hget (history_bindings s)) [0..<next_history_id s])) []) = {..<sp_histories a}"
      unfolding set_insert_from using H(1) by auto
    moreover have "hget (bind_from 0 (map (hget (history_bindings s)) [0..<next_history_id s]) []) = sp_hbind a"
      using H(4) outside_dom [OF H(5)] by (intro ext) (auto simp: hget_bind_from)
    moreover have "hget (bind_from 0 (map sv_binding ?vs) []) = sp_vbind a"
      using V(4,5) vn(2) outside_dom [of "sp_vbind a" "length (versions s)"] inv
      by (intro ext) (auto simp: hget_bind_from spec_inv_def binding_inv_def)
    moreover have "set (insert_from 0 (map (\<lambda>e. sv_lifecycle e = VersionLifecycle.Expired) ?vs) []) = sp_expired a"
      using V(4,5) vn(2) inv unfolding set_insert_from by (auto simp: spec_inv_def catalogue_inv_def)
    moreover have "hget (active_requests (imported_store b ?snap)) = sp_active a"
      using tab sorted_table(2,3) [of "active_requests s"]
      unfolding imported_store_def snapshot_of_def PersistentHistoryStore.simps HistorySnapshot.simps L(5)
      by (simp add: hget_put_all_Nil tabled_def)
    moreover have "hget (retired_requests (imported_store b ?snap)) = sp_retired a"
      using tab sorted_table(2,3) [of "retired_requests s"]
      unfolding imported_store_def snapshot_of_def PersistentHistoryStore.simps HistorySnapshot.simps L(6)
      by (simp add: hget_put_all_Nil tabled_def)
    ultimately show ?thesis
      using tab vn(2) unfolding tabled_def
      by (simp add: imported_store_def snapshot_of_def htable_bind_from htable_put_all distinct_insert_from del: map_map)
  qed
  ultimately show ?thesis
    using that [of ?snap] V(3) by (auto simp: snapshot_of_def imported_store_def)
qed

end
