(* ===== verification/History_Manifest_Codec.thy ===== *)
theory History_Manifest_Codec
  imports History_Manifest "HOL-Library.Multiset"
begin

text \<open>
  The manifest codec: decoding inverts encoding, for any JSON reader that reads compact text back.
  \<open>reference_reader\<close> is such a reader.
\<close>

section \<open>Digests in hexadecimal\<close>

lemma nibble_cases: "n < 16 \<Longrightarrow> n \<in> {0, 1, 2, 3, 4, 5, 6, 7, 8, 9, 10, 11, 12, 13, 14, 15 :: nat}"
  unfolding insert_iff empty_iff by presburger

lemma hex_value_digit: "n < 16 \<Longrightarrow> hex_value (hex_digit n) = Inr n"
  by (drule nibble_cases) (auto simp: hex_value_def hex_digit_def)

lemma hex_digit_plain: "n < 16 \<Longrightarrow> plain_string [hex_digit n]"
  by (drule nibble_cases) (auto simp: plain_string_def hex_digit_def)

lemma byte_div_16: "unat (b :: byte) div 16 < 16"
  using unat_byte_less [of b] by (simp add: less_mult_imp_div_less)

lemma byte_nibbles: "word_of_nat (unat (b :: byte) div 16) * 16 + word_of_nat (unat b mod 16) = b"
proof -
  have "word_of_nat (unat b div 16) * 16 + word_of_nat (unat b mod 16) = (word_of_nat (unat b div 16 * 16 + unat b mod 16) :: byte)"
    by (simp only: of_nat_add of_nat_mult of_nat_numeral)
  also have "\<dots> = b"
    unfolding div_mult_mod_eq by simp
  finally show ?thesis .
qed

lemma hex_pairs_encode: "hex_pairs (hex_encode d) = Inr d"
proof (induction d)
  case (Cons b d)
  have "hex_encode (b # d) = hex_digit (unat b div 16) # hex_digit (unat b mod 16) # hex_encode d"
    by (simp add: hex_encode_def)
  with Cons show ?case
    using byte_nibbles [of b] by (simp add: hex_value_digit byte_div_16)
qed (simp add: hex_encode_def)

lemma length_hex_encode: "length (hex_encode d) = 2 * length d"
  by (induction d) (simp_all add: hex_encode_def)

lemma decode_sha256_encode: "length d = 32 \<Longrightarrow> decode_sha256 (hex_encode d) = Inr d"
  by (simp add: decode_sha256_def length_hex_encode hex_pairs_encode)

lemma plain_append: "plain_string (xs @ ys) \<longleftrightarrow> plain_string xs \<and> plain_string ys"
  by (simp add: plain_string_def)

lemma plain_Nil: "plain_string []"
  by (simp add: plain_string_def)

lemma plain_hex: "plain_string (hex_encode d)"
proof (induction d)
  case (Cons b d)
  have "hex_encode (b # d) = [hex_digit (unat b div 16)] @ [hex_digit (unat b mod 16)] @ hex_encode d"
    by (simp add: hex_encode_def)
  with Cons show ?case
    using hex_digit_plain [OF byte_div_16 [of b]] hex_digit_plain [of "unat b mod 16"] unfolding plain_string_def by simp
qed (simp add: hex_encode_def plain_Nil)

section \<open>The manifest as a value\<close>

definition manifest_ok :: "HistoryManifest \<Rightarrow> bool" where
  "manifest_ok m \<longleftrightarrow> hm_generation m < width64 \<and> (case hm_sealed m of None \<Rightarrow> True | Some s \<Rightarrow>
     0 < ms_byte_len s \<and> ms_byte_len s < width64 \<and> length (ms_sha256 s) = 32)"

definition sealed_value :: "ManifestSealed option \<Rightarrow> Json" where
  "sealed_value x = (case x of None \<Rightarrow> JNull | Some s \<Rightarrow>
     JObject [(ascii ''byte_len'', JNumber (PosInt (ms_byte_len s))), (ascii ''sha256'', JString (hex_encode (ms_sha256 s)))])"

definition manifest_value :: "HistoryManifest \<Rightarrow> Json" where
  "manifest_value m = JObject [(ascii ''format'', JString (ascii HISTORY_FORMAT_NAME)),
     (ascii ''manifest_schema'', JNumber (PosInt HISTORY_MANIFEST_SCHEMA)),
     (ascii ''generation'', JNumber (PosInt (hm_generation m))), (ascii ''sealed'', sealed_value (hm_sealed m))]"

lemma ascii_append: "ascii (xs @ ys) = ascii xs @ ascii ys"
  by (simp add: ascii_def)

lemma manifest_text: "encode_history_manifest m = json_text (manifest_value m) @ [10]"
  by (cases "hm_sealed m")
    (simp_all add: encode_history_manifest_def encode_sealed_def manifest_value_def sealed_value_def intercalate_def ascii_def)

lemma manifest_plain: "manifest_ok m \<Longrightarrow> plain_json (manifest_value m)"
  by (cases "hm_sealed m")
    (simp_all add: manifest_ok_def manifest_value_def sealed_value_def plain_hex,
      simp_all add: ascii_def plain_string_def HISTORY_FORMAT_NAME_def HISTORY_MANIFEST_SCHEMA_def width64_def)

lemma manifest_shallow: "json_depth (manifest_value m) < 128"
  by (cases "hm_sealed m") (simp_all add: manifest_value_def sealed_value_def)

lemma sort_entries:
  "map_of (sort_key fst kvs) = map_of kvs" "set (sort_key fst kvs) = set kvs" if "distinct (map fst kvs)"
proof -
  have "mset (map fst (sort_key fst kvs)) = mset (map fst kvs)"
    by (simp add: mset_map)
  then have "distinct (map fst (sort_key fst kvs))"
    using that by (metis mset_eq_imp_distinct_iff)
  then show "map_of (sort_key fst kvs) = map_of kvs"
    using that by (subst map_of_inject_set) auto
qed simp

lemma decode_sealed_value:
  "manifest_ok m \<Longrightarrow> decode_sealed (key_ordered (sealed_value (hm_sealed m))) = Inr (hm_sealed m)"
proof (cases "hm_sealed m")
  case (Some s)
  let ?k = "[(ascii ''byte_len'', JNumber (PosInt (ms_byte_len s))), (ascii ''sha256'', JString (hex_encode (ms_sha256 s)))]"
  assume "manifest_ok m"
  then have s: "0 < ms_byte_len s" "length (ms_sha256 s) = 32"
    by (auto simp: manifest_ok_def Some)
  have d: "distinct (map fst ?k)"
    by (simp add: ascii_def)
  have "known_keys [''byte_len'', ''sha256''] e (sort_key fst ?k) = Inr ()" for e
    unfolding known_keys_def list_all_iff sort_entries(2) [OF d] by simp
  moreover have "ascii ''byte_len'' \<noteq> ascii ''sha256''"
    by (simp add: ascii_def)
  ultimately show ?thesis
    unfolding Some sealed_value_def option.case key_ordered.simps decode_sealed_def as_object_def
    using s sort_entries(1) [OF d] by (simp add: as_u64_def as_str_def decode_sha256_encode del: sort_key_simps)
qed (simp add: sealed_value_def decode_sealed_def)

theorem decode_encode_manifest:
  assumes "serde_reads J" "manifest_ok m"
  shows "decode_history_manifest J (encode_history_manifest m) = Inr m"
proof -
  let ?k = "[(ascii ''format'', JString (ascii HISTORY_FORMAT_NAME)),
     (ascii ''manifest_schema'', JNumber (PosInt HISTORY_MANIFEST_SCHEMA)),
     (ascii ''generation'', JNumber (PosInt (hm_generation m))), (ascii ''sealed'', key_ordered (sealed_value (hm_sealed m)))]"
  have d: "distinct (map fst ?k)"
    by (simp add: ascii_def)
  have J: "J (encode_history_manifest m) = Some (JObject (sort_key fst ?k))"
  proof -
    have "J (json_text (manifest_value m) @ [10]) = Some (key_ordered (manifest_value m))"
      using assms(1) manifest_plain [OF assms(2)] manifest_shallow [of m] by (simp add: serde_reads_def)
    then show ?thesis
      unfolding manifest_text by (simp add: manifest_value_def)
  qed
  have keys: "known_keys [''format'', ''manifest_schema'', ''generation'', ''sealed''] e (sort_key fst ?k) = Inr ()" for e
    unfolding known_keys_def list_all_iff sort_entries(2) [OF d] by simp
  have "ascii ''format'' \<noteq> ascii ''manifest_schema''" "ascii ''format'' \<noteq> ascii ''generation''" "ascii ''format'' \<noteq> ascii ''sealed''"
      "ascii ''manifest_schema'' \<noteq> ascii ''generation''" "ascii ''manifest_schema'' \<noteq> ascii ''sealed''" "ascii ''generation'' \<noteq> ascii ''sealed''"
    by (simp_all add: ascii_def)
  then show ?thesis
    unfolding decode_history_manifest_def J
    using decode_sealed_value [OF assms(2)] keys sort_entries(1) [OF d]
    by (simp add: as_object_def as_str_def as_u64_def del: sort_key_simps)
qed

section \<open>A reader of plain values\<close>

text \<open>
  A recursive-descent reader of the plain subset: enough to show that the hypothesis on
  \<open>serde_json\<close> can hold.  The fuel is the length of the text, which bounds the nesting.
\<close>

definition digit_byte :: "byte \<Rightarrow> bool" where
  "digit_byte b \<longleftrightarrow> 48 \<le> b \<and> b \<le> 57"

definition read_number :: "byte list \<Rightarrow> nat" where
  "read_number ds = fold (\<lambda>b n. n * 10 + (unat b - 48)) ds 0"

definition read_string :: "byte list \<Rightarrow> (byte list \<times> byte list) option" where
  "read_string bs = (case dropWhile (\<lambda>b. b \<noteq> 34) bs of
     [] \<Rightarrow> None | _ # rest \<Rightarrow> Some (takeWhile (\<lambda>b. b \<noteq> 34) bs, rest))"

fun read_value :: "nat \<Rightarrow> byte list \<Rightarrow> (Json \<times> byte list) option"
  and read_members :: "nat \<Rightarrow> byte list \<Rightarrow> ((byte list \<times> Json) list \<times> byte list) option" where
  "read_value 0 bs = None"
| "read_value (Suc n) bs = (case bs of
     [] \<Rightarrow> None
   | b # rest \<Rightarrow>
       if b = 34 then map_option (\<lambda>(s, r). (JString s, r)) (read_string rest)
       else if b = 110 then Some (JNull, drop 3 rest)
       else if b = 123 then
         (if take 1 rest = [125] then Some (JObject [], drop 1 rest)
          else map_option (\<lambda>(kvs, r). (JObject kvs, r)) (read_members n rest))
       else if digit_byte b then
         Some (JNumber (PosInt (read_number (takeWhile digit_byte bs))), dropWhile digit_byte bs)
       else None)"
| "read_members 0 bs = None"
| "read_members (Suc n) bs =
     Option.bind (read_string (drop 1 bs)) (\<lambda>(k, r).
     Option.bind (read_value n (drop 1 r)) (\<lambda>(v, r).
     if take 1 r = [44] then map_option (\<lambda>(kvs, r). ((k, v) # kvs, r)) (read_members n (drop 1 r))
     else Some ([(k, v)], drop 1 r)))"

definition reference_reader :: "byte list \<Rightarrow> Json option" where
  "reference_reader bs = map_option (key_ordered \<circ> fst) (read_value (length bs) bs)"

lemma read_string_plain: "plain_string s \<Longrightarrow> read_string (s @ 34 # rest) = Some (s, rest)"
proof -
  assume "plain_string s"
  then have "\<And>b. b \<in> set s \<Longrightarrow> b \<noteq> 34"
    by (auto simp: plain_string_def list_all_iff)
  then show ?thesis
    by (simp add: read_string_def dropWhile_append2 takeWhile_append2)
qed

lemma digit_word: "d < 10 \<Longrightarrow> digit_byte (word_of_nat (of_char (digit d))) \<and> unat (word_of_nat (of_char (digit d)) :: byte) = 48 + d"
proof -
  assume "d < 10"
  then have "d \<in> {0, 1, 2, 3, 4, 5, 6, 7, 8, 9}"
    unfolding insert_iff empty_iff by presburger
  then show ?thesis
    by (auto simp: digit_def digit_byte_def)
qed

lemma decimal_bytes: "list_all digit_byte (ascii (decimal n))"
  using decimal_digits [of _ n] digit_word by (fastforce simp: list_all_iff ascii_def)

lemma read_number_decimal: "read_number (ascii (decimal n)) = n"
proof (induction n rule: decimal.induct)
  case (1 n)
  show ?case
  proof (cases "n < 10")
    case True
    then show ?thesis
      using digit_word [OF True] by (subst decimal.simps) (simp add: read_number_def ascii_def)
  next
    case False
    have "read_number (ascii (decimal n)) = read_number (ascii (decimal (n div 10))) * 10 + n mod 10"
      using False digit_word [of "n mod 10"] by (subst decimal.simps) (simp add: read_number_def ascii_def)
    then show ?thesis
      using 1 [OF False] by simp
  qed
qed

lemma decimal_head: "\<exists>b bs. ascii (decimal n) = b # bs \<and> digit_byte b"
  using decimal_bytes [of n] by (cases "ascii (decimal n)") (auto simp: ascii_def)

definition stops :: "byte list \<Rightarrow> bool" where
  "stops rest \<longleftrightarrow> (case rest of [] \<Rightarrow> True | b # _ \<Rightarrow> \<not> digit_byte b)"

lemma read_number_text:
  assumes "stops rest"
  shows "read_value (Suc n) (ascii (decimal k) @ rest) = Some (JNumber (PosInt k), rest)"
proof -
  obtain b bs where b: "ascii (decimal k) = b # bs" "digit_byte b"
    using decimal_head by blast
  have t: "takeWhile digit_byte (ascii (decimal k) @ rest) = ascii (decimal k)"
      "dropWhile digit_byte (ascii (decimal k) @ rest) = rest"
    using decimal_bytes [of k] assms
    by (auto simp: list_all_iff takeWhile_append2 dropWhile_append2 stops_def split: list.splits)
  have "b \<noteq> 34" "b \<noteq> 110" "b \<noteq> 123"
    using b(2) by (auto simp: digit_byte_def)
  then show ?thesis
    using b t read_number_decimal [of k] by (simp add: b(1))
qed

fun members_text :: "(byte list \<times> Json) list \<Rightarrow> byte list" where
  "members_text [] = []"
| "members_text ((k, v) # kvs) = 34 # k @ 34 # 58 # json_text v @ (if kvs = [] then [] else 44 # members_text kvs)"

lemma intercalate_Cons: "intercalate sep (p # ps) = p @ (if ps = [] then [] else sep @ intercalate sep ps)"
  by (cases ps) (simp_all add: intercalate_def)

lemma object_text: "json_text (JObject kvs) = 123 # members_text kvs @ [125]"
proof -
  have "intercalate (ascii '','') (map (\<lambda>(k, v). [34] @ k @ [34] @ ascii '':'' @ json_text v) kvs) = members_text kvs"
    by (induction kvs rule: members_text.induct) (auto simp: intercalate_Cons ascii_def, simp add: intercalate_def)
  then show ?thesis
    by (simp add: ascii_def del: members_text.simps)
qed

lemma stops_simps: "stops (44 # xs)" "stops (125 # xs)" "stops [10]"
  by (auto simp: stops_def digit_byte_def)

lemma read_text:
  "plain_json v \<Longrightarrow> stops rest \<Longrightarrow> length (json_text v) \<le> n \<Longrightarrow> read_value n (json_text v @ rest) = Some (v, rest)"
  "kvs \<noteq> [] \<Longrightarrow> list_all (\<lambda>(k, v). plain_string k \<and> plain_json v) kvs \<Longrightarrow> length (members_text kvs) \<le> n \<Longrightarrow>
    read_members n (members_text kvs @ 125 # rest) = Some (kvs, rest)"
proof (induction n arbitrary: v rest kvs)
  case 0
  {
    case 1
    have "json_text v \<noteq> []"
      using 1(1) decimal_head by (cases v) (fastforce simp: object_text ascii_def split: JsonNumber.splits)+
    with 1 show ?case
      by simp
  next
    case 2
    then show ?case
      by (cases kvs) auto
  }
next
  case (Suc n)
  {
    case 1
    show ?case
    proof (cases v)
      case JNull
      then show ?thesis
        by (simp add: ascii_def)
    next
      case (JNumber x)
      then show ?thesis
        using 1 read_number_text by (auto split: JsonNumber.splits)
    next
      case (JString t)
      then show ?thesis
        using 1 by (simp add: read_string_plain)
    next
      case (JObject kvs)
      show ?thesis
      proof (cases "kvs = []")
        case False
        then obtain k w ks where k: "kvs = (k, w) # ks"
          by (cases kvs) auto
        have "read_members n (members_text kvs @ 125 # rest) = Some (kvs, rest)"
          using 1 JObject False by (intro Suc.IH(2)) (auto simp: object_text simp del: json_text.simps)
        then show ?thesis
          unfolding JObject object_text by (simp add: k)
      qed (simp add: JObject object_text del: json_text.simps)
    qed (use 1 in auto)
  next
    case 2
    then obtain k w ks where k: "kvs = (k, w) # ks"
      by (cases kvs) auto
    have w: "plain_string k" "plain_json w" "length (json_text w) \<le> n"
      using 2 k by auto
    show ?case
    proof (cases "ks = []")
      case True
      then show ?thesis
        using w Suc.IH(1) [OF w(2) stops_simps(2) w(3), of rest] by (simp add: k read_string_plain)
    next
      case False
      have "read_value n (json_text w @ 44 # members_text ks @ 125 # rest) = Some (w, 44 # members_text ks @ 125 # rest)"
        using w by (intro Suc.IH(1) stops_simps) auto
      moreover have "read_members n (members_text ks @ 125 # rest) = Some (ks, rest)"
        using 2 k False by (intro Suc.IH(2)) auto
      ultimately show ?thesis
        using w False by (simp add: k read_string_plain)
    qed
  }
qed

theorem reference_reader_reads: "serde_reads reference_reader"
  unfolding serde_reads_def reference_reader_def
  using read_text(1) [OF _ stops_simps(3)] by (simp del: json_text.simps read_value.simps)

end
