(* ===== verification/History_Replay_Correct.thy ===== *)
theory History_Replay_Correct
  imports History_Refinement History_Log
begin

text \<open>
  Replaying the log record of an event performs the event.  Together with the refinement of the
  live operations this makes recovery deterministic on the abstract state: live execution and
  replay go through the same events.
\<close>

section \<open>The record of an event\<close>

fun record_of :: "env \<Rightarrow> HistorySpec \<Rightarrow> HistoryEvent \<Rightarrow> HistoryLogRecord" where
  "record_of E a (HistoryCreated b) = CreateHistory (sp_histories a) b"
| "record_of E a (VersionSpliced h parent off del ins rid b) = Splice h (length (sp_versions a)) parent off del ins rid b
     (history_splice_digest E h parent off del ins b) None"
| "record_of E a (VersionForked h p rid b) = Fork h (length (sp_versions a)) p rid b (history_fork_digest E h p b)"
| "record_of E a (VersionDropped v) = ExpireVersion (version_history (fst (sp_versions a ! v))) v"
| "record_of E a (RequestRetired rid) = Retire rid (request_digest (the (sp_active a rid)))"

text \<open>The records of a sequence of events, and the state it leads to.\<close>

fun records_of :: "env \<Rightarrow> HistorySpec \<Rightarrow> HistoryEvent list \<Rightarrow> HistoryLogRecord list" where
  "records_of E a [] = []"
| "records_of E a (ev # evs) = record_of E a ev # records_of E (spec_apply E ev a) evs"

fun all_enabled :: "env \<Rightarrow> HistorySpec \<Rightarrow> HistoryEvent list \<Rightarrow> bool" where
  "all_enabled E a [] \<longleftrightarrow> True"
| "all_enabled E a (ev # evs) \<longleftrightarrow> enabled ev a \<and> all_enabled E (spec_apply E ev a) evs"

definition spec_run :: "env \<Rightarrow> HistoryEvent list \<Rightarrow> HistorySpec \<Rightarrow> HistorySpec" where
  "spec_run E evs a = fold (spec_apply E) evs a"

lemma spec_run_simps [simp]:
  "spec_run E [] a = a" "spec_run E (ev # evs) a = spec_run E evs (spec_apply E ev a)"
  "spec_run E (evs @ evs') a = spec_run E evs' (spec_run E evs a)"
  by (simp_all add: spec_run_def)

lemma records_of_append [simp]:
  "records_of E a (evs @ evs') = records_of E a evs @ records_of E (spec_run E evs a) evs'"
  by (induction evs arbitrary: a) simp_all

lemma all_enabled_append [simp]:
  "all_enabled E a (evs @ evs') \<longleftrightarrow> all_enabled E a evs \<and> all_enabled E (spec_run E evs a) evs'"
  by (induction evs arbitrary: a) auto

lemma spec_run_inv: "sha_ok E \<Longrightarrow> spec_inv a \<Longrightarrow> all_enabled E a evs \<Longrightarrow> spec_inv (spec_run E evs a)"
  by (induction evs arbitrary: a) (auto intro: spec_step_inv)

section \<open>Receipts and bindings\<close>

definition receipted ::
  "VersionId \<Rightarrow> byte list option \<Rightarrow> byte list option \<Rightarrow> digest \<Rightarrow> 'p PersistentHistoryStore \<Rightarrow> 'p PersistentHistoryStore" where
  "receipted vid rid b dg s =
    (let s1 = (case rid of None \<Rightarrow> s | Some r \<Rightarrow> push_fresh_receipt r dg vid s)
     in case b of None \<Rightarrow> s1 | Some x \<Rightarrow> s1\<lparr>version_bindings := hput vid x (version_bindings s1)\<rparr>)"

lemma push_version_receipted: "push_version v root n rid b dg s = receipted (version_id v) rid b dg
    (s\<lparr>versions := versions s @ [\<lparr>record_version = v, record_root = Some root, record_len = n\<rparr>]\<rparr>)"
  by (simp add: push_version_def receipted_def Let_def)

text \<open>A replay step runs out of memory, or returns with the given postcondition.\<close>

definition performs ::
  "env \<Rightarrow> (SequenceError \<Rightarrow> bool) \<Rightarrow> ('s, HistoryError, 'r) prog \<Rightarrow> 's \<Rightarrow> ('r \<Rightarrow> 's \<Rightarrow> bool) \<Rightarrow> bool" where
  "performs E ex m s Q \<longleftrightarrow> (\<exists>e s1. m s = Some (Inl e, s1) \<and> lacks_space E ex e) \<or> (\<exists>x s1. m s = Some (Inr x, s1) \<and> Q x s1)"

lemma performs_bind:
  assumes "performs E ex m s R" "\<And>x s1. R x s1 \<Longrightarrow> performs E ex (k x) s1 Q"
  shows "performs E ex (bindP m k) s Q"
  using assms(1) unfolding performs_def [of E ex m]
proof (elim disjE exE conjE)
  fix e s1
  assume "m s = Some (Inl e, s1)" "lacks_space E ex e"
  then show ?thesis
    by (simp add: performs_def)
next
  fix x s1
  assume "m s = Some (Inr x, s1)" "R x s1"
  with assms(2) [of x s1] show ?thesis
    by (simp add: performs_def)
qed

lemma performs_read: "f s = Inr x \<Longrightarrow> performs E ex (k x) s Q \<Longrightarrow> performs E ex (bindP (readP f) k) s Q"
  by (simp add: performs_def bindP_readP)

lemma performs_lift: "r = Inr x \<Longrightarrow> performs E ex (k x) s Q \<Longrightarrow> performs E ex (bindP (liftP r) k) s Q"
  by (simp add: performs_def bindP_liftP)

lemma performs_modify: "performs E ex (k ()) (f s) Q \<Longrightarrow> performs E ex (bindP (modifyP f) k) s Q"
  by (simp add: performs_def bindP_modifyP)

lemma performs_reserve: "performs E ex (k ()) s Q \<Longrightarrow> performs E ex (bindP (liftP (reserve E m n)) k) s Q"
  by (cases "reserve E m n") (auto simp: performs_def bindP_liftP intro: reserve_Inl)

lemma performs_ret: "Q x s \<Longrightarrow> performs E ex (retP x) s Q" "R () (f s) \<Longrightarrow> performs E ex (modifyP f) s R"
  by (simp_all add: performs_def modifyP_def)

lemma receipt_performs:
  assumes rid: "valid_optional rid" "\<And>r. rid = Some r \<Longrightarrow> hget (active_requests s) r = None \<and> hget (retired_requests s) r = None"
    and b: "valid_optional b"
  shows "performs E ex (replay_receipt E vid rid b dg) s (\<lambda>x t. x = vid \<and> t = receipted vid rid b dg s)"
proof -
  let ?s = "case rid of None \<Rightarrow> s | Some r \<Rightarrow> push_fresh_receipt r dg vid s"
  have request: "performs E ex (case rid of None \<Rightarrow> retP () | Some request \<Rightarrow>
         bindP (liftP (validate_request_identity request)) (\<lambda>_.
         bindP (readP (\<lambda>s. if hget (active_requests s) request \<noteq> None \<or> hget (retired_requests s) request \<noteq> None
           then Inl (HistoryError.Invalid ''history log request identity is already recorded'') else Inr ())) (\<lambda>_.
         bindP (liftP (reserve E ''persistent active request allocation failed'' 1)) (\<lambda>_.
         bindP (liftP (reserve E ''persistent receipt order allocation failed'' 1)) (\<lambda>_.
         modifyP (push_fresh_receipt request dg vid)))))) s (\<lambda>_ t. t = ?s)"
    using rid by (cases rid) (auto simp: valid_optional_def validate_request_eq
        intro!: performs_ret performs_lift performs_read performs_reserve)
  have binding: "performs E ex (case b of None \<Rightarrow> retP () | Some bytes \<Rightarrow>
         bindP (liftP (validate_binding bytes)) (\<lambda>_.
         bindP (liftP (reserve E ''persistent version binding allocation failed'' 1)) (\<lambda>_.
         modifyP (\<lambda>s. s\<lparr>version_bindings := hput vid bytes (version_bindings s)\<rparr>)))) ?s (\<lambda>_ t. t = receipted vid rid b dg s)"
  proof (cases b)
    case None
    then show ?thesis
      by (simp add: receipted_def performs_ret Let_def)
  next
    case (Some x)
    then have "validate_binding x = Inr ()"
      using b by (simp add: validate_iffs valid_optional_def)
    then show ?thesis
      by (auto simp: Some receipted_def Let_def intro!: performs_lift performs_reserve performs_ret)
  qed
  show ?thesis
    unfolding replay_receipt_def by (intro performs_bind [OF request])
    (auto intro!: performs_bind [OF binding] performs_ret)
qed

section \<open>Replay\<close>

context sequence_backend
begin

definition replayed :: "('p, 'r) store_prog \<Rightarrow> 'p PersistentHistoryStore \<Rightarrow> 'r \<Rightarrow> HistorySpec \<Rightarrow> bool" where
  "replayed m s x a' \<longleftrightarrow> performs E exhausted m s (\<lambda>y s'. y = x \<and> rel s' a' \<and> poisoned s' = poisoned s)"

lemma known_record: "rel s a \<Longrightarrow> vid < length (sp_versions a) \<Longrightarrow> version_record s vid = Inr (versions s ! vid)"
  by (simp add: version_record_known)

lemma commit_receipted:
  assumes t: "tabled s a" and ok: "content_ok (store_backend s)" and st: "stored (denotes (store_backend s)) (versions s) a"
    and inv: "spec_inv a" "spec_inv (sp_commit h parent bs rid b dg a)" and en: "commit_enabled a h rid b"
    and root: "denotes (store_backend s) root bs"
  shows "performs E exhausted (replay_receipt E (length (sp_versions a)) rid b dg)
    (s\<lparr>next_version_id := Suc (length (sp_versions a)), versions := versions s @
      [\<lparr>record_version = \<lparr>version_history = h, version_id = length (sp_versions a), version_parent = parent\<rparr>,
        record_root = Some root, record_len = length bs\<rparr>]\<rparr>)
    (\<lambda>x t. x = length (sp_versions a) \<and> rel t (sp_commit h parent bs rid b dg a) \<and> poisoned t = poisoned s)"
    (is "performs E exhausted ?m ?s _")
proof -
  let ?v = "\<lparr>version_history = h, version_id = length (sp_versions a), version_parent = parent\<rparr>"
  have "receipted (length (sp_versions a)) rid b dg ?s =
      push_version ?v root (length bs) rid b dg (s\<lparr>next_version_id := Suc (length (sp_versions a))\<rparr>)"
    by (simp add: push_version_receipted)
  then have "rel (receipted (length (sp_versions a)) rid b dg ?s) (sp_commit h parent bs rid b dg a)"
    "poisoned (receipted (length (sp_versions a)) rid b dg ?s) = poisoned s"
    using commit_rel [OF t ok st inv en root] by simp_all
  moreover have "performs E exhausted ?m ?s (\<lambda>x t. x = length (sp_versions a) \<and> t = receipted (length (sp_versions a)) rid b dg ?s)"
    using en t by (intro receipt_performs) (auto simp: commit_enabled_def tabled_def)
  ultimately show ?thesis
    unfolding performs_def by auto
qed

lemma identity_performs:
  assumes "next_version_id s = n" "Suc n < width64" "performs E ex (k ()) (s\<lparr>next_version_id := Suc n\<rparr>) Q"
  shows "performs E ex (bindP (replay_identity n) k) s Q"
  unfolding replay_identity_def performs_def bindP_assoc
  using assms by (simp add: bindP_readP bindP_modifyP checked_add_def performs_def)

lemma replay_splice_event:
  assumes sha: "sha_ok E" and r: "rel s a" and en: "enabled (VersionSpliced h parent off del ins rid b) a"
  shows "replayed (replay_splice E P h (length (sp_versions a)) parent off del ins rid b
      (history_splice_digest E h parent off del ins b) None) s (length (sp_versions a))
    (spec_apply E (VersionSpliced h parent off del ins rid b) a)"
proof -
  let ?n = "length (sp_versions a)" and ?root = "Option.bind parent (\<lambda>p. record_root (versions s ! p))"
  let ?bs = "edit (sp_bytes a parent) off del ins"
  have t: "tabled s a" and inv: "spec_inv a" and phys: "\<not> backend_is_physical (store_backend s)"
    using r ephemeral by (auto simp: refines_def)
  have e: "commit_enabled a h rid b" "\<forall>p. parent = Some p \<longrightarrow> usable_parent a h p"
    "edit_ok (parent = None) (sp_bytes a parent) off del ins"
    using en by simp_all
  have hist: "h \<in> set (histories s)" "Suc ?n < width64" "next_version_id s = ?n" "valid_optional b"
    using e(1) t by (auto simp: tabled_def commit_enabled_def)
  have parent: "replay_parent s h parent = Inr (?root, length (sp_bytes a parent))"
  proof (cases parent)
    case (Some p)
    then have "usable_parent a h p"
      using e(2) by simp
    then show ?thesis
      using Some known_record [OF r] rel_versions(2-4) [OF r, of p] t
      by (auto simp: replay_parent_def usable_parent_def sp_bytes_def tabled_def)
  qed (simp add: replay_parent_def sp_bytes_def)
  have coords: "replay_coordinates parent (length (sp_bytes a parent)) off del ins = Inr (length ?bs)"
    using e(3) coordinates_edit_ok [of parent a off del ins] replay_coordinates_iff [of parent "length (sp_bytes a parent)"]
    by (simp add: sp_bytes_def)
  let ?s = "s\<lparr>next_version_id := Suc ?n\<rparr>"
  have root: "performs E exhausted (replay_root E P ?root off del ins (length ?bs) None) ?s (\<lambda>x s'.
      \<exists>b'. s' = s\<lparr>store_backend := b', next_version_id := Suc ?n\<rparr> \<and> content_ok b' \<and> denotes b' x ?bs \<and> stored (denotes b') (versions s) a)"
  proof -
    have shift: "backendP m ?s = map_option (\<lambda>(x, s'). (x, s'\<lparr>next_version_id := Suc ?n\<rparr>)) (backendP m s)"
      for m :: "('p, SpliceResult) seam_prog"
      by (auto simp: backendP_def split: option.splits)
    have "performs E exhausted (backendP (seam_splice E P ?root off del ins)) ?s (\<lambda>x s'. \<exists>b'. s' = s\<lparr>store_backend := b', next_version_id := Suc ?n\<rparr> \<and>
        content_ok b' \<and> denotes b' (result_root x) ?bs \<and> stored (denotes b') (versions s) a)"
      using splice_root_step [OF r e(2,3)] unfolding performs_def shift lacks_space_def by fastforce
    then show ?thesis
      unfolding replay_root_def
      by (intro performs_read [where x = False]) (auto simp: phys intro!: performs_ret elim!: performs_bind)
  qed
  have body: "performs E exhausted (bindP (replay_root E P ?root off del ins (length ?bs) None) (\<lambda>root.
      bindP (modifyP (\<lambda>s. s\<lparr>versions := versions s @ [\<lparr>record_version =
         \<lparr>version_history = h, version_id = ?n, version_parent = parent\<rparr>,
         record_root = Some root, record_len = length ?bs\<rparr>]\<rparr>)) (\<lambda>_.
      replay_receipt E ?n rid b (history_splice_digest E h parent off del ins b)))) ?s
      (\<lambda>y s'. y = ?n \<and> rel s' (spec_apply E (VersionSpliced h parent off del ins rid b) a) \<and> poisoned s' = poisoned s)"
  proof (rule performs_bind [OF root], elim exE conjE, rule performs_modify, goal_cases)
    case (1 x s1 b')
    have "tabled (s\<lparr>store_backend := b'\<rparr>) a"
      using t by (simp add: tabled_def)
    from commit_receipted [OF this _ _ inv _ e(1), where root = x and bs = ?bs and parent = parent
        and dg = "history_splice_digest E h parent off del ins b"] 1 spec_step_inv [OF sha inv en]
    show ?case
      by simp
  qed
  show ?thesis
    unfolding replayed_def replay_splice_def
    by (rule performs_read [where x = "()"], simp add: hist, rule performs_read, rule parent, unfold prod.case,
        rule performs_lift [OF coords], rule performs_lift [where x = "()"], simp add: validate_iffs hist,
        rule identity_performs [OF hist(3,2)], rule performs_reserve, rule body)
qed

lemma replay_fork_event:
  assumes sha: "sha_ok E" and r: "rel s a" and en: "enabled (VersionForked h p rid b) a"
  shows "replayed (replay_fork E h (length (sp_versions a)) p rid b (history_fork_digest E h p b)) s (length (sp_versions a))
    (spec_apply E (VersionForked h p rid b) a)"
proof -
  let ?n = "length (sp_versions a)"
  have t: "tabled s a" and inv: "spec_inv a" and ok: "content_ok (store_backend s)"
    and st: "stored (denotes (store_backend s)) (versions s) a"
    using r by (auto simp: refines_def)
  have e: "commit_enabled a h rid b" "usable_parent a h p"
    using en by simp_all
  have hist: "h \<in> set (histories s)" "Suc ?n < width64" "next_version_id s = ?n" "valid_optional b"
    "p \<notin> set (expired_versions s)" "p < ?n" "version_history (record_version (versions s ! p)) = h"
    using e t rel_versions(2) [OF r] by (auto simp: tabled_def commit_enabled_def usable_parent_def)
  obtain root where root: "record_root (versions s ! p) = Some root" "denotes (store_backend s) root (sp_bytes a (Some p))"
    and len: "record_len (versions s ! p) = length (sp_bytes a (Some p))"
    using rel_versions(3,4) [OF r] e(2) by (auto simp: usable_parent_def sp_bytes_def)
  have "spec_inv (sp_commit h (Some p) (sp_bytes a (Some p)) rid b (history_fork_digest E h p b) a)"
    using spec_step_inv [OF sha inv en] by simp
  note commit = commit_receipted [OF t ok st inv this e(1) root(2)]
  show ?thesis
    unfolding replayed_def replay_fork_def
    using commit known_record [OF r hist(6)]
    by (intro performs_read [where x = "()"] performs_read [where x = "versions s ! p"] performs_read [where x = root]
        identity_performs performs_reserve performs_lift [where x = "()"] performs_modify)
      (simp_all add: hist root len validate_iffs)
qed

lemma replay_expire_event:
  assumes sha: "sha_ok E" and r: "rel s a" and en: "enabled (VersionDropped v) a"
  shows "replayed (replay_expire E (version_history (fst (sp_versions a ! v))) v) s ()
    (spec_apply E (VersionDropped v) a)"
proof -
  have v: "version_record s v = Inr (versions s ! v)" "v \<notin> set (expired_versions s)"
    "version_history (record_version (versions s ! v)) = version_history (fst (sp_versions a ! v))"
    "version_history (fst (sp_versions a ! v)) \<in> set (histories s)"
    using known_record [OF r] rel_versions(2) [OF r] en r
    by (auto simp: refines_def tabled_def spec_inv_def catalogue_inv_def case_prod_beta)
  let ?checks = "bindR (reserve E ''persistent expired version allocation failed'' 1) (\<lambda>_.
      bindR (reserve_when (receipt_of s v \<noteq> None) E ''persistent retired request allocation failed'' 1) (\<lambda>_. Inr False))"
  have run: "replay_expire E (version_history (fst (sp_versions a ! v))) v s = (case ?checks of
      Inl e \<Rightarrow> Some (Inl e, s) | Inr x \<Rightarrow> Some (Inr (), dropped s v))"
    using v by (auto simp: replay_expire_def dropped_def Let_def bindR_def reserve_def reserve_when_def split: option.split)
  show ?thesis
    unfolding replayed_def performs_def run
    using dropped_rel [OF sha r en]
    by (auto split: sum.split simp: bindR_Inl_iff intro: reserve_Inl)
qed

lemma replay_retire_event:
  assumes sha: "sha_ok E" and r: "rel s a" and en: "enabled (RequestRetired rid) a"
  shows "replayed (replay_retire E rid (request_digest (the (sp_active a rid)))) s () (spec_apply E (RequestRetired rid) a)"
proof -
  obtain x where x: "sp_active a rid = Some x" "valid_key rid"
    using en by auto
  have tab: "hget (active_requests s) rid = Some x" "hget (retired_requests s) rid = None"
    using r x by (auto simp: refines_def tabled_def spec_inv_def ledger_inv_def ledger_upto_def)
  show ?thesis
    unfolding replayed_def performs_def replay_retire_def
    using retired_rel [OF sha r en] x tab
    by (auto simp: validate_request_eq bindR_Inl_iff split: sum.split intro: reserve_Inl)
qed

lemma replay_create_event:
  assumes sha: "sha_ok E" and r: "rel s a" and live: "\<not> poisoned s" and en: "enabled (HistoryCreated b) a"
  shows "replayed (replay_create E (sp_histories a) b) s () (spec_apply E (HistoryCreated b) a)"
proof -
  have next_id: "next_history_id s = sp_histories a"
    using r live by (simp add: refines_def tabled_def)
  have rel: "rel (created s b) (spec_apply E (HistoryCreated b) a)"
    by (rule created_rel [OF sha r en live])
  have new: "performs E exhausted (create_history E) s (\<lambda>h s'. h = sp_histories a \<and> s' = created s None)"
    using en live next_id
    by (cases "reserve E ''persistent history set allocation failed'' 1")
      (auto simp: performs_def create_history_def require_unpoisoned_def checked_add_def created_def intro: reserve_Inl)
  show ?thesis
  proof (cases b)
    case None
    then show ?thesis
      unfolding replayed_def replay_create_def
      using rel by (auto intro!: performs_lift performs_bind [OF new] performs_ret simp: created_def)
  next
    case (Some x)
    then have "validate_binding x = Inr ()"
      using en by (simp add: validate_iffs valid_optional_def)
    then show ?thesis
      unfolding replayed_def replay_create_def Some
      using rel Some
      by (auto intro!: performs_reserve performs_bind [OF new] performs_ret simp: created_def next_id)
  qed
qed

lemma replay_event:
  assumes "sha_ok E" "rel s a" "\<not> poisoned s" "enabled ev a"
  shows "replayed (apply_recovered_record E P (record_of E a ev)) s () (spec_apply E ev a)"
proof (cases ev)
  case (VersionSpliced h parent off del ins rid b)
  then have "replayed (replay_splice E P h (length (sp_versions a)) parent off del ins rid b
      (history_splice_digest E h parent off del ins b) None) s (length (sp_versions a)) (spec_apply E ev a)"
    using replay_splice_event assms by simp
  then show ?thesis
    unfolding replayed_def using VersionSpliced by (auto intro!: performs_ret elim!: performs_bind)
next
  case (VersionForked h p rid b)
  then have "replayed (replay_fork E h (length (sp_versions a)) p rid b (history_fork_digest E h p b)) s
      (length (sp_versions a)) (spec_apply E ev a)"
    using replay_fork_event assms by simp
  then show ?thesis
    unfolding replayed_def using VersionForked by (auto intro!: performs_ret elim!: performs_bind)
qed (use assms replay_create_event replay_expire_event replay_retire_event in auto)

lemma replay_events:
  assumes sha: "sha_ok E"
  shows "rel s a \<Longrightarrow> \<not> poisoned s \<Longrightarrow> all_enabled E a evs \<Longrightarrow>
    replayed (apply_recovered_records E P (records_of E a evs)) s () (spec_run E evs a)"
proof (induction evs arbitrary: s a)
  case Nil
  then show ?case
    by (simp add: replayed_def performs_def)
next
  case (Cons ev evs)
  have "replayed (apply_recovered_record E P (record_of E a ev)) s () (spec_apply E ev a)"
    using replay_event [OF sha] Cons.prems by simp
  then have "performs E exhausted (apply_recovered_record E P (record_of E a ev)) s
      (\<lambda>y s'. rel s' (spec_apply E ev a) \<and> \<not> poisoned s')"
    unfolding replayed_def performs_def using Cons.prems(2) by auto
  then show ?case
    unfolding replayed_def records_of.simps apply_recovered_records.simps
    using Cons.IH Cons.prems(2,3) unfolding replayed_def by (auto elim!: performs_bind)
qed

end

end
