(* ===== verification/History_Crash.thy ===== *)
theory History_Crash
  imports History_Replay_Correct History_Durable History_Log_Codec
begin

text \<open>
  The durable store as a state machine with I/O faults and crashes: clients issue operations, each
  append and each sync of the log may fail, and at any moment the process may die and reopen the
  log.  The invariant ties the file to the events acknowledged so far: the file is their frames
  followed by at most a torn frame, or, once the writer is poisoned, by the frame of the one event
  whose fate is open.
\<close>

section \<open>Operations, replies and acknowledged events\<close>

datatype DurableOp =
    OpCreate "byte list option"
  | OpSplice HistoryId "VersionId option" u64 u64 "byte list" "byte list option" "byte list option"
  | OpAppend HistoryId "VersionId option" "byte list" "byte list option" "byte list option"
  | OpFork HistoryId VersionId "byte list option" "byte list option"
  | OpExpire VersionId
  | OpRetire "byte list"
  | OpRead Version u64 u64
  | OpVerify Version

datatype Reply =
    ReplyHistory HistoryId
  | ReplyCommit CommitOutcome
  | ReplyExpire ExpireOutcome
  | ReplyDone
  | ReplyBytes "byte list"

definition replyP :: "('r \<Rightarrow> Reply) \<Rightarrow> ('p, 'r) durable_prog \<Rightarrow> ('p, Reply) durable_prog" where
  "replyP f m = bindP m (\<lambda>x. retP (f x))"

fun run_op :: "env \<Rightarrow> 'p PhysicalContent \<Rightarrow> IoChoice \<Rightarrow> DurableOp \<Rightarrow> ('p, Reply) durable_prog" where
  "run_op E P io (OpCreate b) = replyP ReplyHistory (create_history_durable E io b)"
| "run_op E P io (OpSplice h parent off del ins rid b) =
     replyP ReplyCommit (splice_durable E P io h parent off del ins rid b)"
| "run_op E P io (OpAppend h parent bytes rid b) = replyP ReplyCommit (append_durable E P io h parent bytes rid b)"
| "run_op E P io (OpFork h p rid b) = replyP ReplyCommit (fork_durable E io h p rid b)"
| "run_op E P io (OpExpire v) = replyP ReplyExpire (expire_durable E io v)"
| "run_op E P io (OpRetire rid) = replyP (\<lambda>_. ReplyDone) (retire_durable E io rid)"
| "run_op E P io (OpRead v off len) = replyP ReplyBytes (rejectedP (store_read E P v off len []))"
| "run_op E P io (OpVerify v) = replyP (\<lambda>_. ReplyDone) (rejectedP (store_verify E P v))"

text \<open>What a reply acknowledges; \<open>s\<close> is the store the operation started from.\<close>

definition committed :: "Reply \<Rightarrow> bool" where
  "committed reply = (case reply of ReplyCommit outcome \<Rightarrow> \<not> outcome_replayed outcome | _ \<Rightarrow> False)"

fun acked :: "'p PersistentHistoryStore \<Rightarrow> DurableOp \<Rightarrow> Reply \<Rightarrow> HistoryEvent list" where
  "acked s (OpCreate b) reply = (if reply = ReplyHistory (next_history_id s) then [HistoryCreated b] else [])"
| "acked s (OpSplice h parent off del ins rid b) reply =
    (if committed reply then [VersionSpliced h parent off del ins rid b] else [])"
| "acked s (OpAppend h parent bytes rid b) reply = (if committed reply then
     [VersionSpliced h parent (case parent of None \<Rightarrow> 0 | Some p \<Rightarrow> record_len (versions s ! p)) 0 bytes rid b] else [])"
| "acked s (OpFork h p rid b) reply = (if committed reply then [VersionForked h p rid b] else [])"
| "acked s (OpExpire v) reply = (if reply = ReplyExpire ExpireOutcome.Expired then [VersionDropped v] else [])"
| "acked s (OpRetire rid) reply = [RequestRetired rid]"
| "acked s (OpRead v off len) reply = []"
| "acked s (OpVerify v) reply = []"

fun event_of :: "HistoryLogRecord \<Rightarrow> HistoryEvent" where
  "event_of (CreateHistory h b) = HistoryCreated b"
| "event_of (Splice h v parent off del ins rid b dg pl) = VersionSpliced h parent off del ins rid b"
| "event_of (Fork h v p rid b dg) = VersionForked h p rid b"
| "event_of (ExpireVersion h v) = VersionDropped v"
| "event_of (Retire rid dg) = RequestRetired rid"

definition empty_log :: DurableHistoryLog where
  "empty_log = \<lparr>log_file = [], log_tail = 0, fail_next_append = False\<rparr>"

text \<open>
  \<open>durable_run E P (s, log) evs d\<close>: the system can be in this state after the acknowledged events
  \<open>evs\<close>, with \<open>d\<close> bytes of the log known to be on disk.  A crash keeps these bytes and any number of
  the bytes written after them; the reopened store replays what it finds.  Files stay below 2^64
  bytes.
\<close>

inductive durable_run ::
  "env \<Rightarrow> 'p PhysicalContent \<Rightarrow> 'p PersistentHistoryStore \<times> DurableHistoryLog \<Rightarrow> HistoryEvent list \<Rightarrow> nat \<Rightarrow> bool"
  for E P where
  start: "durable_run E P (PersistentHistoryStore_new, empty_log) [] 0"
| answered: "durable_run E P (s, log) evs d \<Longrightarrow> run_op E P io op (s, log) = Some (Inr reply, (s', log')) \<Longrightarrow>
    length (log_file log') < width64 \<Longrightarrow>
    durable_run E P (s', log') (evs @ acked s op reply) (if acked s op reply = [] then d else log_tail log')"
| refused: "durable_run E P (s, log) evs d \<Longrightarrow> run_op E P io op (s, log) = Some (Inl e, (s', log')) \<Longrightarrow>
    length (log_file log') < width64 \<Longrightarrow> durable_run E P (s', log') evs d"
| crashed: "durable_run E P (s, log) evs d \<Longrightarrow> d \<le> n \<Longrightarrow> file = take n (log_file log) \<Longrightarrow>
    decode_history_log E file = Inr (recs, tail) \<Longrightarrow> recover_history_store E P file = Some (Inr s') \<Longrightarrow>
    open_write E file = Inr log' \<Longrightarrow> durable_run E P (s', log') (map event_of recs) tail"

section \<open>Records on the wire\<close>

lemma inv_widths:
  assumes "spec_inv a" "v < length (sp_versions a)"
  shows "version_history (fst (sp_versions a ! v)) < sp_histories a" "length (snd (sp_versions a ! v)) < width64"
  using assms by (auto simp: spec_inv_def catalogue_inv_def case_prod_beta)

lemma optional_valid: "valid_optional x \<Longrightarrow> optional_ok MAX_HISTORY_REQUEST_ID_BYTES x"
  "valid_optional x \<Longrightarrow> optional_ok MAX_HISTORY_BINDING_BYTES x"
  by (auto simp: valid_optional_def optional_ok_def valid_key_def MAX_HISTORY_REQUEST_ID_BYTES_def
      MAX_HISTORY_BINDING_BYTES_def split: option.split)

lemma event_of_record [simp]: "event_of (record_of E a ev) = ev"
  by (cases ev) simp_all

lemma events_of_records [simp]: "map event_of (records_of E a evs) = evs"
  by (induction evs arbitrary: a) simp_all

lemma record_of_ok:
  assumes sha: "sha_ok E" and inv: "spec_inv a" and en: "enabled ev a"
  shows "record_ok (record_of E a ev)"
proof -
  have n: "sp_histories a < width64" "length (sp_versions a) < width64"
    using inv by (auto simp: spec_inv_def catalogue_inv_def)
  show ?thesis
  proof (cases ev)
    case (HistoryCreated b)
    then show ?thesis
      using n en by (simp add: optional_valid)
  next
    case (VersionSpliced h parent off del ins rid b)
    have src: "length (sp_bytes a parent) < width64"
      using VersionSpliced en inv_widths(2) [OF inv] by (auto simp: sp_bytes_def usable_parent_def split: option.split)
    have "off + del \<le> length (sp_bytes a parent)" "length (sp_bytes a parent) - del + length ins < width64"
      using VersionSpliced en by (auto simp: edit_ok_def)
    moreover have "p < NO_PARENT" if "parent = Some p" for p
      using VersionSpliced en n that by (auto simp: usable_parent_def NO_PARENT_def)
    ultimately show ?thesis
      using VersionSpliced en n src sha
      by (auto simp: commit_enabled_def optional_valid history_splice_digest_def placement_ok_def split: option.split)
  next
    case (VersionForked h p rid b)
    then show ?thesis
      using n en sha by (auto simp: commit_enabled_def optional_valid usable_parent_def history_fork_digest_def)
  next
    case (VersionDropped v)
    then show ?thesis
      using n en inv_widths(1) [OF inv, of v] by auto
  next
    case (RequestRetired rid)
    then show ?thesis
      using en inv by (auto simp: valid_key_def MAX_HISTORY_REQUEST_ID_BYTES_def spec_inv_def ledger_inv_def ledger_upto_def)
  qed
qed

section \<open>The log file\<close>

text \<open>Complete frames, possibly followed by a torn one that the next append overwrites.\<close>

definition torn_tail :: "env \<Rightarrow> byte list \<Rightarrow> bool" where
  "torn_tail E junk \<longleftrightarrow> junk = [] \<or>
     (\<exists>body k. length body + 56 < width64 \<and> k < length (frame_of E body) \<and> junk = take k (frame_of E body))"

definition log_at :: "env \<Rightarrow> DurableHistoryLog \<Rightarrow> byte list list \<Rightarrow> bool" where
  "log_at E log bodies \<longleftrightarrow> log_tail log = length (log_of E bodies) \<and> length (log_file log) < width64 \<and>
     (\<exists>junk. log_file log = log_of E bodies @ junk \<and> torn_tail E junk)"

lemma torn_tail_probe:
  "sha_ok E \<Longrightarrow> torn_tail E junk \<Longrightarrow> junk = [] \<or> probe_history_log_frame E junk = Inr Torn"
  using probe_torn length_frame_of by (auto simp: torn_tail_def)

lemma torn_tail_take: "torn_tail E junk \<Longrightarrow> torn_tail E (take n junk)"
  unfolding torn_tail_def take_take
proof (elim disjE exE conjE)
  fix body k
  assume "length body + 56 < width64" "k < length (frame_of E body)" "junk = take k (frame_of E body)"
  then show "take n junk = [] \<or> (\<exists>body k. length body + 56 < width64 \<and> k < length (frame_of E body) \<and>
      take n junk = take k (frame_of E body))"
    by (intro disjI2 exI [of _ body] exI [of _ "min n k"]) simp
qed simp

lemma write_outcome:
  assumes sha: "sha_ok E" and log: "log_at E log bodies" and body: "length body + 56 < width64"
    and run: "write_and_sync io (frame_of E body) (s, log) = Some (r, (s', log'))" and fits: "length (log_file log') < width64"
  obtains (Rejected) e where "r = Inl (Rejected e)" "s' = s" "log_at E log' bodies"
    | (Synced) "r = Inr ()" "s' = s" "log_at E log' (bodies @ [body])" "log_file log' = log_of E (bodies @ [body])"
    | (Unsynced) m where "r = Inl (Indeterminate (SyncFailed m))" "s' = set_poisoned s"
        "log_file log' = log_of E (bodies @ [body])"
proof -
  have cut: "set_len (log_tail log) (log_file log) = log_of E bodies"
    using log by (auto simp: log_at_def set_len_def)
  have pos: "min n (length (frame_of E body) - 1) < length (frame_of E body)" for n
    using length_frame_of [OF sha, of body] by simp
  have keep: "log_at E (log\<lparr>fail_next_append := f\<rparr>) bodies" for f
    using log by (simp add: log_at_def)
  have torn: "log_at E (log\<lparr>log_file := log_of E bodies @ take (min n (length (frame_of E body) - 1)) (frame_of E body)\<rparr>) bodies"
    if "length (log_of E bodies @ take (min n (length (frame_of E body) - 1)) (frame_of E body)) < width64" for n
    using log that pos [of n] body unfolding log_at_def torn_tail_def by auto
  have whole: "log_at E (log\<lparr>log_file := log_of E bodies @ frame_of E body,
      log_tail := length (log_of E bodies) + length (frame_of E body)\<rparr>) (bodies @ [body])"
    if "length (log_of E bodies @ frame_of E body) < width64"
    using that by (simp add: log_at_def torn_tail_def)
  have tail: "log_tail log = length (log_of E bodies)"
    using log by (simp add: log_at_def)
  show thesis
  proof (cases "fail_next_append log")
    case True
    with run keep [of False] show thesis
      by (intro Rejected) (auto simp: write_and_sync_def append_frame_def)
  next
    case False
    show thesis
    proof (cases "append_io io")
      case IoNone
      show thesis
      proof (cases "checked_add width64 (log_tail log) (length (frame_of E body))")
        case None
        then have "width64 \<le> length (log_of E bodies @ frame_of E body)"
          by (simp add: checked_add_None_iff tail)
        then show thesis
          using run fits None False IoNone by (auto simp: write_and_sync_def append_frame_def cut Let_def)
      next
        case (Some n)
        then have n: "n = length (log_of E bodies) + length (frame_of E body)"
          "length (log_of E bodies @ frame_of E body) < width64"
          by (auto simp: checked_add_Some_iff tail)
        show thesis
        proof (cases "sync_ok io")
          case True
          then show thesis
            using run False IoNone Some n whole
            by (intro Synced) (auto simp: write_and_sync_def append_frame_def cut Let_def log_sync_def)
        next
          case unsynced: False
          then show thesis
            using run False IoNone Some
            by (intro Unsynced) (auto simp: write_and_sync_def append_frame_def cut Let_def log_sync_def)
        qed
      qed
    next
      case (WriteFails n)
      then show thesis
        using run False fits torn [of n] by (intro Rejected) (auto simp: write_and_sync_def append_frame_def cut)
    qed (use run False log in \<open>auto simp: write_and_sync_def append_frame_def intro: Rejected\<close>)
  qed
qed

lemma encode_frame_body:
  assumes "record_ok rec" "encode_frame_of E rec = Inr frame"
  obtains body where "frame = frame_of E body" "frame_ok rec body" "length body + 56 < width64"
  using assms by (auto simp: encode_frame_of_def result_iffs encode_record_iff encode_frame_iff frame_ok_def decode_record_iff)

lemma bindP_rejectedP: "bindP (rejectedP f) k (s, log) = (case f s of
    None \<Rightarrow> None
  | Some (r, s') \<Rightarrow> (case r of Inl e \<Rightarrow> Some (Inl (Rejected e), (s', log)) | Inr x \<Rightarrow> k x (s', log)))"
  by (auto simp: bindP_def rejectedP_def split: option.split sum.split)

lemma retire_request_cases:
  "(\<exists>e. retire_request E rid s = Some (Inl e, s)) \<or> (\<exists>t. retire_request E rid s = Some (Inr (), t))"
  unfolding retire_request_def by (split sum.split) blast

section \<open>The invariant\<close>

context sequence_backend
begin

definition durable_inv ::
  "'p PersistentHistoryStore \<Rightarrow> DurableHistoryLog \<Rightarrow> HistoryEvent list \<Rightarrow> nat \<Rightarrow> bool" where
  "durable_inv s log evs d \<longleftrightarrow> all_enabled E spec_new evs \<and> rel s (spec_run E evs spec_new) \<and>
     (\<exists>bodies. list_all2 frame_ok (records_of E spec_new evs) bodies \<and> d = length (log_of E bodies) \<and>
       (if poisoned s then length (log_file log) < width64 \<and> (\<exists>ev body. enabled ev (spec_run E evs spec_new) \<and>
            frame_ok (record_of E (spec_run E evs spec_new) ev) body \<and> log_file log = log_of E (bodies @ [body]))
        else log_at E log bodies))"

lemma rel_poison: "rel s a \<Longrightarrow> rel (set_poisoned s) a"
  by (simp add: refines_def tabled_def set_poisoned_def)

lemma durable_inv_same:
  "durable_inv s log evs d \<Longrightarrow> rel s' (spec_run E evs spec_new) \<Longrightarrow> poisoned s' = poisoned s \<Longrightarrow> durable_inv s' log evs d"
  by (simp add: durable_inv_def)

text \<open>The log and the in-memory application, once the operation is prepared.\<close>

lemma publish_step:
  assumes sha: "sha_ok E" and inv: "durable_inv s log evs d" and live: "\<not> poisoned s"
    and en: "enabled ev (spec_run E evs spec_new)"
    and f: "(\<exists>e t. f s1 = Some (Inl e, t) \<and> rel (set_poisoned t) (spec_run E evs spec_new)) \<or>
      (\<exists>x t. f s1 = Some (Inr x, t) \<and> rel t (spec_apply E ev (spec_run E evs spec_new)) \<and> \<not> poisoned t)"
    and s1: "rel (set_poisoned s1) (spec_run E evs spec_new)"
    and body: "frame_ok (record_of E (spec_run E evs spec_new) ev) body" "length body + 56 < width64"
    and run: "write_and_sync io (frame_of E body) (s1, log) = Some (r, (s2, log2))"
    and fits: "length (log_file log2) < width64"
  shows "(\<exists>e. r = Inl (Rejected e) \<and> s2 = s1 \<and> durable_inv s log2 evs d) \<or>
    (\<exists>m. r = Inl (Indeterminate (SyncFailed m)) \<and> durable_inv s2 log2 evs d) \<or>
    r = Inr () \<and> s2 = s1 \<and> ((\<exists>e t. f s1 = Some (Inl e, t) \<and> durable_inv (set_poisoned t) log2 evs d) \<or>
      (\<exists>x t. f s1 = Some (Inr x, t) \<and> durable_inv t log2 (evs @ [ev]) (log_tail log2)))"
proof -
  let ?a = "spec_run E evs spec_new"
  obtain bodies where b: "list_all2 frame_ok (records_of E spec_new evs) bodies" "d = length (log_of E bodies)"
    "log_at E log bodies" and all: "all_enabled E spec_new evs" and r: "rel s ?a"
    using inv live by (auto simp: durable_inv_def)
  have pending: "durable_inv t log2 evs d"
    if "rel t ?a" "poisoned t" "log_file log2 = log_of E (bodies @ [body])" for t
    using that b(1,2) all fits en body(1) unfolding durable_inv_def by auto
  from sha b(3) body(2) run fits show ?thesis
  proof (cases rule: write_outcome)
    case (Rejected e)
    then show ?thesis
      using b(1,2) all r live by (auto simp: durable_inv_def)
  next
    case (Unsynced m)
    then show ?thesis
      using pending [of s2] s1 by (simp add: set_poisoned_def)
  next
    case Synced
    show ?thesis
    proof (cases "\<exists>x t. f s1 = Some (Inr x, t)")
      case True
      then obtain x t where t: "f s1 = Some (Inr x, t)" "rel t (spec_apply E ev ?a)" "\<not> poisoned t"
        using f by auto
      have "log_tail log2 = length (log_of E (bodies @ [body]))"
        using Synced by (simp add: log_at_def)
      then have "durable_inv t log2 (evs @ [ev]) (log_tail log2)"
        using t Synced b(1) all en body(1) unfolding durable_inv_def
        by (auto intro!: exI [of _ "bodies @ [body]"] list_all2_appendI)
      with Synced t show ?thesis
        by auto
    next
      case False
      then obtain e t where "f s1 = Some (Inl e, t)" "rel (set_poisoned t) ?a"
        using f by auto
      then show ?thesis
        using Synced pending [of "set_poisoned t"] by (auto simp: set_poisoned_def)
    qed
  qed
qed

text \<open>Encode, write, sync, apply: the common end of every durable operation.\<close>

lemma commit_step:
  assumes sha: "sha_ok E" and inv: "durable_inv s log evs d" and live: "\<not> poisoned s"
    and en: "enabled ev (spec_run E evs spec_new)"
    and f: "(\<exists>e. f s = Some (Inl e, s)) \<or>
      (\<exists>x t. f s = Some (Inr x, t) \<and> rel t (spec_apply E ev (spec_run E evs spec_new)) \<and> poisoned t = poisoned s)"
    and run: "bindP (liftP (encode_frame_of E (record_of E (spec_run E evs spec_new) ev))) (\<lambda>frame.
      bindP (write_and_sync io frame) (\<lambda>_. after_barrierP f)) (s, log) = Some (r, (s', log'))"
    and fits: "length (log_file log') < width64"
  shows "(\<exists>e. r = Inl e \<and> durable_inv s' log' evs d) \<or>
    (\<exists>x t. r = Inr x \<and> f s = Some (Inr x, t) \<and> durable_inv s' log' (evs @ [ev]) (log_tail log'))"
proof (cases "encode_frame_of E (record_of E (spec_run E evs spec_new) ev)")
  case (Inl e)
  then show ?thesis
    using run inv by (auto simp: bindP_liftP)
next
  case (Inr frame)
  have r: "rel s (spec_run E evs spec_new)" and sinv: "spec_inv (spec_run E evs spec_new)"
    using inv by (auto simp: durable_inv_def refines_def)
  obtain body where body: "frame = frame_of E body" "frame_ok (record_of E (spec_run E evs spec_new) ev) body"
    "length body + 56 < width64"
    by (rule encode_frame_body [OF record_of_ok [OF sha sinv en] Inr])
  obtain r1 s1 log1 where w: "write_and_sync io frame (s, log) = Some (r1, (s1, log1))"
    using run by (cases "write_and_sync io frame (s, log)") (auto simp: bindP_liftP Inr bindP_def)
  have same: "log1 = log'"
    using run w f by (cases r1) (auto simp: bindP_liftP Inr after_barrierP_def split: option.splits prod.splits sum.splits)
  have "(\<exists>e t. f s = Some (Inl e, t) \<and> rel (set_poisoned t) (spec_run E evs spec_new)) \<or>
      (\<exists>x t. f s = Some (Inr x, t) \<and> rel t (spec_apply E ev (spec_run E evs spec_new)) \<and> \<not> poisoned t)"
    using f live rel_poison [OF r] by auto
  from publish_step [where f = f and ?s1.0 = s, OF sha inv live en this rel_poison [OF r] body(2,3) w [unfolded body(1)]] fits same
  show ?thesis
    using run w by (auto simp: bindP_liftP Inr after_barrierP_def)
qed

text \<open>What an answered or refused operation leaves behind.\<close>

definition step_ok ::
  "DurableError + 'r \<Rightarrow> ('r \<Rightarrow> HistoryEvent list) \<Rightarrow> 'p PersistentHistoryStore \<Rightarrow> DurableHistoryLog \<Rightarrow>
   HistoryEvent list \<Rightarrow> nat \<Rightarrow> bool" where
  "step_ok r ack s' log' evs d \<longleftrightarrow> (case r of
     Inl e \<Rightarrow> durable_inv s' log' evs d
   | Inr x \<Rightarrow> durable_inv s' log' (evs @ ack x) (if ack x = [] then d else log_tail log'))"

lemma splice_durable_step:
  assumes sha: "sha_ok E" and inv: "durable_inv s log evs d"
    and run: "splice_durable E P io h parent off del ins rid b (s, log) = Some (r, (s', log'))"
    and fits: "length (log_file log') < width64"
  shows "step_ok r (\<lambda>oc. if outcome_replayed oc then [] else [VersionSpliced h parent off del ins rid b]) s' log' evs d"
proof (cases "poisoned s")
  case True
  then show ?thesis
    using run inv by (auto simp: splice_durable_def require_unpoisoned_durable_def bindP_readP step_ok_def)
next
  case live: False
  let ?a = "spec_run E evs spec_new" and ?ev = "VersionSpliced h parent off del ins rid b"
  have r: "rel s ?a"
    using inv by (simp add: durable_inv_def)
  then have phys: "\<not> backend_is_physical (store_backend s)"
    using ephemeral by (simp add: refines_def)
  obtain pr where pr: "preview_splice E P h parent off del ins rid b s = Some (pr, s)"
    using preview_splice_checks [OF phys] by blast
  note start = splice_durable_def require_unpoisoned_durable_def bindP_readP bindP_rejectedP
  show ?thesis
  proof (cases "\<exists>p. pr = Inr (PreviewFresh p)")
    case False
    then show ?thesis
      using run inv live pr
      by (auto simp: start step_ok_def outcome_replayed_def split: sum.splits Preview.splits)
  next
    case True
    then obtain p where p: "pr = Inr (PreviewFresh p)"
      by blast
    then have en: "enabled ?ev ?a" and plan: "p = splice_plan s h parent off del ins rid b ?a"
      using pr preview_splice_fresh [OF r] by auto
    have none: "ps_physical p = None" and rec: "splice_log_record p None = record_of E ?a ?ev"
      by (simp_all add: plan splice_plan_def splice_log_record_def)
    let ?f = "apply_prepared_splice E P p False"
    have f: "(\<exists>e. ?f s = Some (Inl e, s)) \<or> (\<exists>x t. ?f s = Some (Inr x, t) \<and> rel t (spec_apply E ?ev ?a) \<and> poisoned t = poisoned s)"
      and commits: "?f s = Some (Inr x, t) \<Longrightarrow> \<not> outcome_replayed x" for x t
      using apply_splice_outcome [OF sha r en] by (auto simp: plan outcome_replayed_def)
    have run': "bindP (liftP (encode_frame_of E (record_of E ?a ?ev))) (\<lambda>frame.
        bindP (write_and_sync io frame) (\<lambda>_. after_barrierP ?f)) (s, log) = Some (r, (s', log'))"
      using run live pr p by (simp add: start none bindP_def [of "commit_physical_durable P None"]
          commit_physical_durable_def placement_of_def rec)
    from commit_step [OF sha inv live en f run' fits] commits show ?thesis
      by (auto simp: step_ok_def)
  qed
qed

lemma append_durable_step:
  assumes sha: "sha_ok E" and inv: "durable_inv s log evs d"
    and run: "append_durable E P io h parent bytes rid b (s, log) = Some (r, (s', log'))"
    and fits: "length (log_file log') < width64"
  shows "step_ok r (\<lambda>oc. if outcome_replayed oc then [] else
    [VersionSpliced h parent (case parent of None \<Rightarrow> 0 | Some p \<Rightarrow> record_len (versions s ! p)) 0 bytes rid b]) s' log' evs d"
proof (cases "poisoned s")
  case True
  then show ?thesis
    using run inv by (auto simp: append_durable_def require_unpoisoned_durable_def bindP_readP step_ok_def)
next
  case live: False
  have r: "rel s (spec_run E evs spec_new)"
    using inv by (simp add: durable_inv_def)
  show ?thesis
  proof (cases "append_offset s h parent")
    case (Inl e)
    then show ?thesis
      using run inv live by (auto simp: append_durable_def require_unpoisoned_durable_def bindP_readP step_ok_def)
  next
    case (Inr off)
    then have off: "off = (case parent of None \<Rightarrow> 0 | Some p \<Rightarrow> record_len (versions s ! p))"
      using version_record_known [OF r]
      by (auto simp: append_offset_def parent_coordinates_def result_iffs split: option.splits if_splits)
    have "splice_durable E P io h parent off 0 bytes rid b (s, log) = Some (r, (s', log'))"
      using run live Inr by (simp add: append_durable_def require_unpoisoned_durable_def bindP_readP)
    from splice_durable_step [OF sha inv this fits] show ?thesis
      unfolding off .
  qed
qed

lemma fork_durable_step:
  assumes sha: "sha_ok E" and inv: "durable_inv s log evs d"
    and run: "fork_durable E io h p rid b (s, log) = Some (r, (s', log'))"
    and fits: "length (log_file log') < width64"
  shows "step_ok r (\<lambda>oc. if outcome_replayed oc then [] else [VersionForked h p rid b]) s' log' evs d"
proof (cases "poisoned s")
  case True
  then show ?thesis
    using run inv by (auto simp: fork_durable_def require_unpoisoned_durable_def bindP_readP step_ok_def)
next
  case live: False
  let ?a = "spec_run E evs spec_new" and ?ev = "VersionForked h p rid b"
  have r: "rel s ?a"
    using inv by (simp add: durable_inv_def)
  note start = fork_durable_def require_unpoisoned_durable_def bindP_readP
  show ?thesis
  proof (cases "\<exists>q. preview_fork E s h p rid b = Inr (PreviewFresh q)")
    case False
    then show ?thesis
      using run inv live
      by (cases "preview_fork E s h p rid b")
        (auto simp: start step_ok_def outcome_replayed_def split: Preview.splits)
  next
    case True
    then obtain q where q: "preview_fork E s h p rid b = Inr (PreviewFresh q)"
      by blast
    then have en: "enabled ?ev ?a" and plan: "q = fork_plan s h p rid b ?a"
      using preview_fork_fresh [OF r] by auto
    have rec: "fork_log_record q = record_of E ?a ?ev"
      by (simp add: plan fork_plan_def fork_log_record_def)
    let ?f = "apply_prepared_fork E q"
    have f: "(\<exists>e. ?f s = Some (Inl e, s)) \<or> (\<exists>x t. ?f s = Some (Inr x, t) \<and> rel t (spec_apply E ?ev ?a) \<and> poisoned t = poisoned s)"
      and commits: "?f s = Some (Inr x, t) \<Longrightarrow> \<not> outcome_replayed x" for x t
      using apply_fork_outcome [OF sha r en] by (auto simp: plan outcome_replayed_def)
    have run': "bindP (liftP (encode_frame_of E (record_of E ?a ?ev))) (\<lambda>frame.
        bindP (write_and_sync io frame) (\<lambda>_. after_barrierP ?f)) (s, log) = Some (r, (s', log'))"
      using run live q by (simp add: start rec)
    from commit_step [OF sha inv live en f run' fits] commits show ?thesis
      by (auto simp: step_ok_def)
  qed
qed

lemma expire_durable_step:
  assumes sha: "sha_ok E" and inv: "durable_inv s log evs d"
    and run: "expire_durable E io v (s, log) = Some (r, (s', log'))" and fits: "length (log_file log') < width64"
  shows "step_ok r (\<lambda>oc. if oc = ExpireOutcome.Expired then [VersionDropped v] else []) s' log' evs d"
proof (cases "poisoned s")
  case True
  then show ?thesis
    using run inv by (auto simp: expire_durable_def require_unpoisoned_durable_def bindP_readP step_ok_def)
next
  case live: False
  let ?a = "spec_run E evs spec_new" and ?ev = "VersionDropped v"
  have r: "rel s ?a"
    using inv by (simp add: durable_inv_def)
  note start = expire_durable_def require_unpoisoned_durable_def bindP_readP
  show ?thesis
  proof (cases "\<exists>q. preview_expire E s v = Inr (ExpireFresh q)")
    case False
    then show ?thesis
      using run inv live
      by (cases "preview_expire E s v") (auto simp: start step_ok_def split: ExpirePreview.splits)
  next
    case True
    then obtain q where q: "preview_expire E s v = Inr (ExpireFresh q)"
      by blast
    then have en: "enabled ?ev ?a" and plan: "q = expire_plan s v ?a"
      using preview_expire_fresh [OF r] by auto
    have rec: "ExpireVersion (pe_history q) (pe_version q) = record_of E ?a ?ev"
      by (simp add: plan expire_plan_def)
    have f: "apply_prepared_expire q s = Some (Inr ExpireOutcome.Expired, dropped s v)"
      using apply_expire_outcome [OF r en] by (simp add: plan)
    then have f': "(\<exists>e. apply_prepared_expire q s = Some (Inl e, s)) \<or> (\<exists>x t. apply_prepared_expire q s = Some (Inr x, t) \<and>
        rel t (spec_apply E ?ev ?a) \<and> poisoned t = poisoned s)"
      using dropped_rel [OF sha r en] by auto
    have run': "bindP (liftP (encode_frame_of E (record_of E ?a ?ev))) (\<lambda>frame.
        bindP (write_and_sync io frame) (\<lambda>_. after_barrierP (apply_prepared_expire q))) (s, log) = Some (r, (s', log'))"
      using run live q rec by (simp add: start)
    from commit_step [OF sha inv live en f' run' fits] f show ?thesis
      by (auto simp: step_ok_def)
  qed
qed

lemma retire_durable_step:
  assumes sha: "sha_ok E" and inv: "durable_inv s log evs d"
    and run: "retire_durable E io rid (s, log) = Some (r, (s', log'))" and fits: "length (log_file log') < width64"
  shows "step_ok r (\<lambda>_. [RequestRetired rid]) s' log' evs d"
proof (cases "poisoned s")
  case True
  then show ?thesis
    using run inv by (auto simp: retire_durable_def require_unpoisoned_durable_def bindP_readP step_ok_def)
next
  case live: False
  let ?a = "spec_run E evs spec_new" and ?ev = "RequestRetired rid"
  have r: "rel s ?a"
    using inv by (simp add: durable_inv_def)
  note start = retire_durable_def require_unpoisoned_durable_def bindP_readP
  show ?thesis
  proof (cases "retire_digest s rid")
    case (Inl e)
    then show ?thesis
      using run inv live by (auto simp: start step_ok_def)
  next
    case (Inr dg)
    then have en: "enabled ?ev ?a" and rec: "Retire rid dg = record_of E ?a ?ev"
      using r by (auto simp: retire_digest_def result_iffs validate_iffs refines_def tabled_def split: option.splits)
    have f: "(\<exists>e. retire_request E rid s = Some (Inl e, s)) \<or> (\<exists>x t. retire_request E rid s = Some (Inr x, t) \<and>
        rel t (spec_apply E ?ev ?a) \<and> poisoned t = poisoned s)"
    proof (cases "\<exists>t. retire_request E rid s = Some (Inr (), t)")
      case True
      then show ?thesis
        using retired_rel [OF sha r en] retire_request_ok [OF r] by fastforce
    next
      case False
      then show ?thesis
        using retire_request_cases by blast
    qed
    have run': "bindP (liftP (encode_frame_of E (record_of E ?a ?ev))) (\<lambda>frame.
        bindP (write_and_sync io frame) (\<lambda>_. after_barrierP (retire_request E rid))) (s, log) = Some (r, (s', log'))"
      using run live Inr rec by (simp add: start)
    from commit_step [OF sha inv live en f run' fits] show ?thesis
      by (auto simp: step_ok_def)
  qed
qed

lemma finish_create:
  assumes r: "rel s (spec_run E evs spec_new)" and live: "\<not> poisoned s"
    and en: "enabled (HistoryCreated b) (spec_run E evs spec_new)" and h: "h = next_history_id s"
  shows "finish_history_create \<lparr>pc_history = h, pc_binding = b\<rparr> (s\<lparr>next_history_id := Suc h\<rparr>) = Some (Inr h, created s b)"
proof -
  have "next_history_id s = sp_histories (spec_run E evs spec_new)"
    "set (histories s) = {..<sp_histories (spec_run E evs spec_new)}"
    using r live by (auto simp: refines_def tabled_def)
  then show ?thesis
    using en h by (simp add: finish_history_create_def created_def checked_add_def split: option.split)
qed

lemma create_tail:
  assumes run: "create_history_durable E io b (s, log) = Some (r, (s', log'))"
    and frame: "encode_frame_of E (CreateHistory (next_history_id s) b) = Inr frame"
    and pre: "\<not> poisoned s" "validate_optional_binding b = Inr ()" "Option.bind b (bound_history s) = None"
      "reserve E ''persistent history set allocation failed'' 1 = Inr ()"
      "reserve_when (b \<noteq> None) E ''persistent history binding allocation failed'' 1 = Inr ()"
      "checked_add width64 (next_history_id s) 1 = Some after"
  shows "(case write_and_sync io frame (s\<lparr>next_history_id := after\<rparr>, log) of
      None \<Rightarrow> None
    | Some (Inl (Rejected e), (t, log)) \<Rightarrow> Some (Inl (Rejected e), (t\<lparr>next_history_id := next_history_id s\<rparr>, log))
    | Some (Inl e, sl) \<Rightarrow> Some (Inl e, sl)
    | Some (Inr _, sl) \<Rightarrow> finish_durable_history_create \<lparr>pc_history = next_history_id s, pc_binding = b\<rparr> sl) =
    Some (r, (s', log'))"
proof -
  let ?h = "next_history_id s"
  let ?w = "\<lambda>sl. case write_and_sync io frame sl of
      Some (Inl (Rejected e), (s, log)) \<Rightarrow> Some (Inl (Rejected e), (s\<lparr>next_history_id := ?h\<rparr>, log))
    | other \<Rightarrow> other"
  have "begin_durable_history_create E io b (s, log) =
      bindP ?w (\<lambda>_. retP (?h, Some \<lparr>pc_history = ?h, pc_binding = b\<rparr>)) (s\<lparr>next_history_id := after\<rparr>, log)"
    using pre frame
    by (simp add: begin_durable_history_create_def require_unpoisoned_durable_def bindP_readP bindP_liftP bindP_modifyP)
  then have "create_history_durable E io b (s, log) = bindP ?w (\<lambda>_.
      finish_durable_history_create \<lparr>pc_history = ?h, pc_binding = b\<rparr>) (s\<lparr>next_history_id := after\<rparr>, log)"
    by (cases "?w (s\<lparr>next_history_id := after\<rparr>, log)") (auto simp: create_history_durable_def bindP_def split: sum.splits)
  with run show ?thesis
    by (auto simp: bindP_def split: option.splits sum.splits DurableError.splits)
qed

lemma create_prefix:
  assumes inv: "durable_inv s log evs d" and live: "\<not> poisoned s"
    and run: "create_history_durable E io b (s, log) = Some (r, (s', log'))"
  defines "a \<equiv> spec_run E evs spec_new"
  obtains (fail) e where "r = Inl e" "s' = s" "log' = log"
    | (known) h where "r = Inr h" "h < sp_histories a" "s' = s" "log' = log"
    | (new) frame where "encode_frame_of E (record_of E a (HistoryCreated b)) = Inr frame" "enabled (HistoryCreated b) a"
        "(case write_and_sync io frame (s\<lparr>next_history_id := Suc (sp_histories a)\<rparr>, log) of
            None \<Rightarrow> None
          | Some (Inl (Rejected e), (t, log)) \<Rightarrow> Some (Inl (Rejected e), (t\<lparr>next_history_id := sp_histories a\<rparr>, log))
          | Some (Inl e, sl) \<Rightarrow> Some (Inl e, sl)
          | Some (Inr _, sl) \<Rightarrow>
              finish_durable_history_create \<lparr>pc_history = sp_histories a, pc_binding = b\<rparr> sl) = Some (r, (s', log'))"
proof -
  have r: "rel s a" and sinv: "spec_inv a"
    using inv by (auto simp: durable_inv_def refines_def a_def)
  have nx: "next_history_id s = sp_histories a"
    using r live by (auto simp: refines_def tabled_def)
  have old: "h < sp_histories a" if "Option.bind b (bound_history s) = Some h" for h
    using that sinv bound_known [OF r] by (cases b) (auto simp: spec_inv_def binding_inv_def)
  note start = create_history_durable_def begin_durable_history_create_def require_unpoisoned_durable_def bindP_assoc
    bindP_readP bindP_liftP bindP_modifyP
  show thesis
  proof (cases "validate_optional_binding b")
    case (Inl e)
    then show thesis
      using run live fail by (auto simp: start)
  next
    case (Inr u)
    then have valid: "valid_optional b"
      by (simp add: validate_iffs [symmetric])
    show thesis
    proof (cases "Option.bind b (bound_history s)")
      case (Some h)
      then show thesis
        using run live Inr old [OF Some] known by (auto simp: start)
    next
      case None
      have fresh: "x \<notin> ran (sp_hbind a)" if "b = Some x" for x
        using None that by (auto simp: ran_def bound_known [OF r, symmetric])
      show thesis
      proof (cases "reserve E ''persistent history set allocation failed'' 1")
        case (Inl e)
        then show thesis
          using run live Inr None fail by (auto simp: start)
      next
        case set: (Inr w)
        show thesis
        proof (cases "reserve_when (b \<noteq> None) E ''persistent history binding allocation failed'' 1")
          case (Inl e)
          then show thesis
            using run live Inr None set fail by (auto simp: start)
        next
          case bind: (Inr w)
          show thesis
          proof (cases "encode_frame_of E (CreateHistory (sp_histories a) b)")
            case (Inl e)
            then show thesis
              using run live Inr None set bind fail nx by (auto simp: start)
          next
            case frame: (Inr frame)
            show thesis
            proof (cases "Suc (sp_histories a) < width64")
              case False
              then show thesis
                using run live Inr None set bind frame fail nx by (auto simp: start checked_add_def)
            next
              case True
              then show thesis
                using create_tail [OF run, of frame "Suc (sp_histories a)", unfolded nx] live Inr None set bind frame nx valid fresh
                by (intro new) (auto simp: checked_add_def)
            qed
          qed
        qed
      qed
    qed
  qed
qed

lemma create_durable_step:
  assumes sha: "sha_ok E" and inv: "durable_inv s log evs d"
    and run: "create_history_durable E io b (s, log) = Some (r, (s', log'))" and fits: "length (log_file log') < width64"
  shows "step_ok r (\<lambda>h. if h = next_history_id s then [HistoryCreated b] else []) s' log' evs d"
proof (cases "poisoned s")
  case True
  then show ?thesis
    using run inv by (auto simp: create_history_durable_def begin_durable_history_create_def
        require_unpoisoned_durable_def bindP_assoc bindP_readP step_ok_def)
next
  case live: False
  let ?a = "spec_run E evs spec_new" and ?ev = "HistoryCreated b"
  have r: "rel s ?a" and sinv: "spec_inv ?a"
    using inv by (auto simp: durable_inv_def refines_def)
  have nx: "next_history_id s = sp_histories ?a"
    using r live by (auto simp: refines_def tabled_def)
  from inv live run show ?thesis
  proof (cases rule: create_prefix)
    case fail
    then show ?thesis
      using inv by (simp add: step_ok_def)
  next
    case (known h)
    then show ?thesis
      using inv nx by (simp add: step_ok_def)
  next
    case (new frame)
    let ?h = "sp_histories ?a" and ?s1 = "s\<lparr>next_history_id := Suc (sp_histories ?a)\<rparr>"
    let ?f = "finish_history_create \<lparr>pc_history = sp_histories ?a, pc_binding = b\<rparr>"
    have fin: "?f ?s1 = Some (Inr ?h, created s b)"
      using finish_create [OF r live new(2)] nx by simp
    have fin_ok: "(\<exists>e t. ?f ?s1 = Some (Inl e, t) \<and> rel (set_poisoned t) ?a) \<or>
        (\<exists>x t. ?f ?s1 = Some (Inr x, t) \<and> rel t (spec_apply E ?ev ?a) \<and> \<not> poisoned t)"
      using fin created_rel [OF sha r new(2) live] live by (auto simp: created_def)
    have s1: "rel (set_poisoned ?s1) ?a"
      using r by (simp add: refines_def tabled_def set_poisoned_def)
    obtain body where body: "frame = frame_of E body" "frame_ok (record_of E ?a ?ev) body" "length body + 56 < width64"
      by (rule encode_frame_body [OF record_of_ok [OF sha sinv new(2)] new(1)])
    obtain r1 s2 log2 where w: "write_and_sync io frame (?s1, log) = Some (r1, (s2, log2))"
      using new(3) by (cases "write_and_sync io frame (?s1, log)") auto
    have same: "log2 = log'"
      using new(3) w fin
      by (cases r1) (auto simp: finish_durable_history_create_def after_barrierP_def
          split: DurableError.splits option.splits prod.splits sum.splits)
    have restored: "durable_inv s l evs d \<Longrightarrow> durable_inv (s\<lparr>next_history_id := ?h\<rparr>) l evs d" for l
      unfolding nx [symmetric] by simp
    from publish_step [where f = ?f and ?s1.0 = ?s1, OF sha inv live new(2) fin_ok s1 body(2,3) w [unfolded body(1)]]
      fits same new(3) w fin nx restored
    show ?thesis
      by (auto simp: step_ok_def finish_durable_history_create_def after_barrierP_def)
  qed
qed

lemma read_step:
  assumes inv: "durable_inv s log evs d" and run: "store_read E P v off len out s = Some (r, s')"
  shows "durable_inv s' log evs d"
proof -
  let ?a = "spec_run E evs spec_new"
  have r: "rel s ?a"
    using inv by (simp add: durable_inv_def)
  have "rel s' ?a \<and> poisoned s' = poisoned s"
  proof (cases "v \<in> fst ` set (sp_versions ?a)")
    case True
    then obtain i bs where "i < length (sp_versions ?a)" "sp_versions ?a ! i = (v, bs)"
      by (auto simp: in_set_conv_nth)
    from read_outcome [OF r this, of off len out] run show ?thesis
      by auto
  next
    case False
    from committed_unlisted [OF r this] run r show ?thesis
      by (auto simp: store_read_def bindP_readP)
  qed
  with inv show ?thesis
    by (blast intro: durable_inv_same)
qed

lemma verify_step:
  assumes inv: "durable_inv s log evs d" and run: "store_verify E P v s = Some (r, s')"
  shows "durable_inv s' log evs d"
proof -
  let ?a = "spec_run E evs spec_new"
  have r: "rel s ?a"
    using inv by (simp add: durable_inv_def)
  have "rel s' ?a \<and> poisoned s' = poisoned s"
  proof (cases "v \<in> fst ` set (sp_versions ?a)")
    case True
    then obtain i bs where "i < length (sp_versions ?a)" "sp_versions ?a ! i = (v, bs)"
      by (auto simp: in_set_conv_nth)
    from verify_outcome [OF r this] run show ?thesis
      by auto
  next
    case False
    from committed_unlisted [OF r this] run r show ?thesis
      by (auto simp: store_verify_def bindP_readP)
  qed
  with inv show ?thesis
    by (blast intro: durable_inv_same)
qed

lemma reply_step:
  assumes run: "replyP f m sl = Some (r, (s', log'))" and fits: "length (log_file log') < width64"
    and step: "\<And>x. m sl = Some (x, (s', log')) \<Longrightarrow> step_ok x ack s' log' evs d" and ack: "\<And>x. ack' (f x) = ack x"
  shows "step_ok r ack' s' log' evs d"
proof (cases "m sl")
  case (Some y)
  obtain x s1 log1 where y: "y = (x, (s1, log1))"
    by (cases y) auto
  show ?thesis
    using run Some y step ack by (cases x) (auto simp: replyP_def bindP_def step_ok_def)
qed (use run in \<open>simp add: replyP_def\<close>)

lemma run_step:
  assumes sha: "sha_ok E" and inv: "durable_inv s log evs d"
    and run: "run_op E P io op (s, log) = Some (r, (s', log'))" and fits: "length (log_file log') < width64"
  shows "step_ok r (acked s op) s' log' evs d"
proof (cases op)
  case (OpRead v off len)
  have "step_ok x (\<lambda>_. []) s' log' evs d"
    if "rejectedP (store_read E P v off len []) (s, log) = Some (x, (s', log'))" for x
    using that read_step [OF inv]
    by (auto simp: rejectedP_def step_ok_def split: option.splits sum.splits)
  with run fits OpRead show ?thesis
    by (auto elim!: reply_step)
next
  case (OpVerify v)
  have "step_ok x (\<lambda>_. []) s' log' evs d"
    if "rejectedP (store_verify E P v) (s, log) = Some (x, (s', log'))" for x
    using that verify_step [OF inv]
    by (auto simp: rejectedP_def step_ok_def split: option.splits sum.splits)
  with run fits OpVerify show ?thesis
    by (auto elim!: reply_step)
next
  case (OpCreate b)
  with run fits show ?thesis
    by (auto elim!: reply_step intro: create_durable_step [OF sha inv])
next
  case (OpSplice h parent off del ins rid b)
  with run fits show ?thesis
    by (auto elim!: reply_step intro: splice_durable_step [OF sha inv] simp: committed_def)
next
  case (OpAppend h parent bytes rid b)
  with run fits show ?thesis
    by (auto elim!: reply_step intro: append_durable_step [OF sha inv] simp: committed_def)
next
  case (OpFork h p rid b)
  with run fits show ?thesis
    by (auto elim!: reply_step intro: fork_durable_step [OF sha inv] simp: committed_def)
next
  case (OpExpire v)
  with run fits show ?thesis
    by (auto elim!: reply_step intro: expire_durable_step [OF sha inv])
next
  case (OpRetire rid)
  with run fits show ?thesis
    by (auto elim!: reply_step intro: retire_durable_step [OF sha inv])
qed

end

end
