(* ===== verification/History_Gc_Correct.thy ===== *)
theory History_Gc_Correct
  imports History_Refinement
begin

text \<open>
  Garbage collection keeps the history: whatever the collector does to the arena, the store still
  refines the same abstract state, so every retained version reads the same bytes and the ledgers,
  identities and bindings are untouched.
\<close>

section \<open>The scan and the rebuilt catalogue\<close>

fun kept :: "VersionId set \<Rightarrow> (PersistentRoot \<Rightarrow> byte list \<Rightarrow> bool) \<Rightarrow> VersionRecord \<Rightarrow> Version \<times> byte list \<Rightarrow> bool" where
  "kept gone den rec (v, bs) \<longleftrightarrow> record_version rec = v \<and> record_len rec = length bs \<and>
     (case record_root rec of None \<Rightarrow> version_id v \<in> gone | Some root \<Rightarrow> den root bs)"

definition live_bytes :: "VersionId set \<Rightarrow> (Version \<times> byte list) list \<Rightarrow> byte list list" where
  "live_bytes gone vs = map snd (filter (\<lambda>(v, bs). version_id v \<notin> gone) vs)"

lemma stored_kept: "stored den recs a \<longleftrightarrow> list_all2 (kept (sp_expired a) den) recs (sp_versions a)"
  unfolding stored_def by (rule arg_cong [where f = "\<lambda>Q. list_all2 Q recs (sp_versions a)"]) (auto simp: fun_eq_iff)

lemma live_bytes_simps [simp]:
  "live_bytes gone [] = []"
  "live_bytes gone ((v, bs) # vs) = (if version_id v \<in> gone then live_bytes gone vs else bs # live_bytes gone vs)"
  by (simp_all add: live_bytes_def)

lemma gc_lengths_ok:
  assumes "list_all2 (kept gone den) recs vs" "\<And>root bs. den root bs \<Longrightarrow> proot_logical_len root = length bs"
  shows "gc_check_lengths recs = Inr ()"
proof -
  have "\<not> list_ex (\<lambda>rec. case record_root rec of None \<Rightarrow> False | Some root \<Rightarrow> record_len rec \<noteq> proot_logical_len root) recs"
    using assms(1)
  proof (induction rule: list_all2_induct)
    case (Cons rec recs v vs)
    then show ?case
      using assms(2) by (cases v) (auto split: option.splits)
  qed simp
  then show ?thesis
    by (simp add: gc_check_lengths_def)
qed

lemma gc_scan_ok:
  assumes "list_all2 (kept (set gone) den) recs vs"
  shows "n + length recs < width64 \<Longrightarrow> m + length recs < width64 \<Longrightarrow>
    \<exists>roots. gc_scan gone recs (acc, n, m) = Inr (acc @ roots, n + length roots, m + (length recs - length roots)) \<and>
      length roots \<le> length recs \<and> list_all2 den roots (live_bytes (set gone) vs)"
  using assms
proof (induction recs vs arbitrary: acc n m rule: list_all2_induct)
  case (Cons rec recs v vs)
  obtain w bs where v: "v = (w, bs)"
    by fastforce
  show ?case
  proof (cases "version_id w \<in> set gone")
    case True
    obtain roots where "gc_scan gone recs (acc, n, Suc m) =
        Inr (acc @ roots, n + length roots, Suc m + (length recs - length roots))"
      "length roots \<le> length recs" "list_all2 den roots (live_bytes (set gone) vs)"
      using Cons.IH [of n "Suc m" acc] Cons.prems by auto
    then show ?thesis
      using True Cons.hyps Cons.prems v by (intro exI [of _ roots]) (auto simp: checked_add_def)
  next
    case False
    then obtain root where root: "record_root rec = Some root" "den root bs" "record_version rec = w"
      using Cons.hyps v by (auto split: option.splits)
    obtain roots where "gc_scan gone recs (acc @ [root], Suc n, m) =
        Inr ((acc @ [root]) @ roots, Suc n + length roots, m + (length recs - length roots))"
      "length roots \<le> length recs" "list_all2 den roots (live_bytes (set gone) vs)"
      using Cons.IH [of "Suc n" m "acc @ [root]"] Cons.prems by auto
    then show ?thesis
      using False root Cons.prems v by (intro exI [of _ "root # roots"]) (auto simp: checked_add_def)
  qed
qed simp

lemma gc_rebuild_ok:
  assumes "list_all2 (kept (set gone) den) recs vs" "\<And>root bs. den' root bs \<Longrightarrow> proot_logical_len root = length bs"
  shows "list_all2 den' remapped (live_bytes (set gone) vs) \<Longrightarrow>
    \<exists>recs'. gc_rebuild gone recs remapped out = Inr (out @ recs') \<and> list_all2 (kept (set gone) den') recs' vs \<and>
      list_all2 (\<lambda>rec (v, _). version_id v \<in> set gone \<longrightarrow> record_root rec = None) recs' vs"
  using assms(1)
proof (induction recs vs arbitrary: remapped out rule: list_all2_induct)
  case (Cons rec recs v vs)
  obtain w bs where v: "v = (w, bs)"
    by fastforce
  have rec: "record_version rec = w" "record_len rec = length bs"
    using Cons.hyps v by auto
  show ?case
  proof (cases "version_id w \<in> set gone")
    case True
    let ?new = "\<lparr>record_version = w, record_root = None, record_len = length bs\<rparr>"
    obtain recs' where "gc_rebuild gone recs remapped (out @ [?new]) = Inr ((out @ [?new]) @ recs')"
      "list_all2 (kept (set gone) den') recs' vs"
      "list_all2 (\<lambda>rec (v, _). version_id v \<in> set gone \<longrightarrow> record_root rec = None) recs' vs"
      using Cons.IH [of remapped "out @ [?new]"] Cons.prems True v by auto
    then show ?thesis
      using True rec v by (intro exI [of _ "?new # recs'"]) auto
  next
    case False
    then obtain root rest where root: "remapped = root # rest" "den' root bs" "list_all2 den' rest (live_bytes (set gone) vs)"
      using Cons.prems v by (auto simp: list_all2_Cons2)
    let ?new = "\<lparr>record_version = w, record_root = Some root, record_len = length bs\<rparr>"
    obtain recs' where "gc_rebuild gone recs rest (out @ [?new]) = Inr ((out @ [?new]) @ recs')"
      "list_all2 (kept (set gone) den') recs' vs"
      "list_all2 (\<lambda>rec (v, _). version_id v \<in> set gone \<longrightarrow> record_root rec = None) recs' vs"
      using Cons.IH [of rest "out @ [?new]"] root(3) by auto
    then show ?thesis
      using False rec v root assms(2) [OF root(2)] by (intro exI [of _ "?new # recs'"]) auto
  qed
qed simp

section \<open>Collection\<close>

context sequence_backend
begin

lemma gc_outcome:
  assumes r: "rel s a" and room: "node_count P (store_backend s) + length (sp_versions a) < width64 - 1"
  shows "(\<exists>e. prepare_gc E P s = Inl e \<and> lacks_space E exhausted e) \<or>
    (\<exists>p. prepare_gc E P s = Inr p \<and> rel (apply_prepared_gc p s) a \<and>
      poisoned (apply_prepared_gc p s) = poisoned s \<and>
      (\<forall>i\<in>sp_expired a. record_root (versions (apply_prepared_gc p s) ! i) = None))"
proof -
  let ?den = "denotes (store_backend s)" and ?vs = "sp_versions a"
  have ok: "content_ok (store_backend s)" and gone: "set (expired_versions s) = sp_expired a"
    and kept: "list_all2 (kept (sp_expired a) ?den) (versions s) ?vs"
    and ids: "sp_expired a \<subseteq> {..<length ?vs}" and len: "length (versions s) = length ?vs"
    using r rel_versions(1) [OF r] by (auto simp: refines_def tabled_def stored_kept spec_inv_def catalogue_inv_def)
  have plen: "proot_logical_len root = length bs" if "denotes b root bs" for b root bs
    using denotes_length that by blast
  obtain roots where roots: "gc_scan (expired_versions s) (versions s) ([], 0, 0) =
      Inr (roots, length roots, length ?vs - length roots)" "length roots \<le> length ?vs"
    "list_all2 ?den roots (live_bytes (sp_expired a) ?vs)"
    using gc_scan_ok [of "expired_versions s" ?den "versions s" ?vs 0 0 "[]"] kept gone len rel_versions(6) [OF r] by auto
  have room': "node_count P (store_backend s) + length roots < width64 - 1"
    using room roots(2) by linarith
  note start = prepare_gc_def gc_lengths_ok [OF kept plen] gc_roots_def len
  show ?thesis
  proof (cases "reserve E ''persistent GC root table allocation failed'' (length ?vs)")
    case (Inl e)
    then show ?thesis
      by (auto simp: start intro: reserve_Inl)
  next
    case (Inr u)
    from compact_law [OF ok roots(3) room'] show ?thesis
    proof (elim disjE exE conjE)
      fix e
      assume "seam_compact_to_roots E P (store_backend s) roots = Inl e" "exhausted e"
      then show ?thesis
        by (auto simp: start Inr roots(1) lacks_space_def)
    next
      fix c
      assume c: "seam_compact_to_roots E P (store_backend s) roots = Inr c" "content_ok (compacted_backend c)"
        "list_all2 (denotes (compacted_backend c)) (compacted_roots c) (live_bytes (sp_expired a) ?vs)"
        and sizes: "compacted_nodes_after c \<le> compacted_nodes_before c"
          "compacted_payload_bytes_after c \<le> compacted_payload_bytes_before c"
      obtain recs where recs: "gc_rebuild (expired_versions s) (versions s) (compacted_roots c) [] = Inr recs"
        "list_all2 (kept (sp_expired a) (denotes (compacted_backend c))) recs ?vs"
        "list_all2 (\<lambda>rec (v, _). version_id v \<in> sp_expired a \<longrightarrow> record_root rec = None) recs ?vs"
        using gc_rebuild_ok [of "expired_versions s" ?den "versions s" ?vs "denotes (compacted_backend c)"
            "compacted_roots c" "[]"] kept plen c(3) gone by auto
      obtain stats where stats: "gc_statistics c (length roots) (length ?vs - length roots) = Inr stats"
        using sizes by (simp add: gc_statistics_def checked_sub_def)
      have rootless: "record_root (recs ! i) = None" if "i \<in> sp_expired a" for i
        using recs(3) ids that rel_versions(5) [OF r, of i] by (auto simp: list_all2_conv_all_nth case_prod_beta)
      note run = start Inr roots(1) c(1) gc_assemble_def recs(1) stats
      show ?thesis
      proof (cases "bindR (reserve E ''persistent GC catalogue allocation failed'' (length ?vs)) (\<lambda>_. gc_reserve_tables E s)")
        case fail: (Inl e)
        then have "lacks_space E exhausted e" "prepare_gc E P s = Inl e"
          by (auto simp: run bindR_Inl_iff gc_reserve_tables_def intro: reserve_Inl)
        then show ?thesis
          by blast
      next
        case all: (Inr w)
        have "rel (s\<lparr>store_backend := compacted_backend c, versions := recs\<rparr>) a"
          using r c(2) recs(2) by (simp add: refines_def tabled_def stored_kept)
        then show ?thesis
          using all rootless by (auto simp: run bindR_Inr_iff apply_prepared_gc_def)
      qed
    qed
  qed
qed

end

end
