(* ===== verification/History_Recovery.thy ===== *)
theory History_Recovery
  imports History_Crash History_Gc_Correct
begin

text \<open>
  Recovery of a log that may end in a torn frame, the invariant of every run of the durable
  store, and the properties of the history store and of its durable form.
\<close>

section \<open>Decoding\<close>

lemma scan_no_room:
  assumes sha: "sha_ok E" and room: "\<not> try_reserve E ''history log recovery allocation failed'' 1"
    and body: "length body + 56 < width64"
  shows "scan_frames E (frame_of E body @ rest) acc 0 =
    Inl (HistoryError.Capacity ''history log recovery allocation failed'')"
  using probe_frame [OF sha body, of rest] room length_frame_of [OF sha, of body]
  by (subst scan_frames.simps) (simp add: reserve_def)

lemma decode_outcome:
  assumes sha: "sha_ok E" and ok: "list_all2 frame_ok recs bodies" and len: "length (log_of E bodies @ tail) < width64"
    and torn: "tail = [] \<or> probe_history_log_frame E tail = Inr Torn"
  shows "decode_history_log E (log_of E bodies @ tail) = Inr (recs, length (log_of E bodies)) \<or>
    (\<exists>e. decode_history_log E (log_of E bodies @ tail) = Inl e \<and> lacks_space E ex e)"
proof (cases "try_reserve E ''history log recovery allocation failed'' 1")
  case True
  then show ?thesis
    using decode_log [OF sha _ ok len torn] by simp
next
  case False
  show ?thesis
  proof (cases bodies)
    case Nil
    have "scan_frames E tail [] 0 = Inr ([], 0)"
      using torn by (subst scan_frames.simps) auto
    with Nil ok show ?thesis
      by (simp add: decode_history_log_def try_from_def)
  next
    case (Cons body rest)
    then have "length body + 56 < width64"
      using ok by (auto simp: list_all2_Cons2 frame_ok_def)
    from scan_no_room [OF sha False this] Cons False show ?thesis
      by (auto simp: decode_history_log_def lacks_space_def)
  qed
qed

lemma bindings_unique_distinct: "distinct bs \<Longrightarrow> set seen \<inter> set bs = {} \<Longrightarrow> bindings_unique seen bs"
  by (induction bs arbitrary: seen) auto

section \<open>Recovery\<close>

lemma tabled_bindings_unique:
  assumes "tabled s a" "spec_inv a"
  shows "bindings_unique [] (map snd (history_bindings s))"
proof -
  have tab: "htable (history_bindings s)" "hget (history_bindings s) = sp_hbind a"
    and inj: "inj_on (sp_hbind a) (dom (sp_hbind a))"
    using assms by (auto simp: tabled_def spec_inv_def binding_inv_def)
  have "inj_on snd (set (history_bindings s))"
  proof (rule inj_onI)
    fix x y
    assume xy: "x \<in> set (history_bindings s)" "y \<in> set (history_bindings s)" "snd x = snd y"
    then have "sp_hbind a (fst x) = Some (snd x)" "sp_hbind a (fst y) = Some (snd y)"
      using htable_entry [OF tab(1)] tab(2) by (metis prod.collapse)+
    then have "fst x = fst y"
      using inj xy(3) by (metis domI inj_onD)
    with xy(3) show "x = y"
      by (simp add: prod_eq_iff)
  qed
  moreover have "distinct (history_bindings s)"
    using tab(1) by (simp add: htable_def distinct_map)
  ultimately show ?thesis
    by (intro bindings_unique_distinct) (simp_all add: distinct_map)
qed

context sequence_backend
begin

lemma rel_new: "content_ok BalancedSequence_new \<Longrightarrow> rel PersistentHistoryStore_new spec_new"
  using spec_new_inv
  by (simp add: refines_def tabled_def stored_def PersistentHistoryStore_new_def spec_new_def fun_eq_iff)

lemma bindings_validate:
  assumes r: "rel s a"
  shows "validate_replayed_history_bindings E s = Inr () \<or>
    (\<exists>e. validate_replayed_history_bindings E s = Inl e \<and> lacks_space E exhausted e)"
proof -
  have "bindings_unique [] (map snd (history_bindings s))"
    using r by (auto simp: refines_def intro: tabled_bindings_unique)
  then show ?thesis
    by (cases "reserve E ''persistent history binding validation allocation failed'' (length (history_bindings s))")
      (auto simp: validate_replayed_history_bindings_def intro: reserve_Inl)
qed

lemma recover_outcome:
  assumes sha: "sha_ok E" and new: "content_ok BalancedSequence_new" and en: "all_enabled E spec_new evs"
    and ok: "list_all2 frame_ok (records_of E spec_new evs) bodies" and len: "length (log_of E bodies @ tail) < width64"
    and torn: "tail = [] \<or> probe_history_log_frame E tail = Inr Torn"
  shows "(\<exists>e. recover_history_store E P (log_of E bodies @ tail) = Some (Inl e) \<and> lacks_space E exhausted e) \<or>
    (\<exists>s. recover_history_store E P (log_of E bodies @ tail) = Some (Inr s) \<and> rel s (spec_run E evs spec_new) \<and> \<not> poisoned s)"
proof -
  let ?file = "log_of E bodies @ tail" and ?new = "PersistentHistoryStore_new :: 'p PersistentHistoryStore"
  note run = recover_history_store_def replay_history_suffix_def bindP_liftP
  from decode_outcome [OF sha ok len torn, of exhausted] show ?thesis
  proof (elim disjE exE conjE)
    fix e
    assume "decode_history_log E ?file = Inl e" "lacks_space E exhausted e"
    then show ?thesis
      by (simp add: run)
  next
    assume dec: "decode_history_log E ?file = Inr (records_of E spec_new evs, length (log_of E bodies))"
    have live: "\<not> poisoned ?new"
      by (simp add: PersistentHistoryStore_new_def)
    have "performs E exhausted (apply_recovered_records E P (records_of E spec_new evs)) ?new
        (\<lambda>y s'. rel s' (spec_run E evs spec_new) \<and> \<not> poisoned s')"
      using replay_events [OF sha rel_new [OF new] live en] live by (simp add: replayed_def)
    then show ?thesis
      unfolding performs_def
    proof (elim disjE exE conjE)
      fix e s1
      assume "apply_recovered_records E P (records_of E spec_new evs) ?new = Some (Inl e, s1)" "lacks_space E exhausted e"
      then show ?thesis
        by (simp add: run dec)
    next
      fix x s1
      assume s1: "apply_recovered_records E P (records_of E spec_new evs) ?new = Some (Inr x, s1)"
        "rel s1 (spec_run E evs spec_new)" "\<not> poisoned s1"
      from bindings_validate [OF s1(2)] s1 show ?thesis
        by (auto simp: run dec readP_def)
    qed
  qed
qed

text \<open>What a crash can leave of the log.\<close>

lemma crash_file:
  assumes inv: "durable_inv s log evs d" and n: "d \<le> n"
  obtains evs' bodies tail where "take n (log_file log) = log_of E bodies @ tail"
    "list_all2 frame_ok (records_of E spec_new evs') bodies" "all_enabled E spec_new evs'"
    "length (log_of E bodies @ tail) < width64" "torn_tail E tail"
    "evs' = evs \<or> poisoned s \<and> (\<exists>ev. evs' = evs @ [ev])"
proof -
  note found = that
  obtain bodies where b: "list_all2 frame_ok (records_of E spec_new evs) bodies" "d = length (log_of E bodies)"
    and en: "all_enabled E spec_new evs" and disk: "if poisoned s then length (log_file log) < width64 \<and>
        (\<exists>ev body. enabled ev (spec_run E evs spec_new) \<and>
          frame_ok (record_of E (spec_run E evs spec_new) ev) body \<and> log_file log = log_of E (bodies @ [body]))
      else log_at E log bodies"
    using inv unfolding durable_inv_def by blast
  have size: "length (log_file log) < width64"
    using disk by (auto simp: log_at_def split: if_splits)
  have keep: thesis if "take n (log_file log) = log_of E bodies @ tail" "torn_tail E tail" for tail
  proof -
    have "length (log_of E bodies @ tail) < width64"
      using size unfolding that(1) [symmetric] by simp
    then show thesis
      using found [OF that(1) b(1) en _ that(2)] by simp
  qed
  show thesis
  proof (cases "poisoned s")
    case False
    then obtain junk where junk: "log_file log = log_of E bodies @ junk" "torn_tail E junk"
      using disk by (auto simp: log_at_def)
    then show thesis
      using n b(2) by (intro keep [of "take (n - d) junk"]) (auto intro: torn_tail_take)
  next
    case True
    then obtain ev body where ev: "enabled ev (spec_run E evs spec_new)"
      "frame_ok (record_of E (spec_run E evs spec_new) ev) body" "log_file log = log_of E (bodies @ [body])"
      using disk by auto
    have cut: "take n (log_file log) = log_of E bodies @ take (n - d) (frame_of E body)"
      using ev(3) b(2) n by simp
    show thesis
    proof (cases "n - d < length (frame_of E body)")
      case torn_frame: True
      then show thesis
        using cut ev by (intro keep) (auto simp: frame_ok_def torn_tail_def)
    next
      case False
      then have all: "take n (log_file log) = log_of E (bodies @ [body]) @ []"
        using cut by simp
      show thesis
        by (rule found [OF all, of "evs @ [ev]"])
          (use b(1) en ev True size in \<open>auto intro: list_all2_appendI simp: torn_tail_def\<close>)
    qed
  qed
qed

text \<open>Every run keeps the invariant.\<close>

lemma run_inv:
  assumes sha: "sha_ok E" and new: "content_ok BalancedSequence_new" and run: "durable_run E P sl evs d"
  shows "durable_inv (fst sl) (snd sl) evs d"
  using run
proof induction
  case start
  show ?case
    using rel_new [OF new]
    by (auto simp: durable_inv_def PersistentHistoryStore_new_def log_at_def empty_log_def torn_tail_def)
next
  case (answered s log evs d io op reply s' log')
  then show ?case
    using run_step [OF sha, of s log evs d io op "Inr reply" s' log'] by (simp add: step_ok_def)
next
  case (refused s log evs d io op e s' log')
  then show ?case
    using run_step [OF sha, of s log evs d io op "Inl e" s' log'] by (simp add: step_ok_def)
next
  case (crashed s log evs d n bytes recs tail s' log')
  have inv: "durable_inv s log evs d"
    using crashed.IH by simp
  obtain evs' bodies junk where f: "bytes = log_of E bodies @ junk"
    "list_all2 frame_ok (records_of E spec_new evs') bodies" "all_enabled E spec_new evs'"
    "length (log_of E bodies @ junk) < width64" and torn: "torn_tail E junk"
    using crash_file [OF inv crashed.hyps(2)] crashed.hyps(3) by metis
  note probe = torn_tail_probe [OF sha torn]
  have dec: "recs = records_of E spec_new evs'" "tail = length (log_of E bodies)"
    using decode_outcome [OF sha f(2,4) probe, of exhausted] crashed.hyps(4) f(1) by auto
  have s': "rel s' (spec_run E evs' spec_new)" "\<not> poisoned s'"
    using recover_outcome [OF sha new f(3,2,4) probe] crashed.hyps(5) f(1) by auto
  have "log' = \<lparr>log_file = bytes, log_tail = tail, fail_next_append = False\<rparr>"
    using crashed.hyps(4,6) by (auto simp: open_write_def scan_log_tail_def result_iffs)
  then have "log_at E log' bodies"
    using dec(2) f(1,4) torn by (auto simp: log_at_def)
  then show ?case
    using s' dec f(2,3) by (auto simp: durable_inv_def)
qed

end

end
