(* ===== verification/Avl_Simulation.thy ===== *)
theory Avl_Simulation
  imports Avl_V2
begin

text \<open>
  Two arenas that answer alike run the algorithms of \<open>avl.rs\<close> alike.  The locale \<open>arena_readings\<close>
  relates an arena \<open>A\<close> to an arena \<open>B\<close> by the answers of their reads: \<open>A\<close> gives the answer of \<open>B\<close>,
  an error that stands for the error of \<open>B\<close> (\<open>ER\<close>), or one of the faults \<open>RF\<close> of its medium,
  which may depend on \<open>B\<close> and only grow as \<open>B\<close> does.  The
  locale \<open>arena_simulation\<close> adds the two allocating functions.  Reads, verification and the whole
  splice then agree in the same sense, and they end on \<open>A\<close> whenever they end on \<open>B\<close>.
\<close>

section \<open>Answers that agree\<close>

definition agree :: "V2AvlError set \<Rightarrow> (V2AvlError \<Rightarrow> V2AvlError \<Rightarrow> bool) \<Rightarrow>
  V2AvlError + 'r \<Rightarrow> V2AvlError + 'r \<Rightarrow> bool" where
  "agree RF ER r r' \<longleftrightarrow> (case r of
     Inr x \<Rightarrow> r' = Inr x
   | Inl e \<Rightarrow> e \<in> RF \<or> (\<exists>e'. r' = Inl e' \<and> ER e e'))"

definition outcome :: "V2AvlError set \<Rightarrow> (V2AvlError \<Rightarrow> V2AvlError \<Rightarrow> bool) \<Rightarrow> ('s \<Rightarrow> 't \<Rightarrow> bool) \<Rightarrow>
  (V2AvlError + 'r) \<times> 's \<Rightarrow> (V2AvlError + 'r) \<times> 't \<Rightarrow> bool" where
  "outcome RF ER S z y \<longleftrightarrow> (case fst z of
     Inr x \<Rightarrow> fst y = Inr x \<and> S (snd z) (snd y)
   | Inl e \<Rightarrow> e \<in> RF \<or> (\<exists>e'. fst y = Inl e' \<and> ER e e'))"

text \<open>The faults may depend on the state of the right-hand program; they only grow along its runs.\<close>

definition like :: "('t \<Rightarrow> V2AvlError set) \<Rightarrow> (V2AvlError \<Rightarrow> V2AvlError \<Rightarrow> bool) \<Rightarrow> ('s \<Rightarrow> 't \<Rightarrow> bool) \<Rightarrow>
  ('s, V2AvlError, 'r) prog \<Rightarrow> ('t, V2AvlError, 'r) prog \<Rightarrow> bool" where
  "like RF ER S m n \<longleftrightarrow> (\<forall>t y. n t = Some y \<longrightarrow> RF t \<subseteq> RF (snd y) \<and>
     (\<forall>s. S s t \<longrightarrow> (\<exists>z. m s = Some z \<and> outcome (RF (snd y)) ER S z y)))"

named_theorems like_intros

lemma likeI:
  assumes "\<And>t y. n t = Some y \<Longrightarrow> RF t \<subseteq> RF (snd y)"
    and "\<And>s t y. S s t \<Longrightarrow> n t = Some y \<Longrightarrow> \<exists>z. m s = Some z \<and> outcome (RF (snd y)) ER S z y"
  shows "like RF ER S m n"
  using assms unfolding like_def by blast

lemma likeI_const:
  "(\<And>s t y. S s t \<Longrightarrow> n t = Some y \<Longrightarrow> \<exists>z. m s = Some z \<and> outcome RF ER S z y) \<Longrightarrow> like (\<lambda>_. RF) ER S m n"
  unfolding like_def by blast

lemma likeI_both:
  "(\<And>t y. n t = Some y \<Longrightarrow> RF t \<subseteq> RF (snd y) \<and>
     (\<forall>s. S s t \<longrightarrow> (\<exists>z. m s = Some z \<and> outcome (RF (snd y)) ER S z y))) \<Longrightarrow> like RF ER S m n"
  unfolding like_def by blast

lemma likeD:
  "like RF ER S m n \<Longrightarrow> S s t \<Longrightarrow> n t = Some y \<Longrightarrow> \<exists>z. m s = Some z \<and> outcome (RF (snd y)) ER S z y"
  unfolding like_def by blast

lemma like_grows: "like RF ER S m n \<Longrightarrow> n t = Some y \<Longrightarrow> RF t \<subseteq> RF (snd y)"
  unfolding like_def by blast

lemma like_unfold: "(\<And>s. m s = m' s) \<Longrightarrow> like RF ER S m' n \<Longrightarrow> like RF ER S m n"
  by (simp add: like_def)

lemma like_shift: "like (\<lambda>_. F) ER (=) m n \<Longrightarrow> like (\<lambda>_. F) ER (=) (\<lambda>v. m (g v)) (\<lambda>v. n (g v))"
  by (simp add: like_def)

lemma agree_simps [simp]:
  "agree RF ER (Inr x) r' \<longleftrightarrow> r' = Inr x"
  "agree RF ER (Inl e) r' \<longleftrightarrow> e \<in> RF \<or> (\<exists>e'. r' = Inl e' \<and> ER e e')"
  by (simp_all add: agree_def)

lemma agree_same: "(\<And>e. ER e e) \<Longrightarrow> agree RF ER r r"
  by (cases r) auto

lemma agree_bind:
  "agree RF ER r r' \<Longrightarrow> (\<And>x. agree RF ER (k x) (k' x)) \<Longrightarrow> agree RF ER (bindR r k) (bindR r' k')"
  by (cases r) auto

lemma outcome_simps [simp]:
  "outcome RF ER S (Inr x, s) y \<longleftrightarrow> fst y = Inr x \<and> S s (snd y)"
  "outcome RF ER S (Inl e, s) y \<longleftrightarrow> e \<in> RF \<or> (\<exists>e'. fst y = Inl e' \<and> ER e e')"
  by (simp_all add: outcome_def)

lemma like_retP [like_intros]: "like RF ER S (retP x) (retP x)"
  by (rule likeI) auto

lemma outcome_mono: "outcome F ER S z y \<Longrightarrow> F \<subseteq> F' \<Longrightarrow> outcome F' ER S z y"
  by (cases z; cases "fst z") auto

lemma like_bindP [like_intros]:
  assumes "like RF ER S m n" and "\<And>x. like RF ER S (k x) (l x)"
  shows "like RF ER S (bindP m k) (bindP n l)"
proof (rule likeI)
  fix t y
  assume run: "bindP n l t = Some y"
  then obtain r' t' where n: "n t = Some (r', t')"
    by (cases "n t") (auto simp: bindP_def)
  have grow: "RF t \<subseteq> RF t'"
    using like_grows [OF assms(1) n] by simp
  have rest: "RF t' \<subseteq> RF (snd y)"
    using run n like_grows [OF assms(2)] by (cases r') auto
  show "RF t \<subseteq> RF (snd y)"
    using grow rest by (rule subset_trans)
  fix s
  assume st: "S s t"
  obtain r s' where m: "m s = Some (r, s')" and o1: "outcome (RF t') ER S (r, s') (r', t')"
    using likeD [OF assms(1) st n] by auto
  show "\<exists>z. bindP m k s = Some z \<and> outcome (RF (snd y)) ER S z y"
  proof (cases r)
    case (Inl e)
    show ?thesis
    proof (cases "e \<in> RF t'")
      case False
      with o1 Inl obtain e' where "r' = Inl e'" "ER e e'"
        by auto
      with run n m Inl show ?thesis
        by auto
    qed (use m Inl rest in auto)
  next
    case (Inr x)
    with o1 have "r' = Inr x" "S s' t'"
      by auto
    with run n likeD [OF assms(2)] m Inr show ?thesis
      by auto
  qed
qed

lemma like_if [like_intros]:
  "like RF ER S m n \<Longrightarrow> like RF ER S m' n' \<Longrightarrow> like RF ER S (if b then m else m') (if b then n else n')"
  by simp

lemma like_pair [like_intros]:
  "(\<And>x y. like RF ER S (f x y) (g x y)) \<Longrightarrow>
   like RF ER S (case p of (x, y) \<Rightarrow> f x y) (case p of (x, y) \<Rightarrow> g x y)"
  by (cases p) simp

lemma like_option [like_intros]:
  "like RF ER S m n \<Longrightarrow> (\<And>x. like RF ER S (f x) (g x)) \<Longrightarrow>
   like RF ER S (case p of None \<Rightarrow> m | Some x \<Rightarrow> f x) (case p of None \<Rightarrow> n | Some x \<Rightarrow> g x)"
  by (cases p) simp_all

lemma like_node [like_intros]:
  "(\<And>a b c. like RF ER S (f a b c) (g a b c)) \<Longrightarrow> (\<And>a b c. like RF ER S (f' a b c) (g' a b c)) \<Longrightarrow>
   like RF ER S (case node of ArenaNode.Leaf a b c \<Rightarrow> f a b c | ArenaNode.Branch a b c \<Rightarrow> f' a b c)
     (case node of ArenaNode.Leaf a b c \<Rightarrow> g a b c | ArenaNode.Branch a b c \<Rightarrow> g' a b c)"
  by (cases node) simp_all

lemma like_if_state [like_intros]:
  "like RF ER S m n \<Longrightarrow> like RF ER S m' n' \<Longrightarrow>
   like RF ER S (\<lambda>s. if b then m s else m' s) (\<lambda>t. if b then n t else n' t)"
  by (cases b) simp_all

lemma like_node_state [like_intros]:
  "(\<And>a b c. like RF ER S (f a b c) (g a b c)) \<Longrightarrow> (\<And>a b c. like RF ER S (f' a b c) (g' a b c)) \<Longrightarrow>
   like RF ER S (\<lambda>s. case node of ArenaNode.Leaf a b c \<Rightarrow> f a b c s | ArenaNode.Branch a b c \<Rightarrow> f' a b c s)
     (\<lambda>t. case node of ArenaNode.Leaf a b c \<Rightarrow> g a b c t | ArenaNode.Branch a b c \<Rightarrow> g' a b c t)"
  by (cases node) simp_all

section \<open>Reads\<close>

locale arena_readings =
  fixes E :: env
    and A :: "'a ArenaStore"
    and B :: "'b ArenaStore"
    and R :: "'a \<Rightarrow> 'b \<Rightarrow> bool"
    and RF :: "'b \<Rightarrow> V2AvlError set"
    and ER :: "V2AvlError \<Rightarrow> V2AvlError \<Rightarrow> bool"
  assumes ER_refl: "ER e e"
    and load_like: "R a b \<Longrightarrow> agree (RF b) ER (arena_load_node A a i) (arena_load_node B b i)"
    and read_like: "R a b \<Longrightarrow> agree (RF b) ER (arena_read_payload A a x y) (arena_read_payload B b x y)"
begin

lemma same_like: "agree F ER r r"
  by (rule agree_same) (rule ER_refl)

lemma liftP_like [like_intros]: "(\<And>t. agree (F t) ER r r') \<Longrightarrow> like F ER S (liftP r) (liftP r')"
  by (rule likeI) (cases r; cases r'; fastforce)+

lemma failP_like [like_intros]: "like F ER S (failP e) (failP e)"
  by (rule likeI) (auto intro: ER_refl)

lemma node_for_root_like:
  assumes "R a b"
  shows "agree (RF b) ER (node_for_root_on A a root) (node_for_root_on B b root)"
  unfolding node_for_root_on_def by (intro agree_bind load_like assms same_like)

lemma root_for_node_id_like:
  assumes "R a b"
  shows "agree (RF b) ER (root_for_node_id_on A a i) (root_for_node_id_on B b i)"
  unfolding root_for_node_id_on_def by (intro agree_bind load_like assms same_like)

lemma validate_node_like:
  assumes "R a b"
  shows "agree (RF b) ER (validate_node_on E A a n) (validate_node_on E B b n)"
  by (cases n) (simp_all only: validate_node_on.simps, (intro agree_bind read_like assms same_like)+)

lemma read_leaf_like:
  assumes "R a b"
  shows "agree (RF b) ER (read_leaf A a off len lo ll) (read_leaf B b off len lo ll)"
  unfolding read_leaf_def
  by (intro agree_bind same_like) (simp add: same_like agree_bind read_like assms del: agree_simps)

lemma splice_checks_like:
  assumes "R a b"
  shows "agree (RF b) ER (splice_checks E A a parent off del ins) (splice_checks E B b parent off del ins)"
  unfolding splice_checks_def
  by (cases parent)
    (simp_all add: same_like assms agree_bind node_for_root_like validate_node_like del: agree_simps bindR_simps)

lemma read_loop_like:
  assumes "R a b" and "read_loop E B b stack out v = Some y"
  shows "\<exists>z. read_loop E A a stack out v = Some z \<and> agree (RF b) ER z y"
proof -
  let ?P = "\<lambda>E' B' b' stack out v y. E' = E \<longrightarrow> B' = B \<longrightarrow> b' = b \<longrightarrow>
    (\<exists>z. read_loop E A a stack out v = Some z \<and> agree (RF b) ER z y)"
  have "?P E B b stack out v y"
    apply (rule read_loop.raw_induct [where P = ?P, OF _ assms(2)])
    subgoal premises prems for f E' B' b' stack out v y
    proof (intro impI)
      assume eqs: "E' = E" "B' = B" "b' = b"
      have f: "f E B b stk o' v' = Some y' \<Longrightarrow> \<exists>z. read_loop E A a stk o' v' = Some z \<and> agree (RF b) ER z y'"
        for stk o' v' y'
        using prems(1) by blast
      show "\<exists>z. read_loop E A a stack out v = Some z \<and> agree (RF b) ER z y"
      proof (cases stack)
        case Nil
        then show ?thesis
          using prems(2) by (subst read_loop.simps) (simp add: eqs same_like)
      next
        case (Cons fr rest)
        obtain cur lo ll where fr: "fr = (cur, lo, ll)"
          by (cases fr)
        let ?nA = "bindR (node_for_root_on A a cur) (\<lambda>node. bindR (validate_node_on E A a node) (\<lambda>_. Inr node))"
        let ?nB = "bindR (node_for_root_on B b cur) (\<lambda>node. bindR (validate_node_on E B b node) (\<lambda>_. Inr node))"
        have n: "agree (RF b) ER ?nA ?nB"
          by (intro agree_bind node_for_root_like validate_node_like assms(1) same_like)
        show ?thesis
        proof (cases ?nA)
          case (Inl e)
          then have A: "read_loop E A a stack out v = Some (Inl e)"
            by (subst read_loop.simps) (simp add: Cons fr)
          show ?thesis
            using n prems(2) A by (auto simp: Inl Cons fr eqs)
        next
          case (Inr node)
          then have B: "?nB = Inr node"
            using n by simp
          show ?thesis
          proof (cases node)
            case (Leaf off len rec)
            note lk = read_leaf_like [OF assms(1), of off len lo ll]
            show ?thesis
            proof (cases "read_leaf A a off len lo ll")
              case (Inl e)
              then have A: "read_loop E A a stack out v = Some (Inl e)"
                by (subst read_loop.simps) (simp add: Cons fr Inr Leaf)
              show ?thesis
                using lk prems(2) A B by (auto simp: Inl Cons fr eqs Leaf)
            next
              case (Inr bs)
              then show ?thesis
                using lk prems(2) B f \<open>?nA = Inr node\<close>
                by (subst read_loop.simps) (auto simp: Cons fr eqs Leaf)
            qed
          next
            case (Branch l r rec)
            then show ?thesis
              using prems(2) B f Inr by (subst read_loop.simps) (auto simp: Cons fr eqs)
          qed
        qed
      qed
    qed
    done
  then show ?thesis
    by simp
qed

lemma read_range_like:
  assumes R: "R a b" and run: "read_range_counted_on E B b root off len = Some y"
  shows "\<exists>z. read_range_counted_on E A a root off len = Some z \<and> agree (RF b) ER z y"
proof -
  let ?g = "\<lambda>r. bindR r (\<lambda>_.
    bindR (ok_or (V2AvlError.Overflow ''v2 range end exceeds u64'') (checked_add width64 off len)) (\<lambda>end'.
    if end' > root_len root then Inl (V2AvlError.Invalid ''v2 range exceeds root logical length'')
    else ok_or (V2AvlError.Overflow ''v2 range length exceeds usize'') (try_from width64 len)))"
  have g: "agree (RF b) ER (?g (node_for_root_on A a root)) (?g (node_for_root_on B b root))"
    by (intro agree_bind node_for_root_like R same_like)
  show ?thesis
  proof (cases "?g (node_for_root_on A a root)")
    case (Inl e)
    then show ?thesis
      using g run by (auto simp: read_range_counted_on_def)
  next
    case (Inr cap)
    then have gB: "?g (node_for_root_on B b root) = Inr cap"
      using g by simp
    show ?thesis
    proof (cases "len = 0")
      case True
      then show ?thesis
        using Inr gB run by (auto simp: read_range_counted_on_def)
    next
      case False
      then obtain y' where y': "read_loop E B b [(root, off, len)] [] 0 = Some y'"
        using gB run by (cases "read_loop E B b [(root, off, len)] [] 0") (auto simp: read_range_counted_on_def)
      obtain z' where z': "read_loop E A a [(root, off, len)] [] 0 = Some z'" "agree (RF b) ER z' y'"
        using read_loop_like [OF R y'] by blast
      show ?thesis
      proof (cases z')
        case (Inl e)
        then show ?thesis
          using z' y' False Inr gB run by (auto simp: read_range_counted_on_def)
      next
        case (Inr p)
        then show ?thesis
          using z' y' False \<open>?g (node_for_root_on A a root) = Inr cap\<close> gB run
          by (cases p) (auto simp: read_range_counted_on_def same_like)
      qed
    qed
  qed
qed

lemma verify_node_like:
  assumes "R a b"
  shows "like (\<lambda>_. RF b) ER (=) (verify_node_on E A a root) (verify_node_on E B b root)"
proof -
  let ?P = "\<lambda>E' B' b' root v y. E' = E \<longrightarrow> B' = B \<longrightarrow> b' = b \<longrightarrow>
    (\<exists>z. verify_node_on E A a root v = Some z \<and> outcome (RF b) ER (=) z y)"
  have "?P E B b root v y" if "verify_node_on E B b root v = Some y" for v y
    apply (rule verify_node_on.raw_induct [where P = ?P, OF _ that])
    subgoal premises prems for f E' B' b' root v y
    proof (intro impI)
      assume eqs: "E' = E" "B' = B" "b' = b"
      have f: "like (\<lambda>_. RF b) ER (=) (verify_node_on E A a x) (f E B b x)" for x
        by (rule likeI_const) (use prems(1) in blast)
      have "like (\<lambda>_. RF b) ER (=) (\<lambda>v. verify_node_on E A a root v)
        (\<lambda>v. bindP (liftP (node_for_root_on B b root)) (\<lambda>node.
         bindP (liftP (validate_node_on E B b node)) (\<lambda>_ v.
         case node of ArenaNode.Leaf _ _ _ \<Rightarrow> retP () v
         | ArenaNode.Branch left right _ \<Rightarrow>
             bindP (f E B b left) (\<lambda>_. f E B b right) v)) (saturating_add width64 v 1))"
        by (rule like_unfold [OF verify_node_on.simps], rule like_shift)
          (intro like_intros node_for_root_like validate_node_like assms f)
      from this refl prems(2) [unfolded eqs]
      show "\<exists>z. verify_node_on E A a root v = Some z \<and> outcome (RF b) ER (=) z y"
        by (rule likeD)
    qed
    done
  then show ?thesis
    by (intro likeI_const) blast
qed

lemma verify_root_like:
  assumes R: "R a b" and run: "verify_root_counted_on E B b root = Some y"
  shows "\<exists>z. verify_root_counted_on E A a root = Some z \<and> agree (RF b) ER z y"
proof -
  obtain y' where y': "verify_node_on E B b root 0 = Some y'"
    using run by (cases "verify_node_on E B b root 0") (auto simp: verify_root_counted_on_def)
  obtain z' where "verify_node_on E A a root 0 = Some z'" "outcome (RF b) ER (=) z' y'"
    using likeD [OF verify_node_like [OF R] refl y'] by blast
  then show ?thesis
    using y' run by (cases z'; cases "fst z'"; cases y'; cases "fst y'") (auto simp: verify_root_counted_on_def)
qed

end

section \<open>Edits\<close>

locale arena_simulation = arena_readings E A B R RF ER
  for E :: env and A :: "'a ArenaStore" and B :: "'b ArenaStore" and R :: "'a \<Rightarrow> 'b \<Rightarrow> bool"
    and RF :: "'b \<Rightarrow> V2AvlError set" and ER :: "V2AvlError \<Rightarrow> V2AvlError \<Rightarrow> bool" +
  assumes payload_len_like: "R a b \<Longrightarrow> arena_payload_len A a = arena_payload_len B b"
    and node_count_like: "R a b \<Longrightarrow> arena_node_count A a = arena_node_count B b"
    and leaf_like: "like (\<lambda>t. RF (fst t)) ER (rel_prod R (=)) (allocate_leaf_on E A bytes) (allocate_leaf_on E B bytes)"
    and branch_like: "like (\<lambda>t. RF (fst t)) ER (rel_prod R (=)) (allocate_branch_on E A l r) (allocate_branch_on E B l r)"
begin

abbreviation alike :: "('a, 'r) avl_prog \<Rightarrow> ('b, 'r) avl_prog \<Rightarrow> bool" where
  "alike \<equiv> like (\<lambda>t. RF (fst t)) ER (rel_prod R (=))"

lemma bump_like [like_intros]: "alike (bump k) (bump k)"
  by (rule likeI) (auto simp: bump_def rel_prod_sel)

lemma viewP_like:
  assumes "\<And>a b. R a b \<Longrightarrow> agree (RF b) ER (f a) (g b)"
  shows "alike (viewP f) (viewP g)"
proof (rule likeI)
  show "RF (fst t) \<subseteq> RF (fst (snd y))" if "viewP g t = Some y" for t y
    using that by (auto simp: viewP_def)
  fix s t y
  assume st: "rel_prod R (=) s t" and y: "viewP g t = Some y"
  have "agree (RF (fst t)) ER (f (fst s)) (g (fst t))"
    using assms st by (auto simp: rel_prod_sel)
  then show "\<exists>z. viewP f s = Some z \<and> outcome (RF (fst (snd y))) ER (rel_prod R (=)) z y"
    using st y by (cases "f (fst s)") (auto simp: viewP_def)
qed

lemma children_like: "alike (branch_children_on A root) (branch_children_on B root)"
  unfolding branch_children_on_def by (intro like_intros viewP_like node_for_root_like)

lemma rebalance_like: "alike (rebalance_on E A l r) (rebalance_on E B l r)"
  unfolding rebalance_on_def by (intro like_intros children_like branch_like)

lemma concat_like: "alike (concat_on E A l r) (concat_on E B l r)"
proof -
  let ?P = "\<lambda>E' B' l r t y. E' = E \<longrightarrow> B' = B \<longrightarrow> RF (fst t) \<subseteq> RF (fst (snd y)) \<and>
    (\<forall>s. rel_prod R (=) s t \<longrightarrow>
      (\<exists>z. concat_on E A l r s = Some z \<and> outcome (RF (fst (snd y))) ER (rel_prod R (=)) z y))"
  have "?P E B l r t y" if "concat_on E B l r t = Some y" for t y
    apply (rule concat_on.raw_induct [where P = ?P, OF _ that])
    subgoal premises prems for f E' B' l r t y
    proof (intro impI)
      assume eqs: "E' = E" "B' = B"
      have f: "alike (concat_on E A x z) (f E B x z)" for x z
        by (rule likeI_both) (use prems(1) in blast)
      have k: "alike (concat_on E A l r)
       (\<lambda>t. if root_height l > saturating_add width16 (root_height r) 1 then
          bindP (branch_children_on B l) (\<lambda>(left_left, left_right).
          bindP (f E B left_right r) (\<lambda>joined. rebalance_on E B left_left joined)) t
        else if root_height r > saturating_add width16 (root_height l) 1 then
          bindP (branch_children_on B r) (\<lambda>(right_left, right_right).
          bindP (f E B l right_left) (\<lambda>joined. rebalance_on E B joined right_right)) t
        else allocate_branch_on E B l r t)"
        by (rule like_unfold [OF concat_on.simps])
          (intro like_intros children_like rebalance_like branch_like f)
      show "RF (fst t) \<subseteq> RF (fst (snd y)) \<and> (\<forall>s. rel_prod R (=) s t \<longrightarrow>
        (\<exists>z. concat_on E A l r s = Some z \<and> outcome (RF (fst (snd y))) ER (rel_prod R (=)) z y))"
        using likeD [OF k _ prems(2) [unfolded eqs]] like_grows [OF k prems(2) [unfolded eqs]] by blast
    qed
    done
  then show ?thesis
    by (intro likeI_both) blast
qed

lemma split_leaf_like: "alike (split_leaf E A off len k) (split_leaf E B off len k)"
  unfolding split_leaf_def by (intro like_intros viewP_like read_like same_like leaf_like)

lemma split_like: "alike (split_on E A root off) (split_on E B root off)"
proof -
  let ?P = "\<lambda>E' B' root off t y. E' = E \<longrightarrow> B' = B \<longrightarrow> RF (fst t) \<subseteq> RF (fst (snd y)) \<and>
    (\<forall>s. rel_prod R (=) s t \<longrightarrow>
      (\<exists>z. split_on E A root off s = Some z \<and> outcome (RF (fst (snd y))) ER (rel_prod R (=)) z y))"
  have "?P E B root off t y" if "split_on E B root off t = Some y" for t y
    apply (rule split_on.raw_induct [where P = ?P, OF _ that])
    subgoal premises prems for f E' B' root off t y
    proof (intro impI)
      assume eqs: "E' = E" "B' = B"
      have f: "alike (split_on E A x z) (f E B x z)" for x z
        by (rule likeI_both) (use prems(1) in blast)
      let ?n = "(\<lambda>s. if off > root_len root then
            failP (V2AvlError.Invalid ''v2 sequence split offset exceeds root length'') s
          else if off = 0 then retP (None, Some root) s
          else if off = root_len root then retP (Some root, None) s
          else bindP (bump 1) (\<lambda>_. bindP (viewP (\<lambda>arena. node_for_root_on B arena root)) (\<lambda>node.
            bindP (viewP (\<lambda>arena. validate_node_on E B arena node)) (\<lambda>_ s.
            case node of
              ArenaNode.Leaf payload_offset payload_len _ \<Rightarrow> split_leaf E B payload_offset payload_len off s
            | ArenaNode.Branch left right _ \<Rightarrow>
                (if off < root_len left then
                  bindP (f E B left off) (\<lambda>p.
                  bindP (case snd p of None \<Rightarrow> retP right | Some near \<Rightarrow> concat_on E B near right) (\<lambda>joined_right.
                  retP (fst p, Some joined_right))) s
                else if off = root_len left then retP (Some left, Some right) s
                else
                  bindP (f E B right (off - root_len left)) (\<lambda>p.
                  bindP (case fst p of None \<Rightarrow> retP left | Some near \<Rightarrow> concat_on E B left near) (\<lambda>joined_left.
                  retP (Some joined_left, snd p))) s)))) s)"
      have k: "alike (split_on E A root off) ?n"
        by (rule like_unfold [OF split_on.simps])
          (intro like_intros viewP_like node_for_root_like validate_node_like split_leaf_like concat_like f)
      have "?n t = Some y"
        using prems(2) by (simp only: eqs)
      then show "RF (fst t) \<subseteq> RF (fst (snd y)) \<and> (\<forall>s. rel_prod R (=) s t \<longrightarrow>
        (\<exists>z. split_on E A root off s = Some z \<and> outcome (RF (fst (snd y))) ER (rel_prod R (=)) z y))"
        using likeD [OF k] like_grows [OF k] by blast
    qed
    done
  then show ?thesis
    by (intro likeI_both) blast
qed

lemma leaves_like: "alike (allocate_leaves E A cs) (allocate_leaves E B cs)"
proof (induction cs)
  case (Cons c cs)
  then show ?case
    unfolding allocate_leaves.simps by (intro like_intros leaf_like)
qed (simp only: allocate_leaves.simps like_retP)

lemma pair_level_like: "alike (pair_level E A rs) (pair_level E B rs)"
proof (induction rs rule: induct_list012)
  case (3 r r' rs)
  then show ?case
    unfolding pair_level.simps by (intro like_intros concat_like)
qed (simp_all only: pair_level.simps like_retP)

lemma rounds_like: "alike (pair_rounds E A rs) (pair_rounds E B rs)"
proof -
  let ?P = "\<lambda>E' B' rs t y. E' = E \<longrightarrow> B' = B \<longrightarrow> RF (fst t) \<subseteq> RF (fst (snd y)) \<and>
    (\<forall>s. rel_prod R (=) s t \<longrightarrow>
      (\<exists>z. pair_rounds E A rs s = Some z \<and> outcome (RF (fst (snd y))) ER (rel_prod R (=)) z y))"
  have "?P E B rs t y" if "pair_rounds E B rs t = Some y" for t y
    apply (rule pair_rounds.raw_induct [where P = ?P, OF _ that])
    subgoal premises prems for f E' B' rs t y
    proof (intro impI)
      assume eqs: "E' = E" "B' = B"
      have f: "alike (pair_rounds E A x) (f E B x)" for x
        by (rule likeI_both) (use prems(1) in blast)
      have k: "alike (pair_rounds E A rs)
        (\<lambda>s. if length rs > 1 then
            if \<not> try_reserve E ''v2 sequence insert level allocation failed'' ((length rs + 1) div 2)
            then failP (V2AvlError.Invalid ''v2 sequence insert level allocation failed'') s
            else bindP (pair_level E B rs) (\<lambda>next. f E B next) s
          else retP rs s)"
        by (rule like_unfold [OF pair_rounds.simps]) (intro like_intros pair_level_like f)
      show "RF (fst t) \<subseteq> RF (fst (snd y)) \<and> (\<forall>s. rel_prod R (=) s t \<longrightarrow>
        (\<exists>z. pair_rounds E A rs s = Some z \<and> outcome (RF (fst (snd y))) ER (rel_prod R (=)) z y))"
        using likeD [OF k _ prems(2) [unfolded eqs]] like_grows [OF k prems(2) [unfolded eqs]] by blast
    qed
    done
  then show ?thesis
    by (intro likeI_both) blast
qed

lemma build_like: "alike (build_insert_subtree_on E A ins) (build_insert_subtree_on E B ins)"
  unfolding build_insert_subtree_on_def by (intro like_intros leaves_like rounds_like)

lemma concat_optional_like: "alike (concat_optional_on E A x y) (concat_optional_on E B x y)"
  unfolding concat_optional_on_def prod.case by (intro like_intros concat_like)

lemma splice_inner_like:
  "alike (splice_inner_on E A parent off del ins) (splice_inner_on E B parent off del ins)"
  unfolding splice_inner_on_def
  by (intro like_intros build_like split_like concat_optional_like same_like)

text \<open>A splice ends on \<open>A\<close> when it ends on \<open>B\<close>.  If it succeeds on \<open>B\<close>, it has the same result and
  related arenas on \<open>A\<close>, unless the medium of \<open>A\<close> fails with a fault of the final arena of \<open>B\<close>.\<close>

lemma splice_run_like:
  assumes R: "R a b" and run: "splice_on E B parent off del ins b = Some y"
  shows "\<exists>z t. splice_on E A parent off del ins a = Some z \<and> outcome (RF t) ER R z y \<and>
    (is_ok (fst y) \<longrightarrow> t = snd y)"
proof -
  note chk = splice_checks_like [OF R, of parent off del ins]
  show ?thesis
  proof (cases "splice_checks E B b parent off del ins")
    case (Inl e)
    then have y: "y = (Inl e, b)"
      using run by (simp add: splice_on_def)
    obtain f where "splice_checks E A a parent off del ins = Inl f" "f \<in> RF b \<or> ER f e"
      using chk Inl by (cases "splice_checks E A a parent off del ins") auto
    then show ?thesis
      unfolding y by (intro exI [of _ "(Inl f, a)"] exI [of _ b]) (auto simp: splice_on_def)
  next
    case B: (Inr u)
    obtain r t k where i: "splice_inner_on E B parent off del ins (b, 0) = Some (r, (t, k))"
      using run B by (cases "splice_inner_on E B parent off del ins (b, 0)") (auto simp: splice_on_def Let_def)
    have grow: "RF b \<subseteq> RF t"
      using like_grows [OF splice_inner_like i] by simp
    have t: "is_ok (fst y) \<Longrightarrow> t = snd y"
      using run B i by (cases r) (auto simp: splice_on_def Let_def)
    show ?thesis
    proof (cases "splice_checks E A a parent off del ins")
      case (Inl e)
      then have "e \<in> RF t"
        using chk B grow by auto
      then show ?thesis
        using Inl t by (intro exI [of _ "(Inl e, a)"] exI [of _ t]) (auto simp: splice_on_def)
    next
      case A: (Inr u')
      obtain z where z: "splice_inner_on E A parent off del ins (a, 0) = Some z"
        "outcome (RF t) ER (rel_prod R (=)) z (r, (t, k))"
        using likeD [OF splice_inner_like, of "(a, 0)" "(b, 0)", OF _ i] R by auto
      obtain rA sA kA where zA: "z = (rA, (sA, kA))"
        by (cases z) auto
      show ?thesis
      proof (cases rA)
        case (Inl e)
        then show ?thesis
          using z zA run i B A t by (cases r) (auto simp: splice_on_def Let_def intro!: exI [of _ t])
      next
        case (Inr root)
        then have "r = Inr root" "R sA t" "kA = k"
          using z zA by auto
        then show ?thesis
          using Inr z zA run i B A R t
          by (auto simp: splice_on_def Let_def payload_len_like node_count_like intro!: exI [of _ t])
      qed
    qed
  qed
qed

lemma splice_like:
  "R a b \<Longrightarrow> splice_on E B parent off del ins b = Some (Inr x, b') \<Longrightarrow>
   \<exists>z. splice_on E A parent off del ins a = Some z \<and> outcome (RF b') ER R z (Inr x, b')"
  using splice_run_like [of a b parent off del ins "(Inr x, b')"] by auto

end

end
