(* ===== verification/Physical_Reads.thy ===== *)
theory Physical_Reads
  imports Physical_Content Avl_Simulation
begin

text \<open>
  What the content files mean.  \<open>committed E st a\<close>: up to its frontiers the store \<open>st\<close> holds exactly the
  in-memory arena \<open>a\<close>; behind the frontiers the files may hold anything.  The committed store answers
  every read as \<open>a\<close> does, unless the medium fails, and the preparation view over it runs the splice
  algorithm as \<open>a\<close> does: both are interpretations of the simulation locales.
\<close>

section \<open>The bytes of a node table\<close>

definition node_table :: "ArenaNode list \<Rightarrow> byte list" where
  "node_table ns = concat (map (\<lambda>n. encode_v2_node (node_record n)) ns)"

lemma node_table_simps [simp]:
  "node_table [] = []" "node_table (n # ns) = encode_v2_node (node_record n) @ node_table ns"
  "node_table (ns @ ms) = node_table ns @ node_table ms"
  by (simp_all add: node_table_def)

definition sized :: "ArenaNode list \<Rightarrow> bool" where
  "sized ns \<longleftrightarrow> (\<forall>n\<in>set ns. node_canonical (node_record n))"

lemma sized_encode: "sized ns \<Longrightarrow> n \<in> set ns \<Longrightarrow> length (encode_v2_node (node_record n)) = 72"
  by (auto simp: sized_def node_canonical_def length_encode_v2_node)

lemma nodes_ok_sized: "sha_ok E \<Longrightarrow> nodes_ok E pl ns \<Longrightarrow> sized ns"
  unfolding sized_def nodes_ok_def by (metis in_set_conv_nth node_ok_canonical)

lemma length_node_table: "sized ns \<Longrightarrow> length (node_table ns) = length ns * 72"
  by (induction ns) (auto simp: sized_def node_canonical_def length_encode_v2_node)

lemma sized_append [simp]: "sized (xs @ ys) \<longleftrightarrow> sized xs \<and> sized ys"
  by (auto simp: sized_def)

lemma node_table_slice:
  assumes "sized ns" "i < length ns"
  shows "slice_get (node_table ns) (i * 72) (i * 72 + 72) = Some (encode_v2_node (node_record (ns ! i)))"
proof -
  let ?e = "encode_v2_node (node_record (ns ! i))"
  have split: "node_table ns = node_table (take i ns) @ ?e @ node_table (drop (Suc i) ns)"
    using assms(2) by (metis id_take_nth_drop node_table_simps(2,3))
  have "sized (take i ns)"
    using assms(1) by (auto simp: sized_def dest: in_set_takeD)
  then have "length (node_table (take i ns)) = i * 72"
    using assms(2) by (simp add: length_node_table)
  moreover have "length ?e = 72"
    by (rule sized_encode [OF assms(1) nth_mem [OF assms(2)]])
  ultimately show ?thesis
    unfolding split by (simp add: slice_get_Some_iff)
qed

lemma node_table_record:
  assumes "sized ns" "i < length ns"
  shows "record_at m (node_table ns) i = Inr (node_record (ns ! i))"
  using node_table_slice [OF assms] assms decode_encode_v2_node [of "node_record (ns ! i)"]
  by (auto simp: record_at_def PHYSICAL_NODE_RECORD_SIZE_def V2_NODE_RECORD_SIZE_def sized_def)

lemma node_table_decode:
  assumes "sized ns" "i < length ns" "slice_get (node_table ns) (i * 72) (i * 72 + 72) = Some bs"
  shows "decode_v2_node bs = Inr (node_record (ns ! i))"
  using node_table_slice [OF assms(1,2)] assms decode_encode_v2_node [of "node_record (ns ! i)"]
  by (auto simp: sized_def)

lemma node_record_u64: "sized ns \<Longrightarrow> length (node_table ns) < width64 \<Longrightarrow> i < length ns \<Longrightarrow> i * 72 + 72 < width64"
proof -
  assume *: "sized ns" "length (node_table ns) < width64" "i < length ns"
  have "i * 72 + 72 \<le> length ns * 72"
    using *(3) by simp
  then show ?thesis
    using * by (simp add: length_node_table)
qed

section \<open>What the files hold\<close>

definition starts_with :: "Directory \<Rightarrow> string \<Rightarrow> byte list \<Rightarrow> bool" where
  "starts_with d name bs \<longleftrightarrow> (\<exists>f. dir_files d name = Some f \<and> extends bs (file_bytes f) \<and>
     length (file_bytes f) < width64)"

definition payload_image :: "u64 \<Rightarrow> V2AvlSequence \<Rightarrow> byte list" where
  "payload_image g a = encode_physical_header PHYSICAL_PAYLOAD_MAGIC g @ seq_payload a"

definition nodes_image :: "u64 \<Rightarrow> V2AvlSequence \<Rightarrow> byte list" where
  "nodes_image g a = encode_physical_header PHYSICAL_NODE_MAGIC g @ node_table (seq_nodes a)"

definition files_hold :: "Directory \<Rightarrow> u64 \<Rightarrow> V2AvlSequence \<Rightarrow> bool" where
  "files_hold d g a \<longleftrightarrow> starts_with d (content_payload_filename g) (payload_image g a) \<and>
     starts_with d (content_nodes_filename g) (nodes_image g a)"

definition opened :: "PhysicalContentStore \<Rightarrow> bool" where
  "opened st \<longleftrightarrow> pcs_payload st = Some (content_payload_filename (pcs_generation st)) \<and>
     pcs_nodes st = Some (content_nodes_filename (pcs_generation st))"

definition committed :: "env \<Rightarrow> PhysicalContentStore \<Rightarrow> V2AvlSequence \<Rightarrow> bool" where
  "committed E st a \<longleftrightarrow> arena_wf E a \<and> pcs_generation st < width64 \<and>
     pcs_payload_end st = length (seq_payload a) \<and> pcs_node_count st = length (seq_nodes a) \<and>
     (if opened st then files_hold (pcs_dir st) (pcs_generation st) a
      else a = empty_seq \<and> pcs_payload st = None \<and> pcs_nodes st = None)"

lemma length_physical_header [simp]:
  "length (encode_physical_header PHYSICAL_PAYLOAD_MAGIC g) = 16"
  "length (encode_physical_header PHYSICAL_NODE_MAGIC g) = 16"
  by (simp_all add: encode_physical_header_def PHYSICAL_PAYLOAD_MAGIC_def PHYSICAL_NODE_MAGIC_def)

lemma decode_physical_header [simp]:
  "g < width64 \<Longrightarrow> decode_physical_header PHYSICAL_PAYLOAD_MAGIC (encode_physical_header PHYSICAL_PAYLOAD_MAGIC g) = Inr g"
  "g < width64 \<Longrightarrow> decode_physical_header PHYSICAL_NODE_MAGIC (encode_physical_header PHYSICAL_NODE_MAGIC g) = Inr g"
  by (simp_all add: decode_physical_header_def encode_physical_header_def PHYSICAL_PAYLOAD_MAGIC_def
      PHYSICAL_NODE_MAGIC_def width_powers)

lemmas physical_sizes [simp] =
  PHYSICAL_HEADER_SIZE_def PHYSICAL_NODE_RECORD_SIZE_def V2_NODE_RECORD_SIZE_def

lemma exact_read:
  assumes "starts_with d name bs" "off + len \<le> length bs"
  shows "read_exact_at d name off len = Some (take len (drop off bs)) \<or> read_exact_at d name off len = None"
proof (cases "len = 0 \<or> read_exact_at d name off len = None")
  case False
  then obtain xs where xs: "read_exact_at d name off len = Some xs"
    by blast
  obtain f where f: "dir_files d name = Some f" "slice_get (file_bytes f) off (off + len) = Some xs"
    using read_exact_at_sound [OF xs] False by auto
  obtain tail where "file_bytes f = bs @ tail"
    using assms(1) f(1) by (auto simp: starts_with_def extends_def)
  with f(2) assms(2) xs show ?thesis
    by (auto simp: slice_get_Some_iff)
qed (auto simp: read_exact_at.simps)

lemma starts_with_length: "starts_with d name bs \<Longrightarrow> length bs < width64"
  by (auto simp: starts_with_def dest!: extends_length)

section \<open>Reads of the committed store\<close>

definition content_faults :: "V2AvlError set" where
  "content_faults = {V2AvlError.Invalid ''history physical node read failed'',
     V2AvlError.Invalid ''history physical payload read failed'', pcs_absent,
     V2AvlError.Capacity ''history physical payload read allocation failed'',
     V2AvlError.Overflow ''history physical delta node offset exceeds u64'',
     V2AvlError.Overflow ''v2 payload end exceeds usize''}"

text \<open>The words of the two arenas for a node or a range they do not have.\<close>

definition content_missing :: "V2AvlError set" where
  "content_missing = {
     V2AvlError.Invalid ''history physical node identifier is outside the committed frontier'',
     V2AvlError.Invalid ''history physical payload range is inverted'',
     V2AvlError.Invalid ''history physical payload range is outside the committed frontier'',
     V2AvlError.Invalid ''history physical delta node is outside its range'',
     V2AvlError.Invalid ''history physical delta payload range is outside its range'',
     V2AvlError.Overflow ''v2 payload start exceeds usize''}"

definition memory_missing :: "V2AvlError set" where
  "memory_missing = {V2AvlError.Overflow ''v2 payload start exceeds usize'',
     V2AvlError.Overflow ''v2 payload end exceeds usize'',
     V2AvlError.Invalid ''v2 payload range is outside the arena'',
     V2AvlError.Overflow ''v2 node identifier exceeds usize'',
     V2AvlError.Invalid ''v2 root references a missing arena node''}"

definition same_error :: "V2AvlError \<Rightarrow> V2AvlError \<Rightarrow> bool" where
  "same_error e e' \<longleftrightarrow> e = e' \<or> e \<in> content_missing \<and> e' \<in> memory_missing"

abbreviation content_agree :: "V2AvlError + 'r \<Rightarrow> V2AvlError + 'r \<Rightarrow> bool" where
  "content_agree \<equiv> agree content_faults same_error"

lemma committedD:
  assumes "committed E st a"
  shows "arena_wf E a" "nodes_ok E (seq_payload a) (seq_nodes a)" "covered (seq_nodes a) = length (seq_payload a)"
    "pcs_payload_end st = length (seq_payload a)" "pcs_node_count st = length (seq_nodes a)"
    "pcs_generation st < width64"
  using assms by (auto simp: committed_def arena_wf_def)

lemma committed_opened:
  assumes "committed E st a" "\<not> opened st"
  shows "a = empty_seq" "pcs_payload st = None" "pcs_nodes st = None"
  using assms by (auto simp: committed_def)

lemma load_record_committed:
  assumes sha: "sha_ok E" and c: "committed E st a" and i: "i < length (seq_nodes a)"
  shows "pcs_load_record st i = Inr (node_record (seq_nodes a ! i)) \<or>
    pcs_load_record st i = Inl (V2AvlError.Invalid ''history physical node read failed'')"
proof -
  have op: "opened st"
    using c i by (auto simp: committed_def empty_seq_def split: if_splits)
  then have sw: "starts_with (pcs_dir st) (content_nodes_filename (pcs_generation st)) (nodes_image (pcs_generation st) a)"
    using c by (simp add: committed_def files_hold_def)
  have sz: "sized (seq_nodes a)"
    using committedD(2) [OF c] sha by (rule nodes_ok_sized [rotated])
  have le: "i * 72 + 72 \<le> length (node_table (seq_nodes a))"
    using i sz by (simp add: length_node_table)
  then have w: "16 + (i * 72 + 72) < width64"
    using starts_with_length [OF sw] by (simp add: nodes_image_def)
  have "take 72 (drop (16 + i * 72) (nodes_image (pcs_generation st) a)) = encode_v2_node (node_record (seq_nodes a ! i))"
    using node_table_slice [OF sz i] by (auto simp: nodes_image_def slice_get_Some_iff)
  moreover have "decode_v2_node (encode_v2_node (node_record (seq_nodes a ! i))) = Inr (node_record (seq_nodes a ! i))"
    using sz i by (auto simp: sized_def intro: decode_encode_v2_node)
  ultimately show ?thesis
    using exact_read [OF sw, of "16 + i * 72" 72] op le w i committedD(5) [OF c]
    by (auto simp: pcs_load_record_def opened_def nodes_file_def nodes_image_def checked_mul_def checked_add_def)
qed

lemma load_record_like:
  assumes "sha_ok E" "committed E st a"
  shows "agree content_faults (\<lambda>e e'. e \<in> content_missing) (pcs_load_record st i)
    (if i < length (seq_nodes a) then Inr (node_record (seq_nodes a ! i)) else Inl e')"
  using load_record_committed [OF assms, of i] committedD(5) [OF assms(2)]
  by (cases "i < length (seq_nodes a)")
    (auto simp: content_faults_def content_missing_def pcs_load_record_def)

lemma memory_load_cases:
  "memory_load_node a i = (if i < width64 \<and> i < length (seq_nodes a) then Inr (seq_nodes a ! i)
     else Inl (if i < width64 then V2AvlError.Invalid ''v2 root references a missing arena node''
       else V2AvlError.Overflow ''v2 node identifier exceeds usize''))"
  by (auto simp: memory_load_node_def try_from_def get_at_def)

text \<open>A node is rebuilt from its record and the records of its children.\<close>

lemma child_record:
  assumes "nodes_ok E pl ns" "i < length ns" "ns ! i = ArenaNode.Branch l r rec"
  shows "root_node_id l < i" "root_node_id r < i"
    "V2RootRecord_from_node (root_node_id l) (node_record (ns ! root_node_id l)) = Inr l"
    "V2RootRecord_from_node (root_node_id r) (node_record (ns ! root_node_id r)) = Inr r"
  using nodes_ok_nth [OF assms(1,2)] assms(2,3) by (auto simp: child_ok_def get_at_Some_iff)

lemma leaf_record:
  assumes "nodes_ok E pl ns" "i < length ns" "ns ! i = ArenaNode.Leaf off len rec"
  shows "off = covered (take i ns)" "off + len < width64" "off + len \<le> length pl"
  using leaf_facts [OF assms(1,2)] assms(3) by (metis ArenaNode.inject(1) is_leaf.simps(1))+

lemma build_node_committed:
  assumes sha: "sha_ok E" and c: "committed E st a" and i: "i < length (seq_nodes a)"
  shows "content_agree (build_arena_node st i (node_record (seq_nodes a ! i))) (Inr (seq_nodes a ! i))"
proof -
  note ok = committedD(2) [OF c]
  note fields = node_fields_ok [OF sha ok i]
  show ?thesis
  proof (cases "seq_nodes a ! i")
    case (Leaf off len rec)
    note lf = leaf_record [OF ok i Leaf]
    show ?thesis
      using fields lf committedD(4) [OF c] by (simp add: Leaf build_arena_node_def checked_add_def)
  next
    case (Branch l r rec)
    note ch = child_record [OF ok i Branch]
    have ll: "root_node_id l < length (seq_nodes a)" "root_node_id r < length (seq_nodes a)"
      using ch i by auto
    show ?thesis
      using fields ch load_record_committed [OF sha c ll(1)] load_record_committed [OF sha c ll(2)]
      by (auto simp: Branch build_arena_node_def content_faults_def)
  qed
qed

lemma load_node_committed:
  assumes sha: "sha_ok E" and c: "committed E st a" and i: "i < length (seq_nodes a)"
  shows "content_agree (pcs_load_node st i) (Inr (seq_nodes a ! i))"
  using load_record_committed [OF assms] build_node_committed [OF assms]
  by (auto simp: pcs_load_node_def content_faults_def)

lemma load_node_like:
  assumes "sha_ok E" "committed E st a" "length (seq_nodes a) < width64"
  shows "content_agree (pcs_load_node st i) (memory_load_node a i)"
proof (cases "i < length (seq_nodes a)")
  case True
  then show ?thesis
    using load_node_committed [OF assms(1,2) True] assms(3) by (simp add: memory_load_cases)
next
  case False
  then have "pcs_load_node st i =
      Inl (V2AvlError.Invalid ''history physical node identifier is outside the committed frontier'')"
    using committedD(5) [OF assms(2)] by (simp add: pcs_load_node_def pcs_load_record_def)
  with False show ?thesis
    by (simp add: memory_load_cases same_error_def content_missing_def memory_missing_def)
qed

lemma payload_slice_cases:
  "payload_slice a x y = (if x \<le> y \<and> y \<le> length (seq_payload a) \<and> y < width64
     then Inr (take (y - x) (drop x (seq_payload a)))
     else Inl (if width64 \<le> x then V2AvlError.Overflow ''v2 payload start exceeds usize''
       else if width64 \<le> y then V2AvlError.Overflow ''v2 payload end exceeds usize''
       else V2AvlError.Invalid ''v2 payload range is outside the arena''))"
  by (auto simp: payload_slice_def try_from_def slice_get_def)

lemma read_payload_committed:
  assumes c: "committed E st a" and xy: "x \<le> y" "y \<le> length (seq_payload a)"
  shows "content_agree (read_payload_range E st x y) (Inr (take (y - x) (drop x (seq_payload a))))"
proof (cases "opened st")
  case False
  then show ?thesis
    using committed_opened [OF c] committedD(4) [OF c] xy
    by (auto simp: read_payload_range_def checked_sub_def try_from_def checked_add_def payload_file_def
        empty_seq_def content_faults_def width64_def)
next
  case True
  then have sw: "starts_with (pcs_dir st) (content_payload_filename (pcs_generation st)) (payload_image (pcs_generation st) a)"
    using c by (simp add: committed_def files_hold_def)
  have w: "16 + length (seq_payload a) < width64"
    using starts_with_length [OF sw] by (simp add: payload_image_def)
  have "take (y - x) (drop (16 + x) (payload_image (pcs_generation st) a)) = take (y - x) (drop x (seq_payload a))"
    by (simp add: payload_image_def)
  then show ?thesis
    using exact_read [OF sw, of "16 + x" "y - x"] True w xy committedD(4) [OF c]
    by (auto simp: read_payload_range_def checked_sub_def try_from_def checked_add_def payload_file_def
        opened_def content_faults_def payload_image_def)
qed

lemma payload_u64: "arena_wf E a \<Longrightarrow> length (seq_payload a) < width64"
  using covered_u64 [of E "seq_payload a" "seq_nodes a"] by (auto simp: arena_wf_def)

lemma read_payload_like:
  assumes c: "committed E st a"
  shows "content_agree (read_payload_range E st x y) (payload_slice a x y)"
proof (cases "x \<le> y \<and> y \<le> length (seq_payload a)")
  case True
  then show ?thesis
    using read_payload_committed [OF c] payload_u64 [OF committedD(1) [OF c]] by (simp add: payload_slice_cases)
next
  case False
  then have "\<exists>e\<in>content_missing. read_payload_range E st x y = Inl e"
    using committedD(4) [OF c] by (auto simp: read_payload_range_def checked_sub_def content_missing_def)
  with False show ?thesis
    by (auto simp: payload_slice_cases same_error_def memory_missing_def)
qed

text \<open>The committed store reads like the arena it holds.\<close>

definition holds_arena :: "env \<Rightarrow> PhysicalContentStore \<Rightarrow> V2AvlSequence \<Rightarrow> bool" where
  "holds_arena E st a \<longleftrightarrow> sha_ok E \<and> committed E st a \<and> length (seq_nodes a) < width64"

interpretation content: arena_readings E "pcs_arena E" memory_arena "holds_arena E" "\<lambda>_. content_faults" same_error for E
proof unfold_locales
  show "same_error e e" for e
    by (simp add: same_error_def)
  show "content_agree (arena_load_node (pcs_arena E) st i) (arena_load_node memory_arena a i)"
    if "holds_arena E st a" for st a i
    using that by (auto simp: pcs_arena_def holds_arena_def simp del: agree_simps intro: load_node_like)
  show "content_agree (arena_read_payload (pcs_arena E) st x y) (arena_read_payload memory_arena a x y)"
    if "holds_arena E st a" for st a x y
    using that by (simp add: pcs_arena_def holds_arena_def read_payload_like del: agree_simps)
qed

end
