(* ===== verification/Physical_View.thy ===== *)
theory Physical_View
  imports Physical_Reads
begin

text \<open>
  The preparation view \<open>DeltaView\<close> simulates the in-memory arena: base arena plus fresh payload plus
  fresh records.  Hence \<open>prepare_physical_delta\<close> computes the delta between the arena before and after
  the in-memory splice, and nothing else can go wrong but a fault of the medium.
\<close>

section \<open>The relation\<close>

text \<open>\<open>shape E a v b\<close>: the view \<open>v\<close> over a store that holds \<open>a\<close> stands for the arena \<open>b\<close>.\<close>

definition shape :: "env \<Rightarrow> V2AvlSequence \<Rightarrow> DeltaView \<Rightarrow> V2AvlSequence \<Rightarrow> bool" where
  "shape E a v b \<longleftrightarrow> sha_ok E \<and> committed E (view_base v) a \<and>
     base_payload_end v = length (seq_payload a) \<and> base_node_count v = length (seq_nodes a) \<and>
     seq_payload b = seq_payload a @ payload_delta v \<and> length (seq_payload b) < width64 \<and>
     (\<exists>ms. seq_nodes b = seq_nodes a @ ms \<and> node_delta v = node_table ms \<and> sized ms) \<and>
     length (seq_nodes b) < width64"

definition views :: "env \<Rightarrow> V2AvlSequence \<Rightarrow> DeltaView \<Rightarrow> V2AvlSequence \<Rightarrow> bool" where
  "views E a v b \<longleftrightarrow> shape E a v b \<and> arena_wf E b"

lemma shape_lengths:
  assumes "shape E a v b"
  shows "view_payload_len v = length (seq_payload b)" "view_node_count v = length (seq_nodes b)"
    "checked_add width64 (base_payload_end v) (length (payload_delta v)) = Some (length (seq_payload b))"
    "checked_add width64 (base_node_count v) (delta_node_count v) = Some (length (seq_nodes b))"
proof -
  show p: "checked_add width64 (base_payload_end v) (length (payload_delta v)) = Some (length (seq_payload b))"
    and n: "checked_add width64 (base_node_count v) (delta_node_count v) = Some (length (seq_nodes b))"
    using assms by (auto simp: shape_def checked_add_Some_iff delta_node_count_def length_node_table)
  show "view_payload_len v = length (seq_payload b)" "view_node_count v = length (seq_nodes b)"
    using p n by (simp_all add: view_payload_len_def view_node_count_def)
qed

lemma view_arena_simps [simp]:
  "arena_payload_len (view_arena E) = view_payload_len" "arena_node_count (view_arena E) = view_node_count"
  "arena_load_node (view_arena E) = view_load_node" "arena_read_payload (view_arena E) = view_read_payload E"
  "arena_append_payload (view_arena E) = view_append_payload" "arena_push_node (view_arena E) = view_push_node"
  by (simp_all add: view_arena_def)

section \<open>Reads of the view\<close>

lemma delta_record:
  assumes v: "views E a v b" and i: "length (seq_nodes a) \<le> i" "i < length (seq_nodes b)"
  shows "load_delta_record v i = Inr (node_record (seq_nodes b ! i)) \<or> (\<exists>e\<in>content_faults. load_delta_record v i = Inl e)"
proof -
  obtain ms where ms: "seq_nodes b = seq_nodes a @ ms" "node_delta v = node_table ms" "sized ms"
    "base_node_count v = length (seq_nodes a)"
    using v by (auto simp: views_def shape_def)
  let ?k = "i - length (seq_nodes a)"
  have k: "?k < length ms" "seq_nodes b ! i = ms ! ?k"
    using i ms by (auto simp: nth_append)
  show ?thesis
  proof (cases "?k * 72 + 72 < width64")
    case True
    then show ?thesis
      using node_table_slice [OF ms(3) k(1)] node_table_decode [OF ms(3) k(1)] i ms k(2)
      by (auto simp: load_delta_record_def checked_sub_def checked_mul_def checked_add_def)
  next
    case False
    then show ?thesis
      using i ms by (auto simp: load_delta_record_def checked_sub_def checked_mul_def checked_add_def content_faults_def)
  qed
qed

lemma child_record_like:
  assumes v: "views E a v b" and i: "i < length (seq_nodes b)"
  shows "delta_child_record v i = Inr (node_record (seq_nodes b ! i)) \<or>
    (\<exists>e\<in>content_faults. delta_child_record v i = Inl e)"
proof (cases "i < length (seq_nodes a)")
  case True
  have s: "sha_ok E" "committed E (view_base v) a" "base_node_count v = length (seq_nodes a)"
    "seq_nodes b ! i = seq_nodes a ! i"
    using v True by (auto simp: views_def shape_def nth_append)
  show ?thesis
    using load_record_committed [OF s(1,2) True] True s(3,4)
    by (auto simp: delta_child_record_def content_faults_def)
next
  case False
  then show ?thesis
    using delta_record [OF v _ i] v by (auto simp: delta_child_record_def views_def shape_def)
qed

lemma fresh_leaf_offset:
  assumes v: "views E a v b" and i: "length (seq_nodes a) \<le> i" "i < length (seq_nodes b)"
    and leaf: "seq_nodes b ! i = ArenaNode.Leaf off len rec"
  shows "length (seq_payload a) \<le> off"
proof -
  have ok: "nodes_ok E (seq_payload b) (seq_nodes b)"
    using v by (simp add: views_def arena_wf_def)
  have "covered (seq_nodes a) = length (seq_payload a)" "take (length (seq_nodes a)) (seq_nodes b) = seq_nodes a"
    using v committedD(3) [of E "view_base v" a] by (auto simp: views_def shape_def)
  then show ?thesis
    using covered_mono [OF i(1), of "seq_nodes b"] leaf_record(1) [OF ok i(2) leaf] by simp
qed

lemma build_node_view:
  assumes v: "views E a v b" and i: "length (seq_nodes a) \<le> i" "i < length (seq_nodes b)"
  shows "content_agree (build_delta_arena_node v i (node_record (seq_nodes b ! i))) (Inr (seq_nodes b ! i))"
proof -
  have ok: "nodes_ok E (seq_payload b) (seq_nodes b)" and sha: "sha_ok E" and sh: "shape E a v b"
    using v by (auto simp: views_def arena_wf_def shape_def)
  note fields = node_fields_ok [OF sha ok i(2)]
  show ?thesis
  proof (cases "seq_nodes b ! i")
    case (Leaf off len rec)
    show ?thesis
      using fields leaf_record [OF ok i(2) Leaf] fresh_leaf_offset [OF v i Leaf] shape_lengths(3) [OF sh] sh
      by (auto simp: Leaf build_delta_arena_node_def checked_add_def shape_def)
  next
    case (Branch l r rec)
    note ch = child_record [OF ok i(2) Branch]
    have "root_node_id l < length (seq_nodes b)" "root_node_id r < length (seq_nodes b)"
      using ch i by auto
    from this [THEN child_record_like [OF v]] fields ch show ?thesis
      by (auto simp: Branch build_delta_arena_node_def)
  qed
qed

lemma view_load_like:
  assumes v: "views E a v b"
  shows "content_agree (view_load_node v i) (memory_load_node b i)"
proof -
  have s: "sha_ok E" "committed E (view_base v) a" "base_node_count v = length (seq_nodes a)"
    "length (seq_nodes b) < width64" "length (seq_nodes a) \<le> length (seq_nodes b)"
    using v by (auto simp: views_def shape_def)
  consider (Old) "i < length (seq_nodes a)" | (Fresh) "length (seq_nodes a) \<le> i" "i < length (seq_nodes b)"
    | (None) "length (seq_nodes b) \<le> i"
    by linarith
  then show ?thesis
  proof cases
    case Old
    then have "seq_nodes b ! i = seq_nodes a ! i"
      using v by (auto simp: views_def shape_def nth_append)
    then show ?thesis
      using load_node_committed [OF s(1,2) Old] Old s
      by (simp add: view_load_node_def memory_load_cases pcs_load_node_def [symmetric])
  next
    case Fresh
    then show ?thesis
      using delta_record [OF v Fresh] build_node_view [OF v Fresh] s
      by (auto simp: view_load_node_def load_delta_record_struct_def memory_load_cases)
  next
    case None
    obtain ms where ms: "seq_nodes b = seq_nodes a @ ms" "node_delta v = node_table ms" "sized ms"
      using v by (auto simp: views_def shape_def)
    have "length ms * 72 < (i - length (seq_nodes a)) * 72 + 72"
      using None ms(1) by simp
    then have "\<exists>e\<in>content_missing \<union> content_faults. load_delta_record v i = Inl e"
      using ms length_node_table [OF ms(3)] s(3) None
      by (auto simp: load_delta_record_def checked_sub_def checked_mul_def checked_add_def slice_get_def
          content_missing_def content_faults_def)
    then show ?thesis
      using None s by (auto simp: view_load_node_def load_delta_record_struct_def memory_load_cases
          same_error_def memory_missing_def)
  qed
qed

lemma view_read_delta_like:
  assumes v: "views E a v b" and x: "length (seq_payload a) \<le> x" and y: "length (seq_payload a) < y"
  shows "content_agree (view_read_delta v x y) (payload_slice b x y)"
proof -
  have s: "base_payload_end v = length (seq_payload a)" "seq_payload b = seq_payload a @ payload_delta v"
    "length (seq_payload b) < width64"
    using v by (auto simp: views_def shape_def)
  show ?thesis
  proof (cases "x \<le> y \<and> y \<le> length (seq_payload b)")
    case True
    then show ?thesis
      using s x by (auto simp: view_read_delta_def payload_slice_cases try_from_def slice_get_def)
  next
    case False
    then have "\<exists>e\<in>content_missing \<union> content_faults. view_read_delta v x y = Inl e"
      using s x y by (auto simp: view_read_delta_def try_from_def slice_get_def content_missing_def content_faults_def)
    with False show ?thesis
      by (auto simp: payload_slice_cases same_error_def memory_missing_def)
  qed
qed

lemma view_read_like:
  assumes v: "views E a v b"
  shows "content_agree (view_read_payload E v x y) (payload_slice b x y)"
proof -
  let ?m = "length (seq_payload a)"
  have s: "committed E (view_base v) a" "base_payload_end v = ?m" "seq_payload b = seq_payload a @ payload_delta v"
    "length (seq_payload b) < width64"
    using v by (auto simp: views_def shape_def)
  consider (Old) "y \<le> ?m" | (Fresh) "?m < y" "?m \<le> x" | (Across) "?m < y" "x < ?m"
    by linarith
  then show ?thesis
  proof cases
    case Old
    then have "payload_slice b x y = payload_slice a x y"
      using s by (auto simp: payload_slice_cases)
    then show ?thesis
      using Old s read_payload_like [OF s(1)] by (simp add: view_read_payload_def del: agree_simps)
  next
    case Fresh
    then show ?thesis
      using view_read_delta_like [OF v] s by (simp add: view_read_payload_def del: agree_simps)
  next
    case Across
    have first: "content_agree (read_payload_range E (view_base v) x ?m) (Inr (drop x (seq_payload a)))"
      using read_payload_committed [OF s(1), of x ?m] Across by simp
    note second = view_read_delta_like [OF v, of ?m y]
    show ?thesis
    proof (cases "y \<le> length (seq_payload b)")
      case True
      have "take (y - x) (drop x (seq_payload b)) = drop x (seq_payload a) @ take (y - ?m) (payload_delta v)"
        using Across s by simp
      moreover have "take (y - ?m) (drop ?m (seq_payload b)) = take (y - ?m) (payload_delta v)"
        using s by simp
      ultimately show ?thesis
        using Across s first second True
        by (cases "read_payload_range E (view_base v) x ?m"; cases "view_read_delta v ?m y")
          (auto simp: view_read_payload_def payload_slice_cases)
    next
      case False
      then have "\<exists>e'. payload_slice b x y = Inl e' \<and> e' \<in> memory_missing" "\<exists>e'. payload_slice b ?m y = Inl e'"
        using Across s by (auto simp: payload_slice_cases memory_missing_def)
      moreover have "\<exists>e\<in>content_missing \<union> content_faults. view_read_delta v ?m y = Inl e"
        using False s Across by (auto simp: view_read_delta_def try_from_def slice_get_def content_missing_def content_faults_def)
      ultimately show ?thesis
        using Across s first
        by (cases "read_payload_range E (view_base v) x ?m") (auto simp: view_read_payload_def same_error_def)
    qed
  qed
qed

interpretation view_reads: arena_readings E "view_arena E" memory_arena "views E a" "\<lambda>_. content_faults" same_error for E a
proof unfold_locales
  show "same_error e e" for e
    by (simp add: same_error_def)
qed (simp_all add: view_load_like view_read_like del: agree_simps)

section \<open>Allocation\<close>

lemma shape_push:
  assumes sh: "shape E a v b" and n: "node_canonical (node_record n)" and w: "Suc (length (seq_nodes b)) < width64"
  shows "shape E a (v\<lparr>node_delta := node_delta v @ encode_v2_node (node_record n)\<rparr>) (b\<lparr>seq_nodes := seq_nodes b @ [n]\<rparr>)"
proof -
  obtain ms where ms: "seq_nodes b = seq_nodes a @ ms" "node_delta v = node_table ms" "sized ms"
    using sh by (auto simp: shape_def)
  have "node_delta v @ encode_v2_node (node_record n) = node_table (ms @ [n])" "sized (ms @ [n])"
    using ms n by (simp_all add: sized_def)
  then show ?thesis
    using sh ms(1) w by (auto simp: shape_def)
qed

lemma allocate_node_view:
  assumes sh: "shape E a v b" and n: "node_canonical (node_record n)"
    and run: "allocate_node_on memory_arena n (b, k) = Some (r, (b', k'))"
  shows "\<exists>v'. allocate_node_on (view_arena E) n (v, k) = Some (r, (v', k')) \<and> (is_ok r \<longrightarrow> shape E a v' b')"
proof -
  let ?i = "length (seq_nodes b)"
  have w: "?i < width64"
    using sh by (simp add: shape_def)
  note len = shape_lengths [OF sh]
  show ?thesis
  proof (cases "V2RootRecord_from_node ?i (node_record n)")
    case (Inl e)
    then show ?thesis
      using run w len by (auto simp: allocate_node_on_def viewP_def bindP_def try_from_def)
  next
    case (Inr root)
    then have "Suc ?i < width64"
      using w by (auto simp: from_node_ok_iff V2_NONE_NODE_def)
    then show ?thesis
      using Inr run w len shape_push [OF sh n]
      by (auto simp: allocate_node_on_def viewP_def mutP_def bindP_def try_from_def memory_push_node_def
          view_push_node_def)
  qed
qed

lemma leaf_view:
  assumes v: "views E a v b" and run: "allocate_leaf_on E memory_arena bytes (b, k) = Some (r, (b', k'))"
  shows "\<exists>v'. allocate_leaf_on E (view_arena E) bytes (v, k) = Some (r, (v', k')) \<and> (is_ok r \<longrightarrow> views E a v' b')"
proof -
  let ?p = "length (seq_payload b)"
  have sh: "shape E a v b" and wf: "arena_wf E b" and w: "?p < width64" and sha: "sha_ok E"
    using v by (auto simp: views_def shape_def)
  note len = shape_lengths [OF sh]
  have wf': "arena_wf E b'" if "is_ok r"
    using wf_frame.R_leaf [OF run] that wf by simp
  show ?thesis
  proof (cases "V2NodeRecord_leaf E ?p bytes")
    case (Inl e)
    then show ?thesis
      using run w len by (auto simp: allocate_leaf_on_def viewP_def bindP_def try_from_def)
  next
    case (Inr rec)
    let ?v1 = "v\<lparr>payload_delta := payload_delta v @ bytes\<rparr>"
    let ?b1 = "b\<lparr>seq_payload := seq_payload b @ bytes\<rparr>"
    let ?n = "ArenaNode.Leaf ?p (node_len rec) rec"
    have "?p + length bytes < width64"
      using Inr by (simp add: leaf_ok_iff)
    then have sh1: "shape E a ?v1 ?b1"
      using sh by (auto simp: shape_def)
    have M: "allocate_leaf_on E memory_arena bytes (b, k) = allocate_node_on memory_arena ?n (?b1, k)"
      using Inr w by (simp add: allocate_leaf_on_def viewP_def mutP_def bindP_def try_from_def memory_append_payload_def)
    have V: "allocate_leaf_on E (view_arena E) bytes (v, k) = allocate_node_on (view_arena E) ?n (?v1, k)"
      using Inr w len by (simp add: allocate_leaf_on_def viewP_def mutP_def bindP_def try_from_def view_append_payload_def)
    have "node_canonical (node_record ?n)"
      using leaf_canonical [OF sha Inr] by simp
    from allocate_node_view [OF sh1 this run [unfolded M]] wf' show ?thesis
      unfolding V by (auto simp: views_def)
  qed
qed

lemma branch_view:
  assumes v: "views E a v b" and run: "allocate_branch_on E memory_arena l r (b, k) = Some (res, (b', k'))"
    and like: "\<And>root. agree RF ER (node_for_root_on (view_arena E) v root) (node_for_root_on memory_arena b root)" and refl: "\<And>e. ER e e"
  shows "\<exists>z. allocate_branch_on E (view_arena E) l r (v, k) = Some z \<and>
    outcome RF ER (rel_prod (views E a) (=)) z (res, (b', k'))"
proof -
  have sh: "shape E a v b" and wf: "arena_wf E b" and sha: "sha_ok E"
    using v by (auto simp: views_def shape_def)
  have wf': "arena_wf E b'" if "is_ok res"
    using wf_frame.R_branch [OF run] that wf by simp
  let ?k2 = "saturating_add width64 k 2"
  show ?thesis
  proof (cases "node_for_root_on (view_arena E) v l")
    case (Inl e)
    then show ?thesis
      using run like [of l]
      by (cases "node_for_root_on memory_arena b l")
        (auto simp: allocate_branch_on_def bump_def viewP_def bindP_def)
  next
    case l: (Inr nl)
    then have ml: "node_for_root_on memory_arena b l = Inr nl"
      using like [of l] by simp
    show ?thesis
    proof (cases "node_for_root_on (view_arena E) v r")
      case (Inl e)
      then show ?thesis
        using run like [of r] l ml
        by (cases "node_for_root_on memory_arena b r")
          (auto simp: allocate_branch_on_def bump_def viewP_def bindP_def)
    next
      case r: (Inr nr)
      then have mr: "node_for_root_on memory_arena b r = Inr nr"
        using like [of r] by simp
      show ?thesis
      proof (cases "V2NodeRecord_branch E l r")
        case (Inl e)
        then show ?thesis
          using run l ml r mr by (auto simp: allocate_branch_on_def bump_def viewP_def bindP_def refl)
      next
        case (Inr rec)
        let ?n = "ArenaNode.Branch l r rec"
        have M: "allocate_node_on memory_arena ?n (b, ?k2) = Some (res, (b', k'))"
          using run ml mr Inr by (simp add: allocate_branch_on_def bump_def viewP_def bindP_def)
        have V: "allocate_branch_on E (view_arena E) l r (v, k) = allocate_node_on (view_arena E) ?n (v, ?k2)"
          using l r Inr by (simp add: allocate_branch_on_def bump_def viewP_def bindP_def)
        have "node_canonical (node_record ?n)"
          using branch_canonical [OF sha Inr] ml mr by (auto simp: node_for_root_ok_iff none_node_width)
        from allocate_node_view [OF sh this M] wf' show ?thesis
          unfolding V by (cases res) (auto simp: views_def refl)
      qed
    qed
  qed
qed

interpretation view_sim: arena_simulation E "view_arena E" memory_arena "views E a" "\<lambda>_. content_faults" same_error for E a
proof unfold_locales
  show "like (\<lambda>_. content_faults) same_error (rel_prod (views E a) (=)) (allocate_leaf_on E (view_arena E) bytes)
      (allocate_leaf_on E memory_arena bytes)" for bytes
  proof (rule likeI_const)
    fix s t y
    assume st: "rel_prod (views E a) (=) s t" and run: "allocate_leaf_on E memory_arena bytes t = Some y"
    obtain v b k where eqs: "s = (v, k)" "t = (b, k)" "views E a v b"
      using st by (cases s; cases t) auto
    obtain r b' k' where y: "y = (r, (b', k'))"
      by (cases y) auto
    show "\<exists>z. allocate_leaf_on E (view_arena E) bytes s = Some z \<and>
        outcome content_faults same_error (rel_prod (views E a) (=)) z y"
      using leaf_view [OF eqs(3) run [unfolded eqs y]] unfolding eqs y
      by (cases r) (auto simp: same_error_def)
  qed
  show "like (\<lambda>_. content_faults) same_error (rel_prod (views E a) (=)) (allocate_branch_on E (view_arena E) l r)
      (allocate_branch_on E memory_arena l r)" for l r
  proof (rule likeI_const)
    fix s t y
    assume st: "rel_prod (views E a) (=) s t" and run: "allocate_branch_on E memory_arena l r t = Some y"
    obtain v b k where eqs: "s = (v, k)" "t = (b, k)" "views E a v b"
      using st by (cases s; cases t) auto
    obtain res b' k' where y: "y = (res, (b', k'))"
      by (cases y) auto
    show "\<exists>z. allocate_branch_on E (view_arena E) l r s = Some z \<and>
        outcome content_faults same_error (rel_prod (views E a) (=)) z y"
      using branch_view [OF eqs(3) run [unfolded eqs y] view_reads.node_for_root_like [OF eqs(3)]]
      unfolding eqs y by (simp add: same_error_def)
  qed
qed (auto simp: views_def shape_lengths)

end
