(* ===== verification/Physical_Delta.thy ===== *)
theory Physical_Delta
  imports Physical_View
begin

text \<open>
  Deltas.  \<open>delta_between E g a b root d\<close>: the delta \<open>d\<close> of generation \<open>g\<close> takes the arena \<open>a\<close> to \<open>b\<close>,
  with result root \<open>root\<close>.  Preparation produces such a delta from the in-memory splice, and its own
  validation never rejects it.  Replay accepts the delta it finds behind the frontier exactly when
  the bytes there are the ones that were prepared.
\<close>

definition delta_between :: "env \<Rightarrow> u64 \<Rightarrow> V2AvlSequence \<Rightarrow> V2AvlSequence \<Rightarrow> V2RootRecord \<Rightarrow> PhysicalDelta \<Rightarrow> bool" where
  "delta_between E g a b root d \<longleftrightarrow>
     old_payload_end d = length (seq_payload a) \<and> old_node_count d = length (seq_nodes a) \<and>
     new_payload_end d = length (seq_payload b) \<and> new_node_count d = length (seq_nodes b) \<and>
     seq_payload b = seq_payload a @ delta_payload d \<and>
     (\<exists>ms. seq_nodes b = seq_nodes a @ ms \<and> delta_nodes d = node_table ms) \<and> delta_root d = root \<and>
     delta_digest d = physical_delta_digest E g (length (seq_payload a)) (length (seq_payload b))
       (length (seq_nodes a)) (length (seq_nodes b)) (delta_payload d) (delta_nodes d) (encode_v2_root root)"

section \<open>Local validation\<close>

lemma validate_node_fresh:
  assumes sha: "sha_ok E" and wfa: "arena_wf E a" and wfb: "arena_wf E b"
    and pl: "seq_payload b = seq_payload a @ payload" and ns: "seq_nodes b = seq_nodes a @ ms" and k: "k < length ms"
  shows "validate_fresh_node E (length (seq_payload a)) (length (seq_payload b)) (length (seq_nodes a))
    (length (seq_nodes b)) payload (node_table ms) k = Inr ()"
proof -
  let ?i = "length (seq_nodes a) + k"
  have ok: "nodes_ok E (seq_payload b) (seq_nodes b)" and i: "?i < length (seq_nodes b)"
    and at: "seq_nodes b ! ?i = ms ! k"
    using wfb ns k by (auto simp: arena_wf_def)
  have sz: "sized ms"
    using nodes_ok_sized [OF sha ok] ns by simp
  note rec = node_table_record [OF sz k]
  have fields: "v2_node_fields (node_record (ms ! k)) = Inr (node_fields (ms ! k))"
    using node_fields_ok [OF sha ok i] at by simp
  show ?thesis
  proof (cases "ms ! k")
    case (Leaf off len r)
    have cov: "covered (seq_nodes a) = length (seq_payload a)" "take (length (seq_nodes a)) (seq_nodes b) = seq_nodes a"
      using wfa ns by (auto simp: arena_wf_def)
    obtain bs where bs: "off = covered (take ?i (seq_nodes b))" "slice_get (seq_payload b) off (off + len) = Some bs"
      "V2NodeRecord_leaf E off bs = Inr r" "off + len < width64" "off + len \<le> length (seq_payload b)"
      using leaf_facts [OF ok i] at Leaf by (metis ArenaNode.inject(1) is_leaf.simps(1))
    have ge: "length (seq_payload a) \<le> off"
      using covered_mono [of "length (seq_nodes a)" ?i "seq_nodes b"] cov bs(1) by simp
    have "slice_get payload (off - length (seq_payload a)) (off - length (seq_payload a) + len) = Some bs"
      using bs(2,5) ge pl by (auto simp: slice_get_Some_iff)
    then show ?thesis
      using rec fields bs ge by (simp add: validate_fresh_node_def Leaf checked_add_def)
  next
    case (Branch l r rc)
    have "root_node_id l < ?i" "root_node_id r < ?i"
      using child_record [OF ok i] at Branch by auto
    then show ?thesis
      using rec fields i by (simp add: validate_fresh_node_def Branch)
  qed
qed

lemma validate_delta_fresh:
  assumes sha: "sha_ok E" and c: "committed E st a" and wfb: "arena_wf E b"
    and pl: "seq_payload b = seq_payload a @ payload" and ns: "seq_nodes b = seq_nodes a @ ms"
    and root: "child_ok (seq_nodes b) root"
  shows "validate_fresh_delta E st (length (seq_payload a)) (length (seq_payload b)) (length (seq_nodes a))
      (length (seq_nodes b)) payload (node_table ms) root = Inr () \<or>
    validate_fresh_delta E st (length (seq_payload a)) (length (seq_payload b)) (length (seq_nodes a))
      (length (seq_nodes b)) payload (node_table ms) root = Inl (V2AvlError.Invalid ''history physical node read failed'') \<and>
    root_node_id root < length (seq_nodes a) \<and> \<not> is_ok (pcs_load_record st (root_node_id root))"
proof -
  have sz: "sized ms"
    using nodes_ok_sized [OF sha, of "seq_payload b" "seq_nodes b"] wfb ns by (simp add: arena_wf_def)
  have nodes: "traverse (validate_fresh_node E (length (seq_payload a)) (length (seq_payload b)) (length (seq_nodes a))
      (length (seq_nodes b)) payload (node_table ms)) [0..<length ms] = Inr (map (\<lambda>_. ()) [0..<length ms])"
    by (rule traverse_map_Inr) (simp add: validate_node_fresh [OF sha committedD(1) [OF c] wfb pl ns])
  obtain n where n: "root_node_id root < length (seq_nodes b)" "n = seq_nodes b ! root_node_id root"
    "V2RootRecord_from_node (root_node_id root) (node_record n) = Inr root"
    using root by (auto simp: child_ok_def get_at_Some_iff)
  show ?thesis
  proof (cases "root_node_id root < length (seq_nodes a)")
    case True
    then have "n = seq_nodes a ! root_node_id root"
      using n(2) ns by (simp add: nth_append)
    then show ?thesis
      using load_record_committed [OF sha c True] True n nodes sz ns pl
      by (auto simp: validate_fresh_delta_def length_node_table)
  next
    case False
    then have "root_node_id root - length (seq_nodes a) < length ms" "n = ms ! (root_node_id root - length (seq_nodes a))"
      using n ns by (auto simp: nth_append)
    then show ?thesis
      using node_table_record [OF sz] False n nodes sz ns pl
      by (auto simp: validate_fresh_delta_def length_node_table)
  qed
qed

section \<open>Preparation\<close>

lemma committed_view:
  "holds_arena E st a \<Longrightarrow> views E a (DeltaView_new st) a"
  using payload_u64 [of E a]
  by (auto simp: holds_arena_def views_def shape_def DeltaView_new_def committed_def sized_def)

definition wrong_length :: V2AvlError where
  "wrong_length = V2AvlError.Invalid ''history physical splice result length disagrees with its root''"

lemma seal_outcome:
  assumes st: "holds_arena E st a" and v: "views E a v b" and root: "child_ok (seq_nodes b) (splice_root res)"
  shows "case seal_delta E st n res (payload_delta v) (node_delta v) of
    Inl e \<Rightarrow> e \<in> content_faults \<or> e = wrong_length \<and> root_len (splice_root res) \<noteq> n
  | Inr d \<Rightarrow> delta_between E (pcs_generation st) a b (splice_root res) d \<and> root_len (splice_root res) = n \<and>
      delta_allocated_nodes d = splice_allocated_nodes res \<and> delta_inspected_nodes d = splice_inspected_nodes res \<and>
      delta_payload_bytes_allocated d = splice_payload_bytes_allocated res"
proof -
  have sha: "sha_ok E" and c: "committed E st a" and wfb: "arena_wf E b"
    using st v by (auto simp: holds_arena_def views_def)
  obtain ms where ms: "seq_payload b = seq_payload a @ payload_delta v" "seq_nodes b = seq_nodes a @ ms"
    "node_delta v = node_table ms" "length (seq_payload b) < width64" "length (seq_nodes b) < width64" "sized ms"
    using v by (auto simp: views_def shape_def)
  show ?thesis
  proof (cases "root_len (splice_root res) = n")
    case True
    then show ?thesis
      using validate_delta_fresh [OF sha c wfb ms(1,2) root] ms length_node_table [OF ms(6)]
        committedD(4,5) [OF c]
      by (auto simp: seal_delta_def try_from_def checked_add_def Let_def content_faults_def delta_between_def)
  qed (simp add: seal_delta_def wrong_length_def)
qed

text \<open>Preparation always ends.  An error is a fault of the medium, the error of the in-memory splice,
  or the caller's length being wrong; a delta is the difference the in-memory splice makes.\<close>

lemma prepare_outcome:
  assumes st: "holds_arena E st a"
  shows "\<exists>r. pcs_prepare_physical_delta E st parent off del ins n = Some r \<and>
    (case r of
       Inl e \<Rightarrow> e \<in> content_faults \<or>
         (\<exists>e'. splice_seq E parent off del ins a = Some (Inl e', a) \<and> same_error e e') \<or>
         (\<exists>res a'. splice_seq E parent off del ins a = Some (Inr res, a') \<and>
           root_len (splice_root res) \<noteq> n \<and> e = wrong_length)
     | Inr d \<Rightarrow> \<exists>res a'. splice_seq E parent off del ins a = Some (Inr res, a') \<and> arena_wf E a' \<and>
         length (seq_nodes a') < width64 \<and>
         child_ok (seq_nodes a') (splice_root res) \<and> root_len (splice_root res) = n \<and>
         delta_between E (pcs_generation st) a a' (splice_root res) d \<and>
         delta_allocated_nodes d = splice_allocated_nodes res \<and>
         delta_inspected_nodes d = splice_inspected_nodes res \<and>
         delta_payload_bytes_allocated d = splice_payload_bytes_allocated res)"
proof -
  note v = committed_view [OF st]
  have wf: "arena_wf E a"
    using st by (auto simp: holds_arena_def committed_def)
  obtain r a' where mem: "splice_seq E parent off del ins a = Some (r, a')"
    using splice_defined [OF wf] by fastforce
  obtain z w where z: "splice_on E (view_arena E) parent off del ins (DeltaView_new st) = Some (z, w)"
    and o1: "outcome content_faults same_error (views E a) (z, w) (r, a')"
    using view_sim.splice_run_like [OF v mem [unfolded splice_seq_def]] by auto
  show ?thesis
  proof (cases z)
    case (Inl e)
    then have "e \<in> content_faults \<or> (\<exists>e'. r = Inl e' \<and> same_error e e')"
      using o1 by simp
    then show ?thesis
      using Inl z mem splice_frame [OF mem] by (auto simp: pcs_prepare_physical_delta_def)
  next
    case (Inr res)
    then have r: "r = Inr res" and vw: "views E a w a'"
      using o1 by auto
    have root: "child_ok (seq_nodes a') (splice_root res)"
      by (rule splice_root_resolves [OF wf mem [unfolded r]])
    have "arena_wf E a'" "length (seq_nodes a') < width64"
      using vw by (auto simp: views_def shape_def)
    with seal_outcome [OF st vw root, of n] Inr z mem r root show ?thesis
      by (cases "seal_delta E st n res (payload_delta w) (node_delta w)")
        (auto simp: pcs_prepare_physical_delta_def)
  qed
qed

section \<open>Replay\<close>

text \<open>Reading the fresh ranges: the bytes behind the frontier, or an error of the medium.\<close>

definition replay_faults :: "V2AvlError set" where
  "replay_faults = {V2AvlError.Capacity ''history physical delta validation allocation failed'',
     V2AvlError.Invalid ''history log splice physical payload is absent'',
     V2AvlError.Invalid ''history log splice physical nodes are absent'',
     V2AvlError.Invalid ''history physical node read failed''}"

lemma read_fresh_holds:
  assumes sw: "starts_with (pcs_dir st) name (pre @ bs)" and h: "handle = Inr name" and len: "n = length bs"
    and off: "off = length pre"
  shows "read_fresh E st handle off n m = Inr bs \<or>
    read_fresh E st handle off n m \<in> {Inl (V2AvlError.Invalid m),
      Inl (V2AvlError.Capacity ''history physical delta validation allocation failed'')}"
  using exact_read [OF sw, of off n] by (auto simp: read_fresh_def h len off)

lemma nodes_image_split:
  "seq_nodes b = seq_nodes a @ ms \<Longrightarrow> nodes_image g b = nodes_image g a @ node_table ms"
  by (simp add: nodes_image_def)

lemma payload_image_split:
  "seq_payload b = seq_payload a @ bs \<Longrightarrow> payload_image g b = payload_image g a @ bs"
  by (simp add: payload_image_def)

lemma committed_sized: "sha_ok E \<Longrightarrow> committed E st a \<Longrightarrow> sized (seq_nodes a)"
  by (rule nodes_ok_sized [OF _ committedD(2)])

lemma length_images:
  "length (payload_image g a) = 16 + length (seq_payload a)"
  "sized (seq_nodes a) \<Longrightarrow> length (nodes_image g a) = 16 + length (seq_nodes a) * 72"
  by (simp_all add: payload_image_def nodes_image_def length_node_table)

definition replay_of :: "env \<Rightarrow> PhysicalContentStore \<Rightarrow> PhysicalDelta \<Rightarrow> V2AvlError + V2RootRecord" where
  "replay_of E st d = pcs_validate_committed_delta E st (pcs_generation st) (old_payload_end d) (new_payload_end d)
     (old_node_count d) (new_node_count d) (delta_digest d) (encode_v2_root (delta_root d)) (root_len (delta_root d))"

lemma replay_run:
  assumes sha: "sha_ok E" and c: "committed E st a"
    and hold: "files_hold (pcs_dir st) (pcs_generation st) b" and wfb: "arena_wf E b"
    and root: "child_ok (seq_nodes b) root" and d: "delta_between E (pcs_generation st) a b root d"
  shows "replay_of E st d =
    bindR (read_fresh E st (payload_file st) (length (payload_image (pcs_generation st) a)) (length (delta_payload d))
      ''history log splice physical payload is absent'') (\<lambda>payload.
    bindR (read_fresh E st (nodes_file st) (length (nodes_image (pcs_generation st) a)) (length (delta_nodes d))
      ''history log splice physical nodes are absent'') (\<lambda>node_bytes.
    bindR (validate_fresh_delta E st (length (seq_payload a)) (length (seq_payload b)) (length (seq_nodes a))
      (length (seq_nodes b)) payload node_bytes root) (\<lambda>_.
    if physical_delta_digest E (pcs_generation st) (length (seq_payload a)) (length (seq_payload b)) (length (seq_nodes a))
      (length (seq_nodes b)) payload node_bytes (encode_v2_root root) \<noteq> delta_digest d then
      Inl (V2AvlError.Invalid ''history log splice physical delta digest mismatch'')
    else Inr root)))"
proof -
  let ?g = "pcs_generation st"
  obtain ms where ms: "seq_nodes b = seq_nodes a @ ms" "delta_nodes d = node_table ms"
    "seq_payload b = seq_payload a @ delta_payload d"
    using d by (auto simp: delta_between_def)
  have szb: "sized (seq_nodes b)"
    using nodes_ok_sized [OF sha] wfb by (auto simp: arena_wf_def)
  then have sz: "sized (seq_nodes a)" "sized ms"
    using ms(1) by auto
  have can: "root_canonical root"
    using child_ok_canonical [OF sha _ root] wfb by (auto simp: arena_wf_def)
  have "length (payload_image ?g b) < width64" "length (nodes_image ?g b) < width64"
    using hold by (auto simp: files_hold_def dest: starts_with_length)
  then have w: "16 + length (seq_payload b) < width64" "16 + length (seq_nodes b) * 72 < width64"
    by (simp_all add: length_images szb)
  have wa: "16 + length (seq_payload a) < width64" "16 + length (seq_nodes a) * 72 < width64"
    "length ms * 72 < width64" "length (delta_payload d) < width64"
    using w ms by auto
  have fields: "old_payload_end d = length (seq_payload a)" "new_payload_end d = length (seq_payload b)"
    "old_node_count d = length (seq_nodes a)" "new_node_count d = length (seq_nodes b)" "delta_root d = root"
    using d by (auto simp: delta_between_def)
  have lens: "length (seq_payload b) - length (seq_payload a) = length (delta_payload d)"
    "length (seq_nodes b) - length (seq_nodes a) = length ms"
    using ms by auto
  show ?thesis
    using wa lens committedD(4,5) [OF c] ms(1,3) decode_encode_v2_root [OF can]
    by (simp add: replay_of_def pcs_validate_committed_delta_def fields checked_mul_def checked_add_def try_from_def
        length_images sz ms(2) length_node_table)
qed

lemma fresh_starts:
  assumes "files_hold (pcs_dir st) (pcs_generation st) b" "delta_between E (pcs_generation st) a b root d"
  shows "starts_with (pcs_dir st) (content_payload_filename (pcs_generation st))
      (payload_image (pcs_generation st) a @ delta_payload d)"
    "starts_with (pcs_dir st) (content_nodes_filename (pcs_generation st))
      (nodes_image (pcs_generation st) a @ delta_nodes d)"
  using assms by (auto simp: files_hold_def delta_between_def payload_image_def nodes_image_def)

lemma replay_accepts:
  assumes sha: "sha_ok E" and c: "committed E st a" and op: "opened st"
    and hold: "files_hold (pcs_dir st) (pcs_generation st) b" and wfb: "arena_wf E b"
    and root: "child_ok (seq_nodes b) root" and d: "delta_between E (pcs_generation st) a b root d"
  shows "replay_of E st d = Inr root \<or> (\<exists>e\<in>replay_faults. replay_of E st d = Inl e)"
proof -
  let ?g = "pcs_generation st"
  obtain ms where ms: "seq_nodes b = seq_nodes a @ ms" "delta_nodes d = node_table ms"
    "seq_payload b = seq_payload a @ delta_payload d"
    and dig: "delta_digest d = physical_delta_digest E ?g (length (seq_payload a)) (length (seq_payload b))
       (length (seq_nodes a)) (length (seq_nodes b)) (delta_payload d) (delta_nodes d) (encode_v2_root root)"
    using d by (auto simp: delta_between_def)
  have files: "payload_file st = Inr (content_payload_filename ?g)" "nodes_file st = Inr (content_nodes_filename ?g)"
    using op by (auto simp: opened_def payload_file_def nodes_file_def)
  note sw = fresh_starts [OF hold d]
  show ?thesis
    using read_fresh_holds [OF sw(1) files(1) refl refl, of E "''history log splice physical payload is absent''"]
      read_fresh_holds [OF sw(2) files(2) refl refl, of E "''history log splice physical nodes are absent''"]
      validate_delta_fresh [OF sha c wfb ms(3,1) root]
    unfolding replay_run [OF sha c hold wfb root d] dig ms(2)
    by (auto simp: replay_faults_def)
qed

text \<open>The other direction: what replay accepts is the prepared delta, byte for byte, unless other
  bytes of the same lengths have the same delta digest.\<close>

definition forged :: "env \<Rightarrow> PhysicalContentStore \<Rightarrow> PhysicalDelta \<Rightarrow> byte list \<Rightarrow> byte list \<Rightarrow> bool" where
  "forged E st d p n \<longleftrightarrow> (p, n) \<noteq> (delta_payload d, delta_nodes d) \<and> length p = length (delta_payload d) \<and>
     length n = length (delta_nodes d) \<and>
     physical_delta_digest E (pcs_generation st) (old_payload_end d) (new_payload_end d) (old_node_count d)
       (new_node_count d) p n (encode_v2_root (delta_root d)) = delta_digest d"

lemma guard_Inr_iff: "(if c then Inl x else r) = Inr u \<longleftrightarrow> \<not> c \<and> r = Inr u"
  by simp

lemma read_fresh_sound:
  assumes "read_fresh E st handle off n m = Inr bs" "handle = Inr name" and "starts_with (pcs_dir st) name pre"
    and "off = length pre"
  shows "length bs = n" "starts_with (pcs_dir st) name (pre @ bs)"
proof -
  have rd: "read_exact_at (pcs_dir st) name off n = Some bs"
    using assms(1,2) by (auto simp: read_fresh_def result_iffs split: if_splits)
  obtain f where f: "dir_files (pcs_dir st) name = Some f" "extends pre (file_bytes f)" "length (file_bytes f) < width64"
    using assms(3) by (auto simp: starts_with_def)
  have "length bs = n \<and> extends (pre @ bs) (file_bytes f)"
  proof (cases "n = 0")
    case False
    then have "slice_get (file_bytes f) off (off + n) = Some bs"
      using read_exact_at_sound [OF rd] f(1) by auto
    then show ?thesis
      using f(2) assms(4) by (auto simp: slice_get_Some_iff extends_def) (metis append_take_drop_id)
  qed (use rd f in \<open>auto simp: read_exact_at.simps\<close>)
  then show "length bs = n" "starts_with (pcs_dir st) name (pre @ bs)"
    using f by (auto simp: starts_with_def)
qed

lemma replay_sound:
  assumes sha: "sha_ok E" and c: "committed E st a" and op: "opened st" and wfb: "arena_wf E b"
    and root: "child_ok (seq_nodes b) root" and d: "delta_between E (pcs_generation st) a b root d"
    and acc: "replay_of E st d = Inr r"
  shows "r = root \<and> (files_hold (pcs_dir st) (pcs_generation st) b \<or> (\<exists>p n. forged E st d p n))"
proof -
  let ?g = "pcs_generation st"
  obtain ms where ms: "seq_nodes b = seq_nodes a @ ms" "delta_nodes d = node_table ms"
    "seq_payload b = seq_payload a @ delta_payload d"
    using d by (auto simp: delta_between_def)
  have sz: "sized (seq_nodes a)" "sized ms"
    using nodes_ok_sized [OF sha, of "seq_payload b" "seq_nodes b"] wfb ms(1) by (auto simp: arena_wf_def)
  have can: "root_canonical root"
    using child_ok_canonical [OF sha _ root] wfb by (auto simp: arena_wf_def)
  have fields: "old_payload_end d = length (seq_payload a)" "new_payload_end d = length (seq_payload b)"
    "old_node_count d = length (seq_nodes a)" "new_node_count d = length (seq_nodes b)" "delta_root d = root"
    using d by (auto simp: delta_between_def)
  obtain p n where p: "read_fresh E st (payload_file st) (16 + length (seq_payload a)) (length (delta_payload d))
      ''history log splice physical payload is absent'' = Inr p"
    and n: "read_fresh E st (nodes_file st) (16 + length (seq_nodes a) * 72) (length ms * 72)
      ''history log splice physical nodes are absent'' = Inr n"
    and dig: "physical_delta_digest E ?g (length (seq_payload a)) (length (seq_payload b)) (length (seq_nodes a))
      (length (seq_nodes b)) p n (encode_v2_root root) = delta_digest d" and r: "r = root"
    using acc decode_encode_v2_root [OF can] ms(1,3)
    unfolding replay_of_def pcs_validate_committed_delta_def fields guard_Inr_iff result_iffs checked_iffs
    by (auto simp del: not_less)
  have hold: "starts_with (pcs_dir st) (content_payload_filename ?g) (payload_image ?g a)"
    "starts_with (pcs_dir st) (content_nodes_filename ?g) (nodes_image ?g a)"
    and files: "payload_file st = Inr (content_payload_filename ?g)" "nodes_file st = Inr (content_nodes_filename ?g)"
    using c op by (auto simp: committed_def files_hold_def opened_def payload_file_def nodes_file_def)
  note sp = read_fresh_sound [OF p files(1) hold(1) length_images(1) [symmetric]]
  note sn = read_fresh_sound [OF n files(2) hold(2) length_images(2) [OF sz(1), symmetric]]
  show ?thesis
  proof (cases "p = delta_payload d \<and> n = delta_nodes d")
    case True
    then show ?thesis
      using r sp(2) sn(2) ms by (simp add: files_hold_def payload_image_split nodes_image_split)
  next
    case False
    have "length n = length (delta_nodes d)"
      using sn(1) ms(2) sz(2) by (simp add: length_node_table)
    then show ?thesis
      using False r sp(1) dig by (auto simp: forged_def fields)
  qed
qed

end
