(* ===== verification/Physical_Commit.thy ===== *)
theory Physical_Commit
  imports Physical_Delta
begin

text \<open>
  The commit protocol of the content store.  Whatever the operating system answers, no operation
  touches a byte below the committed frontiers: the store keeps holding its arena, and a crash
  afterwards finds it too, once the files were synced.  A delta that is appended, synced and adopted
  leaves a store that holds the arena after the splice.
\<close>

section \<open>Prefixes of files\<close>

text \<open>\<open>holds b d name bs\<close>: the file starts with \<open>bs\<close>, and with \<open>b\<close> so do its synced bytes.\<close>

definition holds :: "bool \<Rightarrow> Directory \<Rightarrow> string \<Rightarrow> byte list \<Rightarrow> bool" where
  "holds b d name bs \<longleftrightarrow> (\<exists>f. dir_files d name = Some f \<and> extends bs (file_bytes f) \<and>
     (b \<longrightarrow> extends bs (file_durable f)) \<and> length (file_bytes f) < width64)"

definition exactly :: "Directory \<Rightarrow> string \<Rightarrow> byte list \<Rightarrow> bool" where
  "exactly d name bs \<longleftrightarrow> (\<exists>f. dir_files d name = Some f \<and> file_bytes f = bs)"

lemma holds_starts: "holds b d name bs \<Longrightarrow> starts_with d name bs"
  by (auto simp: holds_def starts_with_def)

lemma starts_holds: "starts_with d name bs \<longleftrightarrow> holds False d name bs"
  by (simp add: holds_def starts_with_def)

lemma next_answer_files [simp]: "next_answer d = (x, d') \<Longrightarrow> dir_files d' = dir_files d"
  by (auto simp: next_answer_def split: list.splits)

lemma put_file_files [simp]: "dir_files (put_file name f d) = (dir_files d)(name := Some f)"
  by (simp add: put_file_def)

lemma overwrite_end: "overwrite (length xs) bs xs = xs @ bs"
  by (simp add: overwrite_def zero_extend_def)

lemma extends_overwrite: "extends bs xs \<Longrightarrow> length bs \<le> at \<Longrightarrow> extends bs (overwrite at ys xs)"
  by (auto simp: extends_def overwrite_def zero_extend_def)

lemma length_overwrite: "length (overwrite at ys xs) = max (length xs) (at + length ys)"
  by (auto simp: overwrite_def zero_extend_def)

lemma extends_cut: "extends bs xs \<Longrightarrow> length bs \<le> n \<Longrightarrow> extends bs (take n (zero_extend n xs))"
  by (auto simp: extends_def zero_extend_def)

lemma holds_write:
  assumes "dir_write name at ys d = (ok, d')" "holds b d nm bs" "nm \<noteq> name \<or> length bs \<le> at"
  shows "holds b d' nm bs"
proof -
  obtain f where f: "dir_files d nm = Some f" "extends bs (file_bytes f)" "b \<longrightarrow> extends bs (file_durable f)"
    "length (file_bytes f) < width64"
    using assms(2) by (auto simp: holds_def)
  show ?thesis
    using assms(1,3) f
    by (auto simp: holds_def dir_write_def length_overwrite extends_overwrite
        split: option.splits if_splits DirAnswer.splits prod.splits)
qed

lemma holds_set_len:
  assumes "dir_set_len name n d = (ok, d')" "holds b d nm bs" "nm \<noteq> name \<or> length bs \<le> n"
  shows "holds b d' nm bs"
proof -
  obtain f where f: "dir_files d nm = Some f" "extends bs (file_bytes f)" "b \<longrightarrow> extends bs (file_durable f)"
    "length (file_bytes f) < width64"
    using assms(2) by (auto simp: holds_def)
  show ?thesis
    using assms(1,3) f
    by (auto simp: holds_def dir_set_len_def extends_cut
        split: option.splits if_splits DirAnswer.splits prod.splits)
qed

lemma holds_sync:
  assumes "dir_sync name d = (ok, d')" "holds b d nm bs"
  shows "holds b d' nm bs"
  using assms by (auto simp: holds_def dir_sync_def split: option.splits DirAnswer.splits prod.splits if_splits)

lemma holds_synced:
  assumes "dir_sync name d = (True, d')" "holds False d name bs"
  shows "holds True d' name bs"
  using assms by (auto simp: holds_def dir_sync_def split: option.splits DirAnswer.splits prod.splits)

lemma holds_create:
  assumes "dir_create_new name d = (ok, d')" "holds b d nm bs"
  shows "holds b d' nm bs"
  using assms by (auto simp: holds_def dir_create_new_def split: option.splits DirAnswer.splits prod.splits if_splits)

lemma exactly_write:
  assumes "dir_write name at ys d = (True, d')" "exactly d name xs" "at = length xs"
  shows "exactly d' name (xs @ ys)" "length (xs @ ys) < width64"
  using assms by (auto simp: exactly_def dir_write_def overwrite_end
      split: option.splits if_splits DirAnswer.splits prod.splits)

lemma exactly_write_empty: "dir_write name 0 ys d = (True, d') \<Longrightarrow> exactly d name [] \<Longrightarrow> exactly d' name ys"
  using exactly_write(1) [of name 0 ys d d' "[]"] by simp

lemma exactly_write_other:
  "dir_write name at ys d = (ok, d') \<Longrightarrow> exactly d nm xs \<Longrightarrow> nm \<noteq> name \<Longrightarrow> exactly d' nm xs"
  by (auto simp: exactly_def dir_write_def split: option.splits if_splits DirAnswer.splits prod.splits)

lemma exactly_set_len:
  assumes "dir_set_len name n d = (True, d')" "holds b d name xs" "n = length xs"
  shows "exactly d' name xs"
  using assms by (auto simp: exactly_def holds_def dir_set_len_def extends_def zero_extend_def
      split: option.splits if_splits DirAnswer.splits prod.splits)

lemma exactly_set_len_other:
  "dir_set_len name n d = (ok, d') \<Longrightarrow> exactly d nm xs \<Longrightarrow> nm \<noteq> name \<Longrightarrow> exactly d' nm xs"
  by (auto simp: exactly_def dir_set_len_def split: option.splits if_splits DirAnswer.splits prod.splits)

lemma exactly_sync: "dir_sync name d = (ok, d') \<Longrightarrow> exactly d nm xs \<Longrightarrow> exactly d' nm xs"
  by (auto simp: exactly_def dir_sync_def split: option.splits DirAnswer.splits prod.splits)

lemma exactly_create: "dir_create_new name d = (True, d') \<Longrightarrow> exactly d' name []"
  by (auto simp: exactly_def dir_create_new_def split: if_splits DirAnswer.splits prod.splits)

lemma exactly_create_other: "dir_create_new name d = (ok, d') \<Longrightarrow> exactly d nm xs \<Longrightarrow> exactly d' nm xs"
  by (auto simp: exactly_def dir_create_new_def split: if_splits DirAnswer.splits prod.splits)

lemma exactly_holds: "exactly d name bs \<Longrightarrow> length bs < width64 \<Longrightarrow> holds False d name bs"
  by (auto simp: exactly_def holds_def)

lemma exactly_synced:
  "dir_sync name d = (True, d') \<Longrightarrow> exactly d name bs \<Longrightarrow> length bs < width64 \<Longrightarrow> holds True d' name bs"
  by (blast intro: holds_synced exactly_holds)

lemma exactly_length:
  "dir_length d name = Some n \<Longrightarrow> holds b d name bs \<Longrightarrow> n = length bs \<Longrightarrow> exactly d name bs"
  by (auto simp: exactly_def holds_def dir_length_def extends_def split: if_splits)

lemma holds_length: "dir_length d name = Some n \<Longrightarrow> holds b d name bs \<Longrightarrow> length bs \<le> n"
  by (auto simp: holds_def dir_length_def split: if_splits dest!: extends_length)

lemma exact_length: "dir_length d name = Some n \<Longrightarrow> exactly d name bs \<Longrightarrow> n = length bs"
  by (auto simp: exactly_def dir_length_def split: if_splits)

lemma names_differ [simp]: "content_payload_filename g \<noteq> content_nodes_filename h"
  "content_nodes_filename h \<noteq> content_payload_filename g"
proof -
  have "last (content_payload_filename g) \<noteq> last (content_nodes_filename h)"
    by (simp add: content_payload_filename_def content_nodes_filename_def)
  then show "content_payload_filename g \<noteq> content_nodes_filename h"
    "content_nodes_filename h \<noteq> content_payload_filename g"
    by metis+
qed

section \<open>Runs of store programs\<close>

text \<open>From a state with \<open>P\<close> the program ends in a state with \<open>I\<close> when it fails and \<open>Q\<close> when it succeeds.\<close>

definition runs ::
  "(PhysicalContentStore \<Rightarrow> bool) \<Rightarrow> (PhysicalContentStore \<Rightarrow> bool) \<Rightarrow> 'r pcs_prog \<Rightarrow>
   ('r \<Rightarrow> PhysicalContentStore \<Rightarrow> bool) \<Rightarrow> bool" where
  "runs I P m Q \<longleftrightarrow> (\<forall>st. P st \<longrightarrow> (case m st of (Inl e, st') \<Rightarrow> I st' | (Inr x, st') \<Rightarrow> Q x st'))"

lemma runs_weaken: "runs I P m Q \<Longrightarrow> (\<And>st. P' st \<Longrightarrow> P st) \<Longrightarrow> (\<And>x st. Q x st \<Longrightarrow> Q' x st) \<Longrightarrow> runs I P' m Q'"
  unfolding runs_def by (fastforce split: prod.splits sum.splits)

lemma runs_bind:
  assumes "runs I P m Q" and "\<And>x. runs I (Q x) (k x) R"
  shows "runs I P (bindC m k) R"
  unfolding runs_def
proof (intro allI impI)
  fix st
  assume "P st"
  then have m: "case m st of (Inl e, st') \<Rightarrow> I st' | (Inr x, st') \<Rightarrow> Q x st'"
    using assms(1) by (simp add: runs_def)
  show "case bindC m k st of (Inl e, st') \<Rightarrow> I st' | (Inr x, st') \<Rightarrow> R x st'"
  proof (cases "m st")
    case (Pair r st')
    then show ?thesis
      using m assms(2) by (cases r) (auto simp: bindC_def runs_def)
  qed
qed

lemma runs_ok: "(\<And>st. P st \<Longrightarrow> Q x st) \<Longrightarrow> runs I P (okC x) Q"
  by (simp add: runs_def okC_def)

lemma runs_err: "(\<And>st. P st \<Longrightarrow> I st) \<Longrightarrow> runs I P (errC e) Q"
  by (simp add: runs_def errC_def)

lemma runs_view:
  "(\<And>st. P st \<Longrightarrow> I st) \<Longrightarrow> (\<And>st x. P st \<Longrightarrow> f st = Inr x \<Longrightarrow> Q x st) \<Longrightarrow> runs I P (viewC f) Q"
  by (auto simp: runs_def viewC_def split: sum.splits)

lemma runs_if:
  "(c \<Longrightarrow> runs I P m Q) \<Longrightarrow> (\<not> c \<Longrightarrow> runs I P n Q) \<Longrightarrow> runs I P (if c then m else n) Q"
  by simp

lemma runs_call:
  assumes "\<And>st ok d. P st \<Longrightarrow> f (pcs_dir st) = (ok, d) \<Longrightarrow>
    (if ok then Q () (st\<lparr>pcs_dir := d\<rparr>) else I (st\<lparr>pcs_dir := d\<rparr>))"
  shows "runs I P (callC e f) Q"
  unfolding runs_def callC_def
proof (intro allI impI)
  fix st
  assume "P st"
  with assms [of st] show "case case f (pcs_dir st) of (ok, d) \<Rightarrow> (if ok then Inr () else Inl e, st\<lparr>pcs_dir := d\<rparr>) of
      (Inl e, st') \<Rightarrow> I st' | (Inr x, st') \<Rightarrow> Q x st'"
    by (cases "f (pcs_dir st)") (auto split: if_splits)
qed

lemma runs_write:
  assumes "\<And>st ok d. P st \<Longrightarrow> f (pcs_dir st) = (ok, d) \<Longrightarrow>
    (if ok then Q () (st\<lparr>pcs_dir := d\<rparr>) else I (st\<lparr>pcs_dir := d\<rparr>))" and "\<And>st. P st \<Longrightarrow> I st"
  shows "runs I P (writeC e f) Q"
  using runs_call [of P f Q I e, OF assms(1)] assms(2)
  by (auto simp: runs_def writeC_def)

section \<open>Creating files\<close>

definition fresh_files :: "u64 \<Rightarrow> Directory \<Rightarrow> bool" where
  "fresh_files g d \<longleftrightarrow>
     holds True d (content_payload_filename g) (encode_physical_header PHYSICAL_PAYLOAD_MAGIC g) \<and>
     holds True d (content_nodes_filename g) (encode_physical_header PHYSICAL_NODE_MAGIC g)"

lemma header_u64 [simp]: "16 < width64"
  by (simp add: width64_def)

lemma create_new_ok:
  assumes "create_new d g = (Inr fresh, d')"
  shows "fresh_files g d'" "pcs_payload fresh = Some (content_payload_filename g)"
    "pcs_nodes fresh = Some (content_nodes_filename g)"
proof -
  let ?p = "content_payload_filename g" and ?n = "content_nodes_filename g"
  let ?hp = "encode_physical_header PHYSICAL_PAYLOAD_MAGIC g" and ?hn = "encode_physical_header PHYSICAL_NODE_MAGIC g"
  let ?D = "pcs_dir :: PhysicalContentStore \<Rightarrow> Directory"
  define e where "e = V2AvlError.Invalid ''history physical content creation failed''"
  define m where "m = bindC (callC e (dir_create_new ?p)) (\<lambda>_. bindC (callC e (dir_create_new ?n)) (\<lambda>_.
    bindC (callC e (dir_write ?p 0 ?hp)) (\<lambda>_. bindC (callC e (dir_write ?n 0 ?hn)) (\<lambda>_.
    bindC (callC e (dir_sync ?p)) (\<lambda>_. callC e (dir_sync ?n))))))"
  let ?G = "\<lambda>st. pcs_generation st = g"
  have "runs (\<lambda>_. True) ?G m (\<lambda>_ st. fresh_files g (?D st) \<and> ?G st)"
    unfolding m_def
    apply (rule runs_bind [where Q = "\<lambda>_ st. exactly (?D st) ?p [] \<and> ?G st"])
     apply (rule runs_call, auto dest: exactly_create) [1]
    apply (rule runs_bind [where Q = "\<lambda>_ st. exactly (?D st) ?p [] \<and> exactly (?D st) ?n [] \<and> ?G st"])
     apply (rule runs_call, auto dest: exactly_create exactly_create_other) [1]
    apply (rule runs_bind [where Q = "\<lambda>_ st. exactly (?D st) ?p ?hp \<and> exactly (?D st) ?n [] \<and> ?G st"])
     apply (rule runs_call, auto dest: exactly_write_empty exactly_write_other) [1]
    apply (rule runs_bind [where Q = "\<lambda>_ st. exactly (?D st) ?p ?hp \<and> exactly (?D st) ?n ?hn \<and> ?G st"])
     apply (rule runs_call, auto dest: exactly_write_empty exactly_write_other) [1]
    apply (rule runs_bind [where Q = "\<lambda>_ st. holds True (?D st) ?p ?hp \<and> exactly (?D st) ?n ?hn \<and> ?G st"])
     apply (rule runs_call, auto intro: exactly_synced exactly_sync) [1]
    apply (rule runs_call, auto intro: exactly_synced holds_sync simp: fresh_files_def) [1]
    done
  moreover have gen: "pcs_generation (bare_store d g True) = g"
    by (simp add: bare_store_def)
  moreover obtain r st where run: "m (bare_store d g True) = (r, st)"
    by (cases "m (bare_store d g True)")
  moreover have "create_new d g = (case m (bare_store d g True) of (Inl e, st) \<Rightarrow> (Inl e, pcs_dir st)
      | (Inr _, st) \<Rightarrow> (Inr (with_handles st), pcs_dir st))"
    by (simp add: create_new_def m_def e_def Let_def)
  ultimately have "fresh_files g d' \<and> fresh = with_handles st \<and> pcs_generation st = g"
    using assms by (cases r) (auto simp: runs_def)
  then show "fresh_files g d'" "pcs_payload fresh = Some ?p" "pcs_nodes fresh = Some ?n"
    by (auto simp: with_handles_def)
qed

section \<open>Keeping the committed arena\<close>

definition kept :: "bool \<Rightarrow> env \<Rightarrow> u64 \<Rightarrow> V2AvlSequence \<Rightarrow> PhysicalContentStore \<Rightarrow> bool" where
  "kept b E g a st \<longleftrightarrow> committed E st a \<and> pcs_generation st = g \<and>
     (opened st \<longrightarrow> holds b (pcs_dir st) (content_payload_filename g) (payload_image g a) \<and>
       holds b (pcs_dir st) (content_nodes_filename g) (nodes_image g a))"

definition ready :: "bool \<Rightarrow> env \<Rightarrow> u64 \<Rightarrow> V2AvlSequence \<Rightarrow> PhysicalContentStore \<Rightarrow> bool" where
  "ready b E g a st \<longleftrightarrow> kept b E g a st \<and> opened st \<and> pcs_writable st"

lemma ready_kept: "ready b E g a st \<Longrightarrow> kept b E g a st"
  by (simp add: ready_def)

lemma readyD:
  assumes "ready b E g a st"
  shows "pcs_payload st = Some (content_payload_filename g)" "pcs_nodes st = Some (content_nodes_filename g)"
    "pcs_writable st" "pcs_generation st = g"
    "holds b (pcs_dir st) (content_payload_filename g) (payload_image g a)"
    "holds b (pcs_dir st) (content_nodes_filename g) (nodes_image g a)"
  using assms by (auto simp: ready_def kept_def opened_def)

lemma opened_dir [simp]: "opened (st\<lparr>pcs_dir := d\<rparr>) = opened st"
  by (simp add: opened_def)

lemma kept_dir:
  assumes "kept b E g a st" and "opened st \<Longrightarrow> holds b d (content_payload_filename g) (payload_image g a) \<and>
    holds b d (content_nodes_filename g) (nodes_image g a)"
  shows "kept b E g a (st\<lparr>pcs_dir := d\<rparr>)"
  using assms by (auto simp: kept_def committed_def files_hold_def dest: holds_starts)

lemma ready_dir:
  assumes "ready b E g a st" and "holds b d (content_payload_filename g) (payload_image g a)"
    and "holds b d (content_nodes_filename g) (nodes_image g a)"
  shows "ready b E g a (st\<lparr>pcs_dir := d\<rparr>)"
  using assms kept_dir [of b E g a st d] by (auto simp: ready_def)

lemma empty_images [simp]:
  "payload_image g empty_seq = encode_physical_header PHYSICAL_PAYLOAD_MAGIC g"
  "nodes_image g empty_seq = encode_physical_header PHYSICAL_NODE_MAGIC g"
  by (simp_all add: payload_image_def nodes_image_def empty_seq_def)

lemma holds_weaken: "holds True d name bs \<Longrightarrow> holds b d name bs"
  by (auto simp: holds_def)

lemma ensure_open_runs: "runs (kept b E g a) (kept b E g a) ensure_open (\<lambda>_ st. kept b E g a st \<and> opened st)"
  unfolding runs_def
proof (intro allI impI)
  fix st
  assume k: "kept b E g a st"
  show "case ensure_open st of (Inl e, st') \<Rightarrow> kept b E g a st' | (Inr x, st') \<Rightarrow> kept b E g a st' \<and> opened st'"
  proof (cases "opened st")
    case True
    then show ?thesis
      using k by (simp add: ensure_open_def opened_def)
  next
    case False
    have c: "committed E st a" "pcs_generation st = g"
      using k by (auto simp: kept_def)
    note none = committed_opened [OF c(1) False]
    show ?thesis
    proof (cases "create_new (pcs_dir st) g")
      case (Pair r d)
      show ?thesis
      proof (cases r)
        case (Inl e)
        then show ?thesis
          using Pair none c kept_dir [OF k, of d] False committedD(4,5) [OF c(1)]
          by (simp add: ensure_open_def empty_seq_def)
      next
        case (Inr fresh)
        note cr = create_new_ok [OF Pair [unfolded Inr]]
        show ?thesis
          using Pair Inr cr none c False committedD [OF c(1)]
          by (auto simp: ensure_open_def empty_seq_def kept_def committed_def opened_def files_hold_def
              fresh_files_def payload_image_def nodes_image_def
              intro: holds_weaken holds_starts)
      qed
    qed
  qed
qed

lemma ensure_writable_runs: "runs (kept b E g a) (kept b E g a) ensure_writable (\<lambda>_. ready b E g a)"
  unfolding ensure_writable_def
proof (rule runs_bind [OF ensure_open_runs])
  show "runs (kept b E g a) (\<lambda>st. kept b E g a st \<and> opened st) (\<lambda>st. if pcs_writable st then (Inr (), st)
     else if \<not> dir_open (pcs_dir st) (content_payload_filename (pcs_generation st)) \<or>
             \<not> dir_open (pcs_dir st) (content_nodes_filename (pcs_generation st)) then
       (Inl (V2AvlError.Invalid ''history physical content writable upgrade failed''), st)
     else (Inr (), (with_handles st)\<lparr>pcs_writable := True\<rparr>)) (\<lambda>_. ready b E g a)"
    by (auto simp: runs_def ready_def kept_def committed_def opened_def with_handles_def)
qed

section \<open>Healing, appending, syncing\<close>

text \<open>The frontiers are where the images end.\<close>

lemma payload_frontier_kept:
  assumes "kept b E g a st" "payload_frontier st = Inr n"
  shows "n = length (payload_image g a)"
  using assms by (auto simp: payload_frontier_def kept_def committed_def length_images result_iffs checked_iffs)

lemma node_frontier_kept:
  assumes "sha_ok E" "kept b E g a st" "node_frontier st = Inr n"
  shows "n = length (nodes_image g a)"
  using assms length_images(2) [OF committed_sized, of E st a g]
  by (auto simp: node_frontier_def kept_def committed_def result_iffs checked_iffs)

text \<open>\<open>poised b E g a xp xn st\<close>: ready for writing, and with \<open>xp = Some bs\<close> the payload file is exactly
  \<open>bs\<close>, with \<open>xn = Some bs\<close> the node file is.\<close>

definition poised :: "bool \<Rightarrow> env \<Rightarrow> u64 \<Rightarrow> V2AvlSequence \<Rightarrow> byte list option \<Rightarrow> byte list option \<Rightarrow>
  PhysicalContentStore \<Rightarrow> bool" where
  "poised b E g a xp xn st \<longleftrightarrow> ready b E g a st \<and>
     (\<forall>bs. xp = Some bs \<longrightarrow> exactly (pcs_dir st) (content_payload_filename g) bs) \<and>
     (\<forall>bs. xn = Some bs \<longrightarrow> exactly (pcs_dir st) (content_nodes_filename g) bs)"

lemma poisedD:
  assumes "poised b E g a xp xn st"
  shows "ready b E g a st" "kept b E g a st"
    "xp = Some bs \<Longrightarrow> exactly (pcs_dir st) (content_payload_filename g) bs"
    "xn = Some bs \<Longrightarrow> exactly (pcs_dir st) (content_nodes_filename g) bs"
  using assms by (auto simp: poised_def ready_def)

lemma poised_ready: "poised b E g a None None st \<longleftrightarrow> ready b E g a st"
  by (simp add: poised_def)

lemma poised_dir:
  assumes "poised b E g a xp xn st" and "holds b d (content_payload_filename g) (payload_image g a)"
    and "holds b d (content_nodes_filename g) (nodes_image g a)"
    and "\<And>bs. xp' = Some bs \<Longrightarrow> exactly d (content_payload_filename g) bs"
    and "\<And>bs. xn' = Some bs \<Longrightarrow> exactly d (content_nodes_filename g) bs"
  shows "poised b E g a xp' xn' (st\<lparr>pcs_dir := d\<rparr>)"
  using assms ready_dir [of b E g a st d] by (auto simp: poised_def)

text \<open>The four calls that change the files of an open store.\<close>

lemma cut_payload_runs:
  assumes n: "n = length (payload_image g a)"
  shows "runs (kept b E g a) (poised b E g a xp xn) (writeC e (dir_set_len (content_payload_filename g) n))
    (\<lambda>_. poised b E g a (Some (payload_image g a)) xn)"
proof (rule runs_write)
  fix st ok d
  assume P: "poised b E g a xp xn st" and c: "dir_set_len (content_payload_filename g) n (pcs_dir st) = (ok, d)"
  note r = readyD(5,6) [OF poisedD(1) [OF P]]
  have h: "holds b d (content_payload_filename g) (payload_image g a)"
    "holds b d (content_nodes_filename g) (nodes_image g a)"
    using r n by (auto intro: holds_set_len [OF c])
  show "if ok then poised b E g a (Some (payload_image g a)) xn (st\<lparr>pcs_dir := d\<rparr>)
    else kept b E g a (st\<lparr>pcs_dir := d\<rparr>)"
    using poised_dir [OF P h, of "Some (payload_image g a)" xn] kept_dir [OF poisedD(2) [OF P]] h c n
      exactly_set_len [OF _ r(1) n] exactly_set_len_other [OF c] poisedD(4) [OF P]
    by (cases ok) auto
qed (rule poisedD(2))

lemma cut_nodes_runs:
  assumes n: "n = length (nodes_image g a)"
  shows "runs (kept b E g a) (poised b E g a xp xn) (writeC e (dir_set_len (content_nodes_filename g) n))
    (\<lambda>_. poised b E g a xp (Some (nodes_image g a)))"
proof (rule runs_write)
  fix st ok d
  assume P: "poised b E g a xp xn st" and c: "dir_set_len (content_nodes_filename g) n (pcs_dir st) = (ok, d)"
  note r = readyD(5,6) [OF poisedD(1) [OF P]]
  have h: "holds b d (content_payload_filename g) (payload_image g a)"
    "holds b d (content_nodes_filename g) (nodes_image g a)"
    using r n by (auto intro: holds_set_len [OF c])
  show "if ok then poised b E g a xp (Some (nodes_image g a)) (st\<lparr>pcs_dir := d\<rparr>)
    else kept b E g a (st\<lparr>pcs_dir := d\<rparr>)"
    using poised_dir [OF P h, of xp "Some (nodes_image g a)"] kept_dir [OF poisedD(2) [OF P]] h c n
      exactly_set_len [OF _ r(2) n] exactly_set_len_other [OF c] poisedD(3) [OF P]
    by (cases ok) auto
qed (rule poisedD(2))

lemma grow_payload_runs:
  "runs (kept b E g a) (poised b E g a (Some (payload_image g a)) xn)
    (writeC e (dir_write (content_payload_filename g) (length (payload_image g a)) ys))
    (\<lambda>_. poised b E g a (Some (payload_image g a @ ys)) xn)"
proof (rule runs_write)
  fix st ok d
  let ?xs = "payload_image g a"
  assume P: "poised b E g a (Some ?xs) xn st"
    and c: "dir_write (content_payload_filename g) (length ?xs) ys (pcs_dir st) = (ok, d)"
  note r = readyD(5,6) [OF poisedD(1) [OF P]]
  have h: "holds b d (content_payload_filename g) ?xs" "holds b d (content_nodes_filename g) (nodes_image g a)"
    using r by (auto intro: holds_write [OF c])
  show "if ok then poised b E g a (Some (?xs @ ys)) xn (st\<lparr>pcs_dir := d\<rparr>) else kept b E g a (st\<lparr>pcs_dir := d\<rparr>)"
    using poised_dir [OF P h, of "Some (?xs @ ys)" xn] kept_dir [OF poisedD(2) [OF P]] h c
      exactly_write(1) [OF _ poisedD(3) [OF P refl] refl] exactly_write_other [OF c] poisedD(4) [OF P]
    by (cases ok) auto
qed (rule poisedD(2))

lemma grow_nodes_runs:
  "runs (kept b E g a) (poised b E g a xp (Some (nodes_image g a)))
    (writeC e (dir_write (content_nodes_filename g) (length (nodes_image g a)) ys))
    (\<lambda>_. poised b E g a xp (Some (nodes_image g a @ ys)))"
proof (rule runs_write)
  fix st ok d
  let ?xs = "nodes_image g a"
  assume P: "poised b E g a xp (Some ?xs) st"
    and c: "dir_write (content_nodes_filename g) (length ?xs) ys (pcs_dir st) = (ok, d)"
  note r = readyD(5,6) [OF poisedD(1) [OF P]]
  have h: "holds b d (content_payload_filename g) (payload_image g a)" "holds b d (content_nodes_filename g) ?xs"
    using r by (auto intro: holds_write [OF c])
  show "if ok then poised b E g a xp (Some (?xs @ ys)) (st\<lparr>pcs_dir := d\<rparr>) else kept b E g a (st\<lparr>pcs_dir := d\<rparr>)"
    using poised_dir [OF P h, of xp "Some (?xs @ ys)"] kept_dir [OF poisedD(2) [OF P]] h c
      exactly_write(1) [OF _ poisedD(4) [OF P refl] refl] exactly_write_other [OF c] poisedD(3) [OF P]
    by (cases ok) auto
qed (rule poisedD(2))

text \<open>Handles and lengths.\<close>

lemma handles_runs:
  "runs (kept b E g a) (poised b E g a xp xn) (viewC (\<lambda>st. map_err f (payload_file st)))
    (\<lambda>name st. name = content_payload_filename g \<and> poised b E g a xp xn st)"
  "runs (kept b E g a) (poised b E g a xp xn) (viewC (\<lambda>st. map_err f (nodes_file st)))
    (\<lambda>name st. name = content_nodes_filename g \<and> poised b E g a xp xn st)"
  "runs (kept b E g a) (poised b E g a xp xn) (viewC payload_file)
    (\<lambda>name st. name = content_payload_filename g \<and> poised b E g a xp xn st)"
  "runs (kept b E g a) (poised b E g a xp xn) (viewC nodes_file)
    (\<lambda>name st. name = content_nodes_filename g \<and> poised b E g a xp xn st)"
  "runs (kept b E g a) (poised b E g a xp xn) (viewC (\<lambda>st. ok_or e (pcs_payload st)))
    (\<lambda>name st. name = content_payload_filename g \<and> poised b E g a xp xn st)"
  "runs (kept b E g a) (poised b E g a xp xn) (viewC (\<lambda>st. ok_or e (pcs_nodes st)))
    (\<lambda>name st. name = content_nodes_filename g \<and> poised b E g a xp xn st)"
  by (rule runs_view; auto simp: payload_file_def nodes_file_def dest: poisedD(2) readyD(1,2) [OF poisedD(1)])+

lemma payload_length_runs:
  "runs (kept b E g a) (poised b E g a xp xn) (viewC (\<lambda>st. file_length e (map_err f (payload_file st)) st))
    (\<lambda>n st. length (payload_image g a) \<le> n \<and>
      poised b E g a (if n = length (payload_image g a) then Some (payload_image g a) else xp) xn st)"
proof (rule runs_view)
  fix st n
  assume P: "poised b E g a xp xn st" and "file_length e (map_err f (payload_file st)) st = Inr n"
  then have n: "dir_length (pcs_dir st) (content_payload_filename g) = Some n"
    using readyD(1) [OF poisedD(1) [OF P]] by (simp add: file_length_def payload_file_def result_iffs)
  note h = readyD(5) [OF poisedD(1) [OF P]]
  show "length (payload_image g a) \<le> n \<and>
      poised b E g a (if n = length (payload_image g a) then Some (payload_image g a) else xp) xn st"
    using P holds_length [OF n h] exactly_length [OF n h] by (auto simp: poised_def)
qed (rule poisedD(2))

lemma nodes_length_runs:
  "runs (kept b E g a) (poised b E g a xp xn) (viewC (\<lambda>st. file_length e (map_err f (nodes_file st)) st))
    (\<lambda>n st. length (nodes_image g a) \<le> n \<and>
      poised b E g a xp (if n = length (nodes_image g a) then Some (nodes_image g a) else xn) st)"
proof (rule runs_view)
  fix st n
  assume P: "poised b E g a xp xn st" and "file_length e (map_err f (nodes_file st)) st = Inr n"
  then have n: "dir_length (pcs_dir st) (content_nodes_filename g) = Some n"
    using readyD(2) [OF poisedD(1) [OF P]] by (simp add: file_length_def nodes_file_def result_iffs)
  note h = readyD(6) [OF poisedD(1) [OF P]]
  show "length (nodes_image g a) \<le> n \<and>
      poised b E g a xp (if n = length (nodes_image g a) then Some (nodes_image g a) else xn) st"
    using P holds_length [OF n h] exactly_length [OF n h] by (auto simp: poised_def)
qed (rule poisedD(2))

lemma map_err_id: "map_err (\<lambda>e. e) r = r"
  by (cases r) simp_all

lemmas payload_length_runs' = payload_length_runs [where f = "\<lambda>e. e", unfolded map_err_id]
lemmas nodes_length_runs' = nodes_length_runs [where f = "\<lambda>e. e", unfolded map_err_id]

lemma frontier_runs:
  "runs (kept b E g a) (poised b E g a xp xn) (viewC payload_frontier)
    (\<lambda>n st. n = length (payload_image g a) \<and> poised b E g a xp xn st)"
  "sha_ok E \<Longrightarrow> runs (kept b E g a) (poised b E g a xp xn) (viewC node_frontier)
    (\<lambda>n st. n = length (nodes_image g a) \<and> poised b E g a xp xn st)"
  by (rule runs_view; auto dest: poisedD(2) payload_frontier_kept [OF poisedD(2)] node_frontier_kept [OF _ poisedD(2)])+

lemma runs_pre: "(c \<Longrightarrow> runs I P m Q) \<Longrightarrow> runs I (\<lambda>st. c \<and> P st) m Q"
  by (auto simp: runs_def)

lemma writable_runs: "runs (kept b E g a) (kept b E g a) ensure_writable (\<lambda>_. poised b E g a None None)"
  by (rule runs_weaken [OF ensure_writable_runs]) (simp_all add: poised_ready)

text \<open>Upgrading an already writable store changes nothing.\<close>

lemma ensure_writable_ready: "ready b E g a st \<Longrightarrow> ensure_writable st = (Inr (), st)"
  by (auto simp: ensure_writable_def bindC_def ensure_open_def ready_def opened_def)

lemma writable_again_runs: "runs I (poised b E g a xp xn) ensure_writable (\<lambda>_. poised b E g a xp xn)"
  by (auto simp: runs_def ensure_writable_ready poised_def)

lemma heal_runs:
  assumes sha: "sha_ok E"
  shows "runs (kept b E g a) (kept b E g a) heal_for_write
    (\<lambda>_. poised b E g a (Some (payload_image g a)) (Some (nodes_image g a)))"
proof -
  let ?xp = "payload_image g a" and ?xn = "nodes_image g a"
  have cutp: "runs (kept b E g a) (poised b E g a (if n = length ?xp then Some ?xp else None) xn)
      (if n > m then shorten e payload_file m else okC ()) (\<lambda>_. poised b E g a (Some ?xp) xn)"
    if "length ?xp \<le> n" "m = length ?xp" for n m xn e
    using that unfolding shorten_def
    by (intro runs_if runs_bind [OF handles_runs(1)] runs_pre) (auto intro: cut_payload_runs runs_ok)
  have cutn: "runs (kept b E g a) (poised b E g a xp (if n = length ?xn then Some ?xn else None))
      (if n > m then shorten e nodes_file m else okC ()) (\<lambda>_. poised b E g a xp (Some ?xn))"
    if "length ?xn \<le> n" "m = length ?xn" for n m xp e
    using that unfolding shorten_def
    by (intro runs_if runs_bind [OF handles_runs(2)] runs_pre) (auto intro: cut_nodes_runs runs_ok)
  show ?thesis
    unfolding heal_for_write_def Let_def
    by (intro runs_bind [OF writable_runs] runs_bind [OF frontier_runs(1)] runs_bind [OF frontier_runs(2) [OF sha]]
        runs_bind [OF payload_length_runs] runs_bind [OF nodes_length_runs] runs_pre runs_if runs_bind [OF cutp]
        cutn runs_err)
      (auto intro: poisedD(2))
qed

lemma append_payload_runs:
  "runs (kept b E g a) (poised b E g a (Some (payload_image g a)) xn) (pcs_append_payload_delta ys)
    (\<lambda>_. poised b E g a (Some (payload_image g a @ ys)) xn)"
proof (cases "ys = []")
  case True
  then show ?thesis
    unfolding pcs_append_payload_delta_def Let_def
    by (simp, intro runs_bind [OF writable_again_runs] runs_ok) simp
next
  case False
  have rest: "runs (kept b E g a) (poised b E g a (if n = length (payload_image g a)
        then Some (payload_image g a) else Some (payload_image g a)) xn)
      (if n \<noteq> m then errC e else bindC (viewC (\<lambda>st. ok_or e' (pcs_payload st))) (\<lambda>name. writeC e' (dir_write name n ys)))
      (\<lambda>_. poised b E g a (Some (payload_image g a @ ys)) xn)" if "m = length (payload_image g a)" for n m e e'
    using that
    by (intro runs_if runs_err runs_bind [OF handles_runs(5)] runs_pre) (auto intro: poisedD(2) grow_payload_runs)
  show ?thesis
    using False unfolding pcs_append_payload_delta_def Let_def
    by (simp only: if_False)
      (intro runs_bind [OF writable_again_runs] runs_bind [OF frontier_runs(1)] runs_bind [OF payload_length_runs']
        runs_pre rest)
qed

lemma append_nodes_runs:
  assumes sha: "sha_ok E"
  shows "runs (kept b E g a) (poised b E g a xp (Some (nodes_image g a))) (pcs_append_node_delta ys)
    (\<lambda>_. poised b E g a xp (Some (nodes_image g a @ ys)))"
proof -
  have rest: "runs (kept b E g a) (poised b E g a xp (if n = length (nodes_image g a)
        then Some (nodes_image g a) else Some (nodes_image g a)))
      (if n \<noteq> m then errC e else bindC (viewC (\<lambda>st. ok_or e' (pcs_nodes st))) (\<lambda>name. writeC e' (dir_write name n ys)))
      (\<lambda>_. poised b E g a xp (Some (nodes_image g a @ ys)))" if "m = length (nodes_image g a)" for n m e e'
    using that
    by (intro runs_if runs_err runs_bind [OF handles_runs(6)] runs_pre) (auto intro: poisedD(2) grow_nodes_runs)
  show ?thesis
    unfolding pcs_append_node_delta_def Let_def
    by (intro runs_if runs_ok runs_err runs_bind [OF frontier_runs(2) [OF sha]] runs_pre runs_bind [OF writable_again_runs]
        runs_bind [OF nodes_length_runs'] rest) (auto intro: poisedD(2))
qed

text \<open>The barrier makes the exact contents durable.\<close>

definition synced :: "u64 \<Rightarrow> byte list option \<Rightarrow> byte list option \<Rightarrow> PhysicalContentStore \<Rightarrow> bool" where
  "synced g xp xn st \<longleftrightarrow>
     (\<forall>bs. xp = Some bs \<longrightarrow> holds True (pcs_dir st) (content_payload_filename g) bs) \<and>
     (\<forall>bs. xn = Some bs \<longrightarrow> holds True (pcs_dir st) (content_nodes_filename g) bs)"

lemma exact_bound: "exactly d name bs \<Longrightarrow> holds b d name xs \<Longrightarrow> length bs < width64"
  by (auto simp: exactly_def holds_def)

lemma sync_file_runs:
  assumes "name \<in> {content_payload_filename g, content_nodes_filename g}"
  shows "runs (kept b E g a) (\<lambda>st. poised b E g a xp xn st \<and> synced g yp yn st) (callC e (dir_sync name))
    (\<lambda>_ st. poised b E g a xp xn st \<and> synced g (if name = content_payload_filename g then xp else yp)
      (if name = content_nodes_filename g then xn else yn) st)"
proof (rule runs_call)
  fix st ok d
  assume P: "poised b E g a xp xn st \<and> synced g yp yn st" and c: "dir_sync name (pcs_dir st) = (ok, d)"
  then have P1: "poised b E g a xp xn st"
    by simp
  note r = readyD(5,6) [OF poisedD(1) [OF P1]]
  have h: "holds b d (content_payload_filename g) (payload_image g a)"
    "holds b d (content_nodes_filename g) (nodes_image g a)"
    using r by (auto intro: holds_sync [OF c])
  have k: "kept b E g a (st\<lparr>pcs_dir := d\<rparr>)"
    using kept_dir [OF poisedD(2) [OF P1]] h by simp
  have p: "poised b E g a xp xn (st\<lparr>pcs_dir := d\<rparr>)"
    using poised_dir [OF P1 h] exactly_sync [OF c] poisedD(3,4) [OF P1] by blast
  have s: "holds True d nm bs" if "ok" "nm = name" "exactly (pcs_dir st) nm bs" "holds b (pcs_dir st) nm xs" for nm bs xs
    using exactly_synced [of name "pcs_dir st" d bs] c that exact_bound [OF that(3,4)] by simp
  have "synced g (if name = content_payload_filename g then xp else yp)
      (if name = content_nodes_filename g then xn else yn) (st\<lparr>pcs_dir := d\<rparr>)" if "ok"
    using assms P s [OF that _ _ r(1)] s [OF that _ _ r(2)] poisedD(3,4) [OF P1] holds_sync [OF c]
    by (auto simp: synced_def)
  then show "if ok then poised b E g a xp xn (st\<lparr>pcs_dir := d\<rparr>) \<and>
      synced g (if name = content_payload_filename g then xp else yp)
        (if name = content_nodes_filename g then xn else yn) (st\<lparr>pcs_dir := d\<rparr>)
    else kept b E g a (st\<lparr>pcs_dir := d\<rparr>)"
    using k p by simp
qed

lemma sync_runs:
  "runs (kept b E g a) (poised b E g a xp xn) pcs_sync_content
    (\<lambda>_ st. poised b E g a xp xn st \<and> synced g xp xn st)"
proof -
  have one: "runs (kept b E g a) (poised b E g a xp xn) (callC e (dir_sync (content_payload_filename g)))
      (\<lambda>_ st. poised b E g a xp xn st \<and> synced g xp None st)" for e
    using sync_file_runs [of "content_payload_filename g" g b E a xp xn None None e]
    by (simp add: synced_def [of g None None])
  have two: "runs (kept b E g a) (\<lambda>st. poised b E g a xp xn st \<and> synced g xp None st)
      (callC e (dir_sync (content_nodes_filename g))) (\<lambda>_ st. poised b E g a xp xn st \<and> synced g xp xn st)" for e
    using sync_file_runs [of "content_nodes_filename g" g b E a xp xn xp None e] by simp
  have view: "runs (kept b E g a) (\<lambda>st. poised b E g a xp xn st \<and> synced g xp None st) (viewC nodes_file)
      (\<lambda>name st. name = content_nodes_filename g \<and> poised b E g a xp xn st \<and> synced g xp None st)"
    by (rule runs_view) (auto simp: nodes_file_def dest: poisedD(2) readyD(2) [OF poisedD(1)])
  show ?thesis
    unfolding pcs_sync_content_def Let_def
    by (intro runs_bind [OF writable_again_runs] runs_bind [OF handles_runs(3)] runs_pre)
      (auto intro!: runs_bind [OF one] runs_bind [OF view] runs_pre two)
qed

section \<open>Rollback\<close>

lemma rollback_keeps:
  assumes sha: "sha_ok E" and k: "kept b E g a st" and run: "pcs_rollback_to_committed st = (ok, st')"
  shows "kept b E g a st' \<and> (ok \<and> opened st \<longrightarrow>
    poised b E g a (Some (payload_image g a)) (Some (nodes_image g a)) st')"
proof (cases "opened st \<and> pcs_writable st \<and> is_ok (payload_frontier st) \<and> is_ok (node_frontier st)")
  case True
  then obtain np nn where n: "payload_frontier st = Inr np" "node_frontier st = Inr nn"
    unfolding is_ok_iff by blast
  note n = n payload_frontier_kept [OF k n(1)] node_frontier_kept [OF sha k n(2)]
  have P: "poised b E g a None None st"
    using True k by (simp add: poised_def ready_def)
  have names: "pcs_payload st = Some (content_payload_filename g)"
    using True k by (auto simp: opened_def kept_def)
  obtain r1 s1 where s1: "writeC pcs_absent (dir_set_len (content_payload_filename g) np) st = (r1, s1)"
    by (cases "writeC pcs_absent (dir_set_len (content_payload_filename g) np) st")
  have c1: "case r1 of Inl _ \<Rightarrow> kept b E g a s1 | Inr _ \<Rightarrow> poised b E g a (Some (payload_image g a)) None s1"
    using cut_payload_runs [OF n(3), of b E None None pcs_absent] P s1 by (auto simp: runs_def split: sum.splits)
  show ?thesis
  proof (cases r1)
    case (Inl e)
    then show ?thesis
      using run n names s1 c1 by (simp add: pcs_rollback_to_committed_def)
  next
    case (Inr u)
    then have P1: "poised b E g a (Some (payload_image g a)) None s1"
      using c1 by simp
    have names1: "pcs_nodes s1 = Some (content_nodes_filename g)"
      by (rule readyD(2) [OF poisedD(1) [OF P1]])
    obtain r2 s2 where s2: "writeC pcs_absent (dir_set_len (content_nodes_filename g) nn) s1 = (r2, s2)"
      by (cases "writeC pcs_absent (dir_set_len (content_nodes_filename g) nn) s1")
    have "case r2 of Inl _ \<Rightarrow> kept b E g a s2
        | Inr _ \<Rightarrow> poised b E g a (Some (payload_image g a)) (Some (nodes_image g a)) s2"
      using cut_nodes_runs [OF n(4), of b E "Some (payload_image g a)" None pcs_absent] P1 s2
      by (auto simp: runs_def split: sum.splits)
    then show ?thesis
      using run n names s1 Inr names1 s2 poisedD(2)
      by (cases r2) (auto simp: pcs_rollback_to_committed_def)
  qed
next
  case False
  then show ?thesis
    using run k
    by (auto simp: pcs_rollback_to_committed_def opened_def kept_def writeC_def committed_def is_ok_iff
        split: sum.splits option.splits if_splits)
qed

section \<open>Committing a delta\<close>

lemma physical_content_simps [simp]:
  "content_heal_for_write (physical_content E) = heal_for_write"
  "append_payload_delta (physical_content E) = pcs_append_payload_delta"
  "append_node_delta (physical_content E) = pcs_append_node_delta"
  "sync_content (physical_content E) = pcs_sync_content"
  "rollback_to_committed (physical_content E) = pcs_rollback_to_committed"
  "adopt_frontiers (physical_content E) = pcs_adopt_frontiers"
  "content_generation (physical_content E) = pcs_generation"
  "committed_payload_end (physical_content E) = pcs_payload_end"
  "committed_node_count (physical_content E) = pcs_node_count"
  "load_record (physical_content E) = pcs_load_record"
  "content_arena (physical_content E) = pcs_arena E"
  "prepare_physical_delta (physical_content E) = pcs_prepare_physical_delta E"
  "validate_committed_delta (physical_content E) = pcs_validate_committed_delta E"
  by (simp_all add: physical_content_def)

lemma runsD: "runs I P m Q \<Longrightarrow> P st \<Longrightarrow> m st = (r, st') \<Longrightarrow> case r of Inl _ \<Rightarrow> I st' | Inr x \<Rightarrow> Q x st'"
  by (auto simp: runs_def split: sum.splits)

lemma commit_steps_runs:
  assumes sha: "sha_ok E"
  shows "runs (kept b E g a) (kept b E g a) (commit_delta_steps (physical_content E) d)
    (\<lambda>_. poised b E g a (Some (payload_image g a @ delta_payload d)) (Some (nodes_image g a @ delta_nodes d)))"
  unfolding runs_def
proof (intro allI impI)
  fix st
  assume k: "kept b E g a st"
  let ?P = "\<lambda>xs ys. poised b E g a (Some (payload_image g a @ xs)) (Some (nodes_image g a @ ys))"
  let ?goal = "\<lambda>z. case z of (Inl e, st') \<Rightarrow> kept b E g a st' | (Inr x, st') \<Rightarrow> ?P (delta_payload d) (delta_nodes d) st'"
  obtain r1 s1 where h: "heal_for_write st = (r1, s1)"
    by (cases "heal_for_write st")
  note c1 = runsD [OF heal_runs [OF sha] k h]
  show "?goal (commit_delta_steps (physical_content E) d st)"
  proof (cases r1)
    case (Inl e)
    then show ?thesis
      using h c1 by (simp add: commit_delta_steps_def)
  next
    case r1: (Inr u)
    obtain r2 s2 where p: "pcs_append_payload_delta (delta_payload d) s1 = (r2, s2)"
      by (cases "pcs_append_payload_delta (delta_payload d) s1")
    have c2: "case r2 of Inl _ \<Rightarrow> kept b E g a s2 | Inr _ \<Rightarrow>
        poised b E g a (Some (payload_image g a @ delta_payload d)) (Some (nodes_image g a)) s2"
      using runsD [OF append_payload_runs _ p, of b E g a "Some (nodes_image g a)"] c1 r1 by simp
    show ?thesis
    proof (cases r2)
      case (Inl e)
      then show ?thesis
        using h r1 p c2 by (simp add: commit_delta_steps_def)
    next
      case r2: (Inr u)
      obtain r3 s3 where n: "pcs_append_node_delta (delta_nodes d) s2 = (r3, s3)"
        by (cases "pcs_append_node_delta (delta_nodes d) s2")
      have c3: "case r3 of Inl _ \<Rightarrow> kept b E g a s3 | Inr _ \<Rightarrow> ?P (delta_payload d) (delta_nodes d) s3"
        using runsD [OF append_nodes_runs [OF sha] _ n, of b g a "Some (payload_image g a @ delta_payload d)"] c2 r2 by simp
      obtain ok s4 where rb: "pcs_rollback_to_committed s3 = (ok, s4)"
        by (cases "pcs_rollback_to_committed s3")
      show ?thesis
        using h r1 p r2 n c3 rollback_keeps [OF sha _ rb]
        by (cases r3) (auto simp: commit_delta_steps_def rb)
    qed
  qed
qed

lemma delta_images:
  assumes "delta_between E g a a' root d"
  shows "payload_image h a' = payload_image h a @ delta_payload d" "nodes_image h a' = nodes_image h a @ delta_nodes d"
  using assms by (auto simp: delta_between_def payload_image_def nodes_image_def)

text \<open>Adopting the frontiers of a delta whose bytes are in the files.\<close>

lemma adopt_kept:
  assumes P: "poised b E g a (Some (payload_image g a')) (Some (nodes_image g a')) st" and wf: "arena_wf E a'"
    and s: "b' \<Longrightarrow> synced g (Some (payload_image g a')) (Some (nodes_image g a')) st"
  shows "kept b' E g a' (pcs_adopt_frontiers (length (seq_payload a')) (length (seq_nodes a')) st)"
proof -
  note r = poisedD(1) [OF P]
  have h: "holds b' (pcs_dir st) (content_payload_filename g) (payload_image g a')"
    "holds b' (pcs_dir st) (content_nodes_filename g) (nodes_image g a')"
    using s poisedD(3) [OF P refl] poisedD(4) [OF P refl] exact_bound readyD(5,6) [OF r]
    by (cases b'; auto simp: synced_def intro: exactly_holds)+
  have o: "opened (pcs_adopt_frontiers n m st) = opened st" for n m
    by (simp add: opened_def pcs_adopt_frontiers_def)
  have "opened st" "pcs_generation st = g" "g < width64"
    using r by (auto simp: ready_def kept_def committed_def)
  then show ?thesis
    using h wf unfolding kept_def committed_def o files_hold_def
    by (auto simp: pcs_adopt_frontiers_def intro: holds_starts)
qed

end
