(* ===== verification/Physical_Generation.thy ===== *)
theory Physical_Generation
  imports Physical_Commit
begin

text \<open>
  Opening a generation and building a new one.  \<open>open_existing\<close> accepts files that start with the
  images of an arena and gives back the store that holds it, whatever follows behind the frontiers
  and whatever a crash did to bytes that were never synced; it rejects files that are too short or
  belong to another generation.  Compaction writes the arena the in-memory compactor computes, syncs
  it, and leaves every file of other generations alone.
\<close>

section \<open>Opening\<close>

definition open_failed :: V2AvlError where
  "open_failed = V2AvlError.Invalid ''history physical content open failed''"

lemma open_outcome:
  assumes sha: "sha_ok E" and hold: "files_hold d g a" and wf: "arena_wf E a" and g: "g < width64"
  shows "open_existing d g (length (seq_payload a)) (length (seq_nodes a)) w = Inl open_failed \<or>
    (\<exists>st. open_existing d g (length (seq_payload a)) (length (seq_nodes a)) w = Inr st \<and> committed E st a \<and>
      opened st \<and> pcs_dir st = d \<and> pcs_generation st = g \<and> pcs_writable st = w)"
proof -
  let ?p = "content_payload_filename g" and ?n = "content_nodes_filename g"
  let ?st = "(with_handles (bare_store d g w))\<lparr>pcs_payload_end := length (seq_payload a), pcs_node_count := length (seq_nodes a)\<rparr>"
  have swp: "starts_with d ?p (payload_image g a)" and swn: "starts_with d ?n (nodes_image g a)"
    using hold by (auto simp: files_hold_def)
  have sz: "sized (seq_nodes a)"
    using nodes_ok_sized [OF sha] wf by (auto simp: arena_wf_def)
  have w: "16 + length (seq_payload a) < width64" "16 + length (seq_nodes a) * 72 < width64"
    using starts_with_length [OF swp] starts_with_length [OF swn] by (simp_all add: length_images sz)
  have rp: "read_exact_at d ?p 0 16 = Some (encode_physical_header PHYSICAL_PAYLOAD_MAGIC g) \<or> read_exact_at d ?p 0 16 = None"
    using exact_read [OF swp, of 0 16] by (simp add: payload_image_def)
  have rn: "read_exact_at d ?n 0 16 = Some (encode_physical_header PHYSICAL_NODE_MAGIC g) \<or> read_exact_at d ?n 0 16 = None"
    using exact_read [OF swn, of 0 16] by (simp add: nodes_image_def)
  have lp: "16 + length (seq_payload a) \<le> n" if "dir_length d ?p = Some n" for n
    using holds_length [OF that, of False "payload_image g a"] swp by (simp add: starts_holds length_images)
  have ln: "16 + length (seq_nodes a) * 72 \<le> n" if "dir_length d ?n = Some n" for n
    using holds_length [OF that, of False "nodes_image g a"] swn by (simp add: starts_holds length_images sz)
  have fr: "payload_frontier ?st = Inr (16 + length (seq_payload a))"
    "node_frontier ?st = Inr (16 + length (seq_nodes a) * 72)"
    using w by (simp_all add: payload_frontier_def node_frontier_def checked_add_def checked_mul_def)
  have "open_existing d g (length (seq_payload a)) (length (seq_nodes a)) w \<in> {Inl open_failed, Inr ?st}"
  proof (cases "dir_open d ?p \<and> dir_open d ?n \<and> read_exact_at d ?p 0 16 \<noteq> None \<and> read_exact_at d ?n 0 16 \<noteq> None")
    case True
    then have "open_existing d g (length (seq_payload a)) (length (seq_nodes a)) w =
       bindR (ok_or open_failed (dir_length d ?p)) (\<lambda>pl. bindR (ok_or open_failed (dir_length d ?n)) (\<lambda>nl.
         if pl < 16 + length (seq_payload a) \<or> nl < 16 + length (seq_nodes a) * 72 then
           Inl (V2AvlError.Invalid ''history physical content is shorter than its authoritative frontier'')
         else Inr ?st))"
      using rp rn g fr by (auto simp: open_existing_def Let_def open_failed_def)
    then show ?thesis
      using lp ln by (cases "dir_length d ?p"; cases "dir_length d ?n") (auto simp: not_less)
  qed (cases "read_exact_at d ?p 0 16"; auto simp: open_existing_def Let_def open_failed_def)
  moreover have "committed E ?st a" "opened ?st" "pcs_dir ?st = d" "pcs_generation ?st = g" "pcs_writable ?st = w"
    using hold wf g by (simp_all add: committed_def opened_def with_handles_def bare_store_def)
  ultimately show ?thesis
    by blast
qed

text \<open>Opening fails closed: success means both headers name the generation and both files reach the
  frontiers.\<close>

lemma header_read:
  assumes "read_exact_at d name 0 16 = Some h" "decode_physical_header m h = Inr g" "length m = 4"
  shows "\<exists>f. dir_files d name = Some f \<and> take 16 (file_bytes f) = encode_physical_header m g"
proof -
  obtain f where f: "dir_files d name = Some f" "slice_get (file_bytes f) 0 16 = Some h"
    using read_exact_at_sound [OF assms(1)] by auto
  have h: "length h = 16" "h = take 16 (file_bytes f)"
    using f(2) by (auto simp: slice_get_Some_iff)
  have d: "take 4 h = m" "take 4 (drop 12 h) = replicate 4 0" "g = le_nat (take 8 (drop 4 h))"
    using assms(2) by (auto simp: decode_physical_header_def Let_def split: if_splits)
  have "h = take 4 h @ take 8 (drop 4 h) @ take 4 (drop 12 h)"
    using concat_cut [of "[4, 8]" h] h(1) by simp
  then show ?thesis
    using f(1) h d by (auto simp: encode_physical_header_def)
qed

lemma open_fails_closed:
  assumes "open_existing d g pe nc w = Inr st" "g < width64"
  shows "\<exists>p n. dir_files d (content_payload_filename g) = Some p \<and> dir_files d (content_nodes_filename g) = Some n \<and>
    take 16 (file_bytes p) = encode_physical_header PHYSICAL_PAYLOAD_MAGIC g \<and>
    take 16 (file_bytes n) = encode_physical_header PHYSICAL_NODE_MAGIC g \<and>
    16 + pe \<le> length (file_bytes p) \<and> 16 + nc * 72 \<le> length (file_bytes n) \<and>
    pcs_payload_end st = pe \<and> pcs_node_count st = nc"
proof -
  let ?p = "content_payload_filename g" and ?n = "content_nodes_filename g"
  obtain hp hn lp ln where h: "read_exact_at d ?p 0 16 = Some hp" "read_exact_at d ?n 0 16 = Some hn"
    "decode_physical_header PHYSICAL_PAYLOAD_MAGIC hp = Inr g" "decode_physical_header PHYSICAL_NODE_MAGIC hn = Inr g"
    and l: "dir_length d ?p = Some lp" "dir_length d ?n = Some ln" "16 + pe \<le> lp" "16 + nc * 72 \<le> ln"
    and st: "pcs_payload_end st = pe" "pcs_node_count st = nc"
    using assms(1) unfolding open_existing_def Let_def
    by (auto simp: result_iffs checked_iffs payload_frontier_def node_frontier_def not_less split: if_splits)
  obtain p n where "dir_files d ?p = Some p" "take 16 (file_bytes p) = encode_physical_header PHYSICAL_PAYLOAD_MAGIC g"
    "dir_files d ?n = Some n" "take 16 (file_bytes n) = encode_physical_header PHYSICAL_NODE_MAGIC g"
    using header_read [OF h(1,3)] header_read [OF h(2,4)] by (auto simp: PHYSICAL_PAYLOAD_MAGIC_def PHYSICAL_NODE_MAGIC_def)
  then show ?thesis
    using l st by (auto simp: dir_length_def split: if_splits)
qed

section \<open>Crashes\<close>

text \<open>What a crash may leave: of every file that was ever synced at least the bytes on which its
  current and its synced contents agree, followed by anything.\<close>

fun agreed :: "'a list \<Rightarrow> 'a list \<Rightarrow> 'a list" where
  "agreed (x # xs) (y # ys) = (if x = y then x # agreed xs ys else [])"
| "agreed _ _ = []"

definition crashed :: "Directory \<Rightarrow> Directory \<Rightarrow> bool" where
  "crashed d d' \<longleftrightarrow> (\<forall>name f. dir_files d name = Some f \<longrightarrow> file_durable f \<noteq> [] \<longrightarrow>
     (\<exists>f'. dir_files d' name = Some f' \<and> extends (agreed (file_bytes f) (file_durable f)) (file_bytes f') \<and>
       (length (file_bytes f) < width64 \<longrightarrow> length (file_bytes f') < width64)))"

lemma agreed_prefix: "extends bs xs \<Longrightarrow> extends bs ys \<Longrightarrow> extends bs (agreed xs ys)"
  by (induction xs ys arbitrary: bs rule: agreed.induct) (auto simp: extends_def append_eq_Cons_conv Cons_eq_append_conv)

lemma crashed_holds:
  assumes "crashed d d'" "holds True d name bs" "bs \<noteq> []"
  shows "starts_with d' name bs"
proof -
  obtain f where f: "dir_files d name = Some f" "extends bs (file_bytes f)" "extends bs (file_durable f)"
    "length (file_bytes f) < width64"
    using assms(2) by (auto simp: holds_def)
  have "file_durable f \<noteq> []"
    using f(3) assms(3) by (auto simp: extends_def)
  then show ?thesis
    using assms(1) f agreed_prefix [OF f(2,3)] f(4) unfolding crashed_def starts_with_def by (blast intro: extends_trans)
qed

lemma images_nonempty [simp]: "payload_image g a \<noteq> []" "nodes_image g a \<noteq> []"
  by (simp_all add: payload_image_def nodes_image_def encode_physical_header_def)

lemma crash_keeps:
  assumes "kept True E g a st" "opened st" "crashed (pcs_dir st) d'"
  shows "files_hold d' g a"
  using assms by (auto simp: kept_def files_hold_def intro: crashed_holds)

section \<open>A new generation\<close>

definition others :: "Directory \<Rightarrow> u64 \<Rightarrow> Directory \<Rightarrow> bool" where
  "others d g d' \<longleftrightarrow> (\<forall>nm. nm \<noteq> content_payload_filename g \<longrightarrow> nm \<noteq> content_nodes_filename g \<longrightarrow>
     dir_files d' nm = dir_files d nm)"

lemma dir_calls_others:
  assumes "others d g d1" "name \<in> {content_payload_filename g, content_nodes_filename g}"
  shows "dir_write name at ys d1 = (ok, d2) \<Longrightarrow> others d g d2"
    "dir_sync name d1 = (ok, d2) \<Longrightarrow> others d g d2"
    "dir_create_truncate name d1 = (ok, d2) \<Longrightarrow> others d g d2"
  using assms by (auto simp: others_def dir_write_def dir_sync_def dir_create_truncate_def
      split: option.splits if_splits DirAnswer.splits prod.splits)

lemma exactly_truncate: "dir_create_truncate name d = (True, d') \<Longrightarrow> exactly d' name []"
  by (auto simp: exactly_def dir_create_truncate_def split: DirAnswer.splits prod.splits option.splits)

lemma exactly_truncate_other:
  "dir_create_truncate name d = (ok, d') \<Longrightarrow> exactly d nm xs \<Longrightarrow> nm \<noteq> name \<Longrightarrow> exactly d' nm xs"
  by (auto simp: exactly_def dir_create_truncate_def split: DirAnswer.splits prod.splits)

lemma empty_committed:
  assumes "pcs_generation st < width64" "opened st" "pcs_payload_end st = 0" "pcs_node_count st = 0"
    and "exactly (pcs_dir st) (content_payload_filename (pcs_generation st)) (encode_physical_header PHYSICAL_PAYLOAD_MAGIC (pcs_generation st))"
    and "exactly (pcs_dir st) (content_nodes_filename (pcs_generation st)) (encode_physical_header PHYSICAL_NODE_MAGIC (pcs_generation st))"
  shows "kept False E (pcs_generation st) empty_seq st"
  using assms empty_wf [of E] exactly_holds
  by (auto simp: kept_def committed_def files_hold_def starts_holds empty_seq_def payload_image_def nodes_image_def)

lemma recreate_outcome:
  assumes g: "g < width64" and run: "recreate d g = (r, d')"
  shows "others d g d' \<and> (case r of Inl _ \<Rightarrow> True | Inr st \<Rightarrow> pcs_dir st = d' \<and>
    poised False E g empty_seq (Some (payload_image g empty_seq)) (Some (nodes_image g empty_seq)) st)"
proof -
  let ?p = "content_payload_filename g" and ?n = "content_nodes_filename g"
  let ?hp = "encode_physical_header PHYSICAL_PAYLOAD_MAGIC g" and ?hn = "encode_physical_header PHYSICAL_NODE_MAGIC g"
  let ?O = "\<lambda>st. others d g (pcs_dir st)" and ?D = "pcs_dir :: PhysicalContentStore \<Rightarrow> Directory"
  let ?G = "\<lambda>st. \<exists>dd. st = bare_store dd g True \<and> others d g dd"
  define e where "e = V2AvlError.Invalid ''history physical content recreation failed''"
  define m where "m = bindC (callC e (dir_create_truncate ?p)) (\<lambda>_. bindC (callC e (dir_create_truncate ?n)) (\<lambda>_.
    bindC (callC e (dir_write ?p 0 ?hp)) (\<lambda>_. callC e (dir_write ?n 0 ?hn))))"
  have "runs ?O ?G m (\<lambda>_ st. exactly (?D st) ?p ?hp \<and> exactly (?D st) ?n ?hn \<and> ?G st)"
    unfolding m_def
    apply (rule runs_bind [where Q = "\<lambda>_ st. exactly (?D st) ?p [] \<and> ?G st"])
     apply (rule runs_call, auto simp: bare_store_def dest: exactly_truncate dir_calls_others(3)) [1]
    apply (rule runs_bind [where Q = "\<lambda>_ st. exactly (?D st) ?p [] \<and> exactly (?D st) ?n [] \<and> ?G st"])
     apply (rule runs_call, auto simp: bare_store_def dest: exactly_truncate exactly_truncate_other dir_calls_others(3)) [1]
    apply (rule runs_bind [where Q = "\<lambda>_ st. exactly (?D st) ?p ?hp \<and> exactly (?D st) ?n [] \<and> ?G st"])
     apply (rule runs_call, auto simp: bare_store_def dest: exactly_write_empty exactly_write_other dir_calls_others(1)) [1]
    apply (rule runs_call, auto simp: bare_store_def dest: exactly_write_empty exactly_write_other dir_calls_others(1)) [1]
    done
  moreover have "?G (bare_store d g True)"
    by (auto simp: others_def)
  moreover obtain x st where x: "m (bare_store d g True) = (x, st)"
    by (cases "m (bare_store d g True)")
  moreover have rc: "recreate d g = (case m (bare_store d g True) of (Inl e, st) \<Rightarrow> (Inl e, pcs_dir st)
      | (Inr _, st) \<Rightarrow> (Inr (with_handles st), pcs_dir st))"
    by (simp add: recreate_def m_def e_def Let_def)
  ultimately have res: "case x of Inl _ \<Rightarrow> ?O st | Inr _ \<Rightarrow> exactly (?D st) ?p ?hp \<and> exactly (?D st) ?n ?hn \<and> ?G st"
    by (auto dest!: runsD)
  show ?thesis
  proof (cases x)
    case (Inl y)
    then show ?thesis
      using run rc x res by auto
  next
    case (Inr u)
    then obtain dd where dd: "st = bare_store dd g True" "others d g dd" "exactly dd ?p ?hp" "exactly dd ?n ?hn"
      using res by (auto simp: bare_store_def)
    let ?st = "with_handles st"
    have o: "opened ?st" "pcs_generation ?st = g" "pcs_dir ?st = dd" "pcs_writable ?st" "pcs_payload_end ?st = 0" "pcs_node_count ?st = 0"
      by (simp_all add: dd(1) opened_def with_handles_def bare_store_def)
    have "kept False E g empty_seq ?st"
      using empty_committed [of ?st E] o g dd by simp
    then have "poised False E g empty_seq (Some ?hp) (Some ?hn) ?st"
      using o dd by (simp add: poised_def ready_def)
    moreover have "r = Inr ?st" "d' = dd"
      using run rc x Inr dd(1) by (auto simp: bare_store_def)
    ultimately show ?thesis
      using dd o by simp
  qed
qed

lemma grow_nodes_again_runs:
  assumes "extends (nodes_image g a) xs"
  shows "runs (kept b E g a) (poised b E g a xp (Some xs))
    (writeC e (dir_write (content_nodes_filename g) (length xs) ys)) (\<lambda>_. poised b E g a xp (Some (xs @ ys)))"
proof (rule runs_write)
  fix st ok d
  assume P: "poised b E g a xp (Some xs) st" and c: "dir_write (content_nodes_filename g) (length xs) ys (pcs_dir st) = (ok, d)"
  note r = readyD(5,6) [OF poisedD(1) [OF P]]
  have h: "holds b d (content_payload_filename g) (payload_image g a)" "holds b d (content_nodes_filename g) (nodes_image g a)"
    using r extends_length [OF assms] by (auto intro: holds_write [OF c])
  show "if ok then poised b E g a xp (Some (xs @ ys)) (st\<lparr>pcs_dir := d\<rparr>) else kept b E g a (st\<lparr>pcs_dir := d\<rparr>)"
    using poised_dir [OF P h, of xp "Some (xs @ ys)"] kept_dir [OF poisedD(2) [OF P]] h c
      exactly_write(1) [OF _ poisedD(4) [OF P refl] refl] exactly_write_other [OF c] poisedD(3) [OF P]
    by (cases ok) auto
qed (rule poisedD(2))

lemma write_records_runs:
  "extends (nodes_image g a) xs \<Longrightarrow> runs (kept b E g a) (poised b E g a xp (Some xs))
    (write_records e (content_nodes_filename g) (length xs) recs)
    (\<lambda>_. poised b E g a xp (Some (xs @ concat (map encode_v2_node recs))))"
proof (induction recs arbitrary: xs)
  case (Cons r recs)
  have "extends (nodes_image g a) (xs @ encode_v2_node r)"
    using Cons.prems by (auto simp: extends_def)
  from Cons.IH [OF this] show ?case
    by (simp del: append_assoc add: append_assoc [symmetric])
      (rule runs_bind [OF grow_nodes_again_runs [OF Cons.prems]], simp)
qed (simp add: runs_ok)

lemma write_generation_runs:
  "runs (kept b E g empty_seq) (poised b E g empty_seq (Some (payload_image g empty_seq)) (Some (nodes_image g empty_seq)))
    (write_generation pl recs)
    (\<lambda>_ st. let xp = Some (payload_image g empty_seq @ pl); xn = Some (nodes_image g empty_seq @ concat (map encode_v2_node recs))
      in poised b E g empty_seq xp xn st \<and> synced g xp xn st)"
proof -
  let ?p = "payload_image g empty_seq" and ?n = "nodes_image g empty_seq" and ?rs = "concat (map encode_v2_node recs)"
  have len: "length ?p = 16" "length ?n = 16"
    by simp_all
  have one: "runs (kept b E g empty_seq) (poised b E g empty_seq (Some ?p) (Some ?n))
      (if pl = [] then okC () else bindC (viewC (\<lambda>st. ok_or e (pcs_payload st))) (\<lambda>name.
         writeC e (dir_write name PHYSICAL_HEADER_SIZE pl)))
      (\<lambda>_. poised b E g empty_seq (Some (?p @ pl)) (Some ?n))" for e
    using grow_payload_runs [of b E g empty_seq "Some ?n" e pl] len
    by (intro runs_if runs_ok runs_bind [OF handles_runs(5)] runs_pre) simp_all
  have two: "runs (kept b E g empty_seq) (poised b E g empty_seq (Some (?p @ pl)) (Some ?n))
      (if recs = [] then okC () else bindC (viewC (\<lambda>st. ok_or e (pcs_nodes st))) (\<lambda>name.
         write_records e name PHYSICAL_HEADER_SIZE recs))
      (\<lambda>_. poised b E g empty_seq (Some (?p @ pl)) (Some (?n @ ?rs)))" for e
    using write_records_runs [of g empty_seq ?n b E "Some (?p @ pl)" e recs] len
    by (intro runs_if runs_ok runs_bind [OF handles_runs(6)] runs_pre) simp_all
  show ?thesis
    unfolding write_generation_def Let_def
    by (rule runs_bind [OF one], rule runs_bind [OF two], rule sync_runs)
qed

text \<open>Nothing but the two new files changes.\<close>

definition calm :: "Directory \<Rightarrow> u64 \<Rightarrow> PhysicalContentStore \<Rightarrow> bool" where
  "calm d g st \<longleftrightarrow> opened st \<and> pcs_writable st \<and> pcs_generation st = g \<and> others d g (pcs_dir st)"

lemma calm_calls:
  assumes "name \<in> {content_payload_filename g, content_nodes_filename g}"
  shows "runs (calm d g) (calm d g) (writeC e (dir_write name at ys)) (\<lambda>_. calm d g)"
    "runs (calm d g) (calm d g) (callC e (dir_sync name)) (\<lambda>_. calm d g)"
  by (rule runs_write runs_call; simp add: calm_def; use dir_calls_others [OF _ assms] in blast)+

lemma calm_handles:
  "runs (calm d g) (calm d g) (viewC (\<lambda>st. ok_or e (pcs_payload st))) (\<lambda>name st. name = content_payload_filename g \<and> calm d g st)"
  "runs (calm d g) (calm d g) (viewC (\<lambda>st. ok_or e (pcs_nodes st))) (\<lambda>name st. name = content_nodes_filename g \<and> calm d g st)"
  "runs (calm d g) (calm d g) (viewC payload_file) (\<lambda>name st. name = content_payload_filename g \<and> calm d g st)"
  "runs (calm d g) (calm d g) (viewC nodes_file) (\<lambda>name st. name = content_nodes_filename g \<and> calm d g st)"
  by (rule runs_view; auto simp: calm_def opened_def payload_file_def nodes_file_def)+

lemma calm_records:
  "runs (calm d g) (calm d g) (write_records e (content_nodes_filename g) at recs) (\<lambda>_. calm d g)"
  by (induction recs arbitrary: at) (auto intro!: runs_ok runs_bind [OF calm_calls(1)])

lemma calm_writable: "runs (calm d g) (calm d g) ensure_writable (\<lambda>_. calm d g)"
  by (auto simp: runs_def ensure_writable_def bindC_def ensure_open_def calm_def opened_def)

lemma calm_sync: "runs (calm d g) (calm d g) pcs_sync_content (\<lambda>_. calm d g)"
  unfolding pcs_sync_content_def Let_def
  by (intro runs_bind [OF calm_writable] runs_bind [OF calm_handles(3)] runs_pre)
    (auto intro!: runs_bind [OF calm_calls(2)] runs_bind [OF calm_handles(4)] runs_pre calm_calls(2))

lemma calm_generation: "runs (calm d g) (calm d g) (write_generation pl recs) (\<lambda>_. calm d g)"
proof -
  have one: "runs (calm d g) (calm d g) (if pl = [] then okC () else bindC (viewC (\<lambda>st. ok_or e (pcs_payload st))) (\<lambda>name.
      writeC e (dir_write name PHYSICAL_HEADER_SIZE pl))) (\<lambda>_. calm d g)" for e
    by (intro runs_if runs_ok runs_bind [OF calm_handles(1)] runs_pre) (auto intro: calm_calls(1))
  have two: "runs (calm d g) (calm d g) (if recs = [] then okC () else bindC (viewC (\<lambda>st. ok_or e (pcs_nodes st))) (\<lambda>name.
      write_records e name PHYSICAL_HEADER_SIZE recs)) (\<lambda>_. calm d g)" for e
    by (intro runs_if runs_ok runs_bind [OF calm_handles(2)] runs_pre) (auto intro: calm_records)
  show ?thesis
    unfolding write_generation_def Let_def
    by (rule runs_bind [OF one], rule runs_bind [OF two], rule calm_sync)
qed

section \<open>Compaction\<close>

definition gc_faults :: "V2AvlError set" where
  "gc_faults = content_faults \<union> {V2AvlError.Invalid ''history physical content recreation failed'',
     V2AvlError.Invalid ''history physical GC generation write failed'',
     V2AvlError.Invalid ''history physical content sync failed''}"

lemma seeds_outcome:
  assumes sha: "sha_ok E" and c: "committed E st a" and seeds: "\<forall>r\<in>set seeds. child_ok (seq_nodes a) r"
  shows "traverse (physical_seed st) seeds = Inr (map root_node_id seeds) \<or>
    (\<exists>e\<in>content_faults. traverse (physical_seed st) seeds = Inl e)"
  using seeds
proof (induction seeds)
  case (Cons r seeds)
  have r: "root_node_id r < length (seq_nodes a)"
    "V2RootRecord_from_node (root_node_id r) (node_record (seq_nodes a ! root_node_id r)) = Inr r"
    using Cons.prems by (auto simp: child_ok_def get_at_Some_iff)
  have "physical_seed st r = Inr (root_node_id r) \<or> (\<exists>e\<in>content_faults. physical_seed st r = Inl e)"
    using load_record_committed [OF sha c r(1)] r(2) by (auto simp: physical_seed_def content_faults_def)
  then show ?case
    using Cons by auto
qed simp

lemma load_all_outcome:
  assumes sha: "sha_ok E" and c: "committed E st a" and w: "length (seq_nodes a) < width64"
  shows "pcs_load_all_records E st = Inr (map node_record (seq_nodes a)) \<or>
    (\<exists>e\<in>content_faults. pcs_load_all_records E st = Inl e) \<or>
    (\<exists>m. pcs_load_all_records E st = Inl (V2AvlError.Capacity m) \<and> reservation_refused E m)"
proof -
  have "traverse (pcs_load_record st) is = Inr (map (\<lambda>i. node_record (seq_nodes a ! i)) is) \<or>
      (\<exists>e\<in>content_faults. traverse (pcs_load_record st) is = Inl e)" if "\<forall>i\<in>set is. i < length (seq_nodes a)" for "is"
    using that
  proof (induction "is")
    case (Cons i "is")
    have "pcs_load_record st i = Inr (node_record (seq_nodes a ! i)) \<or> (\<exists>e\<in>content_faults. pcs_load_record st i = Inl e)"
      using load_record_committed [OF sha c, of i] Cons.prems by (auto simp: content_faults_def)
    then show ?case
      using Cons by auto
  qed simp
  moreover have "map (\<lambda>i. node_record (seq_nodes a ! i)) [0..<length (seq_nodes a)] = map node_record (seq_nodes a)"
    by (rule nth_equalityI) auto
  ultimately have "traverse (pcs_load_record st) [0..<length (seq_nodes a)] = Inr (map node_record (seq_nodes a)) \<or>
      (\<exists>e\<in>content_faults. traverse (pcs_load_record st) [0..<length (seq_nodes a)] = Inl e)"
    by (metis atLeastLessThan_iff set_upt)
  then show ?thesis
    using w committedD(5) [OF c] by (auto simp: pcs_load_all_records_def try_from_def intro: reservation_refusedI)
qed

lemma read_all_outcome:
  assumes "committed E st a"
  shows "pcs_read_all_payload E st = Inr (seq_payload a) \<or> (\<exists>e\<in>content_faults. pcs_read_all_payload E st = Inl e)"
  using read_payload_committed [OF assms, of 0 "length (seq_payload a)"] committedD(4) [OF assms]
  by (cases "pcs_read_all_payload E st") (auto simp: pcs_read_all_payload_def)

definition stopped_gc :: "env \<Rightarrow> V2AvlError \<Rightarrow> bool" where
  "stopped_gc E e \<longleftrightarrow> e \<in> gc_faults \<or> (\<exists>m. e = V2AvlError.Capacity m \<and> reservation_refused E m)"

text \<open>The plan is the one of the in-memory compactor.\<close>

lemma plan_outcome:
  assumes sha: "sha_ok E" and c: "committed E st a" and seeds: "\<forall>r\<in>set seeds. child_ok (seq_nodes a) r"
    and room: "length (seq_nodes a) + length seeds < width64"
  defines "ids \<equiv> live_ids a seeds"
  shows "(\<exists>e. plan_physical_generation E st seeds = Inl e \<and> stopped_gc E e) \<or>
    plan_physical_generation E st seeds = Inr (seq_payload (compacted a ids),
      map node_record (seq_nodes (compacted a ids)), id_map ids (length ids)) \<and>
    selection E (seq_payload a) (seq_nodes a) ids \<and> set ids = reachable (seq_nodes a) (map root_node_id seeds)"
proof -
  let ?pl = "seq_payload a" and ?ns = "seq_nodes a" and ?ids = "map root_node_id seeds"
  have ok: "nodes_ok E ?pl ?ns" and plw: "length ?pl < width64"
    using committedD(2) [OF c] payload_u64 [OF committedD(1) [OF c]] by auto
  have in_range: "\<forall>i\<in>set ?ids. i < length ?ns \<and> i < V2_NONE_NODE"
    using seeds by (auto simp: child_ok_def get_at_Some_iff)
  have cap: "stopped_gc E (V2AvlError.Capacity m)" if "\<not> try_reserve E m k" for m k
    using reservation_refusedI [OF that] by (auto simp: stopped_gc_def)
  have fault: "stopped_gc E e" if "e \<in> content_faults" for e
    using that by (auto simp: stopped_gc_def gc_faults_def)
  note plan = plan_reachable_total [OF sha ok plw _ in_range, unfolded length_map, OF room]
  consider (Early) e where "plan_physical_generation E st seeds = Inl e" "stopped_gc E e"
    | (Loaded) "try_reserve E ''history physical GC seed allocation failed'' (length seeds)"
        "traverse (physical_seed st) seeds = Inr ?ids" "pcs_load_all_records E st = Inr (map node_record ?ns)"
        "pcs_read_all_payload E st = Inr ?pl"
    using seeds_outcome [OF sha c seeds] load_all_outcome [OF sha c] read_all_outcome [OF c] room cap fault
    unfolding plan_physical_generation_def stopped_gc_def
    by (cases "try_reserve E ''history physical GC seed allocation failed'' (length seeds)") fastforce+
  then show ?thesis
  proof cases
    case Early
    then show ?thesis
      by blast
  next
    case Loaded
    have run: "plan_physical_generation E st seeds =
      bindR (map_err avl_error_of_compaction (plan_reachable_arena E ?pl (map node_record ?ns) ?ids)) (\<lambda>(retained, ranges).
      bindR (map_err avl_error_of_compaction (repack_compact_ranges E ?pl ranges)) (\<lambda>(compact_payload, payload_mapping).
      bindR (map_err avl_error_of_compaction
        (rebuild_compact_records E (map node_record ?ns) retained compact_payload payload_mapping)) (\<lambda>(compact_records, node_mapping).
      if length compact_records \<noteq> length retained then
        Inl (V2AvlError.Invalid ''history physical GC node table disagrees with its retained set'')
      else Inr (compact_payload, compact_records, node_mapping))))"
      using Loaded by (simp add: plan_physical_generation_def)
    show ?thesis
    proof (cases "plan_reachable_arena E ?pl (map node_record ?ns) ?ids")
      case (Inl e)
      then show ?thesis
        using plan run by (auto simp: planned_def stopped_gc_def intro: reservation_refusedI)
    next
      case planr: (Inr r)
      have r: "r = (ids, map (\<lambda>i. leaf_range (?ns ! i)) (retained_leaves ?ns ids))"
        and idsr: "set ids = reachable ?ns ?ids" "set ids \<subseteq> {..<length ?ns} \<inter> {..<V2_NONE_NODE}"
        using plan planr by (auto simp: planned_def ids_def live_ids_def)
      have s: "selection E ?pl ?ns ids"
        using reachable_selection [OF sha ok] idsr by (simp add: ids_def live_ids_def)
      note pack = repack_total [OF selectionD(2-4) [OF s]]
      have empty: "moved_nodes ?ns ids 0 = []" "id_map ids 0 = []"
        by (simp_all add: moved_nodes_def id_map_def)
      note loop = rebuild_loop_total [OF s, of "length ids" 0, unfolded empty]
      show ?thesis
      proof (cases "repack_compact_ranges E ?pl (map (\<lambda>i. leaf_range (?ns ! i)) (retained_leaves ?ns ids))")
        case (Inl e)
        then show ?thesis
          using pack planr r run by (auto simp: planned_def stopped_gc_def intro: reservation_refusedI)
      next
        case (Inr q)
        then have q: "q = (compact_bytes ?pl ?ns ids, compact_map ?ns ids)"
          using pack by (simp add: planned_def)
        show ?thesis
          using planr r Inr q loop s idsr(1) run cap
          by (auto simp: rebuild_compact_records_def compacted_def)
      qed
    qed
  qed
qed

text \<open>The errors of the writing part.\<close>

definition errs :: "V2AvlError set \<Rightarrow> (PhysicalContentStore \<Rightarrow> bool) \<Rightarrow> 'r pcs_prog \<Rightarrow> bool" where
  "errs X P m \<longleftrightarrow> (\<forall>st e st'. P st \<longrightarrow> m st = (Inl e, st') \<longrightarrow> e \<in> X)"

lemma errs_bind: "errs X P m \<Longrightarrow> runs I P m Q \<Longrightarrow> (\<And>x. errs X (Q x) (k x)) \<Longrightarrow> errs X P (bindC m k)"
  by (fastforce simp: errs_def runs_def bindC_def split: prod.splits sum.splits)

lemma errs_basic:
  "e \<in> X \<Longrightarrow> errs X P (callC e f)" "e \<in> X \<Longrightarrow> errs X P (writeC e f)" "errs X P (okC x)"
  "e \<in> X \<Longrightarrow> errs X P (viewC (\<lambda>st. ok_or e (h st)))"
  by (auto simp: errs_def callC_def writeC_def okC_def viewC_def result_iffs split: prod.splits if_splits)

lemma errs_if: "errs X P m \<Longrightarrow> errs X P n \<Longrightarrow> errs X P (if c then m else n)"
  by simp

lemma errs_pre: "(c \<Longrightarrow> errs X P m) \<Longrightarrow> errs X (\<lambda>st. c \<and> P st) m"
  by (auto simp: errs_def)

lemma errs_calm:
  "errs X (calm d g) ensure_writable" "errs X (calm d g) (viewC payload_file)" "errs X (calm d g) (viewC nodes_file)"
  by (auto simp: errs_def ensure_writable_def bindC_def ensure_open_def viewC_def calm_def opened_def payload_file_def
      nodes_file_def)

lemma errs_records: "e \<in> X \<Longrightarrow> errs X (calm d g) (write_records e (content_nodes_filename g) at recs)"
  by (induction recs arbitrary: at) (auto intro!: errs_basic errs_bind [OF _ calm_calls(1)])

lemma errs_sync: "errs gc_faults (calm d g) pcs_sync_content"
  unfolding pcs_sync_content_def Let_def
  by (intro errs_bind [OF _ calm_writable] errs_bind [OF _ calm_handles(3)] errs_pre errs_calm)
    (auto intro!: errs_bind [OF _ calm_calls(2)] errs_bind [OF _ calm_handles(4)] errs_pre errs_calm errs_basic
      simp: gc_faults_def)

lemma errs_generation: "errs gc_faults (calm d g) (write_generation pl recs)"
proof -
  let ?e = "V2AvlError.Invalid ''history physical GC generation write failed''"
  let ?p = "if pl = [] then okC () else bindC (viewC (\<lambda>st. ok_or ?e (pcs_payload st))) (\<lambda>name.
      writeC ?e (dir_write name PHYSICAL_HEADER_SIZE pl))"
  let ?n = "if recs = [] then okC () else bindC (viewC (\<lambda>st. ok_or ?e (pcs_nodes st))) (\<lambda>name.
      write_records ?e name PHYSICAL_HEADER_SIZE recs)"
  have e: "?e \<in> gc_faults"
    by (simp add: gc_faults_def)
  have one: "runs (calm d g) (calm d g) ?p (\<lambda>_. calm d g)"
    by (intro runs_if runs_ok runs_bind [OF calm_handles(1)] runs_pre) (auto intro: calm_calls(1))
  have two: "runs (calm d g) (calm d g) ?n (\<lambda>_. calm d g)"
    by (intro runs_if runs_ok runs_bind [OF calm_handles(2)] runs_pre) (auto intro: calm_records)
  have "errs gc_faults (calm d g) ?p"
    using e by (intro errs_if errs_basic(3) errs_bind [OF _ calm_handles(1)] errs_pre) (auto intro: errs_basic)
  moreover have "errs gc_faults (calm d g) ?n"
    using e by (intro errs_if errs_basic(3) errs_bind [OF _ calm_handles(2)] errs_pre) (auto intro: errs_basic errs_records)
  ultimately show ?thesis
    unfolding write_generation_def Let_def by (intro errs_bind [OF _ one] errs_bind [OF _ two] errs_sync)
qed

lemma recreate_error: "recreate d g = (Inl e, d') \<Longrightarrow> e = V2AvlError.Invalid ''history physical content recreation failed''"
  by (auto simp: recreate_def Let_def bindC_def callC_def split: prod.splits sum.splits if_splits)

text \<open>The roots of the build.\<close>

lemma gc_roots_outcome:
  assumes s: "selection E (seq_payload a) (seq_nodes a) ids" and seeds: "\<forall>r\<in>set seeds. child_ok (seq_nodes a) r"
    and ids: "set (map root_node_id seeds) \<subseteq> set ids"
  shows "physical_gc_roots E (map node_record (seq_nodes (compacted a ids))) (id_map ids (length ids)) seeds =
      Inr (map (moved_root ids) seeds) \<or>
    (\<exists>m. physical_gc_roots E (map node_record (seq_nodes (compacted a ids))) (id_map ids (length ids)) seeds =
      Inl (V2AvlError.Capacity m) \<and> reservation_refused E m)"
proof -
  have "physical_gc_root (map node_record (seq_nodes (compacted a ids))) (id_map ids (length ids)) r = Inr (moved_root ids r)"
    if "r \<in> set seeds" for r
  proof -
    have "compact_root (moved_nodes (seq_nodes a) ids (length ids)) (id_map ids (length ids)) r = Inr (moved_root ids r)"
      using that seeds ids by (intro remap_root [OF s]) auto
    then show ?thesis
      by (auto simp: physical_gc_root_def compact_root_def compacted_def result_iffs checked_iffs get_at_Some_iff)
  qed
  then have tr: "traverse (physical_gc_root (map node_record (seq_nodes (compacted a ids))) (id_map ids (length ids))) seeds =
      Inr (map (moved_root ids) seeds)"
    by (intro traverse_map_Inr)
  have "\<not> list_ex (\<lambda>(old, new). root_commitment old \<noteq> root_commitment new \<or> root_len old \<noteq> root_len new)
      (zip seeds (map (moved_root ids) seeds))"
    by (induction seeds) auto
  then show ?thesis
    by (auto simp: physical_gc_roots_def tr intro: reservation_refusedI)
qed

lemma other_generation:
  assumes "g \<noteq> h" "g < width64" "h < width64" "others d h d'"
  shows "dir_files d' (content_payload_filename g) = dir_files d (content_payload_filename g)"
    "dir_files d' (content_nodes_filename g) = dir_files d (content_nodes_filename g)"
proof -
  have "content_payload_filename g \<noteq> content_payload_filename h" "content_nodes_filename g \<noteq> content_nodes_filename h"
    using assms(1-3) by (simp_all add: content_payload_filename_def content_nodes_filename_def padded_inject)
  then show "dir_files d' (content_payload_filename g) = dir_files d (content_payload_filename g)"
    "dir_files d' (content_nodes_filename g) = dir_files d (content_nodes_filename g)"
    using assms(4) by (simp_all add: others_def)
qed

lemma others_keep:
  assumes k: "kept b E g a st" and "g \<noteq> h" "h < width64" "others (pcs_dir st) h d'"
  shows "kept b E g a (st\<lparr>pcs_dir := d'\<rparr>)"
proof -
  have "g < width64"
    using k by (simp add: kept_def committed_def)
  note same = other_generation [OF assms(2) this assms(3,4)]
  show ?thesis
    using k by (intro kept_dir [OF k]) (simp add: kept_def holds_def same)
qed

lemma compacted_images:
  "payload_image g (compacted a ids) = payload_image g empty_seq @ seq_payload (compacted a ids)"
  "nodes_image g (compacted a ids) = nodes_image g empty_seq @
     concat (map encode_v2_node (map node_record (seq_nodes (compacted a ids))))"
  by (simp_all add: payload_image_def nodes_image_def empty_seq_def node_table_def comp_def)

lemma compact_physical_outcome:
  assumes sha: "sha_ok E" and k: "kept b E g a st" and seeds: "\<forall>r\<in>set seeds. child_ok (seq_nodes a) r"
    and room: "length (seq_nodes a) + length seeds < width64" and h: "h \<noteq> g" "h < width64"
    and run: "pcs_compact_physical_generation E st seeds h = (r, d')"
  defines "ids \<equiv> live_ids a seeds"
  shows "kept b E g a (st\<lparr>pcs_dir := d'\<rparr>) \<and> (case r of
      Inl e \<Rightarrow> stopped_gc E e
    | Inr build \<Rightarrow> pcs_dir (build_store build) = d' \<and> opened (build_store build) \<and>
        kept True E h (compacted a ids) (build_store build) \<and> build_roots build = map (moved_root ids) seeds \<and>
        selection E (seq_payload a) (seq_nodes a) ids \<and> set ids = reachable (seq_nodes a) (map root_node_id seeds))"
proof -
  have c: "committed E st a"
    using k by (simp add: kept_def)
  have cap: "stopped_gc E (V2AvlError.Capacity m)" if "reservation_refused E m" for m
    using that by (auto simp: stopped_gc_def)
  note keep = others_keep [OF k h(1) [symmetric] h(2)]
  let ?c = "compacted a ids"
  let ?pl = "seq_payload ?c" and ?recs = "map node_record (seq_nodes ?c)" and ?map = "id_map ids (length ids)"
  from plan_outcome [OF sha c seeds room] show ?thesis
  proof (elim disjE exE conjE)
    fix e
    assume "plan_physical_generation E st seeds = Inl e" "stopped_gc E e"
    then show ?thesis
      using run keep [of "pcs_dir st"] by (auto simp: pcs_compact_physical_generation_def others_def)
  next
    assume plan: "plan_physical_generation E st seeds = Inr (seq_payload (compacted a (live_ids a seeds)),
        map node_record (seq_nodes (compacted a (live_ids a seeds))), id_map (live_ids a seeds) (length (live_ids a seeds)))"
      and sel: "selection E (seq_payload a) (seq_nodes a) (live_ids a seeds)"
      and ids: "set (live_ids a seeds) = reachable (seq_nodes a) (map root_node_id seeds)"
    note plan = plan [folded ids_def] and sel = sel [folded ids_def] and ids = ids [folded ids_def]
    obtain rr d1 where rc: "recreate (pcs_dir st) h = (rr, d1)"
      by (cases "recreate (pcs_dir st) h")
    note ro = recreate_outcome [OF h(2) rc, of E]
    show ?thesis
    proof (cases rr)
      case (Inl e)
      then show ?thesis
        using run plan rc ro keep [of d1] recreate_error by (auto simp: pcs_compact_physical_generation_def stopped_gc_def gc_faults_def)
    next
      case (Inr fresh)
      then have P: "poised False E h empty_seq (Some (payload_image h empty_seq)) (Some (nodes_image h empty_seq)) fresh"
        and o1: "others (pcs_dir st) h (pcs_dir fresh)"
        using ro by auto
      have cf: "calm (pcs_dir st) h fresh"
        using o1 P by (auto simp: calm_def poised_def ready_def kept_def)
      obtain r2 s2 where w: "write_generation ?pl ?recs fresh = (r2, s2)"
        by (cases "write_generation ?pl ?recs fresh")
      have calm2: "calm (pcs_dir st) h s2"
        using runsD [OF calm_generation cf w] by (cases r2) auto
      have keep2: "kept b E g a (st\<lparr>pcs_dir := pcs_dir s2\<rparr>)"
        using keep calm2 by (simp add: calm_def)
      show ?thesis
      proof (cases r2)
        case (Inl e)
        then have "stopped_gc E e"
          using errs_generation cf w unfolding errs_def stopped_gc_def by blast
        then show ?thesis
          using run plan rc \<open>rr = Inr fresh\<close> w Inl keep2 by (auto simp: pcs_compact_physical_generation_def)
      next
        case r2: (Inr u)
        let ?b = "pcs_adopt_frontiers (length ?pl) (length ?recs) s2"
        have P2: "poised False E h empty_seq (Some (payload_image h ?c)) (Some (nodes_image h ?c)) s2"
          "synced h (Some (payload_image h ?c)) (Some (nodes_image h ?c)) s2"
          using runsD [OF write_generation_runs P w] r2 by (simp_all add: compacted_images Let_def)
        have kb: "kept True E h ?c ?b"
          using adopt_kept [OF P2(1) compacted_wf [OF sel] P2(2)] by simp
        have ob: "opened ?b" "pcs_dir ?b = pcs_dir s2"
          using calm2 by (simp_all add: calm_def opened_def pcs_adopt_frontiers_def)
        have sub: "set (map root_node_id seeds) \<subseteq> set ids"
          unfolding ids by (rule subsetI) (rule reachable.seed)
        have run2: "(r, d') = (case physical_gc_roots E ?recs ?map seeds of
            Inl e \<Rightarrow> (Inl e, pcs_dir ?b)
          | Inr roots \<Rightarrow> (Inr \<lparr>build_store = ?b, build_roots = roots, build_nodes_before = pcs_node_count st,
              build_nodes_after = length ?recs, build_payload_bytes_before = pcs_payload_end st,
              build_payload_bytes_after = length ?pl\<rparr>, pcs_dir ?b))"
          using run by (cases "physical_gc_roots E ?recs ?map seeds")
            (simp_all add: pcs_compact_physical_generation_def plan rc \<open>rr = Inr fresh\<close> w r2 Let_def)
        from gc_roots_outcome [OF sel seeds sub] show ?thesis
        proof (elim disjE exE conjE)
          assume "physical_gc_roots E ?recs ?map seeds = Inr (map (moved_root ids) seeds)"
          then show ?thesis
            using run2 keep2 kb ob sel ids by simp
        next
          fix m
          assume "physical_gc_roots E ?recs ?map seeds = Inl (V2AvlError.Capacity m)" "reservation_refused E m"
          then show ?thesis
            using run2 keep2 ob cap by simp
        qed
      qed
    qed
  qed
qed

end
