(* ===== verification/Physical_Seam.thy ===== *)
theory Physical_Seam
  imports Physical_Generation
begin

text \<open>
  The sequence seam over the content store.  A \<open>BalancedSequence\<close> on files behaves as one in memory:
  it resolves the same roots, reads the same bytes and splices to the same result, unless the medium
  fails, and a failure leaves it holding what it held.
\<close>

definition on_disk :: "PhysicalContentStore \<Rightarrow> SequenceWorkCounters \<Rightarrow> PhysicalContentStore BalancedSequence" where
  "on_disk st w = \<lparr>backend = Physical st, work = w\<rparr>"

definition in_memory :: "V2AvlSequence \<Rightarrow> SequenceWorkCounters \<Rightarrow> PhysicalContentStore BalancedSequence" where
  "in_memory a w = \<lparr>backend = Memory a, work = w\<rparr>"

lemma backend_simps [simp]:
  "backend (on_disk st w) = Physical st" "work (on_disk st w) = w"
  "backend (in_memory a w) = Memory a" "work (in_memory a w) = w"
  "(on_disk st w)\<lparr>backend := Physical st'\<rparr> = on_disk st' w"
  "(in_memory a w)\<lparr>backend := Memory a'\<rparr> = in_memory a' w"
  by (simp_all add: on_disk_def in_memory_def)

lemma note_disk:
  "note_written x y z (on_disk st w) = on_disk st (work (note_written x y z (on_disk st w)))"
  "note_read u v (on_disk st w) = on_disk st (work (note_read u v (on_disk st w)))"
  by (simp_all add: note_written_def note_read_def on_disk_def)

lemma same_work:
  "work (note_written x y z (in_memory a w)) = work (note_written x y z (on_disk st w))"
  "work (note_read u v (in_memory a w)) = work (note_read u v (on_disk st w))"
  by (simp_all add: note_written_def note_read_def on_disk_def in_memory_def)

section \<open>Answers of the seam\<close>

text \<open>Agreement up to the faults \<open>RF\<close> of the medium.\<close>

definition seam_agree :: "V2AvlError set \<Rightarrow> SequenceError + 'r \<Rightarrow> SequenceError + 'r \<Rightarrow> bool" where
  "seam_agree RF r r' \<longleftrightarrow> (case r of
     Inr x \<Rightarrow> r' = Inr x
   | Inl e \<Rightarrow> e \<in> SequenceError.Avl ` RF \<or> (\<exists>e'. r' = Inl e' \<and> (e = e' \<or>
       (\<exists>f f'. e = SequenceError.Avl f \<and> e' = SequenceError.Avl f' \<and> same_error f f'))))"

lemma seam_agree_simps [simp]:
  "seam_agree RF (Inr x) r' \<longleftrightarrow> r' = Inr x"
  "seam_agree RF (Inl e) r' \<longleftrightarrow> e \<in> SequenceError.Avl ` RF \<or> (\<exists>e'. r' = Inl e' \<and> (e = e' \<or>
       (\<exists>f f'. e = SequenceError.Avl f \<and> e' = SequenceError.Avl f' \<and> same_error f f')))"
  by (simp_all add: seam_agree_def)

lemma seam_agree_refl: "seam_agree RF r r"
  by (cases r) auto

lemma seam_agree_bind:
  "seam_agree RF r r' \<Longrightarrow> (\<And>x. seam_agree RF (k x) (k' x)) \<Longrightarrow> seam_agree RF (bindR r k) (bindR r' k')"
  by (cases r) auto

section \<open>Resolving and reading\<close>

text \<open>What the seam needs of a content store to read through it: the arena's two reads, and records
  that carry the roots of the arena.\<close>

locale content_readings = arena_readings E "pcs_arena E" memory_arena R "\<lambda>_. RF" same_error
  for E :: env and R :: "PhysicalContentStore \<Rightarrow> V2AvlSequence \<Rightarrow> bool" and RF :: "V2AvlError set" +
  assumes record_like: "R st a \<Longrightarrow> agree RF same_error
    (bindR (pcs_load_record st i) (\<lambda>rec. map_err V2AvlError.Format (V2RootRecord_from_node i rec))) (root_for_node_id a i)"
begin

lemma record_agree:
  assumes "R st a"
  shows "seam_agree RF
    (bindR (map_err SequenceError.Avl (pcs_load_record st i)) (\<lambda>rec.
       map_err (\<lambda>e. SequenceError.Avl (V2AvlError.Format e)) (V2RootRecord_from_node i rec)))
    (map_err SequenceError.Avl (root_for_node_id a i))"
  using record_like [OF assms, of i]
  by (cases "pcs_load_record st i"; cases "V2RootRecord_from_node i (projr (pcs_load_record st i))") auto

lemma resolve_agree:
  assumes "R st a"
  shows "seam_agree RF (resolve (physical_content E) (on_disk st w) root) (resolve (physical_content E) (in_memory a w) root)"
  unfolding resolve_def
  by (auto simp: seam_agree_refl intro!: seam_agree_bind record_agree [OF assms] simp del: seam_agree_simps)

lemma resolve_option_agree:
  assumes "R st a"
  shows "seam_agree RF (resolve_option (physical_content E) (on_disk st w) p) (resolve_option (physical_content E) (in_memory a w) p)"
  unfolding resolve_option_def
  by (cases p) (auto simp: seam_agree_refl intro!: seam_agree_bind resolve_agree [OF assms] simp del: seam_agree_simps)

lemma seam_read_outcome:
  assumes st: "R st a"
    and run: "seam_read_range E (physical_content E) root rng out (in_memory a wk) = Some (r', m')"
  shows "\<exists>r wk'. seam_read_range E (physical_content E) root rng out (on_disk st wk) = Some (r, on_disk st wk') \<and>
    seam_agree RF r r'"
proof (cases "resolve (physical_content E) (on_disk st wk) root")
  case (Inl e)
  then show ?thesis
    using resolve_agree [OF st, of wk root] run
    by (cases "resolve (physical_content E) (in_memory a wk) root")
      (auto simp: seam_read_range_def readP_def bindP_def)
next
  case (Inr canonical)
  then have mem: "resolve (physical_content E) (in_memory a wk) root = Inr canonical"
    using resolve_agree [OF st, of wk root] by simp
  obtain y where y: "read_range_counted E a canonical (range_offset rng) (range_length rng) = Some y"
    using run mem by (cases "read_range_counted E a canonical (range_offset rng) (range_length rng)")
      (auto simp: seam_read_range_def readP_def bindP_def)
  obtain z where z: "read_range_counted_on E (pcs_arena E) st canonical (range_offset rng) (range_length rng) = Some z"
    "agree RF same_error z y"
    using read_range_like [OF st y [unfolded read_range_counted_def]] by blast
  have disk: "seam_read_range E (physical_content E) root rng out (on_disk st wk) =
      bindP (\<lambda>b. Some (map_err SequenceError.Avl z, b)) (\<lambda>(bytes, visited).
        bindP (modifyP (note_read visited (length bytes))) (\<lambda>_. retP (out @ bytes))) (on_disk st wk)"
    using Inr z(1) by (simp add: seam_read_range_def readP_def bindP_def)
  have memory: "seam_read_range E (physical_content E) root rng out (in_memory a wk) =
      bindP (\<lambda>b. Some (map_err SequenceError.Avl y, b)) (\<lambda>(bytes, visited).
        bindP (modifyP (note_read visited (length bytes))) (\<lambda>_. retP (out @ bytes))) (in_memory a wk)"
    using mem y by (simp add: seam_read_range_def readP_def bindP_def)
  show ?thesis
  proof (cases z)
    case (Inl e)
    then have "e \<in> RF \<or> (\<exists>e'. y = Inl e' \<and> same_error e e')"
      using z(2) by simp
    then have "seam_agree RF (Inl (SequenceError.Avl e)) r'"
      using run memory by (auto simp: bindP_def)
    then show ?thesis
      unfolding disk by (auto simp: Inl bindP_def simp del: seam_agree_simps)
  next
    case z': (Inr p)
    then have "y = Inr p"
      using z(2) by simp
    then have "r' = Inr (out @ fst p)"
      using run memory by (cases p) (simp add: bindP_def modifyP_def)
    moreover obtain wk' where "note_read (snd p) (length (fst p)) (on_disk st wk) = on_disk st wk'"
      using note_disk(2) by blast
    ultimately show ?thesis
      unfolding disk by (cases p) (auto simp: z' bindP_def modifyP_def)
  qed
qed

end

lemma record_like:
  assumes "holds_arena E st a"
  shows "content_agree (bindR (pcs_load_record st i) (\<lambda>rec. map_err V2AvlError.Format (V2RootRecord_from_node i rec)))
    (root_for_node_id a i)"
proof (cases "i < length (seq_nodes a)")
  case True
  have s: "sha_ok E" "committed E st a" "length (seq_nodes a) < width64"
    using assms by (auto simp: holds_arena_def)
  have "root_for_node_id a i = map_err V2AvlError.Format (V2RootRecord_from_node i (node_record (seq_nodes a ! i)))"
    using True s(3) by (simp add: root_for_node_id_def root_for_node_id_on_def memory_load_cases)
  then show ?thesis
    using load_record_committed [OF s(1,2) True]
    by (cases "V2RootRecord_from_node i (node_record (seq_nodes a ! i))") (auto simp: content_faults_def same_error_def)
next
  case False
  then show ?thesis
    using assms committedD(5) [of E st a]
    by (auto simp: holds_arena_def root_for_node_id_def root_for_node_id_on_def memory_load_cases pcs_load_record_def
        same_error_def content_missing_def memory_missing_def)
qed

interpretation disk: content_readings E "holds_arena E" content_faults for E
  by unfold_locales (rule record_like)

section \<open>Splices\<close>

definition splice_reply :: "V2SpliceResult \<Rightarrow> SpliceResult" where
  "splice_reply res = \<lparr>result_root = balanced_v2 (root_node_id (splice_root res)) (root_len (splice_root res)),
     result_nodes_allocated = u64_or_max (splice_allocated_nodes res),
     result_nodes_inspected = u64_or_max (splice_inspected_nodes res),
     result_payload_bytes_allocated = u64_or_max (splice_payload_bytes_allocated res)\<rparr>"

definition noted :: "V2SpliceResult \<Rightarrow> SequenceWorkCounters \<Rightarrow> SequenceWorkCounters" where
  "noted res w = work (note_written (splice_allocated_nodes res) (splice_inspected_nodes res)
     (splice_payload_bytes_allocated res) (in_memory empty_seq w))"

lemma holds_kept: "sha_ok E \<Longrightarrow> kept b E g a st \<Longrightarrow> length (seq_nodes a) < width64 \<Longrightarrow> holds_arena E st a"
  by (simp add: holds_arena_def kept_def)

text \<open>Commit, barrier and adoption of one delta.\<close>

lemma commit_outcome:
  assumes sha: "sha_ok E" and k: "kept b E g a st" and d: "delta_between E g a a' root d" and wf: "arena_wf E a'"
  shows "\<exists>r b'. bindP (commit_physical_delta (physical_content E) d) (\<lambda>_.
      bindP (sync_physical_content (physical_content E)) (\<lambda>_.
      bindP (modifyP (adopt_physical_delta (physical_content E) d)) (\<lambda>_. retP x))) (on_disk st w) = Some (r, b') \<and>
    (case r of
       Inl e \<Rightarrow> \<exists>st'. b' = on_disk st' w \<and> kept b E g a st'
     | Inr y \<Rightarrow> y = x \<and> (\<exists>st'. kept True E g a' st' \<and> opened st' \<and>
         b' = on_disk st' (work (note_written (delta_allocated_nodes d) (delta_inspected_nodes d)
           (delta_payload_bytes_allocated d) (on_disk st w)))))"
proof -
  obtain r1 s1 where c: "commit_delta_steps (physical_content E) d st = (r1, s1)"
    by (cases "commit_delta_steps (physical_content E) d st")
  note c1 = runsD [OF commit_steps_runs [OF sha] k c]
  show ?thesis
  proof (cases r1)
    case (Inl e)
    then show ?thesis
      using c c1 by (auto simp: commit_physical_delta_def physicalP_def bindP_def)
  next
    case r1: (Inr u)
    let ?xp = "Some (payload_image g a')" and ?xn = "Some (nodes_image g a')"
    have P: "poised b E g a ?xp ?xn s1"
      using c1 r1 by (simp add: delta_images [OF d])
    obtain r2 s2 where s: "pcs_sync_content s1 = (r2, s2)"
      by (cases "pcs_sync_content s1")
    note c2 = runsD [OF sync_runs P s]
    show ?thesis
    proof (cases r2)
      case (Inl e)
      then show ?thesis
        using c r1 s c2 by (auto simp: commit_physical_delta_def sync_physical_content_def physicalP_def bindP_def)
    next
      case r2: (Inr u)
      then have P2: "poised b E g a ?xp ?xn s2" and S2: "synced g ?xp ?xn s2"
        using c2 by auto
      have ends: "new_payload_end d = length (seq_payload a')" "new_node_count d = length (seq_nodes a')"
        using d by (auto simp: delta_between_def)
      let ?st = "pcs_adopt_frontiers (new_payload_end d) (new_node_count d) s2"
      have kk: "kept True E g a' ?st"
        unfolding ends by (rule adopt_kept [OF P2 wf S2])
      have "opened ?st"
        using poisedD(1) [OF P2] by (simp add: ready_def opened_def pcs_adopt_frontiers_def)
      then show ?thesis
        using c r1 s r2 kk
        by (auto simp: commit_physical_delta_def sync_physical_content_def physicalP_def bindP_def modifyP_def
            adopt_physical_delta_def note_written_def on_disk_def intro!: exI [of _ ?st])
    qed
  qed
qed

lemma physical_splice_outcome:
  assumes sha: "sha_ok E" and k: "kept b E g a st" and w: "length (seq_nodes a) < width64"
    and res: "resolve_option (physical_content E) (on_disk st wk) parent = Inr resolved"
  shows "\<exists>r b'. physical_splice (physical_content E) parent off del ins n (on_disk st wk) = Some (r, b') \<and>
    (case r of
       Inl e \<Rightarrow> \<exists>st'. b' = on_disk st' wk \<and> kept b E g a st'
     | Inr y \<Rightarrow> \<exists>res a' st'. splice_seq E resolved off del ins a = Some (Inr res, a') \<and> y = splice_reply res \<and>
         length (seq_nodes a') < width64 \<and>
         root_len (splice_root res) = n \<and> kept True E g a' st' \<and> opened st' \<and> b' = on_disk st' (noted res wk))"
proof -
  have st: "holds_arena E st a" and gen: "pcs_generation st = g"
    using holds_kept [OF sha k w] k by (auto simp: kept_def)
  obtain r where prep: "pcs_prepare_physical_delta E st resolved off del ins n = Some r"
    and out: "case r of
       Inl e \<Rightarrow> e \<in> content_faults \<or>
         (\<exists>e'. splice_seq E resolved off del ins a = Some (Inl e', a) \<and> same_error e e') \<or>
         (\<exists>res a'. splice_seq E resolved off del ins a = Some (Inr res, a') \<and>
           root_len (splice_root res) \<noteq> n \<and> e = wrong_length)
     | Inr d \<Rightarrow> \<exists>res a'. splice_seq E resolved off del ins a = Some (Inr res, a') \<and> arena_wf E a' \<and>
         length (seq_nodes a') < width64 \<and>
         child_ok (seq_nodes a') (splice_root res) \<and> root_len (splice_root res) = n \<and>
         delta_between E (pcs_generation st) a a' (splice_root res) d \<and>
         delta_allocated_nodes d = splice_allocated_nodes res \<and>
         delta_inspected_nodes d = splice_inspected_nodes res \<and>
         delta_payload_bytes_allocated d = splice_payload_bytes_allocated res"
    using prepare_outcome [OF st] by blast
  have pp: "prepare_physical_splice (physical_content E) parent off del ins n (on_disk st wk) =
      Some (map_err SequenceError.Avl r, on_disk st wk)"
    using res prep by (simp add: prepare_physical_splice_def)
  show ?thesis
  proof (cases r)
    case (Inl e)
    then show ?thesis
      using pp k by (auto simp: physical_splice_def bindP_def)
  next
    case (Inr d)
    then obtain res a' where o: "splice_seq E resolved off del ins a = Some (Inr res, a')" "arena_wf E a'"
      "length (seq_nodes a') < width64" "root_len (splice_root res) = n"
      "delta_between E g a a' (splice_root res) d"
      "delta_allocated_nodes d = splice_allocated_nodes res" "delta_inspected_nodes d = splice_inspected_nodes res"
      "delta_payload_bytes_allocated d = splice_payload_bytes_allocated res"
      using out gen by auto
    have root: "delta_root d = splice_root res"
      using o(5) by (simp add: delta_between_def)
    have run: "physical_splice (physical_content E) parent off del ins n (on_disk st wk) =
      bindP (commit_physical_delta (physical_content E) d) (\<lambda>_.
      bindP (sync_physical_content (physical_content E)) (\<lambda>_.
      bindP (modifyP (adopt_physical_delta (physical_content E) d)) (\<lambda>_. retP (splice_reply res)))) (on_disk st wk)"
      unfolding physical_splice_def using pp Inr
      by (subst bindP_Inr [of _ _ d "on_disk st wk"]) (simp_all add: splice_reply_def root o(4,6-8))
    have wk: "work (note_written (delta_allocated_nodes d) (delta_inspected_nodes d)
        (delta_payload_bytes_allocated d) (on_disk st wk)) = noted res wk"
      by (simp add: noted_def same_work [where st = st] o(6-8))
    obtain y b' where y: "physical_splice (physical_content E) parent off del ins n (on_disk st wk) = Some (y, b')"
      "case y of Inl e \<Rightarrow> \<exists>st'. b' = on_disk st' wk \<and> kept b E g a st'
       | Inr z \<Rightarrow> z = splice_reply res \<and> (\<exists>st'. kept True E g a' st' \<and> opened st' \<and> b' = on_disk st' (noted res wk))"
      using commit_outcome [OF sha k o(5,2), of "splice_reply res" wk] unfolding run wk by blast
    then show ?thesis
      using o(1,3,4) by (cases y) auto
  qed
qed

text \<open>The whole splice of the seam, on files and in memory.\<close>

lemma seam_splice_outcome:
  assumes sha: "sha_ok E" and k: "kept b E g a st" and w: "length (seq_nodes a) < width64"
  shows "\<exists>r b'. seam_splice E (physical_content E) parent off del ins (on_disk st wk) = Some (r, b') \<and>
    (case r of
       Inl e \<Rightarrow> \<exists>st'. b' = on_disk st' wk \<and> kept b E g a st'
     | Inr y \<Rightarrow> \<exists>a' wk' st'. seam_splice E (physical_content E) parent off del ins (in_memory a wk) =
           Some (Inr y, in_memory a' wk') \<and> length (seq_nodes a') < width64 \<and> memory_ext a a' \<and>
         kept True E g a' st' \<and> opened st' \<and> b' = on_disk st' wk')"
proof (cases "resolve_option (physical_content E) (on_disk st wk) parent")
  case (Inl e)
  then show ?thesis
    using k by (auto simp: seam_splice_def readP_def bindP_def)
next
  case (Inr resolved)
  then have mem: "resolve_option (physical_content E) (in_memory a wk) parent = Inr resolved"
    using disk.resolve_option_agree [OF holds_kept [OF sha k w], of wk parent] by simp
  let ?pl = "case resolved of None \<Rightarrow> 0 | Some r \<Rightarrow> root_len r"
  show ?thesis
  proof (cases "length ins < width64 \<and> del \<le> ?pl \<and> ?pl - del + length ins < width64")
    case False
    have "\<exists>e. seam_splice E (physical_content E) parent off del ins (on_disk st wk) = Some (Inl e, on_disk st wk)"
    proof (cases "length ins < width64 \<and> del \<le> ?pl")
      case True
      with False have "checked_add width64 (?pl - del) (length ins) = None"
        by (simp add: checked_add_None_iff)
      with True Inr show ?thesis
        by (simp add: seam_splice_def readP_def bindP_def liftP_def try_from_def checked_sub_def Let_def)
    next
      case False
      with Inr show ?thesis
        by (auto simp: seam_splice_def readP_def bindP_def liftP_def try_from_def checked_sub_def Let_def)
    qed
    then show ?thesis
      using k by auto
  next
    case True
    note t = True [THEN conjunct1] True [THEN conjunct2, THEN conjunct1] True [THEN conjunct2, THEN conjunct2]
    let ?n = "?pl - del + length ins"
    have e: "try_from width64 (length ins) = Some (length ins)" "checked_sub ?pl del = Some (?pl - del)"
      "checked_add width64 (?pl - del) (length ins) = Some ?n"
      using t by (simp_all only: try_from_Some_iff checked_sub_Some_iff checked_add_Some_iff)
    have disk: "seam_splice E (physical_content E) parent off del ins (on_disk st wk) =
        physical_splice (physical_content E) parent off del ins ?n (on_disk st wk)"
      using Inr by (simp add: seam_splice_def readP_def bindP_def liftP_def e Let_def backend_is_physical_def)
    have memory: "seam_splice E (physical_content E) parent off del ins (in_memory a wk) =
        Some (Inr (splice_reply res), in_memory a' (noted res wk))"
      if "splice_seq E resolved off del ins a = Some (Inr res, a')" for res a'
      using mem that
      by (simp add: seam_splice_def readP_def bindP_def liftP_def e Let_def backend_is_physical_def memory_splice_def modifyP_def splice_reply_def noted_def note_written_def in_memory_def)
    from physical_splice_outcome [OF sha k w Inr, of off del ins ?n] show ?thesis
      unfolding disk using memory splice_frame [of E resolved off del ins a] by (fastforce split: sum.splits)
  qed
qed

end
