(* ===== verification/Physical_Available.thy ===== *)
theory Physical_Available
  imports Physical_Seam
begin

text \<open>
  The content store on a medium that serves it.  When no call of the operating system fails and no
  allocation is refused, reads answer exactly as in memory, a store that was closed or crashed
  reopens, and a splice that succeeds in memory succeeds on the files.
\<close>

section \<open>A medium that serves\<close>

text \<open>\<open>served E st\<close>: no read of the two files fails and no read buffer is refused.\<close>

definition served :: "env \<Rightarrow> PhysicalContentStore \<Rightarrow> bool" where
  "served E st \<longleftrightarrow> opened st \<and> (\<forall>name o' l. dir_reads (pcs_dir st) name o' l \<noteq> None) \<and>
     (\<forall>n. try_reserve E ''history physical payload read allocation failed'' n)"

lemma served_read:
  assumes "served E st" "starts_with (pcs_dir st) name bs" "off + len \<le> length bs"
  shows "read_exact_at (pcs_dir st) name off len \<noteq> None"
proof -
  obtain f where f: "dir_files (pcs_dir st) name = Some f" "extends bs (file_bytes f)" "length (file_bytes f) < width64"
    using assms(2) by (auto simp: starts_with_def)
  have "off + len \<le> length (file_bytes f)"
    using assms(3) extends_length [OF f(2)] by simp
  then show ?thesis
    using read_exact_at_complete [OF f(1) _ f(3)] assms(1) by (simp add: served_def)
qed

lemma served_record:
  assumes sha: "sha_ok E" and c: "committed E st a" and sv: "served E st" and i: "i < length (seq_nodes a)"
  shows "pcs_load_record st i = Inr (node_record (seq_nodes a ! i))"
proof -
  let ?g = "pcs_generation st"
  have op: "opened st"
    using sv by (simp add: served_def)
  have sw: "starts_with (pcs_dir st) (content_nodes_filename ?g) (nodes_image ?g a)"
    using c op by (simp add: committed_def files_hold_def)
  have "16 + i * 72 + 72 \<le> length (nodes_image ?g a)"
    using i by (simp add: length_images committed_sized [OF sha c])
  from served_read [OF sv sw this] starts_with_length [OF sw] this
  have "pcs_load_record st i \<noteq> Inl (V2AvlError.Invalid ''history physical node read failed'')"
    using i op committedD(5) [OF c]
    by (auto simp: pcs_load_record_def opened_def nodes_file_def checked_mul_def checked_add_def map_err_Inl_iff
        split: option.splits)
  then show ?thesis
    using load_record_committed [OF sha c i] by simp
qed

lemma served_node:
  assumes sha: "sha_ok E" and c: "committed E st a" and sv: "served E st" and i: "i < length (seq_nodes a)"
  shows "pcs_load_node st i = Inr (seq_nodes a ! i)"
proof -
  note ok = committedD(2) [OF c]
  have "build_arena_node st i (node_record (seq_nodes a ! i)) = Inr (seq_nodes a ! i)"
  proof (cases "seq_nodes a ! i")
    case (Leaf off len rec)
    then show ?thesis
      using node_fields_ok [OF sha ok i] leaf_record [OF ok i Leaf] committedD(4) [OF c]
      by (simp add: build_arena_node_def checked_add_def)
  next
    case (Branch l r rec)
    note ch = child_record [OF ok i Branch]
    show ?thesis
      using node_fields_ok [OF sha ok i] ch served_record [OF sha c sv, of "root_node_id l"]
        served_record [OF sha c sv, of "root_node_id r"] i
      by (simp add: Branch build_arena_node_def)
  qed
  then show ?thesis
    by (simp add: pcs_load_node_def served_record [OF sha c sv i])
qed

lemma served_payload:
  assumes c: "committed E st a" and sv: "served E st" and xy: "x \<le> y" "y \<le> length (seq_payload a)"
  shows "read_payload_range E st x y = Inr (take (y - x) (drop x (seq_payload a)))"
proof -
  let ?g = "pcs_generation st"
  have op: "opened st"
    using sv by (simp add: served_def)
  have sw: "starts_with (pcs_dir st) (content_payload_filename ?g) (payload_image ?g a)"
    using c op by (simp add: committed_def files_hold_def)
  have le: "16 + x + (y - x) \<le> length (payload_image ?g a)"
    using xy by (simp add: length_images)
  then have rd: "read_exact_at (pcs_dir st) (content_payload_filename ?g) (16 + x) (y - x) =
      Some (take (y - x) (drop x (seq_payload a)))"
    using served_read [OF sv sw le] exact_read [OF sw le] by (auto simp: payload_image_def)
  show ?thesis
    using rd op sv xy starts_with_length [OF sw] committedD(4) [OF c]
    by (auto simp: read_payload_range_def checked_sub_def try_from_def checked_add_def served_def payload_file_def
        opened_def length_images)
qed

definition serves_arena :: "env \<Rightarrow> PhysicalContentStore \<Rightarrow> V2AvlSequence \<Rightarrow> bool" where
  "serves_arena E st a \<longleftrightarrow> holds_arena E st a \<and> served E st"

interpretation serving: content_readings E "serves_arena E" "{}" for E
proof unfold_locales
  show "agree {} same_error (bindR (pcs_load_record st i) (\<lambda>rec. map_err V2AvlError.Format (V2RootRecord_from_node i rec)))
      (root_for_node_id a i)" if "serves_arena E st a" for st a i
  proof (cases "i < length (seq_nodes a)")
    case True
    then show ?thesis
      using that served_record [of E st a i] agree_same [of same_error "{}"]
      by (simp add: serves_arena_def holds_arena_def root_for_node_id_def root_for_node_id_on_def memory_load_cases
          same_error_def)
  next
    case False
    then show ?thesis
      using that committedD(5) [of E st a]
      by (auto simp: serves_arena_def holds_arena_def root_for_node_id_def root_for_node_id_on_def memory_load_cases
          pcs_load_record_def same_error_def content_missing_def memory_missing_def)
  qed
  show "same_error e e" for e
    by (simp add: same_error_def)
  show "agree {} same_error (arena_load_node (pcs_arena E) st i) (arena_load_node memory_arena a i)"
    if "serves_arena E st a" for st a i
  proof -
    have s: "sha_ok E" "committed E st a" "length (seq_nodes a) < width64" "served E st"
      using that by (auto simp: serves_arena_def holds_arena_def)
    show ?thesis
    proof (cases "i < length (seq_nodes a)")
      case True
      then show ?thesis
        using served_node [OF s(1,2,4) True] s(3) by (simp add: pcs_arena_def memory_load_cases)
    next
      case False
      then show ?thesis
        using committedD(5) [OF s(2)]
        by (simp add: pcs_arena_def pcs_load_node_def pcs_load_record_def memory_load_cases same_error_def
            content_missing_def memory_missing_def)
    qed
  qed
  show "agree {} same_error (arena_read_payload (pcs_arena E) st x y) (arena_read_payload memory_arena a x y)"
    if "serves_arena E st a" for st a x y
  proof -
    have s: "committed E st a" "served E st"
      using that by (auto simp: serves_arena_def holds_arena_def)
    show ?thesis
    proof (cases "x \<le> y \<and> y \<le> length (seq_payload a)")
      case True
      then show ?thesis
        using served_payload [OF s] payload_u64 [OF committedD(1) [OF s(1)]]
        by (simp add: pcs_arena_def payload_slice_cases)
    next
      case False
      then have "\<exists>e\<in>content_missing. read_payload_range E st x y = Inl e"
        using committedD(4) [OF s(1)] by (auto simp: read_payload_range_def checked_sub_def content_missing_def)
      with False show ?thesis
        by (auto simp: pcs_arena_def payload_slice_cases same_error_def memory_missing_def)
    qed
  qed
qed

section \<open>Reopening\<close>

definition answering :: "Directory \<Rightarrow> bool" where
  "answering d \<longleftrightarrow> (\<forall>c. \<not> dir_refuses d c) \<and> (\<forall>name o' l. dir_reads d name o' l \<noteq> None)"

lemma answering_file:
  assumes "answering d" "starts_with d name bs" "16 \<le> length bs"
  shows "dir_open d name" "read_exact_at d name 0 16 \<noteq> None" "dir_length d name \<noteq> None"
proof -
  obtain f where f: "dir_files d name = Some f" "extends bs (file_bytes f)" "length (file_bytes f) < width64"
    using assms(2) by (auto simp: starts_with_def)
  then have "0 + 16 \<le> length (file_bytes f)"
    using extends_length assms(3) by fastforce
  then show "read_exact_at d name 0 16 \<noteq> None"
    using read_exact_at_complete [OF f(1) _ f(3)] assms(1) by (simp add: answering_def)
  show "dir_open d name" "dir_length d name \<noteq> None"
    using f assms(1) by (simp_all add: dir_open_def dir_length_def answering_def)
qed

lemma reopen:
  assumes sha: "sha_ok E" and hold: "files_hold d g a" and wf: "arena_wf E a" and g: "g < width64" and ans: "answering d"
  shows "\<exists>st. open_existing d g (length (seq_payload a)) (length (seq_nodes a)) w = Inr st \<and> committed E st a \<and>
    opened st \<and> pcs_dir st = d"
proof -
  have sw: "starts_with d (content_payload_filename g) (payload_image g a)"
    "starts_with d (content_nodes_filename g) (nodes_image g a)"
    using hold by (auto simp: files_hold_def)
  have "sized (seq_nodes a)"
    using nodes_ok_sized [OF sha] wf by (auto simp: arena_wf_def)
  then have "16 \<le> length (payload_image g a)" "16 \<le> length (nodes_image g a)"
    by (simp_all add: length_images)
  note fp = answering_file [OF ans sw(1) this(1)] and fn = answering_file [OF ans sw(2) this(2)]
  have "open_existing d g (length (seq_payload a)) (length (seq_nodes a)) w \<noteq> Inl open_failed"
    using fp fn
    by (auto simp: open_existing_def Let_def open_failed_def result_iffs decode_physical_header_def payload_frontier_def
        node_frontier_def split: if_splits)
  then show ?thesis
    using open_outcome [OF sha hold wf g, of w] by blast
qed

lemma prefix_images:
  assumes "memory_ext a b"
  shows "extends (payload_image g a) (payload_image g b)" "extends (nodes_image g a) (nodes_image g b)"
  using assms by (auto simp: memory_ext_def extends_def payload_image_def nodes_image_def node_table_def)

lemma files_hold_earlier: "files_hold d g b \<Longrightarrow> memory_ext a b \<Longrightarrow> files_hold d g a"
  using prefix_images [of a b g] by (auto simp: files_hold_def starts_with_def intro: extends_trans)

section \<open>Preparing\<close>

text \<open>On a served base the only fault left to the preparation view is an overflowing offset into its
  own record buffer, and an arena whose whole node table stays below the largest offset has none.\<close>

definition table_bounded :: "V2AvlSequence \<Rightarrow> bool" where
  "table_bounded b \<longleftrightarrow> length (seq_nodes b) * 72 < width64"

definition table_faults :: "V2AvlSequence \<Rightarrow> V2AvlError set" where
  "table_faults b = (if table_bounded b then {} else UNIV)"

lemma table_faults_mono: "length (seq_nodes a) \<le> length (seq_nodes b) \<Longrightarrow> table_faults a \<subseteq> table_faults b"
  by (auto simp: table_faults_def table_bounded_def)

abbreviation any_error :: "V2AvlError \<Rightarrow> V2AvlError \<Rightarrow> bool" where
  "any_error \<equiv> \<lambda>_ _. True"

definition served_view :: "env \<Rightarrow> V2AvlSequence \<Rightarrow> DeltaView \<Rightarrow> V2AvlSequence \<Rightarrow> bool" where
  "served_view E a v b \<longleftrightarrow> views E a v b \<and> served E (view_base v)"

lemma served_viewD:
  assumes "served_view E a v b"
  shows "sha_ok E" "committed E (view_base v) a" "served E (view_base v)" "base_node_count v = length (seq_nodes a)"
    "base_payload_end v = length (seq_payload a)" "views E a v b" "shape E a v b"
    "nodes_ok E (seq_payload b) (seq_nodes b)" "length (seq_nodes b) < width64" "length (seq_payload b) < width64"
    "seq_payload b = seq_payload a @ payload_delta v"
  using assms by (auto simp: served_view_def views_def shape_def arena_wf_def)

lemma served_delta_record:
  assumes v: "served_view E a v b" and t: "table_bounded b" and i: "length (seq_nodes a) \<le> i" "i < length (seq_nodes b)"
  shows "load_delta_record v i = Inr (node_record (seq_nodes b ! i))"
proof -
  obtain ms where ms: "seq_nodes b = seq_nodes a @ ms" "node_delta v = node_table ms" "sized ms"
    "base_node_count v = length (seq_nodes a)"
    using served_viewD(7) [OF v] by (auto simp: shape_def)
  let ?k = "i - length (seq_nodes a)"
  have k: "?k < length ms" "seq_nodes b ! i = ms ! ?k"
    using i ms by (auto simp: nth_append)
  have "?k * 72 + 72 < width64"
    using t k(1) ms(1) by (simp add: table_bounded_def)
  then show ?thesis
    using node_table_slice [OF ms(3) k(1)] node_table_decode [OF ms(3) k(1)] i ms k(2)
    by (auto simp: load_delta_record_def checked_sub_def checked_mul_def checked_add_def)
qed

lemma served_child_record:
  assumes v: "served_view E a v b" and t: "table_bounded b" and i: "i < length (seq_nodes b)"
  shows "delta_child_record v i = Inr (node_record (seq_nodes b ! i))"
proof (cases "i < length (seq_nodes a)")
  case True
  have "seq_nodes b ! i = seq_nodes a ! i"
    using served_viewD(7) [OF v] True by (auto simp: shape_def nth_append)
  then show ?thesis
    using served_record [OF served_viewD(1-3) [OF v] True] True served_viewD(4) [OF v]
    by (simp add: delta_child_record_def)
next
  case False
  then show ?thesis
    using served_delta_record [OF v t _ i] served_viewD(4) [OF v] by (simp add: delta_child_record_def)
qed

lemma served_view_load:
  assumes v: "served_view E a v b" and t: "table_bounded b" and i: "i < length (seq_nodes b)"
  shows "view_load_node v i = Inr (seq_nodes b ! i)"
proof (cases "i < length (seq_nodes a)")
  case True
  have "seq_nodes b ! i = seq_nodes a ! i"
    using served_viewD(7) [OF v] True by (auto simp: shape_def nth_append)
  then show ?thesis
    using served_node [OF served_viewD(1-3) [OF v] True] True served_viewD(4) [OF v]
    by (simp add: view_load_node_def pcs_load_node_def [symmetric])
next
  case False
  then have old: "length (seq_nodes a) \<le> i"
    by simp
  note ok = served_viewD(8) [OF v] and sh = served_viewD(7) [OF v]
  note fields = node_fields_ok [OF served_viewD(1) [OF v] ok i]
  have "build_delta_arena_node v i (node_record (seq_nodes b ! i)) = Inr (seq_nodes b ! i)"
  proof (cases "seq_nodes b ! i")
    case (Leaf off len rec)
    show ?thesis
      using fields leaf_record [OF ok i Leaf] fresh_leaf_offset [OF served_viewD(6) [OF v] old i Leaf]
        shape_lengths(3) [OF sh] sh
      by (auto simp: Leaf build_delta_arena_node_def checked_add_def shape_def)
  next
    case (Branch l r rec)
    note ch = child_record [OF ok i Branch]
    have "root_node_id l < length (seq_nodes b)" "root_node_id r < length (seq_nodes b)"
      using ch i by auto
    from this [THEN served_child_record [OF v t]] fields ch show ?thesis
      by (auto simp: Branch build_delta_arena_node_def)
  qed
  then show ?thesis
    using served_delta_record [OF v t old i] False served_viewD(4) [OF v]
    by (simp add: view_load_node_def load_delta_record_struct_def)
qed

lemma served_view_read:
  assumes v: "served_view E a v b" and xy: "x \<le> y" "y \<le> length (seq_payload b)"
  shows "view_read_payload E v x y = Inr (take (y - x) (drop x (seq_payload b)))"
proof -
  let ?m = "length (seq_payload a)"
  note s = served_viewD [OF v]
  have delta: "view_read_delta v x' y = Inr (take (y - x') (drop x' (seq_payload b)))" if "?m \<le> x'" "x' \<le> y" for x'
    using s(5,10,11) xy that by (auto simp: view_read_delta_def try_from_def slice_get_def)
  consider (Old) "y \<le> ?m" | (Fresh) "?m < y" "?m \<le> x" | (Across) "?m < y" "x < ?m"
    by linarith
  then show ?thesis
  proof cases
    case Old
    then show ?thesis
      using served_payload [OF s(2,3) xy(1)] s(5,11) xy by (simp add: view_read_payload_def)
  next
    case Fresh
    then show ?thesis
      using delta [OF Fresh(2) xy(1)] s(5) by (simp add: view_read_payload_def)
  next
    case Across
    have "take (y - x) (drop x (seq_payload b)) = drop x (seq_payload a) @ take (y - ?m) (payload_delta v)"
      using Across s(11) by simp
    then show ?thesis
      using served_payload [OF s(2,3), of x ?m] delta [of ?m] Across s(5,11) by (simp add: view_read_payload_def)
  qed
qed

lemma view_base_kept:
  "allocate_leaf_on E (view_arena E) bytes (v, k) = Some (r, (v', k')) \<Longrightarrow> view_base v' = view_base v"
  "allocate_branch_on E (view_arena E) l rt (v, k) = Some (r', (v', k')) \<Longrightarrow> view_base v' = view_base v"
  by (auto simp: allocate_leaf_on_def allocate_branch_on_def allocate_node_on_def bindP_def viewP_def mutP_def bump_def
      view_append_payload_def view_push_node_def failP_def retP_def
      split: option.splits sum.splits prod.splits if_splits)

interpretation served_reads: arena_readings E "view_arena E" memory_arena "served_view E a" table_faults any_error for E a
proof unfold_locales
  show "agree (table_faults b) any_error (arena_load_node (view_arena E) v i) (arena_load_node memory_arena b i)"
    if v: "served_view E a v b" for v b i
    using served_view_load [OF v, of i] served_viewD(9) [OF v] view_load_like [OF served_viewD(6) [OF v], of i]
    by (cases "table_bounded b"; cases "view_load_node v i") (auto simp: table_faults_def memory_load_cases)
  show "agree (table_faults b) any_error (arena_read_payload (view_arena E) v x y) (arena_read_payload memory_arena b x y)"
    if v: "served_view E a v b" for v b x y
    using served_view_read [OF v, of x y] served_viewD(10) [OF v] view_read_like [OF served_viewD(6) [OF v], of x y]
    by (cases "view_read_payload E v x y") (auto simp: payload_slice_cases)
qed simp

lemma outcome_served:
  assumes "served_view E a v b" and "view_base v' = view_base v"
    and "outcome F any_error (rel_prod (views E a) (=)) (r, (v', k')) y"
  shows "outcome F any_error (rel_prod (served_view E a) (=)) (r, (v', k')) y"
  using assms by (cases r; cases y; cases "snd y") (auto simp: served_view_def)

lemma memory_allocation_grows:
  "allocate_leaf_on E memory_arena bytes t = Some y \<Longrightarrow> table_faults (fst t) \<subseteq> table_faults (fst (snd y))"
  "allocate_branch_on E memory_arena l r t = Some y' \<Longrightarrow> table_faults (fst t) \<subseteq> table_faults (fst (snd y'))"
  by (rule table_faults_mono, (auto simp: allocate_leaf_on_def allocate_branch_on_def allocate_node_on_def bindP_def viewP_def mutP_def bump_def
        memory_append_payload_def memory_push_node_def failP_def retP_def
        split: option.splits sum.splits prod.splits if_splits) [1])+

interpretation served_sim: arena_simulation E "view_arena E" memory_arena "served_view E a" table_faults any_error for E a
proof unfold_locales
  show "like (\<lambda>t. table_faults (fst t)) any_error (rel_prod (served_view E a) (=)) (allocate_leaf_on E (view_arena E) bytes)
      (allocate_leaf_on E memory_arena bytes)" for bytes
  proof (rule likeI)
    fix s t y
    assume st: "rel_prod (served_view E a) (=) s t" and run: "allocate_leaf_on E memory_arena bytes t = Some y"
    obtain v b k where eqs: "s = (v, k)" "t = (b, k)" "served_view E a v b"
      using st by (cases s; cases t) auto
    obtain r b' k' where y: "y = (r, (b', k'))"
      by (cases y) auto
    have "views E a v b"
      using eqs(3) by (simp add: served_view_def)
    then obtain v' where v': "allocate_leaf_on E (view_arena E) bytes (v, k) = Some (r, (v', k'))" "is_ok r \<longrightarrow> views E a v' b'"
      using leaf_view [OF _ run [unfolded eqs y]] by blast
    then show "\<exists>z. allocate_leaf_on E (view_arena E) bytes s = Some z \<and>
        outcome (table_faults (fst (snd y))) any_error (rel_prod (served_view E a) (=)) z y"
      using view_base_kept(1) [OF v'(1)] eqs(3) unfolding eqs y
      by (cases r) (auto simp: served_view_def)
  qed (rule memory_allocation_grows)
  show "like (\<lambda>t. table_faults (fst t)) any_error (rel_prod (served_view E a) (=)) (allocate_branch_on E (view_arena E) l r)
      (allocate_branch_on E memory_arena l r)" for l r
  proof (rule likeI)
    fix s t y
    assume st: "rel_prod (served_view E a) (=) s t" and run: "allocate_branch_on E memory_arena l r t = Some y"
    obtain v b k where eqs: "s = (v, k)" "t = (b, k)" "served_view E a v b"
      using st by (cases s; cases t) auto
    obtain res b' k' where y: "y = (res, (b', k'))"
      by (cases y) auto
    have "views E a v b"
      using eqs(3) by (simp add: served_view_def)
    from branch_view [OF this run [unfolded eqs y] served_reads.node_for_root_like [OF eqs(3)] TrueI]
    obtain res2 v' k2 where z: "allocate_branch_on E (view_arena E) l r (v, k) = Some (res2, (v', k2))"
      "outcome (table_faults b) any_error (rel_prod (views E a) (=)) (res2, (v', k2)) (res, (b', k'))"
      by (metis surj_pair)
    have "table_faults b \<subseteq> table_faults b'"
      using memory_allocation_grows(2) [OF run [unfolded eqs y]] by simp
    then show "\<exists>z. allocate_branch_on E (view_arena E) l r s = Some z \<and>
        outcome (table_faults (fst (snd y))) any_error (rel_prod (served_view E a) (=)) z y"
      using outcome_mono [OF outcome_served [OF eqs(3) view_base_kept(2) [OF z(1)] z(2)]] z(1) unfolding eqs y by auto
  qed (rule memory_allocation_grows)
qed (auto simp: served_view_def views_def shape_lengths)

text \<open>A splice that succeeds in memory with the length the seam computed is prepared.\<close>

lemma prepare_available:
  assumes st: "serves_arena E st a" and mem: "splice_seq E parent off del ins a = Some (Inr res, a')"
    and n: "root_len (splice_root res) = n" and t: "table_bounded a'"
  shows "\<exists>d. pcs_prepare_physical_delta E st parent off del ins n = Some (Inr d)"
proof -
  have h: "holds_arena E st a" "sha_ok E" "committed E st a" "served E st"
    using st by (auto simp: serves_arena_def holds_arena_def)
  have v: "served_view E a (DeltaView_new st) a"
    using committed_view [OF h(1)] h(4) by (simp add: served_view_def DeltaView_new_def)
  have "table_faults a' = {}"
    using t by (simp add: table_faults_def)
  with served_sim.splice_like [OF v mem [unfolded splice_seq_def]]
  obtain r w where "splice_on E (view_arena E) parent off del ins (DeltaView_new st) = Some (r, w)"
    "outcome {} any_error (served_view E a) (r, w) (Inr res, a')"
    by (metis surj_pair)
  then have z: "splice_on E (view_arena E) parent off del ins (DeltaView_new st) = Some (Inr res, w)"
    and o: "served_view E a w a'"
    by (cases r; simp)+
  have vw: "views E a w a'"
    using o by (simp add: served_view_def)
  obtain ms where ms: "seq_payload a' = seq_payload a @ payload_delta w" "seq_nodes a' = seq_nodes a @ ms"
    "node_delta w = node_table ms" "length (seq_payload a') < width64" "length (seq_nodes a') < width64" "sized ms"
    "arena_wf E a'"
    using vw by (auto simp: views_def shape_def)
  have root: "child_ok (seq_nodes a') (splice_root res)"
    by (rule splice_root_resolves [OF committedD(1) [OF h(3)] mem])
  have "is_ok (pcs_load_record st (root_node_id (splice_root res)))" if "root_node_id (splice_root res) < length (seq_nodes a)"
    using served_record [OF h(2-4) that] by simp
  then have "is_ok (seal_delta E st n res (payload_delta w) (node_delta w))"
    using validate_delta_fresh [OF h(2,3) ms(7,1,2) root] n ms length_node_table [OF ms(6)]
      committedD(4,5) [OF h(3)]
    by (auto simp: seal_delta_def try_from_def checked_add_def Let_def is_ok_iff)
  then show ?thesis
    using z by (auto simp: pcs_prepare_physical_delta_def is_ok_iff)
qed

section \<open>Committing\<close>

definition willing :: "Directory \<Rightarrow> bool" where
  "willing d \<longleftrightarrow> answering d \<and> set (dir_answers d) \<subseteq> {Granted}"

lemma willing_answer:
  assumes "willing d"
  obtains d' where "next_answer d = (Granted, d')" "willing d'" "dir_files d' = dir_files d"
  using assms by (cases "dir_answers d") (auto simp: willing_def answering_def next_answer_def)

lemma willing_put [simp]: "willing (put_file name f d) = willing d"
  by (simp add: willing_def answering_def put_file_def)

lemma willing_calls:
  assumes "willing d" "dir_files d name \<noteq> None"
  shows "n < width64 \<Longrightarrow> \<exists>d'. dir_set_len name n d = (True, d') \<and> willing d'"
    "at + length bs < width64 \<Longrightarrow> \<exists>d'. dir_write name at bs d = (True, d') \<and> willing d'"
    "\<exists>d'. dir_sync name d = (True, d') \<and> willing d'"
proof -
  obtain d' where d': "next_answer d = (Granted, d')" "willing d'"
    by (rule willing_answer [OF assms(1)])
  show "n < width64 \<Longrightarrow> \<exists>d'. dir_set_len name n d = (True, d') \<and> willing d'"
    "at + length bs < width64 \<Longrightarrow> \<exists>d'. dir_write name at bs d = (True, d') \<and> willing d'"
    "\<exists>d'. dir_sync name d = (True, d') \<and> willing d'"
    using d' assms(2) by (auto simp: dir_set_len_def dir_write_def dir_sync_def)
qed

text \<open>\<open>able E g a xp xn st\<close>: the store is poised on a willing directory.\<close>

definition able :: "env \<Rightarrow> u64 \<Rightarrow> V2AvlSequence \<Rightarrow> byte list option \<Rightarrow> byte list option \<Rightarrow> PhysicalContentStore \<Rightarrow> bool" where
  "able E g a xp xn st \<longleftrightarrow> poised False E g a xp xn st \<and> willing (pcs_dir st)"

lemma ableD:
  assumes sha: "sha_ok E" and a: "able E g a xp xn st"
  shows "pcs_payload st = Some (content_payload_filename g)" "pcs_nodes st = Some (content_nodes_filename g)"
    "dir_files (pcs_dir st) (content_payload_filename g) \<noteq> None" "dir_files (pcs_dir st) (content_nodes_filename g) \<noteq> None"
    "payload_frontier st = Inr (length (payload_image g a))" "node_frontier st = Inr (length (nodes_image g a))"
    "length (payload_image g a) < width64" "length (nodes_image g a) < width64" "willing (pcs_dir st)" "pcs_writable st"
proof -
  note r = readyD [OF poisedD(1) [of False E g a xp xn st]]
  have P: "poised False E g a xp xn st"
    using a by (simp add: able_def)
  have k: "committed E st a"
    using poisedD(2) [OF P] by (auto simp: kept_def)
  note h = r(5,6) [OF P]
  show l: "length (payload_image g a) < width64" "length (nodes_image g a) < width64"
    using h starts_with_length by (auto simp: starts_holds)
  show "payload_frontier st = Inr (length (payload_image g a))" "node_frontier st = Inr (length (nodes_image g a))"
    using l committedD(4,5) [OF k]
    by (simp_all add: payload_frontier_def node_frontier_def length_images committed_sized [OF sha k] checked_add_def
        checked_mul_def)
  show "pcs_payload st = Some (content_payload_filename g)" "pcs_nodes st = Some (content_nodes_filename g)"
    "dir_files (pcs_dir st) (content_payload_filename g) \<noteq> None" "dir_files (pcs_dir st) (content_nodes_filename g) \<noteq> None"
    "willing (pcs_dir st)" "pcs_writable st"
    using a r(1-3) [OF P] h by (auto simp: able_def holds_def)
qed

text \<open>With \<open>runs\<close> and no failure state at all: the program succeeds.\<close>

abbreviation succeeds :: "(PhysicalContentStore \<Rightarrow> bool) \<Rightarrow> 'r pcs_prog \<Rightarrow> ('r \<Rightarrow> PhysicalContentStore \<Rightarrow> bool) \<Rightarrow> bool" where
  "succeeds \<equiv> runs (\<lambda>_. False)"

lemma succeeds_able:
  assumes "runs I (poised False E g a xp xn) m (\<lambda>x st. c x \<and> poised False E g a (yp x) (yn x) st)"
    and "succeeds (able E g a xp xn) m (\<lambda>_ st. willing (pcs_dir st))"
  shows "succeeds (able E g a xp xn) m (\<lambda>x st. c x \<and> able E g a (yp x) (yn x) st)"
  using assms by (fastforce simp: runs_def able_def split: prod.splits sum.splits)

lemmas succeeds_able' = succeeds_able [where c = "\<lambda>_. True", simplified]

lemma succeedsD: "succeeds P m Q \<Longrightarrow> P st \<Longrightarrow> \<exists>x st'. m st = (Inr x, st') \<and> Q x st'"
  by (cases "m st"; cases "fst (m st)") (auto simp: runs_def)

lemma succeeds_view:
  "(\<And>st. able E g a xp xn st \<Longrightarrow> \<exists>x. f st = Inr x) \<Longrightarrow> succeeds (able E g a xp xn) (viewC f) (\<lambda>_ st. willing (pcs_dir st))"
  by (fastforce simp: runs_def viewC_def able_def)

lemma succeeds_call:
  "(\<And>st. able E g a xp xn st \<Longrightarrow> \<exists>d. f (pcs_dir st) = (True, d) \<and> willing d) \<Longrightarrow>
    succeeds (able E g a xp xn) (callC e f) (\<lambda>_ st. willing (pcs_dir st))"
  by (fastforce simp: runs_def callC_def)

lemma succeeds_write:
  assumes "sha_ok E" "\<And>st. able E g a xp xn st \<Longrightarrow> \<exists>d. f (pcs_dir st) = (True, d) \<and> willing d"
  shows "succeeds (able E g a xp xn) (writeC e f) (\<lambda>_ st. willing (pcs_dir st))"
  using succeeds_call [of E g a xp xn f e] assms ableD(10) by (fastforce simp: runs_def writeC_def)

text \<open>The steps, then the four programs of a commit.\<close>

lemma frontiers_succeed:
  assumes sha: "sha_ok E"
  shows "succeeds (able E g a xp xn) (viewC payload_frontier) (\<lambda>n st. n = length (payload_image g a) \<and> able E g a xp xn st)"
    "succeeds (able E g a xp xn) (viewC node_frontier) (\<lambda>n st. n = length (nodes_image g a) \<and> able E g a xp xn st)"
  by (rule succeeds_able [OF frontier_runs(1) succeeds_view], simp add: ableD [OF sha])
    (rule succeeds_able [OF frontier_runs(2) [OF sha] succeeds_view], simp add: ableD [OF sha])

lemma handles_succeed:
  assumes sha: "sha_ok E"
  shows "succeeds (able E g a xp xn) (viewC (\<lambda>st. map_err f (payload_file st)))
      (\<lambda>name st. name = content_payload_filename g \<and> able E g a xp xn st)"
    "succeeds (able E g a xp xn) (viewC (\<lambda>st. map_err f (nodes_file st)))
      (\<lambda>name st. name = content_nodes_filename g \<and> able E g a xp xn st)"
    "succeeds (able E g a xp xn) (viewC payload_file) (\<lambda>name st. name = content_payload_filename g \<and> able E g a xp xn st)"
    "succeeds (able E g a xp xn) (viewC nodes_file) (\<lambda>name st. name = content_nodes_filename g \<and> able E g a xp xn st)"
    "succeeds (able E g a xp xn) (viewC (\<lambda>st. ok_or e (pcs_payload st)))
      (\<lambda>name st. name = content_payload_filename g \<and> able E g a xp xn st)"
    "succeeds (able E g a xp xn) (viewC (\<lambda>st. ok_or e (pcs_nodes st)))
      (\<lambda>name st. name = content_nodes_filename g \<and> able E g a xp xn st)"
  by (rule succeeds_able [OF handles_runs(1) succeeds_view] succeeds_able [OF handles_runs(2) succeeds_view]
      succeeds_able [OF handles_runs(3) succeeds_view] succeeds_able [OF handles_runs(4) succeeds_view]
      succeeds_able [OF handles_runs(5) succeeds_view] succeeds_able [OF handles_runs(6) succeeds_view],
      simp add: ableD [OF sha] payload_file_def nodes_file_def)+

lemma lengths_succeed:
  assumes sha: "sha_ok E"
  shows "succeeds (able E g a xp xn) (viewC (\<lambda>st. file_length e (map_err f (payload_file st)) st))
      (\<lambda>n st. length (payload_image g a) \<le> n \<and>
        able E g a (if n = length (payload_image g a) then Some (payload_image g a) else xp) xn st)"
    "succeeds (able E g a xp xn) (viewC (\<lambda>st. file_length e (map_err f (nodes_file st)) st))
      (\<lambda>n st. length (nodes_image g a) \<le> n \<and>
        able E g a xp (if n = length (nodes_image g a) then Some (nodes_image g a) else xn) st)"
proof -
  have len: "\<exists>n. dir_length (pcs_dir st) (content_payload_filename g) = Some n"
    "\<exists>n. dir_length (pcs_dir st) (content_nodes_filename g) = Some n" if "able E g a xp xn st" for st
    using ableD(3,4,9) [OF sha that] by (auto simp: dir_length_def willing_def answering_def)
  show "succeeds (able E g a xp xn) (viewC (\<lambda>st. file_length e (map_err f (payload_file st)) st))
      (\<lambda>n st. length (payload_image g a) \<le> n \<and>
        able E g a (if n = length (payload_image g a) then Some (payload_image g a) else xp) xn st)"
    by (rule succeeds_able [OF payload_length_runs succeeds_view])
      (use len in \<open>fastforce simp: file_length_def payload_file_def ableD [OF sha]\<close>)
  show "succeeds (able E g a xp xn) (viewC (\<lambda>st. file_length e (map_err f (nodes_file st)) st))
      (\<lambda>n st. length (nodes_image g a) \<le> n \<and>
        able E g a xp (if n = length (nodes_image g a) then Some (nodes_image g a) else xn) st)"
    by (rule succeeds_able [OF nodes_length_runs succeeds_view])
      (use len in \<open>fastforce simp: file_length_def nodes_file_def ableD [OF sha]\<close>)
qed

lemma writes_succeed:
  assumes sha: "sha_ok E"
  shows "succeeds (able E g a xp xn) (writeC e (dir_set_len (content_payload_filename g) (length (payload_image g a))))
      (\<lambda>_. able E g a (Some (payload_image g a)) xn)"
    "succeeds (able E g a xp xn) (writeC e (dir_set_len (content_nodes_filename g) (length (nodes_image g a))))
      (\<lambda>_. able E g a xp (Some (nodes_image g a)))"
    "length (payload_image g a @ ys) < width64 \<Longrightarrow> succeeds (able E g a (Some (payload_image g a)) xn)
      (writeC e (dir_write (content_payload_filename g) (length (payload_image g a)) ys))
      (\<lambda>_. able E g a (Some (payload_image g a @ ys)) xn)"
    "length (nodes_image g a @ ys) < width64 \<Longrightarrow> succeeds (able E g a xp (Some (nodes_image g a)))
      (writeC e (dir_write (content_nodes_filename g) (length (nodes_image g a)) ys))
      (\<lambda>_. able E g a xp (Some (nodes_image g a @ ys)))"
  by (rule succeeds_able' [OF cut_payload_runs [OF refl] succeeds_write [OF sha]]
      succeeds_able' [OF cut_nodes_runs [OF refl] succeeds_write [OF sha]]
      succeeds_able' [OF grow_payload_runs succeeds_write [OF sha]] succeeds_able' [OF grow_nodes_runs succeeds_write [OF sha]],
      simp add: willing_calls ableD [OF sha])+

lemma writable_succeeds:
  assumes sha: "sha_ok E"
  shows "succeeds (\<lambda>st. kept False E g a st \<and> opened st \<and> willing (pcs_dir st)) ensure_writable (\<lambda>_. able E g a None None)"
    "succeeds (able E g a xp xn) ensure_writable (\<lambda>_. able E g a xp xn)"
proof -
  show "succeeds (\<lambda>st. kept False E g a st \<and> opened st \<and> willing (pcs_dir st)) ensure_writable (\<lambda>_. able E g a None None)"
    unfolding runs_def
  proof (intro allI impI)
    fix st
    assume st: "kept False E g a st \<and> opened st \<and> willing (pcs_dir st)"
    then have "dir_open (pcs_dir st) (content_payload_filename g)" "dir_open (pcs_dir st) (content_nodes_filename g)"
      "pcs_generation st = g"
      by (auto simp: kept_def holds_def dir_open_def willing_def answering_def)
    with st have "is_ok (fst (ensure_writable st)) \<and> willing (pcs_dir (snd (ensure_writable st)))"
      by (auto simp: ensure_writable_def ensure_open_def bindC_def opened_def with_handles_def)
    then show "case ensure_writable st of (Inl e, st') \<Rightarrow> False | (Inr x, st') \<Rightarrow> able E g a None None st'"
      using runsD [OF writable_runs, of False E g a st] st
      by (cases "ensure_writable st"; cases "fst (ensure_writable st)") (auto simp: able_def)
  qed
  show "succeeds (able E g a xp xn) ensure_writable (\<lambda>_. able E g a xp xn)"
    by (auto simp: runs_def able_def poised_def ensure_writable_ready)
qed

lemma heal_succeeds:
  assumes sha: "sha_ok E"
  shows "succeeds (\<lambda>st. kept False E g a st \<and> opened st \<and> willing (pcs_dir st)) heal_for_write
    (\<lambda>_. able E g a (Some (payload_image g a)) (Some (nodes_image g a)))"
proof -
  let ?xp = "payload_image g a" and ?xn = "nodes_image g a"
  have cutp: "succeeds (able E g a (if n = length ?xp then Some ?xp else None) xn)
      (if n > m then shorten e payload_file m else okC ()) (\<lambda>_. able E g a (Some ?xp) xn)"
    if "length ?xp \<le> n" "m = length ?xp" for n m xn e
    using that unfolding shorten_def
    by (intro runs_if runs_bind [OF handles_succeed(1) [OF sha]] runs_pre) (auto intro: writes_succeed [OF sha] runs_ok)
  have cutn: "succeeds (able E g a xp (if n = length ?xn then Some ?xn else None))
      (if n > m then shorten e nodes_file m else okC ()) (\<lambda>_. able E g a xp (Some ?xn))"
    if "length ?xn \<le> n" "m = length ?xn" for n m xp e
    using that unfolding shorten_def
    by (intro runs_if runs_bind [OF handles_succeed(2) [OF sha]] runs_pre) (auto intro: writes_succeed [OF sha] runs_ok)
  show ?thesis
    unfolding heal_for_write_def Let_def
    by (intro runs_bind [OF writable_succeeds(1) [OF sha]] runs_bind [OF frontiers_succeed(1) [OF sha]]
        runs_bind [OF frontiers_succeed(2) [OF sha]] runs_bind [OF lengths_succeed(1) [OF sha]]
        runs_bind [OF lengths_succeed(2) [OF sha]] runs_pre runs_if runs_bind [OF cutp] cutn) auto
qed

lemma exact_lengths_succeed:
  assumes sha: "sha_ok E"
  shows "succeeds (able E g a (Some bs) xn) (viewC (\<lambda>st. file_length e (payload_file st) st))
      (\<lambda>n st. n = length bs \<and> able E g a (Some bs) xn st)"
    "succeeds (able E g a xp (Some bs)) (viewC (\<lambda>st. file_length e (nodes_file st) st))
      (\<lambda>n st. n = length bs \<and> able E g a xp (Some bs) st)"
proof -
  have "file_length e (payload_file st) st = Inr (length bs)" if "able E g a (Some bs) xn st" for st
    using ableD [OF sha that] poisedD(3) [of False E g a "Some bs" xn st] that
    by (auto simp: able_def exactly_def file_length_def payload_file_def dir_length_def willing_def answering_def)
  then show "succeeds (able E g a (Some bs) xn) (viewC (\<lambda>st. file_length e (payload_file st) st))
      (\<lambda>n st. n = length bs \<and> able E g a (Some bs) xn st)"
    by (simp add: runs_def viewC_def)
  have "file_length e (nodes_file st) st = Inr (length bs)" if "able E g a xp (Some bs) st" for st
    using ableD [OF sha that] poisedD(4) [of False E g a xp "Some bs" st] that
    by (auto simp: able_def exactly_def file_length_def nodes_file_def dir_length_def willing_def answering_def)
  then show "succeeds (able E g a xp (Some bs)) (viewC (\<lambda>st. file_length e (nodes_file st) st))
      (\<lambda>n st. n = length bs \<and> able E g a xp (Some bs) st)"
    by (simp add: runs_def viewC_def)
qed

lemma append_payload_succeeds:
  assumes sha: "sha_ok E" and w: "length (payload_image g a @ ys) < width64"
  shows "succeeds (able E g a (Some (payload_image g a)) xn) (pcs_append_payload_delta ys)
    (\<lambda>_. able E g a (Some (payload_image g a @ ys)) xn)"
proof (cases "ys = []")
  case True
  then show ?thesis
    unfolding pcs_append_payload_delta_def Let_def
    by (simp, intro runs_bind [OF writable_succeeds(2) [OF sha]] runs_ok) simp
next
  case False
  then show ?thesis
    unfolding pcs_append_payload_delta_def Let_def
    by (simp only: if_False)
      (intro runs_bind [OF writable_succeeds(2) [OF sha]] runs_bind [OF frontiers_succeed(1) [OF sha]]
        runs_bind [OF exact_lengths_succeed(1) [OF sha]] runs_pre runs_if runs_bind [OF handles_succeed(5) [OF sha]];
        use writes_succeed(3) [OF sha w] in simp)
qed

lemma append_nodes_succeeds:
  assumes sha: "sha_ok E" and w: "length (nodes_image g a @ ys) < width64" and ys: "length ys mod 72 = 0"
  shows "succeeds (able E g a xp (Some (nodes_image g a))) (pcs_append_node_delta ys)
    (\<lambda>_. able E g a xp (Some (nodes_image g a @ ys)))"
proof (cases "ys = []")
  case True
  then show ?thesis
    by (simp add: pcs_append_node_delta_def Let_def runs_ok)
next
  case False
  with ys show ?thesis
    unfolding pcs_append_node_delta_def Let_def
    by (simp only: if_False physical_sizes not_True_eq_False simp_thms)
      (intro runs_bind [OF frontiers_succeed(2) [OF sha]] runs_pre runs_bind [OF writable_succeeds(2) [OF sha]]
        runs_bind [OF exact_lengths_succeed(2) [OF sha]] runs_if runs_bind [OF handles_succeed(6) [OF sha]];
        use writes_succeed(4) [OF sha w] in simp)
qed

lemma sync_succeeds:
  assumes sha: "sha_ok E"
  shows "succeeds (able E g a xp xn) pcs_sync_content (\<lambda>_. able E g a xp xn)"
proof -
  have one: "succeeds (able E g a xp xn) (callC e (dir_sync name)) (\<lambda>_. able E g a xp xn)"
    if "name \<in> {content_payload_filename g, content_nodes_filename g}" for e name
  proof (rule succeeds_able' [OF _ succeeds_call])
    show "runs (kept False E g a) (poised False E g a xp xn) (callC e (dir_sync name)) (\<lambda>_. poised False E g a xp xn)"
      by (rule runs_weaken [OF sync_file_runs [OF that, where yp = None and yn = None]]) (auto simp: synced_def)
  qed (use that ableD(3,4,9) [OF sha] in \<open>auto intro: willing_calls(3)\<close>)
  show ?thesis
    unfolding pcs_sync_content_def Let_def
    by (intro runs_bind [OF writable_succeeds(2) [OF sha]] runs_bind [OF handles_succeed(3) [OF sha]] runs_pre
        runs_bind [OF one] runs_bind [OF handles_succeed(4) [OF sha]] one) auto
qed

text \<open>Commit, barrier and adoption.\<close>

lemma commit_available:
  assumes sha: "sha_ok E" and k: "kept False E g a st" "opened st" "willing (pcs_dir st)"
    and d: "delta_between E g a a' root d" and wf: "arena_wf E a'"
    and w: "length (payload_image g a') < width64" "length (nodes_image g a') < width64"
  shows "\<exists>b'. bindP (commit_physical_delta (physical_content E) d) (\<lambda>_.
      bindP (sync_physical_content (physical_content E)) (\<lambda>_.
      bindP (modifyP (adopt_physical_delta (physical_content E) d)) (\<lambda>_. retP x))) (on_disk st wk) = Some (Inr x, b')"
proof -
  let ?P = "\<lambda>xs ys. able E g a (Some (payload_image g a @ xs)) (Some (nodes_image g a @ ys))"
  note im = delta_images [OF d]
  obtain ms where ms: "seq_nodes a' = seq_nodes a @ ms" "delta_nodes d = node_table ms"
    using d by (auto simp: delta_between_def)
  have "sized ms"
    using nodes_ok_sized [OF sha, of "seq_payload a'" "seq_nodes a'"] wf ms(1) by (auto simp: arena_wf_def)
  then have al: "length (delta_nodes d) mod 72 = 0"
    using ms(2) by (simp add: length_node_table)
  obtain u1 s1 where s1: "heal_for_write st = (Inr u1, s1)" "able E g a (Some (payload_image g a)) (Some (nodes_image g a)) s1"
    using succeedsD [OF heal_succeeds [OF sha], of g a st] k by blast
  obtain u2 s2 where s2: "pcs_append_payload_delta (delta_payload d) s1 = (Inr u2, s2)"
    "able E g a (Some (payload_image g a @ delta_payload d)) (Some (nodes_image g a)) s2"
    using succeedsD [OF append_payload_succeeds [OF sha w(1) [unfolded im(1)]] s1(2)] by blast
  obtain u3 s3 where s3: "pcs_append_node_delta (delta_nodes d) s2 = (Inr u3, s3)"
    "?P (delta_payload d) (delta_nodes d) s3"
    using succeedsD [OF append_nodes_succeeds [OF sha w(2) [unfolded im(2)] al] s2(2)] by blast
  obtain u4 s4 where s4: "pcs_sync_content s3 = (Inr u4, s4)"
    using succeedsD [OF sync_succeeds [OF sha] s3(2)] by blast
  show ?thesis
    using s1(1) s2(1) s3(1) s4
    by (simp add: commit_physical_delta_def commit_delta_steps_def sync_physical_content_def physicalP_def bindP_def
        modifyP_def adopt_physical_delta_def retP_def)
qed

section \<open>Splicing\<close>

lemma splice_result_length:
  assumes wf: "arena_wf E a" and run: "splice_seq E parent off del ins a = Some (Inr res, a')"
  shows "root_len (splice_root res) = (case parent of None \<Rightarrow> 0 | Some r \<Rightarrow> root_len r) - del + length ins"
proof -
  have "splice_checks E memory_arena a parent off del ins = Inr ()"
    using run by (cases rule: splice_run_cases) auto
  then obtain src where src: "source_of E a parent src" "edit_allowed parent src off del ins"
    using splice_source [OF wf] by blast
  obtain pt where pt: "rel_option (rep E (seq_payload a) (seq_nodes a)) parent pt" "ocontent pt = src"
    by (rule source_rep [OF wf src(1)])
  have "length src = (case parent of None \<Rightarrow> 0 | Some r \<Rightarrow> root_len r)"
    using pt rep_metadata by (cases parent; cases pt) (auto simp: tlen_def)
  moreover obtain t where "rep E (seq_payload a') (seq_nodes a') (splice_root res) t" "content t = edit src off del ins"
    using splice_outcome [OF wf src] run by auto
  ultimately show ?thesis
    using rep_metadata [of E _ _ "splice_root res" t] length_edit [of off del src ins] src(2)
    by (auto simp: tlen_def edit_allowed_def)
qed

lemma seam_splice_available:
  assumes sha: "sha_ok E" and k: "kept b E g a st" and sv: "served E st" and wl: "willing (pcs_dir st)"
    and w: "length (seq_nodes a) < width64"
    and mem: "seam_splice E (physical_content E) parent off del ins (in_memory a wk) = Some (Inr y, in_memory a' wk')"
    and room: "16 + length (seq_payload a') < width64" "16 + length (seq_nodes a') * 72 < width64"
  shows "\<exists>st'. seam_splice E (physical_content E) parent off del ins (on_disk st wk) = Some (Inr y, on_disk st' wk') \<and>
    kept True E g a' st' \<and> opened st'"
proof -
  have st: "serves_arena E st a" and c: "committed E st a" and op: "opened st" and gen: "pcs_generation st = g"
    using holds_kept [OF sha k w] sv k by (auto simp: serves_arena_def kept_def served_def)
  have k0: "kept False E g a st"
    using k by (auto simp: kept_def holds_def)
  obtain resolved where rm: "resolve_option (physical_content E) (in_memory a wk) parent = Inr resolved"
    using mem by (cases "resolve_option (physical_content E) (in_memory a wk) parent") (auto simp: seam_splice_def readP_def bindP_def)
  then have rd: "resolve_option (physical_content E) (on_disk st wk) parent = Inr resolved"
    using serving.resolve_option_agree [OF st, of wk parent]
    by (cases "resolve_option (physical_content E) (on_disk st wk) parent") auto
  let ?pl = "case resolved of None \<Rightarrow> 0 | Some r \<Rightarrow> root_len r"
  let ?n = "?pl - del + length ins"
  have e: "try_from width64 (length ins) = Some (length ins)" "checked_sub ?pl del = Some (?pl - del)"
      "checked_add width64 (?pl - del) (length ins) = Some ?n"
    using mem rm
    by (auto simp: seam_splice_def readP_def bindP_def liftP_def Let_def try_from_def checked_sub_def checked_add_def split: if_splits)
  obtain res where run: "splice_seq E resolved off del ins a = Some (Inr res, a')"
    using mem rm e
    by (auto simp: seam_splice_def readP_def bindP_def liftP_def Let_def backend_is_physical_def memory_splice_def modifyP_def
        note_written_def in_memory_def map_err_Inr_iff split: option.splits sum.splits prod.splits)
  have disk: "seam_splice E (physical_content E) parent off del ins (on_disk st wk) =
      physical_splice (physical_content E) parent off del ins ?n (on_disk st wk)"
    using rd e by (simp add: seam_splice_def readP_def bindP_def liftP_def Let_def backend_is_physical_def)
  have wf: "arena_wf E a'"
    using splice_frame [OF run] committedD(1) [OF c] by blast
  have fits: "length (payload_image g a') < width64" "length (nodes_image g a') < width64" and "table_bounded a'"
    using room nodes_ok_sized [OF sha] wf by (auto simp: table_bounded_def length_images arena_wf_def)
  then obtain d where prep: "pcs_prepare_physical_delta E st resolved off del ins ?n = Some (Inr d)"
    using prepare_available [OF st run splice_result_length [OF committedD(1) [OF c] run]] by blast
  have d: "delta_between E g a a' (splice_root res) d"
    using prepare_outcome [OF holds_kept [OF sha k w], of resolved off del ins ?n] prep run gen by auto
  have pp: "prepare_physical_splice (physical_content E) parent off del ins ?n (on_disk st wk) = Some (Inr d, on_disk st wk)"
    using rd prep by (simp add: prepare_physical_splice_def)
  have "\<exists>x b'. physical_splice (physical_content E) parent off del ins ?n (on_disk st wk) = Some (Inr x, b')"
    unfolding physical_splice_def
    by (subst bindP_Inr [of _ _ d "on_disk st wk"]) (simp add: pp, rule exI, rule commit_available [OF sha k0 op wl d wf fits])
  then obtain x b' where b': "seam_splice E (physical_content E) parent off del ins (on_disk st wk) = Some (Inr x, b')"
    unfolding disk by blast
  show ?thesis
    using seam_splice_outcome [OF sha k w, of parent off del ins wk] b' mem by (auto simp: in_memory_def)
qed

section \<open>Replaying\<close>

lemma replay_available:
  assumes sha: "sha_ok E" and c: "committed E st a" and sv: "served E st"
    and room: "\<And>n. try_reserve E ''history physical delta validation allocation failed'' n"
    and hold: "files_hold (pcs_dir st) (pcs_generation st) b" and wfb: "arena_wf E b"
    and root: "child_ok (seq_nodes b) root" and d: "delta_between E (pcs_generation st) a b root d"
  shows "replay_of E st d = Inr root"
proof -
  have op: "opened st"
    using sv by (simp add: served_def)
  have files: "payload_file st = Inr (content_payload_filename (pcs_generation st))"
    "nodes_file st = Inr (content_nodes_filename (pcs_generation st))"
    using op by (auto simp: opened_def payload_file_def nodes_file_def)
  have fresh: "read_fresh E st (Inr name) (length pre) (length bs) m = Inr bs"
    if "starts_with (pcs_dir st) name (pre @ bs)" for name pre bs m
    using served_read [OF sv that, of "length pre" "length bs"] exact_read [OF that, of "length pre" "length bs"] room
    by (auto simp: read_fresh_def)
  obtain ms where ms: "seq_nodes b = seq_nodes a @ ms" "delta_nodes d = node_table ms"
    "seq_payload b = seq_payload a @ delta_payload d"
    and dig: "delta_digest d = physical_delta_digest E (pcs_generation st) (length (seq_payload a)) (length (seq_payload b))
       (length (seq_nodes a)) (length (seq_nodes b)) (delta_payload d) (delta_nodes d) (encode_v2_root root)"
    using d by (auto simp: delta_between_def)
  have "is_ok (pcs_load_record st (root_node_id root))" if "root_node_id root < length (seq_nodes a)"
    using served_record [OF sha c sv that] by simp
  then show ?thesis
    using validate_delta_fresh [OF sha c wfb ms(3,1) root] fresh_starts [OF hold d]
    unfolding replay_run [OF sha c hold wfb root d] files dig by (auto simp: fresh ms(2))
qed

end
