(* ===== verification/History_Publication.thy ===== *)
theory History_Publication
  imports History_Authority History_Import_Correct History_Manifest_Codec History_Recovery Physical_Available
begin

text \<open>
  Crash safety of publication.  Whatever calls fail while a generation is sealed, and however a power
  cut settles the directory entries that were not synced, the directory holds the old authority
  untouched or the new one complete; the new one opens to the catalogue that was sealed.
\<close>

section \<open>Names\<close>

lemma name_ends:
  "last (history_wal_filename g) = CHR ''l''" "last (history_snapshot_filename g) = CHR ''s''"
  "last (tmp_path n) = CHR ''p''" "last HISTORY_MANIFEST_FILE = CHR ''n''" "last HISTORY_LOCK_FILE = CHR ''k''"
  "last (content_payload_filename g) = CHR ''d''" "last (content_nodes_filename g) = CHR ''s''"
  by (simp_all add: history_wal_filename_def history_snapshot_filename_def tmp_path_def HISTORY_MANIFEST_FILE_def
      HISTORY_LOCK_FILE_def content_payload_filename_def content_nodes_filename_def)

lemma name_starts:
  "hd (history_wal_filename g) = CHR ''h''" "hd (history_snapshot_filename g) = CHR ''h''"
  "hd (content_payload_filename g) = CHR ''c''" "hd (content_nodes_filename g) = CHR ''c''"
  "hd HISTORY_MANIFEST_FILE = CHR ''h''" "hd (tmp_path (history_wal_filename g)) = CHR ''h''"
  "hd (tmp_path (history_snapshot_filename g)) = CHR ''h''" "hd (tmp_path HISTORY_MANIFEST_FILE) = CHR ''h''"
  by (simp_all add: history_wal_filename_def history_snapshot_filename_def tmp_path_def HISTORY_MANIFEST_FILE_def
      content_payload_filename_def content_nodes_filename_def)

lemma tmp_path_inject [simp]: "tmp_path m = tmp_path n \<longleftrightarrow> m = n"
  by (simp add: tmp_path_def)

lemma name_neqI: "last m \<noteq> last n \<or> hd m \<noteq> hd n \<Longrightarrow> m \<noteq> n"
  by auto

lemma entry_names_differ:
  "history_wal_filename g \<noteq> history_snapshot_filename g'" "history_wal_filename g \<noteq> tmp_path n"
  "history_snapshot_filename g \<noteq> tmp_path n" "HISTORY_MANIFEST_FILE \<noteq> tmp_path n"
  "HISTORY_MANIFEST_FILE \<noteq> history_wal_filename g" "HISTORY_MANIFEST_FILE \<noteq> history_snapshot_filename g"
  "content_payload_filename p \<noteq> tmp_path n" "content_nodes_filename p \<noteq> tmp_path n"
  "content_payload_filename p \<noteq> history_wal_filename g" "content_nodes_filename p \<noteq> history_wal_filename g"
  "content_payload_filename p \<noteq> history_snapshot_filename g" "content_nodes_filename p \<noteq> history_snapshot_filename g"
  "content_payload_filename p \<noteq> HISTORY_MANIFEST_FILE" "content_nodes_filename p \<noteq> HISTORY_MANIFEST_FILE"
  by (rule name_neqI, simp add: name_ends name_starts)+

lemma wal_filename_inject: "g < width64 \<Longrightarrow> g' < width64 \<Longrightarrow> history_wal_filename g = history_wal_filename g' \<longleftrightarrow> g = g'"
  by (simp add: history_wal_filename_def padded_inject)

lemmas entry_names_differ' = entry_names_differ entry_names_differ [symmetric]

section \<open>Calls on the directory\<close>

text \<open>\<open>untouched X D d\<close>: outside \<open>X\<close> the entries of \<open>d\<close> are those of \<open>D\<close> and no older entry was added.\<close>

definition untouched :: "string set \<Rightarrow> NamedDirectory \<Rightarrow> NamedDirectory \<Rightarrow> bool" where
  "untouched X D d \<longleftrightarrow> (\<forall>n. n \<notin> X \<longrightarrow> dir_files (nd_dir d) n = dir_files (nd_dir D) n \<and>
     (\<forall>x. (n, x) \<in> set (nd_older d) \<longrightarrow> (n, x) \<in> set (nd_older D)))"

lemma untouched_refl [simp]: "untouched X D D"
  by (simp add: untouched_def)

lemma untouched_trans: "untouched X D d \<Longrightarrow> untouched X d d' \<Longrightarrow> untouched X D d'"
  by (auto simp: untouched_def)

lemma untouched_mono: "untouched X D d \<Longrightarrow> X \<subseteq> Y \<Longrightarrow> untouched Y D d"
  by (auto simp: untouched_def)

lemma dir_calls_files:
  assumes "nm \<noteq> name"
  shows "dir_create_truncate name d = (ok, d') \<Longrightarrow> dir_files d' nm = dir_files d nm"
    "dir_write name p bs d = (ok, d') \<Longrightarrow> dir_files d' nm = dir_files d nm"
    "dir_sync name d = (ok, d') \<Longrightarrow> dir_files d' nm = dir_files d nm"
    "dir_create_new name d = (ok, d') \<Longrightarrow> dir_files d' nm = dir_files d nm"
  using assms by (auto simp: dir_create_truncate_def dir_write_def dir_sync_def dir_create_new_def put_file_def
      split: option.splits if_splits DirAnswer.splits prod.splits)

lemma on_entry_untouched:
  assumes "on_entry name call d = (ok, d')" "\<And>x ok x' nm. nm \<noteq> name \<Longrightarrow> call x = (ok, x') \<Longrightarrow> dir_files x' nm = dir_files x nm"
  shows "untouched {name} d d'"
  using assms by (auto simp: on_entry_def untouched_def split: prod.splits if_splits)

lemma rename_untouched: "rename from to d = (ok, d') \<Longrightarrow> untouched {from, to} d d'"
  by (auto simp: rename_def untouched_def split: option.splits prod.splits DirAnswer.splits)

lemma sync_dir_untouched: "sync_dir d = (ok, d') \<Longrightarrow> untouched {} d d'"
  by (auto simp: sync_dir_def untouched_def split: prod.splits DirAnswer.splits)

lemma remove_untouched: "remove_file name d = (ok, d') \<Longrightarrow> untouched {name} d d'"
  by (auto simp: remove_file_def untouched_def split: option.splits prod.splits DirAnswer.splits)

lemma entry_calls_untouched:
  "on_entry name (dir_create_truncate name) d = (ok, d') \<Longrightarrow> untouched {name} d d'"
  "on_entry name (dir_write name p bs) d = (ok, d') \<Longrightarrow> untouched {name} d d'"
  "on_entry name (dir_sync name) d = (ok, d') \<Longrightarrow> untouched {name} d d'"
  by (erule on_entry_untouched, erule dir_calls_files, assumption)+

lemma write_file_untouched:
  assumes "write_file_synced name bytes d = (ok, d')"
  shows "untouched {name} d d'"
proof -
  obtain c1 d1 where c: "on_entry name (dir_create_truncate name) d = (c1, d1)"
    by fastforce
  note u1 = entry_calls_untouched(1) [OF c]
  obtain c2 d2 where w: "(if bytes = [] then (True, d1) else on_entry name (dir_write name 0 bytes) d1) = (c2, d2)"
    by fastforce
  have u2: "untouched {name} d1 d2"
    using w entry_calls_untouched(2) by (auto split: if_splits)
  have u3: "untouched {name} d2 d'" if "on_entry name (dir_sync name) d2 = (ok, d')"
    using entry_calls_untouched(3) that .
  show ?thesis
    using assms c w u1 u2 u3 unfolding write_file_synced_def
    by (auto split: bool.splits intro: untouched_trans)
qed

text \<open>A file that is complete on the medium.\<close>

definition sealed_file :: "NamedDirectory \<Rightarrow> string \<Rightarrow> byte list \<Rightarrow> bool" where
  "sealed_file d name bytes \<longleftrightarrow> dir_files (nd_dir d) name = Some \<lparr>file_bytes = bytes, file_durable = bytes\<rparr>"

lemma write_file_sealed:
  assumes "write_file_synced name bytes d = (True, d')"
  shows "sealed_file d' name bytes"
  using assms by (auto simp: write_file_synced_def on_entry_def sealed_file_def dir_create_truncate_def dir_write_def
      dir_sync_def put_file_def overwrite_def zero_extend_def
      split: prod.splits bool.splits if_splits option.splits DirAnswer.splits)

lemma sync_dir_older: "sync_dir d = (True, d') \<Longrightarrow> nd_older d' = []"
  by (auto simp: sync_dir_def split: prod.splits DirAnswer.splits)

lemma rename_sealed:
  assumes "rename from to d = (True, d')" "sealed_file d from bytes"
  shows "sealed_file d' to bytes"
  using assms by (auto simp: rename_def sealed_file_def split: prod.splits DirAnswer.splits)

lemma untouched_sealed: "untouched X d d' \<Longrightarrow> sealed_file d name bytes \<Longrightarrow> name \<notin> X \<Longrightarrow> sealed_file d' name bytes"
  by (simp add: untouched_def sealed_file_def)

lemma publish_untouched:
  assumes "publish_file tmp final d = (ok, d')"
  shows "untouched {tmp, final} d d'"
proof -
  obtain r d1 where r: "rename tmp final d = (r, d1)"
    by fastforce
  have "untouched {tmp, final} d1 d'" if "sync_dir d1 = (ok, d')"
    using sync_dir_untouched [OF that] by (rule untouched_mono) simp
  then show ?thesis
    using assms r rename_untouched [OF r] by (auto simp: publish_file_def split: bool.splits intro: untouched_trans)
qed

lemma publish_sealed:
  assumes "publish_file tmp final d = (True, d')" "sealed_file d tmp bytes"
  shows "sealed_file d' final bytes" "nd_older d' = []"
proof -
  obtain d1 where "rename tmp final d = (True, d1)" "sync_dir d1 = (True, d')"
    using assms(1) by (auto simp: publish_file_def split: prod.splits bool.splits)
  then show "sealed_file d' final bytes" "nd_older d' = []"
    using rename_sealed assms(2) untouched_sealed [OF sync_dir_untouched] sync_dir_older by blast+
qed

section \<open>Staging\<close>

definition leaves :: "string set \<Rightarrow> 'a nd_prog \<Rightarrow> bool" where
  "leaves X m \<longleftrightarrow> (\<forall>d r d'. m d = (r, d') \<longrightarrow> untouched X d d')"

lemma leaves_bind: "leaves X m \<Longrightarrow> (\<And>x. leaves X (k x)) \<Longrightarrow> leaves X (bindD m k)"
  by (fastforce simp: leaves_def bindD_def split: prod.splits sum.splits intro: untouched_trans)

lemma leaves_view: "leaves X (viewD f)"
  by (simp add: leaves_def viewD_def)

lemma leaves_call: "(\<And>d ok d'. call d = (ok, d') \<Longrightarrow> untouched Y d d') \<Longrightarrow> Y \<subseteq> X \<Longrightarrow> leaves X (callD m call)"
  by (auto simp: leaves_def callD_def split: prod.splits intro: untouched_mono)

lemmas leaves_intros = leaves_bind leaves_view leaves_call [OF write_file_untouched] leaves_call [OF publish_untouched]

lemma leavesD: "leaves X m \<Longrightarrow> m d = (r, d') \<Longrightarrow> untouched X d d'"
  by (simp add: leaves_def)

definition staged_names :: "u64 \<Rightarrow> string set" where
  "staged_names g = {history_snapshot_filename g, tmp_path (history_snapshot_filename g),
     history_wal_filename g, tmp_path (history_wal_filename g)}"

lemma bindD_InrE:
  assumes "bindD m k d = (Inr y, d2)"
  obtains x d1 where "m d = (Inr x, d1)" "k x d1 = (Inr y, d2)"
  using assms by (auto simp: bindD_def split: prod.splits sum.splits)

lemma viewD_InrE:
  assumes "viewD f d = (Inr y, d1)"
  obtains "f (nd_dir d) = Inr y" "d1 = d"
  using assms unfolding viewD_def by blast

lemma callD_InrE:
  assumes "callD m call d = (Inr y, d1)"
  obtains "call d = (True, d1)"
  using assms by (cases "call d") (auto simp: callD_def split: if_splits)

lemma publish_staged_leaves: "leaves (staged_names g) (publish_staged_files E current g w bs)"
  unfolding publish_staged_files_def Let_def by (intro leaves_intros) (auto simp: staged_names_def)

definition staged_seal :: "env \<Rightarrow> u64 \<Rightarrow> u64 \<Rightarrow> u64 \<Rightarrow> byte list \<Rightarrow> StagedSeal" where
  "staged_seal E current g w bs = \<lparr>st_previous = current, st_generation = g, st_represented_wal_end = w,
     st_sealed = ManifestSealed_for_snapshot E (length bs) bs, st_snapshot_len = length bs\<rparr>"

text \<open>A staged generation: its two files are complete and every entry of the directory is durable.\<close>

definition staged_on :: "u64 \<Rightarrow> byte list \<Rightarrow> NamedDirectory \<Rightarrow> bool" where
  "staged_on g bs d \<longleftrightarrow> sealed_file d (history_snapshot_filename g) bs \<and> sealed_file d (history_wal_filename g) [] \<and>
     nd_older d = []"

lemma publish_staged_done:
  assumes "publish_staged_files E current g w bs d = (Inr staged, d')"
  shows "staged = staged_seal E current g w bs" "staged_on g bs d'"
proof -
  let ?s = "history_snapshot_filename g" and ?h = "history_wal_filename g"
  obtain d1 d2 d3 where 1: "write_file_synced (tmp_path ?s) bs d = (True, d1)" and 2: "publish_file (tmp_path ?s) ?s d1 = (True, d2)"
    and 3: "write_file_synced (tmp_path ?h) [] d2 = (True, d3)" and 4: "publish_file (tmp_path ?h) ?h d3 = (True, d')"
    and st: "staged = staged_seal E current g w bs"
    using assms unfolding publish_staged_files_def Let_def
    by (elim bindD_InrE callD_InrE viewD_InrE) (auto simp: staged_seal_def)
  show "staged = staged_seal E current g w bs"
    by (rule st)
  have "sealed_file d2 ?s bs"
    by (rule publish_sealed(1) [OF 2 write_file_sealed [OF 1]])
  then have "sealed_file d3 ?s bs"
    by (rule untouched_sealed [OF write_file_untouched [OF 3]]) (simp add: entry_names_differ')
  then have "sealed_file d' ?s bs"
    by (rule untouched_sealed [OF publish_untouched [OF 4]]) (simp add: entry_names_differ')
  then show "staged_on g bs d'"
    using publish_sealed [OF 4 write_file_sealed [OF 3]] by (simp add: staged_on_def)
qed

lemma stage_sealed_outcome:
  assumes run: "stage_sealed_generation E J s d = (r, d')"
    and m: "read_manifest J (nd_dir d) = Inr m" and g: "g = (case m of None \<Rightarrow> 0 | Some m \<Rightarrow> hm_generation m)"
  shows "untouched (staged_names (g + 1)) d d'"
    and "r = Inr staged \<Longrightarrow> \<exists>w bs. g + 1 < width64 \<and> w < width64 \<and>
      encode_history_snapshot E (physical_content E) (lend (nd_dir d) s) (g + 1) w = Inr bs \<and>
      staged = staged_seal E g (g + 1) w bs \<and> staged_on (g + 1) bs d'"
proof -
  have cur: "current_generation J (nd_dir d) = Inr g"
    by (simp add: current_generation_def m g)
  show "untouched (staged_names (g + 1)) d d'"
  proof (cases "g + 1 < width64")
    case False
    then show ?thesis
      using run cur by (auto simp: stage_sealed_generation_def bindD_def viewD_def next_generation_def checked_add_def)
  next
    case True
    have "stage_sealed_generation E J s d = bindD (viewD (\<lambda>d. current_hot_wal_end E d g)) (\<lambda>wal_end.
        bindD (viewD (\<lambda>d. map_err Rejected (encode_history_snapshot E (physical_content E) (lend d s) (g + 1) wal_end))) (\<lambda>snapshot.
        publish_staged_files E g (g + 1) wal_end snapshot)) d"
      using cur True by (simp add: stage_sealed_generation_def bindD_def viewD_def next_generation_def checked_add_def)
    with run show ?thesis
      by (intro leavesD [OF leaves_bind [OF leaves_view leaves_bind [OF leaves_view publish_staged_leaves]]]) simp
  qed
  assume r: "r = Inr staged"
  obtain w bs where w: "current_hot_wal_end E (nd_dir d) g = Inr w" "next_generation g = Inr (g + 1)"
    "encode_history_snapshot E (physical_content E) (lend (nd_dir d) s) (g + 1) w = Inr bs"
    "publish_staged_files E g (g + 1) w bs d = (Inr staged, d')"
    using run cur unfolding r stage_sealed_generation_def
    by (auto simp: bindD_def viewD_def result_iffs next_generation_def checked_iffs split: sum.splits)
  then show "\<exists>w bs. g + 1 < width64 \<and> w < width64 \<and>
      encode_history_snapshot E (physical_content E) (lend (nd_dir d) s) (g + 1) w = Inr bs \<and>
      staged = staged_seal E g (g + 1) w bs \<and> staged_on (g + 1) bs d'"
    using publish_staged_done [OF w(4)]
    by (auto simp: next_generation_def current_hot_wal_end_def decode_history_log_def result_iffs checked_iffs try_from_def
        split: if_splits)
qed

lemma open_hot_existing:
  assumes "open_hot E lock name d = (r, d')" "dir_files (nd_dir d) name \<noteq> None"
  shows "d' = d"
  using assms by (auto simp: open_hot_def on_entry_def dir_open_or_create_def split: if_splits FsRead.splits bool.splits)

section \<open>Opening a complete generation\<close>

lemma resolves_physical:
  assumes "backend b = Physical st"
  shows "resolves_canonically (physical_content E) b"
  unfolding resolves_canonically_def
proof (intro allI impI)
  fix root r
  assume "resolve (physical_content E) b root = Inr r"
  then obtain rec where rec: "pcs_load_record st (proot_node_id root) = Inr rec"
      "V2RootRecord_from_node (proot_node_id root) rec = Inr r"
    using assms by (auto simp: resolve_def physical_content_def result_iffs split: if_splits)
  then obtain bytes where "decode_v2_node bytes = Inr rec" "proot_node_id root * PHYSICAL_NODE_RECORD_SIZE < width64"
    by (auto simp: pcs_load_record_def result_iffs checked_iffs split: if_splits)
  then have "node_canonical rec" "proot_node_id root < width64"
    using encode_decode_v2_node by (auto simp: PHYSICAL_NODE_RECORD_SIZE_def)
  then show "root_canonical r \<and> root_node_id r = proot_node_id root"
    using rec(2) none_node_less
    by (cases "node_body rec") (auto simp: V2RootRecord_from_node_def root_canonical_def node_canonical_def split: if_splits)
qed

lemma fs_read_answering: "answering d \<Longrightarrow> dir_files d n = Some f \<Longrightarrow> fs_read d n = ReadOk (file_bytes f)"
  by (simp add: fs_read_def answering_def)

lemma kept_widths:
  assumes "sha_ok E" "kept True E pg c st" "opened st"
  shows "pcs_generation st = pg" "pg < width64" "pcs_payload_end st = length (seq_payload c)" "pcs_node_count st = length (seq_nodes c)"
    "length (seq_payload c) < width64" "length (seq_nodes c) < width64" "arena_wf E c"
proof -
  show k: "pcs_generation st = pg" "pg < width64" "pcs_payload_end st = length (seq_payload c)"
      "pcs_node_count st = length (seq_nodes c)" "arena_wf E c"
    using assms(2) by (auto simp: kept_def committed_def)
  have "holds True (pcs_dir st) (content_payload_filename pg) (payload_image pg c)"
      "holds True (pcs_dir st) (content_nodes_filename pg) (nodes_image pg c)"
    using assms(2,3) by (auto simp: kept_def)
  then have "length (payload_image pg c) < width64" "length (nodes_image pg c) < width64"
    using extends_length by (fastforce simp: holds_def)+
  moreover have "sized (seq_nodes c)"
    using nodes_ok_sized [OF assms(1)] k(5) by (auto simp: arena_wf_def)
  ultimately show "length (seq_payload c) < width64" "length (seq_nodes c) < width64"
    by (simp_all add: length_images)
qed

lemma frontiers_covered:
  assumes sha: "sha_ok E" and c: "committed E st a" "opened st" and ans: "answering (pcs_dir st)"
  shows "pcs_check_files_cover_frontiers st = Inr ()"
proof -
  let ?g = "pcs_generation st" and ?d = "pcs_dir st"
  have h: "starts_with ?d (content_payload_filename ?g) (payload_image ?g a)"
      "starts_with ?d (content_nodes_filename ?g) (nodes_image ?g a)"
    and n: "pcs_payload_end st = length (seq_payload a)" "pcs_node_count st = length (seq_nodes a)" "arena_wf E a"
    using c by (auto simp: committed_def files_hold_def)
  have sz: "sized (seq_nodes a)"
    using nodes_ok_sized [OF sha] n(3) by (auto simp: arena_wf_def)
  obtain f1 f2 where f: "dir_files ?d (content_payload_filename ?g) = Some f1" "length (payload_image ?g a) \<le> length (file_bytes f1)"
      "length (file_bytes f1) < width64"
      "dir_files ?d (content_nodes_filename ?g) = Some f2" "length (nodes_image ?g a) \<le> length (file_bytes f2)"
      "length (file_bytes f2) < width64"
    using h extends_length by (fastforce simp: starts_with_def)
  show ?thesis
    using f c(2) ans n sz
    by (auto simp: pcs_check_files_cover_frontiers_def opened_def dir_length_def answering_def payload_frontier_def
        node_frontier_def length_images PHYSICAL_HEADER_SIZE_def PHYSICAL_NODE_RECORD_SIZE_def checked_add_def checked_mul_def)
qed

text \<open>What the sealed store must satisfy: it refines the abstract history \<open>a\<close>, and its content \<open>c\<close> is
  durable in the open files of generation \<open>pg\<close>.\<close>

definition sealable ::
  "env \<Rightarrow> (PersistentRoot \<Rightarrow> byte list \<Rightarrow> bool) \<Rightarrow> PhysicalContentStore PersistentHistoryStore \<Rightarrow> HistorySpec \<Rightarrow>
   PhysicalContentStore \<Rightarrow> u64 \<Rightarrow> V2AvlSequence \<Rightarrow> bool" where
  "sealable E den s a st pg c \<longleftrightarrow> tabled s a \<and> stored den (versions s) a \<and> spec_inv a \<and> \<not> poisoned s \<and>
     backend (store_backend s) = Physical st \<and> kept True E pg c st \<and> opened st"

text \<open>The store a reopening gives back.\<close>

definition restored ::
  "env \<Rightarrow> PhysicalContentStore PersistentHistoryStore \<Rightarrow> HistorySpec \<Rightarrow> V2AvlSequence \<Rightarrow> Directory \<Rightarrow> u64 \<Rightarrow> OpenedHistory \<Rightarrow> bool" where
  "restored E s a c d g h \<longleftrightarrow> opened_generation h = g \<and> suffix_bytes (opened_stats h) = 0 \<and>
     versions (opened_store h) = versions s \<and> tabled (opened_store h) a \<and> \<not> poisoned (opened_store h) \<and>
     (\<exists>st. store_backend (opened_store h) = open_physical st \<and> committed E st c \<and> opened st \<and> pcs_dir st = d)"

definition new_manifest :: "env \<Rightarrow> u64 \<Rightarrow> byte list \<Rightarrow> HistoryManifest" where
  "new_manifest E g bs = \<lparr>hm_generation = g, hm_sealed = Some (ManifestSealed_for_snapshot E (length bs) bs)\<rparr>"

lemma replay_nothing:
  assumes E: "\<And>m n. try_reserve E m n" and "tabled s a" "spec_inv a"
  shows "replay_history_suffix E P [] s = Some (Inr (), s)"
proof -
  have "decode_history_log E [] = Inr ([], 0)"
    by (simp add: decode_history_log_def scan_frames.simps try_from_def width64_def)
  moreover have "validate_replayed_history_bindings E s = Inr ()"
    using tabled_bindings_unique [OF assms(2,3)] by (simp add: validate_replayed_history_bindings_def reserve_def E)
  ultimately show ?thesis
    by (simp add: replay_history_suffix_def run_simps readP_def)
qed

lemma sealed_decodes:
  assumes E: "\<And>m n. try_reserve E m n" and sha: "sha_ok E"
    and s: "sealable E den s a st pg c" and w: "g < width64" "wal_end < width64"
    and enc: "encode_history_snapshot E (physical_content E) s g wal_end = Inr bs"
  obtains snap where "decode_history_snapshot E bs = Inr snap" "snap_generation snap = g"
      "snap_payload_end snap = length (seq_payload c)" "snap_node_count snap = length (seq_nodes c)"
      "snap_physical_generation snap = pg"
      "\<And>b :: PhysicalContentStore BalancedSequence. \<exists>s'. import_catalogue E b snap = Inr s' \<and> store_backend s' = b \<and>
         versions s' = versions s \<and> tabled s' a \<and> \<not> poisoned s'"
proof -
  have s': "tabled s a" "\<not> poisoned s" "stored den (versions s) a" "spec_inv a" "backend (store_backend s) = Physical st"
      "kept True E pg c st" "opened st"
    using s by (auto simp: sealable_def)
  note k = kept_widths [OF sha s'(6,7)]
  have fr: "snapshot_frontiers (physical_content E) s = (length (seq_payload c), length (seq_nodes c))"
      "physical_generation (physical_content E) (store_backend s) = Some pg"
    using s'(5) k(1,3,4) by (simp_all add: snapshot_frontiers_def physical_frontiers_def physical_generation_def physical_content_def)
  show thesis
    by (rule seal_import [OF E sha s'(1-4) resolves_physical [OF s'(5)] w _ _ _ enc])
      (use k fr that in auto)
qed

theorem new_authority_opens:
  assumes E: "\<And>m n. try_reserve E m n" and sha: "sha_ok E" and J: "serde_reads J"
    and s: "sealable E den s a st pg c" and w: "g < width64" "wal_end < width64"
    and enc: "encode_history_snapshot E (physical_content E) s g wal_end = Inr bs"
    and ans: "answering d" and hold: "files_hold d pg c"
    and m: "dir_files d HISTORY_MANIFEST_FILE = Some fm" "file_bytes fm = encode_history_manifest (new_manifest E g bs)"
    and sn: "dir_files d (history_snapshot_filename g) = Some fs" "file_bytes fs = bs"
    and hot: "dir_files d (history_wal_filename g) = Some fh" "file_bytes fh = []"
  shows "\<exists>h. open_history_authority E J d = Some (Inr h) \<and> restored E s a c d g h"
proof -
  have s': "tabled s a" "\<not> poisoned s" "stored den (versions s) a" "spec_inv a" "backend (store_backend s) = Physical st"
      "kept True E pg c st" "opened st"
    using s by (auto simp: sealable_def)
  note k = kept_widths [OF sha s'(6,7)]
  obtain snap where snap: "decode_history_snapshot E bs = Inr snap" "snap_generation snap = g"
      "snap_payload_end snap = length (seq_payload c)" "snap_node_count snap = length (seq_nodes c)"
      "snap_physical_generation snap = pg"
      "\<And>b :: PhysicalContentStore BalancedSequence. \<exists>s'. import_catalogue E b snap = Inr s' \<and> store_backend s' = b \<and>
         versions s' = versions s \<and> tabled s' a \<and> \<not> poisoned s'"
    by (rule sealed_decodes [OF E sha s w enc]) (rule that)
  have bs: "0 < length bs" "length bs < width64"
    using snap(1) unfolding decode_snapshot_iff [OF E sha]
    by (auto simp: prefix_image_def HISTORY_SNAPSHOT_MAGIC_def ascii_def)
  have "manifest_ok (new_manifest E g bs)"
    using bs w(1) sha by (simp add: manifest_ok_def new_manifest_def ManifestSealed_for_snapshot_def sealed_artifact_digest_def sha_ok_def)
  then have man: "read_manifest J d = Inr (Some (new_manifest E g bs))"
    using decode_encode_manifest [OF J] fs_read_answering [OF ans m(1)] by (simp add: read_manifest_def m(2))
  obtain st' where st': "open_existing d pg (length (seq_payload c)) (length (seq_nodes c)) False = Inr st'"
      "committed E st' c" "opened st'" "pcs_dir st' = d"
    using reopen [OF sha hold k(7) k(2) ans] by blast
  obtain h where h: "import_catalogue E (open_physical st') snap = Inr h" "store_backend h = open_physical st'"
      "versions h = versions s" "tabled h a" "\<not> poisoned h"
    using snap(6) by blast
  have base: "open_base E d (Some (new_manifest E g bs)) = Inr h"
    using fs_read_answering [OF ans sn(1)] sn(2) snap st'(1) h(1)
    by (simp add: open_base_def open_sealed_def new_manifest_def ManifestSealed_for_snapshot_def import_physical_snapshot_def)
  have suffix: "read_suffix d (Some (new_manifest E g bs)) g = Inr []"
    using fs_read_answering [OF ans hot(1)] hot(2) by (simp add: read_suffix_def)
  have "check_physical_frontiers_against_files (physical_content E) h = Inr ()"
    using frontiers_covered [OF sha st'(2,3)] ans st'(4) h(2)
    by (simp add: check_physical_frontiers_against_files_def check_physical_frontiers_def open_physical_def physical_content_def)
  then have "open_history_authority E J d = Some (Inr \<lparr>opened_store = h, opened_generation = g, opened_stats =
      \<lparr>snapshot_versions = length (versions h), suffix_bytes = 0\<rparr>\<rparr>)"
    using man base suffix replay_nothing [OF E h(4) s'(4)]
    by (simp add: open_history_authority_def new_manifest_def Let_def)
  then show ?thesis
    using h st' by (auto simp: restored_def)
qed

section \<open>Power cuts\<close>

text \<open>What a cut makes of a file that keeps its entry: a file without unsynced writes is unchanged, of any
  other the part on which its current and its synced bytes agree remains, followed by anything.\<close>

definition settles :: "DirFile option \<Rightarrow> DirFile option \<Rightarrow> bool" where
  "settles e e' \<longleftrightarrow> (case e of
     None \<Rightarrow> e' = None
   | Some f \<Rightarrow> (case e' of None \<Rightarrow> False | Some f' \<Rightarrow>
       extends (agreed (file_bytes f) (file_durable f)) (file_bytes f') \<and>
       (file_durable f = file_bytes f \<longrightarrow> file_bytes f' = file_bytes f) \<and>
       (length (file_bytes f) < width64 \<longrightarrow> length (file_bytes f') < width64)))"

definition cut_at :: "NamedDirectory \<Rightarrow> Directory \<Rightarrow> string \<Rightarrow> bool" where
  "cut_at d d' n \<longleftrightarrow> settles (dir_files (nd_dir d) n) (dir_files d' n) \<or>
     (\<exists>x. (n, x) \<in> set (nd_older d) \<and> settles x (dir_files d' n))"

definition cut :: "NamedDirectory \<Rightarrow> Directory \<Rightarrow> bool" where
  "cut d d' \<longleftrightarrow> (\<forall>n. cut_at d d' n)"

lemma cut_untouched: "cut_at d d' n \<Longrightarrow> untouched X D d \<Longrightarrow> n \<notin> X \<Longrightarrow> cut_at D d' n"
  by (auto simp: cut_at_def untouched_def)

definition no_older :: "NamedDirectory \<Rightarrow> string \<Rightarrow> bool" where
  "no_older d n \<longleftrightarrow> n \<notin> fst ` set (nd_older d)"

lemma cut_settled: "cut d d' \<Longrightarrow> no_older d n \<Longrightarrow> settles (dir_files (nd_dir d) n) (dir_files d' n)"
  by (force simp: cut_def cut_at_def no_older_def)

lemma settles_sealed:
  "settles (Some \<lparr>file_bytes = bs, file_durable = bs\<rparr>) e \<Longrightarrow> \<exists>f. e = Some f \<and> file_bytes f = bs"
  by (auto simp: settles_def split: option.splits)

lemma settles_holds:
  assumes "holds True d n bs" "settles (dir_files d n) (dir_files d' n)"
  shows "starts_with d' n bs"
proof -
  obtain f where f: "dir_files d n = Some f" "extends bs (file_bytes f)" "extends bs (file_durable f)"
    "length (file_bytes f) < width64"
    using assms(1) by (auto simp: holds_def)
  then show ?thesis
    using assms(2) agreed_prefix [OF f(2,3)]
    by (auto simp: settles_def starts_with_def split: option.splits intro: extends_trans)
qed

definition indeterminate :: "DurableError \<Rightarrow> bool" where
  "indeterminate e \<longleftrightarrow> (\<exists>x. e = Indeterminate x)"

definition definite :: "'a nd_prog \<Rightarrow> bool" where
  "definite m \<longleftrightarrow> (\<forall>d e d'. m d = (Inl e, d') \<longrightarrow> \<not> indeterminate e)"

lemma definite_bind: "definite m \<Longrightarrow> (\<And>x. definite (k x)) \<Longrightarrow> definite (bindD m k)"
  by (fastforce simp: definite_def bindD_def split: prod.splits sum.splits)

lemma definite_call: "definite (callD m call)"
  by (auto simp: definite_def callD_def indeterminate_def split: prod.splits if_splits)

lemma definite_view: "(\<And>d e. f d = Inl e \<Longrightarrow> \<not> indeterminate e) \<Longrightarrow> definite (viewD f)"
  by (auto simp: definite_def viewD_def)

lemma rejected_definite: "map_err Rejected r = Inl e \<Longrightarrow> \<not> indeterminate e"
  by (cases r) (auto simp: indeterminate_def)

lemma reads_definite:
  "read_back E tmp bs d = Inl e \<Longrightarrow> \<not> indeterminate e" "check_next_hot n d = Inl e \<Longrightarrow> \<not> indeterminate e"
  "current_hot_wal_end E d g = Inl e \<Longrightarrow> \<not> indeterminate e" "next_generation g = Inl e \<Longrightarrow> \<not> indeterminate e"
  "read_manifest J d = Inl e \<Longrightarrow> \<not> indeterminate e" "current_generation J d = Inl e \<Longrightarrow> \<not> indeterminate e"
  by (auto simp: read_back_def check_next_hot_def current_hot_wal_end_def next_generation_def read_manifest_def
      current_generation_def result_iffs indeterminate_def split: FsRead.splits if_splits)

lemma stage_definite: "definite (stage_sealed_generation E J s)"
  unfolding stage_sealed_generation_def publish_staged_files_def Let_def
  by (intro definite_bind definite_call definite_view) (auto dest: reads_definite rejected_definite)

lemma open_hot_definite: "open_hot E lock n d = (Inl e, d') \<Longrightarrow> \<not> indeterminate e"
  by (auto simp: open_hot_def map_hot_open_error_def indeterminate_def result_iffs
      split: prod.splits bool.splits if_splits FsRead.splits)

lemma rename_failed: "rename from to d = (False, d') \<Longrightarrow> untouched {} d d'"
  by (auto simp: rename_def untouched_def split: option.splits prod.splits DirAnswer.splits)

lemma sync_failed: "sync_dir d = (False, d') \<Longrightarrow> dir_files (nd_dir d') = dir_files (nd_dir d) \<and> nd_older d' = nd_older d"
  by (auto simp: sync_dir_def split: prod.splits DirAnswer.splits)

lemma rename_done:
  assumes "rename from to d = (True, d')"
  shows "nd_older d' = (to, dir_files (nd_dir d) to) # (from, dir_files (nd_dir d) from) # nd_older d"
  using assms by (auto simp: rename_def split: option.splits prod.splits DirAnswer.splits)

text \<open>The outcome of committing a staged manifest.\<close>

lemma manifest_commit_outcome:
  assumes run: "commit_staged_manifest staged d = (r, d')" and older: "nd_older d = []"
  defines "mb \<equiv> encode_history_manifest \<lparr>hm_generation = st_generation staged, hm_sealed = Some (st_sealed staged)\<rparr>"
    and "tm \<equiv> tmp_path HISTORY_MANIFEST_FILE"
  shows "case r of
      Inr _ \<Rightarrow> sealed_file d' HISTORY_MANIFEST_FILE mb \<and> nd_older d' = [] \<and> untouched {tm, HISTORY_MANIFEST_FILE} d d'
    | Inl (True, e) \<Rightarrow> indeterminate e \<and> sealed_file d' HISTORY_MANIFEST_FILE mb \<and> untouched {tm, HISTORY_MANIFEST_FILE} d d' \<and>
        (\<forall>x. (HISTORY_MANIFEST_FILE, x) \<in> set (nd_older d') \<longrightarrow> x = dir_files (nd_dir d) HISTORY_MANIFEST_FILE)
    | Inl (False, e) \<Rightarrow> \<not> indeterminate e \<and> untouched {tm} d d'"
proof -
  let ?m = HISTORY_MANIFEST_FILE
  obtain c1 d1 where w: "write_file_synced tm mb d = (c1, d1)"
    by fastforce
  note u1 = write_file_untouched [OF w]
  show ?thesis
  proof (cases c1)
    case False
    then show ?thesis
      using run w u1 by (auto simp: commit_staged_manifest_def mb_def tm_def indeterminate_def)
  next
    case True
    then have sealed: "sealed_file d1 tm mb"
      using w write_file_sealed by simp
    obtain c2 d2 where rn: "rename tm ?m d1 = (c2, d2)"
      by fastforce
    show ?thesis
    proof (cases c2)
      case False
      have "untouched {tm} d d2"
        using u1 untouched_mono [of "{}" d1 d2 "{tm}"] rename_failed [of tm ?m d1 d2] rn False untouched_trans by auto
      then show ?thesis
        using run w rn \<open>c1\<close> False by (auto simp: commit_staged_manifest_def mb_def tm_def indeterminate_def)
    next
      case c2: True
      then have rn': "rename tm ?m d1 = (True, d2)"
        using rn by simp
      have u2: "untouched {tm, ?m} d d2"
        using untouched_mono [OF u1, of "{tm, ?m}"] rename_untouched [OF rn'] untouched_trans by blast
      obtain c3 d3 where sy: "sync_dir d2 = (c3, d3)"
        by fastforce
      have d': "d' = d3" "r = (if c3 then Inr () else Inl (True, Indeterminate (SyncFailed ''directory sync'')))"
        using run w rn \<open>c1\<close> c2 sy by (auto simp: commit_staged_manifest_def mb_def tm_def split: if_splits bool.splits)
      have u3: "untouched {tm, ?m} d d3"
        using u2 untouched_mono [OF sync_dir_untouched [OF sy], of "{tm, ?m}"] untouched_trans by blast
      have se: "sealed_file d3 ?m mb"
        using rename_sealed [OF rn' sealed] untouched_sealed [OF sync_dir_untouched [OF sy]] by blast
      have old: "x = dir_files (nd_dir d) ?m" if "(?m, x) \<in> set (nd_older d3)" "\<not> c3" for x
      proof -
        have "nd_older d3 = (?m, dir_files (nd_dir d1) ?m) # (tm, dir_files (nd_dir d1) tm) # nd_older d1"
          using sync_failed [of d2 d3] sy that(2) rename_done [OF rn'] by simp
        moreover have "(?m, x) \<notin> set (nd_older d1)" "dir_files (nd_dir d1) ?m = dir_files (nd_dir d) ?m"
          using u1 older by (auto simp: untouched_def entry_names_differ' tm_def)
        ultimately show ?thesis
          using that(1) by (auto simp: entry_names_differ' tm_def)
      qed
      show ?thesis
        using d' u3 se old sync_dir_older [of d2 d3] sy by (auto simp: indeterminate_def)
    qed
  qed
qed

section \<open>Sealing is atomic\<close>

lemma complete_opens:
  assumes E: "\<And>m n. try_reserve E m n" and sha: "sha_ok E" and J: "serde_reads J"
    and s: "sealable E den s a st pg c" and w: "g < width64" "wal_end < width64"
    and enc: "encode_history_snapshot E (physical_content E) s g wal_end = Inr bs"
    and files: "sealed_file dd (history_snapshot_filename g) bs" "sealed_file dd (history_wal_filename g) []"
    and content: "dir_files (nd_dir dd) (content_payload_filename pg) = dir_files (pcs_dir st) (content_payload_filename pg)"
      "dir_files (nd_dir dd) (content_nodes_filename pg) = dir_files (pcs_dir st) (content_nodes_filename pg)"
    and older: "\<And>n. n \<in> {history_snapshot_filename g, history_wal_filename g, content_payload_filename pg, content_nodes_filename pg} \<Longrightarrow> no_older dd n"
    and cut: "cut dd d'" and ans: "answering d'"
    and man: "settles (Some \<lparr>file_bytes = encode_history_manifest (new_manifest E g bs),
       file_durable = encode_history_manifest (new_manifest E g bs)\<rparr>) (dir_files d' HISTORY_MANIFEST_FILE)"
  shows "\<exists>h. open_history_authority E J d' = Some (Inr h) \<and> restored E s a c d' g h"
proof -
  have k: "kept True E pg c st" "opened st"
    using s by (auto simp: sealable_def)
  have "holds True (pcs_dir st) (content_payload_filename pg) (payload_image pg c)"
      "holds True (pcs_dir st) (content_nodes_filename pg) (nodes_image pg c)"
    using k by (auto simp: kept_def)
  moreover have "settles (dir_files (pcs_dir st) (content_payload_filename pg)) (dir_files d' (content_payload_filename pg))"
      "settles (dir_files (pcs_dir st) (content_nodes_filename pg)) (dir_files d' (content_nodes_filename pg))"
    unfolding content [symmetric] by (simp_all add: cut_settled [OF cut older])
  ultimately have hold: "files_hold d' pg c"
    unfolding files_hold_def using settles_holds by blast
  obtain fs where fs: "dir_files d' (history_snapshot_filename g) = Some fs" "file_bytes fs = bs"
    using settles_sealed [of bs] cut_settled [OF cut older, of "history_snapshot_filename g"] files(1) by (auto simp: sealed_file_def)
  obtain fh where fh: "dir_files d' (history_wal_filename g) = Some fh" "file_bytes fh = []"
    using settles_sealed [of "[]"] cut_settled [OF cut older, of "history_wal_filename g"] files(2) by (auto simp: sealed_file_def)
  obtain fm where fm: "dir_files d' HISTORY_MANIFEST_FILE = Some fm" "file_bytes fm = encode_history_manifest (new_manifest E g bs)"
    using settles_sealed [OF man] by blast
  show ?thesis
    by (rule new_authority_opens [OF E sha J s w enc ans hold fm fs fh])
qed

lemma recycle_outcome:
  assumes "recycle_superseded_hot g d = (r, d')" "nd_older d = []"
  shows "untouched {history_wal_filename g} d d'" "n \<noteq> history_wal_filename g \<Longrightarrow> no_older d' n"
proof -
  obtain c1 d1 where rm: "remove_file (history_wal_filename g) d = (c1, d1)"
    by fastforce
  have d': "d' = d1 \<or> d' = snd (sync_dir d1)"
    using assms(1) rm by (auto simp: recycle_superseded_hot_def split: bool.splits)
  have "untouched {} d1 (snd (sync_dir d1))"
    using sync_dir_untouched [of d1] by (cases "sync_dir d1") auto
  then have "untouched {history_wal_filename g} d1 d'"
    using d' untouched_mono [of "{}" d1 _ "{history_wal_filename g}"] by auto
  then show u: "untouched {history_wal_filename g} d d'"
    using remove_untouched [OF rm] untouched_trans by blast
  show "no_older d' n" if "n \<noteq> history_wal_filename g"
    using u that assms(2) by (force simp: untouched_def no_older_def)
qed

text \<open>The files of the authority that was current when the seal began, as a cut of its directory may
  leave them.\<close>

definition old_authority :: "u64 \<Rightarrow> NamedDirectory \<Rightarrow> Directory \<Rightarrow> bool" where
  "old_authority g D d' \<longleftrightarrow> (\<forall>n. n \<notin> insert (tmp_path HISTORY_MANIFEST_FILE) (staged_names (g + 1)) \<longrightarrow> cut_at D d' n)"

definition new_authority ::
  "env \<Rightarrow> (byte list \<Rightarrow> Json option) \<Rightarrow> PhysicalContentStore PersistentHistoryStore \<Rightarrow> HistorySpec \<Rightarrow> V2AvlSequence \<Rightarrow>
   u64 \<Rightarrow> Directory \<Rightarrow> bool" where
  "new_authority E J s a c g d' \<longleftrightarrow> (\<exists>h. open_history_authority E J d' = Some (Inr h) \<and> restored E s a c d' g h)"

lemma old_authorityI:
  assumes "cut d d'" "untouched (insert (tmp_path HISTORY_MANIFEST_FILE) (staged_names (g + 1))) D d"
  shows "old_authority g D d'"
  unfolding old_authority_def using assms(1) cut_untouched [OF _ assms(2)] by (simp add: cut_def)

lemma lend_same: "backend (store_backend s) = Physical st \<Longrightarrow> pcs_dir st = d \<Longrightarrow> lend d s = s"
  by (auto simp: lend_def)

lemma lend_poisoned [simp]: "poisoned (lend d s) = poisoned s"
  by (simp add: lend_def split: SequenceBackend.splits)

lemma staged_names_stable:
  assumes "g + 1 < width64"
  shows "history_wal_filename g \<notin> staged_names (g + 1)" "HISTORY_MANIFEST_FILE \<notin> staged_names (g + 1)"
    "content_payload_filename p \<notin> staged_names (g + 1)" "content_nodes_filename p \<notin> staged_names (g + 1)"
  using assms by (auto simp: staged_names_def entry_names_differ' wal_filename_inject)

lemma untouched_no_older: "untouched X d dd \<Longrightarrow> nd_older d = [] \<Longrightarrow> n \<notin> X \<Longrightarrow> no_older dd n"
  by (force simp: untouched_def no_older_def)

text \<open>Once the new manifest is bound, the generation that was staged before it is complete.\<close>

lemma published_opens:
  assumes E: "\<And>m n. try_reserve E m n" and sha: "sha_ok E" and J: "serde_reads J"
    and s: "sealable E den s a st pg c" and dir: "pcs_dir st = nd_dir D" and w: "g + 1 < width64" "wal_end < width64"
    and enc: "encode_history_snapshot E (physical_content E) s (g + 1) wal_end = Inr bs"
    and st: "staged_on (g + 1) bs d1" "untouched (staged_names (g + 1)) D d1"
    and u: "untouched {tmp_path HISTORY_MANIFEST_FILE, HISTORY_MANIFEST_FILE, history_wal_filename g} d1 dd"
    and cut: "cut dd d'" and ans: "answering d'"
    and man: "settles (Some \<lparr>file_bytes = encode_history_manifest (new_manifest E (g + 1) bs),
       file_durable = encode_history_manifest (new_manifest E (g + 1) bs)\<rparr>) (dir_files d' HISTORY_MANIFEST_FILE)"
  shows "new_authority E J s a c (g + 1) d'"
proof -
  let ?X = "{tmp_path HISTORY_MANIFEST_FILE, HISTORY_MANIFEST_FILE, history_wal_filename g}"
  have out: "n \<notin> ?X" if "n \<in> {history_snapshot_filename (g + 1), history_wal_filename (g + 1), content_payload_filename pg, content_nodes_filename pg}" for n
    using that w(1) by (auto simp: entry_names_differ' wal_filename_inject)
  have files: "sealed_file dd (history_snapshot_filename (g + 1)) bs" "sealed_file dd (history_wal_filename (g + 1)) []"
    using st(1) untouched_sealed [OF u] out by (auto simp: staged_on_def)
  have same: "dir_files (nd_dir dd) n = dir_files (pcs_dir st) n" if "n = content_payload_filename pg \<or> n = content_nodes_filename pg" for n
  proof -
    have "n \<notin> ?X" "n \<notin> staged_names (g + 1)"
      using that out staged_names_stable(3,4) [OF w(1)] by auto
    then show ?thesis
      using u st(2) dir by (simp add: untouched_def)
  qed
  have "no_older dd n" if "n \<in> {history_snapshot_filename (g + 1), history_wal_filename (g + 1), content_payload_filename pg, content_nodes_filename pg}" for n
    using untouched_no_older [OF u _ out [OF that]] st(1) by (simp add: staged_on_def)
  then show ?thesis
    unfolding new_authority_def
    by (intro complete_opens [OF E sha J s w enc files same same _ cut ans man]) simp_all
qed

lemma commit_failed:
  assumes E: "\<And>m n. try_reserve E m n" and sha: "sha_ok E" and J: "serde_reads J"
    and s: "sealable E den s a st pg c" and dir: "pcs_dir st = nd_dir D" and w: "g + 1 < width64" "wal_end < width64"
    and enc: "encode_history_snapshot E (physical_content E) s (g + 1) wal_end = Inr bs"
    and st: "staged_on (g + 1) bs d1" "untouched (staged_names (g + 1)) D d1"
    and run: "commit_staged_manifest (staged_seal E g (g + 1) wal_end bs) d1 = (Inl (p, e), d3)"
    and cut: "cut d3 d'" and ans: "answering d'"
  shows "p = indeterminate e" "old_authority g D d' \<or> p \<and> new_authority E J s a c (g + 1) d'"
proof -
  let ?m = HISTORY_MANIFEST_FILE and ?tm = "tmp_path HISTORY_MANIFEST_FILE"
  let ?X = "insert ?tm (staged_names (g + 1))"
  have older: "nd_older d1 = []"
    using st(1) by (simp add: staged_on_def)
  have man: "\<lparr>hm_generation = st_generation (staged_seal E g (g + 1) wal_end bs), hm_sealed = Some (st_sealed (staged_seal E g (g + 1) wal_end bs))\<rparr> =
      new_manifest E (g + 1) bs"
    by (simp add: staged_seal_def new_manifest_def)
  note co = manifest_commit_outcome [OF run older, unfolded man, simplified]
  show "p = indeterminate e"
    using co by (cases p) auto
  have u1: "untouched ?X D d1"
    using st(2) by (rule untouched_mono) blast
  show "old_authority g D d' \<or> p \<and> new_authority E J s a c (g + 1) d'"
  proof (cases p)
    case False
    then have "untouched ?X D d3"
      using co untouched_trans [OF u1 untouched_mono [of "{?tm}" d1 d3 ?X]] by auto
    then show ?thesis
      using old_authorityI [OF cut] by blast
  next
    case True
    then have c: "sealed_file d3 ?m (encode_history_manifest (new_manifest E (g + 1) bs))" "untouched {?tm, ?m} d1 d3"
        "\<And>x. (?m, x) \<in> set (nd_older d3) \<Longrightarrow> x = dir_files (nd_dir d1) ?m"
      using co by auto
    have sm: "dir_files (nd_dir d1) ?m = dir_files (nd_dir D) ?m"
      using st(2) staged_names_stable(2) [OF w(1)] by (simp add: untouched_def)
    have "cut_at d3 d' ?m"
      using cut by (simp add: cut_def)
    then consider "settles (dir_files (nd_dir d3) ?m) (dir_files d' ?m)" | "settles (dir_files (nd_dir D) ?m) (dir_files d' ?m)"
      using c(3) sm by (auto simp: cut_at_def)
    then show ?thesis
    proof cases
      case 1
      have "new_authority E J s a c (g + 1) d'"
        by (rule published_opens [OF E sha J s dir w enc st untouched_mono [OF c(2)] cut ans])
          (use 1 c(1) in \<open>auto simp: sealed_file_def\<close>)
      with True show ?thesis
        by blast
    next
      case 2
      have u3: "untouched (insert ?m ?X) D d3"
        by (rule untouched_trans [OF untouched_mono [OF u1] untouched_mono [OF c(2)]]) blast+
      have "cut_at D d' n" if "n \<notin> ?X" for n
        using 2 that cut_untouched [OF _ u3, of d' n] cut by (cases "n = ?m") (auto simp: cut_def cut_at_def)
      then show ?thesis
        by (simp add: old_authority_def)
    qed
  qed
qed

theorem seal_atomic:
  assumes E: "\<And>m n. try_reserve E m n" and sha: "sha_ok E" and J: "serde_reads J"
    and s: "sealable E den (wa_store A) a st pg c" and dir: "pcs_dir st = nd_dir (wa_dir A)"
    and man: "read_manifest J (nd_dir (wa_dir A)) = Inr m" and g: "g = (case m of None \<Rightarrow> 0 | Some m \<Rightarrow> hm_generation m)"
    and run: "seal E J lock A = (r, A')" and cut: "cut (wa_dir A') d'" and ans: "answering d'"
  shows "case r of
      Inr y \<Rightarrow> new_authority E J (wa_store A) a c (g + 1) d' \<and> seal_generation y = g + 1
    | Inl e \<Rightarrow> if indeterminate e
        then (old_authority g (wa_dir A) d' \<or> new_authority E J (wa_store A) a c (g + 1) d') \<and> poisoned (wa_store A')
        else old_authority g (wa_dir A) d' \<and> \<not> poisoned (wa_store A')"
proof -
  let ?D = "wa_dir A" and ?s = "wa_store A" and ?tm = "tmp_path HISTORY_MANIFEST_FILE"
  have np: "\<not> poisoned ?s" and lent: "lend (nd_dir ?D) ?s = ?s"
    using s dir lend_same by (auto simp: sealable_def)
  obtain r1 d1 where st: "stage_sealed_generation E J ?s ?D = (r1, d1)"
    by fastforce
  note u1 = stage_sealed_outcome(1) [OF st man g]
  show ?thesis
  proof (cases r1)
    case (Inl e)
    then have "r = Inl e" "A' = with_dir d1 A" "\<not> indeterminate e"
      using run np st stage_definite [of E J ?s] by (auto simp: seal_def definite_def)
    then show ?thesis
      using old_authorityI [OF _ untouched_mono [OF u1]] cut np by (auto simp: with_dir_def)
  next
    case (Inr staged)
    then obtain w bs where w: "g + 1 < width64" "w < width64" "encode_history_snapshot E (physical_content E) ?s (g + 1) w = Inr bs"
        "staged = staged_seal E g (g + 1) w bs" "staged_on (g + 1) bs d1"
      using stage_sealed_outcome(2) [OF st man g] lent by auto
    have gen: "st_generation staged = g + 1" "st_previous staged = g"
      by (simp_all add: w(4) staged_seal_def)
    obtain r2 d2 where oh: "open_hot E lock (history_wal_filename (g + 1)) d1 = (r2, d2)"
      by fastforce
    have d2: "d2 = d1"
      using open_hot_existing [OF oh] w(5) by (simp add: staged_on_def sealed_file_def)
    show ?thesis
    proof (cases r2)
      case (Inl e)
      then have "r = Inl e" "A' = with_dir d1 A" "\<not> indeterminate e"
        using run np st oh \<open>r1 = Inr staged\<close> gen d2 open_hot_definite [of E lock _ d1 e d2] by (auto simp: seal_def)
      then show ?thesis
        using old_authorityI [OF _ untouched_mono [OF u1]] cut np by (auto simp: with_dir_def)
    next
      case (Inr hot)
      obtain r3 d3 where cm: "commit_staged_manifest staged d1 = (r3, d3)"
        by fastforce
      have older: "nd_older d1 = []"
        using w(5) by (simp add: staged_on_def)
      note new = published_opens [OF E sha J s dir w(1,2,3,5) u1 _ _ ans]
      show ?thesis
      proof (cases r3)
        case (Inr x)
        obtain c4 d4 where rc: "recycle_superseded_hot g d3 = (c4, d4)"
          by fastforce
        have r: "wa_dir A' = d4" "\<exists>y. r = Inr y \<and> seal_generation y = g + 1"
          using run np st oh cm rc \<open>r1 = Inr staged\<close> \<open>r2 = Inr hot\<close> Inr gen d2 by (auto simp: seal_def Let_def with_dir_def)
        have c: "sealed_file d3 HISTORY_MANIFEST_FILE (encode_history_manifest (new_manifest E (g + 1) bs))" "nd_older d3 = []"
            "untouched {?tm, HISTORY_MANIFEST_FILE} d1 d3"
          using manifest_commit_outcome [OF cm older] Inr by (auto simp: w(4) staged_seal_def new_manifest_def)
        note u4 = recycle_outcome [OF rc c(2)]
        have "untouched {?tm, HISTORY_MANIFEST_FILE, history_wal_filename g} d1 d4"
          by (rule untouched_trans [OF untouched_mono [OF c(3)] untouched_mono [OF u4(1)]]) blast+
        moreover have "settles (Some \<lparr>file_bytes = encode_history_manifest (new_manifest E (g + 1) bs),
            file_durable = encode_history_manifest (new_manifest E (g + 1) bs)\<rparr>) (dir_files d' HISTORY_MANIFEST_FILE)"
          using cut_settled [of d4 d' HISTORY_MANIFEST_FILE] cut r(1) u4(2) untouched_sealed [OF u4(1) c(1)]
          by (simp add: sealed_file_def entry_names_differ')
        ultimately show ?thesis
          using new cut r by auto
      next
        case (Inl pe)
        obtain p e where pe: "pe = (p, e)"
          by fastforce
        have r: "wa_dir A' = d3" "r = Inl e" "poisoned (wa_store A') = p"
          using run np st oh cm \<open>r1 = Inr staged\<close> \<open>r2 = Inr hot\<close> Inl gen d2 pe by (auto simp: seal_def with_dir_def set_poisoned_def split: if_splits)
        show ?thesis
          using commit_failed [OF E sha J s dir w(1,2,3,5) u1, of p e d3 d'] cm cut ans r Inl pe w(4) by auto
      qed
    qed
  qed
qed

end
