(* ===== verification/Physical_Properties.thy ===== *)
theory Physical_Properties
  imports Physical_Available
begin

text \<open>
  The properties of the file-backed content store, each with an example store whose files carry an
  orphan tail and whose reads arrive one byte at a time.
\<close>

section \<open>An example store\<close>

definition sample_content_dir :: Directory where
  "sample_content_dir = \<lparr>dir_files = (\<lambda>_. None)
     (content_payload_filename 7 := Some \<lparr>file_bytes = payload_image 7 sample_seq @ [99],
        file_durable = payload_image 7 sample_seq\<rparr>,
      content_nodes_filename 7 := Some \<lparr>file_bytes = nodes_image 7 sample_seq @ [98, 97],
        file_durable = nodes_image 7 sample_seq\<rparr>),
     dir_refuses = (\<lambda>_. False), dir_reads = (\<lambda>_ _ _. Some 0), dir_answers = [Granted]\<rparr>"

definition sample_content :: PhysicalContentStore where
  "sample_content = \<lparr>pcs_dir = sample_content_dir, pcs_generation = 7,
     pcs_payload = Some (content_payload_filename 7), pcs_nodes = Some (content_nodes_filename 7),
     pcs_writable = False, pcs_payload_end = 3, pcs_node_count = 1\<rparr>"

lemma sample_content_simps [simp]:
  "pcs_dir sample_content = sample_content_dir" "pcs_generation sample_content = 7"
  by (simp_all add: sample_content_def)

lemma sample_sized: "sized (seq_nodes sample_seq)"
  using nodes_ok_sized [OF sample_env_ok] sample_wf by (auto simp: arena_wf_def)

lemma sample_image_lengths: "length (payload_image 7 sample_seq) = 19" "length (nodes_image 7 sample_seq) = 88"
  by (simp add: length_images(1) sample_seq_def)
    (simp add: length_images(2) [OF sample_sized], simp add: sample_seq_def)

lemma sample_opened: "opened sample_content"
  by (simp add: opened_def sample_content_def sample_content_dir_def)

lemma sample_kept: "kept True sample_env 7 sample_seq sample_content"
proof -
  have h: "holds True sample_content_dir (content_payload_filename 7) (payload_image 7 sample_seq)"
    "holds True sample_content_dir (content_nodes_filename 7) (nodes_image 7 sample_seq)"
    by (auto simp: holds_def sample_content_dir_def sample_image_lengths width64_def)
  then show ?thesis
    using sample_wf holds_starts sample_opened
    by (auto simp: kept_def committed_def files_hold_def sample_content_def) (simp_all add: sample_seq_def width64_def)
qed

lemma sample_nodes_u64: "length (seq_nodes sample_seq) < width64"
  by (simp add: sample_seq_def width64_def)

lemma sample_served: "served sample_env sample_content"
  by (simp add: served_def sample_opened) (simp add: sample_content_def sample_content_dir_def sample_env_def)

lemma sample_holds: "holds_arena sample_env sample_content sample_seq"
  by (rule holds_kept [OF sample_env_ok sample_kept sample_nodes_u64])

lemma sample_willing: "willing (pcs_dir sample_content)"
  by (simp add: sample_content_def sample_content_dir_def willing_def answering_def)

lemma sample_insert:
  "\<exists>y a' wk'. seam_splice sample_env (physical_content sample_env) None 0 0 [7] (in_memory sample_seq no_work) =
     Some (Inr y, in_memory a' wk') \<and> length (seq_payload a') = 4 \<and> length (seq_nodes a') = 2 \<and> arena_wf sample_env a'"
proof -
  obtain res q where q: "splice_seq sample_env None 0 0 [7] sample_seq = Some (Inr res, q)"
    "length (seq_payload q) = 4" "length (seq_nodes q) = 2"
    using leaf_insert [of sample_seq] by (auto simp: sample_seq_def width64_def)
  moreover have "arena_wf sample_env q"
    using splice_frame [OF q(1)] sample_wf by blast
  ultimately show ?thesis
    by (auto simp: seam_splice_def readP_def bindP_def liftP_def Let_def resolve_option_def backend_is_physical_def
        memory_splice_def modifyP_def try_from_def checked_sub_def checked_add_def width64_def note_written_def in_memory_def
        retP_def)
qed

section \<open>Splices\<close>

text \<open>
  C4.  The file-backed store implements the in-memory sequence.  Whatever the operating system
  answers, a splice through the seam over content files returns.  If it fails, the store still
  holds exactly the arena it held, in memory and in what is synced, and the work counters are
  unchanged; if it succeeds, its answer and its counters are those of the splice on the in-memory
  arena, and the files hold the resulting arena, synced.
\<close>

theorem physical_splice_refines:
  assumes "sha_ok E" and "kept True E g a st" and "length (seq_nodes a) < width64"
  shows "\<exists>r b'. seam_splice E (physical_content E) parent off del ins (on_disk st wk) = Some (r, b') \<and>
    (case r of
       Inl e \<Rightarrow> \<exists>st'. b' = on_disk st' wk \<and> kept True E g a st'
     | Inr y \<Rightarrow> \<exists>a' wk' st'. seam_splice E (physical_content E) parent off del ins (in_memory a wk) =
           Some (Inr y, in_memory a' wk') \<and> kept True E g a' st' \<and> b' = on_disk st' wk')"
proof -
  obtain r b' where "seam_splice E (physical_content E) parent off del ins (on_disk st wk) = Some (r, b')"
    and "case r of
       Inl e \<Rightarrow> \<exists>st'. b' = on_disk st' wk \<and> kept True E g a st'
     | Inr y \<Rightarrow> \<exists>a' wk' st'. seam_splice E (physical_content E) parent off del ins (in_memory a wk) =
           Some (Inr y, in_memory a' wk') \<and> length (seq_nodes a') < width64 \<and> memory_ext a a' \<and>
         kept True E g a' st' \<and> opened st' \<and> b' = on_disk st' wk'"
    using seam_splice_outcome [OF assms] by blast
  then show ?thesis
    by (cases r) auto
qed

theorem physical_splice_refines_witness:
  "\<exists>r b'. seam_splice sample_env (physical_content sample_env) None 0 0 [7] (on_disk sample_content no_work) = Some (r, b') \<and>
    (case r of
       Inl e \<Rightarrow> \<exists>st'. b' = on_disk st' no_work \<and> kept True sample_env 7 sample_seq st'
     | Inr y \<Rightarrow> \<exists>a' wk' st'. seam_splice sample_env (physical_content sample_env) None 0 0 [7] (in_memory sample_seq no_work) =
           Some (Inr y, in_memory a' wk') \<and> kept True sample_env 7 a' st' \<and> b' = on_disk st' wk')"
  by (rule physical_splice_refines [OF sample_env_ok sample_kept sample_nodes_u64])

text \<open>
  C29.  A willing medium is enough.  On an open store whose files hold the arena, when no call of the
  operating system fails, no read allocation is refused and the grown files stay below the largest
  offset, a splice that succeeds in memory succeeds on the files, orphan tails in them or not: it
  gives the same answer and counters, and the files then hold the arena of the in-memory splice,
  synced.
\<close>

theorem physical_splice_available:
  assumes "sha_ok E" and "kept b E g a st" and "served E st" and "willing (pcs_dir st)" and "length (seq_nodes a) < width64"
    and "seam_splice E (physical_content E) parent off del ins (in_memory a wk) = Some (Inr y, in_memory a' wk')"
    and "16 + length (seq_payload a') < width64" and "16 + length (seq_nodes a') * 72 < width64"
  shows "\<exists>st'. seam_splice E (physical_content E) parent off del ins (on_disk st wk) = Some (Inr y, on_disk st' wk') \<and>
    kept True E g a' st'"
  using seam_splice_available [OF assms(1-8)] by blast

theorem physical_splice_available_witness:
  "\<exists>y st' wk' a'. seam_splice sample_env (physical_content sample_env) None 0 0 [7] (on_disk sample_content no_work) =
      Some (Inr y, on_disk st' wk') \<and> kept True sample_env 7 a' st' \<and>
    length (seq_payload a') = 4 \<and> length (seq_nodes a') = 2"
proof -
  obtain y a' wk' where run: "seam_splice sample_env (physical_content sample_env) None 0 0 [7] (in_memory sample_seq no_work) =
      Some (Inr y, in_memory a' wk')" and a': "length (seq_payload a') = 4" "length (seq_nodes a') = 2"
    using sample_insert by blast
  have "16 + length (seq_payload a') < width64" "16 + length (seq_nodes a') * 72 < width64"
    by (simp_all add: a' width64_def)
  from physical_splice_available [OF sample_env_ok sample_kept sample_served sample_willing sample_nodes_u64 run this]
  show ?thesis
    using a'(1,2) by blast
qed

text \<open>
  C5.  A splice survives a crash.  Let a store with at least one node hold the arena, synced.  After
  a splice over the files, however it ended, and a crash that keeps of every file the part on which
  its current and its synced bytes agree, the store opens again at the old frontiers and holds the
  old arena; if the splice had succeeded it also opens at the new frontiers and holds the arena of
  the in-memory splice.
\<close>

theorem splice_survives_crash:
  assumes sha: "sha_ok E" and k: "kept True E g a st" and ne: "seq_nodes a \<noteq> []" and w: "length (seq_nodes a) < width64"
    and run: "seam_splice E (physical_content E) parent off del ins (on_disk st wk) = Some (r, on_disk st' wk')"
    and crash: "crashed (pcs_dir st') d" "answering d"
  shows "(\<exists>s. open_existing d g (length (seq_payload a)) (length (seq_nodes a)) wr = Inr s \<and> committed E s a) \<and>
    (\<forall>y. r = Inr y \<longrightarrow> (\<exists>a' s. seam_splice E (physical_content E) parent off del ins (in_memory a wk) =
        Some (Inr y, in_memory a' wk') \<and>
      open_existing d g (length (seq_payload a')) (length (seq_nodes a')) wr = Inr s \<and> committed E s a'))"
proof -
  have hold: "files_hold d g c" "arena_wf E c" if "kept True E g c st'" "memory_ext a c" for c
  proof -
    have c: "committed E st' c"
      using that(1) by (auto simp: kept_def)
    have "opened st'"
      by (rule ccontr) (use committed_opened [OF c] that(2) ne in \<open>auto simp: memory_ext_def extends_def empty_seq_def\<close>)
    then show "files_hold d g c" "arena_wf E c"
      using crash_keeps [OF that(1) _ crash(1)] committedD(1) [OF c] by auto
  qed
  have g: "g < width64" and wf: "arena_wf E a"
    using k by (auto simp: kept_def committed_def)
  note opens = reopen [OF sha _ _ g crash(2), of _ wr]
  show ?thesis
  proof (cases r)
    case (Inl e)
    then have "kept True E g a st'"
      using seam_splice_outcome [OF sha k w, of parent off del ins wk] run by (auto simp: on_disk_def)
    then have "files_hold d g a"
      by (rule hold) (simp add: memory_ext_def extends_def)
    then show ?thesis
      using opens [OF _ wf] Inl by auto
  next
    case (Inr y)
    then obtain a' where a': "seam_splice E (physical_content E) parent off del ins (in_memory a wk) = Some (Inr y, in_memory a' wk')"
      "memory_ext a a'" "kept True E g a' st'"
      using seam_splice_outcome [OF sha k w, of parent off del ins wk] run by (auto simp: on_disk_def)
    note h = hold [OF a'(3,2)]
    show ?thesis
      using opens [OF h] opens [OF files_hold_earlier [OF h(1) a'(2)] wf] a'(1) Inr by blast
  qed
qed

text \<open>A power cut that keeps only the agreed bytes, and the directory after it.\<close>

definition power_cut :: "Directory \<Rightarrow> Directory" where
  "power_cut d = \<lparr>dir_files = (\<lambda>name. map_option (\<lambda>f. f\<lparr>file_bytes := agreed (file_bytes f) (file_durable f)\<rparr>) (dir_files d name)),
     dir_refuses = (\<lambda>_. False), dir_reads = (\<lambda>_ _ _. Some 0), dir_answers = []\<rparr>"

lemma length_agreed: "length (agreed xs ys) \<le> length xs"
  by (induction xs ys rule: agreed.induct) auto

lemma power_cut_crash: "crashed d (power_cut d)" "answering (power_cut d)"
  using length_agreed le_less_trans
  by (fastforce simp: crashed_def power_cut_def extends_def answering_def)+

theorem splice_survives_crash_witness:
  "\<exists>r st' wk'. seam_splice sample_env (physical_content sample_env) None 0 0 [7] (on_disk sample_content no_work) =
      Some (r, on_disk st' wk') \<and>
    (\<exists>s. open_existing (power_cut (pcs_dir st')) 7 3 1 True = Inr s \<and> committed sample_env s sample_seq) \<and>
    (case r of Inl e \<Rightarrow> True | Inr y \<Rightarrow> (\<exists>a' s. seam_splice sample_env (physical_content sample_env) None 0 0 [7]
        (in_memory sample_seq no_work) = Some (Inr y, in_memory a' wk') \<and>
      open_existing (power_cut (pcs_dir st')) 7 (length (seq_payload a')) (length (seq_nodes a')) True = Inr s \<and>
      committed sample_env s a'))"
proof -
  obtain r st' wk' where run: "seam_splice sample_env (physical_content sample_env) None 0 0 [7] (on_disk sample_content no_work) =
      Some (r, on_disk st' wk')"
    using seam_splice_outcome [OF sample_env_ok sample_kept sample_nodes_u64, of None 0 0 "[7]" no_work]
    by (elim exE conjE) (case_tac r; auto)
  have ne: "seq_nodes sample_seq \<noteq> []" and len: "length (seq_payload sample_seq) = 3" "length (seq_nodes sample_seq) = 1"
    by (simp_all add: sample_seq_def)
  show ?thesis
    using splice_survives_crash [OF sample_env_ok sample_kept ne sample_nodes_u64 run power_cut_crash, of True] run
    unfolding len by (intro exI [of _ r] exI [of _ st'] exI [of _ wk']) (cases r; auto)
qed

section \<open>Reads\<close>

text \<open>
  C30.  Reads through the files agree with reads in memory.  For every root, range and output buffer
  a read over files that hold the arena returns, keeps the store as it is, and gives the bytes the
  in-memory read gives, the corresponding error, or a fault of the medium; when no read call fails
  and no read allocation is refused there is no third case.
\<close>

theorem physical_reads_agree:
  assumes "holds_arena E st a"
    and "seam_read_range E (physical_content E) root rng out (in_memory a wk) = Some (r', m')"
  shows "\<exists>r wk'. seam_read_range E (physical_content E) root rng out (on_disk st wk) = Some (r, on_disk st wk') \<and>
    seam_agree content_faults r r' \<and> (served E st \<longrightarrow> seam_agree {} r r')"
proof (cases "served E st")
  case True
  then have "serves_arena E st a"
    using assms(1) by (simp add: serves_arena_def)
  from serving.seam_read_outcome [OF this assms(2)] show ?thesis
    using True by (auto simp: seam_agree_def split: sum.splits)
next
  case False
  then show ?thesis
    using disk.seam_read_outcome [OF assms] by blast
qed

lemma seam_agree_exact: "seam_agree {} r (Inr x) \<longleftrightarrow> r = Inr x"
  by (cases r) auto

lemma map_sum_Inr: "map_sum id fst y = Inr x \<Longrightarrow> (\<And>v. y = Inr (x, v) \<Longrightarrow> thesis) \<Longrightarrow> thesis"
  by (cases y) (auto simp: prod_eq_iff)

definition sample_range :: SequenceRange where
  "sample_range = \<lparr>range_offset = 1, range_length = 2, range_end = 3\<rparr>"

lemma sample_memory_read:
  "\<exists>m. seam_read_range sample_env (physical_content sample_env) (balanced_v2 0 3) sample_range [] (in_memory sample_seq no_work) =
    Some (Inr [20, 30], m)"
proof -
  have "root_for_node_id sample_seq 0 = Inr sample_root"
    using sample_rep by (auto simp: root_for_node_id_def root_for_node_id_on_def memory_load_node_def sample_seq_def
        sample_root_def get_at_def try_from_def width64_def V2RootRecord_from_node_def sample_record_def V2_NONE_NODE_def)
  then have res: "resolve (physical_content sample_env) (in_memory sample_seq no_work) (balanced_v2 0 3) = Inr sample_root"
    by (simp add: resolve_def balanced_v2_def)
  have "read_range sample_env sample_seq sample_root 1 2 = Some (Inr [20, 30])"
    using read_range_rep [OF wf_good [OF sample_wf] sample_rep, where off = 1 and len = 2] by simp
  then obtain v where "read_range_counted sample_env sample_seq sample_root 1 2 = Some (Inr ([20, 30], v))"
    by (auto simp: read_range_def read_range_counted_def elim!: map_sum_Inr)
  with res show ?thesis
    by (simp add: seam_read_range_def readP_def bindP_def modifyP_def sample_range_def retP_def)
qed

theorem physical_reads_agree_witness:
  "\<exists>wk'. seam_read_range sample_env (physical_content sample_env) (balanced_v2 0 3) sample_range []
      (on_disk sample_content no_work) = Some (Inr [20, 30], on_disk sample_content wk')"
proof -
  obtain m where "seam_read_range sample_env (physical_content sample_env) (balanced_v2 0 3) sample_range []
      (in_memory sample_seq no_work) = Some (Inr [20, 30], m)"
    using sample_memory_read by blast
  from physical_reads_agree [OF sample_holds this] sample_served show ?thesis
    by (auto simp: seam_agree_exact simp del: seam_agree_simps)
qed

section \<open>Replay\<close>

text \<open>
  C31.  Replay accepts a committed delta exactly when its bytes are there.  Let the store hold an arena
  and let a delta lead from it to a second arena.  If the files hold the second arena, no read fails
  and the validation buffers are granted, replaying the delta returns its root; and whenever replay
  accepts, it returns that root and the files hold the second arena, or other bytes of the same
  lengths have the same SHA-256 delta digest.
\<close>

theorem replay_accepts_exactly:
  assumes "sha_ok E" and "committed E st a" and "opened st" and "arena_wf E b"
    and "child_ok (seq_nodes b) root" and "delta_between E (pcs_generation st) a b root d"
  shows "(files_hold (pcs_dir st) (pcs_generation st) b \<and> served E st \<and>
      (\<forall>n. try_reserve E ''history physical delta validation allocation failed'' n) \<longrightarrow> replay_of E st d = Inr root) \<and>
    (\<forall>r. replay_of E st d = Inr r \<longrightarrow> r = root \<and>
      (files_hold (pcs_dir st) (pcs_generation st) b \<or> (\<exists>p n. forged E st d p n)))"
  using replay_available [OF assms(1,2)] replay_sound [OF assms] assms(4-6) by blast

text \<open>The example store with its frontiers at zero, and the delta that is in its files.\<close>

definition sample_behind :: PhysicalContentStore where
  "sample_behind = sample_content\<lparr>pcs_payload_end := 0, pcs_node_count := 0\<rparr>"

definition sample_delta :: PhysicalDelta where
  "sample_delta = \<lparr>old_payload_end = 0, old_node_count = 0, new_payload_end = 3, new_node_count = 1,
     delta_payload = [10, 20, 30], delta_nodes = node_table (seq_nodes sample_seq), delta_root = sample_root,
     delta_digest = physical_delta_digest sample_env 7 0 3 0 1 [10, 20, 30] (node_table (seq_nodes sample_seq))
       (encode_v2_root sample_root),
     delta_allocated_nodes = 1, delta_inspected_nodes = 0, delta_payload_bytes_allocated = 3\<rparr>"

lemma sample_behind_facts:
  "files_hold (pcs_dir sample_behind) (pcs_generation sample_behind) sample_seq" "opened sample_behind"
  "served sample_env sample_behind" "pcs_generation sample_behind = 7"
proof -
  have "committed sample_env sample_content sample_seq"
    using sample_kept by (simp add: kept_def)
  moreover show "opened sample_behind"
    using sample_opened by (simp add: sample_behind_def opened_def)
  ultimately show "files_hold (pcs_dir sample_behind) (pcs_generation sample_behind) sample_seq"
    using sample_opened by (simp add: committed_def sample_behind_def)
  show "served sample_env sample_behind"
    using sample_served \<open>opened sample_behind\<close> by (simp add: served_def sample_behind_def)
  show "pcs_generation sample_behind = 7"
    by (simp add: sample_behind_def sample_content_def)
qed

theorem replay_accepts_exactly_witness: "replay_of sample_env sample_behind sample_delta = Inr sample_root"
proof -
  have c: "committed sample_env sample_behind empty_seq"
    using sample_behind_facts files_hold_earlier [OF sample_behind_facts(1), of empty_seq] empty_wf
    by (simp add: committed_def memory_ext_def extends_def empty_seq_def sample_behind_def width64_def sample_content_def)
  have d: "delta_between sample_env (pcs_generation sample_behind) empty_seq sample_seq sample_root sample_delta"
    by (simp add: delta_between_def sample_delta_def sample_behind_facts empty_seq_def sample_seq_def numeral_3_eq_3)
  have room: "\<forall>n. try_reserve sample_env ''history physical delta validation allocation failed'' n"
    by (simp add: sample_env_def)
  show ?thesis
    using replay_accepts_exactly [OF sample_env_ok c sample_behind_facts(2) sample_wf rep_child_ok [OF sample_rep] d]
      sample_behind_facts room by blast
qed

section \<open>Compaction\<close>

text \<open>
  C32.  Compaction writes a new generation and leaves the old one alone.  Collecting a store to
  resolving roots keeps the old generation's files and what is synced of them, whatever happens.
  It reports a fault of the medium or a refused reservation, or returns a store of the new
  generation, synced, with exactly the nodes reachable from the roots, in which every root has its
  length and commitment and answers every range read as before.
\<close>

theorem physical_compaction_preserves:
  assumes sha: "sha_ok E" and k: "kept b E g a st" and seeds: "\<forall>r\<in>set seeds. child_ok (seq_nodes a) r"
    and room: "length (seq_nodes a) + length seeds < width64" and h: "h \<noteq> g" "h < width64"
    and run: "pcs_compact_physical_generation E st seeds h = (r, d')"
  shows "kept b E g a (st\<lparr>pcs_dir := d'\<rparr>) \<and> (case r of
      Inl e \<Rightarrow> stopped_gc E e
    | Inr build \<Rightarrow> \<exists>c. pcs_dir (build_store build) = d' \<and> kept True E h c (build_store build) \<and>
        length (seq_nodes c) = card (reachable (seq_nodes a) (map root_node_id seeds)) \<and>
        list_all2 (\<lambda>old new. root_len new = root_len old \<and> root_commitment new = root_commitment old \<and>
          (\<forall>off len. read_range E c new off len = read_range E a old off len)) seeds (build_roots build))"
proof -
  let ?ids = "live_ids a seeds"
  have wf: "arena_wf E a"
    using k by (auto simp: kept_def committed_def)
  have reads: "read_range E (compacted a ?ids) (moved_root ?ids x) off len = read_range E a x off len"
    if "selection E (seq_payload a) (seq_nodes a) ?ids" "set ?ids = reachable (seq_nodes a) (map root_node_id seeds)"
      and x: "x \<in> set seeds" for x off len
  proof -
    have "root_node_id x \<in> set ?ids"
      using x by (auto simp: that(2) intro: reachable.seed)
    then show ?thesis
      using moved_reads [OF wf that(1)] seeds x by blast
  qed
  from compact_physical_outcome [OF sha k seeds room h run] show ?thesis
  proof (cases r)
    case (Inr build)
    then have o: "pcs_dir (build_store build) = d'" "kept True E h (compacted a ?ids) (build_store build)"
      "build_roots build = map (moved_root ?ids) seeds" "kept b E g a (st\<lparr>pcs_dir := d'\<rparr>)"
      "selection E (seq_payload a) (seq_nodes a) ?ids" "set ?ids = reachable (seq_nodes a) (map root_node_id seeds)"
      using compact_physical_outcome [OF sha k seeds room h run] by auto
    have n: "length (seq_nodes (compacted a ?ids)) = card (reachable (seq_nodes a) (map root_node_id seeds))"
      using live_ids_count [of a seeds] o(6) by (simp add: compacted_def)
    have "list_all2 (\<lambda>old new. root_len new = root_len old \<and> root_commitment new = root_commitment old \<and>
        (\<forall>off len. read_range E (compacted a ?ids) new off len = read_range E a old off len)) seeds (build_roots build)"
      unfolding o(3) by (simp add: list.rel_map list_all2_same reads [OF o(5,6)])
    then show ?thesis
      using o(1,2,4) n by (auto simp: Inr)
  qed simp
qed

theorem physical_compaction_preserves_witness:
  "\<exists>r d'. pcs_compact_physical_generation sample_env sample_content [sample_root] 8 = (r, d') \<and>
    kept True sample_env 7 sample_seq (sample_content\<lparr>pcs_dir := d'\<rparr>) \<and> (case r of
      Inl e \<Rightarrow> stopped_gc sample_env e
    | Inr build \<Rightarrow> \<exists>c. pcs_dir (build_store build) = d' \<and> kept True sample_env 8 c (build_store build) \<and>
        length (seq_nodes c) = card (reachable (seq_nodes sample_seq) (map root_node_id [sample_root])) \<and>
        list_all2 (\<lambda>old new. root_len new = root_len old \<and> root_commitment new = root_commitment old \<and>
          (\<forall>off len. read_range sample_env c new off len = read_range sample_env sample_seq old off len))
          [sample_root] (build_roots build))"
proof -
  obtain r d' where run: "pcs_compact_physical_generation sample_env sample_content [sample_root] 8 = (r, d')"
    by fastforce
  have "\<forall>r\<in>set [sample_root]. child_ok (seq_nodes sample_seq) r" "length (seq_nodes sample_seq) + length [sample_root] < width64"
    using rep_child_ok [OF sample_rep] by (simp_all add: sample_seq_def width64_def)
  from physical_compaction_preserves [OF sample_env_ok sample_kept this _ _ run] run show ?thesis
    by (simp add: width64_def)
qed

section \<open>Opening and healing\<close>

text \<open>
  Opening content files fails closed.  If \<open>open_existing\<close> succeeds, both files exist, carry the
  magic, the generation and zero reserved bytes in their headers, and reach the frontiers the caller
  names, which the opened store adopts.
\<close>

theorem open_existing_checks:
  assumes "open_existing d g pe nc w = Inr st" and "g < width64"
  shows "\<exists>p n. dir_files d (content_payload_filename g) = Some p \<and> dir_files d (content_nodes_filename g) = Some n \<and>
    take 16 (file_bytes p) = PHYSICAL_PAYLOAD_MAGIC @ le_bytes 8 g @ [0, 0, 0, 0] \<and>
    take 16 (file_bytes n) = PHYSICAL_NODE_MAGIC @ le_bytes 8 g @ [0, 0, 0, 0] \<and>
    16 + pe \<le> length (file_bytes p) \<and> 16 + nc * 72 \<le> length (file_bytes n) \<and>
    pcs_payload_end st = pe \<and> pcs_node_count st = nc"
proof -
  have "replicate 4 (0 :: byte) = [0, 0, 0, 0]"
    by (simp add: numeral_eq_Suc)
  then show ?thesis
    using open_fails_closed [OF assms] unfolding encode_physical_header_def by simp
qed

theorem open_existing_checks_witness:
  "\<exists>st. open_existing sample_content_dir 7 3 1 False = Inr st \<and>
    (\<exists>p n. dir_files sample_content_dir (content_payload_filename 7) = Some p \<and>
      dir_files sample_content_dir (content_nodes_filename 7) = Some n \<and>
      16 + 3 \<le> length (file_bytes p) \<and> 16 + 1 * 72 \<le> length (file_bytes n) \<and> pcs_payload_end st = 3)"
proof -
  have hold: "files_hold sample_content_dir 7 sample_seq"
    using sample_kept sample_opened by (simp add: kept_def committed_def)
  have "answering sample_content_dir"
    using sample_willing by (simp add: willing_def)
  then obtain st where st: "open_existing sample_content_dir 7 3 1 False = Inr st"
    using reopen [OF sample_env_ok hold sample_wf] by (auto simp: sample_seq_def width64_def numeral_3_eq_3)
  have "(7 :: nat) < width64"
    by (simp add: width64_def)
  from open_existing_checks [OF st this] st show ?thesis
    by blast
qed

text \<open>
  C33.  Healing removes orphan tails and nothing else.  Before a write, \<open>heal_for_write\<close> leaves a store
  that holds its arena holding it; when it succeeds, both files end exactly at the committed
  frontiers, and on an open store over a willing directory it does succeed.
\<close>

theorem heal_removes_orphans:
  assumes sha: "sha_ok E" and k: "kept b E g a st" and run: "heal_for_write st = (r, st')"
  shows "kept b E g a st' \<and>
    (is_ok r \<longrightarrow> exactly (pcs_dir st') (content_payload_filename g) (payload_image g a) \<and>
      exactly (pcs_dir st') (content_nodes_filename g) (nodes_image g a)) \<and>
    (opened st \<and> willing (pcs_dir st) \<longrightarrow> is_ok r)"
proof -
  have "kept False E g a st"
    using k by (auto simp: kept_def holds_def)
  then have "opened st \<and> willing (pcs_dir st) \<longrightarrow> is_ok r"
    using succeedsD [OF heal_succeeds [OF sha], of g a st] run by (auto simp: is_ok_iff)
  then show ?thesis
    using runsD [OF heal_runs [OF sha] k run] by (cases r) (auto simp: poised_def ready_def)
qed

theorem heal_removes_orphans_witness:
  "\<exists>st'. heal_for_write sample_content = (Inr (), st') \<and>
    exactly (pcs_dir st') (content_payload_filename 7) (payload_image 7 sample_seq) \<and>
    exactly (pcs_dir st') (content_nodes_filename 7) (nodes_image 7 sample_seq)"
proof -
  obtain r st' where run: "heal_for_write sample_content = (r, st')"
    by fastforce
  from heal_removes_orphans [OF sample_env_ok sample_kept run] run sample_opened sample_willing show ?thesis
    by (auto simp: is_ok_iff)
qed

section \<open>File names\<close>

text \<open>Every content file of another generation is recognised as superseded, and none of the current
  one.  The test also accepts a name no generation has: \<open>parse\<close> takes a plus sign for a digit.\<close>

lemma strip_other_suffix: "strip_suffix ''.payload'' (xs @ ''.nodes'') = None"
proof -
  have "drop (length (xs @ ''.nodes'') - length ''.payload'') (xs @ ''.nodes'') \<noteq> ''.payload''"
  proof
    assume "drop (length (xs @ ''.nodes'') - length ''.payload'') (xs @ ''.nodes'') = ''.payload''"
    then have "last (xs @ ''.nodes'') = last ''.payload''"
      by (metis append_take_drop_id last_appendR list.distinct(1))
    then show False
      by simp
  qed
  then show ?thesis
    by (simp add: strip_suffix_def)
qed

lemma content_names_superseded:
  assumes "g < width64"
  shows "superseded_physical_content_file (content_payload_filename g) c \<longleftrightarrow> g \<noteq> c"
    "superseded_physical_content_file (content_nodes_filename g) c \<longleftrightarrow> g \<noteq> c"
  unfolding superseded_physical_content_file_def superseded_round_def content_payload_filename_def
    content_nodes_filename_def strip_prefix_append bind.bind_lunit strip_suffix_append strip_other_suffix
  using parse_padded [OF assms, of 20] length_padded [OF assms] by simp_all

lemma signed_name_superseded: "superseded_physical_content_file ''content-+0000000000000000001.payload'' 2"
proof -
  have name: "''content-+0000000000000000001.payload'' = ''content-'' @ ''+0000000000000000001'' @ ''.payload''"
    by simp
  have "parse_u64 ''+0000000000000000001'' = Some 1" "length ''+0000000000000000001'' = 20"
    by (simp_all add: parse_u64_def digit_value_def checked_mul_def checked_add_def width64_def)
  then show ?thesis
    unfolding superseded_physical_content_file_def superseded_round_def name strip_prefix_append bind.bind_lunit
      strip_suffix_append by simp
qed

end
