(* ===== verification/History_Cleanup.thy ===== *)
theory History_Cleanup
  imports History_Publication Physical_Properties
begin

text \<open>
  What cleanup removes after a generation was published, and that sealing gets through on a directory
  that grants every call.
\<close>

section \<open>Cleanup\<close>

lemma strip_iffs:
  "strip_prefix p s = Some r \<longleftrightarrow> s = p @ r" "strip_suffix q s = Some r \<longleftrightarrow> s = r @ q"
  by (auto simp: strip_prefix_def strip_suffix_def) (metis append_take_drop_id)+

lemma generation_named_iff: "generation_named pre suf name = Some g \<longleftrightarrow> (\<exists>t. name = pre @ t @ suf \<and> parse_u64 t = Some g)"
  by (auto simp: generation_named_def bind_eq_Some_conv strip_iffs)

lemma generation_named_last: "last name \<noteq> last suf \<Longrightarrow> suf \<noteq> [] \<Longrightarrow> generation_named pre suf name = None"
  using generation_named_iff [of pre suf name "the (generation_named pre suf name)"]
  by (cases "generation_named pre suf name") auto

lemma generation_named_names:
  assumes "g < width64"
  shows "generation_named ''history-'' ''.wal'' (history_wal_filename g) = Some g"
    "generation_named ''history-snap-'' ''.ths'' (history_snapshot_filename g) = Some g"
    "generation_named ''history-'' ''.wal'' (history_snapshot_filename g) = None"
  using parse_padded [OF assms] generation_named_last [of "history_snapshot_filename g" "''.wal''"]
  by (auto simp: generation_named_def history_wal_filename_def history_snapshot_filename_def name_ends [unfolded history_snapshot_filename_def]
      simp del: append_assoc append_Cons append.simps(2))

lemma stale_temp_iff: "stale_tulya_temp_file name \<longleftrightarrow> (\<exists>base. name = tmp_path base \<and>
   (base = HISTORY_MANIFEST_FILE \<or> generation_named ''history-'' ''.wal'' base \<noteq> None \<or> generation_named ''history-snap-'' ''.ths'' base \<noteq> None))"
  by (auto simp: stale_tulya_temp_file_def tmp_path_def strip_iffs split: option.splits)

lemma not_superseded:
  "hd name \<noteq> CHR ''c'' \<Longrightarrow> \<not> superseded_physical_content_file name p"
  "last name \<noteq> CHR ''l'' \<Longrightarrow> last name \<noteq> CHR ''s'' \<Longrightarrow> \<not> superseded_generation_file name g"
  "hd name \<noteq> CHR ''h'' \<Longrightarrow> \<not> superseded_generation_file name g"
  "last name \<noteq> CHR ''p'' \<Longrightarrow> \<not> stale_tulya_temp_file name"
proof -
  show "\<not> superseded_physical_content_file name p" if "hd name \<noteq> CHR ''c''"
    using that by (cases name) (auto simp: superseded_physical_content_file_def superseded_round_def strip_prefix_def)
  show "\<not> superseded_generation_file name g" if "last name \<noteq> CHR ''l''" "last name \<noteq> CHR ''s''"
    using that by (simp add: superseded_generation_file_def generation_named_last)
  show "\<not> superseded_generation_file name g" if "hd name \<noteq> CHR ''h''"
    using that by (cases name) (auto simp: superseded_generation_file_def generation_named_def strip_prefix_def)
  show "\<not> stale_tulya_temp_file name" if "last name \<noteq> CHR ''p''"
    using that name_ends(3) by (auto simp: stale_temp_iff)
qed

lemma current_files_kept:
  assumes "g < width64" "p < width64"
    "n \<in> {HISTORY_MANIFEST_FILE, HISTORY_LOCK_FILE, history_wal_filename g, history_snapshot_filename g,
       content_payload_filename p, content_nodes_filename p}"
  shows "\<not> obsolete_file g (Some p) n"
proof -
  have w: "\<not> superseded_generation_file (history_wal_filename g) g" "\<not> superseded_generation_file (history_snapshot_filename g) g"
    by (simp_all add: superseded_generation_file_def generation_named_names [OF assms(1)])
  have "hd HISTORY_LOCK_FILE = CHR ''h''"
    by (simp add: HISTORY_LOCK_FILE_def)
  then show ?thesis
    using assms(3) w content_names_superseded [OF assms(2)]
    by (elim insertE emptyE) (simp_all only: obsolete_file_def option.case, simp_all add: not_superseded name_ends name_starts)
qed

lemma other_files_obsolete:
  assumes "g' < width64"
  shows "g' \<noteq> g \<Longrightarrow> obsolete_file g p (history_wal_filename g')" "g' \<noteq> g \<Longrightarrow> obsolete_file g p (history_snapshot_filename g')"
    "g' \<noteq> pg \<Longrightarrow> obsolete_file g (Some pg) (content_payload_filename g')"
    "g' \<noteq> pg \<Longrightarrow> obsolete_file g (Some pg) (content_nodes_filename g')"
    "obsolete_file g p (tmp_path HISTORY_MANIFEST_FILE)" "obsolete_file g p (tmp_path (history_wal_filename g'))"
    "obsolete_file g p (tmp_path (history_snapshot_filename g'))"
  using content_names_superseded [OF assms] generation_named_names [OF assms]
  by (auto simp: obsolete_file_def superseded_generation_file_def stale_temp_iff)

text \<open>The entries a cleanup takes away, and that a complete one leaves none of those it was shown.\<close>

lemma remove_outcome:
  assumes "remove_file name d = (ok, d')"
  shows "untouched {name} d d'" "dir_files (nd_dir d') n = dir_files (nd_dir d) n \<or> dir_files (nd_dir d') n = None"
    "ok \<Longrightarrow> dir_files (nd_dir d') name = None"
  using assms remove_untouched [OF assms]
  by (auto simp: remove_file_def split: option.splits prod.splits DirAnswer.splits if_splits)

lemma cleanup_entries_outcome:
  assumes "cleanup_entries g p entries d = (complete, d')"
  shows "untouched {n. obsolete_file g p n} d d' \<and>
    (\<forall>n. dir_files (nd_dir d') n = dir_files (nd_dir d) n \<or> dir_files (nd_dir d') n = None) \<and>
    (complete \<longrightarrow> Unreadable \<notin> set entries \<and> (\<forall>n. Named n \<in> set entries \<and> obsolete_file g p n \<longrightarrow> dir_files (nd_dir d') n = None))"
  using assms
proof (induction g p entries d arbitrary: complete d' rule: cleanup_entries.induct)
  case (2 g p entries d)
  then show ?case
    by (cases "cleanup_entries g p entries d") auto
next
  case (4 g p name entries d)
  show ?case
  proof (cases "obsolete_file g p name")
    case False
    then show ?thesis
      using 4 by auto
  next
    case True
    obtain ok d1 where rm: "remove_file name d = (ok, d1)"
      by fastforce
    obtain c2 where c2: "cleanup_entries g p entries d1 = (c2, d')" "complete = (ok \<and> c2)"
      using 4(3) True rm by (auto split: prod.splits)
    note ih = 4(2) [OF _ rm [symmetric] c2(1)]
    have "untouched {n. obsolete_file g p n} d d1"
      by (rule untouched_mono [OF remove_outcome(1) [OF rm]]) (simp add: True)
    moreover have "dir_files (nd_dir d') name = None" if ok
      using remove_outcome(3) [OF rm that] ih True by metis
    moreover have "dir_files (nd_dir d') n = dir_files (nd_dir d) n \<or> dir_files (nd_dir d') n = None" for n
      using ih remove_outcome(2) [OF rm, of n] True by metis
    moreover have "dir_files (nd_dir d') n = None" if complete "Named n \<in> set (Named name # entries)" "obsolete_file g p n" for n
      using that ih True c2(2) \<open>ok \<Longrightarrow> dir_files (nd_dir d') name = None\<close> by (cases "n = name") auto
    ultimately show ?thesis
      using ih True c2(2) untouched_trans [of _ d d1 d'] by auto
  qed
qed simp_all

text \<open>The files of the current authority, and those of the others.\<close>

definition current_files :: "u64 \<Rightarrow> u64 \<Rightarrow> string set" where
  "current_files g p = {HISTORY_MANIFEST_FILE, HISTORY_LOCK_FILE, history_wal_filename g, history_snapshot_filename g,
     content_payload_filename p, content_nodes_filename p}"

definition leftover_files :: "u64 \<Rightarrow> u64 \<Rightarrow> string set" where
  "leftover_files g p = {n. \<exists>k<width64. n \<in> {tmp_path HISTORY_MANIFEST_FILE, tmp_path (history_wal_filename k),
       tmp_path (history_snapshot_filename k)} \<or> (k \<noteq> g \<and> n \<in> {history_wal_filename k, history_snapshot_filename k}) \<or>
     (k \<noteq> p \<and> n \<in> {content_payload_filename k, content_nodes_filename k})}"

lemma leftover_obsolete: "n \<in> leftover_files g p \<Longrightarrow> obsolete_file g (Some p) n"
  by (auto simp: leftover_files_def intro: other_files_obsolete)

lemma cleanup_outcome:
  assumes "cleanup_superseded_generations listing g p d = (complete, d')"
  shows "untouched {n. obsolete_file g p n} d d'"
    and "dir_files (nd_dir d') n \<noteq> dir_files (nd_dir d) n \<Longrightarrow> dir_files (nd_dir d') n = None \<and> obsolete_file g p n"
    and "complete \<Longrightarrow> \<exists>entries. listing = Some entries \<and> Unreadable \<notin> set entries \<and> nd_older d' = [] \<and>
      (\<forall>n. Named n \<in> set entries \<and> obsolete_file g p n \<longrightarrow> dir_files (nd_dir d') n = None)"
proof -
  have "untouched {n. obsolete_file g p n} d d' \<and>
      (\<forall>n. dir_files (nd_dir d') n = dir_files (nd_dir d) n \<or> dir_files (nd_dir d') n = None) \<and>
      (complete \<longrightarrow> (\<exists>entries. listing = Some entries \<and> Unreadable \<notin> set entries \<and> nd_older d' = [] \<and>
        (\<forall>n. Named n \<in> set entries \<and> obsolete_file g p n \<longrightarrow> dir_files (nd_dir d') n = None)))"
  proof (cases listing)
    case None
    then show ?thesis
      using assms by (simp add: cleanup_superseded_generations_def)
  next
    case (Some entries)
    obtain c1 d1 where c1: "cleanup_entries g p entries d = (c1, d1)"
      by fastforce
    obtain c2 where c2: "sync_dir d1 = (c2, d')" "complete = (c1 \<and> c2)"
      using assms c1 Some by (auto simp: cleanup_superseded_generations_def split: prod.splits)
    have same: "dir_files (nd_dir d') = dir_files (nd_dir d1)"
      using sync_dir_untouched [OF c2(1)] by (auto simp: untouched_def)
    have "untouched {n. obsolete_file g p n} d d'"
      using cleanup_entries_outcome [OF c1] untouched_mono [OF sync_dir_untouched [OF c2(1)], of "{n. obsolete_file g p n}"]
        untouched_trans by blast
    then show ?thesis
      using cleanup_entries_outcome [OF c1] same c2 sync_dir_older [of d1 d'] Some by auto
  qed
  then show "untouched {n. obsolete_file g p n} d d'"
    "dir_files (nd_dir d') n \<noteq> dir_files (nd_dir d) n \<Longrightarrow> dir_files (nd_dir d') n = None \<and> obsolete_file g p n"
    "complete \<Longrightarrow> \<exists>entries. listing = Some entries \<and> Unreadable \<notin> set entries \<and> nd_older d' = [] \<and>
      (\<forall>n. Named n \<in> set entries \<and> obsolete_file g p n \<longrightarrow> dir_files (nd_dir d') n = None)"
    by (auto simp: untouched_def)
qed

lemma cleanup_safe:
  assumes "g < width64" "p < width64" and run: "cleanup_superseded_generations listing g (Some p) d = (complete, d')"
    and cut: "cut d' d''"
  shows "(\<forall>n\<in>current_files g p. dir_files (nd_dir d') n = dir_files (nd_dir d) n \<and> cut_at d d'' n) \<and>
    (\<forall>n. dir_files (nd_dir d') n \<noteq> dir_files (nd_dir d) n \<longrightarrow> dir_files (nd_dir d') n = None \<and> obsolete_file g (Some p) n) \<and>
    (complete \<longrightarrow> (\<exists>entries. listing = Some entries \<and>
      (\<forall>n\<in>leftover_files g p. Named n \<in> set entries \<longrightarrow> dir_files (nd_dir d') n = None \<and> dir_files d'' n = None)))"
proof (intro conjI)
  note o = cleanup_outcome [OF run]
  show "\<forall>n\<in>current_files g p. dir_files (nd_dir d') n = dir_files (nd_dir d) n \<and> cut_at d d'' n"
  proof
    fix n
    assume "n \<in> current_files g p"
    then have "n \<notin> {n. obsolete_file g (Some p) n}"
      using current_files_kept [OF assms(1,2)] by (simp add: current_files_def)
    then show "dir_files (nd_dir d') n = dir_files (nd_dir d) n \<and> cut_at d d'' n"
      using o(1) cut_untouched [of d' d'' n, OF _ o(1)] cut by (simp add: untouched_def cut_def)
  qed
  show "complete \<longrightarrow> (\<exists>entries. listing = Some entries \<and>
      (\<forall>n\<in>leftover_files g p. Named n \<in> set entries \<longrightarrow> dir_files (nd_dir d') n = None \<and> dir_files d'' n = None))"
  proof
    assume complete
    then obtain entries where e: "listing = Some entries" "nd_older d' = []"
        "\<And>n. Named n \<in> set entries \<Longrightarrow> obsolete_file g (Some p) n \<Longrightarrow> dir_files (nd_dir d') n = None"
      using o(3) by blast
    have "dir_files d'' n = None" if "dir_files (nd_dir d') n = None" for n
      using cut_settled [OF cut, of n] that e(2) by (simp add: no_older_def settles_def)
    then show "\<exists>entries. listing = Some entries \<and>
        (\<forall>n\<in>leftover_files g p. Named n \<in> set entries \<longrightarrow> dir_files (nd_dir d') n = None \<and> dir_files d'' n = None)"
      using e(1,3) leftover_obsolete by blast
  qed
qed (use cleanup_outcome(2) [OF run] in blast)

section \<open>Availability\<close>

lemma on_entry_available:
  assumes "\<exists>x. call (nd_dir d) = (True, x) \<and> willing x"
  shows "\<exists>d'. on_entry name call d = (True, d') \<and> willing (nd_dir d')"
  using assms by (auto simp: on_entry_def)

lemma create_available:
  assumes "willing x"
  shows "\<exists>x'. dir_create_truncate name x = (True, x') \<and> willing x'"
  by (rule willing_answer [OF assms]) (simp add: dir_create_truncate_def)

lemma write_available:
  assumes "willing (nd_dir d)" "length bytes < width64"
  shows "\<exists>d'. write_file_synced name bytes d = (True, d') \<and> willing (nd_dir d')"
proof -
  obtain d1 where 1: "on_entry name (dir_create_truncate name) d = (True, d1)" "willing (nd_dir d1)"
    using on_entry_available create_available [OF assms(1)] by meson
  have f1: "dir_files (nd_dir d1) name \<noteq> None"
    using 1(1) by (auto simp: on_entry_def dir_create_truncate_def put_file_def split: prod.splits DirAnswer.splits)
  obtain d2 where 2: "(if bytes = [] then (True, d1) else on_entry name (dir_write name 0 bytes) d1) = (True, d2)" "willing (nd_dir d2)"
      "dir_files (nd_dir d2) name \<noteq> None"
  proof (cases "bytes = []")
    case True
    then show ?thesis
      using that 1(2) f1 by simp
  next
    case False
    obtain d2 where d2: "on_entry name (dir_write name 0 bytes) d1 = (True, d2)" "willing (nd_dir d2)"
      using on_entry_available [of "dir_write name 0 bytes" d1 name] willing_calls(2) [OF 1(2) f1, of 0 bytes] assms(2) by auto
    moreover have "dir_files (nd_dir d2) name \<noteq> None"
      using d2(1) by (auto simp: on_entry_def dir_write_def put_file_def split: option.splits prod.splits DirAnswer.splits if_splits)
    ultimately show ?thesis
      using that False by simp
  qed
  obtain d3 where "on_entry name (dir_sync name) d2 = (True, d3)" "willing (nd_dir d3)"
    using on_entry_available [of "dir_sync name" d2 name] willing_calls(3) [OF 2(2,3)] by blast
  then show ?thesis
    using 1 2 by (simp add: write_file_synced_def)
qed

lemma sync_available: "willing (nd_dir d) \<Longrightarrow> \<exists>d'. sync_dir d = (True, d') \<and> willing (nd_dir d')"
  by (erule willing_answer) (simp add: sync_dir_def)

lemma rename_available:
  assumes "willing (nd_dir d)" "dir_files (nd_dir d) from \<noteq> None"
  shows "\<exists>d'. rename from to d = (True, d') \<and> willing (nd_dir d')"
  using assms(2) by - (rule willing_answer [OF assms(1)], auto simp: rename_def willing_def answering_def)

lemma publish_available:
  assumes "willing (nd_dir d)" "dir_files (nd_dir d) tmp \<noteq> None"
  shows "\<exists>d'. publish_file tmp final d = (True, d') \<and> willing (nd_dir d')"
proof -
  obtain d1 where "rename tmp final d = (True, d1)" "willing (nd_dir d1)"
    using rename_available [OF assms] by blast
  then show ?thesis
    using sync_available by (auto simp: publish_file_def)
qed

text \<open>A file written beside its final name and published is there, on a directory that still grants.\<close>

lemma publication_available:
  assumes "willing (nd_dir d)" "length bytes < width64"
  obtains d1 d2 where "write_file_synced tmp bytes d = (True, d1)" "willing (nd_dir d1)" "sealed_file d1 tmp bytes"
    "publish_file tmp final d1 = (True, d2)" "willing (nd_dir d2)" "sealed_file d2 final bytes"
proof -
  obtain d1 where d1: "write_file_synced tmp bytes d = (True, d1)" "willing (nd_dir d1)"
    using write_available [OF assms] by blast
  note s1 = write_file_sealed [OF d1(1)]
  obtain d2 where d2: "publish_file tmp final d1 = (True, d2)" "willing (nd_dir d2)"
    using publish_available [OF d1(2), of tmp final] s1 by (auto simp: sealed_file_def)
  show thesis
    by (rule that [OF d1 s1 d2 publish_sealed(1) [OF d2(1) s1]])
qed

lemma sealed_read: "willing (nd_dir d) \<Longrightarrow> sealed_file d name bytes \<Longrightarrow> fs_read (nd_dir d) name = ReadOk bytes"
  using fs_read_answering by (fastforce simp: sealed_file_def willing_def)

lemma publish_staged_available:
  assumes w: "willing (nd_dir d)" and len: "length bs < width64" and dec: "decode_history_snapshot E bs = Inr snap"
    and hot: "\<And>f. dir_files (nd_dir d) (history_wal_filename g) = Some f \<Longrightarrow> file_bytes f = []"
  shows "\<exists>d'. publish_staged_files E current g wal_end bs d = (Inr (staged_seal E current g wal_end bs), d') \<and> willing (nd_dir d')"
proof -
  let ?s = "history_snapshot_filename g" and ?h = "history_wal_filename g"
  obtain d1 d2 where 1: "write_file_synced (tmp_path ?s) bs d = (True, d1)" "willing (nd_dir d1)" "sealed_file d1 (tmp_path ?s) bs"
      "publish_file (tmp_path ?s) ?s d1 = (True, d2)" "willing (nd_dir d2)"
    by (rule publication_available [OF w len])
  have "dir_files (nd_dir d2) ?h = dir_files (nd_dir d) ?h"
    using write_file_untouched [OF 1(1)] publish_untouched [OF 1(4)] by (auto simp: untouched_def entry_names_differ')
  then have chk: "check_next_hot ?h (nd_dir d2) = Inr ()"
    using hot fs_read_answering [of "nd_dir d2" ?h] 1(5)
    by (cases "dir_files (nd_dir d) ?h") (auto simp: check_next_hot_def path_exists_def willing_def)
  obtain d3 d4 where 2: "write_file_synced (tmp_path ?h) [] d2 = (True, d3)" "publish_file (tmp_path ?h) ?h d3 = (True, d4)" "willing (nd_dir d4)"
    by (rule publication_available [OF 1(5), of "[]"]) (simp add: width64_def)
  have "read_back E (tmp_path ?s) bs (nd_dir d1) = Inr ()"
    using sealed_read [OF 1(2,3)] dec by (simp add: read_back_def)
  then show ?thesis
    using 1 2 chk by (simp add: publish_staged_files_def Let_def bindD_def callD_def viewD_def staged_seal_def)
qed

lemma manifest_commit_available:
  assumes w: "willing (nd_dir d)"
    and len: "length (encode_history_manifest \<lparr>hm_generation = st_generation staged, hm_sealed = Some (st_sealed staged)\<rparr>) < width64"
  shows "\<exists>d'. commit_staged_manifest staged d = (Inr (), d') \<and> willing (nd_dir d')"
proof -
  let ?m = HISTORY_MANIFEST_FILE and ?tm = "tmp_path HISTORY_MANIFEST_FILE"
  obtain d1 d2 where "write_file_synced ?tm (encode_history_manifest \<lparr>hm_generation = st_generation staged, hm_sealed = Some (st_sealed staged)\<rparr>) d = (True, d1)"
      "publish_file ?tm ?m d1 = (True, d2)" "willing (nd_dir d2)"
    by (rule publication_available [OF w len])
  then show ?thesis
    by (auto simp: commit_staged_manifest_def publish_file_def split: prod.splits bool.splits)
qed

lemma decimal_within_20: "n < width64 \<Longrightarrow> length (decimal n) \<le> 20"
  using u64_decimal_width [of n] by simp

lemma new_manifest_short:
  assumes "sha_ok E" "g < width64" "length bs < width64"
  shows "length (encode_history_manifest (new_manifest E g bs)) < width64"
proof -
  have "length (hex_encode (sealed_artifact_digest E bs)) = 64"
    using assms(1) by (simp add: length_hex_encode sealed_artifact_digest_def sha_ok_def)
  then have "length (encode_history_manifest (new_manifest E g bs)) \<le> 300"
    using decimal_within_20 [OF assms(2)] decimal_within_20 [OF assms(3)] decimal_within_20 [of "Suc 0"]
    by (simp add: encode_history_manifest_def encode_sealed_def new_manifest_def ManifestSealed_for_snapshot_def ascii_def
        HISTORY_FORMAT_NAME_def HISTORY_MANIFEST_SCHEMA_def width64_def)
  then show ?thesis
    by (simp add: width64_def)
qed

theorem seal_completes:
  assumes E: "\<And>m n. try_reserve E m n" and sha: "sha_ok E"
    and s: "sealable E den (wa_store A) a st pg c" and dir: "pcs_dir st = nd_dir (wa_dir A)"
    and will: "willing (nd_dir (wa_dir A))"
    and man: "read_manifest J (nd_dir (wa_dir A)) = Inr m" and g: "g = (case m of None \<Rightarrow> 0 | Some m \<Rightarrow> hm_generation m)"
    and w: "g + 1 < width64" and wal: "current_hot_wal_end E (nd_dir (wa_dir A)) g = Inr wal_end"
    and enc: "encode_history_snapshot E (physical_content E) (wa_store A) (g + 1) wal_end = Inr bs"
    and hot: "\<And>f. dir_files (nd_dir (wa_dir A)) (history_wal_filename (g + 1)) = Some f \<Longrightarrow> file_bytes f = []"
  shows "\<exists>y A'. seal E J LockGranted A = (Inr y, A') \<and> seal_generation y = g + 1"
proof -
  let ?D = "wa_dir A" and ?s = "wa_store A"
  have np: "\<not> poisoned ?s" and lent: "lend (nd_dir ?D) ?s = ?s"
    using s dir lend_same by (auto simp: sealable_def)
  have we: "wal_end < width64"
    using wal by (auto simp: current_hot_wal_end_def decode_history_log_def result_iffs checked_iffs try_from_def split: if_splits)
  obtain snap where snap: "decode_history_snapshot E bs = Inr snap"
    by (rule sealed_decodes [OF E sha s w we enc])
  have len: "length bs < width64"
    using snap unfolding decode_snapshot_iff [OF E sha] by (auto simp: prefix_image_def)
  obtain d1 where d1: "publish_staged_files E g (g + 1) wal_end bs ?D = (Inr (staged_seal E g (g + 1) wal_end bs), d1)" "willing (nd_dir d1)"
    using publish_staged_available [OF will len snap hot] by blast
  have stage: "stage_sealed_generation E J ?s ?D = (Inr (staged_seal E g (g + 1) wal_end bs), d1)"
    using d1(1) man g w wal enc lent
    by (simp add: stage_sealed_generation_def bindD_def viewD_def current_generation_def next_generation_def checked_add_def)
  have on: "sealed_file d1 (history_wal_filename (g + 1)) []"
    using publish_staged_done(2) [OF d1(1)] by (simp add: staged_on_def)
  have "open_write E [] = Inr \<lparr>log_file = [], log_tail = 0, fail_next_append = False\<rparr>"
    by (simp add: open_write_def scan_log_tail_def decode_history_log_def scan_frames.simps try_from_def width64_def)
  then obtain hot where hot: "open_hot E LockGranted (history_wal_filename (g + 1)) d1 = (Inr hot, d1)"
    using on d1(2) sealed_read [OF d1(2) on]
    by (auto simp: open_hot_def on_entry_def dir_open_or_create_def sealed_file_def willing_def answering_def)
  obtain d2 where d2: "commit_staged_manifest (staged_seal E g (g + 1) wal_end bs) d1 = (Inr (), d2)"
    using manifest_commit_available [OF d1(2), of "staged_seal E g (g + 1) wal_end bs"] new_manifest_short [OF sha w len]
    by (auto simp: staged_seal_def new_manifest_def)
  show ?thesis
    using np stage hot d2 by (auto simp: seal_def Let_def staged_seal_def split: prod.splits)
qed

end
