(* ===== verification/History_Sealing.thy ===== *)
theory History_Sealing
  imports History_Cleanup
begin

text \<open>
  A seal gets through.  Every version of a store with durable content has a descriptor, whether it
  is retained or an expired one whose root was collected, so the snapshot is encoded as soon as its
  length fits 64 bits; the rest of a seal asks only for a directory that grants its calls.
\<close>

section \<open>Descriptors\<close>

lemma willing_served:
  assumes "\<And>m n. try_reserve E m n" "willing (pcs_dir st)" "opened st"
  shows "served E st"
  using assms by (simp add: served_def willing_def answering_def)

lemma resolve_physical:
  assumes sha: "sha_ok E" and b: "backend b = Physical st" and k: "kept True E pg c st" and sv: "served E st"
    and d: "arena_denotes E c root bs"
  shows "\<exists>r. resolve (physical_content E) b root = Inr r"
proof -
  obtain r t where r: "root = balanced_v2 (root_node_id r) (root_len r)" "rep E (seq_payload c) (seq_nodes c) r t"
    using d by (auto simp: arena_denotes_def)
  obtain n where n: "get_at (seq_nodes c) (root_node_id r) = Some n" "V2RootRecord_from_node (root_node_id r) (node_record n) = Inr r"
    using rep_child_ok [OF r(2)] by (auto simp: child_ok_def)
  have "pcs_load_record st (root_node_id r) = Inr (node_record n)"
    using served_record [OF sha _ sv, of c "root_node_id r"] k n(1) by (auto simp: kept_def get_at_def split: if_splits)
  with n(2) b show ?thesis
    unfolding r(1) by (simp add: resolve_def physical_content_simps balanced_v2_def)
qed

lemma descriptor_available:
  assumes sha: "sha_ok E" and s: "sealable E (arena_denotes E c) s a st pg c" and sv: "served E st"
    and i: "i < length (versions s)"
  shows "\<exists>d. snapshot_descriptor (physical_content E) s (versions s ! i) = Inr d"
proof -
  let ?rec = "versions s ! i"
  have s': "tabled s a" "stored (arena_denotes E c) (versions s) a" "backend (store_backend s) = Physical st" "kept True E pg c st"
    using s by (auto simp: sealable_def)
  note v = storedD(2) [OF s'(2), of i]
  have i': "i < length (sp_versions a)"
    using i storedD(1) [OF s'(2)] by simp
  show ?thesis
  proof (cases "record_root ?rec")
    case None
    then have "version_id (record_version ?rec) \<in> set (expired_versions s)"
      using v i' s'(1) by (auto simp: tabled_def)
    with None show ?thesis
      by (simp add: snapshot_descriptor_def)
  next
    case (Some root)
    then have d: "arena_denotes E c root (snd (sp_versions a ! i))"
      using v i' by auto
    then obtain r where "resolve (physical_content E) (store_backend s) root = Inr r"
      using resolve_physical [OF sha s'(3,4) sv] by blast
    moreover have "record_len ?rec = proot_logical_len root"
      by (rule arena_denotesE [OF d]) (use v i' in simp)
    ultimately show ?thesis
      using Some by (simp add: snapshot_descriptor_def canonical_root_bytes_def)
  qed
qed

section \<open>The length of a snapshot\<close>

text \<open>The longest image of a snapshot with \<open>h\<close> histories and \<open>v\<close> versions.\<close>

definition snapshot_bound :: "nat \<Rightarrow> nat \<Rightarrow> nat" where
  "snapshot_bound h v = HISTORY_SNAPSHOT_HEADER_SIZE + 32 + h * (8 + MAX_HISTORY_BINDING_BYTES) +
     v * (34 + MAX_HISTORY_BINDING_BYTES + V2_ROOT_RECORD_SIZE) +
     STAGING_REQUEST_RECEIPT_CAPACITY * (2 * (8 + MAX_HISTORY_REQUEST_ID_BYTES) + 40)"

lemma length_concat_le: "(\<And>x. x \<in> set xs \<Longrightarrow> length (f x) \<le> k) \<Longrightarrow> length (concat (map f xs)) \<le> length xs * k"
  by (induction xs) (auto simp: add_le_mono)

lemma optional_image_short: "optional_ok n x \<Longrightarrow> length (optional_image x) \<le> 8 + n"
  by (auto simp: optional_ok_def optional_image_def split: option.splits simp del: le_bytes.simps)

lemma request_image_short: "request_id_ok r \<Longrightarrow> length (request_image r) \<le> 8 + MAX_HISTORY_REQUEST_ID_BYTES"
  by (simp add: request_id_ok_def request_image_def del: le_bytes.simps)

lemma version_image_short:
  assumes "version_ok h prior v"
  shows "length (version_image v) \<le> 34 + MAX_HISTORY_BINDING_BYTES + V2_ROOT_RECORD_SIZE"
  using assms optional_image_short [of MAX_HISTORY_BINDING_BYTES "sv_binding v"]
  by (auto simp: version_image_def version_ok_def parent_image_def descriptor_ok_def split: option.splits simp del: le_bytes.simps)

lemma active_ok_each: "active_ok n previous as \<Longrightarrow> x \<in> set as \<Longrightarrow> request_id_ok (sa_request_id x) \<and> length (sa_digest x) = 32"
  by (induction as arbitrary: previous) auto

lemma retired_ok_each: "retired_ok ids previous rs \<Longrightarrow> x \<in> set rs \<Longrightarrow> request_id_ok (sr_request_id x) \<and> length (sr_digest x) = 32"
  by (induction rs arbitrary: previous) auto

lemma body_short:
  assumes "tables_ok s"
  shows "HISTORY_SNAPSHOT_HEADER_SIZE + length (body_image s) + 32 \<le>
    snapshot_bound (length (snap_history_bindings s)) (length (snap_versions s))"
proof -
  let ?r = "8 + MAX_HISTORY_REQUEST_ID_BYTES" and ?C = STAGING_REQUEST_RECEIPT_CAPACITY
  note t = assms [unfolded tables_ok_def]
  have "length (concat (map optional_image (snap_history_bindings s))) \<le> length (snap_history_bindings s) * (8 + MAX_HISTORY_BINDING_BYTES)"
    using t by (intro length_concat_le optional_image_short) (auto simp: list_all_iff)
  moreover have "length (concat (map version_image (snap_versions s))) \<le>
      length (snap_versions s) * (34 + MAX_HISTORY_BINDING_BYTES + V2_ROOT_RECORD_SIZE)"
    using t versions_ok_each version_image_short by (intro length_concat_le) blast
  moreover have "length (concat (map active_image (snap_active s))) \<le> length (snap_active s) * (?r + 40)"
    using t active_ok_each request_image_short
    by (intro length_concat_le) (fastforce simp: active_image_def simp del: le_bytes.simps)
  moreover have "length (concat (map retired_image (snap_retired s))) \<le> length (snap_retired s) * (?r + 40)"
    using t retired_ok_each request_image_short by (intro length_concat_le) (fastforce simp: retired_image_def)
  moreover have "length (concat (map request_image (snap_receipt_order s))) \<le> length (snap_receipt_order s) * ?r"
    using t by (intro length_concat_le request_image_short) (auto simp: list_all_iff)
  moreover have n: "length (snap_receipt_order s) = length (snap_active s) + length (snap_retired s)" "length (snap_receipt_order s) \<le> ?C"
    using t by (auto simp: receipts_ok_def)
  moreover have "length (snap_receipt_order s) * (2 * ?r + 40) \<le> ?C * (2 * ?r + 40)"
    using n(2) by (rule mult_le_mono1)
  ultimately show ?thesis
    unfolding body_image_def snapshot_bound_def length_append by (simp add: algebra_simps)
qed

theorem seal_encodes:
  assumes E: "\<And>m n. try_reserve E m n" and sha: "sha_ok E"
    and s: "sealable E (arena_denotes E c) s a st pg c" and sv: "served E st"
    and w: "g < width64" "wal_end < width64"
    and short: "snapshot_bound (next_history_id s) (next_version_id s) < width64"
  shows "\<exists>bs. encode_history_snapshot E (physical_content E) s g wal_end = Inr bs"
proof -
  let ?P = "physical_content E"
  have s': "tabled s a" "\<not> poisoned s" "stored (arena_denotes E c) (versions s) a" "spec_inv a"
      "backend (store_backend s) = Physical st" "kept True E pg c st" "opened st"
    using s by (auto simp: sealable_def)
  note k = kept_widths [OF sha s'(6,7)]
  have "\<forall>i<length (versions s). \<exists>d. snapshot_descriptor ?P s (versions s ! i) = Inr d"
    using descriptor_available [OF sha s sv] by blast
  then obtain f where "\<forall>i<length (versions s). snapshot_descriptor ?P s (versions s ! i) = Inr (f i)"
    by metis
  then have ds: "list_all2 (\<lambda>rec d. snapshot_descriptor ?P s rec = Inr d) (versions s) (map f [0..<length (versions s)])"
      (is "list_all2 _ _ ?ds")
    by (simp add: list_all2_conv_all_nth)
  have fr: "snapshot_frontiers ?P s = (length (seq_payload c), length (seq_nodes c))" "physical_generation ?P (store_backend s) = Some pg"
    using s'(5) k(1,3,4) by (simp_all add: snapshot_frontiers_def physical_frontiers_def physical_generation_def physical_content_def)
  have ok: "snapshot_ok (snapshot_of ?P s g wal_end ?ds)" and rs: "length (active_requests s) + length (retired_requests s) = length (receipt_order s)"
    using sealed_snapshot [OF s'(1-4) resolves_physical [OF s'(5)] w _ _ _ ds] k fr by auto
  have n: "next_history_id s = length (histories s)" "next_version_id s = length (versions s)"
    using s'(1,2) storedD(1) [OF s'(3)] distinct_card [of "histories s"] by (auto simp: tabled_def)
  have ids: "\<not> list_ex (\<lambda>(i, rec). version_id (record_version rec) \<noteq> i) (enumerate 0 (versions s))"
    using storedD [OF s'(3)] s'(4)
    by (auto simp: list_ex_iff in_set_enumerate_eq spec_inv_def catalogue_inv_def split_beta)
  have "HISTORY_SNAPSHOT_HEADER_SIZE + length (body_image (snapshot_of ?P s g wal_end ?ds)) + 32 \<le> snapshot_bound (next_history_id s) (next_version_id s)"
    using body_short [of "snapshot_of ?P s g wal_end ?ds"] ok n(2) by (simp add: snapshot_ok_def snapshot_of_def)
  then have "length (prefix_image (snapshot_of ?P s g wal_end ?ds) @ snapshot_digest E (prefix_image (snapshot_of ?P s g wal_end ?ds))) < width64"
    using short sha by (simp add: length_prefix_image snapshot_digest_def sha_ok_def)
  then obtain bs where "encode_history_snapshot_struct E (snapshot_of ?P s g wal_end ?ds) = Inr bs"
    using encode_snapshot_iff [OF E sha ok] by blast
  moreover have "traverse (snapshot_descriptor ?P s) (versions s) = Inr ?ds"
    using ds by (simp add: traverse_Inr_iff)
  ultimately show ?thesis
    using n ids rs by (simp add: encode_history_snapshot_def reserve_def E)
qed

section \<open>The files a seal reads\<close>

text \<open>
  \<open>log_bytes E bytes\<close>: the frames of encoded records, followed by a proper prefix of a further frame,
  empty or left by an interrupted append.
\<close>

definition log_bytes :: "env \<Rightarrow> byte list \<Rightarrow> bool" where
  "log_bytes E bytes \<longleftrightarrow> length bytes < width64 \<and> (\<exists>recs frames rec frame n. list_all2 (logged E) recs frames \<and>
     logged E rec frame \<and> n < length frame \<and> bytes = concat frames @ take n frame)"

text \<open>
  The files of an authority whose manifest is \<open>m\<close>: the manifest holds the text of \<open>m\<close> and the hot log
  of its generation holds records.  A directory without manifest is at generation 0 and may be
  without a hot log.
\<close>

definition authority_files :: "env \<Rightarrow> Directory \<Rightarrow> HistoryManifest option \<Rightarrow> bool" where
  "authority_files E d m \<longleftrightarrow> (case m of
     None \<Rightarrow> dir_files d HISTORY_MANIFEST_FILE = None \<and>
       (case dir_files d (history_wal_filename 0) of None \<Rightarrow> True | Some f \<Rightarrow> log_bytes E (file_bytes f))
   | Some m \<Rightarrow> manifest_ok m \<and>
       (\<exists>f. dir_files d HISTORY_MANIFEST_FILE = Some f \<and> file_bytes f = encode_history_manifest m) \<and>
       (\<exists>f. dir_files d (history_wal_filename (hm_generation m)) = Some f \<and> log_bytes E (file_bytes f)))"

lemma log_bytes_decode:
  assumes "\<And>m n. try_reserve E m n" "sha_ok E" "log_bytes E bytes"
  shows "\<exists>recs end'. decode_history_log E bytes = Inr (recs, end')"
proof -
  obtain recs frames rec frame n where b: "list_all2 (logged E) recs frames" "logged E rec frame" "n < length frame"
      "bytes = concat frames @ take n frame" "length bytes < width64"
    using assms(3) by (auto simp: log_bytes_def)
  show ?thesis
    using decode_torn_log [OF assms(2,1) b(1-3)] b(4,5) by auto
qed

lemma authority_files_read:
  assumes E: "\<And>m n. try_reserve E m n" and sha: "sha_ok E" and J: "serde_reads J"
    and d: "authority_files E d m" "answering d" and g: "g = (case m of None \<Rightarrow> 0 | Some m \<Rightarrow> hm_generation m)"
  shows "read_manifest J d = Inr m" "\<exists>wal_end. current_hot_wal_end E d g = Inr wal_end"
proof -
  have absent: "fs_read d n = NotFound" if "dir_files d n = None" for n
    using that d(2) by (simp add: fs_read_def answering_def)
  note present = fs_read_answering [OF d(2)]
  show "read_manifest J d = Inr m"
    using d(1) absent present decode_encode_manifest [OF J]
    by (auto simp: authority_files_def read_manifest_def split: option.splits)
  have log: "\<exists>wal_end. current_hot_wal_end E d g = Inr wal_end"
    if "dir_files d (history_wal_filename g) = Some f" "log_bytes E (file_bytes f)" for f
    using present [OF that(1)] log_bytes_decode [OF E sha that(2)] by (auto simp: current_hot_wal_end_def)
  have "decode_history_log E [] = Inr ([], 0)"
    by (simp add: decode_history_log_def scan_frames.simps try_from_def width64_def)
  then have none: "\<exists>wal_end. current_hot_wal_end E d g = Inr wal_end" if "dir_files d (history_wal_filename g) = None" "g = 0"
    using absent [OF that(1)] that(2) by (simp add: current_hot_wal_end_def)
  show "\<exists>wal_end. current_hot_wal_end E d g = Inr wal_end"
  proof (cases m)
    case None
    then show ?thesis
      using d(1) g none log by (cases "dir_files d (history_wal_filename 0)") (auto simp: authority_files_def)
  next
    case (Some x)
    then show ?thesis
      using d(1) g log by (auto simp: authority_files_def)
  qed
qed

theorem seal_gets_through:
  assumes E: "\<And>m n. try_reserve E m n" and sha: "sha_ok E" and J: "serde_reads J"
    and s: "sealable E (arena_denotes E c) (wa_store A) a st pg c" and dir: "pcs_dir st = nd_dir (wa_dir A)"
    and will: "willing (nd_dir (wa_dir A))" and files: "authority_files E (nd_dir (wa_dir A)) m"
    and g: "g = (case m of None \<Rightarrow> 0 | Some m \<Rightarrow> hm_generation m)" and w: "g + 1 < width64"
    and short: "snapshot_bound (next_history_id (wa_store A)) (next_version_id (wa_store A)) < width64"
    and hot: "\<And>f. dir_files (nd_dir (wa_dir A)) (history_wal_filename (g + 1)) = Some f \<Longrightarrow> file_bytes f = []"
  shows "\<exists>y A'. seal E J LockGranted A = (Inr y, A') \<and> seal_generation y = g + 1"
proof -
  have ans: "answering (nd_dir (wa_dir A))" and sv: "served E st"
    using will dir s willing_served [OF E] by (auto simp: willing_def sealable_def)
  note man = authority_files_read(1) [OF E sha J files ans g]
  obtain wal_end where wal: "current_hot_wal_end E (nd_dir (wa_dir A)) g = Inr wal_end"
    using authority_files_read(2) [OF E sha J files ans g] by blast
  then have we: "wal_end < width64"
    by (auto simp: current_hot_wal_end_def decode_history_log_def result_iffs checked_iffs try_from_def split: if_splits)
  obtain bs where enc: "encode_history_snapshot E (physical_content E) (wa_store A) (g + 1) wal_end = Inr bs"
    using seal_encodes [OF E sha s sv w we short] by blast
  show ?thesis
    by (rule seal_completes [OF E sha s dir will man g w wal enc hot])
qed

end
