(* ===== verification/History_Operations.thy ===== *)
theory History_Operations
  imports History_Recovery
begin

text \<open>
  The outcome of every operation of the store on every branch, over the backend contract: which
  reply is given, which event it stands for, and what state it leaves.
\<close>

section \<open>The request matrix\<close>

text \<open>
  What a known request identity answers: the version it committed, or that it is retired.  A
  digest that differs answers nothing.
\<close>

definition request_answer :: "HistorySpec \<Rightarrow> byte list option \<Rightarrow> digest \<Rightarrow> CommitOutcome option" where
  "request_answer a rid dg = (case rid of
     None \<Rightarrow> None
   | Some r \<Rightarrow> (case sp_active a r of
       Some x \<Rightarrow> if request_digest x = dg then Some (Replayed (fst (sp_versions a ! request_version x))) else None
     | None \<Rightarrow> if sp_retired a r = Some dg then Some CommitOutcome.Retired else None))"

lemma answered_disabled: "request_answer a rid dg = Some oc \<Longrightarrow> \<not> commit_enabled a h rid b"
  by (auto simp: request_answer_def commit_enabled_def split: option.splits if_splits)

lemma ledger_answer_iffs:
  "case_Ledger (\<lambda>v. Inr (PreviewReplayed v)) (Inr PreviewRetired) x l = Inr (PreviewReplayed v) \<longleftrightarrow>
    l = LedgerReplayed v \<or> l = LedgerUnknown \<and> x = Inr (PreviewReplayed v)"
  "case_Ledger (\<lambda>v. Inr (PreviewReplayed v)) (Inr PreviewRetired) x l = Inr PreviewRetired \<longleftrightarrow>
    l = LedgerRetired \<or> l = LedgerUnknown \<and> x = Inr PreviewRetired"
  by (cases l; auto)+

text \<open>A commit that runs out of memory, performs its event, or answers for a known request.\<close>

definition commit_promise ::
  "('p PersistentHistoryStore \<Rightarrow> HistorySpec \<Rightarrow> bool) \<Rightarrow> (HistoryError \<Rightarrow> bool) \<Rightarrow> HistoryEvent \<Rightarrow> HistorySpec \<Rightarrow>
   HistorySpec \<Rightarrow> CommitOutcome option \<Rightarrow> Version \<Rightarrow> 'p PersistentHistoryStore \<Rightarrow>
   (HistoryError + CommitOutcome) \<times> 'p PersistentHistoryStore \<Rightarrow> bool" where
  "commit_promise rel short ev a a' answer v s res = (case res of
     (Inl e, s') \<Rightarrow> s' = s \<and> (enabled ev a \<and> \<not> poisoned s \<longrightarrow> short e)
   | (Inr (Committed w), s') \<Rightarrow> w = v \<and> enabled ev a \<and> \<not> poisoned s \<and> rel s' a' \<and> \<not> poisoned s'
   | (Inr oc, s') \<Rightarrow> s' = s \<and> \<not> enabled ev a \<and> answer = Some oc)"

text \<open>The answer to a request identity that the ledger knows, for a splice with valid operands.\<close>

definition splice_operands_ok ::
  "HistorySpec \<Rightarrow> HistoryId \<Rightarrow> VersionId option \<Rightarrow> u64 \<Rightarrow> u64 \<Rightarrow> byte list \<Rightarrow> byte list option \<Rightarrow> bool" where
  "splice_operands_ok a h parent off del ins b \<longleftrightarrow> h < sp_histories a \<and> valid_optional b \<and>
     (\<forall>p. parent = Some p \<longrightarrow> p < length (sp_versions a) \<and> version_history (fst (sp_versions a ! p)) = h) \<and>
     edit_ok (parent = None) (sp_bytes a parent) off del ins"

definition ledger_reply :: "HistorySpec \<Rightarrow> byte list \<Rightarrow> digest \<Rightarrow> HistoryError + CommitOutcome" where
  "ledger_reply a r dg = (case request_answer a (Some r) dg of Some oc \<Rightarrow> Inr oc | None \<Rightarrow> Inl HistoryError.RequestConflict)"

text \<open>A splice record is little longer than its insert, so a log with room for it takes it.\<close>

lemma splice_body:
  assumes "record_ok (Splice h v parent off del ins rid b dg None)"
  obtains body where "encode_record_body (Splice h v parent off del ins rid b dg None) = Inr body"
    "length body \<le> length ins + 8290"
proof -
  have "\<exists>r. encode_request rid = Inr r \<and> length r \<le> 4104"
    using assms by (cases rid) (auto simp: encode_request_def optional_ok_def MAX_HISTORY_REQUEST_ID_BYTES_def)
  then obtain r where r: "encode_request rid = Inr r" "length r \<le> 4104"
    by blast
  have "\<exists>c. encode_binding b = Inr c \<and> length c \<le> 4104"
    using assms by (cases b) (auto simp: encode_binding_def optional_ok_def MAX_HISTORY_BINDING_BYTES_def)
  then obtain c where c: "encode_binding b = Inr c" "length c \<le> 4104"
    by blast
  show thesis
    using assms r c by (intro that) (auto simp: put_bytes_def encode_placement_def)
qed

lemma write_calm:
  assumes "append_io io = IoNone" "sync_ok io" "\<not> fail_next_append log"
    "log_tail log + length frame < width64"
  shows "write_and_sync io frame (s, log) = Some (Inr (), (s, log\<lparr>log_file := set_len (log_tail log) (log_file log) @ frame,
    log_tail := log_tail log + length frame\<rparr>))"
  using assms by (simp add: write_and_sync_def append_frame_def log_sync_def checked_add_def Let_def)

lemma spec_apply_grows: "\<exists>vs. sp_versions (spec_apply E ev a) = sp_versions a @ vs"
  by (cases ev) auto

lemma spec_run_grows: "\<exists>vs. sp_versions (spec_run E evs a) = sp_versions a @ vs"
proof (induction evs arbitrary: a)
  case (Cons ev evs)
  then show ?case
    using spec_apply_grows [of E ev a] by (metis append.assoc spec_run_simps(2))
qed simp

context sequence_backend
begin

lemma preview_splice_answers:
  assumes r: "rel s a"
  obtains pr where "preview_splice E P h parent off del ins rid b s = Some (pr, s)"
    "\<And>v. pr = Inr (PreviewReplayed v) \<Longrightarrow>
      request_answer a rid (history_splice_digest E h parent off del ins b) = Some (Replayed v)"
    "pr = Inr PreviewRetired \<Longrightarrow>
      request_answer a rid (history_splice_digest E h parent off del ins b) = Some CommitOutcome.Retired"
proof -
  have "\<not> backend_is_physical (store_backend s)"
    using r ephemeral by (simp add: refines_def)
  from preview_splice_checks [OF this] that show thesis
    by (fastforce simp: result_iffs ledger_answer_iffs ledger_known [OF r] request_answer_def split: option.splits)
qed

lemma preview_fork_answers:
  assumes r: "rel s a"
  shows "preview_fork E s h p rid b = Inr (PreviewReplayed v) \<Longrightarrow>
      request_answer a rid (history_fork_digest E h p b) = Some (Replayed v)"
    and "preview_fork E s h p rid b = Inr PreviewRetired \<Longrightarrow>
      request_answer a rid (history_fork_digest E h p b) = Some CommitOutcome.Retired"
  by (auto simp: preview_fork_def Let_def result_iffs ledger_answer_iffs ledger_known [OF r] request_answer_def
      split: option.splits if_splits)

section \<open>Commits\<close>

lemma store_splice_outcome:
  fixes h parent off del ins rid b
  assumes sha: "sha_ok E" and r: "rel s a"
  defines "ev \<equiv> VersionSpliced h parent off del ins rid b"
  shows "\<exists>res. store_splice E P h parent off del ins rid b s = Some res \<and>
    commit_promise rel (lacks_space E exhausted) ev a (spec_apply E ev a)
      (request_answer a rid (history_splice_digest E h parent off del ins b))
      \<lparr>version_history = h, version_id = length (sp_versions a), version_parent = parent\<rparr> s res"
proof -
  obtain pr where pr: "preview_splice E P h parent off del ins rid b s = Some (pr, s)"
    "\<And>v. pr = Inr (PreviewReplayed v) \<Longrightarrow>
      request_answer a rid (history_splice_digest E h parent off del ins b) = Some (Replayed v)"
    "pr = Inr PreviewRetired \<Longrightarrow>
      request_answer a rid (history_splice_digest E h parent off del ins b) = Some CommitOutcome.Retired"
    using preview_splice_answers [OF r] by blast
  note fresh = preview_splice_fresh [OF r, of h parent off del ins rid b, folded ev_def]
  have no: "\<not> enabled ev a" if "request_answer a rid (history_splice_digest E h parent off del ins b) = Some oc" for oc
    using answered_disabled [OF that] by (simp add: ev_def)
  show ?thesis
  proof (cases "enabled ev a \<and> \<not> poisoned s")
    case True
    then have "preview_splice E P h parent off del ins rid b s =
        Some (Inr (PreviewFresh (splice_plan s h parent off del ins rid b a)), s)"
      using fresh by blast
    then show ?thesis
      using apply_splice_outcome [OF sha r, of h parent off del ins rid b] True
      by (auto simp: store_splice_def bindP_def commit_promise_def ev_def)
  next
    case False
    have stale: "pr \<noteq> Inr (PreviewFresh p)" for p
      using False fresh [of p s] pr(1) by auto
    note run = store_splice_def bindP_def commit_promise_def pr(1)
    show ?thesis
    proof (cases pr)
      case (Inl e)
      then show ?thesis
        using False by (auto simp: run)
    next
      case (Inr x)
      then show ?thesis
        using pr(2,3) stale no by (cases x) (simp_all add: run)
    qed
  qed
qed

text \<open>An append is the splice at the end of its parent.\<close>

lemma append_outcome:
  fixes h parent bytes rid b
  assumes sha: "sha_ok E" and r: "rel s a"
  defines "off \<equiv> length (sp_bytes a parent)"
  defines "ev \<equiv> VersionSpliced h parent off 0 bytes rid b"
  shows "\<exists>res. store_append E P h parent bytes rid b s = Some res \<and>
    commit_promise rel (lacks_space E exhausted) ev a (spec_apply E ev a)
      (request_answer a rid (history_splice_digest E h parent off 0 bytes b))
      \<lparr>version_history = h, version_id = length (sp_versions a), version_parent = parent\<rparr> s res"
proof (cases "append_offset s h parent")
  case (Inl e)
  then have "\<not> enabled ev a"
    using parent_usable [OF r, of h parent]
    by (auto simp: append_offset_def ev_def bindR_Inl_iff split: sum.splits)
  with Inl show ?thesis
    by (auto simp: store_append_def bindP_readP commit_promise_def)
next
  case (Inr n)
  then have "n = off"
    using parent_known [OF r, of h parent]
    by (auto simp: append_offset_def off_def sp_bytes_def result_iffs split: option.splits)
  with Inr have "store_append E P h parent bytes rid b s = store_splice E P h parent off 0 bytes rid b s"
    by (simp add: store_append_def bindP_readP)
  then show ?thesis
    using store_splice_outcome [OF sha r] by (simp add: ev_def)
qed

lemma fork_outcome:
  fixes h p rid b
  assumes sha: "sha_ok E" and r: "rel s a"
  defines "ev \<equiv> VersionForked h p rid b"
  shows "\<exists>res. store_fork E h p rid b s = Some res \<and>
    commit_promise rel (lacks_space E exhausted) ev a (spec_apply E ev a)
      (request_answer a rid (history_fork_digest E h p b))
      \<lparr>version_history = h, version_id = length (sp_versions a), version_parent = Some p\<rparr> s res"
proof -
  note fresh = preview_fork_fresh [OF r, of h p rid b, folded ev_def]
  have no: "\<not> enabled ev a" if "request_answer a rid (history_fork_digest E h p b) = Some oc" for oc
    using answered_disabled [OF that] by (simp add: ev_def)
  show ?thesis
  proof (cases "enabled ev a \<and> \<not> poisoned s")
    case True
    then have "preview_fork E s h p rid b = Inr (PreviewFresh (fork_plan s h p rid b a))"
      using fresh by blast
    then show ?thesis
      using apply_fork_outcome [OF sha r, of h p rid b] True
      by (auto simp: store_fork_def bindP_readP commit_promise_def ev_def)
  next
    case False
    have stale: "preview_fork E s h p rid b \<noteq> Inr (PreviewFresh q)" for q
      using False fresh [of q] by auto
    note run = store_fork_def bindP_readP commit_promise_def
    show ?thesis
    proof (cases "preview_fork E s h p rid b")
      case (Inl e)
      then show ?thesis
        using False by (auto simp: run)
    next
      case (Inr x)
      then show ?thesis
        using preview_fork_answers [OF r, of h p rid b] stale no by (cases x) (simp_all add: run)
    qed
  qed
qed

section \<open>Expiration, retirement and creation\<close>

lemma expire_outcome:
  assumes sha: "sha_ok E" and r: "rel s a" and live: "\<not> poisoned s"
  shows "\<exists>res s'. store_expire E v s = Some (res, s') \<and> \<not> poisoned s' \<and>
    (if v \<in> sp_expired a then res = Inr AlreadyExpired \<and> s' = s
     else if v < length (sp_versions a) then
       res = Inr ExpireOutcome.Expired \<and> rel s' (spec_apply E (VersionDropped v) a) \<or>
       (\<exists>e. res = Inl e \<and> s' = s \<and> lacks_space E exhausted e)
     else (\<exists>e. res = Inl e) \<and> s' = s)"
proof (cases "v < length (sp_versions a)")
  case False
  then have "v \<notin> sp_expired a"
    using r by (auto simp: refines_def spec_inv_def catalogue_inv_def)
  moreover obtain e where "preview_expire E s v = Inl e"
    using False preview_expire_enabled [OF r] by (cases "preview_expire E s v") auto
  ultimately show ?thesis
    using False live by (simp add: store_expire_def bindP_readP)
next
  case True
  note known = preview_expire_known [OF r True live]
  show ?thesis
  proof (cases "v \<in> sp_expired a")
    case True
    then show ?thesis
      using known live by (simp add: store_expire_def bindP_readP)
  next
    case False
    then have en: "enabled (VersionDropped v) a"
      using True by simp
    show ?thesis
    proof (cases "preview_expire E s v")
      case (Inl e)
      then have "lacks_space E exhausted e"
        using known False by (auto simp: bindR_Inl_iff intro: reserve_Inl)
      with Inl False True live show ?thesis
        by (simp add: store_expire_def bindP_readP)
    next
      case (Inr x)
      then have "x = ExpireFresh (expire_plan s v a)"
        using known False by (simp add: result_iffs)
      with Inr False True live apply_expire_outcome [OF r en] dropped_rel [OF sha r en] show ?thesis
        by (simp add: store_expire_def bindP_readP)
    qed
  qed
qed

lemma retire_outcome:
  assumes sha: "sha_ok E" and r: "rel s a" and live: "\<not> poisoned s"
  shows "\<exists>res s'. retire_request E rid s = Some (res, s') \<and> \<not> poisoned s' \<and>
    (if enabled (RequestRetired rid) a then
       res = Inr () \<and> rel s' (spec_apply E (RequestRetired rid) a) \<or>
       (\<exists>e. res = Inl e \<and> s' = s \<and> lacks_space E exhausted e)
     else (\<exists>e. res = Inl e) \<and> s' = s)"
proof -
  have tab: "hget (active_requests s) = sp_active a" "hget (retired_requests s) = sp_retired a"
    and dj: "sp_active a rid \<noteq> None \<Longrightarrow> sp_retired a rid = None"
    using r by (auto simp: refines_def tabled_def spec_inv_def ledger_inv_def ledger_upto_def)
  from retire_request_cases [of E rid s] show ?thesis
  proof (elim disjE exE)
    fix e
    assume e: "retire_request E rid s = Some (Inl e, s)"
    then have "lacks_space E exhausted e" if "enabled (RequestRetired rid) a"
      using that dj live unfolding retire_request_def
      by (auto simp: tab validate_request_eq require_unpoisoned_def bindR_Inl_iff split: sum.splits intro: reserve_Inl)
    with e live show ?thesis
      by auto
  next
    fix t
    assume t: "retire_request E rid s = Some (Inr (), t)"
    then have "enabled (RequestRetired rid) a" and s': "t = s\<lparr>active_requests := hdel rid (active_requests s),
      retired_requests := hput rid (request_digest (the (sp_active a rid))) (retired_requests s)\<rparr>"
      using retire_request_ok [OF r] by blast+
    with t retired_rel [OF sha r] live show ?thesis
      by simp
  qed
qed

lemma create_outcome:
  assumes sha: "sha_ok E" and r: "rel s a" and live: "\<not> poisoned s"
  shows "\<exists>res s'. create_history_with_binding E x s = Some (res, s') \<and> \<not> poisoned s' \<and>
    (if \<not> valid_key x then (\<exists>e. res = Inl e) \<and> s' = s
     else if x \<in> ran (sp_hbind a) then (\<exists>h. res = Inr h \<and> sp_hbind a h = Some x) \<and> s' = s
     else if Suc (sp_histories a) < width64 then
       res = Inr (sp_histories a) \<and> rel s' (spec_apply E (HistoryCreated (Some x)) a) \<or>
       (\<exists>e. res = Inl e \<and> s' = s \<and> lacks_space E exhausted e)
     else (\<exists>e. res = Inl e) \<and> s' = s)"
proof (cases "valid_key x")
  case False
  then have "\<exists>e. validate_binding x = Inl e"
    using validate_iffs(2) [of x] by (cases "validate_binding x") auto
  with False live show ?thesis
    by (auto simp: create_history_with_binding_def require_unpoisoned_def)
next
  case key: True
  then have v: "validate_binding x = Inr ()"
    by (simp add: validate_iffs)
  have next_id: "next_history_id s = sp_histories a"
    using r live by (simp add: refines_def tabled_def)
  show ?thesis
  proof (cases "bound_history s x")
    case (Some h)
    then have "sp_hbind a h = Some x"
      using bound_known [OF r] by simp
    with Some key v live show ?thesis
      by (auto simp: create_history_with_binding_def require_unpoisoned_def intro: ranI)
  next
    case None
    then have new: "x \<notin> ran (sp_hbind a)"
      using bound_known [OF r, of x] by (auto simp: ran_def)
    note run = create_history_with_binding_def require_unpoisoned_def v None next_id
    show ?thesis
    proof (cases "Suc (sp_histories a) < width64")
      case False
      then have "\<exists>e. create_history_with_binding E x s = Some (Inl e, s)"
        using live by (auto simp: run bindR_def checked_add_def split: sum.split)
      with key new False live show ?thesis
        by auto
    next
      case True
      then have "enabled (HistoryCreated (Some x)) a"
        using key new by (simp add: valid_optional_def)
      from created_rel [OF sha r this live] show ?thesis
        using key new True live
        by (auto simp: run created_def checked_add_def bindR_Inl_iff result_iffs split: sum.split intro: reserve_Inl)
    qed
  qed
qed

section \<open>Known requests\<close>

lemma ledger_lookup_known:
  assumes r: "rel s a" and known: "q \<in> set (sp_order a)"
  shows "ledger_lookup s (Some q) dg = (case sp_active a q of
      Some x \<Rightarrow> if request_digest x = dg then Inr (LedgerReplayed (fst (sp_versions a ! request_version x)))
        else Inl HistoryError.RequestConflict
    | None \<Rightarrow> if sp_retired a q = Some dg then Inr LedgerRetired else Inl HistoryError.RequestConflict)"
proof -
  have v: "request_version x < length (sp_versions a)" if "sp_active a q = Some x" for x
    using r known that by (auto simp: refines_def spec_inv_def ledger_inv_def ledger_upto_def)
  have key: "valid_key q" and dom: "sp_active a q \<noteq> None \<or> sp_retired a q \<noteq> None"
    using r known by (auto simp: refines_def spec_inv_def ledger_inv_def ledger_upto_def)
  have tab: "hget (active_requests s) = sp_active a" "hget (retired_requests s) = sp_retired a"
    using r by (auto simp: refines_def tabled_def)
  have "version_record s (request_version x) = Inr (versions s ! request_version x)"
    "record_version (versions s ! request_version x) = fst (sp_versions a ! request_version x)" if "sp_active a q = Some x" for x
    using version_record_known [OF r] rel_versions(2) [OF r] v that by auto
  then show ?thesis
    using key dom by (auto simp: ledger_lookup_def validate_request_eq tab split: option.split)
qed

lemma splice_known:
  assumes r: "rel s a" and live: "\<not> poisoned s" and ok: "splice_operands_ok a h parent off del ins b"
    and known: "q \<in> set (sp_order a)"
  shows "store_splice E P h parent off del ins (Some q) b s =
    Some (ledger_reply a q (history_splice_digest E h parent off del ins b), s)"
proof -
  let ?dg = "history_splice_digest E h parent off del ins b"
  have phys: "\<not> backend_is_physical (store_backend s)" and hist: "set (histories s) = {..<sp_histories a}"
    using r ephemeral by (auto simp: refines_def tabled_def)
  have "\<exists>root. parent_coordinates s h parent = Inr (root, length (sp_bytes a parent))"
    using parent_known [OF r, of h parent] ok by (auto simp: splice_operands_ok_def sp_bytes_def split: option.splits)
  then obtain root where root: "parent_coordinates s h parent = Inr (root, length (sp_bytes a parent))" ..
  have len: "splice_coordinates parent (length (sp_bytes a parent)) off del ins =
      Inr (length (edit (sp_bytes a parent) off del ins))"
    using ok by (simp add: coordinates_edit_ok splice_operands_ok_def)
  have "validate_optional_binding b = Inr ()" "h \<in> set (histories s)"
    using ok hist by (auto simp: validate_iffs splice_operands_ok_def)
  then have "preview_splice E P h parent off del ins (Some q) b s = Some (bindR (ledger_lookup s (Some q) ?dg) (\<lambda>l.
      case l of LedgerReplayed v \<Rightarrow> Inr (PreviewReplayed v) | LedgerRetired \<Rightarrow> Inr PreviewRetired
      | LedgerUnknown \<Rightarrow> Inl HistoryError.RequestConflict), s)"
    unfolding preview_splice_checks [OF phys] root len ledger_lookup_known [OF r known]
    using live by (simp add: root len require_unpoisoned_def split: option.split)
  then show ?thesis
    unfolding ledger_lookup_known [OF r known]
    by (simp add: store_splice_def bindP_def ledger_reply_def request_answer_def split: option.split)
qed

text \<open>The ledger right after a commit.\<close>

lemma committed_receipt:
  assumes inv: "ledger_inv a" and fresh: "sp_active a r = None" "sp_retired a r = None"
  shows "sp_active (sp_commit h parent bs (Some r) b dg a) r = Some \<lparr>request_digest = dg, request_version = length (sp_versions a)\<rparr>"
    and "r \<in> set (sp_order (sp_commit h parent bs (Some r) b dg a))"
proof -
  have new: "r \<notin> set (sp_order a)"
    using inv fresh by (auto simp: ledger_inv_def ledger_upto_def)
  have order: "sp_order a = hd (sp_order a) # tl (sp_order a)" "hd (sp_order a) \<noteq> r" if "length (sp_order a) \<ge> 4096"
    using that new by (cases "sp_order a"; auto)+
  show "sp_active (sp_commit h parent bs (Some r) b dg a) r = Some \<lparr>request_digest = dg, request_version = length (sp_versions a)\<rparr>"
    using order by (cases b; cases "sp_order a"; auto simp: sp_commit_def sp_receipt_def sp_forget_def Let_def)
  show "r \<in> set (sp_order (sp_commit h parent bs (Some r) b dg a))"
    using order by (cases b; cases "sp_order a"; auto simp: sp_commit_def sp_receipt_def sp_forget_def Let_def)
qed

lemma commit_operands:
  assumes "splice_operands_ok a h parent off del ins b"
  shows "splice_operands_ok (sp_commit h' p' bs rid b' dg a) h parent off del ins b"
proof -
  have "sp_bytes (sp_commit h' p' bs rid b' dg a) parent = sp_bytes a parent"
    using assms by (auto simp: splice_operands_ok_def sp_bytes_def nth_append split: option.split)
  with assms show ?thesis
    by (auto simp: splice_operands_ok_def nth_append)
qed

lemma splice_twice:
  assumes sha: "sha_ok E" and r: "rel s a"
    and run: "store_splice E P h parent off del ins (Some q) b s = Some (Inr (Committed v), s')"
  shows "store_splice E P h parent off del ins (Some q) b s' = Some (Inr (Replayed v), s')"
proof -
  let ?ev = "VersionSpliced h parent off del ins (Some q) b" and ?dg = "history_splice_digest E h parent off del ins b"
  let ?a = "sp_commit h parent (edit (sp_bytes a parent) off del ins) (Some q) b ?dg a"
  have v: "v = \<lparr>version_history = h, version_id = length (sp_versions a), version_parent = parent\<rparr>"
    and en: "enabled ?ev a" and r': "rel s' ?a" and live: "\<not> poisoned s'"
    using store_splice_outcome [OF sha r, of h parent off del ins "Some q" b] run by (auto simp: commit_promise_def)
  have led: "ledger_inv a" and fresh: "sp_active a q = None" "sp_retired a q = None"
    using r en by (auto simp: refines_def spec_inv_def commit_enabled_def)
  note receipt = committed_receipt [OF led fresh, of h parent "edit (sp_bytes a parent) off del ins" b ?dg]
  have "splice_operands_ok a h parent off del ins b"
    using en by (auto simp: splice_operands_ok_def commit_enabled_def usable_parent_def)
  from splice_known [OF r' live commit_operands [OF this] receipt(2)] show ?thesis
    by (simp add: ledger_reply_def request_answer_def receipt(1) v)
qed

section \<open>Committed versions\<close>

lemma read_kept:
  assumes r: "rel s a" and r': "rel s' a'" and more: "sp_versions a' = sp_versions a @ vs"
    and read: "store_read E P v off len [] s = Some (Inr bs, t)"
  shows "\<exists>t'. store_read E P v off len [] s' = Some (if version_id v \<in> set (expired_versions s')
    then Inl HistoryError.VersionExpired else Inr bs, t')"
proof -
  have "v \<in> fst ` set (sp_versions a)"
    using committed_unlisted [OF r, of v] read by (force simp: store_read_def run_simps split: sum.splits)
  then obtain i src where i: "i < length (sp_versions a)" "sp_versions a ! i = (v, src)"
    by (auto simp: in_set_conv_nth)
  then have i': "i < length (sp_versions a')" "sp_versions a' ! i = (v, src)"
    by (simp_all add: more nth_append)
  have gone: "set (expired_versions s') = sp_expired a'"
    using r' by (simp add: refines_def tabled_def)
  show ?thesis
    using read_outcome [OF r i, of off len "[]"] read_outcome [OF r' i', of off len "[]"] read
    by (auto simp: gone committed_listed(1) [OF r i] split: if_splits)
qed

lemma run_grows:
  assumes sha: "sha_ok E" and inv: "durable_inv s log evs d"
    and run: "run_op E P io op (s, log) = Some (res, (s', log'))" and fits: "length (log_file log') < width64"
  obtains a a' vs where "rel s a" "rel s' a'" "sp_versions a' = sp_versions a @ vs"
proof -
  let ?a = "spec_run E evs spec_new"
  have r: "rel s ?a"
    using inv by (simp add: durable_inv_def)
  have "\<exists>more. rel s' (spec_run E (evs @ more) spec_new)"
    using run_step [OF sha inv run fits]
    by (cases res) (auto simp: step_ok_def durable_inv_def simp del: spec_run_simps intro: exI [of _ "[]"])
  then obtain more where r': "rel s' (spec_run E more ?a)"
    by auto
  obtain vs where "sp_versions (spec_run E more ?a) = sp_versions ?a @ vs"
    using spec_run_grows by blast
  from that [OF r r' this] show thesis .
qed

text \<open>The catalogue itself only ever grows.\<close>

lemma catalogue_prefix:
  assumes "rel s a" "rel s' a'" "sp_versions a' = sp_versions a @ vs"
  shows "all_versions s' = all_versions s @ map fst vs"
proof -
  have "all_versions t = map fst (sp_versions c)" if "rel t c" for t c
    using rel_versions(1,2) [OF that] by (auto simp: all_versions_def intro: nth_equalityI)
  with assms show ?thesis
    by simp
qed

end

section \<open>Progress\<close>

context roomy_backend
begin

lemma apply_splice_room:
  assumes sha: "sha_ok E" and r: "rel s a" and en: "enabled (VersionSpliced h parent off del ins rid b) a"
    and granted: "\<forall>m n. try_reserve E m n" and room: "room_for (store_backend s) ins"
  shows "\<exists>s'. apply_prepared_splice E P (splice_plan s h parent off del ins rid b a) False s =
    Some (Inr (Committed \<lparr>version_history = h, version_id = length (sp_versions a), version_parent = parent\<rparr>), s')"
proof -
  let ?root = "Option.bind parent (\<lambda>p. record_root (versions s ! p))"
  have e: "\<forall>p. parent = Some p \<longrightarrow> usable_parent a h p" "edit_ok (parent = None) (sp_bytes a parent) off del ins"
    using en by simp_all
  have ok: "content_ok (store_backend s)" and next_id: "next_version_id s = length (sp_versions a)"
    using r by (auto simp: refines_def tabled_def)
  have "edit_ok (?root = None) (sp_bytes a parent) off del ins"
    using e(2) parent_denotes(2) [OF r e(1)] by simp
  from room_law [OF ok parent_denotes(1) [OF r e(1)] this room granted]
  obtain res b' where "backendP (seam_splice E P ?root off del ins) s = Some (Inr res, s\<lparr>store_backend := b'\<rparr>)"
    by (auto simp: backendP_def)
  moreover have "reserve_catalogue E rid b = Inr ()"
    using granted by (simp add: reserve_catalogue_def reserve_def reserve_when_def)
  ultimately show ?thesis
    by (simp add: apply_prepared_splice_def splice_root_of_def splice_plan_def bindP_readP next_id bindP_modifyP Let_def)
qed

lemma splice_progress:
  fixes h parent off del ins rid b
  assumes sha: "sha_ok E" and inv: "durable_inv s log evs d" and live: "\<not> poisoned s"
    and room: "\<forall>m n. try_reserve E m n" and io: "append_io io = IoNone" "sync_ok io" "\<not> fail_next_append log"
    and fits: "length (log_file log) + length ins + 8346 < width64"
    and space: "room_for (store_backend s) ins"
  defines "a \<equiv> spec_run E evs spec_new" and "ev \<equiv> VersionSpliced h parent off del ins rid b"
  defines "v \<equiv> \<lparr>version_history = h, version_id = length (sp_versions a), version_parent = parent\<rparr>"
  assumes en: "enabled ev a"
  shows "\<exists>s' log'. splice_durable E P io h parent off del ins rid b (s, log) = Some (Inr (Committed v), (s', log')) \<and>
    length (log_file log') < width64"
proof -
  let ?p = "splice_plan s h parent off del ins rid b a"
  have r: "rel s a" and sinv: "spec_inv a"
    using inv by (auto simp: durable_inv_def refines_def a_def)
  obtain bodies where at: "log_at E log bodies"
    using inv live by (auto simp: durable_inv_def)
  have ok: "record_ok (record_of E a ev)"
    by (rule record_of_ok [OF sha sinv en])
  obtain body where body: "encode_record_body (record_of E a ev) = Inr body" "length body \<le> length ins + 8290"
    by (rule splice_body [OF ok [unfolded ev_def record_of.simps]]) (simp add: ev_def)
  let ?frame = "frame_of E body"
  have small: "length body + 56 < width64"
    using body(2) fits by simp
  then have "encode_history_log_record E (record_of E a ev) = Inr body" "encode_history_log_frame E body = Inr ?frame"
    using body room encode_record_iff [OF ok, of E] encode_frame_iff by simp_all
  then have enc: "encode_frame_of E (record_of E a ev) = Inr ?frame"
    by (simp add: encode_frame_of_def)
  have tail: "log_tail log \<le> length (log_file log)"
    using at by (auto simp: log_at_def)
  have len: "length ?frame = length body + 56"
    by (rule length_frame_of [OF sha])
  have pre: "preview_splice E P h parent off del ins rid b s = Some (Inr (PreviewFresh ?p), s)"
    using preview_splice_fresh [OF r] en live by (auto simp: ev_def)
  have none: "ps_physical ?p = None" and rec: "splice_log_record ?p None = record_of E a ev"
    by (simp_all add: splice_plan_def splice_log_record_def ev_def)
  let ?log = "log\<lparr>log_file := set_len (log_tail log) (log_file log) @ ?frame, log_tail := log_tail log + length ?frame\<rparr>"
  have wrote: "write_and_sync io ?frame (s, log) = Some (Inr (), (s, ?log))"
    using tail len body(2) fits by (intro write_calm io) simp
  have size: "length (log_file ?log) < width64"
    using tail len body(2) fits by (simp add: set_len_def)
  have run: "splice_durable E P io h parent off del ins rid b (s, log) =
      after_barrierP (apply_prepared_splice E P ?p False) (s, ?log)"
    using live wrote
    by (simp add: splice_durable_def require_unpoisoned_durable_def bindP_readP bindP_rejectedP pre none enc rec bindP_liftP
        bindP_def [of "commit_physical_durable P None"] bindP_def [of "write_and_sync io ?frame"]
        commit_physical_durable_def placement_of_def)
  from apply_splice_room [OF sha r en [unfolded ev_def] room space] size show ?thesis
    by (auto simp: run after_barrierP_def v_def)
qed

end

end
