(* ===== verification/History_Properties.thy ===== *)
theory History_Properties
  imports History_Operations
begin

text \<open>
  The properties of the history store over the in-memory backend, and of its durable form.  Each
  is an instance of a result proved over the backend contract.
\<close>

section \<open>Instances for the in-memory backend\<close>

definition embeds :: "env \<Rightarrow> 'p PersistentHistoryStore \<Rightarrow> HistorySpec \<Rightarrow> bool" where
  "embeds E s a \<longleftrightarrow> refines (seam_ok E) (memory_denotes E) s a"

definition out_of_space :: "env \<Rightarrow> HistoryError \<Rightarrow> bool" where
  "out_of_space E e \<longleftrightarrow> lacks_space E (memory_exhausted E) e"

lemma seam_new: "sha_ok E \<Longrightarrow> seam_ok E BalancedSequence_new"
  by (simp add: seam_ok_def memory_ok_def BalancedSequence_new_def empty_wf)

lemma embeds_sha: "embeds E s a \<Longrightarrow> sha_ok E"
  by (simp add: embeds_def refines_def seam_ok_def)

lemma embeds_inv: "embeds E s a \<Longrightarrow> spec_inv a"
  by (simp add: embeds_def refines_def)

lemma embeds_fold: "embeds E = refines (seam_ok E) (memory_denotes E)" "out_of_space E = lacks_space E (memory_exhausted E)"
  by (simp_all add: fun_eq_iff embeds_def out_of_space_def)

text \<open>Only the hash of an environment matters for events, records and frames.\<close>

lemma same_hash:
  assumes "sha256 E' = sha256 E"
  shows "spec_apply E' = spec_apply E" "record_of E' = record_of E" "frame_of E' = frame_of E" "sha_ok E' = sha_ok E"
proof -
  have d: "history_splice_digest E' = history_splice_digest E" "history_fork_digest E' = history_fork_digest E"
    "frame_digest E' = frame_digest E"
    using assms by (simp_all add: fun_eq_iff history_splice_digest_def history_fork_digest_def frame_digest_def)
  show "spec_apply E' = spec_apply E"
  proof (intro ext)
    fix ev a
    show "spec_apply E' ev a = spec_apply E ev a" by (cases ev) (simp_all add: d)
  qed
  show "record_of E' = record_of E"
  proof (intro ext)
    fix a ev
    show "record_of E' a ev = record_of E a ev" by (cases ev) (simp_all add: d)
  qed
  show "frame_of E' = frame_of E" "sha_ok E' = sha_ok E"
    using assms by (simp_all add: fun_eq_iff frame_of_def d sha_ok_def)
qed

lemma same_hash_runs:
  assumes "sha256 E' = sha256 E"
  shows "spec_run E' evs a = spec_run E evs a" "records_of E' a evs = records_of E a evs"
    "all_enabled E' a evs = all_enabled E a evs" "log_of E' bodies = log_of E bodies" "torn_tail E' t = torn_tail E t"
proof -
  show "records_of E' a evs = records_of E a evs" "all_enabled E' a evs = all_enabled E a evs"
    by (induction evs arbitrary: a) (simp_all add: same_hash [OF assms])
qed (simp_all add: spec_run_def log_of_def torn_tail_def same_hash [OF assms])

section \<open>A sample store\<close>

definition no_physical :: "unit PhysicalContent" where
  "no_physical = \<lparr>content_arena = \<lparr>arena_payload_len = \<lambda>_. 0, arena_node_count = \<lambda>_. 0,
       arena_load_node = \<lambda>_ _. Inl (V2AvlError.Invalid ''none''), arena_read_payload = \<lambda>_ _ _. Inl (V2AvlError.Invalid ''none''),
       arena_append_payload = \<lambda>p _. (Inl (V2AvlError.Invalid ''none''), p),
       arena_push_node = \<lambda>p _. (Inl (V2AvlError.Invalid ''none''), p), arena_truncate = \<lambda>p _ _. p\<rparr>,
     content_generation = \<lambda>_. 0, committed_payload_end = \<lambda>_. 0, committed_node_count = \<lambda>_. 0,
     load_record = \<lambda>_ _. Inl (V2AvlError.Invalid ''none''), load_all_records = \<lambda>_. Inr [], read_all_payload = \<lambda>_. Inr [],
     content_heal_for_write = \<lambda>p. (Inr (), p), append_payload_delta = \<lambda>_ p. (Inr (), p),
     append_node_delta = \<lambda>_ p. (Inr (), p), sync_content = \<lambda>p. (Inr (), p), rollback_to_committed = \<lambda>p. (True, p),
     adopt_frontiers = \<lambda>_ _ p. p, check_files_cover_frontiers = \<lambda>_. Inr (),
     prepare_physical_delta = \<lambda>_ _ _ _ _ _. Some (Inl (V2AvlError.Invalid ''none'')),
     validate_committed_delta = \<lambda>_ _ _ _ _ _ _ _ _. Inl (V2AvlError.Invalid ''none''),
     compact_physical_generation = \<lambda>_ _ _. Inl (V2AvlError.Invalid ''none'')\<rparr>"

definition sample_version :: Version where
  "sample_version = \<lparr>version_history = 0, version_id = 0, version_parent = None\<rparr>"

definition sample_store :: "unit PersistentHistoryStore" where
  "sample_store = PersistentHistoryStore_new\<lparr>store_backend := \<lparr>backend = Memory sample_seq, work = no_work\<rparr>,
     histories := [0], next_history_id := 1, next_version_id := 1,
     versions := [\<lparr>record_version = sample_version, record_root = Some (seam_root sample_root), record_len = 3\<rparr>]\<rparr>"

definition sample_spec :: HistorySpec where
  "sample_spec = spec_new\<lparr>sp_histories := 1, sp_versions := [(sample_version, [10, 20, 30])]\<rparr>"

lemma sample_embeds: "embeds sample_env sample_store sample_spec"
proof -
  have "arena_denotes sample_env sample_seq (seam_root sample_root) [10, 20, 30]"
    using arena_denotesI [OF sample_rep] by (simp add: seam_root_def)
  then have "stored (memory_denotes sample_env (store_backend sample_store)) (versions sample_store) sample_spec"
    by (simp add: stored_def sample_store_def sample_spec_def memory_denotes_def)
  moreover have "spec_inv sample_spec"
    by (simp add: spec_inv_def catalogue_inv_def ledger_inv_def ledger_upto_def binding_inv_def sample_spec_def
        spec_new_def sample_version_def width64_def)
  moreover have "tabled sample_store sample_spec"
    by (simp add: tabled_def sample_store_def sample_spec_def PersistentHistoryStore_new_def spec_new_def fun_eq_iff lessThan_Suc)
  moreover have "seam_ok sample_env (store_backend sample_store)"
    using sample_wf sample_env_ok by (simp add: seam_ok_def memory_ok_def sample_store_def)
  ultimately show ?thesis
    by (simp add: embeds_def refines_def)
qed

lemma sample_live: "\<not> poisoned sample_store"
  by (simp add: sample_store_def PersistentHistoryStore_new_def)

text \<open>A run: one history is created, with every call of the operating system succeeding.\<close>

definition calm :: IoChoice where
  "calm = \<lparr>append_io = IoNone, sync_ok = True\<rparr>"

lemma sample_encoded: "\<exists>frame. encode_frame_of sample_env (CreateHistory 0 None) = Inr frame \<and> length frame = 73"
proof -
  let ?body = "[RECORD_CREATE_HISTORY] @ le_bytes 8 0 @ le_bytes 8 0"
  have "encode_history_log_record sample_env (CreateHistory 0 None) = Inr ?body"
    by (simp add: encode_history_log_record_def reserve_def sample_env_def checked_add_def width64_def optional_len_def
        encode_binding_def)
  moreover have "encode_history_log_frame sample_env ?body = Inr (frame_of sample_env ?body)"
    by (simp add: encode_frame_iff) (simp add: width64_def sample_env_def)
  ultimately show ?thesis
    using length_frame_of [OF sample_env_ok, of ?body] by (simp add: encode_frame_of_def)
qed

lemma sample_run:
  fixes P :: "'p PhysicalContent"
  obtains s :: "'p PersistentHistoryStore" and log
  where "durable_run sample_env P (s, log) [HistoryCreated None] 73" "length (log_file log) = 73" "\<not> poisoned s"
    "store_backend s = BalancedSequence_new" "\<not> fail_next_append log" "next_version_id s = 0"
proof -
  obtain frame where f: "encode_frame_of sample_env (CreateHistory 0 None) = Inr frame" "length frame = 73"
    using sample_encoded by blast
  let ?new = "PersistentHistoryStore_new :: 'p PersistentHistoryStore"
  let ?s = "?new\<lparr>next_history_id := 1, histories := [0]\<rparr>" and ?log = "\<lparr>log_file = frame, log_tail = 73, fail_next_append = False\<rparr>"
  have room: "try_reserve sample_env m n" for m n
    by (simp add: sample_env_def)
  have "run_op sample_env P calm (OpCreate None) (?new, empty_log) = Some (Inr (ReplyHistory 0), (?s, ?log))"
    using f room
    by (simp add: replyP_def create_history_durable_def begin_durable_history_create_def require_unpoisoned_durable_def
        readP_def modifyP_def PersistentHistoryStore_new_def validate_optional_binding_def reserve_def reserve_when_def
        checked_add_def width64_def write_and_sync_def append_frame_def calm_def empty_log_def set_len_def log_sync_def
        Let_def bindP_def finish_durable_history_create_def after_barrierP_def finish_history_create_def)
  from durable_run.answered [OF durable_run.start this] f(2) show thesis
    by (intro that [of ?s ?log]) (simp_all add: width64_def PersistentHistoryStore_new_def)
qed

lemma seam_insert:
  assumes "backend b = Memory q" "length (seq_payload q) + 1 < width64" "length (seq_nodes q) + 1 < width64"
  shows "\<exists>res b'. seam_splice sample_env no_physical None 0 0 [7] b = Some (Inr res, b')"
  using leaf_insert [OF assms(2,3)] assms(1)
  by (auto simp: seam_splice_def run_simps resolve_option_def try_from_def checked_sub_def checked_add_def width64_def
      memory_splice_def backend_is_physical_def bindP_def readP_def modifyP_def Let_def)

lemma root_inserted:
  assumes "backend (store_backend s) = Memory q" "length (seq_payload q) + 1 < width64" "length (seq_nodes q) + 1 < width64"
    "next_version_id s = length (sp_versions a)"
  shows "\<exists>v s'. apply_prepared_splice sample_env no_physical
    (seam.splice_plan sample_env s h None 0 0 [7] rid b a) False s = Some (Inr (Committed v), s')"
proof -
  have "reserve_catalogue sample_env r b = Inr ()" for r b
    by (simp add: reserve_catalogue_def reserve_def reserve_when_def sample_env_def)
  with seam_insert [OF assms(1-3)] assms(4) show ?thesis
    by (auto simp: bindP_def readP_def modifyP_def apply_prepared_splice_def splice_root_of_def
        seam.splice_plan_def backendP_def Let_def)
qed

section \<open>The durable store\<close>

text \<open>
  C2.  Refinement of the abstract history by the durable store.  However operations, I/O failures
  and crashes with reopening interleave, the state of the store implements the abstract history
  obtained from the acknowledged events, and each of these was allowed when it happened.
\<close>

theorem durable_run_refines:
  assumes "sha_ok E" and "durable_run E P (s, log) evs d"
  shows "all_enabled E spec_new evs \<and> embeds E s (spec_run E evs spec_new)"
  using seam.run_inv [OF assms(1) seam_new [OF assms(1)] assms(2)] by (simp add: seam.durable_inv_def embeds_def)

theorem durable_run_refines_witness:
  "\<exists>s log. durable_run sample_env no_physical (s, log) [HistoryCreated None] 73 \<and>
     embeds sample_env s (spec_run sample_env [HistoryCreated None] spec_new)"
proof -
  obtain s log where run: "durable_run sample_env no_physical (s, log) [HistoryCreated None] 73"
    by (rule sample_run)
  with durable_run_refines [OF sample_env_ok run] show ?thesis
    by blast
qed

text \<open>
  C1.  Crash recovery.  Let a crash keep the bytes of the log that were reported durable and any
  number of the bytes after them.  Recovery then returns, in whatever memory the new process has:
  it either reports that memory is short, or opens a live store whose history consists of all
  acknowledged events, plus at most the one event whose commit was in flight when the writer was
  poisoned.  Nothing acknowledged is lost, and nothing that was refused reappears.
\<close>

theorem crash_recovery:
  assumes "sha_ok E" and "durable_run E P (s, log) evs d" and "d \<le> n" and "sha256 E' = sha256 E"
  shows "\<exists>r. recover_history_store E' P (take n (log_file log)) = Some r \<and> (case r of
      Inl e \<Rightarrow> out_of_space E' e
    | Inr s' \<Rightarrow> \<not> poisoned s' \<and> (\<exists>evs'. embeds E' s' (spec_run E evs' spec_new) \<and> all_enabled E spec_new evs' \<and>
        (evs' = evs \<or> poisoned s \<and> (\<exists>ev. evs' = evs @ [ev]))))"
proof -
  have inv: "seam.durable_inv E s log evs d"
    using seam.run_inv [OF assms(1) seam_new [OF assms(1)] assms(2)] by simp
  note hash = same_hash [OF assms(4)] same_hash_runs [OF assms(4)]
  obtain evs' bodies tail where f: "take n (log_file log) = log_of E bodies @ tail"
    "list_all2 frame_ok (records_of E spec_new evs') bodies" "all_enabled E spec_new evs'"
    "length (log_of E bodies @ tail) < width64" and torn: "torn_tail E tail"
    and evs': "evs' = evs \<or> poisoned s \<and> (\<exists>ev. evs' = evs @ [ev])"
    by (rule seam.crash_file [OF inv assms(3)])
  have sha: "sha_ok E'"
    using assms(1) hash by simp
  have probe: "tail = [] \<or> probe_history_log_frame E' tail = Inr Torn"
    using torn_tail_probe [OF sha] torn hash by simp
  have "(\<exists>e. recover_history_store E' P (log_of E bodies @ tail) = Some (Inl e) \<and> out_of_space E' e) \<or>
      (\<exists>s'. recover_history_store E' P (log_of E bodies @ tail) = Some (Inr s') \<and>
        embeds E' s' (spec_run E evs' spec_new) \<and> \<not> poisoned s')"
    using seam.recover_outcome [OF sha seam_new [OF sha], of evs' bodies tail P] f(2-4) probe
    unfolding out_of_space_def embeds_def hash by blast
  then show ?thesis
    unfolding f(1) using evs' f(3) by (elim disjE exE conjE) (intro exI conjI, assumption, auto simp del: spec_run_simps all_enabled_append)+
qed

theorem crash_recovery_witness:
  "\<exists>s log r. durable_run sample_env no_physical (s, log) [HistoryCreated None] 73 \<and>
     recover_history_store sample_env no_physical (take 73 (log_file log)) = Some r \<and>
     (case r of Inl e \<Rightarrow> out_of_space sample_env e
      | Inr s' \<Rightarrow> embeds sample_env s' (spec_run sample_env [HistoryCreated None] spec_new))"
proof -
  obtain s :: "unit PersistentHistoryStore" and log
    where run: "durable_run sample_env no_physical (s, log) [HistoryCreated None] 73" and live: "\<not> poisoned s"
    by (rule sample_run)
  from crash_recovery [OF sample_env_ok run order_refl refl] run live show ?thesis
    by (fastforce split: sum.splits)
qed

section \<open>Operations\<close>

text \<open>
  C6.  A splice, on every branch.  It always returns.  A fresh edit that the abstract history
  allows is committed as the next version of its history, and the new state implements exactly
  that event, unless memory runs out.  A known request answers with the version it committed, or
  that it is retired, and changes nothing.  Every error leaves the store exactly as it was.
\<close>

theorem store_splice_refines:
  assumes "embeds E s a"
  shows "\<exists>res s'. store_splice E P h parent off del ins rid b s = Some (res, s') \<and> (case res of
      Inl e \<Rightarrow> s' = s \<and> (enabled (VersionSpliced h parent off del ins rid b) a \<and> \<not> poisoned s \<longrightarrow> out_of_space E e)
    | Inr (Committed v) \<Rightarrow>
        v = \<lparr>version_history = h, version_id = length (sp_versions a), version_parent = parent\<rparr> \<and>
        enabled (VersionSpliced h parent off del ins rid b) a \<and> \<not> poisoned s \<and>
        embeds E s' (spec_apply E (VersionSpliced h parent off del ins rid b) a) \<and> \<not> poisoned s'
    | Inr oc \<Rightarrow> s' = s \<and> \<not> enabled (VersionSpliced h parent off del ins rid b) a \<and>
        request_answer a rid (history_splice_digest E h parent off del ins b) = Some oc)"
  using seam.store_splice_outcome [OF embeds_sha [OF assms] assms [unfolded embeds_def], of P h parent off del ins rid b]
  by (simp add: commit_promise_def embeds_def out_of_space_def split_paired_Ex cong: sum.case_cong CommitOutcome.case_cong)

theorem store_splice_refines_witness:
  "\<exists>res s'. store_splice sample_env no_physical 0 (Some 0) 1 1 [7, 8] (Some [5]) None sample_store = Some (res, s') \<and>
     (case res of
        Inl e \<Rightarrow> s' = sample_store \<and> out_of_space sample_env e
      | Inr (Committed v) \<Rightarrow> version_id v = 1 \<and>
          embeds sample_env s' (spec_apply sample_env (VersionSpliced 0 (Some 0) 1 1 [7, 8] (Some [5]) None) sample_spec)
      | Inr oc \<Rightarrow> False)"
proof -
  have "length (sp_versions sample_spec) = 1"
    by (simp add: sample_spec_def)
  moreover have "enabled (VersionSpliced 0 (Some 0) 1 1 [7, 8] (Some [5]) None) sample_spec"
    by (simp add: sample_spec_def spec_new_def sample_version_def commit_enabled_def usable_parent_def valid_optional_def
        valid_key_def sp_bytes_def edit_ok_def width64_def)
  ultimately show ?thesis
    using store_splice_refines [OF sample_embeds, of no_physical 0 "Some 0" 1 1 "[7, 8]" "Some [5]" None] sample_live
    by (fastforce split: sum.splits CommitOutcome.splits)
qed

text \<open>
  An append is the splice at the end of its parent: the version it commits holds the bytes
  of the parent followed by the new ones.
\<close>

theorem store_append_extends:
  assumes "embeds E s a"
  shows "\<exists>res s'. store_append E P h parent bytes rid b s = Some (res, s') \<and> (case res of
      Inl e \<Rightarrow> s' = s \<and>
        (enabled (VersionSpliced h parent (length (sp_bytes a parent)) 0 bytes rid b) a \<and> \<not> poisoned s \<longrightarrow> out_of_space E e)
    | Inr (Committed v) \<Rightarrow> \<not> poisoned s \<and> (\<exists>a'. embeds E s' a' \<and>
        a' = spec_apply E (VersionSpliced h parent (length (sp_bytes a parent)) 0 bytes rid b) a \<and>
        sp_versions a' = sp_versions a @ [(v, sp_bytes a parent @ bytes)])
    | Inr oc \<Rightarrow> s' = s \<and>
        request_answer a rid (history_splice_digest E h parent (length (sp_bytes a parent)) 0 bytes b) = Some oc)"
proof -
  let ?ev = "VersionSpliced h parent (length (sp_bytes a parent)) 0 bytes rid b"
  have end_of: "sp_versions (spec_apply E ?ev a) = sp_versions a @
      [(\<lparr>version_history = h, version_id = length (sp_versions a), version_parent = parent\<rparr>, sp_bytes a parent @ bytes)]"
    by (simp add: edit_def)
  obtain res s' where run: "store_append E P h parent bytes rid b s = Some (res, s')"
    and promise: "commit_promise (embeds E) (out_of_space E) ?ev a (spec_apply E ?ev a)
      (request_answer a rid (history_splice_digest E h parent (length (sp_bytes a parent)) 0 bytes b))
      \<lparr>version_history = h, version_id = length (sp_versions a), version_parent = parent\<rparr> s (res, s')"
    using seam.append_outcome [OF embeds_sha [OF assms] assms [unfolded embeds_def], of P h parent bytes rid b]
    by (fold embeds_fold) auto
  show ?thesis
    by (insert promise end_of, intro exI conjI, rule run) (auto simp: commit_promise_def simp del: spec_apply.simps enabled.simps split: sum.splits CommitOutcome.splits)
qed

theorem store_append_extends_witness:
  "\<exists>res s'. store_append sample_env no_physical 0 (Some 0) [40] None None sample_store = Some (res, s') \<and>
     (case res of
        Inl e \<Rightarrow> s' = sample_store \<and> out_of_space sample_env e
      | Inr (Committed v) \<Rightarrow> (\<exists>a'. embeds sample_env s' a' \<and>
          sp_versions a' = [(sample_version, [10, 20, 30]), (v, [10, 20, 30, 40])])
      | Inr oc \<Rightarrow> False)"
proof -
  have "enabled (VersionSpliced 0 (Some 0) (length (sp_bytes sample_spec (Some 0))) 0 [40] None None) sample_spec"
    "sp_versions sample_spec = [(sample_version, [10, 20, 30])]" "sp_bytes sample_spec (Some 0) @ [40] = [10, 20, 30, 40]"
    by (simp_all add: sample_spec_def spec_new_def sample_version_def commit_enabled_def usable_parent_def
        valid_optional_def sp_bytes_def edit_ok_def width64_def)
  with store_append_extends [OF sample_embeds, of no_physical 0 "Some 0" "[40]" None None] sample_live show ?thesis
    unfolding request_answer_def
    by (elim exE conjE) (intro exI conjI, assumption, auto split: sum.splits CommitOutcome.splits simp del: enabled.simps)
qed

text \<open>
  A fork, on every branch: it commits a version with the bytes of its parent and shares the
  parent's root, answers for a known request, or fails and changes nothing.
\<close>

theorem store_fork_refines:
  assumes "embeds E s a"
  shows "\<exists>res s'. store_fork E h p rid b s = Some (res, s') \<and> (case res of
      Inl e \<Rightarrow> s' = s \<and> (enabled (VersionForked h p rid b) a \<and> \<not> poisoned s \<longrightarrow> out_of_space E e)
    | Inr (Committed v) \<Rightarrow>
        v = \<lparr>version_history = h, version_id = length (sp_versions a), version_parent = Some p\<rparr> \<and>
        enabled (VersionForked h p rid b) a \<and> \<not> poisoned s \<and>
        embeds E s' (spec_apply E (VersionForked h p rid b) a) \<and> \<not> poisoned s'
    | Inr oc \<Rightarrow> s' = s \<and> \<not> enabled (VersionForked h p rid b) a \<and>
        request_answer a rid (history_fork_digest E h p b) = Some oc)"
  using seam.fork_outcome [OF embeds_sha [OF assms] assms [unfolded embeds_def], of h p rid b]
  by (simp add: commit_promise_def embeds_def out_of_space_def split_paired_Ex cong: sum.case_cong CommitOutcome.case_cong)

theorem store_fork_refines_witness:
  "\<exists>res s'. store_fork sample_env 0 0 None (Some [9]) sample_store = Some (res, s') \<and>
     (case res of
        Inl e \<Rightarrow> s' = sample_store \<and> out_of_space sample_env e
      | Inr (Committed v) \<Rightarrow> version_parent v = Some 0 \<and>
          embeds sample_env s' (spec_apply sample_env (VersionForked 0 0 None (Some [9])) sample_spec)
      | Inr oc \<Rightarrow> False)"
proof -
  have "enabled (VersionForked 0 0 None (Some [9])) sample_spec"
    by (simp add: sample_spec_def spec_new_def sample_version_def commit_enabled_def usable_parent_def valid_optional_def
        valid_key_def width64_def)
  then show ?thesis
    using store_fork_refines [OF sample_embeds, of 0 0 None "Some [9]"] sample_live
    by (fastforce split: sum.splits CommitOutcome.splits)
qed

text \<open>
  Expiration is idempotent and exact: a live store expires a retained version together with
  the receipt that points to it, answers \<open>AlreadyExpired\<close> for an expired one, and rejects an
  unknown one; the last two change nothing.
\<close>

theorem store_expire_refines:
  assumes "embeds E s a" and "\<not> poisoned s"
  shows "\<exists>res s'. store_expire E v s = Some (res, s') \<and> \<not> poisoned s' \<and>
    (if v \<in> sp_expired a then res = Inr AlreadyExpired \<and> s' = s
     else if v < length (sp_versions a) then
       res = Inr ExpireOutcome.Expired \<and> embeds E s' (spec_apply E (VersionDropped v) a) \<or>
       (\<exists>e. res = Inl e \<and> s' = s \<and> out_of_space E e)
     else (\<exists>e. res = Inl e) \<and> s' = s)"
  using seam.expire_outcome [OF embeds_sha [OF assms(1)] assms(1) [unfolded embeds_def] assms(2)]
  unfolding embeds_fold .

theorem store_expire_refines_witness:
  "\<exists>res s'. store_expire sample_env 0 sample_store = Some (res, s') \<and>
     (res = Inr ExpireOutcome.Expired \<and> embeds sample_env s' (spec_apply sample_env (VersionDropped 0) sample_spec) \<or>
      (\<exists>e. res = Inl e \<and> out_of_space sample_env e))"
proof -
  have "0 \<notin> sp_expired sample_spec" "0 < length (sp_versions sample_spec)"
    by (simp_all add: sample_spec_def spec_new_def)
  then show ?thesis
    using store_expire_refines [OF sample_embeds sample_live, of 0] by (auto simp del: spec_apply.simps)
qed

text \<open>
  Creating a history for a binding is idempotent: a bound one is returned, an unbound
  binding gets the next identity, and an ill-formed binding is rejected.
\<close>

theorem create_bound_history:
  assumes "embeds E s a" and "\<not> poisoned s"
  shows "\<exists>res s'. create_history_with_binding E x s = Some (res, s') \<and> \<not> poisoned s' \<and>
    (if \<not> valid_key x then (\<exists>e. res = Inl e) \<and> s' = s
     else if x \<in> ran (sp_hbind a) then (\<exists>h. res = Inr h \<and> sp_hbind a h = Some x) \<and> s' = s
     else if Suc (sp_histories a) < width64 then
       res = Inr (sp_histories a) \<and> embeds E s' (spec_apply E (HistoryCreated (Some x)) a) \<or>
       (\<exists>e. res = Inl e \<and> s' = s \<and> out_of_space E e)
     else (\<exists>e. res = Inl e) \<and> s' = s)"
  using seam.create_outcome [OF embeds_sha [OF assms(1)] assms(1) [unfolded embeds_def] assms(2)]
  unfolding embeds_fold .

theorem create_bound_history_witness:
  "\<exists>res s'. create_history_with_binding sample_env [9] sample_store = Some (res, s') \<and>
     (res = Inr 1 \<and> embeds sample_env s' (spec_apply sample_env (HistoryCreated (Some [9])) sample_spec) \<or>
      (\<exists>e. res = Inl e \<and> out_of_space sample_env e))"
proof -
  have "valid_key [9]" "[9] \<notin> ran (sp_hbind sample_spec)" "sp_histories sample_spec = 1" "Suc 1 < width64"
    by (simp_all add: valid_key_def sample_spec_def spec_new_def width64_def)
  then show ?thesis
    using create_bound_history [OF sample_embeds sample_live, of "[9]"] by (auto simp del: spec_apply.simps)
qed

section \<open>Reads, replay and collection\<close>

text \<open>
  C40.  Reads are exact.  For a listed version a read answers \<open>VersionExpired\<close>, rejects a range
  past 64 bits or past the end, or appends exactly the requested slice to the output; it never
  changes what the store represents.
\<close>

theorem store_read_exact:
  assumes "embeds E s a" and "i < length (sp_versions a)" and "sp_versions a ! i = (v, bs)"
  shows "\<exists>s'. store_read E P v off len out s = Some
      (if i \<in> sp_expired a then Inl HistoryError.VersionExpired
       else if width64 \<le> off + len then Inl (HistoryError.Invalid ''persistent history read range exceeds u64'')
       else if length bs < off + len then Inl (HistoryError.Sequence
         (SequenceError.Avl (V2AvlError.Invalid ''v2 range exceeds root logical length'')))
       else Inr (out @ take len (drop off bs)), s') \<and> embeds E s' a \<and> poisoned s' = poisoned s"
  using seam.read_outcome [OF assms(1) [unfolded embeds_def] assms(2,3)] unfolding embeds_fold .

theorem store_read_exact_witness:
  "\<exists>s'. store_read sample_env no_physical sample_version 1 2 [5] sample_store = Some (Inr [5, 20, 30], s')"
proof -
  have v: "0 < length (sp_versions sample_spec)" "sp_versions sample_spec ! 0 = (sample_version, [10, 20, 30])"
    "0 \<notin> sp_expired sample_spec"
    by (simp_all add: sample_spec_def spec_new_def)
  from store_read_exact [OF sample_embeds v(1,2), of no_physical 1 2 "[5]"] v(3) show ?thesis
    by (auto simp: width64_def)
qed

text \<open>
  C8.  Live execution and replay agree.  Replaying the record that the log holds for an allowed
  event performs that event on a live store, or reports that memory is short.
\<close>

theorem replay_performs_event:
  assumes "embeds E s a" and "\<not> poisoned s" and "enabled ev a"
  shows "(\<exists>e s'. apply_recovered_record E P (record_of E a ev) s = Some (Inl e, s') \<and> out_of_space E e) \<or>
    (\<exists>s'. apply_recovered_record E P (record_of E a ev) s = Some (Inr (), s') \<and>
      embeds E s' (spec_apply E ev a) \<and> \<not> poisoned s')"
  using seam.replay_event [OF embeds_sha [OF assms(1)] assms(1) [unfolded embeds_def] assms(2,3), of P] assms(2)
  unfolding seam.replayed_def performs_def embeds_fold by auto

theorem replay_performs_event_witness:
  "(\<exists>e s'. apply_recovered_record sample_env no_physical (ExpireVersion 0 0) sample_store = Some (Inl e, s') \<and>
      out_of_space sample_env e) \<or>
   (\<exists>s'. apply_recovered_record sample_env no_physical (ExpireVersion 0 0) sample_store = Some (Inr (), s') \<and>
      embeds sample_env s' (spec_apply sample_env (VersionDropped 0) sample_spec))"
proof -
  have "enabled (VersionDropped 0) sample_spec" "record_of sample_env sample_spec (VersionDropped 0) = ExpireVersion 0 0"
    by (simp_all add: sample_spec_def spec_new_def sample_version_def)
  with replay_performs_event [OF sample_embeds sample_live, of "VersionDropped 0" no_physical] show ?thesis
    by auto
qed

text \<open>
  C35.  Garbage collection is invisible.  With node identifiers to spare, preparing a collection
  either reports that memory is short or yields a store that, once applied, represents exactly the
  same history; every expired version has given up its root.
\<close>

theorem gc_preserves_history:
  assumes "embeds E s a" and "node_count P (store_backend s) + length (sp_versions a) < width64 - 1"
  shows "(\<exists>e. prepare_gc E P s = Inl e \<and> out_of_space E e) \<or>
    (\<exists>p. prepare_gc E P s = Inr p \<and> embeds E (apply_prepared_gc p s) a \<and>
      poisoned (apply_prepared_gc p s) = poisoned s \<and>
      (\<forall>i. i \<in> sp_expired a \<longrightarrow> record_root (versions (apply_prepared_gc p s) ! i) = None))"
  using seam.gc_outcome [OF assms(1) [unfolded embeds_def] assms(2)] unfolding embeds_fold by blast

theorem gc_preserves_history_witness:
  "(\<exists>e. prepare_gc sample_env no_physical sample_store = Inl e \<and> out_of_space sample_env e) \<or>
   (\<exists>p. prepare_gc sample_env no_physical sample_store = Inr p \<and>
      embeds sample_env (apply_prepared_gc p sample_store) sample_spec)"
proof -
  have "node_count no_physical (store_backend sample_store) + length (sp_versions sample_spec) < width64 - 1"
    by (simp add: sample_store_def sample_spec_def sample_seq_def node_count_def u64_or_max_def width64_def)
  from gc_preserves_history [OF sample_embeds this] show ?thesis
    by blast
qed

section \<open>Requests\<close>

text \<open>
  C39.  The request matrix.  A splice with valid operands under a request identity that the ledger
  knows never commits: it answers with the version the request committed, that the request is
  retired, or \<open>RequestConflict\<close> when the operation differs; the store stays as it is.
\<close>

theorem request_matrix:
  assumes "embeds E s a" and "\<not> poisoned s" and "splice_operands_ok a h parent off del ins b"
    and "q \<in> set (receipt_order s)"
  shows "store_splice E P h parent off del ins (Some q) b s = Some (case hget (active_requests s) q of
      Some x \<Rightarrow> if request_digest x = history_splice_digest E h parent off del ins b
        then Inr (Replayed (record_version (versions s ! request_version x))) else Inl HistoryError.RequestConflict
    | None \<Rightarrow> if hget (retired_requests s) q = Some (history_splice_digest E h parent off del ins b)
        then Inr CommitOutcome.Retired else Inl HistoryError.RequestConflict, s)"
proof -
  note r = assms(1) [unfolded embeds_def]
  have tab: "hget (active_requests s) = sp_active a" "hget (retired_requests s) = sp_retired a" "receipt_order s = sp_order a"
    using r by (auto simp: refines_def tabled_def)
  have "record_version (versions s ! request_version x) = fst (sp_versions a ! request_version x)" if "sp_active a q = Some x" for x
    using seam.rel_versions(2) [OF r] r that by (auto simp: refines_def spec_inv_def ledger_inv_def ledger_upto_def)
  then show ?thesis
    using seam.splice_known [OF r assms(2,3), of q P] assms(4)
    by (simp add: tab ledger_reply_def request_answer_def split: option.split)
qed

text \<open>A store whose only version was committed by request \<open>[5]\<close> with a known digest.\<close>

definition asked_store :: "unit PersistentHistoryStore" where
  "asked_store = sample_store\<lparr>active_requests := [([5], \<lparr>request_digest = replicate 32 0, request_version = 0\<rparr>)],
     receipt_order := [[5]]\<rparr>"

definition asked_spec :: HistorySpec where
  "asked_spec = sample_spec\<lparr>sp_active := [[5] \<mapsto> \<lparr>request_digest = replicate 32 0, request_version = 0\<rparr>], sp_order := [[5]]\<rparr>"

lemma asked_embeds: "embeds sample_env asked_store asked_spec"
proof -
  have "stored (memory_denotes sample_env (store_backend asked_store)) (versions asked_store) asked_spec"
    using sample_embeds by (simp add: embeds_def refines_def stored_def asked_store_def asked_spec_def cong: option.case_cong)
  moreover have "tabled asked_store asked_spec" "seam_ok sample_env (store_backend asked_store)"
    using sample_embeds by (auto simp: embeds_def refines_def tabled_def asked_store_def asked_spec_def hget_def htable_def)
  moreover have "spec_inv asked_spec"
    by (simp add: spec_inv_def catalogue_inv_def ledger_inv_def ledger_upto_def binding_inv_def asked_spec_def sample_spec_def
        spec_new_def sample_version_def width64_def valid_key_def)
  ultimately show ?thesis
    by (simp add: embeds_def refines_def)
qed

theorem request_matrix_witness:
  "store_splice sample_env no_physical 0 (Some 0) 0 1 [77] (Some [5]) None asked_store =
     Some (Inl HistoryError.RequestConflict, asked_store)"
proof -
  have ok: "splice_operands_ok asked_spec 0 (Some 0) 0 1 [77] None" "[5] \<in> set (receipt_order asked_store)" "\<not> poisoned asked_store"
    using sample_live by (simp_all add: asked_spec_def sample_spec_def asked_store_def spec_new_def sample_version_def
        splice_operands_ok_def valid_optional_def sp_bytes_def edit_ok_def width64_def)
  have "history_splice_digest sample_env 0 (Some 0) 0 1 [77] None ! 1 = 77"
    by (simp add: history_splice_digest_def sample_env_def splice_preimage_def binding_preimage_def)
  then have "history_splice_digest sample_env 0 (Some 0) 0 1 [77] None \<noteq> replicate 32 0"
    by auto
  with request_matrix [OF asked_embeds ok(3,1,2), of no_physical] show ?thesis
    by (simp add: asked_store_def hget_def)
qed

text \<open>A splice that is known to commit: a new root in the sample store.\<close>

lemma sample_commits:
  "\<exists>v s'. store_splice sample_env no_physical 0 None 0 0 [7] (Some [5]) None sample_store = Some (Inr (Committed v), s')"
proof -
  let ?plan = "seam.splice_plan sample_env sample_store 0 None 0 0 [7] (Some [5]) None sample_spec"
  have "enabled (VersionSpliced 0 None 0 0 [7] (Some [5]) None) sample_spec"
    by (simp add: sample_spec_def spec_new_def commit_enabled_def valid_optional_def valid_key_def sp_bytes_def edit_ok_def
        width64_def)
  then have "preview_splice sample_env no_physical 0 None 0 0 [7] (Some [5]) None sample_store =
      Some (Inr (PreviewFresh ?plan), sample_store)"
    using seam.preview_splice_fresh [OF sample_embeds [unfolded embeds_def]] sample_live by blast
  moreover have "backend (store_backend sample_store) = Memory sample_seq"
    "next_version_id sample_store = length (sp_versions sample_spec)" "length (seq_payload sample_seq) + 1 < width64"
    "length (seq_nodes sample_seq) + 1 < width64"
    by (simp_all add: sample_store_def sample_spec_def sample_seq_def width64_def)
  ultimately show ?thesis
    using root_inserted [of sample_store sample_seq sample_spec 0 "Some [5]" None]
    by (auto simp: store_splice_def bindP_def)
qed

text \<open>
  C38.  Retries are idempotent: repeating a committed splice under its request identity answers
  with the version it committed and commits nothing.
\<close>

theorem retry_is_replayed:
  assumes "embeds E s a" and "store_splice E P h parent off del ins (Some q) b s = Some (Inr (Committed v), s')"
  shows "store_splice E P h parent off del ins (Some q) b s' = Some (Inr (Replayed v), s')"
  using seam.splice_twice [OF embeds_sha [OF assms(1)] assms(1) [unfolded embeds_def] assms(2)] .

theorem retry_is_replayed_witness:
  "\<exists>v s'. store_splice sample_env no_physical 0 None 0 0 [7] (Some [5]) None sample_store = Some (Inr (Committed v), s') \<and>
     store_splice sample_env no_physical 0 None 0 0 [7] (Some [5]) None s' = Some (Inr (Replayed v), s')"
  using sample_commits retry_is_replayed [OF sample_embeds] by blast

section \<open>Progress\<close>

text \<open>
  C34.  Progress.  On a live durable store with a working disk, room in the log and in the tables of
  its arena, and no reservation refused, every splice that the abstract history allows commits: the
  call returns \<open>Committed\<close> with the next version of the history.
\<close>

theorem durable_splice_commits:
  assumes "sha_ok E" and "durable_run E P (s, log) evs d" and "\<not> poisoned s" and "\<not> fail_next_append log"
    and "enabled (VersionSpliced h parent off del ins rid b) (spec_run E evs spec_new)" and "\<forall>m n. try_reserve E m n"
    and "length (log_file log) + length ins + 8346 < width64" and "backend (store_backend s) = Memory q"
    and "length (seq_nodes q) + 383 * (length ins div MAX_LEAF_PAYLOAD_BYTES + 1) + 98560 < V2_NONE_NODE"
    and "length (seq_payload q) + length ins + 3 * MAX_LEAF_PAYLOAD_BYTES < width64"
  shows "\<exists>sl. splice_durable E P calm h parent off del ins rid b (s, log) =
    Some (Inr (Committed \<lparr>version_history = h, version_id = length (versions s), version_parent = parent\<rparr>), sl)"
proof -
  have inv: "seam.durable_inv E s log evs d"
    using seam.run_inv [OF assms(1) seam_new [OF assms(1)] assms(2)] by simp
  then have n: "length (versions s) = length (sp_versions (spec_run E evs spec_new))"
    using seam.rel_versions(1) by (auto simp: seam.durable_inv_def)
  have io: "append_io calm = IoNone" "sync_ok calm"
    by (simp_all add: calm_def)
  have "memory_room (store_backend s) ins"
    using assms(8-10) by (simp add: memory_room_def has_room_def splice_nodes_def splice_payload_def)
  from roomy.splice_progress [OF assms(1) inv assms(3,6) io assms(4,7) this assms(5), of P] show ?thesis
    unfolding n by blast
qed

text \<open>The sample run goes on: its history gets a first version.\<close>

lemma sample_run_insert:
  obtains s :: "unit PersistentHistoryStore" and log s' log' d v
  where "durable_run sample_env no_physical (s, log) [HistoryCreated None] 73" "length (log_file log) = 73" "\<not> poisoned s"
    "\<not> fail_next_append log" "run_op sample_env no_physical calm (OpSplice 0 None 0 0 [7] None None) (s, log) =
      Some (Inr (ReplyCommit (Committed v)), (s', log'))" "length (log_file log') < width64"
    "durable_run sample_env no_physical (s', log') [HistoryCreated None, VersionSpliced 0 None 0 0 [7] None None] d"
    "length (versions s') = 1" "enabled (VersionSpliced 0 None 0 0 [7] None None) (spec_run sample_env [HistoryCreated None] spec_new)"
    "backend (store_backend s) = Memory empty_seq"
proof -
  obtain s :: "unit PersistentHistoryStore" and log
    where run: "durable_run sample_env no_physical (s, log) [HistoryCreated None] 73" and s: "length (log_file log) = 73"
      "\<not> poisoned s" "store_backend s = BalancedSequence_new" "\<not> fail_next_append log" "next_version_id s = 0"
    by (rule sample_run)
  let ?a = "spec_run sample_env [HistoryCreated None] spec_new"
  have inv: "seam.durable_inv sample_env s log [HistoryCreated None] 73"
    using seam.run_inv [OF sample_env_ok seam_new [OF sample_env_ok] run] by simp
  have en: "enabled (VersionSpliced 0 None 0 0 [7] None None) ?a"
    by (simp add: spec_new_def commit_enabled_def valid_optional_def sp_bytes_def edit_ok_def width64_def)
  have io: "append_io calm = IoNone" "sync_ok calm" and fits: "length (log_file log) + length [7 :: byte] + 8346 < width64"
    by (simp_all add: calm_def s(1) width64_def)
  have q: "backend (store_backend s) = Memory empty_seq"
    by (simp add: s(3) BalancedSequence_new_def)
  have space: "memory_room (store_backend s) [7]"
    by (simp add: memory_room_def q has_room_def splice_nodes_def splice_payload_def empty_seq_def V2_NONE_NODE_def
        width64_def MAX_LEAF_PAYLOAD_BYTES_def)
  have "\<forall>m n. try_reserve sample_env m n"
    by (simp add: sample_env_def)
  from roomy.splice_progress [OF sample_env_ok inv s(2) this io s(4) fits space en, of no_physical]
  obtain v s' log' where op: "splice_durable sample_env no_physical calm 0 None 0 0 [7] None None (s, log) =
      Some (Inr (Committed v), (s', log'))" and size: "length (log_file log') < width64"
    by blast
  then have op': "run_op sample_env no_physical calm (OpSplice 0 None 0 0 [7] None None) (s, log) =
      Some (Inr (ReplyCommit (Committed v)), (s', log'))"
    by (simp add: replyP_def bindP_def)
  from durable_run.answered [OF run op' size]
  have run': "durable_run sample_env no_physical (s', log') [HistoryCreated None, VersionSpliced 0 None 0 0 [7] None None] (log_tail log')"
    by (simp add: committed_def outcome_replayed_def)
  have "length (versions s') = 1"
    using seam.run_inv [OF sample_env_ok seam_new [OF sample_env_ok] run'] seam.rel_versions(1)
    by (fastforce simp: seam.durable_inv_def spec_new_def)
  from that [OF run s(1,2,4) op' size run' this en q] show thesis .
qed

theorem durable_splice_commits_witness:
  "\<exists>(s :: unit PersistentHistoryStore) log sl. durable_run sample_env no_physical (s, log) [HistoryCreated None] 73 \<and>
     splice_durable sample_env no_physical calm 0 None 0 0 [7] None None (s, log) =
       Some (Inr (Committed \<lparr>version_history = 0, version_id = length (versions s), version_parent = None\<rparr>), sl)"
proof -
  obtain s s' :: "unit PersistentHistoryStore" and log log' d v
    where run: "durable_run sample_env no_physical (s, log) [HistoryCreated None] 73" and len: "length (log_file log) = 73"
      and live: "\<not> poisoned s" "\<not> fail_next_append log"
      and en: "enabled (VersionSpliced 0 None 0 0 [7] None None) (spec_run sample_env [HistoryCreated None] spec_new)"
      and q: "backend (store_backend s) = Memory empty_seq"
    by (rule sample_run_insert)
  have "\<forall>m n. try_reserve sample_env m n" "length (log_file log) + length [7 :: byte] + 8346 < width64"
    by (simp_all add: len sample_env_def width64_def)
  note here = this q
  have "length (seq_nodes empty_seq) + 383 * (length [7 :: byte] div MAX_LEAF_PAYLOAD_BYTES + 1) + 98560 < V2_NONE_NODE"
    "length (seq_payload empty_seq) + length [7 :: byte] + 3 * MAX_LEAF_PAYLOAD_BYTES < width64"
    by (simp_all add: empty_seq_def V2_NONE_NODE_def width64_def MAX_LEAF_PAYLOAD_BYTES_def)
  from durable_splice_commits [OF sample_env_ok run live en here this] run show ?thesis
    by blast
qed

section \<open>Invariants of every run\<close>

text \<open>
  C36.  The catalogue is well-typed in every reachable state: version \<open>i\<close> is at index \<open>i\<close>, belongs
  to a known history, is not empty, and has its parent earlier in the same history; a version that
  is not expired has a root that verifies.
\<close>

theorem catalogue_well_typed:
  assumes "sha_ok E" and "durable_run E P (s, log) evs d" and "i < length (versions s)"
  shows "version_id (record_version (versions s ! i)) = i \<and>
    version_history (record_version (versions s ! i)) \<in> set (histories s) \<and> 0 < record_len (versions s ! i) \<and>
    (\<forall>p. version_parent (record_version (versions s ! i)) = Some p \<longrightarrow> p < i \<and>
      version_history (record_version (versions s ! p)) = version_history (record_version (versions s ! i))) \<and>
    (i \<notin> set (expired_versions s) \<longrightarrow> (\<exists>s'. store_verify E P (record_version (versions s ! i)) s = Some (Inr (), s')))"
proof -
  let ?a = "spec_run E evs spec_new"
  have r: "refines (seam_ok E) (memory_denotes E) s ?a"
    using seam.run_inv [OF assms(1) seam_new [OF assms(1)] assms(2)] by (simp add: seam.durable_inv_def)
  have i: "i < length (sp_versions ?a)"
    using assms(3) seam.rel_versions(1) [OF r] by simp
  obtain v bs where v: "sp_versions ?a ! i = (v, bs)"
    by fastforce
  have cat: "catalogue_inv ?a" and tab: "set (histories s) = {..<sp_histories ?a}" "set (expired_versions s) = sp_expired ?a"
    using r by (auto simp: refines_def spec_inv_def tabled_def)
  have at: "record_version (versions s ! j) = fst (sp_versions ?a ! j)" "record_len (versions s ! j) = length (snd (sp_versions ?a ! j))"
    if "j < length (sp_versions ?a)" for j
    using seam.rel_versions(2,3) [OF r that] .
  have "version_id v = i \<and> version_history v < sp_histories ?a \<and> bs \<noteq> [] \<and>
      (\<forall>p. version_parent v = Some p \<longrightarrow> p < i \<and> version_history (fst (sp_versions ?a ! p)) = version_history v)"
    using cat i v by (fastforce simp: catalogue_inv_def)
  moreover have "\<exists>s'. store_verify E P v s = Some (Inr (), s')" if "i \<notin> sp_expired ?a"
    using seam.verify_outcome [OF r i v] that by auto
  ultimately show ?thesis
    using at [OF i] at i v tab by auto
qed

theorem catalogue_well_typed_witness:
  "\<exists>(s :: unit PersistentHistoryStore) log evs d. durable_run sample_env no_physical (s, log) evs d \<and>
     version_id (record_version (versions s ! 0)) = 0 \<and> 0 < record_len (versions s ! 0)"
proof -
  obtain s' :: "unit PersistentHistoryStore" and log' d
    where run: "durable_run sample_env no_physical (s', log') [HistoryCreated None, VersionSpliced 0 None 0 0 [7] None None] d"
      and one: "length (versions s') = 1"
    by (rule sample_run_insert)
  have "0 < length (versions s')"
    using one by simp
  from catalogue_well_typed [OF sample_env_ok run this] run show ?thesis
    by blast
qed

text \<open>
  C37.  The receipt ledger is bounded and consistent in every reachable state: at most 4096
  identities, listed once each in order of arrival, each either active or retired; an active one
  names a committed version that is not expired, and no two name the same.
\<close>

theorem receipt_ledger_bounded:
  assumes "sha_ok E" and "durable_run E P (s, log) evs d"
  shows "request_receipt_count s \<le> STAGING_REQUEST_RECEIPT_CAPACITY \<and> distinct (receipt_order s) \<and>
    set (receipt_order s) = hkeys (active_requests s) \<union> hkeys (retired_requests s) \<and>
    hkeys (active_requests s) \<inter> hkeys (retired_requests s) = {} \<and>
    (\<forall>q x. hget (active_requests s) q = Some x \<longrightarrow> request_version x < length (versions s) \<and>
      request_version x \<notin> set (expired_versions s) \<and>
      (\<forall>q' x'. hget (active_requests s) q' = Some x' \<longrightarrow> request_version x' = request_version x \<longrightarrow> q' = q))"
proof -
  let ?a = "spec_run E evs spec_new"
  have r: "refines (seam_ok E) (memory_denotes E) s ?a"
    using seam.run_inv [OF assms(1) seam_new [OF assms(1)] assms(2)] by (simp add: seam.durable_inv_def)
  have led: "ledger_upto 4096 ?a" and tab: "htable (active_requests s)" "htable (retired_requests s)"
    "hget (active_requests s) = sp_active ?a" "hget (retired_requests s) = sp_retired ?a" "receipt_order s = sp_order ?a"
    "set (expired_versions s) = sp_expired ?a"
    using r by (auto simp: refines_def spec_inv_def ledger_inv_def tabled_def)
  have keys: "hkeys (active_requests s) = dom (sp_active ?a)" "hkeys (retired_requests s) = dom (sp_retired ?a)"
    using tab by (simp_all flip: dom_hget)
  have "length (active_requests s) + length (retired_requests s) = length (receipt_order s)"
    using led tab keys by (intro receipt_count) (auto simp: ledger_upto_def)
  then show ?thesis
    using led seam.rel_versions(1) [OF r] unfolding ledger_upto_def
    by (auto simp: request_receipt_count_def STAGING_REQUEST_RECEIPT_CAPACITY_def tab keys)
qed

theorem receipt_ledger_bounded_witness:
  "\<exists>(s :: unit PersistentHistoryStore) log. durable_run sample_env no_physical (s, log) [HistoryCreated None] 73 \<and>
     request_receipt_count s \<le> STAGING_REQUEST_RECEIPT_CAPACITY \<and> distinct (receipt_order s)"
proof -
  obtain s :: "unit PersistentHistoryStore" and log where run: "durable_run sample_env no_physical (s, log) [HistoryCreated None] 73"
    by (rule sample_run)
  with receipt_ledger_bounded [OF sample_env_ok run] show ?thesis
    by blast
qed

text \<open>
  C7.  Committed versions are immutable.  Whatever a durable operation does, the catalogue before
  it is a prefix of the catalogue after it, and every read that succeeded before gives the same
  bytes after it unless the version has expired.
\<close>

theorem committed_versions_immutable:
  assumes "sha_ok E" and "durable_run E P (s, log) evs d"
    and "run_op E P io op (s, log) = Some (res, (s', log'))" and "length (log_file log') < width64"
    and "store_read E P v off len [] s = Some (Inr bs, t)"
  shows "(\<exists>vs. all_versions s' = all_versions s @ vs) \<and>
    (\<exists>t'. store_read E P v off len [] s' = Some (if version_id v \<in> set (expired_versions s')
      then Inl HistoryError.VersionExpired else Inr bs, t'))"
proof -
  have inv: "seam.durable_inv E s log evs d"
    using seam.run_inv [OF assms(1) seam_new [OF assms(1)] assms(2)] by simp
  obtain a a' vs where g: "refines (seam_ok E) (memory_denotes E) s a" "refines (seam_ok E) (memory_denotes E) s' a'"
    "sp_versions a' = sp_versions a @ vs"
    by (rule seam.run_grows [OF assms(1) inv assms(3,4)])
  show ?thesis
    using seam.read_kept [OF g assms(5)] seam.catalogue_prefix [OF g] by blast
qed

theorem committed_versions_immutable_witness:
  "\<exists>(s :: unit PersistentHistoryStore) s' v t'. store_read sample_env no_physical v 0 1 [] s = Some (Inr [7], s') \<and>
     store_read sample_env no_physical v 0 1 [] s' =
       Some (if version_id v \<in> set (expired_versions s') then Inl HistoryError.VersionExpired else Inr [7], t')"
proof -
  obtain s :: "unit PersistentHistoryStore" and log d
    where run: "durable_run sample_env no_physical (s, log) [HistoryCreated None, VersionSpliced 0 None 0 0 [7] None None] d"
    by (rule sample_run_insert)
  let ?a = "spec_run sample_env [HistoryCreated None, VersionSpliced 0 None 0 0 [7] None None] spec_new"
  let ?v = "\<lparr>version_history = 0, version_id = 0, version_parent = None\<rparr>"
  have inv: "seam.durable_inv sample_env s log [HistoryCreated None, VersionSpliced 0 None 0 0 [7] None None] d"
    using seam.run_inv [OF sample_env_ok seam_new [OF sample_env_ok] run] by simp
  then have r: "refines (seam_ok sample_env) (memory_denotes sample_env) s ?a" and size: "length (log_file log) < width64"
    by (auto simp: seam.durable_inv_def log_at_def split: if_splits)
  have v: "0 < length (sp_versions ?a)" "sp_versions ?a ! 0 = (?v, [7])" "0 \<notin> sp_expired ?a"
    by (simp_all add: spec_new_def edit_def sp_bytes_def)
  from seam.read_outcome [OF r v(1,2), of no_physical 0 1 "[]"] v(3) obtain s'
    where read: "store_read sample_env no_physical ?v 0 1 [] s = Some (Inr [7], s')"
    by (auto simp: width64_def)
  then have "run_op sample_env no_physical calm (OpRead ?v 0 1) (s, log) = Some (Inr (ReplyBytes [7]), (s', log))"
    by (simp add: replyP_def bindP_def rejectedP_def)
  from committed_versions_immutable [OF sample_env_ok run this size read] read show ?thesis
    by blast
qed

text \<open>
  A poisoned writer refuses every mutation, whatever the disk does, and touches neither the
  store nor the log; only recovery from the log leads out of this state.
\<close>

theorem poisoned_refuses:
  assumes "poisoned s" and "\<forall>v off len. op \<noteq> OpRead v off len" and "\<forall>v. op \<noteq> OpVerify v"
  shows "run_op E P io op (s, log) = Some (Inl RecoveryRequired, (s, log))"
proof -
  have stop: "bindP require_unpoisoned_durable k (s, log) = Some (Inl RecoveryRequired, (s, log))" for k :: "unit \<Rightarrow> ('a, 'c) durable_prog"
    using assms(1) by (simp add: require_unpoisoned_durable_def bindP_readP)
  note ops = replyP_def create_history_durable_def begin_durable_history_create_def splice_durable_def append_durable_def
    fork_durable_def expire_durable_def retire_durable_def
  show ?thesis
    using assms(2,3) by (cases op) (simp_all add: ops bindP_assoc stop)
qed

theorem poisoned_refuses_witness:
  "run_op sample_env no_physical calm (OpExpire 0) (set_poisoned sample_store, empty_log) =
     Some (Inl RecoveryRequired, (set_poisoned sample_store, empty_log))"
  using poisoned_refuses [of "set_poisoned sample_store" "OpExpire 0"] by (simp add: set_poisoned_def)

section \<open>Operation digests\<close>

lemma u64_bytes_inject: "m < width64 \<Longrightarrow> n < width64 \<Longrightarrow> le_bytes 8 m = le_bytes 8 n \<longleftrightarrow> m = n"
  using le_bytes_inject [of m 8 n] by (simp only: width_powers)

lemma binding_preimage_inject: "binding_preimage b = binding_preimage b' \<longleftrightarrow> b = b'"
  by (cases b; cases b') (auto simp: binding_preimage_def simp del: le_bytes.simps)

lemma operation_domains_differ: "splice_preimage h parent off del ins b \<noteq> fork_preimage h' p b'"
proof -
  have "splice_preimage h parent off del ins b ! 22 \<noteq> fork_preimage h' p b' ! 22"
    by (simp add: splice_preimage_def fork_preimage_def HISTORY_SPLICE_DIGEST_DOMAIN_def HISTORY_FORK_DIGEST_DOMAIN_def
        nth_append ascii_def)
  then show ?thesis
    by auto
qed

lemma splice_preimage_inject:
  assumes "h < width64" "h' < width64" "\<forall>p. parent = Some p \<longrightarrow> p < width64" "\<forall>p. parent' = Some p \<longrightarrow> p < width64"
    "off < width64" "off' < width64" "del < width64" "del' < width64" "length ins < width64" "length ins' < width64"
  shows "splice_preimage h parent off del ins b = splice_preimage h' parent' off' del' ins' b' \<longleftrightarrow>
    h = h' \<and> parent = parent' \<and> off = off' \<and> del = del' \<and> ins = ins' \<and> b = b'"
proof
  let ?pc = "\<lambda>q. case q of Some p \<Rightarrow> [1] @ le_bytes 8 p | None \<Rightarrow> [0] @ le_bytes 8 0"
  assume "splice_preimage h parent off del ins b = splice_preimage h' parent' off' del' ins' b'"
  moreover have "length (?pc q) = 9" for q
    by (simp split: option.split)
  ultimately have eq: "le_bytes 8 h = le_bytes 8 h'" "?pc parent = ?pc parent'" "le_bytes 8 off = le_bytes 8 off'"
    "le_bytes 8 del = le_bytes 8 del'" "le_bytes 8 (length ins) = le_bytes 8 (length ins')"
    "ins @ binding_preimage b = ins' @ binding_preimage b'"
    using assms by (simp_all add: splice_preimage_def u64_or_max_def)
  then show "h = h' \<and> parent = parent' \<and> off = off' \<and> del = del' \<and> ins = ins' \<and> b = b'"
    using assms by (auto simp: u64_bytes_inject binding_preimage_inject split: option.splits)
qed simp

lemma fork_preimage_inject:
  assumes "h < width64" "h' < width64" "p < width64" "p' < width64"
  shows "fork_preimage h p b = fork_preimage h' p' b' \<longleftrightarrow> h = h' \<and> p = p' \<and> b = b'"
  using assms by (auto simp: fork_preimage_def u64_bytes_inject binding_preimage_inject)

text \<open>
  A request digest binds the operation.  The digest inputs of splices and forks with 64-bit
  operands determine every operand, and no splice shares its input with a fork; so equal digests
  mean equal operations, or a collision of the hash on these inputs.
\<close>

theorem digest_inputs_distinct:
  assumes "h < width64" "h' < width64" "\<forall>p. parent = Some p \<longrightarrow> p < width64" "\<forall>p. parent' = Some p \<longrightarrow> p < width64"
    and "off < width64" "off' < width64" "del < width64" "del' < width64" "length ins < width64" "length ins' < width64"
    and "q < width64" "q' < width64"
  shows "(splice_preimage h parent off del ins b = splice_preimage h' parent' off' del' ins' b' \<longleftrightarrow>
      h = h' \<and> parent = parent' \<and> off = off' \<and> del = del' \<and> ins = ins' \<and> b = b') \<and>
    (fork_preimage h q b = fork_preimage h' q' b' \<longleftrightarrow> h = h' \<and> q = q' \<and> b = b') \<and>
    splice_preimage h parent off del ins b \<noteq> fork_preimage h' q' b'"
  by (intro conjI splice_preimage_inject [OF assms(1-10)] fork_preimage_inject [OF assms(1,2,11,12)] operation_domains_differ)

theorem digest_inputs_distinct_witness:
  "splice_preimage 1 (Some 2) 3 4 [5] None \<noteq> splice_preimage 1 (Some 2) 3 4 [6] None \<and>
   fork_preimage 1 2 None \<noteq> fork_preimage 1 3 None \<and> splice_preimage 1 (Some 2) 3 4 [5] None \<noteq> fork_preimage 1 3 None"
  using digest_inputs_distinct [of 1 1 "Some 2" "Some 2" 3 3 4 4 "[5]" "[6]" 2 3 None None] by (simp add: width64_def)

end
