(* ===== verification/History_Authority_Properties.thy ===== *)
theory History_Authority_Properties
  imports History_Sealing History_Properties
begin

text \<open>
  The properties of snapshots, manifests and the publication of generations, with an example
  authority: one history with one version whose bytes lie in content files with orphan tails.
\<close>

section \<open>An example authority\<close>

definition kept_store :: "PhysicalContentStore PersistentHistoryStore" where
  "kept_store = PersistentHistoryStore_new\<lparr>store_backend := on_disk sample_content no_work,
     histories := [0], next_history_id := 1, next_version_id := 1,
     versions := [\<lparr>record_version = sample_version, record_root = Some (seam_root sample_root), record_len = 3\<rparr>]\<rparr>"

definition sample_authority :: WritableHistoryAuthority where
  "sample_authority = \<lparr>wa_store = kept_store, wa_generation = 0,
     wa_stats = \<lparr>snapshot_versions = 0, suffix_bytes = 0\<rparr>,
     wa_dir = \<lparr>nd_dir = sample_content_dir, nd_older = [(HISTORY_LOCK_FILE, None)]\<rparr>, wa_hot = empty_log\<rparr>"

lemma sample_room: "try_reserve sample_env m n"
  by (simp add: sample_env_def)

lemma kept_store_simps:
  "backend (store_backend kept_store) = Physical sample_content" "\<not> poisoned kept_store"
  by (simp_all add: kept_store_def PersistentHistoryStore_new_def)

lemma sample_sealable: "sealable sample_env (arena_denotes sample_env sample_seq) kept_store sample_spec sample_content 7 sample_seq"
proof -
  have "tabled kept_store sample_spec"
    by (simp add: tabled_def kept_store_def sample_spec_def PersistentHistoryStore_new_def spec_new_def fun_eq_iff lessThan_Suc)
  moreover have "stored (arena_denotes sample_env sample_seq) (versions kept_store) sample_spec"
    using arena_denotesI [OF sample_rep] by (simp add: stored_def kept_store_def sample_spec_def seam_root_def)
  moreover have "spec_inv sample_spec"
    by (rule embeds_inv [OF sample_embeds])
  ultimately show ?thesis
    using kept_store_simps sample_kept sample_opened by (simp add: sealable_def)
qed

lemma sample_descriptor:
  "snapshot_descriptor (physical_content sample_env) kept_store
     \<lparr>record_version = sample_version, record_root = Some (seam_root sample_root), record_len = 3\<rparr> = Inr (Some (encode_v2_root sample_root))"
proof -
  have "pcs_load_record sample_content 0 = Inr sample_record"
    using served_record [OF sample_env_ok _ sample_served, of sample_seq 0] sample_kept
    by (simp add: Physical_Commit.kept_def sample_seq_def)
  moreover have "V2RootRecord_from_node 0 sample_record = Inr sample_root"
    by (simp add: V2RootRecord_from_node_def sample_record_def sample_root_def V2_NONE_NODE_def width64_def)
  moreover have "root_node_id sample_root = 0"
    by (simp add: sample_root_def)
  ultimately show ?thesis
    by (simp add: snapshot_descriptor_def canonical_root_bytes_def resolve_def kept_store_def seam_root_def balanced_v2_def
        physical_content_simps)
qed

definition sample_snapshot :: HistorySnapshot where
  "sample_snapshot = snapshot_of (physical_content sample_env) kept_store 1 0 [Some (encode_v2_root sample_root)]"

lemma sample_descriptor_ok: "descriptor_ok (encode_v2_root sample_root)"
  using snapshot_descriptor_facts(2) [OF resolves_physical [OF kept_store_simps(1)] sample_descriptor] by simp

lemma sample_snapshot_ok: "snapshot_ok sample_snapshot"
proof -
  have "snapshot_frontiers (physical_content sample_env) kept_store = (3, 1)"
      "physical_generation (physical_content sample_env) (store_backend kept_store) = Some 7"
    by (simp_all add: snapshot_frontiers_def physical_frontiers_def physical_generation_def physical_content_def
        kept_store_def sample_content_def)
  then show ?thesis
    using sample_descriptor_ok
    by (simp add: snapshot_ok_def tables_ok_def sample_snapshot_def snapshot_of_def snapshot_version_def kept_store_def
        PersistentHistoryStore_new_def sample_version_def optional_ok_def version_ok_def parent_ok_def receipts_ok_def width64_def)
qed

lemma sample_encodes:
  "\<exists>bs. encode_history_snapshot_struct sample_env sample_snapshot = Inr bs \<and>
     encode_history_snapshot sample_env (physical_content sample_env) kept_store 1 0 = Inr bs"
proof -
  let ?bs = "prefix_image sample_snapshot @ snapshot_digest sample_env (prefix_image sample_snapshot)"
  have "length ?bs < width64"
    using sample_descriptor_ok
    by (simp add: descriptor_ok_def V2_ROOT_RECORD_SIZE_def length_prefix_image sample_snapshot_def snapshot_of_def body_image_def version_image_def optional_image_def
        parent_image_def snapshot_version_def kept_store_def PersistentHistoryStore_new_def HISTORY_SNAPSHOT_HEADER_SIZE_def
        snapshot_digest_def sample_env_def width64_def)
  then have "encode_history_snapshot_struct sample_env sample_snapshot = Inr ?bs"
    using encode_snapshot_iff [OF sample_room sample_env_ok sample_snapshot_ok] by blast
  moreover have "encode_history_snapshot sample_env (physical_content sample_env) kept_store 1 0 =
      encode_history_snapshot_struct sample_env sample_snapshot"
    using sample_descriptor
    by (simp add: encode_history_snapshot_def sample_snapshot_def reserve_def sample_room)
      (simp add: kept_store_def PersistentHistoryStore_new_def sample_version_def)
  ultimately show ?thesis
    by simp
qed

lemma cut_power_cut: "cut d (power_cut (nd_dir d))" "answering (power_cut (nd_dir d))"
proof -
  have same: "agreed xs xs = xs" for xs :: "byte list"
    by (induction xs) auto
  have "settles (dir_files (nd_dir d) n) (dir_files (power_cut (nd_dir d)) n)" for n
    using length_agreed [of "file_bytes f" "file_durable f" for f] le_less_trans
    by (cases "dir_files (nd_dir d) n") (auto simp: settles_def power_cut_def extends_def same)
  then show "cut d (power_cut (nd_dir d))"
    by (simp add: cut_def cut_at_def)
qed (rule power_cut_crash)

section \<open>Snapshots\<close>

text \<open>
  C24.  A snapshot has one image.  Decoding accepts exactly the bytes the encoder writes for a
  well-formed snapshot and gives that snapshot back: dense coordinates, parents earlier in the same
  history, sorted ledgers, a receipt order that names every receipt once, and the closing digest.
\<close>

theorem snapshot_codec_bijective:
  assumes "\<And>m n. try_reserve E m n" "sha_ok E"
  shows "decode_history_snapshot E bs = Inr snap \<longleftrightarrow> snapshot_ok snap \<and> encode_history_snapshot_struct E snap = Inr bs"
  using decode_snapshot_iff [OF assms, of bs snap] encode_snapshot_iff [OF assms, of snap bs] by blast

theorem snapshot_codec_bijective_witness:
  "\<exists>bs. encode_history_snapshot_struct sample_env sample_snapshot = Inr bs \<and>
     decode_history_snapshot sample_env bs = Inr sample_snapshot"
proof -
  obtain bs where "encode_history_snapshot_struct sample_env sample_snapshot = Inr bs"
    using sample_encodes by blast
  then show ?thesis
    using snapshot_codec_bijective [OF sample_room sample_env_ok, of bs sample_snapshot] sample_snapshot_ok by blast
qed

text \<open>
  C25.  A snapshot restores the catalogue.  The image of a store that holds a history decodes, and
  importing it over any content backend gives a live store with the same versions and roots, the
  same histories, expirations, receipts in their order and bindings.
\<close>

theorem snapshot_restores_catalogue:
  assumes "\<And>m n. try_reserve E m n" "sha_ok E" "tabled s a" "\<not> poisoned s" "stored den (versions s) a" "spec_inv a"
    "resolves_canonically P (store_backend s)" "g < width64" "w < width64"
    "fst (snapshot_frontiers P s) < width64" "snd (snapshot_frontiers P s) < width64"
    "case physical_generation P (store_backend s) of None \<Rightarrow> True | Some g \<Rightarrow> g < width64"
    "encode_history_snapshot E P s g w = Inr bs"
  shows "\<exists>snap. decode_history_snapshot E bs = Inr snap \<and> snap_generation snap = g \<and> snap_represented_wal_end snap = w \<and>
    (\<forall>b :: 'q BalancedSequence. \<exists>s'. import_catalogue E b snap = Inr s' \<and> store_backend s' = b \<and>
       versions s' = versions s \<and> tabled s' a \<and> \<not> poisoned s')"
  by (rule seal_import [OF assms, where ?'q = 'q]) blast

theorem snapshot_restores_catalogue_witness:
  "\<exists>bs snap. encode_history_snapshot sample_env (physical_content sample_env) kept_store 1 0 = Inr bs \<and>
     decode_history_snapshot sample_env bs = Inr snap \<and>
     (\<exists>s'. import_catalogue sample_env (on_disk sample_content no_work) snap = Inr s' \<and> versions s' = versions kept_store \<and>
       tabled s' sample_spec \<and> \<not> poisoned s')"
proof -
  obtain bs where bs: "encode_history_snapshot sample_env (physical_content sample_env) kept_store 1 0 = Inr bs"
    using sample_encodes by blast
  have s: "tabled kept_store sample_spec" "\<not> poisoned kept_store"
      "stored (arena_denotes sample_env sample_seq) (versions kept_store) sample_spec" "spec_inv sample_spec"
    using sample_sealable by (auto simp: sealable_def)
  have w: "fst (snapshot_frontiers (physical_content sample_env) kept_store) < width64"
      "snd (snapshot_frontiers (physical_content sample_env) kept_store) < width64"
      "case physical_generation (physical_content sample_env) (store_backend kept_store) of None \<Rightarrow> True | Some g \<Rightarrow> g < width64"
      "(1 :: nat) < width64" "(0 :: nat) < width64"
    by (simp_all add: snapshot_frontiers_def physical_frontiers_def physical_generation_def physical_content_def
        kept_store_def sample_content_def width64_def)
  from snapshot_restores_catalogue [OF sample_room sample_env_ok s resolves_physical [OF kept_store_simps(1)] w(4,5,1,2,3) bs,
      where ?'q = PhysicalContentStore] bs
  show ?thesis
    by meson
qed

section \<open>The manifest\<close>

text \<open>
  C26.  The manifest round trip.  For every reader of JSON that parses the texts of this shape,
  decoding the encoded manifest gives it back, sealed or not.
\<close>

theorem manifest_round_trip:
  assumes "serde_reads J" "manifest_ok m"
  shows "decode_history_manifest J (encode_history_manifest m) = Inr m"
  by (rule decode_encode_manifest [OF assms])

theorem manifest_round_trip_witness:
  "decode_history_manifest reference_reader (encode_history_manifest \<lparr>hm_generation = 41,
      hm_sealed = Some \<lparr>ms_byte_len = 17, ms_sha256 = replicate 32 171\<rparr>\<rparr>) =
    Inr \<lparr>hm_generation = 41, hm_sealed = Some \<lparr>ms_byte_len = 17, ms_sha256 = replicate 32 171\<rparr>\<rparr>"
  by (rule manifest_round_trip [OF reference_reader_reads]) (simp add: manifest_ok_def width64_def)

section \<open>Sealing\<close>

text \<open>
  C3.  Sealing is atomic.  Take an authority whose store holds a history with durable content, let any
  calls of the operating system fail while it is sealed, and cut the power at the end: unsynced
  directory entries may revert to any earlier binding and files keep only what their current and
  synced bytes agree on.  If the seal succeeded, opening the directory gives the sealed catalogue at
  the next generation over the same content.  If it failed with a definite error, every file of the
  previous authority is as a cut would have left it before the seal, and the store stays usable.  If
  the outcome is indeterminate, one of the two holds and the store is poisoned.
\<close>

theorem seal_old_or_new:
  assumes "\<And>m n. try_reserve E m n" "sha_ok E" "serde_reads J"
    "sealable E den (wa_store A) a st pg c" "pcs_dir st = nd_dir (wa_dir A)"
    "read_manifest J (nd_dir (wa_dir A)) = Inr m" "g = (case m of None \<Rightarrow> 0 | Some m \<Rightarrow> hm_generation m)"
    "seal E J lock A = (r, A')" "cut (wa_dir A') d'" "answering d'"
  shows "case r of
      Inr y \<Rightarrow> new_authority E J (wa_store A) a c (g + 1) d' \<and> seal_generation y = g + 1
    | Inl e \<Rightarrow> if indeterminate e
        then (old_authority g (wa_dir A) d' \<or> new_authority E J (wa_store A) a c (g + 1) d') \<and> poisoned (wa_store A')
        else old_authority g (wa_dir A) d' \<and> \<not> poisoned (wa_store A')"
  by (rule seal_atomic [OF assms])

lemma sample_authority_facts:
  "sealable sample_env (arena_denotes sample_env sample_seq) (wa_store sample_authority) sample_spec sample_content 7 sample_seq"
  "pcs_dir sample_content = nd_dir (wa_dir sample_authority)" "read_manifest J (nd_dir (wa_dir sample_authority)) = Inr None"
  "willing (nd_dir (wa_dir sample_authority))"
  "current_hot_wal_end sample_env (nd_dir (wa_dir sample_authority)) 0 = Inr 0"
  "dir_files (nd_dir (wa_dir sample_authority)) (history_wal_filename 1) = None"
proof -
  have absent: "dir_files sample_content_dir n = None" if "hd n = CHR ''h''" for n
    using that name_starts(3,4) [of 7] by (auto simp: sample_content_dir_def)
  have m: "fs_read sample_content_dir n = NotFound" if "hd n = CHR ''h''" for n
    using absent [OF that] by (simp add: fs_read_def) (simp add: sample_content_dir_def)
  show "read_manifest J (nd_dir (wa_dir sample_authority)) = Inr None"
    by (simp add: read_manifest_def sample_authority_def m name_starts)
  show "current_hot_wal_end sample_env (nd_dir (wa_dir sample_authority)) 0 = Inr 0"
    by (simp add: current_hot_wal_end_def sample_authority_def m name_starts decode_history_log_def scan_frames.simps
        try_from_def width64_def)
  show "dir_files (nd_dir (wa_dir sample_authority)) (history_wal_filename 1) = None"
    by (simp add: sample_authority_def absent name_starts)
  show "willing (nd_dir (wa_dir sample_authority))"
    using sample_willing by (simp add: sample_authority_def)
qed (simp_all add: sample_authority_def sample_sealable)

lemma sample_seals: "\<exists>y A'. seal sample_env reference_reader LockGranted sample_authority = (Inr y, A')"
proof -
  obtain bs where bs: "encode_history_snapshot sample_env (physical_content sample_env) kept_store 1 0 = Inr bs"
    using sample_encodes by blast
  have "\<exists>y A'. seal sample_env reference_reader LockGranted sample_authority = (Inr y, A') \<and> seal_generation y = 0 + 1"
    by (rule seal_completes [OF sample_room sample_env_ok sample_authority_facts(1,2,4,3)])
      (use sample_authority_facts bs in \<open>simp_all add: width64_def sample_authority_def\<close>)
  then show ?thesis
    by blast
qed

theorem seal_old_or_new_witness:
  "\<exists>y A'. seal sample_env reference_reader LockGranted sample_authority = (Inr y, A') \<and>
    new_authority sample_env reference_reader kept_store sample_spec sample_seq 1 (power_cut (nd_dir (wa_dir A'))) \<and>
    seal_generation y = 1"
proof -
  obtain y A' where run: "seal sample_env reference_reader LockGranted sample_authority = (Inr y, A')"
    using sample_seals by blast
  from seal_old_or_new [OF sample_room sample_env_ok reference_reader_reads sample_authority_facts(1,2,3) refl run cut_power_cut] run
  show ?thesis
    by (simp add: sample_authority_def)
qed

text \<open>
  C28.  Sealing gets through.  Take a store that represents a history over durable content, on a
  directory that grants every call, serves every read and holds a manifest and hot log as the code
  writes them (none before the first seal), with no other hot log left under the next generation's
  name.  When allocations are granted, the next generation fits 64 bits and so does the longest
  snapshot of that many histories and versions, a seal succeeds and reports the next generation,
  whatever the lifecycles, bindings and receipts of the catalogue: versions that expired and lost
  their roots to a collection included.
\<close>

theorem seal_available:
  assumes "\<And>m n. try_reserve E m n" "sha_ok E" "serde_reads J"
    "sealable E (arena_denotes E c) (wa_store A) a st pg c" "pcs_dir st = nd_dir (wa_dir A)"
    "willing (nd_dir (wa_dir A))" "authority_files E (nd_dir (wa_dir A)) m"
    "g = (case m of None \<Rightarrow> 0 | Some m \<Rightarrow> hm_generation m)" "g + 1 < width64"
    "snapshot_bound (next_history_id (wa_store A)) (next_version_id (wa_store A)) < width64"
    "\<And>f. dir_files (nd_dir (wa_dir A)) (history_wal_filename (g + 1)) = Some f \<Longrightarrow> file_bytes f = []"
  shows "\<exists>y A'. seal E J LockGranted A = (Inr y, A') \<and> seal_generation y = g + 1"
  by (rule seal_gets_through [OF assms])

text \<open>
  An authority at generation 4 with two versions in its catalogue: the first is retained, the second
  expired and its root was collected.
\<close>

definition sealed_dir :: Directory where
  "sealed_dir = sample_content_dir\<lparr>dir_files := (dir_files sample_content_dir)
     (HISTORY_MANIFEST_FILE := Some \<lparr>file_bytes = encode_history_manifest
        \<lparr>hm_generation = 4, hm_sealed = Some \<lparr>ms_byte_len = 17, ms_sha256 = replicate 32 171\<rparr>\<rparr>, file_durable = []\<rparr>,
      history_wal_filename 4 := Some \<lparr>file_bytes = [], file_durable = []\<rparr>)\<rparr>"

definition collected_version :: Version where
  "collected_version = \<lparr>version_history = 0, version_id = 1, version_parent = Some 0\<rparr>"

definition collected_store :: "PhysicalContentStore PersistentHistoryStore" where
  "collected_store = kept_store\<lparr>store_backend := on_disk (sample_content\<lparr>pcs_dir := sealed_dir\<rparr>) no_work, next_version_id := 2,
     versions := [\<lparr>record_version = sample_version, record_root = Some (seam_root sample_root), record_len = 3\<rparr>,
       \<lparr>record_version = collected_version, record_root = None, record_len = 2\<rparr>], expired_versions := [1]\<rparr>"

definition collected_spec :: HistorySpec where
  "collected_spec = sample_spec\<lparr>sp_versions := [(sample_version, [10, 20, 30]), (collected_version, [5, 6])], sp_expired := {1}\<rparr>"

definition collected_authority :: WritableHistoryAuthority where
  "collected_authority = \<lparr>wa_store = collected_store, wa_generation = 4,
     wa_stats = \<lparr>snapshot_versions = 2, suffix_bytes = 0\<rparr>, wa_dir = \<lparr>nd_dir = sealed_dir, nd_older = []\<rparr>, wa_hot = empty_log\<rparr>"

lemma sealed_dir_files:
  "dir_files sealed_dir (content_payload_filename 7) = dir_files sample_content_dir (content_payload_filename 7)"
  "dir_files sealed_dir (content_nodes_filename 7) = dir_files sample_content_dir (content_nodes_filename 7)"
  "dir_files sealed_dir (history_wal_filename 5) = None"
proof -
  have "dir_files sample_content_dir (history_wal_filename 5) = None"
    using name_starts(1) [of 5] name_starts(3,4) [of 7] by (auto simp: sample_content_dir_def)
  moreover have "history_wal_filename 5 \<noteq> history_wal_filename 4"
    using generation_named_names(1) [of 4] generation_named_names(1) [of 5] by (auto simp: width64_def)
  ultimately show "dir_files sealed_dir (history_wal_filename 5) = None"
    by (simp add: sealed_dir_def entry_names_differ')
qed (simp_all add: sealed_dir_def entry_names_differ')

lemma all_less_two: "(\<forall>i<Suc (Suc 0). P i) \<longleftrightarrow> P 0 \<and> P (Suc 0)"
  by (auto simp: less_Suc_eq)

lemma collected_sealable:
  "sealable sample_env (arena_denotes sample_env sample_seq) collected_store collected_spec (sample_content\<lparr>pcs_dir := sealed_dir\<rparr>) 7 sample_seq"
proof -
  let ?st = "sample_content\<lparr>pcs_dir := sealed_dir\<rparr>"
  have "tabled collected_store collected_spec"
    by (simp add: tabled_def collected_store_def collected_spec_def kept_store_def sample_spec_def PersistentHistoryStore_new_def
        spec_new_def fun_eq_iff lessThan_Suc)
  moreover have "stored (arena_denotes sample_env sample_seq) (versions collected_store) collected_spec"
    using arena_denotesI [OF sample_rep] by (simp add: stored_def collected_store_def collected_spec_def seam_root_def collected_version_def)
  moreover have "spec_inv collected_spec"
    by (simp add: spec_inv_def catalogue_inv_def ledger_inv_def ledger_upto_def binding_inv_def collected_spec_def sample_spec_def
        spec_new_def sample_version_def collected_version_def width64_def all_less_two)
  moreover have "opened ?st"
    using sample_opened by (simp add: opened_def)
  moreover have "kept True sample_env 7 sample_seq ?st"
    using sample_kept sample_opened \<open>opened ?st\<close>
    by (simp add: kept_def committed_def files_hold_def holds_def starts_with_def sealed_dir_files)
  ultimately show ?thesis
    by (simp add: sealable_def collected_store_def kept_store_def PersistentHistoryStore_new_def on_disk_def)
qed

theorem seal_available_witness:
  "\<exists>y A'. seal sample_env reference_reader LockGranted collected_authority = (Inr y, A') \<and> seal_generation y = 5"
proof -
  let ?m = "\<lparr>hm_generation = 4, hm_sealed = Some \<lparr>ms_byte_len = 17, ms_sha256 = replicate 32 171\<rparr>\<rparr>"
  have "log_bytes sample_env []"
    using sample_logged unfolding log_bytes_def by (fastforce simp: width64_def intro: exI [of _ "[]"])
  then have files: "authority_files sample_env sealed_dir (Some ?m)"
    by (simp add: authority_files_def manifest_ok_def width64_def sealed_dir_def entry_names_differ')
  have "willing sealed_dir"
    using sample_willing by (simp add: sealed_dir_def willing_def answering_def)
  then have "\<exists>y A'. seal sample_env reference_reader LockGranted collected_authority = (Inr y, A') \<and> seal_generation y = 4 + 1"
    using collected_sealable sealed_dir_files(3) files
    by (intro seal_available [OF sample_room sample_env_ok reference_reader_reads, where m = "Some ?m" and a = collected_spec
        and st = "sample_content\<lparr>pcs_dir := sealed_dir\<rparr>" and pg = 7 and c = sample_seq])
      (simp_all add: collected_authority_def collected_store_def kept_store_def PersistentHistoryStore_new_def snapshot_bound_def
        HISTORY_SNAPSHOT_HEADER_SIZE_def MAX_HISTORY_BINDING_BYTES_def MAX_HISTORY_REQUEST_ID_BYTES_def V2_ROOT_RECORD_SIZE_def
        STAGING_REQUEST_RECEIPT_CAPACITY_def width64_def)
  then show ?thesis
    by simp
qed

section \<open>Cleanup\<close>

text \<open>
  C27.  Cleanup keeps the current authority.  Whatever the listing and whichever calls fail, removing
  superseded files leaves the manifest, the lock, and the hot log, snapshot and content files of the
  current generations as they are, also after a power cut; every entry it changes is gone and was
  obsolete.  A cleanup that reports completion has removed, durably, every listed file of another
  generation and every listed temporary file.
\<close>

theorem cleanup_keeps_current:
  assumes "g < width64" "p < width64" "cleanup_superseded_generations listing g (Some p) d = (complete, d')" "cut d' d''"
  shows "(\<forall>n\<in>current_files g p. dir_files (nd_dir d') n = dir_files (nd_dir d) n \<and> cut_at d d'' n) \<and>
    (\<forall>n. dir_files (nd_dir d') n \<noteq> dir_files (nd_dir d) n \<longrightarrow> dir_files (nd_dir d') n = None \<and> obsolete_file g (Some p) n) \<and>
    (complete \<longrightarrow> (\<exists>entries. listing = Some entries \<and>
      (\<forall>n\<in>leftover_files g p. Named n \<in> set entries \<longrightarrow> dir_files (nd_dir d') n = None \<and> dir_files d'' n = None)))"
  by (rule cleanup_safe [OF assms])

definition sample_leftovers :: NamedDirectory where
  "sample_leftovers = \<lparr>nd_dir = sample_content_dir\<lparr>dir_files := (dir_files sample_content_dir)
     (history_wal_filename 4 := Some \<lparr>file_bytes = [1], file_durable = []\<rparr>)\<rparr>, nd_older = []\<rparr>"

theorem cleanup_keeps_current_witness:
  "\<exists>d'. cleanup_superseded_generations (Some [NotUnicode, Named (history_wal_filename 4), Named (content_nodes_filename 7)]) 5 (Some 7)
      sample_leftovers = (True, d') \<and>
    dir_files (nd_dir d') (history_wal_filename 4) = None \<and>
    dir_files (nd_dir d') (content_nodes_filename 7) = dir_files sample_content_dir (content_nodes_filename 7)"
proof -
  let ?entries = "[NotUnicode, Named (history_wal_filename 4), Named (content_nodes_filename 7)]"
  have w: "(4 :: nat) < width64" "(5 :: nat) < width64" "(7 :: nat) < width64"
    by (simp_all add: width64_def)
  have ob: "obsolete_file 5 (Some 7) (history_wal_filename 4)" "\<not> obsolete_file 5 (Some 7) (content_nodes_filename 7)"
    using other_files_obsolete(1) [OF w(1), of 5] current_files_kept [OF w(2,3)] by simp_all
  have ws: "willing (nd_dir sample_leftovers)"
    using sample_willing by (simp add: sample_leftovers_def willing_def answering_def)
  obtain x where x: "next_answer (nd_dir sample_leftovers) = (Granted, x)" "willing x" "dir_files x = dir_files (nd_dir sample_leftovers)"
    by (rule willing_answer [OF ws])
  let ?d1 = "\<lparr>nd_dir = x\<lparr>dir_files := (dir_files x)(history_wal_filename 4 := None)\<rparr>,
     nd_older = [(history_wal_filename 4, Some \<lparr>file_bytes = [1], file_durable = []\<rparr>)]\<rparr>"
  have "remove_file (history_wal_filename 4) sample_leftovers = (True, ?d1)"
    using x(1) by (simp add: remove_file_def) (simp add: sample_leftovers_def)
  moreover obtain d2 where "sync_dir ?d1 = (True, d2)"
    using sync_available [of ?d1] x(2) by (auto simp: willing_def answering_def)
  ultimately have run: "cleanup_superseded_generations (Some ?entries) 5 (Some 7) sample_leftovers = (True, d2)"
    using ob by (simp add: cleanup_superseded_generations_def)
  have "history_wal_filename 4 \<in> leftover_files 5 7" "content_nodes_filename 7 \<in> current_files 5 7"
    using w(1) by (auto simp: leftover_files_def current_files_def intro: exI [of _ 4])
  then show ?thesis
    using cleanup_keeps_current [OF w(2,3) run cut_power_cut(1)] run
    by (auto simp: sample_leftovers_def entry_names_differ')
qed

end
