(* ===== verification/Spec2Isabelle.thy ===== *)
theory Spec2Isabelle
  imports History_Authority_Properties
begin

text \<open>
  Verification of the core of \<open>tulya-checkpoint-store\<close>: the persistent byte sequences of
  \<open>crates/tulya-core/src/persistent_sequence\<close> and the version history built on them in
  \<open>crates/tulya-core/src/persistent_history\<close>: the store, the durable log and its crash recovery, and
  the generations a history directory is sealed into.

  \<^bold>\<open>The program.\<close>  A version is an immutable byte string.  It is stored as a balanced tree of
  leaves of at most 16 KiB in an arena of nodes and payload bytes; an edit (a splice) allocates
  the changed path and shares the rest, and every node carries a hash commitment.  The sequence
  seam \<open>BalancedSequence\<close> puts one interface over the in-memory arena and a file-backed one.
  The history store keeps histories, versions with their parents, expiration marks, a bounded
  ledger of request receipts that makes retries idempotent, and adapter bindings.  Its durable
  form writes every mutation to a log of framed, checksummed records, syncs it, and only then
  applies it in memory; opening the log replays it.  A directory holds generations of such a store:
  a seal writes a snapshot of the catalogue and an empty log beside their final names, syncs and
  renames them, and replaces the manifest last; quiescent collection does so with compacted content
  and removes the files of other generations afterwards.

  \<^bold>\<open>Theories and sources.\<close>  In the order of the imports:

  \<^item> \<open>Tulya_Prelude\<close>: machine widths (64-bit values are naturals below \<open>width64\<close> with checked
    operations written out, bytes are \<open>8 word\<close>), results as sums, the state monad \<open>prog\<close> with
    errors and divergence (\<open>None\<close>), little-endian codecs, and the environment \<open>env\<close>: the hash
    function and the allocator.
  \<^item> \<open>Format_V2\<close> (\<open>format_v2.rs\<close>): node and root records, commitments, codecs.  \<open>Image_V2\<close>
    (\<open>image_v2.rs\<close>): images of a whole arena.
  \<^item> \<open>Avl_V2\<close> (\<open>avl.rs\<close>): the algorithms over the trait \<open>ArenaStore\<close>, here a record of
    operations.  \<open>Avl_Tree\<close> has the trees they represent, \<open>Avl_Correct\<close> the locale \<open>arena_store\<close>
    (the laws of an arena) with the correctness of every algorithm proved inside it, \<open>Avl_Frame\<close>
    the locale \<open>arena_relation\<close> for relations that every operation keeps, and \<open>Avl_Memory\<close> the
    in-memory arena \<open>V2AvlSequence\<close>, its interpretations of the two locales and its properties.
    \<open>Avl_Budget\<close> is the locale \<open>metered_arena\<close>, an arena whose allocations have a cost: how many nodes
    and payload bytes each algorithm takes at most, so that it succeeds on tables with that much room.
  \<^item> \<open>Compaction_V2\<close> (\<open>compaction_v2.rs\<close> and \<open>compact_to_roots\<close> of \<open>avl.rs\<close>): reachability,
    repacking and reconstruction; \<open>Compaction_Correct\<close> and \<open>Compaction_Memory\<close> prove it.
  \<^item> \<open>Sequence_Seam\<close> (\<open>persistent_sequence.rs\<close>): \<open>BalancedSequence\<close> over both backends; the
    operations of the file-backed store are the record \<open>PhysicalContent\<close>.  \<open>Sequence_Contract\<close> is
    the locale \<open>sequence_backend\<close>, what the history store relies on, interpreted as \<open>seam\<close> on the
    in-memory backend, and its extension \<open>roomy_backend\<close>, which says when a splice must succeed
    (interpretation \<open>roomy\<close>).
  \<^item> \<open>Directory_Io\<close>: a directory of files, each with its current and its synced bytes; every call
    that changes it takes its answer from a list (granted, or refused after some bytes), reads may
    be cut anywhere or fail; names and their parsing.  \<open>Physical_Content\<close> (\<open>physical.rs\<close>): the
    store \<open>PhysicalContentStore\<close> over a payload and a node file, the view \<open>DeltaView\<close> a splice is
    prepared on, deltas and their validation, the commit protocol, replay and compaction into a new
    generation, as the instance \<open>physical_content\<close> of the seam's record.
  \<^item> \<open>Avl_Simulation\<close>: the locales \<open>arena_readings\<close> and \<open>arena_simulation\<close>, two arenas that answer
    alike run every algorithm alike.  \<open>Physical_Reads\<close> and \<open>Physical_View\<close> interpret them on the
    store and on the view against the in-memory arena; \<open>Physical_Delta\<close>: preparation and replay;
    \<open>Physical_Commit\<close>: a calculus of runs that keep the committed bytes, and the protocol in it;
    \<open>Physical_Generation\<close>: opening, crashes, compaction; \<open>Physical_Seam\<close>: the seam over files
    against the seam in memory (locale \<open>content_readings\<close>); \<open>Physical_Available\<close>: what succeeds when
    the medium serves; \<open>Physical_Properties\<close>: the properties.
  \<^item> \<open>Hash_Tables\<close>, \<open>History_Store\<close>, \<open>History_Gc\<close>, \<open>History_Replay\<close> (\<open>persistent_history/mod.rs\<close>):
    the record \<open>PersistentHistoryStore\<close> with the fields of the source and one definition per
    operation; each mutation is a preview that changes nothing and an application, as in the code.
  \<^item> \<open>History_Log\<close>, \<open>History_Log_Codec\<close>, \<open>History_Durable\<close> (\<open>durable_log.rs\<close> and the \<open>*_durable\<close>
    operations of \<open>mod.rs\<close>): record and frame codecs, the scan with its torn-tail rule, recovery,
    and the durable operations, with the outcome of every file call an explicit choice.
  \<^item> \<open>History_Spec\<close>: the abstract history, its events, its invariant \<open>spec_inv\<close> and the exact
    condition \<open>enabled\<close> of each event.  \<open>History_Refinement\<close>, \<open>History_Gc_Correct\<close> and
    \<open>History_Replay_Correct\<close>: the store implements it, for any backend with the contract.
  \<^item> \<open>History_Crash\<close>: the system as the inductive relation \<open>durable_run\<close> of client operations,
    I/O failures and crashes; \<open>History_Recovery\<close>: its invariant; \<open>History_Operations\<close>: the
    outcome of every operation on every branch; \<open>History_Properties\<close>: the properties, for the
    in-memory backend.
  \<^item> \<open>History_Snapshot\<close> (\<open>snapshot.rs\<close>): the snapshot artifact, its encoder and decoder;
    \<open>History_Snapshot_Codec\<close>: what they accept and write.  \<open>History_Import\<close> (\<open>import_physical_snapshot\<close>
    and \<open>import_physical_genesis\<close> of \<open>mod.rs\<close>) and \<open>History_Import_Correct\<close>: a sealed catalogue comes
    back.  \<open>History_Manifest\<close> and \<open>History_Manifest_Codec\<close> (\<open>manifest.rs\<close>): file names and the
    manifest; the JSON reader is the parameter \<open>J\<close> with the hypothesis \<open>serde_reads\<close>, met by
    \<open>reference_reader\<close>.
  \<^item> \<open>History_Authority\<close> (\<open>authority.rs\<close>): opening a directory, the writer, sealing, collection and
    cleanup over \<open>NamedDirectory\<close>, a directory with the entries replaced since its last sync.
    \<open>History_Publication\<close>: what each call leaves untouched, power cuts (\<open>cut\<close>), and that sealing is
    atomic; \<open>History_Cleanup\<close>: cleanup, and that the calls of a seal are granted one after the other;
    \<open>History_Sealing\<close>: every catalogue within bounds has a snapshot, so a seal gets through;
    \<open>History_Authority_Properties\<close>: the properties.

  \<^bold>\<open>What is proved.\<close>  Sequences: a splice yields exactly the edited bytes, keeps every older
  version, rolls back on error, terminates, and rejects invalid operands with the exact error;
  reads are exact; verification decides resolvability; commitments bind the content up to
  a collision of the hash; concatenation balances, so heights stay logarithmic, within a stated
  number of new nodes; codecs are bijections on canonical values;
  import validates images completely; compaction keeps every retained version and exactly the
  reachable nodes.  Histories: every operation refines its abstract event and errors change
  nothing; live execution and replay agree; collection is invisible; requests are idempotent and
  conflicts are detected; the receipt ledger stays within its capacity; with memory, disk and room in
  the tables an allowed splice commits.  Durability: in every run
  with any I/O failures and any crashes, the store implements the acknowledged events, and
  recovery loses none of them and adds at most the one that was in flight.  Content files: a splice
  over files implements the in-memory splice whatever the calls answer, succeeds when they are
  granted, and survives crashes; reads agree with memory; replay accepts exactly the committed
  delta; opening fails closed, healing cuts orphan tails only, compaction keeps the old generation
  and every retained root.  Generations: the snapshot codec is a bijection on well-formed snapshots
  and import restores the catalogue; the manifest round-trips; after a seal with any failing calls
  and a power cut the directory opens to the sealed catalogue, or holds the old authority as it was,
  according to the answer; a seal on a directory that grants its calls succeeds; cleanup never
  touches the current authority.

  \<^bold>\<open>Assumptions.\<close>  The hash function is a parameter; only its output length is assumed, and
  statements that depend on collision resistance name the possible collision.  The allocator
  answers each reservation by its site and size; where memory is short, the properties say which
  errors may appear (\<open>out_of_space\<close>); the claims that an operation succeeds (a splice in memory or
  over files, a concatenation, a seal) allow no error and name the room they need instead.  A crash keeps the bytes of the log that were synced and a
  prefix of what was written after them; of a content file that was ever synced it keeps its name
  and at least the bytes on which its current and its synced contents agree; files stay below
  \<open>2 ^ 64\<close> bytes.  The loops of the AVL
  algorithms are partial functions whose termination on well-formed arenas is proved; no fuel is
  used.

  A power cut may bind a name to its current file or to any file it was bound to since the last sync
  of the directory; renames are atomic.

  \<^bold>\<open>Not modelled.\<close>  The checkpoint-version pipeline over the
  sequences (\<open>transaction_v2.rs\<close>, \<open>commit_v2.rs\<close>, \<open>apply_v2.rs\<close>, \<open>publication_v2.rs\<close>,
  \<open>recovery_v2.rs\<close>, \<open>snapshot_v2.rs\<close>, \<open>hot_frame_v2.rs\<close>, \<open>backend_v2.rs\<close>) and the planning around
  compaction; the version 1 store under \<open>src/src\<close> and the command-line programs.  File locks appear
  only as the answer of an attempt to take them; the I/O ledger and timing are left out everywhere.
  The properties of the history store are stated for the in-memory backend; the seam over files
  answers as that backend up to faults of the medium.
\<close>

end
